(* ===== verification/LKPrelude.thy ===== *)
theory LKPrelude
  imports Main "HOL-Library.Word"
begin

text \<open>
  Shared vocabulary of the development: the machine integers of the Rust code, byte
  strings, the outcome type that keeps a returned value, a returned error and a panic
  apart, big-endian integers, and the generic lemmas on lists and maps that several
  components use.  The collections \<open>rust_simps\<close> and \<open>be_simps\<close> hold the rewrite rules
  that the component theories hand to \<open>simp\<close>.
\<close>

named_theorems rust_simps
named_theorems be_simps

section \<open>Machine integers and bytes\<close>

type_synonym u8 = "8 word"
type_synonym u16 = "16 word"
type_synonym u32 = "32 word"
type_synonym u64 = "64 word"
type_synonym i32 = "32 word"

text \<open>A \<open>Bytes\<close>, \<open>Vec<u8>\<close> or byte slice is the list of its bytes.\<close>

type_synonym bytes = "8 word list"

section \<open>Outcomes: value, error or panic\<close>

text \<open>
  A Rust function returning \<open>Result<T, E>\<close> ends in one of three ways: \<open>Ok\<close>, \<open>Err\<close>, or a
  panic (a failed \<open>assert!\<close>, an out-of-range read, an \<open>unwrap\<close> of nothing).  The third is
  a value of the model, so that its absence is something to prove.
\<close>

datatype ('e, 'a) outcome = Ok 'a | Err 'e | Panic

fun and_then :: "('e, 'a) outcome \<Rightarrow> ('a \<Rightarrow> ('e, 'b) outcome) \<Rightarrow> ('e, 'b) outcome" where
  "and_then (Ok a) f = f a"
| "and_then (Err e) f = Err e"
| "and_then Panic f = Panic"

fun is_ok :: "('e, 'a) outcome \<Rightarrow> bool" where
  "is_ok (Ok _) = True"
| "is_ok (Err _) = False"
| "is_ok Panic = False"

lemma and_then_Ok_iff [rust_simps]:
  "and_then x f = Ok b \<longleftrightarrow> (\<exists>a. x = Ok a \<and> f a = Ok b)"
  by (cases x) auto

lemma and_then_Err_iff [rust_simps]:
  "and_then x f = Err e \<longleftrightarrow> x = Err e \<or> (\<exists>a. x = Ok a \<and> f a = Err e)"
  by (cases x) auto

lemma and_then_Panic_iff [rust_simps]:
  "and_then x f = Panic \<longleftrightarrow> x = Panic \<or> (\<exists>a. x = Ok a \<and> f a = Panic)"
  by (cases x) auto

lemma and_then_cong [fundef_cong]:
  "x = y \<Longrightarrow> (\<And>a. y = Ok a \<Longrightarrow> f a = g a) \<Longrightarrow> and_then x f = and_then y g"
  by (cases y) auto

section \<open>Big-endian integers\<close>

text \<open>
  \<open>to_be_bytes\<close> and \<open>from_be_bytes\<close> of the unsigned integer types, at any width:
  \<open>be_bytes k n\<close> is the \<open>k\<close>-byte big-endian form of \<open>n\<close> and \<open>be_value\<close> reads it back.
\<close>

primrec be_bytes :: "nat \<Rightarrow> nat \<Rightarrow> bytes" where
  "be_bytes 0 n = []"
| "be_bytes (Suc k) n = be_bytes k (n div 256) @ [of_nat n]"

definition be_value :: "bytes \<Rightarrow> nat" where
  "be_value bs = foldl (\<lambda>acc b. acc * 256 + unat b) 0 bs"

lemma length_be_bytes [simp]: "length (be_bytes k n) = k"
  by (induction k arbitrary: n) auto

lemma be_value_snoc: "be_value (bs @ [b]) = be_value bs * 256 + unat b"
  by (simp add: be_value_def)

lemma be_value_Nil [simp]: "be_value [] = 0"
  by (simp add: be_value_def)

lemma be_value_be_bytes: "be_value (be_bytes k n) = n mod 256 ^ k"
proof (induction k arbitrary: n)
  case 0
  then show ?case by simp
next
  case (Suc k)
  have "be_value (be_bytes (Suc k) n) = (n div 256) mod 256 ^ k * 256 + n mod 256"
    by (simp add: be_value_snoc Suc.IH unat_of_nat take_bit_eq_mod)
  also have "\<dots> = n mod (256 * 256 ^ k)"
    by (simp add: mod_mult2_eq)
  finally show ?case by simp
qed

text \<open>A value that fits its width survives the round trip.\<close>

lemma be_value_be_bytes_small: "n < 256 ^ k \<Longrightarrow> be_value (be_bytes k n) = n"
  by (simp add: be_value_be_bytes)

definition to_be16 :: "u16 \<Rightarrow> bytes" where "to_be16 w = be_bytes 2 (unat w)"
definition to_be32 :: "u32 \<Rightarrow> bytes" where "to_be32 w = be_bytes 4 (unat w)"
definition to_be64 :: "u64 \<Rightarrow> bytes" where "to_be64 w = be_bytes 8 (unat w)"
definition from_be16 :: "bytes \<Rightarrow> u16" where "from_be16 bs = of_nat (be_value bs)"
definition from_be32 :: "bytes \<Rightarrow> u32" where "from_be32 bs = of_nat (be_value bs)"
definition from_be64 :: "bytes \<Rightarrow> u64" where "from_be64 bs = of_nat (be_value bs)"

lemma unat_lt_256:
  fixes w16 :: u16 and w32 :: u32 and w64 :: u64
  shows "unat w16 < 256 ^ 2" "unat w32 < 256 ^ 4" "unat w64 < 256 ^ 8"
  using unsigned_less [of w16, where ?'a = nat] unsigned_less [of w32, where ?'a = nat]
    unsigned_less [of w64, where ?'a = nat]
  by simp_all

lemma be_lengths [simp, be_simps]:
  "length (to_be16 w16) = 2" "length (to_be32 w32) = 4" "length (to_be64 w64) = 8"
  by (simp_all add: to_be16_def to_be32_def to_be64_def)

lemma be_roundtrips [simp, be_simps]:
  "from_be16 (to_be16 w16) = w16" "from_be32 (to_be32 w32) = w32" "from_be64 (to_be64 w64) = w64"
  using unat_lt_256(1) [of w16] unat_lt_256(2) [of w32] unat_lt_256(3) [of w64]
  by (simp_all add: to_be16_def to_be32_def to_be64_def from_be16_def from_be32_def from_be64_def
      be_value_be_bytes_small)

section \<open>Lists\<close>

lemma drop_append_length [simp]: "length xs = n \<Longrightarrow> drop n (xs @ ys) = ys"
  by simp

lemma take_append_length [simp]: "length xs = n \<Longrightarrow> take n (xs @ ys) = xs"
  by simp

text \<open>Ceiling division, the \<open>div_ceil\<close> of Rust's unsigned integers.\<close>

definition div_ceil :: "nat \<Rightarrow> nat \<Rightarrow> nat" where
  "div_ceil a b = (a + b - 1) div b"

lemma div_ceil_0 [simp]: "0 < b \<Longrightarrow> div_ceil 0 b = 0"
  by (simp add: div_ceil_def)

lemma div_ceil_add: "0 < b \<Longrightarrow> div_ceil (a + b) b = Suc (div_ceil a b)"
proof -
  assume b: "0 < b"
  then have "a + b + b - 1 = b + (a + b - 1)" by simp
  then have "div_ceil (a + b) b = (b + (a + b - 1)) div b" by (simp only: div_ceil_def)
  also have "\<dots> = Suc ((a + b - 1) div b)" using b by (simp only: div_add_self1)
  finally show ?thesis by (simp add: div_ceil_def)
qed

lemma div_ceil_small: "0 < a \<Longrightarrow> a \<le> b \<Longrightarrow> div_ceil a b = 1"
proof -
  assume a: "0 < a" "a \<le> b"
  then have "a + b - 1 = b + (a - 1)" by simp
  then have "div_ceil a b = (b + (a - 1)) div b" by (simp only: div_ceil_def)
  also have "\<dots> = Suc ((a - 1) div b)" using a by (subst div_add_self1) simp_all
  finally show ?thesis using a by simp
qed

end
