(* ===== verification/LKInterfaces.thy ===== *)
theory LKInterfaces
  imports LKPrelude
begin

text \<open>
  The interfaces through which the components rely on each other, as locales: a wire codec
  (what is encoded can be decoded), a machine that handles one event at a time and keeps an
  invariant, a machine whose steps are not always enabled, and a first-in first-out queue.  Each is interpreted on the model of the code in
  the theory of the component that provides it.
\<close>

section \<open>Codecs\<close>

text \<open>Decoding a sequence of messages, as a loop that stops at the first failure.\<close>

fun decode_all :: "('w \<Rightarrow> ('e, 'a) outcome) \<Rightarrow> 'w list \<Rightarrow> ('e, 'a list) outcome" where
  "decode_all decode [] = Ok []"
| "decode_all decode (w # ws) =
     and_then (decode w) (\<lambda>a. and_then (decode_all decode ws) (\<lambda>as. Ok (a # as)))"

locale codec =
  fixes valid :: "'a \<Rightarrow> bool"
    and encode :: "'a \<Rightarrow> 'w"
    and decode :: "'w \<Rightarrow> ('e, 'a) outcome"
  assumes decode_encode: "valid x \<Longrightarrow> decode (encode x) = Ok x"
begin

lemma encode_inj: "valid x \<Longrightarrow> valid y \<Longrightarrow> encode x = encode y \<Longrightarrow> x = y"
  by (metis decode_encode outcome.inject(1))

lemma decode_all_encode: "list_all valid xs \<Longrightarrow> decode_all decode (map encode xs) = Ok xs"
  by (induction xs) (simp_all add: decode_encode)

end

section \<open>Event machines\<close>

text \<open>A component that owns its state and handles one event after the other, with outputs.\<close>

fun run_events :: "('s \<Rightarrow> 'e \<Rightarrow> 's \<times> 'o list) \<Rightarrow> 's \<Rightarrow> 'e list \<Rightarrow> 's \<times> 'o list" where
  "run_events step s [] = (s, [])"
| "run_events step s (e # es) =
     (let (s', out) = step s e; (s'', outs) = run_events step s' es in (s'', out @ outs))"

lemma run_events_append:
  "run_events step s (es @ fs) =
    (let (s', out) = run_events step s es; (s'', outs) = run_events step s' fs in (s'', out @ outs))"
  by (induction es arbitrary: s) (auto simp: Let_def split: prod.splits)

locale event_machine =
  fixes step :: "'s \<Rightarrow> 'e \<Rightarrow> 's \<times> 'o list"
    and valid :: "'e \<Rightarrow> bool"
    and inv :: "'s \<Rightarrow> bool"
  assumes step_inv: "inv s \<Longrightarrow> valid e \<Longrightarrow> inv (fst (step s e))"
begin

lemma run_inv: "inv s \<Longrightarrow> list_all valid es \<Longrightarrow> inv (fst (run_events step s es))"
proof (induction es arbitrary: s)
  case Nil
  then show ?case by simp
next
  case (Cons e es)
  then have "inv (fst (step s e))" by (simp add: step_inv)
  then have "inv (fst (run_events step (fst (step s e)) es))"
    using Cons.prems by (intro Cons.IH) simp_all
  then show ?case by (simp add: Let_def split_beta)
qed

end

text \<open>A machine whose every output satisfies a guarantee while the invariant holds.\<close>

locale guaranteed_machine = event_machine step valid inv
  for step :: "'s \<Rightarrow> 'e \<Rightarrow> 's \<times> 'o list" and valid :: "'e \<Rightarrow> bool" and inv :: "'s \<Rightarrow> bool" +
  fixes ok :: "'o \<Rightarrow> bool"
  assumes step_ok: "inv s \<Longrightarrow> valid e \<Longrightarrow> list_all ok (snd (step s e))"
begin

lemma run_ok: "inv s \<Longrightarrow> list_all valid es \<Longrightarrow> list_all ok (snd (run_events step s es))"
proof (induction es arbitrary: s)
  case Nil
  then show ?case by simp
next
  case (Cons e es)
  have e: "valid e" and rest: "list_all valid es" using Cons.prems by simp_all
  have "inv (fst (step s e))" using Cons.prems(1) e by (rule step_inv)
  from Cons.IH [OF this rest] step_ok [OF Cons.prems(1) e] show ?case
    by (simp add: Let_def split_beta)
qed

end

text \<open>An event that is always accepted: the machine makes no assumption on what arrives.\<close>

definition any_event :: "'e \<Rightarrow> bool" where
  "any_event e = True"

lemma any_event [simp]: "any_event e" "list_all any_event es"
  by (simp_all add: any_event_def list_all_iff)

section \<open>Machines with enabled steps\<close>

text \<open>Several tasks over one state: a step is named by what runs next, and \<open>None\<close> says that it cannot run now.\<close>

fun run_enabled :: "('e \<Rightarrow> 's \<Rightarrow> 's option) \<Rightarrow> 'e list \<Rightarrow> 's \<Rightarrow> 's option" where
  "run_enabled app [] s = Some s"
| "run_enabled app (e # es) s = (case app e s of None \<Rightarrow> None | Some s' \<Rightarrow> run_enabled app es s')"

inductive reachable :: "('e \<Rightarrow> 's \<Rightarrow> 's option) \<Rightarrow> 's \<Rightarrow> 's \<Rightarrow> bool" for app s0 where
  reachable_start: "reachable app s0 s0"
| reachable_step: "reachable app s0 s \<Longrightarrow> app e s = Some s' \<Longrightarrow> reachable app s0 s'"

lemma run_enabled_ConsE:
  assumes "run_enabled app (e # es) s = Some s'"
  obtains s1 where "app e s = Some s1" and "run_enabled app es s1 = Some s'"
  using assms by (auto split: option.splits)

lemma run_enabled_append:
  "run_enabled app (es @ fs) s = (case run_enabled app es s of None \<Rightarrow> None | Some s' \<Rightarrow> run_enabled app fs s')"
  by (induction es arbitrary: s) (auto split: option.splits)

lemma run_enabled_inv:
  assumes "run_enabled app es s = Some s'" and "P s" and "\<And>e s s'. P s \<Longrightarrow> app e s = Some s' \<Longrightarrow> P s'"
  shows "P s'"
  using assms(1,2) by (induction es arbitrary: s) (auto elim!: run_enabled_ConsE intro: assms(3) simp del: run_enabled.simps(2))

lemma run_enabled_reachable: "reachable app s0 s \<Longrightarrow> run_enabled app es s = Some s' \<Longrightarrow> reachable app s0 s'"
  by (rule run_enabled_inv [where P = "reachable app s0"]) (auto intro: reachable_step)

locale enabled_machine =
  fixes app :: "'e \<Rightarrow> 's \<Rightarrow> 's option"
    and s0 :: 's
    and inv :: "'s \<Rightarrow> bool"
  assumes inv_start: "inv s0"
    and inv_app: "inv s \<Longrightarrow> app e s = Some s' \<Longrightarrow> inv s'"
begin

lemma reachable_inv: "reachable app s0 s \<Longrightarrow> inv s"
  by (induction rule: reachable.induct) (simp add: inv_start, rule inv_app)

lemma run_inv: "inv s \<Longrightarrow> run_enabled app es s = Some s' \<Longrightarrow> inv s'"
  using run_enabled_inv [of app es s s' inv] inv_app by blast

end

section \<open>Queues\<close>

locale fifo_queue =
  fixes empty :: "'q"
    and enq :: "'a \<Rightarrow> 'q \<Rightarrow> 'q"
    and deq :: "'q \<Rightarrow> 'a option \<times> 'q"
    and items :: "'q \<Rightarrow> 'a list"
    and inv :: "'q \<Rightarrow> bool"
  assumes items_empty: "items empty = []"
    and items_enq: "inv q \<Longrightarrow> items (enq x q) = items q @ [x]"
    and deq_empty: "inv q \<Longrightarrow> items q = [] \<Longrightarrow> deq q = (None, q)"
    and deq_first: "inv q \<Longrightarrow> items q = x # xs \<Longrightarrow> fst (deq q) = Some x \<and> items (snd (deq q)) = xs"
    and inv_empty: "inv empty"
    and inv_enq: "inv q \<Longrightarrow> inv (enq x q)"
    and inv_deq: "inv q \<Longrightarrow> inv (snd (deq q))"
begin

lemma items_enq_all: "inv q \<Longrightarrow> items (fold enq xs q) = items q @ xs \<and> inv (fold enq xs q)"
  by (induction xs arbitrary: q) (simp_all add: items_enq inv_enq)

text \<open>What went in comes out in the same order, and then nothing does.\<close>

lemma fifo: "items (fold enq xs empty) = xs"
  using items_enq_all [OF inv_empty, of xs] by (simp add: items_empty)

lemma deq_conv:
  assumes "inv q"
  shows "fst (deq q) = (case items q of [] \<Rightarrow> None | x # _ \<Rightarrow> Some x)"
    and "items (snd (deq q)) = tl (items q)"
  using assms deq_empty [of q] deq_first [of q] by (cases "items q"; simp)+

end

end
