(* ===== verification/DtPacket.thy ===== *)
theory DtPacket
  imports LKPrelude LKInterfaces
begin

unbundle bit_operations_syntax

text \<open>
  The data track packet (\<open>livekit-datatrack/src/packet\<close>): track handles and their
  allocator, RTP timestamps and the monotonic clock, header extensions, and the wire
  format, both directions.  \<open>Bytes\<close> read through a cursor is the list of the bytes not yet
  read; a \<open>BufMut\<close> is its written bytes with its capacity.
\<close>

section \<open>Handles\<close>

datatype handle = Handle u16

datatype handle_error = Reserved u16 | TooLarge

fun handle_value :: "handle \<Rightarrow> u16" where
  "handle_value (Handle v) = v"

definition handle_try_from_u16 :: "u16 \<Rightarrow> (handle_error, handle) outcome" where
  "handle_try_from_u16 value = (if value = 0 then Err (Reserved value) else Ok (Handle value))"

definition handle_try_from_u32 :: "u32 \<Rightarrow> (handle_error, handle) outcome" where
  "handle_try_from_u32 value =
     (if 65535 < unat value then Err TooLarge else handle_try_from_u16 (ucast value))"

definition u32_from_handle :: "handle \<Rightarrow> u32" where
  "u32_from_handle h = ucast (handle_value h)"

text \<open>The allocator: \<open>checked_add\<close> makes it stop, never wrap.\<close>

record handle_allocator =
  ha_value :: u16

definition handle_allocator_default :: handle_allocator where
  "handle_allocator_default = \<lparr>ha_value = 0\<rparr>"

definition handle_allocator_get :: "handle_allocator \<Rightarrow> handle option \<times> handle_allocator" where
  "handle_allocator_get a =
     (if unat (ha_value a) + 1 < 2 ^ 16
      then (Some (Handle (ha_value a + 1)), a\<lparr>ha_value := ha_value a + 1\<rparr>)
      else (None, a))"

section \<open>Timestamps and the clock\<close>

text \<open>
  \<open>Timestamp<RATE>\<close> wraps a \<open>u32\<close>.  An \<open>Instant\<close> is its distance in nanoseconds from a
  fixed origin, and \<open>duration_since\<close> saturates at zero, as the standard library documents;
  \<open>as_nanos\<close> times the rate fits \<open>u128\<close>, and the result is truncated to \<open>u32\<close>.
\<close>

type_synonym timestamp = u32
type_synonym instant = nat

definition timestamp_is_before :: "timestamp \<Rightarrow> timestamp \<Rightarrow> bool" where
  "timestamp_is_before a b \<longleftrightarrow> sint (a - b) < 0"

definition timestamp_wrapping_add :: "timestamp \<Rightarrow> u32 \<Rightarrow> timestamp" where
  "timestamp_wrapping_add a ticks = a + ticks"

record clock =
  epoch :: instant
  base :: timestamp
  prev :: timestamp

definition clock_with_epoch :: "instant \<Rightarrow> timestamp \<Rightarrow> clock" where
  "clock_with_epoch e b = \<lparr>epoch = e, base = b, prev = b\<rparr>"

definition ticks_of_nanos :: "nat \<Rightarrow> nat \<Rightarrow> nat" where
  "ticks_of_nanos rate nanos = (nanos * rate + 500000000) div 1000000000"

definition duration_to_ticks :: "nat \<Rightarrow> nat \<Rightarrow> u32" where
  "duration_to_ticks rate nanos = of_nat (ticks_of_nanos rate nanos)"

definition clock_at :: "nat \<Rightarrow> clock \<Rightarrow> instant \<Rightarrow> timestamp \<times> clock" where
  "clock_at rate c now =
     (let elapsed = now - epoch c;
          ticks = duration_to_ticks rate elapsed;
          ts = timestamp_wrapping_add (base c) ticks;
          ts = (if timestamp_is_before ts (prev c) then prev c else ts)
      in (ts, c\<lparr>prev := ts\<rparr>))"

text \<open>The successive timestamps of a clock that is read at the given instants.\<close>

fun clock_run :: "nat \<Rightarrow> clock \<Rightarrow> instant list \<Rightarrow> timestamp list" where
  "clock_run rate c [] = []"
| "clock_run rate c (i # is) = (let (ts, c') = clock_at rate c i in ts # clock_run rate c' is)"

section \<open>Extensions, header and packet\<close>

datatype user_timestamp_ext = UserTimestampExt u64

record e2ee_ext =
  key_index :: u8
  iv :: bytes

record extensions =
  user_timestamp :: "user_timestamp_ext option"
  e2ee :: "e2ee_ext option"

definition extensions_default :: extensions where
  "extensions_default = \<lparr>user_timestamp = None, e2ee = None\<rparr>"

datatype frame_marker = Start | Inter | Final | Single

record header =
  marker :: frame_marker
  track_handle :: handle
  sequence :: u16
  frame_number :: u16
  ts_ticks :: timestamp
  exts :: extensions

record packet =
  pheader :: header
  payload :: bytes

text \<open>The constants of \<open>consts\<close> and the tag and length of each extension.\<close>

definition SUPPORTED_VERSION :: u8 where "SUPPORTED_VERSION = 0"
definition BASE_HEADER_LEN :: nat where "BASE_HEADER_LEN = 12"
definition VERSION_SHIFT :: nat where "VERSION_SHIFT = 5"
definition VERSION_MASK :: u8 where "VERSION_MASK = 7"
definition FRAME_MARKER_SHIFT :: nat where "FRAME_MARKER_SHIFT = 3"
definition FRAME_MARKER_MASK :: u8 where "FRAME_MARKER_MASK = 3"
definition FRAME_MARKER_START :: u8 where "FRAME_MARKER_START = 2"
definition FRAME_MARKER_FINAL :: u8 where "FRAME_MARKER_FINAL = 1"
definition FRAME_MARKER_INTER :: u8 where "FRAME_MARKER_INTER = 0"
definition FRAME_MARKER_SINGLE :: u8 where "FRAME_MARKER_SINGLE = 3"
definition EXT_WORDS_INDICATOR_SIZE :: nat where "EXT_WORDS_INDICATOR_SIZE = 2"
definition EXT_FLAG_SHIFT :: nat where "EXT_FLAG_SHIFT = 2"
definition EXT_FLAG_MASK :: u8 where "EXT_FLAG_MASK = 1"
definition EXT_MARKER_LEN :: nat where "EXT_MARKER_LEN = 2"
definition EXT_TAG_PADDING :: u8 where "EXT_TAG_PADDING = 0"
definition USER_TIMESTAMP_TAG :: u8 where "USER_TIMESTAMP_TAG = 2"
definition USER_TIMESTAMP_LEN :: nat where "USER_TIMESTAMP_LEN = 8"
definition E2EE_TAG :: u8 where "E2EE_TAG = 1"
definition E2EE_LEN :: nat where "E2EE_LEN = 13"

lemmas packet_consts =
  SUPPORTED_VERSION_def BASE_HEADER_LEN_def VERSION_SHIFT_def VERSION_MASK_def
  FRAME_MARKER_SHIFT_def FRAME_MARKER_MASK_def FRAME_MARKER_START_def FRAME_MARKER_FINAL_def
  FRAME_MARKER_INTER_def FRAME_MARKER_SINGLE_def EXT_WORDS_INDICATOR_SIZE_def
  EXT_FLAG_SHIFT_def EXT_FLAG_MASK_def EXT_MARKER_LEN_def EXT_TAG_PADDING_def
  USER_TIMESTAMP_TAG_def USER_TIMESTAMP_LEN_def E2EE_TAG_def E2EE_LEN_def

section \<open>Serialisation\<close>

datatype serialize_error = TooSmallForHeader | TooSmallForPayload

record bufmut =
  buf_data :: bytes
  buf_capacity :: nat

definition remaining_mut :: "bufmut \<Rightarrow> nat" where
  "remaining_mut b = buf_capacity b - length (buf_data b)"

text \<open>Writing past the capacity panics.\<close>

definition put_slice :: "bytes \<Rightarrow> bufmut \<Rightarrow> ('e, bufmut) outcome" where
  "put_slice bs b =
     (if length bs \<le> remaining_mut b then Ok (b\<lparr>buf_data := buf_data b @ bs\<rparr>) else Panic)"

definition put_u8 :: "u8 \<Rightarrow> bufmut \<Rightarrow> ('e, bufmut) outcome" where
  "put_u8 v b = put_slice [v] b"

record header_metrics =
  ext_len :: nat
  ext_words :: nat
  padding_len :: nat

definition extensions_serialized_len :: "extensions \<Rightarrow> nat" where
  "extensions_serialized_len e =
     (let len = 0;
          len = (if e2ee e \<noteq> None then len + (EXT_MARKER_LEN + E2EE_LEN) else len)
      in if user_timestamp e \<noteq> None then len + (EXT_MARKER_LEN + USER_TIMESTAMP_LEN) else len)"

definition header_metrics_of :: "header \<Rightarrow> header_metrics" where
  "header_metrics_of h =
     (let elen = extensions_serialized_len (exts h);
          ewords = div_ceil (EXT_WORDS_INDICATOR_SIZE + elen) 4;
          plen = ewords * 4 - EXT_WORDS_INDICATOR_SIZE - elen
      in \<lparr>ext_len = elen, ext_words = ewords, padding_len = plen\<rparr>)"

definition metrics_serialized_len :: "header_metrics \<Rightarrow> nat" where
  "metrics_serialized_len m =
     (if 0 < ext_len m then BASE_HEADER_LEN + (EXT_WORDS_INDICATOR_SIZE + ext_len m + padding_len m)
      else BASE_HEADER_LEN)"

definition header_serialized_len :: "header \<Rightarrow> nat" where
  "header_serialized_len h = metrics_serialized_len (header_metrics_of h)"

definition packet_serialized_len :: "packet \<Rightarrow> nat" where
  "packet_serialized_len p = header_serialized_len (pheader p) + length (payload p)"

definition e2ee_serialize_into :: "e2ee_ext \<Rightarrow> bufmut \<Rightarrow> ('e, bufmut) outcome" where
  "e2ee_serialize_into e b =
     and_then (put_u8 E2EE_TAG b) (\<lambda>b.
     and_then (put_u8 (of_nat E2EE_LEN) b) (\<lambda>b.
     and_then (put_u8 (key_index e) b) (\<lambda>b.
     put_slice (iv e) b)))"

fun user_timestamp_serialize_into :: "user_timestamp_ext \<Rightarrow> bufmut \<Rightarrow> ('e, bufmut) outcome" where
  "user_timestamp_serialize_into (UserTimestampExt v) b =
     and_then (put_u8 USER_TIMESTAMP_TAG b) (\<lambda>b.
     and_then (put_u8 (of_nat USER_TIMESTAMP_LEN) b) (\<lambda>b.
     put_slice (to_be64 v) b))"

definition extensions_serialize_into :: "extensions \<Rightarrow> bufmut \<Rightarrow> ('e, bufmut) outcome" where
  "extensions_serialize_into e b =
     and_then (case e2ee e of None \<Rightarrow> Ok b | Some x \<Rightarrow> e2ee_serialize_into x b) (\<lambda>b.
     case user_timestamp e of None \<Rightarrow> Ok b | Some t \<Rightarrow> user_timestamp_serialize_into t b)"

fun marker_bits :: "frame_marker \<Rightarrow> u8" where
  "marker_bits Single = FRAME_MARKER_SINGLE"
| "marker_bits Start = FRAME_MARKER_START"
| "marker_bits Inter = FRAME_MARKER_INTER"
| "marker_bits Final = FRAME_MARKER_FINAL"

definition initial_byte :: "header \<Rightarrow> u8" where
  "initial_byte h =
     (let initial = push_bit VERSION_SHIFT SUPPORTED_VERSION;
          initial = initial OR push_bit FRAME_MARKER_SHIFT (marker_bits (marker h))
      in if 0 < ext_len (header_metrics_of h) then initial OR push_bit EXT_FLAG_SHIFT 1 else initial)"

text \<open>
  Both writers return the buffer too: on an error, what was written before it stays there.
\<close>

definition header_puts :: "header \<Rightarrow> bufmut \<Rightarrow> (serialize_error, bufmut) outcome" where
  "header_puts h b =
     (let m = header_metrics_of h in
     and_then (put_u8 (initial_byte h) b) (\<lambda>b.
     and_then (put_u8 0 b) (\<lambda>b.
     and_then (put_slice (to_be16 (handle_value (track_handle h))) b) (\<lambda>b.
     and_then (put_slice (to_be16 (sequence h)) b) (\<lambda>b.
     and_then (put_slice (to_be16 (frame_number h)) b) (\<lambda>b.
     and_then (put_slice (to_be32 (ts_ticks h)) b) (\<lambda>b.
     if 0 < ext_len m then
       and_then (put_slice (to_be16 (of_nat (ext_words m - 1))) b) (\<lambda>b.
       and_then (extensions_serialize_into (exts h) b) (\<lambda>b.
       put_slice (replicate (padding_len m) 0) b))
     else Ok b)))))))"

definition header_serialize_into :: "header \<Rightarrow> bufmut \<Rightarrow> bufmut \<times> (serialize_error, nat) outcome" where
  "header_serialize_into h b =
     (let slen = metrics_serialized_len (header_metrics_of h);
          remaining_initial = remaining_mut b
      in if remaining_mut b < slen then (b, Err TooSmallForHeader)
         else case header_puts h b of
                Ok b' \<Rightarrow> (b', if remaining_initial - remaining_mut b' = slen then Ok slen else Panic)
              | Err e \<Rightarrow> (b, Err e)
              | Panic \<Rightarrow> (b, Panic))"

definition packet_serialize_into :: "packet \<Rightarrow> bufmut \<Rightarrow> bufmut \<times> (serialize_error, nat) outcome" where
  "packet_serialize_into p b =
     (let payload_len = length (payload p) in
      case header_serialize_into (pheader p) b of
        (b, Ok header_len) \<Rightarrow>
          (if remaining_mut b < payload_len then (b, Err TooSmallForPayload)
           else case put_slice (payload p) b of
                  Ok b' \<Rightarrow> (b', Ok (header_len + payload_len))
                | Err e \<Rightarrow> (b, Err e)
                | Panic \<Rightarrow> (b, Panic))
      | (b, Err e) \<Rightarrow> (b, Err e)
      | (b, Panic) \<Rightarrow> (b, Panic))"

text \<open>
  \<open>serialize\<close> writes to a fresh \<open>BytesMut\<close>, which grows on demand: its limit is the
  largest \<open>usize\<close>.
\<close>

definition USIZE_MAX :: nat where "USIZE_MAX = 2 ^ 64 - 1"

definition packet_serialize :: "packet \<Rightarrow> (serialize_error, bytes) outcome" where
  "packet_serialize p =
     (case packet_serialize_into p \<lparr>buf_data = [], buf_capacity = USIZE_MAX\<rparr> of
        (b, Ok written) \<Rightarrow> if written = packet_serialized_len p then Ok (buf_data b) else Panic
      | (b, _) \<Rightarrow> Panic)"

section \<open>Deserialisation\<close>

datatype deserialize_error =
    TooShort
  | HeaderOverrun
  | MissingExtWords
  | UnsupportedVersion u8
  | InvalidHandle handle_error
  | MalformedExt u8

text \<open>Reads through the cursor; reading past the end panics.\<close>

definition get_bytes :: "nat \<Rightarrow> bytes \<Rightarrow> ('e, bytes \<times> bytes) outcome" where
  "get_bytes n raw = (if length raw < n then Panic else Ok (take n raw, drop n raw))"

definition get_u8 :: "bytes \<Rightarrow> ('e, u8 \<times> bytes) outcome" where
  "get_u8 raw = (case raw of [] \<Rightarrow> Panic | b # raw \<Rightarrow> Ok (b, raw))"

definition get_u16 :: "bytes \<Rightarrow> ('e, u16 \<times> bytes) outcome" where
  "get_u16 raw = and_then (get_bytes 2 raw) (\<lambda>(bs, raw). Ok (from_be16 bs, raw))"

definition get_u32 :: "bytes \<Rightarrow> ('e, u32 \<times> bytes) outcome" where
  "get_u32 raw = and_then (get_bytes 4 raw) (\<lambda>(bs, raw). Ok (from_be32 bs, raw))"

definition user_timestamp_deserialize :: "bytes \<Rightarrow> user_timestamp_ext" where
  "user_timestamp_deserialize raw = UserTimestampExt (from_be64 raw)"

definition e2ee_deserialize :: "bytes \<Rightarrow> e2ee_ext" where
  "e2ee_deserialize raw = \<lparr>key_index = raw ! 0, iv = take 12 (drop 1 raw)\<rparr>"

text \<open>
  The macro \<open>deserialize_ext!\<close>: check that the declared length is there, copy the known
  part, skip what a longer future version appends.
\<close>

definition deserialize_ext :: "u8 \<Rightarrow> nat \<Rightarrow> nat \<Rightarrow> bytes \<Rightarrow> (deserialize_error, bytes \<times> bytes) outcome" where
  "deserialize_ext tag known_len len raw =
     (if length raw < len then Err (MalformedExt tag)
      else and_then (get_bytes known_len raw) (\<lambda>(buf, raw).
        let extra_bytes = len - known_len in
        if 0 < extra_bytes then and_then (get_bytes extra_bytes raw) (\<lambda>(_, raw). Ok (buf, raw))
        else Ok (buf, raw)))"

lemma deserialize_ext_shorter:
  "deserialize_ext tag k len raw = Ok (buf, raw') \<Longrightarrow> length raw' \<le> length raw"
  by (auto simp: deserialize_ext_def get_bytes_def Let_def rust_simps split: if_splits)

function extensions_deserialize :: "extensions \<Rightarrow> bytes \<Rightarrow> (deserialize_error, extensions) outcome" where
  "extensions_deserialize extensions raw =
     (case raw of
        tag # len_byte # raw \<Rightarrow>
          (let len = unat len_byte in
           if tag = EXT_TAG_PADDING then extensions_deserialize extensions raw
           else if tag = E2EE_TAG \<and> E2EE_LEN \<le> len then
             (case deserialize_ext E2EE_TAG E2EE_LEN len raw of
                Ok (buf, raw) \<Rightarrow>
                  extensions_deserialize (extensions\<lparr>e2ee := Some (e2ee_deserialize buf)\<rparr>) raw
              | Err e \<Rightarrow> Err e | Panic \<Rightarrow> Panic)
           else if tag = USER_TIMESTAMP_TAG \<and> USER_TIMESTAMP_LEN \<le> len then
             (case deserialize_ext USER_TIMESTAMP_TAG USER_TIMESTAMP_LEN len raw of
                Ok (buf, raw) \<Rightarrow>
                  extensions_deserialize
                    (extensions\<lparr>user_timestamp := Some (user_timestamp_deserialize buf)\<rparr>) raw
              | Err e \<Rightarrow> Err e | Panic \<Rightarrow> Panic)
           else if length raw < len then Err (MalformedExt tag)
           else extensions_deserialize extensions (drop len raw))
      | _ \<Rightarrow> Ok extensions)"
  by pat_completeness auto
termination
  by (relation "measure (\<lambda>(e, raw). length raw)")
     (auto dest!: deserialize_ext_shorter)

declare extensions_deserialize.simps [simp del]

definition marker_of_bits :: "u8 \<Rightarrow> frame_marker" where
  "marker_of_bits bits =
     (if bits = FRAME_MARKER_START then Start
      else if bits = FRAME_MARKER_FINAL then Final
      else if bits = FRAME_MARKER_SINGLE then Single
      else Inter)"

text \<open>The extension part of the header: the \<open>if ext_flag\<close> block of \<open>Header::deserialize\<close>.\<close>

definition header_extensions_deserialize :: "bool \<Rightarrow> bytes \<Rightarrow> (deserialize_error, extensions \<times> bytes) outcome" where
  "header_extensions_deserialize ext_flag raw =
     (if ext_flag then
        (if length raw < 2 then Err MissingExtWords else
         and_then (get_u16 raw) (\<lambda>(words, raw).
         let elen = 4 * (unat words + 1) - EXT_WORDS_INDICATOR_SIZE in
         if length raw < elen then Err HeaderOverrun else
         and_then (get_bytes elen raw) (\<lambda>(ext_block, raw).
         and_then (extensions_deserialize extensions_default ext_block) (\<lambda>e.
         Ok (e, raw)))))
      else Ok (extensions_default, raw))"

definition header_deserialize :: "bytes \<Rightarrow> (deserialize_error, header \<times> bytes) outcome" where
  "header_deserialize raw =
     (if length raw < BASE_HEADER_LEN then Err TooShort else
      and_then (get_u8 raw) (\<lambda>(initial, raw).
      let version = drop_bit VERSION_SHIFT initial AND VERSION_MASK in
      if SUPPORTED_VERSION < version then Err (UnsupportedVersion version) else
      let mk = marker_of_bits (drop_bit FRAME_MARKER_SHIFT initial AND FRAME_MARKER_MASK);
          ext_flag = (0 < drop_bit EXT_FLAG_SHIFT initial AND EXT_FLAG_MASK) in
      and_then (get_bytes 1 raw) (\<lambda>(_, raw).
      and_then (get_u16 raw) (\<lambda>(hv, raw).
      case handle_try_from_u16 hv of
        Err e \<Rightarrow> Err (InvalidHandle e)
      | Panic \<Rightarrow> Panic
      | Ok h \<Rightarrow>
      and_then (get_u16 raw) (\<lambda>(seq, raw).
      and_then (get_u16 raw) (\<lambda>(fnum, raw).
      and_then (get_u32 raw) (\<lambda>(ts, raw).
      and_then (header_extensions_deserialize ext_flag raw) (\<lambda>(e, raw).
      Ok (\<lparr>marker = mk, track_handle = h, sequence = seq, frame_number = fnum,
           ts_ticks = ts, exts = e\<rparr>, raw)))))))))"

definition packet_deserialize :: "bytes \<Rightarrow> (deserialize_error, packet) outcome" where
  "packet_deserialize raw =
     and_then (header_deserialize raw) (\<lambda>(h, raw).
     and_then (get_bytes (length raw) raw) (\<lambda>(pl, raw).
     Ok \<lparr>pheader = h, payload = pl\<rparr>))"

section \<open>Well-formed headers\<close>

text \<open>
  What the Rust types guarantee of a header: a handle is never zero (its field is private and
  the conversions check it) and the initialisation vector is an array of twelve bytes.
\<close>

fun wf_handle :: "handle \<Rightarrow> bool" where
  "wf_handle (Handle v) \<longleftrightarrow> v \<noteq> 0"

definition wf_extensions :: "extensions \<Rightarrow> bool" where
  "wf_extensions e \<longleftrightarrow> (case e2ee e of None \<Rightarrow> True | Some x \<Rightarrow> length (iv x) = 12)"

definition wf_header :: "header \<Rightarrow> bool" where
  "wf_header h \<longleftrightarrow> wf_handle (track_handle h) \<and> wf_extensions (exts h)"

lemma wf_extensions_default [simp]: "wf_extensions extensions_default"
  by (simp add: wf_extensions_def extensions_default_def)

section \<open>What the writer writes\<close>

definition extensions_bytes :: "extensions \<Rightarrow> bytes" where
  "extensions_bytes e =
     (case e2ee e of None \<Rightarrow> [] | Some x \<Rightarrow> [1, 13, key_index x] @ iv x) @
     (case user_timestamp e of None \<Rightarrow> [] | Some (UserTimestampExt v) \<Rightarrow> [2, 8] @ to_be64 v)"

definition header_bytes :: "header \<Rightarrow> bytes" where
  "header_bytes h =
     (let m = header_metrics_of h in
      [initial_byte h, 0] @ to_be16 (handle_value (track_handle h)) @ to_be16 (sequence h) @
      to_be16 (frame_number h) @ to_be32 (ts_ticks h) @
      (if 0 < ext_len m
       then to_be16 (of_nat (ext_words m - 1)) @ extensions_bytes (exts h) @ replicate (padding_len m) 0
       else []))"

text \<open>Consecutive writes are one write of the concatenation, also when they run out of room.\<close>

lemma put_slice_put_slice [simp]:
  "and_then (put_slice xs b) (put_slice ys) = put_slice (xs @ ys) b"
  by (auto simp: put_slice_def remaining_mut_def)

lemma put_slice_Nil [simp]: "put_slice [] b = Ok b"
  by (simp add: put_slice_def)

lemma and_then_assoc: "and_then (and_then x f) g = and_then x (\<lambda>a. and_then (f a) g)"
  by (cases x) auto

lemma and_then_Ok_right [simp]: "and_then x Ok = x"
  by (cases x) auto

lemma e2ee_serialize_into_eq [simp]:
  "e2ee_serialize_into x b = put_slice ([1, 13, key_index x] @ iv x) b"
  by (simp add: e2ee_serialize_into_def put_u8_def E2EE_TAG_def E2EE_LEN_def and_then_assoc [symmetric])

lemma user_timestamp_serialize_into_eq [simp]:
  "user_timestamp_serialize_into (UserTimestampExt v) b = put_slice ([2, 8] @ to_be64 v) b"
  by (simp add: put_u8_def USER_TIMESTAMP_TAG_def USER_TIMESTAMP_LEN_def and_then_assoc [symmetric])

declare user_timestamp_serialize_into.simps [simp del]

lemma extensions_serialize_into_eq: "extensions_serialize_into e b = put_slice (extensions_bytes e) b"
proof (cases "user_timestamp e")
  case None
  then show ?thesis
    by (simp add: extensions_serialize_into_def extensions_bytes_def split: option.splits)
next
  case (Some t)
  then show ?thesis
    by (cases t) (simp add: extensions_serialize_into_def extensions_bytes_def split: option.splits)
qed

lemma header_puts_eq: "header_puts h b = put_slice (header_bytes h) b"
proof -
  have eta: "put_slice zs = (\<lambda>b. put_slice zs b)" for zs by (rule refl)
  show ?thesis
    by (simp add: header_puts_def header_bytes_def Let_def put_u8_def extensions_serialize_into_eq
        and_then_assoc [symmetric])
qed

lemma length_extensions_bytes:
  "wf_extensions e \<Longrightarrow> length (extensions_bytes e) = extensions_serialized_len e"
  by (auto simp: wf_extensions_def extensions_bytes_def extensions_serialized_len_def Let_def
      packet_consts split: option.splits user_timestamp_ext.splits)

text \<open>The four shapes of the extension block, with its word count and padding.\<close>

lemma extensions_serialized_len_cases:
  "extensions_serialized_len e =
     (if e2ee e = None then 0 else 15) + (if user_timestamp e = None then 0 else 10)"
  by (simp add: extensions_serialized_len_def Let_def packet_consts)

lemma header_metrics_cases:
  "header_metrics_of h =
     (if e2ee (exts h) = None
      then if user_timestamp (exts h) = None
           then \<lparr>ext_len = 0, ext_words = 1, padding_len = 2\<rparr>
           else \<lparr>ext_len = 10, ext_words = 3, padding_len = 0\<rparr>
      else if user_timestamp (exts h) = None
           then \<lparr>ext_len = 15, ext_words = 5, padding_len = 3\<rparr>
           else \<lparr>ext_len = 25, ext_words = 7, padding_len = 1\<rparr>)"
  by (simp add: header_metrics_of_def Let_def extensions_serialized_len_cases div_ceil_def packet_consts)

lemma length_header_bytes: "wf_header h \<Longrightarrow> length (header_bytes h) = header_serialized_len h"
  by (simp add: header_bytes_def Let_def header_serialized_len_def metrics_serialized_len_def
      header_metrics_cases length_extensions_bytes wf_header_def extensions_serialized_len_cases packet_consts)

lemma header_serialized_len_cases:
  "header_serialized_len h =
     (if e2ee (exts h) = None
      then if user_timestamp (exts h) = None then 12 else 24
      else if user_timestamp (exts h) = None then 32 else 40)"
  by (simp add: header_serialized_len_def metrics_serialized_len_def header_metrics_cases packet_consts)

text \<open>The writer as one equation per branch.\<close>

lemma header_serialize_into_eq:
  assumes "wf_header h"
  shows "header_serialize_into h b =
    (if remaining_mut b < header_serialized_len h then (b, Err TooSmallForHeader)
     else (b\<lparr>buf_data := buf_data b @ header_bytes h\<rparr>, Ok (header_serialized_len h)))"
  using length_header_bytes [OF assms]
  by (auto simp: header_serialize_into_def Let_def header_puts_eq put_slice_def
      header_serialized_len_def [symmetric] remaining_mut_def)

lemma packet_serialize_into_eq:
  assumes "wf_header (pheader p)"
  shows "packet_serialize_into p b =
    (if remaining_mut b < header_serialized_len (pheader p) then (b, Err TooSmallForHeader)
     else if remaining_mut b < packet_serialized_len p
     then (b\<lparr>buf_data := buf_data b @ header_bytes (pheader p)\<rparr>, Err TooSmallForPayload)
     else (b\<lparr>buf_data := buf_data b @ header_bytes (pheader p) @ payload p\<rparr>,
           Ok (packet_serialized_len p)))"
  using length_header_bytes [OF assms]
  by (auto simp: packet_serialize_into_def Let_def header_serialize_into_eq [OF assms] put_slice_def
      remaining_mut_def packet_serialized_len_def)

lemma packet_serialize_eq:
  assumes "wf_header (pheader p)" and "packet_serialized_len p \<le> USIZE_MAX"
  shows "packet_serialize p = Ok (header_bytes (pheader p) @ payload p)"
  using assms by (simp add: packet_serialize_def packet_serialize_into_eq remaining_mut_def packet_serialized_len_def)

section \<open>What the reader reads\<close>

lemma get_bytes_append [simp]:
  "length xs = n \<Longrightarrow> get_bytes n (xs @ ys) = Ok (xs, ys)"
  by (simp add: get_bytes_def)

lemma get_bytes_one [simp]: "get_bytes (Suc 0) (x # xs) = Ok ([x], xs)"
  by (simp add: get_bytes_def)

lemma get_u8_Cons [simp]: "get_u8 (x # xs) = Ok (x, xs)"
  by (simp add: get_u8_def)

lemma get_words [simp]:
  "get_u16 (to_be16 a @ ys) = Ok (a, ys)" "get_u32 (to_be32 c @ ys) = Ok (c, ys)"
  by (simp_all add: get_u16_def get_u32_def)

lemma extensions_deserialize_short [simp]:
  "extensions_deserialize e [] = Ok e" "extensions_deserialize e [x] = Ok e"
  by (simp_all add: extensions_deserialize.simps)

lemma extensions_deserialize_padding [simp]:
  "extensions_deserialize e (0 # b # raw) = extensions_deserialize e raw"
  by (subst extensions_deserialize.simps) (simp add: packet_consts)

lemma extensions_deserialize_e2ee [simp]:
  assumes "length v = 12"
  shows "extensions_deserialize e (1 # 13 # k # v @ raw) =
    extensions_deserialize (e\<lparr>e2ee := Some \<lparr>key_index = k, iv = v\<rparr>\<rparr>) raw"
  using assms
  by (subst extensions_deserialize.simps)
     (simp add: packet_consts deserialize_ext_def get_bytes_def e2ee_deserialize_def)

lemma extensions_deserialize_user_timestamp [simp]:
  "extensions_deserialize e (2 # 8 # to_be64 v @ raw) =
    extensions_deserialize (e\<lparr>user_timestamp := Some (UserTimestampExt v)\<rparr>) raw"
  by (subst extensions_deserialize.simps)
     (simp add: packet_consts deserialize_ext_def get_bytes_def user_timestamp_deserialize_def)

lemma e2ee_ext_eta [simp]: "\<lparr>key_index = key_index x, iv = iv x\<rparr> = (x :: e2ee_ext)"
  by (cases x) simp

lemma extensions_roundtrip:
  assumes "wf_extensions e"
  shows "extensions_deserialize extensions_default (extensions_bytes e @ replicate n 0) =
    extensions_deserialize e (replicate n 0)"
  using assms
  by (cases e)
     (auto simp: wf_extensions_def extensions_bytes_def extensions_default_def
       split: option.splits user_timestamp_ext.splits)

lemma extensions_deserialize_zeros [simp]: "extensions_deserialize e (replicate n 0) = Ok e"
proof (induction n rule: less_induct)
  case (less n)
  consider "n = 0" | "n = 1" | m where "n = Suc (Suc m)"
    by (metis One_nat_def not0_implies_Suc)
  then show ?case
    by cases (auto simp: less)
qed

lemma marker_of_initial_byte:
  "marker_of_bits (drop_bit FRAME_MARKER_SHIFT (initial_byte h) AND FRAME_MARKER_MASK) = marker h"
  by (cases "marker h") (simp_all add: initial_byte_def Let_def packet_consts marker_of_bits_def)

lemma version_of_initial_byte: "drop_bit VERSION_SHIFT (initial_byte h) AND VERSION_MASK = 0"
  by (cases "marker h") (simp_all add: initial_byte_def Let_def packet_consts)

lemma ext_flag_of_initial_byte:
  "(0 < drop_bit EXT_FLAG_SHIFT (initial_byte h) AND EXT_FLAG_MASK) \<longleftrightarrow> 0 < ext_len (header_metrics_of h)"
  by (cases "marker h") (simp_all add: initial_byte_def Let_def packet_consts)

lemma header_bytes_roundtrip:
  assumes "wf_header h"
  shows "header_deserialize (header_bytes h @ pl) = Ok (h, pl)"
proof -
  define m where "m = header_metrics_of h"
  define block where "block = extensions_bytes (exts h) @ replicate (padding_len m) 0"
  have handle: "handle_try_from_u16 (handle_value (track_handle h)) = Ok (track_handle h)"
    using assms by (cases "track_handle h") (simp add: wf_header_def handle_try_from_u16_def)
  have len: "\<not> length (header_bytes h @ pl) < BASE_HEADER_LEN"
    by (simp add: header_bytes_def Let_def packet_consts)
  have block: "extensions_deserialize extensions_default block = Ok (exts h)"
    using assms by (simp add: block_def wf_header_def extensions_roundtrip)
  have none: "exts h = extensions_default" if "ext_len m = 0"
    using that by (cases "exts h") (auto simp: m_def header_metrics_cases extensions_default_def split: if_splits)
  have words: "4 * (unat (of_nat (ext_words m - 1) :: u16) + 1) - EXT_WORDS_INDICATOR_SIZE = length block"
    using assms
    by (simp add: block_def m_def header_metrics_cases length_extensions_bytes wf_header_def
        extensions_serialized_len_cases packet_consts)
  show ?thesis
    using len handle block none words
    by (cases "0 < ext_len m")
       (simp_all add: header_deserialize_def header_extensions_deserialize_def header_bytes_def Let_def m_def [symmetric] block_def [symmetric]
          version_of_initial_byte marker_of_initial_byte ext_flag_of_initial_byte
          SUPPORTED_VERSION_def block)
qed

section \<open>The reader on arbitrary bytes\<close>

lemma get_bytes_Ok: "n \<le> length raw \<Longrightarrow> get_bytes n raw = Ok (take n raw, drop n raw)"
  by (simp add: get_bytes_def)

lemma get_words_Ok:
  "2 \<le> length raw \<Longrightarrow> get_u16 raw = Ok (from_be16 (take 2 raw), drop 2 raw)"
  "4 \<le> length raw \<Longrightarrow> get_u32 raw = Ok (from_be32 (take 4 raw), drop 4 raw)"
  by (simp_all add: get_u16_def get_u32_def get_bytes_Ok)

lemma get_u8_Ok: "1 \<le> length raw \<Longrightarrow> get_u8 raw = Ok (raw ! 0, drop 1 raw)"
  by (cases raw) (simp_all add: get_u8_def)

lemmas reads_Ok = get_bytes_Ok get_words_Ok get_u8_Ok

lemma deserialize_ext_eq:
  "k \<le> len \<Longrightarrow> deserialize_ext tag k len raw =
    (if length raw < len then Err (MalformedExt tag) else Ok (take k raw, drop len raw))"
  by (auto simp: deserialize_ext_def reads_Ok)

text \<open>The extension loop: it never panics, and what it accepts is well formed.\<close>

lemma wf_extensions_updates [simp]:
  "E2EE_LEN \<le> length raw \<Longrightarrow> wf_extensions (e\<lparr>e2ee := Some (e2ee_deserialize (take E2EE_LEN raw))\<rparr>)"
  "wf_extensions (e\<lparr>user_timestamp := t\<rparr>) = wf_extensions e"
  by (simp_all add: wf_extensions_def e2ee_deserialize_def E2EE_LEN_def)

lemma extensions_deserialize_result:
  "wf_extensions e \<Longrightarrow>
    (case extensions_deserialize e raw of Ok e' \<Rightarrow> wf_extensions e' | Err _ \<Rightarrow> True | Panic \<Rightarrow> False)"
proof (induction e raw rule: extensions_deserialize.induct)
  case (1 e raw)
  show ?case
  proof (cases "\<exists>tag len_byte raw'. raw = tag # len_byte # raw'")
    case False
    then show ?thesis
      using "1.prems" by (subst extensions_deserialize.simps) (auto split: list.splits)
  next
    case True
    then obtain tag len_byte raw' where raw: "raw = tag # len_byte # raw'" by blast
    show ?thesis
      using "1.prems" "1.IH"(1,4) [OF raw refl refl] "1.IH"(2,3) [OF raw refl refl]
      by (subst extensions_deserialize.simps) (simp add: raw Let_def deserialize_ext_eq not_less)
  qed
qed

lemma extensions_deserialize_total: "wf_extensions e \<Longrightarrow> extensions_deserialize e raw \<noteq> Panic"
  using extensions_deserialize_result [of e raw] by auto

lemma extensions_deserialize_wf:
  "extensions_deserialize e raw = Ok e' \<Longrightarrow> wf_extensions e \<Longrightarrow> wf_extensions e'"
  using extensions_deserialize_result [of e raw] by simp

text \<open>The header, branch by branch, once the twelve bytes are there.\<close>

lemma header_deserialize_eq:
  assumes "12 \<le> length raw"
  shows "header_deserialize raw =
    (let initial = raw ! 0; version = drop_bit 5 initial AND 7 in
     if 0 < version then Err (UnsupportedVersion version)
     else if from_be16 (take 2 (drop 2 raw)) = 0 then Err (InvalidHandle (Reserved 0))
     else and_then (header_extensions_deserialize (0 < drop_bit 2 initial AND 1) (drop 12 raw)) (\<lambda>(e, rest).
       Ok (\<lparr>marker = marker_of_bits (drop_bit 3 initial AND 3),
            track_handle = Handle (from_be16 (take 2 (drop 2 raw))),
            sequence = from_be16 (take 2 (drop 4 raw)),
            frame_number = from_be16 (take 2 (drop 6 raw)),
            ts_ticks = from_be32 (take 4 (drop 8 raw)), exts = e\<rparr>, rest)))"
  using assms
  by (simp add: header_deserialize_def reads_Ok Let_def handle_try_from_u16_def packet_consts
      numeral_2_eq_2 [symmetric])

lemma header_extensions_deserialize_total: "header_extensions_deserialize fl raw \<noteq> Panic"
  by (auto simp: header_extensions_deserialize_def reads_Ok Let_def rust_simps extensions_deserialize_total)

lemma header_extensions_deserialize_Ok:
  assumes "header_extensions_deserialize fl raw = Ok (e, rest)"
  shows "wf_extensions e"
    and "rest = drop (if fl then 4 * (unat (from_be16 (take 2 raw)) + 1) else 0) raw"
    and "(if fl then 4 * (unat (from_be16 (take 2 raw)) + 1) else 0) \<le> length raw"
  using assms
  by (auto simp: header_extensions_deserialize_def reads_Ok Let_def rust_simps packet_consts not_less
      eval_nat_numeral intro: extensions_deserialize_wf split: if_splits)

lemma header_deserialize_total: "header_deserialize raw \<noteq> Panic"
proof (cases "length raw < 12")
  case True
  then show ?thesis by (simp add: header_deserialize_def BASE_HEADER_LEN_def)
next
  case False
  then show ?thesis
    by (auto simp: header_deserialize_eq Let_def rust_simps header_extensions_deserialize_total)
qed

text \<open>The length of the header of a raw packet, as the packet format document gives it.\<close>

definition raw_header_len :: "bytes \<Rightarrow> nat" where
  "raw_header_len raw =
     (if bit (raw ! 0) 2 then 12 + 4 * (unat (from_be16 (take 2 (drop 12 raw))) + 1) else 12)"

lemma packet_deserialize_eq:
  "packet_deserialize raw = and_then (header_deserialize raw) (\<lambda>(h, rest). Ok \<lparr>pheader = h, payload = rest\<rparr>)"
  by (simp add: packet_deserialize_def get_bytes_def)

lemma ext_flag_bit: "(0 < drop_bit 2 (b :: u8) AND 1) \<longleftrightarrow> bit b 2"
proof -
  have "drop_bit 2 b AND 1 = of_bool (bit b 2)"
    by (simp add: and_one_eq bit_iff_odd_drop_bit mod_2_eq_odd)
  then show ?thesis by (simp add: word_gt_0)
qed

lemma header_deserialize_Ok:
  assumes "header_deserialize raw = Ok (h, rest)"
  shows "wf_header h" and "raw_header_len raw \<le> length raw" and "rest = drop (raw_header_len raw) raw"
proof -
  from assms have len: "12 \<le> length raw"
    by (auto simp: header_deserialize_def BASE_HEADER_LEN_def not_less split: if_splits)
  from assms obtain e where
    e: "header_extensions_deserialize (bit (raw ! 0) 2) (drop 12 raw) = Ok (e, rest)"
    and h: "wf_handle (track_handle h)" "exts h = e"
    by (auto simp: header_deserialize_eq [OF len] Let_def rust_simps ext_flag_bit split: if_splits)
  note parts = header_extensions_deserialize_Ok [OF e]
  show "wf_header h" using parts(1) h by (simp add: wf_header_def)
  show "raw_header_len raw \<le> length raw" "rest = drop (raw_header_len raw) raw"
    using parts(2,3) len by (auto simp: raw_header_len_def add.commute split: if_splits)
qed

section \<open>The allocator and the clock, run\<close>

fun handle_allocator_gets :: "nat \<Rightarrow> handle_allocator \<Rightarrow> handle option list" where
  "handle_allocator_gets 0 a = []"
| "handle_allocator_gets (Suc n) a =
     (let (h, a') = handle_allocator_get a in h # handle_allocator_gets n a')"

lemma handle_allocator_gets_from:
  "k < 2 ^ 16 \<Longrightarrow> handle_allocator_gets n \<lparr>ha_value = of_nat k\<rparr> =
    map (\<lambda>i. if i < 65536 then Some (Handle (of_nat i)) else None) [Suc k..<Suc k + n]"
proof (induction n arbitrary: k)
  case 0
  then show ?case by simp
next
  case (Suc n)
  have val: "unat (of_nat k :: u16) = k"
    using Suc.prems by (simp add: unat_of_nat take_bit_nat_eq_self)
  show ?case
  proof (cases "k + 1 < 2 ^ 16")
    case True
    have "[Suc k..<Suc k + Suc n] = Suc k # [Suc (Suc k)..<Suc (Suc k) + n]"
      by (simp add: upt_conv_Cons)
    moreover have "handle_allocator_get \<lparr>ha_value = of_nat k\<rparr> =
        (Some (Handle (of_nat (Suc k))), \<lparr>ha_value = of_nat (Suc k)\<rparr>)"
      using True val by (simp add: handle_allocator_get_def add.commute)
    moreover have "Suc k < 65536" using True by simp
    ultimately show ?thesis
      using True Suc.IH [of "Suc k"] by (simp del: upt_Suc of_nat_Suc)
  next
    case False
    have "handle_allocator_gets m \<lparr>ha_value = of_nat k\<rparr> = replicate m None" for m
      using False val by (induction m) (simp_all add: handle_allocator_get_def)
    moreover have "map (\<lambda>i. if i < 65536 then Some (Handle (of_nat i)) else None) [Suc k..<Suc k + m]
        = replicate m None" for m
      using False by (intro nth_equalityI) (auto simp del: upt_Suc)
    ultimately show ?thesis by (simp only:)
  qed
qed

text \<open>The running maximum of a list of numbers.\<close>

fun running_max :: "nat \<Rightarrow> nat list \<Rightarrow> nat list" where
  "running_max m [] = []"
| "running_max m (t # ts) = max m t # running_max (max m t) ts"

lemma sint_diff_of_nat:
  assumes "t < 2 ^ 31" "m < 2 ^ 31"
  shows "timestamp_is_before (b + of_nat t) (b + of_nat m) \<longleftrightarrow> t < m"
proof -
  have "(b + of_nat t) - (b + of_nat m) = (of_int (int t - int m) :: u32)" by simp
  moreover have "sint (of_int (int t - int m) :: u32) = int t - int m"
    using assms by (simp only: sint_sbintrunc') (simp add: signed_take_bit_int_eq_self)
  ultimately show ?thesis unfolding timestamp_is_before_def by simp
qed

lemma clock_run_from:
  assumes "\<forall>i \<in> set is. ticks_of_nanos rate (i - e) < 2 ^ 31" and "m < 2 ^ 31"
  shows "clock_run rate \<lparr>epoch = e, base = b, prev = b + of_nat m\<rparr> is =
    map (\<lambda>t. b + of_nat t) (running_max m (map (\<lambda>i. ticks_of_nanos rate (i - e)) is))"
  using assms
proof (induction "is" arbitrary: m)
  case Nil
  then show ?case by simp
next
  case (Cons i "is")
  let ?t = "ticks_of_nanos rate (i - e)"
  have "clock_at rate \<lparr>epoch = e, base = b, prev = b + of_nat m\<rparr> i =
      (b + of_nat (max m ?t), \<lparr>epoch = e, base = b, prev = b + of_nat (max m ?t)\<rparr>)"
    using Cons.prems sint_diff_of_nat [of ?t m b]
    by (auto simp: clock_at_def Let_def timestamp_wrapping_add_def duration_to_ticks_def max_def)
  moreover have "max m ?t < 2 ^ 31" using Cons.prems by simp
  ultimately show ?case using Cons.prems Cons.IH [of "max m ?t"] by simp
qed

text \<open>The packet format as a codec: the interface through which the two sides of a track meet.\<close>

definition wf_packet :: "packet \<Rightarrow> bool" where
  "wf_packet p \<longleftrightarrow> wf_header (pheader p) \<and> packet_serialized_len p \<le> USIZE_MAX"

definition packet_wire :: "packet \<Rightarrow> bytes" where
  "packet_wire p = (case packet_serialize p of Ok raw \<Rightarrow> raw | _ \<Rightarrow> [])"

lemma packet_wire_eq: "wf_packet p \<Longrightarrow> packet_wire p = header_bytes (pheader p) @ payload p"
  by (simp add: packet_wire_def wf_packet_def packet_serialize_eq)

interpretation wire: codec wf_packet packet_wire packet_deserialize
proof unfold_locales
  fix p :: packet
  assume "wf_packet p"
  then show "packet_deserialize (packet_wire p) = Ok p"
    by (simp add: packet_wire_eq packet_deserialize_eq) (simp add: wf_packet_def header_bytes_roundtrip)
qed

section \<open>Properties\<close>

text \<open>C2: A well-formed packet survives the wire: serialising it succeeds, and deserialising
  the bytes gives the packet back, with every header field, both extensions and the payload.\<close>

theorem packet_roundtrip:
  assumes "wf_header (pheader p)" and "packet_serialized_len p \<le> USIZE_MAX"
  shows "\<exists>raw. packet_serialize p = Ok raw \<and> length raw = packet_serialized_len p
    \<and> packet_deserialize raw = Ok p"
  using assms length_header_bytes [OF assms(1)]
  by (cases p) (simp add: packet_serialize_eq packet_deserialize_eq header_bytes_roundtrip packet_serialized_len_def)

theorem packet_roundtrip_witness:
  "\<exists>raw. packet_serialize
      \<lparr>pheader = \<lparr>marker = Final, track_handle = Handle 0x8811, sequence = 0x4422, frame_number = 0x4411,
          ts_ticks = 0x44221188, exts = \<lparr>user_timestamp = Some (UserTimestampExt 0x4411221111118811),
            e2ee = Some \<lparr>key_index = 0xFA, iv = replicate 12 0x3C\<rparr>\<rparr>\<rparr>,
        payload = [1, 2, 3]\<rparr> = Ok raw \<and> length raw = 43"
  using packet_roundtrip [of "\<lparr>pheader = \<lparr>marker = Final, track_handle = Handle 0x8811, sequence = 0x4422,
          frame_number = 0x4411, ts_ticks = 0x44221188,
          exts = \<lparr>user_timestamp = Some (UserTimestampExt 0x4411221111118811),
            e2ee = Some \<lparr>key_index = 0xFA, iv = replicate 12 0x3C\<rparr>\<rparr>\<rparr>, payload = [1, 2, 3]\<rparr>"]
  by (auto simp: wf_header_def wf_extensions_def packet_serialized_len_def header_serialized_len_cases USIZE_MAX_def)

text \<open>C13: Deserialising is safe on any bytes from the network.  It never panics (no read past
  the end, no underflow); a packet it accepts has a non-zero handle and a full
  initialisation vector; its payload is exactly what follows a header of 12 bytes, or
  12 + 4(L + 1) bytes when the extension flag is set and L is the word count.\<close>

theorem packet_deserialize_safe:
  "packet_deserialize raw \<noteq> Panic \<and>
   (\<forall>p. packet_deserialize raw = Ok p \<longrightarrow>
      wf_header (pheader p) \<and> raw_header_len raw \<le> length raw \<and> payload p = drop (raw_header_len raw) raw)"
  by (auto simp: packet_deserialize_eq rust_simps header_deserialize_total
      dest: header_deserialize_Ok)

theorem packet_deserialize_safe_witness:
  "payload \<lparr>pheader = \<lparr>marker = Inter, track_handle = Handle 1, sequence = 0, frame_number = 0,
      ts_ticks = 0, exts = extensions_default\<rparr>, payload = [7]\<rparr> = drop 12 [0, 0, 0, 1, 0, 0, 0, 0, 0, 0, 0, 0, 7]"
proof -
  let ?raw = "[0, 0, 0, 1, 0, 0, 0, 0, 0, 0, 0, 0, 7] :: bytes"
  have "packet_deserialize ?raw =
      Ok \<lparr>pheader = \<lparr>marker = Inter, track_handle = Handle 1, sequence = 0, frame_number = 0,
        ts_ticks = 0, exts = extensions_default\<rparr>, payload = [7]\<rparr>"
    by (simp add: packet_deserialize_eq header_deserialize_eq header_extensions_deserialize_def
        from_be16_def from_be32_def be_value_def packet_consts marker_of_bits_def)
  moreover have "raw_header_len ?raw = 12" by (simp add: raw_header_len_def)
  ultimately show ?thesis using packet_deserialize_safe [of ?raw] by auto
qed

text \<open>Writing into a buffer of the caller, branch by branch: too little room for the header
  leaves the buffer alone; room for the header but not the payload leaves the header written;
  otherwise the packet is appended and its length, at most 40 bytes more than the payload, is
  returned.  No branch panics.\<close>

theorem packet_serialize_into_branches:
  assumes "wf_header (pheader p)"
  shows "packet_serialize_into p b =
    (if remaining_mut b < header_serialized_len (pheader p) then (b, Err TooSmallForHeader)
     else if remaining_mut b < packet_serialized_len p
     then (b\<lparr>buf_data := buf_data b @ header_bytes (pheader p)\<rparr>, Err TooSmallForPayload)
     else (b\<lparr>buf_data := buf_data b @ header_bytes (pheader p) @ payload p\<rparr>,
           Ok (packet_serialized_len p)))
    \<and> packet_serialized_len p \<le> 40 + length (payload p)"
  using packet_serialize_into_eq [OF assms]
  by (simp add: packet_serialized_len_def header_serialized_len_cases)

theorem packet_serialize_into_branches_witness:
  "snd (packet_serialize_into \<lparr>pheader = \<lparr>marker = Single, track_handle = Handle 1, sequence = 0,
      frame_number = 0, ts_ticks = 0, exts = extensions_default\<rparr>, payload = [1, 2]\<rparr>
      \<lparr>buf_data = [], buf_capacity = 13\<rparr>) = Err TooSmallForPayload"
  using packet_serialize_into_branches [of "\<lparr>pheader = \<lparr>marker = Single, track_handle = Handle 1,
      sequence = 0, frame_number = 0, ts_ticks = 0, exts = extensions_default\<rparr>, payload = [1, 2]\<rparr>"
      "\<lparr>buf_data = [], buf_capacity = 13\<rparr>"]
  by (simp add: wf_header_def wf_extensions_def remaining_mut_def header_serialized_len_cases
      packet_serialized_len_def extensions_default_def)

text \<open>The handle allocator hands out 1, 2, \<dots>, 65535 in order, each once and never zero,
  and then refuses every further request.\<close>

theorem handle_allocator_sequence:
  "handle_allocator_gets n handle_allocator_default =
    map (\<lambda>i. if i < 65536 then Some (Handle (of_nat i)) else None) [1..<Suc n]"
  using handle_allocator_gets_from [of 0 n] by (simp add: handle_allocator_default_def)

text \<open>Within 2^31 ticks of its epoch the clock returns the base timestamp plus the largest
  tick count seen so far, in wrap-around arithmetic: it follows the instants and never goes
  back when they do.\<close>

theorem clock_is_running_max:
  assumes "\<forall>i \<in> set instants. ticks_of_nanos rate (i - e) < 2 ^ 31"
  shows "clock_run rate (clock_with_epoch e b) instants =
    map (\<lambda>t. b + of_nat t) (running_max 0 (map (\<lambda>i. ticks_of_nanos rate (i - e)) instants))"
  using clock_run_from [OF assms, of 0 b] by (simp add: clock_with_epoch_def)

theorem clock_is_running_max_witness:
  "clock_run 90000 (clock_with_epoch 0 0xFFFFFFFF) [100000000, 50000000] = [8999, 8999]"
  using clock_is_running_max [of "[100000000, 50000000]" 90000 0 "0xFFFFFFFF"]
  by (simp add: ticks_of_nanos_def)

text \<open>
  Beyond that bound the comparison wraps: a track that pushes no frame for seven hours gets,
  at its next frame, the timestamp of the last one.
\<close>

lemma clock_stalls_after_idle_period:
  "clock_run 90000 (clock_with_epoch 0 0) [0, 7 * 3600 * 1000000000] = [0, 0]"
  by (simp add: clock_with_epoch_def clock_at_def Let_def duration_to_ticks_def ticks_of_nanos_def
      timestamp_wrapping_add_def timestamp_is_before_def)

text \<open>
  The packet format document lets padding stand before an extension, as single zero bytes.
  The reader takes padding two bytes at a time, so one padding byte before the user timestamp
  makes it read the tag as a length and reject the packet.
\<close>

lemma single_padding_byte_before_extension_rejected:
  "packet_deserialize
     ([4, 0, 0, 1, 0, 0, 0, 0, 0, 0, 0, 0, 0, 3] @ [0] @ [2, 8, 0x44, 1, 2, 3, 4, 5, 6, 7] @ [0, 0, 0])
   = Err (MalformedExt 8)"
  by (simp add: packet_deserialize_eq header_deserialize_eq header_extensions_deserialize_def
      from_be16_def from_be32_def be_value_def packet_consts marker_of_bits_def get_u16_def get_bytes_def
      extensions_deserialize.simps)

end
