(* ===== verification/DtTrack.thy ===== *)
theory DtTrack
  imports DtPacket
begin

text \<open>
  What local and remote tracks share (\<open>livekit-datatrack/src/track.rs\<close>): the SFU's track
  identifier with its checked conversion, and the information about a track.
\<close>

section \<open>Track identifiers\<close>

datatype data_track_sid = DataTrackSid string

datatype data_track_sid_error = DataTrackSidError

definition SID_PREFIX :: string where "SID_PREFIX = ''DTR_''"

definition sid_try_from :: "string \<Rightarrow> (data_track_sid_error, data_track_sid) outcome" where
  "sid_try_from raw_id =
     (if take (length SID_PREFIX) raw_id = SID_PREFIX then Ok (DataTrackSid raw_id) else Err DataTrackSidError)"

fun string_from_sid :: "data_track_sid \<Rightarrow> string" where
  "string_from_sid (DataTrackSid s) = s"

text \<open>The derived order of the identifiers is that of the strings they hold.\<close>

instantiation data_track_sid :: linorder
begin

definition less_eq_data_track_sid :: "data_track_sid \<Rightarrow> data_track_sid \<Rightarrow> bool" where
  "less_eq_data_track_sid a b \<longleftrightarrow> ord.lexordp_eq (\<lambda>c d. (of_char c :: nat) < of_char d) (string_from_sid a) (string_from_sid b)"

definition less_data_track_sid :: "data_track_sid \<Rightarrow> data_track_sid \<Rightarrow> bool" where
  "less_data_track_sid a b \<longleftrightarrow> ord_class.less_eq a b \<and> \<not> ord_class.less_eq b a"

instance
proof
  fix a b c :: data_track_sid
  have lin: "class.linorder (\<lambda>c d. (of_char c :: nat) \<le> of_char d) (\<lambda>c d. (of_char c :: nat) < of_char d)"
    by unfold_locales auto
  note facts = linorder.lexordp_eq_linear [OF lin] linorder.lexordp_eq_antisym [OF lin]
    linorder.lexordp_eq_trans [OF lin] ord.lexordp_eq_refl
  show "(a < b) = (a \<le> b \<and> \<not> b \<le> a)" by (simp add: less_data_track_sid_def)
  show "a \<le> a" by (simp add: less_eq_data_track_sid_def facts)
  show "a \<le> b \<Longrightarrow> b \<le> c \<Longrightarrow> a \<le> c" using facts(3) by (auto simp: less_eq_data_track_sid_def)
  show "a \<le> b \<Longrightarrow> b \<le> a \<Longrightarrow> a = b"
    using facts(2) by (cases a; cases b) (auto simp: less_eq_data_track_sid_def)
  show "a \<le> b \<or> b \<le> a" using facts(1) by (auto simp: less_eq_data_track_sid_def)
qed

end

lemma sid_roundtrip: "sid_try_from s = Ok x \<Longrightarrow> string_from_sid x = s"
  by (auto simp: sid_try_from_def split: if_splits)

lemma sid_accepted: "sid_try_from (SID_PREFIX @ s) = Ok (DataTrackSid (SID_PREFIX @ s))"
  by (simp add: sid_try_from_def)

section \<open>Track information\<close>

text \<open>
  \<open>DataTrackInfo\<close>.  Its \<open>sid\<close> is behind a lock shared by everyone who holds the
  information; the components keep one copy per track and update it there.
\<close>

record data_track_info =
  dti_sid :: data_track_sid
  dti_pub_handle :: handle
  dti_name :: string
  dti_uses_e2ee :: bool

definition info_sid :: "data_track_info \<Rightarrow> data_track_sid" where
  "info_sid i = dti_sid i"

datatype publish_error =
    NotAllowed | DuplicateName | InvalidName | PublishTimeout | LimitReached | Disconnected | PublishInternal string

datatype publish_state = Published | Republishing | Unpublished

end
