(* ===== verification/DtPacketizer.thy ===== *)
theory DtPacketizer
  imports DtPacket
begin

text \<open>
  Splitting a frame into packets (\<open>livekit-datatrack/src/local/packetizer.rs\<close>), with the
  wrapping counter (\<open>utils/counter.rs\<close>) and the chunk iterator (\<open>utils/bytes.rs\<close>) it uses.
\<close>

section \<open>Counter\<close>

datatype 'a counter = Counter 'a

definition wrapping_inc :: "'a::len word \<Rightarrow> 'a word" where
  "wrapping_inc x = x + 1"

fun counter_get :: "'a counter \<Rightarrow> 'a" where
  "counter_get (Counter v) = v"

definition get_then_increment :: "'a::len word counter \<Rightarrow> 'a word \<times> 'a word counter" where
  "get_then_increment c = (counter_get c, Counter (wrapping_inc (counter_get c)))"

section \<open>Chunks\<close>

record chunk_iter =
  ci_source :: bytes
  ci_max_size :: nat

definition into_chunks :: "bytes \<Rightarrow> nat \<Rightarrow> ('e, chunk_iter) outcome" where
  "into_chunks source max_size =
     (if max_size = 0 then Panic else Ok \<lparr>ci_source = source, ci_max_size = max_size\<rparr>)"

definition chunk_iter_next :: "chunk_iter \<Rightarrow> bytes option \<times> chunk_iter" where
  "chunk_iter_next it =
     (if ci_source it = [] then (None, it)
      else let n = min (ci_max_size it) (length (ci_source it))
           in (Some (take n (ci_source it)), it\<lparr>ci_source := drop n (ci_source it)\<rparr>))"

text \<open>
  The iterator run to its end.  It has one by the \<open>max_size\<close> check of \<open>into_chunks\<close>; a zero
  size, which that check excludes, would not progress and yields nothing here.
\<close>

function chunk_iter_collect :: "chunk_iter \<Rightarrow> bytes list" where
  "chunk_iter_collect it =
     (if ci_max_size it = 0 then []
      else case chunk_iter_next it of
             (None, _) \<Rightarrow> []
           | (Some chunk, it') \<Rightarrow> chunk # chunk_iter_collect it')"
  by pat_completeness auto
termination
  by (relation "measure (\<lambda>it. length (ci_source it))") (auto simp: chunk_iter_next_def Let_def split: if_splits)

declare chunk_iter_collect.simps [simp del]

section \<open>Packetizer\<close>

record packetizer =
  pz_handle :: handle
  pz_mtu_size :: nat
  pz_sequence :: "u16 counter"
  pz_frame_number :: "u16 counter"
  pz_clock :: clock

record packetizer_frame =
  pzf_payload :: bytes
  pzf_extensions :: extensions

datatype packetizer_error = MtuTooShort

text \<open>The random base timestamp and the instant of creation come from outside.\<close>

definition packetizer_new :: "handle \<Rightarrow> nat \<Rightarrow> instant \<Rightarrow> timestamp \<Rightarrow> packetizer" where
  "packetizer_new h mtu now random_base =
     \<lparr>pz_handle = h, pz_mtu_size = mtu, pz_sequence = Counter 0, pz_frame_number = Counter 0,
      pz_clock = clock_with_epoch now random_base\<rparr>"

definition packet_frame_marker :: "nat \<Rightarrow> nat \<Rightarrow> frame_marker" where
  "packet_frame_marker index packet_count =
     (if packet_count \<le> 1 then Single
      else if index = 0 then Start
      else if index = packet_count - 1 then Final
      else Inter)"

text \<open>The \<open>enumerate().map(..)\<close> over the chunks: the closure advances the sequence counter.\<close>

fun packets_of_chunks :: "header \<Rightarrow> nat \<Rightarrow> nat \<Rightarrow> u16 counter \<Rightarrow> bytes list \<Rightarrow> packet list \<times> u16 counter" where
  "packets_of_chunks h packet_count index sq [] = ([], sq)"
| "packets_of_chunks h packet_count index sq (chunk # chunks) =
     (let (s, sq) = get_then_increment sq;
          p = \<lparr>pheader = h\<lparr>marker := packet_frame_marker index packet_count, sequence := s\<rparr>,
               payload = chunk\<rparr>;
          (ps, sq) = packets_of_chunks h packet_count (Suc index) sq chunks
      in (p # ps, sq))"

definition packetize ::
  "packetizer \<Rightarrow> instant \<Rightarrow> packetizer_frame \<Rightarrow> (packetizer_error, packet list) outcome \<times> packetizer" where
  "packetize pz now frame =
     (let (ts, clk) = clock_at 90000 (pz_clock pz) now;
          pz = pz\<lparr>pz_clock := clk\<rparr>;
          h = \<lparr>marker = Inter, track_handle = pz_handle pz, sequence = 0, frame_number = 0,
               ts_ticks = ts, exts = pzf_extensions frame\<rparr>;
          max_payload_size = pz_mtu_size pz - header_serialized_len h
      in if max_payload_size = 0 then (Err MtuTooShort, pz)
         else
          (let (fnum, fc) = get_then_increment (pz_frame_number pz);
               pz = pz\<lparr>pz_frame_number := fc\<rparr>;
               h = h\<lparr>frame_number := fnum\<rparr>;
               packet_count = div_ceil (length (pzf_payload frame)) max_payload_size
           in case into_chunks (pzf_payload frame) max_payload_size of
                Ok it \<Rightarrow>
                  (let (ps, sq) = packets_of_chunks h packet_count 0 (pz_sequence pz) (chunk_iter_collect it)
                   in (Ok ps, pz\<lparr>pz_sequence := sq\<rparr>))
              | Err e \<Rightarrow> (Err e, pz)
              | Panic \<Rightarrow> (Panic, pz)))"

section \<open>Chunks, characterised\<close>

text \<open>The chunks of a byte string, by position.\<close>

definition chunk_at :: "nat \<Rightarrow> bytes \<Rightarrow> nat \<Rightarrow> bytes" where
  "chunk_at m src i = take m (drop (i * m) src)"

lemma chunk_iter_collect_eq:
  "0 < m \<Longrightarrow> chunk_iter_collect \<lparr>ci_source = src, ci_max_size = m\<rparr> =
    (if src = [] then [] else take m src # chunk_iter_collect \<lparr>ci_source = drop m src, ci_max_size = m\<rparr>)"
  by (subst chunk_iter_collect.simps) (auto simp: chunk_iter_next_def Let_def min_def)

lemma chunk_iter_collect_map:
  assumes "0 < m"
  shows "chunk_iter_collect \<lparr>ci_source = src, ci_max_size = m\<rparr> =
    map (chunk_at m src) [0..<div_ceil (length src) m]"
proof (induction "length src" arbitrary: src rule: less_induct)
  case less
  show ?case
  proof (cases "src = []")
    case True
    then show ?thesis using assms by (simp add: chunk_iter_collect_eq)
  next
    case False
    have IH: "chunk_iter_collect \<lparr>ci_source = drop m src, ci_max_size = m\<rparr> =
        map (chunk_at m (drop m src)) [0..<div_ceil (length (drop m src)) m]"
      using False assms by (intro less) simp
    have count: "div_ceil (length src) m = Suc (div_ceil (length (drop m src)) m)"
    proof (cases "m \<le> length src")
      case True
      then show ?thesis using assms div_ceil_add [of m "length src - m"] by simp
    next
      case False
      then show ?thesis using assms \<open>src \<noteq> []\<close> by (simp add: div_ceil_small)
    qed
    have "map (chunk_at m src) [0..<Suc n] = take m src # map (chunk_at m (drop m src)) [0..<n]" for n
      by (simp only: upt_conv_Cons [of 0 "Suc n"] map_Suc_upt [symmetric] zero_less_Suc list.map)
         (simp add: chunk_at_def comp_def add.commute)
    then show ?thesis
      using False assms by (simp add: chunk_iter_collect_eq IH count)
  qed
qed

lemma concat_chunks:
  assumes "0 < m"
  shows "concat (map (chunk_at m src) [0..<div_ceil (length src) m]) = src"
  unfolding chunk_iter_collect_map [OF assms, symmetric]
proof (induction "length src" arbitrary: src rule: less_induct)
  case less
  show ?case
  proof (cases "src = []")
    case True
    then show ?thesis using assms by (simp add: chunk_iter_collect_eq)
  next
    case False
    then have "concat (chunk_iter_collect \<lparr>ci_source = drop m src, ci_max_size = m\<rparr>) = drop m src"
      using assms by (intro less) simp
    with False show ?thesis
      using assms by (subst chunk_iter_collect_eq) simp_all
  qed
qed

lemma length_chunk_at: "length (chunk_at m src i) \<le> m"
  by (simp add: chunk_at_def)

lemma div_ceil_gt: "0 < m \<Longrightarrow> i < div_ceil n m \<Longrightarrow> i * m < n"
proof -
  assume "0 < m" "i < div_ceil n m"
  then have "Suc i * m \<le> n + m - 1"
    by (simp add: div_ceil_def less_eq_div_iff_mult_less_eq Suc_le_eq [symmetric])
  with \<open>0 < m\<close> show ?thesis by simp
qed

lemma chunk_at_nonempty: "0 < m \<Longrightarrow> i < div_ceil (length src) m \<Longrightarrow> chunk_at m src i \<noteq> []"
  using div_ceil_gt [of m i "length src"] by (simp add: chunk_at_def)

section \<open>The packets of a frame, characterised\<close>

lemma packets_of_chunks_eq:
  "packets_of_chunks h n k (Counter s) cs =
    (map (\<lambda>i. \<lparr>pheader = h\<lparr>marker := packet_frame_marker (k + i) n, sequence := s + of_nat i\<rparr>,
              payload = cs ! i\<rparr>) [0..<length cs],
     Counter (s + of_nat (length cs)))"
proof (induction cs arbitrary: k s)
  case Nil
  then show ?case by simp
next
  case (Cons c cs)
  have "map f [0..<Suc (length cs)] = f 0 # map (\<lambda>i. f (Suc i)) [0..<length cs]" for f :: "nat \<Rightarrow> packet"
    by (simp only: upt_conv_Cons [of 0 "Suc (length cs)"] map_Suc_upt [symmetric] zero_less_Suc list.map)
       (simp add: comp_def)
  then show ?case
    by (simp add: get_then_increment_def wrapping_inc_def Cons.IH Let_def ac_simps del: upt_Suc)
qed

text \<open>Packet \<open>i\<close> of the \<open>n\<close> packets of a frame, with base header \<open>h\<close>, first sequence number
  \<open>s\<close> and chunk function \<open>c\<close>.\<close>

definition frame_packet :: "header \<Rightarrow> u16 \<Rightarrow> nat \<Rightarrow> (nat \<Rightarrow> bytes) \<Rightarrow> nat \<Rightarrow> packet" where
  "frame_packet h s n c i =
     \<lparr>pheader = h\<lparr>marker := packet_frame_marker i n, sequence := s + of_nat i\<rparr>, payload = c i\<rparr>"

definition frame_header :: "packetizer \<Rightarrow> instant \<Rightarrow> packetizer_frame \<Rightarrow> header" where
  "frame_header pz now frame =
     \<lparr>marker = Inter, track_handle = pz_handle pz, sequence = 0,
      frame_number = counter_get (pz_frame_number pz),
      ts_ticks = fst (clock_at 90000 (pz_clock pz) now), exts = pzf_extensions frame\<rparr>"

lemma header_serialized_len_cong: "exts h = exts h' \<Longrightarrow> header_serialized_len h = header_serialized_len h'"
  by (simp add: header_serialized_len_cases)

definition max_payload :: "packetizer \<Rightarrow> packetizer_frame \<Rightarrow> nat" where
  "max_payload pz frame = pz_mtu_size pz - header_serialized_len (frame_header pz 0 frame)"

definition frame_packet_count :: "packetizer \<Rightarrow> packetizer_frame \<Rightarrow> nat" where
  "frame_packet_count pz frame = div_ceil (length (pzf_payload frame)) (max_payload pz frame)"

lemma packetize_eq:
  "packetize pz now frame =
    (if max_payload pz frame = 0
     then (Err MtuTooShort, pz\<lparr>pz_clock := snd (clock_at 90000 (pz_clock pz) now)\<rparr>)
     else
      (Ok (map (frame_packet (frame_header pz now frame) (counter_get (pz_sequence pz))
              (frame_packet_count pz frame) (chunk_at (max_payload pz frame) (pzf_payload frame)))
            [0..<frame_packet_count pz frame]),
       pz\<lparr>pz_clock := snd (clock_at 90000 (pz_clock pz) now),
          pz_frame_number := Counter (counter_get (pz_frame_number pz) + 1),
          pz_sequence := Counter (counter_get (pz_sequence pz) + of_nat (frame_packet_count pz frame))\<rparr>))"
proof -
  obtain ts clk where clk: "clock_at 90000 (pz_clock pz) now = (ts, clk)" by fastforce
  obtain s where s: "pz_sequence pz = Counter s" by (cases "pz_sequence pz")
  let ?h = "\<lparr>marker = Inter, track_handle = pz_handle pz, sequence = 0, frame_number = 0,
      ts_ticks = ts, exts = pzf_extensions frame\<rparr>"
  have "header_serialized_len ?h = header_serialized_len (frame_header pz 0 frame)"
    by (rule header_serialized_len_cong) (simp add: frame_header_def)
  then have hl: "pz_mtu_size pz - header_serialized_len ?h = max_payload pz frame"
    "pz_mtu_size pz \<le> header_serialized_len ?h \<longleftrightarrow> max_payload pz frame = 0"
    by (simp_all add: max_payload_def)
  show ?thesis
    by (simp add: packetize_def Let_def clk hl into_chunks_def get_then_increment_def wrapping_inc_def
        chunk_iter_collect_map packets_of_chunks_eq s frame_packet_count_def [symmetric])
       (simp add: frame_packet_def frame_header_def clk)
qed

lemma length_frame_packets [simp]:
  "length (map (frame_packet h s n c) [0..<n]) = n" by simp

lemma frame_packet_sel [simp]:
  "payload (frame_packet h s n c i) = c i"
  "sequence (pheader (frame_packet h s n c i)) = s + of_nat i"
  "marker (pheader (frame_packet h s n c i)) = packet_frame_marker i n"
  "track_handle (pheader (frame_packet h s n c i)) = track_handle h"
  "frame_number (pheader (frame_packet h s n c i)) = frame_number h"
  "ts_ticks (pheader (frame_packet h s n c i)) = ts_ticks h"
  "exts (pheader (frame_packet h s n c i)) = exts h"
  by (simp_all add: frame_packet_def)

lemma frame_header_sel [simp]:
  "track_handle (frame_header pz now frame) = pz_handle pz"
  "frame_number (frame_header pz now frame) = counter_get (pz_frame_number pz)"
  "ts_ticks (frame_header pz now frame) = fst (clock_at 90000 (pz_clock pz) now)"
  "exts (frame_header pz now frame) = pzf_extensions frame"
  by (simp_all add: frame_header_def)

text \<open>What \<open>packetize\<close> returns when it succeeds.\<close>

lemma packetize_Ok:
  assumes "packetize pz now frame = (Ok ps, pz')"
  defines "n \<equiv> frame_packet_count pz frame"
  shows "0 < max_payload pz frame" and "length ps = n"
    and "ps = map (frame_packet (frame_header pz now frame) (counter_get (pz_sequence pz)) n
                (chunk_at (max_payload pz frame) (pzf_payload frame))) [0..<n]"
  using assms by (auto simp: packetize_eq split: if_splits)

lemma frame_packet_serialized_len:
  "packet_serialized_len (frame_packet (frame_header pz now frame) s n c i) =
    header_serialized_len (frame_header pz 0 frame) + length (c i)"
  by (simp add: packet_serialized_len_def)
     (rule header_serialized_len_cong, simp)

lemma frame_markers:
  "map (\<lambda>i. packet_frame_marker i n) [0..<n] =
    (if n = 0 then [] else if n = 1 then [Single] else [Start] @ replicate (n - 2) Inter @ [Final])"
  by (rule nth_equalityI)
     (auto simp: packet_frame_marker_def nth_append nth_Cons split: nat.splits)

section \<open>Properties\<close>

text \<open>
  C28: The packets of a frame.  When \<open>packetize\<close> succeeds, the payloads concatenate to the
  frame's payload; the packets carry consecutive wrapping sequence numbers from the packetizer's
  counter, one and the same frame number, timestamp, handle and extensions; no payload is empty and
  no packet is longer on the wire than the MTU; and the counters have moved past what was used, so that
  the next frame continues the numbering.
\<close>

theorem packetize_layout:
  assumes "packetize pz now frame = (Ok ps, pz')"
  shows "concat (map payload ps) = pzf_payload frame \<and>
    map (sequence \<circ> pheader) ps = map (\<lambda>i. counter_get (pz_sequence pz) + of_nat i) [0..<length ps] \<and>
    list_all (\<lambda>p. frame_number (pheader p) = counter_get (pz_frame_number pz) \<and>
      track_handle (pheader p) = pz_handle pz \<and>
      ts_ticks (pheader p) = fst (clock_at 90000 (pz_clock pz) now) \<and>
      exts (pheader p) = pzf_extensions frame \<and>
      payload p \<noteq> [] \<and> packet_serialized_len p \<le> pz_mtu_size pz) ps \<and>
    counter_get (pz_frame_number pz') = counter_get (pz_frame_number pz) + 1 \<and>
    counter_get (pz_sequence pz') = counter_get (pz_sequence pz) + of_nat (length ps)"
proof (intro conjI)
  note ok = packetize_Ok [OF assms]
  show "concat (map payload ps) = pzf_payload frame"
    using ok(1) concat_chunks [of "max_payload pz frame" "pzf_payload frame"]
    by (subst ok(3)) (simp add: frame_packet_count_def comp_def)
  show "map (sequence \<circ> pheader) ps = map (\<lambda>i. counter_get (pz_sequence pz) + of_nat i) [0..<length ps]"
    unfolding ok(2) by (subst ok(3)) simp
  have "chunk_at (max_payload pz frame) (pzf_payload frame) i \<noteq> []"
    and "header_serialized_len (frame_header pz 0 frame) +
      length (chunk_at (max_payload pz frame) (pzf_payload frame) i) \<le> pz_mtu_size pz"
    if "i < frame_packet_count pz frame" for i
    using ok(1) that chunk_at_nonempty length_chunk_at [of "max_payload pz frame" "pzf_payload frame" i]
    by (auto simp: frame_packet_count_def max_payload_def)
  then show "list_all (\<lambda>p. frame_number (pheader p) = counter_get (pz_frame_number pz) \<and>
      track_handle (pheader p) = pz_handle pz \<and>
      ts_ticks (pheader p) = fst (clock_at 90000 (pz_clock pz) now) \<and>
      exts (pheader p) = pzf_extensions frame \<and>
      payload p \<noteq> [] \<and> packet_serialized_len p \<le> pz_mtu_size pz) ps"
    by (subst ok(3)) (simp add: list_all_iff frame_packet_serialized_len)
  show "counter_get (pz_frame_number pz') = counter_get (pz_frame_number pz) + 1"
    "counter_get (pz_sequence pz') = counter_get (pz_sequence pz) + of_nat (length ps)"
    using assms ok by (auto simp: packetize_eq split: if_splits)
qed

theorem packetize_layout_witness:
  "concat (map payload (case packetize (packetizer_new (Handle 7) 16 1000 5) 2000
      \<lparr>pzf_payload = [1, 2, 3, 4, 5, 6], pzf_extensions = extensions_default\<rparr> of (Ok ps, _) \<Rightarrow> ps | _ \<Rightarrow> [])) =
    [1, 2, 3, 4, 5, 6]"
proof -
  let ?pz = "packetizer_new (Handle 7) 16 1000 5"
  let ?f = "\<lparr>pzf_payload = [1, 2, 3, 4, 5, 6], pzf_extensions = extensions_default\<rparr>"
  obtain ps pz' where r: "packetize ?pz 2000 ?f = (Ok ps, pz')"
    by (auto simp: packetize_eq max_payload_def header_serialized_len_cases packetizer_new_def
        extensions_default_def)
  show ?thesis
    using packetize_layout [OF r] by (simp add: r)
qed

text \<open>
  The packets' markers.  A frame that fits one packet is \<open>Single\<close>; any longer frame begins with one
  \<open>Start\<close>, ends with one \<open>Final\<close>, and everything between is \<open>Inter\<close>.
\<close>

theorem packetize_markers:
  assumes "packetize pz now frame = (Ok ps, pz')"
  shows "map (marker \<circ> pheader) ps =
    (if length ps = 0 then [] else if length ps = 1 then [Single]
     else [Start] @ replicate (length ps - 2) Inter @ [Final])"
proof -
  have "map (marker \<circ> pheader) ps = map (\<lambda>i. packet_frame_marker i (length ps)) [0..<length ps]"
    unfolding packetize_Ok(2) [OF assms] by (subst packetize_Ok(3) [OF assms]) simp
  also have "\<dots> = (if length ps = 0 then [] else if length ps = 1 then [Single]
     else [Start] @ replicate (length ps - 2) Inter @ [Final])"
    by (rule frame_markers)
  finally show ?thesis .
qed

theorem packetize_markers_witness:
  "map (marker \<circ> pheader) (case packetize (packetizer_new (Handle 7) 14 1000 5) 2000
      \<lparr>pzf_payload = [1, 2, 3, 4, 5, 6], pzf_extensions = extensions_default\<rparr> of (Ok ps, _) \<Rightarrow> ps | _ \<Rightarrow> []) =
    [Start, Inter, Final]"
proof -
  let ?pz = "packetizer_new (Handle 7) 14 1000 5"
  let ?f = "\<lparr>pzf_payload = [1, 2, 3, 4, 5, 6], pzf_extensions = extensions_default\<rparr>"
  obtain ps pz' where r: "packetize ?pz 2000 ?f = (Ok ps, pz')"
    by (auto simp: packetize_eq max_payload_def header_serialized_len_cases packetizer_new_def
        extensions_default_def)
  have "length ps = 3"
    using packetize_Ok(2) [OF r]
    by (simp add: frame_packet_count_def max_payload_def header_serialized_len_cases packetizer_new_def
        extensions_default_def div_ceil_def)
  then show ?thesis
    using packetize_markers [OF r] by (simp add: r numeral_2_eq_2)
qed

text \<open>
  The only failure of \<open>packetize\<close> is an MTU that leaves no room for a payload.  It never panics
  (the zero chunk size that \<open>into_chunks\<close> asserts against cannot reach it), and on failure no
  sequence or frame number is consumed.
\<close>

theorem packetize_failure:
  "case packetize pz now frame of
     (Ok ps, _) \<Rightarrow> header_serialized_len (frame_header pz now frame) < pz_mtu_size pz
   | (Err MtuTooShort, pz') \<Rightarrow> pz_mtu_size pz \<le> header_serialized_len (frame_header pz now frame) \<and>
       pz_sequence pz' = pz_sequence pz \<and> pz_frame_number pz' = pz_frame_number pz
   | (Panic, _) \<Rightarrow> False"
proof -
  have "header_serialized_len (frame_header pz 0 frame) = header_serialized_len (frame_header pz now frame)"
    by (rule header_serialized_len_cong) simp
  then show ?thesis
    by (simp add: packetize_eq max_payload_def)
qed

end
