(* ===== verification/LKMaps.thy ===== *)
theory LKMaps
  imports LKPrelude "HOL-Library.AList"
begin

text \<open>
  \<open>HashMap\<close> and \<open>BTreeMap\<close> as association lists with distinct keys.  The list order stands
  for the iteration order: a handler that iterates does so in list order, and the theorems
  hold for every list, so for every order a hash map may use.  The laws of the map interface
  are a locale, interpreted on the association lists.
\<close>

type_synonym ('k, 'v) hashmap = "('k \<times> 'v) list"

abbreviation hm_get :: "('k, 'v) hashmap \<Rightarrow> 'k \<Rightarrow> 'v option" where
  "hm_get \<equiv> map_of"

definition hm_insert :: "'k \<Rightarrow> 'v \<Rightarrow> ('k, 'v) hashmap \<Rightarrow> ('k, 'v) hashmap" where
  "hm_insert k v m = AList.update k v m"

definition hm_remove :: "'k \<Rightarrow> ('k, 'v) hashmap \<Rightarrow> ('k, 'v) hashmap" where
  "hm_remove k m = AList.delete k m"

definition hm_contains :: "('k, 'v) hashmap \<Rightarrow> 'k \<Rightarrow> bool" where
  "hm_contains m k \<longleftrightarrow> map_of m k \<noteq> None"

definition hm_keys :: "('k, 'v) hashmap \<Rightarrow> 'k list" where
  "hm_keys m = map fst m"

definition hm_inv :: "('k, 'v) hashmap \<Rightarrow> bool" where
  "hm_inv m \<longleftrightarrow> distinct (map fst m)"

locale map_store =
  fixes empty :: "'m"
    and get :: "'m \<Rightarrow> 'k \<Rightarrow> 'v option"
    and ins :: "'k \<Rightarrow> 'v \<Rightarrow> 'm \<Rightarrow> 'm"
    and rem :: "'k \<Rightarrow> 'm \<Rightarrow> 'm"
    and inv :: "'m \<Rightarrow> bool"
  assumes get_empty: "get empty k = None"
    and get_ins: "get (ins k v m) k' = (if k' = k then Some v else get m k')"
    and get_rem: "get (rem k m) k' = (if k' = k then None else get m k')"
    and inv_empty: "inv empty"
    and inv_ins: "inv m \<Longrightarrow> inv (ins k v m)"
    and inv_rem: "inv m \<Longrightarrow> inv (rem k m)"
begin

lemma get_fold_ins:
  "get (fold (\<lambda>(k, v). ins k v) kvs m) k' =
    (case map_of (rev kvs) k' of Some v \<Rightarrow> Some v | None \<Rightarrow> get m k')"
  by (induction kvs arbitrary: m) (auto simp: get_ins map_add_def split: option.splits)

lemma get_fold_rem:
  "get (fold rem ks m) k' = (if k' \<in> set ks then None else get m k')"
  by (induction ks arbitrary: m) (auto simp: get_rem)

lemma inv_fold_rem: "inv m \<Longrightarrow> inv (fold rem ks m)"
  by (induction ks arbitrary: m) (auto simp: inv_rem)

end

lemma map_of_AList_delete: "map_of (AList.delete k m) k' = (if k' = k then None else map_of m k')"
  by (simp add: AList.delete_conv)

lemma map_of_AList_update: "map_of (AList.update k v m) k' = (if k' = k then Some v else map_of m k')"
  by (simp add: AList.update_conv)

interpretation hm: map_store "[]" "map_of" hm_insert hm_remove hm_inv
  by unfold_locales
     (auto simp: hm_insert_def hm_remove_def hm_inv_def map_of_AList_delete map_of_AList_update
        distinct_update distinct_delete)

lemmas hm_simps [simp] = hm.get_ins hm.get_rem hm.inv_empty hm.inv_ins hm.inv_rem

lemma hm_contains_iff [simp]: "hm_contains m k \<longleftrightarrow> map_of m k \<noteq> None"
  by (simp add: hm_contains_def)

lemma hm_in_set: "hm_inv m \<Longrightarrow> (k, v) \<in> set m \<longleftrightarrow> map_of m k = Some v"
  by (auto simp: hm_inv_def intro: map_of_is_SomeI dest: map_of_SomeD)

text \<open>The number of entries, as \<open>len()\<close> reads it.\<close>

lemma hm_length: "hm_inv m \<Longrightarrow> length m = card (dom (map_of m))"
  using distinct_card [of "map fst m"] by (simp add: hm_inv_def dom_map_of_conv_image_fst)

lemma dom_hm_insert: "dom (map_of (hm_insert k v m)) = insert k (dom (map_of m))"
  by (auto split: if_splits)

lemma length_hm_insert:
  "hm_inv m \<Longrightarrow> length (hm_insert k v m) = (if map_of m k = None then Suc (length m) else length m)"
  by (simp add: hm_length dom_hm_insert card_insert_if finite_dom_map_of domIff)

lemma length_hm_remove_less: "map_of m k = Some v \<Longrightarrow> length (hm_remove k m) < length m"
proof -
  assume "map_of m k = Some v"
  then have "(k, v) \<in> set m" by (rule map_of_SomeD)
  then show ?thesis
    unfolding hm_remove_def AList.delete_eq by (intro length_filter_less) auto
qed

text \<open>The number of entries whose value satisfies a predicate.\<close>

definition hm_count :: "('v \<Rightarrow> bool) \<Rightarrow> ('k, 'v) hashmap \<Rightarrow> nat" where
  "hm_count P m = length (filter (\<lambda>(_, v). P v) m)"

lemma hm_count_Nil [simp]: "hm_count P [] = 0"
  by (simp add: hm_count_def)

lemma hm_count_Cons: "hm_count P ((k, v) # m) = (if P v then 1 else 0) + hm_count P m"
  by (simp add: hm_count_def)

lemma hm_insert_new: "map_of m k = None \<Longrightarrow> hm_insert k v m = m @ [(k, v)]"
  by (simp add: hm_insert_def) (induction m, auto split: if_splits)

lemma hm_remove_absent: "map_of m k = None \<Longrightarrow> hm_remove k m = m"
  by (simp add: hm_remove_def) (induction m, auto simp: AList.delete_eq split: if_splits)

lemma hm_count_insert_new:
  "map_of m k = None \<Longrightarrow> hm_count P (hm_insert k v m) = hm_count P m + (if P v then 1 else 0)"
  by (simp add: hm_insert_new hm_count_def)

lemma hm_count_remove:
  "hm_inv m \<Longrightarrow> map_of m k = Some v \<Longrightarrow> hm_count P m = hm_count P (hm_remove k m) + (if P v then 1 else 0)"
proof (induction m)
  case Nil
  then show ?case by simp
next
  case (Cons a m)
  obtain k' v' where a: "a = (k', v')" by fastforce
  show ?case
  proof (cases "k' = k")
    case True
    with Cons.prems a have "map_of m k = None" "v' = v"
      by (auto simp: hm_inv_def map_of_eq_None_iff)
    then have "hm_remove k (a # m) = m"
      using True a hm_remove_absent [of m k] by (simp add: hm_remove_def AList.delete_eq)
    then show ?thesis using a \<open>v' = v\<close> by (simp add: hm_count_Cons)
  next
    case False
    then have "hm_remove k (a # m) = a # hm_remove k m" using a by (simp add: hm_remove_def AList.delete_eq)
    then show ?thesis
      using Cons False a by (simp add: hm_count_Cons hm_inv_def)
  qed
qed

end
