(* ===== verification/DtDepacketizer.thy ===== *)
theory DtDepacketizer
  imports DtPacketizer LKMaps
begin

text \<open>
  Reassembling frames from packets (\<open>livekit-datatrack/src/remote/depacketizer.rs\<close>).  The
  payload map is a \<open>BTreeMap\<close> keyed by sequence number; debug assertions, which release
  builds drop, are not modelled.
\<close>

section \<open>State and results\<close>

record partial_frame =
  pf_frame_number :: u16
  pf_start_sequence :: u16
  pf_extensions :: extensions
  pf_payloads :: "(u16, bytes) hashmap"

record depacketizer =
  dp_partial :: "partial_frame option"

record depacketizer_frame =
  dpf_payload :: bytes
  dpf_extensions :: extensions

datatype drop_reason = Interrupted | UnknownFrame | BufferFull | Incomplete u16 u16

record drop_error =
  de_frame_number :: u16
  de_reason :: drop_reason

record push_result =
  pr_frame :: "depacketizer_frame option"
  pr_drop_error :: "drop_error option"

definition push_result_default :: push_result where
  "push_result_default = \<lparr>pr_frame = None, pr_drop_error = None\<rparr>"

definition result_from_frame :: "depacketizer_frame \<Rightarrow> push_result" where
  "result_from_frame f = push_result_default\<lparr>pr_frame := Some f\<rparr>"

definition result_from_drop :: "u16 \<Rightarrow> drop_reason \<Rightarrow> push_result" where
  "result_from_drop n r =
     push_result_default\<lparr>pr_drop_error := Some \<lparr>de_frame_number = n, de_reason = r\<rparr>\<rparr>"

definition MAX_BUFFER_PACKETS :: nat where "MAX_BUFFER_PACKETS = 128"

definition depacketizer_new :: depacketizer where
  "depacketizer_new = \<lparr>dp_partial = None\<rparr>"

section \<open>Operations\<close>

definition frame_from_single :: "depacketizer \<Rightarrow> packet \<Rightarrow> push_result \<times> depacketizer" where
  "frame_from_single d p =
     (let result = push_result_default;
          result = (case dp_partial d of
                      Some partial \<Rightarrow> result\<lparr>pr_drop_error :=
                        Some \<lparr>de_frame_number = pf_frame_number partial, de_reason = Interrupted\<rparr>\<rparr>
                    | None \<Rightarrow> result);
          d = d\<lparr>dp_partial := None\<rparr>
      in (result\<lparr>pr_frame := Some \<lparr>dpf_payload = payload p, dpf_extensions = exts (pheader p)\<rparr>\<rparr>, d))"

definition begin_partial :: "depacketizer \<Rightarrow> packet \<Rightarrow> push_result \<times> depacketizer" where
  "begin_partial d p =
     (let result = push_result_default;
          result = (case dp_partial d of
                      Some partial \<Rightarrow> result\<lparr>pr_drop_error :=
                        Some \<lparr>de_frame_number = pf_frame_number partial, de_reason = Interrupted\<rparr>\<rparr>
                    | None \<Rightarrow> result);
          start_sequence = sequence (pheader p);
          partial = \<lparr>pf_frame_number = frame_number (pheader p), pf_start_sequence = start_sequence,
                     pf_extensions = exts (pheader p), pf_payloads = [(start_sequence, payload p)]\<rparr>
      in (result, d\<lparr>dp_partial := Some partial\<rparr>))"

text \<open>The \<open>while let\<close> loop of \<open>finalize\<close>: it removes what it reads, so it ends.\<close>

function finalize_loop :: "(u16, bytes) hashmap \<Rightarrow> u16 \<Rightarrow> u16 \<Rightarrow> bytes \<Rightarrow> bytes option" where
  "finalize_loop payloads sq end_sequence buf =
     (case hm_get payloads sq of
        None \<Rightarrow> None
      | Some partial_payload \<Rightarrow>
          (let buf = buf @ partial_payload in
           if sq \<noteq> end_sequence
           then finalize_loop (hm_remove sq payloads) (sq + 1) end_sequence buf
           else Some buf))"
  by pat_completeness auto
termination
  by (relation "measure (\<lambda>(m, _). length m)") (auto simp: length_hm_remove_less)

declare finalize_loop.simps [simp del]

definition finalize :: "partial_frame \<Rightarrow> u16 \<Rightarrow> push_result" where
  "finalize partial end_sequence =
     (let received = of_nat (length (pf_payloads partial)) in
      case finalize_loop (pf_payloads partial) (pf_start_sequence partial) end_sequence [] of
        Some buf \<Rightarrow>
          result_from_frame \<lparr>dpf_payload = buf, dpf_extensions = pf_extensions partial\<rparr>
      | None \<Rightarrow>
          result_from_drop (pf_frame_number partial)
            (Incomplete received (end_sequence - pf_start_sequence partial + 1)))"

definition push_to_partial :: "depacketizer \<Rightarrow> packet \<Rightarrow> push_result \<times> depacketizer" where
  "push_to_partial d p =
     (case dp_partial d of
        None \<Rightarrow> (result_from_drop (frame_number (pheader p)) UnknownFrame, d)
      | Some partial \<Rightarrow>
          (let d = d\<lparr>dp_partial := None\<rparr> in
           if frame_number (pheader p) \<noteq> pf_frame_number partial
           then (result_from_drop (pf_frame_number partial) Interrupted, d)
           else if MAX_BUFFER_PACKETS \<le> length (pf_payloads partial)
           then (result_from_drop (pf_frame_number partial) BufferFull, d)
           else
            (let partial = partial\<lparr>pf_payloads :=
                   hm_insert (sequence (pheader p)) (payload p) (pf_payloads partial)\<rparr>
             in if marker (pheader p) = Final
                then (finalize partial (sequence (pheader p)), d)
                else (push_result_default, d\<lparr>dp_partial := Some partial\<rparr>))))"

definition depacketizer_push :: "depacketizer \<Rightarrow> packet \<Rightarrow> push_result \<times> depacketizer" where
  "depacketizer_push d p =
     (case marker (pheader p) of
        Single \<Rightarrow> frame_from_single d p
      | Start \<Rightarrow> begin_partial d p
      | Inter \<Rightarrow> push_to_partial d p
      | Final \<Rightarrow> push_to_partial d p)"

text \<open>A depacketizer as an event machine, its results as the outputs.\<close>

definition depacketizer_step :: "depacketizer \<Rightarrow> packet \<Rightarrow> depacketizer \<times> push_result list" where
  "depacketizer_step d p = (let (r, d') = depacketizer_push d p in (d', [r]))"

text \<open>The frames among some results, in order.\<close>

definition result_frames :: "push_result list \<Rightarrow> depacketizer_frame list" where
  "result_frames rs = List.map_filter pr_frame rs"

section \<open>The loop of \<open>finalize\<close>, characterised\<close>

text \<open>The sequence numbers from \<open>s\<close> to \<open>e\<close>, with wrap-around.\<close>

definition seq_range :: "u16 \<Rightarrow> u16 \<Rightarrow> u16 list" where
  "seq_range s e = map (\<lambda>i. s + of_nat i) [0..<Suc (unat (e - s))]"

lemma in_seq_range: "k \<in> set (seq_range s e) \<longleftrightarrow> (\<exists>i. i \<le> unat (e - s) \<and> k = s + of_nat i)"
  by (auto simp: seq_range_def less_Suc_eq_le simp del: upt_Suc)

lemma seq_range_start: "s \<in> set (seq_range s e)"
  unfolding in_seq_range by (rule exI [of _ 0]) simp

lemma seq_range_single [simp]: "seq_range s s = [s]"
  by (simp add: seq_range_def)

lemma unat_minus_succ: "s \<noteq> e \<Longrightarrow> unat (e - s) = Suc (unat (e - (s + 1)))" for s e :: u16
proof -
  assume "s \<noteq> e"
  then have "e - s \<noteq> 0" by simp
  then have "unat (e - s - 1) = unat (e - s) - 1" "0 < unat (e - s)"
    by (simp_all add: unat_minus_one unat_gt_0)
  then show ?thesis by (simp add: diff_diff_eq)
qed

lemma seq_range_Cons: "s \<noteq> e \<Longrightarrow> seq_range s e = s # seq_range (s + 1) e"
proof -
  assume ne: "s \<noteq> e"
  have "map f [0..<Suc (Suc n)] = f 0 # map (\<lambda>i. f (Suc i)) [0..<Suc n]" for f :: "nat \<Rightarrow> u16" and n
    by (simp only: upt_conv_Cons [of 0 "Suc (Suc n)"] map_Suc_upt [symmetric] zero_less_Suc list.map)
       (simp add: comp_def)
  then show ?thesis
    using ne by (simp add: seq_range_def unat_minus_succ ac_simps del: upt_Suc)
qed

lemma seq_range_notin: "s \<noteq> e \<Longrightarrow> s \<notin> set (seq_range (s + 1) e)"
proof
  assume ne: "s \<noteq> e" and mem: "s \<in> set (seq_range (s + 1) e)"
  obtain i where i: "i \<le> unat (e - (s + 1))" and eq: "s = s + 1 + of_nat i"
    using mem by (meson in_seq_range)
  have zero: "(of_nat (Suc i) :: u16) = 0"
    using eq by (simp add: add.assoc)
  have "unat (e - s) < 2 ^ 16"
    using unsigned_less [of "e - s", where ?'a = nat] by simp
  then have "Suc i < 2 ^ LENGTH(16)" using i unat_minus_succ [OF ne] by simp
  then have "unat (of_nat (Suc i) :: u16) = Suc i"
    by (simp only: unat_of_nat mod_less)
  then show False using zero by simp
qed

text \<open>What \<open>finalize\<close> returns: the concatenation over the whole range, or nothing if one is missing.\<close>

lemma finalize_loop_eq:
  "finalize_loop m s e acc =
    (if \<forall>k \<in> set (seq_range s e). hm_get m k \<noteq> None
     then Some (acc @ concat (map (\<lambda>k. the (hm_get m k)) (seq_range s e))) else None)"
proof (induction m s e acc rule: finalize_loop.induct)
  case (1 m s e acc)
  show ?case
  proof (cases "hm_get m s")
    case None
    with seq_range_start show ?thesis by (subst finalize_loop.simps) auto
  next
    case (Some b)
    show ?thesis
    proof (cases "s = e")
      case True
      with Some show ?thesis by (subst finalize_loop.simps) simp
    next
      case False
      define rest where "rest = seq_range (s + 1) e"
      have "s \<notin> set rest" using seq_range_notin [OF False] by (simp add: rest_def)
      then have maps: "map (\<lambda>k. the (hm_get (hm_remove s m) k)) rest = map (\<lambda>k. the (hm_get m k)) rest"
        and have_all: "(\<forall>k \<in> set rest. hm_get (hm_remove s m) k \<noteq> None) =
          (\<forall>k \<in> set rest. hm_get m k \<noteq> None)"
        by (auto intro!: map_cong)
      have "finalize_loop m s e acc = finalize_loop (hm_remove s m) (s + 1) e (acc @ b)"
        using Some False by (subst finalize_loop.simps) simp
      also have "\<dots> = (if \<forall>k \<in> set rest. hm_get m k \<noteq> None
          then Some ((acc @ b) @ concat (map (\<lambda>k. the (hm_get m k)) rest)) else None)"
        unfolding "1.IH" [OF Some refl False] rest_def [symmetric] maps have_all ..
      finally show ?thesis
        using Some False by (simp add: seq_range_Cons rest_def)
    qed
  qed
qed

section \<open>The invariant\<close>

definition partial_inv :: "partial_frame \<Rightarrow> bool" where
  "partial_inv pf \<longleftrightarrow> hm_inv (pf_payloads pf) \<and> length (pf_payloads pf) \<le> MAX_BUFFER_PACKETS \<and>
     hm_get (pf_payloads pf) (pf_start_sequence pf) \<noteq> None"

definition depacketizer_inv :: "depacketizer \<Rightarrow> bool" where
  "depacketizer_inv d \<longleftrightarrow> (case dp_partial d of None \<Rightarrow> True | Some pf \<Rightarrow> partial_inv pf)"

text \<open>A result carries a frame together with an error only when the error is \<open>Interrupted\<close>, and the
  count of received packets is never above the buffer's limit.\<close>

definition push_result_ok :: "push_result \<Rightarrow> bool" where
  "push_result_ok r \<longleftrightarrow>
     (case pr_drop_error r of
        None \<Rightarrow> True
      | Some e \<Rightarrow>
          (case de_reason e of
             Interrupted \<Rightarrow> True
           | Incomplete received expected \<Rightarrow> pr_frame r = None \<and> 0 < received \<and> unat received \<le> MAX_BUFFER_PACKETS
           | _ \<Rightarrow> pr_frame r = None))"

lemmas depacketizer_defs =
  depacketizer_push_def frame_from_single_def begin_partial_def push_to_partial_def finalize_def
  result_from_frame_def result_from_drop_def push_result_default_def

lemma hm_inv_single [simp]: "hm_inv [(k, v)]"
  by (simp add: hm_inv_def)

lemma partial_inv_insert:
  assumes "partial_inv pf" and "length (pf_payloads pf) < MAX_BUFFER_PACKETS"
  shows "partial_inv (pf\<lparr>pf_payloads := hm_insert k v (pf_payloads pf)\<rparr>)"
  using assms by (auto simp: partial_inv_def length_hm_insert)

lemma finalize_ok: "partial_inv pf \<Longrightarrow> push_result_ok (finalize pf e)"
proof -
  assume inv: "partial_inv pf"
  then have "0 < length (pf_payloads pf)" "length (pf_payloads pf) \<le> 128"
    by (auto simp: partial_inv_def MAX_BUFFER_PACKETS_def)
  then have "0 < (of_nat (length (pf_payloads pf)) :: u16)"
    "unat (of_nat (length (pf_payloads pf)) :: u16) = length (pf_payloads pf)"
    by (simp_all add: word_gt_0 unat_of_nat word_of_nat_eq_0_iff) (auto dest: dvd_imp_le)
  then show ?thesis using inv
    by (simp add: finalize_def Let_def push_result_ok_def result_from_frame_def result_from_drop_def
        push_result_default_def partial_inv_def split: option.splits)
qed

lemma push_result_ok_simps [simp]:
  "push_result_ok push_result_default"
  "push_result_ok (result_from_drop n UnknownFrame)"
  "push_result_ok (result_from_drop n Interrupted)"
  "push_result_ok (result_from_drop n BufferFull)"
  by (simp_all add: push_result_ok_def push_result_default_def result_from_drop_def)

lemma push_to_partial_inv:
  assumes "depacketizer_inv d"
  shows "depacketizer_inv (snd (push_to_partial d p)) \<and> push_result_ok (fst (push_to_partial d p))"
proof (cases "dp_partial d")
  case None
  then show ?thesis by (simp add: push_to_partial_def depacketizer_inv_def)
next
  case (Some pf)
  with assms have "partial_inv pf" by (simp add: depacketizer_inv_def)
  then have "partial_inv (pf\<lparr>pf_payloads := hm_insert (sequence (pheader p)) (payload p) (pf_payloads pf)\<rparr>)"
    if "length (pf_payloads pf) < MAX_BUFFER_PACKETS"
    using that by (rule partial_inv_insert)
  then show ?thesis
    by (auto simp: push_to_partial_def Some Let_def depacketizer_inv_def intro!: finalize_ok)
qed

lemma depacketizer_push_inv:
  assumes "depacketizer_inv d"
  shows "depacketizer_inv (snd (depacketizer_push d p)) \<and> push_result_ok (fst (depacketizer_push d p))"
  using push_to_partial_inv [OF assms, of p]
  by (cases "marker (pheader p)")
     (auto simp: depacketizer_push_def frame_from_single_def begin_partial_def Let_def
       depacketizer_inv_def partial_inv_def MAX_BUFFER_PACKETS_def push_result_ok_def
       push_result_default_def split: option.splits)

interpretation dpm: guaranteed_machine depacketizer_step any_event depacketizer_inv push_result_ok
  by unfold_locales
     (use depacketizer_push_inv in \<open>auto simp: depacketizer_step_def Let_def split_beta\<close>)

section \<open>Frames in packets\<close>

text \<open>The payload map holds exactly the chunks \<open>c i\<close> for \<open>i \<in> D\<close>, under their sequence numbers.\<close>

definition holding :: "u16 \<Rightarrow> (nat \<Rightarrow> bytes) \<Rightarrow> nat set \<Rightarrow> (u16, bytes) hashmap \<Rightarrow> bool" where
  "holding s c D m \<longleftrightarrow>
     hm_inv m \<and> dom (hm_get m) = (\<lambda>i. s + of_nat i) ` D \<and> (\<forall>i\<in>D. hm_get m (s + of_nat i) = Some (c i))"

lemma of_nat_seq_eq: "i < 65536 \<Longrightarrow> j < 65536 \<Longrightarrow> s + of_nat i = s + of_nat j \<longleftrightarrow> i = j" for s :: u16
proof -
  assume "i < 65536" "j < 65536"
  then have "unat (of_nat i :: u16) = i" "unat (of_nat j :: u16) = j"
    by (simp_all add: unat_of_nat)
  then show ?thesis by (metis add_left_cancel)
qed

lemma holding_insert:
  assumes "holding s c D m" and "D \<subseteq> {..<65536}" and "i < 65536"
  shows "holding s c (insert i D) (hm_insert (s + of_nat i) (c i) m)"
proof -
  have "s + of_nat j = s + of_nat i \<longleftrightarrow> j = i" if "j \<in> D" for j
    using assms that by (intro of_nat_seq_eq) auto
  then show ?thesis
    using assms(1) by (auto simp: holding_def dom_hm_insert)
qed

lemma holding_length: "holding s c D m \<Longrightarrow> finite D \<Longrightarrow> length m \<le> card D"
  by (simp add: holding_def hm_length card_image_le)

lemma seq_range_frame: "n < 65536 \<Longrightarrow> seq_range s (s + of_nat n) = map (\<lambda>i. s + of_nat i) [0..<Suc n]"
  by (simp add: seq_range_def unat_of_nat)

lemma finalize_holding:
  assumes "holding s c {0..n} m" and "n < 65536" and "pf_start_sequence pf = s" and "pf_payloads pf = m"
  shows "finalize pf (s + of_nat n) =
    result_from_frame \<lparr>dpf_payload = concat (map c [0..<Suc n]), dpf_extensions = pf_extensions pf\<rparr>"
proof -
  have in_range: "hm_get m (s + of_nat i) = Some (c i)" if "i \<in> set [0..<Suc n]" for i
    using assms(1) that unfolding holding_def by auto
  then have "\<forall>k \<in> set (seq_range s (s + of_nat n)). hm_get m k \<noteq> None"
    unfolding seq_range_frame [OF assms(2)] by (auto simp del: upt_Suc)
  moreover have "map (\<lambda>k. the (hm_get m k)) (seq_range s (s + of_nat n)) = map c [0..<Suc n]"
    unfolding seq_range_frame [OF assms(2)] list.map_comp by (rule list.map_cong0) (simp add: in_range)
  ultimately show ?thesis
    using assms(3,4) by (simp add: finalize_def finalize_loop_eq Let_def del: upt_Suc)
qed

section \<open>Receiving one frame\<close>

text \<open>The drop report of the frame that a new one interrupts.\<close>

definition interrupted :: "depacketizer \<Rightarrow> push_result" where
  "interrupted d =
     (case dp_partial d of
        Some pf \<Rightarrow> result_from_drop (pf_frame_number pf) Interrupted
      | None \<Rightarrow> push_result_default)"

lemma interrupted_frame [simp]: "pr_frame (interrupted d) = None"
  by (simp add: interrupted_def result_from_drop_def push_result_default_def split: option.splits)

definition frame_partial :: "header \<Rightarrow> u16 \<Rightarrow> (u16, bytes) hashmap \<Rightarrow> partial_frame" where
  "frame_partial h s m =
     \<lparr>pf_frame_number = frame_number h, pf_start_sequence = s, pf_extensions = exts h, pf_payloads = m\<rparr>"

lemma push_single:
  "marker (pheader p) = Single \<Longrightarrow>
    depacketizer_push d p =
      ((interrupted d)\<lparr>pr_frame := Some \<lparr>dpf_payload = payload p, dpf_extensions = exts (pheader p)\<rparr>\<rparr>,
       depacketizer_new)"
  by (simp add: depacketizer_defs interrupted_def depacketizer_new_def Let_def split: option.splits)

lemma push_start:
  "marker (pheader p) = Start \<Longrightarrow>
    depacketizer_push d p =
      (interrupted d,
       \<lparr>dp_partial = Some (frame_partial (pheader p) (sequence (pheader p)) [(sequence (pheader p), payload p)])\<rparr>)"
  by (simp add: depacketizer_defs interrupted_def frame_partial_def Let_def split: option.splits)

lemma step_push: "depacketizer_push d p = (r, d') \<Longrightarrow> depacketizer_step d p = (d', [r])"
  by (simp add: depacketizer_step_def)

lemma marker_inter: "0 < i \<Longrightarrow> i < n - 1 \<Longrightarrow> packet_frame_marker i n = Inter"
  and marker_final: "2 \<le> n \<Longrightarrow> packet_frame_marker (n - 1) n = Final"
  and marker_start: "2 \<le> n \<Longrightarrow> packet_frame_marker 0 n = Start"
  by (auto simp: packet_frame_marker_def)

lemma inters_received:
  assumes "holding s c D m" and "D \<subseteq> {0..<n - 1}" and "set is \<subseteq> {1..<n - 1}" and "n \<le> MAX_BUFFER_PACKETS"
  shows "\<exists>m'. run_events depacketizer_step \<lparr>dp_partial = Some (frame_partial h s m)\<rparr>
        (map (frame_packet h s n c) is) =
      (\<lparr>dp_partial = Some (frame_partial h s m')\<rparr>, replicate (length is) push_result_default) \<and>
    holding s c (D \<union> set is) m'"
  using assms
proof (induction "is" arbitrary: m D)
  case Nil
  then show ?case by (auto intro!: exI [of _ m])
next
  case (Cons i "is")
  have i: "0 < i" "i < n - 1" and n: "n \<le> 128"
    using Cons.prems by (auto simp: MAX_BUFFER_PACKETS_def)
  have D: "D \<subseteq> {..<65536}" and fin: "finite D"
    using Cons.prems(2) n by (auto intro: finite_subset)
  have "length m \<le> card D" using Cons.prems(1) fin by (rule holding_length)
  also have "\<dots> \<le> n - 1" using card_mono [OF _ Cons.prems(2)] by simp
  finally have short: "length m < MAX_BUFFER_PACKETS" using i n by (simp add: MAX_BUFFER_PACKETS_def)
  let ?m = "hm_insert (s + of_nat i) (c i) m"
  have "depacketizer_step \<lparr>dp_partial = Some (frame_partial h s m)\<rparr> (frame_packet h s n c i) =
      (\<lparr>dp_partial = Some (frame_partial h s ?m)\<rparr>, [push_result_default])"
    using short by (intro step_push)
      (simp add: depacketizer_push_def push_to_partial_def marker_inter [OF i] frame_partial_def Let_def)
  moreover have "holding s c (insert i D) ?m"
    using Cons.prems(1) D i n by (intro holding_insert) auto
  then obtain m' where "run_events depacketizer_step \<lparr>dp_partial = Some (frame_partial h s ?m)\<rparr>
        (map (frame_packet h s n c) is) =
      (\<lparr>dp_partial = Some (frame_partial h s m')\<rparr>, replicate (length is) push_result_default)"
    "holding s c (insert i D \<union> set is) m'"
    using Cons.IH [of "insert i D" ?m] Cons.prems i by auto
  ultimately show ?case by auto
qed

lemma frame_received:
  assumes "2 \<le> n" and "n \<le> MAX_BUFFER_PACKETS" and "set is = {1..<n - 1}"
  shows "run_events depacketizer_step d (map (frame_packet h s n c) (0 # is @ [n - 1])) =
    (depacketizer_new,
     interrupted d # replicate (length is) push_result_default @
       [result_from_frame \<lparr>dpf_payload = concat (map c [0..<n]), dpf_extensions = exts h\<rparr>])"
proof -
  let ?p = "frame_packet h s n c"
  have n: "n \<le> 128" using assms(2) by (simp add: MAX_BUFFER_PACKETS_def)
  have first: "depacketizer_step d (?p 0) =
      (\<lparr>dp_partial = Some (frame_partial h s [(s, c 0)])\<rparr>, [interrupted d])"
    by (intro step_push) (simp add: push_start marker_start [OF assms(1)] frame_partial_def)
  have "holding s c {0} [(s, c 0)]" by (simp add: holding_def)
  then obtain m where m: "run_events depacketizer_step \<lparr>dp_partial = Some (frame_partial h s [(s, c 0)])\<rparr>
        (map ?p is) =
      (\<lparr>dp_partial = Some (frame_partial h s m)\<rparr>, replicate (length is) push_result_default)"
    and hold: "holding s c ({0} \<union> set is) m"
    using inters_received [of s c "{0}" _ n "is" h] assms by auto
  have D: "{0} \<union> set is = {0..<n - 1}" using assms by auto
  have short: "length m < MAX_BUFFER_PACKETS"
    using holding_length [OF hold [unfolded D]] assms n by (simp add: MAX_BUFFER_PACKETS_def)
  let ?m = "hm_insert (s + of_nat (n - 1)) (c (n - 1)) m"
  have upto: "insert (n - 1) {0..<n - 1} = {0..n - 1}" by auto
  have "holding s c (insert (n - 1) {0..<n - 1}) ?m"
    using hold n unfolding D by (intro holding_insert) auto
  then have fin: "finalize (frame_partial h s ?m) (s + of_nat (n - 1)) =
      result_from_frame \<lparr>dpf_payload = concat (map c [0..<n]), dpf_extensions = exts h\<rparr>"
    using finalize_holding [of s c "n - 1" ?m "frame_partial h s ?m"] assms n
    unfolding upto by (simp add: frame_partial_def)
  have "depacketizer_step \<lparr>dp_partial = Some (frame_partial h s m)\<rparr> (?p (n - 1)) =
      (depacketizer_new, [result_from_frame \<lparr>dpf_payload = concat (map c [0..<n]), dpf_extensions = exts h\<rparr>])"
    using short fin marker_final [OF assms(1)]
    by (intro step_push)
       (simp add: depacketizer_push_def push_to_partial_def frame_partial_def Let_def depacketizer_new_def)
  with first m show ?thesis
    by (simp add: run_events_append)
qed

section \<open>Provenance\<close>

text \<open>Every stored payload, and the start, come from packets received before.\<close>

definition received_at :: "packet list \<Rightarrow> nat \<Rightarrow> u16 \<Rightarrow> u16 \<Rightarrow> bytes \<Rightarrow> bool" where
  "received_at ps j n k b \<longleftrightarrow>
     (\<exists>l. j \<le> l \<and> l < length ps \<and> frame_number (pheader (ps ! l)) = n \<and>
        sequence (pheader (ps ! l)) = k \<and> payload (ps ! l) = b)"

definition started_at :: "packet list \<Rightarrow> nat \<Rightarrow> partial_frame \<Rightarrow> bool" where
  "started_at ps j pf \<longleftrightarrow>
     j < length ps \<and> marker (pheader (ps ! j)) = Start \<and>
     frame_number (pheader (ps ! j)) = pf_frame_number pf \<and>
     sequence (pheader (ps ! j)) = pf_start_sequence pf \<and> exts (pheader (ps ! j)) = pf_extensions pf \<and>
     (\<forall>k b. hm_get (pf_payloads pf) k = Some b \<longrightarrow> received_at ps j (pf_frame_number pf) k b)"

definition traced :: "packet list \<Rightarrow> depacketizer \<Rightarrow> bool" where
  "traced ps d \<longleftrightarrow> (case dp_partial d of None \<Rightarrow> True | Some pf \<Rightarrow> \<exists>j. started_at ps j pf)"

lemma received_at_snoc: "received_at ps j n k b \<Longrightarrow> received_at (ps @ [p]) j n k b"
  by (auto simp: received_at_def nth_append intro: exI)

lemma received_at_last:
  "j \<le> length ps \<Longrightarrow> received_at (ps @ [p]) j (frame_number (pheader p)) (sequence (pheader p)) (payload p)"
  by (auto simp: received_at_def intro!: exI [of _ "length ps"])

lemma started_at_snoc: "started_at ps j pf \<Longrightarrow> started_at (ps @ [p]) j pf"
  by (auto simp: started_at_def nth_append intro: received_at_snoc)

lemma started_at_insert:
  assumes "started_at ps j pf" and "frame_number (pheader p) = pf_frame_number pf"
  shows "started_at (ps @ [p]) j (pf\<lparr>pf_payloads := hm_insert (sequence (pheader p)) (payload p) (pf_payloads pf)\<rparr>)"
  using started_at_snoc [OF assms(1), of p] assms received_at_last [of j ps p]
  by (auto simp: started_at_def split: if_splits)

lemma traced_step: "traced ps d \<Longrightarrow> traced (ps @ [p]) (snd (depacketizer_push d p))"
proof (cases "marker (pheader p)")
  case Start
  moreover have "started_at (ps @ [p]) (length ps)
      (frame_partial (pheader p) (sequence (pheader p)) [(sequence (pheader p), payload p)])"
    using Start received_at_last [of "length ps" ps p] by (auto simp: started_at_def frame_partial_def)
  ultimately show ?thesis by (auto simp: traced_def push_start)
next
  case Single
  then show ?thesis by (simp add: push_single traced_def depacketizer_new_def)
qed (auto simp: traced_def depacketizer_push_def push_to_partial_def Let_def started_at_insert
      intro: started_at_insert split: option.splits)

lemma traced_run: "traced ps (fst (run_events depacketizer_step depacketizer_new ps))"
proof (induction ps rule: rev_induct)
  case Nil
  then show ?case by (simp add: traced_def depacketizer_new_def)
next
  case (snoc p ps)
  then show ?case
    using traced_step [OF snoc, of p]
    by (simp add: run_events_append depacketizer_step_def split_beta Let_def)
qed

lemma finalize_Some:
  assumes "pr_frame (finalize pf e) = Some f"
  shows "dpf_extensions f = pf_extensions pf"
    and "\<forall>k \<in> set (seq_range (pf_start_sequence pf) e). hm_get (pf_payloads pf) k \<noteq> None"
    and "dpf_payload f = concat (map (\<lambda>k. the (hm_get (pf_payloads pf) k)) (seq_range (pf_start_sequence pf) e))"
  using assms
  by (auto simp: finalize_def finalize_loop_eq Let_def result_from_frame_def result_from_drop_def
      push_result_default_def split: if_splits)

text \<open>A delivered frame that was not a single packet spans at most the buffer's limit.\<close>

lemma distinct_seq_range: "distinct (seq_range s e)"
proof -
  have "inj_on (\<lambda>i. s + of_nat i) (set [0..<Suc (unat (e - s))])"
    using unsigned_less [of "e - s", where ?'a = nat]
    by (intro inj_onI) (simp add: of_nat_seq_eq del: upt_Suc add_left_cancel)
  then show ?thesis by (simp add: seq_range_def distinct_map del: upt_Suc)
qed

lemma finalize_span:
  assumes "pr_frame (finalize pf e) \<noteq> None" and "partial_inv pf"
  shows "unat (e - pf_start_sequence pf) < MAX_BUFFER_PACKETS"
proof -
  obtain f where "pr_frame (finalize pf e) = Some f" using assms(1) by blast
  then have "set (seq_range (pf_start_sequence pf) e) \<subseteq> dom (hm_get (pf_payloads pf))"
    using finalize_Some(2) by blast
  then have "card (set (seq_range (pf_start_sequence pf) e)) \<le> card (dom (hm_get (pf_payloads pf)))"
    by (simp add: card_mono finite_dom_map_of)
  also have "\<dots> \<le> MAX_BUFFER_PACKETS"
    using assms(2) by (simp add: partial_inv_def hm_length [symmetric])
  finally have "length (seq_range (pf_start_sequence pf) e) \<le> MAX_BUFFER_PACKETS"
    by (simp add: distinct_card [OF distinct_seq_range])
  then show ?thesis by (simp add: seq_range_def)
qed

section \<open>Frames too large for the buffer\<close>

definition oversized_state :: "header \<Rightarrow> u16 \<Rightarrow> depacketizer \<Rightarrow> bool" where
  "oversized_state h s d \<longleftrightarrow>
     (case dp_partial d of
        None \<Rightarrow> True
      | Some pf \<Rightarrow> partial_inv pf \<and> (pf_frame_number pf = frame_number h \<longrightarrow> pf_start_sequence pf = s))"

lemma oversized_step:
  assumes "oversized_state h s d" and "i < n" and "MAX_BUFFER_PACKETS < n" and "n \<le> 65536"
  shows "oversized_state h s (snd (depacketizer_push d (frame_packet h s n c i))) \<and>
    pr_frame (fst (depacketizer_push d (frame_packet h s n c i))) = None"
proof -
  have n: "128 < n" using assms(3) by (simp add: MAX_BUFFER_PACKETS_def)
  consider (start) "i = 0" | (inter) "0 < i" "i < n - 1" | (fin) "i = n - 1" using assms(2) by linarith
  then show ?thesis
  proof cases
    case start
    then show ?thesis using n
      by (simp add: push_start marker_start oversized_state_def frame_partial_def partial_inv_def
          MAX_BUFFER_PACKETS_def)
  next
    case inter
    then show ?thesis using assms(1) partial_inv_insert
      by (auto simp: depacketizer_push_def push_to_partial_def marker_inter oversized_state_def Let_def
          result_from_drop_def push_result_default_def split: option.splits)
  next
    case fin
    have "unat (of_nat i :: u16) = i" using assms(2,4) by (simp only: unat_of_nat) simp
    then have "\<not> unat (s + of_nat i - s) < MAX_BUFFER_PACKETS"
      using n fin by (simp only: add_diff_cancel_left') (simp add: MAX_BUFFER_PACKETS_def)
    then have none: "pr_frame (finalize pf (s + of_nat i)) = None"
      if "partial_inv pf" "pf_start_sequence pf = s" for pf
      using finalize_span [of pf "s + of_nat i"] that by blast
    have "packet_frame_marker i n = Final" unfolding fin using n by (intro marker_final) simp
    then show ?thesis using assms(1) partial_inv_insert none
      by (auto simp: depacketizer_push_def push_to_partial_def oversized_state_def Let_def
          result_from_drop_def push_result_default_def split: option.splits)
  qed
qed

lemma oversized_run:
  assumes "oversized_state h s d" and "set xs \<subseteq> {0..<n}" and "MAX_BUFFER_PACKETS < n" and "n \<le> 65536"
  shows "list_all (\<lambda>r. pr_frame r = None) (snd (run_events depacketizer_step d (map (frame_packet h s n c) xs)))"
  using assms(1,2)
proof (induction xs arbitrary: d)
  case Nil
  then show ?case by simp
next
  case (Cons i xs)
  then have "oversized_state h s (snd (depacketizer_push d (frame_packet h s n c i)))"
    "pr_frame (fst (depacketizer_push d (frame_packet h s n c i))) = None"
    using oversized_step [OF Cons.prems(1) _ assms(3,4), of i c] by auto
  then show ?case using Cons
    by (simp add: depacketizer_step_def split_beta Let_def)
qed

lemma result_frames_none: "list_all (\<lambda>r. pr_frame r = None) rs \<Longrightarrow> result_frames rs = []"
  by (induction rs) (simp_all add: result_frames_def List.map_filter_def)

text \<open>
  Whatever the depacketizer holds when the packets of a frame
  arrive, if a \<open>packetize\<close> of at most 128 packets succeeded and its first packet comes first, its
  last packet last, and the others between them in any order and any number of times, then
  exactly the frame that went in comes out with the last packet, with its extensions; no other packet
  yields a frame; and only an older unfinished frame is reported as dropped.
\<close>

lemma packetize_reassembled:
  assumes "packetize pz now frame = (Ok ps, pz')" and "2 \<le> length ps" and "length ps \<le> 128"
    and "set is = {1..<length ps - 1}"
  shows "run_events depacketizer_step d (map ((!) ps) (0 # is @ [length ps - 1])) =
    (depacketizer_new,
     interrupted d # replicate (length is) push_result_default @
       [result_from_frame \<lparr>dpf_payload = pzf_payload frame, dpf_extensions = pzf_extensions frame\<rparr>])"
proof -
  let ?n = "length ps" and ?h = "frame_header pz now frame" and ?s = "counter_get (pz_sequence pz)"
    and ?c = "chunk_at (max_payload pz frame) (pzf_payload frame)"
  note ok = packetize_Ok [OF assms(1)]
  have ps: "ps = map (frame_packet ?h ?s ?n ?c) [0..<?n]" using ok by metis
  have nth: "map ((!) ps) js = map (frame_packet ?h ?s ?n ?c) js" if "set js \<subseteq> {0..<?n}" for js
    using that by (subst ps) auto
  have eq: "map ((!) ps) (0 # is @ [?n - 1]) = map (frame_packet ?h ?s ?n ?c) (0 # is @ [?n - 1])"
    using assms by (intro nth) auto
  have whole: "concat (map ?c [0..<?n]) = pzf_payload frame"
    using concat_chunks [OF ok(1), of "pzf_payload frame"] ok(2) by (simp add: frame_packet_count_def)
  have "?n \<le> MAX_BUFFER_PACKETS" using assms(3) by (simp add: MAX_BUFFER_PACKETS_def)
  from frame_received [OF assms(2) this assms(4), of d ?h ?s ?c]
  show ?thesis unfolding eq whole by simp
qed

lemma packetize_reassembled_single:
  assumes "packetize pz now frame = (Ok [p], pz')"
  shows "run_events depacketizer_step d [p] =
    (depacketizer_new,
     [(interrupted d)\<lparr>pr_frame := Some \<lparr>dpf_payload = pzf_payload frame, dpf_extensions = pzf_extensions frame\<rparr>\<rparr>])"
proof -
  note ok = packetize_Ok [OF assms]
  let ?c = "chunk_at (max_payload pz frame) (pzf_payload frame)"
  have n: "frame_packet_count pz frame = 1" using ok(2) by simp
  then have p: "p = frame_packet (frame_header pz now frame) (counter_get (pz_sequence pz)) 1 ?c 0"
    using ok(3) by simp
  have "concat (map ?c [0..<1]) = pzf_payload frame"
    using concat_chunks [OF ok(1), of "pzf_payload frame"] n by (simp only: frame_packet_count_def)
  then show ?thesis
    by (simp add: p depacketizer_step_def push_single packet_frame_marker_def)
qed

text \<open>An order of arrival: the first packet first, the last one last, and between them \<open>is\<close>.\<close>

definition arrival :: "packet list \<Rightarrow> nat list \<Rightarrow> packet list" where
  "arrival ps is = (if length ps \<le> 1 then ps else map ((!) ps) (0 # is @ [length ps - 1]))"

lemma result_frames_append: "result_frames (rs @ qs) = result_frames rs @ result_frames qs"
  by (simp add: result_frames_def List.map_filter_def)

lemma result_frames_Cons:
  "result_frames (r # rs) = (case pr_frame r of None \<Rightarrow> [] | Some f \<Rightarrow> [f]) @ result_frames rs"
  by (simp add: result_frames_def List.map_filter_def split: option.splits)

lemma result_frames_Nil [simp]: "result_frames [] = []"
  by (simp add: result_frames_def List.map_filter_def)

lemma result_frames_defaults [simp]: "result_frames (replicate k push_result_default) = []"
  by (induction k) (simp_all add: result_frames_Cons push_result_default_def)

lemma arrival_reassembled:
  assumes "packetize pz now frame = (Ok ps, pz')" and "ps \<noteq> []" and "length ps \<le> 128"
    and "set is = {1..<length ps - 1}"
  shows "fst (run_events depacketizer_step d (arrival ps is)) = depacketizer_new"
    and "result_frames (snd (run_events depacketizer_step d (arrival ps is))) =
      [\<lparr>dpf_payload = pzf_payload frame, dpf_extensions = pzf_extensions frame\<rparr>]"
proof -
  consider (one) p where "ps = [p]" | (more) "2 \<le> length ps"
    using assms(2) by (cases ps; cases "tl ps") auto
  then have "fst (run_events depacketizer_step d (arrival ps is)) = depacketizer_new \<and>
    result_frames (snd (run_events depacketizer_step d (arrival ps is))) =
      [\<lparr>dpf_payload = pzf_payload frame, dpf_extensions = pzf_extensions frame\<rparr>]"
  proof cases
    case one
    have "run_events depacketizer_step d (arrival ps is) = (depacketizer_new,
       [(interrupted d)\<lparr>pr_frame := Some \<lparr>dpf_payload = pzf_payload frame, dpf_extensions = pzf_extensions frame\<rparr>\<rparr>])"
      using packetize_reassembled_single [OF assms(1) [unfolded one]] one by (simp add: arrival_def)
    then show ?thesis by (simp add: result_frames_Cons)
  next
    case more
    then have "arrival ps is = map ((!) ps) (0 # is @ [length ps - 1])" by (simp add: arrival_def)
    then show ?thesis
      unfolding packetize_reassembled [OF assms(1) more assms(3,4)]
      using packetize_reassembled [OF assms(1) more assms(3,4), of d]
      by (simp add: result_frames_Cons result_frames_append result_from_frame_def)
  qed
  then show "fst (run_events depacketizer_step d (arrival ps is)) = depacketizer_new"
    and "result_frames (snd (run_events depacketizer_step d (arrival ps is))) =
      [\<lparr>dpf_payload = pzf_payload frame, dpf_extensions = pzf_extensions frame\<rparr>]" by simp_all
qed

lemma set_arrival: "set is = {1..<length ps - 1} \<Longrightarrow> set (arrival ps is) \<subseteq> set ps"
  by (auto simp: arrival_def intro!: nth_mem)

section \<open>Properties\<close>

text \<open>
  Bounded memory and sane reports.  Whatever packets arrive, a depacketizer that started empty never
  buffers more than 128 payloads, always has the start packet of the frame it is assembling, and every
  result it gives pairs a frame with an error only when that error is \<open>Interrupted\<close>.
\<close>

theorem depacketizer_bounded:
  "depacketizer_inv (fst (run_events depacketizer_step depacketizer_new ps)) \<and>
   list_all push_result_ok (snd (run_events depacketizer_step depacketizer_new ps))"
proof -
  have "depacketizer_inv depacketizer_new" by (simp add: depacketizer_inv_def depacketizer_new_def)
  then show ?thesis
    using dpm.run_inv [of depacketizer_new ps] dpm.run_ok [of depacketizer_new ps] by simp
qed

text \<open>
  C27: No frame is made up.  A frame that comes out of a push is either the payload of that very
  \<open>Single\<close> packet, or it ends with that \<open>Final\<close> packet, began with a \<open>Start\<close> packet received
  earlier with the same frame number, whose extensions it has, and its payload is the concatenation, in
  sequence order with wrap-around from start to end, of payloads received since that start with that
  frame number and those sequence numbers.
\<close>

theorem depacketizer_provenance:
  assumes "depacketizer_push (fst (run_events depacketizer_step depacketizer_new ps)) p = (r, d')"
    and "pr_frame r = Some f"
  shows "marker (pheader p) = Single \<and> dpf_payload f = payload p \<and> dpf_extensions f = exts (pheader p) \<or>
    (\<exists>j g. marker (pheader p) = Final \<and> j < length ps \<and> marker (pheader (ps ! j)) = Start \<and>
      frame_number (pheader (ps ! j)) = frame_number (pheader p) \<and>
      dpf_extensions f = exts (pheader (ps ! j)) \<and>
      dpf_payload f = concat (map g (seq_range (sequence (pheader (ps ! j))) (sequence (pheader p)))) \<and>
      (\<forall>k \<in> set (seq_range (sequence (pheader (ps ! j))) (sequence (pheader p))).
         received_at (ps @ [p]) j (frame_number (pheader p)) k (g k)))"
proof -
  let ?d = "fst (run_events depacketizer_step depacketizer_new ps)"
  show ?thesis
  proof (cases "marker (pheader p)")
    case Single
    then show ?thesis using assms by (auto simp: push_single)
  next
    case Start
    then show ?thesis using assms by (auto simp: push_start)
  next
    case Inter
    then show ?thesis using assms
      by (auto simp: depacketizer_push_def push_to_partial_def Let_def result_from_drop_def
          push_result_default_def split: option.splits if_splits)
  next
    case Final
    obtain pf where pf: "dp_partial ?d = Some pf" "frame_number (pheader p) = pf_frame_number pf"
      and fin: "pr_frame (finalize (pf\<lparr>pf_payloads :=
          hm_insert (sequence (pheader p)) (payload p) (pf_payloads pf)\<rparr>) (sequence (pheader p))) = Some f"
      using assms Final
      by (auto simp: depacketizer_push_def push_to_partial_def Let_def result_from_drop_def
          push_result_default_def split: option.splits if_splits)
    define qf where "qf = pf\<lparr>pf_payloads := hm_insert (sequence (pheader p)) (payload p) (pf_payloads pf)\<rparr>"
    obtain j where "started_at ps j pf"
      using traced_run [of ps] pf(1) by (auto simp: traced_def)
    with pf(2) have j: "j < length ps" "marker (pheader (ps ! j)) = Start"
        "frame_number (pheader (ps ! j)) = frame_number (pheader p)"
        "sequence (pheader (ps ! j)) = pf_start_sequence qf" "exts (pheader (ps ! j)) = pf_extensions qf"
      and got: "started_at (ps @ [p]) j qf"
      using started_at_insert [of ps j pf p] by (auto simp: started_at_def qf_def)
    note f = finalize_Some [OF fin [folded qf_def]]
    have "received_at (ps @ [p]) j (frame_number (pheader p)) k (the (hm_get (pf_payloads qf) k))"
      if "k \<in> set (seq_range (pf_start_sequence qf) (sequence (pheader p)))" for k
      using f(2) that got pf(2) by (auto simp: started_at_def qf_def)
    with Final j f show ?thesis by metis
  qed
qed

theorem depacketizer_provenance_witness:
  "let h = (\<lambda>m s. \<lparr>marker = m, track_handle = Handle 1, sequence = s, frame_number = 9, ts_ticks = 0,
            exts = extensions_default\<rparr>);
       p0 = \<lparr>pheader = h Start 65535, payload = [1]\<rparr>; p1 = \<lparr>pheader = h Final 0, payload = [2]\<rparr>
   in \<exists>j g. j < length [p0] \<and> marker (pheader ([p0] ! j)) = Start \<and>
        [1, 2 :: u8] = concat (map g (seq_range (sequence (pheader ([p0] ! j))) (0 :: u16)))"
proof -
  let ?h = "\<lambda>m s. \<lparr>marker = m, track_handle = Handle 1, sequence = s, frame_number = 9, ts_ticks = 0,
            exts = extensions_default\<rparr>"
  let ?p0 = "\<lparr>pheader = ?h Start 65535, payload = [1]\<rparr>" and ?p1 = "\<lparr>pheader = ?h Final 0, payload = [2]\<rparr>"
  let ?d = "fst (run_events depacketizer_step depacketizer_new [?p0])"
  have d: "?d = \<lparr>dp_partial = Some (frame_partial (pheader ?p0) 65535 [(65535, [1])])\<rparr>"
    by (simp add: depacketizer_step_def push_start frame_partial_def)
  have "fst (depacketizer_push ?d ?p1) =
      result_from_frame \<lparr>dpf_payload = [1, 2], dpf_extensions = extensions_default\<rparr>"
    unfolding d
    by (simp add: frame_partial_def depacketizer_push_def push_to_partial_def
        finalize_def finalize_loop.simps MAX_BUFFER_PACKETS_def)
  then have "depacketizer_push ?d ?p1 = (result_from_frame \<lparr>dpf_payload = [1, 2], dpf_extensions = extensions_default\<rparr>,
      snd (depacketizer_push ?d ?p1))"
    by (metis prod.collapse)
  from depacketizer_provenance [OF this, of "\<lparr>dpf_payload = [1, 2], dpf_extensions = extensions_default\<rparr>"]
  show ?thesis by (auto simp: result_from_frame_def push_result_default_def Let_def)
qed

text \<open>
  Frames above the buffer's limit are lost.  The packetizer sets no limit on the number of packets of
  a frame, but when it makes more than 128, no order of arrival, with any losses and repetitions, ever
  delivers it to a depacketizer that is not already assembling a frame of the same number.
\<close>

theorem oversized_frame_never_delivered:
  assumes "packetize pz now frame = (Ok ps, pz')" and "128 < length ps" and "length ps \<le> 65536"
    and "depacketizer_inv d"
    and "\<forall>pf. dp_partial d = Some pf \<longrightarrow> pf_frame_number pf \<noteq> counter_get (pz_frame_number pz)"
    and "set qs \<subseteq> set ps"
  shows "result_frames (snd (run_events depacketizer_step d qs)) = []"
proof -
  let ?n = "length ps" and ?h = "frame_header pz now frame" and ?s = "counter_get (pz_sequence pz)"
    and ?c = "chunk_at (max_payload pz frame) (pzf_payload frame)"
  have ps: "ps = map (frame_packet ?h ?s ?n ?c) [0..<?n]" using packetize_Ok [OF assms(1)] by metis
  have "set ps = frame_packet ?h ?s ?n ?c ` {0..<?n}" by (subst ps) simp
  then have "qs \<in> lists (frame_packet ?h ?s ?n ?c ` {0..<?n})" using assms(6) by (simp add: in_lists_conv_set subset_iff)
  then obtain xs where qs: "qs = map (frame_packet ?h ?s ?n ?c) xs" and xs: "set xs \<subseteq> {0..<?n}"
    unfolding lists_image by (auto simp: in_lists_conv_set)
  have "oversized_state ?h ?s d"
    using assms(4,5) by (auto simp: oversized_state_def depacketizer_inv_def split: option.splits)
  then have "list_all (\<lambda>r. pr_frame r = None) (snd (run_events depacketizer_step d qs))"
    unfolding qs using xs assms(2,3) by (intro oversized_run) (auto simp: MAX_BUFFER_PACKETS_def)
  then show ?thesis by (rule result_frames_none)
qed

theorem oversized_frame_never_delivered_witness:
  "let pz = packetizer_new (Handle 7) 13 1000 5;
       f = \<lparr>pzf_payload = replicate 129 0, pzf_extensions = extensions_default\<rparr>;
       ps = (case packetize pz 2000 f of (Ok ps, _) \<Rightarrow> ps | _ \<Rightarrow> [])
   in length ps = 129 \<and> result_frames (snd (run_events depacketizer_step depacketizer_new ps)) = []"
proof -
  let ?pz = "packetizer_new (Handle 7) 13 1000 5"
  let ?f = "\<lparr>pzf_payload = replicate 129 0, pzf_extensions = extensions_default\<rparr>"
  obtain ps pz' where r: "packetize ?pz 2000 ?f = (Ok ps, pz')"
    by (auto simp: packetize_eq max_payload_def header_serialized_len_cases packetizer_new_def
        extensions_default_def)
  have n: "length ps = 129"
    using packetize_Ok(2) [OF r]
    by (simp add: frame_packet_count_def max_payload_def header_serialized_len_cases packetizer_new_def
        extensions_default_def div_ceil_def)
  have "result_frames (snd (run_events depacketizer_step depacketizer_new ps)) = []"
    using n by (intro oversized_frame_never_delivered [OF r])
      (simp_all add: depacketizer_new_def depacketizer_inv_def)
  then show ?thesis using n by (simp add: r Let_def)
qed

end
