(* ===== verification/DtPipeline.thy ===== *)
theory DtPipeline
  imports DtDepacketizer
begin

text \<open>
  The pipelines of a published and of a subscribed track (\<open>livekit-datatrack/src/local/pipeline.rs\<close>,
  \<open>remote/pipeline.rs\<close>), the frame type (\<open>frame.rs\<close>) and the end-to-end encryption interface
  (\<open>e2ee.rs\<close>).  The encryption providers are supplied by the application and are
  functions of the model's state; what is documented of them is a named hypothesis.
\<close>

section \<open>Frames\<close>

record data_track_frame =
  dtf_payload :: bytes
  dtf_user_timestamp :: "u64 option"

definition dt_frame_new :: "bytes \<Rightarrow> data_track_frame" where
  "dt_frame_new p = \<lparr>dtf_payload = p, dtf_user_timestamp = None\<rparr>"

definition with_user_timestamp :: "u64 \<Rightarrow> data_track_frame \<Rightarrow> data_track_frame" where
  "with_user_timestamp v f = f\<lparr>dtf_user_timestamp := Some v\<rparr>"

text \<open>The system time is given in milliseconds, absent when it lies before the epoch.\<close>

definition with_user_timestamp_now :: "nat option \<Rightarrow> data_track_frame \<Rightarrow> data_track_frame" where
  "with_user_timestamp_now now_ms f = f\<lparr>dtf_user_timestamp := map_option of_nat now_ms\<rparr>"

text \<open>The age of a frame in milliseconds; \<open>UNIX_EPOCH.checked_add\<close> does not overflow for a
  64-bit count of milliseconds.\<close>

definition duration_since_timestamp :: "nat \<Rightarrow> data_track_frame \<Rightarrow> nat option" where
  "duration_since_timestamp now_ms f =
     (case dtf_user_timestamp f of
        None \<Rightarrow> None
      | Some ts \<Rightarrow> if unat ts \<le> now_ms then Some (now_ms - unat ts) else None)"

definition packetizer_frame_from :: "data_track_frame \<Rightarrow> packetizer_frame" where
  "packetizer_frame_from f =
     \<lparr>pzf_payload = dtf_payload f,
      pzf_extensions = \<lparr>user_timestamp = map_option UserTimestampExt (dtf_user_timestamp f), e2ee = None\<rparr>\<rparr>"

fun user_timestamp_value :: "user_timestamp_ext \<Rightarrow> u64" where
  "user_timestamp_value (UserTimestampExt v) = v"

definition data_track_frame_from :: "depacketizer_frame \<Rightarrow> data_track_frame" where
  "data_track_frame_from f =
     \<lparr>dtf_payload = dpf_payload f,
      dtf_user_timestamp = map_option user_timestamp_value (user_timestamp (dpf_extensions f))\<rparr>"

section \<open>Encryption interface\<close>

record encrypted_payload =
  ep_payload :: bytes
  ep_iv :: bytes
  ep_key_index :: u8

datatype encryption_error = EncryptionError
datatype decryption_error = DecryptionError

type_synonym encryption_provider = "bytes \<Rightarrow> (encryption_error, encrypted_payload) outcome"
type_synonym decryption_provider = "encrypted_payload \<Rightarrow> string \<Rightarrow> (decryption_error, bytes) outcome"

section \<open>The publisher's pipeline\<close>

record local_pipeline =
  lp_encryption_provider :: "encryption_provider option"
  lp_packetizer :: packetizer

datatype pipeline_error = PipelinePacketizer packetizer_error | PipelineEncryption encryption_error

definition TRANSPORT_MTU :: nat where "TRANSPORT_MTU = 16000"

definition local_pipeline_new ::
  "handle \<Rightarrow> encryption_provider option \<Rightarrow> instant \<Rightarrow> timestamp \<Rightarrow> local_pipeline" where
  "local_pipeline_new pub_handle provider now random_base =
     \<lparr>lp_encryption_provider = provider,
      lp_packetizer = packetizer_new pub_handle TRANSPORT_MTU now random_base\<rparr>"

definition encrypt_if_needed ::
  "local_pipeline \<Rightarrow> packetizer_frame \<Rightarrow> (encryption_error, packetizer_frame) outcome" where
  "encrypt_if_needed pl frame =
     (case lp_encryption_provider pl of
        None \<Rightarrow> Ok frame
      | Some encrypt \<Rightarrow>
          and_then (encrypt (pzf_payload frame)) (\<lambda>encrypted.
            Ok (frame\<lparr>pzf_payload := ep_payload encrypted,
              pzf_extensions := (pzf_extensions frame)\<lparr>e2ee :=
                Some \<lparr>key_index = ep_key_index encrypted, iv = ep_iv encrypted\<rparr>\<rparr>\<rparr>)))"

definition process_frame ::
  "local_pipeline \<Rightarrow> instant \<Rightarrow> data_track_frame \<Rightarrow> (pipeline_error, packet list) outcome \<times> local_pipeline" where
  "process_frame pl now frame =
     (case encrypt_if_needed pl (packetizer_frame_from frame) of
        Err e \<Rightarrow> (Err (PipelineEncryption e), pl)
      | Panic \<Rightarrow> (Panic, pl)
      | Ok f \<Rightarrow>
          (let (r, pz) = packetize (lp_packetizer pl) now f;
               pl = pl\<lparr>lp_packetizer := pz\<rparr>
           in case r of
                Ok packets \<Rightarrow> (Ok packets, pl)
              | Err e \<Rightarrow> (Err (PipelinePacketizer e), pl)
              | Panic \<Rightarrow> (Panic, pl)))"

section \<open>The subscriber's pipeline\<close>

record remote_pipeline =
  rp_publisher_identity :: string
  rp_e2ee_provider :: "decryption_provider option"
  rp_depacketizer :: depacketizer

definition remote_pipeline_new :: "string \<Rightarrow> decryption_provider option \<Rightarrow> remote_pipeline" where
  "remote_pipeline_new identity provider =
     \<lparr>rp_publisher_identity = identity, rp_e2ee_provider = provider, rp_depacketizer = depacketizer_new\<rparr>"

definition depacketize :: "remote_pipeline \<Rightarrow> packet \<Rightarrow> depacketizer_frame option \<times> remote_pipeline" where
  "depacketize rp p =
     (let (result, d) = depacketizer_push (rp_depacketizer rp) p
      in (pr_frame result, rp\<lparr>rp_depacketizer := d\<rparr>))"

text \<open>A provider that panics unwinds through the pipeline; the inner \<open>option\<close> is the code's own.\<close>

definition decrypt_if_needed ::
  "remote_pipeline \<Rightarrow> depacketizer_frame \<Rightarrow> (decryption_error, depacketizer_frame option) outcome" where
  "decrypt_if_needed rp frame =
     (case rp_e2ee_provider rp of
        None \<Rightarrow> Ok (Some frame)
      | Some decryption \<Rightarrow>
          (case e2ee (dpf_extensions frame) of
             None \<Rightarrow> Ok None
           | Some x \<Rightarrow>
               (case decryption \<lparr>ep_payload = dpf_payload frame, ep_iv = iv x, ep_key_index = key_index x\<rparr>
                       (rp_publisher_identity rp) of
                  Ok decrypted \<Rightarrow> Ok (Some (frame\<lparr>dpf_payload := decrypted\<rparr>))
                | Err err \<Rightarrow> Ok None
                | Panic \<Rightarrow> Panic)))"

definition process_packet ::
  "remote_pipeline \<Rightarrow> packet \<Rightarrow> (decryption_error, data_track_frame option) outcome \<times> remote_pipeline" where
  "process_packet rp p =
     (let (frame, rp) = depacketize rp p in
      case frame of
        None \<Rightarrow> (Ok None, rp)
      | Some f \<Rightarrow> (and_then (decrypt_if_needed rp f) (\<lambda>g. Ok (map_option data_track_frame_from g)), rp))"

text \<open>A remote pipeline as an event machine, with the frames it yields as outputs.\<close>

definition process_packet_step :: "remote_pipeline \<Rightarrow> packet \<Rightarrow> remote_pipeline \<times> data_track_frame list" where
  "process_packet_step rp p =
     (let (r, rp) = process_packet rp p
      in (rp, case r of Ok (Some f) \<Rightarrow> [f] | _ \<Rightarrow> []))"

section \<open>Lemmas\<close>

text \<open>What the documentation asks of a pair of providers: for a given sender, decryption undoes a successful encryption.\<close>

definition providers_match ::
  "encryption_provider option \<Rightarrow> decryption_provider option \<Rightarrow> string \<Rightarrow> bool" where
  "providers_match enc dec identity \<longleftrightarrow>
     (case (enc, dec) of
        (None, None) \<Rightarrow> True
      | (Some e, Some d) \<Rightarrow>
          (\<forall>p x. e p = Ok x \<longrightarrow> length (ep_iv x) = 12 \<and> d x identity = Ok p)
      | _ \<Rightarrow> False)"

lemma user_timestamp_value_inv [simp]: "user_timestamp_value \<circ> UserTimestampExt = id"
  by (rule ext) simp

lemma data_track_frame_roundtrip [simp]:
  "data_track_frame_from \<lparr>dpf_payload = dtf_payload f,
     dpf_extensions = (pzf_extensions (packetizer_frame_from f))\<lparr>e2ee := x\<rparr>\<rparr> = f"
  by (simp add: data_track_frame_from_def packetizer_frame_from_def option.map_comp option.map_id)

lemma packetizer_frame_from_sel [simp]:
  "pzf_payload (packetizer_frame_from f) = dtf_payload f"
  "e2ee (pzf_extensions (packetizer_frame_from f)) = None"
  by (simp_all add: packetizer_frame_from_def)

text \<open>The depacketizer inside the pipeline makes the same moves as on its own.\<close>

lemma process_packet_depacketizer [simp]:
  "rp_depacketizer (fst (process_packet_step rp p)) = fst (depacketizer_step (rp_depacketizer rp) p)"
  "rp_e2ee_provider (fst (process_packet_step rp p)) = rp_e2ee_provider rp"
  "rp_publisher_identity (fst (process_packet_step rp p)) = rp_publisher_identity rp"
  by (simp_all add: process_packet_step_def process_packet_def depacketize_def depacketizer_step_def
      Let_def split_beta split: option.splits)

definition decrypted_frame :: "remote_pipeline \<Rightarrow> depacketizer_frame \<Rightarrow> data_track_frame list" where
  "decrypted_frame rp f =
     (case decrypt_if_needed rp f of Ok (Some g) \<Rightarrow> [data_track_frame_from g] | _ \<Rightarrow> [])"

lemma decrypt_if_needed_state [simp]:
  "decrypt_if_needed (rp\<lparr>rp_depacketizer := d\<rparr>) = decrypt_if_needed rp"
  by (rule ext) (auto simp: decrypt_if_needed_def split: option.splits)

lemma process_packet_step_frames:
  "snd (process_packet_step rp p) =
    concat (map (decrypted_frame rp) (result_frames (snd (depacketizer_step (rp_depacketizer rp) p))))"
  by (auto simp: process_packet_step_def process_packet_def depacketize_def depacketizer_step_def
      result_frames_def List.map_filter_def decrypted_frame_def Let_def split_beta and_then_Ok_iff
      split: option.splits)
     (auto split: outcome.splits option.splits simp: rust_simps)

lemma decrypted_frame_cong:
  "rp_e2ee_provider rp = rp_e2ee_provider rq \<Longrightarrow> rp_publisher_identity rp = rp_publisher_identity rq \<Longrightarrow>
    decrypted_frame rp = decrypted_frame rq"
  by (rule ext) (auto simp: decrypted_frame_def decrypt_if_needed_def split: option.splits)

lemma remote_pipeline_run:
  "snd (run_events process_packet_step rp ps) =
    concat (map (decrypted_frame rp) (result_frames (snd (run_events depacketizer_step (rp_depacketizer rp) ps))))"
proof (induction ps arbitrary: rp)
  case Nil
  then show ?case by (simp add: result_frames_def List.map_filter_def)
next
  case (Cons p ps)
  have "decrypted_frame (fst (process_packet_step rp p)) = decrypted_frame rp"
    by (rule decrypted_frame_cong) simp_all
  then show ?case
    by (simp add: Let_def split_beta Cons.IH process_packet_step_frames result_frames_append)
qed

lemma encrypted_payload_eta [simp]:
  "\<lparr>ep_payload = ep_payload x, ep_iv = ep_iv x, ep_key_index = ep_key_index x\<rparr> = (x :: encrypted_payload)"
  by (cases x) simp

text \<open>Encryption, then decryption of what it made.\<close>

lemma encrypt_decrypt:
  assumes "encrypt_if_needed pl (packetizer_frame_from frame) = Ok f"
    and "providers_match (lp_encryption_provider pl) (rp_e2ee_provider rp) (rp_publisher_identity rp)"
  shows "decrypted_frame rp \<lparr>dpf_payload = pzf_payload f, dpf_extensions = pzf_extensions f\<rparr> = [frame]"
    and "wf_extensions (pzf_extensions f)"
proof -
  have "(pzf_extensions (packetizer_frame_from frame))\<lparr>e2ee := None\<rparr> = pzf_extensions (packetizer_frame_from frame)"
    by (simp add: packetizer_frame_from_def)
  then have plain: "data_track_frame_from \<lparr>dpf_payload = dtf_payload frame,
      dpf_extensions = pzf_extensions (packetizer_frame_from frame)\<rparr> = frame"
    by (metis data_track_frame_roundtrip)
  have "decrypted_frame rp \<lparr>dpf_payload = pzf_payload f, dpf_extensions = pzf_extensions f\<rparr> = [frame] \<and>
    wf_extensions (pzf_extensions f)"
    using assms plain
    by (auto simp: encrypt_if_needed_def providers_match_def decrypted_frame_def decrypt_if_needed_def
        and_then_Ok_iff wf_extensions_def split: option.splits outcome.splits)
  then show "decrypted_frame rp \<lparr>dpf_payload = pzf_payload f, dpf_extensions = pzf_extensions f\<rparr> = [frame]"
    and "wf_extensions (pzf_extensions f)" by simp_all
qed

lemma process_frame_Ok:
  assumes "process_frame pl now frame = (Ok ps, pl')"
  obtains f pz' where "encrypt_if_needed pl (packetizer_frame_from frame) = Ok f"
    and "packetize (lp_packetizer pl) now f = (Ok ps, pz')" and "pl' = pl\<lparr>lp_packetizer := pz'\<rparr>"
  using assms by (auto simp: process_frame_def Let_def split: outcome.splits prod.splits)

text \<open>Every packet of a frame can be written.\<close>

lemma packetize_wf:
  assumes "packetize pz now f = (Ok ps, pz')" and "wf_handle (pz_handle pz)" and "wf_extensions (pzf_extensions f)"
    and "pz_mtu_size pz \<le> USIZE_MAX"
  shows "list_all wf_packet ps"
proof -
  note ok = packetize_Ok [OF assms(1)]
  have "header_serialized_len (frame_header pz 0 f) +
      length (chunk_at (max_payload pz f) (pzf_payload f) i) \<le> USIZE_MAX" for i
    using ok(1) length_chunk_at [of "max_payload pz f" "pzf_payload f" i] assms(4)
    by (simp add: max_payload_def)
  then show ?thesis using assms(2,3)
    by (subst ok(3)) (simp add: list_all_iff wf_packet_def wf_header_def frame_packet_serialized_len)
qed

section \<open>Properties\<close>

text \<open>
  C1: A frame crosses the wire.  When a publisher's pipeline turns a frame into at most 128 packets,
  every packet serialises; a subscriber that decodes the bytes
  gets the packets back; and if the middle ones reach it in any order and with duplicates between the first and the
  last, its pipeline, in whatever state it was, yields exactly the frame that was pushed,
  payload and user timestamp, encrypted on the way or not, provided the two sides' providers match.
\<close>

theorem frame_crosses_the_wire:
  assumes "process_frame pl now frame = (Ok ps, pl')"
    and "wf_handle (pz_handle (lp_packetizer pl))" and "pz_mtu_size (lp_packetizer pl) = TRANSPORT_MTU"
    and "providers_match (lp_encryption_provider pl) (rp_e2ee_provider rp) (rp_publisher_identity rp)"
    and "ps \<noteq> []" and "length ps \<le> 128" and "set is = {1..<length ps - 1}"
  shows "(\<exists>raws. map packet_serialize (arrival ps is) = map Ok raws \<and>
      decode_all packet_deserialize raws = Ok (arrival ps is)) \<and>
    snd (run_events process_packet_step rp (arrival ps is)) = [frame]"
proof
  obtain f pz' where enc: "encrypt_if_needed pl (packetizer_frame_from frame) = Ok f"
    and pk: "packetize (lp_packetizer pl) now f = (Ok ps, pz')"
    using assms(1) by (rule process_frame_Ok)
  note f = encrypt_decrypt [OF enc assms(4)]
  have "pz_mtu_size (lp_packetizer pl) \<le> USIZE_MAX"
    unfolding assms(3) by (simp add: TRANSPORT_MTU_def USIZE_MAX_def)
  then have "list_all wf_packet ps"
    using pk assms(2) f(2) by (intro packetize_wf)
  then have wf: "list_all wf_packet (arrival ps is)"
    using set_arrival [OF assms(7)] by (auto simp: list_all_iff)
  then have "map packet_serialize (arrival ps is) = map Ok (map packet_wire (arrival ps is))"
    by (auto simp: list_all_iff wf_packet_def packet_serialize_eq packet_wire_def)
  with wire.decode_all_encode [OF wf]
  show "\<exists>raws. map packet_serialize (arrival ps is) = map Ok raws \<and>
      decode_all packet_deserialize raws = Ok (arrival ps is)"
    by blast
  show "snd (run_events process_packet_step rp (arrival ps is)) = [frame]"
    using f(1) by (simp add: remote_pipeline_run arrival_reassembled(2) [OF pk assms(5-7)])
qed

text \<open>A provider pair for the witness: encryption adds one to every byte.\<close>

definition shift_encrypt :: encryption_provider where
  "shift_encrypt p = Ok \<lparr>ep_payload = map (\<lambda>b. b + 1) p, ep_iv = replicate 12 0, ep_key_index = 3\<rparr>"

definition shift_decrypt :: decryption_provider where
  "shift_decrypt x identity =
     (if ep_key_index x = 3 then Ok (map (\<lambda>b. b - 1) (ep_payload x)) else Err DecryptionError)"

lemma shift_providers_match: "providers_match (Some shift_encrypt) (Some shift_decrypt) identity"
  by (auto simp: providers_match_def shift_encrypt_def shift_decrypt_def comp_def)

lemma length_process_frame:
  assumes "process_frame pl now frame = (Ok ps, pl')" and "encrypt_if_needed pl (packetizer_frame_from frame) = Ok f"
  shows "length ps = frame_packet_count (lp_packetizer pl) f"
proof -
  obtain g pz' where "encrypt_if_needed pl (packetizer_frame_from frame) = Ok g"
    "packetize (lp_packetizer pl) now g = (Ok ps, pz')" using assms(1) by (rule process_frame_Ok)
  with assms(2) packetize_Ok(2) show ?thesis by auto
qed

theorem frame_crosses_the_wire_witness:
  "let pl = local_pipeline_new (Handle 5) (Some shift_encrypt) 0 0;
       rp = remote_pipeline_new ''bob'' (Some shift_decrypt);
       frame = \<lparr>dtf_payload = replicate 40000 7, dtf_user_timestamp = Some 99\<rparr>;
       ps = (case process_frame pl 10 frame of (Ok ps, _) \<Rightarrow> ps | _ \<Rightarrow> [])
   in length ps = 3 \<and> snd (run_events process_packet_step rp (arrival ps [1, 1])) = [frame]"
proof -
  let ?pl = "local_pipeline_new (Handle 5) (Some shift_encrypt) 0 0"
  let ?rp = "remote_pipeline_new ''bob'' (Some shift_decrypt)"
  let ?frame = "\<lparr>dtf_payload = replicate 40000 7, dtf_user_timestamp = Some 99\<rparr>"
  define f where "f = \<lparr>pzf_payload = replicate 40000 (8 :: u8),
    pzf_extensions = \<lparr>user_timestamp = Some (UserTimestampExt 99), e2ee = Some \<lparr>key_index = 3, iv = replicate 12 0\<rparr>\<rparr>\<rparr>"
  have enc: "encrypt_if_needed ?pl (packetizer_frame_from ?frame) = Ok f"
    by (simp add: encrypt_if_needed_def local_pipeline_new_def shift_encrypt_def packetizer_frame_from_def
        f_def map_replicate)
  have room: "0 < max_payload (lp_packetizer ?pl) f"
    by (simp add: max_payload_def header_serialized_len_cases local_pipeline_new_def packetizer_new_def
        TRANSPORT_MTU_def f_def)
  obtain ps pl' where r: "process_frame ?pl 10 ?frame = (Ok ps, pl')"
    using room by (simp add: process_frame_def enc packetize_eq)
  have n: "length ps = 3"
    using length_process_frame [OF r enc]
    by (simp add: frame_packet_count_def max_payload_def header_serialized_len_cases local_pipeline_new_def
        packetizer_new_def TRANSPORT_MTU_def f_def div_ceil_def)
  have "snd (run_events process_packet_step ?rp (arrival ps [1, 1])) = [?frame]"
    using n by (intro frame_crosses_the_wire [OF r, THEN conjunct2])
      (auto simp: local_pipeline_new_def remote_pipeline_new_def packetizer_new_def shift_providers_match)
  with n show ?thesis by (simp add: r Let_def)
qed

text \<open>
  No plaintext passes for ciphertext.  A subscriber with a decryption provider yields a frame only if the frame
  carried the encryption extension and the provider accepted it: frames without the extension, and frames
  the provider rejects, are dropped, whatever the packets were.
\<close>

theorem subscriber_requires_decryption:
  assumes "rp_e2ee_provider rp = Some decryption" and "process_packet rp p = (Ok (Some frame), rp')"
  shows "\<exists>f x. pr_frame (fst (depacketizer_push (rp_depacketizer rp) p)) = Some f \<and>
    e2ee (dpf_extensions f) = Some x \<and>
    decryption \<lparr>ep_payload = dpf_payload f, ep_iv = iv x, ep_key_index = key_index x\<rparr> (rp_publisher_identity rp) =
      Ok (dtf_payload frame)"
  using assms
  by (auto simp: process_packet_def depacketize_def Let_def split_beta decrypt_if_needed_def and_then_Ok_iff
      data_track_frame_from_def split: option.splits outcome.splits)

theorem subscriber_requires_decryption_witness:
  "let rp = remote_pipeline_new ''bob'' (Some shift_decrypt);
       p = \<lparr>pheader = \<lparr>marker = Single, track_handle = Handle 1, sequence = 0, frame_number = 0, ts_ticks = 0,
             exts = \<lparr>user_timestamp = None, e2ee = Some \<lparr>key_index = 3, iv = replicate 12 0\<rparr>\<rparr>\<rparr>, payload = [8, 9]\<rparr>
   in fst (process_packet rp p) = Ok (Some \<lparr>dtf_payload = [7, 8], dtf_user_timestamp = None\<rparr>) \<and>
     (\<exists>f. pr_frame (fst (depacketizer_push (rp_depacketizer rp) p)) = Some f \<and> e2ee (dpf_extensions f) \<noteq> None)"
proof -
  let ?rp = "remote_pipeline_new ''bob'' (Some shift_decrypt)"
  let ?p = "\<lparr>pheader = \<lparr>marker = Single, track_handle = Handle 1, sequence = 0, frame_number = 0, ts_ticks = 0,
      exts = \<lparr>user_timestamp = None, e2ee = Some \<lparr>key_index = 3, iv = replicate 12 0\<rparr>\<rparr>\<rparr>, payload = [8, 9]\<rparr>"
  have r: "process_packet ?rp ?p = (Ok (Some \<lparr>dtf_payload = [7, 8], dtf_user_timestamp = None\<rparr>),
      snd (process_packet ?rp ?p))"
    by (simp add: process_packet_def depacketize_def remote_pipeline_new_def push_single decrypt_if_needed_def
        shift_decrypt_def data_track_frame_from_def)
  have "rp_e2ee_provider ?rp = Some shift_decrypt" by (simp add: remote_pipeline_new_def)
  from subscriber_requires_decryption [OF this r]
  have "\<exists>f. pr_frame (fst (depacketizer_push (rp_depacketizer ?rp) ?p)) = Some f \<and> e2ee (dpf_extensions f) \<noteq> None"
    by (elim exE conjE) (intro exI conjI, assumption, simp only: option.distinct not_False_eq_True)
  moreover have "fst (process_packet ?rp ?p) = Ok (Some \<lparr>dtf_payload = [7, 8], dtf_user_timestamp = None\<rparr>)"
    by (subst r) (rule fst_conv)
  ultimately show ?thesis unfolding Let_def by (rule conjI [rotated])
qed

end
