(* ===== verification/DtLocal.thy ===== *)
theory DtLocal
  imports DtTrack DtPipeline
begin

text \<open>
  The manager of locally published data tracks (\<open>livekit-datatrack/src/local/manager.rs\<close>), the
  task of each track, and the operations a user has on a track (\<open>local/mod.rs\<close>).  The actor and
  the track tasks share the publication state of a track through a watch channel: here each track
  is one record in a list, a track's identity is its position, and every actor is a step
  on the common state.  What an actor sends is an output of its step; sending never changes the
  sender, so a full output channel is an output that gets lost.
\<close>

section \<open>State\<close>

record local_track =
  lt_info :: data_track_info
  lt_state :: publish_state
  lt_pipeline :: local_pipeline
  lt_frames :: "data_track_frame list"
  lt_task :: "publish_state option"

text \<open>
  \<open>lt_state\<close> is the value in the watch channel, \<open>lt_frames\<close> the channel of frames to the
  track's task, \<open>lt_task\<close> the task's own variable \<open>state\<close>, absent once the task ended.
  A publish request is known by the number of its result channel.
\<close>

type_synonym request = nat
type_synonym track_id = nat

datatype local_descriptor = LPending request | LActive track_id

record local_manager =
  lm_encryption :: "encryption_provider option"
  lm_allocator :: handle_allocator
  lm_descriptors :: "(handle, local_descriptor) hashmap"
  lm_tracks :: "local_track list"
  lm_closed :: "request list"

definition FRAME_BUFFER_COUNT :: nat where "FRAME_BUFFER_COUNT = 16"
definition EVENT_BUFFER_COUNT :: nat where "EVENT_BUFFER_COUNT = 16"

datatype local_output =
    SfuPublishRequest handle string bool
  | SfuUnpublishRequest handle
  | PacketsAvailable "bytes list"
  | PublishResult request "(publish_error, track_id) outcome"
  | PublishedInfo request "data_track_info list"
  | SendUnpublishRequest handle
  | SendPublishCancelled handle
  | TaskPanicked track_id

definition local_manager_new :: "encryption_provider option \<Rightarrow> local_manager" where
  "local_manager_new provider =
     \<lparr>lm_encryption = provider, lm_allocator = handle_allocator_default, lm_descriptors = [],
      lm_tracks = [], lm_closed = []\<rparr>"

definition modify_track :: "track_id \<Rightarrow> (local_track \<Rightarrow> local_track) \<Rightarrow> local_manager \<Rightarrow> local_manager" where
  "modify_track tid f s = s\<lparr>lm_tracks := (lm_tracks s)[tid := f (lm_tracks s ! tid)]\<rparr>"

text \<open>
  \<open>watch::Sender::send\<close> changes nothing when no receiver is left.  The receiver is the
  task's; the short-lived ones of \<open>wait_for_unpublish\<close> are not modelled.
\<close>

definition watch_send :: "publish_state \<Rightarrow> local_track \<Rightarrow> local_track" where
  "watch_send st t = (if lt_task t = None then t else t\<lparr>lt_state := st\<rparr>)"

section \<open>Handlers of the manager\<close>

definition on_publish_request :: "string \<Rightarrow> request \<Rightarrow> local_manager \<Rightarrow> local_manager \<times> local_output list" where
  "on_publish_request name req s =
     (let (h, alloc) = handle_allocator_get (lm_allocator s);
          s = s\<lparr>lm_allocator := alloc\<rparr>
      in case h of
           None \<Rightarrow> (s, [PublishResult req (Err LimitReached)])
         | Some handle \<Rightarrow>
             if hm_contains (lm_descriptors s) handle
             then (s, [PublishResult req (Err (PublishInternal ''Descriptor for handle already exists''))])
             else (s\<lparr>lm_descriptors := hm_insert handle (LPending req) (lm_descriptors s)\<rparr>,
                   [SfuPublishRequest handle name (lm_encryption s \<noteq> None)]))"

text \<open>
  The task that waits for a pending publication, once the user's end of the result channel
  is gone and no result has come: it ends, which closes the manager's end, and tells the manager.
\<close>

definition forward_publish_cancel :: "handle \<Rightarrow> request \<Rightarrow> local_manager \<Rightarrow> local_manager \<times> local_output list" where
  "forward_publish_cancel handle req s =
     (s\<lparr>lm_closed := req # lm_closed s\<rparr>, [SendPublishCancelled handle])"

definition on_publish_cancelled :: "handle \<Rightarrow> local_manager \<Rightarrow> local_manager \<times> local_output list" where
  "on_publish_cancelled handle s = (s\<lparr>lm_descriptors := hm_remove handle (lm_descriptors s)\<rparr>, [])"

definition on_query_published :: "request \<Rightarrow> local_manager \<Rightarrow> local_manager \<times> local_output list" where
  "on_query_published req s =
     (s, [PublishedInfo req (List.map_filter
        (\<lambda>(_, d). case d of LActive tid \<Rightarrow> Some (lt_info (lm_tracks s ! tid)) | LPending _ \<Rightarrow> None)
        (lm_descriptors s))])"

definition remove_descriptor :: "handle \<Rightarrow> local_manager \<Rightarrow> local_manager" where
  "remove_descriptor handle s =
     (case hm_get (lm_descriptors s) handle of
        None \<Rightarrow> s
      | Some d \<Rightarrow>
          (let s = s\<lparr>lm_descriptors := hm_remove handle (lm_descriptors s)\<rparr> in
           case d of
             LPending _ \<Rightarrow> s
           | LActive tid \<Rightarrow>
               if lt_state (lm_tracks s ! tid) \<noteq> Unpublished
               then modify_track tid (watch_send Unpublished) s else s))"

definition on_unpublish_request :: "handle \<Rightarrow> local_manager \<Rightarrow> local_manager \<times> local_output list" where
  "on_unpublish_request handle s = (remove_descriptor handle s, [SfuUnpublishRequest handle])"

definition on_sfu_unpublish_response :: "handle \<Rightarrow> local_manager \<Rightarrow> local_manager \<times> local_output list" where
  "on_sfu_unpublish_response handle s = (remove_descriptor handle s, [])"

text \<open>The time and the random base timestamp are those of the new packetizer.\<close>

definition create_local_track ::
  "data_track_info \<Rightarrow> instant \<Rightarrow> timestamp \<Rightarrow> local_manager \<Rightarrow> track_id \<times> local_manager" where
  "create_local_track info now rnd s =
     (let provider = (if dti_uses_e2ee info then lm_encryption s else None);
          t = \<lparr>lt_info = info, lt_state = Published,
               lt_pipeline = local_pipeline_new (dti_pub_handle info) provider now rnd,
               lt_frames = [], lt_task = Some Published\<rparr>;
          tid = length (lm_tracks s)
      in (tid, s\<lparr>lm_tracks := lm_tracks s @ [t],
                 lm_descriptors := hm_insert (dti_pub_handle info) (LActive tid) (lm_descriptors s)\<rparr>))"

definition on_sfu_publish_response ::
  "handle \<Rightarrow> (publish_error, data_track_info) outcome \<Rightarrow> instant \<Rightarrow> timestamp \<Rightarrow>
   local_manager \<Rightarrow> local_manager \<times> local_output list" where
  "on_sfu_publish_response handle result now rnd s =
     (case hm_get (lm_descriptors s) handle of
        None \<Rightarrow> (s, [SfuUnpublishRequest handle])
      | Some d \<Rightarrow>
          (let removed = s\<lparr>lm_descriptors := hm_remove handle (lm_descriptors s)\<rparr> in
           case d of
             LPending req \<Rightarrow>
               if req \<in> set (lm_closed removed) then (removed, [])
               else (case result of
                       Ok info \<Rightarrow>
                         (let (tid, s') = create_local_track info now rnd removed
                          in (s', [PublishResult req (Ok tid)]))
                     | Err e \<Rightarrow> (removed, [PublishResult req (Err e)])
                     | Panic \<Rightarrow> (removed, []))
           | LActive tid \<Rightarrow>
               if lt_state (lm_tracks s ! tid) \<noteq> Republishing then (removed, [])
               else (case result of
                       Ok updated_info \<Rightarrow>
                         ((modify_track tid
                             (\<lambda>t. watch_send Published (t\<lparr>lt_info := (lt_info t)\<lparr>dti_sid := info_sid updated_info\<rparr>\<rparr>))
                             removed)\<lparr>lm_descriptors := hm_insert handle (LActive tid) (lm_descriptors removed)\<rparr>, [])
                     | _ \<Rightarrow> (removed, []))))"

text \<open>The loop of \<open>on_republish_tracks\<close> over the descriptors it has taken.\<close>

fun republish_loop ::
  "(handle \<times> local_descriptor) list \<Rightarrow> local_manager \<Rightarrow> local_manager \<times> local_output list" where
  "republish_loop [] s = (s, [])"
| "republish_loop ((handle, d) # ds) s =
     (let (s, out) =
        (case d of
           LPending req \<Rightarrow> (s, [PublishResult req (Err Disconnected)])
         | LActive tid \<Rightarrow>
             (let info = lt_info (lm_tracks s ! tid);
                  out = [SfuPublishRequest (dti_pub_handle info) (dti_name info) (dti_uses_e2ee info)];
                  s = modify_track tid (watch_send Republishing) s
              in (s\<lparr>lm_descriptors := hm_insert handle d (lm_descriptors s)\<rparr>, out)));
          (s, outs) = republish_loop ds s
      in (s, out @ outs))"

definition on_republish_tracks :: "local_manager \<Rightarrow> local_manager \<times> local_output list" where
  "on_republish_tracks s = republish_loop (lm_descriptors s) (s\<lparr>lm_descriptors := []\<rparr>)"

text \<open>
  The loop of \<open>shutdown\<close>.  It awaits each track's task, and a task that ends sends
  \<open>UnpublishRequest\<close> to the manager's own input channel, which holds \<open>EVENT_BUFFER_COUNT\<close> events and
  which nothing empties any more: \<open>occupancy\<close> counts what is in it.  A send that finds it full
  never returns, and then neither does the shutdown: \<open>None\<close>.
\<close>

fun shutdown_loop ::
  "(handle \<times> local_descriptor) list \<Rightarrow> nat \<Rightarrow> local_manager \<Rightarrow> (local_manager \<times> local_output list) option" where
  "shutdown_loop [] occupancy s = Some (s, [])"
| "shutdown_loop ((handle, LPending req) # ds) occupancy s =
     map_option (\<lambda>(s, outs). (s, PublishResult req (Err Disconnected) # outs)) (shutdown_loop ds occupancy s)"
| "shutdown_loop ((handle, LActive tid) # ds) occupancy s =
     (let ended = (lt_task (lm_tracks s ! tid) = None);
          s = modify_track tid (\<lambda>t. (watch_send Unpublished t)\<lparr>lt_task := None\<rparr>) s
      in if ended then shutdown_loop ds occupancy s
         else if EVENT_BUFFER_COUNT \<le> occupancy then None
         else shutdown_loop ds (occupancy + 1) s)"

definition local_shutdown :: "nat \<Rightarrow> local_manager \<Rightarrow> (local_manager \<times> local_output list) option" where
  "local_shutdown occupancy s = shutdown_loop (lm_descriptors s) occupancy (s\<lparr>lm_descriptors := []\<rparr>)"

section \<open>The task of a track\<close>

fun serialize_all :: "packet list \<Rightarrow> (serialize_error, bytes list) outcome" where
  "serialize_all [] = Ok []"
| "serialize_all (p # ps) =
     and_then (packet_serialize p) (\<lambda>raw. and_then (serialize_all ps) (\<lambda>raws. Ok (raw # raws)))"

definition process_and_send ::
  "track_id \<Rightarrow> data_track_frame \<Rightarrow> instant \<Rightarrow> local_manager \<Rightarrow> local_manager \<times> local_output list" where
  "process_and_send tid frame now s =
     (let (r, pl) = process_frame (lt_pipeline (lm_tracks s ! tid)) now frame;
          s = modify_track tid (lt_pipeline_update (\<lambda>_. pl)) s
      in case r of
           Ok packets \<Rightarrow>
             (case serialize_all packets of
                Ok raws \<Rightarrow> (s, [PacketsAvailable raws])
              | _ \<Rightarrow> (modify_track tid (lt_task_update (\<lambda>_. None)) s, [TaskPanicked tid]))
         | Err _ \<Rightarrow> (s, [])
         | Panic \<Rightarrow> (modify_track tid (lt_task_update (\<lambda>_. None)) s, [TaskPanicked tid]))"

text \<open>The two branches of the \<open>select!\<close> in the task's loop, with the loop's condition after them.\<close>

definition task_state_changed :: "track_id \<Rightarrow> local_manager \<Rightarrow> local_manager \<times> local_output list" where
  "task_state_changed tid s =
     (let t = lm_tracks s ! tid in
      if lt_task t = None then (s, [])
      else if lt_state t = Unpublished
      then (modify_track tid (lt_task_update (\<lambda>_. None)) s, [SendUnpublishRequest (dti_pub_handle (lt_info t))])
      else (modify_track tid (lt_task_update (\<lambda>_. Some (lt_state t))) s, []))"

definition task_frame :: "track_id \<Rightarrow> instant \<Rightarrow> local_manager \<Rightarrow> local_manager \<times> local_output list" where
  "task_frame tid now s =
     (let t = lm_tracks s ! tid in
      case (lt_task t, lt_frames t) of
        (Some state, frame # frames) \<Rightarrow>
          (let s = modify_track tid (lt_frames_update (\<lambda>_. frames)) s in
           if state = Republishing then (s, []) else process_and_send tid frame now s)
      | _ \<Rightarrow> (s, []))"

section \<open>The user's operations\<close>

datatype push_frame_error_reason = TrackUnpublished | QueueFull

record push_frame_error =
  pfe_frame :: data_track_frame
  pfe_reason :: push_frame_error_reason

definition try_push ::
  "track_id \<Rightarrow> data_track_frame \<Rightarrow> local_manager \<Rightarrow> (push_frame_error, unit) outcome \<times> local_manager" where
  "try_push tid frame s =
     (let t = lm_tracks s ! tid in
      case lt_state t of
        Republishing \<Rightarrow> (Err \<lparr>pfe_frame = frame, pfe_reason = QueueFull\<rparr>, s)
      | Unpublished \<Rightarrow> (Err \<lparr>pfe_frame = frame, pfe_reason = TrackUnpublished\<rparr>, s)
      | Published \<Rightarrow>
          if lt_task t = None \<or> FRAME_BUFFER_COUNT \<le> length (lt_frames t)
          then (Err \<lparr>pfe_frame = frame, pfe_reason = QueueFull\<rparr>, s)
          else (Ok (), modify_track tid (lt_frames_update (\<lambda>fs. fs @ [frame])) s))"

definition local_unpublish :: "track_id \<Rightarrow> local_manager \<Rightarrow> local_manager" where
  "local_unpublish tid s = modify_track tid (watch_send Unpublished) s"

definition is_published :: "track_id \<Rightarrow> local_manager \<Rightarrow> bool" where
  "is_published tid s \<longleftrightarrow> lt_state (lm_tracks s ! tid) \<noteq> Unpublished"

section \<open>All steps\<close>

text \<open>Steps of a track's task and of its user, of tracks that exist.\<close>

datatype track_event = TaskStateChanged | TaskFrame instant | TryPush data_track_frame | UserUnpublish

datatype local_event =
    LPublishRequest string request
  | LPublishCancelled handle
  | LQueryPublished request
  | LUnpublishRequest handle
  | LSfuPublishResponse handle "(publish_error, data_track_info) outcome" instant timestamp
  | LSfuUnpublishResponse handle
  | LRepublishTracks
  | LReceiverGone handle request
  | LTrack track_id track_event

fun local_step :: "local_manager \<Rightarrow> local_event \<Rightarrow> local_manager \<times> local_output list" where
  "local_step s (LPublishRequest name req) = on_publish_request name req s"
| "local_step s (LPublishCancelled h) = on_publish_cancelled h s"
| "local_step s (LQueryPublished req) = on_query_published req s"
| "local_step s (LUnpublishRequest h) = on_unpublish_request h s"
| "local_step s (LSfuPublishResponse h result now rnd) = on_sfu_publish_response h result now rnd s"
| "local_step s (LSfuUnpublishResponse h) = on_sfu_unpublish_response h s"
| "local_step s LRepublishTracks = on_republish_tracks s"
| "local_step s (LReceiverGone h req) = forward_publish_cancel h req s"
| "local_step s (LTrack tid e) =
     (if length (lm_tracks s) \<le> tid then (s, [])
      else case e of
        TaskStateChanged \<Rightarrow> task_state_changed tid s
      | TaskFrame now \<Rightarrow> task_frame tid now s
      | TryPush frame \<Rightarrow> (snd (try_push tid frame s), [])
      | UserUnpublish \<Rightarrow> (local_unpublish tid s, []))"

section \<open>The invariant\<close>

definition provider_ok :: "encryption_provider option \<Rightarrow> bool" where
  "provider_ok enc \<longleftrightarrow>
     (case enc of None \<Rightarrow> True | Some e \<Rightarrow> \<forall>p. e p \<noteq> Panic \<and> (\<forall>x. e p = Ok x \<longrightarrow> length (ep_iv x) = 12))"

definition track_ok :: "local_track \<Rightarrow> bool" where
  "track_ok t \<longleftrightarrow> wf_handle (dti_pub_handle (lt_info t)) \<and> provider_ok (lp_encryption_provider (lt_pipeline t)) \<and>
     wf_handle (pz_handle (lp_packetizer (lt_pipeline t))) \<and> pz_mtu_size (lp_packetizer (lt_pipeline t)) = TRANSPORT_MTU"

definition descriptor_ok :: "local_manager \<Rightarrow> handle \<Rightarrow> local_descriptor \<Rightarrow> bool" where
  "descriptor_ok s h d \<longleftrightarrow>
     0 < unat (handle_value h) \<and> unat (handle_value h) \<le> unat (ha_value (lm_allocator s)) \<and>
     (case d of
        LPending _ \<Rightarrow> True
      | LActive tid \<Rightarrow> tid < length (lm_tracks s) \<and> dti_pub_handle (lt_info (lm_tracks s ! tid)) = h)"

definition local_inv :: "local_manager \<Rightarrow> bool" where
  "local_inv s \<longleftrightarrow>
     provider_ok (lm_encryption s) \<and> hm_inv (lm_descriptors s) \<and> list_all track_ok (lm_tracks s) \<and>
     (\<forall>h d. hm_get (lm_descriptors s) h = Some d \<longrightarrow> descriptor_ok s h d)"

text \<open>
  What is known of the events: the handle of an accepted publication is that of its
  information (\<open>local/proto.rs\<close> takes it from there), and an error reported by the SFU is not the manager's own.
\<close>

definition already_exists :: publish_error where
  "already_exists = PublishInternal ''Descriptor for handle already exists''"

fun local_event_ok :: "local_event \<Rightarrow> bool" where
  "local_event_ok (LSfuPublishResponse h result now rnd) \<longleftrightarrow>
     (case result of Ok info \<Rightarrow> dti_pub_handle info = h \<and> wf_handle h | Err e \<Rightarrow> e \<noteq> already_exists | Panic \<Rightarrow> False)"
| "local_event_ok _ \<longleftrightarrow> True"

fun local_output_ok :: "local_output \<Rightarrow> bool" where
  "local_output_ok (TaskPanicked tid) \<longleftrightarrow> False"
| "local_output_ok (PublishResult req r) \<longleftrightarrow> r \<noteq> Err already_exists"
| "local_output_ok _ \<longleftrightarrow> True"

lemma modify_track_sel [simp]:
  "lm_descriptors (modify_track tid f s) = lm_descriptors s"
  "lm_allocator (modify_track tid f s) = lm_allocator s"
  "lm_encryption (modify_track tid f s) = lm_encryption s"
  "lm_closed (modify_track tid f s) = lm_closed s"
  "length (lm_tracks (modify_track tid f s)) = length (lm_tracks s)"
  by (simp_all add: modify_track_def)

lemma modify_track_nth:
  "k < length (lm_tracks s) \<Longrightarrow>
    lm_tracks (modify_track tid f s) ! k = (if k = tid then f (lm_tracks s ! k) else lm_tracks s ! k)"
  by (simp add: modify_track_def)

lemma modify_track_outside [simp]: "\<not> tid < length (lm_tracks s) \<Longrightarrow> modify_track tid f s = s"
  by (cases s) (simp add: modify_track_def list_update_beyond)

lemma watch_send_sel [simp]:
  "lt_info (watch_send st t) = lt_info t" "lt_pipeline (watch_send st t) = lt_pipeline t"
  "lt_frames (watch_send st t) = lt_frames t" "lt_task (watch_send st t) = lt_task t"
  "track_ok (watch_send st t) = track_ok t"
  by (simp_all add: watch_send_def track_ok_def)

text \<open>Changes of a track that keep its handle and its pipeline in order keep the invariant.\<close>

lemma track_ok_nth: "list_all track_ok ts \<Longrightarrow> k < length ts \<Longrightarrow> track_ok (ts ! k)"
  by (simp add: list_all_length)

lemma local_inv_update_track:
  assumes "local_inv s"
    and "\<And>t. track_ok t \<Longrightarrow> track_ok (f t)" and "\<And>t. dti_pub_handle (lt_info (f t)) = dti_pub_handle (lt_info t)"
  shows "local_inv (modify_track tid f s)"
proof -
  have "list_all track_ok (lm_tracks (modify_track tid f s))"
    using assms(1,2) unfolding local_inv_def list_all_length
    by (auto simp: modify_track_nth)
  moreover have "descriptor_ok (modify_track tid f s) h d" if "descriptor_ok s h d" for h d
    using that assms(3) by (auto simp: descriptor_ok_def modify_track_nth split: local_descriptor.splits)
  ultimately show ?thesis using assms(1) by (auto simp: local_inv_def)
qed

lemma local_inv_watch_send: "local_inv s \<Longrightarrow> local_inv (modify_track tid (watch_send st) s)"
  by (rule local_inv_update_track) simp_all

lemma descriptor_ok_descriptors [simp]:
  "descriptor_ok (s\<lparr>lm_descriptors := m\<rparr>) h d = descriptor_ok s h d"
  "descriptor_ok (s\<lparr>lm_closed := c\<rparr>) h d = descriptor_ok s h d"
  by (simp_all add: descriptor_ok_def split: local_descriptor.splits)

lemma local_inv_insert:
  "local_inv s \<Longrightarrow> descriptor_ok s h d \<Longrightarrow> local_inv (s\<lparr>lm_descriptors := hm_insert h d (lm_descriptors s)\<rparr>)"
  by (auto simp: local_inv_def)

lemma local_inv_remove: "local_inv s \<Longrightarrow> local_inv (s\<lparr>lm_descriptors := hm_remove h (lm_descriptors s)\<rparr>)"
  by (auto simp: local_inv_def split: if_splits)

lemma local_inv_clear: "local_inv s \<Longrightarrow> local_inv (s\<lparr>lm_descriptors := []\<rparr>)"
  by (auto simp: local_inv_def)

lemma local_inv_closed: "local_inv s \<Longrightarrow> local_inv (s\<lparr>lm_closed := c\<rparr>)"
  by (auto simp: local_inv_def)

lemma handle_allocator_get_cases:
  obtains "handle_allocator_get a = (None, a)"
  | h where "handle_allocator_get a = (Some h, \<lparr>ha_value = handle_value h\<rparr>)"
      "unat (handle_value h) = Suc (unat (ha_value a))"
proof (cases "unat (ha_value a) + 1 < 2 ^ 16")
  case True
  then have "unat (ha_value a + 1) = Suc (unat (ha_value a))"
    by (simp add: unat_word_ariths(1))
  with True that(2) [of "Handle (ha_value a + 1)"] show ?thesis
    by (cases a) (simp add: handle_allocator_get_def)
next
  case False
  with that(1) show ?thesis by (simp add: handle_allocator_get_def)
qed

lemma descriptor_ok_alloc_mono:
  "descriptor_ok s h d \<Longrightarrow> unat (ha_value (lm_allocator s)) \<le> unat (ha_value a) \<Longrightarrow>
    descriptor_ok (s\<lparr>lm_allocator := a\<rparr>) h d"
  by (auto simp: descriptor_ok_def split: local_descriptor.splits)

lemma on_publish_request_cases:
  assumes "local_inv s"
  obtains "on_publish_request name req s = (s, [PublishResult req (Err LimitReached)])"
  | h where "hm_get (lm_descriptors s) h = None"
      "unat (handle_value h) = Suc (unat (ha_value (lm_allocator s)))"
      "on_publish_request name req s =
        (s\<lparr>lm_allocator := \<lparr>ha_value = handle_value h\<rparr>,
           lm_descriptors := hm_insert h (LPending req) (lm_descriptors s)\<rparr>,
         [SfuPublishRequest h name (lm_encryption s \<noteq> None)])"
proof (cases rule: handle_allocator_get_cases [of "lm_allocator s"])
  case 1
  then show ?thesis using that(1) by (simp add: on_publish_request_def)
next
  case (2 h)
  have "hm_get (lm_descriptors s) h = None"
  proof (rule ccontr)
    assume "hm_get (lm_descriptors s) h \<noteq> None"
    then obtain d where "descriptor_ok s h d" using assms by (auto simp: local_inv_def)
    then show False using 2(2) by (simp add: descriptor_ok_def)
  qed
  then show ?thesis using 2 that(2) by (simp add: on_publish_request_def)
qed

lemma remove_descriptor_inv: "local_inv s \<Longrightarrow> local_inv (remove_descriptor h s)"
  by (simp add: remove_descriptor_def Let_def local_inv_remove local_inv_watch_send
      split: option.split local_descriptor.split)

lemma republish_loop_inv:
  "local_inv s \<Longrightarrow> (\<And>h d. (h, d) \<in> set ds \<Longrightarrow> descriptor_ok s h d) \<Longrightarrow>
    local_inv (fst (republish_loop ds s)) \<and> list_all local_output_ok (snd (republish_loop ds s))"
proof (induction ds arbitrary: s)
  case Nil
  then show ?case by simp
next
  case (Cons a ds)
  obtain h d where a: "a = (h, d)" by fastforce
  show ?case
  proof (cases d)
    case (LPending req)
    then show ?thesis using Cons a by (auto simp: Let_def split_beta already_exists_def)
  next
    case (LActive tid)
    let ?s = "modify_track tid (watch_send Republishing) s"
    let ?s' = "?s\<lparr>lm_descriptors := hm_insert h d (lm_descriptors ?s)\<rparr>"
    have keep: "descriptor_ok ?s k e" if "descriptor_ok s k e" for k e
      using that by (auto simp: descriptor_ok_def modify_track_nth split: local_descriptor.splits)
    have "local_inv ?s'"
      using Cons.prems a by (intro local_inv_insert local_inv_watch_send keep) auto
    moreover have "descriptor_ok ?s' k e" if "(k, e) \<in> set ds" for k e
      using Cons.prems(2) that by (simp add: keep)
    ultimately have "local_inv (fst (republish_loop ds ?s')) \<and> list_all local_output_ok (snd (republish_loop ds ?s'))"
      by (rule Cons.IH)
    then show ?thesis using a LActive by (simp add: Let_def split_beta)
  qed
qed

section \<open>Steps keep the invariant\<close>

lemma serialize_all_Ok: "list_all wf_packet ps \<Longrightarrow> serialize_all ps = Ok (map packet_wire ps)"
  by (induction ps) (simp_all add: wf_packet_def packet_serialize_eq packet_wire_def)

lemma encrypt_if_needed_ok:
  assumes "provider_ok (lp_encryption_provider pl)"
  shows "encrypt_if_needed pl (packetizer_frame_from frame) \<noteq> Panic"
    and "encrypt_if_needed pl (packetizer_frame_from frame) = Ok f \<Longrightarrow> wf_extensions (pzf_extensions f)"
  using assms
  by (auto simp: encrypt_if_needed_def provider_ok_def wf_extensions_def rust_simps split: option.splits)

lemma packetize_keeps [simp]:
  "pz_handle (snd (packetize pz now f)) = pz_handle pz"
  "pz_mtu_size (snd (packetize pz now f)) = pz_mtu_size pz"
  "fst (packetize pz now f) \<noteq> Panic"
  by (auto simp: packetize_eq)

lemma process_frame_keeps [simp]:
  "lp_encryption_provider (snd (process_frame pl now frame)) = lp_encryption_provider pl"
  "pz_handle (lp_packetizer (snd (process_frame pl now frame))) = pz_handle (lp_packetizer pl)"
  "pz_mtu_size (lp_packetizer (snd (process_frame pl now frame))) = pz_mtu_size (lp_packetizer pl)"
  by (simp_all add: process_frame_def Let_def split_beta split: outcome.split)

lemma process_frame_ok:
  assumes "track_ok t"
  shows "fst (process_frame (lt_pipeline t) now frame) \<noteq> Panic"
    and "fst (process_frame (lt_pipeline t) now frame) = Ok ps \<Longrightarrow> serialize_all ps = Ok (map packet_wire ps)"
proof -
  let ?pl = "lt_pipeline t"
  have enc: "provider_ok (lp_encryption_provider ?pl)" using assms by (simp add: track_ok_def)
  have pz: "fst (packetize (lp_packetizer ?pl) now f) \<noteq> Panic" for f by simp
  show "fst (process_frame ?pl now frame) \<noteq> Panic"
    using encrypt_if_needed_ok(1) [OF enc] pz
    by (auto simp: process_frame_def Let_def split_beta split: outcome.splits)
  assume "fst (process_frame ?pl now frame) = Ok ps"
  then have "process_frame ?pl now frame = (Ok ps, snd (process_frame ?pl now frame))"
    by (metis prod.collapse)
  then obtain f pz' where f: "encrypt_if_needed ?pl (packetizer_frame_from frame) = Ok f"
    "packetize (lp_packetizer ?pl) now f = (Ok ps, pz')" by (rule process_frame_Ok)
  have "pz_mtu_size (lp_packetizer ?pl) \<le> USIZE_MAX"
    using assms by (simp add: track_ok_def TRANSPORT_MTU_def USIZE_MAX_def)
  then have "list_all wf_packet ps"
    using f encrypt_if_needed_ok(2) [OF enc f(1)] assms by (intro packetize_wf [OF f(2)]) (simp_all add: track_ok_def)
  then show "serialize_all ps = Ok (map packet_wire ps)" by (rule serialize_all_Ok)
qed

lemma process_and_send_ok:
  assumes "local_inv s" and "tid < length (lm_tracks s)"
  shows "local_inv (fst (process_and_send tid frame now s)) \<and>
    list_all local_output_ok (snd (process_and_send tid frame now s))"
proof -
  let ?t = "lm_tracks s ! tid"
  have t: "track_ok ?t" using assms by (auto simp: local_inv_def intro: track_ok_nth)
  obtain r pl where r: "process_frame (lt_pipeline ?t) now frame = (r, pl)" by fastforce
  then have pl: "pl = snd (process_frame (lt_pipeline ?t) now frame)" by simp
  have "list_all track_ok (lm_tracks (modify_track tid (lt_pipeline_update (\<lambda>_. pl)) s))"
    using assms t unfolding pl local_inv_def list_all_length
    by (auto simp: modify_track_nth track_ok_def)
  moreover have "descriptor_ok (modify_track tid (lt_pipeline_update (\<lambda>_. pl)) s) h d" if "descriptor_ok s h d" for h d
    using that by (auto simp: descriptor_ok_def modify_track_nth split: local_descriptor.splits)
  ultimately have "local_inv (modify_track tid (lt_pipeline_update (\<lambda>_. pl)) s)"
    using assms(1) by (auto simp: local_inv_def)
  then show ?thesis
    using process_frame_ok [OF t, of now frame]
    by (cases r) (simp_all add: process_and_send_def r)
qed

lemma task_frame_ok:
  assumes "local_inv s" and "tid < length (lm_tracks s)"
  shows "local_inv (fst (task_frame tid now s)) \<and> list_all local_output_ok (snd (task_frame tid now s))"
proof -
  have "local_inv (modify_track tid (lt_frames_update (\<lambda>_. fs)) s)" for fs
    using assms(1) by (intro local_inv_update_track) (simp_all add: track_ok_def)
  then show ?thesis
    using assms process_and_send_ok [of "modify_track tid (lt_frames_update (\<lambda>_. _)) s" tid _ now]
    by (simp add: task_frame_def Let_def split: option.split list.split)
qed

lemma track_events_ok:
  assumes "local_inv s"
  shows "local_inv (fst (local_step s (LTrack tid e))) \<and> list_all local_output_ok (snd (local_step s (LTrack tid e)))"
proof (cases "tid < length (lm_tracks s)")
  case True
  show ?thesis
  proof (cases e)
    case (TaskFrame now)
    then show ?thesis using task_frame_ok [OF assms True] True by simp
  next
    case TaskStateChanged
    have "local_inv (modify_track tid (lt_task_update (\<lambda>_. x)) s)" for x
      using assms by (intro local_inv_update_track) (simp_all add: track_ok_def)
    then show ?thesis using True assms TaskStateChanged by (simp add: task_state_changed_def Let_def)
  next
    case (TryPush frame)
    have "local_inv (modify_track tid (lt_frames_update (\<lambda>fs. fs @ [frame])) s)"
      using assms by (intro local_inv_update_track) (simp_all add: track_ok_def)
    then show ?thesis using True assms TryPush by (simp add: try_push_def Let_def split: publish_state.split)
  next
    case UserUnpublish
    then show ?thesis using True assms by (simp add: local_unpublish_def local_inv_watch_send)
  qed
qed (use assms in simp)

lemma wf_handle_pos: "wf_handle h \<longleftrightarrow> 0 < unat (handle_value h)"
  by (cases h) (simp add: unat_gt_0)

lemma create_local_track_ok:
  assumes "local_inv s" and "descriptor_ok s (dti_pub_handle info) d"
  shows "local_inv (snd (create_local_track info now rnd s))"
proof -
  define t where "t = \<lparr>lt_info = info, lt_state = Published,
      lt_pipeline = local_pipeline_new (dti_pub_handle info)
        (if dti_uses_e2ee info then lm_encryption s else None) now rnd,
      lt_frames = [], lt_task = Some Published\<rparr>"
  have "provider_ok (if dti_uses_e2ee info then lm_encryption s else None)"
    using assms(1) by (simp add: local_inv_def) (simp add: provider_ok_def)
  then have t: "track_ok t" "dti_pub_handle (lt_info t) = dti_pub_handle info"
    using assms(2)
    by (simp_all add: t_def track_ok_def local_pipeline_new_def packetizer_new_def descriptor_ok_def wf_handle_pos)
  have s': "snd (create_local_track info now rnd s) =
      s\<lparr>lm_tracks := lm_tracks s @ [t],
        lm_descriptors := hm_insert (dti_pub_handle info) (LActive (length (lm_tracks s))) (lm_descriptors s)\<rparr>"
    by (simp add: create_local_track_def Let_def t_def)
  have "descriptor_ok (s\<lparr>lm_tracks := lm_tracks s @ [t]\<rparr>) h d" if "descriptor_ok s h d" for h d
    using that by (auto simp: descriptor_ok_def nth_append split: local_descriptor.splits)
  then have "local_inv (s\<lparr>lm_tracks := lm_tracks s @ [t]\<rparr>)"
    using assms(1) t by (auto simp: local_inv_def)
  moreover have "descriptor_ok (s\<lparr>lm_tracks := lm_tracks s @ [t]\<rparr>) (dti_pub_handle info) (LActive (length (lm_tracks s)))"
    using assms(2) t by (simp add: descriptor_ok_def)
  ultimately show ?thesis
    unfolding s' using local_inv_insert by fastforce
qed

lemma publish_response_ok:
  assumes "local_inv s" and "local_event_ok (LSfuPublishResponse h result now rnd)"
  shows "local_inv (fst (on_sfu_publish_response h result now rnd s)) \<and>
    list_all local_output_ok (snd (on_sfu_publish_response h result now rnd s))"
proof (cases "hm_get (lm_descriptors s) h")
  case None
  then show ?thesis using assms(1) by (simp add: on_sfu_publish_response_def)
next
  case (Some d)
  let ?r = "s\<lparr>lm_descriptors := hm_remove h (lm_descriptors s)\<rparr>"
  have r: "local_inv ?r" using assms(1) by (rule local_inv_remove)
  have d: "descriptor_ok ?r h d" using assms(1) Some by (simp add: local_inv_def)
  show ?thesis
  proof (cases d)
    case (LPending req)
    have "local_inv (snd (create_local_track info now rnd ?r))" if "result = Ok info" for info
      using create_local_track_ok [OF r, of info d] d assms(2) that by simp
    then show ?thesis
      using r Some LPending assms(2)
      by (cases result) (auto simp: on_sfu_publish_response_def Let_def split_beta)
  next
    case (LActive tid)
    let ?f = "\<lambda>info t. watch_send Published (t\<lparr>lt_info := (lt_info t)\<lparr>dti_sid := info_sid info\<rparr>\<rparr>)"
    have u: "local_inv (modify_track tid (?f info) ?r)" for info
      using r by (intro local_inv_update_track) (simp_all add: track_ok_def)
    have "descriptor_ok (modify_track tid (?f info) ?r) h d" for info
      using d LActive by (auto simp: descriptor_ok_def modify_track_nth)
    from local_inv_insert [OF u this]
    have "local_inv ((modify_track tid (?f info) ?r)\<lparr>lm_descriptors := hm_insert h d (lm_descriptors ?r)\<rparr>)" for info
      by simp
    then show ?thesis
      using r Some LActive
      by (cases result) (auto simp: on_sfu_publish_response_def Let_def)
  qed
qed

lemma local_step_ok:
  assumes "local_inv s" and "local_event_ok e"
  shows "local_inv (fst (local_step s e)) \<and> list_all local_output_ok (snd (local_step s e))"
proof (cases e)
  case (LPublishRequest name req)
  show ?thesis
  proof (cases rule: on_publish_request_cases [OF assms(1), of name req])
    case 1
    then show ?thesis using LPublishRequest assms(1) by (simp add: already_exists_def)
  next
    case (2 h)
    let ?s = "s\<lparr>lm_allocator := \<lparr>ha_value = handle_value h\<rparr>\<rparr>"
    have "local_inv ?s"
      using assms(1) 2(2) by (auto simp: local_inv_def intro!: descriptor_ok_alloc_mono)
    moreover have "descriptor_ok ?s h (LPending req)" using 2(2) by (simp add: descriptor_ok_def)
    ultimately show ?thesis using 2 LPublishRequest local_inv_insert [of ?s h "LPending req"] by simp
  qed
next
  case LRepublishTracks
  have "local_inv (s\<lparr>lm_descriptors := []\<rparr>)" using assms(1) by (rule local_inv_clear)
  moreover have "descriptor_ok (s\<lparr>lm_descriptors := []\<rparr>) h d" if "(h, d) \<in> set (lm_descriptors s)" for h d
    using assms(1) that hm_in_set [of "lm_descriptors s"] by (auto simp: local_inv_def)
  ultimately show ?thesis
    using LRepublishTracks by (simp add: on_republish_tracks_def republish_loop_inv)
next
  case (LTrack tid ev)
  then show ?thesis using track_events_ok [OF assms(1), of tid ev] by simp
next
  case (LSfuPublishResponse h result now rnd)
  then show ?thesis using publish_response_ok [OF assms(1), of h result now rnd] assms(2) by simp
qed (use assms(1) in \<open>auto simp: on_publish_cancelled_def on_query_published_def on_unpublish_request_def
      on_sfu_unpublish_response_def forward_publish_cancel_def local_inv_remove remove_descriptor_inv local_inv_closed\<close>)

interpretation lmm: guaranteed_machine local_step local_event_ok local_inv local_output_ok
  by unfold_locales (use local_step_ok in blast)+

lemma local_inv_new: "provider_ok enc \<Longrightarrow> local_inv (local_manager_new enc)"
  by (simp add: local_inv_def local_manager_new_def)

section \<open>Requests and their answers\<close>

definition answers :: "request \<Rightarrow> local_output list \<Rightarrow> nat" where
  "answers req outs = length (filter (\<lambda>x. case x of PublishResult r _ \<Rightarrow> r = req | _ \<Rightarrow> False) outs)"

definition requests :: "request \<Rightarrow> local_event list \<Rightarrow> nat" where
  "requests req es = length (filter (\<lambda>x. case x of LPublishRequest _ r \<Rightarrow> r = req | _ \<Rightarrow> False) es)"

definition waiting :: "request \<Rightarrow> local_manager \<Rightarrow> nat" where
  "waiting req s = hm_count (\<lambda>d. d = LPending req) (lm_descriptors s)"

lemma answers_simps [simp]:
  "answers req [] = 0" "answers req (xs @ ys) = answers req xs + answers req ys"
  "answers req (PublishResult r x # outs) = (if r = req then 1 else 0) + answers req outs"
  "answers req (SfuPublishRequest h n b # outs) = answers req outs"
  "answers req (SfuUnpublishRequest h # outs) = answers req outs"
  "answers req (PacketsAvailable ps # outs) = answers req outs"
  "answers req (PublishedInfo q i # outs) = answers req outs"
  "answers req (SendUnpublishRequest h # outs) = answers req outs"
  "answers req (SendPublishCancelled h # outs) = answers req outs"
  "answers req (TaskPanicked t # outs) = answers req outs"
  by (simp_all add: answers_def)

lemma requests_Nil [simp]: "requests req [] = 0"
  by (simp add: requests_def)

lemma requests_Cons: "requests req (e # es) = requests req [e] + requests req es"
  by (simp add: requests_def)

lemma waiting_simps [simp]:
  "waiting req (modify_track tid f s) = waiting req s"
  "waiting req (s\<lparr>lm_tracks := ts\<rparr>) = waiting req s"
  "waiting req (s\<lparr>lm_closed := c\<rparr>) = waiting req s"
  "waiting req (s\<lparr>lm_descriptors := m\<rparr>) = hm_count (\<lambda>d. d = LPending req) m"
  by (simp_all add: waiting_def)

lemma waiting_remove:
  assumes "local_inv s" and "hm_get (lm_descriptors s) h = Some d"
  shows "waiting req s = hm_count (\<lambda>d. d = LPending req) (hm_remove h (lm_descriptors s)) +
    (if d = LPending req then 1 else 0)"
  unfolding waiting_def by (rule hm_count_remove) (use assms in \<open>simp_all add: local_inv_def\<close>)

lemma waiting_remove_le:
  "local_inv s \<Longrightarrow> hm_count (\<lambda>d. d = LPending req) (hm_remove h (lm_descriptors s)) \<le> waiting req s"
  using waiting_remove [of s h _ req] hm_remove_absent [of "lm_descriptors s" h]
  by (cases "hm_get (lm_descriptors s) h") (fastforce simp: waiting_def)+

lemma waiting_remove_descriptor: "local_inv s \<Longrightarrow> waiting req (remove_descriptor h s) \<le> waiting req s"
  using waiting_remove_le [of s req h]
  by (simp add: remove_descriptor_def Let_def split: option.split local_descriptor.split)

lemma republish_loop_waiting:
  "hm_inv ds \<Longrightarrow> (\<And>h d. (h, d) \<in> set ds \<Longrightarrow> hm_get (lm_descriptors s) h = None) \<Longrightarrow>
    answers req (snd (republish_loop ds s)) + waiting req (fst (republish_loop ds s)) =
    hm_count (\<lambda>d. d = LPending req) ds + waiting req s"
proof (induction ds arbitrary: s)
  case Nil
  then show ?case by simp
next
  case (Cons a ds)
  obtain h d where a: "a = (h, d)" by fastforce
  have inv: "hm_inv ds" and h: "h \<notin> fst ` set ds" using Cons.prems(1) a by (auto simp: hm_inv_def)
  show ?case
  proof (cases d)
    case (LPending r)
    have "answers req (snd (republish_loop ds s)) + waiting req (fst (republish_loop ds s)) =
        hm_count (\<lambda>d. d = LPending req) ds + waiting req s"
      using Cons.prems(2) by (intro Cons.IH [OF inv]) auto
    then show ?thesis using a LPending by (simp add: Let_def split_beta hm_count_Cons)
  next
    case (LActive tid)
    let ?s = "modify_track tid (watch_send Republishing) s"
    let ?s' = "?s\<lparr>lm_descriptors := hm_insert h d (lm_descriptors ?s)\<rparr>"
    have fresh: "hm_get (lm_descriptors s) h = None" using Cons.prems(2) [of h d] a by simp
    have "answers req (snd (republish_loop ds ?s')) + waiting req (fst (republish_loop ds ?s')) =
        hm_count (\<lambda>d. d = LPending req) ds + waiting req ?s'"
    proof (rule Cons.IH [OF inv])
      fix k e assume "(k, e) \<in> set ds"
      then have "k \<noteq> h" using h by force
      then show "hm_get (lm_descriptors ?s') k = None"
        using Cons.prems(2) [of k e] \<open>(k, e) \<in> set ds\<close> by simp
    qed
    moreover have "waiting req ?s' = waiting req s"
      using fresh LActive by (simp add: hm_count_insert_new) (simp add: waiting_def)
    ultimately show ?thesis using a LActive by (simp add: Let_def split_beta hm_count_Cons)
  qed
qed

lemma answers_process_and_send [simp]:
  "answers req (snd (process_and_send tid frame now s)) = 0"
  "waiting req (fst (process_and_send tid frame now s)) = waiting req s"
  by (simp_all add: process_and_send_def Let_def split_beta split: outcome.split)

lemma answers_track_event:
  "answers req (snd (local_step s (LTrack tid e))) = 0"
  "waiting req (fst (local_step s (LTrack tid e))) = waiting req s"
  by (cases e; simp add: task_state_changed_def task_frame_def Let_def try_push_def local_unpublish_def
      split: option.split list.split publish_state.split)+

lemma answers_publish_response:
  assumes "local_inv s" and "local_event_ok (LSfuPublishResponse h result now rnd)"
  shows "answers req (snd (on_sfu_publish_response h result now rnd s)) +
    waiting req (fst (on_sfu_publish_response h result now rnd s)) \<le> waiting req s"
proof (cases "hm_get (lm_descriptors s) h")
  case None
  then show ?thesis by (simp add: on_sfu_publish_response_def)
next
  case (Some d)
  note w = waiting_remove [OF assms(1) Some, of req]
  show ?thesis
  proof (cases d)
    case (LPending r)
    have "hm_count (\<lambda>d. d = LPending req) (hm_insert h (LActive (length (lm_tracks s))) (hm_remove h (lm_descriptors s))) =
        hm_count (\<lambda>d. d = LPending req) (hm_remove h (lm_descriptors s))"
      by (simp add: hm_count_insert_new)
    then show ?thesis
      using w Some LPending assms(2)
      by (cases result) (auto simp: on_sfu_publish_response_def Let_def create_local_track_def)
  next
    case (LActive tid)
    have "hm_count (\<lambda>d. d = LPending req) (hm_insert h (LActive tid) (hm_remove h (lm_descriptors s))) =
        hm_count (\<lambda>d. d = LPending req) (hm_remove h (lm_descriptors s))"
      by (simp add: hm_count_insert_new)
    then show ?thesis
      using w Some LActive
      by (cases result) (auto simp: on_sfu_publish_response_def Let_def)
  qed
qed

lemma answers_step:
  assumes "local_inv s" and "local_event_ok e"
  shows "answers req (snd (local_step s e)) + waiting req (fst (local_step s e)) \<le> waiting req s + requests req [e]"
proof (cases e)
  case (LPublishRequest name r)
  show ?thesis
  proof (cases rule: on_publish_request_cases [OF assms(1), of name r])
    case 1
    then show ?thesis using LPublishRequest by (simp add: requests_def)
  next
    case (2 h)
    then show ?thesis using LPublishRequest
      by (simp add: requests_def hm_count_insert_new) (simp add: waiting_def)
  qed
next
  case (LSfuPublishResponse h result now rnd)
  then show ?thesis using answers_publish_response [OF assms(1), of h result now rnd req] assms(2) by simp
next
  case LRepublishTracks
  have "hm_inv (lm_descriptors s)" using assms(1) by (simp add: local_inv_def)
  then show ?thesis
    using LRepublishTracks republish_loop_waiting [of "lm_descriptors s" "s\<lparr>lm_descriptors := []\<rparr>" req]
    by (simp add: on_republish_tracks_def) (simp add: waiting_def)
next
  case (LTrack tid ev)
  then show ?thesis using answers_track_event [of req s tid ev] by simp
qed (use assms(1) in \<open>auto intro!: trans_le_add1 waiting_remove_le waiting_remove_descriptor simp: on_publish_cancelled_def
      on_query_published_def on_unpublish_request_def on_sfu_unpublish_response_def forward_publish_cancel_def\<close>)

lemma answers_run:
  assumes "local_inv s" and "list_all local_event_ok es"
  shows "answers req (snd (run_events local_step s es)) + waiting req (fst (run_events local_step s es)) \<le>
    waiting req s + requests req es"
  using assms
proof (induction es arbitrary: s)
  case Nil
  then show ?case by simp
next
  case (Cons e es)
  have "local_inv (fst (local_step s e))" using local_step_ok [of s e] Cons.prems by simp
  then have "answers req (snd (run_events local_step (fst (local_step s e)) es)) +
      waiting req (fst (run_events local_step (fst (local_step s e)) es)) \<le>
      waiting req (fst (local_step s e)) + requests req es"
    using Cons by simp
  moreover have "answers req (snd (local_step s e)) + waiting req (fst (local_step s e)) \<le> waiting req s + requests req [e]"
    using Cons.prems by (intro answers_step) simp_all
  ultimately show ?case by (subst requests_Cons) (simp add: Let_def split_beta)
qed

section \<open>Republishing\<close>

definition is_active :: "local_descriptor \<Rightarrow> bool" where
  "is_active d = (case d of LActive _ \<Rightarrow> True | LPending _ \<Rightarrow> False)"

lemma is_active_simps [simp]: "is_active (LActive tid)" "\<not> is_active (LPending req)"
  by (simp_all add: is_active_def)

text \<open>What is sent for one descriptor, given the tracks.\<close>

definition republish_output :: "local_track list \<Rightarrow> local_descriptor \<Rightarrow> local_output" where
  "republish_output ts d =
     (case d of
        LPending req \<Rightarrow> PublishResult req (Err Disconnected)
      | LActive tid \<Rightarrow> SfuPublishRequest (dti_pub_handle (lt_info (ts ! tid))) (dti_name (lt_info (ts ! tid)))
          (dti_uses_e2ee (lt_info (ts ! tid))))"

definition republished_tracks :: "(handle \<times> local_descriptor) list \<Rightarrow> local_track list \<Rightarrow> local_track list" where
  "republished_tracks ds ts =
     map (\<lambda>i. if LActive i \<in> snd ` set ds then watch_send Republishing (ts ! i) else ts ! i) [0..<length ts]"

lemma watch_send_idem [simp]: "watch_send st (watch_send st t) = watch_send st t"
  by (simp add: watch_send_def)

lemma republish_loop_result:
  assumes "hm_inv ds" and "\<And>h d. (h, d) \<in> set ds \<Longrightarrow> hm_get (lm_descriptors s) h = None"
    and "\<And>h tid. (h, LActive tid) \<in> set ds \<Longrightarrow> tid < length (lm_tracks s)"
  shows "republish_loop ds s =
    (s\<lparr>lm_descriptors := lm_descriptors s @ filter (is_active \<circ> snd) ds,
       lm_tracks := republished_tracks ds (lm_tracks s)\<rparr>,
     map (republish_output (lm_tracks s) \<circ> snd) ds)"
  using assms
proof (induction ds arbitrary: s)
  case Nil
  then show ?case by (cases s) (simp add: republished_tracks_def map_nth)
next
  case (Cons a ds)
  obtain h d where a: "a = (h, d)" by fastforce
  have inv: "hm_inv ds" and h: "h \<notin> fst ` set ds" using Cons.prems(1) a by (auto simp: hm_inv_def)
  show ?case
  proof (cases d)
    case (LPending r)
    have "republish_loop ds s =
      (s\<lparr>lm_descriptors := lm_descriptors s @ filter (is_active \<circ> snd) ds,
         lm_tracks := republished_tracks ds (lm_tracks s)\<rparr>, map (republish_output (lm_tracks s) \<circ> snd) ds)"
      using Cons.prems(2,3) by (intro Cons.IH [OF inv]) auto
    then show ?thesis using a LPending
      by (simp add: republish_output_def republished_tracks_def comp_def)
  next
    case (LActive tid)
    let ?s = "modify_track tid (watch_send Republishing) s"
    let ?s' = "?s\<lparr>lm_descriptors := hm_insert h d (lm_descriptors ?s)\<rparr>"
    have fresh: "hm_get (lm_descriptors s) h = None" using Cons.prems(2) [of h d] a by simp
    have tid: "tid < length (lm_tracks s)" using Cons.prems(3) [of h tid] a LActive by simp
    have "republish_loop ds ?s' =
      (?s'\<lparr>lm_descriptors := lm_descriptors ?s' @ filter (is_active \<circ> snd) ds,
         lm_tracks := republished_tracks ds (lm_tracks ?s')\<rparr>, map (republish_output (lm_tracks ?s') \<circ> snd) ds)"
    proof (rule Cons.IH [OF inv])
      fix k e assume "(k, e) \<in> set ds"
      then have "k \<noteq> h" using h by force
      then show "hm_get (lm_descriptors ?s') k = None"
        using Cons.prems(2) [of k e] \<open>(k, e) \<in> set ds\<close> by simp
    next
      fix k i assume "(k, LActive i) \<in> set ds"
      then show "i < length (lm_tracks ?s')" using Cons.prems(3) [of k i] by simp
    qed
    moreover have "republished_tracks ds (lm_tracks ?s') = republished_tracks (a # ds) (lm_tracks s)"
      using a LActive by (auto simp: republished_tracks_def modify_track_nth)
    moreover have "map (republish_output (lm_tracks ?s') \<circ> snd) ds = map (republish_output (lm_tracks s) \<circ> snd) ds"
    proof (rule map_cong [OF refl])
      fix x assume x: "x \<in> set ds"
      show "(republish_output (lm_tracks ?s') \<circ> snd) x = (republish_output (lm_tracks s) \<circ> snd) x"
      proof (cases "snd x")
        case (LActive i)
        then have "i < length (lm_tracks s)" using x Cons.prems(3) [of "fst x" i] by (cases x) simp
        then show ?thesis using LActive by (simp add: republish_output_def modify_track_nth)
      qed (simp add: republish_output_def)
    qed
    ultimately have "republish_loop ds ?s' =
      (s\<lparr>lm_descriptors := lm_descriptors s @ (h, d) # filter (is_active \<circ> snd) ds,
         lm_tracks := republished_tracks (a # ds) (lm_tracks s)\<rparr>, map (republish_output (lm_tracks s) \<circ> snd) ds)"
      using fresh by (simp add: hm_insert_new modify_track_def)
    then show ?thesis using a LActive
      by (simp add: Let_def) (simp add: republish_output_def comp_def)
  qed
qed

section \<open>Shutting down\<close>

text \<open>The tracks of some descriptors whose tasks are still running.\<close>

definition running :: "local_manager \<Rightarrow> (handle \<times> local_descriptor) list \<Rightarrow> nat" where
  "running s ds = length (filter (\<lambda>(_, d). case d of LActive tid \<Rightarrow> lt_task (lm_tracks s ! tid) \<noteq> None | _ \<Rightarrow> False) ds)"

lemma running_Cons:
  "running s ((h, d) # ds) =
    (case d of LActive tid \<Rightarrow> if lt_task (lm_tracks s ! tid) \<noteq> None then 1 else 0 | _ \<Rightarrow> 0) + running s ds"
  by (cases d) (simp_all add: running_def del: not_None_eq)

lemma running_cong:
  "(\<And>h tid. (h, LActive tid) \<in> set ds \<Longrightarrow> lt_task (lm_tracks s ! tid) = lt_task (lm_tracks s' ! tid)) \<Longrightarrow>
    running s ds = running s' ds"
  unfolding running_def
  by (intro arg_cong [of _ _ length] filter_cong) (auto split: local_descriptor.splits)

text \<open>The tracks that different handles stand for are different.\<close>

definition tracks_distinct :: "(handle \<times> local_descriptor) list \<Rightarrow> bool" where
  "tracks_distinct ds \<longleftrightarrow> distinct (List.map_filter (\<lambda>(_, d). case d of LActive tid \<Rightarrow> Some tid | _ \<Rightarrow> None) ds)"

lemma tracks_distinct_Cons:
  "tracks_distinct ((h, d) # ds) \<longleftrightarrow>
    (case d of LActive tid \<Rightarrow> \<forall>k. (k, LActive tid) \<notin> set ds | _ \<Rightarrow> True) \<and> tracks_distinct ds"
  by (force simp: tracks_distinct_def List.map_filter_def split: local_descriptor.splits option.splits)

lemma local_inv_tracks_distinct: "local_inv s \<Longrightarrow> tracks_distinct (lm_descriptors s)"
proof -
  assume inv: "local_inv s"
  have key: "dti_pub_handle (lt_info (lm_tracks s ! tid)) = h" if "(h, LActive tid) \<in> set (lm_descriptors s)" for h tid
    using inv that hm_in_set [of "lm_descriptors s" h] by (fastforce simp: local_inv_def descriptor_ok_def)
  have "hm_inv ds \<Longrightarrow> (\<And>h tid. (h, LActive tid) \<in> set ds \<Longrightarrow> dti_pub_handle (lt_info (lm_tracks s ! tid)) = h) \<Longrightarrow>
      tracks_distinct ds" for ds
  proof (induction ds)
    case Nil
    then show ?case by (simp add: tracks_distinct_def List.map_filter_def)
  next
    case (Cons a ds)
    obtain h d where a: "a = (h, d)" by fastforce
    have "tracks_distinct ds" using Cons by (simp add: hm_inv_def)
    moreover have "(k, LActive tid) \<notin> set ds" if "d = LActive tid" for k tid
    proof
      assume "(k, LActive tid) \<in> set ds"
      then have "k = h" using Cons.prems(2) [of k tid] Cons.prems(2) [of h tid] a that by simp
      with \<open>(k, LActive tid) \<in> set ds\<close> Cons.prems(1) a show False by (force simp: hm_inv_def)
    qed
    ultimately show ?case unfolding a tracks_distinct_Cons by (simp split: local_descriptor.split)
  qed
  from this [of "lm_descriptors s"] show ?thesis using inv key by (simp add: local_inv_def)
qed

lemma shutdown_loop_None:
  assumes "tracks_distinct ds" and "\<And>h tid. (h, LActive tid) \<in> set ds \<Longrightarrow> tid < length (lm_tracks s)"
  shows "shutdown_loop ds occupancy s = None \<longleftrightarrow>
    0 < running s ds \<and> EVENT_BUFFER_COUNT < occupancy + running s ds"
  using assms
proof (induction ds occupancy s rule: shutdown_loop.induct)
  case (1 occupancy s)
  then show ?case by (simp add: running_def)
next
  case (2 h req ds occupancy s)
  then show ?case by (simp add: running_Cons tracks_distinct_Cons)
next
  case (3 h tid ds occupancy s)
  let ?f = "\<lambda>t. (watch_send Unpublished t)\<lparr>lt_task := None\<rparr>"
  let ?s = "modify_track tid ?f s"
  have same: "running ?s ds = running s ds"
  proof (rule running_cong)
    fix k i assume "(k, LActive i) \<in> set ds"
    moreover from this have "i \<noteq> tid" using "3.prems"(1) by (auto simp: tracks_distinct_Cons)
    ultimately show "lt_task (lm_tracks ?s ! i) = lt_task (lm_tracks s ! i)"
      using "3.prems"(2) [of k i] by (simp add: modify_track_nth)
  qed
  have prems: "tracks_distinct ds" "\<And>k i. (k, LActive i) \<in> set ds \<Longrightarrow> i < length (lm_tracks ?s)"
    using "3.prems" by (auto simp: tracks_distinct_Cons)
  show ?case
    using "3.IH"(1) [OF refl refl _ prems] "3.IH"(2) [OF refl refl _ _ prems]
    by (auto simp: Let_def running_Cons same)
qed

lemma shutdown_loop_Some:
  "shutdown_loop ds occupancy s = Some (s', outs) \<Longrightarrow>
    outs = List.map_filter (\<lambda>(_, d). case d of LPending req \<Rightarrow> Some (PublishResult req (Err Disconnected)) | _ \<Rightarrow> None) ds"
  by (induction ds occupancy s arbitrary: s' outs rule: shutdown_loop.induct)
     (auto simp: List.map_filter_def Let_def split: if_splits)

section \<open>Properties\<close>

text \<open>
  C34: The manager of local tracks is safe.  With an encryption provider that does not panic, and whatever
  requests, SFU responses, task steps and user actions come in whatever order, the handle of a
  new publication is never already in use (the error for that never reaches the user), no track task panics
  (every packet of every frame serialises), and every descriptor stands for an allocated handle and the track of that handle.
\<close>

theorem local_manager_safe:
  assumes "provider_ok enc" and "list_all local_event_ok es"
  shows "local_inv (fst (run_events local_step (local_manager_new enc) es)) \<and>
    list_all local_output_ok (snd (run_events local_step (local_manager_new enc) es))"
  using assms local_inv_new lmm.run_inv lmm.run_ok by blast

definition sample_info :: data_track_info where
  "sample_info = \<lparr>dti_sid = DataTrackSid ''DTR_1'', dti_pub_handle = Handle 1, dti_name = ''a'', dti_uses_e2ee = True\<rparr>"

lemma shift_provider_ok: "provider_ok (Some shift_encrypt)"
  by (simp add: provider_ok_def shift_encrypt_def)

theorem local_manager_safe_witness:
  "local_inv (fst (run_events local_step (local_manager_new (Some shift_encrypt))
     [LPublishRequest ''a'' 0, LSfuPublishResponse (Handle 1) (Ok sample_info) 0 0, LTrack 0 (TryPush (dt_frame_new [1])),
      LTrack 0 (TaskFrame 5), LRepublishTracks, LTrack 0 UserUnpublish, LTrack 0 TaskStateChanged]))"
  by (rule local_manager_safe [OF shift_provider_ok, THEN conjunct1]) (simp add: sample_info_def)

text \<open>
  Publishing, then pushing.  From any state of the manager, a publish request sends the SFU a request with
  the next handle, and when the SFU accepts, the user gets the new track, published and with the information the SFU sent;
  a frame the user then pushes is sent, once its task runs, as the packets of that frame, serialised in order.
\<close>

theorem publish_then_push:
  assumes "local_inv s" and "req \<notin> set (lm_closed s)" and "unat (ha_value (lm_allocator s)) < 65535"
    and "dti_pub_handle info = Handle (ha_value (lm_allocator s) + 1)"
    and "run_events local_step s [LPublishRequest name req, LSfuPublishResponse (dti_pub_handle info) (Ok info) t0 rnd] = (s', outs)"
    and "process_frame (lt_pipeline (lm_tracks s' ! length (lm_tracks s))) now frame = (Ok ps, pl)"
  shows "outs = [SfuPublishRequest (dti_pub_handle info) name (lm_encryption s \<noteq> None),
           PublishResult req (Ok (length (lm_tracks s)))] \<and>
    lt_state (lm_tracks s' ! length (lm_tracks s)) = Published \<and>
    lt_info (lm_tracks s' ! length (lm_tracks s)) = info \<and>
    snd (run_events local_step s' [LTrack (length (lm_tracks s)) (TryPush frame), LTrack (length (lm_tracks s)) (TaskFrame now)]) =
      [PacketsAvailable (map packet_wire ps)]"
proof -
  let ?tid = "length (lm_tracks s)"
  let ?h = "dti_pub_handle info"
  have suc: "unat (ha_value (lm_allocator s) + 1) = Suc (unat (ha_value (lm_allocator s)))"
    using assms(3) by (simp add: unat_word_ariths(1))
  have both: "on_publish_request name req s =
      (s\<lparr>lm_allocator := \<lparr>ha_value = handle_value ?h\<rparr>, lm_descriptors := hm_insert ?h (LPending req) (lm_descriptors s)\<rparr>,
       [SfuPublishRequest ?h name (lm_encryption s \<noteq> None)]) \<and> 0 < unat (handle_value ?h)"
  proof (cases rule: on_publish_request_cases [OF assms(1), of name req])
    case 1
    with assms(3) show ?thesis
      by (simp add: on_publish_request_def handle_allocator_get_def Let_def split: if_splits)
  next
    case (2 h)
    have "handle_value h = ha_value (lm_allocator s) + 1"
      using 2(2) suc by (simp add: word_unat_eq_iff)
    then have "h = ?h" using assms(4) by (cases h) simp
    with 2 show ?thesis by simp
  qed
  note pub = both [THEN conjunct1] and h2 = both [THEN conjunct2]
  have s': "lm_tracks s' ! ?tid = \<lparr>lt_info = info, lt_state = Published,
      lt_pipeline = local_pipeline_new (dti_pub_handle info) (if dti_uses_e2ee info then lm_encryption s else None) t0 rnd,
      lt_frames = [], lt_task = Some Published\<rparr>" "length (lm_tracks s') = Suc ?tid"
    and outs: "outs = [SfuPublishRequest ?h name (lm_encryption s \<noteq> None), PublishResult req (Ok ?tid)]"
    using assms(2,5) pub by (auto simp: on_sfu_publish_response_def Let_def create_local_track_def)
  have inv: "local_inv s'"
    using local_step_ok [OF assms(1), of "LPublishRequest name req"]
      local_step_ok [of "fst (local_step s (LPublishRequest name req))" "LSfuPublishResponse (dti_pub_handle info) (Ok info) t0 rnd"]
      assms(5) h2 by (simp add: Let_def split_beta wf_handle_pos)
  then have "track_ok (lm_tracks s' ! ?tid)" using s'(2) by (auto simp: local_inv_def intro: track_ok_nth)
  then have ser: "serialize_all ps = Ok (map packet_wire ps)"
    using process_frame_ok(2) [of "lm_tracks s' ! ?tid" now frame ps] assms(6) by simp
  have "snd (run_events local_step s' [LTrack ?tid (TryPush frame), LTrack ?tid (TaskFrame now)]) =
      [PacketsAvailable (map packet_wire ps)]"
    using s' assms(6) ser
    by (simp add: try_push_def Let_def FRAME_BUFFER_COUNT_def task_frame_def modify_track_nth process_and_send_def)
  with s' outs show ?thesis by (simp del: run_events.simps)
qed

theorem publish_then_push_witness:
  "snd (run_events local_step (local_manager_new None)
     [LPublishRequest ''a'' 0, LSfuPublishResponse (Handle 1) (Ok (sample_info\<lparr>dti_uses_e2ee := False\<rparr>)) 0 0]) =
   [SfuPublishRequest (Handle 1) ''a'' False, PublishResult 0 (Ok 0)]"
proof -
  let ?s = "local_manager_new None" and ?i = "sample_info\<lparr>dti_uses_e2ee := False\<rparr>"
  obtain s' outs where r: "run_events local_step ?s
      [LPublishRequest ''a'' 0, LSfuPublishResponse (dti_pub_handle ?i) (Ok ?i) 0 0] = (s', outs)" by fastforce
  have inv: "local_inv ?s" by (rule local_inv_new) (simp add: provider_ok_def)
  have t: "lm_tracks s' ! length (lm_tracks ?s) = \<lparr>lt_info = ?i, lt_state = Published,
      lt_pipeline = local_pipeline_new (Handle 1) None 0 0, lt_frames = [], lt_task = Some Published\<rparr>"
    using r by (auto simp: local_manager_new_def on_publish_request_def handle_allocator_get_def
        handle_allocator_default_def on_sfu_publish_response_def create_local_track_def sample_info_def Let_def)
  let ?f = "dt_frame_new [1, 2]"
  have "\<exists>ps pl. process_frame (local_pipeline_new (Handle 1) None 0 0) 7 ?f = (Ok ps, pl)"
    by (simp add: process_frame_def encrypt_if_needed_def local_pipeline_new_def packetize_eq max_payload_def
        header_serialized_len_cases packetizer_new_def TRANSPORT_MTU_def packetizer_frame_from_def dt_frame_new_def)
  then obtain ps pl where f: "process_frame (lt_pipeline (lm_tracks s' ! length (lm_tracks ?s))) 7 ?f = (Ok ps, pl)"
    by (auto simp: t)
  have "outs = [SfuPublishRequest (dti_pub_handle ?i) ''a'' (lm_encryption ?s \<noteq> None), PublishResult 0 (Ok (length (lm_tracks ?s)))]"
    by (rule publish_then_push [OF inv _ _ _ r f, THEN conjunct1])
       (simp_all add: local_manager_new_def handle_allocator_default_def sample_info_def)
  moreover have "dti_pub_handle ?i = Handle 1" by (simp add: sample_info_def)
  ultimately show ?thesis
    using r by (simp add: local_manager_new_def del: run_events.simps)
qed

text \<open>
  No answer without a request.  Over any run, the number of results sent to a request's channel and of
  publications still pending for it is at most the number of times it was requested; a
  request made once is answered at most once and never both answered and pending.
\<close>

theorem publish_answered_at_most_once:
  assumes "provider_ok enc" and "list_all local_event_ok es"
    and "run_events local_step (local_manager_new enc) es = (s, outs)"
  shows "answers req outs + waiting req s \<le> requests req es"
proof -
  have "waiting req (local_manager_new enc) = 0" by (simp add: waiting_def local_manager_new_def)
  then show ?thesis using answers_run [OF local_inv_new [OF assms(1)] assms(2), of req] assms(3) by simp
qed

theorem publish_answered_at_most_once_witness:
  "answers 0 (snd (run_events local_step (local_manager_new None) [LPublishRequest ''a'' 0, LRepublishTracks])) \<le> 1"
proof -
  obtain s outs where r: "run_events local_step (local_manager_new None) [LPublishRequest ''a'' 0, LRepublishTracks] = (s, outs)"
    by fastforce
  have "provider_ok None" by (simp add: provider_ok_def)
  from publish_answered_at_most_once [OF this _ r, of 0] show ?thesis by (simp add: r requests_def del: run_events.simps)
qed

text \<open>
  Republishing after a full reconnect.  Every pending publication fails with \<open>Disconnected\<close> and
  is forgotten; for every active one the SFU is asked again with the handle, name and encryption it had, and its
  track is marked as republishing if its task runs; other tracks are untouched, and the active
  descriptors stay as they are.
\<close>

theorem republish_tracks:
  assumes "local_inv s"
  shows "local_step s LRepublishTracks =
    (s\<lparr>lm_descriptors := filter (is_active \<circ> snd) (lm_descriptors s),
       lm_tracks := republished_tracks (lm_descriptors s) (lm_tracks s)\<rparr>,
     map (republish_output (lm_tracks s) \<circ> snd) (lm_descriptors s))"
proof -
  have "tid < length (lm_tracks s)" if "(h, LActive tid) \<in> set (lm_descriptors s)" for h tid
    using assms that hm_in_set [of "lm_descriptors s" h] by (fastforce simp: local_inv_def descriptor_ok_def)
  then show ?thesis
    using assms republish_loop_result [of "lm_descriptors s" "s\<lparr>lm_descriptors := []\<rparr>"]
    by (simp add: on_republish_tracks_def local_inv_def)
qed

theorem republish_tracks_witness:
  "let s = fst (run_events local_step (local_manager_new None) [LPublishRequest ''a'' 0])
   in local_step s LRepublishTracks =
     (s\<lparr>lm_descriptors := filter (is_active \<circ> snd) (lm_descriptors s),
        lm_tracks := republished_tracks (lm_descriptors s) (lm_tracks s)\<rparr>,
      map (republish_output (lm_tracks s) \<circ> snd) (lm_descriptors s))"
proof -
  have "local_inv (local_manager_new None)" by (rule local_inv_new) (simp add: provider_ok_def)
  then have "local_inv (fst (run_events local_step (local_manager_new None) [LPublishRequest ''a'' 0]))"
    by (rule lmm.run_inv) simp
  from republish_tracks [OF this] show ?thesis by (simp only: Let_def)
qed

text \<open>
  C35: When shutting down blocks.  The manager awaits every track's task, and each running task first sends an event to
  the manager's own channel of 16 events, which is no longer read: the shutdown returns exactly when the
  channel has room for one event per running task (or none is running); when it returns, every pending
  request has been answered with \<open>Disconnected\<close>.
\<close>

theorem shutdown_returns_iff:
  assumes "local_inv s"
  shows "case local_shutdown occupancy s of
      None \<Rightarrow> 0 < running s (lm_descriptors s) \<and> EVENT_BUFFER_COUNT < occupancy + running s (lm_descriptors s)
    | Some (s', outs) \<Rightarrow>
        \<not> (0 < running s (lm_descriptors s) \<and> EVENT_BUFFER_COUNT < occupancy + running s (lm_descriptors s)) \<and>
        outs = List.map_filter (\<lambda>(_, d). case d of LPending req \<Rightarrow> Some (PublishResult req (Err Disconnected)) | _ \<Rightarrow> None)
          (lm_descriptors s)"
proof -
  let ?s = "s\<lparr>lm_descriptors := []\<rparr>"
  have tid: "tid < length (lm_tracks s)" if "(h, LActive tid) \<in> set (lm_descriptors s)" for h tid
    using assms that hm_in_set [of "lm_descriptors s" h] by (fastforce simp: local_inv_def descriptor_ok_def)
  have "running ?s ds = running s ds" for ds by (rule running_cong) simp
  with shutdown_loop_None [OF local_inv_tracks_distinct [OF assms], of ?s occupancy] tid
  have "local_shutdown occupancy s = None \<longleftrightarrow>
      0 < running s (lm_descriptors s) \<and> EVENT_BUFFER_COUNT < occupancy + running s (lm_descriptors s)"
    by (simp add: local_shutdown_def)
  then show ?thesis
    using shutdown_loop_Some [of "lm_descriptors s" occupancy ?s]
    by (cases "local_shutdown occupancy s") (auto simp: local_shutdown_def)
qed

text \<open>A manager with 17 published tracks.\<close>

definition busy_manager :: local_manager where
  "busy_manager =
     \<lparr>lm_encryption = None, lm_allocator = \<lparr>ha_value = 17\<rparr>,
      lm_descriptors = map (\<lambda>i. (Handle (of_nat (Suc i)), LActive i)) [0..<17],
      lm_tracks = map (\<lambda>i.
        \<lparr>lt_info = \<lparr>dti_sid = DataTrackSid ''DTR_1'', dti_pub_handle = Handle (of_nat (Suc i)), dti_name = [], dti_uses_e2ee = False\<rparr>,
         lt_state = Published, lt_pipeline = local_pipeline_new (Handle (of_nat (Suc i))) None 0 0,
         lt_frames = [], lt_task = Some Published\<rparr>) [0..<17],
      lm_closed = []\<rparr>"

lemma busy_manager_inv: "local_inv busy_manager"
proof -
  have val: "unat (of_nat (Suc i) :: u16) = Suc i" if "i < 17" for i
    using that by (simp only: unat_of_nat) simp
  have "inj_on (\<lambda>i. of_nat (Suc i) :: u16) {0..<17}"
    by (rule inj_onI) (metis atLeastLessThan_iff nat.inject val)
  then have inv: "hm_inv (lm_descriptors busy_manager)"
    by (simp add: busy_manager_def hm_inv_def distinct_map comp_def inj_on_def del: of_nat_Suc)
  have d: "descriptor_ok busy_manager h d" if "(h, d) \<in> set (lm_descriptors busy_manager)" for h d
    using that val by (auto simp: busy_manager_def descriptor_ok_def simp del: of_nat_Suc)
  have "track_ok t" if "t \<in> set (lm_tracks busy_manager)" for t
    using that val
    by (auto simp: busy_manager_def track_ok_def local_pipeline_new_def packetizer_new_def provider_ok_def wf_handle_pos
        simp del: of_nat_Suc wf_handle.simps)
  with inv d show ?thesis
    by (auto simp: local_inv_def list_all_iff hm_in_set [symmetric] provider_ok_def)
       (simp add: busy_manager_def)
qed

theorem shutdown_returns_iff_witness:
  "local_shutdown 0 busy_manager = None"
proof -
  have "filter (\<lambda>(_, d). case d of LActive tid \<Rightarrow> lt_task (lm_tracks busy_manager ! tid) \<noteq> None | _ \<Rightarrow> False)
      (lm_descriptors busy_manager) = lm_descriptors busy_manager"
    by (rule filter_True) (auto simp: busy_manager_def)
  then have "running busy_manager (lm_descriptors busy_manager) = length (lm_descriptors busy_manager)"
    by (simp only: running_def)
  then have "running busy_manager (lm_descriptors busy_manager) = 17" by (simp add: busy_manager_def)
  then show ?thesis
    using shutdown_returns_iff [OF busy_manager_inv, of 0]
    by (auto simp: EVENT_BUFFER_COUNT_def split: option.splits)
qed

section \<open>What the handlers miss\<close>

text \<open>
  A response to a publication whose user has gone away, handled before the cancellation event: the
  descriptor is dropped and nothing is sent, although the SFU has just published the track; the cancellation then finds nothing.
\<close>

lemma abandoned_publication_stays_published:
  assumes "hm_get (lm_descriptors s) h = Some (LPending req)" and "req \<in> set (lm_closed s)"
  shows "snd (run_events local_step s [LSfuPublishResponse h (Ok info) now rnd, LPublishCancelled h]) = []"
  using assms by (simp add: on_sfu_publish_response_def on_publish_cancelled_def Let_def)

text \<open>A second response for a published track removes the descriptor of the running track.\<close>

lemma duplicate_response_forgets_track:
  assumes "hm_get (lm_descriptors s) h = Some (LActive tid)" and "lt_state (lm_tracks s ! tid) = Published"
  shows "on_sfu_publish_response h r now rnd s = (s\<lparr>lm_descriptors := hm_remove h (lm_descriptors s)\<rparr>, [])"
  using assms by (simp add: on_sfu_publish_response_def Let_def)

text \<open>A failed republication leaves the track republishing for ever: pushes are refused as if the queue were full.\<close>

lemma failed_republish_strands_track:
  assumes "hm_get (lm_descriptors s) h = Some (LActive tid)" and "lt_state (lm_tracks s ! tid) = Republishing"
  shows "on_sfu_publish_response h (Err e) now rnd s = (s\<lparr>lm_descriptors := hm_remove h (lm_descriptors s)\<rparr>, [])"
    and "fst (try_push tid frame (fst (on_sfu_publish_response h (Err e) now rnd s))) = Err \<lparr>pfe_frame = frame, pfe_reason = QueueFull\<rparr>"
    and "is_published tid (fst (on_sfu_publish_response h (Err e) now rnd s))"
  using assms by (simp_all add: on_sfu_publish_response_def Let_def try_push_def is_published_def)

end
