(* ===== verification/DtRemote.thy ===== *)
theory DtRemote
  imports DtTrack DtPipeline
begin

text \<open>
  The manager of remotely published data tracks (\<open>livekit-datatrack/src/remote/manager.rs\<close>), the task of
  each subscription, and the subscription options and stream (\<open>remote/mod.rs\<close>).  Published tracks and
  subscription tasks live in lists and are known by their position; the watch channel of a track is
  its entry in \<open>rm_tracks\<close>, the channels of a task are fields of its record.
\<close>

section \<open>State\<close>

type_synonym sub_request = nat
type_synonym task_id = nat

datatype subscribe_error = TrackGone | SubscribeTimeout | SubscribeDisconnected | SubscribeInternal string

record subscribe_options =
  so_buffer_size :: nat

definition subscribe_options_new :: subscribe_options where
  "subscribe_options_new = \<lparr>so_buffer_size = 16\<rparr>"

definition with_buffer_size :: "nat \<Rightarrow> subscribe_options \<Rightarrow> subscribe_options" where
  "with_buffer_size frames opts =
     (let frames = (if frames = 0 then 1 else frames) in opts\<lparr>so_buffer_size := frames\<rparr>)"

text \<open>A subscription task: \<open>rt_subscribers\<close> are the receivers of the broadcast channel of frames.\<close>

record remote_task =
  rt_info :: data_track_info
  rt_track :: nat
  rt_pipeline :: remote_pipeline
  rt_packets :: "packet list"
  rt_subscribers :: "sub_request list"
  rt_buffer_size :: nat
  rt_running :: bool

datatype subscription_state =
    SNone
  | SPending "sub_request list" nat
  | SActive handle task_id

record remote_descriptor =
  rd_info :: data_track_info
  rd_publisher_identity :: string
  rd_track :: nat
  rd_subscription :: subscription_state

record remote_manager =
  rm_decryption :: "decryption_provider option"
  rm_descriptors :: "(data_track_sid, remote_descriptor) hashmap"
  rm_sub_handles :: "(handle, data_track_sid) hashmap"
  rm_tracks :: "bool list"
  rm_tasks :: "remote_task list"

definition PACKET_BUFFER_COUNT :: nat where "PACKET_BUFFER_COUNT = 16"

datatype remote_output =
    SfuUpdateSubscription data_track_sid bool
  | TrackPublished data_track_info string nat
  | TrackUnpublishedOut data_track_sid
  | SubscribeResult sub_request "(subscribe_error, task_id) outcome"
  | FrameDelivered "sub_request list" data_track_frame
  | SendUnsubscribeRequest data_track_sid
  | RemoteTaskPanicked task_id

definition remote_manager_new :: "decryption_provider option \<Rightarrow> remote_manager" where
  "remote_manager_new provider =
     \<lparr>rm_decryption = provider, rm_descriptors = [], rm_sub_handles = [], rm_tracks = [], rm_tasks = []\<rparr>"

definition update_task :: "task_id \<Rightarrow> (remote_task \<Rightarrow> remote_task) \<Rightarrow> remote_manager \<Rightarrow> remote_manager" where
  "update_task t f s = s\<lparr>rm_tasks := (rm_tasks s)[t := f (rm_tasks s ! t)]\<rparr>"

definition put_subscription :: "data_track_sid \<Rightarrow> remote_descriptor \<Rightarrow> subscription_state \<Rightarrow> remote_manager \<Rightarrow> remote_manager" where
  "put_subscription sid d sub s =
     s\<lparr>rm_descriptors := hm_insert sid (d\<lparr>rd_subscription := sub\<rparr>) (rm_descriptors s)\<rparr>"

section \<open>Handlers of the manager\<close>

definition on_subscribe_request ::
  "data_track_sid \<Rightarrow> subscribe_options \<Rightarrow> sub_request \<Rightarrow> remote_manager \<Rightarrow> remote_manager \<times> remote_output list" where
  "on_subscribe_request sid opts req s =
     (case hm_get (rm_descriptors s) sid of
        None \<Rightarrow> (s, [SubscribeResult req (Err (SubscribeInternal ''Cannot subscribe to unknown track''))])
      | Some d \<Rightarrow>
          (case rd_subscription d of
             SNone \<Rightarrow> (put_subscription sid d (SPending [req] (so_buffer_size opts)) s, [SfuUpdateSubscription sid True])
           | SPending txs n \<Rightarrow> (put_subscription sid d (SPending (txs @ [req]) n) s, [])
           | SActive h t \<Rightarrow> (update_task t (rt_subscribers_update (\<lambda>rs. rs @ [req])) s, [SubscribeResult req (Ok t)])))"

definition on_unsubscribe_request :: "data_track_sid \<Rightarrow> remote_manager \<Rightarrow> remote_manager \<times> remote_output list" where
  "on_unsubscribe_request sid s =
     (case hm_get (rm_descriptors s) sid of
        None \<Rightarrow> (s, [])
      | Some d \<Rightarrow>
          (case rd_subscription d of
             SActive h t \<Rightarrow>
               (let s = put_subscription sid d SNone s
                in (s\<lparr>rm_sub_handles := hm_remove h (rm_sub_handles s)\<rparr>, [SfuUpdateSubscription sid False]))
           | _ \<Rightarrow> (s, [])))"

definition handle_track_published ::
  "string \<Rightarrow> data_track_info \<Rightarrow> remote_manager \<Rightarrow> remote_manager \<times> remote_output list" where
  "handle_track_published identity info s =
     (let sid = info_sid info in
      if hm_contains (rm_descriptors s) sid then (s, [])
      else
       (let track = length (rm_tracks s);
            d = \<lparr>rd_info = info, rd_publisher_identity = identity, rd_track = track, rd_subscription = SNone\<rparr>
        in (s\<lparr>rm_tracks := rm_tracks s @ [True], rm_descriptors := hm_insert sid d (rm_descriptors s)\<rparr>,
            [TrackPublished info identity track])))"

definition handle_track_unpublished :: "data_track_sid \<Rightarrow> remote_manager \<Rightarrow> remote_manager \<times> remote_output list" where
  "handle_track_unpublished sid s =
     (case hm_get (rm_descriptors s) sid of
        None \<Rightarrow> (s, [])
      | Some d \<Rightarrow>
          (let s = s\<lparr>rm_descriptors := hm_remove sid (rm_descriptors s)\<rparr>;
               s = (case rd_subscription d of
                      SActive h t \<Rightarrow> s\<lparr>rm_sub_handles := hm_remove h (rm_sub_handles s)\<rparr>
                    | _ \<Rightarrow> s)
           in (s\<lparr>rm_tracks := (rm_tracks s)[rd_track d := False]\<rparr>, [TrackUnpublishedOut sid])))"

text \<open>The loops of \<open>on_sfu_publication_updates\<close>.\<close>

fun publish_tracks :: "string \<Rightarrow> data_track_info list \<Rightarrow> remote_manager \<Rightarrow> remote_manager \<times> remote_output list" where
  "publish_tracks identity [] s = (s, [])"
| "publish_tracks identity (info # infos) s =
     (let (s, out) = (if hm_contains (rm_descriptors s) (info_sid info) then (s, [])
                      else handle_track_published identity info s);
          (s, outs) = publish_tracks identity infos s
      in (s, out @ outs))"

fun unpublish_tracks :: "data_track_sid list \<Rightarrow> remote_manager \<Rightarrow> remote_manager \<times> remote_output list" where
  "unpublish_tracks [] s = (s, [])"
| "unpublish_tracks (sid # sids) s =
     (let (s, out) = handle_track_unpublished sid s;
          (s, outs) = unpublish_tracks sids s
      in (s, out @ outs))"

fun detect_published ::
  "(string \<times> data_track_info list) list \<Rightarrow> remote_manager \<Rightarrow> remote_manager \<times> remote_output list" where
  "detect_published [] s = (s, [])"
| "detect_published ((identity, tracks) # updates) s =
     (let (s, out) = publish_tracks identity tracks s;
          (s, outs) = detect_published updates s
      in (s, out @ outs))"

definition unpublished_sids :: "string \<Rightarrow> data_track_sid list \<Rightarrow> remote_manager \<Rightarrow> data_track_sid list" where
  "unpublished_sids identity sids_in_update s =
     map fst (filter (\<lambda>(sid, _). sid \<notin> set sids_in_update)
       (filter (\<lambda>(_, d). rd_publisher_identity d = identity) (rm_descriptors s)))"

fun detect_unpublished ::
  "(string \<times> data_track_sid list) list \<Rightarrow> remote_manager \<Rightarrow> remote_manager \<times> remote_output list" where
  "detect_unpublished [] s = (s, [])"
| "detect_unpublished ((identity, sids) # ps) s =
     (let (s, out) = unpublish_tracks (unpublished_sids identity sids s) s;
          (s, outs) = detect_unpublished ps s
      in (s, out @ outs))"

definition on_sfu_publication_updates ::
  "(string, data_track_info list) hashmap \<Rightarrow> remote_manager \<Rightarrow> remote_manager \<times> remote_output list" where
  "on_sfu_publication_updates updates s =
     (if updates = [] then (s, [])
      else
       (let participant_to_sids = map (\<lambda>(identity, tracks). (identity, map info_sid tracks)) updates;
            (s, out1) = detect_published updates s;
            (s, out2) = detect_unpublished participant_to_sids s
        in (s, out1 @ out2)))"

definition register_subscriber_handle ::
  "handle \<Rightarrow> data_track_sid \<Rightarrow> remote_manager \<Rightarrow> remote_manager \<times> remote_output list" where
  "register_subscriber_handle assigned sid s =
     (case hm_get (rm_descriptors s) sid of
        None \<Rightarrow> (s, [])
      | Some d \<Rightarrow>
          (case rd_subscription d of
             SNone \<Rightarrow> (s, [])
           | SActive h t \<Rightarrow>
               (let s = s\<lparr>rm_sub_handles := hm_remove h (rm_sub_handles s)\<rparr>;
                    s = put_subscription sid d (SActive assigned t) s
                in (s\<lparr>rm_sub_handles := hm_insert assigned sid (rm_sub_handles s)\<rparr>, []))
           | SPending txs n \<Rightarrow>
               (let provider = (if dti_uses_e2ee (rd_info d) then rm_decryption s else None);
                    t = length (rm_tasks s);
                    task = \<lparr>rt_info = rd_info d, rt_track = rd_track d,
                      rt_pipeline = remote_pipeline_new (rd_publisher_identity d) provider,
                      rt_packets = [], rt_subscribers = txs, rt_buffer_size = n, rt_running = True\<rparr>;
                    s = s\<lparr>rm_tasks := rm_tasks s @ [task]\<rparr>;
                    s = put_subscription sid d (SActive assigned t) s
                in (s\<lparr>rm_sub_handles := hm_insert assigned sid (rm_sub_handles s)\<rparr>,
                    map (\<lambda>r. SubscribeResult r (Ok t)) txs))))"

fun on_sfu_subscriber_handles ::
  "(handle \<times> data_track_sid) list \<Rightarrow> remote_manager \<Rightarrow> remote_manager \<times> remote_output list" where
  "on_sfu_subscriber_handles [] s = (s, [])"
| "on_sfu_subscriber_handles ((h, sid) # mapping) s =
     (let (s, out) = register_subscriber_handle h sid s;
          (s, outs) = on_sfu_subscriber_handles mapping s
      in (s, out @ outs))"

definition on_packet_received :: "bytes \<Rightarrow> remote_manager \<Rightarrow> remote_manager" where
  "on_packet_received raw s =
     (case packet_deserialize raw of
        Ok packet \<Rightarrow>
          (case hm_get (rm_sub_handles s) (track_handle (pheader packet)) of
             None \<Rightarrow> s
           | Some sid \<Rightarrow>
               (case hm_get (rm_descriptors s) sid of
                  None \<Rightarrow> s
                | Some d \<Rightarrow>
                    (case rd_subscription d of
                       SActive h t \<Rightarrow>
                         if rt_running (rm_tasks s ! t) \<and> length (rt_packets (rm_tasks s ! t)) < PACKET_BUFFER_COUNT
                         then update_task t (rt_packets_update (\<lambda>ps. ps @ [packet])) s else s
                     | _ \<Rightarrow> s)))
      | _ \<Rightarrow> s)"

definition on_resend_subscription_updates :: "remote_manager \<Rightarrow> remote_output list" where
  "on_resend_subscription_updates s =
     List.map_filter (\<lambda>(sid, d). case rd_subscription d of SNone \<Rightarrow> None | _ \<Rightarrow> Some (SfuUpdateSubscription sid True))
       (rm_descriptors s)"

text \<open>
  \<open>shutdown\<close>: every track is marked unpublished, pending requests are answered.  A running task
  sees the mark and ends, so the wait for it ends, except where it is stuck sending its own unsubscribe
  request to the full input channel; that wait is not modelled.
\<close>

fun remote_shutdown_loop ::
  "(data_track_sid \<times> remote_descriptor) list \<Rightarrow> remote_manager \<Rightarrow> remote_manager \<times> remote_output list" where
  "remote_shutdown_loop [] s = (s, [])"
| "remote_shutdown_loop ((sid, d) # ds) s =
     (let s = s\<lparr>rm_tracks := (rm_tracks s)[rd_track d := False]\<rparr>;
          (s, out) = (case rd_subscription d of
             SNone \<Rightarrow> (s, [])
           | SPending txs n \<Rightarrow> (s, map (\<lambda>r. SubscribeResult r (Err SubscribeDisconnected)) txs)
           | SActive h t \<Rightarrow> (update_task t (rt_running_update (\<lambda>_. False)) s, []));
          (s, outs) = remote_shutdown_loop ds s
      in (s, out @ outs))"

definition remote_shutdown :: "remote_manager \<Rightarrow> remote_manager \<times> remote_output list" where
  "remote_shutdown s = remote_shutdown_loop (rm_descriptors s) (s\<lparr>rm_descriptors := []\<rparr>)"

section \<open>The task of a subscription\<close>

definition task_receive :: "task_id \<Rightarrow> packet \<Rightarrow> remote_manager \<Rightarrow> remote_manager \<times> remote_output list" where
  "task_receive t packet s =
     (let (r, pl) = process_packet (rt_pipeline (rm_tasks s ! t)) packet;
          s = update_task t (rt_pipeline_update (\<lambda>_. pl)) s
      in case r of
           Ok None \<Rightarrow> (s, [])
         | Ok (Some frame) \<Rightarrow>
             if rt_subscribers (rm_tasks s ! t) = [] then (s, [])
             else (s, [FrameDelivered (rt_subscribers (rm_tasks s ! t)) frame])
         | _ \<Rightarrow> (update_task t (rt_running_update (\<lambda>_. False)) s, [RemoteTaskPanicked t]))"

text \<open>One turn of the task's loop.  The \<open>select!\<close> is biased: the branches are tried in their order.\<close>

definition remote_task_step :: "task_id \<Rightarrow> remote_manager \<Rightarrow> remote_manager \<times> remote_output list" where
  "remote_task_step t s =
     (let task = rm_tasks s ! t in
      if \<not> rt_running task then (s, [])
      else if \<not> (rm_tracks s ! rt_track task) then (update_task t (rt_running_update (\<lambda>_. False)) s, [])
      else if rt_subscribers task = []
      then (update_task t (rt_running_update (\<lambda>_. False)) s, [SendUnsubscribeRequest (info_sid (rt_info task))])
      else case rt_packets task of
             [] \<Rightarrow> (s, [])
           | packet # packets \<Rightarrow> task_receive t packet (update_task t (rt_packets_update (\<lambda>_. packets)) s))"

section \<open>All steps\<close>

datatype remote_event =
    RSubscribeRequest data_track_sid subscribe_options sub_request
  | RUnsubscribeRequest data_track_sid
  | RSfuPublicationUpdates "(string, data_track_info list) hashmap"
  | RSfuSubscriberHandles "(handle, data_track_sid) hashmap"
  | RPacketReceived bytes
  | RResendSubscriptionUpdates
  | RTaskStep task_id
  | RSubscriberGone task_id sub_request

fun remote_step :: "remote_manager \<Rightarrow> remote_event \<Rightarrow> remote_manager \<times> remote_output list" where
  "remote_step s (RSubscribeRequest sid opts req) = on_subscribe_request sid opts req s"
| "remote_step s (RUnsubscribeRequest sid) = on_unsubscribe_request sid s"
| "remote_step s (RSfuPublicationUpdates updates) = on_sfu_publication_updates updates s"
| "remote_step s (RSfuSubscriberHandles mapping) = on_sfu_subscriber_handles mapping s"
| "remote_step s (RPacketReceived raw) = (on_packet_received raw s, [])"
| "remote_step s RResendSubscriptionUpdates = (s, on_resend_subscription_updates s)"
| "remote_step s (RTaskStep t) = (if t < length (rm_tasks s) then remote_task_step t s else (s, []))"
| "remote_step s (RSubscriberGone t req) =
     (if t < length (rm_tasks s) then update_task t (rt_subscribers_update (remove1 req)) s else s, [])"

section \<open>The invariant\<close>

definition task_for :: "remote_manager \<Rightarrow> remote_descriptor \<Rightarrow> remote_task \<Rightarrow> bool" where
  "task_for s d k \<longleftrightarrow>
     rt_info k = rd_info d \<and> rp_publisher_identity (rt_pipeline k) = rd_publisher_identity d \<and>
     rp_e2ee_provider (rt_pipeline k) = (if dti_uses_e2ee (rd_info d) then rm_decryption s else None)"

definition rdesc_ok :: "remote_manager \<Rightarrow> data_track_sid \<Rightarrow> remote_descriptor \<Rightarrow> bool" where
  "rdesc_ok s sid d \<longleftrightarrow>
     info_sid (rd_info d) = sid \<and> rd_track d < length (rm_tracks s) \<and>
     (\<forall>h t. rd_subscription d = SActive h t \<longrightarrow> t < length (rm_tasks s) \<and> task_for s d (rm_tasks s ! t))"

text \<open>The index of subscriber handles: an entry leads to a descriptor that is active under that handle.\<close>

definition index_ok :: "remote_manager \<Rightarrow> bool" where
  "index_ok s \<longleftrightarrow>
     (\<forall>h sid. hm_get (rm_sub_handles s) h = Some sid \<longrightarrow>
        (\<exists>d t. hm_get (rm_descriptors s) sid = Some d \<and> rd_subscription d = SActive h t))"

definition tasks_ok :: "remote_manager \<Rightarrow> bool" where
  "tasks_ok s \<longleftrightarrow> (\<forall>k \<in> set (rm_tasks s). length (rt_packets k) \<le> PACKET_BUFFER_COUNT \<and> rt_track k < length (rm_tracks s))"

definition remote_inv :: "remote_manager \<Rightarrow> bool" where
  "remote_inv s \<longleftrightarrow>
     hm_inv (rm_descriptors s) \<and> hm_inv (rm_sub_handles s) \<and> index_ok s \<and> tasks_ok s \<and>
     (\<forall>sid d. hm_get (rm_descriptors s) sid = Some d \<longrightarrow> rdesc_ok s sid d)"

lemma update_task_sel [simp]:
  "rm_descriptors (update_task t f s) = rm_descriptors s"
  "rm_sub_handles (update_task t f s) = rm_sub_handles s"
  "rm_tracks (update_task t f s) = rm_tracks s"
  "rm_decryption (update_task t f s) = rm_decryption s"
  "length (rm_tasks (update_task t f s)) = length (rm_tasks s)"
  by (simp_all add: update_task_def)

lemma update_task_nth:
  "k < length (rm_tasks s) \<Longrightarrow>
    rm_tasks (update_task t f s) ! k = (if k = t then f (rm_tasks s ! k) else rm_tasks s ! k)"
  by (simp add: update_task_def)

lemma put_subscription_sel [simp]:
  "rm_descriptors (put_subscription sid d sub s) = hm_insert sid (d\<lparr>rd_subscription := sub\<rparr>) (rm_descriptors s)"
  "rm_sub_handles (put_subscription sid d sub s) = rm_sub_handles s"
  "rm_tracks (put_subscription sid d sub s) = rm_tracks s"
  "rm_tasks (put_subscription sid d sub s) = rm_tasks s"
  "rm_decryption (put_subscription sid d sub s) = rm_decryption s"
  by (simp_all add: put_subscription_def)

text \<open>A change of a task that keeps what it is for.\<close>

lemma remote_inv_update_task:
  assumes "remote_inv s" and "t < length (rm_tasks s)"
    and "\<And>s d. task_for s d (f (rm_tasks s' ! t)) = task_for s d (rm_tasks s' ! t)"
    and "length (rt_packets (f (rm_tasks s ! t))) \<le> PACKET_BUFFER_COUNT"
    and "rt_track (f (rm_tasks s ! t)) = rt_track (rm_tasks s ! t)" and "s' = s"
  shows "remote_inv (update_task t f s)"
proof -
  have tf: "task_for (update_task t f s) d k = task_for s d k" for d k by (simp add: task_for_def)
  have "rdesc_ok (update_task t f s) sid d" if "rdesc_ok s sid d" for sid d
    using that assms(3,6) by (auto simp: rdesc_ok_def tf update_task_nth)
  moreover have "tasks_ok (update_task t f s)"
    using assms(1,2,4,5) unfolding tasks_ok_def remote_inv_def
    by (auto simp: all_set_conv_all_nth update_task_nth)
  moreover have "index_ok (update_task t f s)" using assms(1) by (simp add: remote_inv_def index_ok_def)
  ultimately show ?thesis using assms(1) by (auto simp: remote_inv_def)
qed

text \<open>A descriptor goes to a state that is not active, and the index forgets its handle.\<close>

lemma index_ok_remove:
  assumes "index_ok s" and "hm_get (rm_descriptors s) sid = Some d"
    and "\<And>h t. rd_subscription d = SActive h t \<Longrightarrow> hm_get m h = None"
    and "\<And>h x. hm_get m h = Some x \<Longrightarrow> hm_get (rm_sub_handles s) h = Some x"
    and "hm_get m h = Some sid'"
  shows "sid' \<noteq> sid \<and> (\<exists>d t. hm_get (rm_descriptors s) sid' = Some d \<and> rd_subscription d = SActive h t)"
proof -
  have "hm_get (rm_sub_handles s) h = Some sid'" using assms(4,5) by simp
  then obtain d' t' where d': "hm_get (rm_descriptors s) sid' = Some d'" "rd_subscription d' = SActive h t'"
    using assms(1) unfolding index_ok_def by blast
  with assms(2,3,5) show ?thesis by fastforce
qed

lemma rdesc_ok_sub:
  "rdesc_ok s sid d \<Longrightarrow> (\<And>h t. sub = SActive h t \<Longrightarrow> t < length (rm_tasks s) \<and> task_for s d (rm_tasks s ! t)) \<Longrightarrow>
    rdesc_ok s sid (d\<lparr>rd_subscription := sub\<rparr>)"
  by (auto simp: rdesc_ok_def task_for_def)

lemma rdesc_ok_maps [simp]:
  "rdesc_ok (s\<lparr>rm_descriptors := m\<rparr>) sid d = rdesc_ok s sid d"
  "rdesc_ok (s\<lparr>rm_sub_handles := n\<rparr>) sid d = rdesc_ok s sid d"
  "rdesc_ok (put_subscription sid' d' sub s) sid d = rdesc_ok s sid d"
  by (simp_all add: rdesc_ok_def task_for_def)

lemma tasks_ok_maps [simp]:
  "tasks_ok (s\<lparr>rm_descriptors := m\<rparr>) = tasks_ok s"
  "tasks_ok (s\<lparr>rm_sub_handles := n\<rparr>) = tasks_ok s"
  "tasks_ok (put_subscription sid' d' sub s) = tasks_ok s"
  by (simp_all add: tasks_ok_def)

lemma subscribe_inv:
  assumes "remote_inv s"
  shows "remote_inv (fst (on_subscribe_request sid opts req s))"
proof (cases "hm_get (rm_descriptors s) sid")
  case None
  then show ?thesis using assms by (simp add: on_subscribe_request_def)
next
  case (Some d)
  then have d: "rdesc_ok s sid d" using assms by (simp add: remote_inv_def)
  have inactive: "remote_inv (put_subscription sid d sub s)"
    if "\<And>h t. rd_subscription d \<noteq> SActive h t" "\<And>h t. sub \<noteq> SActive h t" for sub
  proof -
    have "index_ok (put_subscription sid d sub s)"
      using assms Some that unfolding index_ok_def remote_inv_def
      by (auto split: if_splits) (metis option.inject)+
    moreover have "rdesc_ok s sid (d\<lparr>rd_subscription := sub\<rparr>)" using d that(2) by (intro rdesc_ok_sub) auto
    ultimately show ?thesis using assms by (auto simp: remote_inv_def)
  qed
  show ?thesis
  proof (cases "rd_subscription d")
    case SNone
    then show ?thesis using Some by (simp add: on_subscribe_request_def inactive)
  next
    case (SPending txs n)
    then show ?thesis using Some by (simp add: on_subscribe_request_def inactive)
  next
    case (SActive h t)
    then have t: "t < length (rm_tasks s)" using d by (simp add: rdesc_ok_def)
    then have "remote_inv (update_task t (rt_subscribers_update (\<lambda>rs. rs @ [req])) s)"
      using assms by (intro remote_inv_update_task) (auto simp: task_for_def remote_inv_def tasks_ok_def)
    then show ?thesis using Some SActive by (simp add: on_subscribe_request_def)
  qed
qed

lemma unsubscribe_inv:
  assumes "remote_inv s"
  shows "remote_inv (fst (on_unsubscribe_request sid s))"
proof (cases "hm_get (rm_descriptors s) sid")
  case None
  then show ?thesis using assms by (simp add: on_unsubscribe_request_def)
next
  case (Some d)
  then have d: "rdesc_ok s sid d" using assms by (simp add: remote_inv_def)
  show ?thesis
  proof (cases "rd_subscription d")
    case (SActive h t)
    let ?s = "(put_subscription sid d SNone s)\<lparr>rm_sub_handles := hm_remove h (rm_sub_handles s)\<rparr>"
    have "index_ok ?s"
      unfolding index_ok_def
    proof (intro allI impI)
      fix h' sid' assume "hm_get (rm_sub_handles ?s) h' = Some sid'"
      then have "sid' \<noteq> sid \<and> (\<exists>d t. hm_get (rm_descriptors s) sid' = Some d \<and> rd_subscription d = SActive h' t)"
        using assms SActive
        by (intro index_ok_remove [OF _ Some, of "hm_remove h (rm_sub_handles s)"])
           (auto simp: remote_inv_def split: if_splits)
      then show "\<exists>d t. hm_get (rm_descriptors ?s) sid' = Some d \<and> rd_subscription d = SActive h' t" by simp
    qed
    moreover have "rdesc_ok s sid (d\<lparr>rd_subscription := SNone\<rparr>)" using d by (intro rdesc_ok_sub) auto
    ultimately have "remote_inv ?s" using assms by (auto simp: remote_inv_def)
    then show ?thesis using Some SActive by (simp add: on_unsubscribe_request_def)
  qed (use assms Some in \<open>simp_all add: on_unsubscribe_request_def\<close>)
qed

lemma published_inv: "remote_inv s \<Longrightarrow> remote_inv (fst (handle_track_published identity info s))"
proof -
  assume inv: "remote_inv s"
  let ?sid = "info_sid info"
  let ?d = "\<lparr>rd_info = info, rd_publisher_identity = identity, rd_track = length (rm_tracks s), rd_subscription = SNone\<rparr>"
  let ?s = "s\<lparr>rm_tracks := rm_tracks s @ [True], rm_descriptors := hm_insert ?sid ?d (rm_descriptors s)\<rparr>"
  have "remote_inv ?s" if new: "hm_get (rm_descriptors s) ?sid = None"
  proof -
    have "rdesc_ok ?s ?sid ?d" by (simp add: rdesc_ok_def)
    moreover have "rdesc_ok ?s sid d" if "rdesc_ok s sid d" for sid d
      using that by (auto simp: rdesc_ok_def task_for_def)
    moreover have "index_ok ?s"
      using inv new unfolding index_ok_def remote_inv_def by (auto split: if_splits) (metis option.distinct(1))+
    moreover have "tasks_ok ?s" using inv by (auto simp: remote_inv_def tasks_ok_def)
    ultimately show ?thesis using inv by (auto simp: remote_inv_def)
  qed
  with inv show ?thesis by (auto simp: handle_track_published_def Let_def)
qed

lemma unpublished_inv: "remote_inv s \<Longrightarrow> remote_inv (fst (handle_track_unpublished sid s))"
proof (cases "hm_get (rm_descriptors s) sid")
  case None
  assume "remote_inv s"
  then show ?thesis using None by (simp add: handle_track_unpublished_def)
next
  case (Some d)
  assume inv: "remote_inv s"
  define m where "m = (case rd_subscription d of SActive h t \<Rightarrow> hm_remove h (rm_sub_handles s) | _ \<Rightarrow> rm_sub_handles s)"
  let ?s = "s\<lparr>rm_descriptors := hm_remove sid (rm_descriptors s), rm_sub_handles := m,
      rm_tracks := (rm_tracks s)[rd_track d := False]\<rparr>"
  have s: "fst (handle_track_unpublished sid s) = ?s"
    using Some by (cases "rd_subscription d") (simp_all add: handle_track_unpublished_def m_def Let_def)
  have sub: "hm_get m h = Some x \<Longrightarrow> hm_get (rm_sub_handles s) h = Some x" for h x
    by (auto simp: m_def split: subscription_state.splits if_splits)
  have gone: "rd_subscription d = SActive h t \<Longrightarrow> hm_get m h = None" for h t
    by (simp add: m_def)
  have "index_ok ?s"
    unfolding index_ok_def
  proof (intro allI impI)
    fix h sid' assume "hm_get (rm_sub_handles ?s) h = Some sid'"
    then have "sid' \<noteq> sid \<and> (\<exists>d t. hm_get (rm_descriptors s) sid' = Some d \<and> rd_subscription d = SActive h t)"
      using inv by (intro index_ok_remove [OF _ Some gone sub]) (auto simp: remote_inv_def)
    then show "\<exists>d t. hm_get (rm_descriptors ?s) sid' = Some d \<and> rd_subscription d = SActive h t" by simp
  qed
  moreover have "rdesc_ok ?s k e" if "rdesc_ok s k e" for k e
    using that by (auto simp: rdesc_ok_def task_for_def)
  moreover have "hm_inv m" using inv by (simp add: m_def remote_inv_def split: subscription_state.split)
  moreover have "tasks_ok ?s" using inv by (simp add: remote_inv_def tasks_ok_def)
  ultimately show ?thesis unfolding s using inv by (auto simp: remote_inv_def split: if_splits)
qed

lemma publish_tracks_inv: "remote_inv s \<Longrightarrow> remote_inv (fst (publish_tracks identity infos s))"
  by (induction infos arbitrary: s) (auto simp: Let_def split_beta published_inv)

lemma unpublish_tracks_inv: "remote_inv s \<Longrightarrow> remote_inv (fst (unpublish_tracks sids s))"
  by (induction sids arbitrary: s) (auto simp: Let_def split_beta unpublished_inv)

lemma detect_published_inv: "remote_inv s \<Longrightarrow> remote_inv (fst (detect_published updates s))"
  by (induction updates arbitrary: s) (auto simp: Let_def split_beta publish_tracks_inv)

lemma detect_unpublished_inv: "remote_inv s \<Longrightarrow> remote_inv (fst (detect_unpublished ps s))"
  by (induction ps arbitrary: s) (auto simp: Let_def split_beta unpublish_tracks_inv)

lemma publication_updates_inv: "remote_inv s \<Longrightarrow> remote_inv (fst (on_sfu_publication_updates updates s))"
  by (simp add: on_sfu_publication_updates_def Let_def split_beta detect_published_inv detect_unpublished_inv)

text \<open>A descriptor becomes active under a handle, and the index leads from the handle to it.\<close>

lemma activate_inv:
  assumes "remote_inv s" and "hm_get (rm_descriptors s) sid = Some d" and "hm_inv m"
    and "\<And>h x. hm_get m h = Some x \<Longrightarrow> hm_get (rm_sub_handles s) h = Some x"
    and "\<And>h t. rd_subscription d = SActive h t \<Longrightarrow> hm_get m h = None"
    and "t < length (rm_tasks s)" and "task_for s d (rm_tasks s ! t)"
  shows "remote_inv ((put_subscription sid d (SActive assigned t) (s\<lparr>rm_sub_handles := m\<rparr>))
    \<lparr>rm_sub_handles := hm_insert assigned sid m\<rparr>)" (is "remote_inv ?s")
proof -
  have "index_ok ?s"
    unfolding index_ok_def
  proof (intro allI impI)
    fix h sid' assume h: "hm_get (rm_sub_handles ?s) h = Some sid'"
    show "\<exists>d t. hm_get (rm_descriptors ?s) sid' = Some d \<and> rd_subscription d = SActive h t"
    proof (cases "h = assigned")
      case True
      with h show ?thesis by auto
    next
      case False
      with h have "hm_get m h = Some sid'" by simp
      then have "sid' \<noteq> sid \<and> (\<exists>d t. hm_get (rm_descriptors s) sid' = Some d \<and> rd_subscription d = SActive h t)"
        using assms(1) by (intro index_ok_remove [OF _ assms(2,5,4)]) (auto simp: remote_inv_def)
      then show ?thesis by simp
    qed
  qed
  moreover have "rdesc_ok s sid (d\<lparr>rd_subscription := SActive assigned t\<rparr>)"
    using assms by (intro rdesc_ok_sub) (auto simp: remote_inv_def)
  ultimately show ?thesis using assms by (auto simp: remote_inv_def)
qed

lemma register_inv:
  assumes "remote_inv s"
  shows "remote_inv (fst (register_subscriber_handle assigned sid s))"
proof (cases "hm_get (rm_descriptors s) sid")
  case None
  then show ?thesis using assms by (simp add: register_subscriber_handle_def)
next
  case (Some d)
  then have d: "rdesc_ok s sid d" using assms by (simp add: remote_inv_def)
  show ?thesis
  proof (cases "rd_subscription d")
    case SNone
    then show ?thesis using assms Some by (simp add: register_subscriber_handle_def)
  next
    case (SActive h t)
    have "remote_inv ((put_subscription sid d (SActive assigned t) (s\<lparr>rm_sub_handles := hm_remove h (rm_sub_handles s)\<rparr>))
        \<lparr>rm_sub_handles := hm_insert assigned sid (hm_remove h (rm_sub_handles s))\<rparr>)"
      using d SActive assms by (intro activate_inv [OF assms Some]) (auto simp: remote_inv_def rdesc_ok_def split: if_splits)
    then show ?thesis using Some SActive by (simp add: register_subscriber_handle_def Let_def)
  next
    case (SPending txs n)
    define task where "task = \<lparr>rt_info = rd_info d, rt_track = rd_track d,
        rt_pipeline = remote_pipeline_new (rd_publisher_identity d) (if dti_uses_e2ee (rd_info d) then rm_decryption s else None),
        rt_packets = [], rt_subscribers = txs, rt_buffer_size = n, rt_running = True\<rparr>"
    let ?s = "s\<lparr>rm_tasks := rm_tasks s @ [task]\<rparr>"
    have "rdesc_ok ?s k e" if "rdesc_ok s k e" for k e
      using that by (auto simp: rdesc_ok_def task_for_def nth_append)
    moreover have "rd_track d < length (rm_tracks s)" using d by (simp add: rdesc_ok_def)
    ultimately have inv: "remote_inv ?s"
      using assms by (auto simp: remote_inv_def index_ok_def tasks_ok_def task_def)
    have "task_for ?s d (rm_tasks ?s ! length (rm_tasks s))"
      by (simp add: task_for_def task_def remote_pipeline_new_def)
    then have "remote_inv ((put_subscription sid d (SActive assigned (length (rm_tasks s))) (?s\<lparr>rm_sub_handles := rm_sub_handles s\<rparr>))
        \<lparr>rm_sub_handles := hm_insert assigned sid (rm_sub_handles s)\<rparr>)"
      using Some SPending assms by (intro activate_inv [OF inv]) (auto simp: remote_inv_def)
    then show ?thesis using Some SPending
      by (simp add: register_subscriber_handle_def Let_def task_def)
  qed
qed

lemma subscriber_handles_inv: "remote_inv s \<Longrightarrow> remote_inv (fst (on_sfu_subscriber_handles mapping s))"
  by (induction mapping arbitrary: s) (auto simp: Let_def split_beta register_inv)

text \<open>
  Where a packet goes: to the task of the descriptor that is active under the packet's handle, when the
  index knows the handle, the task runs and its channel has room.
\<close>

lemma packet_route:
  assumes "remote_inv s" and "packet_deserialize raw = Ok packet"
  shows "on_packet_received raw s =
    (case hm_get (rm_sub_handles s) (track_handle (pheader packet)) of
       None \<Rightarrow> s
     | Some sid \<Rightarrow>
         (case rd_subscription (the (hm_get (rm_descriptors s) sid)) of
            SActive h t \<Rightarrow>
              if rt_running (rm_tasks s ! t) \<and> length (rt_packets (rm_tasks s ! t)) < PACKET_BUFFER_COUNT
              then update_task t (rt_packets_update (\<lambda>ps. ps @ [packet])) s else s
          | _ \<Rightarrow> s))"
proof (cases "hm_get (rm_sub_handles s) (track_handle (pheader packet))")
  case None
  then show ?thesis using assms(2) by (simp add: on_packet_received_def)
next
  case (Some sid)
  then obtain d t where "hm_get (rm_descriptors s) sid = Some d" "rd_subscription d = SActive (track_handle (pheader packet)) t"
    using assms(1) by (fastforce simp: remote_inv_def index_ok_def)
  then show ?thesis using Some assms(2) by (simp add: on_packet_received_def)
qed

lemma packet_received_inv:
  assumes "remote_inv s"
  shows "remote_inv (on_packet_received raw s)"
proof (cases "packet_deserialize raw")
  case (Ok packet)
  have push: "remote_inv (update_task t (rt_packets_update (\<lambda>ps. ps @ [packet])) s)"
    if "length (rt_packets (rm_tasks s ! t)) < PACKET_BUFFER_COUNT" "t < length (rm_tasks s)" for t
    using assms that by (intro remote_inv_update_task) (auto simp: task_for_def)
  have "t < length (rm_tasks s)"
    if "hm_get (rm_descriptors s) sid = Some d" "rd_subscription d = SActive h t" for sid d h t
    using assms that by (auto simp: remote_inv_def rdesc_ok_def)
  with push assms show ?thesis
    by (auto simp: on_packet_received_def Ok split: option.splits subscription_state.splits)
qed (use assms in \<open>simp_all add: on_packet_received_def\<close>)

lemma remote_inv_task_field:
  assumes "remote_inv s" and "t < length (rm_tasks s)"
  shows "remote_inv (update_task t (rt_running_update (\<lambda>_. b)) s)"
    and "remote_inv (update_task t (rt_subscribers_update f) s)"
    and "length ps \<le> PACKET_BUFFER_COUNT \<Longrightarrow> remote_inv (update_task t (rt_packets_update (\<lambda>_. ps)) s)"
proof -
  have len: "length (rt_packets (rm_tasks s ! t)) \<le> PACKET_BUFFER_COUNT"
    using assms by (auto simp: remote_inv_def tasks_ok_def)
  show "remote_inv (update_task t (rt_running_update (\<lambda>_. b)) s)"
    "remote_inv (update_task t (rt_subscribers_update f) s)"
    using assms len by (auto intro!: remote_inv_update_task simp: task_for_def)
  show "length ps \<le> PACKET_BUFFER_COUNT \<Longrightarrow> remote_inv (update_task t (rt_packets_update (\<lambda>_. ps)) s)"
    using assms by (auto intro!: remote_inv_update_task simp: task_for_def)
qed

lemma process_packet_keeps:
  "rp_publisher_identity (snd (process_packet rp p)) = rp_publisher_identity rp"
  "rp_e2ee_provider (snd (process_packet rp p)) = rp_e2ee_provider rp"
  by (simp_all add: process_packet_def depacketize_def Let_def split_beta split: option.split)

lemma task_receive_inv:
  assumes "remote_inv s" and "t < length (rm_tasks s)"
  shows "remote_inv (fst (task_receive t packet s))"
proof -
  let ?pl = "snd (process_packet (rt_pipeline (rm_tasks s ! t)) packet)"
  have "length (rt_packets (rm_tasks s ! t)) \<le> PACKET_BUFFER_COUNT"
    using assms by (auto simp: remote_inv_def tasks_ok_def)
  then have "remote_inv (update_task t (rt_pipeline_update (\<lambda>_. ?pl)) s)"
    using assms by (intro remote_inv_update_task) (auto simp: task_for_def process_packet_keeps)
  moreover from this have "remote_inv (update_task t (rt_running_update (\<lambda>_. False)) (update_task t (rt_pipeline_update (\<lambda>_. ?pl)) s))"
    using assms(2) by (intro remote_inv_task_field) simp_all
  ultimately show ?thesis
    by (simp add: task_receive_def Let_def split_beta split: outcome.split option.split)
qed

lemma remote_task_step_inv:
  assumes "remote_inv s" and "t < length (rm_tasks s)"
  shows "remote_inv (fst (remote_task_step t s))"
proof -
  have "remote_inv (update_task t (rt_packets_update (\<lambda>_. ps)) s)" if "rt_packets (rm_tasks s ! t) = p # ps" for p ps
  proof (rule remote_inv_task_field(3) [OF assms])
    have "length (rt_packets (rm_tasks s ! t)) \<le> PACKET_BUFFER_COUNT"
      using assms by (auto simp: remote_inv_def tasks_ok_def)
    then show "length ps \<le> PACKET_BUFFER_COUNT" by (simp add: that)
  qed
  then show ?thesis
    using assms by (auto simp: remote_task_step_def Let_def remote_inv_task_field task_receive_inv split: list.split)
qed

lemma remote_step_inv: "remote_inv s \<Longrightarrow> remote_inv (fst (remote_step s e))"
  by (cases e)
     (simp_all add: subscribe_inv unsubscribe_inv publication_updates_inv subscriber_handles_inv packet_received_inv
       remote_task_step_inv remote_inv_task_field)

interpretation rmm: event_machine remote_step any_event remote_inv
  by unfold_locales (simp add: remote_step_inv)

lemma remote_inv_new: "remote_inv (remote_manager_new provider)"
  by (simp add: remote_inv_def remote_manager_new_def index_ok_def tasks_ok_def)

section \<open>Publication updates, characterised\<close>

lemma handle_track_unpublished_get [simp]:
  "hm_get (rm_descriptors (fst (handle_track_unpublished sid s))) k = (if k = sid then None else hm_get (rm_descriptors s) k)"
  by (simp add: handle_track_unpublished_def Let_def split: option.split subscription_state.split)

lemma unpublish_tracks_get:
  "hm_get (rm_descriptors (fst (unpublish_tracks sids s))) k = (if k \<in> set sids then None else hm_get (rm_descriptors s) k)"
  by (induction sids arbitrary: s) (simp_all add: Let_def split_beta)

lemma in_unpublished_sids:
  "hm_inv (rm_descriptors s) \<Longrightarrow> k \<in> set (unpublished_sids identity sids s) \<longleftrightarrow>
    (\<exists>d. hm_get (rm_descriptors s) k = Some d \<and> rd_publisher_identity d = identity \<and> k \<notin> set sids)"
  by (force simp: unpublished_sids_def hm_in_set [symmetric])

lemma detect_unpublished_get:
  assumes "remote_inv s"
  shows "hm_get (rm_descriptors (fst (detect_unpublished ps s))) k =
    (case hm_get (rm_descriptors s) k of
       None \<Rightarrow> None
     | Some d \<Rightarrow> if \<exists>sids. (rd_publisher_identity d, sids) \<in> set ps \<and> k \<notin> set sids then None else Some d)"
  using assms
proof (induction ps arbitrary: s)
  case Nil
  then show ?case by (simp split: option.split)
next
  case (Cons a ps)
  obtain identity sids where a: "a = (identity, sids)" by fastforce
  let ?s = "fst (unpublish_tracks (unpublished_sids identity sids s) s)"
  have "hm_inv (rm_descriptors s)" using Cons.prems by (simp add: remote_inv_def)
  then have get: "hm_get (rm_descriptors ?s) k =
      (case hm_get (rm_descriptors s) k of None \<Rightarrow> None
       | Some d \<Rightarrow> if rd_publisher_identity d = identity \<and> k \<notin> set sids then None else Some d)"
    by (auto simp: unpublish_tracks_get in_unpublished_sids split: option.split)
  show ?case
    using Cons.IH [OF unpublish_tracks_inv [OF Cons.prems], of "unpublished_sids identity sids s"]
    by (auto simp: a Let_def split_beta get split: option.splits)
qed

lemma handle_track_published_get:
  "hm_get (rm_descriptors s) (info_sid info) = None \<Longrightarrow>
    hm_get (rm_descriptors (fst (handle_track_published identity info s))) k =
      (if k = info_sid info
       then Some \<lparr>rd_info = info, rd_publisher_identity = identity, rd_track = length (rm_tracks s), rd_subscription = SNone\<rparr>
       else hm_get (rm_descriptors s) k)"
  by (simp add: handle_track_published_def Let_def)

text \<open>A descriptor made by the update: unsubscribed, and listed in it.\<close>

definition listed_in :: "(string \<times> data_track_info list) list \<Rightarrow> data_track_sid \<Rightarrow> remote_descriptor \<Rightarrow> bool" where
  "listed_in updates sid d \<longleftrightarrow>
     rd_subscription d = SNone \<and> info_sid (rd_info d) = sid \<and>
     (\<exists>infos. (rd_publisher_identity d, infos) \<in> set updates \<and> rd_info d \<in> set infos)"

lemma handle_track_published_keep:
  "hm_get (rm_descriptors s) k = Some d \<Longrightarrow> hm_get (rm_descriptors (fst (handle_track_published identity info s))) k = Some d"
  by (auto simp: handle_track_published_def Let_def)

lemma publish_tracks_keep:
  "hm_get (rm_descriptors s) k = Some d \<Longrightarrow> hm_get (rm_descriptors (fst (publish_tracks identity infos s))) k = Some d"
  by (induction infos arbitrary: s) (simp_all add: Let_def split_beta handle_track_published_keep)

lemma detect_published_keep:
  "hm_get (rm_descriptors s) k = Some d \<Longrightarrow> hm_get (rm_descriptors (fst (detect_published updates s))) k = Some d"
  by (induction updates arbitrary: s) (auto simp: Let_def split_beta publish_tracks_keep)

lemma publish_tracks_new:
  "hm_get (rm_descriptors s) k = None \<Longrightarrow>
    (case hm_get (rm_descriptors (fst (publish_tracks identity infos s))) k of
       None \<Rightarrow> k \<notin> info_sid ` set infos
     | Some d \<Rightarrow> listed_in [(identity, infos)] k d)"
proof (induction infos arbitrary: s)
  case Nil
  then show ?case by simp
next
  case (Cons info infos)
  let ?s = "if hm_contains (rm_descriptors s) (info_sid info) then s else fst (handle_track_published identity info s)"
  have step: "fst (publish_tracks identity (info # infos) s) = fst (publish_tracks identity infos ?s)"
    by (simp add: Let_def split_beta)
  show ?case
  proof (cases "k = info_sid info")
    case True
    let ?d = "\<lparr>rd_info = info, rd_publisher_identity = identity, rd_track = length (rm_tracks s), rd_subscription = SNone\<rparr>"
    have "hm_get (rm_descriptors ?s) k = Some ?d" using True Cons.prems by (simp add: handle_track_published_get)
    then have "hm_get (rm_descriptors (fst (publish_tracks identity infos ?s))) k = Some ?d" by (rule publish_tracks_keep)
    then show ?thesis unfolding step using True by (simp add: listed_in_def)
  next
    case False
    then have "hm_get (rm_descriptors ?s) k = None" using Cons.prems by (simp add: handle_track_published_get)
    from Cons.IH [OF this] False show ?thesis unfolding step by (auto simp: listed_in_def split: option.splits)
  qed
qed

lemma detect_published_new:
  "hm_get (rm_descriptors s) k = None \<Longrightarrow>
    (case hm_get (rm_descriptors (fst (detect_published updates s))) k of
       None \<Rightarrow> \<forall>(identity, infos) \<in> set updates. k \<notin> info_sid ` set infos
     | Some d \<Rightarrow> listed_in updates k d)"
proof (induction updates arbitrary: s)
  case Nil
  then show ?case by simp
next
  case (Cons a updates)
  obtain identity infos where a: "a = (identity, infos)" by fastforce
  let ?s = "fst (publish_tracks identity infos s)"
  have step: "fst (detect_published (a # updates) s) = fst (detect_published updates ?s)"
    by (simp add: a Let_def split_beta)
  note here = publish_tracks_new [OF Cons.prems, where identity = identity and infos = infos]
  show ?case
  proof (cases "hm_get (rm_descriptors ?s) k")
    case (Some e)
    then have "hm_get (rm_descriptors (fst (detect_published updates ?s))) k = Some e" by (rule detect_published_keep)
    then show ?thesis unfolding step using Some here by (auto simp: listed_in_def a)
  next
    case None
    then show ?thesis unfolding step
      using here Cons.IH [OF None] by (auto simp: a listed_in_def split: option.splits)
  qed
qed

section \<open>Properties\<close>

text \<open>
  C36: The index of subscriber handles never dangles.  Whatever requests, SFU notifications, packets and task turns come
  in whatever order, every indexed handle leads to a descriptor whose subscription is active under that
  handle, every active subscription has a task with the track's information, its publisher's identity and, exactly for an
  encrypted track, the decryption provider, and no task buffers more than 16 packets.
\<close>

theorem remote_manager_invariant:
  "remote_inv (fst (run_events remote_step (remote_manager_new provider) es))"
  by (rule rmm.run_inv [OF remote_inv_new]) simp

text \<open>
  C37: Packets reach only their own track.  If handling received bytes changes a task's buffer, then the bytes
  are a valid packet, the task belongs to a descriptor with an active subscription under exactly the packet's handle,
  and that one packet was appended, within the buffer's limit.
\<close>

theorem packets_reach_their_track:
  assumes "s = fst (run_events remote_step (remote_manager_new provider) es)"
    and "rt_packets (rm_tasks (on_packet_received raw s) ! t) \<noteq> rt_packets (rm_tasks s ! t)"
  shows "\<exists>packet sid d. packet_deserialize raw = Ok packet \<and> hm_get (rm_descriptors s) sid = Some d \<and>
    rd_subscription d = SActive (track_handle (pheader packet)) t \<and> rt_info (rm_tasks s ! t) = rd_info d \<and>
    rt_packets (rm_tasks (on_packet_received raw s) ! t) = rt_packets (rm_tasks s ! t) @ [packet] \<and>
    length (rt_packets (rm_tasks s ! t)) < PACKET_BUFFER_COUNT"
proof -
  have inv: "remote_inv s" unfolding assms(1) by (rule rmm.run_inv [OF remote_inv_new]) simp
  obtain packet where p: "packet_deserialize raw = Ok packet"
    using assms(2) by (cases "packet_deserialize raw") (simp_all add: on_packet_received_def)
  obtain sid where sid: "hm_get (rm_sub_handles s) (track_handle (pheader packet)) = Some sid"
    using assms(2) packet_route [OF inv p] by (auto split: option.splits)
  then obtain d t' where d: "hm_get (rm_descriptors s) sid = Some d"
    "rd_subscription d = SActive (track_handle (pheader packet)) t'"
    using inv by (fastforce simp: remote_inv_def index_ok_def)
  then have t': "t' < length (rm_tasks s)" "task_for s d (rm_tasks s ! t')"
    using inv by (auto simp: remote_inv_def rdesc_ok_def)
  have upd: "on_packet_received raw s = update_task t' (rt_packets_update (\<lambda>ps. ps @ [packet])) s"
    and room: "length (rt_packets (rm_tasks s ! t')) < PACKET_BUFFER_COUNT"
    using assms(2) packet_route [OF inv p] sid d by (auto split: if_splits)
  have "t = t'" using assms(2) by (rule contrapos_np) (simp add: upd update_task_def)
  then show ?thesis using p d t' room by (auto simp: upd update_task_nth task_for_def)
qed

definition sample_track :: data_track_info where
  "sample_track = \<lparr>dti_sid = DataTrackSid ''DTR_a'', dti_pub_handle = Handle 1, dti_name = ''t'', dti_uses_e2ee = False\<rparr>"

definition sample_packet :: packet where
  "sample_packet = \<lparr>pheader = \<lparr>marker = Single, track_handle = Handle 9, sequence = 0, frame_number = 0, ts_ticks = 0,
     exts = extensions_default\<rparr>, payload = [4, 2]\<rparr>"

lemma sample_packet_wire: "packet_deserialize (packet_wire sample_packet) = Ok sample_packet"
  by (rule wire.decode_encode)
     (simp add: sample_packet_def wf_packet_def wf_header_def packet_serialized_len_def header_serialized_len_cases
       extensions_default_def USIZE_MAX_def wf_extensions_def)

definition sample_subscription :: "remote_event list" where
  "sample_subscription =
     [RSfuPublicationUpdates [(''bob'', [sample_track])],
      RSubscribeRequest (DataTrackSid ''DTR_a'') subscribe_options_new 0,
      RSfuSubscriberHandles [(Handle 9, DataTrackSid ''DTR_a'')]]"

lemmas remote_step_defs =
  on_subscribe_request_def on_unsubscribe_request_def handle_track_published_def handle_track_unpublished_def
  on_sfu_publication_updates_def unpublished_sids_def register_subscriber_handle_def put_subscription_def
  update_task_def Let_def

lemma sample_subscription_state:
  "fst (run_events remote_step (remote_manager_new None) sample_subscription) =
    \<lparr>rm_decryption = None,
     rm_descriptors = [(DataTrackSid ''DTR_a'',
       \<lparr>rd_info = sample_track, rd_publisher_identity = ''bob'', rd_track = 0, rd_subscription = SActive (Handle 9) 0\<rparr>)],
     rm_sub_handles = [(Handle 9, DataTrackSid ''DTR_a'')], rm_tracks = [True],
     rm_tasks = [\<lparr>rt_info = sample_track, rt_track = 0, rt_pipeline = remote_pipeline_new ''bob'' None, rt_packets = [],
       rt_subscribers = [0], rt_buffer_size = 16, rt_running = True\<rparr>]\<rparr>"
  by (simp add: sample_subscription_def remote_step_defs remote_manager_new_def info_sid_def sample_track_def
      subscribe_options_new_def hm_insert_def)

theorem packets_reach_their_track_witness:
  "let s = fst (run_events remote_step (remote_manager_new None) sample_subscription)
   in \<exists>packet sid d. packet_deserialize (packet_wire sample_packet) = Ok packet \<and>
        hm_get (rm_descriptors s) sid = Some d \<and> rd_subscription d = SActive (track_handle (pheader packet)) 0"
proof -
  let ?s = "fst (run_events remote_step (remote_manager_new None) sample_subscription)"
  have "rt_packets (rm_tasks (on_packet_received (packet_wire sample_packet) ?s) ! 0) \<noteq> rt_packets (rm_tasks ?s ! 0)"
    unfolding sample_subscription_state
    by (simp add: on_packet_received_def sample_packet_wire update_task_def PACKET_BUFFER_COUNT_def)
       (simp add: sample_packet_def)
  from packets_reach_their_track [OF refl this] show ?thesis unfolding Let_def by blast
qed

text \<open>
  A subscription from the first request to the first frame.  On a published track without subscription, the first
  request alone is signalled to the SFU, a second one joins it, the assigned handle answers both with the same
  stream, and the frame of the first packet with that handle is delivered to both subscribers, once.
\<close>

theorem subscription_lifecycle:
  assumes "remote_inv s" and "hm_get (rm_descriptors s) sid = Some d" and "rd_subscription d = SNone"
    and "rm_tracks s ! rd_track d"
    and "packet_deserialize raw = Ok packet" and "track_handle (pheader packet) = h"
    and "process_packet (remote_pipeline_new (rd_publisher_identity d)
           (if dti_uses_e2ee (rd_info d) then rm_decryption s else None)) packet = (Ok (Some frame), rp)"
  shows "snd (run_events remote_step s
      [RSubscribeRequest sid o1 r1, RSubscribeRequest sid o2 r2, RSfuSubscriberHandles [(h, sid)],
       RPacketReceived raw, RTaskStep (length (rm_tasks s))]) =
    [SfuUpdateSubscription sid True, SubscribeResult r1 (Ok (length (rm_tasks s))),
     SubscribeResult r2 (Ok (length (rm_tasks s))), FrameDelivered [r1, r2] frame]"
proof -
  let ?t = "length (rm_tasks s)"
  let ?d1 = "d\<lparr>rd_subscription := SPending [r1] (so_buffer_size o1)\<rparr>"
  let ?s1 = "put_subscription sid d (SPending [r1] (so_buffer_size o1)) s"
  have e1: "remote_step s (RSubscribeRequest sid o1 r1) = (?s1, [SfuUpdateSubscription sid True])"
    using assms(2,3) by (simp add: on_subscribe_request_def)
  let ?s2 = "put_subscription sid ?d1 (SPending [r1, r2] (so_buffer_size o1)) ?s1"
  have e2: "remote_step ?s1 (RSubscribeRequest sid o2 r2) = (?s2, [])"
    by (simp add: on_subscribe_request_def)
  define task where "task = \<lparr>rt_info = rd_info d, rt_track = rd_track d,
      rt_pipeline = remote_pipeline_new (rd_publisher_identity d) (if dti_uses_e2ee (rd_info d) then rm_decryption s else None),
      rt_packets = [], rt_subscribers = [r1, r2], rt_buffer_size = so_buffer_size o1, rt_running = True\<rparr>"
  define s3 where "s3 = fst (remote_step ?s2 (RSfuSubscriberHandles [(h, sid)]))"
  have e3: "remote_step ?s2 (RSfuSubscriberHandles [(h, sid)]) = (s3, [SubscribeResult r1 (Ok ?t), SubscribeResult r2 (Ok ?t)])"
    by (simp add: s3_def register_subscriber_handle_def Let_def)
  have s3: "hm_get (rm_sub_handles s3) h = Some sid"
      "hm_get (rm_descriptors s3) sid = Some (d\<lparr>rd_subscription := SActive h ?t\<rparr>)"
      "rm_tasks s3 = rm_tasks s @ [task]" "rm_tracks s3 = rm_tracks s"
    by (simp_all add: s3_def register_subscriber_handle_def Let_def task_def)
  let ?s4 = "update_task ?t (rt_packets_update (\<lambda>ps. ps @ [packet])) s3"
  have e4: "remote_step s3 (RPacketReceived raw) = (?s4, [])"
    using assms(5,6) s3 by (simp add: on_packet_received_def task_def PACKET_BUFFER_COUNT_def)
  have e5: "snd (remote_step ?s4 (RTaskStep ?t)) = [FrameDelivered [r1, r2] frame]"
    using s3 assms(4,7)
    by (simp add: remote_task_step_def update_task_nth task_def Let_def task_receive_def)
  show ?thesis by (simp only: run_events.simps e1 e2 e3 e4 Let_def prod.case)
      (simp add: split_beta e5 del: remote_step.simps)
qed

theorem subscription_lifecycle_witness:
  "let s = fst (run_events remote_step (remote_manager_new None) [RSfuPublicationUpdates [(''bob'', [sample_track])]])
   in snd (run_events remote_step s
        [RSubscribeRequest (DataTrackSid ''DTR_a'') subscribe_options_new 0,
         RSubscribeRequest (DataTrackSid ''DTR_a'') subscribe_options_new 1,
         RSfuSubscriberHandles [(Handle 9, DataTrackSid ''DTR_a'')],
         RPacketReceived (packet_wire sample_packet), RTaskStep 0]) =
      [SfuUpdateSubscription (DataTrackSid ''DTR_a'') True, SubscribeResult 0 (Ok 0), SubscribeResult 1 (Ok 0),
       FrameDelivered [0, 1] \<lparr>dtf_payload = [4, 2], dtf_user_timestamp = None\<rparr>]"
proof -
  let ?s = "fst (run_events remote_step (remote_manager_new None) [RSfuPublicationUpdates [(''bob'', [sample_track])]])"
  let ?d = "\<lparr>rd_info = sample_track, rd_publisher_identity = ''bob'', rd_track = 0, rd_subscription = SNone\<rparr>"
  have s: "?s = \<lparr>rm_decryption = None, rm_descriptors = [(DataTrackSid ''DTR_a'', ?d)],
      rm_sub_handles = [], rm_tracks = [True], rm_tasks = []\<rparr>"
    by (simp add: remote_step_defs remote_manager_new_def info_sid_def sample_track_def hm_insert_def)
  have inv: "remote_inv ?s" by (rule rmm.run_inv [OF remote_inv_new]) simp
  obtain rp where r: "process_packet (remote_pipeline_new ''bob'' None) sample_packet =
      (Ok (Some \<lparr>dtf_payload = [4, 2], dtf_user_timestamp = None\<rparr>), rp)"
    by (simp add: process_packet_def depacketize_def remote_pipeline_new_def sample_packet_def push_single
        decrypt_if_needed_def data_track_frame_from_def extensions_default_def)
  have "length (rm_tasks ?s) = 0" by (simp only: s) simp
  moreover have "snd (run_events remote_step ?s
      [RSubscribeRequest (DataTrackSid ''DTR_a'') subscribe_options_new 0,
       RSubscribeRequest (DataTrackSid ''DTR_a'') subscribe_options_new 1,
       RSfuSubscriberHandles [(Handle 9, DataTrackSid ''DTR_a'')],
       RPacketReceived (packet_wire sample_packet), RTaskStep (length (rm_tasks ?s))]) =
    [SfuUpdateSubscription (DataTrackSid ''DTR_a'') True, SubscribeResult 0 (Ok (length (rm_tasks ?s))),
     SubscribeResult 1 (Ok (length (rm_tasks ?s))), FrameDelivered [0, 1] \<lparr>dtf_payload = [4, 2], dtf_user_timestamp = None\<rparr>]"
  proof (rule subscription_lifecycle [OF inv _ _ _ sample_packet_wire])
    show "hm_get (rm_descriptors ?s) (DataTrackSid ''DTR_a'') = Some ?d" by (simp only: s) simp
    show "process_packet (remote_pipeline_new (rd_publisher_identity ?d)
        (if dti_uses_e2ee (rd_info ?d) then rm_decryption ?s else None)) sample_packet =
      (Ok (Some \<lparr>dtf_payload = [4, 2], dtf_user_timestamp = None\<rparr>), rp)"
      by (simp only: s) (simp add: r sample_track_def)
    show "rm_tracks ?s ! rd_track ?d" by (simp only: s) simp
  qed (simp_all add: sample_packet_def)
  ultimately show ?thesis by (simp only: Let_def)
qed

text \<open>
  What a publication update changes.  A known track stays, with its subscription, unless its publisher is in the
  update without it, and then it is gone; an unknown track appears exactly when the update lists it, unsubscribed
  and under a publisher that lists it; tracks of publishers the update does not mention are never touched.
\<close>

theorem publication_updates_effect:
  assumes "remote_inv s" and "hm_inv updates" and "updates \<noteq> []"
  defines "s' \<equiv> fst (on_sfu_publication_updates updates s)"
  shows "case hm_get (rm_descriptors s) sid of
      Some d \<Rightarrow> hm_get (rm_descriptors s') sid =
        (case hm_get updates (rd_publisher_identity d) of
           Some infos \<Rightarrow> if sid \<in> info_sid ` set infos then Some d else None
         | None \<Rightarrow> Some d)
    | None \<Rightarrow>
        (case hm_get (rm_descriptors s') sid of
           Some d \<Rightarrow> listed_in updates sid d
         | None \<Rightarrow> \<forall>(identity, infos) \<in> set updates. sid \<notin> info_sid ` set infos)"
proof -
  let ?ps = "map (\<lambda>(identity, tracks). (identity, map info_sid tracks)) updates"
  let ?s1 = "fst (detect_published updates s)"
  have s': "s' = fst (detect_unpublished ?ps ?s1)"
    using assms(3) by (simp add: s'_def on_sfu_publication_updates_def Let_def split_beta)
  have drop: "(\<exists>sids. (identity, sids) \<in> set ?ps \<and> sid \<notin> set sids) \<longleftrightarrow>
      (\<exists>infos. hm_get updates identity = Some infos \<and> sid \<notin> info_sid ` set infos)" for identity
    using hm_in_set [OF assms(2), of identity] by force
  note get = detect_unpublished_get [OF detect_published_inv [OF assms(1)], of ?ps updates sid, folded s', unfolded drop]
  show ?thesis
  proof (cases "hm_get (rm_descriptors s) sid")
    case (Some d)
    then have "hm_get (rm_descriptors ?s1) sid = Some d" by (rule detect_published_keep)
    then show ?thesis using Some by (auto simp: get split: option.splits)
  next
    case None
    note new = detect_published_new [OF None, of updates]
    show ?thesis
    proof (cases "hm_get (rm_descriptors ?s1) sid")
      case (Some d)
      then have listed: "listed_in updates sid d" using new by simp
      then obtain infos where "hm_get updates (rd_publisher_identity d) = Some infos" "sid \<in> info_sid ` set infos"
        using hm_in_set [OF assms(2)] by (auto simp: listed_in_def)
      then have "hm_get (rm_descriptors s') sid = Some d" by (simp add: get Some)
      then show ?thesis using None listed by simp
    next
      case none: None
      then show ?thesis using None new by (simp add: get)
    qed
  qed
qed

theorem publication_updates_effect_witness:
  "let s = fst (run_events remote_step (remote_manager_new None) sample_subscription)
   in hm_get (rm_descriptors (fst (on_sfu_publication_updates [(''bob'', [])] s))) (DataTrackSid ''DTR_a'') = None"
proof -
  let ?s = "fst (run_events remote_step (remote_manager_new None) sample_subscription)"
  have "remote_inv ?s" by (rule rmm.run_inv [OF remote_inv_new]) simp
  from publication_updates_effect [OF this hm_inv_single, of "''bob''" "[]" "DataTrackSid ''DTR_a''"]
  have "hm_get (rm_descriptors (fst (on_sfu_publication_updates [(''bob'', [])] ?s))) (DataTrackSid ''DTR_a'') = None"
    by (simp only: sample_subscription_state) simp
  then show ?thesis by (simp only: Let_def)
qed

section \<open>What the handlers miss\<close>

text \<open>
  The SFU assigns new handles after a reconnect.  If it gives two tracks each other's old handle, the second
  assignment removes the entry that the first has just made: the first track stays active without a route.
\<close>

lemma swapped_handles_lose_a_route:
  assumes "hm_get (rm_descriptors s) a = Some da" and "rd_subscription da = SActive h1 t1"
    and "hm_get (rm_descriptors s) b = Some db" and "rd_subscription db = SActive h2 t2" and "a \<noteq> b" and "h1 \<noteq> h2"
  shows "hm_get (rm_sub_handles (fst (on_sfu_subscriber_handles [(h1, b), (h2, a)] s))) h1 = None"
    and "hm_get (rm_descriptors (fst (on_sfu_subscriber_handles [(h1, b), (h2, a)] s))) b =
      Some (db\<lparr>rd_subscription := SActive h1 t2\<rparr>)"
  using assms by (simp_all add: register_subscriber_handle_def Let_def)

text \<open>
  The task of a track without subscribers has asked to unsubscribe; a subscriber that comes before that request
  is handled is accepted, and the subscription is then taken down under it.
\<close>

lemma late_subscriber_is_cut_off:
  assumes "hm_get (rm_descriptors s) sid = Some d" and "rd_subscription d = SActive h t"
  shows "snd (run_events remote_step s [RSubscribeRequest sid opts req, RUnsubscribeRequest sid]) =
      [SubscribeResult req (Ok t), SfuUpdateSubscription sid False]"
    and "hm_get (rm_descriptors (fst (run_events remote_step s [RSubscribeRequest sid opts req, RUnsubscribeRequest sid]))) sid =
      Some (d\<lparr>rd_subscription := SNone\<rparr>)"
  using assms by (simp_all add: on_subscribe_request_def on_unsubscribe_request_def Let_def)

end
