(* ===== verification/DtProto.thy ===== *)
theory DtProto
  imports DtLocal DtRemote
begin

text \<open>
  The conversions between the managers' events and the protocol messages
  (\<open>livekit-datatrack/src/local/proto.rs\<close> and \<open>remote/proto.rs\<close>).  The message types are those of
  \<open>livekit-protocol/src/livekit.rs\<close>, with the fields the conversions use.
\<close>

section \<open>Messages\<close>

datatype encryption_type = EncNone | EncGcm | EncCustom

text \<open>The generated accessor of an enumeration field: an unknown number reads as the default.\<close>

definition encryption_of_i32 :: "i32 \<Rightarrow> encryption_type" where
  "encryption_of_i32 n = (if n = 1 then EncGcm else if n = 2 then EncCustom else EncNone)"

fun i32_of_encryption :: "encryption_type \<Rightarrow> i32" where
  "i32_of_encryption EncNone = 0"
| "i32_of_encryption EncGcm = 1"
| "i32_of_encryption EncCustom = 2"

record proto_track_info =
  pti_pub_handle :: u32
  pti_sid :: string
  pti_name :: string
  pti_encryption :: i32

record proto_publish_request =
  ppr_pub_handle :: u32
  ppr_name :: string
  ppr_encryption :: i32

datatype response_reason =
    ReasonOk | ReasonNotFound | ReasonNotAllowed | ReasonLimitExceeded | ReasonQueued | ReasonUnsupportedType
  | ReasonUnclassified | ReasonInvalidHandle | ReasonInvalidName | ReasonDuplicateHandle | ReasonDuplicateName

definition reason_of_i32 :: "i32 \<Rightarrow> response_reason" where
  "reason_of_i32 n =
     (if n = 1 then ReasonNotFound else if n = 2 then ReasonNotAllowed else if n = 3 then ReasonLimitExceeded
      else if n = 4 then ReasonQueued else if n = 5 then ReasonUnsupportedType else if n = 6 then ReasonUnclassified
      else if n = 7 then ReasonInvalidHandle else if n = 8 then ReasonInvalidName
      else if n = 9 then ReasonDuplicateHandle else if n = 10 then ReasonDuplicateName else ReasonOk)"

text \<open>Of the requests a response may echo, only the publication of a data track matters here.\<close>

datatype echoed_request = EchoPublishDataTrack proto_publish_request | EchoOther

record proto_request_response =
  prr_reason :: i32
  prr_message :: string
  prr_request :: "echoed_request option"

record proto_participant_info =
  ppi_identity :: string
  ppi_data_tracks :: "proto_track_info list"

datatype internal_error = MissingInfo | BadHandle handle_error | BadSid | UnsupportedE2ee encryption_type

section \<open>Local side\<close>

definition publish_request_to_proto :: "handle \<Rightarrow> string \<Rightarrow> bool \<Rightarrow> proto_publish_request" where
  "publish_request_to_proto h name uses_e2ee =
     \<lparr>ppr_pub_handle = u32_from_handle h, ppr_name = name,
      ppr_encryption = i32_of_encryption (if uses_e2ee then EncGcm else EncNone)\<rparr>"

definition unpublish_request_to_proto :: "handle \<Rightarrow> u32" where
  "unpublish_request_to_proto h = u32_from_handle h"

definition handle_of_u32 :: "u32 \<Rightarrow> (internal_error, handle) outcome" where
  "handle_of_u32 n = (case handle_try_from_u32 n of Ok h \<Rightarrow> Ok h | Err e \<Rightarrow> Err (BadHandle e) | Panic \<Rightarrow> Panic)"

definition sid_of_string :: "string \<Rightarrow> (internal_error, data_track_sid) outcome" where
  "sid_of_string raw = (case sid_try_from raw of Ok x \<Rightarrow> Ok x | Err _ \<Rightarrow> Err BadSid | Panic \<Rightarrow> Panic)"

definition track_info_try_from :: "proto_track_info \<Rightarrow> (internal_error, data_track_info) outcome" where
  "track_info_try_from msg =
     and_then (handle_of_u32 (pti_pub_handle msg)) (\<lambda>h.
     and_then (case encryption_of_i32 (pti_encryption msg) of
         EncNone \<Rightarrow> Ok False | EncGcm \<Rightarrow> Ok True | other \<Rightarrow> Err (UnsupportedE2ee other)) (\<lambda>uses_e2ee.
     and_then (sid_of_string (pti_sid msg)) (\<lambda>sid.
     Ok \<lparr>dti_sid = sid, dti_pub_handle = h, dti_name = pti_name msg, dti_uses_e2ee = uses_e2ee\<rparr>)))"

definition publish_response_try_from ::
  "proto_track_info option \<Rightarrow> (internal_error, handle \<times> (publish_error, data_track_info) outcome) outcome" where
  "publish_response_try_from msg_info =
     (case msg_info of
        None \<Rightarrow> Err MissingInfo
      | Some i \<Rightarrow> and_then (track_info_try_from i) (\<lambda>info. Ok (dti_pub_handle info, Ok info)))"

definition unpublish_response_try_from :: "proto_track_info option \<Rightarrow> (internal_error, handle) outcome" where
  "unpublish_response_try_from msg_info =
     (case msg_info of None \<Rightarrow> Err MissingInfo | Some i \<Rightarrow> handle_of_u32 (pti_pub_handle i))"

definition publish_result_from_request_response ::
  "proto_request_response \<Rightarrow> (handle \<times> (publish_error, data_track_info) outcome) option" where
  "publish_result_from_request_response msg =
     (case prr_request msg of
        None \<Rightarrow> None
      | Some EchoOther \<Rightarrow> None
      | Some (EchoPublishDataTrack request) \<Rightarrow>
          (case handle_try_from_u32 (ppr_pub_handle request) of
             Ok h \<Rightarrow>
               (let e = (case reason_of_i32 (prr_reason msg) of
                      ReasonNotAllowed \<Rightarrow> NotAllowed
                    | ReasonDuplicateName \<Rightarrow> DuplicateName
                    | ReasonInvalidName \<Rightarrow> InvalidName
                    | _ \<Rightarrow> PublishInternal (''SFU rejected: '' @ prr_message msg))
                in Some (h, Err e))
           | _ \<Rightarrow> None))"

definition track_info_to_proto :: "data_track_info \<Rightarrow> proto_track_info" where
  "track_info_to_proto info =
     (let encryption = (if dti_uses_e2ee info then EncGcm else EncNone)
      in \<lparr>pti_pub_handle = u32_from_handle (dti_pub_handle info), pti_sid = string_from_sid (info_sid info),
          pti_name = dti_name info, pti_encryption = i32_of_encryption encryption\<rparr>)"

definition publish_responses_for_sync_state :: "data_track_info list \<Rightarrow> proto_track_info list" where
  "publish_responses_for_sync_state tracks = map track_info_to_proto tracks"

section \<open>Remote side\<close>

text \<open>Collecting a sequence of results into a map: the first error wins, a later key replaces an earlier one.\<close>

fun collect_map :: "('k \<times> ('e, 'v) outcome) list \<Rightarrow> ('k, 'v) hashmap \<Rightarrow> ('e, ('k, 'v) hashmap) outcome" where
  "collect_map [] m = Ok m"
| "collect_map ((k, r) # rs) m = and_then r (\<lambda>v. collect_map rs (hm_insert k v m))"

fun collect_list :: "('e, 'v) outcome list \<Rightarrow> ('e, 'v list) outcome" where
  "collect_list [] = Ok []"
| "collect_list (r # rs) = and_then r (\<lambda>v. and_then (collect_list rs) (\<lambda>vs. Ok (v # vs)))"

fun subscriber_handles_try_from ::
  "(u32 \<times> string) list \<Rightarrow> (handle, data_track_sid) hashmap \<Rightarrow> (internal_error, (handle, data_track_sid) hashmap) outcome" where
  "subscriber_handles_try_from [] m = Ok m"
| "subscriber_handles_try_from ((n, raw_sid) # rest) m =
     and_then (handle_of_u32 n) (\<lambda>h. and_then (sid_of_string raw_sid) (\<lambda>sid.
       subscriber_handles_try_from rest (hm_insert h sid m)))"

definition extract_track_info :: "proto_participant_info \<Rightarrow> (internal_error, data_track_info list) outcome" where
  "extract_track_info msg = collect_list (map track_info_try_from (ppi_data_tracks msg))"

definition event_from_participant_info ::
  "proto_participant_info list \<Rightarrow> string option \<Rightarrow> (internal_error, (string, data_track_info list) hashmap) outcome" where
  "event_from_participant_info msg local_identity =
     collect_map (map (\<lambda>p. (ppi_identity p, extract_track_info p))
       (filter (\<lambda>p. case local_identity of None \<Rightarrow> True | Some identity \<Rightarrow> ppi_identity p \<noteq> identity) msg)) []"

definition event_from_join :: "proto_participant_info list \<Rightarrow> (internal_error, (string, data_track_info list) hashmap) outcome" where
  "event_from_join others = event_from_participant_info others None"

definition event_from_participant_update ::
  "proto_participant_info list \<Rightarrow> string \<Rightarrow> (internal_error, (string, data_track_info list) hashmap) outcome" where
  "event_from_participant_update participants identity = event_from_participant_info participants (Some identity)"

definition update_subscription_to_proto :: "data_track_sid \<Rightarrow> bool \<Rightarrow> (string \<times> bool) list" where
  "update_subscription_to_proto sid subscribe = [(string_from_sid sid, subscribe)]"

section \<open>Lemmas\<close>

lemma handle_of_u32_roundtrip: "wf_handle h \<Longrightarrow> handle_of_u32 (u32_from_handle h) = Ok h"
proof (cases h)
  case (Handle v)
  assume wf: "wf_handle h"
  have small: "unat v < 65536" using unsigned_less [of v, where ?'a = nat] by simp
  then have "unat (ucast v :: u32) = unat v" by (simp add: unsigned_ucast_eq take_bit_nat_eq_self)
  moreover have "ucast (ucast v :: u32) = v" by (rule bit_word_eqI) (simp add: bit_simps)
  ultimately show ?thesis
    using wf Handle small by (simp add: handle_of_u32_def handle_try_from_u32_def u32_from_handle_def handle_try_from_u16_def)
qed

lemma handle_of_u32_Ok: "handle_of_u32 n = Ok h \<Longrightarrow> wf_handle h"
  by (auto simp: handle_of_u32_def handle_try_from_u32_def handle_try_from_u16_def split: outcome.splits if_splits)

lemma track_info_try_from_Ok: "track_info_try_from msg = Ok info \<Longrightarrow> wf_handle (dti_pub_handle info)"
  by (auto simp: track_info_try_from_def rust_simps dest: handle_of_u32_Ok)

definition wf_info :: "data_track_info \<Rightarrow> bool" where
  "wf_info info \<longleftrightarrow> wf_handle (dti_pub_handle info) \<and> sid_try_from (string_from_sid (dti_sid info)) = Ok (dti_sid info)"

lemma encryption_roundtrip [simp]: "encryption_of_i32 (i32_of_encryption e) = e"
  by (cases e) (simp_all add: encryption_of_i32_def)

interpretation track_info: codec wf_info track_info_to_proto track_info_try_from
proof unfold_locales
  fix info assume wf: "wf_info info"
  have "sid_of_string (string_from_sid (dti_sid info)) = Ok (dti_sid info)"
    using wf by (simp add: wf_info_def sid_of_string_def)
  then show "track_info_try_from (track_info_to_proto info) = Ok info"
    using wf by (simp add: wf_info_def track_info_try_from_def track_info_to_proto_def Let_def handle_of_u32_roundtrip info_sid_def)
qed

section \<open>Properties\<close>

text \<open>
  C40: The manager's assumptions hold of what the protocol delivers.  Every publish response and every
  rejection that the conversions produce is an event the local manager's safety theorem admits: the
  handle is the one in the track's information and not zero, and a rejection is never the manager's own error.
\<close>

theorem publish_responses_admissible:
  assumes "publish_response_try_from m = Ok (h, r) \<or> publish_result_from_request_response q = Some (h, r)"
  shows "local_event_ok (LSfuPublishResponse h r now rnd)"
  using assms
proof
  assume "publish_response_try_from m = Ok (h, r)"
  then show ?thesis
    by (auto simp: publish_response_try_from_def rust_simps dest: track_info_try_from_Ok split: option.splits)
next
  assume "publish_result_from_request_response q = Some (h, r)"
  then show ?thesis
    by (auto simp: publish_result_from_request_response_def already_exists_def Let_def
        split: option.splits echoed_request.splits outcome.splits response_reason.splits)
qed

theorem publish_responses_admissible_witness:
  "local_event_ok (LSfuPublishResponse (Handle 7)
     (Ok \<lparr>dti_sid = DataTrackSid ''DTR_1'', dti_pub_handle = Handle 7, dti_name = ''n'', dti_uses_e2ee = True\<rparr>) 0 0)"
proof (rule publish_responses_admissible [where q = "\<lparr>prr_reason = 0, prr_message = [], prr_request = None\<rparr>"
      and m = "Some \<lparr>pti_pub_handle = 7, pti_sid = ''DTR_1'', pti_name = ''n'', pti_encryption = 1\<rparr>"])
  have "handle_of_u32 7 = Ok (Handle 7)" using handle_of_u32_roundtrip [of "Handle 7"] by (simp add: u32_from_handle_def)
  then show "publish_response_try_from (Some \<lparr>pti_pub_handle = 7, pti_sid = ''DTR_1'', pti_name = ''n'', pti_encryption = 1\<rparr>) =
      Ok (Handle 7, Ok \<lparr>dti_sid = DataTrackSid ''DTR_1'', dti_pub_handle = Handle 7, dti_name = ''n'', dti_uses_e2ee = True\<rparr>) \<or>
    publish_result_from_request_response \<lparr>prr_reason = 0, prr_message = [], prr_request = None\<rparr> =
      Some (Handle 7, Ok \<lparr>dti_sid = DataTrackSid ''DTR_1'', dti_pub_handle = Handle 7, dti_name = ''n'', dti_uses_e2ee = True\<rparr>)"
    by (simp add: publish_response_try_from_def track_info_try_from_def encryption_of_i32_def sid_of_string_def
        sid_try_from_def SID_PREFIX_def)
qed

text \<open>
  Sync state survives the wire.  The responses formed from the published tracks' information after a reconnect
  decode, on the conversions of this library, to the same list of track information.
\<close>

theorem sync_state_roundtrip:
  assumes "list_all wf_info infos"
  shows "decode_all track_info_try_from (publish_responses_for_sync_state infos) = Ok infos"
  unfolding publish_responses_for_sync_state_def by (rule track_info.decode_all_encode [OF assms])

theorem sync_state_roundtrip_witness:
  "decode_all track_info_try_from (publish_responses_for_sync_state [sample_info, sample_info]) = Ok [sample_info, sample_info]"
  by (rule sync_state_roundtrip) (simp add: wf_info_def sample_info_def sid_try_from_def SID_PREFIX_def)

text \<open>An encryption type that this version does not know passes for no encryption; only the known custom type is refused.\<close>

lemma unknown_encryption_is_none:
  "track_info_try_from \<lparr>pti_pub_handle = 7, pti_sid = ''DTR_1'', pti_name = ''n'', pti_encryption = 3\<rparr> =
    Ok \<lparr>dti_sid = DataTrackSid ''DTR_1'', dti_pub_handle = Handle 7, dti_name = ''n'', dti_uses_e2ee = False\<rparr>"
proof -
  have "handle_of_u32 7 = Ok (Handle 7)" using handle_of_u32_roundtrip [of "Handle 7"] by (simp add: u32_from_handle_def)
  then show ?thesis
    by (simp add: track_info_try_from_def encryption_of_i32_def sid_of_string_def sid_try_from_def SID_PREFIX_def)
qed

end
