(* ===== verification/LkUtils.thy ===== *)
theory LkUtils
  imports LKInterfaces LKMaps
begin

text \<open>
  The utilities of the client (\<open>livekit/src/utils\<close>): chunks that respect UTF-8 boundaries, the map
  with a time to live, the byte-counting send queue, the take-once cell, the promise, the
  debouncer, the dispatcher and the computation of changed attributes.
\<close>

unbundle bit_operations_syntax

section \<open>UTF-8 aware chunks\<close>

record utf8_chunks =
  uc_bytes :: bytes
  uc_chunk_size :: nat

definition utf8_chunks_new :: "bytes \<Rightarrow> nat \<Rightarrow> ('e, utf8_chunks) outcome" where
  "utf8_chunks_new bs chunk_size =
     (if chunk_size < 4 then Panic else Ok \<lparr>uc_bytes = bs, uc_chunk_size = chunk_size\<rparr>)"

definition is_continuation :: "u8 \<Rightarrow> bool" where
  "is_continuation b \<longleftrightarrow> b AND 0xC0 = 0x80"

text \<open>The inner \<open>while\<close>: from \<open>k\<close> down to a byte that starts a character, or to zero.\<close>

fun boundary_before :: "bytes \<Rightarrow> nat \<Rightarrow> nat" where
  "boundary_before bs 0 = 0"
| "boundary_before bs (Suc k) = (if is_continuation (bs ! Suc k) then boundary_before bs k else Suc k)"

definition utf8_chunks_next :: "utf8_chunks \<Rightarrow> bytes option \<times> utf8_chunks" where
  "utf8_chunks_next it =
     (if uc_bytes it = [] then (None, it)
      else if length (uc_bytes it) \<le> uc_chunk_size it then (Some (uc_bytes it), it\<lparr>uc_bytes := []\<rparr>)
      else let k = boundary_before (uc_bytes it) (uc_chunk_size it)
           in (Some (take k (uc_bytes it)), it\<lparr>uc_bytes := drop k (uc_bytes it)\<rparr>))"

text \<open>The iterator run to its end; \<open>None\<close> when it never ends.\<close>

partial_function (option) utf8_collect :: "utf8_chunks \<Rightarrow> bytes list option" where
  "utf8_collect it =
     (case utf8_chunks_next it of
        (None, _) \<Rightarrow> Some []
      | (Some chunk, it') \<Rightarrow>
          Option.bind (utf8_collect it') (\<lambda>chunks. Some (chunk # chunks)))"

text \<open>
  What the standard library accepts as UTF-8: every lead byte is followed by the continuation bytes it
  announces, overlong forms, surrogates and values above the last code point excluded.
\<close>

definition utf8_len :: "u8 \<Rightarrow> nat" where
  "utf8_len b = (if b < 0x80 then 1 else if b < 0xC2 then 0 else if b < 0xE0 then 2 else if b < 0xF0 then 3
     else if b < 0xF5 then 4 else 0)"

definition utf8_second_ok :: "u8 \<Rightarrow> bytes \<Rightarrow> bool" where
  "utf8_second_ok b bs \<longleftrightarrow>
     (case bs of
        [] \<Rightarrow> True
      | c # _ \<Rightarrow> (b = 0xE0 \<longrightarrow> 0xA0 \<le> c) \<and> (b = 0xED \<longrightarrow> c < 0xA0) \<and> (b = 0xF0 \<longrightarrow> 0x90 \<le> c) \<and> (b = 0xF4 \<longrightarrow> c < 0x90))"

function utf8_valid :: "bytes \<Rightarrow> bool" where
  "utf8_valid [] = True"
| "utf8_valid (b # bs) =
     (0 < utf8_len b \<and> utf8_len b - 1 \<le> length bs \<and> list_all is_continuation (take (utf8_len b - 1) bs) \<and>
      utf8_second_ok b bs \<and> utf8_valid (drop (utf8_len b - 1) bs))"
  by pat_completeness auto
termination by (relation "measure length") auto

lemma utf8_second_ok_take: "utf8_second_ok b bs \<Longrightarrow> utf8_second_ok b (take j bs)"
  by (cases j; cases bs) (simp_all add: utf8_second_ok_def)

lemma is_continuation_range: "is_continuation b \<longleftrightarrow> 0x80 \<le> b \<and> b < 0xC0"
proof -
  have "\<forall>n < 256. ((of_nat n :: u8) AND 0xC0 = 0x80) = (128 \<le> n \<and> n < 192)" by code_simp
  moreover have "unat b < 256" using unsigned_less [of b, where ?'a = nat] by simp
  ultimately have "((of_nat (unat b) :: u8) AND 0xC0 = 0x80) = (128 \<le> unat b \<and> unat b < 192)" by blast
  then show ?thesis by (simp add: is_continuation_def word_le_nat_alt word_less_nat_alt)
qed

lemma utf8_len_le: "utf8_len b \<le> 4"
  by (simp add: utf8_len_def)

lemma utf8_lead: "0 < utf8_len b \<Longrightarrow> \<not> is_continuation b"
  by (simp add: utf8_len_def is_continuation_range word_less_nat_alt word_le_nat_alt split: if_splits)

text \<open>At a byte that starts a character the string can be cut.\<close>

lemma utf8_valid_cut:
  "utf8_valid bs \<Longrightarrow> k < length bs \<Longrightarrow> \<not> is_continuation (bs ! k) \<Longrightarrow> utf8_valid (take k bs) \<and> utf8_valid (drop k bs)"
proof (induction bs arbitrary: k rule: utf8_valid.induct)
  case 1
  then show ?case by simp
next
  case (2 b bs)
  define n where "n = utf8_len b"
  have b: "0 < n" "n - 1 \<le> length bs" "list_all is_continuation (take (n - 1) bs)" "utf8_valid (drop (n - 1) bs)"
    using "2.prems"(1) by (simp_all add: n_def)
  show ?case
  proof (cases k)
    case 0
    then show ?thesis using "2.prems"(1) by simp
  next
    case (Suc j)
    obtain m where m: "n = Suc m" using b(1) by (cases n) simp_all
    have "\<not> j < m"
    proof
      assume "j < m"
      then have "is_continuation (take m bs ! j)" using b(2,3) m by (simp add: list_all_length)
      then show False using "2.prems"(3) Suc \<open>j < m\<close> by simp
    qed
    then obtain i where i: "j = m + i" by (metis le_iff_add not_less)
    have rest: "utf8_valid (take i (drop m bs)) \<and> utf8_valid (drop i (drop m bs))"
      using "2.IH" [of i, folded n_def] b "2.prems" Suc i m by simp
    have "take m (take j bs) = take m bs" "drop m (take j bs) = take i (drop m bs)"
      using i by (simp_all add: min_def drop_take)
    then have "utf8_valid (b # take j bs)"
      using b "2.prems"(1,2) Suc i m rest by (simp add: n_def [symmetric] utf8_second_ok_take)
    moreover have "utf8_valid (drop j bs)" using rest i by (simp add: add.commute)
    ultimately show ?thesis using Suc by (simp del: utf8_valid.simps)
  qed
qed

text \<open>Of any four bytes in a row one starts a character.\<close>

lemma utf8_valid_near: "utf8_valid bs \<Longrightarrow> k < length bs \<Longrightarrow> \<exists>j \<le> k. k \<le> j + 3 \<and> \<not> is_continuation (bs ! j)"
proof (induction bs arbitrary: k rule: utf8_valid.induct)
  case 1
  then show ?case by simp
next
  case (2 b bs)
  define n where "n = utf8_len b"
  have b: "0 < n" "n \<le> 4" "utf8_valid (drop (n - 1) bs)" "n - 1 \<le> length bs"
    using "2.prems"(1) utf8_len_le [of b] by (simp_all add: n_def)
  show ?case
  proof (cases "k < n")
    case True
    have "\<not> is_continuation b" using b(1) by (simp add: n_def utf8_lead)
    then show ?thesis using True b(2) by (intro exI [of _ 0]) simp
  next
    case False
    then have "k - n < length (drop (n - 1) bs)" using "2.prems"(2) b(1) by simp
    from "2.IH" [folded n_def, OF b(3) this] obtain j where
      j: "j \<le> k - n" "k - n \<le> j + 3" "\<not> is_continuation (drop (n - 1) bs ! j)" by blast
    have "(b # bs) ! (j + n) = drop (n - 1) bs ! j"
      using b(1,4) by (cases n) (simp_all add: add.commute)
    moreover have "j + n \<le> k \<and> k \<le> j + n + 3" using j False by linarith
    ultimately show ?thesis using j by (intro exI [of _ "j + n"]) simp
  qed
qed

lemma boundary_before_result:
  "boundary_before bs k \<le> k \<and> (0 < boundary_before bs k \<longrightarrow> \<not> is_continuation (bs ! boundary_before bs k)) \<and>
   (\<forall>j. boundary_before bs k < j \<and> j \<le> k \<longrightarrow> is_continuation (bs ! j))"
  by (induction k) (auto simp: le_Suc_eq)

lemma boundary_before_pos:
  assumes "utf8_valid bs" and "k < length bs" and "4 \<le> k"
  shows "0 < boundary_before bs k" and "boundary_before bs k \<le> k" and "\<not> is_continuation (bs ! boundary_before bs k)"
proof -
  obtain j where j: "j \<le> k" "k \<le> j + 3" "\<not> is_continuation (bs ! j)" using utf8_valid_near [OF assms(1,2)] by blast
  then have "j \<le> boundary_before bs k" using boundary_before_result [of bs k] by (meson not_less)
  with j assms(3) show "0 < boundary_before bs k" by simp
  with boundary_before_result [of bs k] show "boundary_before bs k \<le> k" "\<not> is_continuation (bs ! boundary_before bs k)"
    by simp_all
qed

lemma utf8_collect_shape:
  assumes "4 \<le> n"
  shows "utf8_valid bs \<Longrightarrow> \<exists>chunks. utf8_collect \<lparr>uc_bytes = bs, uc_chunk_size = n\<rparr> = Some chunks \<and>
    concat chunks = bs \<and> list_all (\<lambda>c. c \<noteq> [] \<and> length c \<le> n \<and> utf8_valid c) chunks"
proof (induction "length bs" arbitrary: bs rule: less_induct)
  case less
  have finished: "utf8_collect \<lparr>uc_bytes = [], uc_chunk_size = n\<rparr> = Some []"
    by (subst utf8_collect.simps) (simp add: utf8_chunks_next_def)
  consider "bs = []" | "bs \<noteq> []" "length bs \<le> n" | (long) "n < length bs" by linarith
  then show ?case
  proof cases
    case 1
    then show ?thesis using finished by simp
  next
    case 2
    then have "utf8_collect \<lparr>uc_bytes = bs, uc_chunk_size = n\<rparr> = Some [bs]"
      by (subst utf8_collect.simps) (simp add: utf8_chunks_next_def finished)
    then show ?thesis using 2 less.prems by simp
  next
    case long
    define k where "k = boundary_before bs n"
    note k = boundary_before_pos [OF less.prems long assms, folded k_def]
    have cut: "utf8_valid (take k bs)" "utf8_valid (drop k bs)"
      using utf8_valid_cut [OF less.prems _ k(3)] k(2) long by simp_all
    have "length (drop k bs) < length bs" using k(1) long by simp
    from less.hyps [OF this cut(2)] obtain chunks where
      rest: "utf8_collect \<lparr>uc_bytes = drop k bs, uc_chunk_size = n\<rparr> = Some chunks" "concat chunks = drop k bs"
        "list_all (\<lambda>c. c \<noteq> [] \<and> length c \<le> n \<and> utf8_valid c) chunks" by blast
    have "utf8_collect \<lparr>uc_bytes = bs, uc_chunk_size = n\<rparr> = Some (take k bs # chunks)"
      using long by (subst utf8_collect.simps) (auto simp: utf8_chunks_next_def k_def [symmetric] rest Let_def)
    then show ?thesis using rest cut k long by (intro exI [of _ "take k bs # chunks"]) auto
  qed
qed

section \<open>The map with a time to live\<close>

text \<open>Times are nanoseconds of the system clock, which may go backwards.\<close>

record 'v ttl_entry =
  te_value :: 'v
  te_expires_at :: nat

record ('k, 'v) ttl_map =
  tm_inner :: "('k, 'v ttl_entry) hashmap"
  tm_last_cleanup :: nat
  tm_ttl :: nat

definition ttl_new :: "nat \<Rightarrow> nat \<Rightarrow> ('k, 'v) ttl_map" where
  "ttl_new now ttl = \<lparr>tm_inner = [], tm_last_cleanup = now, tm_ttl = ttl\<rparr>"

definition ttl_cleanup :: "nat \<Rightarrow> ('k, 'v) ttl_map \<Rightarrow> ('k, 'v) ttl_map" where
  "ttl_cleanup now m =
     m\<lparr>tm_inner := filter (\<lambda>(_, e). now \<le> te_expires_at e) (tm_inner m), tm_last_cleanup := now\<rparr>"

definition ttl_len :: "nat \<Rightarrow> ('k, 'v) ttl_map \<Rightarrow> nat \<times> ('k, 'v) ttl_map" where
  "ttl_len now m = (let m = ttl_cleanup now m in (length (tm_inner m), m))"

definition ttl_iter :: "nat \<Rightarrow> ('k, 'v) ttl_map \<Rightarrow> ('k \<times> 'v) list \<times> ('k, 'v) ttl_map" where
  "ttl_iter now m = (let m = ttl_cleanup now m in (map (\<lambda>(k, e). (k, te_value e)) (tm_inner m), m))"

definition ttl_get :: "nat \<Rightarrow> 'k \<Rightarrow> ('k, 'v) ttl_map \<Rightarrow> 'v option \<times> ('k, 'v) ttl_map" where
  "ttl_get now k m =
     (case hm_get (tm_inner m) k of
        None \<Rightarrow> (None, m)
      | Some e \<Rightarrow>
          if te_expires_at e < now then (None, m\<lparr>tm_inner := hm_remove k (tm_inner m)\<rparr>)
          else (Some (te_value e), m))"

definition ttl_set :: "nat \<Rightarrow> 'k \<Rightarrow> 'v option \<Rightarrow> ('k, 'v) ttl_map \<Rightarrow> ('k, 'v) ttl_map" where
  "ttl_set now k v m =
     (if now < tm_last_cleanup m then m
      else
       (let m = (if tm_ttl m < 2 * (now - tm_last_cleanup m) then ttl_cleanup now m else m) in
        case v of
          None \<Rightarrow> m\<lparr>tm_inner := hm_remove k (tm_inner m)\<rparr>
        | Some value \<Rightarrow>
            m\<lparr>tm_inner := hm_insert k \<lparr>te_value = value, te_expires_at = now + tm_ttl m\<rparr> (tm_inner m)\<rparr>))"

text \<open>Operations with the time at which they run.\<close>

datatype ('k, 'v) ttl_op = TSet 'k "'v option" | TGet 'k | TLen

fun ttl_apply :: "nat \<times> ('k, 'v) ttl_op \<Rightarrow> ('k, 'v) ttl_map \<Rightarrow> ('k, 'v) ttl_map" where
  "ttl_apply (now, TSet k v) m = ttl_set now k v m"
| "ttl_apply (now, TGet k) m = snd (ttl_get now k m)"
| "ttl_apply (now, TLen) m = snd (ttl_len now m)"

text \<open>What the map stands for at a time: the last value set, while it is not too old.\<close>

fun ttl_spec :: "nat \<Rightarrow> 'k \<Rightarrow> nat \<Rightarrow> (nat \<times> ('k, 'v) ttl_op) list \<Rightarrow> 'v option" where
  "ttl_spec ttl k t [] = None"
| "ttl_spec ttl k t ((now, TSet k' v) # earlier) =
     (if k' = k then (if t \<le> now + ttl then v else None) else ttl_spec ttl k t earlier)"
| "ttl_spec ttl k t (_ # earlier) = ttl_spec ttl k t earlier"

text \<open>Reading the inner map at a time, without the clean-up that only saves space.\<close>

definition ttl_live :: "nat \<Rightarrow> 'k \<Rightarrow> ('k, 'v) ttl_map \<Rightarrow> 'v option" where
  "ttl_live t k m =
     (case hm_get (tm_inner m) k of Some e \<Rightarrow> if t \<le> te_expires_at e then Some (te_value e) else None | None \<Rightarrow> None)"

lemma map_of_filter_value:
  "hm_inv m \<Longrightarrow> map_of (filter (\<lambda>(_, e). P e) m) k = (case map_of m k of Some e \<Rightarrow> if P e then Some e else None | None \<Rightarrow> None)"
  unfolding hm_inv_def
  by (induction m) (auto simp: map_of_eq_None_iff split: option.splits intro!: map_of_eq_None_iff [THEN iffD2])

lemma hm_inv_filter [simp]: "hm_inv m \<Longrightarrow> hm_inv (filter P m)"
  by (simp add: hm_inv_def distinct_map_filter)

lemma ttl_live_cleanup:
  "hm_inv (tm_inner m) \<Longrightarrow> now \<le> t \<Longrightarrow> ttl_live t k (ttl_cleanup now m) = ttl_live t k m"
  by (auto simp: ttl_live_def ttl_cleanup_def map_of_filter_value split: option.splits)

lemma ttl_get_live: "fst (ttl_get t k m) = ttl_live t k m"
  by (auto simp: ttl_get_def ttl_live_def split: option.splits)

lemma ttl_apply_keeps:
  "hm_inv (tm_inner m) \<Longrightarrow> hm_inv (tm_inner (ttl_apply (now, x) m))"
  "tm_ttl (ttl_apply (now, x) m) = tm_ttl m"
  by (cases x; auto simp: ttl_set_def ttl_get_def ttl_len_def ttl_cleanup_def Let_def split: option.split)+

lemma ttl_apply_last_cleanup:
  "tm_last_cleanup m \<le> now \<Longrightarrow> tm_last_cleanup (ttl_apply (now, x) m) \<le> now"
  by (cases x; auto simp: ttl_set_def ttl_get_def ttl_len_def ttl_cleanup_def Let_def split: option.split)

lemma ttl_apply_live:
  assumes "hm_inv (tm_inner m)" and "tm_last_cleanup m \<le> now" and "now \<le> t"
  shows "ttl_live t k (ttl_apply (now, x) m) =
    (case x of TSet k' v \<Rightarrow> if k' = k then (if t \<le> now + tm_ttl m then v else None) else ttl_live t k m | _ \<Rightarrow> ttl_live t k m)"
proof (cases x)
  case (TSet k' v)
  let ?m = "if tm_ttl m < 2 * (now - tm_last_cleanup m) then ttl_cleanup now m else m"
  have m: "ttl_live t k ?m = ttl_live t k m" "tm_ttl ?m = tm_ttl m"
    using ttl_live_cleanup [OF assms(1,3)] by (simp_all add: ttl_cleanup_def)
  have "ttl_apply (now, x) m = (case v of None \<Rightarrow> ?m\<lparr>tm_inner := hm_remove k' (tm_inner ?m)\<rparr>
      | Some value \<Rightarrow> ?m\<lparr>tm_inner := hm_insert k' \<lparr>te_value = value, te_expires_at = now + tm_ttl ?m\<rparr> (tm_inner ?m)\<rparr>)"
    using assms(2) TSet by (simp add: ttl_set_def Let_def)
  moreover have "ttl_live t k (?m\<lparr>tm_inner := hm_remove k' (tm_inner ?m)\<rparr>) = (if k' = k then None else ttl_live t k ?m)"
    "ttl_live t k (?m\<lparr>tm_inner := hm_insert k' e (tm_inner ?m)\<rparr>) =
       (if k' = k then (if t \<le> te_expires_at e then Some (te_value e) else None) else ttl_live t k ?m)" for e
    by (auto simp: ttl_live_def)
  ultimately show ?thesis using m TSet by (cases v) simp_all
next
  case (TGet k')
  have "ttl_live t k (snd (ttl_get now k' m)) = ttl_live t k m"
    using assms(3) by (auto simp: ttl_get_def ttl_live_def split: option.splits)
  then show ?thesis using TGet by simp
next
  case TLen
  then show ?thesis using ttl_live_cleanup [OF assms(1,3)] by (simp add: ttl_len_def Let_def)
qed

lemma ttl_run:
  assumes "sorted (map fst ops)" and "\<forall>q\<in>set ops. t0 \<le> fst q \<and> fst q \<le> t"
  shows "hm_inv (tm_inner (fold ttl_apply ops (ttl_new t0 ttl))) \<and> tm_ttl (fold ttl_apply ops (ttl_new t0 ttl)) = ttl \<and>
    (\<forall>x. (\<forall>q\<in>set ops. fst q \<le> x) \<longrightarrow> t0 \<le> x \<longrightarrow> tm_last_cleanup (fold ttl_apply ops (ttl_new t0 ttl)) \<le> x) \<and>
    ttl_live t k (fold ttl_apply ops (ttl_new t0 ttl)) = ttl_spec ttl k t (rev ops)"
  using assms
proof (induction ops rule: rev_induct)
  case Nil
  then show ?case by (simp add: ttl_new_def ttl_live_def)
next
  case (snoc a ops)
  obtain now x where a: "a = (now, x)" by fastforce
  let ?m = "fold ttl_apply ops (ttl_new t0 ttl)"
  have IH: "hm_inv (tm_inner ?m)" "tm_ttl ?m = ttl" "ttl_live t k ?m = ttl_spec ttl k t (rev ops)"
    "\<And>x. (\<forall>q\<in>set ops. fst q \<le> x) \<Longrightarrow> t0 \<le> x \<Longrightarrow> tm_last_cleanup ?m \<le> x"
    using snoc by (auto simp: sorted_append)
  have now: "tm_last_cleanup ?m \<le> now" "now \<le> t"
    using snoc.prems a by (auto intro!: IH(4) simp: sorted_append)
  have "tm_last_cleanup (ttl_apply (now, x) ?m) \<le> y" if "now \<le> y" for y
    using ttl_apply_last_cleanup [OF now(1), of x] that by simp
  then show ?case
    using ttl_apply_live [OF IH(1) now, of k x] IH ttl_apply_keeps(1) [OF IH(1), of now x] ttl_apply_keeps(2) [of now x ?m]
    by (cases x) (simp_all add: a)
qed

section \<open>The send queue\<close>

text \<open>The size of an item is the trait method \<open>TxQueueItem::buffered_size\<close>, an argument here.\<close>

record 'a tx_queue =
  txq_inner :: "'a list"
  txq_buffered_size :: nat

definition txq_new :: "'a tx_queue" where
  "txq_new = \<lparr>txq_inner = [], txq_buffered_size = 0\<rparr>"

definition txq_len :: "'a tx_queue \<Rightarrow> nat" where
  "txq_len q = length (txq_inner q)"

definition txq_peek :: "'a tx_queue \<Rightarrow> 'a option" where
  "txq_peek q = (case txq_inner q of [] \<Rightarrow> None | x # _ \<Rightarrow> Some x)"

definition txq_enqueue :: "('a \<Rightarrow> nat) \<Rightarrow> 'a \<Rightarrow> 'a tx_queue \<Rightarrow> 'a tx_queue" where
  "txq_enqueue size_of item q =
     \<lparr>txq_inner = txq_inner q @ [item], txq_buffered_size = txq_buffered_size q + size_of item\<rparr>"

definition txq_dequeue :: "('a \<Rightarrow> nat) \<Rightarrow> 'a tx_queue \<Rightarrow> 'a option \<times> 'a tx_queue" where
  "txq_dequeue size_of q =
     (case txq_inner q of
        [] \<Rightarrow> (None, q)
      | item # rest \<Rightarrow> (Some item, \<lparr>txq_inner = rest, txq_buffered_size = txq_buffered_size q - size_of item\<rparr>))"

text \<open>\<open>trim\<close> would spin on an empty queue with a positive size: that is \<open>None\<close>, excluded by the invariant.\<close>

function txq_trim :: "('a \<Rightarrow> nat) \<Rightarrow> nat \<Rightarrow> 'a tx_queue \<Rightarrow> 'a tx_queue option" where
  "txq_trim size_of target q =
     (if target < txq_buffered_size q
      then if txq_inner q = [] then None else txq_trim size_of target (snd (txq_dequeue size_of q))
      else Some q)"
  by pat_completeness auto
termination
  by (relation "measure (\<lambda>(_, _, q). length (txq_inner q))") (auto simp: txq_dequeue_def split: list.split)

declare txq_trim.simps [simp del]

definition txq_inv :: "('a \<Rightarrow> nat) \<Rightarrow> 'a tx_queue \<Rightarrow> bool" where
  "txq_inv size_of q \<longleftrightarrow> txq_buffered_size q = sum_list (map size_of (txq_inner q))"

lemma txq_inv_new [simp]: "txq_inv size_of txq_new"
  by (simp add: txq_inv_def txq_new_def)

lemma txq_inv_enqueue [simp]: "txq_inv size_of q \<Longrightarrow> txq_inv size_of (txq_enqueue size_of x q)"
  by (simp add: txq_inv_def txq_enqueue_def)

lemma txq_inv_dequeue [simp]: "txq_inv size_of q \<Longrightarrow> txq_inv size_of (snd (txq_dequeue size_of q))"
  by (auto simp: txq_inv_def txq_dequeue_def split: list.split)

text \<open>The queue of the client's encoded packets and of byte vectors is the queue of the interface.\<close>

interpretation txq: fifo_queue txq_new "txq_enqueue size_of" "txq_dequeue size_of" txq_inner "txq_inv size_of"
  for size_of :: "'a \<Rightarrow> nat"
  by unfold_locales (auto simp: txq_new_def txq_enqueue_def txq_dequeue_def txq_inv_def split: list.split)

text \<open>What \<open>trim\<close> leaves: the longest tail that fits the target.\<close>

fun fitting_tail :: "('a \<Rightarrow> nat) \<Rightarrow> nat \<Rightarrow> 'a list \<Rightarrow> 'a list" where
  "fitting_tail size_of target [] = []"
| "fitting_tail size_of target (x # xs) =
     (if target < sum_list (map size_of (x # xs)) then fitting_tail size_of target xs else x # xs)"

lemma txq_trim_result:
  "txq_inv size_of q \<Longrightarrow> txq_trim size_of target q =
    Some \<lparr>txq_inner = fitting_tail size_of target (txq_inner q),
          txq_buffered_size = sum_list (map size_of (fitting_tail size_of target (txq_inner q)))\<rparr>"
proof (induction "txq_inner q" arbitrary: q)
  case Nil
  then have "txq_buffered_size q = 0" by (simp add: txq_inv_def)
  then show ?case using Nil(1) by (subst txq_trim.simps) (cases q; simp)
next
  case (Cons x xs)
  have deq: "snd (txq_dequeue size_of q) = \<lparr>txq_inner = xs, txq_buffered_size = sum_list (map size_of xs)\<rparr>"
    using Cons.prems by (simp add: txq_dequeue_def Cons.hyps(2) [symmetric] txq_inv_def)
  have "txq_trim size_of target (snd (txq_dequeue size_of q)) =
    Some \<lparr>txq_inner = fitting_tail size_of target xs,
          txq_buffered_size = sum_list (map size_of (fitting_tail size_of target xs))\<rparr>"
    using Cons.hyps(1) [of "snd (txq_dequeue size_of q)"] Cons.prems by (simp add: deq txq_inv_def)
  then show ?case
    using Cons.prems Cons.hyps(2) [symmetric]
    by (subst txq_trim.simps) (cases q; auto simp: txq_inv_def)
qed

lemma fitting_tail_suffix:
  "\<exists>n. fitting_tail size_of target xs = drop n xs \<and> sum_list (map size_of (drop n xs)) \<le> target \<and>
    (\<forall>m < n. target < sum_list (map size_of (drop m xs)))"
proof (induction xs)
  case Nil
  then show ?case by (intro exI [of _ 0]) simp
next
  case (Cons x xs)
  show ?case
  proof (cases "target < sum_list (map size_of (x # xs))")
    case True
    obtain n where n: "fitting_tail size_of target xs = drop n xs" "sum_list (map size_of (drop n xs)) \<le> target"
      "\<forall>m < n. target < sum_list (map size_of (drop m xs))" using Cons.IH by blast
    then show ?thesis using True
      by (intro exI [of _ "Suc n"]) (auto simp: less_Suc_eq_0_disj)
  next
    case False
    then show ?thesis by (intro exI [of _ 0]) simp
  qed
qed

section \<open>The take-once cell\<close>

datatype 'a take_cell = TakeCell "'a option"

fun take_cell_new :: "'a \<Rightarrow> 'a take_cell" where
  "take_cell_new v = TakeCell (Some v)"

fun take_cell_take :: "'a take_cell \<Rightarrow> 'a option \<times> 'a take_cell" where
  "take_cell_take (TakeCell v) = (v, TakeCell None)"

fun take_cell_take_if :: "('a \<Rightarrow> bool) \<Rightarrow> 'a take_cell \<Rightarrow> 'a option \<times> 'a take_cell" where
  "take_cell_take_if predicate (TakeCell v) =
     (if (case v of None \<Rightarrow> False | Some x \<Rightarrow> predicate x) then take_cell_take (TakeCell v) else (None, TakeCell v))"

fun take_cell_is_taken :: "'a take_cell \<Rightarrow> bool" where
  "take_cell_is_taken (TakeCell v) \<longleftrightarrow> v = None"

text \<open>Any number of attempts to take, each with its own predicate.\<close>

fun take_attempts :: "('a \<Rightarrow> bool) list \<Rightarrow> 'a take_cell \<Rightarrow> 'a list" where
  "take_attempts [] c = []"
| "take_attempts (p # ps) c =
     (let (r, c) = take_cell_take_if p c in (case r of None \<Rightarrow> [] | Some x \<Rightarrow> [x]) @ take_attempts ps c)"

lemma take_attempts_taken: "take_attempts ps (TakeCell None) = []"
  by (induction ps) simp_all

lemma take_attempts_once: "take_attempts ps (take_cell_new v) = (if \<exists>p\<in>set ps. p v then [v] else [])"
  by (induction ps) (simp_all add: take_attempts_taken)

section \<open>Changed attributes\<close>

text \<open>The loop over all keys, the old ones and then the new ones.\<close>

fun changed_loop ::
  "('k, string) hashmap \<Rightarrow> ('k, string) hashmap \<Rightarrow> 'k list \<Rightarrow> ('k, string) hashmap \<Rightarrow> ('k, string) hashmap" where
  "changed_loop old new [] changed = changed"
| "changed_loop old new (key # keys) changed =
     changed_loop old new keys
       (if hm_get old key \<noteq> hm_get new key
        then (case hm_get new key of
                Some v \<Rightarrow> hm_insert key v changed
              | None \<Rightarrow> hm_insert key [] changed)
        else changed)"

definition calculate_changed_attributes ::
  "('k, string) hashmap \<Rightarrow> ('k, string) hashmap \<Rightarrow> ('k, string) hashmap" where
  "calculate_changed_attributes old new = changed_loop old new (hm_keys old @ hm_keys new) []"

lemma changed_loop_get:
  "hm_get (changed_loop old new keys changed) k =
    (if k \<in> set keys \<and> hm_get old k \<noteq> hm_get new k
     then Some (case hm_get new k of Some v \<Rightarrow> v | None \<Rightarrow> []) else hm_get changed k)"
  by (induction keys arbitrary: changed) (auto split: option.splits)

section \<open>The dispatcher\<close>

text \<open>Senders by the number of their receiver; \<open>alive\<close> tells which receivers still exist.\<close>

definition dispatcher_register :: "nat \<Rightarrow> nat list \<Rightarrow> nat list" where
  "dispatcher_register r senders = senders @ [r]"

definition dispatch :: "(nat \<Rightarrow> bool) \<Rightarrow> 'a \<Rightarrow> nat list \<Rightarrow> nat list \<times> (nat \<times> 'a) list" where
  "dispatch alive msg senders =
     (let kept = filter alive senders in (kept, map (\<lambda>r. (r, msg)) kept))"

section \<open>The promise\<close>

text \<open>
  \<open>pr_tx\<close> and \<open>pr_rx\<close> tell whether the ends of the channel are still in their cells, \<open>pr_sent\<close> is the
  value in the channel.  A call of \<open>result\<close> is three steps: it takes the receiver (or finds the result), waits,
  and stores the result; it may be cancelled while it waits, and then the receiver it took is gone.
\<close>

record 'a promise =
  pr_tx :: bool
  pr_rx :: bool
  pr_sent :: "'a option"
  pr_result :: "'a option"

definition promise_new :: "'a promise" where
  "promise_new = \<lparr>pr_tx = True, pr_rx = True, pr_sent = None, pr_result = None\<rparr>"

definition promise_resolve :: "'a \<Rightarrow> 'a promise \<Rightarrow> (string, unit) outcome \<times> 'a promise" where
  "promise_resolve v p =
     (if pr_tx p then (Ok (), p\<lparr>pr_tx := False, pr_sent := Some v\<rparr>) else (Err ''promise already used'', p))"

datatype 'a promise_wait = Ready 'a | Waiting | Broken

definition promise_result_begin :: "'a promise \<Rightarrow> 'a promise_wait \<times> 'a promise" where
  "promise_result_begin p =
     (case pr_result p of
        Some v \<Rightarrow> (Ready v, p)
      | None \<Rightarrow> if pr_rx p then (Waiting, p\<lparr>pr_rx := False\<rparr>) else (Broken, p))"

definition promise_result_end :: "'a promise \<Rightarrow> 'a promise_wait \<times> 'a promise" where
  "promise_result_end p =
     (case pr_sent p of Some v \<Rightarrow> (Ready v, p\<lparr>pr_result := Some v\<rparr>) | None \<Rightarrow> (Waiting, p))"

definition promise_try_result :: "'a promise \<Rightarrow> 'a option" where
  "promise_try_result p = pr_result p"

text \<open>A call that waits to the end stores the result for all later calls.\<close>

lemma promise_resolved:
  assumes "promise_resolve v promise_new = (Ok (), p)"
  shows "fst (promise_result_end (snd (promise_result_begin p))) = Ready v"
    and "fst (promise_result_begin (snd (promise_result_end (snd (promise_result_begin p))))) = Ready v"
  using assms
  by (auto simp: promise_resolve_def promise_new_def promise_result_begin_def promise_result_end_def)

text \<open>A call cancelled while it waits takes the receiver with it: the next call panics, resolved or not.\<close>

lemma cancelled_result_breaks_promise:
  "fst (promise_result_begin (snd (promise_resolve v (snd (promise_result_begin promise_new))))) = Broken"
  by (simp add: promise_resolve_def promise_new_def promise_result_begin_def)

section \<open>The debouncer\<close>

text \<open>The calls and the drop of a debouncer with their times; the result is the time at which the future runs.\<close>

datatype debounce_event = DebounceCall | DebounceDrop

fun debounce_task :: "nat \<Rightarrow> nat \<Rightarrow> (nat \<times> debounce_event) list \<Rightarrow> nat option" where
  "debounce_task duration start [] = Some (start + duration)"
| "debounce_task duration start ((t, e) # events) =
     (if start + duration < t then Some (start + duration)
      else case e of
             DebounceCall \<Rightarrow> debounce_task duration t events
           | DebounceDrop \<Rightarrow> None)"

lemma debounce_last_call:
  "list_all (\<lambda>(t, e). e = DebounceCall) events \<Longrightarrow> sorted (start # map fst events) \<Longrightarrow>
    \<exists>t \<in> set (start # map fst events). debounce_task duration start events = Some (t + duration) \<and>
      (\<forall>t' \<in> set (map fst events). t' \<le> t \<or> t + duration < t')"
proof (induction events arbitrary: start)
  case Nil
  then show ?case by simp
next
  case (Cons a events)
  obtain t where a: "a = (t, DebounceCall)" using Cons.prems(1) by (cases a) simp
  show ?case
  proof (cases "start + duration < t")
    case True
    then show ?thesis using Cons.prems a by fastforce
  next
    case False
    have "\<exists>u \<in> set (t # map fst events). debounce_task duration t events = Some (u + duration) \<and>
        (\<forall>t' \<in> set (map fst events). t' \<le> u \<or> u + duration < t')"
      using Cons.prems a by (intro Cons.IH) simp_all
    then show ?thesis using False Cons.prems a by fastforce
  qed
qed

section \<open>Properties\<close>

text \<open>
  Text is cut between characters.  For a chunk size of at least four, which the constructor demands, and any valid UTF-8, the
  chunk iterator ends; its chunks concatenate to the string, none is empty or longer than the chunk size, and each is
  valid UTF-8 itself.
\<close>

theorem utf8_chunks_correct:
  assumes "utf8_chunks_new bs n = Ok it" and "utf8_valid bs"
  shows "\<exists>chunks. utf8_collect it = Some chunks \<and> concat chunks = bs \<and>
    list_all (\<lambda>c. c \<noteq> [] \<and> length c \<le> n \<and> utf8_valid c) chunks"
proof -
  have "4 \<le> n" "it = \<lparr>uc_bytes = bs, uc_chunk_size = n\<rparr>"
    using assms(1) by (auto simp: utf8_chunks_new_def split: if_splits)
  with utf8_collect_shape [OF this(1) assms(2)] show ?thesis by simp
qed

theorem utf8_chunks_correct_witness:
  "\<exists>chunks. utf8_collect \<lparr>uc_bytes = [0x48, 0x65, 0x6C, 0x6C, 0x6F, 0x20, 0xF0, 0x9F, 0x91, 0x8B], uc_chunk_size = 4\<rparr> = Some chunks \<and>
    concat chunks = [0x48, 0x65, 0x6C, 0x6C, 0x6F, 0x20, 0xF0, 0x9F, 0x91, 0x8B]"
proof -
  have "utf8_valid [0x48, 0x65, 0x6C, 0x6C, 0x6F, 0x20, 0xF0, 0x9F, 0x91, 0x8B]"
    by (simp add: utf8_len_def is_continuation_def utf8_second_ok_def)
  from utf8_chunks_correct [OF _ this, of 4] show ?thesis
    by (auto simp: utf8_chunks_new_def)
qed

text \<open>
  The map with a time to live is its specification.  After any operations at non-decreasing times, a read gives the value
  last set for the key while that is at most the time to live ago, and nothing otherwise: the clean-ups,
  wherever they happen, are invisible.
\<close>

theorem ttl_map_correct:
  assumes "sorted (map fst ops)" and "\<forall>q\<in>set ops. t0 \<le> fst q \<and> fst q \<le> t"
  shows "fst (ttl_get t k (fold ttl_apply ops (ttl_new t0 ttl))) = ttl_spec ttl k t (rev ops)"
  using ttl_run [OF assms, where k = k and ttl = ttl] by (simp add: ttl_get_live)

theorem ttl_map_correct_witness:
  "fst (ttl_get 16 CHR ''a'' (fold ttl_apply [(1, TSet CHR ''a'' (Some (5 :: nat))), (9, TSet CHR ''b'' (Some 7)), (9, TLen)] (ttl_new 0 10))) = None"
  by (subst ttl_map_correct) simp_all

text \<open>
  What trimming keeps.  On a queue made by queue operations the recorded size is the sum of the items' sizes, trimming
  ends, and what is left is the longest tail of the queue that fits the target, in order.
\<close>

theorem txq_trim_correct:
  assumes "txq_inv size_of q"
  shows "\<exists>n q'. txq_trim size_of target q = Some q' \<and> txq_inv size_of q' \<and> txq_inner q' = drop n (txq_inner q) \<and>
    txq_buffered_size q' \<le> target \<and> (\<forall>m < n. target < sum_list (map size_of (drop m (txq_inner q))))"
proof -
  obtain n where n: "fitting_tail size_of target (txq_inner q) = drop n (txq_inner q)"
    "sum_list (map size_of (drop n (txq_inner q))) \<le> target"
    "\<forall>m < n. target < sum_list (map size_of (drop m (txq_inner q)))"
    using fitting_tail_suffix [of size_of target "txq_inner q"] by blast
  then show ?thesis
    using txq_trim_result [OF assms, of target] by (auto simp: txq_inv_def)
qed

theorem txq_trim_correct_witness:
  "\<exists>n q'. txq_trim length 3 (fold (txq_enqueue length) [[1, 2], [3], [4, 5 :: u8]] txq_new) = Some q' \<and> txq_inner q' = drop n [[1, 2], [3], [4, 5]]"
proof -
  have "txq_inv length (fold (txq_enqueue length) [[1, 2], [3], [4, 5 :: u8]] txq_new)" by simp
  from txq_trim_correct [OF this, of 3] show ?thesis
    by (auto simp: txq_enqueue_def txq_new_def)
qed

text \<open>
  The changed attributes.  A key is reported exactly if its value differs, absence included, with its new value, and
  with the empty string if it was removed.
\<close>

theorem changed_attributes_correct:
  "hm_get (calculate_changed_attributes old new) k =
    (if hm_get old k = hm_get new k then None else Some (case hm_get new k of Some v \<Rightarrow> v | None \<Rightarrow> []))"
  by (auto simp: calculate_changed_attributes_def changed_loop_get hm_keys_def map_of_eq_None_iff [symmetric]
      split: option.splits)

end
