(* ===== verification/LkDataStream.thy ===== *)
theory LkDataStream
  imports LkUtils LKInterfaces
begin

text \<open>
  Data streams (\<open>livekit/src/room/data_stream\<close>): the outgoing manager that turns a text, a byte string or a
  file into header, chunk and trailer packets, and the incoming manager that turns such packets back into
  readers.  Text is the list of its UTF-8 bytes.  Outside the model's code are the clock, the random
  identifiers and the date conversion of \<open>chrono\<close> (the record \<open>stream_env\<close>), the outcome of sending a
  packet (a script of results) and the file system (the result of each operation on a file).
\<close>

section \<open>Errors, progress, headers and stream information\<close>

datatype stream_error =
    AlreadyClosed | AbnormalEnd string | Utf8Error | InvalidHeader | MissedChunk | LengthExceeded | Incomplete
  | SendFailed | IoError string | Internal | EncryptionTypeMismatch

datatype stream_encryption = NoEncryption | GcmEncryption | CustomEncryption

datatype operation_type = OpCreate | OpUpdate | OpDelete | OpReaction

record stream_progress =
  sp_chunk_index :: nat
  sp_bytes_processed :: nat
  sp_bytes_total :: "nat option"

definition stream_progress_new :: "nat option \<Rightarrow> stream_progress" where
  "stream_progress_new bytes_total = \<lparr>sp_chunk_index = 0, sp_bytes_processed = 0, sp_bytes_total = bytes_total\<rparr>"

text \<open>The protocol messages, with the fields the two managers use.\<close>

record text_header =
  th_operation_type :: i32
  th_version :: i32
  th_reply_to_stream_id :: string
  th_attached_stream_ids :: "string list"
  th_generated :: bool

record byte_header =
  bh_name :: string

datatype content_header = ByteHeader byte_header | TextHeader text_header

record stream_header =
  sh_stream_id :: string
  sh_timestamp :: int
  sh_topic :: string
  sh_mime_type :: string
  sh_total_length :: "nat option"
  sh_encryption_type :: i32
  sh_attributes :: "(string, string) hashmap"
  sh_content_header :: "content_header option"

record stream_chunk =
  sc_stream_id :: string
  sc_chunk_index :: nat
  sc_content :: bytes

record stream_trailer =
  st_stream_id :: string
  st_reason :: string

datatype packet_value = StreamHeader stream_header | StreamChunk stream_chunk | StreamTrailer stream_trailer

record data_packet =
  dp_reliable :: bool
  dp_participant_identity :: string
  dp_destination_identities :: "string list"
  dp_value :: packet_value

text \<open>A date is the number of its milliseconds; the conversion from a timestamp fails out of its range.\<close>

record stream_env =
  env_from_millis :: "int \<Rightarrow> int option"
  env_now :: int
  env_uuid :: string
  env_has_runtime :: bool

record byte_stream_info =
  bi_id :: string
  bi_topic :: string
  bi_timestamp :: int
  bi_total_length :: "nat option"
  bi_attributes :: "(string, string) hashmap"
  bi_mime_type :: string
  bi_name :: string
  bi_encryption_type :: stream_encryption

record text_stream_info =
  ti_id :: string
  ti_topic :: string
  ti_timestamp :: int
  ti_total_length :: "nat option"
  ti_attributes :: "(string, string) hashmap"
  ti_mime_type :: string
  ti_operation_type :: operation_type
  ti_version :: i32
  ti_reply_to_stream_id :: "string option"
  ti_attached_stream_ids :: "string list"
  ti_generated :: bool
  ti_encryption_type :: stream_encryption

datatype any_stream_info = ByteInfo byte_stream_info | TextInfo text_stream_info

text \<open>The generated accessor of an enumeration field reads numbers it does not know as the first constant.\<close>

definition operation_of_i32 :: "i32 \<Rightarrow> operation_type" where
  "operation_of_i32 n = (if n = 1 then OpUpdate else if n = 2 then OpDelete else if n = 3 then OpReaction else OpCreate)"

fun i32_of_operation :: "operation_type \<Rightarrow> i32" where
  "i32_of_operation OpCreate = 0"
| "i32_of_operation OpUpdate = 1"
| "i32_of_operation OpDelete = 2"
| "i32_of_operation OpReaction = 3"

definition unwrap_or :: "'a \<Rightarrow> 'a option \<Rightarrow> 'a" where
  "unwrap_or d x = (case x of Some v \<Rightarrow> v | None \<Rightarrow> d)"

lemma unwrap_or_simps [simp]: "unwrap_or d (Some v) = v" "unwrap_or d None = d"
  by (simp_all add: unwrap_or_def)

definition byte_info_from_headers ::
  "stream_env \<Rightarrow> stream_header \<Rightarrow> byte_header \<Rightarrow> stream_encryption \<Rightarrow> byte_stream_info" where
  "byte_info_from_headers env header bh encryption =
     \<lparr>bi_id = sh_stream_id header, bi_topic = sh_topic header,
      bi_timestamp = unwrap_or (env_now env) (env_from_millis env (sh_timestamp header)),
      bi_total_length = sh_total_length header, bi_attributes = sh_attributes header,
      bi_mime_type = sh_mime_type header, bi_name = bh_name bh, bi_encryption_type = encryption\<rparr>"

definition text_info_from_headers ::
  "stream_env \<Rightarrow> stream_header \<Rightarrow> text_header \<Rightarrow> stream_encryption \<Rightarrow> text_stream_info" where
  "text_info_from_headers env header th encryption =
     \<lparr>ti_id = sh_stream_id header, ti_topic = sh_topic header,
      ti_timestamp = unwrap_or (env_now env) (env_from_millis env (sh_timestamp header)),
      ti_total_length = sh_total_length header, ti_attributes = sh_attributes header,
      ti_mime_type = sh_mime_type header, ti_operation_type = operation_of_i32 (th_operation_type th),
      ti_version = th_version th,
      ti_reply_to_stream_id = (if th_reply_to_stream_id th \<noteq> [] then Some (th_reply_to_stream_id th) else None),
      ti_attached_stream_ids = th_attached_stream_ids th, ti_generated = th_generated th,
      ti_encryption_type = encryption\<rparr>"

definition any_info_try_from ::
  "stream_env \<Rightarrow> stream_header \<Rightarrow> stream_encryption \<Rightarrow> (stream_error, any_stream_info) outcome" where
  "any_info_try_from env header encryption =
     (case sh_content_header header of
        None \<Rightarrow> Err InvalidHeader
      | Some (ByteHeader bh) \<Rightarrow> Ok (ByteInfo (byte_info_from_headers env header bh encryption))
      | Some (TextHeader th) \<Rightarrow> Ok (TextInfo (text_info_from_headers env header th encryption)))"

fun info_id :: "any_stream_info \<Rightarrow> string" where
  "info_id (ByteInfo i) = bi_id i"
| "info_id (TextInfo i) = ti_id i"

fun info_total_length :: "any_stream_info \<Rightarrow> nat option" where
  "info_total_length (ByteInfo i) = bi_total_length i"
| "info_total_length (TextInfo i) = ti_total_length i"

fun info_encryption_type :: "any_stream_info \<Rightarrow> stream_encryption" where
  "info_encryption_type (ByteInfo i) = bi_encryption_type i"
| "info_encryption_type (TextInfo i) = ti_encryption_type i"

lemma any_info_fields:
  "any_info_try_from env header encryption = Ok info \<Longrightarrow> info_id info = sh_stream_id header \<and>
    info_total_length info = sh_total_length header \<and> info_encryption_type info = encryption"
  by (auto simp: any_info_try_from_def byte_info_from_headers_def text_info_from_headers_def
      split: option.splits content_header.splits)

section \<open>Outgoing streams\<close>

text \<open>
  The request channel to the task that publishes packets.  Every request is logged with its answer: the packet was
  accepted, the channel is closed, or publishing failed; answers come from a script, then all succeed.
\<close>

datatype send_result = SendOk | ChannelClosed | EngineFailed

record packet_link =
  pl_script :: "send_result list"
  pl_log :: "(data_packet \<times> send_result) list"

definition link_answer :: "packet_link \<Rightarrow> send_result" where
  "link_answer l = (case pl_script l of [] \<Rightarrow> SendOk | r # _ \<Rightarrow> r)"

definition link_send :: "data_packet \<Rightarrow> packet_link \<Rightarrow> packet_link" where
  "link_send p l = \<lparr>pl_script = tl (pl_script l), pl_log = pl_log l @ [(p, link_answer l)]\<rparr>"

definition link_published :: "packet_link \<Rightarrow> data_packet list" where
  "link_published l = map fst (filter (\<lambda>(p, r). r = SendOk) (pl_log l))"

definition send_packet :: "data_packet \<Rightarrow> packet_link \<Rightarrow> (stream_error, unit) outcome \<times> packet_link" where
  "send_packet p l =
     ((case link_answer l of SendOk \<Rightarrow> Ok () | ChannelClosed \<Rightarrow> Err Internal | EngineFailed \<Rightarrow> Err SendFailed), link_send p l)"

definition create_header_packet :: "stream_header \<Rightarrow> string list \<Rightarrow> data_packet" where
  "create_header_packet header destination_identities =
     \<lparr>dp_reliable = True, dp_participant_identity = [], dp_destination_identities = destination_identities,
      dp_value = StreamHeader header\<rparr>"

definition create_chunk_packet :: "string \<Rightarrow> nat \<Rightarrow> bytes \<Rightarrow> data_packet" where
  "create_chunk_packet stream_id chunk_index content =
     \<lparr>dp_reliable = True, dp_participant_identity = [], dp_destination_identities = [],
      dp_value = StreamChunk \<lparr>sc_stream_id = stream_id, sc_chunk_index = chunk_index, sc_content = content\<rparr>\<rparr>"

definition create_trailer_packet :: "string \<Rightarrow> string option \<Rightarrow> data_packet" where
  "create_trailer_packet stream_id reason =
     \<lparr>dp_reliable = True, dp_participant_identity = [], dp_destination_identities = [],
      dp_value = StreamTrailer \<lparr>st_stream_id = stream_id, st_reason = unwrap_or [] reason\<rparr>\<rparr>"

record raw_stream =
  rs_id :: string
  rs_progress :: stream_progress
  rs_is_closed :: bool

definition raw_open ::
  "stream_header \<Rightarrow> string list \<Rightarrow> packet_link \<Rightarrow> (stream_error, raw_stream) outcome \<times> packet_link" where
  "raw_open header destination_identities l =
     (let (r, l) = send_packet (create_header_packet header destination_identities) l
      in (and_then r (\<lambda>_. Ok \<lparr>rs_id = sh_stream_id header,
            rs_progress = stream_progress_new (sh_total_length header), rs_is_closed = False\<rparr>), l))"

definition write_chunk ::
  "bytes \<Rightarrow> raw_stream \<times> packet_link \<Rightarrow> (stream_error, unit) outcome \<times> raw_stream \<times> packet_link" where
  "write_chunk bs = (\<lambda>(s, l).
     let (r, l) = send_packet (create_chunk_packet (rs_id s) (sp_chunk_index (rs_progress s)) bs) l
     in case r of
          Ok _ \<Rightarrow> (Ok (), s\<lparr>rs_progress := (rs_progress s)\<lparr>sp_bytes_processed := sp_bytes_processed (rs_progress s) + length bs,
                     sp_chunk_index := sp_chunk_index (rs_progress s) + 1\<rparr>\<rparr>, l)
        | Err e \<Rightarrow> (Err e, s, l)
        | Panic \<Rightarrow> (Panic, s, l))"

definition raw_close ::
  "string option \<Rightarrow> raw_stream \<times> packet_link \<Rightarrow> (stream_error, unit) outcome \<times> raw_stream \<times> packet_link" where
  "raw_close reason = (\<lambda>(s, l).
     if rs_is_closed s then (Err AlreadyClosed, s, l)
     else let (r, l) = send_packet (create_trailer_packet (rs_id s) reason) l
          in case r of Ok _ \<Rightarrow> (Ok (), s\<lparr>rs_is_closed := True\<rparr>, l) | Err e \<Rightarrow> (Err e, s, l) | Panic \<Rightarrow> (Panic, s, l))"

text \<open>Dropping the last writer: a trailer is sent in the background where a runtime exists.\<close>

definition raw_drop :: "bool \<Rightarrow> raw_stream \<times> packet_link \<Rightarrow> packet_link" where
  "raw_drop has_runtime = (\<lambda>(s, l).
     if rs_is_closed s then l
     else if has_runtime then snd (send_packet (create_trailer_packet (rs_id s) None) l) else l)"

fun write_chunks ::
  "bytes list \<Rightarrow> raw_stream \<times> packet_link \<Rightarrow> (stream_error, unit) outcome \<times> raw_stream \<times> packet_link" where
  "write_chunks [] sl = (Ok (), sl)"
| "write_chunks (c # cs) sl =
     (case write_chunk c sl of
        (Ok _, sl) \<Rightarrow> write_chunks cs sl
      | (Err e, sl) \<Rightarrow> (Err e, sl)
      | (Panic, sl) \<Rightarrow> (Panic, sl))"

definition CHUNK_SIZE :: nat where "CHUNK_SIZE = 15000"

text \<open>\<open>chunks\<close> of a byte slice: pieces of the given size, the last one possibly shorter.\<close>

function slice_chunks :: "nat \<Rightarrow> bytes \<Rightarrow> bytes list" where
  "slice_chunks n bs = (if bs = [] \<or> n = 0 then [] else take n bs # slice_chunks n (drop n bs))"
  by pat_completeness auto
termination
  by (relation "measure (\<lambda>(n, bs). length bs)") auto

declare slice_chunks.simps [simp del]

definition write_bytes ::
  "bytes \<Rightarrow> raw_stream \<times> packet_link \<Rightarrow> (stream_error, unit) outcome \<times> raw_stream \<times> packet_link" where
  "write_bytes bs sl = write_chunks (slice_chunks CHUNK_SIZE bs) sl"

text \<open>Writing text; \<open>None\<close> if the chunk iterator does not end.\<close>

definition write_text ::
  "bytes \<Rightarrow> raw_stream \<times> packet_link \<Rightarrow> ((stream_error, unit) outcome \<times> raw_stream \<times> packet_link) option" where
  "write_text text sl =
     (case utf8_chunks_new text CHUNK_SIZE of
        Ok it \<Rightarrow> map_option (\<lambda>cs. write_chunks cs sl) (utf8_collect it)
      | Err e \<Rightarrow> Some (Err e, sl)
      | Panic \<Rightarrow> Some (Panic, sl))"

text \<open>
  Writing a file: what opening gives, then what each read gives.  A read gives at most the 8192 bytes of the
  buffer; an empty one is the end of the file.
\<close>

fun file_reads ::
  "(string, bytes) outcome list \<Rightarrow> raw_stream \<times> packet_link \<Rightarrow> (stream_error, unit) outcome \<times> raw_stream \<times> packet_link" where
  "file_reads [] sl = (Ok (), sl)"
| "file_reads (Err e # rs) sl = (Err (IoError e), sl)"
| "file_reads (Panic # rs) sl = (Panic, sl)"
| "file_reads (Ok bs # rs) sl =
     (if bs = [] then (Ok (), sl)
      else case write_chunk bs sl of
             (Ok _, sl) \<Rightarrow> file_reads rs sl
           | (Err e, sl) \<Rightarrow> (Err e, sl)
           | (Panic, sl) \<Rightarrow> (Panic, sl))"

definition write_file_contents ::
  "(string, (string, bytes) outcome list) outcome \<Rightarrow> raw_stream \<times> packet_link \<Rightarrow>
     (stream_error, unit) outcome \<times> raw_stream \<times> packet_link" where
  "write_file_contents file sl =
     (case file of Ok rs \<Rightarrow> file_reads rs sl | Err e \<Rightarrow> (Err (IoError e), sl) | Panic \<Rightarrow> (Panic, sl))"

section \<open>The outgoing manager\<close>

record stream_byte_options =
  bo_topic :: string
  bo_attributes :: "(string, string) hashmap"
  bo_destination_identities :: "string list"
  bo_id :: "string option"
  bo_mime_type :: "string option"
  bo_name :: "string option"
  bo_total_length :: "nat option"

record stream_text_options =
  to_topic :: string
  to_attributes :: "(string, string) hashmap"
  to_destination_identities :: "string list"
  to_id :: "string option"
  to_operation_type :: "operation_type option"
  to_version :: "i32 option"
  to_reply_to_stream_id :: "string option"
  to_attached_stream_ids :: "string list"
  to_generated :: "bool option"

definition BYTE_MIME_TYPE :: string where "BYTE_MIME_TYPE = ''application/octet-stream''"
definition TEXT_MIME_TYPE :: string where "TEXT_MIME_TYPE = ''text/plain''"

definition text_header_of :: "stream_text_options \<Rightarrow> text_header" where
  "text_header_of options =
     \<lparr>th_operation_type = i32_of_operation (unwrap_or OpCreate (to_operation_type options)),
      th_version = unwrap_or 0 (to_version options),
      th_reply_to_stream_id = unwrap_or [] (to_reply_to_stream_id options),
      th_attached_stream_ids = to_attached_stream_ids options,
      th_generated = unwrap_or False (to_generated options)\<rparr>"

definition text_stream_header :: "stream_env \<Rightarrow> nat option \<Rightarrow> stream_text_options \<Rightarrow> stream_header" where
  "text_stream_header env total_length options =
     \<lparr>sh_stream_id = unwrap_or (env_uuid env) (to_id options), sh_timestamp = env_now env, sh_topic = to_topic options,
      sh_mime_type = TEXT_MIME_TYPE, sh_total_length = total_length, sh_encryption_type = 0,
      sh_attributes = to_attributes options, sh_content_header = Some (TextHeader (text_header_of options))\<rparr>"

definition byte_stream_header ::
  "stream_env \<Rightarrow> string \<Rightarrow> nat option \<Rightarrow> stream_byte_options \<Rightarrow> stream_header" where
  "byte_stream_header env name total_length options =
     \<lparr>sh_stream_id = unwrap_or (env_uuid env) (bo_id options), sh_timestamp = env_now env, sh_topic = bo_topic options,
      sh_mime_type = unwrap_or BYTE_MIME_TYPE (bo_mime_type options), sh_total_length = total_length, sh_encryption_type = 0,
      sh_attributes = bo_attributes options, sh_content_header = Some (ByteHeader \<lparr>bh_name = name\<rparr>)\<rparr>"

definition stream_text ::
  "stream_env \<Rightarrow> stream_text_options \<Rightarrow> packet_link \<Rightarrow>
     (stream_error, text_stream_info \<times> raw_stream) outcome \<times> packet_link" where
  "stream_text env options l =
     (let header = text_stream_header env None options;
          (r, l) = raw_open header (to_destination_identities options) l
      in (and_then r (\<lambda>s. Ok (text_info_from_headers env header (text_header_of options) NoEncryption, s)), l))"

definition stream_bytes ::
  "stream_env \<Rightarrow> stream_byte_options \<Rightarrow> packet_link \<Rightarrow>
     (stream_error, byte_stream_info \<times> raw_stream) outcome \<times> packet_link" where
  "stream_bytes env options l =
     (let header = byte_stream_header env (unwrap_or [] (bo_name options)) (bo_total_length options) options;
          (r, l) = raw_open header (bo_destination_identities options) l
      in (and_then r (\<lambda>s. Ok (byte_info_from_headers env header \<lparr>bh_name = unwrap_or [] (bo_name options)\<rparr> NoEncryption, s)), l))"

text \<open>After a write: close on success, return the first error otherwise; the writer is dropped either way.\<close>

definition close_and_drop ::
  "stream_env \<Rightarrow> 'i \<Rightarrow> (stream_error, unit) outcome \<times> raw_stream \<times> packet_link \<Rightarrow>
     (stream_error, 'i) outcome \<times> packet_link" where
  "close_and_drop env info = (\<lambda>(r, sl).
     case r of
       Ok _ \<Rightarrow> (let (r, sl) = raw_close None sl
               in (and_then r (\<lambda>_. Ok info), raw_drop (env_has_runtime env) sl))
     | Err e \<Rightarrow> (Err e, raw_drop (env_has_runtime env) sl)
     | Panic \<Rightarrow> (Panic, raw_drop (env_has_runtime env) sl))"

definition send_text ::
  "stream_env \<Rightarrow> bytes \<Rightarrow> stream_text_options \<Rightarrow> packet_link \<Rightarrow>
     ((stream_error, text_stream_info) outcome \<times> packet_link) option" where
  "send_text env text options l =
     (let header = text_stream_header env (Some (length text)) options;
          info = text_info_from_headers env header (text_header_of options) NoEncryption
      in case raw_open header (to_destination_identities options) l of
           (Ok s, l) \<Rightarrow> map_option (close_and_drop env info) (write_text text (s, l))
         | (Err e, l) \<Rightarrow> Some (Err e, l)
         | (Panic, l) \<Rightarrow> Some (Panic, l))"

definition send_bytes ::
  "stream_env \<Rightarrow> bytes \<Rightarrow> stream_byte_options \<Rightarrow> packet_link \<Rightarrow>
     (stream_error, byte_stream_info) outcome \<times> packet_link" where
  "send_bytes env bs options l =
     (let name = unwrap_or [] (bo_name options);
          header = byte_stream_header env name (Some (length bs)) options;
          info = byte_info_from_headers env header \<lparr>bh_name = name\<rparr> NoEncryption
      in case raw_open header (bo_destination_identities options) l of
           (Ok s, l) \<Rightarrow> close_and_drop env info (write_bytes bs (s, l))
         | (Err e, l) \<Rightarrow> (Err e, l)
         | (Panic, l) \<Rightarrow> (Panic, l))"

text \<open>\<open>file_size\<close> is the answer of the metadata call, \<open>file_name\<close> the last component of the path.\<close>

definition send_file ::
  "stream_env \<Rightarrow> (string, nat) outcome \<Rightarrow> string option \<Rightarrow> (string, (string, bytes) outcome list) outcome \<Rightarrow>
     stream_byte_options \<Rightarrow> packet_link \<Rightarrow> (stream_error, byte_stream_info) outcome \<times> packet_link" where
  "send_file env file_size file_name file options l =
     (case file_size of
        Err e \<Rightarrow> (Err (IoError e), l)
      | Panic \<Rightarrow> (Panic, l)
      | Ok file_len \<Rightarrow>
          (let name = unwrap_or [] file_name;
              header = byte_stream_header env name (Some file_len) options;
              info = byte_info_from_headers env header \<lparr>bh_name = name\<rparr> NoEncryption
          in case raw_open header (bo_destination_identities options) l of
               (Ok s, l) \<Rightarrow> close_and_drop env info (write_file_contents file (s, l))
             | (Err e, l) \<Rightarrow> (Err e, l)
             | (Panic, l) \<Rightarrow> (Panic, l)))"

section \<open>The incoming manager\<close>

text \<open>
  A channel carries the items of one stream to its reader.  Its items are kept as a history; the reader's position
  does not matter to the manager, only whether the reader still exists.
\<close>

record stream_channel =
  ch_info :: any_stream_info
  ch_identity :: string
  ch_items :: "(stream_error, bytes) outcome list"
  ch_sender :: bool
  ch_reader :: bool

record stream_descriptor =
  sd_progress :: stream_progress
  sd_channel :: nat
  sd_encryption_type :: stream_encryption

record incoming_manager =
  im_open_streams :: "(string, stream_descriptor) hashmap"
  im_channels :: "stream_channel list"
  im_listening :: bool

definition incoming_new :: incoming_manager where
  "incoming_new = \<lparr>im_open_streams = [], im_channels = [], im_listening = True\<rparr>"

definition update_channel :: "nat \<Rightarrow> (stream_channel \<Rightarrow> stream_channel) \<Rightarrow> incoming_manager \<Rightarrow> incoming_manager" where
  "update_channel c f m = m\<lparr>im_channels := (im_channels m)[c := f (im_channels m ! c)]\<rparr>"

text \<open>Sending into a channel fails when its reader is gone; dropping the sender ends the channel.\<close>

definition push_item :: "(stream_error, bytes) outcome \<Rightarrow> stream_channel \<Rightarrow> stream_channel" where
  "push_item item ch = (if ch_reader ch then ch\<lparr>ch_items := ch_items ch @ [item]\<rparr> else ch)"

definition drop_sender :: "stream_channel \<Rightarrow> stream_channel" where
  "drop_sender ch = ch\<lparr>ch_sender := False\<rparr>"

definition close_stream :: "string \<Rightarrow> incoming_manager \<Rightarrow> incoming_manager" where
  "close_stream sid m =
     (case hm_get (im_open_streams m) sid of
        None \<Rightarrow> m
      | Some d \<Rightarrow> update_channel (sd_channel d) drop_sender (m\<lparr>im_open_streams := hm_remove sid (im_open_streams m)\<rparr>))"

definition close_stream_with_error :: "string \<Rightarrow> stream_error \<Rightarrow> incoming_manager \<Rightarrow> incoming_manager" where
  "close_stream_with_error sid e m =
     (case hm_get (im_open_streams m) sid of
        None \<Rightarrow> m
      | Some d \<Rightarrow> update_channel (sd_channel d) (\<lambda>ch. drop_sender (push_item (Err e) ch))
                  (m\<lparr>im_open_streams := hm_remove sid (im_open_streams m)\<rparr>))"

definition yield_chunk :: "string \<Rightarrow> bytes \<Rightarrow> incoming_manager \<Rightarrow> incoming_manager" where
  "yield_chunk sid content m =
     (case hm_get (im_open_streams m) sid of
        None \<Rightarrow> m
      | Some d \<Rightarrow>
          if ch_reader (im_channels m ! sd_channel d) then update_channel (sd_channel d) (push_item (Ok content)) m
          else close_stream sid m)"

definition handle_header :: "stream_env \<Rightarrow> stream_header \<Rightarrow> string \<Rightarrow> stream_encryption \<Rightarrow> incoming_manager \<Rightarrow> incoming_manager" where
  "handle_header env header identity encryption m =
     (case any_info_try_from env header encryption of
        Ok info \<Rightarrow>
          if hm_contains (im_open_streams m) (info_id info) then m
          else m\<lparr>im_channels := im_channels m @ [\<lparr>ch_info = info, ch_identity = identity, ch_items = [], ch_sender = True,
                     ch_reader = im_listening m\<rparr>],
                 im_open_streams := hm_insert (info_id info)
                   \<lparr>sd_progress = stream_progress_new (info_total_length info), sd_channel = length (im_channels m),
                    sd_encryption_type = info_encryption_type info\<rparr> (im_open_streams m)\<rparr>
      | Err e \<Rightarrow> m
      | Panic \<Rightarrow> m)"

definition progress_chunk :: "nat \<Rightarrow> stream_progress \<Rightarrow> stream_progress" where
  "progress_chunk n p = p\<lparr>sp_chunk_index := sp_chunk_index p + 1, sp_bytes_processed := sp_bytes_processed p + n\<rparr>"

definition handle_chunk :: "stream_chunk \<Rightarrow> stream_encryption \<Rightarrow> incoming_manager \<Rightarrow> incoming_manager" where
  "handle_chunk chunk encryption m =
     (let sid = sc_stream_id chunk
      in case hm_get (im_open_streams m) sid of
           None \<Rightarrow> m
         | Some d \<Rightarrow>
             if sd_encryption_type d \<noteq> encryption then close_stream_with_error sid EncryptionTypeMismatch m
             else if sp_chunk_index (sd_progress d) \<noteq> sc_chunk_index chunk then close_stream_with_error sid MissedChunk m
             else let p = progress_chunk (length (sc_content chunk)) (sd_progress d);
                      m = m\<lparr>im_open_streams := hm_insert sid (d\<lparr>sd_progress := p\<rparr>) (im_open_streams m)\<rparr>
                  in if (case sp_bytes_total p of Some whole \<Rightarrow> whole < sp_bytes_processed p | None \<Rightarrow> False)
                     then close_stream_with_error sid LengthExceeded m
                     else yield_chunk sid (sc_content chunk) m)"

definition handle_trailer :: "stream_trailer \<Rightarrow> incoming_manager \<Rightarrow> incoming_manager" where
  "handle_trailer trailer m =
     (let sid = st_stream_id trailer
      in case hm_get (im_open_streams m) sid of
           None \<Rightarrow> m
         | Some d \<Rightarrow>
             if \<not> (case sp_bytes_total (sd_progress d) of
                      Some whole \<Rightarrow> whole \<le> sp_bytes_processed (sd_progress d) | None \<Rightarrow> True)
             then close_stream_with_error sid Incomplete m
             else if st_reason trailer \<noteq> [] then close_stream_with_error sid (AbnormalEnd (st_reason trailer)) m
             else close_stream sid m)"

text \<open>What happens to the manager: packets, readers dropped or closed, and the end of the room task that takes new readers.\<close>

datatype incoming_event =
    RecvHeader stream_header string stream_encryption
  | RecvChunk stream_chunk stream_encryption
  | RecvTrailer stream_trailer
  | ReaderGone nat
  | ListenerGone

fun incoming_handle :: "stream_env \<Rightarrow> incoming_event \<Rightarrow> incoming_manager \<Rightarrow> incoming_manager" where
  "incoming_handle env (RecvHeader header identity e) m = handle_header env header identity e m"
| "incoming_handle env (RecvChunk chunk e) m = handle_chunk chunk e m"
| "incoming_handle env (RecvTrailer trailer) m = handle_trailer trailer m"
| "incoming_handle env (ReaderGone c) m =
     (if c < length (im_channels m) then update_channel c (\<lambda>ch. ch\<lparr>ch_reader := False\<rparr>) m else m)"
| "incoming_handle env ListenerGone m = m\<lparr>im_listening := False\<rparr>"

section \<open>Readers\<close>

text \<open>\<open>read_all\<close> over the items of a channel; \<open>None\<close> while the stream is open and the items are used up.\<close>

fun read_all_bytes :: "bytes \<Rightarrow> (stream_error, bytes) outcome list \<Rightarrow> bool \<Rightarrow> (stream_error, bytes) outcome option" where
  "read_all_bytes buffer [] sender = (if sender then None else Some (Ok buffer))"
| "read_all_bytes buffer (Ok bs # items) sender = read_all_bytes (buffer @ bs) items sender"
| "read_all_bytes buffer (Err e # items) sender = Some (Err e)"
| "read_all_bytes buffer (Panic # items) sender = Some Panic"

definition decode_item :: "(stream_error, bytes) outcome \<Rightarrow> (stream_error, bytes) outcome" where
  "decode_item item = and_then item (\<lambda>bs. if utf8_valid bs then Ok bs else Err Utf8Error)"

fun read_all_text :: "bytes \<Rightarrow> (stream_error, bytes) outcome list \<Rightarrow> bool \<Rightarrow> (stream_error, bytes) outcome option" where
  "read_all_text buffer [] sender = (if sender then None else Some (Ok buffer))"
| "read_all_text buffer (item # items) sender =
     (case decode_item item of
        Ok text \<Rightarrow> read_all_text (buffer @ text) items sender
      | Err e \<Rightarrow> Some (Err e)
      | Panic \<Rightarrow> Some Panic)"

text \<open>
  Writing a stream to a file.  \<open>join\<close> of a path is the name itself if that is absolute.  The file system answers
  the creation, each write and the flush; the result is the path or an error, with what was written.
\<close>

definition path_join :: "string \<Rightarrow> string \<Rightarrow> string" where
  "path_join directory name =
     (if name \<noteq> [] \<and> hd name = CHR ''/'' then name
      else if directory = [] \<or> last directory = CHR ''/'' then directory @ name
      else directory @ ''/'' @ name)"

fun write_items ::
  "string \<Rightarrow> bytes \<Rightarrow> (string, unit) outcome list \<Rightarrow> (string, unit) outcome \<Rightarrow> (stream_error, bytes) outcome list \<Rightarrow> bool \<Rightarrow>
     ((stream_error, string) outcome \<times> bytes) option" where
  "write_items path acc answers flush [] sender =
     (if sender then None
      else Some (case flush of Ok _ \<Rightarrow> Ok path | Err e \<Rightarrow> Err (IoError e) | Panic \<Rightarrow> Panic, acc))"
| "write_items path acc answers flush (Err e # items) sender = Some (Err e, acc)"
| "write_items path acc answers flush (Panic # items) sender = Some (Panic, acc)"
| "write_items path acc [] flush (Ok bs # items) sender = write_items path (acc @ bs) [] flush items sender"
| "write_items path acc (Ok _ # answers) flush (Ok bs # items) sender = write_items path (acc @ bs) answers flush items sender"
| "write_items path acc (Err e # answers) flush (Ok bs # items) sender = Some (Err (IoError e), acc)"
| "write_items path acc (Panic # answers) flush (Ok bs # items) sender = Some (Panic, acc)"

definition write_to_file ::
  "string \<Rightarrow> string option \<Rightarrow> string option \<Rightarrow> byte_stream_info \<Rightarrow> (string, unit) outcome \<Rightarrow> (string, unit) outcome list \<Rightarrow>
     (string, unit) outcome \<Rightarrow> (stream_error, bytes) outcome list \<Rightarrow> bool \<Rightarrow> ((stream_error, string) outcome \<times> bytes) option" where
  "write_to_file temp_dir directory name_override info create answers flush items sender =
     (let path = path_join (unwrap_or temp_dir directory) (unwrap_or (bi_name info) name_override)
      in case create of
           Ok _ \<Rightarrow> write_items path [] answers flush items sender
         | Err e \<Rightarrow> Some (Err (IoError e), [])
         | Panic \<Rightarrow> Some (Panic, []))"

section \<open>The invariant of the incoming manager\<close>

text \<open>
  An open stream has a channel of its own whose items are the chunks counted by its progress, within the announced
  total.  A channel whose sender is gone carries either exactly the announced number of bytes or ends in an error.
\<close>

definition within_total :: "any_stream_info \<Rightarrow> nat \<Rightarrow> bool" where
  "within_total info n \<longleftrightarrow> (case info_total_length info of Some whole \<Rightarrow> n \<le> whole | None \<Rightarrow> True)"

definition channel_open_ok :: "stream_progress \<Rightarrow> stream_channel \<Rightarrow> bool" where
  "channel_open_ok p ch \<longleftrightarrow> ch_sender ch \<and> sp_bytes_total p = info_total_length (ch_info ch) \<and>
     within_total (ch_info ch) (sp_bytes_processed p) \<and>
     (ch_reader ch \<longrightarrow> (\<exists>cs. ch_items ch = map Ok cs \<and> length cs = sp_chunk_index p \<and>
        length (concat cs) = sp_bytes_processed p))"

definition channel_closed_ok :: "stream_channel \<Rightarrow> bool" where
  "channel_closed_ok ch \<longleftrightarrow> \<not> ch_sender ch \<and>
     (ch_reader ch \<longrightarrow> (\<exists>cs. within_total (ch_info ch) (length (concat cs)) \<and>
        (ch_items ch = map Ok cs \<and> (\<forall>whole. info_total_length (ch_info ch) = Some whole \<longrightarrow> length (concat cs) = whole) \<or>
         (\<exists>e. ch_items ch = map Ok cs @ [Err e]))))"

definition descriptor_ok :: "stream_channel list \<Rightarrow> string \<Rightarrow> stream_descriptor \<Rightarrow> bool" where
  "descriptor_ok channels sid d \<longleftrightarrow> sd_channel d < length channels \<and> info_id (ch_info (channels ! sd_channel d)) = sid \<and>
     sd_encryption_type d = info_encryption_type (ch_info (channels ! sd_channel d)) \<and>
     channel_open_ok (sd_progress d) (channels ! sd_channel d)"

definition channel_accounted :: "(string, stream_descriptor) hashmap \<Rightarrow> nat \<Rightarrow> stream_channel \<Rightarrow> bool" where
  "channel_accounted opens c ch \<longleftrightarrow>
     channel_closed_ok ch \<or> (\<exists>d. hm_get opens (info_id (ch_info ch)) = Some d \<and> sd_channel d = c)"

definition im_inv :: "incoming_manager \<Rightarrow> bool" where
  "im_inv m \<longleftrightarrow>
     (\<forall>sid d. hm_get (im_open_streams m) sid = Some d \<longrightarrow> descriptor_ok (im_channels m) sid d) \<and>
     (\<forall>c < length (im_channels m). channel_accounted (im_open_streams m) c (im_channels m ! c))"

lemma im_inv_new [simp]: "im_inv incoming_new"
  by (simp add: im_inv_def incoming_new_def)

lemma im_inv_open:
  assumes "im_inv m" and "hm_get (im_open_streams m) sid = Some d"
  shows "sd_channel d < length (im_channels m)" and "info_id (ch_info (im_channels m ! sd_channel d)) = sid"
    and "channel_open_ok (sd_progress d) (im_channels m ! sd_channel d)"
    and "ch_sender (im_channels m ! sd_channel d)"
  using assms by (auto simp: im_inv_def descriptor_ok_def channel_open_ok_def)

text \<open>Two streams never share a channel.\<close>

lemma im_inv_channel_inj:
  "im_inv m \<Longrightarrow> hm_get (im_open_streams m) sid = Some d \<Longrightarrow> hm_get (im_open_streams m) sid' = Some d' \<Longrightarrow>
    sd_channel d = sd_channel d' \<Longrightarrow> sid = sid'"
  using im_inv_open(2) by metis

lemma update_channel_simps [simp]:
  "im_open_streams (update_channel c f m) = im_open_streams m"
  "im_listening (update_channel c f m) = im_listening m"
  "length (im_channels (update_channel c f m)) = length (im_channels m)"
  "im_channels (update_channel c f m) = (im_channels m)[c := f (im_channels m ! c)]"
  by (simp_all add: update_channel_def)

text \<open>Every handler changes the state in one of two ways: it updates an open stream, or it closes one.\<close>

lemma im_inv_change:
  assumes inv: "im_inv m" and d: "hm_get (im_open_streams m) sid = Some d"
    and opens: "\<And>k. hm_get opens k = (if k = sid then new else hm_get (im_open_streams m) k)"
    and info: "ch_info ch = ch_info (im_channels m ! sd_channel d)"
    and new: "case new of
        Some d' \<Rightarrow> sd_channel d' = sd_channel d \<and> sd_encryption_type d' = sd_encryption_type d \<and> channel_open_ok (sd_progress d') ch
      | None \<Rightarrow> channel_closed_ok ch"
  shows "im_inv (m\<lparr>im_open_streams := opens, im_channels := (im_channels m)[sd_channel d := ch]\<rparr>)" (is "im_inv ?m")
proof -
  have c: "sd_channel d < length (im_channels m)" "info_id (ch_info ch) = sid"
    "sd_encryption_type d = info_encryption_type (ch_info ch)"
    using inv d info by (auto simp: im_inv_def descriptor_ok_def)
  have "descriptor_ok (im_channels ?m) k e" if "hm_get opens k = Some e" for k e
  proof (cases "k = sid")
    case True
    then show ?thesis using that opens new c by (simp add: descriptor_ok_def)
  next
    case False
    then have e: "hm_get (im_open_streams m) k = Some e" using that opens by simp
    then have "sd_channel e \<noteq> sd_channel d" using im_inv_channel_inj [OF inv e d] False by blast
    then show ?thesis using inv e by (simp add: im_inv_def descriptor_ok_def)
  qed
  moreover have "channel_accounted opens i (im_channels ?m ! i)" if "i < length (im_channels ?m)" for i
  proof (cases "i = sd_channel d")
    case True
    then show ?thesis using that opens new c by (cases new) (auto simp: channel_accounted_def)
  next
    case False
    then show ?thesis using that inv opens d by (auto simp: im_inv_def channel_accounted_def)
  qed
  ultimately show ?thesis by (simp add: im_inv_def)
qed

lemma im_inv_update:
  assumes "im_inv m" and "hm_get (im_open_streams m) sid = Some d" and "sd_channel d' = sd_channel d"
    and "sd_encryption_type d' = sd_encryption_type d"
    and "ch_info (f (im_channels m ! sd_channel d)) = ch_info (im_channels m ! sd_channel d)"
    and "channel_open_ok (sd_progress d') (f (im_channels m ! sd_channel d))"
  shows "im_inv (update_channel (sd_channel d) f (m\<lparr>im_open_streams := hm_insert sid d' (im_open_streams m)\<rparr>))"
  using im_inv_change [OF assms(1,2), of "hm_insert sid d' (im_open_streams m)" "Some d'" "f (im_channels m ! sd_channel d)"]
    assms(3-) by (simp add: update_channel_def)

lemma im_inv_close:
  assumes "im_inv m" and "hm_get (im_open_streams m) sid = Some d"
    and "ch_info (f (im_channels m ! sd_channel d)) = ch_info (im_channels m ! sd_channel d)"
    and "channel_closed_ok (f (im_channels m ! sd_channel d))"
  shows "im_inv (update_channel (sd_channel d) f (m\<lparr>im_open_streams := hm_remove sid (im_open_streams m)\<rparr>))"
  using im_inv_change [OF assms(1,2), of "hm_remove sid (im_open_streams m)" None "f (im_channels m ! sd_channel d)"]
    assms(3-) by (simp add: update_channel_def)

lemma channel_closed_error:
  "channel_open_ok p ch \<Longrightarrow> channel_closed_ok (drop_sender (push_item (Err e) ch))"
  by (force simp: channel_open_ok_def channel_closed_ok_def drop_sender_def push_item_def)

lemma channel_item_info [simp]:
  "ch_info (drop_sender ch) = ch_info ch" "ch_info (push_item item ch) = ch_info ch"
  by (simp_all add: drop_sender_def push_item_def)

lemma im_inv_close_error: "im_inv m \<Longrightarrow> im_inv (close_stream_with_error sid e m)"
  unfolding close_stream_with_error_def
  by (auto intro!: im_inv_close channel_closed_error im_inv_open(3) split: option.split)

lemma im_inv_handle_header: "im_inv m \<Longrightarrow> im_inv (handle_header env header identity e m)"
proof -
  assume inv: "im_inv m"
  show ?thesis
  proof (cases "any_info_try_from env header e")
    case (Ok info)
    show ?thesis
    proof (cases "hm_contains (im_open_streams m) (info_id info)")
      case True
      then show ?thesis using inv Ok by (simp add: handle_header_def)
    next
      case False
      define ch where "ch = \<lparr>ch_info = info, ch_identity = identity, ch_items = [], ch_sender = True, ch_reader = im_listening m\<rparr>"
      define d where "d = \<lparr>sd_progress = stream_progress_new (info_total_length info), sd_channel = length (im_channels m),
        sd_encryption_type = info_encryption_type info\<rparr>"
      have m': "handle_header env header identity e m =
          m\<lparr>im_channels := im_channels m @ [ch], im_open_streams := hm_insert (info_id info) d (im_open_streams m)\<rparr>"
        using Ok False by (simp add: handle_header_def ch_def d_def)
      have "descriptor_ok (im_channels m @ [ch]) (info_id info) d"
        by (simp add: descriptor_ok_def d_def ch_def channel_open_ok_def stream_progress_new_def within_total_def split: option.split)
      moreover have "descriptor_ok (im_channels m @ [ch]) sid d'" if "hm_get (im_open_streams m) sid = Some d'" for sid d'
      proof -
        have "descriptor_ok (im_channels m) sid d'" using inv that by (simp add: im_inv_def)
        then show ?thesis by (auto simp: descriptor_ok_def nth_append)
      qed
      moreover have "channel_accounted (hm_insert (info_id info) d (im_open_streams m)) c ((im_channels m @ [ch]) ! c)"
        if c: "c < length (im_channels m @ [ch])" for c
      proof (cases "c = length (im_channels m)")
        case True
        then show ?thesis by (simp add: channel_accounted_def ch_def d_def)
      next
        case old: False
        then have "channel_accounted (im_open_streams m) c (im_channels m ! c)" using inv c by (simp add: im_inv_def)
        then show ?thesis using old c False by (auto simp: channel_accounted_def nth_append hm_contains_def)
      qed
      ultimately show ?thesis by (simp add: im_inv_def m')
    qed
  qed (use inv in \<open>simp_all add: handle_header_def\<close>)
qed

lemma handle_chunk_accepted:
  assumes d: "hm_get (im_open_streams m) (sc_stream_id chunk) = Some d"
    and ok: "sd_encryption_type d = e" "sp_chunk_index (sd_progress d) = sc_chunk_index chunk"
    and p: "p = progress_chunk (length (sc_content chunk)) (sd_progress d)"
    and ch: "ch = im_channels m ! sd_channel d"
    and opens: "opens = hm_insert (sc_stream_id chunk) (d\<lparr>sd_progress := p\<rparr>) (im_open_streams m)"
  shows "handle_chunk chunk e m =
    (if (case sp_bytes_total p of Some whole \<Rightarrow> whole < sp_bytes_processed p | None \<Rightarrow> False)
     then m\<lparr>im_open_streams := hm_remove (sc_stream_id chunk) opens,
        im_channels := (im_channels m)[sd_channel d := drop_sender (push_item (Err LengthExceeded) ch)]\<rparr>
     else if ch_reader ch
     then m\<lparr>im_open_streams := opens, im_channels := (im_channels m)[sd_channel d := push_item (Ok (sc_content chunk)) ch]\<rparr>
     else m\<lparr>im_open_streams := hm_remove (sc_stream_id chunk) opens, im_channels := (im_channels m)[sd_channel d := drop_sender ch]\<rparr>)"
  unfolding handle_chunk_def close_stream_with_error_def yield_chunk_def close_stream_def update_channel_def Let_def
    p ch opens
  by (simp add: d ok)

lemma channel_open_push:
  assumes "channel_open_ok p ch" and "within_total (ch_info ch) (sp_bytes_processed p + length bs)"
  shows "channel_open_ok (progress_chunk (length bs) p) (push_item (Ok bs) ch)"
proof (cases "ch_reader ch")
  case True
  then obtain cs where cs: "ch_items ch = map Ok cs" "length cs = sp_chunk_index p" "length (concat cs) = sp_bytes_processed p"
    using assms(1) by (auto simp: channel_open_ok_def)
  have "map Ok cs @ [Ok bs] = map Ok (cs @ [bs]) \<and> length (cs @ [bs]) = Suc (sp_chunk_index p) \<and>
      length (concat (cs @ [bs])) = sp_bytes_processed p + length bs"
    using cs by simp
  then have "\<exists>cs'. map Ok cs @ [Ok bs] = map Ok cs' \<and> length cs' = Suc (sp_chunk_index p) \<and>
      length (concat cs') = sp_bytes_processed p + length bs" by blast
  then show ?thesis using assms True cs(1) by (simp add: channel_open_ok_def push_item_def progress_chunk_def)
qed (use assms in \<open>simp add: channel_open_ok_def push_item_def progress_chunk_def\<close>)

lemma im_inv_handle_chunk:
  assumes inv: "im_inv m"
  shows "im_inv (handle_chunk chunk e m)"
proof (cases "hm_get (im_open_streams m) (sc_stream_id chunk)")
  case None
  then show ?thesis using inv by (simp add: handle_chunk_def)
next
  case (Some d)
  define p where "p = progress_chunk (length (sc_content chunk)) (sd_progress d)"
  define ch where "ch = im_channels m ! sd_channel d"
  define opens where "opens = hm_insert (sc_stream_id chunk) (d\<lparr>sd_progress := p\<rparr>) (im_open_streams m)"
  have ch: "channel_open_ok (sd_progress d) ch" using im_inv_open(3) [OF inv Some] by (simp add: ch_def)
  have opens_get: "hm_get opens k = (if k = sc_stream_id chunk then Some (d\<lparr>sd_progress := p\<rparr>) else hm_get (im_open_streams m) k)"
    and removed_get: "hm_get (hm_remove (sc_stream_id chunk) opens) k = (if k = sc_stream_id chunk then None else hm_get (im_open_streams m) k)" for k
    by (simp_all add: opens_def)
  show ?thesis
  proof (cases "sd_encryption_type d = e \<and> sp_chunk_index (sd_progress d) = sc_chunk_index chunk")
    case False
    then show ?thesis using Some inv by (auto simp: handle_chunk_def im_inv_close_error Let_def)
  next
    case True
    note step = handle_chunk_accepted [OF Some conjunct1 [OF True] conjunct2 [OF True] p_def ch_def opens_def]
    have "im_inv (m\<lparr>im_open_streams := hm_remove (sc_stream_id chunk) opens,
        im_channels := (im_channels m)[sd_channel d := drop_sender (push_item (Err LengthExceeded) ch)]\<rparr>)"
      by (rule im_inv_change [OF inv Some removed_get]) (simp_all add: ch_def [symmetric] channel_closed_error [OF ch])
    moreover have "im_inv (m\<lparr>im_open_streams := hm_remove (sc_stream_id chunk) opens,
        im_channels := (im_channels m)[sd_channel d := drop_sender ch]\<rparr>)" if "\<not> ch_reader ch"
      using that by (intro im_inv_change [OF inv Some removed_get])
        (simp_all add: ch_def [symmetric] channel_closed_ok_def drop_sender_def)
    moreover have "im_inv (m\<lparr>im_open_streams := opens, im_channels := (im_channels m)[sd_channel d := push_item (Ok (sc_content chunk)) ch]\<rparr>)"
      if fits: "\<not> (case sp_bytes_total p of Some whole \<Rightarrow> whole < sp_bytes_processed p | None \<Rightarrow> False)"
    proof -
      have "within_total (ch_info ch) (sp_bytes_processed (sd_progress d) + length (sc_content chunk))"
        using fits ch by (auto simp: within_total_def channel_open_ok_def p_def progress_chunk_def split: option.splits)
      from channel_open_push [OF ch this] show ?thesis
        by (intro im_inv_change [OF inv Some opens_get]) (simp_all add: ch_def [symmetric] p_def [symmetric])
    qed
    ultimately show ?thesis unfolding step by simp
  qed
qed

lemma channel_closed_complete:
  assumes ch: "channel_open_ok p ch"
    and whole: "case sp_bytes_total p of Some whole \<Rightarrow> whole \<le> sp_bytes_processed p | None \<Rightarrow> True"
  shows "channel_closed_ok (drop_sender ch)"
proof (cases "ch_reader ch")
  case True
  then obtain cs where cs: "ch_items ch = map Ok cs" "length (concat cs) = sp_bytes_processed p"
    using ch by (auto simp: channel_open_ok_def)
  have "within_total (ch_info ch) (length (concat cs)) \<and>
      (\<forall>n. info_total_length (ch_info ch) = Some n \<longrightarrow> length (concat cs) = n)"
    using ch whole unfolding cs(2) by (auto simp: channel_open_ok_def within_total_def)
  then show ?thesis using cs(1) unfolding channel_closed_ok_def by (auto simp: drop_sender_def within_total_def)
qed (simp add: channel_closed_ok_def drop_sender_def)

lemma im_inv_handle_trailer:
  assumes inv: "im_inv m"
  shows "im_inv (handle_trailer trailer m)"
proof (cases "hm_get (im_open_streams m) (st_stream_id trailer)")
  case None
  then show ?thesis using inv by (simp add: handle_trailer_def)
next
  case (Some d)
  have ch: "channel_open_ok (sd_progress d) (im_channels m ! sd_channel d)" by (rule im_inv_open(3) [OF inv Some])
  have "im_inv (close_stream (st_stream_id trailer) m)"
    if "case sp_bytes_total (sd_progress d) of Some whole \<Rightarrow> whole \<le> sp_bytes_processed (sd_progress d) | None \<Rightarrow> True"
  proof -
    have "channel_closed_ok (drop_sender (im_channels m ! sd_channel d))"
      using channel_closed_complete [OF ch that] .
    then show ?thesis using Some inv by (simp add: close_stream_def im_inv_close)
  qed
  then show ?thesis using Some inv by (auto simp: handle_trailer_def Let_def im_inv_close_error)
qed

lemma im_inv_reader_gone:
  assumes inv: "im_inv m"
  shows "im_inv (update_channel c (\<lambda>ch. ch\<lparr>ch_reader := False\<rparr>) m)"
proof -
  have "descriptor_ok (im_channels (update_channel c (\<lambda>ch. ch\<lparr>ch_reader := False\<rparr>) m)) sid d"
    if "hm_get (im_open_streams m) sid = Some d" for sid d
  proof -
    have "descriptor_ok (im_channels m) sid d" using inv that by (simp add: im_inv_def)
    then show ?thesis by (cases "sd_channel d = c") (simp_all add: descriptor_ok_def channel_open_ok_def within_total_def)
  qed
  moreover have "channel_accounted (im_open_streams m) i (im_channels (update_channel c (\<lambda>ch. ch\<lparr>ch_reader := False\<rparr>) m) ! i)"
    if "i < length (im_channels m)" for i
  proof -
    have "channel_accounted (im_open_streams m) i (im_channels m ! i)" using inv that by (simp add: im_inv_def)
    then show ?thesis using that by (cases "i = c") (auto simp: channel_accounted_def channel_closed_ok_def)
  qed
  ultimately show ?thesis by (simp add: im_inv_def)
qed

lemma im_inv_handle: "im_inv m \<Longrightarrow> im_inv (incoming_handle env e m)"
  by (cases e) (simp_all add: im_inv_handle_header im_inv_handle_chunk im_inv_handle_trailer im_inv_reader_gone
      del: update_channel_simps, simp add: im_inv_def)

text \<open>The incoming manager is a machine of the interface, without outputs of its own.\<close>

definition incoming_step :: "stream_env \<Rightarrow> incoming_manager \<Rightarrow> incoming_event \<Rightarrow> incoming_manager \<times> unit list" where
  "incoming_step env m e = (incoming_handle env e m, [])"

interpretation inm: event_machine "incoming_step env" any_event im_inv
  by unfold_locales (simp add: incoming_step_def im_inv_handle)

section \<open>Streams do not disturb each other\<close>

fun event_stream :: "incoming_event \<Rightarrow> string option" where
  "event_stream (RecvHeader header identity e) = Some (sh_stream_id header)"
| "event_stream (RecvChunk chunk e) = Some (sc_stream_id chunk)"
| "event_stream (RecvTrailer trailer) = Some (st_stream_id trailer)"
| "event_stream (ReaderGone c) = None"
| "event_stream ListenerGone = None"

lemma close_stream_effect:
  "hm_get (im_open_streams (close_stream sid m)) k = (if k = sid then None else hm_get (im_open_streams m) k)"
  "hm_get (im_open_streams (close_stream_with_error sid e m)) k = (if k = sid then None else hm_get (im_open_streams m) k)"
  "length (im_channels (close_stream sid m)) = length (im_channels m)"
  "length (im_channels (close_stream_with_error sid e m)) = length (im_channels m)"
  by (auto simp: close_stream_def close_stream_with_error_def split: option.split)

lemma foreign_event_open:
  assumes "event_stream ev \<noteq> Some sid"
  shows "hm_get (im_open_streams (incoming_handle env ev m)) sid = hm_get (im_open_streams m) sid"
proof (cases ev)
  case (RecvHeader header identity e)
  then have "sh_stream_id header \<noteq> sid" using assms by simp
  then show ?thesis
    using RecvHeader any_info_fields [of env header e]
    by (auto simp: handle_header_def split: outcome.split)
next
  case (RecvChunk chunk e)
  then show ?thesis
    using assms by (auto simp: handle_chunk_def Let_def close_stream_effect yield_chunk_def split: option.split)
next
  case (RecvTrailer trailer)
  then show ?thesis
    using assms by (auto simp: handle_trailer_def Let_def close_stream_effect split: option.split)
qed simp_all

lemma foreign_event_channel:
  assumes "c < length (im_channels m)" and "ev \<noteq> ReaderGone c"
    and "\<And>sid d. event_stream ev = Some sid \<Longrightarrow> hm_get (im_open_streams m) sid = Some d \<Longrightarrow> sd_channel d \<noteq> c"
  shows "im_channels (incoming_handle env ev m) ! c = im_channels m ! c"
    and "c < length (im_channels (incoming_handle env ev m))"
proof -
  have "im_channels (incoming_handle env ev m) ! c = im_channels m ! c \<and> c < length (im_channels (incoming_handle env ev m))"
  proof (cases ev)
    case (RecvHeader header identity e)
    then show ?thesis using assms(1) by (auto simp: handle_header_def nth_append split: outcome.split)
  next
    case (RecvChunk chunk e)
    then have "sd_channel d \<noteq> c" if "hm_get (im_open_streams m) (sc_stream_id chunk) = Some d" for d
      using assms(3) that by simp
    then show ?thesis using RecvChunk assms(1)
      by (auto simp: handle_chunk_def Let_def close_stream_with_error_def close_stream_def yield_chunk_def split: option.split)
  next
    case (RecvTrailer trailer)
    then have "sd_channel d \<noteq> c" if "hm_get (im_open_streams m) (st_stream_id trailer) = Some d" for d
      using assms(3) that by simp
    then show ?thesis using RecvTrailer assms(1)
      by (auto simp: handle_trailer_def Let_def close_stream_with_error_def close_stream_def split: option.split)
  qed (use assms in auto)
  then show "im_channels (incoming_handle env ev m) ! c = im_channels m ! c"
    and "c < length (im_channels (incoming_handle env ev m))" by simp_all
qed

text \<open>A channel whose sender is gone never changes again, whatever arrives, even under the same identifier.\<close>

lemma closed_channel_frozen:
  "im_inv m \<Longrightarrow> c < length (im_channels m) \<Longrightarrow> \<not> ch_sender (im_channels m ! c) \<Longrightarrow> ReaderGone c \<notin> set evs \<Longrightarrow>
    im_channels (fold (incoming_handle env) evs m) ! c = im_channels m ! c"
proof (induction evs arbitrary: m)
  case Nil
  then show ?case by simp
next
  case (Cons ev evs)
  have "sd_channel d \<noteq> c" if "hm_get (im_open_streams m) sid = Some d" for sid d
    using im_inv_open(4) [OF Cons.prems(1) that] Cons.prems(3) by auto
  then have step: "im_channels (incoming_handle env ev m) ! c = im_channels m ! c" "c < length (im_channels (incoming_handle env ev m))"
    using foreign_event_channel [OF Cons.prems(2), of ev env] Cons.prems(4) by auto
  have "im_channels (fold (incoming_handle env) evs (incoming_handle env ev m)) ! c = im_channels (incoming_handle env ev m) ! c"
    using step Cons.prems(3,4) by (intro Cons.IH im_inv_handle Cons.prems(1)) simp_all
  then show ?case using step(1) by simp
qed

text \<open>What the manager knows of a stream in reception: its descriptor and its channel.\<close>

definition receiving ::
  "incoming_manager \<Rightarrow> nat \<Rightarrow> stream_encryption \<Rightarrow> nat \<Rightarrow> nat \<Rightarrow> bytes list \<Rightarrow> any_stream_info \<Rightarrow> string \<Rightarrow> bool" where
  "receiving m c e i n cs info identity \<longleftrightarrow> c < length (im_channels m) \<and>
     hm_get (im_open_streams m) (info_id info) =
       Some \<lparr>sd_progress = \<lparr>sp_chunk_index = i, sp_bytes_processed = n, sp_bytes_total = info_total_length info\<rparr>,
             sd_channel = c, sd_encryption_type = e\<rparr> \<and>
     im_channels m ! c = \<lparr>ch_info = info, ch_identity = identity, ch_items = map Ok cs, ch_sender = True, ch_reader = True\<rparr>"

lemma receiving_foreign:
  assumes "im_inv m" and "receiving m c e i n cs info identity" and "event_stream ev \<noteq> Some (info_id info)" and "ev \<noteq> ReaderGone c"
  shows "receiving (incoming_handle env ev m) c e i n cs info identity"
proof -
  have c: "c < length (im_channels m)" using assms(2) by (simp add: receiving_def)
  have "sd_channel d \<noteq> c" if "event_stream ev = Some sid" and "hm_get (im_open_streams m) sid = Some d" for sid d
    using im_inv_channel_inj [OF assms(1) that(2), of "info_id info"] assms(2,3) that by (auto simp: receiving_def)
  note channel = foreign_event_channel [where env = env, OF c assms(4) this]
  show ?thesis using assms(2) channel foreign_event_open [OF assms(3)] by (simp add: receiving_def)
qed

lemma receiving_chunk:
  assumes "receiving m c e i n cs info identity" and "within_total info (n + length bs)"
  shows "receiving (handle_chunk \<lparr>sc_stream_id = info_id info, sc_chunk_index = i, sc_content = bs\<rparr> e m) c e (i + 1) (n + length bs)
    (cs @ [bs]) info identity"
proof -
  define d where "d = \<lparr>sd_progress = \<lparr>sp_chunk_index = i, sp_bytes_processed = n, sp_bytes_total = info_total_length info\<rparr>,
    sd_channel = c, sd_encryption_type = e\<rparr>"
  define chunk where "chunk = \<lparr>sc_stream_id = info_id info, sc_chunk_index = i, sc_content = bs\<rparr>"
  have d: "hm_get (im_open_streams m) (sc_stream_id chunk) = Some d" "sd_encryption_type d = e"
    "sp_chunk_index (sd_progress d) = sc_chunk_index chunk"
    and c: "c < length (im_channels m)" and ch: "im_channels m ! c =
      \<lparr>ch_info = info, ch_identity = identity, ch_items = map Ok cs, ch_sender = True, ch_reader = True\<rparr>"
    using assms(1) by (simp_all add: receiving_def d_def chunk_def)
  have fits: "\<not> (case info_total_length info of Some whole \<Rightarrow> whole < n + length bs | None \<Rightarrow> False)"
    using assms(2) by (auto simp: within_total_def split: option.splits)
  show ?thesis
    unfolding chunk_def [symmetric] handle_chunk_accepted [OF d refl refl refl]
    using fits c ch by (simp add: receiving_def d_def chunk_def progress_chunk_def push_item_def cong: option.case_cong)
qed

lemma receiving_trailer:
  assumes "receiving m c e i n cs info identity" and "\<forall>whole. info_total_length info = Some whole \<longrightarrow> n = whole"
  shows "c < length (im_channels (handle_trailer \<lparr>st_stream_id = info_id info, st_reason = []\<rparr> m)) \<and>
    im_channels (handle_trailer \<lparr>st_stream_id = info_id info, st_reason = []\<rparr> m) ! c =
     \<lparr>ch_info = info, ch_identity = identity, ch_items = map Ok cs, ch_sender = False, ch_reader = True\<rparr>"
  using assms
  by (auto simp: receiving_def handle_trailer_def close_stream_def drop_sender_def split: option.splits)

fun chunk_events :: "string \<Rightarrow> stream_encryption \<Rightarrow> nat \<Rightarrow> bytes list \<Rightarrow> incoming_event list" where
  "chunk_events sid e i [] = []"
| "chunk_events sid e i (bs # bss) =
     RecvChunk \<lparr>sc_stream_id = sid, sc_chunk_index = i, sc_content = bs\<rparr> e # chunk_events sid e (i + 1) bss"

text \<open>The chunks of a stream followed by its trailer, interleaved with any other events, arrive in its channel.\<close>

lemma receiving_all:
  "im_inv m \<Longrightarrow> receiving m c e i n cs info identity \<Longrightarrow> ReaderGone c \<notin> set evs \<Longrightarrow>
    \<forall>whole. info_total_length info = Some whole \<longrightarrow> n + length (concat bss) = whole \<Longrightarrow>
    filter (\<lambda>ev. event_stream ev = Some (info_id info)) evs =
      chunk_events (info_id info) e i bss @ [RecvTrailer \<lparr>st_stream_id = info_id info, st_reason = []\<rparr>] \<Longrightarrow>
    im_channels (fold (incoming_handle env) evs m) ! c =
      \<lparr>ch_info = info, ch_identity = identity, ch_items = map Ok (cs @ bss), ch_sender = False, ch_reader = True\<rparr>"
proof (induction evs arbitrary: m i n cs bss)
  case Nil
  then show ?case by simp
next
  case (Cons ev evs)
  note inv' = im_inv_handle [where env = env and e = ev, OF Cons.prems(1)]
  show ?case
  proof (cases "event_stream ev = Some (info_id info)")
    case False
    then have "receiving (incoming_handle env ev m) c e i n cs info identity"
      using Cons.prems by (intro receiving_foreign) auto
    from Cons.IH [OF inv' this _ Cons.prems(4)] show ?thesis using Cons.prems(3,5) False by simp
  next
    case True
    show ?thesis
    proof (cases bss)
      case Nil
      then have ev: "ev = RecvTrailer \<lparr>st_stream_id = info_id info, st_reason = []\<rparr>" using Cons.prems(5) True by simp
      have total_n: "\<forall>whole. info_total_length info = Some whole \<longrightarrow> n = whole" using Cons.prems(4) Nil by simp
      note closed = receiving_trailer [OF Cons.prems(2) total_n]
      have "im_channels (fold (incoming_handle env) evs (incoming_handle env ev m)) ! c = im_channels (incoming_handle env ev m) ! c"
        using Cons.prems(3) closed ev by (intro closed_channel_frozen inv') simp_all
      then show ?thesis using closed ev Nil by simp
    next
      case (Cons bs rest)
      then have ev: "ev = RecvChunk \<lparr>sc_stream_id = info_id info, sc_chunk_index = i, sc_content = bs\<rparr> e"
        and evs: "filter (\<lambda>ev. event_stream ev = Some (info_id info)) evs =
          chunk_events (info_id info) e (i + 1) rest @ [RecvTrailer \<lparr>st_stream_id = info_id info, st_reason = []\<rparr>]"
        using Cons.prems(5) True by simp_all
      have "within_total info (n + length bs)"
        using Cons.prems(4) Cons by (auto simp: within_total_def split: option.split)
      note next_state = receiving_chunk [OF Cons.prems(2) this]
      have "\<forall>whole. info_total_length info = Some whole \<longrightarrow> n + length bs + length (concat rest) = whole"
        using Cons.prems(4) Cons by (simp add: add.assoc)
      from Cons.IH [OF inv' _ _ this evs, of "cs @ [bs]"] show ?thesis
        using next_state Cons.prems(3) ev Cons by simp
    qed
  qed
qed

section \<open>What a sender publishes\<close>

fun chunk_packets :: "string \<Rightarrow> nat \<Rightarrow> bytes list \<Rightarrow> data_packet list" where
  "chunk_packets sid i [] = []"
| "chunk_packets sid i (bs # bss) = create_chunk_packet sid i bs # chunk_packets sid (i + 1) bss"

text \<open>A data packet as it reaches the incoming manager, from a sender and under an encryption.\<close>

definition packet_event :: "string \<Rightarrow> stream_encryption \<Rightarrow> data_packet \<Rightarrow> incoming_event" where
  "packet_event identity e p =
     (case dp_value p of
        StreamHeader header \<Rightarrow> RecvHeader header identity e
      | StreamChunk chunk \<Rightarrow> RecvChunk chunk e
      | StreamTrailer trailer \<Rightarrow> RecvTrailer trailer)"

lemma packet_event_chunks: "map (packet_event identity e) (chunk_packets sid i bss) = chunk_events sid e i bss"
  by (induction bss arbitrary: i) (simp_all add: packet_event_def create_chunk_packet_def)

lemma link_published_send:
  "link_published (link_send p l) = link_published l @ (if link_answer l = SendOk then [p] else [])"
  by (simp add: link_published_def link_send_def)

lemma send_packet_Ok: "send_packet p l = (Ok u, l') \<Longrightarrow> link_published l' = link_published l @ [p]"
  by (auto simp: send_packet_def link_published_send split: send_result.splits)

lemma write_chunk_Ok:
  "write_chunk bs (s, l) = (Ok u, s', l') \<Longrightarrow>
    link_published l' = link_published l @ [create_chunk_packet (rs_id s) (sp_chunk_index (rs_progress s)) bs] \<and>
    rs_id s' = rs_id s \<and> rs_is_closed s' = rs_is_closed s \<and> sp_chunk_index (rs_progress s') = sp_chunk_index (rs_progress s) + 1 \<and>
    sp_bytes_processed (rs_progress s') = sp_bytes_processed (rs_progress s) + length bs"
  by (auto simp: write_chunk_def dest: send_packet_Ok split: prod.splits outcome.splits)

lemma write_chunks_Ok:
  "write_chunks bss (s, l) = (Ok u, s', l') \<Longrightarrow>
    link_published l' = link_published l @ chunk_packets (rs_id s) (sp_chunk_index (rs_progress s)) bss \<and>
    rs_id s' = rs_id s \<and> rs_is_closed s' = rs_is_closed s"
proof (induction bss arbitrary: s l)
  case Nil
  then show ?case by simp
next
  case (Cons bs bss)
  then obtain s1 l1 where w: "write_chunk bs (s, l) = (Ok (), s1, l1)" "write_chunks bss (s1, l1) = (Ok u, s', l')"
    by (auto split: prod.splits outcome.splits)
  from Cons.IH [OF w(2)] write_chunk_Ok [OF w(1)] show ?case by simp
qed

lemma raw_open_Ok:
  "raw_open header dests l = (Ok s, l') \<Longrightarrow> link_published l' = link_published l @ [create_header_packet header dests] \<and>
    rs_id s = sh_stream_id header \<and> \<not> rs_is_closed s \<and> sp_chunk_index (rs_progress s) = 0"
  by (auto simp: raw_open_def Let_def stream_progress_new_def dest!: send_packet_Ok split: prod.splits
      simp: rust_simps)

lemma close_and_drop_Ok:
  assumes "close_and_drop env info (r, s, l) = (Ok i, l')" and "\<not> rs_is_closed s"
  shows "i = info \<and> r = Ok () \<and> link_published l' = link_published l @ [create_trailer_packet (rs_id s) None]"
proof (cases r)
  case (Ok u)
  show ?thesis
  proof (cases "send_packet (create_trailer_packet (rs_id s) None) l")
    case (Pair q l1)
    then show ?thesis
      using assms Ok send_packet_Ok [of "create_trailer_packet (rs_id s) None" l "()" l1]
      by (cases q) (auto simp: close_and_drop_def raw_close_def raw_drop_def)
  qed
qed (use assms(1) in \<open>auto simp: close_and_drop_def\<close>)

text \<open>A stream whose sending succeeded was published as its header, its numbered chunks and one trailer.\<close>

definition stream_packets :: "stream_header \<Rightarrow> string list \<Rightarrow> bytes list \<Rightarrow> data_packet list" where
  "stream_packets header dests bss =
     create_header_packet header dests # chunk_packets (sh_stream_id header) 0 bss @ [create_trailer_packet (sh_stream_id header) None]"

lemma sent_stream_packets:
  assumes "raw_open header dests l = (Ok s, l1)"
    and "close_and_drop env info (write_chunks bss (s, l1)) = (Ok i, l')"
  shows "i = info \<and> link_published l' = link_published l @ stream_packets header dests bss"
proof -
  obtain r s2 l2 where w: "write_chunks bss (s, l1) = (r, s2, l2)" by (metis prod.exhaust)
  note opened = raw_open_Ok [OF assms(1)]
  have "rs_is_closed s2 = rs_is_closed s \<and> rs_id s2 = rs_id s" if "r = Ok ()"
    using write_chunks_Ok [of bss s l1 "()" s2 l2] w that by simp
  moreover have "r = Ok ()" using assms(2) unfolding w by (cases r) (auto simp: close_and_drop_def)
  ultimately have closed: "\<not> rs_is_closed s2" "rs_id s2 = sh_stream_id header" and r: "r = Ok ()" using opened by simp_all
  have "link_published l2 = link_published l1 @ chunk_packets (rs_id s) (sp_chunk_index (rs_progress s)) bss"
    using write_chunks_Ok [of bss s l1 "()" s2 l2] w r by simp
  then show ?thesis
    using close_and_drop_Ok [of env info r s2 l2 i l'] assms(2) closed opened unfolding w by (simp add: stream_packets_def)
qed

lemma concat_slice_chunks: "0 < n \<Longrightarrow> concat (slice_chunks n bs) = bs"
  by (induction n bs rule: slice_chunks.induct) (subst slice_chunks.simps, simp)

lemma send_bytes_Ok:
  assumes "send_bytes env bs options l = (Ok info, l')"
  shows "info = byte_info_from_headers env (byte_stream_header env (unwrap_or [] (bo_name options)) (Some (length bs)) options)
      \<lparr>bh_name = unwrap_or [] (bo_name options)\<rparr> NoEncryption \<and>
    link_published l' = link_published l @ stream_packets (byte_stream_header env (unwrap_or [] (bo_name options)) (Some (length bs)) options)
      (bo_destination_identities options) (slice_chunks CHUNK_SIZE bs)"
  using assms unfolding send_bytes_def Let_def write_bytes_def
  by (auto dest: sent_stream_packets split: prod.splits outcome.splits)

lemma send_text_Ok:
  assumes "send_text env text options l = Some (Ok info, l')" and "utf8_valid text"
  shows "\<exists>bss. info = text_info_from_headers env (text_stream_header env (Some (length text)) options) (text_header_of options) NoEncryption \<and>
    concat bss = text \<and> list_all utf8_valid bss \<and>
    link_published l' = link_published l @ stream_packets (text_stream_header env (Some (length text)) options)
      (to_destination_identities options) bss"
proof -
  obtain bss where bss: "utf8_collect \<lparr>uc_bytes = text, uc_chunk_size = CHUNK_SIZE\<rparr> = Some bss" "concat bss = text"
    "list_all (\<lambda>c. c \<noteq> [] \<and> length c \<le> CHUNK_SIZE \<and> utf8_valid c) bss"
    using utf8_collect_shape [of CHUNK_SIZE "text"] assms(2) by (auto simp: CHUNK_SIZE_def)
  have it: "utf8_chunks_new text CHUNK_SIZE = Ok \<lparr>uc_bytes = text, uc_chunk_size = CHUNK_SIZE\<rparr>"
    by (simp add: utf8_chunks_new_def CHUNK_SIZE_def)
  have valid: "list_all utf8_valid bss" using bss(3) by (auto simp: list_all_iff)
  have written: "write_text text sl = Some (write_chunks bss sl)" for sl by (simp add: write_text_def it bss(1))
  show ?thesis
    using assms(1) bss(2) valid unfolding send_text_def Let_def written
    by (intro exI [of _ bss]) (auto dest: sent_stream_packets split: prod.splits outcome.splits)
qed

section \<open>A stream from header to trailer\<close>

lemma sent_stream_received:
  assumes inv: "im_inv m" and listening: "im_listening m" and fresh: "hm_get (im_open_streams m) (sh_stream_id header) = None"
    and info: "any_info_try_from env header e = Ok info"
    and total_ok: "\<forall>whole. sh_total_length header = Some whole \<longrightarrow> length (concat bss) = whole"
    and reader: "ReaderGone (length (im_channels m)) \<notin> set evs"
    and evs: "ev # filter (\<lambda>ev. event_stream ev = Some (sh_stream_id header)) evs = map (packet_event identity e) (stream_packets header dests bss)"
  shows "im_channels (fold (incoming_handle env) (ev # evs) m) ! length (im_channels m) =
    \<lparr>ch_info = info, ch_identity = identity, ch_items = map Ok bss, ch_sender = False, ch_reader = True\<rparr>"
proof -
  note fields = any_info_fields [OF info]
  have ev: "ev = RecvHeader header identity e"
    and rest: "filter (\<lambda>ev. event_stream ev = Some (info_id info)) evs =
      chunk_events (info_id info) e 0 bss @ [RecvTrailer \<lparr>st_stream_id = info_id info, st_reason = []\<rparr>]"
    using evs fields packet_event_chunks [of identity e "sh_stream_id header" 0 bss]
    by (simp_all add: stream_packets_def packet_event_def create_header_packet_def create_trailer_packet_def)
  have start: "receiving (incoming_handle env ev m) (length (im_channels m)) e 0 0 [] info identity"
    using info fields fresh listening
    by (simp add: ev receiving_def handle_header_def hm_contains_def stream_progress_new_def)
  have "\<forall>whole. info_total_length info = Some whole \<longrightarrow> 0 + length (concat bss) = whole" using total_ok fields by simp
  from receiving_all [OF im_inv_handle [OF inv] start reader this rest] show ?thesis by simp
qed

lemma read_all_bytes_items: "read_all_bytes buffer (map Ok bss) False = Some (Ok (buffer @ concat bss))"
  by (induction bss arbitrary: buffer) simp_all

lemma read_all_text_items:
  "list_all utf8_valid bss \<Longrightarrow> read_all_text buffer (map Ok bss) False = Some (Ok (buffer @ concat bss))"
  by (induction bss arbitrary: buffer) (simp_all add: decode_item_def del: utf8_valid.simps)

lemma incoming_run: "fst (run_events (incoming_step env) m evs) = fold (incoming_handle env) evs m"
  by (induction evs arbitrary: m) (simp_all add: incoming_step_def Let_def split_beta)

lemma reachable_im_inv: "im_inv (fold (incoming_handle env) evs incoming_new)"
  using inm.run_inv [of incoming_new evs env] by (simp add: incoming_run)
section \<open>Observations on the stream protocol\<close>

text \<open>Only the header of a stream names its destinations: chunks and trailers go to everyone.\<close>

lemma only_header_has_destinations:
  "p \<in> set (stream_packets header dests bss) \<Longrightarrow> p \<noteq> create_header_packet header dests \<Longrightarrow> dp_destination_identities p = []"
proof -
  have "dp_destination_identities q = []" if "q \<in> set (chunk_packets sid i bss)" for q sid i
    using that by (induction bss arbitrary: i) (auto simp: create_chunk_packet_def)
  then show "p \<in> set (stream_packets header dests bss) \<Longrightarrow> p \<noteq> create_header_packet header dests \<Longrightarrow> dp_destination_identities p = []"
    by (auto simp: stream_packets_def create_trailer_packet_def)
qed

text \<open>
  A stream of unknown length whose second chunk cannot be sent publishes the packets of a complete stream of one
  chunk once its writer is dropped: the reader takes the part for the whole.
\<close>

lemma aborted_stream_looks_complete:
  assumes "raw_open header dests \<lparr>pl_script = [SendOk, SendOk, EngineFailed], pl_log = []\<rparr> = (Ok s, l1)"
    and "write_chunks [a, b] (s, l1) = (r, s2, l2)"
  shows "r = Err SendFailed \<and> link_published (raw_drop True (s2, l2)) = stream_packets header dests [a]"
  using assms
  by (auto simp: raw_open_def send_packet_def link_send_def link_answer_def write_chunk_def raw_drop_def link_published_def
      stream_packets_def stream_progress_new_def Let_def)

text \<open>A clone of a closed writer writes without an error, and the receiver drops what it writes.\<close>

lemma write_after_close_is_lost:
  assumes "rs_is_closed s" and "pl_script l = []" and "hm_get (im_open_streams m) (rs_id s) = None"
  shows "fst (write_chunk bs (s, l)) = Ok () \<and>
    handle_chunk \<lparr>sc_stream_id = rs_id s, sc_chunk_index = i, sc_content = bs\<rparr> e m = m"
  using assms by (simp add: write_chunk_def send_packet_def link_answer_def handle_chunk_def)

text \<open>The sender of a chunk or trailer is not looked at: any participant can add to or end a stream whose identifier it knows.\<close>

lemma sender_ignored:
  "dp_value p = StreamChunk chunk \<or> dp_value p = StreamTrailer trailer \<Longrightarrow> packet_event identity e p = packet_event identity' e p"
  by (auto simp: packet_event_def)

text \<open>The name a sender gave its stream decides where the file is written, if it is an absolute path.\<close>

lemma sender_chooses_path: "path_join directory (CHR ''/'' # name) = CHR ''/'' # name"
  by (simp add: path_join_def)

section \<open>Properties\<close>

text \<open>
  C23: Bytes sent are the bytes read.  If sending succeeded and the packets of the stream reach a manager in order, interleaved with
  any packets of other streams, the reader that the header opens has the sender's information and its bytes are
  exactly those sent.
\<close>

theorem send_bytes_roundtrip:
  assumes "m = fold (incoming_handle env') earlier incoming_new" and "im_listening m"
    and "hm_get (im_open_streams m) (bi_id info) = None"
    and "send_bytes env bs options l = (Ok info, l')" and "link_published l = []"
    and "env_from_millis env' = env_from_millis env" and "env_from_millis env (env_now env) \<noteq> None"
    and "ReaderGone (length (im_channels m)) \<notin> set evs"
    and "ev # filter (\<lambda>ev. event_stream ev = Some (bi_id info)) evs = map (packet_event identity e) (link_published l')"
    and "ch = im_channels (fold (incoming_handle env') (ev # evs) m) ! length (im_channels m)"
  shows "ch_info ch = ByteInfo (info\<lparr>bi_encryption_type := e\<rparr>) \<and> ch_identity ch = identity \<and>
    read_all_bytes [] (ch_items ch) (ch_sender ch) = Some (Ok bs)"
proof -
  define header where "header = byte_stream_header env (unwrap_or [] (bo_name options)) (Some (length bs)) options"
  note sent = send_bytes_Ok [OF assms(4), folded header_def]
  have id_eq: "bi_id info = sh_stream_id header" using sent by (simp add: byte_info_from_headers_def)
  have content: "sh_content_header header = Some (ByteHeader \<lparr>bh_name = unwrap_or [] (bo_name options)\<rparr>)"
    and stamp: "sh_timestamp header = env_now env"
    and total_ok: "\<forall>whole. sh_total_length header = Some whole \<longrightarrow> length (concat (slice_chunks CHUNK_SIZE bs)) = whole"
    by (simp_all add: header_def byte_stream_header_def concat_slice_chunks CHUNK_SIZE_def)
  have "any_info_try_from env' header e = Ok (ByteInfo (info\<lparr>bi_encryption_type := e\<rparr>))"
    using sent content stamp assms(6,7) by (auto simp: any_info_try_from_def byte_info_from_headers_def)
  from sent_stream_received [OF _ assms(2) _ this total_ok assms(8), of ev identity "bo_destination_identities options"]
  have "ch = \<lparr>ch_info = ByteInfo (info\<lparr>bi_encryption_type := e\<rparr>), ch_identity = identity,
      ch_items = map Ok (slice_chunks CHUNK_SIZE bs), ch_sender = False, ch_reader = True\<rparr>"
    using assms(1,3,5,9,10) sent id_eq reachable_im_inv by simp
  then show ?thesis by (simp add: read_all_bytes_items concat_slice_chunks CHUNK_SIZE_def)
qed

theorem send_bytes_roundtrip_witness:
  "\<exists>info l' ch. send_bytes \<lparr>env_from_millis = Some, env_now = 5, env_uuid = ''u'', env_has_runtime = True\<rparr> [1, 2, 3]
      \<lparr>bo_topic = ''t'', bo_attributes = [], bo_destination_identities = [], bo_id = None, bo_mime_type = None, bo_name = None,
       bo_total_length = None\<rparr> \<lparr>pl_script = [], pl_log = []\<rparr> = (Ok info, l') \<and>
    ch = im_channels (fold (incoming_handle \<lparr>env_from_millis = Some, env_now = 9, env_uuid = ''v'', env_has_runtime = True\<rparr>)
      (hd (map (packet_event ''alice'' GcmEncryption) (link_published l')) # RecvTrailer \<lparr>st_stream_id = ''other'', st_reason = []\<rparr> #
       tl (map (packet_event ''alice'' GcmEncryption) (link_published l'))) incoming_new) ! 0 \<and>
    read_all_bytes [] (ch_items ch) (ch_sender ch) = Some (Ok [1, 2, 3])"
proof -
  let ?env = "\<lparr>env_from_millis = Some, env_now = 5, env_uuid = ''u'', env_has_runtime = True\<rparr>"
  let ?env' = "\<lparr>env_from_millis = Some, env_now = 9, env_uuid = ''v'', env_has_runtime = True\<rparr>"
  let ?options = "\<lparr>bo_topic = ''t'', bo_attributes = [], bo_destination_identities = [], bo_id = None, bo_mime_type = None, bo_name = None,
       bo_total_length = None\<rparr>"
  let ?link = "\<lparr>pl_script = [], pl_log = []\<rparr>"
  have chunks: "slice_chunks CHUNK_SIZE [1, 2, 3] = [[1, 2, 3 :: u8]]"
    by (simp add: slice_chunks.simps CHUNK_SIZE_def)
  obtain info l' where sent: "send_bytes ?env [1, 2, 3] ?options ?link = (Ok info, l')"
    by (simp add: send_bytes_def raw_open_def send_packet_def link_send_def link_answer_def write_bytes_def chunks write_chunk_def
        close_and_drop_def raw_close_def raw_drop_def Let_def)
  note result = send_bytes_Ok [OF sent]
  let ?P = "map (packet_event ''alice'' GcmEncryption) (link_published l')"
  have "?P = [hd ?P] @ tl ?P \<and> filter (\<lambda>ev. event_stream ev = Some (bi_id info)) (RecvTrailer \<lparr>st_stream_id = ''other'', st_reason = []\<rparr> # tl ?P) = tl ?P
      \<and> ReaderGone 0 \<notin> set (RecvTrailer \<lparr>st_stream_id = ''other'', st_reason = []\<rparr> # tl ?P)"
    using result by (simp add: stream_packets_def chunks byte_info_from_headers_def byte_stream_header_def packet_event_def
        create_header_packet_def create_chunk_packet_def create_trailer_packet_def link_published_def)
  then have evs: "hd ?P # filter (\<lambda>ev. event_stream ev = Some (bi_id info)) (RecvTrailer \<lparr>st_stream_id = ''other'', st_reason = []\<rparr> # tl ?P) = ?P"
    and gone: "ReaderGone (length (im_channels incoming_new)) \<notin> set (RecvTrailer \<lparr>st_stream_id = ''other'', st_reason = []\<rparr> # tl ?P)"
    by (simp_all add: incoming_new_def)
  have start: "incoming_new = fold (incoming_handle ?env') [] incoming_new" "im_listening incoming_new"
    "hm_get (im_open_streams incoming_new) (bi_id info) = None" "link_published ?link = []" "length (im_channels incoming_new) = 0"
    by (simp_all add: incoming_new_def link_published_def)
  have same: "env_from_millis ?env' = env_from_millis ?env" "env_from_millis ?env (env_now ?env) \<noteq> None" by simp_all
  from send_bytes_roundtrip [OF start(1-3) sent start(4) same gone evs refl] sent show ?thesis
    unfolding start(5) by blast
qed

text \<open>
  Text sent is the text read.  As for bytes, for any text: every chunk decodes by itself, and together they are the text.
\<close>

theorem send_text_roundtrip:
  assumes "m = fold (incoming_handle env') earlier incoming_new" and "im_listening m"
    and "hm_get (im_open_streams m) (ti_id info) = None"
    and "utf8_valid txt" and "send_text env txt options l = Some (Ok info, l')" and "link_published l = []"
    and "env_from_millis env' = env_from_millis env" and "env_from_millis env (env_now env) \<noteq> None"
    and "ReaderGone (length (im_channels m)) \<notin> set evs"
    and "ev # filter (\<lambda>ev. event_stream ev = Some (ti_id info)) evs = map (packet_event identity e) (link_published l')"
    and "ch = im_channels (fold (incoming_handle env') (ev # evs) m) ! length (im_channels m)"
  shows "ch_info ch = TextInfo (info\<lparr>ti_encryption_type := e\<rparr>) \<and> ch_identity ch = identity \<and>
    read_all_text [] (ch_items ch) (ch_sender ch) = Some (Ok txt)"
proof -
  define header where "header = text_stream_header env (Some (length txt)) options"
  obtain bss where sent: "info = text_info_from_headers env header (text_header_of options) NoEncryption"
    "concat bss = txt" "list_all utf8_valid bss"
    "link_published l' = link_published l @ stream_packets header (to_destination_identities options) bss"
    using send_text_Ok [OF assms(5,4), folded header_def] by blast
  have id_eq: "ti_id info = sh_stream_id header" using sent by (simp add: text_info_from_headers_def)
  have content: "sh_content_header header = Some (TextHeader (text_header_of options))"
    and stamp: "sh_timestamp header = env_now env"
    and total_ok: "\<forall>whole. sh_total_length header = Some whole \<longrightarrow> length (concat bss) = whole"
    by (simp_all add: header_def text_stream_header_def sent(2))
  have "any_info_try_from env' header e = Ok (TextInfo (info\<lparr>ti_encryption_type := e\<rparr>))"
    using sent content stamp assms(7,8) by (auto simp: any_info_try_from_def text_info_from_headers_def)
  from sent_stream_received [OF _ assms(2) _ this total_ok assms(9), of ev identity "to_destination_identities options"]
  have "ch = \<lparr>ch_info = TextInfo (info\<lparr>ti_encryption_type := e\<rparr>), ch_identity = identity,
      ch_items = map Ok bss, ch_sender = False, ch_reader = True\<rparr>"
    using assms(1,3,6,10,11) sent id_eq reachable_im_inv by simp
  then show ?thesis by (simp add: read_all_text_items sent(2,3))
qed

theorem send_text_roundtrip_witness:
  "\<exists>info l'. send_text \<lparr>env_from_millis = Some, env_now = 5, env_uuid = ''u'', env_has_runtime = True\<rparr> [0x68, 0x69]
      \<lparr>to_topic = ''t'', to_attributes = [], to_destination_identities = [], to_id = None, to_operation_type = None, to_version = None,
       to_reply_to_stream_id = None, to_attached_stream_ids = [], to_generated = None\<rparr> \<lparr>pl_script = [], pl_log = []\<rparr> = Some (Ok info, l') \<and>
    ch_info (im_channels (fold (incoming_handle \<lparr>env_from_millis = Some, env_now = 9, env_uuid = ''v'', env_has_runtime = True\<rparr>)
      (map (packet_event ''alice'' NoEncryption) (link_published l')) incoming_new) ! 0) = TextInfo info"
proof -
  let ?env = "\<lparr>env_from_millis = Some, env_now = 5, env_uuid = ''u'', env_has_runtime = True\<rparr>"
  let ?env' = "\<lparr>env_from_millis = Some, env_now = 9, env_uuid = ''v'', env_has_runtime = True\<rparr>"
  let ?options = "\<lparr>to_topic = ''t'', to_attributes = [], to_destination_identities = [], to_id = None, to_operation_type = None, to_version = None,
       to_reply_to_stream_id = None, to_attached_stream_ids = [], to_generated = None\<rparr>"
  let ?link = "\<lparr>pl_script = [], pl_log = []\<rparr>"
  have valid: "utf8_valid [0x68, 0x69]" by (simp add: utf8_len_def utf8_second_ok_def)
  have finished: "utf8_collect \<lparr>uc_bytes = [], uc_chunk_size = 15000\<rparr> = Some []"
    by (subst utf8_collect.simps) (simp add: utf8_chunks_next_def)
  have chunks: "utf8_collect \<lparr>uc_bytes = [0x68, 0x69], uc_chunk_size = 15000\<rparr> = Some [[0x68, 0x69]]"
    by (subst utf8_collect.simps) (simp add: utf8_chunks_next_def finished)
  obtain info l' where sent: "send_text ?env [0x68, 0x69] ?options ?link = Some (Ok info, l')"
    by (simp add: send_text_def raw_open_def send_packet_def link_send_def link_answer_def write_text_def utf8_chunks_new_def CHUNK_SIZE_def
        chunks write_chunk_def close_and_drop_def raw_close_def raw_drop_def Let_def)
  obtain bss where result: "info = text_info_from_headers ?env (text_stream_header ?env (Some (Suc (Suc 0))) ?options) (text_header_of ?options) NoEncryption"
    "link_published l' = stream_packets (text_stream_header ?env (Some (Suc (Suc 0))) ?options) [] bss"
    using send_text_Ok [OF sent valid] by (auto simp: link_published_def)
  let ?P = "map (packet_event ''alice'' NoEncryption) (link_published l')"
  have sid: "bs_ev \<in> set (chunk_events sid en i cs) \<Longrightarrow> event_stream bs_ev = Some sid \<and> bs_ev \<noteq> ReaderGone n" for bs_ev sid en i cs n
    by (induction cs arbitrary: i) auto
  have tail: "tl ?P = chunk_events (ti_id info) NoEncryption 0 bss @ [RecvTrailer \<lparr>st_stream_id = ti_id info, st_reason = []\<rparr>]"
    using result packet_event_chunks [of "''alice''" NoEncryption "''u''" 0 bss]
    by (simp add: stream_packets_def text_info_from_headers_def text_stream_header_def packet_event_def create_trailer_packet_def)
  have "filter (\<lambda>ev. event_stream ev = Some (ti_id info)) (tl ?P) = tl ?P"
    unfolding tail by (auto simp: filter_id_conv dest: sid)
  moreover have whole: "hd ?P # tl ?P = ?P" using result by (simp add: stream_packets_def)
  ultimately have evs: "hd ?P # filter (\<lambda>ev. event_stream ev = Some (ti_id info)) (tl ?P) = ?P" by simp
  have gone: "ReaderGone (length (im_channels incoming_new)) \<notin> set (tl ?P)"
    unfolding tail using sid by fastforce
  have start: "incoming_new = fold (incoming_handle ?env') [] incoming_new" "im_listening incoming_new"
    "hm_get (im_open_streams incoming_new) (ti_id info) = None" "link_published ?link = []" "length (im_channels incoming_new) = 0"
    by (simp_all add: incoming_new_def link_published_def)
  have same: "env_from_millis ?env' = env_from_millis ?env" "env_from_millis ?env (env_now ?env) \<noteq> None" by simp_all
  from send_text_roundtrip [OF start(1-3) valid sent start(4) same gone evs refl]
  have "ch_info (im_channels (fold (incoming_handle ?env') ?P incoming_new) ! 0) = TextInfo (info\<lparr>ti_encryption_type := NoEncryption\<rparr>)"
    unfolding start(5) whole by simp
  moreover have "info\<lparr>ti_encryption_type := NoEncryption\<rparr> = info" using result(1) by (simp add: text_info_from_headers_def)
  ultimately show ?thesis using sent by auto
qed

text \<open>
  A finite stream is never cut short.  Whatever packets arrive, from whomever, a reader that returns data for a stream
  of announced length returns exactly that many bytes; and a reader that still waits belongs to an open stream.
\<close>

theorem finite_stream_complete:
  assumes "m = fold (incoming_handle env) evs incoming_new" and "c < length (im_channels m)"
    and "ch = im_channels m ! c" and "ch_reader ch"
  shows "(\<forall>data whole. read_all_bytes [] (ch_items ch) (ch_sender ch) = Some (Ok data) \<and> info_total_length (ch_info ch) = Some whole
      \<longrightarrow> length data = whole) \<and>
    (read_all_bytes [] (ch_items ch) (ch_sender ch) = None \<longrightarrow>
      (\<exists>d. hm_get (im_open_streams m) (info_id (ch_info ch)) = Some d \<and> sd_channel d = c))"
proof -
  have inv: "im_inv m" using assms(1) reachable_im_inv by simp
  then have acc: "channel_accounted (im_open_streams m) c ch" using assms(2,3) by (simp add: im_inv_def)
  have failing: "read_all_bytes b (map Ok cs @ [Err er]) s = Some (Err er)" for b cs er s
    by (induction cs arbitrary: b) simp_all
  show ?thesis
  proof (cases "channel_closed_ok ch")
    case True
    then show ?thesis using assms(4) by (auto simp: channel_closed_ok_def read_all_bytes_items failing)
  next
    case False
    then obtain d where d: "hm_get (im_open_streams m) (info_id (ch_info ch)) = Some d" "sd_channel d = c"
      using acc by (auto simp: channel_accounted_def)
    then obtain cs where "ch_items ch = map Ok cs" "ch_sender ch"
      using im_inv_open(3) [OF inv d(1)] assms(3,4) by (auto simp: channel_open_ok_def)
    moreover have "read_all_bytes b (map Ok cs) True = None" for b cs
      by (induction cs arbitrary: b) simp_all
    ultimately show ?thesis using d by simp
  qed
qed

theorem finite_stream_complete_witness:
  "read_all_bytes [] (ch_items (im_channels (fold (incoming_handle \<lparr>env_from_millis = Some, env_now = 5, env_uuid = ''u'', env_has_runtime = True\<rparr>)
      [RecvHeader \<lparr>sh_stream_id = ''s'', sh_timestamp = 0, sh_topic = [], sh_mime_type = [], sh_total_length = Some 2, sh_encryption_type = 0,
         sh_attributes = [], sh_content_header = Some (ByteHeader \<lparr>bh_name = []\<rparr>)\<rparr> ''bob'' NoEncryption,
       RecvChunk \<lparr>sc_stream_id = ''s'', sc_chunk_index = 0, sc_content = [7]\<rparr> NoEncryption,
       RecvTrailer \<lparr>st_stream_id = ''s'', st_reason = []\<rparr>] incoming_new) ! 0)) False \<noteq> Some (Ok [7])"
  (is "read_all_bytes [] (ch_items (im_channels (fold (incoming_handle ?env) ?evs incoming_new) ! 0)) False \<noteq> _")
proof -
  note unfolded = handle_header_def any_info_try_from_def byte_info_from_headers_def handle_chunk_def handle_trailer_def yield_chunk_def
    close_stream_with_error_def push_item_def drop_sender_def stream_progress_new_def progress_chunk_def incoming_new_def
    hm_contains_def hm_insert_def hm_remove_def
  have state: "0 < length (im_channels (fold (incoming_handle ?env) ?evs incoming_new))"
    "ch_reader (im_channels (fold (incoming_handle ?env) ?evs incoming_new) ! 0)"
    "\<not> ch_sender (im_channels (fold (incoming_handle ?env) ?evs incoming_new) ! 0)"
    "info_total_length (ch_info (im_channels (fold (incoming_handle ?env) ?evs incoming_new) ! 0)) = Some 2"
    by (simp_all add: unfolded Let_def)
  from finite_stream_complete [OF refl state(1) refl state(2)] state(3,4) show ?thesis by auto
qed

end
