(* ===== verification/LkRpc.thy ===== *)
theory LkRpc
  imports LkUtils LKInterfaces
begin

text \<open>
  Remote procedure calls (\<open>livekit/src/room/participant/rpc.rs\<close> and the RPC part of \<open>local_participant.rs\<close>):
  errors and their truncation, the caller with its pending acknowledgements and responses, and the responder.
  Payloads and messages are the lists of their UTF-8 bytes, durations are nanoseconds.  Outside the model's code
  are the random identifier of a call, the comparison of the server's version (a parameter) and the publishing of
  a packet (its result is an event).
\<close>

section \<open>Truncation to a number of bytes\<close>

text \<open>The characters of a string, each as its bytes.\<close>

function utf8_chars :: "bytes \<Rightarrow> bytes list" where
  "utf8_chars [] = []"
| "utf8_chars (b # bs) = (b # take (utf8_len b - 1) bs) # utf8_chars (drop (utf8_len b - 1) bs)"
  by pat_completeness auto
termination
  by (relation "measure length") auto

fun truncate_loop :: "nat \<Rightarrow> bytes list \<Rightarrow> bytes \<Rightarrow> bytes" where
  "truncate_loop max_bytes [] result = result"
| "truncate_loop max_bytes (c # cs) result =
     (if max_bytes < length (result @ c) then result else truncate_loop max_bytes cs (result @ c))"

definition truncate_bytes :: "nat \<Rightarrow> bytes \<Rightarrow> bytes" where
  "truncate_bytes max_bytes s = (if length s \<le> max_bytes then s else truncate_loop max_bytes (utf8_chars s) [])"

section \<open>Errors\<close>

definition MAX_MESSAGE_BYTES :: nat where "MAX_MESSAGE_BYTES = 256"
definition MAX_DATA_BYTES :: nat where "MAX_DATA_BYTES = 15360"
definition MAX_PAYLOAD_BYTES :: nat where "MAX_PAYLOAD_BYTES = 15360"

record rpc_error =
  re_code :: nat
  re_message :: bytes
  re_data :: "bytes option"

text \<open>The protocol message of an error; its data is empty when there is none.\<close>

record rpc_error_proto =
  rep_code :: nat
  rep_message :: bytes
  rep_data :: bytes

definition rpc_error_new :: "nat \<Rightarrow> bytes \<Rightarrow> bytes option \<Rightarrow> rpc_error" where
  "rpc_error_new code message data =
     \<lparr>re_code = code, re_message = truncate_bytes MAX_MESSAGE_BYTES message,
      re_data = map_option (truncate_bytes MAX_DATA_BYTES) data\<rparr>"

definition error_from_proto :: "rpc_error_proto \<Rightarrow> rpc_error" where
  "error_from_proto p = rpc_error_new (rep_code p) (rep_message p) (Some (rep_data p))"

definition error_to_proto :: "rpc_error \<Rightarrow> rpc_error_proto" where
  "error_to_proto e = \<lparr>rep_code = re_code e, rep_message = re_message e,
     rep_data = (case re_data e of Some d \<Rightarrow> d | None \<Rightarrow> [])\<rparr>"

datatype rpc_error_code =
    ApplicationError | ConnectionTimeout | ResponseTimeout | RecipientDisconnected | ResponsePayloadTooLarge
  | RpcSendFailed | UnsupportedMethod | RecipientNotFound | RequestPayloadTooLarge | UnsupportedServer | UnsupportedVersion

fun code_number :: "rpc_error_code \<Rightarrow> nat" where
  "code_number ApplicationError = 1500"
| "code_number ConnectionTimeout = 1501"
| "code_number ResponseTimeout = 1502"
| "code_number RecipientDisconnected = 1503"
| "code_number ResponsePayloadTooLarge = 1504"
| "code_number RpcSendFailed = 1505"
| "code_number UnsupportedMethod = 1400"
| "code_number RecipientNotFound = 1401"
| "code_number RequestPayloadTooLarge = 1402"
| "code_number UnsupportedServer = 1403"
| "code_number UnsupportedVersion = 1404"

fun code_message :: "rpc_error_code \<Rightarrow> string" where
  "code_message ApplicationError = ''Application error in method handler''"
| "code_message ConnectionTimeout = ''Connection timeout''"
| "code_message ResponseTimeout = ''Response timeout''"
| "code_message RecipientDisconnected = ''Recipient disconnected''"
| "code_message ResponsePayloadTooLarge = ''Response payload too large''"
| "code_message RpcSendFailed = ''Failed to send''"
| "code_message UnsupportedMethod = ''Method not supported at destination''"
| "code_message RecipientNotFound = ''Recipient not found''"
| "code_message RequestPayloadTooLarge = ''Request payload too large''"
| "code_message UnsupportedServer = ''RPC not supported by server''"
| "code_message UnsupportedVersion = ''Unsupported RPC version''"

definition ascii_bytes :: "string \<Rightarrow> bytes" where
  "ascii_bytes s = map of_char s"

definition built_in :: "rpc_error_code \<Rightarrow> bytes option \<Rightarrow> rpc_error" where
  "built_in code data = rpc_error_new (code_number code) (ascii_bytes (code_message code)) data"

section \<open>The caller\<close>

record perform_rpc_data =
  pd_destination_identity :: string
  pd_method :: string
  pd_payload :: bytes
  pd_response_timeout :: nat

record rpc_request =
  rq_destination :: string
  rq_id :: string
  rq_method :: string
  rq_payload :: bytes
  rq_response_timeout_ms :: u32
  rq_version :: u32

text \<open>A oneshot channel as its receiver sees it.\<close>

datatype 'a oneshot = Unsent | Sent 'a | SenderDropped

text \<open>
  Where a call of \<open>perform_rpc\<close> is: publishing its request, waiting for the acknowledgement, waiting for the
  response, returned, or dropped by its caller while it waited.
\<close>

type_synonym rpc_result = "(rpc_error, bytes) outcome"

datatype call_phase = Publishing | AwaitAck | AwaitResponse | Returned rpc_result | Cancelled

record rpc_call =
  rc_id :: string
  rc_phase :: call_phase
  rc_ack :: "unit oneshot"
  rc_response :: "rpc_result oneshot"

text \<open>The maps hold the sending halves: the number of the call whose channel it is.\<close>

record rpc_state =
  rp_pending_acks :: "(string, nat) hashmap"
  rp_pending_responses :: "(string, nat) hashmap"
  rp_calls :: "rpc_call list"

definition rpc_state_new :: rpc_state where
  "rpc_state_new = \<lparr>rp_pending_acks = [], rp_pending_responses = [], rp_calls = []\<rparr>"

definition update_call :: "nat \<Rightarrow> (rpc_call \<Rightarrow> rpc_call) \<Rightarrow> rpc_state \<Rightarrow> rpc_state" where
  "update_call k f s = s\<lparr>rp_calls := (rp_calls s)[k := f (rp_calls s ! k)]\<rparr>"

text \<open>Taking a sender out of a map and dropping it.\<close>

definition drop_ack_sender :: "string \<Rightarrow> rpc_state \<Rightarrow> rpc_state" where
  "drop_ack_sender cid s =
     (case hm_get (rp_pending_acks s) cid of
        None \<Rightarrow> s
      | Some k \<Rightarrow> update_call k (\<lambda>c. c\<lparr>rc_ack := SenderDropped\<rparr>) (s\<lparr>rp_pending_acks := hm_remove cid (rp_pending_acks s)\<rparr>))"

definition drop_response_sender :: "string \<Rightarrow> rpc_state \<Rightarrow> rpc_state" where
  "drop_response_sender cid s =
     (case hm_get (rp_pending_responses s) cid of
        None \<Rightarrow> s
      | Some k \<Rightarrow> update_call k (\<lambda>c. c\<lparr>rc_response := SenderDropped\<rparr>)
                  (s\<lparr>rp_pending_responses := hm_remove cid (rp_pending_responses s)\<rparr>))"

definition MAX_ROUND_TRIP_LATENCY :: nat where "MAX_ROUND_TRIP_LATENCY = 7000 * 1000000"
definition MIN_EFFECTIVE_TIMEOUT :: nat where "MIN_EFFECTIVE_TIMEOUT = 1000 * 1000000"

definition effective_timeout :: "nat \<Rightarrow> nat" where
  "effective_timeout response_timeout = max (response_timeout - MAX_ROUND_TRIP_LATENCY) MIN_EFFECTIVE_TIMEOUT"

definition request_of :: "string \<Rightarrow> perform_rpc_data \<Rightarrow> rpc_request" where
  "request_of cid data =
     \<lparr>rq_destination = pd_destination_identity data, rq_id = cid, rq_method = pd_method data, rq_payload = pd_payload data,
      rq_response_timeout_ms = of_nat (effective_timeout (pd_response_timeout data) div 1000000), rq_version = 1\<rparr>"

text \<open>
  The start of \<open>perform_rpc\<close>, up to the request handed to the engine.  \<open>server_version\<close> is the version in the join
  response, \<open>too_old\<close> parses a version and compares it with the required one.  An insertion drops the sender it replaces.
\<close>

definition rpc_begin ::
  "(string \<Rightarrow> bool option) \<Rightarrow> string option \<Rightarrow> string \<Rightarrow> perform_rpc_data \<Rightarrow> rpc_state \<Rightarrow> rpc_state \<times> rpc_request list" where
  "rpc_begin too_old server_version cid data s =
     (let finish = (\<lambda>r. (s\<lparr>rp_calls := rp_calls s @ [\<lparr>rc_id = cid, rc_phase = Returned r, rc_ack = SenderDropped,
                            rc_response = SenderDropped\<rparr>]\<rparr>, []))
      in if MAX_PAYLOAD_BYTES < length (pd_payload data) then finish (Err (built_in RequestPayloadTooLarge None))
         else case (case server_version of
                      None \<Rightarrow> Ok ()
                    | Some v \<Rightarrow> if v = [] then Ok ()
                                else case too_old v of
                                       None \<Rightarrow> Panic
                                     | Some True \<Rightarrow> Err (built_in UnsupportedServer None)
                                     | Some False \<Rightarrow> Ok ()) of
                Err e \<Rightarrow> finish (Err e)
              | Panic \<Rightarrow> finish Panic
              | Ok _ \<Rightarrow>
                  let s = drop_response_sender cid (drop_ack_sender cid s);
                      k = length (rp_calls s)
                  in (s\<lparr>rp_calls := rp_calls s @ [\<lparr>rc_id = cid, rc_phase = Publishing, rc_ack = Unsent, rc_response = Unsent\<rparr>],
                        rp_pending_acks := hm_insert cid k (rp_pending_acks s),
                        rp_pending_responses := hm_insert cid k (rp_pending_responses s)\<rparr>, [request_of cid data]))"

definition return_call :: "nat \<Rightarrow> rpc_result \<Rightarrow> rpc_state \<Rightarrow> rpc_state" where
  "return_call k r = update_call k (\<lambda>c. c\<lparr>rc_phase := Returned r\<rparr>)"

definition forget_call :: "string \<Rightarrow> rpc_state \<Rightarrow> rpc_state" where
  "forget_call cid s = drop_response_sender cid (drop_ack_sender cid s)"

text \<open>The request was published, or publishing failed with a message.\<close>

definition rpc_published :: "nat \<Rightarrow> bytes option \<Rightarrow> rpc_state \<Rightarrow> rpc_state" where
  "rpc_published k failure s =
     (if rc_phase (rp_calls s ! k) \<noteq> Publishing then s
      else case failure of
             None \<Rightarrow> update_call k (\<lambda>c. c\<lparr>rc_phase := AwaitAck\<rparr>) s
           | Some e \<Rightarrow> return_call k (Err (built_in RpcSendFailed (Some e))) (forget_call (rc_id (rp_calls s ! k)) s))"

text \<open>A poll of the waiting call; \<open>elapsed\<close> tells whether the timer it waits under has run out.  A value wins over the timer.\<close>

definition rpc_poll :: "nat \<Rightarrow> bool \<Rightarrow> rpc_state \<Rightarrow> rpc_state" where
  "rpc_poll k elapsed s =
     (let c = rp_calls s ! k
      in case rc_phase c of
           AwaitAck \<Rightarrow>
             if rc_ack c \<noteq> Unsent then update_call k (\<lambda>c. c\<lparr>rc_phase := AwaitResponse\<rparr>) s
             else if elapsed then return_call k (Err (built_in ConnectionTimeout None)) (forget_call (rc_id c) s)
             else s
         | AwaitResponse \<Rightarrow>
             (case rc_response c of
                Sent r \<Rightarrow> return_call k r s
              | SenderDropped \<Rightarrow> return_call k (Err (built_in RecipientDisconnected None)) s
              | Unsent \<Rightarrow> if elapsed then return_call k (Err (built_in ResponseTimeout None)) (drop_response_sender (rc_id c) s) else s)
         | _ \<Rightarrow> s)"

definition rpc_cancel :: "nat \<Rightarrow> rpc_state \<Rightarrow> rpc_state" where
  "rpc_cancel k s =
     (case rc_phase (rp_calls s ! k) of Returned r \<Rightarrow> s | _ \<Rightarrow> update_call k (\<lambda>c. c\<lparr>rc_phase := Cancelled\<rparr>) s)"

definition handle_incoming_rpc_ack :: "string \<Rightarrow> rpc_state \<Rightarrow> rpc_state" where
  "handle_incoming_rpc_ack cid s =
     (case hm_get (rp_pending_acks s) cid of
        None \<Rightarrow> s
      | Some k \<Rightarrow> update_call k (\<lambda>c. c\<lparr>rc_ack := Sent ()\<rparr>) (s\<lparr>rp_pending_acks := hm_remove cid (rp_pending_acks s)\<rparr>))"

definition response_result :: "bytes option \<Rightarrow> rpc_error_proto option \<Rightarrow> rpc_result" where
  "response_result payload_opt err =
     (case err of
        Some e \<Rightarrow> Err (error_from_proto e)
      | None \<Rightarrow> Ok (case payload_opt of Some p \<Rightarrow> p | None \<Rightarrow> []))"

definition handle_incoming_rpc_response :: "string \<Rightarrow> bytes option \<Rightarrow> rpc_error_proto option \<Rightarrow> rpc_state \<Rightarrow> rpc_state" where
  "handle_incoming_rpc_response cid payload_opt err s =
     (case hm_get (rp_pending_responses s) cid of
        None \<Rightarrow> s
      | Some k \<Rightarrow> update_call k (\<lambda>c. c\<lparr>rc_response := Sent (response_result payload_opt err)\<rparr>)
                  (s\<lparr>rp_pending_responses := hm_remove cid (rp_pending_responses s)\<rparr>))"

datatype rpc_event =
    CallBegin string perform_rpc_data
  | CallPublished nat "bytes option"
  | CallPoll nat bool
  | CallCancelled nat
  | AckReceived string
  | ResponseReceived string "bytes option" "rpc_error_proto option"

fun rpc_step :: "(string \<Rightarrow> bool option) \<Rightarrow> string option \<Rightarrow> rpc_state \<Rightarrow> rpc_event \<Rightarrow> rpc_state \<times> rpc_request list" where
  "rpc_step too_old ver s (CallBegin cid data) = rpc_begin too_old ver cid data s"
| "rpc_step too_old ver s (CallPublished k r) = (if k < length (rp_calls s) then (rpc_published k r s, []) else (s, []))"
| "rpc_step too_old ver s (CallPoll k elapsed) = (if k < length (rp_calls s) then (rpc_poll k elapsed s, []) else (s, []))"
| "rpc_step too_old ver s (CallCancelled k) = (if k < length (rp_calls s) then (rpc_cancel k s, []) else (s, []))"
| "rpc_step too_old ver s (AckReceived cid) = (handle_incoming_rpc_ack cid s, [])"
| "rpc_step too_old ver s (ResponseReceived cid p e) = (handle_incoming_rpc_response cid p e s, [])"

section \<open>The responder\<close>

record rpc_invocation =
  iv_request_id :: string
  iv_caller_identity :: string
  iv_payload :: bytes
  iv_response_timeout :: nat

text \<open>A handler returns a payload or an error, or panics.\<close>

type_synonym rpc_handler = "rpc_invocation \<Rightarrow> rpc_result"

datatype rpc_out =
    PublishAck string string
  | PublishResponse string string "bytes option" "rpc_error_proto option"

definition handle_incoming_rpc_request ::
  "(string, rpc_handler) hashmap \<Rightarrow> string \<Rightarrow> string \<Rightarrow> string \<Rightarrow> bytes \<Rightarrow> nat \<Rightarrow> u32 \<Rightarrow> rpc_out list" where
  "handle_incoming_rpc_request handlers caller_identity request_id rpc_method rpc_payload response_timeout version =
     (let response =
            (if version \<noteq> 1 then Err (built_in UnsupportedVersion None)
             else case hm_get handlers rpc_method of
                    Some handler \<Rightarrow>
                      (case handler \<lparr>iv_request_id = request_id, iv_caller_identity = caller_identity, iv_payload = rpc_payload,
                                     iv_response_timeout = response_timeout\<rparr> of
                         Panic \<Rightarrow> Err (built_in ApplicationError None)
                       | result \<Rightarrow> result)
                  | None \<Rightarrow> Err (built_in UnsupportedMethod None));
          (payload_opt, err) =
            (case response of
               Ok p \<Rightarrow> if length p \<le> MAX_PAYLOAD_BYTES then (Some p, None)
                        else (None, Some (built_in ResponsePayloadTooLarge None))
             | Err e \<Rightarrow> (None, Some e)
             | Panic \<Rightarrow> (None, None))
      in [PublishAck caller_identity request_id,
          PublishResponse caller_identity request_id payload_opt (map_option error_to_proto err)])"

definition register_rpc_method :: "string \<Rightarrow> rpc_handler \<Rightarrow> (string, rpc_handler) hashmap \<Rightarrow> (string, rpc_handler) hashmap" where
  "register_rpc_method name handler handlers = hm_insert name handler handlers"

definition unregister_rpc_method :: "string \<Rightarrow> (string, rpc_handler) hashmap \<Rightarrow> (string, rpc_handler) hashmap" where
  "unregister_rpc_method name handlers = hm_remove name handlers"

text \<open>What a response message on the wire carries, and how the session reads it.\<close>

datatype response_value = ResponsePayload bytes | ResponseError rpc_error_proto | CompressedPayload bytes

definition response_to_wire :: "bytes option \<Rightarrow> rpc_error_proto option \<Rightarrow> (unit, response_value) outcome" where
  "response_to_wire payload_opt err =
     (case err of
        Some e \<Rightarrow> Ok (ResponseError e)
      | None \<Rightarrow> (case payload_opt of Some p \<Rightarrow> Ok (ResponsePayload p) | None \<Rightarrow> Panic))"

definition response_from_wire :: "response_value option \<Rightarrow> bytes option \<times> rpc_error_proto option" where
  "response_from_wire v =
     (case v of
        None \<Rightarrow> (None, None)
      | Some (ResponsePayload p) \<Rightarrow> (Some p, None)
      | Some (ResponseError e) \<Rightarrow> (None, Some e)
      | Some (CompressedPayload _) \<Rightarrow> (None, None))"

section \<open>The invariant of the caller\<close>

text \<open>
  A map entry belongs to a call with that identifier that has not returned and whose channel is unused; and every
  call that waits for something that has not arrived has its entry.
\<close>

definition ack_entry_ok :: "rpc_state \<Rightarrow> string \<Rightarrow> nat \<Rightarrow> bool" where
  "ack_entry_ok s cid k \<longleftrightarrow> k < length (rp_calls s) \<and> rc_id (rp_calls s ! k) = cid \<and> rc_ack (rp_calls s ! k) = Unsent \<and>
     rc_phase (rp_calls s ! k) \<in> {Publishing, AwaitAck, Cancelled}"

definition response_entry_ok :: "rpc_state \<Rightarrow> string \<Rightarrow> nat \<Rightarrow> bool" where
  "response_entry_ok s cid k \<longleftrightarrow> k < length (rp_calls s) \<and> rc_id (rp_calls s ! k) = cid \<and> rc_response (rp_calls s ! k) = Unsent \<and>
     rc_phase (rp_calls s ! k) \<in> {Publishing, AwaitAck, AwaitResponse, Cancelled}"

definition call_ok :: "rpc_state \<Rightarrow> nat \<Rightarrow> rpc_call \<Rightarrow> bool" where
  "call_ok s k c \<longleftrightarrow>
     (rc_phase c \<in> {Publishing, AwaitAck} \<and> rc_ack c = Unsent \<longrightarrow> hm_get (rp_pending_acks s) (rc_id c) = Some k) \<and>
     (rc_phase c \<in> {Publishing, AwaitAck, AwaitResponse} \<and> rc_response c = Unsent \<longrightarrow> hm_get (rp_pending_responses s) (rc_id c) = Some k) \<and>
     (rc_phase c = AwaitResponse \<longrightarrow> rc_ack c \<noteq> Unsent)"

definition rpc_inv :: "rpc_state \<Rightarrow> bool" where
  "rpc_inv s \<longleftrightarrow>
     (\<forall>cid k. hm_get (rp_pending_acks s) cid = Some k \<longrightarrow> ack_entry_ok s cid k) \<and>
     (\<forall>cid k. hm_get (rp_pending_responses s) cid = Some k \<longrightarrow> response_entry_ok s cid k) \<and>
     (\<forall>k < length (rp_calls s). call_ok s k (rp_calls s ! k))"

lemma rpc_inv_new [simp]: "rpc_inv rpc_state_new"
  by (simp add: rpc_inv_def rpc_state_new_def)

lemma rpc_inv_ack: "rpc_inv s \<Longrightarrow> hm_get (rp_pending_acks s) cid = Some k \<Longrightarrow> ack_entry_ok s cid k"
  and rpc_inv_response: "rpc_inv s \<Longrightarrow> hm_get (rp_pending_responses s) cid = Some k \<Longrightarrow> response_entry_ok s cid k"
  and rpc_inv_call: "rpc_inv s \<Longrightarrow> k < length (rp_calls s) \<Longrightarrow> call_ok s k (rp_calls s ! k)"
  by (simp_all add: rpc_inv_def)

text \<open>All changes of a call leave its identifier alone and touch the entries of that identifier at most.\<close>

lemma rpc_inv_change:
  assumes inv: "rpc_inv s" and k: "k < length (rp_calls s)" and cid: "rc_id (rp_calls s ! k) = cid" "rc_id c = cid"
    and acks: "\<And>i. hm_get acks i = (if i = cid then new_ack else hm_get (rp_pending_acks s) i)"
    and responses: "\<And>i. hm_get responses i = (if i = cid then new_response else hm_get (rp_pending_responses s) i)"
    and new_ack: "new_ack = hm_get (rp_pending_acks s) cid \<or> new_ack = None \<and> hm_get (rp_pending_acks s) cid = Some k"
    and new_response: "new_response = hm_get (rp_pending_responses s) cid \<or> new_response = None \<and> hm_get (rp_pending_responses s) cid = Some k"
    and c: "call_ok (s\<lparr>rp_pending_acks := acks, rp_pending_responses := responses, rp_calls := (rp_calls s)[k := c]\<rparr>) k c"
    and ack_k: "new_ack = Some k \<Longrightarrow> rc_ack c = Unsent \<and> rc_phase c \<in> {Publishing, AwaitAck, Cancelled}"
    and response_k: "new_response = Some k \<Longrightarrow> rc_response c = Unsent \<and> rc_phase c \<in> {Publishing, AwaitAck, AwaitResponse, Cancelled}"
  shows "rpc_inv (s\<lparr>rp_pending_acks := acks, rp_pending_responses := responses, rp_calls := (rp_calls s)[k := c]\<rparr>)" (is "rpc_inv ?s")
proof -
  have "ack_entry_ok ?s i j" if e: "hm_get acks i = Some j" for i j
  proof (cases "j = k")
    case True
    have "ack_entry_ok s i k \<or> i = cid" using e acks True rpc_inv_ack [OF inv, of i k] by (auto split: if_splits)
    then have "i = cid" using cid by (auto simp: ack_entry_ok_def)
    then show ?thesis using e acks True ack_k cid k by (simp add: ack_entry_ok_def)
  next
    case False
    then have "hm_get (rp_pending_acks s) i = Some j" using e acks new_ack by (auto split: if_splits)
    then show ?thesis using rpc_inv_ack [OF inv] False by (fastforce simp: ack_entry_ok_def)
  qed
  moreover have "response_entry_ok ?s i j" if e: "hm_get responses i = Some j" for i j
  proof (cases "j = k")
    case True
    have "response_entry_ok s i k \<or> i = cid" using e responses True rpc_inv_response [OF inv, of i k] by (auto split: if_splits)
    then have "i = cid" using cid by (auto simp: response_entry_ok_def)
    then show ?thesis using e responses True response_k cid k by (simp add: response_entry_ok_def)
  next
    case False
    then have "hm_get (rp_pending_responses s) i = Some j" using e responses new_response by (auto split: if_splits)
    then show ?thesis using rpc_inv_response [OF inv] False by (fastforce simp: response_entry_ok_def)
  qed
  moreover have "call_ok ?s j (rp_calls ?s ! j)" if j: "j < length (rp_calls ?s)" for j
  proof (cases "j = k")
    case True
    then show ?thesis using c k by simp
  next
    case False
    have "call_ok s j (rp_calls s ! j)" using rpc_inv_call [OF inv] j by simp
    then show ?thesis using False acks responses new_ack new_response by (auto simp: call_ok_def)
  qed
  ultimately show ?thesis by (simp add: rpc_inv_def)
qed

lemma rpc_inv_return:
  assumes "rpc_inv s" and "k < length (rp_calls s)"
    and "hm_get (rp_pending_acks s) (rc_id (rp_calls s ! k)) \<noteq> Some k" and "hm_get (rp_pending_responses s) (rc_id (rp_calls s ! k)) \<noteq> Some k"
  shows "rpc_inv (return_call k r s)"
  using rpc_inv_change [OF assms(1,2) refl, of "(rp_calls s ! k)\<lparr>rc_phase := Returned r\<rparr>" "rp_pending_acks s"
      "hm_get (rp_pending_acks s) (rc_id (rp_calls s ! k))" "rp_pending_responses s" "hm_get (rp_pending_responses s) (rc_id (rp_calls s ! k))"]
    assms(3,4) by (simp add: return_call_def update_call_def call_ok_def)

lemma rpc_inv_phase:
  assumes "rpc_inv s" and "k < length (rp_calls s)"
    and "rc_phase (rp_calls s ! k) = Publishing \<and> p = AwaitAck \<or> rc_phase (rp_calls s ! k) = AwaitAck \<and> p = AwaitResponse \<and> rc_ack (rp_calls s ! k) \<noteq> Unsent
      \<or> p = Cancelled \<and> (\<forall>r. rc_phase (rp_calls s ! k) \<noteq> Returned r)"
  shows "rpc_inv (update_call k (\<lambda>c. c\<lparr>rc_phase := p\<rparr>) s)"
proof -
  let ?c = "rp_calls s ! k"
  have "call_ok s k ?c" using rpc_inv_call [OF assms(1,2)] .
  moreover have "ack_entry_ok s (rc_id ?c) k" if "hm_get (rp_pending_acks s) (rc_id ?c) = Some k"
    using rpc_inv_ack [OF assms(1) that] .
  moreover have "response_entry_ok s (rc_id ?c) k" if "hm_get (rp_pending_responses s) (rc_id ?c) = Some k"
    using rpc_inv_response [OF assms(1) that] .
  moreover note change = rpc_inv_change [OF assms(1,2) refl, of "?c\<lparr>rc_phase := p\<rparr>" "rp_pending_acks s" "hm_get (rp_pending_acks s) (rc_id ?c)"
        "rp_pending_responses s" "hm_get (rp_pending_responses s) (rc_id ?c)"]
  ultimately show ?thesis
    using assms(3) unfolding update_call_def
    by (elim disjE; intro change [simplified]) (auto simp: call_ok_def ack_entry_ok_def response_entry_ok_def)
qed

lemma rpc_inv_ack_taken:
  assumes "rpc_inv s" and "hm_get (rp_pending_acks s) cid = Some k" and "v \<noteq> Unsent"
  shows "rpc_inv (update_call k (\<lambda>c. c\<lparr>rc_ack := v\<rparr>) (s\<lparr>rp_pending_acks := hm_remove cid (rp_pending_acks s)\<rparr>))"
proof -
  let ?c = "rp_calls s ! k"
  have e: "ack_entry_ok s cid k" using rpc_inv_ack [OF assms(1,2)] .
  then have k: "k < length (rp_calls s)" "rc_id ?c = cid" by (simp_all add: ack_entry_ok_def)
  have "call_ok s k ?c" using rpc_inv_call [OF assms(1) k(1)] .
  moreover have "response_entry_ok s cid k" if "hm_get (rp_pending_responses s) cid = Some k"
    using rpc_inv_response [OF assms(1) that] .
  ultimately show ?thesis
    using rpc_inv_change [OF assms(1) k(1) k(2), of "?c\<lparr>rc_ack := v\<rparr>" "hm_remove cid (rp_pending_acks s)" None
        "rp_pending_responses s" "hm_get (rp_pending_responses s) cid"] assms(2,3) k
    by (auto simp: update_call_def call_ok_def response_entry_ok_def)
qed

lemma rpc_inv_response_taken:
  assumes "rpc_inv s" and "hm_get (rp_pending_responses s) cid = Some k" and "v \<noteq> Unsent"
  shows "rpc_inv (update_call k (\<lambda>c. c\<lparr>rc_response := v\<rparr>) (s\<lparr>rp_pending_responses := hm_remove cid (rp_pending_responses s)\<rparr>))"
proof -
  let ?c = "rp_calls s ! k"
  have e: "response_entry_ok s cid k" using rpc_inv_response [OF assms(1,2)] .
  then have k: "k < length (rp_calls s)" "rc_id ?c = cid" by (simp_all add: response_entry_ok_def)
  have "call_ok s k ?c" using rpc_inv_call [OF assms(1) k(1)] .
  moreover have "ack_entry_ok s cid k" if "hm_get (rp_pending_acks s) cid = Some k"
    using rpc_inv_ack [OF assms(1) that] .
  ultimately show ?thesis
    using rpc_inv_change [OF assms(1) k(1) k(2), of "?c\<lparr>rc_response := v\<rparr>" "rp_pending_acks s" "hm_get (rp_pending_acks s) cid"
        "hm_remove cid (rp_pending_responses s)" None] assms(2,3) k
    by (auto simp: update_call_def call_ok_def ack_entry_ok_def)
qed

lemma rpc_inv_drop:
  "rpc_inv s \<Longrightarrow> rpc_inv (drop_ack_sender cid s)"
  "rpc_inv s \<Longrightarrow> rpc_inv (drop_response_sender cid s)"
  by (auto simp: drop_ack_sender_def drop_response_sender_def intro: rpc_inv_ack_taken rpc_inv_response_taken split: option.split)

lemma update_keeps_id_generic: "rc_id c = rc_id (cs ! x) \<Longrightarrow> rc_id ((cs)[x := c] ! j) = rc_id (cs ! j)"
  by (cases "x < length cs") (auto simp: nth_list_update list_update_beyond)

lemma update_keeps_id:
  "rc_id ((cs)[x := (cs ! x)\<lparr>rc_ack := v\<rparr>] ! j) = rc_id (cs ! j)"
  "rc_id ((cs)[x := (cs ! x)\<lparr>rc_response := w\<rparr>] ! j) = rc_id (cs ! j)"
  "rc_id ((cs)[x := (cs ! x)\<lparr>rc_phase := p\<rparr>] ! j) = rc_id (cs ! j)"
  by (simp_all add: update_keeps_id_generic)

lemma drop_effects:
  "hm_get (rp_pending_acks (drop_ack_sender cid s)) i = (if i = cid then None else hm_get (rp_pending_acks s) i)"
  "rp_pending_responses (drop_ack_sender cid s) = rp_pending_responses s"
  "rp_pending_acks (drop_response_sender cid s) = rp_pending_acks s"
  "hm_get (rp_pending_responses (drop_response_sender cid s)) i = (if i = cid then None else hm_get (rp_pending_responses s) i)"
  "length (rp_calls (drop_ack_sender cid s)) = length (rp_calls s)"
  "length (rp_calls (drop_response_sender cid s)) = length (rp_calls s)"
  "j < length (rp_calls s) \<Longrightarrow> rc_id (rp_calls (drop_ack_sender cid s) ! j) = rc_id (rp_calls s ! j)"
  "j < length (rp_calls s) \<Longrightarrow> rc_id (rp_calls (drop_response_sender cid s) ! j) = rc_id (rp_calls s ! j)"
  by (auto simp: drop_ack_sender_def drop_response_sender_def update_call_def update_keeps_id split: option.split)

lemma rpc_inv_begin: "rpc_inv s \<Longrightarrow> rpc_inv (fst (rpc_begin too_old ver cid data s))"
proof -
  assume inv: "rpc_inv s"
  have returned: "rpc_inv (s\<lparr>rp_calls := rp_calls s @ [c]\<rparr>)" if "rc_phase c = Returned r" for c r
    using inv that unfolding rpc_inv_def
    by (auto simp: ack_entry_ok_def response_entry_ok_def call_ok_def nth_append less_Suc_eq)
  define s1 where "s1 = drop_response_sender cid (drop_ack_sender cid s)"
  have s1: "rpc_inv s1" "hm_get (rp_pending_acks s1) cid = None" "hm_get (rp_pending_responses s1) cid = None"
    using inv by (simp_all add: s1_def rpc_inv_drop drop_effects)
  define c where "c = \<lparr>rc_id = cid, rc_phase = Publishing, rc_ack = Unsent, rc_response = Unsent\<rparr>"
  define s2 where "s2 = s1\<lparr>rp_calls := rp_calls s1 @ [c], rp_pending_acks := hm_insert cid (length (rp_calls s1)) (rp_pending_acks s1),
    rp_pending_responses := hm_insert cid (length (rp_calls s1)) (rp_pending_responses s1)\<rparr>"
  have "ack_entry_ok s2 i k" if "hm_get (rp_pending_acks s2) i = Some k" for i k
    using that rpc_inv_ack [OF s1(1), of i k] by (auto simp: s2_def c_def ack_entry_ok_def nth_append split: if_splits)
  moreover have "response_entry_ok s2 i k" if "hm_get (rp_pending_responses s2) i = Some k" for i k
    using that rpc_inv_response [OF s1(1), of i k] by (auto simp: s2_def c_def response_entry_ok_def nth_append split: if_splits)
  moreover have "call_ok s2 k (rp_calls s2 ! k)" if "k < length (rp_calls s2)" for k
  proof (cases "k = length (rp_calls s1)")
    case True
    then show ?thesis by (simp add: s2_def c_def call_ok_def)
  next
    case False
    then have "k < length (rp_calls s1)" using that by (simp add: s2_def)
    then show ?thesis using rpc_inv_call [OF s1(1)] s1(2,3) by (force simp: s2_def call_ok_def nth_append)
  qed
  ultimately have "rpc_inv s2" by (simp add: rpc_inv_def)
  then show ?thesis
    using returned by (auto simp: rpc_begin_def Let_def s2_def s1_def [symmetric] c_def split: option.split outcome.split bool.split)
qed

lemma rpc_inv_forget:
  assumes "rpc_inv s" and "k < length (rp_calls s)"
  shows "rpc_inv (return_call k r (forget_call (rc_id (rp_calls s ! k)) s))"
  using assms by (intro rpc_inv_return) (simp_all add: forget_call_def rpc_inv_drop drop_effects)

lemma rpc_inv_published:
  assumes inv: "rpc_inv s" and k: "k < length (rp_calls s)"
  shows "rpc_inv (rpc_published k r s)"
proof (cases "rc_phase (rp_calls s ! k) = Publishing")
  case True
  then show ?thesis using inv k by (simp add: rpc_published_def rpc_inv_phase rpc_inv_forget split: option.split)
qed (simp add: rpc_published_def inv)

lemma rpc_inv_poll:
  assumes inv: "rpc_inv s" and k: "k < length (rp_calls s)"
  shows "rpc_inv (rpc_poll k elapsed s)"
proof -
  let ?c = "rp_calls s ! k"
  have c: "call_ok s k ?c" using rpc_inv_call [OF inv k] .
  consider (ack) "rc_phase ?c = AwaitAck" | (response) "rc_phase ?c = AwaitResponse"
    | (other) "rc_phase ?c \<noteq> AwaitAck" "rc_phase ?c \<noteq> AwaitResponse" by blast
  then show ?thesis
  proof cases
    case ack
    then show ?thesis using inv k by (auto simp: rpc_poll_def Let_def rpc_inv_phase rpc_inv_forget)
  next
    case response
    then have acks: "hm_get (rp_pending_acks s) (rc_id ?c) \<noteq> Some k"
      using c rpc_inv_ack [OF inv, of "rc_id ?c" k] by (auto simp: call_ok_def ack_entry_ok_def)
    show ?thesis
    proof (cases "rc_response ?c = Unsent")
      case True
      have "rpc_inv (return_call k r (drop_response_sender (rc_id ?c) s))" for r
        using inv k acks by (intro rpc_inv_return) (simp_all add: rpc_inv_drop drop_effects)
      then show ?thesis using inv response True by (simp add: rpc_poll_def Let_def)
    next
      case False
      then have "hm_get (rp_pending_responses s) (rc_id ?c) \<noteq> Some k"
        using rpc_inv_response [OF inv, of "rc_id ?c" k] by (auto simp: response_entry_ok_def)
      then have "rpc_inv (return_call k r s)" for r using acks inv k by (intro rpc_inv_return)
      then show ?thesis using response False by (auto simp: rpc_poll_def Let_def split: oneshot.split)
    qed
  next
    case other
    then show ?thesis using inv by (simp add: rpc_poll_def Let_def split: call_phase.split)
  qed
qed

lemma rpc_inv_cancel: "rpc_inv s \<Longrightarrow> k < length (rp_calls s) \<Longrightarrow> rpc_inv (rpc_cancel k s)"
  by (auto simp: rpc_cancel_def rpc_inv_phase split: call_phase.split)

lemma rpc_inv_step: "rpc_inv s \<Longrightarrow> rpc_inv (fst (rpc_step too_old ver s e))"
  by (cases e) (auto simp: rpc_inv_begin rpc_inv_published rpc_inv_poll rpc_inv_cancel handle_incoming_rpc_ack_def
      handle_incoming_rpc_response_def rpc_inv_ack_taken rpc_inv_response_taken split: option.split)

interpretation rpcm: event_machine "rpc_step too_old ver" any_event rpc_inv
  by unfold_locales (rule rpc_inv_step)

section \<open>Calls do not disturb each other\<close>

text \<open>An event belongs to a call if it names its number or its identifier.\<close>

fun about_call :: "nat \<Rightarrow> string \<Rightarrow> rpc_event \<Rightarrow> bool" where
  "about_call k cid (CallBegin i data) \<longleftrightarrow> i = cid"
| "about_call k cid (CallPublished j r) \<longleftrightarrow> j = k"
| "about_call k cid (CallPoll j elapsed) \<longleftrightarrow> j = k"
| "about_call k cid (CallCancelled j) \<longleftrightarrow> j = k"
| "about_call k cid (AckReceived i) \<longleftrightarrow> i = cid"
| "about_call k cid (ResponseReceived i p e) \<longleftrightarrow> i = cid"

text \<open>What the caller's state knows of one call: it is the only one with its identifier.\<close>

definition call_state :: "rpc_state \<Rightarrow> nat \<Rightarrow> rpc_call \<Rightarrow> bool" where
  "call_state s k c \<longleftrightarrow> rpc_inv s \<and> k < length (rp_calls s) \<and> rp_calls s ! k = c \<and>
     (\<forall>j < length (rp_calls s). rc_id (rp_calls s ! j) = rc_id c \<longrightarrow> j = k)"

lemma call_state_foreign:
  assumes "call_state s k c" and "\<not> about_call k (rc_id c) e"
  shows "call_state (fst (rpc_step too_old ver s e)) k c"
proof -
  let ?s = "fst (rpc_step too_old ver s e)"
  have inv: "rpc_inv s" and k: "k < length (rp_calls s)" "rp_calls s ! k = c"
    and only: "\<And>j. j < length (rp_calls s) \<Longrightarrow> rc_id (rp_calls s ! j) = rc_id c \<Longrightarrow> j = k"
    using assms(1) by (auto simp: call_state_def)
  have other_ack: "j \<noteq> k" if "hm_get (rp_pending_acks s) i = Some j" "i \<noteq> rc_id c" for i j
    using rpc_inv_ack [OF inv that(1)] that(2) k by (auto simp: ack_entry_ok_def)
  have other_response: "j \<noteq> k" if "hm_get (rp_pending_responses s) i = Some j" "i \<noteq> rc_id c" for i j
    using rpc_inv_response [OF inv that(1)] that(2) k by (auto simp: response_entry_ok_def)
  have dropped: "rp_calls (drop_ack_sender i s) ! k = c" "rp_calls (drop_response_sender i s) ! k = c"
    "rp_calls (drop_response_sender i (drop_ack_sender i s)) ! k = c" if "i \<noteq> rc_id c" for i
    using other_ack [OF _ that] other_response [OF _ that] k
    by (auto simp: drop_ack_sender_def drop_response_sender_def update_call_def split: option.split)
  have other_id: "rc_id (rp_calls s ! j) \<noteq> rc_id c" if "j < length (rp_calls s)" "j \<noteq> k" for j
    using only that by blast
  have kept: "length (rp_calls s) \<le> length (rp_calls ?s) \<and> rp_calls ?s ! k = c \<and>
      (\<forall>j < length (rp_calls s). rc_id (rp_calls ?s ! j) = rc_id (rp_calls s ! j)) \<and>
      (\<forall>j < length (rp_calls ?s). length (rp_calls s) \<le> j \<longrightarrow> rc_id (rp_calls ?s ! j) \<noteq> rc_id c)"
  proof (cases e)
    case (CallBegin i data)
    then have "i \<noteq> rc_id c" using assms(2) by simp
    then show ?thesis using CallBegin k dropped(3)
      by (auto simp: rpc_begin_def Let_def nth_append drop_effects split: option.split outcome.split bool.split)
  next
    case (CallPublished j r)
    then have "j \<noteq> k" using assms(2) by simp
    then show ?thesis using CallPublished k dropped(3) other_id [of j]
      by (auto simp: rpc_published_def return_call_def forget_call_def update_call_def update_keeps_id drop_effects split: option.split)
  next
    case (CallPoll j elapsed)
    then have "j \<noteq> k" using assms(2) by simp
    then show ?thesis using CallPoll k dropped(2,3) other_id [of j]
      by (auto simp: rpc_poll_def Let_def return_call_def forget_call_def update_call_def update_keeps_id drop_effects
          split: call_phase.split oneshot.split)
  next
    case (CallCancelled j)
    then have "j \<noteq> k" using assms(2) by simp
    then show ?thesis using CallCancelled k
      by (auto simp: rpc_cancel_def update_call_def update_keeps_id split: call_phase.split)
  next
    case (AckReceived i)
    then have "i \<noteq> rc_id c" using assms(2) by simp
    then show ?thesis using AckReceived k other_ack
      by (auto simp: handle_incoming_rpc_ack_def update_call_def update_keeps_id split: option.split)
  next
    case (ResponseReceived i p er)
    then have "i \<noteq> rc_id c" using assms(2) by simp
    then show ?thesis using ResponseReceived k other_response
      by (auto simp: handle_incoming_rpc_response_def update_call_def update_keeps_id split: option.split)
  qed
  have "j = k" if j: "j < length (rp_calls ?s)" "rc_id (rp_calls ?s ! j) = rc_id c" for j
  proof (cases "j < length (rp_calls s)")
    case True
    then have "rc_id (rp_calls ?s ! j) = rc_id (rp_calls s ! j)" using kept j(1) by simp
    then show ?thesis using only [OF True] j(2) by simp
  next
    case False
    then show ?thesis using kept j by auto
  qed
  then show ?thesis using kept k rpc_inv_step [OF inv] by (auto simp: call_state_def)
qed

lemma call_state_run_foreign:
  "call_state s k c \<Longrightarrow> list_all (\<lambda>e. \<not> about_call k (rc_id c) e) es \<Longrightarrow> call_state (fst (run_events (rpc_step too_old ver) s es)) k c"
  by (induction es arbitrary: s) (simp_all add: Let_def split_beta call_state_foreign)

text \<open>The events of the call itself, on its state.\<close>

fun call_step :: "rpc_event \<Rightarrow> rpc_call \<Rightarrow> rpc_call" where
  "call_step (CallPublished j None) c = (if rc_phase c = Publishing then c\<lparr>rc_phase := AwaitAck\<rparr> else c)"
| "call_step (CallPoll j elapsed) c =
     (case rc_phase c of
        AwaitAck \<Rightarrow> if rc_ack c \<noteq> Unsent then c\<lparr>rc_phase := AwaitResponse\<rparr> else c
      | AwaitResponse \<Rightarrow> (case rc_response c of Sent r \<Rightarrow> c\<lparr>rc_phase := Returned r\<rparr> | _ \<Rightarrow> c)
      | _ \<Rightarrow> c)"
| "call_step (AckReceived i) c = (if rc_ack c = Unsent then c\<lparr>rc_ack := Sent ()\<rparr> else c)"
| "call_step (ResponseReceived i p e) c = (if rc_response c = Unsent then c\<lparr>rc_response := Sent (response_result p e)\<rparr> else c)"
| "call_step e c = c"

text \<open>A timer may run out only when what it guards has arrived.\<close>

fun in_time :: "rpc_event \<Rightarrow> rpc_call \<Rightarrow> bool" where
  "in_time (CallPoll j elapsed) c \<longleftrightarrow> rc_response c \<noteq> SenderDropped \<and>
     (elapsed \<longrightarrow> (rc_phase c = AwaitAck \<longrightarrow> rc_ack c \<noteq> Unsent) \<and> (rc_phase c = AwaitResponse \<longrightarrow> rc_response c \<noteq> Unsent))"
| "in_time (CallPublished j r) c \<longleftrightarrow> r = None"
| "in_time (AckReceived i) c \<longleftrightarrow> rc_phase c \<in> {Publishing, AwaitAck}"
| "in_time (ResponseReceived i p e) c \<longleftrightarrow> rc_phase c \<in> {Publishing, AwaitAck, AwaitResponse}"
| "in_time e c \<longleftrightarrow> False"

lemma call_state_update:
  assumes "call_state s k c" and "rpc_inv s'" and "rp_calls s' = (rp_calls s)[k := c']" and "rc_id c' = rc_id c"
  shows "call_state s' k c'"
  using assms by (auto simp: call_state_def nth_list_update split: if_splits)

lemma call_state_own:
  assumes cs: "call_state s k c" and about: "about_call k (rc_id c) e" and timely: "in_time e c"
  shows "call_state (fst (rpc_step too_old ver s e)) k (call_step e c)"
proof -
  have inv: "rpc_inv s" and k: "k < length (rp_calls s)" "rp_calls s ! k = c" using cs by (auto simp: call_state_def)
  have ok: "call_ok s k c" using rpc_inv_call [OF inv k(1)] k(2) by simp
  note update = call_state_update [OF cs rpc_inv_step [OF inv, of too_old ver e]]
  have same: "(rp_calls s)[k := c] = rp_calls s" using k by auto
  show ?thesis
  proof (cases e)
    case (CallPublished j r)
    then have "j = k" "r = None" using about timely by simp_all
    then show ?thesis using CallPublished k same
      by (intro update) (auto simp: rpc_published_def update_call_def)
  next
    case (CallPoll j elapsed)
    then have "j = k" using about by simp
    then show ?thesis using CallPoll k same timely
      by (intro update) (auto simp: rpc_poll_def Let_def return_call_def update_call_def split: call_phase.split oneshot.split)
  next
    case (AckReceived i)
    then have i: "i = rc_id c" using about by simp
    show ?thesis
    proof (cases "rc_ack c = Unsent")
      case True
      then have "hm_get (rp_pending_acks s) i = Some k" using ok timely AckReceived i by (auto simp: call_ok_def)
      then show ?thesis using AckReceived k True i by (intro update) (simp_all add: handle_incoming_rpc_ack_def update_call_def)
    next
      case False
      then have "hm_get (rp_pending_acks s) i \<noteq> Some k" using rpc_inv_ack [OF inv, of i k] k by (auto simp: ack_entry_ok_def)
      moreover have "j = k" if "hm_get (rp_pending_acks s) i = Some j" for j
        using rpc_inv_ack [OF inv that] cs i by (auto simp: ack_entry_ok_def call_state_def)
      ultimately have "hm_get (rp_pending_acks s) i = None" by (cases "hm_get (rp_pending_acks s) i") auto
      then show ?thesis using AckReceived k False same by (intro update) (simp_all add: handle_incoming_rpc_ack_def)
    qed
  next
    case (ResponseReceived i p er)
    then have i: "i = rc_id c" using about by simp
    show ?thesis
    proof (cases "rc_response c = Unsent")
      case True
      then have "hm_get (rp_pending_responses s) i = Some k" using ok timely ResponseReceived i by (auto simp: call_ok_def)
      then show ?thesis using ResponseReceived k True i
        by (intro update) (simp_all add: handle_incoming_rpc_response_def update_call_def)
    next
      case False
      then have "hm_get (rp_pending_responses s) i \<noteq> Some k"
        using rpc_inv_response [OF inv, of i k] k by (auto simp: response_entry_ok_def)
      moreover have "j = k" if "hm_get (rp_pending_responses s) i = Some j" for j
        using rpc_inv_response [OF inv that] cs i by (auto simp: response_entry_ok_def call_state_def)
      ultimately have "hm_get (rp_pending_responses s) i = None" by (cases "hm_get (rp_pending_responses s) i") auto
      then show ?thesis using ResponseReceived k False same by (intro update) (simp_all add: handle_incoming_rpc_response_def)
    qed
  qed (use about timely in auto)
qed

text \<open>A run of the caller is, for one call, the run of its own events.\<close>

fun all_in_time :: "rpc_event list \<Rightarrow> rpc_call \<Rightarrow> bool" where
  "all_in_time [] c \<longleftrightarrow> True"
| "all_in_time (e # es) c \<longleftrightarrow> in_time e c \<and> all_in_time es (call_step e c)"

lemma call_step_id [simp]: "rc_id (call_step e c) = rc_id c"
  by (cases "(e, c)" rule: call_step.cases) (auto split: call_phase.split oneshot.split)

lemma call_state_run:
  "call_state s k c \<Longrightarrow> all_in_time (filter (about_call k (rc_id c)) es) c \<Longrightarrow>
    call_state (fst (run_events (rpc_step too_old ver) s es)) k (fold call_step (filter (about_call k (rc_id c)) es) c)"
proof (induction es arbitrary: s c)
  case Nil
  then show ?case by simp
next
  case (Cons e es)
  show ?case
  proof (cases "about_call k (rc_id c) e")
    case True
    from Cons.prems(2) True have "in_time e c" "all_in_time (filter (about_call k (rc_id c)) es) (call_step e c)" by simp_all
    with Cons.IH [OF call_state_own [OF Cons.prems(1) True]] True show ?thesis by (simp add: Let_def split_beta)
  next
    case False
    with Cons.IH [OF call_state_foreign [OF Cons.prems(1) False]] Cons.prems(2) show ?thesis by (simp add: Let_def split_beta)
  qed
qed

section \<open>Truncation keeps the longest prefix that fits\<close>

lemma utf8_valid_take_char:
  assumes "utf8_valid (b # bs)" and "utf8_len b - 1 \<le> i"
  shows "utf8_valid (b # take i bs) \<longleftrightarrow> utf8_valid (take (i - (utf8_len b - 1)) (drop (utf8_len b - 1) bs))"
proof -
  have "take (utf8_len b - 1) (take i bs) = take (utf8_len b - 1) bs"
    "drop (utf8_len b - 1) (take i bs) = take (i - (utf8_len b - 1)) (drop (utf8_len b - 1) bs)"
    using assms(2) by (simp_all add: min_def drop_take)
  then show ?thesis using assms utf8_second_ok_take [of b bs i] by simp
qed

lemma truncate_loop_result:
  "utf8_valid bs \<Longrightarrow> length res \<le> n \<Longrightarrow>
    \<exists>j \<le> length bs. truncate_loop n (utf8_chars bs) res = res @ take j bs \<and> utf8_valid (take j bs) \<and> length res + j \<le> n \<and>
      (\<forall>k. j < k \<and> k \<le> length bs \<and> length res + k \<le> n \<longrightarrow> \<not> utf8_valid (take k bs))"
proof (induction bs arbitrary: res rule: utf8_valid.induct)
  case 1
  then show ?case by simp
next
  case (2 b bs)
  define m where "m = utf8_len b - 1"
  note head = utf8_valid_take_char [OF "2.prems"(1), folded m_def]
  have m: "utf8_len b = Suc m" "m \<le> length bs" "utf8_valid (drop m bs)" using "2.prems"(1) by (auto simp: m_def)
  show ?case
  proof (cases "n < length res + Suc m")
    case True
    have "\<not> utf8_valid (take k (b # bs))" if k: "0 < k" "length res + k \<le> n" for k
    proof -
      obtain i where i: "k = Suc i" using k(1) by (cases k) simp_all
      then have "i < m" using k(2) True by simp
      then show ?thesis using i m(1) by simp
    qed
    then show ?thesis using True m(1,2) "2.prems"(2) by (intro exI [of _ 0]) (simp del: utf8_valid.simps(2))
  next
    case False
    then have len: "length (res @ b # take m bs) \<le> n" using m(2) by simp
    from "2.IH" [folded m_def, OF m(3) len] obtain j where
      j: "j \<le> length (drop m bs)" "truncate_loop n (utf8_chars (drop m bs)) (res @ b # take m bs) = (res @ b # take m bs) @ take j (drop m bs)"
        "utf8_valid (take j (drop m bs))" "length (res @ b # take m bs) + j \<le> n"
        "\<forall>k. j < k \<and> k \<le> length (drop m bs) \<and> length (res @ b # take m bs) + k \<le> n \<longrightarrow> \<not> utf8_valid (take k (drop m bs))" by blast
    show ?thesis
    proof (intro exI [of _ "Suc (m + j)"] conjI allI impI)
      show "Suc (m + j) \<le> length (b # bs)" using j(1) m(2) by simp
      show "truncate_loop n (utf8_chars (b # bs)) res = res @ take (Suc (m + j)) (b # bs)"
        using False j(2) m(1,2) by (simp add: take_add)
      show "utf8_valid (take (Suc (m + j)) (b # bs))" using head [of "m + j"] j(3) by (simp del: utf8_valid.simps(2))
      show "length res + Suc (m + j) \<le> n" using j(4) m(2) by simp
    next
      fix k
      assume k: "Suc (m + j) < k \<and> k \<le> length (b # bs) \<and> length res + k \<le> n"
      then obtain i where i: "k = Suc (m + i)" "j < i" by (metis Suc_lessE add_Suc_right less_iff_Suc_add nat_add_left_cancel_less add.assoc)
      then have "i \<le> length (drop m bs)" "length (res @ b # take m bs) + i \<le> n" using k m(2) by (simp_all add: le_diff_conv2)
      then have "\<not> utf8_valid (take i (drop m bs))" using j(5) i(2) by blast
      then show "\<not> utf8_valid (take k (b # bs))" using head [of "m + i"] i(1) by (simp del: utf8_valid.simps(2))
    qed
  qed
qed

section \<open>A response that does not arrive in time, or not at all\<close>

text \<open>A response that overtakes a lost acknowledgement is thrown away: the call reports that it could not connect.\<close>

lemma response_without_ack_is_lost:
  assumes "call_state s k c" and "rc_phase c = AwaitAck" and "rc_ack c = Unsent" and "rc_response c = Unsent"
  shows "rc_phase (rp_calls (fst (run_events (rpc_step too_old ver) s [ResponseReceived (rc_id c) (Some p) None, CallPoll k True])) ! k) =
    Returned (Err (built_in ConnectionTimeout None))"
proof -
  define s1 where "s1 = fst (rpc_step too_old ver s (ResponseReceived (rc_id c) (Some p) None))"
  have "in_time (ResponseReceived (rc_id c) (Some p) None) c" using assms(2) by simp
  from call_state_own [OF assms(1) _ this, of too_old ver]
  have "call_state s1 k (c\<lparr>rc_response := Sent (Ok p)\<rparr>)" using assms(4) by (simp add: s1_def response_result_def)
  then have s1: "k < length (rp_calls s1)" "rp_calls s1 ! k = c\<lparr>rc_response := Sent (Ok p)\<rparr>" by (simp_all add: call_state_def)
  have "length (rp_calls (forget_call (rc_id c) s1)) = length (rp_calls s1)" by (simp add: forget_call_def drop_effects)
  then have "rc_phase (rp_calls (rpc_poll k True s1) ! k) = Returned (Err (built_in ConnectionTimeout None))"
    using s1 assms(2,3) by (simp add: rpc_poll_def return_call_def update_call_def)
  then show ?thesis using s1(1) by (simp add: s1_def Let_def split_beta del: rpc_step.simps(5,6))
qed

text \<open>The entries of a call whose caller went away stay until a packet with its identifier arrives.\<close>

lemma cancelled_call_keeps_its_entries:
  assumes "k < length (rp_calls s)" and "rc_phase (rp_calls s ! k) = AwaitResponse"
  shows "rp_pending_responses (fst (rpc_step too_old ver s (CallCancelled k))) = rp_pending_responses s"
  using assms by (simp add: rpc_cancel_def update_call_def)

section \<open>Properties\<close>

text \<open>What the responder makes of a request, as the caller sees it.\<close>

definition wire_error :: "rpc_error \<Rightarrow> rpc_error" where
  "wire_error e = error_from_proto (error_to_proto e)"

definition rpc_expected :: "rpc_handler option \<Rightarrow> rpc_invocation \<Rightarrow> rpc_result" where
  "rpc_expected handler invocation =
     (case handler of
        None \<Rightarrow> Err (wire_error (built_in UnsupportedMethod None))
      | Some h \<Rightarrow>
          (case h invocation of
             Ok r \<Rightarrow> if length r \<le> MAX_PAYLOAD_BYTES then Ok r else Err (wire_error (built_in ResponsePayloadTooLarge None))
           | Err e \<Rightarrow> Err (wire_error e)
           | Panic \<Rightarrow> Err (wire_error (built_in ApplicationError None))))"

text \<open>A response as it arrives: written to the wire and read by the session.\<close>

definition wire_response :: "bytes option \<Rightarrow> rpc_error_proto option \<Rightarrow> bytes option \<times> rpc_error_proto option" where
  "wire_response p e = response_from_wire (case response_to_wire p e of Ok v \<Rightarrow> Some v | _ \<Rightarrow> None)"

lemma responder_result:
  "\<exists>p e. handle_incoming_rpc_request handlers caller rid rpc_method rpc_payload t 1 = [PublishAck caller rid, PublishResponse caller rid p e] \<and>
    is_ok (response_to_wire p e) \<and>
    response_result (fst (wire_response p e)) (snd (wire_response p e)) =
      rpc_expected (hm_get handlers rpc_method) \<lparr>iv_request_id = rid, iv_caller_identity = caller, iv_payload = rpc_payload, iv_response_timeout = t\<rparr>"
  by (cases "hm_get handlers rpc_method")
    (auto simp: handle_incoming_rpc_request_def rpc_expected_def response_to_wire_def wire_response_def response_from_wire_def
      response_result_def wire_error_def Let_def split: outcome.split)

text \<open>
  C24: A call returns what its handler returned.  Take a caller in any reachable state, a fresh identifier, a payload within the
  limit and a server that supports calls.  If the request reaches the responder, its acknowledgement and response come
  back in order and the call is polled after each, then, whatever happens to other calls in between, the call returns the
  handler's payload, or the truncated error of the handler, or the built-in error for a missing or panicking handler
  or an oversized response; and the responder never unwraps a missing payload.
\<close>

theorem rpc_end_to_end:
  assumes "s = fst (run_events (rpc_step too_old ver) rpc_state_new earlier)" and "\<forall>c \<in> set (rp_calls s). rc_id c \<noteq> cid"
    and "length (pd_payload data) \<le> MAX_PAYLOAD_BYTES" and "case ver of None \<Rightarrow> True | Some v \<Rightarrow> v = [] \<or> too_old v = Some False"
    and "rpc_step too_old ver s (CallBegin cid data) = (s', [req])" and "k = length (rp_calls s)"
    and "handle_incoming_rpc_request handlers caller (rq_id req) (rq_method req) (rq_payload req) t (rq_version req) =
      [PublishAck d1 i1, PublishResponse d2 i2 p e]"
    and "filter (about_call k cid) es =
      [CallPublished k None, AckReceived i1, CallPoll k False, ResponseReceived i2 (fst (wire_response p e)) (snd (wire_response p e)), CallPoll k False]"
  shows "rc_phase (rp_calls (fst (run_events (rpc_step too_old ver) s' es)) ! k) =
      Returned (rpc_expected (hm_get handlers (pd_method data)) \<lparr>iv_request_id = cid, iv_caller_identity = caller,
        iv_payload = pd_payload data, iv_response_timeout = t\<rparr>) \<and> is_ok (response_to_wire p e)"
proof -
  have inv: "rpc_inv s" using assms(1) rpcm.run_inv [of rpc_state_new earlier too_old ver] by simp
  let ?c = "\<lparr>rc_id = cid, rc_phase = Publishing, rc_ack = Unsent, rc_response = Unsent\<rparr>"
  have begun: "rpc_begin too_old ver cid data s = (s', [req])" using assms(5) by simp
  then have s': "rp_calls s' = rp_calls (drop_response_sender cid (drop_ack_sender cid s)) @ [?c]" and req: "req = request_of cid data"
    using assms(3,4) by (auto simp: rpc_begin_def Let_def split: option.splits if_splits)
  have "hm_get (rp_pending_acks s) cid = None"
    using assms(2) rpc_inv_ack [OF inv, of cid] by (cases "hm_get (rp_pending_acks s) cid") (auto simp: ack_entry_ok_def)
  moreover have "hm_get (rp_pending_responses s) cid = None"
    using assms(2) rpc_inv_response [OF inv, of cid] by (cases "hm_get (rp_pending_responses s) cid") (auto simp: response_entry_ok_def)
  ultimately have calls: "rp_calls s' = rp_calls s @ [?c]" using s' by (simp add: drop_ack_sender_def drop_response_sender_def)
  have "rpc_inv s'" using rpc_inv_begin [OF inv, of too_old ver cid data] begun by simp
  then have start: "call_state s' k ?c"
    using calls assms(2,6) by (auto simp: call_state_def nth_append less_Suc_eq)
  obtain p' e' where r: "handle_incoming_rpc_request handlers caller cid (pd_method data) (pd_payload data) t 1 =
      [PublishAck caller cid, PublishResponse caller cid p' e']" "is_ok (response_to_wire p' e')"
    "response_result (fst (wire_response p' e')) (snd (wire_response p' e')) = rpc_expected (hm_get handlers (pd_method data))
      \<lparr>iv_request_id = cid, iv_caller_identity = caller, iv_payload = pd_payload data, iv_response_timeout = t\<rparr>"
    using responder_result by blast
  then have ids: "i1 = cid" "i2 = cid" "p = p'" "e = e'" using assms(7) req by (auto simp: request_of_def)
  from call_state_run [OF start, of es too_old ver] assms(8) ids r(3)
  have "call_state (fst (run_events (rpc_step too_old ver) s' es)) k \<lparr>rc_id = cid,
      rc_phase = Returned (rpc_expected (hm_get handlers (pd_method data)) \<lparr>iv_request_id = cid, iv_caller_identity = caller,
        iv_payload = pd_payload data, iv_response_timeout = t\<rparr>), rc_ack = Sent (),
      rc_response = Sent (rpc_expected (hm_get handlers (pd_method data)) \<lparr>iv_request_id = cid, iv_caller_identity = caller,
        iv_payload = pd_payload data, iv_response_timeout = t\<rparr>)\<rparr>"
    by simp
  then show ?thesis using r(2) ids by (simp add: call_state_def)
qed

theorem rpc_end_to_end_witness:
  "\<exists>s'. rpc_step (\<lambda>v. Some False) (Some ''1.9.0'') rpc_state_new (CallBegin ''c1'' \<lparr>pd_destination_identity = ''bob'', pd_method = ''echo'',
      pd_payload = [1, 2], pd_response_timeout = 15000000000\<rparr>) =
      (s', [request_of ''c1'' \<lparr>pd_destination_identity = ''bob'', pd_method = ''echo'', pd_payload = [1, 2], pd_response_timeout = 15000000000\<rparr>]) \<and>
    rc_phase (rp_calls (fst (run_events (rpc_step (\<lambda>v. Some False) (Some ''1.9.0'')) s'
      [CallPublished 0 None, AckReceived ''other'', AckReceived ''c1'', CallPoll 0 False, ResponseReceived ''c1'' (Some [2, 1]) None, CallPoll 0 False])) ! 0) =
      Returned (Ok [2, 1])"
proof -
  let ?data = "\<lparr>pd_destination_identity = ''bob'', pd_method = ''echo'', pd_payload = [1, 2], pd_response_timeout = 15000000000\<rparr>"
  let ?es = "[CallPublished 0 None, AckReceived ''other'', AckReceived ''c1'', CallPoll 0 False, ResponseReceived ''c1'' (Some [2, 1]) None, CallPoll 0 False]"
  let ?ver = "Some ''1.9.0''"
  let ?handlers = "[(''echo'', \<lambda>iv. Ok (rev (iv_payload iv)))] :: (string, rpc_handler) hashmap"
  obtain s' where s': "rpc_step (\<lambda>v. Some False) ?ver rpc_state_new (CallBegin ''c1'' ?data) = (s', [request_of ''c1'' ?data])"
    by (simp add: rpc_begin_def Let_def MAX_PAYLOAD_BYTES_def)
  have answer: "handle_incoming_rpc_request ?handlers ''alice'' (rq_id (request_of ''c1'' ?data)) (rq_method (request_of ''c1'' ?data))
      (rq_payload (request_of ''c1'' ?data)) 0 (rq_version (request_of ''c1'' ?data)) =
      [PublishAck ''alice'' ''c1'', PublishResponse ''alice'' ''c1'' (Some [2, 1]) None]"
    by (simp add: handle_incoming_rpc_request_def request_of_def MAX_PAYLOAD_BYTES_def)
  have own: "filter (about_call 0 ''c1'') ?es = [CallPublished 0 None, AckReceived ''c1'', CallPoll 0 False,
      ResponseReceived ''c1'' (fst (wire_response (Some [2, 1]) None)) (snd (wire_response (Some [2, 1]) None)), CallPoll 0 False]"
    by (simp add: wire_response_def response_to_wire_def response_from_wire_def)
  have start: "rpc_state_new = fst (run_events (rpc_step (\<lambda>v. Some False) ?ver) rpc_state_new [])"
    "\<forall>c \<in> set (rp_calls rpc_state_new). rc_id c \<noteq> ''c1''" "length (pd_payload ?data) \<le> MAX_PAYLOAD_BYTES"
    "case ?ver of None \<Rightarrow> True | Some v \<Rightarrow> v = [] \<or> Some False = Some False" "0 = length (rp_calls rpc_state_new)"
    by (simp_all add: rpc_state_new_def MAX_PAYLOAD_BYTES_def)
  from rpc_end_to_end [OF start(1-4) s' start(5) answer own] s' show ?thesis
    by (simp add: rpc_expected_def MAX_PAYLOAD_BYTES_def)
qed

text \<open>
  The pending maps are exact.  In any reachable state of the caller, an entry belongs to a call with that identifier that has
  not returned, and a call that still waits has its entries: nothing is left behind by calls that returned, whether
  by response, error, timeout or failure to send.
\<close>

theorem rpc_pending_exact:
  assumes "s = fst (run_events (rpc_step too_old ver) rpc_state_new es)"
  shows "(\<forall>cid k. hm_get (rp_pending_acks s) cid = Some k \<or> hm_get (rp_pending_responses s) cid = Some k \<longrightarrow>
      k < length (rp_calls s) \<and> rc_id (rp_calls s ! k) = cid \<and> (\<forall>r. rc_phase (rp_calls s ! k) \<noteq> Returned r)) \<and>
    (\<forall>k < length (rp_calls s). rc_phase (rp_calls s ! k) = AwaitResponse \<and> rc_response (rp_calls s ! k) = Unsent \<longrightarrow>
      hm_get (rp_pending_responses s) (rc_id (rp_calls s ! k)) = Some k)"
proof -
  have inv: "rpc_inv s" using assms rpcm.run_inv [of rpc_state_new es too_old ver] by simp
  show ?thesis
    using rpc_inv_ack [OF inv] rpc_inv_response [OF inv] rpc_inv_call [OF inv]
    by (fastforce simp: ack_entry_ok_def response_entry_ok_def call_ok_def)
qed

theorem rpc_pending_exact_witness:
  "hm_get (rp_pending_responses (fst (run_events (rpc_step (\<lambda>v. Some False) None) rpc_state_new
    [CallBegin ''c1'' \<lparr>pd_destination_identity = ''bob'', pd_method = ''m'', pd_payload = [], pd_response_timeout = 0\<rparr>, CallPublished 0 None, CallPoll 0 True])))
    ''c1'' \<noteq> Some 0"
proof -
  let ?s = "fst (run_events (rpc_step (\<lambda>v. Some False) None) rpc_state_new
    [CallBegin ''c1'' \<lparr>pd_destination_identity = ''bob'', pd_method = ''m'', pd_payload = [], pd_response_timeout = 0\<rparr>, CallPublished 0 None, CallPoll 0 True])"
  have "rc_phase (rp_calls ?s ! 0) = Returned (Err (built_in ConnectionTimeout None))"
    by (simp add: rpc_state_new_def rpc_begin_def drop_ack_sender_def drop_response_sender_def hm_insert_def rpc_published_def rpc_poll_def
        update_call_def return_call_def forget_call_def hm_remove_def MAX_PAYLOAD_BYTES_def Let_def)
  with rpc_pending_exact [OF refl, of "\<lambda>v. Some False" None
      "[CallBegin ''c1'' \<lparr>pd_destination_identity = ''bob'', pd_method = ''m'', pd_payload = [], pd_response_timeout = 0\<rparr>, CallPublished 0 None, CallPoll 0 True]"]
  show ?thesis by blast
qed

text \<open>
  Truncation.  The truncated string is valid UTF-8 within the limit, a prefix of the string, and no longer prefix is both.
\<close>

theorem truncate_bytes_correct:
  assumes "utf8_valid s"
  shows "utf8_valid (truncate_bytes n s) \<and> length (truncate_bytes n s) \<le> n \<and>
    truncate_bytes n s = take (length (truncate_bytes n s)) s \<and>
    (\<forall>k. length (truncate_bytes n s) < k \<and> k \<le> length s \<and> k \<le> n \<longrightarrow> \<not> utf8_valid (take k s))"
proof (cases "length s \<le> n")
  case True
  then show ?thesis using assms by (simp add: truncate_bytes_def)
next
  case False
  obtain j where "j \<le> length s" "truncate_loop n (utf8_chars s) [] = take j s" "utf8_valid (take j s)" "j \<le> n"
    "\<forall>k. j < k \<and> k \<le> length s \<and> k \<le> n \<longrightarrow> \<not> utf8_valid (take k s)"
    using truncate_loop_result [OF assms, of "[]" n] by auto
  then show ?thesis using False by (simp add: truncate_bytes_def)
qed

theorem truncate_bytes_correct_witness:
  "utf8_valid (truncate_bytes 2 [0x61, 0xC3, 0xA9]) \<and> length (truncate_bytes 2 [0x61, 0xC3, 0xA9]) \<le> 2"
proof -
  have "utf8_valid [0x61, 0xC3, 0xA9]" by (simp add: utf8_len_def is_continuation_def utf8_second_ok_def)
  from truncate_bytes_correct [OF this, of 2] show ?thesis by blast
qed

end
