(* ===== verification/LkDcSender.thy ===== *)
theory LkDcSender
  imports LKPrelude LKInterfaces "HOL-Library.Sublist"
begin

text \<open>
  The sender of the data track channel (\<open>livekit/src/rtc_engine/dc_sender.rs\<close>): a bounded queue of whole frames
  that evicts the oldest, and the task that hands packets to the data channel while its buffered amount is low.
  The data channel is outside the model: what is handed to it is the output of the machine, and the sizes it reports
  as sent are events.
\<close>

section \<open>The queue\<close>

type_synonym frame_packets = "bytes list"

record send_queue =
  sq_queue :: "frame_packets list"
  sq_capacity :: nat

definition send_queue_new :: "nat \<Rightarrow> send_queue" where
  "send_queue_new capacity = \<lparr>sq_queue = [], sq_capacity = capacity\<rparr>"

definition sq_send :: "frame_packets \<Rightarrow> send_queue \<Rightarrow> frame_packets option \<times> send_queue" where
  "sq_send packets q =
     (if packets = [] then (None, q)
      else let (dropped, rest) =
             (if sq_capacity q \<le> length (sq_queue q)
              then (case sq_queue q of [] \<Rightarrow> (None, []) | f # fs \<Rightarrow> (Some f, fs))
              else (None, sq_queue q))
           in (dropped, q\<lparr>sq_queue := rest @ [packets]\<rparr>))"

definition sq_try_pop :: "send_queue \<Rightarrow> frame_packets option \<times> send_queue" where
  "sq_try_pop q = (case sq_queue q of [] \<Rightarrow> (None, q) | f # fs \<Rightarrow> (Some f, q\<lparr>sq_queue := fs\<rparr>))"

definition sq_drain :: "send_queue \<Rightarrow> frame_packets list \<times> send_queue" where
  "sq_drain q = (sq_queue q, q\<lparr>sq_queue := []\<rparr>)"

section \<open>The sender task\<close>

record dc_sender =
  ds_queue :: send_queue
  ds_in_flight :: "bytes list"
  ds_low_buffer_threshold :: nat
  ds_buffered_amount :: nat
  ds_running :: bool

definition QUEUE_CAPACITY :: nat where "QUEUE_CAPACITY = 1"

definition dc_sender_new :: "nat \<Rightarrow> dc_sender" where
  "dc_sender_new low_buffer_threshold =
     \<lparr>ds_queue = send_queue_new QUEUE_CAPACITY, ds_in_flight = [], ds_low_buffer_threshold = low_buffer_threshold,
      ds_buffered_amount = 0, ds_running = True\<rparr>"

text \<open>A failed send of the data channel is only logged: the packet counts as handed over.\<close>

definition ds_dispatch :: "bytes \<Rightarrow> dc_sender \<Rightarrow> dc_sender" where
  "ds_dispatch packet s = s\<lparr>ds_buffered_amount := ds_buffered_amount s + length packet\<rparr>"

function drain_in_flight :: "dc_sender \<Rightarrow> dc_sender \<times> bytes list" where
  "drain_in_flight s =
     (if ds_buffered_amount s \<le> ds_low_buffer_threshold s
      then (case ds_in_flight s of
              [] \<Rightarrow> (s, [])
            | packet # rest \<Rightarrow>
                let (s, out) = drain_in_flight (ds_dispatch packet (s\<lparr>ds_in_flight := rest\<rparr>)) in (s, packet # out))
      else (s, []))"
  by pat_completeness auto
termination
  by (relation "measure (\<lambda>s. length (ds_in_flight s))") (auto simp: ds_dispatch_def)

declare drain_in_flight.simps [simp del]

definition handle_bytes_sent :: "nat \<Rightarrow> dc_sender \<Rightarrow> dc_sender" where
  "handle_bytes_sent n s =
     (if ds_buffered_amount s < n then s\<lparr>ds_buffered_amount := 0\<rparr>
      else s\<lparr>ds_buffered_amount := ds_buffered_amount s - n\<rparr>)"

text \<open>
  The branches of the task's \<open>select\<close>, in any order, and the producers: a frame is queued, the data channel
  reports bytes sent, the queue is polled, the session closes.
\<close>

datatype sender_event = FrameQueued frame_packets | BytesSent nat | QueuePolled | SenderClosed

fun sender_step :: "dc_sender \<Rightarrow> sender_event \<Rightarrow> dc_sender \<times> bytes list" where
  "sender_step s (FrameQueued packets) = (s\<lparr>ds_queue := snd (sq_send packets (ds_queue s))\<rparr>, [])"
| "sender_step s (BytesSent n) = (if ds_running s then drain_in_flight (handle_bytes_sent n s) else (s, []))"
| "sender_step s QueuePolled =
     (if ds_running s \<and> ds_in_flight s = [] \<and> ds_buffered_amount s \<le> ds_low_buffer_threshold s
      then (case sq_try_pop (ds_queue s) of
              (None, _) \<Rightarrow> (s, [])
            | (Some packets, q) \<Rightarrow> drain_in_flight (s\<lparr>ds_queue := q, ds_in_flight := ds_in_flight s @ packets\<rparr>))
      else (s, []))"
| "sender_step s SenderClosed =
     (if ds_running s then (s\<lparr>ds_running := False, ds_queue := snd (sq_drain (ds_queue s))\<rparr>, []) else (s, []))"

section \<open>Draining\<close>

lemma drain_result:
  "drain_in_flight s = (s', out) \<Longrightarrow>
    out @ ds_in_flight s' = ds_in_flight s \<and> ds_queue s' = ds_queue s \<and> ds_running s' = ds_running s \<and>
    ds_low_buffer_threshold s' = ds_low_buffer_threshold s \<and>
    ds_buffered_amount s' = ds_buffered_amount s + sum_list (map length out) \<and>
    (ds_in_flight s' \<noteq> [] \<longrightarrow> ds_low_buffer_threshold s < ds_buffered_amount s')"
proof (induction s arbitrary: s' out rule: drain_in_flight.induct)
  case (1 s)
  show ?case
  proof (cases "ds_buffered_amount s \<le> ds_low_buffer_threshold s")
    case False
    then show ?thesis using "1.prems" by (simp add: drain_in_flight.simps)
  next
    case low: True
    show ?thesis
    proof (cases "ds_in_flight s")
      case Nil
      then show ?thesis using "1.prems" low by (simp add: drain_in_flight.simps)
    next
      case (Cons packet rest)
      let ?s = "ds_dispatch packet (s\<lparr>ds_in_flight := rest\<rparr>)"
      obtain s1 out1 where d: "drain_in_flight ?s = (s1, out1)" by fastforce
      then have "s' = s1" "out = packet # out1"
        using "1.prems" low Cons by (simp_all add: drain_in_flight.simps [of s])
      then show ?thesis using "1.IH" [OF low Cons d] Cons by (auto simp: ds_dispatch_def)
    qed
  qed
qed

lemma drain_bound:
  "drain_in_flight s = (s', out) \<Longrightarrow> list_all (\<lambda>p. length p \<le> m) (ds_in_flight s) \<Longrightarrow>
    ds_buffered_amount s \<le> ds_low_buffer_threshold s + m \<Longrightarrow> ds_buffered_amount s' \<le> ds_low_buffer_threshold s + m"
proof (induction s arbitrary: s' out rule: drain_in_flight.induct)
  case (1 s)
  show ?case
  proof (cases "ds_buffered_amount s \<le> ds_low_buffer_threshold s")
    case False
    then show ?thesis using "1.prems" by (simp add: drain_in_flight.simps)
  next
    case low: True
    show ?thesis
    proof (cases "ds_in_flight s")
      case Nil
      then show ?thesis using "1.prems" low by (simp add: drain_in_flight.simps)
    next
      case (Cons packet rest)
      let ?s = "ds_dispatch packet (s\<lparr>ds_in_flight := rest\<rparr>)"
      obtain s1 out1 where d: "drain_in_flight ?s = (s1, out1)" by fastforce
      then have "s' = s1" using "1.prems"(1) low Cons by (simp add: drain_in_flight.simps [of s])
      then show ?thesis using "1.IH" [OF low Cons d] "1.prems"(2) low Cons by (simp add: ds_dispatch_def)
    qed
  qed
qed

section \<open>The invariant of the sender\<close>

definition ds_inv :: "nat \<Rightarrow> dc_sender \<Rightarrow> bool" where
  "ds_inv m s \<longleftrightarrow> length (sq_queue (ds_queue s)) \<le> 1 \<and> sq_capacity (ds_queue s) = 1 \<and>
     list_all (\<lambda>f. f \<noteq> [] \<and> list_all (\<lambda>p. length p \<le> m) f) (sq_queue (ds_queue s)) \<and>
     list_all (\<lambda>p. length p \<le> m) (ds_in_flight s) \<and>
     ds_buffered_amount s \<le> ds_low_buffer_threshold s + m \<and>
     (ds_in_flight s \<noteq> [] \<longrightarrow> ds_low_buffer_threshold s < ds_buffered_amount s)"

fun sender_event_ok :: "nat \<Rightarrow> sender_event \<Rightarrow> bool" where
  "sender_event_ok m (FrameQueued packets) \<longleftrightarrow> list_all (\<lambda>p. length p \<le> m) packets"
| "sender_event_ok m e \<longleftrightarrow> True"

lemma ds_inv_new [simp]: "ds_inv m (dc_sender_new t)"
  by (simp add: ds_inv_def dc_sender_new_def send_queue_new_def QUEUE_CAPACITY_def)

lemma ds_inv_drained:
  assumes "drain_in_flight s = (s', out)" and "length (sq_queue (ds_queue s)) \<le> 1" and "sq_capacity (ds_queue s) = 1"
    and "list_all (\<lambda>f. f \<noteq> [] \<and> list_all (\<lambda>p. length p \<le> m) f) (sq_queue (ds_queue s))"
    and "list_all (\<lambda>p. length p \<le> m) (ds_in_flight s)" and "ds_buffered_amount s \<le> ds_low_buffer_threshold s + m"
  shows "ds_inv m s' \<and> list_all (\<lambda>p. length p \<le> m) out"
proof -
  note r = drain_result [OF assms(1)]
  have whole: "out @ ds_in_flight s' = ds_in_flight s" and same: "ds_queue s' = ds_queue s" "ds_low_buffer_threshold s' = ds_low_buffer_threshold s"
    and waiting: "ds_in_flight s' \<noteq> [] \<longrightarrow> ds_low_buffer_threshold s < ds_buffered_amount s'"
    using r by blast+
  have "list_all (\<lambda>p. length p \<le> m) (out @ ds_in_flight s')" using assms(5) by (simp only: whole)
  then have "list_all (\<lambda>p. length p \<le> m) out" "list_all (\<lambda>p. length p \<le> m) (ds_in_flight s')" by simp_all
  then show ?thesis using waiting drain_bound [OF assms(1,5,6)] assms(2-4) by (simp add: ds_inv_def same)
qed

lemma ds_inv_step: "ds_inv m s \<Longrightarrow> sender_event_ok m e \<Longrightarrow> ds_inv m (fst (sender_step s e)) \<and> list_all (\<lambda>p. length p \<le> m) (snd (sender_step s e))"
proof (cases e)
  case (FrameQueued packets)
  assume "ds_inv m s" "sender_event_ok m e"
  then show ?thesis using FrameQueued
    by (cases "sq_queue (ds_queue s)") (auto simp: ds_inv_def sq_send_def Let_def)
next
  case (BytesSent n)
  assume inv: "ds_inv m s" "sender_event_ok m e"
  obtain s' out where d: "drain_in_flight (handle_bytes_sent n s) = (s', out)" by fastforce
  have "ds_inv m s' \<and> list_all (\<lambda>p. length p \<le> m) out"
    by (rule ds_inv_drained [OF d]) (use inv(1) in \<open>auto simp: ds_inv_def handle_bytes_sent_def\<close>)
  then show ?thesis using inv BytesSent d by simp
next
  case QueuePolled
  assume inv: "ds_inv m s" "sender_event_ok m e"
  show ?thesis
  proof (cases "ds_running s \<and> ds_in_flight s = [] \<and> ds_buffered_amount s \<le> ds_low_buffer_threshold s \<and> sq_queue (ds_queue s) \<noteq> []")
    case True
    then obtain packets rest where q: "sq_queue (ds_queue s) = packets # rest" by (cases "sq_queue (ds_queue s)") simp_all
    let ?s = "s\<lparr>ds_queue := (ds_queue s)\<lparr>sq_queue := rest\<rparr>, ds_in_flight := packets\<rparr>"
    obtain s' out where d: "drain_in_flight ?s = (s', out)" by fastforce
    have "ds_inv m s' \<and> list_all (\<lambda>p. length p \<le> m) out"
      by (rule ds_inv_drained [OF d]) (use inv(1) q in \<open>auto simp: ds_inv_def\<close>)
    then show ?thesis using True QueuePolled q d by (simp add: sq_try_pop_def)
  next
    case False
    then show ?thesis using inv QueuePolled by (auto simp: sq_try_pop_def)
  qed
next
  case SenderClosed
  assume "ds_inv m s" "sender_event_ok m e"
  then show ?thesis using SenderClosed by (auto simp: ds_inv_def sq_drain_def)
qed

interpretation dcs: guaranteed_machine sender_step "sender_event_ok m" "ds_inv m" "\<lambda>p. length p \<le> m"
  by unfold_locales (simp_all add: ds_inv_step)

section \<open>Whole frames\<close>

text \<open>The frames offered to the queue, and those that are still to come out of the sender's own state.\<close>

fun offered :: "sender_event list \<Rightarrow> frame_packets list" where
  "offered [] = []"
| "offered (FrameQueued packets # es) = (if packets = [] then offered es else packets # offered es)"
| "offered (_ # es) = offered es"

lemma sender_run_frames:
  assumes "run_events sender_step s es = (s', out)" and "length (sq_queue (ds_queue s)) \<le> 1" and "sq_capacity (ds_queue s) = 1"
  shows "\<exists>fs. subseq fs (sq_queue (ds_queue s) @ offered es) \<and> ds_in_flight s @ concat fs = out @ ds_in_flight s'"
  using assms
proof (induction es arbitrary: s out)
  case Nil
  then show ?case by (intro exI [of _ "[]"]) simp
next
  case (Cons e es)
  obtain s1 out1 out2 where step: "sender_step s e = (s1, out1)" and rest: "run_events sender_step s1 es = (s', out2)"
    and out: "out = out1 @ out2"
    using Cons.prems(1) by (auto simp: Let_def split: prod.splits)
  note IH = Cons.IH [OF rest]
  show ?case
  proof (cases e)
    case (FrameQueued packets)
    have s1: "ds_in_flight s1 = ds_in_flight s" "out1 = []" "length (sq_queue (ds_queue s1)) \<le> 1" "sq_capacity (ds_queue s1) = 1"
      "subseq (sq_queue (ds_queue s1) @ offered es) (sq_queue (ds_queue s) @ offered (e # es))"
      using step FrameQueued Cons.prems(2,3)
      by (cases "sq_queue (ds_queue s)"; auto simp: sq_send_def Let_def)+
    from IH [OF s1(3,4)] obtain fs where "subseq fs (sq_queue (ds_queue s1) @ offered es)"
      "ds_in_flight s1 @ concat fs = out2 @ ds_in_flight s'" by blast
    then show ?thesis using s1 out subseq_order.trans by (intro exI [of _ fs]) auto
  next
    case (BytesSent n)
    have "out1 @ ds_in_flight s1 = ds_in_flight s \<and> ds_queue s1 = ds_queue s"
    proof (cases "ds_running s")
      case True
      then have "drain_in_flight (handle_bytes_sent n s) = (s1, out1)" using step BytesSent by simp
      from drain_result [OF this] show ?thesis by (simp add: handle_bytes_sent_def split: if_splits)
    qed (use step BytesSent in simp)
    moreover from this obtain fs where "subseq fs (sq_queue (ds_queue s1) @ offered es)" "ds_in_flight s1 @ concat fs = out2 @ ds_in_flight s'"
      using IH Cons.prems(2,3) by auto
    ultimately show ?thesis using out BytesSent by (intro exI [of _ fs]) (metis append.assoc offered.simps(3))
  next
    case QueuePolled
    show ?thesis
    proof (cases "ds_running s \<and> ds_in_flight s = [] \<and> ds_buffered_amount s \<le> ds_low_buffer_threshold s \<and> sq_queue (ds_queue s) \<noteq> []")
      case True
      then obtain packets where q: "sq_queue (ds_queue s) = [packets]" using Cons.prems(2) by (cases "sq_queue (ds_queue s)") auto
      let ?s = "s\<lparr>ds_queue := (ds_queue s)\<lparr>sq_queue := []\<rparr>, ds_in_flight := packets\<rparr>"
      have "drain_in_flight ?s = (s1, out1)" using step True q QueuePolled by (simp add: sq_try_pop_def)
      from drain_result [OF this] have d: "out1 @ ds_in_flight s1 = packets" "sq_queue (ds_queue s1) = []" "sq_capacity (ds_queue s1) = 1"
        using Cons.prems(3) by simp_all
      from IH obtain fs where fs: "subseq fs (offered es)" "ds_in_flight s1 @ concat fs = out2 @ ds_in_flight s'" using d by auto
      have "packets @ concat fs = out1 @ out2 @ ds_in_flight s'" using d(1) fs(2) by (metis append.assoc)
      then show ?thesis using True q out fs QueuePolled by (intro exI [of _ "packets # fs"]) simp
    next
      case False
      then have "s1 = s" "out1 = []" using step QueuePolled by (auto simp: sq_try_pop_def split: if_splits)
      then show ?thesis using IH Cons.prems(2,3) out QueuePolled by simp
    qed
  next
    case SenderClosed
    have s1: "ds_in_flight s1 = ds_in_flight s" "out1 = []" "length (sq_queue (ds_queue s1)) \<le> 1" "sq_capacity (ds_queue s1) = 1"
      "subseq (sq_queue (ds_queue s1) @ offered es) (sq_queue (ds_queue s) @ offered (e # es))"
      using step SenderClosed Cons.prems(2,3) by (auto simp: sq_drain_def split: if_splits)
    from IH [OF s1(3,4)] obtain fs where "subseq fs (sq_queue (ds_queue s1) @ offered es)"
      "ds_in_flight s1 @ concat fs = out2 @ ds_in_flight s'" by blast
    then show ?thesis using s1 out subseq_order.trans by (intro exI [of _ fs]) auto
  qed
qed

section \<open>Properties\<close>

text \<open>
  Whole frames in order.  What a sender has handed to the data channel, together with the packets still in flight, is the
  concatenation of some of the offered frames, whole and in the order offered: eviction never leaves a partial frame
  behind, and frames are never interleaved.
\<close>

theorem dc_sender_whole_frames:
  "\<exists>fs. subseq fs (offered es) \<and>
    concat fs = snd (run_events sender_step (dc_sender_new t) es) @ ds_in_flight (fst (run_events sender_step (dc_sender_new t) es))"
proof -
  obtain s' out where r: "run_events sender_step (dc_sender_new t) es = (s', out)" by fastforce
  from sender_run_frames [OF r] show ?thesis
    unfolding r by (simp add: dc_sender_new_def send_queue_new_def QUEUE_CAPACITY_def)
qed

text \<open>
  Backpressure.  If no packet is longer than \<open>m\<close>, the buffered amount of a sender never exceeds its threshold by more than
  \<open>m\<close>, packets wait only while the amount is above the threshold, and at most one frame, the latest, is queued.
\<close>

theorem dc_sender_backpressure:
  assumes "list_all (sender_event_ok m) es" and "s = fst (run_events sender_step (dc_sender_new t) es)"
  shows "ds_buffered_amount s \<le> ds_low_buffer_threshold s + m \<and>
    (ds_in_flight s \<noteq> [] \<longrightarrow> ds_low_buffer_threshold s < ds_buffered_amount s) \<and> length (sq_queue (ds_queue s)) \<le> 1"
  using dcs.run_inv [OF ds_inv_new assms(1), of t] assms(2) by (simp add: ds_inv_def)

theorem dc_sender_backpressure_witness:
  "ds_buffered_amount (fst (run_events sender_step (dc_sender_new 3) [FrameQueued [[1, 2], [3, 4], [5, 6 :: u8]], QueuePolled, BytesSent 1])) \<le>
    ds_low_buffer_threshold (fst (run_events sender_step (dc_sender_new 3) [FrameQueued [[1, 2], [3, 4], [5, 6 :: u8]], QueuePolled, BytesSent 1])) + 2"
  using dc_sender_backpressure [of 2 "[FrameQueued [[1, 2], [3, 4], [5, 6 :: u8]], QueuePolled, BytesSent 1]", OF _ refl, of 3] by simp

end
