(* ===== verification/LkReliable.thy ===== *)
theory LkReliable
  imports LkUtils LKInterfaces "HOL-Library.Sublist"
begin

text \<open>
  The data channel task of a session and the receive state of reliable packets
  (\<open>livekit/src/rtc_engine/rtc_session.rs\<close>): sequence numbers, the two queues held back by the buffered amount,
  the retry queue and its trimming, and retries after a resume.  The encoding of a packet under a sequence number is
  a parameter; the results of the data channel's sends are a script, after which every send succeeds.
\<close>

section \<open>Requests and events\<close>

datatype dp_kind = Lossy | Reliable

record encoded_packet =
  ep_data :: bytes
  ep_sequence :: u32

definition ep_buffered_size :: "encoded_packet \<Rightarrow> nat" where
  "ep_buffered_size p = length (ep_data p)"

record publish_data_request =
  pdr_packet :: encoded_packet
  pdr_completion :: "nat option"

text \<open>A packet to publish: the sequence number it carries, its contents, and the number of the waiting caller.\<close>

record 'p publish_packet_request =
  ppk_sequence :: u32
  ppk_packet :: 'p
  ppk_completion :: nat

datatype 'p dc_event =
    PublishPacket dp_kind "'p publish_packet_request"
  | PublishData dp_kind publish_data_request
  | BufferedAmountChange dp_kind nat
  | RetryFrom dp_kind u32

record 'p dc_task =
  dt_events :: "'p dc_event list"
  dt_lossy_buffered :: nat
  dt_reliable_buffered :: nat
  dt_lossy_queue :: "publish_data_request list"
  dt_reliable_queue :: "publish_data_request list"
  dt_retry_queue :: "encoded_packet tx_queue"
  dt_next_sequence :: u32
  dt_lossy_threshold :: nat
  dt_reliable_threshold :: nat
  dt_send_results :: "bool list"
  dt_running :: bool

definition INITIAL_BUFFERED_AMOUNT_LOW_THRESHOLD :: nat where
  "INITIAL_BUFFERED_AMOUNT_LOW_THRESHOLD = 2 * 1024 * 1024"

definition dc_task_new :: "bool list \<Rightarrow> 'p dc_task" where
  "dc_task_new results =
     \<lparr>dt_events = [], dt_lossy_buffered = 0, dt_reliable_buffered = 0, dt_lossy_queue = [], dt_reliable_queue = [],
      dt_retry_queue = txq_new, dt_next_sequence = 1, dt_lossy_threshold = INITIAL_BUFFERED_AMOUNT_LOW_THRESHOLD,
      dt_reliable_threshold = INITIAL_BUFFERED_AMOUNT_LOW_THRESHOLD, dt_send_results = results, dt_running = True\<rparr>"

text \<open>A send of the data channel with its result, and the caller told about it.\<close>

datatype dc_out = DcSent dp_kind bytes "nat option" bool

fun send_until_threshold ::
  "dp_kind \<Rightarrow> nat \<Rightarrow> nat \<Rightarrow> publish_data_request list \<Rightarrow> encoded_packet tx_queue \<Rightarrow> bool list \<Rightarrow>
     nat \<times> publish_data_request list \<times> encoded_packet tx_queue \<times> bool list \<times> dc_out list" where
  "send_until_threshold kind threshold buffered [] retry results = (buffered, [], retry, results, [])"
| "send_until_threshold kind threshold buffered (r # rs) retry results =
     (if buffered \<le> threshold
      then let retry = (if kind = Reliable then txq_enqueue ep_buffered_size (pdr_packet r) retry else retry);
               ok = (results = [] \<or> hd results);
               (b, q, rt, res, out) =
                 send_until_threshold kind threshold (buffered + length (ep_data (pdr_packet r))) rs retry (tl results)
           in (b, q, rt, res, DcSent kind (ep_data (pdr_packet r)) (pdr_completion r) ok # out)
      else (buffered, r # rs, retry, results, []))"

definition flush_lossy :: "'p dc_task \<Rightarrow> 'p dc_task \<times> dc_out list" where
  "flush_lossy s =
     (let (b, q, rt, res, out) = send_until_threshold Lossy (dt_lossy_threshold s) (dt_lossy_buffered s) (dt_lossy_queue s)
            (dt_retry_queue s) (dt_send_results s)
      in (s\<lparr>dt_lossy_buffered := b, dt_lossy_queue := q, dt_retry_queue := rt, dt_send_results := res\<rparr>, out))"

definition flush_reliable :: "'p dc_task \<Rightarrow> 'p dc_task \<times> dc_out list" where
  "flush_reliable s =
     (let (b, q, rt, res, out) = send_until_threshold Reliable (dt_reliable_threshold s) (dt_reliable_buffered s) (dt_reliable_queue s)
            (dt_retry_queue s) (dt_send_results s)
      in (s\<lparr>dt_reliable_buffered := b, dt_reliable_queue := q, dt_retry_queue := rt, dt_send_results := res\<rparr>, out))"

definition reduce_buffered :: "nat \<Rightarrow> nat \<Rightarrow> nat" where
  "reduce_buffered buffered sent = (if buffered < sent then 0 else buffered - sent)"

text \<open>The loop over the retry queue: what it puts back as requests, and the emptied queue.\<close>

function retry_loop :: "u32 \<Rightarrow> encoded_packet tx_queue \<Rightarrow> encoded_packet tx_queue \<times> publish_data_request list" where
  "retry_loop last_sequence q =
     (case txq_dequeue ep_buffered_size q of
        (None, q) \<Rightarrow> (q, [])
      | (Some p, q) \<Rightarrow>
          let (q, rs) = retry_loop last_sequence q
          in (q, if ep_sequence p \<le> last_sequence then rs else \<lparr>pdr_packet = p, pdr_completion = None\<rparr> # rs))"
  by pat_completeness auto
termination
  by (relation "measure (\<lambda>(l, q). length (txq_inner q))") (auto simp: txq_dequeue_def split: list.splits)

declare retry_loop.simps [simp del]

text \<open>One event of the task; \<open>enc\<close> encodes a packet under a sequence number.  A retry of lossy packets fails an assertion.\<close>

fun dc_handle :: "(u32 \<Rightarrow> 'p \<Rightarrow> bytes) \<Rightarrow> 'p dc_event \<Rightarrow> 'p dc_task \<Rightarrow> 'p dc_task \<times> dc_out list" where
  "dc_handle enc (PublishPacket kind r) s =
     (let (seq, s) = (if kind = Reliable then (dt_next_sequence s, s\<lparr>dt_next_sequence := dt_next_sequence s + 1\<rparr>)
                      else (ppk_sequence r, s));
          request = \<lparr>pdr_packet = \<lparr>ep_data = enc seq (ppk_packet r), ep_sequence = seq\<rparr>, pdr_completion = Some (ppk_completion r)\<rparr>
      in (s\<lparr>dt_events := dt_events s @ [PublishData kind request]\<rparr>, []))"
| "dc_handle enc (PublishData kind request) s =
     (case kind of
        Lossy \<Rightarrow> flush_lossy (s\<lparr>dt_lossy_queue := dt_lossy_queue s @ [request]\<rparr>)
      | Reliable \<Rightarrow> flush_reliable (s\<lparr>dt_reliable_queue := dt_reliable_queue s @ [request]\<rparr>))"
| "dc_handle enc (BufferedAmountChange kind sent) s =
     (case kind of
        Lossy \<Rightarrow> flush_lossy (s\<lparr>dt_lossy_buffered := reduce_buffered (dt_lossy_buffered s) sent\<rparr>)
      | Reliable \<Rightarrow>
          let (s, out) = flush_reliable (s\<lparr>dt_reliable_buffered := reduce_buffered (dt_reliable_buffered s) sent\<rparr>)
          in case txq_trim ep_buffered_size sent (dt_retry_queue s) of
               Some q \<Rightarrow> (s\<lparr>dt_retry_queue := q\<rparr>, out)
             | None \<Rightarrow> (s\<lparr>dt_running := False\<rparr>, out))"
| "dc_handle enc (RetryFrom kind last_sequence) s =
     (if kind \<noteq> Reliable then (s\<lparr>dt_running := False\<rparr>, [])
      else let (q, rs) = retry_loop last_sequence (dt_retry_queue s)
           in (s\<lparr>dt_retry_queue := q, dt_events := dt_events s @ map (PublishData Reliable) rs\<rparr>, []))"

text \<open>The task in its environment: an event arrives, the task takes its next event, a threshold is set, the session closes.\<close>

datatype 'p dc_input = DcPush "'p dc_event" | DcRun | DcThreshold dp_kind nat | DcClose

fun dc_step :: "(u32 \<Rightarrow> 'p \<Rightarrow> bytes) \<Rightarrow> 'p dc_task \<Rightarrow> 'p dc_input \<Rightarrow> 'p dc_task \<times> dc_out list" where
  "dc_step enc s (DcPush ev) = (s\<lparr>dt_events := dt_events s @ [ev]\<rparr>, [])"
| "dc_step enc s DcRun =
     (if dt_running s
      then (case dt_events s of [] \<Rightarrow> (s, []) | ev # evs \<Rightarrow> dc_handle enc ev (s\<lparr>dt_events := evs\<rparr>))
      else (s, []))"
| "dc_step enc s (DcThreshold kind n) =
     (case kind of Lossy \<Rightarrow> (s\<lparr>dt_lossy_threshold := n\<rparr>, []) | Reliable \<Rightarrow> (s\<lparr>dt_reliable_threshold := n\<rparr>, []))"
| "dc_step enc s DcClose = (s\<lparr>dt_running := False\<rparr>, [])"

section \<open>The order of reliable packets\<close>






















section \<open>Retries\<close>

lemma retry_loop_result:
  "retry_loop last_sequence q = (q', rs) \<Longrightarrow> txq_inner q' = [] \<and>
    rs = map (\<lambda>p. \<lparr>pdr_packet = p, pdr_completion = None\<rparr>) (filter (\<lambda>p. last_sequence < ep_sequence p) (txq_inner q)) \<and>
    (txq_inv ep_buffered_size q \<longrightarrow> txq_inv ep_buffered_size q')"
proof (induction "txq_inner q" arbitrary: q q' rs)
  case Nil
  then show ?case by (auto simp: retry_loop.simps [of last_sequence q] txq_dequeue_def)
next
  case (Cons p ps)
  define q1 where "q1 = snd (txq_dequeue ep_buffered_size q)"
  have deq: "txq_dequeue ep_buffered_size q = (Some p, q1)" "ps = txq_inner q1"
    using Cons.hyps(2) by (auto simp: txq_dequeue_def q1_def split: list.splits)
  have inv: "txq_inv ep_buffered_size q \<longrightarrow> txq_inv ep_buffered_size q1" by (simp add: q1_def)
  obtain q2 rs2 where r: "retry_loop last_sequence q1 = (q2, rs2)" by fastforce
  have "q' = q2" "rs = (if ep_sequence p \<le> last_sequence then rs2 else \<lparr>pdr_packet = p, pdr_completion = None\<rparr> # rs2)"
    using Cons.prems r by (simp_all add: retry_loop.simps [of last_sequence q] deq)
  then show ?case using Cons.hyps(1) [OF deq(2) r] Cons.hyps(2) [symmetric] deq(2) [symmetric] inv by auto
qed

text \<open>
  The amount that was sent is taken for the amount still to be retried: if every unacknowledged packet is larger than
  the last report of sent bytes, all of them are forgotten, whether or not they have left the buffer.
\<close>

lemma partial_send_forgets_packets:
  assumes "txq_inv ep_buffered_size (dt_retry_queue s)" and "dt_reliable_queue s = []"
    and "\<forall>p \<in> set (txq_inner (dt_retry_queue s)). n < ep_buffered_size p"
  shows "txq_inner (dt_retry_queue (fst (dc_handle enc (BufferedAmountChange Reliable n) s))) = []"
proof -
  have "fitting_tail ep_buffered_size n ps = []" if "\<forall>p \<in> set ps. n < ep_buffered_size p" for ps
    using that by (induction ps) auto
  then show ?thesis using assms by (simp add: flush_reliable_def txq_trim_result)
qed

text \<open>A newer packet that is already encoded when the retry is handled is sent before the packets it retries.\<close>

lemma retried_packets_overtaken:
  assumes "dt_running s" and "dt_events s = [RetryFrom Reliable last_sequence, PublishData Reliable newer]"
  shows "hd (dt_events (fst (dc_step enc s DcRun))) = PublishData Reliable newer"
  using assms by (auto split: prod.split)

section \<open>The receive state\<close>

record received_packet =
  rcv_participant_sid :: string
  rcv_sequence :: u32

definition update_packet_rx_state :: "nat \<Rightarrow> received_packet \<Rightarrow> (string, u32) ttl_map \<Rightarrow> (string, u32) ttl_map" where
  "update_packet_rx_state now p m =
     (if rcv_sequence p \<le> 0 \<or> rcv_participant_sid p = [] then m
      else let (last_sequence, m) = ttl_get now (rcv_participant_sid p) m
           in if (case last_sequence of Some l \<Rightarrow> rcv_sequence p \<le> l | None \<Rightarrow> False) then m
              else ttl_set now (rcv_participant_sid p) (Some (rcv_sequence p)) m)"

text \<open>A reliable packet that arrives: its value, if it has one, is emitted whatever the receive state says.\<close>

definition on_reliable_data :: "nat \<Rightarrow> received_packet \<Rightarrow> 'v option \<Rightarrow> (string, u32) ttl_map \<Rightarrow> (string, u32) ttl_map \<times> 'v list" where
  "on_reliable_data now p v m =
     (update_packet_rx_state now p m, case v of Some x \<Rightarrow> [x] | None \<Rightarrow> [])"

definition data_channel_receive_states :: "nat \<Rightarrow> (string, u32) ttl_map \<Rightarrow> (string \<times> u32) list \<times> (string, u32) ttl_map" where
  "data_channel_receive_states now m = ttl_iter now m"

definition RELIABLE_RECEIVED_STATE_TTL :: nat where
  "RELIABLE_RECEIVED_STATE_TTL = 30 * 1000000000"

lemma duplicates_are_delivered: "snd (on_reliable_data now p (Some v) m) = [v]"
  by (simp add: on_reliable_data_def)

lemma ttl_iter_get:
  fixes m :: "('k, 'v) ttl_map"
  assumes "hm_inv (tm_inner m)"
  shows "hm_get (fst (ttl_iter now m)) k = ttl_live now k m"
proof -
  have "map_of (map (\<lambda>(k, e). (k, te_value e)) xs) k = map_option te_value (map_of xs k)" for xs :: "('k \<times> 'v ttl_entry) list"
    by (induction xs) auto
  then show ?thesis using map_of_filter_value [OF assms, of "\<lambda>e. now \<le> te_expires_at e" k]
    by (auto simp: ttl_iter_def Let_def ttl_cleanup_def ttl_live_def split: option.split)
qed

definition rx_bound :: "string \<Rightarrow> received_packet list \<Rightarrow> u32 option \<Rightarrow> bool" where
  "rx_bound sid ps r \<longleftrightarrow>
     (\<forall>p \<in> set ps. rcv_participant_sid p = sid \<and> 0 < rcv_sequence p \<and> sid \<noteq> [] \<longrightarrow> (\<exists>q. r = Some q \<and> rcv_sequence p \<le> q)) \<and>
     (\<forall>q. r = Some q \<longrightarrow> (\<exists>p \<in> set ps. rcv_participant_sid p = sid \<and> 0 < rcv_sequence p \<and> sid \<noteq> [] \<and> rcv_sequence p = q))"

lemma rx_bound_skip:
  "rcv_sequence p \<le> 0 \<or> rcv_participant_sid p = [] \<Longrightarrow> rx_bound sid (ps @ [p]) r = rx_bound sid ps r"
  by (auto simp: rx_bound_def)

lemma rx_state_run:
  assumes "sorted (map fst ps)" and "\<forall>x \<in> set ps. t0 \<le> fst x \<and> fst x \<le> t \<and> t \<le> fst x + ttl" and "t0 \<le> t"
  shows "hm_inv (tm_inner (fold (\<lambda>(now, p). update_packet_rx_state now p) ps (ttl_new t0 ttl))) \<and>
    tm_ttl (fold (\<lambda>(now, p). update_packet_rx_state now p) ps (ttl_new t0 ttl)) = ttl \<and>
    (\<forall>x. (\<forall>q \<in> set ps. fst q \<le> x) \<longrightarrow> t0 \<le> x \<longrightarrow> tm_last_cleanup (fold (\<lambda>(now, p). update_packet_rx_state now p) ps (ttl_new t0 ttl)) \<le> x) \<and>
    (\<forall>x sid. (\<forall>q \<in> set ps. fst q \<le> x) \<longrightarrow> x \<le> t \<longrightarrow>
      rx_bound sid (map snd ps) (ttl_live x sid (fold (\<lambda>(now, p). update_packet_rx_state now p) ps (ttl_new t0 ttl))))"
  using assms(1,2)
proof (induction ps rule: rev_induct)
  case Nil
  then show ?case by (simp add: ttl_new_def ttl_live_def rx_bound_def)
next
  case (snoc a ps)
  obtain now p where a: "a = (now, p)" by fastforce
  let ?m = "fold (\<lambda>(now, p). update_packet_rx_state now p) ps (ttl_new t0 ttl)"
  have IH: "hm_inv (tm_inner ?m)" "tm_ttl ?m = ttl"
    "\<And>x. (\<forall>q\<in>set ps. fst q \<le> x) \<Longrightarrow> t0 \<le> x \<Longrightarrow> tm_last_cleanup ?m \<le> x"
    "\<And>x sid. (\<forall>q\<in>set ps. fst q \<le> x) \<Longrightarrow> x \<le> t \<Longrightarrow> rx_bound sid (map snd ps) (ttl_live x sid ?m)"
    using snoc by (auto simp: sorted_append)
  have before: "\<forall>q\<in>set ps. fst q \<le> now" and now: "t0 \<le> now" "now \<le> t" "t \<le> now + ttl"
    using snoc.prems a by (auto simp: sorted_append)
  have clean: "tm_last_cleanup ?m \<le> now" using IH(3) [OF before now(1)] .
  show ?case
  proof (cases "rcv_sequence p \<le> 0 \<or> rcv_participant_sid p = []")
    case True
    then have "fold (\<lambda>(now, p). update_packet_rx_state now p) (ps @ [a]) (ttl_new t0 ttl) = ?m"
      by (simp add: a update_packet_rx_state_def)
    then show ?thesis using IH a before rx_bound_skip [OF True] by simp
  next
    case False
    let ?sid = "rcv_participant_sid p"
    have nz: "0 < rcv_sequence p" "?sid \<noteq> []" using False by (simp_all add: not_le word_gt_0)
    define m1 where "m1 = ttl_apply (now, TGet ?sid) ?m"
    have m1: "hm_inv (tm_inner m1)" "tm_ttl m1 = ttl" "tm_last_cleanup m1 \<le> now"
      "\<And>x k. now \<le> x \<Longrightarrow> ttl_live x k m1 = ttl_live x k ?m"
      using ttl_apply_keeps(1) [OF IH(1), of now "TGet ?sid"] ttl_apply_keeps(2) [of now "TGet ?sid" ?m] IH(2)
        ttl_apply_last_cleanup [OF clean, of "TGet ?sid"] ttl_apply_live [OF IH(1) clean, of _ _ "TGet ?sid"]
      by (simp_all add: m1_def)
    define m2 where "m2 = ttl_apply (now, TSet ?sid (Some (rcv_sequence p))) m1"
    have m2: "hm_inv (tm_inner m2)" "tm_ttl m2 = ttl" "tm_last_cleanup m2 \<le> now"
      "\<And>x k. now \<le> x \<Longrightarrow> x \<le> t \<Longrightarrow> ttl_live x k m2 = (if ?sid = k then Some (rcv_sequence p) else ttl_live x k ?m)"
      using ttl_apply_keeps(1) [OF m1(1), of now "TSet ?sid (Some (rcv_sequence p))"] ttl_apply_keeps(2) [of now "TSet ?sid (Some (rcv_sequence p))" m1] m1(2)
        ttl_apply_last_cleanup [OF m1(3), of "TSet ?sid (Some (rcv_sequence p))"] ttl_apply_live [OF m1(1,3), of _ _ "TSet ?sid (Some (rcv_sequence p))"] m1(4) now(3)
      by (simp_all add: m2_def)
    define dup where "dup = (case ttl_live now ?sid ?m of Some l \<Rightarrow> rcv_sequence p \<le> l | None \<Rightarrow> False)"
    have m': "fold (\<lambda>(now, p). update_packet_rx_state now p) (ps @ [a]) (ttl_new t0 ttl) = (if dup then m1 else m2)"
      using False ttl_get_live [of now ?sid ?m]
      by (simp add: a update_packet_rx_state_def split_beta Let_def m1_def m2_def dup_def)
    have live_later: "ttl_live x ?sid ?m = ttl_live now ?sid ?m" if "now \<le> x" "x \<le> t" for x
    proof -
      have "rx_bound ?sid (map snd ps) (ttl_live x ?sid ?m)" "rx_bound ?sid (map snd ps) (ttl_live now ?sid ?m)"
        using IH(4) before that now(2) by (meson order_trans)+
      moreover have "ttl_live x ?sid ?m = ttl_live now ?sid ?m \<or> ttl_live x ?sid ?m = None"
        using that(1) by (auto simp: ttl_live_def split: option.splits)
      ultimately show ?thesis
        by (cases "ttl_live now ?sid ?m") (auto simp: rx_bound_def)
    qed
    have bound: "rx_bound sid (map snd (ps @ [a])) (ttl_live x sid (if dup then m1 else m2))" if x: "now \<le> x" "x \<le> t" for x sid
    proof -
      have old: "rx_bound sid (map snd ps) (ttl_live x sid ?m)" using IH(4) before x by (meson order_trans)
      show ?thesis
      proof (cases "sid = ?sid")
        case other: False
        then show ?thesis using old m1(4) [OF x(1)] m2(4) [OF x] by (auto simp: rx_bound_def a)
      next
        case same: True
        show ?thesis
        proof (cases dup)
          case True
          then obtain l where l: "ttl_live now ?sid ?m = Some l" "rcv_sequence p \<le> l" by (auto simp: dup_def split: option.splits)
          then show ?thesis using old same True m1(4) [OF x(1)] live_later [OF x] by (auto simp: rx_bound_def a)
        next
          case fresh: False
          have "rcv_sequence q \<le> rcv_sequence p" if q: "q \<in> set (map snd ps)" "rcv_participant_sid q = sid" "0 < rcv_sequence q" for q
          proof -
            obtain l where "ttl_live x sid ?m = Some l" "rcv_sequence q \<le> l" using old q False same by (auto simp: rx_bound_def)
            then show ?thesis using fresh live_later [OF x] same by (auto simp: dup_def)
          qed
          then show ?thesis using fresh same nz m2(4) [OF x] by (auto simp: rx_bound_def a)
        qed
      qed
    qed
    show ?thesis
      unfolding m' using m1(1-3) m2(1-3) bound a by (auto intro: order_trans)
  qed
qed

section \<open>Properties\<close>



text \<open>
  What a retry resends.  When the task handles a retry from a sequence number, the packets of the retry queue after that
  number are put at the end of its events, in order and without a caller to tell, the retry queue is empty, and
  nothing else changes.
\<close>

theorem retry_resends:
  assumes "dt_running s" and "dt_events s = RetryFrom Reliable last_sequence # evs"
  shows "\<exists>q. dc_step enc s DcRun = (s\<lparr>dt_events := evs @ map (\<lambda>p. PublishData Reliable \<lparr>pdr_packet = p, pdr_completion = None\<rparr>)
      (filter (\<lambda>p. last_sequence < ep_sequence p) (txq_inner (dt_retry_queue s))), dt_retry_queue := q\<rparr>, []) \<and> txq_inner q = []"
proof -
  obtain q rs where r: "retry_loop last_sequence (dt_retry_queue s) = (q, rs)" by fastforce
  from retry_loop_result [OF r] show ?thesis using assms r by (intro exI [of _ q]) (simp add: comp_def)
qed

theorem retry_resends_witness:
  "\<exists>q. dc_step (\<lambda>n (p :: unit). []) ((dc_task_new [])\<lparr>dt_events := [RetryFrom Reliable 1],
      dt_retry_queue := \<lparr>txq_inner = [\<lparr>ep_data = [1], ep_sequence = 1\<rparr>, \<lparr>ep_data = [2], ep_sequence = 2\<rparr>], txq_buffered_size = 2\<rparr>\<rparr>) DcRun =
    ((dc_task_new [])\<lparr>dt_events := [PublishData Reliable \<lparr>pdr_packet = \<lparr>ep_data = [2], ep_sequence = 2\<rparr>, pdr_completion = None\<rparr>],
      dt_retry_queue := q\<rparr>, []) \<and> txq_inner q = []"
proof -
  let ?s = "(dc_task_new [] :: unit dc_task)\<lparr>dt_events := [RetryFrom Reliable 1],
      dt_retry_queue := \<lparr>txq_inner = [\<lparr>ep_data = [1], ep_sequence = 1\<rparr>, \<lparr>ep_data = [2], ep_sequence = 2\<rparr>], txq_buffered_size = 2\<rparr>\<rparr>"
  have s: "dt_running ?s" "dt_events ?s = RetryFrom Reliable 1 # []" by (simp_all add: dc_task_new_def)
  from retry_resends [OF s, of "\<lambda>n p. []"] show ?thesis by (simp add: dc_task_new_def)
qed

text \<open>
  The receive state.  If the packets of a time to live are received in the order of time, then the state reported at its end
  has an entry for a publisher exactly if one of its sequenced packets was received, and it is the largest of their
  numbers.
\<close>

theorem receive_state_is_max:
  assumes "sorted (map fst ps)" and "\<forall>x \<in> set ps. t0 \<le> fst x \<and> fst x \<le> t \<and> t \<le> fst x + ttl" and "t0 \<le> t"
    and "r = hm_get (fst (data_channel_receive_states t (fold (\<lambda>(now, p). update_packet_rx_state now p) ps (ttl_new t0 ttl)))) sid"
  shows "(\<forall>p \<in> set (map snd ps). rcv_participant_sid p = sid \<and> 0 < rcv_sequence p \<and> sid \<noteq> [] \<longrightarrow> (\<exists>q. r = Some q \<and> rcv_sequence p \<le> q)) \<and>
    (\<forall>q. r = Some q \<longrightarrow> (\<exists>p \<in> set (map snd ps). rcv_participant_sid p = sid \<and> 0 < rcv_sequence p \<and> sid \<noteq> [] \<and> rcv_sequence p = q))"
proof -
  note run = rx_state_run [OF assms(1-3)]
  have "r = ttl_live t sid (fold (\<lambda>(now, p). update_packet_rx_state now p) ps (ttl_new t0 ttl))"
    using run assms(4) by (simp add: data_channel_receive_states_def ttl_iter_get)
  moreover have "rx_bound sid (map snd ps) (ttl_live t sid (fold (\<lambda>(now, p). update_packet_rx_state now p) ps (ttl_new t0 ttl)))"
    using run assms(2) by blast
  ultimately show ?thesis by (simp add: rx_bound_def)
qed

theorem receive_state_is_max_witness:
  "\<exists>q. hm_get (fst (data_channel_receive_states 9 (fold (\<lambda>(now, p). update_packet_rx_state now p)
     [(1, \<lparr>rcv_participant_sid = ''PA'', rcv_sequence = 4\<rparr>), (2, \<lparr>rcv_participant_sid = ''PA'', rcv_sequence = 3\<rparr>)] (ttl_new 0 30)))) ''PA'' = Some q \<and> 4 \<le> q"
  using receive_state_is_max [of "[(1, \<lparr>rcv_participant_sid = ''PA'', rcv_sequence = 4\<rparr>), (2, \<lparr>rcv_participant_sid = ''PA'', rcv_sequence = 3\<rparr>)]"
      0 9 30 _ "''PA''", OF _ _ _ refl]
  by simp

end
