(* ===== verification/LkNegotiation.thy ===== *)
theory LkNegotiation
  imports LKInterfaces
begin

text \<open>
  The negotiation of the publisher in fast mode (\<open>publisher_negotiation_needed\<close>, \<open>queue_negotiation\<close>,
  \<open>execute_negotiation_with_retry\<close> and the answer handler in \<open>livekit/src/rtc_engine/rtc_session.rs\<close>).  The steps
  are the accesses to shared state between which other tasks can run: the flags are atomics, the state has a lock,
  and an offer or an answer is waited for.  Creating an offer, its success and the timer are the environment's choice.
\<close>

section \<open>State and steps\<close>

datatype negotiation_state = Idle | InProgress | PendingRetry

text \<open>
  Where a negotiation task is: at the top of its loop, creating the offer, waiting for the answer, about to look at the state, or
  out of the loop with the running flag still set.
\<close>

datatype loop_pc = LoopTop | CreatingOffer | AwaitingAnswer | CheckingState | Finishing

text \<open>
  \<open>ng_permit\<close> is the notification stored in the waker.  \<open>ng_markers\<close> counts the callers that have read that an answer is
  awaited and are about to mark a retry, \<open>ng_queuers\<close> those about to call \<open>queue_negotiation\<close>.  \<open>ng_rounds\<close> counts
  the rounds of all tasks, \<open>ng_offers\<close> the offers sent.
\<close>

record negotiation =
  ng_state :: negotiation_state
  ng_waiting_for_answer :: bool
  ng_task_running :: bool
  ng_permit :: bool
  ng_tasks :: "loop_pc list"
  ng_markers :: nat
  ng_queuers :: nat
  ng_rounds :: nat
  ng_offers :: nat

definition negotiation_new :: negotiation where
  "negotiation_new =
     \<lparr>ng_state = Idle, ng_waiting_for_answer = False, ng_task_running = False, ng_permit = False, ng_tasks = [],
      ng_markers = 0, ng_queuers = 0, ng_rounds = 0, ng_offers = 0\<rparr>"

text \<open>A request reads the flag, and then marks a retry or queues a negotiation.\<close>

definition negotiation_needed :: "negotiation \<Rightarrow> negotiation" where
  "negotiation_needed s =
     (if ng_waiting_for_answer s then s\<lparr>ng_markers := ng_markers s + 1\<rparr> else s\<lparr>ng_queuers := ng_queuers s + 1\<rparr>)"

definition mark_retry :: "negotiation \<Rightarrow> negotiation" where
  "mark_retry s = s\<lparr>ng_state := PendingRetry, ng_markers := ng_markers s - 1\<rparr>"

definition queue_negotiation :: "negotiation \<Rightarrow> negotiation" where
  "queue_negotiation s =
     (case ng_state s of
        Idle \<Rightarrow>
          if ng_task_running s then s\<lparr>ng_state := PendingRetry\<rparr>
          else s\<lparr>ng_task_running := True, ng_state := InProgress, ng_tasks := ng_tasks s @ [LoopTop]\<rparr>
      | InProgress \<Rightarrow> s\<lparr>ng_state := PendingRetry\<rparr>
      | PendingRetry \<Rightarrow> s)"

definition answer_received :: "negotiation \<Rightarrow> negotiation" where
  "answer_received s =
     (if ng_waiting_for_answer s then s\<lparr>ng_waiting_for_answer := False, ng_permit := True\<rparr> else s)"

definition check_state :: "nat \<Rightarrow> negotiation \<Rightarrow> negotiation" where
  "check_state i s =
     (case ng_state s of
        PendingRetry \<Rightarrow> s\<lparr>ng_state := InProgress, ng_tasks := (ng_tasks s)[i := LoopTop]\<rparr>
      | _ \<Rightarrow> s\<lparr>ng_state := Idle, ng_tasks := (ng_tasks s)[i := Finishing]\<rparr>)"

definition remove_task :: "nat \<Rightarrow> loop_pc list \<Rightarrow> loop_pc list" where
  "remove_task i ts = take i ts @ drop (Suc i) ts"

text \<open>The steps of the callers, of the answer handler, and of the task number \<open>i\<close>; \<open>None\<close> where a step is not enabled.\<close>

datatype ng_event =
    NegotiationNeeded | MarkRetry | QueueNegotiation | AnswerReceived
  | StartRound nat | OfferSent nat | OfferFailed nat | AnswerNotified nat | AnswerTimeout nat | CheckState nat | ClearRunning nat

fun ng_apply :: "ng_event \<Rightarrow> negotiation \<Rightarrow> negotiation option" where
  "ng_apply NegotiationNeeded s = Some (negotiation_needed s)"
| "ng_apply MarkRetry s = (if 0 < ng_markers s then Some (mark_retry s) else None)"
| "ng_apply QueueNegotiation s =
     (if 0 < ng_queuers s then Some (queue_negotiation (s\<lparr>ng_queuers := ng_queuers s - 1\<rparr>)) else None)"
| "ng_apply AnswerReceived s = Some (answer_received s)"
| "ng_apply (StartRound i) s =
     (if i < length (ng_tasks s) \<and> ng_tasks s ! i = LoopTop
      then Some (s\<lparr>ng_waiting_for_answer := True, ng_rounds := ng_rounds s + 1, ng_tasks := (ng_tasks s)[i := CreatingOffer]\<rparr>) else None)"
| "ng_apply (OfferSent i) s =
     (if i < length (ng_tasks s) \<and> ng_tasks s ! i = CreatingOffer
      then Some (s\<lparr>ng_offers := ng_offers s + 1, ng_tasks := (ng_tasks s)[i := AwaitingAnswer]\<rparr>) else None)"
| "ng_apply (OfferFailed i) s =
     (if i < length (ng_tasks s) \<and> ng_tasks s ! i = CreatingOffer
      then Some (s\<lparr>ng_waiting_for_answer := False, ng_tasks := (ng_tasks s)[i := CheckingState]\<rparr>) else None)"
| "ng_apply (AnswerNotified i) s =
     (if i < length (ng_tasks s) \<and> ng_tasks s ! i = AwaitingAnswer \<and> ng_permit s
      then Some (s\<lparr>ng_permit := False, ng_tasks := (ng_tasks s)[i := CheckingState]\<rparr>) else None)"
| "ng_apply (AnswerTimeout i) s =
     (if i < length (ng_tasks s) \<and> ng_tasks s ! i = AwaitingAnswer
      then Some (s\<lparr>ng_waiting_for_answer := False, ng_tasks := (ng_tasks s)[i := CheckingState]\<rparr>) else None)"
| "ng_apply (CheckState i) s =
     (if i < length (ng_tasks s) \<and> ng_tasks s ! i = CheckingState then Some (check_state i s) else None)"
| "ng_apply (ClearRunning i) s =
     (if i < length (ng_tasks s) \<and> ng_tasks s ! i = Finishing
      then Some (s\<lparr>ng_task_running := False, ng_tasks := remove_task i (ng_tasks s)\<rparr>) else None)"

abbreviation ng_run :: "ng_event list \<Rightarrow> negotiation \<Rightarrow> negotiation option" where
  "ng_run \<equiv> run_enabled ng_apply"

abbreviation ng_reachable :: "negotiation \<Rightarrow> bool" where
  "ng_reachable \<equiv> reachable ng_apply negotiation_new"

lemmas ng_run_reachable = run_enabled_reachable [of ng_apply negotiation_new]
lemmas ng_initial = reachable_start [of ng_apply negotiation_new]

section \<open>One task at a time\<close>

definition ng_inv :: "negotiation \<Rightarrow> bool" where
  "ng_inv s \<longleftrightarrow> (ng_tasks s = [] \<and> \<not> ng_task_running s \<and> ng_state s \<noteq> InProgress \<or>
     (\<exists>pc. ng_tasks s = [pc] \<and> ng_task_running s \<and> (pc = Finishing \<longleftrightarrow> ng_state s = Idle \<or> pc = Finishing \<and> ng_state s = PendingRetry)))"

lemma ng_inv_apply: "ng_inv s \<Longrightarrow> ng_apply e s = Some s' \<Longrightarrow> ng_inv s'"
  by (cases e)
    (auto simp: ng_inv_def negotiation_needed_def mark_retry_def queue_negotiation_def answer_received_def check_state_def remove_task_def
      split: if_splits negotiation_state.splits)

interpretation ngm: enabled_machine ng_apply negotiation_new ng_inv
  by unfold_locales (simp add: ng_inv_def negotiation_new_def, rule ng_inv_apply)

section \<open>A pending retry is not dropped while the loop runs\<close>

text \<open>From a state with a retry pending: still pending, or the loop is back at its top, or a new round has begun.\<close>

definition retry_kept :: "nat \<Rightarrow> negotiation \<Rightarrow> bool" where
  "retry_kept r s \<longleftrightarrow> r < ng_rounds s \<or>
     r = ng_rounds s \<and> (\<exists>pc. ng_tasks s = [pc] \<and> (pc = LoopTop \<or> pc \<noteq> Finishing \<and> ng_state s = PendingRetry))"

lemma retry_kept_apply: "retry_kept r s \<Longrightarrow> ng_inv s \<Longrightarrow> ng_apply e s = Some s' \<Longrightarrow> retry_kept r s'"
  by (cases e)
    (auto simp: retry_kept_def ng_inv_def negotiation_needed_def mark_retry_def queue_negotiation_def answer_received_def check_state_def
      split: if_splits negotiation_state.splits)

lemma retry_kept_run: "retry_kept r s \<Longrightarrow> ng_inv s \<Longrightarrow> ng_run es s = Some s' \<Longrightarrow> retry_kept r s'"
  using run_enabled_inv [of ng_apply es s s' "\<lambda>s. retry_kept r s \<and> ng_inv s"] retry_kept_apply ng_inv_apply by blast

section \<open>A state from which no negotiation ever starts\<close>

definition ng_stuck :: "negotiation \<Rightarrow> bool" where
  "ng_stuck s \<longleftrightarrow> ng_state s = PendingRetry \<and> ng_tasks s = []"

lemma ng_stuck_apply: "ng_stuck s \<Longrightarrow> ng_apply e s = Some s' \<Longrightarrow> ng_stuck s' \<and> ng_offers s' = ng_offers s"
  by (cases e)
    (auto simp: ng_stuck_def negotiation_needed_def mark_retry_def queue_negotiation_def answer_received_def split: if_splits)

lemma ng_stuck_run: "ng_stuck s \<Longrightarrow> ng_run es s = Some s' \<Longrightarrow> ng_stuck s' \<and> ng_offers s' = ng_offers s"
  using run_enabled_inv [of ng_apply es s s' "\<lambda>t. ng_stuck t \<and> ng_offers t = ng_offers s"] ng_stuck_apply by fastforce

section \<open>Properties\<close>

text \<open>
  One negotiation at a time.  In every reachable state at most one negotiation task exists, the running flag is set exactly
  while it does, and a task that has not left its loop is never taken for idle, so no second offer is made while an
  answer is awaited.
\<close>

theorem negotiation_exclusive:
  assumes "ng_reachable s"
  shows "length (ng_tasks s) \<le> 1 \<and> (ng_task_running s \<longleftrightarrow> ng_tasks s \<noteq> []) \<and>
    (\<forall>pc \<in> set (ng_tasks s). pc \<noteq> Finishing \<longrightarrow> ng_state s \<noteq> Idle)"
  using ngm.reachable_inv [OF assms] by (auto simp: ng_inv_def)

theorem negotiation_exclusive_witness:
  "length (ng_tasks (the (ng_run [NegotiationNeeded, NegotiationNeeded, QueueNegotiation, QueueNegotiation, StartRound 0] negotiation_new))) \<le> 1"
proof -
  obtain s where s: "ng_run [NegotiationNeeded, NegotiationNeeded, QueueNegotiation, QueueNegotiation, StartRound 0] negotiation_new = Some s"
    by (simp add: negotiation_new_def negotiation_needed_def queue_negotiation_def)
  from negotiation_exclusive [OF ng_run_reachable [OF ng_initial s]] show ?thesis using s by simp
qed

text \<open>
  A request made while the loop runs is served.  If a retry is pending in a reachable state whose task has not left its loop,
  then whatever happens next, by the time no task is left another round has been started for it.
\<close>

theorem pending_retry_is_served:
  assumes "ng_reachable s" and "ng_state s = PendingRetry" and "pc \<in> set (ng_tasks s)" and "pc \<noteq> Finishing"
    and "ng_run es s = Some s'" and "ng_tasks s' = []"
  shows "ng_rounds s < ng_rounds s'"
proof -
  have inv: "ng_inv s" using ngm.reachable_inv [OF assms(1)] .
  then have "retry_kept (ng_rounds s) s" using assms(2-4) by (auto simp: ng_inv_def retry_kept_def)
  from retry_kept_run [OF this inv assms(5)] assms(6) show ?thesis by (auto simp: retry_kept_def)
qed

theorem pending_retry_is_served_witness:
  "\<exists>s s'. ng_run [NegotiationNeeded, QueueNegotiation, StartRound 0, OfferSent 0, NegotiationNeeded, MarkRetry] negotiation_new = Some s \<and>
    ng_run [AnswerReceived, AnswerNotified 0, CheckState 0, StartRound 0, OfferFailed 0, CheckState 0, ClearRunning 0] s = Some s' \<and>
    ng_rounds s < ng_rounds s'"
proof -
  obtain s where s: "ng_run [NegotiationNeeded, QueueNegotiation, StartRound 0, OfferSent 0, NegotiationNeeded, MarkRetry] negotiation_new = Some s"
    "s = \<lparr>ng_state = PendingRetry, ng_waiting_for_answer = True, ng_task_running = True, ng_permit = False, ng_tasks = [AwaitingAnswer],
      ng_markers = 0, ng_queuers = 0, ng_rounds = 1, ng_offers = 1\<rparr>"
    by (simp add: negotiation_new_def negotiation_needed_def queue_negotiation_def mark_retry_def)
  obtain s' where s': "ng_run [AnswerReceived, AnswerNotified 0, CheckState 0, StartRound 0, OfferFailed 0, CheckState 0, ClearRunning 0] s = Some s'"
    "ng_tasks s' = []"
    by (simp add: s(2) answer_received_def check_state_def remove_task_def)
  have "ng_state s = PendingRetry" "AwaitingAnswer \<in> set (ng_tasks s)" by (simp_all add: s(2))
  from pending_retry_is_served [OF ng_run_reachable [OF ng_initial s(1)] this _ s'] s s' show ?thesis by blast
qed

text \<open>
  A negotiation can be lost for good.  There is a reachable state, after one completed negotiation and one further request,
  from which no sequence of steps ever sends an offer again: the request came when the finished task had set the
  state to idle but not yet cleared its running flag, so it only marked a retry that no task is left to serve, and
  every later request finds the retry already pending.
\<close>

theorem negotiation_can_be_lost:
  "\<exists>s. ng_reachable s \<and> ng_offers s = 1 \<and> (\<forall>es s'. ng_run es s = Some s' \<longrightarrow> ng_offers s' = 1)"
proof -
  obtain s where s: "ng_run [NegotiationNeeded, QueueNegotiation, StartRound 0, OfferSent 0, AnswerReceived, AnswerNotified 0, CheckState 0,
      NegotiationNeeded, QueueNegotiation, ClearRunning 0] negotiation_new = Some s"
    "ng_stuck s" "ng_offers s = 1"
    by (simp add: negotiation_new_def negotiation_needed_def queue_negotiation_def answer_received_def check_state_def remove_task_def ng_stuck_def)
  have "ng_reachable s" using ng_run_reachable [OF ng_initial s(1)] .
  then show ?thesis using s(2,3) ng_stuck_run by metis
qed

text \<open>A run that exists, after the state from which nothing is negotiated any more.\<close>

theorem negotiation_can_be_lost_witness:
  "\<exists>s s'. ng_reachable s \<and> ng_run [NegotiationNeeded, QueueNegotiation] s = Some s' \<and> ng_offers s' = 1"
proof -
  obtain s where s: "ng_reachable s" "\<forall>es s'. ng_run es s = Some s' \<longrightarrow> ng_offers s' = 1" using negotiation_can_be_lost by blast
  have "ng_run [] s = Some s" by simp
  show ?thesis
  proof (cases "ng_waiting_for_answer s")
    case False
    then obtain s' where "ng_run [NegotiationNeeded, QueueNegotiation] s = Some s'"
      by (simp add: negotiation_needed_def)
    then show ?thesis using s by blast
  next
    case True
    obtain s1 where s1: "ng_run [AnswerReceived] s = Some s1" "\<not> ng_waiting_for_answer s1"
      using True by (simp add: answer_received_def)
    obtain s' where s': "ng_run [NegotiationNeeded, QueueNegotiation] s1 = Some s'"
      using s1(2) by (simp add: negotiation_needed_def)
    have "ng_run [AnswerReceived, NegotiationNeeded, QueueNegotiation] s = Some s'" using s1(1) s' by simp
    then show ?thesis using s s' ng_run_reachable [OF s(1) s1(1)] by blast
  qed
qed

end
