(* ===== verification/LkEngine.thy ===== *)
theory LkEngine
  imports LKPrelude LKInterfaces
begin

text \<open>
  The engine that keeps a room connected (\<open>livekit/src/rtc_engine/mod.rs\<close>): joining with retries, the handle of the
  current session, the reconnect task with its resumes and full reconnects, closing, and the events sent to the room.
  The sessions are numbers: connecting one, resuming one and waiting for its peer connections succeed or fail as an
  argument of the step says; a task that awaits one of them, or the end of a session, may also panic there.  A step is the code between two awaits or between two acquisitions of the handle's lock.
\<close>

section \<open>Errors, reasons and events\<close>

datatype leave_action = Disconnect | Resume | Reconnect

datatype disconnect_reason =
    UnknownReason | ClientInitiated | DuplicateIdentity | ServerShutdown | ParticipantRemoved | RoomDeleted
  | StateMismatch | JoinFailure | MigrationReason | SignalCloseReason | RoomClosed | UserUnavailable | UserRejected
  | SipTrunkFailure | ConnectionTimedOut | MediaFailure | AgentError

datatype signal_failure =
    WsError | UrlParse string | TokenFormat | ClientStatus nat string | ServerStatus nat string | ProtoParse
  | SignalTimeout string | SendError | RegionError string | LeaveRequest disconnect_reason leave_action

datatype engine_error = SignalFailure signal_failure | RtcFailure | ConnectionError string | InternalError string

fun leave_disconnect_reason :: "engine_error \<Rightarrow> disconnect_reason option" where
  "leave_disconnect_reason (SignalFailure (LeaveRequest reason action)) = (if action = Disconnect then Some reason else None)"
| "leave_disconnect_reason _ = None"

text \<open>The events about the connection; a full reconnect brings the join response of the new session.\<close>

datatype 'j engine_event =
    Resuming | Resumed | SignalResumed | Restarting | Restarted | SignalRestarted 'j | Disconnected disconnect_reason

section \<open>Joining\<close>

text \<open>
  The attempts are a function of their number.  The loop runs over a range of 32-bit numbers whose end wraps around;
  \<open>None\<close> is the panic of unwrapping the last error when no attempt was made.
\<close>

fun connect_loop :: "(nat \<Rightarrow> engine_error + 'r) \<Rightarrow> nat \<Rightarrow> nat \<Rightarrow> engine_error option \<Rightarrow> (engine_error + 'r) option" where
  "connect_loop attempt i 0 last_error = (case last_error of Some e \<Rightarrow> Some (Inl e) | None \<Rightarrow> None)"
| "connect_loop attempt i (Suc n) last_error =
     (case attempt i of Inr r \<Rightarrow> Some (Inr r) | Inl e \<Rightarrow> connect_loop attempt (i + 1) n (Some e))"

definition engine_connect :: "u32 \<Rightarrow> (nat \<Rightarrow> engine_error + 'r) \<Rightarrow> (engine_error + 'r) option" where
  "engine_connect max_retries attempt = connect_loop attempt 0 (unat (max_retries + 1)) None"

section \<open>The engine\<close>

definition RECONNECT_ATTEMPTS :: nat where "RECONNECT_ATTEMPTS = 10"

text \<open>
  Where the reconnect task stands: waiting for the lock, at the top of an attempt, resuming, waiting for the resumed
  peer connections, about to announce the resume, restarting, connecting a new session, waiting for its peer
  connections, about to announce the restart, between two attempts, closing for a reason the server gave, closing
  because it failed, about to clear its flag.
\<close>

datatype reconnect_pc =
    RpLock | RpAttempt nat | RpResume nat | RpResumePublisher nat | RpResumed | RpRestart nat | RpConnect nat
  | RpWaitPc nat nat | RpRestarted | RpTick nat | RpLeave disconnect_reason | RpLeaving disconnect_reason
  | RpFailed | RpFailing | RpFinish

datatype engine_close_pc = CloseBegin disconnect_reason | CloseEmit disconnect_reason

text \<open>
  \<open>eg_engine_task\<close> is the session whose engine task runs, \<open>eg_open\<close> the sessions that are connected and neither closed nor
  given up, \<open>eg_events\<close> all that was sent to the room.  \<open>eg_left\<close>: the sessions that were given up without being closed, because their
  close panicked or because they were dropped; \<open>eg_panicked\<close>: the reconnect task has panicked.  \<open>eg_cycle_start\<close> is for the statements only: the number of events sent
  before the reconnect task was last spawned.
\<close>

record 'j engine =
  eg_session :: nat
  eg_closed :: bool
  eg_reconnecting :: bool
  eg_can_reconnect :: bool
  eg_full_reconnect :: bool
  eg_engine_task :: "nat option"
  eg_events :: "'j engine_event list"
  eg_reconnect :: "reconnect_pc option"
  eg_closers :: "engine_close_pc list"
  eg_open :: "nat list"
  eg_next_session :: nat
  eg_cycle_start :: "nat option"
  eg_left :: "nat list"
  eg_panicked :: bool

definition engine_new :: "'j engine" where
  "engine_new =
     \<lparr>eg_session = 0, eg_closed = False, eg_reconnecting = False, eg_can_reconnect = True, eg_full_reconnect = False,
      eg_engine_task = Some 0, eg_events = [], eg_reconnect = None, eg_closers = [], eg_open = [0], eg_next_session = 1,
      eg_cycle_start = None, eg_left = [], eg_panicked = False\<rparr>"

definition emit :: "'j engine_event \<Rightarrow> 'j engine \<Rightarrow> 'j engine" where
  "emit ev s = s\<lparr>eg_events := eg_events s @ [ev]\<rparr>"

definition goto :: "reconnect_pc \<Rightarrow> 'j engine \<Rightarrow> 'j engine" where
  "goto pc s = s\<lparr>eg_reconnect := Some pc\<rparr>"

text \<open>Both a restart and a close take the engine task out of the handle, and close the session if there was one.\<close>

definition take_engine_task :: "'j engine \<Rightarrow> 'j engine" where
  "take_engine_task s =
     (case eg_engine_task s of
        None \<Rightarrow> s
      | Some _ \<Rightarrow> s\<lparr>eg_engine_task := None, eg_open := removeAll (eg_session s) (eg_open s)\<rparr>)"

text \<open>
  Closing the session panics when one of its tasks has; awaiting the engine task panics when that one has.  Then
  the session is left as it is, and whatever follows in the task that closes does not happen.
\<close>

definition session_close_panics :: "'j engine \<Rightarrow> 'j engine option" where
  "session_close_panics s =
     (case eg_engine_task s of
        None \<Rightarrow> None
      | Some _ \<Rightarrow> Some (s\<lparr>eg_engine_task := None, eg_open := removeAll (eg_session s) (eg_open s), eg_left := eg_session s # eg_left s\<rparr>))"

definition close_begin :: "'j engine \<Rightarrow> 'j engine" where
  "close_begin s = take_engine_task (s\<lparr>eg_closed := True\<rparr>)"

text \<open>An operation waits while the lock is held by a reconnect (\<open>None\<close>), and then fails or gets the session.\<close>

definition wait_reconnection :: "'j engine \<Rightarrow> (engine_error + nat) option" where
  "wait_reconnection s =
     (if eg_reconnect s = None \<or> eg_reconnect s = Some RpLock
      then Some (if eg_closed s then Inl (ConnectionError ''engine is closed'') else Inr (eg_session s))
      else None)"

text \<open>Asking for a retry now only resets the interval between the attempts, which is not modelled.\<close>

definition reconnection_needed :: "bool \<Rightarrow> bool \<Rightarrow> 'j engine \<Rightarrow> 'j engine" where
  "reconnection_needed retry_now full_reconnect s =
     (if \<not> eg_can_reconnect s then s
      else if eg_reconnecting s then (if full_reconnect then s\<lparr>eg_full_reconnect := True\<rparr> else s)
      else s\<lparr>eg_reconnecting := True, eg_full_reconnect := full_reconnect, eg_reconnect := Some RpLock,
              eg_cycle_start := Some (length (eg_events s))\<rparr>)"

definition on_session_close :: "leave_action \<Rightarrow> disconnect_reason \<Rightarrow> bool \<Rightarrow> 'j engine \<Rightarrow> 'j engine" where
  "on_session_close action reason retry_now s =
     (case action of
        Disconnect \<Rightarrow> s\<lparr>eg_can_reconnect := False, eg_closers := eg_closers s @ [CloseBegin reason]\<rparr>
      | _ \<Rightarrow> if \<not> eg_can_reconnect s then s else reconnection_needed retry_now (action = Reconnect) s)"

section \<open>The reconnect task\<close>

text \<open>A failed attempt ends the task if the server asked to disconnect, and else leads to the next one.\<close>

definition attempt_failed :: "engine_error \<Rightarrow> nat \<Rightarrow> 'j engine \<Rightarrow> 'j engine" where
  "attempt_failed err i s =
     (case leave_disconnect_reason err of
        Some reason \<Rightarrow> goto (RpLeave reason) (s\<lparr>eg_can_reconnect := False\<rparr>)
      | None \<Rightarrow> goto (RpTick i) s)"

definition resume_failed :: "engine_error \<Rightarrow> nat \<Rightarrow> 'j engine \<Rightarrow> 'j engine" where
  "resume_failed err i s =
     (case leave_disconnect_reason err of
        Some _ \<Rightarrow> attempt_failed err i s
      | None \<Rightarrow> attempt_failed err i (s\<lparr>eg_full_reconnect := True\<rparr>))"

text \<open>Resuming: the signal connection first, then the publisher, the peer connections and the signal connection again.\<close>

definition resume_signalled :: "nat \<Rightarrow> (engine_error + 'j) \<Rightarrow> 'j engine \<Rightarrow> 'j engine" where
  "resume_signalled i res s =
     (case res of
        Inr _ \<Rightarrow> goto (RpResumePublisher i) (emit SignalResumed s)
      | Inl err \<Rightarrow> resume_failed err i s)"

definition resume_finished :: "nat \<Rightarrow> (engine_error + 'j) \<Rightarrow> 'j engine \<Rightarrow> 'j engine" where
  "resume_finished i res s = (case res of Inr _ \<Rightarrow> goto RpResumed s | Inl err \<Rightarrow> resume_failed err i s)"

text \<open>
  Restarting: the old session is closed, a new one is connected, and it replaces the old one once its peer connections are up; one whose
  peer connections do not come up is dropped.
\<close>

definition restart_begin :: "nat \<Rightarrow> 'j engine \<Rightarrow> 'j engine" where
  "restart_begin i s = goto (RpConnect i) (take_engine_task s)"

definition restart_connected :: "nat \<Rightarrow> (engine_error + 'j) \<Rightarrow> 'j engine \<Rightarrow> 'j engine" where
  "restart_connected i res s =
     (case res of
        Inr join_response \<Rightarrow>
          goto (RpWaitPc i (eg_next_session s))
            (emit (SignalRestarted join_response)
              (s\<lparr>eg_open := eg_next_session s # eg_open s, eg_next_session := eg_next_session s + 1\<rparr>))
      | Inl err \<Rightarrow> attempt_failed err i s)"

definition restart_finished :: "nat \<Rightarrow> nat \<Rightarrow> (engine_error + 'j) \<Rightarrow> 'j engine \<Rightarrow> 'j engine" where
  "restart_finished i n res s =
     (case res of
        Inr _ \<Rightarrow> goto RpRestarted (s\<lparr>eg_session := n, eg_engine_task := Some n\<rparr>)
      | Inl err \<Rightarrow> attempt_failed err i (s\<lparr>eg_open := removeAll n (eg_open s), eg_left := n # eg_left s\<rparr>))"

declare resume_signalled_def [simp] resume_finished_def [simp] restart_begin_def [simp] restart_connected_def [simp] restart_finished_def [simp]

text \<open>
  One step of the task, with the outcome of what it awaited.  Waiting for the publisher to be restarted, for the peer
  connections and for the signal connection is one step whose outcome is the first failure.
\<close>

fun reconnect_step :: "reconnect_pc \<Rightarrow> (engine_error + 'j) \<Rightarrow> 'j engine \<Rightarrow> 'j engine" where
  "reconnect_step RpLock res s = goto (RpAttempt 1) s"
| "reconnect_step (RpAttempt i) res s =
     (if RECONNECT_ATTEMPTS < i \<or> eg_closed s then goto RpFailed s
      else if eg_full_reconnect s then goto (RpRestart i) (if i = 1 then emit Restarting s else s)
      else goto (RpResume i) (if i = 1 then emit Resuming s else s))"
| "reconnect_step (RpResume i) res s = resume_signalled i res s"
| "reconnect_step (RpResumePublisher i) res s = resume_finished i res s"
| "reconnect_step RpResumed res s = goto RpFinish (emit Resumed s)"
| "reconnect_step (RpRestart i) res s = restart_begin i s"
| "reconnect_step (RpConnect i) res s = restart_connected i res s"
| "reconnect_step (RpWaitPc i n) res s = restart_finished i n res s"
| "reconnect_step RpRestarted res s = goto RpFinish (emit Restarted s)"
| "reconnect_step (RpTick i) res s = goto (RpAttempt (i + 1)) s"
| "reconnect_step (RpLeave reason) res s = goto (RpLeaving reason) (close_begin s)"
| "reconnect_step (RpLeaving reason) res s = goto RpFailed (emit (Disconnected reason) s)"
| "reconnect_step RpFailed res s = goto RpFailing (close_begin s)"
| "reconnect_step RpFailing res s = goto RpFinish (emit (Disconnected UnknownReason) s)"
| "reconnect_step RpFinish res s = s\<lparr>eg_reconnecting := False, eg_reconnect := None\<rparr>"

text \<open>
  Where the task can panic.  Its flag is not cleared then, and its lock is released.
\<close>

definition reconnect_died :: "'j engine \<Rightarrow> 'j engine" where
  "reconnect_died s = s\<lparr>eg_reconnect := None, eg_panicked := True\<rparr>"

fun reconnect_panics :: "reconnect_pc \<Rightarrow> 'j engine \<Rightarrow> 'j engine option" where
  "reconnect_panics (RpResume i) s = Some (reconnect_died s)"
| "reconnect_panics (RpResumePublisher i) s = Some (reconnect_died s)"
| "reconnect_panics (RpRestart i) s = map_option reconnect_died (session_close_panics s)"
| "reconnect_panics (RpConnect i) s = Some (reconnect_died s)"
| "reconnect_panics (RpWaitPc i n) s = Some (reconnect_died (s\<lparr>eg_open := removeAll n (eg_open s), eg_left := n # eg_left s\<rparr>))"
| "reconnect_panics (RpLeave reason) s = map_option reconnect_died (session_close_panics (s\<lparr>eg_closed := True\<rparr>))"
| "reconnect_panics RpFailed s = map_option reconnect_died (session_close_panics (s\<lparr>eg_closed := True\<rparr>))"
| "reconnect_panics _ s = None"

section \<open>All the tasks\<close>

text \<open>
  A session reports its end, the engine is closed by the room, a close goes on or panics, the reconnect task goes on or panics.
\<close>

datatype 'j engine_input =
    SessionClose leave_action disconnect_reason bool
  | CloseCalled disconnect_reason
  | CloserStep nat
  | ReconnectStep "engine_error + 'j"
  | CloserPanics nat
  | ReconnectPanics

fun engine_apply :: "'j engine_input \<Rightarrow> 'j engine \<Rightarrow> 'j engine option" where
  "engine_apply (SessionClose action reason retry_now) s = Some (on_session_close action reason retry_now s)"
| "engine_apply (CloseCalled reason) s = Some (s\<lparr>eg_closers := eg_closers s @ [CloseBegin reason]\<rparr>)"
| "engine_apply (CloserStep i) s =
     (if i < length (eg_closers s)
      then Some (case eg_closers s ! i of
                   CloseBegin reason \<Rightarrow> close_begin (s\<lparr>eg_closers := (eg_closers s)[i := CloseEmit reason]\<rparr>)
                 | CloseEmit reason \<Rightarrow>
                     emit (Disconnected reason) (s\<lparr>eg_closers := take i (eg_closers s) @ drop (Suc i) (eg_closers s)\<rparr>))
      else None)"
| "engine_apply (ReconnectStep res) s =
     (case eg_reconnect s of None \<Rightarrow> None | Some pc \<Rightarrow> Some (reconnect_step pc res s))"
| "engine_apply (CloserPanics i) s =
     (if i < length (eg_closers s)
      then case eg_closers s ! i of
             CloseBegin reason \<Rightarrow>
               session_close_panics (s\<lparr>eg_closed := True, eg_closers := take i (eg_closers s) @ drop (Suc i) (eg_closers s)\<rparr>)
           | CloseEmit reason \<Rightarrow> None
      else None)"
| "engine_apply ReconnectPanics s = (case eg_reconnect s of None \<Rightarrow> None | Some pc \<Rightarrow> reconnect_panics pc s)"

abbreviation engine_run :: "'j engine_input list \<Rightarrow> 'j engine \<Rightarrow> 'j engine option" where
  "engine_run \<equiv> run_enabled engine_apply"

abbreviation engine_reachable :: "'j engine \<Rightarrow> bool" where
  "engine_reachable \<equiv> reachable engine_apply engine_new"

section \<open>Invariants\<close>

text \<open>The events since the reconnect task was last spawned, and those that announce a recovered connection.\<close>

definition since_start :: "'j engine \<Rightarrow> 'j engine_event list" where
  "since_start s = (case eg_cycle_start s of None \<Rightarrow> [] | Some k \<Rightarrow> drop k (eg_events s))"

definition recovered :: "'j engine_event \<Rightarrow> bool" where
  "recovered ev \<longleftrightarrow> ev = Resumed \<or> ev = Restarted"

lemma recovered_simps [simp]:
  "recovered Resumed" "recovered Restarted" "\<not> recovered Resuming" "\<not> recovered SignalResumed" "\<not> recovered Restarting"
  "\<not> recovered (SignalRestarted j)" "\<not> recovered (Disconnected r)"
  by (simp_all add: recovered_def)

fun attempt_ok :: "reconnect_pc option \<Rightarrow> bool" where
  "attempt_ok (Some (RpAttempt i)) \<longleftrightarrow> 1 \<le> i \<and> i \<le> RECONNECT_ATTEMPTS + 1"
| "attempt_ok (Some (RpResume i)) \<longleftrightarrow> 1 \<le> i \<and> i \<le> RECONNECT_ATTEMPTS"
| "attempt_ok (Some (RpResumePublisher i)) \<longleftrightarrow> 1 \<le> i \<and> i \<le> RECONNECT_ATTEMPTS"
| "attempt_ok (Some (RpRestart i)) \<longleftrightarrow> 1 \<le> i \<and> i \<le> RECONNECT_ATTEMPTS"
| "attempt_ok (Some (RpConnect i)) \<longleftrightarrow> 1 \<le> i \<and> i \<le> RECONNECT_ATTEMPTS"
| "attempt_ok (Some (RpWaitPc i n)) \<longleftrightarrow> 1 \<le> i \<and> i \<le> RECONNECT_ATTEMPTS"
| "attempt_ok (Some (RpTick i)) \<longleftrightarrow> 1 \<le> i \<and> i \<le> RECONNECT_ATTEMPTS"
| "attempt_ok _ \<longleftrightarrow> True"

text \<open>Which session is open, and where the handle must have a running engine task unless the engine is closed or its reconnect task has panicked.\<close>

fun sessions_ok :: "reconnect_pc option \<Rightarrow> 'j engine \<Rightarrow> bool" where
  "sessions_ok (Some (RpWaitPc i n)) s \<longleftrightarrow> eg_open s = [n] \<and> eg_engine_task s = None \<and> eg_full_reconnect s"
| "sessions_ok (Some (RpConnect i)) s \<longleftrightarrow> eg_open s = [] \<and> eg_engine_task s = None \<and> eg_full_reconnect s"
| "sessions_ok pc s \<longleftrightarrow>
     eg_open s = (case eg_engine_task s of None \<Rightarrow> [] | Some n \<Rightarrow> [n]) \<and>
     (case pc of
        Some (RpAttempt i) \<Rightarrow> eg_closed s \<or> eg_full_reconnect s \<or> eg_engine_task s \<noteq> None
      | Some (RpTick i) \<Rightarrow> eg_full_reconnect s
      | Some (RpRestart i) \<Rightarrow> eg_full_reconnect s
      | Some (RpLeave r) \<Rightarrow> True
      | Some RpFailed \<Rightarrow> True
      | _ \<Rightarrow> eg_closed s \<or> eg_engine_task s \<noteq> None \<or> eg_panicked s)"

text \<open>What the room has been told by the reconnect task so far.\<close>

fun told_ok :: "reconnect_pc option \<Rightarrow> 'j engine \<Rightarrow> bool" where
  "told_ok None s \<longleftrightarrow> eg_cycle_start s \<noteq> None \<longrightarrow>
     (if eg_panicked s then filter recovered (since_start s) = []
      else length (filter recovered (since_start s)) = 1 \<or>
        filter recovered (since_start s) = [] \<and> Disconnected UnknownReason \<in> set (since_start s) \<and> eg_closed s)"
| "told_ok (Some RpFinish) s \<longleftrightarrow>
     length (filter recovered (since_start s)) = 1 \<or>
     filter recovered (since_start s) = [] \<and> Disconnected UnknownReason \<in> set (since_start s) \<and> eg_closed s"
| "told_ok (Some RpFailing) s \<longleftrightarrow> filter recovered (since_start s) = [] \<and> eg_closed s"
| "told_ok (Some pc) s \<longleftrightarrow> filter recovered (since_start s) = []"

definition engine_inv :: "'j engine \<Rightarrow> bool" where
  "engine_inv s \<longleftrightarrow>
     (eg_reconnecting s \<longleftrightarrow> eg_reconnect s \<noteq> None \<or> eg_panicked s) \<and> (eg_panicked s \<longrightarrow> eg_reconnect s = None) \<and>
     (eg_engine_task s \<noteq> None \<longrightarrow> eg_engine_task s = Some (eg_session s)) \<and>
     (eg_reconnecting s \<longrightarrow> eg_cycle_start s \<noteq> None) \<and>
     (case eg_cycle_start s of None \<Rightarrow> True | Some k \<Rightarrow> k \<le> length (eg_events s)) \<and>
     attempt_ok (eg_reconnect s) \<and> sessions_ok (eg_reconnect s) s \<and> told_ok (eg_reconnect s) s"

lemma emit_simps [simp]:
  "eg_session (emit ev s) = eg_session s" "eg_closed (emit ev s) = eg_closed s"
  "eg_reconnecting (emit ev s) = eg_reconnecting s" "eg_can_reconnect (emit ev s) = eg_can_reconnect s"
  "eg_full_reconnect (emit ev s) = eg_full_reconnect s" "eg_engine_task (emit ev s) = eg_engine_task s"
  "eg_events (emit ev s) = eg_events s @ [ev]" "eg_reconnect (emit ev s) = eg_reconnect s"
  "eg_closers (emit ev s) = eg_closers s" "eg_open (emit ev s) = eg_open s"
  "eg_next_session (emit ev s) = eg_next_session s" "eg_cycle_start (emit ev s) = eg_cycle_start s"
  "eg_left (emit ev s) = eg_left s" "eg_panicked (emit ev s) = eg_panicked s"
  by (simp_all add: emit_def)

lemma goto_simps [simp]:
  "eg_session (goto pc s) = eg_session s" "eg_closed (goto pc s) = eg_closed s"
  "eg_reconnecting (goto pc s) = eg_reconnecting s" "eg_can_reconnect (goto pc s) = eg_can_reconnect s"
  "eg_full_reconnect (goto pc s) = eg_full_reconnect s" "eg_engine_task (goto pc s) = eg_engine_task s"
  "eg_events (goto pc s) = eg_events s" "eg_reconnect (goto pc s) = Some pc"
  "eg_closers (goto pc s) = eg_closers s" "eg_open (goto pc s) = eg_open s"
  "eg_next_session (goto pc s) = eg_next_session s" "eg_cycle_start (goto pc s) = eg_cycle_start s"
  "eg_left (goto pc s) = eg_left s" "eg_panicked (goto pc s) = eg_panicked s"
  by (simp_all add: goto_def)

lemma take_engine_task_simps [simp]:
  "eg_session (take_engine_task s) = eg_session s" "eg_closed (take_engine_task s) = eg_closed s"
  "eg_reconnecting (take_engine_task s) = eg_reconnecting s" "eg_can_reconnect (take_engine_task s) = eg_can_reconnect s"
  "eg_full_reconnect (take_engine_task s) = eg_full_reconnect s" "eg_engine_task (take_engine_task s) = None"
  "eg_events (take_engine_task s) = eg_events s" "eg_reconnect (take_engine_task s) = eg_reconnect s"
  "eg_closers (take_engine_task s) = eg_closers s" "eg_cycle_start (take_engine_task s) = eg_cycle_start s"
  "eg_left (take_engine_task s) = eg_left s" "eg_panicked (take_engine_task s) = eg_panicked s"
  "eg_open (take_engine_task s) = (if eg_engine_task s = None then eg_open s else removeAll (eg_session s) (eg_open s))"
  by (simp_all add: take_engine_task_def split: option.split)

lemma since_start_emit:
  "(case eg_cycle_start s of None \<Rightarrow> False | Some k \<Rightarrow> k \<le> length (eg_events s)) \<Longrightarrow> since_start (emit ev s) = since_start s @ [ev]"
  by (simp add: since_start_def split: option.splits)

lemma since_start_goto [simp]: "since_start (goto pc s) = since_start s"
  and since_start_take [simp]: "since_start (take_engine_task s) = since_start s"
  and since_start_closed [simp]: "since_start (s\<lparr>eg_closed := b\<rparr>) = since_start s"
  and since_start_closers [simp]: "since_start (s\<lparr>eg_closers := cs\<rparr>) = since_start s"
  and since_start_can [simp]: "since_start (s\<lparr>eg_can_reconnect := b\<rparr>) = since_start s"
  and since_start_full [simp]: "since_start (s\<lparr>eg_full_reconnect := b\<rparr>) = since_start s"
  and since_start_open [simp]: "since_start (s\<lparr>eg_open := l\<rparr>) = since_start s"
  and since_start_next [simp]: "since_start (s\<lparr>eg_next_session := m\<rparr>) = since_start s"
  and since_start_session [simp]: "since_start (s\<lparr>eg_session := m\<rparr>) = since_start s"
  and since_start_task [simp]: "since_start (s\<lparr>eg_engine_task := t\<rparr>) = since_start s"
  and since_start_reconnect [simp]: "since_start (s\<lparr>eg_reconnect := p\<rparr>) = since_start s"
  and since_start_reconnecting [simp]: "since_start (s\<lparr>eg_reconnecting := b\<rparr>) = since_start s"
  and since_start_left [simp]: "since_start (s\<lparr>eg_left := l\<rparr>) = since_start s"
  and since_start_panicked [simp]: "since_start (s\<lparr>eg_panicked := b\<rparr>) = since_start s"
  by (simp_all add: since_start_def split: option.split)

lemma engine_inv_new: "engine_inv engine_new"
  by (simp add: engine_inv_def engine_new_def)

lemma attempt_failed_cases:
  "attempt_failed err i s = goto (RpTick i) s \<or> (\<exists>r. attempt_failed err i s = goto (RpLeave r) (s\<lparr>eg_can_reconnect := False\<rparr>))"
  by (auto simp: attempt_failed_def split: option.split)

lemma resume_failed_cases:
  "resume_failed err i s = goto (RpTick i) (s\<lparr>eg_full_reconnect := True\<rparr>) \<or> (\<exists>r. resume_failed err i s = goto (RpLeave r) (s\<lparr>eg_can_reconnect := False\<rparr>))"
  by (auto simp: resume_failed_def attempt_failed_def split: option.split)

lemma engine_inv_attempt_failed:
  assumes "engine_inv s" and "eg_reconnect s = Some (RpConnect i)"
  shows "engine_inv (attempt_failed err i s)"
  using attempt_failed_cases [of err i s] assms by (auto simp: engine_inv_def)

lemma engine_inv_resume_failed:
  assumes "engine_inv s" and "eg_reconnect s = Some (RpResume i) \<or> eg_reconnect s = Some (RpResumePublisher i)"
  shows "engine_inv (resume_failed err i s)"
  using resume_failed_cases [of err i s] assms by (auto simp: engine_inv_def)

lemma engine_inv_since:
  "engine_inv s \<Longrightarrow> eg_cycle_start s \<noteq> None \<Longrightarrow> since_start (emit ev s) = since_start s @ [ev]"
  by (rule since_start_emit) (auto simp: engine_inv_def split: option.splits)

lemma engine_inv_start: "engine_inv s \<Longrightarrow> eg_reconnect s = Some pc \<Longrightarrow> eg_cycle_start s \<noteq> None"
  by (auto simp: engine_inv_def)

lemma engine_inv_reconnect:
  assumes inv: "engine_inv s" and pc: "eg_reconnect s = Some pc"
  shows "engine_inv (reconnect_step pc res s)"
proof -
  note start = engine_inv_start [OF inv pc]
  note emitted = engine_inv_since [OF inv start]
  from start obtain k where k: "eg_cycle_start s = Some k" by blast
  note d = engine_inv_def k pc
  show ?thesis
  proof (cases pc)
    case RpLock
    then show ?thesis using inv by (auto simp: d RECONNECT_ATTEMPTS_def)
  next
    case (RpAttempt i)
    then show ?thesis using inv emitted by (auto simp: d RECONNECT_ATTEMPTS_def)
  next
    case (RpResume i)
    then show ?thesis
      using inv emitted engine_inv_resume_failed [OF inv] pc by (cases res) (auto simp: d)
  next
    case (RpResumePublisher i)
    then show ?thesis using inv engine_inv_resume_failed [OF inv] pc by (cases res) (auto simp: d)
  next
    case RpResumed
    then show ?thesis using inv emitted by (auto simp: d)
  next
    case (RpRestart i)
    then show ?thesis using inv by (auto simp: d split: option.splits)
  next
    case (RpConnect i)
    then show ?thesis
      using inv emitted engine_inv_attempt_failed [OF inv] pc
      by (cases res) (auto simp: d emit_def goto_def since_start_def)
  next
    case (RpWaitPc i n)
    then show ?thesis
      using inv by (cases res) (auto simp: d attempt_failed_def split: option.splits)
  next
    case RpRestarted
    then show ?thesis using inv emitted by (auto simp: d)
  next
    case (RpTick i)
    then show ?thesis using inv by (auto simp: d)
  next
    case (RpLeave r)
    then show ?thesis using inv by (auto simp: d close_begin_def split: option.splits)
  next
    case (RpLeaving r)
    then show ?thesis using inv emitted by (auto simp: d)
  next
    case RpFailed
    then show ?thesis using inv by (auto simp: d close_begin_def split: option.splits)
  next
    case RpFailing
    then show ?thesis using inv emitted by (auto simp: d)
  next
    case RpFinish
    then show ?thesis using inv by (auto simp: d)
  qed
qed

text \<open>Steps of the other tasks leave the reconnect task where it stands.\<close>

lemma told_ok_mono:
  "told_ok p s \<Longrightarrow> since_start s' = since_start s \<Longrightarrow> eg_cycle_start s' = eg_cycle_start s \<Longrightarrow> (eg_closed s \<Longrightarrow> eg_closed s') \<Longrightarrow>
    eg_panicked s' = eg_panicked s \<Longrightarrow> told_ok p s'"
  by (cases "(p, s)" rule: told_ok.cases) auto

lemma told_ok_disconnected:
  "told_ok p s \<Longrightarrow> since_start s' = since_start s @ [Disconnected r] \<or> since_start s' = since_start s \<Longrightarrow> eg_cycle_start s' = eg_cycle_start s \<Longrightarrow>
    eg_closed s' = eg_closed s \<Longrightarrow> eg_panicked s' = eg_panicked s \<Longrightarrow> told_ok p s'"
  by (cases "(p, s)" rule: told_ok.cases) auto

lemma sessions_ok_mono:
  "sessions_ok p s \<Longrightarrow> eg_open s' = eg_open s \<Longrightarrow> eg_engine_task s' = eg_engine_task s \<Longrightarrow> (eg_closed s \<Longrightarrow> eg_closed s') \<Longrightarrow>
    (eg_full_reconnect s \<Longrightarrow> eg_full_reconnect s') \<Longrightarrow> (eg_panicked s \<Longrightarrow> eg_panicked s') \<Longrightarrow> sessions_ok p s'"
  by (cases "(p, s)" rule: sessions_ok.cases) auto

lemma sessions_ok_closed:
  "sessions_ok p s \<Longrightarrow> eg_engine_task s \<noteq> None \<Longrightarrow> eg_open s' = [] \<Longrightarrow> eg_engine_task s' = None \<Longrightarrow> eg_closed s' \<Longrightarrow>
    eg_full_reconnect s' = eg_full_reconnect s \<Longrightarrow> sessions_ok p s'"
  by (cases "(p, s)" rule: sessions_ok.cases) auto

lemma sessions_ok_task: "sessions_ok p s \<Longrightarrow> eg_engine_task s = Some n \<Longrightarrow> eg_open s = [n]"
  by (cases "(p, s)" rule: sessions_ok.cases) auto

lemma engine_inv_close_begin:
  assumes "engine_inv s"
  shows "engine_inv (close_begin (s\<lparr>eg_closers := cs\<rparr>))"
proof -
  let ?s = "close_begin (s\<lparr>eg_closers := cs\<rparr>)"
  note inv = assms [unfolded engine_inv_def]
  have "sessions_ok (eg_reconnect s) ?s"
  proof (cases "eg_engine_task s")
    case None
    with inv show ?thesis by (intro sessions_ok_mono [of _ s ?s]) (simp_all add: close_begin_def)
  next
    case (Some n)
    with inv have "eg_open s = [n]" "n = eg_session s" by (auto dest: sessions_ok_task)
    with inv Some show ?thesis by (intro sessions_ok_closed [of _ s ?s]) (simp_all add: close_begin_def)
  qed
  moreover have "told_ok (eg_reconnect s) ?s" using inv by (intro told_ok_mono [of _ s ?s]) (simp_all add: close_begin_def)
  ultimately show ?thesis using inv by (auto simp: engine_inv_def close_begin_def split: option.splits)
qed

lemma engine_inv_disconnected:
  assumes "engine_inv s"
  shows "engine_inv (emit (Disconnected r) (s\<lparr>eg_closers := cs\<rparr>))"
proof -
  let ?s = "emit (Disconnected r) (s\<lparr>eg_closers := cs\<rparr>)"
  note inv = assms [unfolded engine_inv_def]
  have "since_start ?s = since_start s @ [Disconnected r] \<or> since_start ?s = since_start s"
    using inv by (cases "eg_cycle_start s") (simp_all add: since_start_def)
  then have "told_ok (eg_reconnect s) ?s" using inv by (intro told_ok_disconnected [of _ s ?s]) simp_all
  moreover have "sessions_ok (eg_reconnect s) ?s" using inv by (intro sessions_ok_mono [of _ s ?s]) simp_all
  ultimately show ?thesis using inv by (auto simp: engine_inv_def split: option.splits)
qed

lemma engine_inv_update:
  assumes "engine_inv s" and "eg_session s' = eg_session s" "eg_closed s' = eg_closed s" "eg_reconnecting s' = eg_reconnecting s"
    "eg_engine_task s' = eg_engine_task s" "eg_events s' = eg_events s" "eg_reconnect s' = eg_reconnect s" "eg_open s' = eg_open s"
    "eg_cycle_start s' = eg_cycle_start s" "eg_panicked s' = eg_panicked s" and "eg_full_reconnect s \<Longrightarrow> eg_full_reconnect s'"
  shows "engine_inv s'"
proof -
  note inv = assms(1) [unfolded engine_inv_def]
  have "since_start s' = since_start s" by (simp add: since_start_def assms(6,9) split: option.split)
  then have "told_ok (eg_reconnect s) s'" using inv assms by (intro told_ok_mono [of _ s s']) simp_all
  moreover have "sessions_ok (eg_reconnect s) s'" using inv assms by (intro sessions_ok_mono [of _ s s']) simp_all
  ultimately show ?thesis using inv assms(2-11) by (auto simp: engine_inv_def split: option.splits)
qed

lemma engine_inv_started:
  assumes "engine_inv s" and "\<not> eg_reconnecting s"
  shows "engine_inv (s\<lparr>eg_reconnecting := True, eg_full_reconnect := full, eg_reconnect := Some RpLock,
    eg_cycle_start := Some (length (eg_events s))\<rparr>)"
  using assms by (auto simp: engine_inv_def since_start_def)

lemma engine_inv_needed: "engine_inv s \<Longrightarrow> engine_inv (reconnection_needed retry_now full s)"
  using engine_inv_started [of s full]
  by (auto simp: reconnection_needed_def intro: engine_inv_update)

lemma engine_inv_session_close: "engine_inv s \<Longrightarrow> engine_inv (on_session_close action reason retry_now s)"
  by (cases action) (auto simp: on_session_close_def engine_inv_needed intro: engine_inv_update)

lemma engine_inv_closers: "engine_inv s \<Longrightarrow> engine_inv (s\<lparr>eg_closers := cs\<rparr>)"
  by (auto intro: engine_inv_update)

text \<open>Panics.\<close>

lemma since_start_died [simp]: "since_start (reconnect_died s) = since_start s"
  by (simp add: reconnect_died_def)

lemma session_close_panics_effect:
  assumes "session_close_panics s = Some s'"
  shows "eg_engine_task s \<noteq> None" "s' = s\<lparr>eg_engine_task := None, eg_open := removeAll (eg_session s) (eg_open s), eg_left := eg_session s # eg_left s\<rparr>"
  using assms by (auto simp: session_close_panics_def split: option.splits)

lemma engine_inv_died:
  assumes inv: "engine_inv s" and pc: "eg_reconnect s = Some pc" and untold: "filter recovered (since_start s) = []"
    and s': "eg_session s' = eg_session s" "eg_reconnecting s' = eg_reconnecting s" "eg_reconnect s' = None" "eg_events s' = eg_events s"
      "eg_cycle_start s' = eg_cycle_start s" "eg_panicked s'" "eg_engine_task s' = None \<or> eg_engine_task s' = eg_engine_task s"
    and opened: "eg_open s' = (case eg_engine_task s' of None \<Rightarrow> [] | Some n \<Rightarrow> [n])"
  shows "engine_inv s'"
proof -
  have "since_start s' = since_start s" by (simp add: since_start_def s'(4,5) split: option.split)
  then show ?thesis using inv pc untold s' opened by (auto simp: engine_inv_def)
qed

lemma engine_inv_reconnect_panics:
  assumes inv: "engine_inv s" and pc: "eg_reconnect s = Some pc" and step: "reconnect_panics pc s = Some s'"
  shows "engine_inv s'"
proof -
  have untold: "filter recovered (since_start s) = []" and sess: "sessions_ok (Some pc) s" and task: "eg_engine_task s = None \<or> eg_engine_task s = Some (eg_session s)"
    using inv pc step by (cases pc; auto simp: engine_inv_def)+
  show ?thesis
    by (rule engine_inv_died [OF inv pc untold])
      (use step sess task in \<open>cases pc; auto simp: reconnect_died_def dest!: session_close_panics_effect\<close>)+
qed

lemma engine_inv_closer_panics:
  assumes inv: "engine_inv s" and step: "session_close_panics (s\<lparr>eg_closed := True, eg_closers := cs\<rparr>) = Some s'"
  shows "engine_inv s'"
proof -
  let ?s = "s\<lparr>eg_closed := True, eg_closers := cs\<rparr>"
  note s' = session_close_panics_effect [OF step]
  note i = inv [unfolded engine_inv_def]
  obtain n where n: "eg_engine_task s = Some n" "n = eg_session s" using i s'(1) by auto
  have "eg_open s = [n]" using i n(1) by (auto dest: sessions_ok_task)
  then have "sessions_ok (eg_reconnect s) s'"
    using i n by (intro sessions_ok_closed [of _ s s']) (simp_all add: s'(2))
  moreover have "told_ok (eg_reconnect s) s'" using i by (intro told_ok_mono [of _ s s']) (simp_all add: s'(2))
  ultimately show ?thesis using i by (auto simp: engine_inv_def s'(2) split: option.splits)
qed

lemma engine_inv_apply:
  assumes inv: "engine_inv s" and step: "engine_apply e s = Some s'"
  shows "engine_inv s'"
proof (cases e)
  case (CloserStep i)
  then show ?thesis using inv step
    by (auto simp: engine_inv_close_begin engine_inv_disconnected split: if_splits engine_close_pc.splits)
next
  case (ReconnectStep res)
  then show ?thesis using step engine_inv_reconnect [OF inv] by (auto split: option.splits)
next
  case (CloserPanics i)
  then show ?thesis using step engine_inv_closer_panics [OF inv] by (auto split: if_splits engine_close_pc.splits)
next
  case ReconnectPanics
  then show ?thesis using step engine_inv_reconnect_panics [OF inv] by (auto split: option.splits)
qed (use inv step engine_inv_session_close engine_inv_closers in auto)

interpretation egm: enabled_machine engine_apply engine_new engine_inv
  by unfold_locales (rule engine_inv_new, rule engine_inv_apply)

section \<open>A reconnect ends\<close>

fun reconnect_rank :: "reconnect_pc \<Rightarrow> nat" where
  "reconnect_rank RpLock = 59"
| "reconnect_rank (RpAttempt i) = 5 * (11 - i) + 8"
| "reconnect_rank (RpResume i) = 5 * (10 - i) + 11"
| "reconnect_rank (RpResumePublisher i) = 5 * (10 - i) + 10"
| "reconnect_rank RpResumed = 2"
| "reconnect_rank (RpRestart i) = 5 * (10 - i) + 12"
| "reconnect_rank (RpConnect i) = 5 * (10 - i) + 11"
| "reconnect_rank (RpWaitPc i n) = 5 * (10 - i) + 10"
| "reconnect_rank RpRestarted = 2"
| "reconnect_rank (RpTick i) = 5 * (10 - i) + 9"
| "reconnect_rank (RpLeave r) = 5"
| "reconnect_rank (RpLeaving r) = 4"
| "reconnect_rank RpFailed = 3"
| "reconnect_rank RpFailing = 2"
| "reconnect_rank RpFinish = 1"

lemma reconnect_rank_pos: "0 < reconnect_rank pc"
  by (cases pc) simp_all

lemma reconnect_rank_decreases:
  "attempt_ok (Some pc) \<Longrightarrow> eg_reconnect (reconnect_step pc res s) = Some pc' \<Longrightarrow> reconnect_rank pc' < reconnect_rank pc"
  by (cases pc; cases res)
    (auto simp: RECONNECT_ATTEMPTS_def resume_failed_def attempt_failed_def split: if_splits option.splits)

fun is_reconnect_step :: "'j engine_input \<Rightarrow> bool" where
  "is_reconnect_step (ReconnectStep res) \<longleftrightarrow> True"
| "is_reconnect_step ReconnectPanics \<longleftrightarrow> True"
| "is_reconnect_step _ \<longleftrightarrow> False"

lemma other_steps_keep_pc:
  "engine_inv s \<Longrightarrow> eg_reconnect s = Some pc \<Longrightarrow> \<not> is_reconnect_step e \<Longrightarrow> engine_apply e s = Some s' \<Longrightarrow> eg_reconnect s' = Some pc"
  by (cases e)
    (auto simp: on_session_close_def reconnection_needed_def close_begin_def engine_inv_def dest!: session_close_panics_effect
      split: if_splits engine_close_pc.splits leave_action.splits)

lemma reconnect_panics_ends: "reconnect_panics pc s = Some s' \<Longrightarrow> eg_reconnect s' = None"
  by (cases pc) (auto simp: reconnect_died_def)

lemma reconnect_ends_within:
  "engine_inv s \<Longrightarrow> eg_reconnect s = Some pc \<Longrightarrow> engine_run es s = Some s' \<Longrightarrow>
    reconnect_rank pc \<le> length (filter is_reconnect_step es) \<Longrightarrow>
    \<exists>n t. n \<le> length es \<and> engine_run (take n es) s = Some t \<and> eg_reconnect t = None"
proof (induction es arbitrary: s pc)
  case Nil
  then show ?case using reconnect_rank_pos [of pc] by simp
next
  case (Cons e es)
  from Cons.prems(3) obtain s1 where s1: "engine_apply e s = Some s1" "engine_run es s1 = Some s'"
    by (rule run_enabled_ConsE)
  have inv: "engine_inv s1" using engine_inv_apply [OF Cons.prems(1) s1(1)] .
  show ?case
  proof (cases "eg_reconnect s1")
    case None
    then show ?thesis using s1 by (intro exI [of _ 1] exI [of _ s1]) simp
  next
    case (Some pc1)
    have "reconnect_rank pc1 \<le> length (filter is_reconnect_step es)"
    proof (cases "is_reconnect_step e")
      case True
      then obtain res where "e = ReconnectStep res"
        using s1(1) Cons.prems(2) Some reconnect_panics_ends [of pc s s1] by (cases e) simp_all
      then have "reconnect_rank pc1 < reconnect_rank pc"
        using s1(1) Cons.prems(1,2) Some by (auto simp: engine_inv_def intro!: reconnect_rank_decreases)
      then show ?thesis using Cons.prems(4) True by simp
    next
      case False
      then show ?thesis using other_steps_keep_pc [OF Cons.prems(1,2) False s1(1)] Some Cons.prems(4) by simp
    qed
    from Cons.IH [OF inv Some s1(2) this] obtain n t where "n \<le> length es" "engine_run (take n es) s1 = Some t" "eg_reconnect t = None"
      by blast
    then show ?thesis using s1(1) by (intro exI [of _ "Suc n"] exI [of _ t]) simp
  qed
qed

section \<open>No resume after a failed attempt\<close>

fun is_resume :: "'j engine_event \<Rightarrow> bool" where
  "is_resume Resumed \<longleftrightarrow> True"
| "is_resume SignalResumed \<longleftrightarrow> True"
| "is_resume Resuming \<longleftrightarrow> True"
| "is_resume _ \<longleftrightarrow> False"

fun past_resume :: "reconnect_pc \<Rightarrow> bool" where
  "past_resume RpLock \<longleftrightarrow> False"
| "past_resume (RpResume i) \<longleftrightarrow> False"
| "past_resume (RpResumePublisher i) \<longleftrightarrow> False"
| "past_resume RpResumed \<longleftrightarrow> False"
| "past_resume _ \<longleftrightarrow> True"

definition escalated :: "nat \<Rightarrow> nat \<Rightarrow> 'j engine \<Rightarrow> bool" where
  "escalated k n s \<longleftrightarrow>
     (\<exists>m. eg_cycle_start s = Some m \<and> k < m) \<or>
     (eg_cycle_start s = Some k \<and> filter is_resume (drop n (eg_events s)) = [] \<and> n \<le> length (eg_events s) \<and>
       (case eg_reconnect s of None \<Rightarrow> True | Some pc \<Rightarrow> past_resume pc \<and> eg_full_reconnect s))"

lemma finished_cycle_longer:
  assumes "engine_inv s" and "eg_reconnect s = None" and "\<not> eg_panicked s" and k: "eg_cycle_start s = Some k"
  shows "k < length (eg_events s)"
proof -
  have "since_start s \<noteq> []" using assms by (auto simp: engine_inv_def)
  then show ?thesis using k by (simp add: since_start_def)
qed

lemma escalated_reconnect:
  assumes "escalated k n s" and "eg_reconnect s = Some pc"
  shows "escalated k n (reconnect_step pc res s)"
  using assms
  by (cases pc; cases res) (auto simp: escalated_def attempt_failed_def resume_failed_def close_begin_def emit_def goto_def split: option.splits)

lemma escalated_apply:
  assumes "escalated k n s" and inv: "engine_inv s" and step: "engine_apply e s = Some s'"
  shows "escalated k n s'"
proof (cases e)
  case (SessionClose action reason now)
  have idle: "eg_reconnect s = None" "\<not> eg_panicked s" if "\<not> eg_reconnecting s" using inv that by (simp_all add: engine_inv_def)
  then have "k < length (eg_events s)" if "\<not> eg_reconnecting s" "eg_cycle_start s = Some k" for k
    using finished_cycle_longer [OF inv] that by blast
  then show ?thesis using assms(1) step SessionClose
    by (cases action)
      (auto simp: escalated_def on_session_close_def reconnection_needed_def split: if_splits option.splits)
next
  case (CloseCalled r)
  then show ?thesis using assms by (auto simp: escalated_def split: option.splits)
next
  case (CloserStep i)
  then show ?thesis using assms by (auto simp: escalated_def close_begin_def split: if_splits engine_close_pc.splits option.splits)
next
  case (ReconnectStep res)
  then show ?thesis using assms escalated_reconnect by (auto split: option.splits)
next
  case (CloserPanics i)
  then show ?thesis using assms
    by (auto simp: escalated_def dest!: session_close_panics_effect split: if_splits engine_close_pc.splits option.splits)
next
  case ReconnectPanics
  then obtain pc where pc: "eg_reconnect s = Some pc" "reconnect_panics pc s = Some s'" using step by (auto split: option.splits)
  have "eg_cycle_start s' = eg_cycle_start s \<and> eg_events s' = eg_events s"
    using pc(2) by (cases pc) (auto simp: reconnect_died_def dest!: session_close_panics_effect)
  then show ?thesis using assms(1) reconnect_panics_ends [OF pc(2)] by (auto simp: escalated_def)
qed

lemma escalated_run: "escalated k n s \<Longrightarrow> engine_inv s \<Longrightarrow> engine_run es s = Some s' \<Longrightarrow> escalated k n s'"
  using run_enabled_inv [of engine_apply es s s' "\<lambda>t. escalated k n t \<and> engine_inv t"] escalated_apply engine_inv_apply by blast

section \<open>Told to leave\<close>

text \<open>The server tells the client to leave in a message of the session, or as the answer to an attempt to reconnect.\<close>

fun attempting :: "reconnect_pc \<Rightarrow> bool" where
  "attempting (RpResume i) \<longleftrightarrow> True"
| "attempting (RpResumePublisher i) \<longleftrightarrow> True"
| "attempting (RpConnect i) \<longleftrightarrow> True"
| "attempting (RpWaitPc i n) \<longleftrightarrow> True"
| "attempting _ \<longleftrightarrow> False"

fun told_to_leave :: "'j engine_input \<Rightarrow> 'j engine \<Rightarrow> bool" where
  "told_to_leave (SessionClose action reason now) s \<longleftrightarrow> action = Disconnect"
| "told_to_leave (ReconnectStep (Inl err)) s \<longleftrightarrow> leave_disconnect_reason err \<noteq> None \<and> (\<exists>pc. eg_reconnect s = Some pc \<and> attempting pc)"
| "told_to_leave _ s \<longleftrightarrow> False"

fun leaving :: "reconnect_pc option \<Rightarrow> bool" where
  "leaving None \<longleftrightarrow> True"
| "leaving (Some (RpLeave r)) \<longleftrightarrow> True"
| "leaving (Some (RpLeaving r)) \<longleftrightarrow> True"
| "leaving (Some RpFailed) \<longleftrightarrow> True"
| "leaving (Some RpFailing) \<longleftrightarrow> True"
| "leaving (Some RpFinish) \<longleftrightarrow> True"
| "leaving _ \<longleftrightarrow> False"

definition no_new_cycle :: "'j engine \<Rightarrow> 'j engine \<Rightarrow> bool" where
  "no_new_cycle s t \<longleftrightarrow> \<not> eg_can_reconnect t \<and> eg_cycle_start t = eg_cycle_start s"

definition only_disconnects :: "'j engine \<Rightarrow> 'j engine \<Rightarrow> bool" where
  "only_disconnects s t \<longleftrightarrow> leaving (eg_reconnect t) \<and> (\<exists>rs. eg_events t = eg_events s @ map Disconnected rs)"

definition will_be_told :: "disconnect_reason \<Rightarrow> 'j engine \<Rightarrow> 'j engine \<Rightarrow> bool" where
  "will_be_told reason s t \<longleftrightarrow>
     (\<exists>new. eg_events t = eg_events s @ new \<and>
        (Disconnected reason \<in> set new \<or> CloseBegin reason \<in> set (eg_closers t) \<or> CloseEmit reason \<in> set (eg_closers t)))"

lemma reconnect_step_keeps:
  "eg_cycle_start (reconnect_step pc res s) = eg_cycle_start s" "\<not> eg_can_reconnect s \<Longrightarrow> \<not> eg_can_reconnect (reconnect_step pc res s)"
  "eg_closers (reconnect_step pc res s) = eg_closers s"
  by (cases pc; cases res; auto simp: attempt_failed_def resume_failed_def close_begin_def split: option.splits)+

lemma reconnect_panics_keeps:
  "reconnect_panics pc s = Some s' \<Longrightarrow> eg_cycle_start s' = eg_cycle_start s \<and> eg_can_reconnect s' = eg_can_reconnect s \<and>
    eg_events s' = eg_events s \<and> eg_closers s' = eg_closers s"
  by (cases pc) (auto simp: reconnect_died_def dest!: session_close_panics_effect)

lemma reconnect_step_appends: "\<exists>new. eg_events (reconnect_step pc res s) = eg_events s @ new"
  by (cases pc; cases res) (auto simp: attempt_failed_def resume_failed_def close_begin_def split: option.splits)

lemma leaving_step:
  "leaving (Some pc) \<Longrightarrow> leaving (eg_reconnect (reconnect_step pc res s)) \<and> (\<exists>rs. eg_events (reconnect_step pc res s) = eg_events s @ map Disconnected rs)"
  by (cases pc) (auto simp: close_begin_def intro: exI [of _ "[]"] exI [of _ "[_]"])

lemma no_new_cycle_apply: "no_new_cycle s t \<Longrightarrow> engine_apply e t = Some t' \<Longrightarrow> no_new_cycle s t'"
  by (cases e)
    (auto simp: no_new_cycle_def on_session_close_def close_begin_def reconnect_step_keeps dest: reconnect_panics_keeps dest!: session_close_panics_effect
      split: if_splits engine_close_pc.splits option.splits leave_action.splits)

lemma only_disconnects_apply:
  assumes "no_new_cycle s t" and "only_disconnects s t" and step: "engine_apply e t = Some t'"
  shows "only_disconnects s t'"
proof -
  obtain rs where rs: "eg_events t = eg_events s @ map Disconnected rs" and at: "leaving (eg_reconnect t)" and can: "\<not> eg_can_reconnect t"
    using assms by (auto simp: only_disconnects_def no_new_cycle_def)
  have "leaving (eg_reconnect t') \<and> (\<exists>rs'. eg_events t' = eg_events t @ map Disconnected rs')"
  proof (cases e)
    case (CloserStep i)
    then show ?thesis using step at
      by (auto simp: close_begin_def split: if_splits engine_close_pc.splits intro: exI [of _ "[]"] exI [of _ "[_]"])
  next
    case (ReconnectStep res)
    then show ?thesis using step at leaving_step by (auto split: option.splits)
  next
    case (CloserPanics i)
    then show ?thesis using step at by (auto dest!: session_close_panics_effect split: if_splits engine_close_pc.splits)
  next
    case ReconnectPanics
    then show ?thesis using step reconnect_panics_keeps reconnect_panics_ends by (fastforce split: option.splits)
  qed (use step at can in \<open>auto simp: on_session_close_def split: leave_action.splits\<close>)
  then obtain rs' where "leaving (eg_reconnect t')" "eg_events t' = eg_events s @ map Disconnected (rs @ rs')" using rs by auto
  then show ?thesis unfolding only_disconnects_def by blast
qed

lemma stays_in_update: "x \<in> set xs \<Longrightarrow> x \<noteq> xs ! i \<Longrightarrow> x \<in> set (xs[i := y])"
  by (metis in_set_conv_nth length_list_update nth_list_update_neq)

lemma stays_in_removal:
  assumes "x \<in> set xs" and "x \<noteq> xs ! i" and "i < length xs"
  shows "x \<in> set (take i xs) \<or> x \<in> set (drop (Suc i) xs)"
  using assms id_take_nth_drop [OF assms(3)] by (metis Un_iff set_ConsD set_append)

lemma will_be_told_apply:
  assumes told: "will_be_told reason s t" and step: "engine_apply e t = Some t'" and e: "\<forall>i. e \<noteq> CloserPanics i"
  shows "will_be_told reason s t'"
proof -
  obtain new where new: "eg_events t = eg_events s @ new"
    and at: "Disconnected reason \<in> set new \<or> CloseBegin reason \<in> set (eg_closers t) \<or> CloseEmit reason \<in> set (eg_closers t)"
    using told by (auto simp: will_be_told_def)
  show ?thesis
  proof (cases e)
    case (CloserStep i)
    then have i: "i < length (eg_closers t)" using step by (simp split: if_splits)
    show ?thesis
    proof (cases "eg_closers t ! i")
      case (CloseBegin r)
      then have t': "eg_events t' = eg_events t" "eg_closers t' = (eg_closers t)[i := CloseEmit r]"
        using step i CloserStep by (auto simp: close_begin_def)
      have "CloseEmit r \<in> set (eg_closers t')" using i by (simp add: t'(2) set_update_memI)
      then show ?thesis
        using new at stays_in_update [of _ "eg_closers t" i "CloseEmit r"] CloseBegin unfolding will_be_told_def t' by (cases "r = reason") auto
    next
      case (CloseEmit r)
      then have t': "eg_events t' = eg_events t @ [Disconnected r]" "eg_closers t' = take i (eg_closers t) @ drop (Suc i) (eg_closers t)"
        using step i CloserStep by auto
      show ?thesis
        using new at stays_in_removal [OF _ _ i] CloseEmit unfolding will_be_told_def t' by (cases "r = reason") auto
    qed
  next
    case (ReconnectStep res)
    then obtain pc where t': "t' = reconnect_step pc res t" using step by (auto split: option.splits)
    show ?thesis using new at reconnect_step_appends [of pc res t] unfolding will_be_told_def t' reconnect_step_keeps by auto
  next
    case ReconnectPanics
    then show ?thesis using new at step reconnect_panics_keeps by (fastforce simp: will_be_told_def split: option.splits)
  next
    case (SessionClose action r now)
    then show ?thesis using new at step
      by (auto simp: will_be_told_def on_session_close_def reconnection_needed_def split: leave_action.splits if_splits)
  next
    case (CloseCalled r)
    then show ?thesis using new at step by (auto simp: will_be_told_def)
  qed (use e in simp)
qed

lemma will_be_told_run:
  "engine_run es t = Some t' \<Longrightarrow> will_be_told reason s t \<Longrightarrow> \<forall>i. CloserPanics i \<notin> set es \<Longrightarrow> will_be_told reason s t'"
proof (induction es arbitrary: t)
  case (Cons e es)
  from Cons.prems(1) obtain t1 where t1: "engine_apply e t = Some t1" "engine_run es t1 = Some t'" by (rule run_enabled_ConsE)
  have "\<forall>i. e \<noteq> CloserPanics i" "\<forall>i. CloserPanics i \<notin> set es" using Cons.prems(3) by auto
  then show ?case using Cons.IH [OF t1(2)] will_be_told_apply [OF Cons.prems(2) t1(1)] by blast
qed simp

section \<open>A reconnect task that has panicked\<close>

definition gave_up :: "'j engine \<Rightarrow> 'j engine \<Rightarrow> bool" where
  "gave_up s t \<longleftrightarrow> eg_reconnecting t \<and> eg_reconnect t = None \<and> (\<exists>rs. eg_events t = eg_events s @ map Disconnected rs)"

lemma gave_up_apply: "gave_up s t \<Longrightarrow> engine_apply e t = Some t' \<Longrightarrow> gave_up s t'"
proof (cases e)
  case (CloserStep i)
  assume "gave_up s t" "engine_apply e t = Some t'"
  then show ?thesis using CloserStep
    by (auto simp: gave_up_def close_begin_def split: if_splits engine_close_pc.splits intro: exI [of _ "_ @ [_]"])
qed (auto simp: gave_up_def on_session_close_def reconnection_needed_def dest!: session_close_panics_effect
    split: if_splits leave_action.splits engine_close_pc.splits)

section \<open>Joining with retries\<close>

lemma connect_loop_ok:
  "connect_loop attempt i n le = Some (Inr r) \<longleftrightarrow>
    (\<exists>j<n. attempt (i + j) = Inr r \<and> (\<forall>k<j. \<exists>e. attempt (i + k) = Inl e))"
proof (induction n arbitrary: i le)
  case 0
  then show ?case by (simp split: option.splits)
next
  case (Suc n)
  show ?case
  proof (cases "attempt i")
    case (Inl e)
    have "(\<exists>j<Suc n. attempt (i + j) = Inr r \<and> (\<forall>k<j. \<exists>e. attempt (i + k) = Inl e)) \<longleftrightarrow>
        (\<exists>j<n. attempt (i + 1 + j) = Inr r \<and> (\<forall>k<j. \<exists>e. attempt (i + 1 + k) = Inl e))"
      (is "?L \<longleftrightarrow> ?R")
    proof
      assume ?L
      then obtain j where j: "j < Suc n" "attempt (i + j) = Inr r" "\<forall>k<j. \<exists>e. attempt (i + k) = Inl e" by blast
      then obtain j' where "j = Suc j'" using Inl by (cases j) simp_all
      then show ?R using j by (intro exI [of _ j']) (auto dest: spec [of _ "Suc _"])
    next
      assume ?R
      then obtain j where j: "j < n" "attempt (i + 1 + j) = Inr r" "\<forall>k<j. \<exists>e. attempt (i + 1 + k) = Inl e" by blast
      then show ?L using Inl by (intro exI [of _ "Suc j"]) (auto simp: less_Suc_eq_0_disj)
    qed
    then show ?thesis using Inl Suc.IH by simp
  next
    case (Inr r')
    then show ?thesis by (fastforce intro: exI [of _ 0])
  qed
qed

lemma connect_loop_err:
  "connect_loop attempt i n le = Some (Inl e) \<longleftrightarrow>
    (\<forall>j<n. \<exists>e. attempt (i + j) = Inl e) \<and> (if n = 0 then le = Some e else attempt (i + (n - 1)) = Inl e)"
proof (induction n arbitrary: i le)
  case 0
  then show ?case by (simp split: option.splits)
next
  case (Suc n)
  show ?case
  proof (cases "attempt i")
    case (Inl e')
    have "(\<forall>j<Suc n. \<exists>e. attempt (i + j) = Inl e) \<longleftrightarrow> (\<forall>j<n. \<exists>e. attempt (i + 1 + j) = Inl e)"
      using Inl by (auto simp: less_Suc_eq_0_disj)
    then show ?thesis using Inl Suc.IH by (cases n) auto
  next
    case (Inr r)
    then show ?thesis by (auto dest: spec [of _ 0])
  qed
qed

lemma connect_loop_none: "connect_loop attempt i n le = None \<longleftrightarrow> n = 0 \<and> le = None"
  by (induction n arbitrary: i le) (auto split: sum.splits option.splits)

section \<open>Properties\<close>

text \<open>
  C14: Every reconnect ends in news for the room, or in a panic.  When a reconnect task is gone, then since it was spawned either exactly
  one recovery (resumed or restarted) was announced, or none was, the engine is closed and the disconnection was
  announced; unless the task has panicked, because the session it closed, resumed or connected panicked.  Then no recovery was
  announced, and whatever happens later no reconnect is ever started again and the room is sent nothing but disconnections.
\<close>

theorem reconnect_outcome:
  assumes "engine_reachable s" and "eg_cycle_start s = Some k" and "eg_reconnect s = None"
  shows "(\<not> eg_panicked s \<longrightarrow>
      length (filter recovered (drop k (eg_events s))) = 1 \<or>
      filter recovered (drop k (eg_events s)) = [] \<and> Disconnected UnknownReason \<in> set (drop k (eg_events s)) \<and> eg_closed s)
    \<and> (eg_panicked s \<longrightarrow>
      filter recovered (drop k (eg_events s)) = [] \<and>
      (\<forall>es s'. engine_run es s = Some s' \<longrightarrow> eg_reconnect s' = None \<and> (\<exists>rs. eg_events s' = eg_events s @ map Disconnected rs)))"
proof -
  have inv: "engine_inv s" using egm.reachable_inv [OF assms(1)] .
  have "gave_up s s" if "eg_panicked s" using inv that assms(3) by (simp add: gave_up_def engine_inv_def exI [of _ "[]"])
  then have "gave_up s s'" if "eg_panicked s" "engine_run es s = Some s'" for es s'
    by (rule run_enabled_inv [OF that(2) _ gave_up_apply]) (use that(1) in simp)
  then have "\<forall>es s'. engine_run es s = Some s' \<longrightarrow> eg_reconnect s' = None \<and> (\<exists>rs. eg_events s' = eg_events s @ map Disconnected rs)"
    if "eg_panicked s" using that unfolding gave_up_def by blast
  moreover have "since_start s = drop k (eg_events s)" by (simp add: since_start_def assms(2))
  moreover have "told_ok None s" using inv assms(3) unfolding engine_inv_def by metis
  ultimately show ?thesis using assms(2) by (cases "eg_panicked s") simp_all
qed

text \<open>A full reconnect that finds a panicked task in the old session: the flag stays, and a session that closes later starts nothing.\<close>

theorem reconnect_outcome_witness:
  "\<exists>s s' :: unit engine. engine_run
      [SessionClose Reconnect ServerShutdown True, ReconnectStep (Inr ()), ReconnectStep (Inr ()), ReconnectPanics] engine_new = Some s \<and>
    eg_events s = [Restarting] \<and> eg_reconnecting s \<and> engine_run [SessionClose Reconnect ServerShutdown True] s = Some s' \<and> eg_reconnect s' = None"
proof -
  obtain s :: "unit engine" where s: "engine_run
      [SessionClose Reconnect ServerShutdown True, ReconnectStep (Inr ()), ReconnectStep (Inr ()), ReconnectPanics] engine_new = Some s"
    "eg_cycle_start s = Some 0" "eg_reconnect s = None" "eg_panicked s" "eg_events s = [Restarting]" "eg_reconnecting s"
    by (simp add: engine_new_def on_session_close_def reconnection_needed_def RECONNECT_ATTEMPTS_def emit_def goto_def reconnect_died_def
        session_close_panics_def)
  obtain s' where s': "engine_run [SessionClose Reconnect ServerShutdown True] s = Some s'" by simp
  from reconnect_outcome [OF run_enabled_reachable [OF reachable_start s(1)] s(2,3)] s(4) s'
  have "eg_reconnect s' = None" by blast
  then show ?thesis using s s' by blast
qed

text \<open>
  C15: A reconnect terminates.  From any reachable state in which a reconnect task exists, whatever the other tasks do in between and
  whatever its attempts return, the task has finished within 59 of its own steps.
\<close>

theorem reconnect_terminates:
  assumes "engine_reachable s" and "eg_reconnect s \<noteq> None" and "engine_run es s = Some s'"
    and "59 \<le> length (filter is_reconnect_step es)"
  shows "\<exists>n t. n \<le> length es \<and> engine_run (take n es) s = Some t \<and> eg_reconnect t = None"
proof -
  have inv: "engine_inv s" using egm.reachable_inv [OF assms(1)] .
  from assms(2) obtain pc where pc: "eg_reconnect s = Some pc" by blast
  have "reconnect_rank pc \<le> 59" using inv pc by (cases pc) (auto simp: engine_inv_def RECONNECT_ATTEMPTS_def)
  then show ?thesis using reconnect_ends_within [OF inv pc assms(3)] assms(4) by simp
qed

text \<open>Ten resumes in a row take sixty steps of reconnect tasks.\<close>

definition resume_once :: "unit engine_input list" where
  "resume_once = SessionClose Resume SignalCloseReason False # replicate 6 (ReconnectStep (Inr ()))"

definition at_rest :: "'j engine \<Rightarrow> bool" where
  "at_rest s \<longleftrightarrow> eg_can_reconnect s \<and> \<not> eg_reconnecting s \<and> eg_reconnect s = None \<and> \<not> eg_closed s"

lemma resume_once_run:
  assumes "at_rest s"
  shows "\<exists>s'. engine_run resume_once s = Some s' \<and> at_rest s'"
  using assms
  by (auto simp: at_rest_def resume_once_def numeral_eq_Suc on_session_close_def reconnection_needed_def RECONNECT_ATTEMPTS_def emit_def goto_def)

lemma resume_many_run:
  "at_rest s \<Longrightarrow> \<exists>s'. engine_run (concat (replicate n resume_once)) s = Some s' \<and> at_rest s'"
proof (induction n arbitrary: s)
  case 0
  then show ?case by simp
next
  case (Suc n)
  from resume_once_run [OF Suc.prems] obtain s1 where s1: "engine_run resume_once s = Some s1" "at_rest s1" by blast
  from Suc.IH [OF s1(2)] s1(1) show ?case by (simp add: run_enabled_append)
qed

lemma resume_many_steps: "length (filter is_reconnect_step (concat (replicate n resume_once))) = 6 * n"
  by (induction n) (simp_all add: resume_once_def numeral_eq_Suc)

theorem reconnect_terminates_witness:
  "\<exists>s es n t. engine_run [SessionClose Resume SignalCloseReason False] engine_new = Some s \<and>
    length (filter is_reconnect_step es) = 60 \<and> engine_run (take n es) s = Some (t :: unit engine) \<and> eg_reconnect t = None"
proof -
  let ?es = "tl (concat (replicate 10 resume_once))"
  have es: "concat (replicate 10 resume_once) = SessionClose Resume SignalCloseReason False # ?es"
    by (simp add: numeral_eq_Suc resume_once_def)
  obtain s :: "unit engine" where s: "engine_run [SessionClose Resume SignalCloseReason False] engine_new = Some s" "eg_reconnect s \<noteq> None"
    by (simp add: engine_new_def on_session_close_def reconnection_needed_def)
  have "at_rest (engine_new :: unit engine)" by (simp add: at_rest_def engine_new_def)
  from resume_many_run [OF this, of 10] obtain s' where "engine_run (concat (replicate 10 resume_once)) engine_new = Some s'" by blast
  then have run: "engine_run ?es s = Some s'" using s(1) by (subst (asm) es) simp
  have n: "length (filter is_reconnect_step ?es) = 60"
    using resume_many_steps [of 10] by (subst (asm) es) simp
  from reconnect_terminates [OF run_enabled_reachable [OF reachable_start s(1)] s(2) run] n obtain n t
    where "engine_run (take n ?es) s = Some t" "eg_reconnect t = None" by auto
  with s(1) n show ?thesis by blast
qed

text \<open>
  No resume after a failed attempt.  Once a reconnect task is between two attempts, every later attempt of the same task is a
  full reconnect: no event of a resume is sent any more, whatever sessions report meanwhile.
\<close>

theorem escalation_is_final:
  assumes "engine_reachable s" and "eg_reconnect s = Some (RpTick i)" and "engine_run es s = Some s'"
    and "eg_cycle_start s' = eg_cycle_start s"
  shows "filter is_resume (drop (length (eg_events s)) (eg_events s')) = []"
proof -
  have inv: "engine_inv s" using egm.reachable_inv [OF assms(1)] .
  then obtain k where k: "eg_cycle_start s = Some k" using assms(2) by (auto simp: engine_inv_def)
  then have "escalated k (length (eg_events s)) s" using inv assms(2) by (simp add: escalated_def engine_inv_def)
  from escalated_run [OF this inv assms(3)] show ?thesis using assms(4) k by (auto simp: escalated_def)
qed

theorem escalation_is_final_witness:
  "\<exists>s s' :: unit engine. engine_run
      [SessionClose Resume SignalCloseReason False, ReconnectStep (Inr ()), ReconnectStep (Inr ()), ReconnectStep (Inl RtcFailure)] engine_new = Some s \<and>
    engine_run
      [SessionClose Resume SignalCloseReason False, ReconnectStep (Inr ()), ReconnectStep (Inr ()), ReconnectStep (Inr ()), ReconnectStep (Inr ()),
       ReconnectStep (Inr ())] s = Some s' \<and>
    filter is_resume (drop (length (eg_events s)) (eg_events s')) = [] \<and> length (eg_events s') = 2"
proof -
  obtain s :: "unit engine" where s: "engine_run
      [SessionClose Resume SignalCloseReason False, ReconnectStep (Inr ()), ReconnectStep (Inr ()), ReconnectStep (Inl RtcFailure)] engine_new = Some s"
    "eg_reconnect s = Some (RpTick 1)" "eg_can_reconnect s" "eg_reconnecting s" "eg_full_reconnect s" "\<not> eg_closed s"
    "eg_events s = [Resuming]" "eg_cycle_start s = Some 0"
    by (simp add: engine_new_def on_session_close_def reconnection_needed_def RECONNECT_ATTEMPTS_def emit_def goto_def resume_failed_def attempt_failed_def)
  obtain s' where s': "engine_run
      [SessionClose Resume SignalCloseReason False, ReconnectStep (Inr ()), ReconnectStep (Inr ()), ReconnectStep (Inr ()), ReconnectStep (Inr ()),
       ReconnectStep (Inr ())] s = Some s'" "eg_cycle_start s' = eg_cycle_start s" "length (eg_events s') = 2"
    using s(2-8) by (simp add: on_session_close_def reconnection_needed_def RECONNECT_ATTEMPTS_def)
  from escalation_is_final [OF run_enabled_reachable [OF reachable_start s(1)] s(2) s'(1,2)] s(1) s' show ?thesis by blast
qed

text \<open>
  C16: No reconnect after being told to leave.  When the server tells the client to leave, in a message of the session or as the answer to an
  attempt to reconnect, then whatever happens afterwards no reconnect task is started any more.  If no task was running, or if its
  attempt was the one that was told, the room is sent nothing but disconnections from then on, and the task does not try again.  And if a
  message said it, and no call of close panics, the reason that it gave has reached the room once all calls of close have ended.
\<close>

theorem no_reconnect_after_leave:
  assumes "told_to_leave e s" and "engine_apply e s = Some s1" and "engine_run es s1 = Some s'"
  shows "\<not> eg_can_reconnect s' \<and> eg_cycle_start s' = eg_cycle_start s
    \<and> (eg_reconnect s = None \<or> is_reconnect_step e \<longrightarrow>
        leaving (eg_reconnect s') \<and> (\<exists>rs. eg_events s' = eg_events s @ map Disconnected rs))
    \<and> (\<forall>reason now. e = SessionClose Disconnect reason now \<and> (\<forall>i. CloserPanics i \<notin> set es) \<and> eg_closers s' = [] \<longrightarrow>
        Disconnected reason \<in> set (drop (length (eg_events s)) (eg_events s')))"
proof -
  have first: "no_new_cycle s s1" using assms(1,2)
    by (cases "(e, s)" rule: told_to_leave.cases)
      (auto simp: no_new_cycle_def on_session_close_def reconnect_step_keeps attempt_failed_def resume_failed_def
        elim!: attempting.elims split: option.splits)
  have quiet: "only_disconnects s s1" if "eg_reconnect s = None \<or> is_reconnect_step e"
    using assms(1,2) that
    by (cases "(e, s)" rule: told_to_leave.cases)
      (auto simp: only_disconnects_def on_session_close_def attempt_failed_def resume_failed_def
        elim!: attempting.elims split: option.splits intro!: exI [of _ "[]"])
  have cycle: "no_new_cycle s s'" using run_enabled_inv [OF assms(3), of "no_new_cycle s"] first no_new_cycle_apply by blast
  have disconnects: "only_disconnects s s'" if "eg_reconnect s = None \<or> is_reconnect_step e"
    using run_enabled_inv [OF assms(3), of "\<lambda>t. no_new_cycle s t \<and> only_disconnects s t"] first quiet [OF that]
      no_new_cycle_apply only_disconnects_apply by blast
  have "will_be_told reason s s'" if "e = SessionClose Disconnect reason now" "\<forall>i. CloserPanics i \<notin> set es" for reason now
  proof -
    have "will_be_told reason s s1" using assms(2) that(1) by (auto simp: will_be_told_def on_session_close_def)
    then show ?thesis using will_be_told_run assms(3) that(2) by blast
  qed
  then show ?thesis using cycle disconnects by (auto simp: no_new_cycle_def only_disconnects_def will_be_told_def)
qed

theorem no_reconnect_after_leave_witness:
  "\<exists>s' :: unit engine. engine_run [SessionClose Disconnect RoomDeleted True, SessionClose Reconnect ServerShutdown True, CloserStep 0, CloserStep 0,
      SessionClose Resume UnknownReason False] engine_new = Some s' \<and>
    \<not> eg_can_reconnect s' \<and> eg_cycle_start s' = None \<and> Disconnected RoomDeleted \<in> set (eg_events s')"
proof -
  let ?e = "SessionClose Disconnect RoomDeleted True" and ?s = "engine_new :: unit engine"
  let ?es = "[SessionClose Reconnect ServerShutdown True, CloserStep 0, CloserStep 0, SessionClose Resume UnknownReason False]"
  obtain s1 where s1: "engine_apply ?e ?s = Some s1" "\<not> eg_can_reconnect s1" "eg_closers s1 = [CloseBegin RoomDeleted]" "eg_events s1 = []"
    by (simp add: engine_new_def on_session_close_def)
  obtain s' where s': "engine_run ?es s1 = Some s'" "eg_closers s' = []"
    using s1(2-4) by (simp add: on_session_close_def close_begin_def)
  have told: "told_to_leave ?e ?s" by simp
  have no_panic: "\<forall>i. CloserPanics i \<notin> set ?es" by simp
  from no_reconnect_after_leave [OF told s1(1) s'(1)] no_panic s'(2)
  have "\<not> eg_can_reconnect s' \<and> eg_cycle_start s' = None \<and> Disconnected RoomDeleted \<in> set (eg_events s')"
    by (auto simp: engine_new_def)
  moreover have "engine_run (?e # ?es) ?s = Some s'" using s1(1) s'(1) by (simp only: run_enabled.simps(2) option.case)
  ultimately show ?thesis by blast
qed

text \<open>
  An operation that waits for the connection gets a live session.  When waiting succeeds, the session it gets is the one whose
  engine task runs, and the only one that is open, unless the reconnect task has panicked.
\<close>

theorem wait_gives_live_session:
  assumes "engine_reachable s" and "wait_reconnection s = Some (Inr n)" and "\<not> eg_panicked s"
  shows "\<not> eg_closed s \<and> eg_engine_task s = Some n \<and> eg_open s = [n]"
  using egm.reachable_inv [OF assms(1)] assms(2,3)
  by (auto simp: engine_inv_def wait_reconnection_def split: if_splits)

theorem wait_gives_live_session_witness:
  "\<exists>s :: unit engine. engine_run
      [SessionClose Reconnect ServerShutdown True, ReconnectStep (Inr ()), ReconnectStep (Inr ()), ReconnectStep (Inr ()), ReconnectStep (Inr ()),
       ReconnectStep (Inr ()), ReconnectStep (Inr ()), ReconnectStep (Inr ())] engine_new = Some s \<and> eg_open s = [1]"
proof -
  obtain s :: "unit engine" where s: "engine_run
      [SessionClose Reconnect ServerShutdown True, ReconnectStep (Inr ()), ReconnectStep (Inr ()), ReconnectStep (Inr ()), ReconnectStep (Inr ()),
       ReconnectStep (Inr ()), ReconnectStep (Inr ()), ReconnectStep (Inr ())] engine_new = Some s" "wait_reconnection s = Some (Inr 1)" "\<not> eg_panicked s"
    by (simp add: engine_new_def on_session_close_def reconnection_needed_def RECONNECT_ATTEMPTS_def emit_def goto_def take_engine_task_def
        wait_reconnection_def)
  from wait_gives_live_session [OF run_enabled_reachable [OF reachable_start s(1)] s(2,3)] s(1) show ?thesis by blast
qed

text \<open>
  Joining with retries.  Joining returns the first attempt that succeeds, or the error of the last one, among one more attempts than
  retries; it panics exactly if the number of retries is the largest 32-bit number.
\<close>

theorem engine_connect_correct:
  "(engine_connect max_retries attempt = None \<longleftrightarrow> max_retries = - 1) \<and>
   (engine_connect max_retries attempt = Some (Inr r) \<longleftrightarrow>
      max_retries \<noteq> - 1 \<and> (\<exists>j\<le>unat max_retries. attempt j = Inr r \<and> (\<forall>k<j. \<exists>e. attempt k = Inl e))) \<and>
   (engine_connect max_retries attempt = Some (Inl e) \<longleftrightarrow>
      max_retries \<noteq> - 1 \<and> (\<forall>j\<le>unat max_retries. \<exists>e. attempt j = Inl e) \<and> attempt (unat max_retries) = Inl e)"
proof (cases "max_retries = - 1")
  case True
  then show ?thesis by (simp add: engine_connect_def)
next
  case False
  have "unat max_retries \<noteq> 2 ^ 32 - 1" using False word_unat_eq_iff [of max_retries "- 1"] by (simp add: unsigned_minus_1_eq_mask mask_eq_exp_minus_1)
  moreover have "unat max_retries < 2 ^ 32" using unsigned_less [of max_retries] by simp
  ultimately have n: "unat (max_retries + 1) = Suc (unat max_retries)" by (simp add: unat_word_ariths)
  show ?thesis
    using connect_loop_none [of attempt 0 "Suc (unat max_retries)" None] connect_loop_ok [of attempt 0 "Suc (unat max_retries)" None r]
      connect_loop_err [of attempt 0 "Suc (unat max_retries)" None e] False
    by (simp add: engine_connect_def n less_Suc_eq_le)
qed

text \<open>Two retries, of which the first succeeds.\<close>

theorem engine_connect_correct_witness:
  "engine_connect 2 (\<lambda>i. if i = 1 then Inr ''joined'' else Inl RtcFailure) = Some (Inr ''joined'')"
proof -
  have "(\<exists>j\<le>unat (2 :: u32). (if j = 1 then Inr ''joined'' else Inl RtcFailure) = (Inr ''joined'' :: engine_error + string) \<and>
      (\<forall>k<j. \<exists>e. (if k = 1 then Inr ''joined'' else Inl RtcFailure) = (Inl e :: engine_error + string)))"
    by (rule exI [of _ 1]) simp
  then show ?thesis
    using conjunct1 [OF conjunct2 [OF engine_connect_correct [of 2 "\<lambda>i. if i = 1 then Inr ''joined'' else Inl RtcFailure" "''joined''"]]] by simp
qed

lemma close_during_restart:
  fixes j :: 'j
  shows "\<exists>s :: 'j engine. engine_reachable s \<and> eg_closed s \<and> eg_closers s = [] \<and> eg_reconnect s = None \<and>
    eg_open s = [1] \<and> eg_engine_task s = Some 1 \<and> eg_events s = [Restarting, SignalRestarted j, Disconnected ClientInitiated, Restarted]"
proof -
  let ?es = "[SessionClose Reconnect ServerShutdown True, ReconnectStep (Inr j), ReconnectStep (Inr j), ReconnectStep (Inr j), ReconnectStep (Inr j)]"
  let ?fs = "[CloseCalled ClientInitiated, CloserStep 0, CloserStep 0, ReconnectStep (Inr j), ReconnectStep (Inr j), ReconnectStep (Inr j)]"
  obtain s :: "'j engine" where s: "engine_run ?es engine_new = Some s" "\<not> eg_closed s" "eg_closers s = []" "eg_reconnect s = Some (RpWaitPc 1 1)"
    "eg_open s = [1]" "eg_engine_task s = None" "eg_events s = [Restarting, SignalRestarted j]"
    by (simp add: engine_new_def on_session_close_def reconnection_needed_def RECONNECT_ATTEMPTS_def emit_def goto_def take_engine_task_def)
  obtain s' where s': "engine_run ?fs s = Some s'" "eg_closed s'" "eg_closers s' = []" "eg_reconnect s' = None"
    "eg_open s' = [1]" "eg_engine_task s' = Some 1" "eg_events s' = [Restarting, SignalRestarted j, Disconnected ClientInitiated, Restarted]"
    using s(2-7) by (simp add: close_begin_def)
  then show ?thesis using run_enabled_reachable [OF run_enabled_reachable [OF reachable_start s(1)] s'(1)] by blast
qed

text \<open>
  A close during a full reconnect leaves a session open.  There is a reachable state in which the engine has been closed and
  has announced it, no close and no reconnect is under way, and yet a session is open with a running engine task and
  the last news of the room is that the connection was restarted.
\<close>

theorem close_leaves_session_open:
  "\<exists>s :: unit engine. engine_reachable s \<and> eg_closed s \<and> eg_closers s = [] \<and> eg_reconnect s = None \<and>
    eg_open s = [1] \<and> eg_engine_task s = Some 1 \<and> eg_events s = [Restarting, SignalRestarted (), Disconnected ClientInitiated, Restarted]"
  by (rule close_during_restart)

end
