(* ===== verification/LkParticipant.thy ===== *)
theory LkParticipant
  imports LkUtils LkDataStream LkEngine
begin

text \<open>
  Remote participants and their track publications (\<open>livekit/src/room/participant/\<close> and
  \<open>livekit/src/room/publication/\<close>): the information the server sends and the events its changes raise, publishing and
  unpublishing tracks, subscribing, and the encryption status.  The handlers a room registers with a participant turn
  into room events that name the participant by its identity.  Media tracks are numbers.  An \<open>unwrap\<close> of nothing is
  the value \<open>None\<close>; the state such a panic leaves behind is not modelled.
\<close>

section \<open>What the server sends\<close>

datatype proto_track_type = AudioTrack | VideoTrack | DataTrack
datatype track_kind = Audio | Video
datatype participant_state = PsJoining | PsJoined | PsActive | PsDisconnected
datatype participant_kind = Standard | Ingress | Egress | Sip | Agent | Connector | Bridge
datatype kind_detail = CloudAgent | Forwarded | ConnectorWhatsapp | ConnectorTwilio | BridgeRtsp
datatype connection_quality = Excellent | Good | Poor | Lost

fun track_kind_try_from :: "proto_track_type \<Rightarrow> track_kind option" where
  "track_kind_try_from AudioTrack = Some Audio"
| "track_kind_try_from VideoTrack = Some Video"
| "track_kind_try_from DataTrack = None"

definition PARTICIPANT_PREFIX :: string where "PARTICIPANT_PREFIX = ''PA_''"
definition TRACK_PREFIX :: string where "TRACK_PREFIX = ''TR_''"
definition ROOM_PREFIX :: string where "ROOM_PREFIX = ''RM_''"

definition from_prefix :: "string \<Rightarrow> string \<Rightarrow> string option" where
  "from_prefix pre s = (if take (length pre) s = pre then Some s else None)"

record track_info =
  ti_sid :: string
  ti_name :: string
  ti_type :: proto_track_type
  ti_muted :: bool
  ti_encryption :: stream_encryption
  ti_mime_type :: string
  ti_dimension :: "u32 \<times> u32"
  ti_simulcast :: bool
  ti_layers :: nat
  ti_codec_layers :: "nat list"

record participant_info =
  pi_sid :: string
  pi_identity :: string
  pi_name :: string
  pi_state :: participant_state
  pi_metadata :: string
  pi_attributes :: "(string, string) hashmap"
  pi_permission :: "nat option"
  pi_kind :: participant_kind
  pi_kind_details :: "kind_detail list"
  pi_reason :: disconnect_reason
  pi_joined_at :: int
  pi_tracks :: "track_info list"

section \<open>Publications\<close>

record publication =
  pb_sid :: string
  pb_name :: string
  pb_kind :: track_kind
  pb_muted :: bool
  pb_encryption :: stream_encryption
  pb_mime_type :: string
  pb_dimension :: "u32 \<times> u32"
  pb_simulcasted :: bool
  pb_track :: "nat option"
  pb_subscribed :: bool
  pb_allowed :: bool

datatype subscription_status = Desired | Subscribed | Unsubscribed

definition is_simulcasted :: "track_info \<Rightarrow> bool" where
  "is_simulcasted ti \<longleftrightarrow> ti_simulcast ti \<or> 1 < ti_layers ti \<or> list_ex (\<lambda>n. 1 < n) (ti_codec_layers ti)"

definition publication_new :: "track_info \<Rightarrow> bool \<Rightarrow> publication option" where
  "publication_new ti auto_subscribe =
     (case (track_kind_try_from (ti_type ti), from_prefix TRACK_PREFIX (ti_sid ti)) of
        (Some kind, Some sid) \<Rightarrow>
          Some \<lparr>pb_sid = sid, pb_name = ti_name ti, pb_kind = kind, pb_muted = ti_muted ti, pb_encryption = ti_encryption ti,
                pb_mime_type = ti_mime_type ti, pb_dimension = ti_dimension ti, pb_simulcasted = is_simulcasted ti,
                pb_track = None, pb_subscribed = auto_subscribe, pb_allowed = True\<rparr>
      | _ \<Rightarrow> None)"

text \<open>The update of a remote publication, with the mute event it fires: muted (\<open>True\<close>) or unmuted.\<close>

definition publication_update_info :: "track_info \<Rightarrow> publication \<Rightarrow> (publication \<times> bool list) option" where
  "publication_update_info ti pb =
     (case (track_kind_try_from (ti_type ti), from_prefix TRACK_PREFIX (ti_sid ti)) of
        (Some kind, Some sid) \<Rightarrow>
          Some (pb\<lparr>pb_sid := sid, pb_name := ti_name ti, pb_kind := kind, pb_muted := ti_muted ti, pb_encryption := ti_encryption ti,
                   pb_mime_type := ti_mime_type ti, pb_dimension := ti_dimension ti, pb_simulcasted := is_simulcasted ti\<rparr>,
                if pb_muted pb \<noteq> ti_muted ti then [ti_muted ti] else [])
      | _ \<Rightarrow> None)"

definition subscription_status_of :: "publication \<Rightarrow> subscription_status" where
  "subscription_status_of pb =
     (if \<not> pb_subscribed pb then Unsubscribed else if pb_track pb = None then Desired else Subscribed)"

datatype publication_event =
    PubUnsubscribed nat | PubSubscribed nat | PubStatusChanged subscription_status subscription_status | PubUpdateNeeded bool

definition emit_subscription_update :: "subscription_status \<Rightarrow> publication \<Rightarrow> publication_event list" where
  "emit_subscription_update old pb =
     (if old \<noteq> subscription_status_of pb then [PubStatusChanged old (subscription_status_of pb)] else [])"

text \<open>The track given to \<open>set_track\<close> was made with the publication's own identifier, which therefore does not change.\<close>

definition set_track :: "nat option \<Rightarrow> publication \<Rightarrow> publication \<times> publication_event list" where
  "set_track track pb =
     (let old = subscription_status_of pb;
          unsub = (case pb_track pb of Some t \<Rightarrow> [PubUnsubscribed t] | None \<Rightarrow> []);
          pb' = pb\<lparr>pb_track := track\<rparr>;
          sub = (case track of Some t \<Rightarrow> [PubSubscribed t] | None \<Rightarrow> [])
      in (pb', unsub @ sub @ emit_subscription_update old pb'))"

definition set_subscribed :: "bool \<Rightarrow> publication \<Rightarrow> publication \<times> publication_event list" where
  "set_subscribed subscribed pb =
     (let old = subscription_status_of pb;
          pb1 = pb\<lparr>pb_subscribed := subscribed, pb_allowed := pb_allowed pb \<or> subscribed\<rparr>;
          (pb2, out) = (if subscribed then (pb1, []) else set_track None pb1)
      in (pb2, out @ [PubUpdateNeeded subscribed] @ emit_subscription_update old pb2))"

section \<open>Participants\<close>

text \<open>
  The level of a speaker is a 32-bit float of which only the order matters: an integer, or \<open>None\<close> for not a number.
\<close>

record participant =
  pt_sid :: string
  pt_identity :: string
  pt_name :: string
  pt_state :: participant_state
  pt_metadata :: string
  pt_attributes :: "(string, string) hashmap"
  pt_speaking :: bool
  pt_audio_level :: "int option"
  pt_quality :: connection_quality
  pt_kind :: participant_kind
  pt_kind_details :: "kind_detail list"
  pt_reason :: disconnect_reason
  pt_joined_at :: int
  pt_permission :: "nat option"
  pt_publications :: "(string, publication) hashmap"
  pt_is_encrypted :: bool
  pt_is_data_encrypted :: "bool option"

datatype connection_state = StDisconnected | StConnected | StReconnecting

datatype room_event =
    ParticipantConnected string | ParticipantDisconnected string | ParticipantActive string | ParticipantsUpdated "string list"
  | TrackPublished string string | TrackUnpublished string string
  | TrackSubscribed string string nat | TrackUnsubscribed string string nat
  | TrackSubscriptionFailed string string
  | TrackMuted string string | TrackUnmuted string string
  | NameChanged string string string | MetadataChanged string string string
  | AttributesChanged string "(string, string) hashmap" | PermissionChanged string "nat option"
  | EncryptionStatusChanged string bool
  | ActiveSpeakersChanged "string list" | QualityChanged string connection_quality
  | ConnectionStateChanged connection_state | RoomReconnecting | RoomReconnected | RoomDisconnected disconnect_reason

definition participant_new ::
  "participant_kind \<Rightarrow> kind_detail list \<Rightarrow> string \<Rightarrow> string \<Rightarrow> string \<Rightarrow> participant_state \<Rightarrow> string \<Rightarrow> (string, string) hashmap \<Rightarrow> int \<Rightarrow>
     nat option \<Rightarrow> participant" where
  "participant_new kind details sid identity nm state metadata attributes joined_at permission =
     \<lparr>pt_sid = sid, pt_identity = identity, pt_name = nm, pt_state = state, pt_metadata = metadata, pt_attributes = attributes,
      pt_speaking = False, pt_audio_level = Some 0, pt_quality = Excellent, pt_kind = kind, pt_kind_details = details,
      pt_reason = UnknownReason, pt_joined_at = joined_at, pt_permission = permission, pt_publications = [],
      pt_is_encrypted = False, pt_is_data_encrypted = None\<rparr>"

text \<open>The part of the update that local and remote participants share.\<close>

definition pt_update_info :: "participant_info \<Rightarrow> participant \<Rightarrow> (participant \<times> room_event list) option" where
  "pt_update_info info p =
     (case from_prefix PARTICIPANT_PREFIX (pi_sid info) of
        None \<Rightarrow> None
      | Some sid \<Rightarrow>
          let i = pi_identity info;
              changed = calculate_changed_attributes (pt_attributes p) (pi_attributes info)
          in Some
            (p\<lparr>pt_state := pi_state info, pt_reason := pi_reason info, pt_kind := pi_kind info, pt_kind_details := pi_kind_details info,
               pt_sid := sid, pt_identity := i, pt_joined_at := pi_joined_at info, pt_name := pi_name info, pt_metadata := pi_metadata info,
               pt_attributes := pi_attributes info, pt_permission := pi_permission info\<rparr>,
             (if pt_name p \<noteq> pi_name info then [NameChanged i (pt_name p) (pi_name info)] else []) @
             (if pt_metadata p \<noteq> pi_metadata info then [MetadataChanged i (pt_metadata p) (pi_metadata info)] else []) @
             (if changed \<noteq> [] then [AttributesChanged i changed] else []) @
             (if pt_permission p \<noteq> pi_permission info then [PermissionChanged i (pi_permission info)] else [])))"

definition encrypted_now :: "participant \<Rightarrow> bool" where
  "encrypted_now p \<longleftrightarrow>
     pt_publications p \<noteq> [] \<and> list_all (\<lambda>(_, pb). pb_encryption pb \<noteq> NoEncryption) (pt_publications p) \<and>
     (case pt_is_data_encrypted p of Some data_encrypted \<Rightarrow> data_encrypted | None \<Rightarrow> True)"

definition update_encryption_status :: "participant \<Rightarrow> participant \<times> room_event list" where
  "update_encryption_status p =
     (if pt_is_encrypted p \<noteq> encrypted_now p
      then (p\<lparr>pt_is_encrypted := encrypted_now p\<rparr>, [EncryptionStatusChanged (pt_identity p) (encrypted_now p)])
      else (p, []))"

definition update_data_encryption_status :: "bool \<Rightarrow> participant \<Rightarrow> participant \<times> room_event list" where
  "update_data_encryption_status is_encrypted p =
     (case pt_is_data_encrypted p of
        Some current \<Rightarrow>
          if current = is_encrypted then (p, [])
          else if current \<and> \<not> is_encrypted then update_encryption_status (p\<lparr>pt_is_data_encrypted := Some False\<rparr>)
          else (p, [])
      | None \<Rightarrow> update_encryption_status (p\<lparr>pt_is_data_encrypted := Some is_encrypted\<rparr>))"

definition add_publication :: "publication \<Rightarrow> participant \<Rightarrow> participant \<times> room_event list" where
  "add_publication pb p = update_encryption_status (p\<lparr>pt_publications := hm_insert (pb_sid pb) pb (pt_publications p)\<rparr>)"

definition remove_publication :: "string \<Rightarrow> participant \<Rightarrow> participant \<times> room_event list" where
  "remove_publication sid p = update_encryption_status (p\<lparr>pt_publications := hm_remove sid (pt_publications p)\<rparr>)"

text \<open>
  The events of a publication that its participant handles while it holds the publication: the end of a subscription
  and its start.  A change of the subscription's status has no handler in the room.
\<close>

fun track_events :: "string \<Rightarrow> string \<Rightarrow> publication_event list \<Rightarrow> room_event list" where
  "track_events i sid [] = []"
| "track_events i sid (PubUnsubscribed t # es) = TrackUnsubscribed i sid t # track_events i sid es"
| "track_events i sid (PubSubscribed t # es) = TrackSubscribed i sid t # track_events i sid es"
| "track_events i sid (PubStatusChanged a b # es) = track_events i sid es"
| "track_events i sid (PubUpdateNeeded b # es) = track_events i sid es"

definition set_publication :: "string \<Rightarrow> publication \<Rightarrow> participant \<Rightarrow> participant" where
  "set_publication sid pb p = p\<lparr>pt_publications := hm_insert sid pb (pt_publications p)\<rparr>"

definition unpublish_track :: "string \<Rightarrow> participant \<Rightarrow> participant \<times> room_event list" where
  "unpublish_track sid p =
     (case hm_get (pt_publications p) sid of
        None \<Rightarrow> (p, [])
      | Some pb \<Rightarrow>
          let (pb', pes) = (if pb_track pb = None then (pb, []) else set_track None pb);
              (p', out) = remove_publication sid (set_publication sid pb' p)
          in (p', track_events (pt_identity p) sid pes @ out @ [TrackUnpublished (pt_identity p) sid]))"

fun unpublish_tracks_of :: "string list \<Rightarrow> participant \<Rightarrow> participant \<times> room_event list" where
  "unpublish_tracks_of [] p = (p, [])"
| "unpublish_tracks_of (sid # sids) p =
     (let (p, out1) = unpublish_track sid p; (p, out2) = unpublish_tracks_of sids p in (p, out1 @ out2))"

text \<open>One track of an update: its publication is updated, or it is published.\<close>

definition update_track :: "bool \<Rightarrow> track_info \<Rightarrow> participant \<Rightarrow> (participant \<times> room_event list) option" where
  "update_track auto_subscribe ti p =
     (case from_prefix TRACK_PREFIX (ti_sid ti) of
        None \<Rightarrow> None
      | Some sid \<Rightarrow>
         (case hm_get (pt_publications p) sid of
            Some pb \<Rightarrow>
             (case publication_update_info ti pb of
                None \<Rightarrow> None
              | Some (pb', mutes) \<Rightarrow>
                  Some (set_publication sid pb' p,
                        map (\<lambda>m. if m then TrackMuted (pt_identity p) sid else TrackUnmuted (pt_identity p) sid) mutes))
          | None \<Rightarrow>
             (case publication_new ti auto_subscribe of
                None \<Rightarrow> None
              | Some pb \<Rightarrow>
                  let (p', out) = add_publication pb p in Some (p', out @ [TrackPublished (pt_identity p) sid]))))"

fun update_tracks :: "bool \<Rightarrow> track_info list \<Rightarrow> participant \<Rightarrow> (participant \<times> room_event list) option" where
  "update_tracks auto_subscribe [] p = Some (p, [])"
| "update_tracks auto_subscribe (ti # tis) p =
     (case update_track auto_subscribe ti p of
        None \<Rightarrow> None
      | Some (p, out1) \<Rightarrow>
         (case update_tracks auto_subscribe tis p of None \<Rightarrow> None | Some (p, out2) \<Rightarrow> Some (p, out1 @ out2)))"

definition remote_update_info :: "bool \<Rightarrow> participant_info \<Rightarrow> participant \<Rightarrow> (participant \<times> room_event list) option" where
  "remote_update_info auto_subscribe info p =
     (case pt_update_info info p of
        None \<Rightarrow> None
      | Some (p, out1) \<Rightarrow>
         (case update_tracks auto_subscribe (pi_tracks info) p of
            None \<Rightarrow> None
          | Some (p, out2) \<Rightarrow>
              let invalid = filter (\<lambda>sid. sid \<notin> set (map ti_sid (pi_tracks info))) (hm_keys (pt_publications p));
                  (p, out3) = unpublish_tracks_of invalid p
              in Some (p, out1 @ out2 @ out3)))"

text \<open>
  A media track arrives and waits for its publication for up to five seconds: this is what happens when the wait ends.
\<close>

definition add_subscribed_media_track :: "string \<Rightarrow> nat \<Rightarrow> participant \<Rightarrow> participant \<times> room_event list" where
  "add_subscribed_media_track sid track p =
     (case hm_get (pt_publications p) sid of
        None \<Rightarrow> (p, [TrackSubscriptionFailed (pt_identity p) sid])
      | Some pb \<Rightarrow>
          let (p, out1) = add_publication pb p;
              (pb', pes) = set_track (Some track) pb
          in (set_publication (pb_sid pb) pb' p, out1 @ track_events (pt_identity p) (pb_sid pb) pes))"

section \<open>Following the events\<close>

text \<open>A listener that keeps, for every connected participant, the set of its published tracks.\<close>

type_synonym room_view = "string \<Rightarrow> string set option"

fun view_event :: "room_event \<Rightarrow> room_view \<Rightarrow> room_view" where
  "view_event (ParticipantConnected i) v = v(i := Some {})"
| "view_event (ParticipantDisconnected i) v = v(i := None)"
| "view_event (TrackPublished i t) v = v(i := map_option (insert t) (v i))"
| "view_event (TrackUnpublished i t) v = v(i := map_option (\<lambda>ts. ts - {t}) (v i))"
| "view_event _ v = v"

abbreviation view_events :: "room_event list \<Rightarrow> room_view \<Rightarrow> room_view" where
  "view_events es v \<equiv> fold view_event es v"

definition tracks_of :: "participant \<Rightarrow> string set" where
  "tracks_of p = dom (hm_get (pt_publications p))"

text \<open>Publications are kept under their own identifiers.\<close>

definition pt_inv :: "participant \<Rightarrow> bool" where
  "pt_inv p \<longleftrightarrow> hm_inv (pt_publications p) \<and> (\<forall>sid pb. hm_get (pt_publications p) sid = Some pb \<longrightarrow> pb_sid pb = sid)"

lemma tracks_of_set_publication [simp]: "tracks_of (set_publication sid pb p) = insert sid (tracks_of p)"
  by (auto simp: tracks_of_def set_publication_def dom_hm_insert split: if_splits)

lemma tracks_of_cong: "pt_publications p = pt_publications q \<Longrightarrow> tracks_of p = tracks_of q"
  by (simp add: tracks_of_def)

lemma pt_inv_set_publication [simp]: "pt_inv p \<Longrightarrow> pb_sid pb = sid \<Longrightarrow> pt_inv (set_publication sid pb p)"
  by (simp add: pt_inv_def set_publication_def)

text \<open>What an operation on a participant keeps: its identity and identifier, the invariant, and what a listener sees.\<close>

definition pt_step :: "participant \<Rightarrow> participant \<Rightarrow> room_event list \<Rightarrow> bool" where
  "pt_step p p' out \<longleftrightarrow>
     pt_identity p' = pt_identity p \<and> pt_sid p' = pt_sid p \<and> pt_state p' = pt_state p \<and> (pt_inv p \<longrightarrow> pt_inv p') \<and>
     (\<forall>v. v (pt_identity p) = Some (tracks_of p) \<longrightarrow> view_events out v = v(pt_identity p := Some (tracks_of p')))"

lemma pt_step_refl [simp]: "pt_step p p []"
  by (auto simp: pt_step_def)

lemma pt_step_trans: "pt_step p q xs \<Longrightarrow> pt_step q r ys \<Longrightarrow> pt_step p r (xs @ ys)"
  by (auto simp: pt_step_def)

definition silent :: "room_event \<Rightarrow> bool" where
  "silent e \<longleftrightarrow> (\<forall>v. view_event e v = v)"

lemma silent_simps [simp]:
  "silent (EncryptionStatusChanged i b)" "silent (TrackUnsubscribed i s t)" "silent (TrackSubscribed i s t)"
  "silent (TrackMuted i s)" "silent (TrackUnmuted i s)" "silent (NameChanged i old new)" "silent (MetadataChanged i old new)"
  "silent (AttributesChanged i c)" "silent (PermissionChanged i pm)" "silent (ParticipantActive i)" "silent (ParticipantsUpdated is)"
  "silent (TrackSubscriptionFailed i s)" "silent (QualityChanged i q)" "silent (ActiveSpeakersChanged is)"
  by (simp_all add: silent_def)

lemma view_silent: "list_all silent es \<Longrightarrow> view_events es v = v"
  by (induction es arbitrary: v) (simp_all add: silent_def)

lemma pt_step_silent:
  assumes "list_all silent out" and "pt_identity p' = pt_identity p" and "pt_sid p' = pt_sid p" and "pt_state p' = pt_state p"
    and "pt_inv p \<Longrightarrow> pt_inv p'" and "tracks_of p' = tracks_of p"
  shows "pt_step p p' out"
  using assms by (auto simp: pt_step_def view_silent)

lemma update_encryption_status_fields:
  "update_encryption_status p = (p', out) \<Longrightarrow>
    pt_publications p' = pt_publications p \<and> pt_identity p' = pt_identity p \<and> pt_sid p' = pt_sid p \<and> pt_state p' = pt_state p \<and>
    pt_is_data_encrypted p' = pt_is_data_encrypted p \<and> pt_is_encrypted p' = encrypted_now p' \<and> list_all silent out"
  by (auto simp: update_encryption_status_def encrypted_now_def split: if_splits)

lemma pt_step_update_encryption: "update_encryption_status p = (p', out) \<Longrightarrow> pt_step p p' out"
  using update_encryption_status_fields [of p p' out]
  by (intro pt_step_silent) (auto simp: pt_inv_def tracks_of_def)

lemma pt_step_update_data:
  assumes "update_data_encryption_status b p = (p', out)"
  shows "pt_step p p' out"
proof -
  have flag: "pt_step p (p\<lparr>pt_is_data_encrypted := d\<rparr>) []" for d
    by (rule pt_step_silent) (auto simp: pt_inv_def tracks_of_def)
  show ?thesis
    using assms pt_step_trans [OF flag pt_step_update_encryption]
    by (fastforce simp: update_data_encryption_status_def split: option.splits if_splits)
qed

lemma list_all_silent_track_events [simp]: "list_all silent (track_events i sid es)"
  by (induction es rule: track_events.induct) simp_all

lemma set_track_sid [simp]: "set_track t pb = (pb', es) \<Longrightarrow> pb_sid pb' = pb_sid pb"
  by (auto simp: set_track_def Let_def)

lemma set_publication_fields [simp]:
  "pt_identity (set_publication sid pb p) = pt_identity p" "pt_sid (set_publication sid pb p) = pt_sid p"
  "pt_state (set_publication sid pb p) = pt_state p"
  by (simp_all add: set_publication_def)

lemma pt_step_set_publication:
  "hm_get (pt_publications p) sid = Some pb \<Longrightarrow> pb_sid pb' = pb_sid pb \<Longrightarrow> list_all silent out \<Longrightarrow> pt_step p (set_publication sid pb' p) out"
  by (rule pt_step_silent) (auto simp: pt_inv_def tracks_of_def set_publication_def dom_hm_insert)

lemma unpublish_track_step:
  assumes "unpublish_track sid p = (p', out)"
  shows "pt_step p p' out \<and> tracks_of p' = tracks_of p - {sid}"
proof (cases "hm_get (pt_publications p) sid")
  case None
  then show ?thesis using assms by (auto simp: unpublish_track_def tracks_of_def)
next
  case (Some pb)
  obtain pb' pes where st: "(if pb_track pb = None then (pb, []) else set_track None pb) = (pb', pes)" by fastforce
  then have sid: "pb_sid pb' = pb_sid pb" by (auto split: if_splits)
  let ?q = "set_publication sid pb' p"
  let ?r = "?q\<lparr>pt_publications := hm_remove sid (pt_publications ?q)\<rparr>"
  obtain p1 out1 where r: "update_encryption_status ?r = (p1, out1)" by fastforce
  have res: "p' = p1" "out = track_events (pt_identity p) sid pes @ out1 @ [TrackUnpublished (pt_identity p) sid]"
    using assms Some st r by (simp_all add: unpublish_track_def remove_publication_def Let_def)
  note f = update_encryption_status_fields [OF r]
  have tracks: "tracks_of p1 = tracks_of p - {sid}"
    using f by (auto simp: tracks_of_def set_publication_def split: if_splits)
  have inv: "pt_inv p \<Longrightarrow> pt_inv p1"
    using f by (auto simp: pt_inv_def set_publication_def split: if_splits)
  have "view_events out v = v(pt_identity p := Some (tracks_of p'))" if "v (pt_identity p) = Some (tracks_of p)" for v
    using that tracks f by (simp add: res view_silent)
  then show ?thesis using res tracks inv f by (auto simp: pt_step_def)
qed

lemma unpublish_tracks_step:
  "unpublish_tracks_of sids p = (p', out) \<Longrightarrow> pt_step p p' out \<and> tracks_of p' = tracks_of p - set sids"
proof (induction sids arbitrary: p p' out)
  case Nil
  then show ?case by simp
next
  case (Cons sid sids)
  obtain p1 out1 where s1: "unpublish_track sid p = (p1, out1)" by fastforce
  obtain p2 out2 where s2: "unpublish_tracks_of sids p1 = (p2, out2)" by fastforce
  have "p' = p2" "out = out1 @ out2" using Cons.prems s1 s2 by simp_all
  with unpublish_track_step [OF s1] Cons.IH [OF s2] show ?case by (auto intro: pt_step_trans)
qed

lemma from_prefix_Some: "from_prefix pre s = Some t \<Longrightarrow> t = s"
  by (simp add: from_prefix_def split: if_splits)

lemma update_track_step:
  assumes "update_track auto_subscribe ti p = Some (p', out)"
  shows "pt_step p p' out \<and> tracks_of p' = insert (ti_sid ti) (tracks_of p)"
proof -
  from assms obtain sid where "from_prefix TRACK_PREFIX (ti_sid ti) = Some sid" by (auto simp: update_track_def split: option.splits)
  then have sid: "from_prefix TRACK_PREFIX (ti_sid ti) = Some (ti_sid ti)" using from_prefix_Some by simp
  show ?thesis
  proof (cases "hm_get (pt_publications p) (ti_sid ti)")
    case (Some pb)
    with assms sid obtain pb' mutes where u: "publication_update_info ti pb = Some (pb', mutes)"
      and res: "p' = set_publication (ti_sid ti) pb' p"
        "out = map (\<lambda>m. if m then TrackMuted (pt_identity p) (ti_sid ti) else TrackUnmuted (pt_identity p) (ti_sid ti)) mutes"
      by (auto simp: update_track_def split: option.splits)
    have "pb_sid pb' = ti_sid ti" using u sid by (auto simp: publication_update_info_def split: option.splits)
    then show ?thesis using res Some
      by (auto simp: tracks_of_def list_all_iff intro!: pt_step_silent)
        (auto simp: pt_inv_def set_publication_def dom_hm_insert tracks_of_def split: if_splits)
  next
    case None
    with assms sid obtain pb p1 out1 where n: "publication_new ti auto_subscribe = Some pb" and a: "add_publication pb p = (p1, out1)"
      and res: "p' = p1" "out = out1 @ [TrackPublished (pt_identity p) (ti_sid ti)]"
      by (auto simp: update_track_def Let_def split: option.splits prod.splits)
    have pb: "pb_sid pb = ti_sid ti" using n sid by (auto simp: publication_new_def split: option.splits)
    note f = update_encryption_status_fields [OF a [unfolded add_publication_def]]
    have tracks: "tracks_of p1 = insert (ti_sid ti) (tracks_of p)" using f pb by (auto simp: tracks_of_def dom_hm_insert split: if_splits)
    have "pt_inv p \<Longrightarrow> pt_inv p1" using f pb by (auto simp: pt_inv_def)
    then show ?thesis using f tracks res by (auto simp: pt_step_def view_silent)
  qed
qed

lemma update_tracks_step:
  "update_tracks auto_subscribe tis p = Some (p', out) \<Longrightarrow> pt_step p p' out \<and> tracks_of p' = set (map ti_sid tis) \<union> tracks_of p"
proof (induction tis arbitrary: p p' out)
  case Nil
  then show ?case by simp
next
  case (Cons ti tis)
  then obtain p1 out1 out2 where s: "update_track auto_subscribe ti p = Some (p1, out1)" "update_tracks auto_subscribe tis p1 = Some (p', out2)"
    "out = out1 @ out2"
    by (auto split: option.splits)
  from update_track_step [OF s(1)] Cons.IH [OF s(2)] s(3) show ?case by (auto intro: pt_step_trans)
qed

lemma pt_update_info_fields:
  "pt_update_info info p = Some (p', out) \<Longrightarrow>
    pt_sid p' = pi_sid info \<and> pt_identity p' = pi_identity info \<and> pt_state p' = pi_state info \<and> pt_publications p' = pt_publications p \<and>
    pt_is_data_encrypted p' = pt_is_data_encrypted p \<and> pt_is_encrypted p' = pt_is_encrypted p \<and> list_all silent out"
  by (auto simp: pt_update_info_def Let_def split: option.splits dest: from_prefix_Some)

text \<open>After an update the participant has exactly the tracks the server listed.\<close>

lemma remote_update_info_step:
  assumes "remote_update_info auto_subscribe info p = Some (p', out)" and "pi_identity info = pt_identity p"
  shows "pt_identity p' = pt_identity p \<and> pt_sid p' = pi_sid info \<and> pt_state p' = pi_state info \<and> (pt_inv p \<longrightarrow> pt_inv p') \<and>
    tracks_of p' = set (map ti_sid (pi_tracks info)) \<and>
    (\<forall>v. v (pt_identity p) = Some (tracks_of p) \<longrightarrow> view_events out v = v(pt_identity p := Some (tracks_of p')))"
proof -
  from assms(1) obtain p1 out1 p2 out2 p3 out3 where s: "pt_update_info info p = Some (p1, out1)"
    "update_tracks auto_subscribe (pi_tracks info) p1 = Some (p2, out2)"
    "unpublish_tracks_of (filter (\<lambda>sid. sid \<notin> set (map ti_sid (pi_tracks info))) (hm_keys (pt_publications p2))) p2 = (p3, out3)"
    "p' = p3" "out = out1 @ out2 @ out3"
    by (auto simp: remote_update_info_def Let_def split: option.splits prod.splits)
  note f = pt_update_info_fields [OF s(1)]
  note u = update_tracks_step [OF s(2)] and d = unpublish_tracks_step [OF s(3)]
  have t1: "tracks_of p1 = tracks_of p" and inv1: "pt_inv p \<Longrightarrow> pt_inv p1" using f by (auto simp: tracks_of_def pt_inv_def)
  have steps: "pt_step p1 p3 (out2 @ out3)" using u d by (blast intro: pt_step_trans)
  have keys: "set (hm_keys (pt_publications p2)) = tracks_of p2" by (simp add: hm_keys_def tracks_of_def dom_map_of_conv_image_fst)
  have "tracks_of p3 = set (map ti_sid (pi_tracks info))"
    using conjunct2 [OF d] conjunct2 [OF u] keys by auto
  moreover have "view_events out v = v(pt_identity p := Some (tracks_of p3))" if "v (pt_identity p) = Some (tracks_of p)" for v
    using steps that f t1 assms(2) by (simp add: s(5) pt_step_def view_silent)
  ultimately show ?thesis using steps inv1 f assms(2) s(4) by (simp add: pt_step_def)
qed

section \<open>Information without panics\<close>

definition valid_track :: "track_info \<Rightarrow> bool" where
  "valid_track ti \<longleftrightarrow> track_kind_try_from (ti_type ti) \<noteq> None \<and> from_prefix TRACK_PREFIX (ti_sid ti) \<noteq> None"

definition valid_info :: "participant_info \<Rightarrow> bool" where
  "valid_info info \<longleftrightarrow> from_prefix PARTICIPANT_PREFIX (pi_sid info) \<noteq> None \<and> list_all valid_track (pi_tracks info)"

lemma pt_update_info_total: "from_prefix PARTICIPANT_PREFIX (pi_sid info) \<noteq> None \<Longrightarrow> pt_update_info info p \<noteq> None"
  by (auto simp: pt_update_info_def Let_def)

lemma update_track_total: "valid_track ti \<Longrightarrow> update_track auto_subscribe ti p \<noteq> None"
  by (auto simp: valid_track_def update_track_def publication_update_info_def publication_new_def Let_def dest!: from_prefix_Some
      split: option.split prod.split)

lemma update_tracks_total: "list_all valid_track tis \<Longrightarrow> update_tracks auto_subscribe tis p \<noteq> None"
proof (induction tis arbitrary: p)
  case Nil
  then show ?case by simp
next
  case (Cons ti tis)
  then obtain p1 out1 where "update_track auto_subscribe ti p = Some (p1, out1)"
    using update_track_total [of ti auto_subscribe p] by auto
  with Cons.IH [of p1] Cons.prems show ?case by auto
qed

lemma remote_update_info_total:
  assumes "valid_info info"
  shows "remote_update_info auto_subscribe info p \<noteq> None"
proof -
  obtain p1 out1 where "pt_update_info info p = Some (p1, out1)"
    using pt_update_info_total [of info p] assms by (auto simp: valid_info_def)
  moreover obtain p2 out2 where "update_tracks auto_subscribe (pi_tracks info) p1 = Some (p2, out2)"
    using update_tracks_total [of "pi_tracks info" auto_subscribe p1] assms by (auto simp: valid_info_def)
  ultimately show ?thesis by (simp add: remote_update_info_def Let_def split: prod.split)
qed

section \<open>Encryption\<close>

text \<open>Unencrypted data marks a participant for good: the mark stays, and it is never again reported encrypted.\<close>

definition never_encrypted :: "participant \<Rightarrow> room_event list \<Rightarrow> bool" where
  "never_encrypted p out \<longleftrightarrow> pt_is_data_encrypted p = Some False \<and> (\<forall>i. EncryptionStatusChanged i True \<notin> set out)"

lemma never_encrypted_status:
  "pt_is_data_encrypted p = Some False \<Longrightarrow> update_encryption_status p = (p', out) \<Longrightarrow> never_encrypted p' out"
  by (auto simp: update_encryption_status_def never_encrypted_def encrypted_now_def split: if_splits)

lemma never_encrypted_data:
  "pt_is_data_encrypted p = Some False \<Longrightarrow> update_data_encryption_status b p = (p', out) \<Longrightarrow> never_encrypted p' out"
  by (auto simp: update_data_encryption_status_def never_encrypted_def split: if_splits)

text \<open>The status follows the publications and the data, except for one case.\<close>

lemma encryption_status_current:
  "add_publication pb p = (p', out) \<Longrightarrow> pt_is_encrypted p' = encrypted_now p'"
  "remove_publication sid p = (p', out) \<Longrightarrow> pt_is_encrypted p' = encrypted_now p'"
  "pt_is_encrypted p = encrypted_now p \<Longrightarrow> update_data_encryption_status b p = (p', out) \<Longrightarrow> pt_is_encrypted p' = encrypted_now p'"
proof -
  show "add_publication pb p = (p', out) \<Longrightarrow> pt_is_encrypted p' = encrypted_now p'"
    using update_encryption_status_fields by (simp add: add_publication_def)
  show "remove_publication sid p = (p', out) \<Longrightarrow> pt_is_encrypted p' = encrypted_now p'"
    using update_encryption_status_fields by (simp add: remove_publication_def)
  show "pt_is_encrypted p = encrypted_now p \<Longrightarrow> update_data_encryption_status b p = (p', out) \<Longrightarrow> pt_is_encrypted p' = encrypted_now p'"
    using update_encryption_status_fields
    by (auto simp: update_data_encryption_status_def split: option.splits if_splits dest!: update_encryption_status_fields)
qed

text \<open>The case: an update of a track that changes its encryption leaves the participant's status as it was.\<close>

lemma encryption_status_stale:
  "\<exists>ti p p' out. pt_is_encrypted p = encrypted_now p \<and> update_track True ti p = Some (p', out) \<and> pt_is_encrypted p' \<noteq> encrypted_now p'"
proof -
  define ti where "ti = \<lparr>ti_sid = ''TR_a'', ti_name = ''cam'', ti_type = VideoTrack, ti_muted = False, ti_encryption = GcmEncryption,
    ti_mime_type = ''video/vp8'', ti_dimension = (0, 0), ti_simulcast = False, ti_layers = 0, ti_codec_layers = []\<rparr>"
  define p0 where "p0 = participant_new Standard [] ''PA_a'' ''ann'' ''Ann'' PsActive [] [] 0 None"
  define pb where "pb = \<lparr>pb_sid = ''TR_a'', pb_name = ''cam'', pb_kind = Video, pb_muted = False, pb_encryption = GcmEncryption,
    pb_mime_type = ''video/vp8'', pb_dimension = (0, 0), pb_simulcasted = False, pb_track = None, pb_subscribed = True, pb_allowed = True\<rparr>"
  define p1 where "p1 = p0\<lparr>pt_publications := [(''TR_a'', pb)], pt_is_encrypted := True\<rparr>"
  have good: "pt_is_encrypted p1 = encrypted_now p1"
    by (simp add: p1_def p0_def pb_def encrypted_now_def participant_new_def)
  have "update_track True (ti\<lparr>ti_encryption := NoEncryption\<rparr>) p1 =
      Some (p1\<lparr>pt_publications := [(''TR_a'', pb\<lparr>pb_encryption := NoEncryption\<rparr>)]\<rparr>, [])"
    by (simp add: ti_def p1_def pb_def update_track_def from_prefix_def TRACK_PREFIX_def publication_update_info_def set_publication_def
        hm_insert_def is_simulcasted_def)
  moreover have "pt_is_encrypted (p1\<lparr>pt_publications := [(''TR_a'', pb\<lparr>pb_encryption := NoEncryption\<rparr>)]\<rparr>) \<noteq>
      encrypted_now (p1\<lparr>pt_publications := [(''TR_a'', pb\<lparr>pb_encryption := NoEncryption\<rparr>)]\<rparr>)"
    by (simp add: p1_def encrypted_now_def)
  ultimately show ?thesis using good by blast
qed

end
