(* ===== verification/LkRoom.thy ===== *)
theory LkRoom
  imports LkParticipant
begin

text \<open>
  The room (\<open>livekit/src/room/mod.rs\<close>): its participants, the updates, speakers and qualities the server reports about
  them, its information, and its connection state under the events of the engine.  A participant object is shared with
  the application; it is kept here at its key.  A panic is the value \<open>None\<close>.
\<close>

section \<open>State\<close>

record room_info =
  ri_sid :: "string option"
  ri_metadata :: string
  ri_name :: string
  ri_empty_timeout :: u32
  ri_departure_timeout :: u32
  ri_max_participants :: u32
  ri_num_participants :: u32
  ri_num_publishers :: u32
  ri_active_recording :: bool
  ri_creation_time :: int

text \<open>The room as the server describes it; its identifier may be empty.\<close>

record proto_room =
  pr_sid :: string
  pr_metadata :: string
  pr_name :: string
  pr_empty_timeout :: u32
  pr_departure_timeout :: u32
  pr_max_participants :: u32
  pr_num_participants :: u32
  pr_num_publishers :: u32
  pr_active_recording :: bool
  pr_creation_time_ms :: int

datatype participant_ref = LocalRef | RemoteRef string

text \<open>\<open>rm_restarts\<close> counts the running tasks spawned by \<open>handle_restarted\<close>: those that have neither announced the reconnection nor panicked.\<close>

record room =
  rm_local :: participant
  rm_participants :: "(string, participant) hashmap"
  rm_state :: connection_state
  rm_info :: room_info
  rm_sid_promise :: "string option"
  rm_active_speakers :: "participant_ref list"
  rm_auto_subscribe :: bool
  rm_restarts :: nat

section \<open>Participants\<close>

definition get_participant_by_identity :: "string \<Rightarrow> room \<Rightarrow> participant option" where
  "get_participant_by_identity i r = hm_get (rm_participants r) i"

text \<open>The key under which the participant with the identifier is kept.\<close>

definition get_participant_by_sid :: "string \<Rightarrow> room \<Rightarrow> (string \<times> participant) option" where
  "get_participant_by_sid sid r = find (\<lambda>(_, p). pt_sid p = sid) (rm_participants r)"

definition set_participant :: "string \<Rightarrow> participant \<Rightarrow> room \<Rightarrow> room" where
  "set_participant k p r = r\<lparr>rm_participants := hm_insert k p (rm_participants r)\<rparr>"

definition handle_participant_disconnect :: "participant \<Rightarrow> room \<Rightarrow> room \<times> room_event list" where
  "handle_participant_disconnect p r =
     (let (p, out) = unpublish_tracks_of (hm_keys (pt_publications p)) p
      in (r\<lparr>rm_participants := hm_remove (pt_identity p) (rm_participants r)\<rparr>, out @ [ParticipantDisconnected (pt_identity p)]))"

text \<open>Disconnects the participant that has the identity under another identifier.\<close>

definition disconnect_stale :: "string \<Rightarrow> string \<Rightarrow> room \<Rightarrow> room \<times> room_event list" where
  "disconnect_stale sid i r =
     (case get_participant_by_identity i r of
        Some p \<Rightarrow> if pt_sid p \<noteq> sid then handle_participant_disconnect p r else (r, [])
      | None \<Rightarrow> (r, []))"

definition new_participant :: "participant_info \<Rightarrow> participant" where
  "new_participant info =
     participant_new (pi_kind info) (pi_kind_details info) (pi_sid info) (pi_identity info) (pi_name info) (pi_state info)
       (pi_metadata info) (pi_attributes info) (pi_joined_at info) (pi_permission info)"

text \<open>
  One participant of an update: the room, the events, and the participants to report as updated.  First the part for a
  remote participant, once a stale one of the same identity is gone.
\<close>

definition update_known :: "participant_info \<Rightarrow> string \<Rightarrow> participant \<Rightarrow> room \<Rightarrow> (room \<times> room_event list \<times> string list) option" where
  "update_known info k p r =
     (case remote_update_info (rm_auto_subscribe r) info p of
        None \<Rightarrow> None
      | Some (p', out1) \<Rightarrow>
          if pi_state info = PsDisconnected
          then let (r, out2) = handle_participant_disconnect p' (set_participant k p' r) in Some (r, out1 @ out2, [])
          else Some (set_participant k p' r,
                 out1 @ (if pt_state p \<noteq> PsActive \<and> pt_state p' = PsActive then [ParticipantActive (pt_identity p')] else []),
                 [pt_identity p']))"

definition update_unknown :: "participant_info \<Rightarrow> room \<Rightarrow> (room \<times> room_event list \<times> string list) option" where
  "update_unknown info r =
     (if pi_state info = PsDisconnected then Some (r, [], [])
      else let p = new_participant info
           in (case remote_update_info (rm_auto_subscribe r) info p of
                 None \<Rightarrow> None
               | Some (p', out1) \<Rightarrow>
                   Some (set_participant (pi_identity info) p' r,
                     [ParticipantConnected (pt_identity p)] @
                       (if pt_state p = PsActive then [ParticipantActive (pt_identity p)] else []) @ out1,
                     [])))"

definition update_participant :: "participant_info \<Rightarrow> room \<Rightarrow> (room \<times> room_event list \<times> string list) option" where
  "update_participant info r =
     (case from_prefix PARTICIPANT_PREFIX (pi_sid info) of
        None \<Rightarrow> None
      | Some sid \<Rightarrow>
          if sid = pt_sid (rm_local r) \<or> pi_identity info = pt_identity (rm_local r)
          then (case pt_update_info info (rm_local r) of
                  None \<Rightarrow> None
                | Some (l, out) \<Rightarrow> Some (r\<lparr>rm_local := l\<rparr>, out, [pt_identity l]))
          else
            let (r, out0) = disconnect_stale sid (pi_identity info) r
            in (case (case get_participant_by_sid sid r of
                        Some (k, p) \<Rightarrow> update_known info k p r
                      | None \<Rightarrow> update_unknown info r) of
                  None \<Rightarrow> None
                | Some (r, out, ps) \<Rightarrow> Some (r, out0 @ out, ps)))"

fun update_loop :: "participant_info list \<Rightarrow> room \<Rightarrow> (room \<times> room_event list \<times> string list) option" where
  "update_loop [] r = Some (r, [], [])"
| "update_loop (info # infos) r =
     (case update_participant info r of
        None \<Rightarrow> None
      | Some (r, out1, ps1) \<Rightarrow>
         (case update_loop infos r of None \<Rightarrow> None | Some (r, out2, ps2) \<Rightarrow> Some (r, out1 @ out2, ps1 @ ps2)))"

definition handle_participant_update :: "participant_info list \<Rightarrow> room \<Rightarrow> (room \<times> room_event list) option" where
  "handle_participant_update infos r =
     (case update_loop infos r of
        None \<Rightarrow> None
      | Some (r, out, ps) \<Rightarrow> Some (r, out @ (if ps = [] then [] else [ParticipantsUpdated ps])))"

section \<open>Speakers and qualities\<close>

record speaker_info =
  si_sid :: string
  si_active :: bool
  si_level :: "int option"

definition find_participant :: "string \<Rightarrow> room \<Rightarrow> participant_ref option" where
  "find_participant sid r =
     (if sid = pt_sid (rm_local r) then Some LocalRef
      else map_option (\<lambda>(k, _). RemoteRef k) (get_participant_by_sid sid r))"

fun map_participant :: "participant_ref \<Rightarrow> (participant \<Rightarrow> participant) \<Rightarrow> room \<Rightarrow> room" where
  "map_participant LocalRef f r = r\<lparr>rm_local := f (rm_local r)\<rparr>"
| "map_participant (RemoteRef k) f r =
     (case hm_get (rm_participants r) k of Some p \<Rightarrow> set_participant k (f p) r | None \<Rightarrow> r)"

fun deref :: "participant_ref \<Rightarrow> room \<Rightarrow> participant option" where
  "deref LocalRef r = Some (rm_local r)"
| "deref (RemoteRef k) r = hm_get (rm_participants r) k"

fun speakers_loop :: "speaker_info list \<Rightarrow> room \<Rightarrow> (room \<times> participant_ref list) option" where
  "speakers_loop [] r = Some (r, [])"
| "speakers_loop (s # ss) r =
     (case from_prefix PARTICIPANT_PREFIX (si_sid s) of
        None \<Rightarrow> None
      | Some sid \<Rightarrow>
         (case find_participant sid r of
            None \<Rightarrow> speakers_loop ss r
          | Some ref \<Rightarrow>
             (case speakers_loop ss (map_participant ref (\<lambda>p. p\<lparr>pt_speaking := si_active s, pt_audio_level := si_level s\<rparr>) r) of
                None \<Rightarrow> None
              | Some (r, refs) \<Rightarrow> Some (r, if si_active s then ref # refs else refs))))"

definition level_of :: "room \<Rightarrow> participant_ref \<Rightarrow> int option" where
  "level_of r ref = (case deref ref r of Some p \<Rightarrow> pt_audio_level p | None \<Rightarrow> None)"

definition ref_identity :: "room \<Rightarrow> participant_ref \<Rightarrow> string" where
  "ref_identity r ref = (case deref ref r of Some p \<Rightarrow> pt_identity p | None \<Rightarrow> [])"

text \<open>Sorting compares every speaker with another one, if there are two: a level that is not a number has no order.\<close>

definition handle_speakers_changed :: "speaker_info list \<Rightarrow> room \<Rightarrow> (room \<times> room_event list) option" where
  "handle_speakers_changed infos r =
     (case speakers_loop infos r of
        None \<Rightarrow> None
      | Some (r, refs) \<Rightarrow>
          if 1 < length refs \<and> list_ex (\<lambda>ref. level_of r ref = None) refs then None
          else let refs = sort_key (\<lambda>ref. case level_of r ref of Some l \<Rightarrow> l | None \<Rightarrow> 0) refs
               in Some (r\<lparr>rm_active_speakers := refs\<rparr>, [ActiveSpeakersChanged (map (ref_identity r) refs)]))"

fun handle_connection_quality_update :: "(string \<times> connection_quality) list \<Rightarrow> room \<Rightarrow> (room \<times> room_event list) option" where
  "handle_connection_quality_update [] r = Some (r, [])"
| "handle_connection_quality_update ((psid, q) # us) r =
     (case from_prefix PARTICIPANT_PREFIX psid of
        None \<Rightarrow> None
      | Some sid \<Rightarrow>
         (case find_participant sid r of
            None \<Rightarrow> handle_connection_quality_update us r
          | Some ref \<Rightarrow>
             let r = map_participant ref (\<lambda>p. p\<lparr>pt_quality := q\<rparr>) r
             in (case handle_connection_quality_update us r of
                   None \<Rightarrow> None
                 | Some (r', out) \<Rightarrow> Some (r', QualityChanged (ref_identity r ref) q # out))))"

section \<open>Data\<close>

text \<open>Who a data packet came from, and whether it was encrypted; the received data is passed on as it is.\<close>

definition data_sender :: "string option \<Rightarrow> string option \<Rightarrow> room \<Rightarrow> string option" where
  "data_sender sid identity r =
     (case Option.bind identity (\<lambda>i. if get_participant_by_identity i r = None then None else Some i) of
        Some i \<Rightarrow> Some i
      | None \<Rightarrow> Option.bind sid (\<lambda>s. map_option fst (get_participant_by_sid s r)))"

definition mark_data :: "string \<Rightarrow> stream_encryption \<Rightarrow> room \<Rightarrow> room \<times> room_event list" where
  "mark_data k encryption r =
     (case hm_get (rm_participants r) k of
        None \<Rightarrow> (r, [])
      | Some p \<Rightarrow> let (p, out) = update_data_encryption_status (encryption \<noteq> NoEncryption) p in (set_participant k p r, out))"

definition handle_data :: "string option \<Rightarrow> string option \<Rightarrow> stream_encryption \<Rightarrow> room \<Rightarrow> room \<times> room_event list" where
  "handle_data sid identity encryption r =
     (case data_sender sid identity r of None \<Rightarrow> (r, []) | Some k \<Rightarrow> mark_data k encryption r)"

section \<open>Room information\<close>

datatype info_event = RoomMetadataChanged string string | RoomUpdated room_info

definition handle_room_update :: "proto_room \<Rightarrow> room \<Rightarrow> room \<times> info_event list" where
  "handle_room_update pr r =
     (let i = rm_info r;
          sid = (if pr_sid pr = [] then ri_sid i else from_prefix ROOM_PREFIX (pr_sid pr));
          promise = (if pr_sid pr \<noteq> [] \<and> rm_sid_promise r = None then sid else rm_sid_promise r);
          updated = (ri_metadata i \<noteq> pr_metadata pr \<or> ri_name i \<noteq> pr_name pr \<or> ri_empty_timeout i \<noteq> pr_empty_timeout pr \<or>
            ri_departure_timeout i \<noteq> pr_departure_timeout pr \<or> ri_max_participants i \<noteq> pr_max_participants pr \<or>
            ri_num_participants i \<noteq> pr_num_participants pr \<or> ri_num_publishers i \<noteq> pr_num_publishers pr \<or>
            ri_active_recording i \<noteq> pr_active_recording pr);
          i' = \<lparr>ri_sid = sid, ri_metadata = pr_metadata pr, ri_name = pr_name pr, ri_empty_timeout = pr_empty_timeout pr,
                ri_departure_timeout = pr_departure_timeout pr, ri_max_participants = pr_max_participants pr,
                ri_num_participants = pr_num_participants pr, ri_num_publishers = pr_num_publishers pr,
                ri_active_recording = pr_active_recording pr, ri_creation_time = pr_creation_time_ms pr\<rparr>
      in (r\<lparr>rm_info := i', rm_sid_promise := promise\<rparr>,
          (if ri_metadata i \<noteq> pr_metadata pr then [RoomMetadataChanged (ri_metadata i) (pr_metadata pr)] else []) @
          (if updated then [RoomUpdated i'] else [])))"

section \<open>Connection\<close>

record join_info =
  ji_participant :: participant_info
  ji_others :: "participant_info list"
  ji_room :: proto_room

definition update_connection_state :: "connection_state \<Rightarrow> room \<Rightarrow> room \<times> room_event list" where
  "update_connection_state st r =
     (if rm_state r = st then (r, []) else (r\<lparr>rm_state := st\<rparr>, [ConnectionStateChanged st]))"

definition handle_reconnecting :: "room \<Rightarrow> room \<times> room_event list" where
  "handle_reconnecting r =
     (let (r', out) = update_connection_state StReconnecting r
      in (r', out @ (if out = [] then [] else [RoomReconnecting])))"

definition handle_resumed :: "room \<Rightarrow> room \<times> room_event list" where
  "handle_resumed r = (let (r, out) = update_connection_state StConnected r in (r, out @ [RoomReconnected]))"

text \<open>A full reconnect disconnects every remote participant.\<close>

fun disconnect_all :: "participant list \<Rightarrow> room \<Rightarrow> room \<times> room_event list" where
  "disconnect_all [] r = (r, [])"
| "disconnect_all (p # ps) r =
     (let (r, out1) = handle_participant_disconnect p r; (r, out2) = disconnect_all ps r in (r, out1 @ out2))"

definition handle_restarting :: "room \<Rightarrow> room \<times> room_event list" where
  "handle_restarting r =
     (let (r, out1) = disconnect_all (map snd (rm_participants r)) r; (r, out2) = handle_reconnecting r in (r, out1 @ out2))"

definition handle_signal_restarted :: "join_info \<Rightarrow> room \<Rightarrow> (room \<times> room_event list) option" where
  "handle_signal_restarted join r =
     (case pt_update_info (ji_participant join) (rm_local r) of
        None \<Rightarrow> None
      | Some (l, out1) \<Rightarrow>
         (case handle_participant_update (ji_others join) (r\<lparr>rm_local := l\<rparr>) of
            None \<Rightarrow> None
          | Some (r, out2) \<Rightarrow> Some (fst (handle_room_update (ji_room join) r), out1 @ out2)))"

text \<open>The tracks are published again by a task, which announces the reconnection when it is through.\<close>

definition handle_restarted :: "room \<Rightarrow> room" where
  "handle_restarted r = r\<lparr>rm_restarts := rm_restarts r + 1\<rparr>"

definition restart_completed :: "room \<Rightarrow> room \<times> room_event list" where
  "restart_completed r =
     (let (r, out) = update_connection_state StConnected (r\<lparr>rm_restarts := rm_restarts r - 1\<rparr>) in (r, out @ [RoomReconnected]))"

text \<open>
  The task panics when a publication has no track or when it awaits something that panics: then nothing is announced.
\<close>

definition restart_panicked :: "room \<Rightarrow> room" where
  "restart_panicked r = r\<lparr>rm_restarts := rm_restarts r - 1\<rparr>"

definition handle_disconnected :: "disconnect_reason \<Rightarrow> room \<Rightarrow> room \<times> room_event list" where
  "handle_disconnected reason r =
     (let (r', out) = update_connection_state StDisconnected r
      in (r', out @ (if out = [] then [] else [RoomDisconnected reason])))"

text \<open>What a resumed signal connection leads to, sending the state to the server, does not change the room.\<close>

fun on_engine_event :: "join_info engine_event \<Rightarrow> room \<Rightarrow> (room \<times> room_event list) option" where
  "on_engine_event Resuming r = Some (handle_reconnecting r)"
| "on_engine_event Resumed r = Some (handle_resumed r)"
| "on_engine_event SignalResumed r = Some (r, [])"
| "on_engine_event Restarting r = Some (handle_restarting r)"
| "on_engine_event Restarted r = Some (handle_restarted r, [])"
| "on_engine_event (SignalRestarted join) r = handle_signal_restarted join r"
| "on_engine_event (engine_event.Disconnected reason) r = Some (handle_disconnected reason r)"

section \<open>The participants and what the server said\<close>

text \<open>
  The server gives an identifier to one identity only: \<open>idof\<close> is that identity.  The roster is the room as the server
  describes it: the local participant's identifier and identity, and for every identity its identifier and tracks.
\<close>

definition room_inv :: "(string \<Rightarrow> string) \<Rightarrow> room \<Rightarrow> bool" where
  "room_inv idof r \<longleftrightarrow> hm_inv (rm_participants r) \<and>
     (\<forall>k p. hm_get (rm_participants r) k = Some p \<longrightarrow> pt_identity p = k \<and> idof (pt_sid p) = k \<and> pt_inv p)"

definition room_view :: "room \<Rightarrow> room_view" where
  "room_view r = (\<lambda>i. map_option tracks_of (hm_get (rm_participants r) i))"

type_synonym roster = "string \<times> string \<times> (string \<Rightarrow> (string \<times> string set) option)"

definition roster_of :: "room \<Rightarrow> roster" where
  "roster_of r =
     (pt_sid (rm_local r), pt_identity (rm_local r), \<lambda>i. map_option (\<lambda>p. (pt_sid p, tracks_of p)) (hm_get (rm_participants r) i))"

fun roster_update :: "participant_info \<Rightarrow> roster \<Rightarrow> roster" where
  "roster_update info (lsid, lid, m) =
     (if pi_sid info = lsid \<or> pi_identity info = lid then (pi_sid info, pi_identity info, m)
      else if pi_state info = PsDisconnected then (lsid, lid, m(pi_identity info := None))
      else (lsid, lid, m(pi_identity info := Some (pi_sid info, set (map ti_sid (pi_tracks info))))))"

lemma room_inv_get: "room_inv idof r \<Longrightarrow> hm_get (rm_participants r) k = Some p \<Longrightarrow> pt_identity p = k \<and> idof (pt_sid p) = k \<and> pt_inv p"
  by (simp add: room_inv_def)

lemma by_sid_Some:
  assumes "room_inv idof r" and "get_participant_by_sid sid r = Some (k, p)"
  shows "hm_get (rm_participants r) k = Some p \<and> pt_sid p = sid \<and> k = idof sid"
proof -
  from assms(2) obtain n where "n < length (rm_participants r)" "rm_participants r ! n = (k, p)" "pt_sid p = sid"
    by (auto simp: get_participant_by_sid_def find_Some_iff)
  then have "(k, p) \<in> set (rm_participants r)" "pt_sid p = sid" by (auto dest: nth_mem)
  moreover from this have "hm_get (rm_participants r) k = Some p" using assms(1) by (simp add: room_inv_def hm_in_set)
  ultimately show ?thesis using room_inv_get [OF assms(1)] by auto
qed

lemma by_sid_None: "get_participant_by_sid sid r = None \<Longrightarrow> hm_get (rm_participants r) k = Some p \<Longrightarrow> pt_sid p \<noteq> sid"
  by (auto simp: get_participant_by_sid_def find_None_iff dest: map_of_SomeD)

lemma set_participant_fields [simp]:
  "rm_local (set_participant k p r) = rm_local r" "rm_state (set_participant k p r) = rm_state r"
  "rm_participants (set_participant k p r) = hm_insert k p (rm_participants r)"
  "rm_restarts (set_participant k p r) = rm_restarts r"
  by (simp_all add: set_participant_def)

lemma room_inv_set_participant:
  "room_inv idof r \<Longrightarrow> pt_identity p = k \<Longrightarrow> idof (pt_sid p) = k \<Longrightarrow> pt_inv p \<Longrightarrow> room_inv idof (set_participant k p r)"
  by (simp add: room_inv_def)

lemma room_view_set_participant [simp]: "room_view (set_participant k p r) = (room_view r)(k := Some (tracks_of p))"
  by (auto simp: room_view_def)

text \<open>What a step of the room keeps apart from the participants.\<close>

definition room_frame :: "room \<Rightarrow> room \<Rightarrow> bool" where
  "room_frame r r' \<longleftrightarrow> rm_state r' = rm_state r \<and> rm_restarts r' = rm_restarts r"

lemma room_frame_refl [simp]: "room_frame r r"
  by (simp add: room_frame_def)

lemma disconnect_effect:
  assumes "handle_participant_disconnect p r = (r', out)"
  shows "rm_participants r' = hm_remove (pt_identity p) (rm_participants r) \<and> rm_local r' = rm_local r \<and> room_frame r r' \<and>
    (\<forall>v. v (pt_identity p) = Some (tracks_of p) \<longrightarrow> view_events out v = v(pt_identity p := None))"
proof -
  obtain p1 out1 where u: "unpublish_tracks_of (hm_keys (pt_publications p)) p = (p1, out1)" by fastforce
  then have "r' = r\<lparr>rm_participants := hm_remove (pt_identity p1) (rm_participants r)\<rparr>" "out = out1 @ [ParticipantDisconnected (pt_identity p1)]"
    using assms by (simp_all add: handle_participant_disconnect_def)
  moreover have "pt_step p p1 out1" using unpublish_tracks_step [OF u] by simp
  ultimately show ?thesis by (simp add: pt_step_def room_frame_def)
qed

lemma room_inv_removed: "room_inv idof r \<Longrightarrow> rm_participants r' = hm_remove k (rm_participants r) \<Longrightarrow> room_inv idof r'"
  by (simp add: room_inv_def)

lemma disconnect_stale_effect:
  assumes inv: "room_inv idof r" and "disconnect_stale sid i r = (r', out)" and "idof sid = i"
  shows "room_inv idof r' \<and> rm_local r' = rm_local r \<and> room_frame r r' \<and> room_view r' = view_events out (room_view r) \<and>
    (\<forall>k. k \<noteq> i \<longrightarrow> hm_get (rm_participants r') k = hm_get (rm_participants r) k) \<and>
    (\<forall>p. hm_get (rm_participants r') i = Some p \<longrightarrow> pt_sid p = sid)"
proof (cases "hm_get (rm_participants r) i")
  case None
  then show ?thesis using assms by (simp add: disconnect_stale_def get_participant_by_identity_def)
next
  case (Some p)
  note p = room_inv_get [OF inv Some]
  show ?thesis
  proof (cases "pt_sid p = sid")
    case True
    then show ?thesis using assms Some by (simp add: disconnect_stale_def get_participant_by_identity_def)
  next
    case False
    then have d: "handle_participant_disconnect p r = (r', out)"
      using assms(2) Some by (simp add: disconnect_stale_def get_participant_by_identity_def)
    note e = disconnect_effect [OF d]
    have "room_view r i = Some (tracks_of p)" using Some by (simp add: room_view_def)
    then have "view_events out (room_view r) = (room_view r)(i := None)" using e p by simp
    moreover have "room_view r' = (room_view r)(i := None)" using e p by (auto simp: room_view_def)
    ultimately show ?thesis using e p room_inv_removed [OF inv] by simp
  qed
qed

text \<open>The effect of one entry of an update.\<close>

definition update_effect :: "(string \<Rightarrow> string) \<Rightarrow> participant_info list \<Rightarrow> room \<Rightarrow> room \<Rightarrow> room_event list \<Rightarrow> bool" where
  "update_effect idof infos r r' out \<longleftrightarrow>
     room_inv idof r' \<and> room_frame r r' \<and> room_view r' = view_events out (room_view r) \<and> roster_of r' = fold roster_update infos (roster_of r)"

lemma update_participant_local:
  assumes inv: "room_inv idof r" and up: "update_participant info r = Some (r', out, ps)"
    and loc: "pi_sid info = pt_sid (rm_local r) \<or> pi_identity info = pt_identity (rm_local r)"
  shows "update_effect idof [info] r r' out"
proof -
  from up loc obtain l out1 where u: "pt_update_info info (rm_local r) = Some (l, out1)" "r' = r\<lparr>rm_local := l\<rparr>" "out = out1"
    by (auto simp: update_participant_def split: option.splits dest!: from_prefix_Some)
  note f = pt_update_info_fields [OF u(1)]
  show ?thesis
    using inv f loc u by (simp add: update_effect_def room_inv_def room_frame_def room_view_def roster_of_def view_silent)
qed

text \<open>The roster after a change at one identity.\<close>

lemma roster_of_update:
  assumes "rm_local r' = rm_local r" and "\<And>k. k \<noteq> pi_identity info \<Longrightarrow> hm_get (rm_participants r') k = hm_get (rm_participants r) k"
    and "if pi_state info = PsDisconnected then hm_get (rm_participants r') (pi_identity info) = None
      else \<exists>p. hm_get (rm_participants r') (pi_identity info) = Some p \<and> pt_sid p = pi_sid info \<and> tracks_of p = set (map ti_sid (pi_tracks info))"
    and "\<not> (pi_sid info = pt_sid (rm_local r) \<or> pi_identity info = pt_identity (rm_local r))"
  shows "roster_of r' = roster_update info (roster_of r)"
  using assms by (auto simp: roster_of_def fun_eq_iff split: if_splits)

lemma update_known_effect:
  assumes inv: "room_inv idof r" and id: "pi_identity info = idof (pi_sid info)"
    and get: "hm_get (rm_participants r) (pi_identity info) = Some p" and up: "update_known info (pi_identity info) p r = Some (r', out, ps)"
    and rem: "\<not> (pi_sid info = pt_sid (rm_local r) \<or> pi_identity info = pt_identity (rm_local r))"
  shows "update_effect idof [info] r r' out"
proof -
  let ?i = "pi_identity info"
  note pinv = room_inv_get [OF inv get]
  from up obtain p' out1 where u: "remote_update_info (rm_auto_subscribe r) info p = Some (p', out1)"
    by (auto simp: update_known_def split: option.splits)
  note e = remote_update_info_step [OF u pinv [THEN conjunct1, symmetric]]
  have p': "pt_identity p' = ?i" "pt_sid p' = pi_sid info" "pt_inv p'" "tracks_of p' = set (map ti_sid (pi_tracks info))"
    using e pinv by auto
  have "room_view r ?i = Some (tracks_of p)" using get by (simp add: room_view_def)
  then have view: "view_events out1 (room_view r) = (room_view r)(?i := Some (tracks_of p'))" using e pinv by auto
  have inv': "room_inv idof (set_participant ?i p' r)" using inv p' id by (intro room_inv_set_participant) auto
  show ?thesis
  proof (cases "pi_state info = PsDisconnected")
    case True
    obtain r2 out2 where d: "handle_participant_disconnect p' (set_participant ?i p' r) = (r2, out2)" by fastforce
    have res: "r' = r2" "out = out1 @ out2" using up u d True by (simp_all add: update_known_def)
    note de = disconnect_effect [OF d]
    have "room_view r2 = (room_view r)(?i := None)" using de p' by (auto simp: room_view_def)
    moreover have "view_events out2 ((room_view r)(?i := Some (tracks_of p'))) = (room_view r)(?i := None)" using de p' by simp
    ultimately have "room_view r' = view_events out (room_view r)" using view res by simp
    moreover have "room_inv idof r'" using room_inv_removed [OF inv'] de p' res by simp
    moreover have "roster_of r' = roster_update info (roster_of r)" using de p' res True rem by (intro roster_of_update) auto
    ultimately show ?thesis using de res by (simp add: update_effect_def room_frame_def)
  next
    case False
    have res: "r' = set_participant ?i p' r"
      "out = out1 @ (if pt_state p \<noteq> PsActive \<and> pt_state p' = PsActive then [ParticipantActive (pt_identity p')] else [])"
      using up u False by (auto simp: update_known_def)
    have "room_view r' = view_events out (room_view r)" using view res by simp
    moreover have "roster_of r' = roster_update info (roster_of r)" using p' res False rem by (intro roster_of_update) auto
    ultimately show ?thesis using inv' res by (simp add: update_effect_def room_frame_def)
  qed
qed

lemma update_unknown_effect:
  assumes inv: "room_inv idof r" and id: "pi_identity info = idof (pi_sid info)"
    and absent: "hm_get (rm_participants r) (pi_identity info) = None" and up: "update_unknown info r = Some (r', out, ps)"
    and rem: "\<not> (pi_sid info = pt_sid (rm_local r) \<or> pi_identity info = pt_identity (rm_local r))"
  shows "update_effect idof [info] r r' out"
proof (cases "pi_state info = PsDisconnected")
  case True
  then have res: "r' = r" "out = []" using up by (simp_all add: update_unknown_def)
  have "roster_of r' = roster_update info (roster_of r)" using absent res True rem by (intro roster_of_update) auto
  then show ?thesis using inv res by (simp add: update_effect_def)
next
  case False
  let ?p = "new_participant info" and ?i = "pi_identity info"
  from up False obtain p' out1 where u: "remote_update_info (rm_auto_subscribe r) info ?p = Some (p', out1)"
    by (auto simp: update_unknown_def Let_def split: option.splits)
  have new: "pt_identity ?p = ?i" "tracks_of ?p = {}" "pt_inv ?p"
    by (simp_all add: new_participant_def participant_new_def tracks_of_def pt_inv_def)
  note e = remote_update_info_step [OF u new(1) [symmetric]]
  have p': "pt_identity p' = ?i" "pt_sid p' = pi_sid info" "pt_inv p'" "tracks_of p' = set (map ti_sid (pi_tracks info))"
    using e new by auto
  have res: "r' = set_participant ?i p' r"
    "out = [ParticipantConnected ?i] @ (if pt_state ?p = PsActive then [ParticipantActive ?i] else []) @ out1"
    using up u False new by (auto simp: update_unknown_def Let_def)
  have "view_events out1 ((room_view r)(?i := Some {})) = (room_view r)(?i := Some (tracks_of p'))" using e new by simp
  then have "room_view r' = view_events out (room_view r)" using res by simp
  moreover have "room_inv idof r'" using inv p' id res by (auto intro: room_inv_set_participant)
  moreover have "roster_of r' = roster_update info (roster_of r)" using p' res False rem by (intro roster_of_update) auto
  ultimately show ?thesis using res by (simp add: update_effect_def room_frame_def)
qed

lemma roster_update_stale:
  assumes "rm_local r1 = rm_local r" and "\<And>k. k \<noteq> pi_identity info \<Longrightarrow> hm_get (rm_participants r1) k = hm_get (rm_participants r) k"
    and "\<not> (pi_sid info = pt_sid (rm_local r) \<or> pi_identity info = pt_identity (rm_local r))"
  shows "roster_update info (roster_of r1) = roster_update info (roster_of r)"
  using assms by (auto simp: roster_of_def fun_eq_iff)

lemma update_participant_remote:
  assumes inv: "room_inv idof r" and id: "pi_identity info = idof (pi_sid info)" and up: "update_participant info r = Some (r', out, ps)"
    and rem: "\<not> (pi_sid info = pt_sid (rm_local r) \<or> pi_identity info = pt_identity (rm_local r))"
  shows "update_effect idof [info] r r' out"
proof -
  let ?i = "pi_identity info" and ?sid = "pi_sid info"
  obtain r1 out0 where st: "disconnect_stale ?sid ?i r = (r1, out0)" by fastforce
  note s = disconnect_stale_effect [OF inv st id [symmetric]]
  have inv1: "room_inv idof r1" and loc1: "rm_local r1 = rm_local r" and frame1: "room_frame r r1"
    and view1: "room_view r1 = view_events out0 (room_view r)"
    and others: "\<And>k. k \<noteq> ?i \<Longrightarrow> hm_get (rm_participants r1) k = hm_get (rm_participants r) k"
    and same: "\<And>p. hm_get (rm_participants r1) ?i = Some p \<Longrightarrow> pt_sid p = ?sid"
    using s by blast+
  have rem1: "\<not> (?sid = pt_sid (rm_local r1) \<or> ?i = pt_identity (rm_local r1))" using loc1 rem by simp
  have ok: "from_prefix PARTICIPANT_PREFIX ?sid = Some ?sid"
    using up by (auto simp: update_participant_def split: option.splits dest: from_prefix_Some)
  have "\<exists>out1. update_effect idof [info] r1 r' out1 \<and> out = out0 @ out1"
  proof (cases "get_participant_by_sid ?sid r1")
    case (Some kp)
    obtain k p where kp: "kp = (k, p)" by (cases kp)
    note g = by_sid_Some [OF inv1 Some [unfolded kp]]
    have k: "k = ?i" using g id by simp
    have get: "hm_get (rm_participants r1) ?i = Some p" by (rule conjunct1 [OF g [unfolded k]])
    have "update_participant info r = (case update_known info ?i p r1 of None \<Rightarrow> None | Some (r, out, ps) \<Rightarrow> Some (r, out0 @ out, ps))"
      by (simp only: update_participant_def ok st rem Some kp k option.case prod.case Let_def if_False)
    then obtain out1 where u: "update_known info ?i p r1 = Some (r', out1, ps)" "out = out0 @ out1"
      using up by (simp split: option.splits prod.splits)
    from update_known_effect [OF inv1 id get u(1) rem1] u(2) show ?thesis by blast
  next
    case None
    have absent: "hm_get (rm_participants r1) ?i = None"
    proof (rule ccontr)
      assume "hm_get (rm_participants r1) ?i \<noteq> None"
      then obtain p where "hm_get (rm_participants r1) ?i = Some p" by blast
      then show False using by_sid_None [OF None] same by blast
    qed
    have "update_participant info r = (case update_unknown info r1 of None \<Rightarrow> None | Some (r, out, ps) \<Rightarrow> Some (r, out0 @ out, ps))"
      by (simp only: update_participant_def ok st rem None option.case prod.case Let_def if_False)
    then obtain out1 where u: "update_unknown info r1 = Some (r', out1, ps)" "out = out0 @ out1"
      using up by (simp split: option.splits prod.splits)
    from update_unknown_effect [OF inv1 id absent u(1) rem1] u(2) show ?thesis by blast
  qed
  then obtain out1 where e: "update_effect idof [info] r1 r' out1" "out = out0 @ out1" by blast
  have "roster_update info (roster_of r1) = roster_update info (roster_of r)" using loc1 others rem by (rule roster_update_stale)
  then show ?thesis using e frame1 view1 by (simp add: update_effect_def room_frame_def)
qed

lemma update_loop_effect:
  "room_inv idof r \<Longrightarrow> list_all (\<lambda>info. pi_identity info = idof (pi_sid info)) infos \<Longrightarrow> update_loop infos r = Some (r', out, ps) \<Longrightarrow>
    update_effect idof infos r r' out"
proof (induction infos arbitrary: r r' out ps)
  case Nil
  then show ?case by (simp add: update_effect_def)
next
  case (Cons info infos)
  then obtain r1 out1 ps1 out2 ps2 where s: "update_participant info r = Some (r1, out1, ps1)" "update_loop infos r1 = Some (r', out2, ps2)"
    "out = out1 @ out2"
    by (auto split: option.splits)
  have "update_effect idof [info] r r1 out1"
    using update_participant_local [OF Cons.prems(1) s(1)] update_participant_remote [OF Cons.prems(1) _ s(1)] Cons.prems(2) by auto
  moreover from this have "update_effect idof infos r1 r' out2"
    using Cons.IH [OF _ _ s(2)] Cons.prems(2) by (simp add: update_effect_def)
  ultimately show ?case using s(3) by (simp add: update_effect_def room_frame_def)
qed

lemma handle_participant_update_effect:
  assumes "room_inv idof r" and "list_all (\<lambda>info. pi_identity info = idof (pi_sid info)) infos" and "handle_participant_update infos r = Some (r', out)"
  shows "update_effect idof infos r r' out"
proof -
  from assms(3) obtain ps out1 where u: "update_loop infos r = Some (r', out1, ps)" "out = out1 @ (if ps = [] then [] else [ParticipantsUpdated ps])"
    by (auto simp: handle_participant_update_def split: option.splits)
  from update_loop_effect [OF assms(1,2) u(1)] u(2) show ?thesis by (simp add: update_effect_def)
qed

text \<open>Valid information is handled without a panic.\<close>

lemma update_participant_total:
  assumes "valid_info info"
  shows "update_participant info r \<noteq> None"
proof -
  have known: "update_known info k p r \<noteq> None" for k p r
    using remote_update_info_total [OF assms, of "rm_auto_subscribe r" p] by (auto simp: update_known_def split: prod.split)
  have unknown: "update_unknown info r \<noteq> None" for r
    using remote_update_info_total [OF assms, of "rm_auto_subscribe r" "new_participant info"]
    by (auto simp: update_unknown_def Let_def)
  have "pt_update_info info (rm_local r) \<noteq> None" using assms pt_update_info_total by (simp add: valid_info_def)
  then show ?thesis
    using assms
    by (auto simp: update_participant_def valid_info_def Let_def known unknown simp del: not_None_eq split: option.split prod.split)
qed

lemma update_loop_total: "list_all valid_info infos \<Longrightarrow> update_loop infos r \<noteq> None"
proof (induction infos arbitrary: r)
  case Nil
  then show ?case by simp
next
  case (Cons info infos)
  then obtain r1 out1 ps1 where "update_participant info r = Some (r1, out1, ps1)"
    using update_participant_total [of info r] by auto
  with Cons.IH [of r1] Cons.prems show ?case by auto
qed

lemma handle_participant_update_total: "list_all valid_info infos \<Longrightarrow> handle_participant_update infos r \<noteq> None"
  using update_loop_total [of infos r] by (auto simp: handle_participant_update_def split: option.split prod.split)

section \<open>The room as a machine\<close>

text \<open>What reaches the room: messages of the server, data, media tracks, events of the engine, and the end or the panic of a republishing task.\<close>

datatype room_input =
    RiUpdate "participant_info list" | RiSpeakers "speaker_info list" | RiQuality "(string \<times> connection_quality) list"
  | RiData "string option" "string option" stream_encryption | RiStreamHeader string stream_encryption
  | RiMediaTrack string string nat | RiEngine "join_info engine_event" | RiRestartCompleted | RiRestartPanicked

definition handle_media_track :: "string \<Rightarrow> string \<Rightarrow> nat \<Rightarrow> room \<Rightarrow> (room \<times> room_event list) option" where
  "handle_media_track psid tsid track r =
     (case from_prefix PARTICIPANT_PREFIX psid of
        None \<Rightarrow> None
      | Some sid \<Rightarrow>
         (case from_prefix TRACK_PREFIX tsid of
            None \<Rightarrow> Some (r, [])
          | Some tsid \<Rightarrow>
             (case get_participant_by_sid sid r of
                None \<Rightarrow> Some (r, [])
              | Some (k, p) \<Rightarrow> let (p, out) = add_subscribed_media_track tsid track p in Some (set_participant k p r, out))))"

fun room_apply :: "room_input \<Rightarrow> room \<Rightarrow> (room \<times> room_event list) option" where
  "room_apply (RiUpdate infos) r = handle_participant_update infos r"
| "room_apply (RiSpeakers infos) r = handle_speakers_changed infos r"
| "room_apply (RiQuality us) r = handle_connection_quality_update us r"
| "room_apply (RiData sid identity encryption) r = Some (handle_data sid identity encryption r)"
| "room_apply (RiStreamHeader identity encryption) r = Some (mark_data identity encryption r)"
| "room_apply (RiMediaTrack psid tsid track) r = handle_media_track psid tsid track r"
| "room_apply (RiEngine ev) r = on_engine_event ev r"
| "room_apply RiRestartCompleted r = (if 0 < rm_restarts r then Some (restart_completed r) else None)"
| "room_apply RiRestartPanicked r = (if 0 < rm_restarts r then Some (restart_panicked r, []) else None)"

fun room_run :: "room_input list \<Rightarrow> room \<Rightarrow> (room \<times> room_event list) option" where
  "room_run [] r = Some (r, [])"
| "room_run (x # xs) r =
     (case room_apply x r of
        None \<Rightarrow> None
      | Some (r, out1) \<Rightarrow> (case room_run xs r of None \<Rightarrow> None | Some (r, out2) \<Rightarrow> Some (r, out1 @ out2)))"

text \<open>The server's promise about identifiers, for everything in which it describes participants.\<close>

definition infos_ok :: "(string \<Rightarrow> string) \<Rightarrow> participant_info list \<Rightarrow> bool" where
  "infos_ok idof infos \<longleftrightarrow> list_all (\<lambda>info. pi_identity info = idof (pi_sid info)) infos"

fun input_ok :: "(string \<Rightarrow> string) \<Rightarrow> room_input \<Rightarrow> bool" where
  "input_ok idof (RiUpdate infos) \<longleftrightarrow> infos_ok idof infos"
| "input_ok idof (RiEngine (SignalRestarted join)) \<longleftrightarrow> infos_ok idof (ji_others join)"
| "input_ok idof _ \<longleftrightarrow> True"

definition follows :: "(string \<Rightarrow> string) \<Rightarrow> room \<Rightarrow> room \<Rightarrow> room_event list \<Rightarrow> bool" where
  "follows idof r r' out \<longleftrightarrow> room_inv idof r' \<and> room_view r' = view_events out (room_view r)"

lemma follows_trans: "follows idof r r1 xs \<Longrightarrow> follows idof r1 r2 ys \<Longrightarrow> follows idof r r2 (xs @ ys)"
  by (simp add: follows_def)

lemma follows_same:
  "room_inv idof r \<Longrightarrow> rm_participants r' = rm_participants r \<Longrightarrow> list_all silent out \<Longrightarrow> follows idof r r' out"
  by (simp add: follows_def room_inv_def room_view_def view_silent)

lemma follows_set_participant:
  assumes "room_inv idof r" and "hm_get (rm_participants r) k = Some p" and "pt_step p p' out"
  shows "follows idof r (set_participant k p' r) out"
proof -
  note p = room_inv_get [OF assms(1,2)]
  have "room_view r k = Some (tracks_of p)" using assms(2) by (simp add: room_view_def)
  then have "view_events out (room_view r) = (room_view r)(k := Some (tracks_of p'))" using assms(3) p by (simp add: pt_step_def)
  then show ?thesis using assms p by (auto simp: follows_def pt_step_def intro: room_inv_set_participant)
qed

lemma follows_map_participant:
  assumes "room_inv idof r" and "\<And>p. pt_step p (f p) []"
  shows "follows idof r (map_participant ref f r) []"
proof (cases ref)
  case LocalRef
  then show ?thesis using assms(1) by (simp add: follows_same)
next
  case (RemoteRef k)
  then show ?thesis using assms follows_set_participant [of idof r k _ "f _" "[]"]
    by (cases "hm_get (rm_participants r) k") (simp_all add: follows_same)
qed

lemma follows_speakers_loop: "room_inv idof r \<Longrightarrow> speakers_loop ss r = Some (r', refs) \<Longrightarrow> follows idof r r' []"
proof (induction ss arbitrary: r refs)
  case Nil
  then show ?case by (simp add: follows_same)
next
  case (Cons s ss)
  have step: "pt_step p (p\<lparr>pt_speaking := b, pt_audio_level := l\<rparr>) []" for p b l
    by (rule pt_step_silent) (auto simp: pt_inv_def tracks_of_def)
  show ?case
  proof (cases "find_participant (si_sid s) r")
    case None
    then show ?thesis using Cons by (auto split: option.splits dest!: from_prefix_Some)
  next
    case (Some ref)
    let ?r = "map_participant ref (\<lambda>p. p\<lparr>pt_speaking := si_active s, pt_audio_level := si_level s\<rparr>) r"
    from Cons.prems(2) Some obtain refs' where "speakers_loop ss ?r = Some (r', refs')"
      by (auto split: option.splits if_splits dest!: from_prefix_Some)
    moreover have f: "follows idof r ?r []" using follows_map_participant [OF Cons.prems(1) step] .
    ultimately have "follows idof ?r r' []" using Cons.IH [of ?r refs'] unfolding follows_def by blast
    then show ?thesis using follows_trans [OF f] by fastforce
  qed
qed

lemma follows_quality: "room_inv idof r \<Longrightarrow> handle_connection_quality_update us r = Some (r', out) \<Longrightarrow> follows idof r r' out"
proof (induction us r arbitrary: r' out rule: handle_connection_quality_update.induct)
  case (1 r)
  then show ?case by (simp add: follows_same)
next
  case (2 psid q us r)
  have step: "pt_step p (p\<lparr>pt_quality := q\<rparr>) []" for p
    by (rule pt_step_silent) (auto simp: pt_inv_def tracks_of_def)
  from "2.prems"(2) have ok: "from_prefix PARTICIPANT_PREFIX psid = Some psid" by (auto split: option.splits dest: from_prefix_Some)
  show ?case
  proof (cases "find_participant psid r")
    case None
    then show ?thesis using "2.IH"(1) [OF ok None] "2.prems" ok by simp
  next
    case (Some ref)
    let ?r = "map_participant ref (\<lambda>p. p\<lparr>pt_quality := q\<rparr>) r"
    from "2.prems"(2) Some ok obtain out2 where u: "handle_connection_quality_update us ?r = Some (r', out2)"
      "out = QualityChanged (ref_identity ?r ref) q # out2"
      by (auto simp: Let_def split: option.splits)
    have f: "follows idof r ?r []" using follows_map_participant [OF "2.prems"(1) step] .
    then have "follows idof ?r r' out2" using "2.IH"(2) [OF ok Some refl _ u(1)] by (simp add: follows_def)
    then show ?thesis using f u(2) by (simp add: follows_def)
  qed
qed

lemma follows_mark_data: "room_inv idof r \<Longrightarrow> mark_data k encryption r = (r', out) \<Longrightarrow> follows idof r r' out"
  using pt_step_update_data follows_set_participant
  by (auto simp: mark_data_def follows_same split: option.splits prod.splits)

lemma follows_media_track:
  assumes inv: "room_inv idof r" and res: "handle_media_track psid tsid track r = Some (r', out)"
  shows "follows idof r r' out"
proof (cases "get_participant_by_sid psid r")
  case None
  then show ?thesis using assms by (auto simp: handle_media_track_def follows_same split: option.splits dest!: from_prefix_Some)
next
  case (Some kp)
  obtain k p where kp: "kp = (k, p)" by (cases kp)
  note g = by_sid_Some [OF inv Some [unfolded kp]]
  obtain p' out' where a: "add_subscribed_media_track tsid track p = (p', out')" by fastforce
  have "pt_step p p' out'"
  proof (cases "hm_get (pt_publications p) tsid")
    case None
    then show ?thesis using a by (auto simp: add_subscribed_media_track_def intro!: pt_step_silent)
  next
    case (Some pb)
    have inv_p: "pt_inv p" using room_inv_get [OF inv] g by blast
    then have sid: "pb_sid pb = tsid" using Some by (simp add: pt_inv_def)
    obtain p1 out1 where ap: "add_publication pb p = (p1, out1)" by fastforce
    obtain pb' pes where st: "set_track (Some track) pb = (pb', pes)" by fastforce
    note f = update_encryption_status_fields [OF ap [unfolded add_publication_def]]
    have step1: "pt_step p p1 out1" using f sid Some by (intro pt_step_silent) (auto simp: pt_inv_def tracks_of_def split: if_splits)
    have "hm_get (pt_publications p1) tsid = Some pb" using f sid by simp
    then have step2: "pt_step p1 (set_publication tsid pb' p1) (track_events (pt_identity p1) tsid pes)"
      using st by (intro pt_step_set_publication) auto
    show ?thesis using pt_step_trans [OF step1 step2] a Some ap st sid by (simp add: add_subscribed_media_track_def)
  qed
  from follows_set_participant [OF inv conjunct1 [OF g] this] show ?thesis
    using res Some kp a inv by (auto simp: handle_media_track_def follows_same split: option.splits dest!: from_prefix_Some)
qed

lemma follows_disconnect:
  assumes "room_inv idof r" and "hm_get (rm_participants r) (pt_identity p) = Some p" and "handle_participant_disconnect p r = (r', out)"
  shows "follows idof r r' out"
proof -
  note e = disconnect_effect [OF assms(3)]
  have "room_view r (pt_identity p) = Some (tracks_of p)" using assms(2) by (simp add: room_view_def)
  then have "view_events out (room_view r) = (room_view r)(pt_identity p := None)" using e by simp
  moreover have "room_view r' = (room_view r)(pt_identity p := None)" using e by (auto simp: room_view_def)
  ultimately show ?thesis using e room_inv_removed [OF assms(1)] by (simp add: follows_def)
qed

lemma disconnect_all_effect:
  "room_inv idof r \<Longrightarrow> distinct (map pt_identity ps) \<Longrightarrow> list_all (\<lambda>p. hm_get (rm_participants r) (pt_identity p) = Some p) ps \<Longrightarrow>
    disconnect_all ps r = (r', out) \<Longrightarrow>
    follows idof r r' out \<and> rm_local r' = rm_local r \<and> room_frame r r' \<and>
    (\<forall>k. hm_get (rm_participants r') k = (if k \<in> set (map pt_identity ps) then None else hm_get (rm_participants r) k))"
proof (induction ps arbitrary: r r' out)
  case Nil
  then show ?case by (simp add: follows_same)
next
  case (Cons p ps)
  obtain r1 out1 where d: "handle_participant_disconnect p r = (r1, out1)" by fastforce
  obtain r2 out2 where ds: "disconnect_all ps r1 = (r2, out2)" by fastforce
  have res: "r' = r2" "out = out1 @ out2" using Cons.prems(4) d ds by simp_all
  have parts: "rm_participants r1 = hm_remove (pt_identity p) (rm_participants r)" and loc: "rm_local r1 = rm_local r" and frame: "room_frame r r1"
    using disconnect_effect [OF d] by blast+
  have f: "follows idof r r1 out1" using follows_disconnect [OF Cons.prems(1) _ d] Cons.prems(3) by simp
  then have inv1: "room_inv idof r1" by (simp add: follows_def)
  have "list_all (\<lambda>q. hm_get (rm_participants r1) (pt_identity q) = Some q) ps"
    unfolding list_all_iff
  proof (rule ballI)
    fix q
    assume q: "q \<in> set ps"
    then have "pt_identity q \<in> set (map pt_identity ps)" by simp
    then have "pt_identity q \<noteq> pt_identity p" using Cons.prems(2) by (metis distinct.simps(2) list.simps(9))
    moreover have "hm_get (rm_participants r) (pt_identity q) = Some q" using Cons.prems(3) q by (simp add: list_all_iff)
    ultimately show "hm_get (rm_participants r1) (pt_identity q) = Some q" by (simp add: parts)
  qed
  moreover have "distinct (map pt_identity ps)" using Cons.prems(2) by simp
  ultimately have IH: "follows idof r1 r2 out2 \<and> rm_local r2 = rm_local r1 \<and> room_frame r1 r2 \<and>
    (\<forall>k. hm_get (rm_participants r2) k = (if k \<in> set (map pt_identity ps) then None else hm_get (rm_participants r1) k))"
    by (rule Cons.IH [OF inv1 _ _ ds, rotated])
  have "follows idof r r2 (out1 @ out2)" using follows_trans [OF f] IH by blast
  moreover have "room_frame r r2" using frame IH by (simp add: room_frame_def)
  ultimately show ?case using IH loc by (simp add: res parts)
qed

lemma handle_reconnecting_effect:
  "handle_reconnecting r = (r', out) \<Longrightarrow>
    rm_participants r' = rm_participants r \<and> rm_local r' = rm_local r \<and> rm_restarts r' = rm_restarts r \<and> rm_state r' = StReconnecting \<and> list_all silent out"
  by (auto simp: handle_reconnecting_def update_connection_state_def silent_def split: if_splits)

lemma handle_restarting_effect:
  assumes inv: "room_inv idof r" and "handle_restarting r = (r', out)"
  shows "follows idof r r' out \<and> rm_local r' = rm_local r \<and> rm_restarts r' = rm_restarts r \<and> rm_state r' = StReconnecting \<and>
    (\<forall>k. hm_get (rm_participants r') k = None)"
proof -
  let ?ps = "map snd (rm_participants r)"
  obtain r1 out1 where d: "disconnect_all ?ps r = (r1, out1)" by fastforce
  obtain r2 out2 where h: "handle_reconnecting r1 = (r2, out2)" by fastforce
  have res: "r' = r2" "out = out1 @ out2" using assms(2) d h by (simp_all add: handle_restarting_def)
  have mem: "hm_get (rm_participants r) k = Some p \<and> pt_identity p = k" if "(k, p) \<in> set (rm_participants r)" for k p
    using that inv by (auto simp: room_inv_def hm_in_set)
  have ids: "map pt_identity ?ps = map fst (rm_participants r)" using mem by (auto simp: map_idI)
  have "distinct (map pt_identity ?ps)" unfolding ids using inv by (simp add: room_inv_def hm_inv_def)
  moreover have "list_all (\<lambda>p. hm_get (rm_participants r) (pt_identity p) = Some p) ?ps" using mem by (auto simp: list_all_iff)
  ultimately have e: "follows idof r r1 out1" "rm_local r1 = rm_local r" "room_frame r r1"
    "\<And>k. hm_get (rm_participants r1) k = (if k \<in> set (map fst (rm_participants r)) then None else hm_get (rm_participants r) k)"
    using disconnect_all_effect [OF inv _ _ d] unfolding ids by auto
  note h' = handle_reconnecting_effect [OF h]
  have "follows idof r1 r2 out2" using h' e(1) by (intro follows_same) (auto simp: follows_def)
  moreover have "hm_get (rm_participants r2) k = None" for k
    using e(4) [of k] h' by (auto simp: map_of_eq_None_iff)
  ultimately show ?thesis using follows_trans [OF e(1)] h' e res by (simp add: room_frame_def)
qed

lemma handle_room_update_fields [simp]:
  "rm_participants (fst (handle_room_update pr r)) = rm_participants r" "rm_local (fst (handle_room_update pr r)) = rm_local r"
  "rm_state (fst (handle_room_update pr r)) = rm_state r" "rm_restarts (fst (handle_room_update pr r)) = rm_restarts r"
  by (simp_all add: handle_room_update_def Let_def)

lemma handle_signal_restarted_effect:
  assumes inv: "room_inv idof r" and ok: "infos_ok idof (ji_others join)" and res: "handle_signal_restarted join r = Some (r', out)"
  shows "follows idof r r' out \<and> room_frame r r' \<and>
    roster_of r' = fold roster_update (ji_others join) (pi_sid (ji_participant join), pi_identity (ji_participant join), snd (snd (roster_of r)))"
proof -
  from res obtain l out1 r2 out2 where u: "pt_update_info (ji_participant join) (rm_local r) = Some (l, out1)"
    "handle_participant_update (ji_others join) (r\<lparr>rm_local := l\<rparr>) = Some (r2, out2)" "r' = fst (handle_room_update (ji_room join) r2)" "out = out1 @ out2"
    by (auto simp: handle_signal_restarted_def split: option.splits)
  note f = pt_update_info_fields [OF u(1)]
  let ?r = "r\<lparr>rm_local := l\<rparr>"
  have f1: "follows idof r ?r out1" using inv f by (intro follows_same) auto
  then have inv1: "room_inv idof ?r" by (simp add: follows_def)
  note e = handle_participant_update_effect [OF inv1 ok [unfolded infos_ok_def] u(2)]
  have "follows idof ?r r' out2" using e u(3) by (simp add: follows_def update_effect_def room_inv_def room_view_def)
  moreover have "roster_of r' = roster_of r2" using u(3) by (simp add: roster_of_def)
  moreover have "roster_of ?r = (pi_sid (ji_participant join), pi_identity (ji_participant join), snd (snd (roster_of r)))"
    using f by (simp add: roster_of_def)
  ultimately show ?thesis using follows_trans [OF f1] e u(3,4) by (simp add: update_effect_def room_frame_def)
qed

section \<open>Runs\<close>

lemma follows_apply:
  assumes "room_inv idof r" and "input_ok idof x" and "room_apply x r = Some (r', out)"
  shows "follows idof r r' out"
proof (cases x)
  case (RiUpdate infos)
  then show ?thesis using assms handle_participant_update_effect [of idof r infos r' out]
    by (simp add: infos_ok_def update_effect_def follows_def)
next
  case (RiSpeakers infos)
  then obtain r1 refs where s: "speakers_loop infos r = Some (r1, refs)" and r: "rm_participants r' = rm_participants r1" "list_all silent out"
    using assms(3) by (auto simp: handle_speakers_changed_def Let_def split: option.splits if_splits)
  have f: "follows idof r r1 []" using follows_speakers_loop [OF assms(1) s] .
  then have "follows idof r1 r' out" using r by (intro follows_same) (simp_all add: follows_def)
  then show ?thesis using follows_trans [OF f] by fastforce
next
  case (RiQuality us)
  then show ?thesis using assms follows_quality by simp
next
  case (RiData sid identity encryption)
  then show ?thesis using assms follows_mark_data
    by (auto simp: handle_data_def follows_same split: option.splits)
next
  case (RiStreamHeader identity encryption)
  then show ?thesis using assms follows_mark_data by simp
next
  case (RiMediaTrack psid tsid track)
  then show ?thesis using assms follows_media_track by simp
next
  case (RiEngine ev)
  have silent_state: "silent (ConnectionStateChanged st)" "silent RoomReconnecting" "silent RoomReconnected" "silent (RoomDisconnected d)" for st d
    by (simp_all add: silent_def)
  show ?thesis
  proof (cases ev)
    case Resuming
    then show ?thesis using assms RiEngine handle_reconnecting_effect by (auto intro: follows_same)
  next
    case Resumed
    then show ?thesis using assms RiEngine silent_state
      by (intro follows_same) (auto simp: handle_resumed_def update_connection_state_def split: if_splits)
  next
    case SignalResumed
    then show ?thesis using assms RiEngine by (auto intro: follows_same)
  next
    case Restarting
    then show ?thesis using assms RiEngine handle_restarting_effect [OF assms(1)] by auto
  next
    case Restarted
    then show ?thesis using assms RiEngine by (auto simp: handle_restarted_def intro: follows_same)
  next
    case (SignalRestarted join)
    then show ?thesis using assms RiEngine handle_signal_restarted_effect [OF assms(1)] by auto
  next
    case (Disconnected d)
    then show ?thesis using assms RiEngine silent_state
      by (intro follows_same) (auto simp: handle_disconnected_def update_connection_state_def split: if_splits)
  qed
next
  case RiRestartCompleted
  then show ?thesis using assms
    by (intro follows_same) (auto simp: restart_completed_def update_connection_state_def silent_def split: if_splits)
next
  case RiRestartPanicked
  then show ?thesis using assms by (intro follows_same) (auto simp: restart_panicked_def split: if_splits)
qed

lemma follows_run:
  "room_inv idof r \<Longrightarrow> list_all (input_ok idof) xs \<Longrightarrow> room_run xs r = Some (r', out) \<Longrightarrow> follows idof r r' out"
proof (induction xs arbitrary: r out)
  case Nil
  then show ?case by (simp add: follows_same)
next
  case (Cons x xs)
  then obtain r1 out1 out2 where s: "room_apply x r = Some (r1, out1)" "room_run xs r1 = Some (r', out2)" "out = out1 @ out2"
    by (auto split: option.splits)
  have f: "follows idof r r1 out1" using follows_apply [OF Cons.prems(1) _ s(1)] Cons.prems(2) by simp
  then have "room_inv idof r1" by (simp add: follows_def)
  from Cons.IH [OF this _ s(2)] Cons.prems(2) have "follows idof r1 r' out2" by simp
  then show ?case using follows_trans [OF f] s(3) by simp
qed

section \<open>The connection state\<close>

text \<open>Whether the room has been told that the connection is being recovered and not yet how that ended.\<close>

fun awaits_event :: "'j engine_event \<Rightarrow> bool \<Rightarrow> bool" where
  "awaits_event Resuming b \<longleftrightarrow> True"
| "awaits_event Restarting b \<longleftrightarrow> True"
| "awaits_event Resumed b \<longleftrightarrow> False"
| "awaits_event Restarted b \<longleftrightarrow> False"
| "awaits_event (engine_event.Disconnected d) b \<longleftrightarrow> False"
| "awaits_event SignalResumed b \<longleftrightarrow> b"
| "awaits_event (SignalRestarted j) b \<longleftrightarrow> b"

definition settled_inv :: "'j engine \<Rightarrow> bool" where
  "settled_inv s \<longleftrightarrow> (eg_reconnecting s \<longleftrightarrow> eg_reconnect s \<noteq> None \<or> eg_panicked s) \<and> (eg_panicked s \<longrightarrow> eg_reconnect s = None) \<and>
     (\<not> eg_panicked s \<and> eg_reconnect s \<in> {None, Some RpLock, Some RpFinish} \<longrightarrow> \<not> fold awaits_event (eg_events s) False)"

lemma settled_inv_reconnect:
  "settled_inv s \<Longrightarrow> eg_reconnect s = Some pc \<Longrightarrow> settled_inv (reconnect_step pc res s)"
  by (cases pc; cases res)
    (auto simp: settled_inv_def resume_failed_def attempt_failed_def close_begin_def emit_def goto_def split: option.splits)

lemma settled_inv_apply: "settled_inv s \<Longrightarrow> engine_apply e s = Some s' \<Longrightarrow> settled_inv s'"
proof (cases e)
  case (SessionClose action reason now)
  assume "settled_inv s" "engine_apply e s = Some s'"
  then show ?thesis using SessionClose
    by (cases action) (auto simp: settled_inv_def on_session_close_def reconnection_needed_def split: if_splits)
next
  case (CloserStep i)
  assume "settled_inv s" "engine_apply e s = Some s'"
  then show ?thesis using CloserStep by (auto simp: settled_inv_def close_begin_def split: if_splits engine_close_pc.splits)
next
  case (ReconnectStep res)
  assume "settled_inv s" "engine_apply e s = Some s'"
  then show ?thesis using ReconnectStep settled_inv_reconnect by (auto split: option.splits)
next
  case (CloserPanics i)
  assume "settled_inv s" "engine_apply e s = Some s'"
  then show ?thesis using CloserPanics
    by (auto simp: settled_inv_def session_close_panics_def split: if_splits engine_close_pc.splits option.splits)
next
  case ReconnectPanics
  assume "settled_inv s" "engine_apply e s = Some s'"
  then obtain pc where "reconnect_panics pc s = Some s'" "eg_reconnect s = Some pc" using ReconnectPanics by (auto split: option.splits)
  with \<open>settled_inv s\<close> show ?thesis
    by (cases pc) (auto simp: settled_inv_def reconnect_died_def session_close_panics_def split: option.splits)
qed (auto simp: settled_inv_def)

interpretation egs: enabled_machine engine_apply engine_new settled_inv
  by unfold_locales (simp add: settled_inv_def engine_new_def, rule settled_inv_apply)

fun engine_part :: "room_input list \<Rightarrow> join_info engine_event list" where
  "engine_part [] = []"
| "engine_part (RiEngine ev # xs) = ev # engine_part xs"
| "engine_part (_ # xs) = engine_part xs"

lemma disconnect_frame: "handle_participant_disconnect p r = (r', out) \<Longrightarrow> room_frame r r'"
  using disconnect_effect by blast

lemma room_frame_trans: "room_frame r r1 \<Longrightarrow> room_frame r1 r2 \<Longrightarrow> room_frame r r2"
  by (simp add: room_frame_def)

lemma set_participant_frame [simp]: "room_frame r (set_participant k p r)" "room_frame r (r\<lparr>rm_local := l\<rparr>)"
  by (simp_all add: room_frame_def)

lemma update_participant_frame: "update_participant info r = Some (r', out, ps) \<Longrightarrow> room_frame r r'"
proof -
  assume up: "update_participant info r = Some (r', out, ps)"
  have known: "room_frame r r'" if "update_known info k p r = Some (r', out, ps)" for k p r r' out ps
    using that by (auto simp: update_known_def split: option.splits if_splits prod.splits intro: room_frame_trans disconnect_frame dest!: disconnect_frame)
      (simp add: room_frame_def)
  have unknown: "room_frame r r'" if "update_unknown info r = Some (r', out, ps)" for r r' out ps
    using that by (auto simp: update_unknown_def Let_def split: option.splits if_splits)
  have stale: "room_frame r r'" if "disconnect_stale sid i r = (r', out)" for sid i r r' out
    using that disconnect_frame by (auto simp: disconnect_stale_def split: option.splits if_splits)
  show ?thesis
    using up
    by (auto simp: update_participant_def Let_def split: option.splits if_splits prod.splits
        dest!: known unknown stale intro: room_frame_trans)
qed

lemma update_loop_frame: "update_loop infos r = Some (r', out, ps) \<Longrightarrow> room_frame r r'"
proof (induction infos arbitrary: r out ps)
  case Nil
  then show ?case by simp
next
  case (Cons info infos)
  then obtain r1 out1 ps1 out2 ps2 where "update_participant info r = Some (r1, out1, ps1)" "update_loop infos r1 = Some (r', out2, ps2)"
    by (auto split: option.splits)
  then show ?case using Cons.IH room_frame_trans update_participant_frame by blast
qed

lemma map_participant_frame: "room_frame r (map_participant ref f r)"
  by (cases ref) (auto simp: room_frame_def split: option.splits)

lemma speakers_loop_frame: "speakers_loop ss r = Some (r', refs) \<Longrightarrow> room_frame r r'"
proof (induction ss arbitrary: r refs)
  case Nil
  then show ?case by simp
next
  case (Cons s ss)
  show ?case
  proof (cases "find_participant (si_sid s) r")
    case None
    then show ?thesis using Cons by (auto split: option.splits dest!: from_prefix_Some)
  next
    case (Some ref)
    let ?r = "map_participant ref (\<lambda>p. p\<lparr>pt_speaking := si_active s, pt_audio_level := si_level s\<rparr>) r"
    from Cons.prems Some obtain refs' where "speakers_loop ss ?r = Some (r', refs')"
      by (auto split: option.splits if_splits dest!: from_prefix_Some)
    from room_frame_trans [OF map_participant_frame Cons.IH [OF this]] show ?thesis .
  qed
qed

lemma quality_frame: "handle_connection_quality_update us r = Some (r', out) \<Longrightarrow> room_frame r r'"
proof (induction us arbitrary: r out)
  case Nil
  then show ?case by simp
next
  case (Cons u us)
  obtain psid q where u: "u = (psid, q)" by (cases u)
  show ?case
  proof (cases "find_participant psid r")
    case None
    then show ?thesis using Cons u by (auto split: option.splits dest!: from_prefix_Some)
  next
    case (Some ref)
    from Cons.prems Some u obtain out2 where "handle_connection_quality_update us (map_participant ref (\<lambda>p. p\<lparr>pt_quality := q\<rparr>) r) = Some (r', out2)"
      by (auto simp: Let_def split: option.splits dest!: from_prefix_Some)
    from room_frame_trans [OF map_participant_frame Cons.IH [OF this]] show ?thesis .
  qed
qed

lemma mark_data_frame: "mark_data k encryption r = (r', out) \<Longrightarrow> room_frame r r'"
  by (auto simp: mark_data_def split: option.splits prod.splits)

lemma disconnect_all_frame: "disconnect_all ps r = (r', out) \<Longrightarrow> room_frame r r'"
proof (induction ps arbitrary: r out)
  case Nil
  then show ?case by simp
next
  case (Cons p ps)
  then show ?case by (auto split: prod.splits intro: room_frame_trans disconnect_frame)
qed

lemma handle_update_frame: "handle_participant_update infos r = Some (r', out) \<Longrightarrow> room_frame r r'"
  using update_loop_frame by (auto simp: handle_participant_update_def split: option.splits)

text \<open>
  While the room says that it is reconnecting, either the end has not been told, or a republishing task is under way, or one has panicked.
\<close>

lemma connection_apply:
  assumes "room_apply x r = Some (r', out)" and "rm_state r = StReconnecting \<longrightarrow> aw \<or> 0 < rm_restarts r \<or> died"
  shows "rm_state r' = StReconnecting \<longrightarrow> fold awaits_event (engine_part [x]) aw \<or> 0 < rm_restarts r' \<or> died \<or> x = RiRestartPanicked"
proof (cases x)
  case (RiUpdate infos)
  then show ?thesis using assms handle_update_frame by (fastforce simp: room_frame_def)
next
  case (RiSpeakers infos)
  then show ?thesis using assms
    by (auto simp: handle_speakers_changed_def Let_def room_frame_def split: option.splits if_splits dest!: speakers_loop_frame)
next
  case (RiQuality us)
  then show ?thesis using assms quality_frame by (fastforce simp: room_frame_def)
next
  case (RiData sid identity encryption)
  then show ?thesis using assms mark_data_frame by (fastforce simp: handle_data_def room_frame_def split: option.splits)
next
  case (RiStreamHeader identity encryption)
  then show ?thesis using assms mark_data_frame by (fastforce simp: room_frame_def)
next
  case (RiMediaTrack psid tsid track)
  then show ?thesis using assms by (auto simp: handle_media_track_def split: option.splits prod.splits)
next
  case (RiEngine ev)
  show ?thesis
  proof (cases ev)
    case (SignalRestarted join)
    then obtain l r2 out2 where "handle_participant_update (ji_others join) (r\<lparr>rm_local := l\<rparr>) = Some (r2, out2)"
      "r' = fst (handle_room_update (ji_room join) r2)"
      using assms(1) RiEngine by (auto simp: handle_signal_restarted_def split: option.splits)
    then show ?thesis using assms(2) RiEngine SignalRestarted handle_update_frame by (fastforce simp: room_frame_def)
  qed (use assms RiEngine in \<open>auto simp: handle_resumed_def handle_restarted_def handle_disconnected_def update_connection_state_def split: if_splits\<close>)
next
  case RiRestartCompleted
  then show ?thesis using assms by (auto simp: restart_completed_def update_connection_state_def split: if_splits)
qed (use assms in simp)

lemma engine_part_Cons: "engine_part (x # xs) = engine_part [x] @ engine_part xs"
  by (cases x) simp_all

lemma connection_run:
  "room_run xs r = Some (r', out) \<Longrightarrow> (rm_state r = StReconnecting \<longrightarrow> aw \<or> 0 < rm_restarts r \<or> died) \<Longrightarrow>
    rm_state r' = StReconnecting \<longrightarrow> fold awaits_event (engine_part xs) aw \<or> 0 < rm_restarts r' \<or> died \<or> RiRestartPanicked \<in> set xs"
proof (induction xs arbitrary: r out aw died)
  case Nil
  then show ?case by simp
next
  case (Cons x xs)
  then obtain r1 out1 out2 where s: "room_apply x r = Some (r1, out1)" "room_run xs r1 = Some (r', out2)"
    by (auto split: option.splits)
  have "rm_state r1 = StReconnecting \<longrightarrow>
      fold awaits_event (engine_part [x]) aw \<or> 0 < rm_restarts r1 \<or> died \<or> x = RiRestartPanicked"
    by (rule connection_apply [OF s(1) Cons.prems(2)])
  from Cons.IH [OF s(2) this] show ?case by (auto simp: engine_part_Cons [of x xs])
qed

section \<open>Properties\<close>

text \<open>
  C18: The participants are what the server said.  Handling an update refines the roster: as long as the server gives no identifier to two
  identities and its information is valid, there is no panic, and the identifier and the tracks of every participant, and who is there at all, are those the infos leave
  behind when they are applied in order to a map, whatever tracks, subscriptions or stale participants the room held.
\<close>

theorem room_follows_server:
  assumes "room_inv idof r" and "infos_ok idof infos" and "list_all valid_info infos"
  shows "\<exists>r' out. handle_participant_update infos r = Some (r', out) \<and> room_inv idof r' \<and>
    roster_of r' = fold roster_update infos (roster_of r)"
proof -
  obtain r' out where u: "handle_participant_update infos r = Some (r', out)"
    using handle_participant_update_total [OF assms(3), of r] by auto
  from handle_participant_update_effect [OF assms(1) assms(2) [unfolded infos_ok_def] u] u show ?thesis
    by (auto simp: update_effect_def)
qed

text \<open>A room with Bob in it, for the witnesses: he has published a camera, and Ann is the local participant.\<close>

definition info_named :: "string \<Rightarrow> string \<Rightarrow> participant_state \<Rightarrow> track_info list \<Rightarrow> participant_info" where
  "info_named sid identity st tracks =
     \<lparr>pi_sid = sid, pi_identity = identity, pi_name = identity, pi_state = st, pi_metadata = [], pi_attributes = [], pi_permission = None,
      pi_kind = Standard, pi_kind_details = [], pi_reason = UnknownReason, pi_joined_at = 0, pi_tracks = tracks\<rparr>"

definition camera :: track_info where
  "camera = \<lparr>ti_sid = ''TR_c'', ti_name = ''camera'', ti_type = VideoTrack, ti_muted = False, ti_encryption = NoEncryption,
     ti_mime_type = ''video/vp8'', ti_dimension = (0, 0), ti_simulcast = False, ti_layers = 0, ti_codec_layers = []\<rparr>"

definition empty_room :: room where
  "empty_room = \<lparr>rm_local = participant_new Standard [] ''PA_a'' ''ann'' ''Ann'' PsActive [] [] 0 None, rm_participants = [],
     rm_state = StConnected, rm_info = \<lparr>ri_sid = None, ri_metadata = [], ri_name = ''r'', ri_empty_timeout = 0, ri_departure_timeout = 0,
       ri_max_participants = 0, ri_num_participants = 0, ri_num_publishers = 0, ri_active_recording = False, ri_creation_time = 0\<rparr>,
     rm_sid_promise = None, rm_active_speakers = [], rm_auto_subscribe = True, rm_restarts = 0\<rparr>"

definition identity_of :: "string \<Rightarrow> string" where
  "identity_of sid = (if sid = ''PA_a'' then ''ann'' else ''bob'')"

lemma empty_room_inv: "room_inv identity_of empty_room"
  by (simp add: room_inv_def empty_room_def)

definition bob_info :: participant_info where
  "bob_info = info_named ''PA_b'' ''bob'' PsActive [camera]"

lemma bob_ok: "infos_ok identity_of [bob_info]" "list_all valid_info [bob_info]"
  by (simp_all add: infos_ok_def bob_info_def info_named_def identity_of_def valid_info_def valid_track_def camera_def from_prefix_def
      PARTICIPANT_PREFIX_def TRACK_PREFIX_def)

lemma bob_joins: "\<exists>r out. handle_participant_update [bob_info] empty_room = Some (r, out)"
  using handle_participant_update_total [OF bob_ok(2), of empty_room] by auto

theorem room_follows_server_witness:
  "\<exists>r out. handle_participant_update [bob_info] empty_room = Some (r, out) \<and> snd (snd (roster_of r)) ''bob'' = Some (''PA_b'', {''TR_c''})"
proof -
  obtain r out where u: "handle_participant_update [bob_info] empty_room = Some (r, out)"
    and "roster_of r = fold roster_update [bob_info] (roster_of empty_room)"
    using room_follows_server [OF empty_room_inv bob_ok] by blast
  then have "snd (snd (roster_of r)) ''bob'' = Some (''PA_b'', {''TR_c''})"
    by (simp add: bob_info_def info_named_def roster_of_def empty_room_def camera_def participant_new_def)
  then show ?thesis using u by blast
qed

text \<open>
  The events tell the whole story.  Over any run of the room - updates, data, media tracks, speakers, qualities, and resumes
  and full reconnects of the engine - a listener that adds and removes participants and tracks as the events say ends
  with exactly the participants and the published tracks of the room.
\<close>

theorem events_tell_the_room:
  assumes "room_inv idof r" and "list_all (input_ok idof) xs" and "room_run xs r = Some (r', out)"
  shows "room_view r' = view_events out (room_view r)"
  using follows_run [OF assms] by (simp add: follows_def)

theorem events_tell_the_room_witness:
  "\<exists>r out. room_run [RiUpdate [bob_info], RiEngine Restarting] empty_room = Some (r, out) \<and>
    view_events out Map.empty = room_view r"
proof -
  obtain r1 out1 where u: "handle_participant_update [bob_info] empty_room = Some (r1, out1)"
    using bob_joins by blast
  obtain r out where run: "room_run [RiUpdate [bob_info], RiEngine Restarting] empty_room = Some (r, out)"
    using u by (cases "handle_restarting r1") simp
  have ok: "list_all (input_ok identity_of) [RiUpdate [bob_info], RiEngine Restarting]"
    using bob_ok by simp
  have "room_view empty_room = Map.empty" by (simp add: room_view_def empty_room_def)
  then show ?thesis using events_tell_the_room [OF empty_room_inv ok run] run by metis
qed

text \<open>
  A full reconnect starts from the join response.  When the room is told first that the connection restarts and then that it has
  been restarted, its participants are exactly those of the new join response, with the tracks listed there.
\<close>

theorem full_reconnect_replaces:
  assumes "room_inv idof r" and "infos_ok idof (ji_others join)"
    and "room_run [RiEngine Restarting, RiEngine (SignalRestarted join)] r = Some (r', out)"
  shows "roster_of r' = fold roster_update (ji_others join) (pi_sid (ji_participant join), pi_identity (ji_participant join), Map.empty)"
proof -
  obtain r1 out1 where h: "handle_restarting r = (r1, out1)" by fastforce
  note e = handle_restarting_effect [OF assms(1) h]
  from assms(3) h obtain out2 where s: "handle_signal_restarted join r1 = Some (r', out2)" by (auto split: option.splits)
  have "room_inv idof r1" using e by (simp add: follows_def)
  from handle_signal_restarted_effect [OF this assms(2) s]
  have "roster_of r' = fold roster_update (ji_others join) (pi_sid (ji_participant join), pi_identity (ji_participant join), snd (snd (roster_of r1)))"
    by blast
  moreover have "snd (snd (roster_of r1)) = Map.empty" using e by (simp add: roster_of_def)
  ultimately show ?thesis by simp
qed

definition join_alone :: join_info where
  "join_alone = \<lparr>ji_participant = info_named ''PA_a2'' ''ann'' PsActive [], ji_others = [],
     ji_room = \<lparr>pr_sid = ''RM_r'', pr_metadata = [], pr_name = ''r'', pr_empty_timeout = 0, pr_departure_timeout = 0, pr_max_participants = 0,
       pr_num_participants = 1, pr_num_publishers = 0, pr_active_recording = False, pr_creation_time_ms = 0\<rparr>\<rparr>"

lemma join_alone_local: "\<exists>l out. pt_update_info (ji_participant join_alone) p = Some (l, out)"
proof -
  have "from_prefix PARTICIPANT_PREFIX (pi_sid (ji_participant join_alone)) \<noteq> None"
    by (simp add: join_alone_def info_named_def from_prefix_def PARTICIPANT_PREFIX_def)
  from pt_update_info_total [OF this, of p] show ?thesis by auto
qed

lemma signal_restarted_alone:
  "\<exists>r' out. handle_signal_restarted join_alone r = Some (r', out) \<and> rm_participants r' = rm_participants r \<and> rm_state r' = rm_state r \<and>
    rm_restarts r' = rm_restarts r"
proof -
  obtain l out where "pt_update_info (ji_participant join_alone) (rm_local r) = Some (l, out)" using join_alone_local by blast
  moreover have "ji_others join_alone = []" by (simp add: join_alone_def)
  ultimately show ?thesis by (simp add: handle_signal_restarted_def handle_participant_update_def)
qed

theorem full_reconnect_replaces_witness:
  "\<exists>r r' out. get_participant_by_identity ''bob'' r \<noteq> None \<and>
    room_run [RiEngine Restarting, RiEngine (SignalRestarted join_alone)] r = Some (r', out) \<and> roster_of r' = (''PA_a2'', ''ann'', Map.empty)"
proof -
  obtain r out where u: "handle_participant_update [bob_info] empty_room = Some (r, out)"
    using bob_joins by blast
  have e: "update_effect identity_of [bob_info] empty_room r out"
    by (rule handle_participant_update_effect [OF empty_room_inv _ u]) (use bob_ok in \<open>simp add: infos_ok_def\<close>)
  have "snd (snd (roster_of r)) ''bob'' \<noteq> None"
    using e by (simp add: update_effect_def roster_of_def empty_room_def bob_info_def info_named_def participant_new_def)
  then have bob: "get_participant_by_identity ''bob'' r \<noteq> None" by (simp add: roster_of_def get_participant_by_identity_def)
  obtain r' out' where run: "room_run [RiEngine Restarting, RiEngine (SignalRestarted join_alone)] r = Some (r', out')"
    using signal_restarted_alone [of "fst (handle_restarting r)"] by (cases "handle_restarting r") auto
  have inv: "room_inv identity_of r" using e by (simp add: update_effect_def)
  have ok: "infos_ok identity_of (ji_others join_alone)" by (simp add: join_alone_def infos_ok_def)
  from full_reconnect_replaces [OF inv ok run] have "roster_of r' = (''PA_a2'', ''ann'', Map.empty)"
    by (simp add: join_alone_def info_named_def)
  then show ?thesis using bob run by blast
qed

text \<open>
  C19: What keeps the room reconnecting.  When no reconnect task of the engine is left and the room has handled all the engine's
  events in order, whatever else it handled in between, then the room says that it is reconnecting only if the last reconnect task
  has panicked, or a task that publishes the tracks again is still under way, or such a task has panicked.
\<close>

theorem room_settles:
  assumes "engine_reachable s" and "eg_reconnect s = None" and "room_run xs r = Some (r', out)" and "engine_part xs = eg_events s"
    and "rm_state r \<noteq> StReconnecting" and "rm_state r' = StReconnecting"
  shows "eg_panicked s \<or> 0 < rm_restarts r' \<or> RiRestartPanicked \<in> set xs"
proof -
  have "\<not> fold awaits_event (eg_events s) False" if "\<not> eg_panicked s"
    using egs.reachable_inv [OF assms(1)] assms(2) that by (simp add: settled_inv_def)
  then show ?thesis using connection_run [OF assms(3), of False False] assms(4-6) by auto
qed

text \<open>
  A resume whose task panics leaves the room reconnecting: of the three reasons it is the first.
\<close>

theorem room_settles_witness:
  "\<exists>(s :: join_info engine) r' out. engine_run
      [SessionClose Resume SignalCloseReason False, ReconnectStep (Inr join_alone), ReconnectStep (Inr join_alone), ReconnectPanics] engine_new = Some s \<and>
    room_run [RiEngine Resuming] empty_room = Some (r', out) \<and> rm_state r' = StReconnecting \<and> eg_panicked s"
proof -
  obtain s :: "join_info engine" where s: "engine_run
      [SessionClose Resume SignalCloseReason False, ReconnectStep (Inr join_alone), ReconnectStep (Inr join_alone), ReconnectPanics] engine_new = Some s"
    "eg_reconnect s = None" "eg_events s = [Resuming]"
    by (simp add: engine_new_def on_session_close_def reconnection_needed_def RECONNECT_ATTEMPTS_def emit_def goto_def reconnect_died_def)
  obtain r' out where run: "room_run [RiEngine Resuming] empty_room = Some (r', out)" "rm_restarts r' = 0" "rm_state r' = StReconnecting"
    by (simp add: handle_reconnecting_def update_connection_state_def empty_room_def)
  have "engine_part [RiEngine Resuming] = eg_events s" by (simp add: s(3))
  from room_settles [OF run_enabled_reachable [OF reachable_start s(1)] s(2) run(1) this _ run(3)] run(2) have "eg_panicked s"
    by (auto simp: empty_room_def)
  then show ?thesis using s(1) run by blast
qed

text \<open>
  The panic of a republishing task is enough.  After a full reconnect of an engine that is well, the room
  whose republishing task has panicked still says that it is reconnecting, and nothing that would change it is owed to it.
\<close>

theorem panicked_republish_is_stuck:
  "\<exists>(s :: join_info engine) r' out. engine_reachable s \<and> eg_reconnect s = None \<and> \<not> eg_panicked s \<and> \<not> eg_closed s \<and>
    room_run (map RiEngine (eg_events s) @ [RiRestartPanicked]) empty_room = Some (r', out) \<and> rm_state r' = StReconnecting \<and> rm_restarts r' = 0"
proof -
  let ?es = "SessionClose Reconnect ServerShutdown True # replicate 7 (ReconnectStep (Inr join_alone))"
  obtain s :: "join_info engine" where s: "engine_run ?es engine_new = Some s" "eg_reconnect s = None" "\<not> eg_panicked s" "\<not> eg_closed s"
    "eg_events s = [Restarting, SignalRestarted join_alone, Restarted]"
    by (simp add: numeral_eq_Suc engine_new_def on_session_close_def reconnection_needed_def RECONNECT_ATTEMPTS_def emit_def goto_def
        take_engine_task_def)
  obtain r1 out1 where h: "handle_restarting empty_room = (r1, out1)" by fastforce
  have r1: "rm_state r1 = StReconnecting" "rm_restarts r1 = 0"
    using handle_restarting_effect [OF empty_room_inv h] by (simp_all add: empty_room_def)
  obtain r2 out2 where j: "handle_signal_restarted join_alone r1 = Some (r2, out2)" "rm_state r2 = rm_state r1" "rm_restarts r2 = rm_restarts r1"
    using signal_restarted_alone [of r1] by auto
  obtain r' out where "room_run (map RiEngine (eg_events s) @ [RiRestartPanicked]) empty_room = Some (r', out)"
    "rm_state r' = StReconnecting" "rm_restarts r' = 0"
    using h j r1 by (simp add: s(5) handle_restarted_def restart_panicked_def)
  then show ?thesis using s(2-4) run_enabled_reachable [OF reachable_start s(1)] by blast
qed

text \<open>
  A full reconnect that follows a failed resume keeps the participants that are gone.  The engine announces such a reconnect with
  no more than the new join response and its success: there is an engine that has done so, with a join response that
  lists nobody, and after its events every room still has all its participants.
\<close>

theorem escalated_reconnect_keeps_participants:
  "\<exists>(s :: join_info engine) r' out. engine_reachable s \<and> eg_session s = 1 \<and> \<not> eg_closed s \<and> eg_reconnect s = None \<and>
    eg_events s = [Resuming, SignalRestarted join_alone, Restarted] \<and> ji_others join_alone = [] \<and>
    room_run (map RiEngine (eg_events s) @ [RiRestartCompleted]) r = Some (r', out) \<and>
    rm_state r' = StConnected \<and> rm_participants r' = rm_participants r"
proof -
  let ?es = "[SessionClose Resume SignalCloseReason False, ReconnectStep (Inr join_alone), ReconnectStep (Inr join_alone), ReconnectStep (Inl RtcFailure),
      ReconnectStep (Inr join_alone), ReconnectStep (Inr join_alone), ReconnectStep (Inr join_alone), ReconnectStep (Inr join_alone),
      ReconnectStep (Inr join_alone), ReconnectStep (Inr join_alone), ReconnectStep (Inr join_alone)]"
  obtain s :: "join_info engine" where s: "engine_run ?es engine_new = Some s" "eg_session s = 1" "\<not> eg_closed s" "eg_reconnect s = None"
    "eg_events s = [Resuming, SignalRestarted join_alone, Restarted]"
    by (simp add: engine_new_def on_session_close_def reconnection_needed_def RECONNECT_ATTEMPTS_def emit_def goto_def resume_failed_def
        attempt_failed_def take_engine_task_def)
  obtain r1 out1 where h: "handle_reconnecting r = (r1, out1)" by fastforce
  note e = handle_reconnecting_effect [OF h]
  obtain r2 out2 where j: "handle_signal_restarted join_alone r1 = Some (r2, out2)" "rm_participants r2 = rm_participants r1" "rm_state r2 = rm_state r1"
    using signal_restarted_alone by blast
  obtain r' out where "room_run (map RiEngine (eg_events s) @ [RiRestartCompleted]) r = Some (r', out)" "rm_state r' = StConnected"
    "rm_participants r' = rm_participants r"
    using h e j by (simp add: s(5) handle_restarted_def restart_completed_def update_connection_state_def)
  moreover have "ji_others join_alone = []" by (simp add: join_alone_def)
  ultimately show ?thesis using s(2-5) run_enabled_reachable [OF reachable_start s(1)] by blast
qed

text \<open>The engine's news after a close during a full reconnect leave the room connected, although the engine is closed.\<close>

lemma late_restart_hides_close:
  "\<exists>(s :: join_info engine) r' out. engine_reachable s \<and> eg_closed s \<and> eg_closers s = [] \<and> eg_reconnect s = None \<and>
    room_run (map RiEngine (eg_events s) @ [RiRestartCompleted]) empty_room = Some (r', out) \<and> rm_state r' = StConnected"
proof -
  obtain s :: "join_info engine" where s: "engine_reachable s" "eg_closed s" "eg_closers s = []" "eg_reconnect s = None"
    "eg_events s = [Restarting, SignalRestarted join_alone, engine_event.Disconnected ClientInitiated, Restarted]"
    using close_during_restart [of join_alone] by blast
  obtain r1 out1 where h: "handle_restarting empty_room = (r1, out1)" by fastforce
  obtain r2 out2 where j: "handle_signal_restarted join_alone r1 = Some (r2, out2)" using signal_restarted_alone by blast
  obtain r' out where "room_run (map RiEngine (eg_events s) @ [RiRestartCompleted]) empty_room = Some (r', out)" "rm_state r' = StConnected"
    using h j
    by (cases "rm_state r2 = StDisconnected")
      (simp_all add: s(5) handle_restarted_def restart_completed_def handle_disconnected_def update_connection_state_def)
  then show ?thesis using s by blast
qed

end
