(* ===== verification/LKText.thy ===== *)
theory LKText
  imports Main "HOL-Library.Sublist"
begin

text \<open>
  Rust strings where the code looks at their characters: a \<open>str\<close> is the list of its
  Unicode scalar values, and the methods of \<open>str\<close> that the code calls are functions on
  such lists.  A position is counted in characters here and in bytes in Rust; the code
  only ever uses a position to cut the string it was found in, where the two agree.
  Splitting at a separator and joining with it are inverse to each other; that is what
  the components that rewrite a text line by line rest on.
\<close>

type_synonym rstr = "nat list"

text \<open>A string literal of the Rust code.\<close>

definition lit :: "string \<Rightarrow> rstr" where
  "lit s = map of_char s"

fun strip_prefix :: "rstr \<Rightarrow> rstr \<Rightarrow> rstr option" where
  "strip_prefix [] s = Some s"
| "strip_prefix (x # xs) [] = None"
| "strip_prefix (x # xs) (c # cs) = (if x = c then strip_prefix xs cs else None)"

definition starts_with :: "rstr \<Rightarrow> rstr \<Rightarrow> bool" where
  "starts_with p s \<longleftrightarrow> strip_prefix p s \<noteq> None"

definition ends_with :: "rstr \<Rightarrow> rstr \<Rightarrow> bool" where
  "ends_with p s \<longleftrightarrow> starts_with (rev p) (rev s)"

text \<open>\<open>str::find\<close>: the position of the first occurrence.\<close>

fun find_str :: "rstr \<Rightarrow> rstr \<Rightarrow> nat option" where
  "find_str p [] = (if p = [] then Some 0 else None)"
| "find_str p (c # cs) =
     (if starts_with p (c # cs) then Some 0 else map_option Suc (find_str p cs))"

definition contains_str :: "rstr \<Rightarrow> rstr \<Rightarrow> bool" where
  "contains_str p s \<longleftrightarrow> find_str p s \<noteq> None"

lemma strip_prefix_Some: "strip_prefix p s = Some t \<longleftrightarrow> s = p @ t"
  by (induction p s rule: strip_prefix.induct) auto

lemma strip_prefix_append [simp]: "strip_prefix p (p @ t) = Some t"
  by (simp add: strip_prefix_Some)

lemma strip_prefix_shorter: "strip_prefix (x # p) s = Some t \<Longrightarrow> length t < length s"
  by (simp add: strip_prefix_Some)

lemma starts_with_prefix: "starts_with p s \<longleftrightarrow> prefix p s"
  by (auto simp: starts_with_def strip_prefix_Some prefix_def)

lemma ends_with_suffix: "ends_with p s \<longleftrightarrow> suffix p s"
  by (simp add: ends_with_def starts_with_prefix suffix_to_prefix)

lemma find_str_Some:
  "find_str p s = Some i \<Longrightarrow> i \<le> length s \<and> prefix p (drop i s) \<and> (\<forall>j<i. \<not> prefix p (drop j s))"
proof (induction p s arbitrary: i rule: find_str.induct)
  case (2 p c cs)
  show ?case
  proof (cases "starts_with p (c # cs)")
    case False
    then obtain k where k: "i = Suc k" "find_str p cs = Some k"
      using 2 by auto
    then show ?thesis
      using 2(1)[OF False k(2)] False
      by (auto simp: starts_with_prefix less_Suc_eq_0_disj)
  qed (use 2 in \<open>auto simp: starts_with_prefix\<close>)
qed (auto split: if_splits)

lemma find_str_None: "find_str p s = None \<longleftrightarrow> \<not> sublist p s"
  by (induction p s rule: find_str.induct) (auto simp: starts_with_prefix sublist_Cons_right)

lemma contains_sublist: "contains_str p s \<longleftrightarrow> sublist p s"
  by (auto simp: contains_str_def find_str_None)

text \<open>The first occurrence, described by what stands before and after it.\<close>

lemma find_str_first:
  assumes "\<not> sublist p (butlast (s @ p))"
  shows "find_str p (s @ p @ t) = Some (length s)"
  using assms
proof (induction s)
  case Nil
  then show ?case
    by (cases p) (auto simp: starts_with_prefix)
next
  case (Cons c s)
  have p: "p \<noteq> []"
    using Cons.prems by auto
  have "\<not> sublist p (butlast (s @ p))"
    using Cons.prems p by (auto simp: sublist_Cons_right)
  moreover have "\<not> prefix p (c # s @ p @ t)"
  proof
    assume "prefix p (c # s @ p @ t)"
    moreover have "c # s @ p @ t = (c # butlast (s @ p)) @ [last (s @ p)] @ t"
      using p append_butlast_last_id[of "s @ p"] by (simp del: append_butlast_last_id butlast_append)
    then have "prefix (c # butlast (s @ p)) (c # s @ p @ t)"
      by (metis prefixI)
    moreover have "length p \<le> length (c # butlast (s @ p))"
      using p by (simp add: length_append)
    ultimately have "prefix p (c # butlast (s @ p))"
      by (meson prefix_length_prefix)
    then show False
      using Cons.prems p by (auto simp: prefix_imp_sublist)
  qed
  ultimately show ?case
    using Cons.IH by (simp add: starts_with_prefix)
qed

section \<open>Splitting and joining\<close>

text \<open>\<open>str::split\<close> with the separator \<open>x # xs\<close>, which is never empty.\<close>

function split_str :: "nat \<Rightarrow> rstr \<Rightarrow> rstr \<Rightarrow> rstr list" where
  "split_str x xs [] = [[]]"
| "split_str x xs (c # cs) =
     (case strip_prefix (x # xs) (c # cs) of
        Some rest \<Rightarrow> [] # split_str x xs rest
      | None \<Rightarrow> (case split_str x xs cs of l # ls \<Rightarrow> (c # l) # ls | [] \<Rightarrow> [[c]]))"
  by pat_completeness auto
termination
  by (relation "measure (\<lambda>(x, xs, s). length s)") (auto simp del: strip_prefix.simps dest: strip_prefix_shorter)

fun join_str :: "rstr \<Rightarrow> rstr list \<Rightarrow> rstr" where
  "join_str e [] = []"
| "join_str e [l] = l"
| "join_str e (l # ls) = l @ e @ join_str e ls"

lemma split_str_nonempty [simp]: "split_str x xs s \<noteq> []"
  by (induction x xs s rule: split_str.induct) (auto split: option.splits list.splits)

lemma join_str_Cons: "ls \<noteq> [] \<Longrightarrow> join_str e (l # ls) = l @ e @ join_str e ls"
  by (cases ls) auto

lemma join_split: "join_str (x # xs) (split_str x xs s) = s"
proof (induction x xs s rule: split_str.induct)
  case (2 x xs c cs)
  show ?case
  proof (cases "strip_prefix (x # xs) (c # cs)")
    case None
    obtain l ls where ls: "split_str x xs cs = l # ls"
      by (meson neq_Nil_conv split_str_nonempty)
    then show ?thesis
      using 2(1)[OF None] None by (cases ls) auto
  next
    case (Some rest)
    then show ?thesis
      using 2(2)[OF Some] Some[unfolded strip_prefix_Some]
      by (simp add: join_str_Cons Some del: strip_prefix.simps)
  qed
qed simp

lemma split_str_pieces: "l \<in> set (split_str x xs s) \<Longrightarrow> \<not> sublist (x # xs) l"
proof (induction x xs s arbitrary: l rule: split_str.induct)
  case (2 x xs c cs)
  show ?case
  proof (cases "strip_prefix (x # xs) (c # cs)")
    case None
    obtain l' ls where ls: "split_str x xs cs = l' # ls"
      by (meson neq_Nil_conv split_str_nonempty)
    have "cs = l' @ (if ls = [] then [] else (x # xs) @ join_str (x # xs) ls)"
      using join_split[of x xs cs] ls by (auto simp: join_str_Cons)
    then have "prefix (c # l') (c # cs)"
      by (metis Cons_prefix_Cons prefixI)
    then have "\<not> prefix (x # xs) (c # l')"
      using None prefix_order.trans[of "x # xs" "c # l'" "c # cs"]
        starts_with_prefix[of "x # xs" "c # cs"] by (auto simp: starts_with_def)
    moreover have "\<not> sublist (x # xs) l'"
      using 2(1)[OF None, of l'] ls by simp
    ultimately have "\<not> sublist (x # xs) (c # l')"
      by (simp add: sublist_Cons_right)
    then show ?thesis
      using 2(1)[OF None, of l] 2(3) None ls by auto
  next
    case (Some rest)
    then show ?thesis
      using 2 by auto
  qed
qed auto

text \<open>
  A separator whose first character does not occur again in it cannot straddle a piece
  and the separator that follows it.
\<close>

lemma strip_prefix_straddle:
  "strip_prefix xs (cs @ x # t) \<noteq> None \<Longrightarrow> x \<notin> set xs \<Longrightarrow> strip_prefix xs cs \<noteq> None"
  by (induction xs cs rule: strip_prefix.induct) (auto split: if_splits)

lemma split_str_piece:
  assumes "x \<notin> set xs" and "\<not> sublist (x # xs) l"
  shows "split_str x xs (l @ x # xs @ t) = l # split_str x xs t"
  using assms(2)
proof (induction l)
  case Nil
  then show ?case
    by simp
next
  case (Cons c l)
  have "strip_prefix (x # xs) (c # l @ x # xs @ t) = None"
    using strip_prefix_straddle[of xs l x "xs @ t"] assms(1) Cons.prems
      starts_with_prefix[of "x # xs" "c # l"] prefix_imp_sublist[of "x # xs" "c # l"]
    by (auto simp: starts_with_def split: if_splits)
  moreover have "\<not> sublist (x # xs) l"
    using Cons.prems by (simp add: sublist_Cons_right)
  ultimately show ?case
    using Cons.IH by simp
qed

lemma split_str_single: "\<not> sublist (x # xs) l \<Longrightarrow> split_str x xs l = [l]"
proof (induction l)
  case (Cons c l)
  then have "strip_prefix (x # xs) (c # l) = None" "\<not> sublist (x # xs) l"
    using starts_with_prefix[of "x # xs" "c # l"] prefix_imp_sublist[of "x # xs" "c # l"]
    by (auto simp: starts_with_def sublist_Cons_right)
  then show ?case
    using Cons.IH by simp
qed simp

lemma split_join:
  assumes "x \<notin> set xs"
  shows "ls \<noteq> [] \<Longrightarrow> \<forall>l\<in>set ls. \<not> sublist (x # xs) l \<Longrightarrow> split_str x xs (join_str (x # xs) ls) = ls"
proof (induction ls)
  case (Cons l ls)
  then show ?case
    using split_str_piece[OF assms, of l] by (cases ls) (auto simp: split_str_single)
qed simp

section \<open>White space and numbers\<close>

text \<open>\<open>char::is_whitespace\<close>: the characters with the Unicode property \<open>White_Space\<close>.\<close>

definition is_whitespace :: "nat \<Rightarrow> bool" where
  "is_whitespace c \<longleftrightarrow> 9 \<le> c \<and> c \<le> 13 \<or> c = 32 \<or> c = 133 \<or> c = 160 \<or> c = 5760
     \<or> 8192 \<le> c \<and> c \<le> 8202 \<or> c = 8232 \<or> c = 8233 \<or> c = 8239 \<or> c = 8287 \<or> c = 12288"

definition trim :: "rstr \<Rightarrow> rstr" where
  "trim s = rev (dropWhile is_whitespace (rev (dropWhile is_whitespace s)))"

text \<open>The first and the second item of \<open>str::split_whitespace\<close>, or the empty string.\<close>

definition first_word :: "rstr \<Rightarrow> rstr" where
  "first_word s = takeWhile (\<lambda>c. \<not> is_whitespace c) (dropWhile is_whitespace s)"

definition second_word :: "rstr \<Rightarrow> rstr" where
  "second_word s = first_word (dropWhile (\<lambda>c. \<not> is_whitespace c) (dropWhile is_whitespace s))"

text \<open>The decimal form of an unsigned integer.\<close>

fun decimal :: "nat \<Rightarrow> rstr" where
  "decimal n = (if n < 10 then [48 + n] else decimal (n div 10) @ [48 + n mod 10])"

declare decimal.simps [simp del]

lemma decimal_digits: "c \<in> set (decimal n) \<Longrightarrow> 48 \<le> c \<and> c \<le> 57"
proof (induction n rule: decimal.induct)
  case (1 n)
  then show ?case
    by (cases "n < 10") (auto simp: decimal.simps[of n])
qed

lemma decimal_nonempty [simp]: "decimal n \<noteq> []"
  by (cases "n < 10") (simp_all add: decimal.simps[of n])

text \<open>Trimming keeps what a line starts with, when that begins and ends visibly.\<close>

lemma trim_keeps_prefix:
  assumes "prefix p s" "p \<noteq> []" "\<not> is_whitespace (hd p)" "\<not> is_whitespace (last p)"
  shows "prefix p (trim s)"
proof -
  obtain t where s: "s = p @ t"
    using assms(1) by (auto elim: prefixE)
  obtain h p' where p: "p = h # p'"
    using assms(2) by (cases p) auto
  have "dropWhile is_whitespace s = s"
    using assms(3) by (simp add: s p)
  moreover have "dropWhile is_whitespace (rev t @ rev p) = dropWhile is_whitespace (rev t) @ rev p"
  proof (cases "\<forall>c\<in>set (rev t). is_whitespace c")
    case True
    moreover have "dropWhile is_whitespace (rev p) = rev p"
      using assms(2,4) by (cases p rule: rev_cases) auto
    ultimately show ?thesis
      by (simp add: dropWhile_append)
  qed (auto simp: dropWhile_append)
  ultimately show ?thesis
    by (simp add: trim_def s)
qed

text \<open>What a rewrite inserts cannot complete a separator that shares no character with it.\<close>

lemma sublist_insert:
  assumes "sublist p (a @ m @ b)" "m \<noteq> []" "set m \<inter> set p = {}"
  shows "sublist p a \<or> sublist p b"
proof (cases "p = []")
  case nonempty: False
  obtain u v where uv: "a @ m @ b = u @ p @ v"
    using assms(1) by (auto simp: sublist_def)
  show ?thesis
  proof (cases "length (u @ p) \<le> length a")
    case True
    then have "prefix (u @ p) a"
      by (metis append.assoc prefix_length_prefix prefixI uv)
    then show ?thesis
      by (auto simp: prefix_def sublist_def)
  next
    case False
    show ?thesis
    proof (cases "length (a @ m) \<le> length u")
      case True
      then have "prefix (a @ m) u"
        by (metis append.assoc prefix_length_prefix prefixI uv)
      then obtain w where "u = a @ m @ w"
        by (auto simp: prefix_def)
      then show ?thesis
        using uv by (auto simp: sublist_def)
    next
      case short: False
      define i where "i = max (length a) (length u)"
      have "i < length (a @ m)" "length a \<le> i" "length u \<le> i" "i < length (u @ p)"
        using False short assms(2) nonempty by (auto simp: i_def)
      then have "(a @ m @ b) ! i \<in> set m" "(u @ p @ v) ! i \<in> set p"
        by (auto simp: nth_append intro!: nth_mem)
      then show ?thesis
        using uv assms(3) by auto
    qed
  qed
qed simp

end
