(* ===== verification/LKFloat.thy ===== *)
theory LKFloat
  imports Complex_Main "HOL-Library.Word" "HOL-Library.Log_Nat"
begin

text \<open>
  The floating-point arithmetic of the Rust code, exactly: a finite \<open>f32\<close> or \<open>f64\<close> is the
  rational number it stands for, an operation computes on the rationals and rounds the
  result to the precision of the type (24 or 53 binary digits, ties to even), and a cast
  to an integer truncates and saturates.  Overflow and subnormal numbers are left out:
  every value the modelled code computes comes from integers of at most 64 bits and from
  frame rates, far away from both ends.  Zero has no sign here; no modelled operation
  divides by a zero that could be negative.
\<close>

datatype float = Fin rat | Infinity | NegInfinity | NaN

section \<open>Rounding\<close>

definition round_even :: "rat \<Rightarrow> int" where
  "round_even x =
     (let f = \<lfloor>x\<rfloor>; r = x - of_int f
      in if r < 1 / 2 then f
         else if 1 / 2 < r then f + 1
         else if even f then f else f + 1)"

text \<open>The exponent of a positive number: the largest \<open>e\<close> with \<open>2 powi e \<le> x\<close>.\<close>

definition exponent :: "rat \<Rightarrow> int" where
  "exponent x =
     (if 1 \<le> x then int (floorlog 2 (nat \<lfloor>x\<rfloor>)) - 1 else - int (ceillog2 (nat \<lceil>1 / x\<rceil>)))"

definition ulp :: "nat \<Rightarrow> rat \<Rightarrow> rat" where
  "ulp p x = 2 powi (exponent x - int p + 1)"

text \<open>The number of \<open>p\<close> binary digits closest to \<open>x\<close>.\<close>

definition fl :: "nat \<Rightarrow> rat \<Rightarrow> rat" where
  "fl p x = (if x = 0 then 0
     else sgn x * (of_int (round_even (\<bar>x\<bar> / ulp p \<bar>x\<bar>)) * ulp p \<bar>x\<bar>))"

lemma round_even_mono: "x \<le> y \<Longrightarrow> round_even x \<le> round_even y"
proof -
  assume xy: "x \<le> y"
  show ?thesis
  proof (cases "\<lfloor>x\<rfloor> = \<lfloor>y\<rfloor>")
    case True
    then show ?thesis
      using xy by (auto simp: round_even_def Let_def)
  next
    case False
    then have "\<lfloor>x\<rfloor> + 1 \<le> \<lfloor>y\<rfloor>"
      using floor_mono[OF xy] by simp
    then show ?thesis
      by (auto simp: round_even_def Let_def)
  qed
qed

lemma round_even_int [simp]: "round_even (of_int n) = n"
  by (simp add: round_even_def)

lemma round_even_nonneg: "0 \<le> x \<Longrightarrow> 0 \<le> round_even x"
  using round_even_mono[of 0 x] round_even_int[of 0] by simp

lemma exponent_bounds:
  assumes "0 < x"
  shows "2 powi exponent x \<le> x" "x < 2 powi (exponent x + 1)"
proof -
  have "2 powi exponent x \<le> x \<and> x < 2 powi (exponent x + 1)"
  proof (cases "1 \<le> x")
    case True
    define n where "n = nat \<lfloor>x\<rfloor>"
    have n: "1 \<le> n" "of_nat n \<le> x" "x < of_nat (n + 1)"
      using True by (auto simp: n_def le_nat_floor) linarith+
    define k where "k = floorlog 2 n"
    have k: "2 ^ (k - 1) \<le> n" "n < 2 ^ k" "0 < k"
      using n(1) floorlog_bounds[of n 2] by (auto simp: k_def floorlog_ge_SucI floorlog_def)
    have e: "exponent x = int (k - 1)"
      using True k(3) by (simp add: exponent_def n_def k_def)
    have "(2::rat) ^ (k - 1) \<le> of_nat n" "(of_nat (n + 1) :: rat) \<le> 2 ^ k"
      using k(1,2) by (metis of_nat_le_iff of_nat_numeral of_nat_power,
          metis Suc_eq_plus1 Suc_leI of_nat_le_iff of_nat_numeral of_nat_power)
    moreover have "(2::rat) powi exponent x = 2 ^ (k - 1)" "(2::rat) powi (exponent x + 1) = 2 ^ k"
      using e k(3) by (simp_all only: e power_int_of_nat, simp flip: power_int_of_nat)
    ultimately show ?thesis
      using n(2,3) by (intro conjI; linarith)
  next
    case False
    define n where "n = nat \<lceil>1 / x\<rceil>"
    have x1: "1 < 1 / x"
      using False assms by simp
    have n: "2 \<le> n" "1 / x \<le> of_nat n" "of_nat n < 1 / x + 1"
      using x1 by (auto simp: n_def le_nat_iff) linarith+
    define k where "k = ceillog2 n"
    have k: "n \<le> 2 ^ k" "2 ^ (k - 1) < n" "0 < k"
      using n(1) ceillog2_le_iff[of n k] ceillog2_le_iff[of n "k - 1"] by (auto simp: k_def not_le)
    have e: "exponent x = - int k"
      using False by (simp add: exponent_def n_def k_def)
    have 1: "1 / x \<le> 2 ^ k"
      using k(1) n(2) by (metis of_nat_le_iff of_nat_numeral of_nat_power order_trans)
    have "(2::rat) ^ (k - 1) + 1 \<le> of_nat n"
      using k(2) by (metis Suc_leI of_nat_Suc of_nat_le_iff of_nat_numeral of_nat_power add.commute)
    then have 2: "2 ^ (k - 1) < 1 / x"
      using n(3) by linarith
    have "1 / 2 ^ k \<le> x" "x < 1 / 2 ^ (k - 1)"
      using 1 2 assms by (auto simp: field_simps)
    moreover have e1: "exponent x + 1 = - int (k - 1)"
      using e k(3) by simp
    have "(2::rat) powi exponent x = 1 / 2 ^ k" "(2::rat) powi (exponent x + 1) = 1 / 2 ^ (k - 1)"
      unfolding e1 by (simp_all only: e power_int_minus power_int_of_nat inverse_eq_divide)
    ultimately show ?thesis
      by (intro conjI; linarith)
  qed
  then show "2 powi exponent x \<le> x" "x < 2 powi (exponent x + 1)"
    by simp_all
qed

lemma exponent_mono: "0 < x \<Longrightarrow> x \<le> y \<Longrightarrow> exponent x \<le> exponent y"
proof (rule ccontr)
  assume xy: "0 < x" "x \<le> y" and "\<not> exponent x \<le> exponent y"
  then have "exponent y + 1 \<le> exponent x"
    by simp
  then have "(2::rat) powi (exponent y + 1) \<le> 2 powi exponent x"
    by (rule power_int_increasing) simp
  then show False
    using exponent_bounds[of x] exponent_bounds[of y] xy by linarith
qed

lemma exponent_eqI:
  assumes "0 < x" "2 powi e \<le> x" "x < 2 powi (e + 1)"
  shows "exponent x = e"
proof (rule ccontr)
  assume "exponent x \<noteq> e"
  then consider "exponent x + 1 \<le> e" | "e + 1 \<le> exponent x"
    by linarith
  then show False
  proof cases
    case 1
    then have "(2::rat) powi (exponent x + 1) \<le> 2 powi e"
      by (rule power_int_increasing) simp
    then show False
      using exponent_bounds(2)[OF assms(1)] assms(2) by linarith
  next
    case 2
    then have "(2::rat) powi (e + 1) \<le> 2 powi exponent x"
      by (rule power_int_increasing) simp
    then show False
      using exponent_bounds(1)[OF assms(1)] assms(3) by linarith
  qed
qed

lemma ulp_pos [simp]: "0 < ulp p x"
  by (simp add: ulp_def)

lemma fl_0 [simp]: "fl p 0 = 0"
  by (simp add: fl_def)

lemma fl_pos: "0 < x \<Longrightarrow> fl p x = of_int (round_even (x / ulp p x)) * ulp p x"
  by (simp add: fl_def)

text \<open>The scaled number has exactly \<open>p\<close> digits before the point.\<close>

lemma scaled_bounds:
  assumes "0 < x" "0 < p"
  shows "2 ^ (p - 1) \<le> x / ulp p x" "x / ulp p x < 2 ^ p"
proof -
  have e: "exponent x - int p + 1 = exponent x - int (p - 1)"
    using assms(2) by (simp add: of_nat_diff)
  have "ulp p x = 2 powi exponent x / 2 ^ (p - 1)"
    unfolding ulp_def e by (simp add: power_int_diff)
  then show "2 ^ (p - 1) \<le> x / ulp p x" "x / ulp p x < 2 ^ p"
    using exponent_bounds[OF assms(1)] assms(2)
    by (cases p; simp add: field_simps power_int_add)+
qed

lemma fl_nonneg: "0 \<le> x \<Longrightarrow> 0 \<le> fl p x"
  by (cases "x = 0")
    (simp_all add: fl_pos round_even_nonneg mult_nonneg_nonneg[OF _ less_imp_le[OF ulp_pos]]
      divide_nonneg_pos)

lemma fl_upper:
  assumes "0 < x" "0 < p"
  shows "fl p x \<le> 2 powi (exponent x + 1)"
proof -
  have "x / ulp p x \<le> of_int (2 ^ p)"
    using scaled_bounds(2)[OF assms] by simp
  then have "round_even (x / ulp p x) \<le> 2 ^ p"
    using round_even_mono round_even_int by metis
  then have "(of_int (round_even (x / ulp p x)) :: rat) \<le> 2 ^ p"
    by (metis of_int_le_iff of_int_numeral of_int_power)
  then have "fl p x \<le> 2 ^ p * ulp p x"
    using assms(1) by (simp add: fl_pos)
  also have "\<dots> = 2 powi (exponent x + 1)"
    by (simp add: ulp_def power_int_add power_int_diff)
  finally show ?thesis .
qed

lemma fl_lower:
  assumes "0 < x" "0 < p"
  shows "2 powi exponent x \<le> fl p x"
proof -
  have "of_int (2 ^ (p - 1)) \<le> x / ulp p x"
    using scaled_bounds(1)[OF assms] by simp
  then have "2 ^ (p - 1) \<le> round_even (x / ulp p x)"
    using round_even_mono round_even_int by metis
  then have "(2::rat) ^ (p - 1) \<le> of_int (round_even (x / ulp p x))"
    by (metis of_int_le_iff of_int_numeral of_int_power)
  then have "2 ^ (p - 1) * ulp p x \<le> fl p x"
    using assms(1) by (simp add: fl_pos)
  moreover have "2 ^ (p - 1) * ulp p x = 2 powi exponent x"
    using assms(2) by (cases p) (simp_all add: ulp_def power_int_add power_int_diff)
  ultimately show ?thesis
    by simp
qed

text \<open>Rounding is monotone, and exact where the type has the number.\<close>

lemma fl_mono:
  assumes "0 \<le> x" "x \<le> y" "0 < p"
  shows "fl p x \<le> fl p y"
proof (cases "x = 0")
  case True
  then show ?thesis
    using fl_nonneg[of y p] assms by simp
next
  case False
  then have xy: "0 < x" "0 < y"
    using assms by auto
  show ?thesis
  proof (cases "exponent x = exponent y")
    case True
    then have "ulp p x = ulp p y"
      by (simp add: ulp_def)
    then have "round_even (x / ulp p x) \<le> round_even (y / ulp p y)"
      using assms(2) by (intro round_even_mono) (simp add: divide_right_mono less_imp_le)
    then show ?thesis
      using xy \<open>ulp p x = ulp p y\<close> by (simp add: fl_pos)
  next
    case False
    then have "exponent x + 1 \<le> exponent y"
      using exponent_mono[OF xy(1) assms(2)] by simp
    then have "(2::rat) powi (exponent x + 1) \<le> 2 powi exponent y"
      by (rule power_int_increasing) simp
    then show ?thesis
      using fl_upper[OF xy(1) assms(3)] fl_lower[OF xy(2) assms(3)] by linarith
  qed
qed

lemma fl_exact:
  assumes "m < 2 ^ p" "0 < p"
  shows "fl p (of_nat m) = of_nat m"
proof (cases "m = 0")
  case False
  define x where "x = (of_nat m :: rat)"
  have x: "0 < x" "1 \<le> x"
    using False by (auto simp: x_def)
  have "x < 2 ^ p"
    using assms(1) by (metis of_nat_less_iff of_nat_numeral of_nat_power x_def)
  then have "(2::rat) powi exponent x < 2 powi int p"
    using exponent_bounds(1)[OF x(1)] by simp
  then have e: "exponent x < int p"
    using power_int_increasing[of "int p" "exponent x" "2::rat"] by force
  have "x / ulp p x = of_nat m * 2 powi (int p - 1 - exponent x)"
    by (simp add: ulp_def x_def power_int_diff power_int_add field_simps)
  also have "\<dots> = of_int (int m * 2 ^ nat (int p - 1 - exponent x))"
    using e by (simp add: power_int_def)
  finally have "x / ulp p x = of_int (int m * 2 ^ nat (int p - 1 - exponent x))" .
  then have "of_int (round_even (x / ulp p x)) = x / ulp p x"
    by (metis round_even_int)
  then show ?thesis
    using x(1) by (simp add: fl_pos x_def order_less_imp_not_eq2)
qed simp

lemma fl_le_nat: "0 \<le> x \<Longrightarrow> x \<le> of_nat m \<Longrightarrow> m < 2 ^ p \<Longrightarrow> 0 < p \<Longrightarrow> fl p x \<le> of_nat m"
  using fl_mono[of x "of_nat m" p] fl_exact[of m p] by simp

lemma fl_ge_nat: "of_nat m \<le> x \<Longrightarrow> m < 2 ^ p \<Longrightarrow> 0 < p \<Longrightarrow> of_nat m \<le> fl p x"
  using fl_mono[of "of_nat m" x p] fl_exact[of m p] by simp

text \<open>The relative error of a rounding is at most half a unit in the last place.\<close>

lemma round_even_error: "\<bar>of_int (round_even x) - x\<bar> \<le> 1 / 2"
proof -
  define f r where "f = \<lfloor>x\<rfloor>" and "r = x - of_int f"
  have "x = of_int f + r" "0 \<le> r" "r < 1"
    by (simp_all add: f_def r_def, linarith)
  moreover have "round_even x = (if r < 1 / 2 then f else if 1 / 2 < r then f + 1
      else if even f then f else f + 1)"
    by (simp add: round_even_def f_def r_def Let_def)
  ultimately show ?thesis
    by (auto simp: abs_le_iff)
qed

lemma fl_error:
  assumes "0 < x" "0 < p"
  shows "\<bar>fl p x - x\<bar> \<le> x / 2 ^ p"
proof -
  have "\<bar>of_int (round_even (x / ulp p x)) - x / ulp p x\<bar> * ulp p x \<le> 1 / 2 * ulp p x"
    by (intro mult_right_mono round_even_error less_imp_le ulp_pos)
  moreover have "(of_int (round_even (x / ulp p x)) - x / ulp p x) * ulp p x = fl p x - x"
    using assms(1) less_imp_neq[OF ulp_pos[of p x]] by (simp add: fl_pos left_diff_distrib)
  then have "\<bar>of_int (round_even (x / ulp p x)) - x / ulp p x\<bar> * ulp p x = \<bar>fl p x - x\<bar>"
    by (metis abs_mult abs_of_pos ulp_pos)
  moreover have "2 ^ (p - 1) * ulp p x \<le> x"
    using scaled_bounds(1)[OF assms] by (simp add: pos_le_divide_eq)
  then have "1 / 2 * ulp p x \<le> x / 2 ^ p"
    using assms(2) by (cases p) (simp_all add: field_simps)
  ultimately show ?thesis
    by linarith
qed

section \<open>Operations and casts\<close>

fun fneg_sign :: "rat \<Rightarrow> float" where
  "fneg_sign x = (if 0 < x then Infinity else if x < 0 then NegInfinity else NaN)"

text \<open>Division; a zero divisor is the positive zero.\<close>

fun fdiv :: "nat \<Rightarrow> float \<Rightarrow> float \<Rightarrow> float" where
  "fdiv p (Fin x) (Fin y) = (if y = 0 then fneg_sign x else Fin (fl p (x / y)))"
| "fdiv p NaN b = NaN"
| "fdiv p a NaN = NaN"
| "fdiv p (Fin x) Infinity = Fin 0"
| "fdiv p (Fin x) NegInfinity = Fin 0"
| "fdiv p Infinity (Fin y) = (if y < 0 then NegInfinity else Infinity)"
| "fdiv p NegInfinity (Fin y) = (if y < 0 then Infinity else NegInfinity)"
| "fdiv p a b = NaN"

text \<open>Subtraction, absolute value and order.\<close>

fun fsub :: "nat \<Rightarrow> float \<Rightarrow> float \<Rightarrow> float" where
  "fsub p (Fin x) (Fin y) = Fin (fl p (x - y))"
| "fsub p NaN b = NaN"
| "fsub p a NaN = NaN"
| "fsub p Infinity Infinity = NaN"
| "fsub p NegInfinity NegInfinity = NaN"
| "fsub p Infinity b = Infinity"
| "fsub p NegInfinity b = NegInfinity"
| "fsub p (Fin x) Infinity = NegInfinity"
| "fsub p (Fin x) NegInfinity = Infinity"

fun fabs :: "float \<Rightarrow> float" where
  "fabs (Fin x) = Fin \<bar>x\<bar>"
| "fabs NaN = NaN"
| "fabs _ = Infinity"

fun flt :: "float \<Rightarrow> float \<Rightarrow> bool" where
  "flt (Fin x) (Fin y) = (x < y)"
| "flt NaN b = False"
| "flt a NaN = False"
| "flt NegInfinity NegInfinity = False"
| "flt NegInfinity b = True"
| "flt (Fin x) Infinity = True"
| "flt a b = False"

text \<open>A cast from an unsigned integer.\<close>

definition float_of_nat :: "nat \<Rightarrow> nat \<Rightarrow> float" where
  "float_of_nat p n = Fin (fl p (of_nat n))"

lemma float_of_nat_exact: "n < 2 ^ p \<Longrightarrow> 0 < p \<Longrightarrow> float_of_nat p n = Fin (of_nat n)"
  by (simp add: float_of_nat_def fl_exact)

fun fmul :: "nat \<Rightarrow> rat \<Rightarrow> rat \<Rightarrow> rat" where
  "fmul p x y = fl p (x * y)"

text \<open>\<open>f64::max\<close> and \<open>f32::max\<close>: an operand that is not a number is ignored.\<close>

fun fmax :: "float \<Rightarrow> float \<Rightarrow> float" where
  "fmax NaN b = b"
| "fmax a NaN = a"
| "fmax Infinity b = Infinity"
| "fmax a Infinity = Infinity"
| "fmax NegInfinity b = b"
| "fmax a NegInfinity = a"
| "fmax (Fin x) (Fin y) = Fin (max x y)"

text \<open>A cast to an unsigned integer of \<open>n\<close> bits: towards zero, saturating.\<close>

fun cast_uint :: "nat \<Rightarrow> float \<Rightarrow> nat" where
  "cast_uint n (Fin x) = min (nat \<lfloor>x\<rfloor>) (2 ^ n - 1)"
| "cast_uint n Infinity = 2 ^ n - 1"
| "cast_uint n NegInfinity = 0"
| "cast_uint n NaN = 0"

text \<open>\<open>f64::round\<close>: to the nearest integer, ties away from zero.\<close>

definition round_away :: "rat \<Rightarrow> int" where
  "round_away x = (if 0 \<le> x then \<lfloor>x + 1 / 2\<rfloor> else - \<lfloor>1 / 2 - x\<rfloor>)"

lemma fmax_one: "\<exists>s. fmax (Fin 1) b = Fin s \<and> 1 \<le> s \<or> fmax (Fin 1) b = Infinity"
  by (cases b) auto

lemma cast_uint_le: "x \<le> of_nat m \<Longrightarrow> cast_uint n (Fin x) \<le> m"
  by (simp add: min_def) linarith

end
