(* ===== verification/LkTransport.thy ===== *)
theory LkTransport
  imports LKPrelude LKInterfaces LKText LKFloat "HOL-Library.Multiset"
begin

text \<open>
  The peer transport of the client (\<open>rtc_engine/peer_transport.rs\<close>): the rewriting of the
  session descriptions it offers, the start bitrate it writes into them, and the transport
  itself with its pending candidates, its renegotiation flag and its lock.  The peer
  connection belongs to the WebRTC library and is a parameter.
\<close>

section \<open>Session descriptions, line by line\<close>

definition crlf :: rstr where "crlf = [13, 10]"
definition lf :: rstr where "lf = [10]"

definition uses_crlf :: "rstr \<Rightarrow> bool" where
  "uses_crlf sdp \<longleftrightarrow> contains_str crlf sdp"

definition sdp_eol :: "rstr \<Rightarrow> rstr" where
  "sdp_eol sdp = (if uses_crlf sdp then crlf else lf)"

definition sdp_lines :: "rstr \<Rightarrow> rstr list" where
  "sdp_lines sdp = (if uses_crlf sdp then split_str 13 [10] sdp else split_str 10 [] sdp)"

text \<open>The lines are joined again, and the last one gets its end of line.\<close>

definition sdp_rejoin :: "rstr \<Rightarrow> rstr list \<Rightarrow> rstr" where
  "sdp_rejoin eol out =
     (let munged = join_str eol out in if ends_with eol munged then munged else munged @ eol)"

section \<open>Inactive media\<close>

fun inactive_loop :: "bool \<Rightarrow> rstr list \<Rightarrow> rstr list" where
  "inactive_loop in_rtp [] = []"
| "inactive_loop in_rtp (line # ls) =
     (let l = trim line;
          in_rtp' = (if starts_with (lit ''m='') l then contains_str (lit ''RTP/'') l else in_rtp)
      in (if in_rtp' \<and> l = lit ''a=inactive'' then lit ''a=recvonly'' else line)
           # inactive_loop in_rtp' ls)"

definition munge_inactive_to_recvonly :: "rstr \<Rightarrow> rstr" where
  "munge_inactive_to_recvonly sdp = sdp_rejoin (sdp_eol sdp) (inactive_loop False (sdp_lines sdp))"

section \<open>Format parameters\<close>

text \<open>The payload type of a line that maps one to a codec the caller looks for.\<close>

definition rtpmap_of :: "(rstr \<Rightarrow> bool) \<Rightarrow> rstr \<Rightarrow> rstr list" where
  "rtpmap_of codec_ok line =
     (case strip_prefix (lit ''a=rtpmap:'') (trim line) of
        Some rest \<Rightarrow> (let pt = first_word rest; cname = second_word rest
                      in if codec_ok cname \<and> pt \<noteq> [] then [pt] else [])
      | None \<Rightarrow> [])"

definition payload_types :: "(rstr \<Rightarrow> bool) \<Rightarrow> rstr list \<Rightarrow> rstr list" where
  "payload_types codec_ok ls = concat (map (rtpmap_of codec_ok) ls)"

definition fmtp_prefix :: "rstr \<Rightarrow> rstr" where
  "fmtp_prefix pt = lit ''a=fmtp:'' @ pt @ lit '' ''"

text \<open>The first payload type whose prefix the line has decides, and ends the search.\<close>

fun rewrite_fmtp :: "(rstr \<Rightarrow> rstr) \<Rightarrow> rstr list \<Rightarrow> rstr \<Rightarrow> rstr" where
  "rewrite_fmtp f [] line = line"
| "rewrite_fmtp f (pt # pts) line =
     (if starts_with (fmtp_prefix pt) line then f line else rewrite_fmtp f pts line)"

definition munge_fmtp :: "(rstr \<Rightarrow> bool) \<Rightarrow> (rstr \<Rightarrow> rstr) \<Rightarrow> rstr \<Rightarrow> rstr" where
  "munge_fmtp codec_ok f sdp =
     (let ls = sdp_lines sdp; pts = payload_types codec_ok ls
      in if pts = [] then sdp else sdp_rejoin (sdp_eol sdp) (map (rewrite_fmtp f pts) ls))"

definition is_opus :: "rstr \<Rightarrow> bool" where
  "is_opus cname \<longleftrightarrow> starts_with (lit ''opus/48000'') cname"

definition add_stereo :: "rstr \<Rightarrow> rstr" where
  "add_stereo line =
     (if contains_str (lit ''stereo='') line then line else line @ lit '';stereo=1'')"

definition munge_stereo_for_audio :: "rstr \<Rightarrow> rstr" where
  "munge_stereo_for_audio = munge_fmtp is_opus add_stereo"

definition is_vp9_or_av1 :: "rstr \<Rightarrow> bool" where
  "is_vp9_or_av1 cname \<longleftrightarrow>
     starts_with (lit ''VP9/90000'') cname \<or> starts_with (lit ''AV1/90000'') cname"

definition start_bitrate_key :: rstr where
  "start_bitrate_key = lit ''x-google-start-bitrate=''"

definition set_start_bitrate :: "u32 \<Rightarrow> rstr \<Rightarrow> rstr" where
  "set_start_bitrate kbps line =
     (case find_str start_bitrate_key line of
        Some pos \<Rightarrow>
          (let after = drop pos line;
               end_pos = (case find_str (lit '';'') after of Some i \<Rightarrow> pos + i | None \<Rightarrow> length line)
           in take pos line @ start_bitrate_key @ decimal (unat kbps) @ drop end_pos line)
      | None \<Rightarrow> line @ lit '';'' @ start_bitrate_key @ decimal (unat kbps))"

definition munge_x_google_start_bitrate :: "rstr \<Rightarrow> u32 \<Rightarrow> rstr" where
  "munge_x_google_start_bitrate sdp kbps = munge_fmtp is_vp9_or_av1 (set_start_bitrate kbps) sdp"

section \<open>The start bitrate\<close>

definition compute_start_bitrate_kbps :: "u64 option \<Rightarrow> u32 option" where
  "compute_start_bitrate_kbps ultimate_bps =
     (case ultimate_bps of
        None \<Rightarrow> None
      | Some bps \<Rightarrow>
          (let ultimate_kbps = (ucast (bps div 1000) :: u32);
               start_kbps = word_of_int (round_away
                 (fmul 53 (of_nat (unat ultimate_kbps)) (fl 53 (7 / 10)))) :: u32
           in if ultimate_kbps = 0 then None
              else if ultimate_kbps < 300 then None
              else Some (min start_kbps ultimate_kbps)))"

section \<open>Lemmas on lines\<close>

lemma lit_chars:
  "lit [] = []" "lit (c # s) = of_char c # lit s"
  by (simp_all add: lit_def)

lemma sdp_lines_nonempty [simp]: "sdp_lines sdp \<noteq> []"
  by (simp add: sdp_lines_def)

lemma sdp_eol_nonempty [simp]: "sdp_eol sdp \<noteq> []"
  by (simp add: sdp_eol_def crlf_def lf_def)

lemma join_sdp_lines: "join_str (sdp_eol sdp) (sdp_lines sdp) = sdp"
  by (simp add: sdp_eol_def sdp_lines_def crlf_def lf_def join_split)

lemma sdp_line_no_eol: "l \<in> set (sdp_lines sdp) \<Longrightarrow> \<not> sublist (sdp_eol sdp) l"
  by (auto simp: sdp_eol_def sdp_lines_def crlf_def lf_def split: if_splits dest: split_str_pieces)

text \<open>A description whose last character is a lone carriage return changes its line ends
  when it gets a final one, so the results on lines ask that there is none.\<close>

abbreviation cr_free_end :: "rstr \<Rightarrow> bool" where
  "cr_free_end l \<equiv> \<not> suffix [13] l"

lemma join_str_append:
  "xs \<noteq> [] \<Longrightarrow> join_str e (ys @ xs) = concat (map (\<lambda>l. l @ e) ys) @ join_str e xs"
  by (induction ys) (auto simp: join_str_Cons)

lemma join_str_eol: "ls \<noteq> [] \<Longrightarrow> join_str e ls @ e = concat (map (\<lambda>l. l @ e) ls)"
proof (induction ls)
  case (Cons l ls)
  then show ?case
    by (cases "ls = []") (simp_all add: join_str_Cons)
qed simp

lemma join_str_lf: "sublist crlf (join_str lf ls) \<Longrightarrow> \<exists>l\<in>set ls. sublist crlf l \<or> suffix [13] l"
proof (induction ls)
  case Nil
  then show ?case
    by (simp add: crlf_def)
next
  case (Cons l ls)
  show ?case
  proof (cases "ls = []")
    case True
    then show ?thesis
      using Cons.prems by simp
  next
    case False
    define rest where "rest = join_str lf ls"
    obtain u v where uv: "l @ [10] @ rest = u @ [13, 10] @ v"
      using Cons.prems False by (auto simp: join_str_Cons rest_def sublist_def crlf_def lf_def)
    consider "length (u @ [13, 10]) \<le> length l" | "length u + 1 = length l"
      | "length l = length u" | "length l < length u"
      by fastforce
    then show ?thesis
    proof cases
      case 1
      then have "prefix (u @ [13, 10]) l"
        by (metis append.assoc prefix_length_prefix prefixI uv)
      then show ?thesis
        by (auto simp: prefix_def sublist_def crlf_def)
    next
      case 2
      have "take (length l) (l @ [10] @ rest) = take (length l) (u @ [13, 10] @ v)"
        by (simp only: uv)
      then have "l = u @ [13]"
        using 2 by (simp flip: 2)
      then show ?thesis
        by (auto simp: suffix_def)
    next
      case 3
      then show ?thesis
        using uv by simp
    next
      case 4
      then have "prefix (l @ [10]) u"
        by (metis Suc_leI append.assoc length_append_singleton prefix_length_prefix prefixI uv)
      then obtain w where "u = l @ [10] @ w"
        by (auto simp: prefix_def)
      then have "sublist crlf rest"
        using uv by (auto simp: sublist_def crlf_def)
      then show ?thesis
        using Cons.IH by (auto simp: rest_def)
    qed
  qed
qed

lemma crlf_line_in_lf:
  assumes "\<not> uses_crlf sdp" "cr_free_end sdp" "l \<in> set (sdp_lines sdp)"
  shows "cr_free_end l"
proof
  assume cr: "suffix [13] l"
  obtain before after where ls: "sdp_lines sdp = before @ l # after"
    using assms(3) by (auto simp: in_set_conv_decomp)
  obtain u where u: "sdp = u @ join_str lf (l # after)"
    using join_sdp_lines[of sdp] assms(1) by (auto simp: ls sdp_eol_def join_str_append)
  show False
  proof (cases "after = []")
    case True
    then show ?thesis
      using u cr assms(2) by (auto simp: suffix_def)
  next
    case False
    obtain zs where "l = zs @ [13]"
      using cr by (auto simp: suffix_def)
    then have "sdp = (u @ zs) @ crlf @ join_str lf after"
      using u False by (simp add: join_str_Cons crlf_def lf_def)
    then have "sublist crlf sdp"
      by (metis sublist_def)
    then show ?thesis
      using assms(1) by (simp add: uses_crlf_def contains_sublist)
  qed
qed


section \<open>Rewritten descriptions\<close>

text \<open>The lines of a description whose last line has got its end of line.\<close>

definition terminated :: "rstr list \<Rightarrow> rstr list" where
  "terminated ls = (if 2 \<le> length ls \<and> last ls = [] then ls else ls @ [[]])"

lemma sublist_lf: "\<not> sublist lf l \<longleftrightarrow> 10 \<notin> set l"
  by (auto simp: lf_def sublist_def in_set_conv_decomp)

lemma join_ends_with:
  assumes "eol = crlf \<or> eol = lf" "ls \<noteq> []" "\<forall>l\<in>set ls. \<not> sublist eol l"
  shows "ends_with eol (join_str eol ls) \<longleftrightarrow> 2 \<le> length ls \<and> last ls = []"
proof -
  obtain ys l where ls: "ls = ys @ [l]"
    using assms(2) by (cases ls rule: rev_cases) auto
  define u where "u = concat (map (\<lambda>l. l @ eol) ys)"
  have join: "join_str eol ls = u @ l"
    by (simp add: ls u_def join_str_append)
  have u: "u = [] \<and> ys = [] \<or> suffix eol u \<and> ys \<noteq> []"
    by (cases ys rule: rev_cases) (auto simp: u_def suffix_def)
  have l: "\<not> sublist eol l"
    using assms(3) by (simp add: ls)
  have "suffix eol (u @ l) \<longleftrightarrow> ys \<noteq> [] \<and> l = []"
  proof (cases "l = []")
    case True
    then show ?thesis
      using u assms(1) by (auto simp: crlf_def lf_def suffix_def)
  next
    case False
    have "\<not> suffix eol l"
      using l suffix_imp_sublist by blast
    moreover have "\<not> suffix xs u" if "eol = xs @ l" for xs
      using that assms(1) False u l
      by (cases xs) (auto simp: crlf_def lf_def suffix_def Cons_eq_append_conv append_eq_Cons_conv)
    ultimately show ?thesis
      using False by (auto simp: suffix_append)
  qed
  moreover have "2 \<le> length ls \<and> last ls = [] \<longleftrightarrow> ys \<noteq> [] \<and> l = []"
    by (cases ys) (auto simp: ls)
  ultimately show ?thesis
    by (simp only: join ends_with_suffix)
qed

lemma lines_rejoin:
  assumes "ls \<noteq> []" "\<forall>l\<in>set ls. \<not> sublist (sdp_eol sdp) l"
    and "\<not> uses_crlf sdp \<Longrightarrow> \<forall>l\<in>set ls. cr_free_end l"
  defines "out \<equiv> sdp_rejoin (sdp_eol sdp) ls"
  shows "uses_crlf out \<longleftrightarrow> uses_crlf sdp" "sdp_lines out = terminated ls"
    "cr_free_end out" "sdp_rejoin (sdp_eol sdp) (terminated ls) = out"
proof -
  define eol where "eol = sdp_eol sdp"
  have eol: "eol = crlf \<or> eol = lf"
    by (auto simp: eol_def sdp_eol_def)
  have t: "terminated ls \<noteq> []" "\<forall>l\<in>set (terminated ls). \<not> sublist eol l"
    "2 \<le> length (terminated ls)" "last (terminated ls) = []"
    using assms(1,2) by (auto simp: terminated_def eol_def Suc_le_eq)
  have ends_ls: "ends_with eol (join_str eol ls) \<longleftrightarrow> 2 \<le> length ls \<and> last ls = []"
    using join_ends_with[OF eol assms(1)] assms(2) by (simp add: eol_def)
  have out: "out = join_str eol (terminated ls)"
    using assms(1) by (auto simp: out_def sdp_rejoin_def terminated_def eol_def[symmetric] Let_def
        ends_ls join_str_append join_str_eol)
  have ends: "suffix eol out"
    using join_ends_with[OF eol t(1,2)] t(3,4) by (simp add: out ends_with_suffix)
  show crlf: "uses_crlf out \<longleftrightarrow> uses_crlf sdp"
  proof (cases "uses_crlf sdp")
    case True
    then have "suffix crlf out"
      using ends by (simp add: eol_def sdp_eol_def)
    then show ?thesis
      using True by (auto simp: uses_crlf_def contains_sublist suffix_imp_sublist)
  next
    case False
    then have lf: "eol = lf"
      by (simp add: eol_def sdp_eol_def)
    have "\<forall>l\<in>set (terminated ls). cr_free_end l"
      using assms(3)[OF False] by (auto simp: terminated_def)
    moreover have "\<forall>l\<in>set (terminated ls). \<not> sublist crlf l"
      using t(2) by (auto simp: lf sublist_lf) (auto simp: crlf_def sublist_def)
    ultimately have "\<not> sublist crlf out"
      using join_str_lf[of "terminated ls"] by (auto simp: out lf)
    then show ?thesis
      using False by (simp add: uses_crlf_def contains_sublist)
  qed
  show "sdp_lines out = terminated ls"
    using split_join[of 13 "[10]", OF _ t(1)] split_join[of 10 "[]", OF _ t(1)] t(2) crlf
    by (auto simp: sdp_lines_def out eol_def sdp_eol_def crlf_def lf_def)
  show "cr_free_end out"
    using ends eol by (auto simp: crlf_def lf_def suffix_def)
  show "sdp_rejoin (sdp_eol sdp) (terminated ls) = out"
    using join_ends_with[OF eol t(1,2)] t(3,4)
    by (simp add: sdp_rejoin_def out eol_def[symmetric])
qed

section \<open>Rewriting line by line\<close>

text \<open>
  What the three rewritings have in common: they apply to the lines of the description or
  return it unchanged, keep the number of lines, bring no line end into a line, and do
  nothing a second time.
\<close>

definition munge_with :: "(rstr list \<Rightarrow> bool) \<Rightarrow> (rstr list \<Rightarrow> rstr list) \<Rightarrow> rstr \<Rightarrow> rstr" where
  "munge_with app R sdp =
     (if app (sdp_lines sdp) then sdp_rejoin (sdp_eol sdp) (R (sdp_lines sdp)) else sdp)"

locale line_munge =
  fixes app :: "rstr list \<Rightarrow> bool" and R :: "rstr list \<Rightarrow> rstr list"
  assumes R_length: "length (R ls) = length ls"
    and R_idem: "R (R ls) = R ls"
    and R_snoc: "R (ls @ [[]]) = R ls @ [[]]"
    and R_no_eol: "eol = crlf \<or> eol = lf \<Longrightarrow> \<forall>l\<in>set ls. \<not> sublist eol l \<Longrightarrow>
      l \<in> set (R ls) \<Longrightarrow> \<not> sublist eol l"
    and R_cr_free: "\<forall>l\<in>set ls. cr_free_end l \<Longrightarrow> l \<in> set (R ls) \<Longrightarrow> cr_free_end l"
    and app_R: "app (R ls) = app ls"
    and app_snoc: "app (ls @ [[]]) = app ls"
begin

lemma R_terminated: "R (terminated (R ls)) = terminated (R ls)"
  by (simp add: terminated_def R_snoc R_idem)

lemma munged_lines:
  assumes "cr_free_end sdp" "app (sdp_lines sdp)"
  shows "sdp_lines (munge_with app R sdp) = terminated (R (sdp_lines sdp))"
    and "cr_free_end (munge_with app R sdp)"
    and "sdp_eol (munge_with app R sdp) = sdp_eol sdp"
    and "sdp_rejoin (sdp_eol sdp) (terminated (R (sdp_lines sdp))) = munge_with app R sdp"
proof -
  have ne: "R (sdp_lines sdp) \<noteq> []"
    by (metis R_length length_0_conv sdp_lines_nonempty)
  have eol: "\<forall>l\<in>set (R (sdp_lines sdp)). \<not> sublist (sdp_eol sdp) l"
    using R_no_eol[of "sdp_eol sdp" "sdp_lines sdp"] sdp_line_no_eol[of _ sdp]
    by (simp add: sdp_eol_def)
  have cr: "\<not> uses_crlf sdp \<Longrightarrow> \<forall>l\<in>set (R (sdp_lines sdp)). cr_free_end l"
    using R_cr_free crlf_line_in_lf[OF _ assms(1)] by blast
  show "sdp_lines (munge_with app R sdp) = terminated (R (sdp_lines sdp))"
    "cr_free_end (munge_with app R sdp)"
    "sdp_eol (munge_with app R sdp) = sdp_eol sdp"
    "sdp_rejoin (sdp_eol sdp) (terminated (R (sdp_lines sdp))) = munge_with app R sdp"
    using lines_rejoin[OF ne eol cr] assms(2) by (simp_all add: munge_with_def sdp_eol_def)
qed

lemma munge_idempotent:
  assumes "cr_free_end sdp"
  shows "munge_with app R (munge_with app R sdp) = munge_with app R sdp"
proof (cases "app (sdp_lines sdp)")
  case True
  have "app (terminated (R (sdp_lines sdp)))"
    using True by (simp add: terminated_def app_R app_snoc)
  then show ?thesis
    using munged_lines[OF assms True]
    by (simp add: munge_with_def[of app R "munge_with app R sdp"] R_terminated)
qed (simp add: munge_with_def)

end

text \<open>
  The two rewritings of format parameters: \<open>f\<close> changes a line that starts with \<open>a=fmtp:\<close>
  into such a line again.
\<close>

locale fmtp_rewrite =
  fixes f :: "rstr \<Rightarrow> rstr"
  assumes f_idem: "f (f l) = f l"
    and f_prefix: "prefix (lit ''a=fmtp:'') l \<Longrightarrow> prefix (lit ''a=fmtp:'') (f l)"
    and f_no_eol: "eol = crlf \<or> eol = lf \<Longrightarrow> \<not> sublist eol l \<Longrightarrow> \<not> sublist eol (f l)"
    and f_cr_free: "cr_free_end l \<Longrightarrow> cr_free_end (f l)"

lemma rewrite_fmtp_eq:
  "rewrite_fmtp f pts l = (if \<exists>pt\<in>set pts. prefix (fmtp_prefix pt) l then f l else l)"
  by (induction pts) (auto simp: starts_with_prefix)

lemma fmtp_prefix_prefix: "prefix (fmtp_prefix pt) l \<Longrightarrow> prefix (lit ''a=fmtp:'') l"
  by (auto simp: fmtp_prefix_def prefix_def)

text \<open>A line of format parameters maps no payload type.\<close>

lemma rtpmap_of_fmtp: "prefix (lit ''a=fmtp:'') l \<Longrightarrow> rtpmap_of cok l = []"
proof -
  assume "prefix (lit ''a=fmtp:'') l"
  then have "prefix (lit ''a=fmtp:'') (trim l)"
    by (rule trim_keeps_prefix) (simp_all add: lit_chars is_whitespace_def)
  then obtain t where "trim l = lit ''a=fmtp:'' @ t"
    by (auto simp: prefix_def)
  then have "strip_prefix (lit ''a=rtpmap:'') (trim l) = None"
    by (simp add: lit_chars)
  then show ?thesis
    by (simp add: rtpmap_of_def)
qed

lemma rtpmap_of_Nil [simp]: "rtpmap_of cok [] = []"
  by (simp add: rtpmap_of_def trim_def lit_chars)

lemma payload_types_simps [simp]:
  "payload_types cok [] = []"
  "payload_types cok (ls @ ls') = payload_types cok ls @ payload_types cok ls'"
  "payload_types cok (l # ls) = rtpmap_of cok l @ payload_types cok ls"
  by (simp_all add: payload_types_def)

context fmtp_rewrite
begin

lemma rewrite_idem: "rewrite_fmtp f pts (rewrite_fmtp f pts l) = rewrite_fmtp f pts l"
  by (simp add: rewrite_fmtp_eq f_idem)

lemma rtpmap_of_rewrite: "rtpmap_of cok (rewrite_fmtp f pts l) = rtpmap_of cok l"
proof (cases "\<exists>pt\<in>set pts. prefix (fmtp_prefix pt) l")
  case True
  then have "prefix (lit ''a=fmtp:'') l"
    by (auto dest: fmtp_prefix_prefix)
  then show ?thesis
    using True by (simp add: rewrite_fmtp_eq rtpmap_of_fmtp f_prefix)
qed (auto simp: rewrite_fmtp_eq)

lemma payload_types_rewrite:
  "payload_types cok (map (rewrite_fmtp f pts) ls) = payload_types cok ls"
  by (induction ls) (simp_all add: rtpmap_of_rewrite)

lemma rewrite_Nil: "rewrite_fmtp f pts [] = []"
  by (auto simp: rewrite_fmtp_eq fmtp_prefix_def lit_chars)

end

sublocale fmtp_rewrite \<subseteq> lines: line_munge "\<lambda>ls. payload_types cok ls \<noteq> []"
  "\<lambda>ls. map (rewrite_fmtp f (payload_types cok ls)) ls" for cok
  by unfold_locales
    (auto simp: payload_types_rewrite rewrite_idem rewrite_Nil rewrite_fmtp_eq f_no_eol f_cr_free
      f_idem fmtp_prefix_def lit_chars split: if_splits)

lemma munge_fmtp_eq:
  "munge_fmtp cok f = munge_with (\<lambda>ls. payload_types cok ls \<noteq> [])
     (\<lambda>ls. map (rewrite_fmtp f (payload_types cok ls)) ls)"
  by (auto simp: fun_eq_iff munge_fmtp_def munge_with_def Let_def)

section \<open>The three rewritings\<close>

lemma lit_set: "set (lit s) = of_char ` set s"
  by (simp add: lit_def)

lemma eol_chars: "eol = crlf \<or> eol = lf \<Longrightarrow> set eol \<subseteq> {10, 13} \<and> eol \<noteq> []"
  by (auto simp: crlf_def lf_def)

text \<open>Inserting visible characters into a line brings no line end into it.\<close>

lemma no_eol_insert:
  assumes "eol = crlf \<or> eol = lf" "sublist eol (a @ m @ b)" "m \<noteq> []" "10 \<notin> set m" "13 \<notin> set m"
  shows "sublist eol a \<or> sublist eol b"
  using assms eol_chars[OF assms(1)] by (intro sublist_insert[of eol a m b]) auto

lemma length_inactive_loop [simp]: "length (inactive_loop b ls) = length ls"
  by (induction ls arbitrary: b) (simp_all add: Let_def)

lemma trim_marks: "trim (lit ''a=recvonly'') = lit ''a=recvonly''"
  by (simp add: trim_def lit_chars is_whitespace_def)

lemma marks_no_section:
  "\<not> starts_with (lit ''m='') (lit ''a=recvonly'')" "\<not> starts_with (lit ''m='') (lit ''a=inactive'')"
  "lit ''a=recvonly'' \<noteq> lit ''a=inactive''"
  by (simp_all add: starts_with_def lit_chars)

lemma inactive_loop_idem: "inactive_loop b (inactive_loop b ls) = inactive_loop b ls"
  by (induction ls arbitrary: b) (simp_all add: Let_def trim_marks marks_no_section)

lemma inactive_loop_snoc: "inactive_loop b (ls @ [[]]) = inactive_loop b ls @ [[]]"
  by (induction ls arbitrary: b)
    (simp_all add: Let_def, simp add: trim_def starts_with_def lit_chars)

lemma inactive_loop_set:
  "l \<in> set (inactive_loop b ls) \<Longrightarrow> l \<in> set ls \<or> l = lit ''a=recvonly''"
  by (induction ls arbitrary: b) (auto simp: Let_def split: if_splits)

lemma recvonly_clean:
  "cr_free_end (lit ''a=recvonly'')" "eol = crlf \<or> eol = lf \<Longrightarrow> \<not> sublist eol (lit ''a=recvonly'')"
  using no_eol_insert[of eol "[]" "lit ''a=recvonly''" "[]"] eol_chars[of eol]
  by (auto simp: lit_chars suffix_Cons suffix_def)

interpretation inactive: line_munge "\<lambda>_. True" "inactive_loop False"
proof unfold_locales
  fix ls :: "rstr list" and l eol :: rstr
  show "eol = crlf \<or> eol = lf \<Longrightarrow> \<forall>l\<in>set ls. \<not> sublist eol l \<Longrightarrow>
      l \<in> set (inactive_loop False ls) \<Longrightarrow> \<not> sublist eol l"
    using recvonly_clean(2) inactive_loop_set by blast
  show "\<forall>l\<in>set ls. cr_free_end l \<Longrightarrow> l \<in> set (inactive_loop False ls) \<Longrightarrow> cr_free_end l"
    using recvonly_clean(1) inactive_loop_set by blast
qed (simp_all add: inactive_loop_idem inactive_loop_snoc)

lemma munge_inactive_eq: "munge_inactive_to_recvonly = munge_with (\<lambda>_. True) (inactive_loop False)"
  by (simp add: fun_eq_iff munge_inactive_to_recvonly_def munge_with_def)

interpretation stereo: fmtp_rewrite add_stereo
proof unfold_locales
  fix l eol :: rstr
  have "sublist (lit ''stereo='') (l @ lit '';stereo=1'')"
    unfolding sublist_def by (intro exI[of _ "l @ lit '';''"] exI[of _ "lit ''1''"]) (simp add: lit_chars)
  then show "add_stereo (add_stereo l) = add_stereo l"
    by (simp add: add_stereo_def contains_sublist)
  show "prefix (lit ''a=fmtp:'') l \<Longrightarrow> prefix (lit ''a=fmtp:'') (add_stereo l)"
    by (auto simp: add_stereo_def prefix_def)
  show "eol = crlf \<or> eol = lf \<Longrightarrow> \<not> sublist eol l \<Longrightarrow> \<not> sublist eol (add_stereo l)"
    using no_eol_insert[of eol l "lit '';stereo=1''" "[]"] eol_chars[of eol]
    by (auto simp: add_stereo_def lit_chars)
  show "cr_free_end l \<Longrightarrow> cr_free_end (add_stereo l)"
    by (auto simp: add_stereo_def lit_chars suffix_append suffix_Cons)
qed

lemma key_chars: "set start_bitrate_key \<inter> {10, 13, 59} = {}" "start_bitrate_key \<noteq> []"
  by (simp_all add: start_bitrate_key_def lit_chars)

lemma decimal_chars: "set (decimal n) \<inter> {10, 13, 59} = {}"
  using decimal_digits by fastforce

text \<open>Where the key stands first, its value runs to the next semicolon or to the end.\<close>

lemma set_start_bitrate_at:
  assumes "\<not> sublist start_bitrate_key (butlast (a @ start_bitrate_key))"
    and "59 \<notin> set v" "c = [] \<or> (\<exists>d. c = 59 # d)"
  shows "set_start_bitrate k (a @ start_bitrate_key @ v @ c)
    = a @ start_bitrate_key @ decimal (unat k) @ c"
proof -
  have key: "find_str start_bitrate_key (a @ start_bitrate_key @ v @ c) = Some (length a)"
    by (rule find_str_first[OF assms(1)])
  have "59 \<notin> set (start_bitrate_key @ v)"
    using key_chars(1) assms(2) by auto
  then have nosub: "\<not> sublist [59] (start_bitrate_key @ v)"
    using set_mono_sublist[of "[59]" "start_bitrate_key @ v"] by auto
  show ?thesis
  proof (cases "c = []")
    case True
    then have "find_str (lit '';'') (start_bitrate_key @ v @ c) = None"
      using nosub by (simp add: find_str_None lit_chars)
    then show ?thesis
      using key True by (simp add: set_start_bitrate_def Let_def)
  next
    case False
    then obtain d where d: "c = [59] @ d"
      using assms(3) by auto
    have "find_str [59] ((start_bitrate_key @ v) @ [59] @ d) = Some (length (start_bitrate_key @ v))"
      using nosub by (intro find_str_first) (simp add: butlast_append)
    then have "find_str (lit '';'') (start_bitrate_key @ v @ c) = Some (length (start_bitrate_key @ v))"
      by (simp add: d lit_chars)
    then show ?thesis
      using key by (simp add: set_start_bitrate_def Let_def)
  qed
qed

lemma set_start_bitrate_absent:
  "\<not> sublist start_bitrate_key l \<Longrightarrow>
     set_start_bitrate k l = l @ lit '';'' @ start_bitrate_key @ decimal (unat k)"
  by (simp add: set_start_bitrate_def find_str_None[THEN iffD2])

lemma set_start_bitrate_cases [consumes 0, case_names found absent]:
  obtains (found) a v c where "l = a @ start_bitrate_key @ v @ c"
      "\<not> sublist start_bitrate_key (butlast (a @ start_bitrate_key))"
      "59 \<notin> set v" "c = [] \<or> (\<exists>d. c = 59 # d)"
  | (absent) "\<not> sublist start_bitrate_key l"
proof (cases "find_str start_bitrate_key l")
  case None
  then show ?thesis
    using absent by (simp add: find_str_None)
next
  case (Some pos)
  note pos = find_str_Some[OF Some]
  define a where "a = take pos l"
  obtain b where b: "l = a @ start_bitrate_key @ b" "length a = pos"
    using pos by (auto simp: a_def prefix_def) (metis append_take_drop_id)
  have "\<not> sublist start_bitrate_key (butlast (a @ start_bitrate_key))"
  proof
    assume "sublist start_bitrate_key (butlast (a @ start_bitrate_key))"
    then obtain u w where uw: "butlast (a @ start_bitrate_key) = u @ start_bitrate_key @ w"
      by (auto simp: sublist_def)
    have l: "l = butlast (a @ start_bitrate_key) @ [last start_bitrate_key] @ b"
      using b(1) key_chars(2) by (simp add: butlast_append)
    then have "prefix start_bitrate_key (drop (length u) l)"
      by (simp add: uw)
    moreover have "length u < pos"
    proof -
      have "0 < length start_bitrate_key"
        using key_chars(2) by simp
      moreover have "length (butlast (a @ start_bitrate_key)) = length u + (length start_bitrate_key + length w)"
        by (simp add: uw)
      ultimately show ?thesis
        using b(2) by (simp only: length_butlast length_append)
    qed
    ultimately show False
      using pos by blast
  qed
  moreover define v where "v = takeWhile (\<lambda>x. x \<noteq> 59) b"
  moreover define c where "c = dropWhile (\<lambda>x. x \<noteq> 59) b"
  moreover have "b = v @ c" "59 \<notin> set v"
    by (auto simp: v_def c_def dest: set_takeWhileD)
  moreover have "c = [] \<or> (\<exists>d. c = 59 # d)"
    by (cases c) (auto simp: c_def dropWhile_eq_Cons_conv)
  ultimately show ?thesis
    using found[of a v c] b(1) by blast
qed

text \<open>Either way the line becomes a beginning and an end of its own around the new value.\<close>

lemma set_start_bitrate_shape:
  obtains a m c where "set_start_bitrate k l = a @ m @ start_bitrate_key @ decimal (unat k) @ c"
    "m = [] \<or> m = [59]" "prefix a l" "suffix c l" "c = [] \<or> (\<exists>d. c = 59 # d)"
    "\<not> sublist start_bitrate_key (butlast (a @ m @ start_bitrate_key))"
    "prefix (lit ''a=fmtp:'') l \<longrightarrow> prefix (lit ''a=fmtp:'') a"
proof (cases rule: set_start_bitrate_cases[of l])
  case (found a v c)
  have "prefix (lit ''a=fmtp:'') a" if "prefix (lit ''a=fmtp:'') l"
  proof (rule ccontr)
    assume "\<not> prefix (lit ''a=fmtp:'') a"
    moreover have "prefix a l"
      by (simp add: found(1))
    ultimately have "length a < length (lit ''a=fmtp:'')"
      using that prefix_length_prefix not_le by blast
    then have "l ! length a \<in> set (lit ''a=fmtp:'')"
      using that by (metis nth_mem prefixE nth_append)
    moreover have "l ! length a = 120"
      by (simp add: found(1) nth_append start_bitrate_key_def lit_chars)
    ultimately show False
      by (simp add: lit_chars)
  qed
  moreover have "set_start_bitrate k l = a @ [] @ start_bitrate_key @ decimal (unat k) @ c"
    using set_start_bitrate_at[OF found(2-4)] found(1) by simp
  moreover have "prefix a l" "suffix c l"
    by (auto simp: found(1) suffix_def)
  ultimately show ?thesis
    using that[of a "[]" c] found(2,4) by simp
next
  case absent
  have "\<not> sublist start_bitrate_key (butlast (l @ [59] @ start_bitrate_key))"
  proof
    assume "sublist start_bitrate_key (butlast (l @ [59] @ start_bitrate_key))"
    then have "sublist start_bitrate_key (l @ [59] @ butlast start_bitrate_key)"
      using key_chars(2) by (simp add: butlast_append)
    then have "sublist start_bitrate_key l \<or> sublist start_bitrate_key (butlast start_bitrate_key)"
      using sublist_insert[of start_bitrate_key l "[59]" "butlast start_bitrate_key"] key_chars(1)
      by auto
    then show False
      using absent sublist_length_le[of start_bitrate_key "butlast start_bitrate_key"]
        length_greater_0_conv[of start_bitrate_key] key_chars(2) by (simp only: length_butlast) linarith
  qed
  then show ?thesis
    using that[of l "[59]" "[]"] set_start_bitrate_absent[OF absent] by (simp add: lit_chars)
qed

interpretation bitrate: fmtp_rewrite "set_start_bitrate k" for k
proof unfold_locales
  fix l eol :: rstr
  obtain a m c where s: "set_start_bitrate k l = a @ m @ start_bitrate_key @ decimal (unat k) @ c"
    "m = [] \<or> m = [59]" "prefix a l" "suffix c l" "c = [] \<or> (\<exists>d. c = 59 # d)"
    "\<not> sublist start_bitrate_key (butlast (a @ m @ start_bitrate_key))"
    "prefix (lit ''a=fmtp:'') l \<longrightarrow> prefix (lit ''a=fmtp:'') a"
    by (rule set_start_bitrate_shape[of k l])
  have digits: "59 \<notin> set (decimal (unat k))" "10 \<notin> set (decimal (unat k))" "13 \<notin> set (decimal (unat k))"
    using decimal_chars by auto
  show "set_start_bitrate k (set_start_bitrate k l) = set_start_bitrate k l"
    using set_start_bitrate_at[of "a @ m" "decimal (unat k)" c k] s(5,6) digits(1) by (simp add: s(1))
  show "prefix (lit ''a=fmtp:'') l \<Longrightarrow> prefix (lit ''a=fmtp:'') (set_start_bitrate k l)"
    using s(7) by (auto simp: s(1) prefix_def)
  show "\<not> sublist eol (set_start_bitrate k l)" if e: "eol = crlf \<or> eol = lf" "\<not> sublist eol l"
  proof
    assume "sublist eol (set_start_bitrate k l)"
    then have "sublist eol a \<or> sublist eol c"
      using no_eol_insert[OF e(1), of a "m @ start_bitrate_key @ decimal (unat k)" c] key_chars digits s(1,2)
      by auto
    then show False
      using e(2) s(3,4) by (meson prefix_imp_sublist suffix_imp_sublist sublist_order.order_trans)
  qed
  show "cr_free_end (set_start_bitrate k l)" if cr: "cr_free_end l"
  proof (cases "c = []")
    case True
    obtain ds d where "decimal (unat k) = ds @ [d]"
      using decimal_nonempty by (metis rev_exhaust)
    then show ?thesis
      using True digits(3) by (simp add: s(1) suffix_append) (auto simp: suffix_def)
  next
    case False
    have "suffix [13] c" if "suffix [13] (u @ c)" for u
      using that False by (cases c rule: rev_cases) (auto simp: suffix_def)
    then show ?thesis
      using cr s(4) by (metis append.assoc s(1) suffix_order.order_trans)
  qed
qed

section \<open>What the rewritings promise\<close>

text \<open>Line \<open>i\<close> is in a media section of RTP: the last \<open>m=\<close> line up to it names RTP.\<close>

definition is_section :: "rstr \<Rightarrow> bool" where
  "is_section line \<longleftrightarrow> prefix (lit ''m='') (trim line)"

definition in_rtp_section :: "rstr list \<Rightarrow> nat \<Rightarrow> bool" where
  "in_rtp_section ls i \<longleftrightarrow>
     (\<exists>j\<in>{..i}. is_section (ls ! j) \<and> sublist (lit ''RTP/'') (trim (ls ! j))
        \<and> (\<forall>k\<in>{j<..i}. \<not> is_section (ls ! k)))"

lemma in_rtp_section_0:
  "in_rtp_section (l # ls) 0 \<longleftrightarrow> is_section l \<and> sublist (lit ''RTP/'') (trim l)"
  by (auto simp: in_rtp_section_def)

lemma in_rtp_section_Suc:
  "in_rtp_section (l # ls) (Suc i) \<longleftrightarrow> in_rtp_section ls i
     \<or> is_section l \<and> sublist (lit ''RTP/'') (trim l) \<and> (\<forall>k\<le>i. \<not> is_section (ls ! k))"
proof
  assume "in_rtp_section (l # ls) (Suc i)"
  then obtain j where j: "j \<le> Suc i" "is_section ((l # ls) ! j)"
      "sublist (lit ''RTP/'') (trim ((l # ls) ! j))"
      "\<forall>k. j < k \<and> k \<le> Suc i \<longrightarrow> \<not> is_section ((l # ls) ! k)"
    by (auto simp: in_rtp_section_def)
  show "in_rtp_section ls i
     \<or> is_section l \<and> sublist (lit ''RTP/'') (trim l) \<and> (\<forall>k\<le>i. \<not> is_section (ls ! k))"
  proof (cases j)
    case 0
    then show ?thesis
      using j by (metis Suc_le_mono nth_Cons_0 nth_Cons_Suc zero_less_Suc)
  next
    case (Suc j')
    have "\<not> is_section (ls ! k)" if "j' < k" "k \<le> i" for k
      using j(4)[rule_format, of "Suc k"] Suc that by simp
    then have "in_rtp_section ls i"
      using j(1-3) Suc unfolding in_rtp_section_def by (intro bexI[of _ j']) auto
    then show ?thesis
      by simp
  qed
next
  assume "in_rtp_section ls i
     \<or> is_section l \<and> sublist (lit ''RTP/'') (trim l) \<and> (\<forall>k\<le>i. \<not> is_section (ls ! k))"
  then show "in_rtp_section (l # ls) (Suc i)"
  proof
    assume "in_rtp_section ls i"
    then obtain j where "j \<le> i" "is_section (ls ! j)" "sublist (lit ''RTP/'') (trim (ls ! j))"
      "\<forall>k. j < k \<and> k \<le> i \<longrightarrow> \<not> is_section (ls ! k)"
      by (auto simp: in_rtp_section_def)
    then show ?thesis
      unfolding in_rtp_section_def
      by (intro bexI[of _ "Suc j"]) (auto simp: nth_Cons split: nat.splits)
  next
    assume "is_section l \<and> sublist (lit ''RTP/'') (trim l) \<and> (\<forall>k\<le>i. \<not> is_section (ls ! k))"
    then show ?thesis
      unfolding in_rtp_section_def by (intro bexI[of _ 0]) (auto simp: nth_Cons split: nat.splits)
  qed
qed

lemma inactive_loop_nth:
  "i < length ls \<Longrightarrow> inactive_loop b ls ! i =
     (if trim (ls ! i) = lit ''a=inactive''
         \<and> (in_rtp_section ls i \<or> b \<and> (\<forall>k\<le>i. \<not> is_section (ls ! k)))
      then lit ''a=recvonly'' else ls ! i)"
proof (induction ls arbitrary: b i)
  case (Cons l ls)
  have mark: "trim l = lit ''a=inactive'' \<Longrightarrow> \<not> is_section l"
    using marks_no_section(2) by (simp add: is_section_def starts_with_prefix)
  show ?case
  proof (cases i)
    case 0
    then show ?thesis
      using mark by (auto simp: Let_def in_rtp_section_0 starts_with_prefix is_section_def)
  next
    case (Suc n)
    have "(\<forall>k\<le>Suc n. \<not> is_section ((l # ls) ! k)) \<longleftrightarrow>
        \<not> is_section l \<and> (\<forall>k\<le>n. \<not> is_section (ls ! k))"
      by (auto simp: nth_Cons less_Suc_eq_le split: nat.splits)
    then show ?thesis
      using Cons.prems Cons.IH[of n] Suc
      by (auto simp: Let_def in_rtp_section_Suc starts_with_prefix is_section_def contains_sublist)
  qed
qed simp

text \<open>A line of format parameters of one of the payload types.\<close>

definition is_fmtp_of :: "rstr list \<Rightarrow> rstr \<Rightarrow> bool" where
  "is_fmtp_of pts line \<longleftrightarrow> (\<exists>pt\<in>set pts. prefix (fmtp_prefix pt) line)"

lemma terminated_nth: "i < length ls \<Longrightarrow> terminated ls ! i = ls ! i"
  by (simp add: terminated_def nth_append)

context fmtp_rewrite
begin

lemma rewritten_line:
  assumes "cr_free_end sdp" "i < length (sdp_lines sdp)"
  shows "sdp_lines (munge_fmtp cok f sdp) ! i =
    (if is_fmtp_of (payload_types cok (sdp_lines sdp)) (sdp_lines sdp ! i)
     then f (sdp_lines sdp ! i) else sdp_lines sdp ! i)"
proof (cases "payload_types cok (sdp_lines sdp) = []")
  case True
  then show ?thesis
    by (simp add: munge_fmtp_def is_fmtp_of_def)
next
  case False
  then show ?thesis
    using lines.munged_lines(1)[OF assms(1), of cok] assms(2)
    by (simp add: munge_fmtp_eq terminated_nth rewrite_fmtp_eq is_fmtp_of_def)
qed

end

text \<open>The start bitrate of a line: the digits that follow the key.\<close>

definition has_start_bitrate :: "u32 \<Rightarrow> rstr \<Rightarrow> bool" where
  "has_start_bitrate kbps line \<longleftrightarrow>
     (\<exists>a c. line = a @ start_bitrate_key @ decimal (unat kbps) @ c
        \<and> \<not> sublist start_bitrate_key (butlast (a @ start_bitrate_key))
        \<and> (c = [] \<or> (\<exists>d. c = 59 # d)))"

lemma set_start_bitrate_has: "has_start_bitrate kbps (set_start_bitrate kbps line)"
proof -
  obtain a m c where s: "set_start_bitrate kbps line = a @ m @ start_bitrate_key @ decimal (unat kbps) @ c"
    "c = [] \<or> (\<exists>d. c = 59 # d)" "\<not> sublist start_bitrate_key (butlast (a @ m @ start_bitrate_key))"
    using set_start_bitrate_shape[of kbps line] by metis
  then show ?thesis
    unfolding has_start_bitrate_def by (intro exI[of _ "a @ m"] exI[of _ c]) simp
qed

text \<open>An offer as the examples below use it.\<close>

definition sample_sdp :: rstr where
  "sample_sdp = lit ''v=0'' @ crlf @ lit ''m=audio 9 UDP/TLS/RTP/SAVPF 111'' @ crlf
     @ lit ''a=inactive'' @ crlf @ lit ''a=rtpmap:111 opus/48000/2'' @ crlf
     @ lit ''a=fmtp:111 minptime=10'' @ crlf @ lit ''m=video 9 UDP/TLS/RTP/SAVPF 98'' @ crlf
     @ lit ''a=rtpmap:98 VP9/90000'' @ crlf
     @ lit ''a=fmtp:98 x-google-start-bitrate=1000;profile-id=0'' @ crlf"

text \<open>The rewriting of an offer touches only the lines it is about.  An inactive line
  becomes receive-only exactly in the media sections of RTP; exactly the format lines of an
  Opus payload type that do not mention stereo get it, at their end; the format lines of a
  VP9 or AV1 payload type carry the new start bitrate, all others stay as they are.\<close>

theorem sdp_lines_rewritten:
  assumes "cr_free_end sdp"
  shows "(\<forall>i<length (sdp_lines sdp). sdp_lines (munge_inactive_to_recvonly sdp) ! i =
           (if trim (sdp_lines sdp ! i) = lit ''a=inactive'' \<and> in_rtp_section (sdp_lines sdp) i
            then lit ''a=recvonly'' else sdp_lines sdp ! i))
       \<and> (\<forall>i<length (sdp_lines sdp). sdp_lines (munge_stereo_for_audio sdp) ! i =
           (if is_fmtp_of (payload_types is_opus (sdp_lines sdp)) (sdp_lines sdp ! i)
               \<and> \<not> sublist (lit ''stereo='') (sdp_lines sdp ! i)
            then sdp_lines sdp ! i @ lit '';stereo=1'' else sdp_lines sdp ! i))
       \<and> (\<forall>i<length (sdp_lines sdp).
           (if is_fmtp_of (payload_types is_vp9_or_av1 (sdp_lines sdp)) (sdp_lines sdp ! i)
            then has_start_bitrate kbps (sdp_lines (munge_x_google_start_bitrate sdp kbps) ! i)
            else sdp_lines (munge_x_google_start_bitrate sdp kbps) ! i = sdp_lines sdp ! i))"
proof -
  have "sdp_lines (munge_inactive_to_recvonly sdp) = terminated (inactive_loop False (sdp_lines sdp))"
    using inactive.munged_lines(1)[OF assms] by (simp add: munge_inactive_eq)
  then show ?thesis
    using stereo.rewritten_line[OF assms, of _ is_opus]
      bitrate.rewritten_line[OF assms, of _ is_vp9_or_av1]
    by (simp add: terminated_nth inactive_loop_nth munge_stereo_for_audio_def munge_x_google_start_bitrate_def
        set_start_bitrate_has add_stereo_def contains_sublist)
qed

theorem sdp_lines_rewritten_witness:
  "cr_free_end sample_sdp
   \<and> sdp_lines (munge_inactive_to_recvonly sample_sdp) ! 2 = lit ''a=recvonly''
   \<and> sdp_lines (munge_stereo_for_audio sample_sdp) ! 4 = lit ''a=fmtp:111 minptime=10;stereo=1''
   \<and> has_start_bitrate 700 (sdp_lines (munge_x_google_start_bitrate sample_sdp 700) ! 7)"
proof -
  have cr: "cr_free_end sample_sdp"
    by code_simp
  have ls: "sdp_lines sample_sdp = [lit ''v=0'', lit ''m=audio 9 UDP/TLS/RTP/SAVPF 111'',
      lit ''a=inactive'', lit ''a=rtpmap:111 opus/48000/2'', lit ''a=fmtp:111 minptime=10'',
      lit ''m=video 9 UDP/TLS/RTP/SAVPF 98'', lit ''a=rtpmap:98 VP9/90000'',
      lit ''a=fmtp:98 x-google-start-bitrate=1000;profile-id=0'', []]"
    by (simp add: sample_sdp_def crlf_def sdp_lines_def uses_crlf_def contains_str_def
        starts_with_def lit_chars)
  have "in_rtp_section (sdp_lines sample_sdp) 2" "trim (sdp_lines sample_sdp ! 2) = lit ''a=inactive''"
    unfolding ls by (simp_all add: in_rtp_section_def atMost_Suc numeral_2_eq_2 is_section_def
        trim_def is_whitespace_def lit_chars sublist_Cons_right greaterThanAtMost_iff)
  moreover have "payload_types is_opus (sdp_lines sample_sdp) = [lit ''111'']"
    "payload_types is_vp9_or_av1 (sdp_lines sample_sdp) = [lit ''98'']"
    unfolding ls by (simp_all add: rtpmap_of_def is_opus_def is_vp9_or_av1_def starts_with_def
        trim_def first_word_def second_word_def is_whitespace_def lit_chars)
  moreover have "is_fmtp_of [lit ''111''] (sdp_lines sample_sdp ! 4)"
    "\<not> sublist (lit ''stereo='') (sdp_lines sample_sdp ! 4)"
    "is_fmtp_of [lit ''98''] (sdp_lines sample_sdp ! 7)"
    "sdp_lines sample_sdp ! 4 @ lit '';stereo=1'' = lit ''a=fmtp:111 minptime=10;stereo=1''"
    unfolding ls by (simp_all add: is_fmtp_of_def fmtp_prefix_def lit_chars sublist_Cons_right)
  moreover have "length (sdp_lines sample_sdp) = 9"
    by (simp add: ls)
  ultimately show ?thesis
    using sdp_lines_rewritten[OF cr, of 700] cr by auto
qed

text \<open>Rewriting an offer again changes nothing, for each of the three rewritings: a
  transport that offers the rewritten description once more offers the same.\<close>

theorem sdp_rewriting_idempotent:
  assumes "cr_free_end sdp"
  shows "munge_inactive_to_recvonly (munge_inactive_to_recvonly sdp) = munge_inactive_to_recvonly sdp
       \<and> munge_stereo_for_audio (munge_stereo_for_audio sdp) = munge_stereo_for_audio sdp
       \<and> munge_x_google_start_bitrate (munge_x_google_start_bitrate sdp kbps) kbps
           = munge_x_google_start_bitrate sdp kbps"
  using inactive.munge_idempotent[OF assms] stereo.lines.munge_idempotent[OF assms]
    bitrate.lines.munge_idempotent[OF assms]
  by (simp add: munge_inactive_eq munge_stereo_for_audio_def munge_x_google_start_bitrate_def
      munge_fmtp_eq)

theorem sdp_rewriting_idempotent_witness:
  "cr_free_end sample_sdp
   \<and> munge_x_google_start_bitrate (munge_x_google_start_bitrate sample_sdp 700) 700
       = munge_x_google_start_bitrate sample_sdp 700"
proof -
  have "cr_free_end sample_sdp"
    by code_simp
  then show ?thesis
    using sdp_rewriting_idempotent[of sample_sdp 700] by simp
qed

text \<open>
  Stereo is looked for by name only: a line that says what the sender would do is taken
  for one that already asks for stereo.
\<close>

lemma sprop_stereo_hides_stereo:
  "add_stereo (lit ''a=fmtp:111 minptime=10;sprop-stereo=1'')
     = lit ''a=fmtp:111 minptime=10;sprop-stereo=1''"
  by code_simp

section \<open>The start bitrate\<close>

lemma seventy_percent: "\<bar>fl 53 (7 / 10) - 7 / 10\<bar> \<le> 1 / 2 ^ 53" "0 < fl 53 (7 / 10)"
  by code_simp+

lemma start_product:
  fixes u :: nat
  assumes "0 < u" "u < 2 ^ 32"
  defines "x \<equiv> fmul 53 (of_nat u) (fl 53 (7 / 10))"
  shows "\<bar>x - 7 / 10 * of_nat u\<bar> \<le> 1 / 1000"
proof -
  define c where "c = fl 53 (7 / 10)"
  have c: "\<bar>c - 7 / 10\<bar> \<le> 1 / 2 ^ 53" "0 < c"
    using seventy_percent by (simp_all add: c_def)
  have u: "(of_nat u :: rat) \<le> 2 ^ 32"
    using assms(2) by (metis less_imp_le of_nat_le_iff of_nat_numeral of_nat_power)
  have "c \<le> 1"
    using abs_le_D1[OF c(1)] by simp
  have "\<bar>x - of_nat u * c\<bar> \<le> of_nat u * c / 2 ^ 53"
    using fl_error[of "of_nat u * c" 53] assms(1) c(2) by (simp add: x_def c_def)
  also have "\<dots> \<le> 2 ^ 32 * 1 / 2 ^ 53"
    using u \<open>c \<le> 1\<close> c(2) by (intro divide_right_mono mult_mono) auto
  finally have 1: "\<bar>x - of_nat u * c\<bar> \<le> 1 / 2000"
    by simp
  have "\<bar>of_nat u * c - of_nat u * (7 / 10)\<bar> = of_nat u * \<bar>c - 7 / 10\<bar>"
    by (simp only: right_diff_distrib[symmetric] abs_mult abs_of_nat)
  also have "\<dots> \<le> 2 ^ 32 * (1 / 2 ^ 53)"
    using u c(1) by (intro mult_mono) auto
  finally have 2: "\<bar>of_nat u * c - of_nat u * (7 / 10)\<bar> \<le> 1 / 2000"
    by simp
  show ?thesis
    using abs_triangle_ineq[of "x - of_nat u * c" "of_nat u * c - of_nat u * (7 / 10)"] 1 2
    by (simp add: mult.commute)
qed

lemma start_round:
  fixes u :: nat
  assumes "0 < u" "u < 2 ^ 32"
  defines "k \<equiv> round_away (fmul 53 (of_nat u) (fl 53 (7 / 10)))"
  shows "0 \<le> k" "\<bar>10 * k - 7 * int u\<bar> \<le> 5"
proof -
  define x where "x = fmul 53 (of_nat u) (fl 53 (7 / 10))"
  have x: "\<bar>x - 7 / 10 * of_nat u\<bar> \<le> 1 / 1000"
    using start_product[OF assms(1,2)] by (simp add: x_def)
  have "(1::rat) \<le> of_nat u"
    using assms(1) by simp
  then have x0: "0 \<le> x"
    using abs_le_D2[OF x] by linarith
  then have k: "k = \<lfloor>x + 1 / 2\<rfloor>"
    by (simp add: k_def x_def round_away_def)
  then show "0 \<le> k"
    using x0 by (simp add: le_floor_iff)
  have "of_int k \<le> x + 1 / 2" "x + 1 / 2 < of_int k + 1"
    unfolding k by linarith+
  then have "10 * of_int k - 7 * (of_nat u :: rat) < 6" "- 6 < 10 * of_int k - 7 * (of_nat u :: rat)"
    using abs_le_D1[OF x] abs_le_D2[OF x] by linarith+
  then have "(of_int (10 * k - 7 * int u) :: rat) < of_int 6" "(of_int (- 6) :: rat) < of_int (10 * k - 7 * int u)"
    by simp_all
  then show "\<bar>10 * k - 7 * int u\<bar> \<le> 5"
    by (simp only: of_int_less_iff)
qed

text \<open>The target in kbps, as the cast to 32 bits leaves it.\<close>

definition target_kbps :: "u64 \<Rightarrow> nat" where
  "target_kbps bps = (unat bps div 1000) mod 2 ^ 32"

text \<open>A transport writes a start bitrate exactly when the target is at least 300 kbps,
  and then it is seventy percent of the target, rounded to the nearest integer, and never
  above it, in spite of the floating-point product.\<close>

theorem start_bitrate_bounds:
  "(compute_start_bitrate_kbps (Some bps) = None \<longleftrightarrow> target_kbps bps < 300)
   \<and> (compute_start_bitrate_kbps (Some bps) = Some k \<longrightarrow>
        \<bar>10 * int (unat k) - 7 * int (target_kbps bps)\<bar> \<le> 5 \<and> unat k \<le> target_kbps bps \<and> 210 \<le> unat k)"
proof -
  define w where "w = (ucast (bps div 1000) :: u32)"
  define r where "r = round_away (fmul 53 (of_nat (unat w)) (fl 53 (7 / 10)))"
  have w: "unat w = target_kbps bps"
    by (simp add: w_def target_kbps_def unsigned_ucast_eq unat_div take_bit_eq_mod)
  have result: "compute_start_bitrate_kbps (Some bps) =
      (if unat w < 300 then None else Some (min (word_of_int r) w))"
    by (auto simp: compute_start_bitrate_kbps_def Let_def r_def word_less_nat_alt simp flip: w_def)
  have "\<bar>10 * int (unat k) - 7 * int (target_kbps bps)\<bar> \<le> 5 \<and> unat k \<le> target_kbps bps \<and> 210 \<le> unat k"
    if "300 \<le> unat w" "k = min (word_of_int r) w"
  proof -
    have r: "0 \<le> r" "\<bar>10 * r - 7 * int (unat w)\<bar> \<le> 5"
      using start_round[of "unat w"] that(1) unsigned_less[of w] by (simp_all add: r_def)
    then have small: "r \<le> int (unat w)"
      using that(1) by linarith
    have "int (unat w) < 2 ^ 32"
      using unsigned_less[of w] by simp
    then have "uint (word_of_int r :: u32) = r"
      using r(1) small by (simp add: uint_word_of_int)
    then have n: "int (unat (word_of_int r :: u32)) = r"
      by simp
    have "word_of_int r \<le> w"
      using \<open>uint (word_of_int r :: u32) = r\<close> small by (simp add: word_le_def)
    then have "k = word_of_int r"
      using that(2) by (simp add: min_def)
    then have k: "int (unat k) = r"
      using n by simp
    show ?thesis
    proof (intro conjI)
      show "\<bar>10 * int (unat k) - 7 * int (target_kbps bps)\<bar> \<le> 5"
        using r(2) by (simp only: k w)
      show "unat k \<le> target_kbps bps"
        using small k w by linarith
      show "210 \<le> unat k"
        using k r(2) that(1) by linarith
    qed
  qed
  then show ?thesis
    using result w by (auto split: if_splits)
qed

theorem start_bitrate_bounds_witness:
  "compute_start_bitrate_kbps (Some 1700000) = Some 1190
   \<and> unat (1190 :: u32) \<le> target_kbps 1700000"
proof -
  have "round_away (fl 53 (1700 * fl 53 (7 / 10))) = 1190"
    by code_simp
  then have "compute_start_bitrate_kbps (Some 1700000) = Some 1190"
    by (simp add: compute_start_bitrate_kbps_def Let_def unsigned_ucast_eq)
  then show ?thesis
    using start_bitrate_bounds[of 1700000 1190] by simp
qed

section \<open>The transport\<close>

text \<open>
  The peer connection of the WebRTC library is a parameter: what its state answers, and
  what each call does to that state and returns, \<open>None\<close> standing for success of a call
  without result.  A session description is known by its text.
\<close>

datatype signaling_state = Stable | HaveLocalOffer | HaveLocalPrAnswer | HaveRemoteOffer
  | HaveRemotePrAnswer | Closed

record offer_options =
  ice_restart :: bool
  offer_to_receive_audio :: bool
  offer_to_receive_video :: bool

definition offer_options_default :: offer_options where
  "offer_options_default =
     \<lparr>ice_restart = False, offer_to_receive_audio = False, offer_to_receive_video = False\<rparr>"

record ('pc, 'sdp, 'c, 'e) pc_api =
  pc_signaling :: "'pc \<Rightarrow> signaling_state"
  pc_remote :: "'pc \<Rightarrow> 'sdp option"
  pc_set_remote :: "'sdp \<Rightarrow> 'pc \<Rightarrow> 'pc \<times> 'e option"
  pc_set_local :: "'sdp \<Rightarrow> 'pc \<Rightarrow> 'pc \<times> 'e option"
  pc_add_candidate :: "'c \<Rightarrow> 'pc \<Rightarrow> 'pc \<times> 'e option"
  pc_create_offer :: "offer_options \<Rightarrow> 'pc \<Rightarrow> 'pc \<times> ('e + 'sdp)"
  pc_create_answer :: "'pc \<Rightarrow> 'pc \<times> ('e + 'sdp)"
  sdp_text :: "'sdp \<Rightarrow> rstr"
  sdp_parse :: "rstr \<Rightarrow> 'sdp \<Rightarrow> 'sdp option"

text \<open>\<open>TransportInner\<close>, the peer connection and what was handed to the offer handler;
  \<open>tp_locked\<close> says that a call holds the lock.\<close>

record ('pc, 'sdp, 'c) transport =
  tp_pc :: 'pc
  tp_pending :: "'c list"
  tp_renegotiate :: bool
  tp_restarting_ice :: bool
  tp_single_pc_mode :: bool
  tp_max_send_bitrate_bps :: "u64 option"
  tp_offers :: "'sdp list"
  tp_locked :: bool

definition transport_new :: "'pc \<Rightarrow> bool \<Rightarrow> ('pc, 'sdp, 'c) transport" where
  "transport_new pc single =
     \<lparr>tp_pc = pc, tp_pending = [], tp_renegotiate = False, tp_restarting_ice = False,
      tp_single_pc_mode = single, tp_max_send_bitrate_bps = None, tp_offers = [],
      tp_locked = False\<rparr>"

text \<open>
  A call returns the new transport and its error, if any; \<open>None\<close> means that it waits for the
  lock forever, because the task that waits is the one that holds it.
\<close>

type_synonym ('t, 'e) call = "('t \<times> 'e option) option"

definition lock_inner :: "('pc, 'sdp, 'c) transport \<Rightarrow> ('pc, 'sdp, 'c) transport option" where
  "lock_inner t = (if tp_locked t then None else Some (t\<lparr>tp_locked := True\<rparr>))"

definition unlock_inner :: "('pc, 'sdp, 'c) transport \<Rightarrow> ('pc, 'sdp, 'c) transport" where
  "unlock_inner t = t\<lparr>tp_locked := False\<rparr>"

definition tp_add_ice_candidate ::
  "('pc, 'sdp, 'c, 'e) pc_api \<Rightarrow> 'c \<Rightarrow> ('pc, 'sdp, 'c) transport
     \<Rightarrow> (('pc, 'sdp, 'c) transport, 'e) call" where
  "tp_add_ice_candidate api c t =
     (case lock_inner t of
        None \<Rightarrow> None
      | Some t \<Rightarrow>
          if pc_remote api (tp_pc t) \<noteq> None \<and> \<not> tp_restarting_ice t then
            (let t = unlock_inner t; (pc, err) = pc_add_candidate api c (tp_pc t)
             in Some (t\<lparr>tp_pc := pc\<rparr>, err))
          else Some (unlock_inner (t\<lparr>tp_pending := tp_pending t @ [c]\<rparr>), None))"

text \<open>One step of the rewriting of an offer: a text that does not parse is not used.\<close>

definition munge_offer_with ::
  "('pc, 'sdp, 'c, 'e) pc_api \<Rightarrow> (rstr \<Rightarrow> rstr) \<Rightarrow> 'sdp \<times> rstr \<Rightarrow> 'sdp \<times> rstr" where
  "munge_offer_with api munge p =
     (case p of (offer, sdp) \<Rightarrow>
        (let munged = munge sdp
         in if munged = sdp then (offer, sdp)
            else (case sdp_parse api munged offer of
                    Some parsed \<Rightarrow> (parsed, munged)
                  | None \<Rightarrow> (offer, sdp))))"

definition munge_offer ::
  "('pc, 'sdp, 'c, 'e) pc_api \<Rightarrow> ('pc, 'sdp, 'c) transport \<Rightarrow> 'sdp \<Rightarrow> 'sdp" where
  "munge_offer api t offer =
     (let p = (offer, sdp_text api offer);
          p = (if tp_single_pc_mode t
               then munge_offer_with api munge_stereo_for_audio
                      (munge_offer_with api munge_inactive_to_recvonly p)
               else p);
          sdp = snd p
      in if contains_str (lit '' VP9/90000'') sdp \<or> contains_str (lit '' AV1/90000'') sdp then
           (case compute_start_bitrate_kbps (tp_max_send_bitrate_bps t) of
              Some kbps \<Rightarrow> fst (munge_offer_with api (\<lambda>s. munge_x_google_start_bitrate s kbps) p)
            | None \<Rightarrow> fst p)
         else fst p)"

text \<open>The end of \<open>create_and_send_offer\<close>: create, rewrite, set, hand over.\<close>

definition send_offer ::
  "('pc, 'sdp, 'c, 'e) pc_api \<Rightarrow> offer_options \<Rightarrow> ('pc, 'sdp, 'c) transport
     \<Rightarrow> ('pc, 'sdp, 'c) transport \<times> 'e option" where
  "send_offer api opts t =
     (case pc_create_offer api opts (tp_pc t) of
        (pc, Inl err) \<Rightarrow> (t\<lparr>tp_pc := pc\<rparr>, Some err)
      | (pc, Inr offer) \<Rightarrow>
          (let offer = munge_offer api t offer; (pc, err) = pc_set_local api offer pc
           in case err of
                Some err \<Rightarrow> (t\<lparr>tp_pc := pc\<rparr>, Some err)
              | None \<Rightarrow> (t\<lparr>tp_pc := pc, tp_offers := tp_offers t @ [offer]\<rparr>, None)))"

text \<open>\<open>create_and_send_offer\<close> under its lock.\<close>

definition offer_locked ::
  "('pc, 'sdp, 'c, 'e) pc_api \<Rightarrow> offer_options \<Rightarrow> ('pc, 'sdp, 'c) transport
     \<Rightarrow> ('pc, 'sdp, 'c) transport \<times> 'e option" where
  "offer_locked api opts t =
     (let t = (if ice_restart opts then t\<lparr>tp_restarting_ice := True\<rparr> else t)
      in if pc_signaling api (tp_pc t) = HaveLocalOffer then
           (case pc_remote api (tp_pc t) of
              Some remote_sdp \<Rightarrow>
                if ice_restart opts then
                  (case pc_set_remote api remote_sdp (tp_pc t) of
                     (pc, Some err) \<Rightarrow> (t\<lparr>tp_pc := pc\<rparr>, Some err)
                   | (pc, None) \<Rightarrow> send_offer api opts (t\<lparr>tp_pc := pc\<rparr>))
                else (t\<lparr>tp_renegotiate := True\<rparr>, None)
            | None \<Rightarrow> (t\<lparr>tp_renegotiate := True\<rparr>, None))
         else if pc_signaling api (tp_pc t) = Closed then (t, None)
         else send_offer api opts t)"

definition create_and_send_offer ::
  "('pc, 'sdp, 'c, 'e) pc_api \<Rightarrow> offer_options \<Rightarrow> ('pc, 'sdp, 'c) transport
     \<Rightarrow> (('pc, 'sdp, 'c) transport, 'e) call" where
  "create_and_send_offer api opts t =
     map_option (\<lambda>t. case offer_locked api opts t of (t, err) \<Rightarrow> (unlock_inner t, err))
       (lock_inner t)"

text \<open>The pending candidates are drained: those that follow a failing one are dropped.\<close>

fun add_pending ::
  "('pc, 'sdp, 'c, 'e) pc_api \<Rightarrow> 'c list \<Rightarrow> 'pc \<Rightarrow> 'pc \<times> 'e option" where
  "add_pending api [] pc = (pc, None)"
| "add_pending api (c # cs) pc =
     (case pc_add_candidate api c pc of
        (pc, Some err) \<Rightarrow> (pc, Some err)
      | (pc, None) \<Rightarrow> add_pending api cs pc)"

definition tp_set_remote_description ::
  "('pc, 'sdp, 'c, 'e) pc_api \<Rightarrow> 'sdp \<Rightarrow> ('pc, 'sdp, 'c) transport
     \<Rightarrow> (('pc, 'sdp, 'c) transport, 'e) call" where
  "tp_set_remote_description api sdp t =
     (case lock_inner t of
        None \<Rightarrow> None
      | Some t \<Rightarrow>
          (case pc_set_remote api sdp (tp_pc t) of
             (pc, Some err) \<Rightarrow> Some (unlock_inner (t\<lparr>tp_pc := pc\<rparr>), Some err)
           | (pc, None) \<Rightarrow>
               (case add_pending api (tp_pending t) pc of
                  (pc, Some err) \<Rightarrow>
                    Some (unlock_inner (t\<lparr>tp_pc := pc, tp_pending := []\<rparr>), Some err)
                | (pc, None) \<Rightarrow>
                    (let t = t\<lparr>tp_pc := pc, tp_pending := [], tp_restarting_ice := False\<rparr>
                     in if tp_renegotiate t then
                          map_option (\<lambda>(t, err). (unlock_inner t, err))
                            (create_and_send_offer api offer_options_default
                               (t\<lparr>tp_renegotiate := False\<rparr>))
                        else Some (unlock_inner t, None)))))"

definition create_anwser ::
  "('pc, 'sdp, 'c, 'e) pc_api \<Rightarrow> 'sdp \<Rightarrow> ('pc, 'sdp, 'c) transport
     \<Rightarrow> (('pc, 'sdp, 'c) transport \<times> ('e + 'sdp)) option" where
  "create_anwser api offer t =
     (case tp_set_remote_description api offer t of
        None \<Rightarrow> None
      | Some (t, Some err) \<Rightarrow> Some (t, Inl err)
      | Some (t, None) \<Rightarrow>
          (case pc_create_answer api (tp_pc t) of
             (pc, Inl err) \<Rightarrow> Some (t\<lparr>tp_pc := pc\<rparr>, Inl err)
           | (pc, Inr answer) \<Rightarrow>
               (case pc_set_local api answer pc of
                  (pc, Some err) \<Rightarrow> Some (t\<lparr>tp_pc := pc\<rparr>, Inl err)
                | (pc, None) \<Rightarrow> Some (t\<lparr>tp_pc := pc\<rparr>, Inr answer))))"

definition set_max_send_bitrate_bps ::
  "u64 option \<Rightarrow> ('pc, 'sdp, 'c) transport \<Rightarrow> ('pc, 'sdp, 'c) transport option" where
  "set_max_send_bitrate_bps bps t =
     map_option (\<lambda>t. unlock_inner (t\<lparr>tp_max_send_bitrate_bps := bps\<rparr>)) (lock_inner t)"

section \<open>Runs of a transport\<close>

datatype ('sdp, 'c) transport_op =
    AddIceCandidate 'c
  | SetRemoteDescription 'sdp
  | CreateAndSendOffer offer_options
  | CreateAnswer 'sdp
  | SetMaxSendBitrate "u64 option"

fun transport_step ::
  "('pc, 'sdp, 'c, 'e) pc_api \<Rightarrow> ('sdp, 'c) transport_op \<Rightarrow> ('pc, 'sdp, 'c) transport
     \<Rightarrow> (('pc, 'sdp, 'c) transport, 'e) call" where
  "transport_step api (AddIceCandidate c) t = tp_add_ice_candidate api c t"
| "transport_step api (SetRemoteDescription sdp) t = tp_set_remote_description api sdp t"
| "transport_step api (CreateAndSendOffer opts) t = create_and_send_offer api opts t"
| "transport_step api (CreateAnswer offer) t =
     map_option (\<lambda>(t, res). (t, case res of Inl err \<Rightarrow> Some err | Inr _ \<Rightarrow> None))
       (create_anwser api offer t)"
| "transport_step api (SetMaxSendBitrate bps) t =
     map_option (\<lambda>t. (t, None)) (set_max_send_bitrate_bps bps t)"

text \<open>A run in which every call returns without an error.\<close>

fun transport_run ::
  "('pc, 'sdp, 'c, 'e) pc_api \<Rightarrow> ('sdp, 'c) transport_op list \<Rightarrow> ('pc, 'sdp, 'c) transport
     \<Rightarrow> ('pc, 'sdp, 'c) transport option" where
  "transport_run api [] t = Some t"
| "transport_run api (op # ops) t =
     (case transport_step api op t of
        Some (t', None) \<Rightarrow> transport_run api ops t'
      | _ \<Rightarrow> None)"

text \<open>
  What is relied on of the peer connection: it knows the candidates it was given, a
  candidate it takes is one of them from then on, and no other call gives it one.
\<close>

definition candidate_log :: "('pc, 'sdp, 'c, 'e) pc_api \<Rightarrow> ('pc \<Rightarrow> 'c list) \<Rightarrow> bool" where
  "candidate_log api cands \<longleftrightarrow>
     (\<forall>c pc. snd (pc_add_candidate api c pc) = None \<longrightarrow>
        cands (fst (pc_add_candidate api c pc)) = cands pc @ [c])
     \<and> (\<forall>sdp pc. cands (fst (pc_set_remote api sdp pc)) = cands pc)
     \<and> (\<forall>sdp pc. cands (fst (pc_set_local api sdp pc)) = cands pc)
     \<and> (\<forall>opts pc. cands (fst (pc_create_offer api opts pc)) = cands pc)
     \<and> (\<forall>pc. cands (fst (pc_create_answer api pc)) = cands pc)"

lemma candidate_logD:
  assumes "candidate_log api cands"
  shows "pc_add_candidate api c pc = (pc', None) \<Longrightarrow> cands pc' = cands pc @ [c]"
    "pc_set_remote api sdp pc = (pc', err) \<Longrightarrow> cands pc' = cands pc"
    "pc_set_local api sdp pc = (pc', err) \<Longrightarrow> cands pc' = cands pc"
    "pc_create_offer api opts pc = (pc', res) \<Longrightarrow> cands pc' = cands pc"
    "pc_create_answer api pc = (pc', res) \<Longrightarrow> cands pc' = cands pc"
  using assms unfolding candidate_log_def by (metis fst_conv snd_conv)+

text \<open>The candidates a transport was given: with the peer connection or pending.\<close>

definition held :: "('pc \<Rightarrow> 'c list) \<Rightarrow> ('pc, 'sdp, 'c) transport \<Rightarrow> 'c list" where
  "held cands t = cands (tp_pc t) @ tp_pending t"

fun op_candidates :: "('sdp, 'c) transport_op \<Rightarrow> 'c list" where
  "op_candidates (AddIceCandidate c) = [c]"
| "op_candidates _ = []"

lemma add_pending_log:
  "candidate_log api cands \<Longrightarrow> add_pending api cs pc = (pc', None) \<Longrightarrow> cands pc' = cands pc @ cs"
proof (induction api cs pc rule: add_pending.induct)
  case (2 api c cs pc)
  obtain pc1 where add: "pc_add_candidate api c pc = (pc1, None)"
      "add_pending api cs pc1 = (pc', None)"
    using 2(3) by (auto split: prod.splits option.splits)
  have "cands pc' = cands pc1 @ cs"
    using 2(1)[OF add(1)[symmetric] refl 2(2) add(2)] .
  then show ?case
    using candidate_logD(1)[OF 2(2) add(1)] by simp
qed simp

lemma send_offer_log:
  assumes "candidate_log api cands" "send_offer api opts t = (t', err)"
  shows "held cands t' = held cands t" "tp_locked t' = tp_locked t"
  using assms candidate_logD(3,4)[OF assms(1)]
  by (auto simp: send_offer_def held_def Let_def split: prod.splits sum.splits option.splits)

lemma offer_locked_log:
  assumes "candidate_log api cands" "offer_locked api opts t = (t', err)"
  shows "held cands t' = held cands t" "tp_locked t' = tp_locked t"
proof -
  define t0 where "t0 = (if ice_restart opts then t\<lparr>tp_restarting_ice := True\<rparr> else t)"
  have t0: "held cands t0 = held cands t" "tp_locked t0 = tp_locked t"
    by (simp_all add: t0_def held_def)
  have rest: "held cands (t0\<lparr>tp_renegotiate := b\<rparr>) = held cands t0"
    "pc_set_remote api sdp (tp_pc t0) = (pc, e) \<Longrightarrow> held cands (t0\<lparr>tp_pc := pc\<rparr>) = held cands t0"
    for b sdp pc e
    using candidate_logD(2)[OF assms(1)] by (simp_all add: held_def)
  have "held cands t' = held cands t0 \<and> tp_locked t' = tp_locked t0"
    using assms(2) send_offer_log[OF assms(1), of opts] rest unfolding offer_locked_def Let_def
      t0_def[symmetric]
    by (auto split: if_splits prod.splits option.splits)
  then show "held cands t' = held cands t" "tp_locked t' = tp_locked t"
    using t0 by simp_all
qed

lemma unlock_inner_simps [simp]:
  "held cands (unlock_inner t) = held cands t" "held cands (t\<lparr>tp_locked := b\<rparr>) = held cands t"
  "\<not> tp_locked (unlock_inner t)"
  by (simp_all add: unlock_inner_def held_def)

text \<open>
  The call for a new offer at the end of \<open>set_remote_description\<close> asks for the lock that
  \<open>set_remote_description\<close> still holds.
\<close>

lemma create_and_send_offer_locked: "tp_locked t \<Longrightarrow> create_and_send_offer api opts t = None"
  by (simp add: create_and_send_offer_def lock_inner_def)

lemma set_remote_cases:
  assumes "tp_set_remote_description api sdp t = Some (t', err)"
  obtains (failed) pc e where "pc_set_remote api sdp (tp_pc t) = (pc, Some e)" "err = Some e"
      "\<not> tp_locked t'"
  | (candidate_failed) pc pc' e where "pc_set_remote api sdp (tp_pc t) = (pc, None)"
      "add_pending api (tp_pending t) pc = (pc', Some e)" "err = Some e" "\<not> tp_locked t'"
  | (applied) pc pc' where "pc_set_remote api sdp (tp_pc t) = (pc, None)"
      "add_pending api (tp_pending t) pc = (pc', None)" "err = None"
      "t' = unlock_inner (t\<lparr>tp_pc := pc', tp_pending := [], tp_restarting_ice := False\<rparr>)"
  using assms unfolding tp_set_remote_description_def lock_inner_def
  by (auto simp: Let_def create_and_send_offer_locked unlock_inner_def
      split: if_splits prod.splits option.splits)

lemma set_remote_log:
  assumes "candidate_log api cands" "tp_set_remote_description api sdp t = Some (t', None)"
  shows "held cands t' = held cands t" "\<not> tp_locked t'"
proof -
  from assms(2) have "held cands t' = held cands t \<and> \<not> tp_locked t'"
  proof (cases rule: set_remote_cases)
    case (applied pc pc')
    have "cands pc' = cands pc @ tp_pending t" "cands pc = cands (tp_pc t)"
      using add_pending_log[OF assms(1) applied(2)] candidate_logD(2)[OF assms(1) applied(1)] by auto
    then show ?thesis
      using applied(4) by (simp add: held_def unlock_inner_def)
  qed auto
  then show "held cands t' = held cands t" "\<not> tp_locked t'"
    by simp_all
qed

lemma create_anwser_log:
  assumes "candidate_log api cands" "create_anwser api offer t = Some (t', Inr answer)"
  shows "held cands t' = held cands t" "\<not> tp_locked t'"
proof -
  obtain t1 pc pc' where t1: "tp_set_remote_description api offer t = Some (t1, None)"
    "pc_create_answer api (tp_pc t1) = (pc, Inr answer)" "pc_set_local api answer pc = (pc', None)"
    "t' = t1\<lparr>tp_pc := pc'\<rparr>"
    using assms(2) unfolding create_anwser_def
    by (auto split: prod.splits option.splits sum.splits)
  have "cands pc' = cands (tp_pc t1)"
    using candidate_logD(3)[OF assms(1) t1(3)] candidate_logD(5)[OF assms(1) t1(2)] by simp
  then show "held cands t' = held cands t" "\<not> tp_locked t'"
    using set_remote_log[OF assms(1) t1(1)] t1(4) by (simp_all add: held_def)
qed

lemma transport_step_log:
  assumes "candidate_log api cands" "transport_step api op t = Some (t', None)"
  shows "mset (held cands t') = mset (held cands t) + mset (op_candidates op)" "\<not> tp_locked t'"
proof -
  have "mset (held cands t') = mset (held cands t) + mset (op_candidates op) \<and> \<not> tp_locked t'"
  proof (cases op)
    case (AddIceCandidate c)
    then show ?thesis
      using assms(2) candidate_logD(1)[OF assms(1)]
      by (auto simp: tp_add_ice_candidate_def lock_inner_def unlock_inner_def Let_def held_def
          split: if_splits prod.splits option.splits)
  next
    case (SetRemoteDescription sdp)
    then show ?thesis
      using assms(2) set_remote_log[OF assms(1)] by simp
  next
    case (CreateAndSendOffer opts)
    then obtain t1 where t1: "offer_locked api opts (t\<lparr>tp_locked := True\<rparr>) = (t1, None)"
        "t' = unlock_inner t1"
      using assms(2)
      by (auto simp: create_and_send_offer_def lock_inner_def split: if_splits prod.splits)
    then show ?thesis
      using offer_locked_log(1)[OF assms(1) t1(1)] CreateAndSendOffer by simp
  next
    case (CreateAnswer offer)
    then obtain res where res: "create_anwser api offer t = Some (t', res)"
        "(case res of Inl err \<Rightarrow> Some err | Inr _ \<Rightarrow> None) = None"
      using assms(2) by auto
    then show ?thesis
      using create_anwser_log[OF assms(1), of offer t t'] CreateAnswer by (cases res) auto
  next
    case (SetMaxSendBitrate bps)
    then show ?thesis
      using assms(2) by (auto simp: set_max_send_bitrate_bps_def lock_inner_def held_def unlock_inner_def
          split: if_splits)
  qed
  then show "mset (held cands t') = mset (held cands t) + mset (op_candidates op)" "\<not> tp_locked t'"
    by simp_all
qed

section \<open>What the transport promises\<close>

text \<open>A peer connection that answers every call, for the examples.\<close>

record sample_pc =
  sp_signaling :: signaling_state
  sp_remote :: "rstr option"
  sp_candidates :: "nat list"

definition sample_api :: "(sample_pc, rstr, nat, unit) pc_api" where
  "sample_api =
     \<lparr>pc_signaling = sp_signaling, pc_remote = sp_remote,
      pc_set_remote = (\<lambda>sdp pc. (pc\<lparr>sp_remote := Some sdp, sp_signaling := Stable\<rparr>, None)),
      pc_set_local = (\<lambda>sdp pc. (pc\<lparr>sp_signaling := HaveLocalOffer\<rparr>, None)),
      pc_add_candidate = (\<lambda>c pc. (pc\<lparr>sp_candidates := sp_candidates pc @ [c]\<rparr>, None)),
      pc_create_offer = (\<lambda>opts pc. (pc, Inr (lit ''v=0''))),
      pc_create_answer = (\<lambda>pc. (pc, Inr (lit ''v=0''))),
      sdp_text = (\<lambda>s. s), sdp_parse = (\<lambda>s _. Some s)\<rparr>"

definition sample_transport :: "(sample_pc, rstr, nat) transport" where
  "sample_transport =
     transport_new \<lparr>sp_signaling = Stable, sp_remote = None, sp_candidates = []\<rparr> False"

lemma sample_api_log: "candidate_log sample_api sp_candidates"
  by (simp add: candidate_log_def sample_api_def)

text \<open>While no call fails, no candidate is lost or added twice, whichever calls come in
  between: what the transport was given is with the peer connection or still pending, and
  every call that returns has given the lock back.\<close>

theorem candidates_conserved:
  assumes "candidate_log api cands" "transport_run api ops (transport_new pc single) = Some t"
  shows "mset (cands (tp_pc t)) + mset (tp_pending t)
      = mset (cands pc) + mset (concat (map op_candidates ops)) \<and> \<not> tp_locked t"
proof -
  have "mset (held cands t) = mset (held cands t0) + mset (concat (map op_candidates ops))
      \<and> \<not> tp_locked t"
    if "transport_run api ops t0 = Some t" "\<not> tp_locked t0" for t0
    using that
  proof (induction ops arbitrary: t0)
    case (Cons op ops)
    then obtain t1 where "transport_step api op t0 = Some (t1, None)" "transport_run api ops t1 = Some t"
      by (auto split: option.splits prod.splits)
    then show ?case
      using transport_step_log[OF assms(1)] Cons.IH[of t1] by (simp add: ac_simps)
  qed simp
  from this[OF assms(2)] show ?thesis
    by (simp add: transport_new_def held_def)
qed

theorem candidates_conserved_witness:
  "\<exists>t. transport_run sample_api
        [AddIceCandidate 1, CreateAndSendOffer offer_options_default, AddIceCandidate 2,
         SetRemoteDescription (lit ''v=1''), AddIceCandidate 3] sample_transport = Some t
     \<and> mset (sp_candidates (tp_pc t)) + mset (tp_pending t) = {#1, 2, 3#}"
proof -
  define ops :: "(rstr, nat) transport_op list" where "ops =
    [AddIceCandidate 1, CreateAndSendOffer offer_options_default, AddIceCandidate 2,
         SetRemoteDescription (lit ''v=1''), AddIceCandidate 3]"
  obtain t where t: "transport_run sample_api ops sample_transport = Some t"
    by (simp add: ops_def sample_transport_def transport_new_def sample_api_def
        tp_add_ice_candidate_def lock_inner_def unlock_inner_def create_and_send_offer_def
        offer_locked_def offer_options_default_def send_offer_def munge_offer_def Let_def
        tp_set_remote_description_def contains_str_def starts_with_def lit_chars)
  show ?thesis
    using candidates_conserved[OF sample_api_log t[unfolded sample_transport_def]] t
    by (auto simp: ops_def ac_simps)
qed

text \<open>C20: An answer is applied and the call returns, except when an offer was asked for in the
  meantime: then the call waits forever for the lock it holds itself, since the new offer
  is made inside it.\<close>

theorem answer_returns_iff:
  assumes "\<not> tp_locked t"
  shows "tp_set_remote_description api sdp t = None \<longleftrightarrow>
    tp_renegotiate t \<and> snd (pc_set_remote api sdp (tp_pc t)) = None
      \<and> snd (add_pending api (tp_pending t) (fst (pc_set_remote api sdp (tp_pc t)))) = None"
  using assms
  by (auto simp: tp_set_remote_description_def lock_inner_def Let_def create_and_send_offer_locked
      split: prod.splits option.splits)

theorem answer_returns_iff_witness:
  "\<exists>t. transport_run sample_api
        [CreateAndSendOffer offer_options_default, CreateAndSendOffer offer_options_default]
        sample_transport = Some t
     \<and> tp_set_remote_description sample_api (lit ''v=1'') t = None"
proof -
  obtain t where t: "transport_run sample_api
      [CreateAndSendOffer offer_options_default, CreateAndSendOffer offer_options_default]
      sample_transport = Some t" "\<not> tp_locked t" "tp_renegotiate t" "tp_pending t = []"
    by (simp add: sample_transport_def transport_new_def sample_api_def
        lock_inner_def unlock_inner_def create_and_send_offer_def
        offer_locked_def offer_options_default_def send_offer_def munge_offer_def Let_def
        contains_str_def starts_with_def lit_chars)
  have "tp_set_remote_description sample_api (lit ''v=1'') t = None"
    using answer_returns_iff[OF t(2), of sample_api "lit ''v=1''"] t(3,4)
    by (simp add: sample_api_def)
  then show ?thesis
    using t(1) by blast
qed

text \<open>A candidate that the peer connection refuses takes those behind it along.\<close>

lemma failed_candidate_drops_the_rest:
  assumes "\<not> tp_locked t" "pc_set_remote api sdp (tp_pc t) = (pc, None)"
    "tp_pending t = c # cs" "pc_add_candidate api c pc = (pc', Some e)"
  shows "tp_set_remote_description api sdp t
    = Some (unlock_inner (t\<lparr>tp_pc := pc', tp_pending := []\<rparr>), Some e)"
  using assms by (simp add: tp_set_remote_description_def lock_inner_def unlock_inner_def)

text \<open>When every rewritten text parses to itself, the offer in single mode carries all three
  rewritings.\<close>

lemma munge_offer_text:
  assumes "\<And>s o'. \<exists>sdp. sdp_parse api s o' = Some sdp \<and> sdp_text api sdp = s"
    and "tp_single_pc_mode t" "compute_start_bitrate_kbps (tp_max_send_bitrate_bps t) = Some kbps"
    and sdp_def: "sdp = munge_stereo_for_audio (munge_inactive_to_recvonly (sdp_text api offer))"
    and vp9: "contains_str (lit '' VP9/90000'') sdp"
  shows "sdp_text api (munge_offer api t offer) = munge_x_google_start_bitrate sdp kbps"
proof -
  have step: "\<exists>o'. munge_offer_with api m p = (o', m (snd p)) \<and> sdp_text api o' = m (snd p)"
    if "sdp_text api (fst p) = snd p" for m p
    using that assms(1)[of "m (snd p)" "fst p"]
    by (cases p) (auto simp: munge_offer_with_def Let_def)
  obtain o1 where 1: "munge_offer_with api munge_inactive_to_recvonly (offer, sdp_text api offer)
      = (o1, munge_inactive_to_recvonly (sdp_text api offer))"
    "sdp_text api o1 = munge_inactive_to_recvonly (sdp_text api offer)"
    using step[of "(offer, sdp_text api offer)" munge_inactive_to_recvonly] by auto
  obtain o2 where 2: "munge_offer_with api munge_stereo_for_audio
      (o1, munge_inactive_to_recvonly (sdp_text api offer)) = (o2, sdp)" "sdp_text api o2 = sdp"
    using step[of "(o1, munge_inactive_to_recvonly (sdp_text api offer))" munge_stereo_for_audio] 1(2)
    by (auto simp: sdp_def)
  show ?thesis
    using step[of "(o2, sdp)" "\<lambda>s. munge_x_google_start_bitrate s kbps"] 1 2 assms(2,3) vp9
    by (auto simp: munge_offer_def Let_def)
qed

end
