(* ===== verification/LkOptions.thy ===== *)
theory LkOptions
  imports LKPrelude LKText LKFloat
begin

text \<open>
  The encodings of a published video track (\<open>livekit/src/room/options.rs\<close>): the presets, the
  choice of an encoding for a resolution, the simulcast and SVC encodings, and the layers
  announced to the server.  Floating-point values are those of \<open>LKFloat\<close>; integer
  arithmetic wraps, as in a release build.
\<close>

text \<open>The functions here return no errors; what is left of an outcome is the panic.\<close>

type_synonym 'a may_panic = "(unit, 'a) outcome"

section \<open>Presets\<close>

datatype video_codec = VP8 | H264 | VP9 | AV1 | H265

datatype track_source = SourceUnknown | Camera | Microphone | Screenshare | ScreenshareAudio

record video_encoding =
  ve_max_bitrate :: u64
  ve_max_framerate :: float

record video_preset =
  vp_encoding :: video_encoding
  vp_width :: u32
  vp_height :: u32

definition video_preset_new :: "u32 \<Rightarrow> u32 \<Rightarrow> u64 \<Rightarrow> float \<Rightarrow> video_preset" where
  "video_preset_new w h max_bitrate max_framerate =
     \<lparr>vp_encoding = \<lparr>ve_max_bitrate = max_bitrate, ve_max_framerate = max_framerate\<rparr>,
      vp_width = w, vp_height = h\<rparr>"

definition video_presets :: "video_preset list" where
  "video_presets =
     [video_preset_new 160 90 90000 (Fin 15), video_preset_new 320 180 160000 (Fin 15),
      video_preset_new 384 216 180000 (Fin 15), video_preset_new 640 360 450000 (Fin 20),
      video_preset_new 960 540 800000 (Fin 25), video_preset_new 1280 720 1700000 (Fin 30),
      video_preset_new 1920 1080 3000000 (Fin 30), video_preset_new 2560 1440 5000000 (Fin 30),
      video_preset_new 3840 2160 8000000 (Fin 30)]"

definition video_default_simulcast_presets :: "video_preset list" where
  "video_default_simulcast_presets =
     [video_preset_new 320 180 160000 (Fin 15), video_preset_new 640 360 450000 (Fin 20)]"

definition video43_presets :: "video_preset list" where
  "video43_presets =
     [video_preset_new 160 120 80000 (Fin 15), video_preset_new 240 180 100000 (Fin 15),
      video_preset_new 320 240 150000 (Fin 15), video_preset_new 480 360 225000 (Fin 20),
      video_preset_new 640 480 300000 (Fin 20), video_preset_new 720 540 450000 (Fin 25),
      video_preset_new 960 720 1500000 (Fin 30), video_preset_new 1440 1080 2500000 (Fin 30),
      video_preset_new 1920 1440 3500000 (Fin 30)]"

definition video43_default_simulcast_presets :: "video_preset list" where
  "video43_default_simulcast_presets =
     [video_preset_new 240 180 100000 (Fin 15), video_preset_new 480 360 225000 (Fin 20)]"

definition screenshare_presets :: "video_preset list" where
  "screenshare_presets =
     [video_preset_new 640 360 200000 (Fin 3), video_preset_new 1280 720 400000 (Fin 5),
      video_preset_new 1280 720 1000000 (Fin 15), video_preset_new 1920 1080 1500000 (Fin 15),
      video_preset_new 1920 1080 3000000 (Fin 30)]"

text \<open>A frame rate below three makes the divisor zero, and the division panics.\<close>

definition screenshare_simulcast_preset :: "video_preset \<Rightarrow> video_preset may_panic" where
  "screenshare_simulcast_preset initial =
     (let fps = Fin 3;
          divisor = 4 * (of_nat (cast_uint 64
            (fdiv 53 (ve_max_framerate (vp_encoding initial)) fps)) :: u64)
      in if divisor = 0 then Panic
         else Ok (video_preset_new (vp_width initial div 2) (vp_height initial div 2)
                    (max 150000 (ve_max_bitrate (vp_encoding initial) div divisor)) fps))"

section \<open>The encoding for a resolution\<close>

definition landscape_aspect_ratio :: "u32 \<Rightarrow> u32 \<Rightarrow> float" where
  "landscape_aspect_ratio w h =
     (if h < w then fdiv 24 (float_of_nat 24 (unat w)) (float_of_nat 24 (unat h))
      else fdiv 24 (float_of_nat 24 (unat h)) (float_of_nat 24 (unat w)))"

text \<open>Whether the ratio is closer to 16:9 than to 4:3.\<close>

definition closer_to_wide :: "float \<Rightarrow> bool" where
  "closer_to_wide ar =
     flt (fabs (fsub 24 ar (fdiv 24 (Fin 16) (Fin 9)))) (fabs (fsub 24 ar (fdiv 24 (Fin 4) (Fin 3))))"

definition compute_presets_for_resolution :: "bool \<Rightarrow> u32 \<Rightarrow> u32 \<Rightarrow> video_preset list" where
  "compute_presets_for_resolution is_screenshare w h =
     (if is_screenshare then screenshare_presets
      else if closer_to_wide (landscape_aspect_ratio w h) then video_presets
      else video43_presets)"

fun appropriate_loop :: "u32 \<Rightarrow> video_preset list \<Rightarrow> video_encoding \<Rightarrow> video_encoding" where
  "appropriate_loop sz [] encoding = encoding"
| "appropriate_loop sz (preset # presets) encoding =
     (if sz < vp_width preset then vp_encoding preset
      else appropriate_loop sz presets (vp_encoding preset))"

text \<open>\<open>(bitrate as f32 * factor) as u64\<close>.\<close>

definition scale_bitrate :: "u64 \<Rightarrow> rat \<Rightarrow> u64" where
  "scale_bitrate bitrate factor =
     of_nat (cast_uint 64 (Fin (fmul 24 (fl 24 (of_nat (unat bitrate))) (fl 24 factor))))"

definition compute_appropriate_encoding ::
  "bool \<Rightarrow> u32 \<Rightarrow> u32 \<Rightarrow> video_codec \<Rightarrow> video_encoding may_panic" where
  "compute_appropriate_encoding is_screenshare w h cname =
     (let presets = compute_presets_for_resolution is_screenshare w h; sz = max w h
      in case presets of
           [] \<Rightarrow> Panic
         | first # _ \<Rightarrow>
             (let encoding = appropriate_loop sz presets (vp_encoding first)
              in Ok (case cname of
                       VP9 \<Rightarrow> encoding\<lparr>ve_max_bitrate := scale_bitrate (ve_max_bitrate encoding) (85 / 100)\<rparr>
                     | AV1 \<Rightarrow> encoding\<lparr>ve_max_bitrate := scale_bitrate (ve_max_bitrate encoding) (7 / 10)\<rparr>
                     | _ \<Rightarrow> encoding)))"

definition compute_default_simulcast_presets ::
  "bool \<Rightarrow> video_preset \<Rightarrow> (video_preset list) may_panic" where
  "compute_default_simulcast_presets is_screenshare initial =
     (if is_screenshare then and_then (screenshare_simulcast_preset initial) (\<lambda>p. Ok [p])
      else if closer_to_wide (landscape_aspect_ratio (vp_width initial) (vp_height initial))
      then Ok video_default_simulcast_presets
      else Ok video43_default_simulcast_presets)"

section \<open>The encodings of a track\<close>

text \<open>The options that decide about video, with the defaults of the code.\<close>

record publish_options =
  po_video_encoding :: "video_encoding option"
  po_video_codec :: video_codec
  po_simulcast :: bool
  po_simulcast_layers :: "video_preset list option"
  po_source :: track_source
  po_scalability_mode :: "rstr option"

definition publish_options_default :: publish_options where
  "publish_options_default =
     \<lparr>po_video_encoding = None, po_video_codec = VP8, po_simulcast = True,
      po_simulcast_layers = None, po_source = SourceUnknown, po_scalability_mode = None\<rparr>"

record rtp_encoding =
  re_rid :: rstr
  re_scale_resolution_down_by :: "float option"
  re_max_bitrate :: "u64 option"
  re_max_framerate :: "float option"
  re_scalability_mode :: "rstr option"

definition VIDEO_RIDS :: "rstr list" where
  "VIDEO_RIDS = [lit ''q'', lit ''h'', lit ''f'']"

definition rtp_scale :: "u32 \<Rightarrow> video_preset \<Rightarrow> float" where
  "rtp_scale sz preset =
     fmax (Fin 1) (fdiv 53 (float_of_nat 53 (unat sz))
       (float_of_nat 53 (unat (min (vp_width preset) (vp_height preset)))))"

fun rtp_encodings_loop :: "u32 \<Rightarrow> rstr list \<Rightarrow> video_preset list \<Rightarrow> (rtp_encoding list) may_panic" where
  "rtp_encodings_loop sz rids [] = Ok []"
| "rtp_encodings_loop sz [] (preset # presets) = Panic"
| "rtp_encodings_loop sz (rid # rids) (preset # presets) =
     and_then (rtp_encodings_loop sz rids presets) (\<lambda>es.
       Ok (\<lparr>re_rid = rid, re_scale_resolution_down_by = Some (rtp_scale sz preset),
            re_max_bitrate = Some (ve_max_bitrate (vp_encoding preset)),
            re_max_framerate = Some (ve_max_framerate (vp_encoding preset)),
            re_scalability_mode = None\<rparr> # es))"

definition into_rtp_encodings ::
  "u32 \<Rightarrow> u32 \<Rightarrow> video_preset list \<Rightarrow> (rtp_encoding list) may_panic" where
  "into_rtp_encodings w h presets =
     and_then (rtp_encodings_loop (min w h) VIDEO_RIDS presets) (\<lambda>es. Ok (rev es))"

fun vec_pop :: "'a list \<Rightarrow> 'a option \<times> 'a list" where
  "vec_pop xs = (if xs = [] then (None, []) else (Some (last xs), butlast xs))"

definition initial_encoding ::
  "u32 \<Rightarrow> u32 \<Rightarrow> publish_options \<Rightarrow> video_encoding may_panic" where
  "initial_encoding w h opts =
     (case po_video_encoding opts of
        Some encoding \<Rightarrow> Ok encoding
      | None \<Rightarrow> compute_appropriate_encoding (po_source opts = Screenshare) w h (po_video_codec opts))"

definition compute_video_encodings ::
  "u32 \<Rightarrow> u32 \<Rightarrow> publish_options \<Rightarrow> (rtp_encoding list) may_panic" where
  "compute_video_encodings w h opts =
     and_then (initial_encoding w h opts) (\<lambda>encoding.
       let initial_preset = \<lparr>vp_encoding = encoding, vp_width = w, vp_height = h\<rparr>
       in case po_scalability_mode opts of
            Some mode \<Rightarrow>
              and_then (into_rtp_encodings w h [initial_preset]) (\<lambda>encodings.
                Ok (case encodings of
                      [] \<Rightarrow> []
                    | first # es \<Rightarrow> first\<lparr>re_scalability_mode := Some mode\<rparr> # es))
          | None \<Rightarrow>
              if \<not> po_simulcast opts then into_rtp_encodings w h [initial_preset]
              else and_then
                (case po_simulcast_layers opts of
                   Some custom \<Rightarrow> Ok custom
                 | None \<Rightarrow> compute_default_simulcast_presets (po_source opts = Screenshare) initial_preset)
                (\<lambda>presets.
                  let (mid_preset, presets) = vec_pop presets;
                      (low_preset, presets) = vec_pop presets;
                      sz = max w h
                  in if 960 \<le> sz \<and> low_preset \<noteq> None then
                       (case (low_preset, mid_preset) of
                          (Some low, Some mid) \<Rightarrow> into_rtp_encodings w h [low, mid, initial_preset]
                        | _ \<Rightarrow> Panic)
                     else if 480 \<le> sz then
                       (case mid_preset of
                          Some mid \<Rightarrow> into_rtp_encodings w h [mid, initial_preset]
                        | None \<Rightarrow> Panic)
                     else into_rtp_encodings w h [initial_preset]))"

section \<open>The layers announced\<close>

datatype video_quality = Low | Medium | High | Off

record video_layer =
  vl_quality :: video_quality
  vl_width :: u32
  vl_height :: u32
  vl_bitrate :: u32

definition video_quality_for_rid :: "rstr \<Rightarrow> video_quality option" where
  "video_quality_for_rid rid =
     (if rid = lit ''f'' then Some High
      else if rid = lit ''h'' then Some Medium
      else if rid = lit ''q'' then Some Low
      else None)"

text \<open>\<open>u32::from_str\<close> on decimal digits: nothing and what does not fit are errors.\<close>

definition parse_u32 :: "rstr \<Rightarrow> u32 option" where
  "parse_u32 digits =
     (let n = foldl (\<lambda>n c. n * 10 + (c - 48)) 0 digits
      in if digits = [] \<or> 2 ^ 32 \<le> n then None else Some (of_nat n))"

definition spatial_layers_from_scalability_mode :: "rstr \<Rightarrow> u32" where
  "spatial_layers_from_scalability_mode mode =
     (case strip_prefix (lit ''L'') mode of
        Some rest \<Rightarrow>
          (case parse_u32 (takeWhile (\<lambda>c. 48 \<le> c \<and> c \<le> 57) rest) of
             Some n \<Rightarrow> max n 1
           | None \<Rightarrow> 1)
      | None \<Rightarrow> 1)"

text \<open>Layer \<open>i\<close> of \<open>n\<close> spatial layers; a shift by 32 or more shifts by the remainder.\<close>

definition svc_layer :: "u32 \<Rightarrow> u32 \<Rightarrow> u64 \<Rightarrow> nat \<Rightarrow> nat \<Rightarrow> video_layer" where
  "svc_layer w h total_bitrate n i =
     (let scale = push_bit ((n - 1 - i) mod 32) (1 :: u32)
      in \<lparr>vl_quality = (if n - 1 - i = 0 then High else if n - 1 - i = 1 then Medium else Low),
          vl_width = w div scale, vl_height = h div scale,
          vl_bitrate = ucast (total_bitrate div of_nat n)\<rparr>)"

definition encoding_layer :: "u32 \<Rightarrow> u32 \<Rightarrow> rtp_encoding \<Rightarrow> video_layer" where
  "encoding_layer w h encoding =
     (let scale = (case re_scale_resolution_down_by encoding of Some s \<Rightarrow> s | None \<Rightarrow> Fin 1);
          quality = (case video_quality_for_rid (re_rid encoding) of Some q \<Rightarrow> q | None \<Rightarrow> High)
      in \<lparr>vl_quality = quality,
          vl_width = of_nat (cast_uint 32 (fdiv 53 (float_of_nat 53 (unat w)) scale)),
          vl_height = of_nat (cast_uint 32 (fdiv 53 (float_of_nat 53 (unat h)) scale)),
          vl_bitrate = ucast (case re_max_bitrate encoding of Some b \<Rightarrow> b | None \<Rightarrow> 0)\<rparr>)"

text \<open>The number of spatial layers of a single SVC encoding, when there are several.\<close>

definition svc_spatial :: "rtp_encoding list \<Rightarrow> u32 option" where
  "svc_spatial encodings =
     (case encodings of
        [e] \<Rightarrow>
          (case re_scalability_mode e of
             Some mode \<Rightarrow>
               (let spatial = spatial_layers_from_scalability_mode mode
                in if 1 < spatial then Some spatial else None)
           | None \<Rightarrow> None)
      | _ \<Rightarrow> None)"

definition video_layers_from_encodings ::
  "u32 \<Rightarrow> u32 \<Rightarrow> rtp_encoding list \<Rightarrow> video_layer list" where
  "video_layers_from_encodings w h encodings =
     (if encodings = [] then [\<lparr>vl_quality = High, vl_width = w, vl_height = h, vl_bitrate = 0\<rparr>]
      else (case svc_spatial encodings of
              Some spatial \<Rightarrow>
                (let total_bitrate = (case re_max_bitrate (hd encodings) of Some b \<Rightarrow> b | None \<Rightarrow> 0)
                 in map (svc_layer w h total_bitrate (unat spatial)) [0..<unat spatial])
            | None \<Rightarrow> map (encoding_layer w h) encodings))"

section \<open>Lemmas\<close>

text \<open>The encoding the loop makes of one preset.\<close>

definition rtp_encoding_of :: "u32 \<Rightarrow> rstr \<Rightarrow> video_preset \<Rightarrow> rtp_encoding" where
  "rtp_encoding_of sz rid preset =
     \<lparr>re_rid = rid, re_scale_resolution_down_by = Some (rtp_scale sz preset),
      re_max_bitrate = Some (ve_max_bitrate (vp_encoding preset)),
      re_max_framerate = Some (ve_max_framerate (vp_encoding preset)),
      re_scalability_mode = None\<rparr>"

lemma into_rtp_encodings_simps:
  "into_rtp_encodings w h [a] = Ok [rtp_encoding_of (min w h) (lit ''q'') a]"
  "into_rtp_encodings w h [a, b] =
     Ok [rtp_encoding_of (min w h) (lit ''h'') b, rtp_encoding_of (min w h) (lit ''q'') a]"
  "into_rtp_encodings w h [a, b, c] =
     Ok [rtp_encoding_of (min w h) (lit ''f'') c, rtp_encoding_of (min w h) (lit ''h'') b,
         rtp_encoding_of (min w h) (lit ''q'') a]"
  by (simp_all add: into_rtp_encodings_def VIDEO_RIDS_def rtp_encoding_of_def)

lemma initial_encoding_Ok: "\<exists>encoding. initial_encoding w h opts = Ok encoding"
  by (auto simp: initial_encoding_def compute_appropriate_encoding_def Let_def
      compute_presets_for_resolution_def screenshare_presets_def video_presets_def
      video43_presets_def split: option.splits)

definition initial_preset :: "u32 \<Rightarrow> u32 \<Rightarrow> video_encoding \<Rightarrow> video_preset" where
  "initial_preset w h encoding = \<lparr>vp_encoding = encoding, vp_width = w, vp_height = h\<rparr>"

text \<open>The two presets below the initial one that a track with simulcast may use.\<close>

definition simulcast_presets ::
  "publish_options \<Rightarrow> video_preset \<Rightarrow> (video_preset list) may_panic" where
  "simulcast_presets opts initial =
     (case po_simulcast_layers opts of
        Some custom \<Rightarrow> Ok custom
      | None \<Rightarrow> compute_default_simulcast_presets (po_source opts = Screenshare) initial)"

text \<open>All ways in which the encodings are computed.\<close>

lemma video_encodings_cases:
  assumes "compute_video_encodings w h opts = Ok encs" "initial_encoding w h opts = Ok encoding"
  defines "p \<equiv> initial_preset w h encoding" and "e \<equiv> rtp_encoding_of (min w h)"
  obtains (svc) mode where "po_scalability_mode opts = Some mode"
      "encs = [(e (lit ''q'') p)\<lparr>re_scalability_mode := Some mode\<rparr>]"
  | (one) "po_scalability_mode opts = None" "encs = [e (lit ''q'') p]"
  | (two) mid presets where "po_scalability_mode opts = None"
      "simulcast_presets opts p = Ok presets" "presets \<noteq> []" "mid = last presets"
      "encs = [e (lit ''h'') p, e (lit ''q'') mid]"
  | (three) low mid presets where "po_scalability_mode opts = None"
      "simulcast_presets opts p = Ok (presets @ [low, mid])"
      "encs = [e (lit ''f'') p, e (lit ''h'') mid, e (lit ''q'') low]"
proof (cases "po_scalability_mode opts")
  case (Some mode)
  then show ?thesis
    using svc assms(1,2) by (simp add: compute_video_encodings_def into_rtp_encodings_simps Let_def
        p_def e_def initial_preset_def)
next
  case None
  show ?thesis
  proof (cases "po_simulcast opts")
    case False
    then show ?thesis
      using one None assms(1,2) by (simp add: compute_video_encodings_def into_rtp_encodings_simps
          Let_def p_def e_def initial_preset_def)
  next
    case True
    then obtain presets where presets: "simulcast_presets opts p = Ok presets"
      using None assms(1,2)
      by (auto simp: compute_video_encodings_def simulcast_presets_def Let_def p_def initial_preset_def
          and_then_Ok_iff split: option.splits)
    consider "presets = []" | mid where "presets = [mid]" | low mid rest where "presets = rest @ [low, mid]"
      by (metis append.assoc append_Cons append_Nil rev_exhaust)
    then show ?thesis
      using None True presets one two[of presets "last presets"] three assms(1,2)
      by cases (auto simp: compute_video_encodings_def simulcast_presets_def[symmetric] Let_def p_def
          e_def initial_preset_def into_rtp_encodings_simps butlast_append split: if_splits)
  qed
qed

text \<open>The scale of a preset is a number from one on, or infinite.\<close>

lemma rtp_scale_cases:
  obtains (finite) s where "rtp_scale sz preset = Fin s" "1 \<le> s" | (infinite) "rtp_scale sz preset = Infinity"
  using fmax_one[of "fdiv 53 (float_of_nat 53 (unat sz))
      (float_of_nat 53 (unat (min (vp_width preset) (vp_height preset))))"]
  unfolding rtp_scale_def by auto

lemma unat_u32: "unat (w :: u32) < 4294967296"
  using unsigned_less[of w, where 'a = nat] by simp

lemma unsigned_nonneg [simp]: "(0 :: rat) \<le> unsigned (w :: u32)"
  by (metis of_nat_0_le_iff of_nat_unat)

lemma float_of_nat_0 [simp]: "float_of_nat p 0 = Fin 0"
  by (simp add: float_of_nat_def)

lemma word32_exact: "float_of_nat 53 (unat (w :: u32)) = Fin (of_nat (unat w))"
proof -
  have "unat w < 2 ^ 53"
    using unat_u32[of w] by simp
  then show ?thesis
    by (intro float_of_nat_exact) simp_all
qed

lemma rtp_scale_initial: "rtp_scale (min w h) (initial_preset w h encoding) = Fin 1"
proof -
  have "fl 53 1 = 1"
    using fl_exact[of 1 53] by simp
  then show ?thesis
    by (cases "min w h = 0") (simp_all add: rtp_scale_def initial_preset_def word32_exact fl_def)
qed

text \<open>Scaling a dimension down keeps it within the dimension.\<close>

definition scaled :: "u32 \<Rightarrow> float \<Rightarrow> u32" where
  "scaled w scale = of_nat (cast_uint 32 (fdiv 53 (float_of_nat 53 (unat w)) scale))"

lemma scaled_cast:
  fixes w :: u32
  assumes "1 \<le> s"
  shows "cast_uint 32 (fdiv 53 (float_of_nat 53 (unat w)) (Fin s)) = nat \<lfloor>fl 53 (of_nat (unat w) / s)\<rfloor>"
    and "nat \<lfloor>fl 53 (of_nat (unat w) / s)\<rfloor> \<le> unat w"
proof -
  have w: "unat w < 2 ^ 32"
    using unat_u32[of w] by simp
  have "fl 53 (of_nat (unat w) / s) \<le> of_nat (unat w)"
    using assms w mult_right_mono[of 1 s "of_nat (unat w)"]
    by (intro fl_le_nat) (auto simp: pos_divide_le_eq mult.commute)
  then show le: "nat \<lfloor>fl 53 (of_nat (unat w) / s)\<rfloor> \<le> unat w"
    by linarith
  show "cast_uint 32 (fdiv 53 (float_of_nat 53 (unat w)) (Fin s)) = nat \<lfloor>fl 53 (of_nat (unat w) / s)\<rfloor>"
    using assms w le by (simp add: word32_exact)
qed

lemma unat_scaled:
  assumes "1 \<le> s"
  shows "unat (scaled w (Fin s)) = nat \<lfloor>fl 53 (of_nat (unat w) / s)\<rfloor>"
proof -
  have "nat \<lfloor>fl 53 (of_nat (unat w) / s)\<rfloor> < 2 ^ 32"
    using scaled_cast(2)[OF assms, of w] unat_u32[of w] by simp
  then show ?thesis
    by (simp only: scaled_def scaled_cast(1)[OF assms] unat_of_nat) simp
qed

lemma scaled_le: "scaled w (rtp_scale sz preset) \<le> w"
proof (cases rule: rtp_scale_cases[of sz preset])
  case (finite s)
  then show ?thesis
    using scaled_cast(2)[of s w] by (simp add: word_le_nat_alt unat_scaled)
next
  case infinite
  then show ?thesis
    by (simp add: scaled_def word32_exact)
qed

lemma scaled_one: "scaled w (Fin 1) = w"
proof -
  have "fl 53 (of_nat (unat w)) = of_nat (unat w)"
    using unat_u32[of w] by (intro fl_exact) simp_all
  moreover have "\<lfloor>of_nat (unat w) :: rat\<rfloor> = int (unat w)"
    by (rule floor_of_nat)
  ultimately have "unat (scaled w (Fin 1)) = unat w"
    by (simp add: unat_scaled del: of_nat_unat)
  then show ?thesis
    by (rule unsigned_word_eqI)
qed

text \<open>A larger scale gives a smaller layer.\<close>

lemma scaled_antimono: "1 \<le> s \<Longrightarrow> s \<le> t \<Longrightarrow> scaled w (Fin t) \<le> scaled w (Fin s)"
proof -
  assume s: "1 \<le> s" "s \<le> t"
  have "of_nat (unat w) / t \<le> of_nat (unat w) / s"
    using s by (intro divide_left_mono) auto
  then have "fl 53 (of_nat (unat w) / t) \<le> fl 53 (of_nat (unat w) / s)"
    using s by (intro fl_mono) auto
  then show ?thesis
    using s by (simp add: word_le_nat_alt unat_scaled nat_mono floor_mono)
qed

section \<open>What the encodings promise\<close>

definition rtp_scaled :: "u32 \<Rightarrow> rtp_encoding \<Rightarrow> u32" where
  "rtp_scaled w e = scaled w (case re_scale_resolution_down_by e of Some s \<Rightarrow> s | None \<Rightarrow> Fin 1)"

lemma encoding_layer_size:
  "vl_width (encoding_layer w h e) = rtp_scaled w e"
  "vl_height (encoding_layer w h e) = rtp_scaled h e"
  by (simp_all add: encoding_layer_def rtp_scaled_def scaled_def Let_def)

lemma rtp_scaled_of:
  "rtp_scaled w (rtp_encoding_of sz rid preset) = scaled w (rtp_scale sz preset)"
  "rtp_scaled w (e\<lparr>re_scalability_mode := m\<rparr>) = rtp_scaled w e"
  by (simp_all add: rtp_scaled_def rtp_encoding_of_def)

text \<open>Within the default presets the lower one is scaled down further.\<close>

lemma default_presets_scale:
  assumes "compute_default_simulcast_presets b p = Ok (presets @ [low, mid])"
  shows "scaled w (rtp_scale sz low) \<le> scaled w (rtp_scale sz mid)"
proof -
  have "presets @ [low, mid] \<in> {video_default_simulcast_presets, video43_default_simulcast_presets}"
    using assms by (auto simp: compute_default_simulcast_presets_def and_then_Ok_iff split: if_splits)
  then have "min (vp_width mid) (vp_height mid) = 360" "min (vp_width low) (vp_height low) = 180"
    by (auto simp: video_default_simulcast_presets_def video43_default_simulcast_presets_def
        video_preset_new_def)
  moreover define x where "x = (of_nat (unat sz) :: rat)"
  moreover have "fl 53 (x / 360) \<le> fl 53 (x / 180)"
    by (intro fl_mono) (simp_all add: x_def field_simps del: of_nat_unat)
  moreover have "float_of_nat 53 (unat (360 :: u32)) = Fin 360" "float_of_nat 53 (unat (180 :: u32)) = Fin 180"
    by (simp_all only: word32_exact) simp_all
  ultimately show ?thesis
    unfolding rtp_scale_def by (simp add: word32_exact scaled_antimono)
qed

text \<open>The panics of the computation: a custom list without layers, and a screen share whose
  frame rate makes the divisor of its lower layer zero.\<close>

definition encodings_panic :: "u32 \<Rightarrow> u32 \<Rightarrow> publish_options \<Rightarrow> bool" where
  "encodings_panic w h opts \<longleftrightarrow>
     po_scalability_mode opts = None \<and> po_simulcast opts
     \<and> (case po_simulcast_layers opts of
          Some layers \<Rightarrow> layers = [] \<and> 480 \<le> max w h
        | None \<Rightarrow> po_source opts = Screenshare
            \<and> (case initial_encoding w h opts of
                 Ok encoding \<Rightarrow> 4 * (of_nat (cast_uint 64
                   (fdiv 53 (ve_max_framerate encoding) (Fin 3))) :: u64) = 0
               | _ \<Rightarrow> False))"

text \<open>The encodings of a track are one to three with the stream identifiers in their fixed
  order, highest first; the first is the track itself, unscaled, with the bitrate chosen for
  it.  There is no other outcome but a panic, and that comes exactly from an empty list of
  custom layers on a track of 480 pixels or more, or from a screen share too slow to divide by.\<close>

theorem video_encodings_shape:
  "(compute_video_encodings w h opts = Panic \<longleftrightarrow> encodings_panic w h opts)
   \<and> (\<forall>encs. compute_video_encodings w h opts = Ok encs \<longrightarrow>
        encs \<noteq> [] \<and> map re_rid encs = drop (3 - length encs) (rev VIDEO_RIDS)
        \<and> re_scale_resolution_down_by (hd encs) = Some (Fin 1)
        \<and> (\<exists>encoding. initial_encoding w h opts = Ok encoding
             \<and> re_max_bitrate (hd encs) = Some (ve_max_bitrate encoding)))
   \<and> (\<forall>e. compute_video_encodings w h opts \<noteq> Err e)"
proof -
  obtain encoding where enc: "initial_encoding w h opts = Ok encoding"
    using initial_encoding_Ok by blast
  have into: "into_rtp_encodings w h [a] \<noteq> Panic" "into_rtp_encodings w h [a, b] \<noteq> Panic"
    "into_rtp_encodings w h [a, b, c] \<noteq> Panic" for a b c
    by (simp_all add: into_rtp_encodings_simps)
  have "compute_video_encodings w h opts = Panic \<longleftrightarrow> encodings_panic w h opts"
    by (auto simp: compute_video_encodings_def enc encodings_panic_def Let_def into
        compute_default_simulcast_presets_def screenshare_simulcast_preset_def
        video_default_simulcast_presets_def video43_default_simulcast_presets_def
        and_then_Panic_iff and_then_Ok_iff into_rtp_encodings_simps split: option.splits if_splits)
  moreover have "compute_video_encodings w h opts \<noteq> Err e" for e
    by (auto simp: compute_video_encodings_def enc Let_def into_rtp_encodings_simps
        compute_default_simulcast_presets_def screenshare_simulcast_preset_def
        and_then_Err_iff split: option.splits if_splits)
  moreover have "encs \<noteq> [] \<and> map re_rid encs = drop (3 - length encs) (rev VIDEO_RIDS)
        \<and> re_scale_resolution_down_by (hd encs) = Some (Fin 1)
        \<and> re_max_bitrate (hd encs) = Some (ve_max_bitrate encoding)"
    if "compute_video_encodings w h opts = Ok encs" for encs
    using that enc by (cases rule: video_encodings_cases)
      (simp_all add: rtp_encoding_of_def VIDEO_RIDS_def rtp_scale_initial initial_preset_def[of _ _ encoding, symmetric], simp_all add: initial_preset_def)
  ultimately show ?thesis
    using enc by blast
qed

text \<open>Options with an encoding and layers of the application.\<close>

definition sample_options :: publish_options where
  "sample_options = publish_options_default
     \<lparr>po_video_encoding := Some \<lparr>ve_max_bitrate = 2500000, ve_max_framerate = Fin 30\<rparr>,
      po_simulcast_layers := Some video_default_simulcast_presets\<rparr>"

lemma sample_encodings:
  "\<exists>encs. compute_video_encodings 1280 720 sample_options = Ok encs \<and> length encs = 3"
  by (simp add: compute_video_encodings_def sample_options_def publish_options_default_def
      initial_encoding_def Let_def video_default_simulcast_presets_def into_rtp_encodings_simps)

theorem video_encodings_shape_witness:
  "\<exists>encs. compute_video_encodings 1280 720 sample_options = Ok encs
     \<and> map re_rid encs = [lit ''f'', lit ''h'', lit ''q'']
     \<and> re_max_bitrate (hd encs) = Some 2500000"
proof -
  obtain encs where "compute_video_encodings 1280 720 sample_options = Ok encs" "length encs = 3"
    using sample_encodings by blast
  moreover have "initial_encoding 1280 720 sample_options
      = Ok \<lparr>ve_max_bitrate = 2500000, ve_max_framerate = Fin 30\<rparr>"
    by (simp add: initial_encoding_def sample_options_def)
  ultimately show ?thesis
    using video_encodings_shape[of 1280 720 sample_options] by (auto simp: VIDEO_RIDS_def)
qed

text \<open>C39: No layer announced to the server is larger than the track, and one has its full
  size, whichever way the encodings were chosen; with the default presets the layers come
  in order of size, one for each encoding.\<close>

theorem video_layers_fit:
  assumes "compute_video_encodings w h opts = Ok encs"
  shows "(\<forall>l\<in>set (video_layers_from_encodings w h encs). vl_width l \<le> w \<and> vl_height l \<le> h)
     \<and> (\<exists>l\<in>set (video_layers_from_encodings w h encs). vl_width l = w \<and> vl_height l = h)
     \<and> (po_simulcast_layers opts = None \<and> po_scalability_mode opts = None \<longrightarrow>
          length (video_layers_from_encodings w h encs) = length encs
          \<and> sorted_wrt (\<lambda>a b. vl_width b \<le> vl_width a \<and> vl_height b \<le> vl_height a)
              (video_layers_from_encodings w h encs))"
proof -
  obtain encoding where enc: "initial_encoding w h opts = Ok encoding"
    using initial_encoding_Ok by blast
  define p where "p = initial_preset w h encoding"
  have initial: "scaled v (rtp_scale (min w h) p) = v" for v
    by (simp add: p_def rtp_scale_initial scaled_one)
  note size = encoding_layer_size rtp_scaled_of initial scaled_le
  have plain: "video_layers_from_encodings w h encs = map (encoding_layer w h) encs"
    if "encs \<noteq> []" "svc_spatial encs = None"
    using that by (simp add: video_layers_from_encodings_def)
  from assms enc show ?thesis
  proof (cases rule: video_encodings_cases)
    case (svc mode)
    show ?thesis
    proof (cases "svc_spatial encs")
      case None
      then show ?thesis
        using svc plain by (simp add: size flip: p_def)
    next
      case (Some spatial)
      then have "1 < spatial"
        by (auto simp: svc_spatial_def svc(2) Let_def split: if_splits)
      then have n: "1 < unat spatial"
        by (simp add: word_less_nat_alt)
      obtain b where layers: "video_layers_from_encodings w h encs
          = map (svc_layer w h b (unat spatial)) [0..<unat spatial]"
        using Some svc(2) by (auto simp: video_layers_from_encodings_def)
      have "svc_layer w h b (unat spatial) (unat spatial - 1) \<in> set (video_layers_from_encodings w h encs)"
        using n by (auto simp: layers)
      moreover have "vl_width (svc_layer w h b (unat spatial) (unat spatial - 1)) = w"
        "vl_height (svc_layer w h b (unat spatial) (unat spatial - 1)) = h"
        by (simp_all add: svc_layer_def)
      moreover have "x div y \<le> x" for x y :: u32
        by (simp add: word_le_nat_alt unat_div)
      then have "\<forall>l\<in>set (video_layers_from_encodings w h encs). vl_width l \<le> w \<and> vl_height l \<le> h"
        unfolding layers by (auto simp: svc_layer_def Let_def)
      ultimately show ?thesis
        using svc(1) by (metis option.distinct(1))
    qed
  next
    case one
    then show ?thesis
      using plain by (simp add: size svc_spatial_def rtp_encoding_of_def flip: p_def)
        (simp add: size flip: rtp_encoding_of_def)
  next
    case (two mid presets)
    then show ?thesis
      using plain by (simp add: size svc_spatial_def flip: p_def)
  next
    case (three low mid presets)
    then show ?thesis
      using plain default_presets_scale
      by (auto simp: size svc_spatial_def simulcast_presets_def simp flip: p_def)
  qed
qed

theorem video_layers_fit_witness:
  "\<exists>encs. compute_video_encodings 1280 720 sample_options = Ok encs
     \<and> (\<exists>l\<in>set (video_layers_from_encodings 1280 720 encs). vl_width l = 1280 \<and> vl_height l = 720)"
proof -
  obtain encs where "compute_video_encodings 1280 720 sample_options = Ok encs"
    using sample_encodings by blast
  then show ?thesis
    using video_layers_fit by blast
qed

text \<open>
  A track with a single layer announces it as the lowest quality, although the protocol
  asks for the highest there.
\<close>

lemma single_layer_is_low:
  assumes "po_scalability_mode opts = None" "\<not> po_simulcast opts"
    "compute_video_encodings w h opts = Ok encs"
  shows "map vl_quality (video_layers_from_encodings w h encs) = [Low]"
proof -
  obtain encoding where "initial_encoding w h opts = Ok encoding"
    using initial_encoding_Ok by blast
  then have "encs = [rtp_encoding_of (min w h) (lit ''q'') (initial_preset w h encoding)]"
    using assms by (simp add: compute_video_encodings_def into_rtp_encodings_simps Let_def
        initial_preset_def)
  then show ?thesis
    by (simp add: video_layers_from_encodings_def svc_spatial_def rtp_encoding_of_def encoding_layer_def
        Let_def video_quality_for_rid_def lit_def)
qed

text \<open>The two panics, and a scalability mode whose lowest layer is announced at full size.\<close>

lemma empty_layers_panic:
  "compute_video_encodings 640 480 (sample_options\<lparr>po_simulcast_layers := Some []\<rparr>) = Panic"
  by (simp add: compute_video_encodings_def sample_options_def publish_options_default_def
      initial_encoding_def Let_def)

lemma slow_screenshare_panics:
  "compute_video_encodings 1280 720 (publish_options_default
     \<lparr>po_video_encoding := Some \<lparr>ve_max_bitrate = 500000, ve_max_framerate = Fin 2\<rparr>,
      po_source := Screenshare\<rparr>) = Panic"
proof -
  have "\<lfloor>fl 53 (2 / 3)\<rfloor> = 0"
    by code_simp
  then show ?thesis
    by (simp add: compute_video_encodings_def publish_options_default_def initial_encoding_def
        Let_def compute_default_simulcast_presets_def screenshare_simulcast_preset_def)
qed

lemma many_spatial_layers_wrap: "vl_width (svc_layer w h b 33 0) = w"
  by (simp add: svc_layer_def)

end
