(* ===== verification/LkSignal.thy ===== *)
theory LkSignal
  imports LKPrelude LKInterfaces "HOL-Library.Multiset"
begin

text \<open>
  The signal client (\<open>livekit-api/src/signal_client/mod.rs\<close>): how it connects, and how the tasks
  that send, flush, close and restart share its stream, its queue and its flag.  A step of a
  task runs from one \<open>await\<close> to the next.  The stream is behind a read-write lock that is
  granted in the order of the requests, as the one of the runtime is, so a waiting writer
  holds back the readers behind it; the queue is behind a mutex.  Whether a write succeeds,
  whether a connection comes about and when the peer ends it is the choice of the environment.
\<close>

section \<open>Messages\<close>

text \<open>The requests; the content of a message plays no role.\<close>

datatype 'a signal_request =
    Offer 'a | Answer 'a | Trickle 'a | AddTrack 'a | Mute 'a | Subscription 'a | TrackSetting 'a
  | Leave 'a | UpdateLayers 'a | SubscriptionPermission 'a | SyncState 'a | Simulate 'a | Ping 'a
  | UpdateMetadata 'a | PingReq 'a | UpdateAudioTrack 'a | UpdateVideoTrack 'a
  | PublishDataTrackRequest 'a | UnpublishDataTrackRequest 'a | UpdateDataSubscription 'a

fun is_pass_through :: "'a signal_request \<Rightarrow> bool" where
  "is_pass_through (SyncState _) = True"
| "is_pass_through (Trickle _) = True"
| "is_pass_through (Offer _) = True"
| "is_pass_through (Answer _) = True"
| "is_pass_through (Simulate _) = True"
| "is_pass_through (Leave _) = True"
| "is_pass_through _ = False"

section \<open>State\<close>

text \<open>
  Where a task is.  A send goes from \<open>SendStart\<close> to the queue, or through a flush to the
  stream; \<open>FlushLock\<close> to \<open>Flushing\<close> are \<open>flush_queue\<close>, followed by the send of a message or, in
  \<open>set_reconnected\<close>, by nothing.  A number is that of the stream the task uses.  In \<open>Closing\<close> a
  task that took the stream out of the slot waits for the tasks of the stream; the closer says
  for which call.  In \<open>RestartAwaiting\<close> a restart has connected a stream and waits for the answer of the server.
\<close>

datatype closer = ByClose | ByRestart | ByReconnect

datatype 'm sg_pc =
    SendStart 'm | SendQueue 'm | FlushLock "'m option" | FlushStream "'m option"
  | Flushing "'m option" nat "'m list" | SendStream 'm | SendWriting 'm nat | Requeue 'm
  | CloseStream | RestartClose | RestartStart | RestartStream | Closing closer nat
  | RestartConnecting | RestartAwaiting nat | RestartFailed | SetReconnected | Finished | Panicked

text \<open>Why a message was given up.\<close>

datatype lost_reason = NoStream | SendFailed | FlushFailed | WriteFailed

text \<open>
  \<open>sg_stream\<close> is the number of the stream in the slot; \<open>sg_alive\<close> says of each stream whether
  its write task still runs, \<open>sg_reading\<close> whether its read task does.  \<open>sg_waiters\<close> are the tasks that wait for the stream lock, in
  order.  \<open>sg_broken\<close>: the streams whose read task has panicked, on a message that it cannot decode; \<open>sg_left\<close>: the streams that were dropped
  without being closed.  \<open>sg_wire\<close>, \<open>sg_lost\<close> and \<open>sg_sent\<close> record what was written, given up and handed in.
\<close>

record 'm signal_client =
  sg_stream :: "nat option"
  sg_alive :: "bool list"
  sg_reading :: "bool list"
  sg_reconnecting :: bool
  sg_queue :: "'m list"
  sg_tasks :: "'m sg_pc list"
  sg_waiters :: "nat list"
  sg_wire :: "(nat \<times> 'm) list"
  sg_lost :: "('m \<times> lost_reason) list"
  sg_sent :: "'m list"
  sg_left :: "nat list"
  sg_broken :: "nat list"

definition signal_client_new :: "'m signal_client" where
  "signal_client_new =
     \<lparr>sg_stream = Some 0, sg_alive = [True], sg_reading = [True], sg_reconnecting = False, sg_queue = [], sg_tasks = [],
      sg_waiters = [], sg_wire = [], sg_lost = [], sg_sent = [], sg_left = [], sg_broken = []\<rparr>"

section \<open>Locks\<close>

fun holds_read :: "'m sg_pc \<Rightarrow> bool" where
  "holds_read (Flushing _ _ _) = True"
| "holds_read (SendWriting _ _) = True"
| "holds_read (Requeue _) = True"
| "holds_read _ = False"

fun holds_write :: "'m sg_pc \<Rightarrow> bool" where
  "holds_write (Closing _ _) = True"
| "holds_write RestartConnecting = True"
| "holds_write (RestartAwaiting _) = True"
| "holds_write _ = False"

fun holds_queue :: "'m sg_pc \<Rightarrow> bool" where
  "holds_queue (FlushStream _) = True"
| "holds_queue (Flushing _ _ _) = True"
| "holds_queue _ = False"

fun wants_read :: "'m sg_pc \<Rightarrow> bool" where
  "wants_read (FlushStream _) = True"
| "wants_read (SendStream _) = True"
| "wants_read _ = False"

fun wants_write :: "'m sg_pc \<Rightarrow> bool" where
  "wants_write CloseStream = True"
| "wants_write RestartClose = True"
| "wants_write RestartStream = True"
| "wants_write _ = False"

definition queue_free :: "'m signal_client \<Rightarrow> bool" where
  "queue_free s \<longleftrightarrow> \<not> list_ex holds_queue (sg_tasks s)"

text \<open>The stream lock goes to the first that waits, a reader beside other readers, a writer alone.\<close>

definition stream_granted :: "nat \<Rightarrow> 'm signal_client \<Rightarrow> bool" where
  "stream_granted i s \<longleftrightarrow>
     sg_waiters s \<noteq> [] \<and> hd (sg_waiters s) = i \<and> \<not> list_ex holds_write (sg_tasks s)
     \<and> (wants_write (sg_tasks s ! i) \<longrightarrow> \<not> list_ex holds_read (sg_tasks s))"

definition sg_goto :: "nat \<Rightarrow> 'm sg_pc \<Rightarrow> 'm signal_client \<Rightarrow> 'm signal_client" where
  "sg_goto i pc s = s\<lparr>sg_tasks := (sg_tasks s)[i := pc]\<rparr>"

definition await_stream :: "nat \<Rightarrow> 'm sg_pc \<Rightarrow> 'm signal_client \<Rightarrow> 'm signal_client" where
  "await_stream i pc s = sg_goto i pc (s\<lparr>sg_waiters := sg_waiters s @ [i]\<rparr>)"

definition stream_taken :: "'m signal_client \<Rightarrow> 'm signal_client" where
  "stream_taken s = s\<lparr>sg_waiters := tl (sg_waiters s)\<rparr>"

section \<open>Steps\<close>

datatype sg_answer = Succeeds | Fails

text \<open>
  \<open>SignalStream::send\<close>: a stream whose write task has ended answers \<open>SendError\<close>; a write that
  fails ends the write task, and its error is another one.
\<close>

datatype send_result = SendOk | SendError | OtherError

definition stream_send :: "sg_answer \<Rightarrow> nat \<Rightarrow> 'm \<Rightarrow> 'm signal_client \<Rightarrow> 'm signal_client \<times> send_result" where
  "stream_send ans n m s =
     (if \<not> sg_alive s ! n then (s, SendError)
      else case ans of
             Succeeds \<Rightarrow> (s\<lparr>sg_wire := sg_wire s @ [(n, m)]\<rparr>, SendOk)
           | Fails \<Rightarrow> (s\<lparr>sg_alive := (sg_alive s)[n := False]\<rparr>, OtherError))"

definition give_up :: "'m \<Rightarrow> lost_reason \<Rightarrow> 'm signal_client \<Rightarrow> 'm signal_client" where
  "give_up m reason s = s\<lparr>sg_lost := sg_lost s @ [(m, reason)]\<rparr>"

definition push_queue :: "'m \<Rightarrow> 'm signal_client \<Rightarrow> 'm signal_client" where
  "push_queue m s = s\<lparr>sg_queue := sg_queue s @ [m]\<rparr>"

text \<open>What follows \<open>flush_queue\<close>.\<close>

definition after_flush :: "nat \<Rightarrow> 'm option \<Rightarrow> 'm signal_client \<Rightarrow> 'm signal_client" where
  "after_flush i mo s =
     (case mo of None \<Rightarrow> sg_goto i Finished s | Some m \<Rightarrow> await_stream i (SendStream m) s)"

fun after_close :: "closer \<Rightarrow> 'm sg_pc" where
  "after_close ByClose = Finished"
| "after_close ByRestart = RestartStart"
| "after_close ByReconnect = RestartConnecting"

text \<open>
  The stream is taken out of the slot and closed.  The message \<open>Close\<close> ends the write task;
  \<open>SignalInner::restart\<close> does not send it.
\<close>

definition close_slot :: "nat \<Rightarrow> closer \<Rightarrow> 'm signal_client \<Rightarrow> 'm signal_client" where
  "close_slot i cl s =
     (case sg_stream s of
        None \<Rightarrow> sg_goto i (after_close cl) s
      | Some n \<Rightarrow> sg_goto i (Closing cl n)
          (s\<lparr>sg_stream := None,
             sg_alive := (if cl = ByReconnect then sg_alive s else (sg_alive s)[n := False])\<rparr>))"

type_synonym 'a sg_state = "'a signal_request signal_client"

fun sg_step :: "sg_answer \<Rightarrow> nat \<Rightarrow> 'a signal_request sg_pc \<Rightarrow> 'a sg_state \<Rightarrow> 'a sg_state option" where
  "sg_step ans i (SendStart m) s = Some
     (if sg_reconnecting s \<and> \<not> is_pass_through m then sg_goto i (SendQueue m) s
      else if \<not> sg_reconnecting s then sg_goto i (FlushLock (Some m)) s
      else await_stream i (SendStream m) s)"
| "sg_step ans i (SendQueue m) s =
     (if queue_free s then Some (sg_goto i Finished (push_queue m s)) else None)"
| "sg_step ans i (FlushLock mo) s =
     (if queue_free s then Some
        (if sg_queue s = [] then after_flush i mo s else await_stream i (FlushStream mo) s)
      else None)"
| "sg_step ans i (FlushStream mo) s =
     (if stream_granted i s then Some
        (case sg_stream s of
           None \<Rightarrow> after_flush i mo (stream_taken s)
         | Some n \<Rightarrow> sg_goto i (Flushing mo n (sg_queue s)) (stream_taken s\<lparr>sg_queue := []\<rparr>))
      else None)"
| "sg_step ans i (Flushing mo n []) s = Some (after_flush i mo s)"
| "sg_step ans i (Flushing mo n (m # ms)) s = Some
     (case stream_send ans n m s of
        (s, SendOk) \<Rightarrow> sg_goto i (Flushing mo n ms) s
      | (s, SendError) \<Rightarrow> sg_goto i (Flushing mo n ms) (give_up m FlushFailed s)
      | (s, OtherError) \<Rightarrow> sg_goto i (Flushing mo n ms) (give_up m FlushFailed s))"
| "sg_step ans i (SendStream m) s =
     (if stream_granted i s then Some
        (case sg_stream s of
           Some n \<Rightarrow> sg_goto i (SendWriting m n) (stream_taken s)
         | None \<Rightarrow>
             if \<not> is_pass_through m then sg_goto i (Requeue m) (stream_taken s)
             else sg_goto i Finished (give_up m NoStream (stream_taken s)))
      else None)"
| "sg_step ans i (SendWriting m n) s = Some
     (case stream_send ans n m s of
        (s, SendOk) \<Rightarrow> sg_goto i Finished s
      | (s, SendError) \<Rightarrow>
          if \<not> is_pass_through m then sg_goto i (Requeue m) s
          else sg_goto i Finished (give_up m SendFailed s)
      | (s, OtherError) \<Rightarrow> sg_goto i Finished (give_up m WriteFailed s))"
| "sg_step ans i (Requeue m) s =
     (if queue_free s then Some (sg_goto i Finished (push_queue m s)) else None)"
| "sg_step ans i CloseStream s =
     (if stream_granted i s then Some (close_slot i ByClose (stream_taken s)) else None)"
| "sg_step ans i RestartClose s =
     (if stream_granted i s then Some (close_slot i ByRestart (stream_taken s)) else None)"
| "sg_step ans i RestartStart s = Some (await_stream i RestartStream (s\<lparr>sg_reconnecting := True\<rparr>))"
| "sg_step ans i RestartStream s =
     (if stream_granted i s then Some (close_slot i ByReconnect (stream_taken s)) else None)"
| "sg_step ans i (Closing cl n) s =
     (if \<not> sg_alive s ! n \<and> \<not> sg_reading s ! n
      then Some (sg_goto i (if n \<in> set (sg_broken s) then Panicked else after_close cl) s) else None)"
| "sg_step ans i RestartConnecting s = Some
     (case ans of
        Succeeds \<Rightarrow> sg_goto i (RestartAwaiting (length (sg_alive s)))
          (s\<lparr>sg_alive := sg_alive s @ [True], sg_reading := sg_reading s @ [True]\<rparr>)
      | Fails \<Rightarrow> sg_goto i RestartFailed s)"
| "sg_step ans i (RestartAwaiting n) s = Some
     (case ans of
        Succeeds \<Rightarrow> sg_goto i Finished (s\<lparr>sg_stream := Some n\<rparr>)
      | Fails \<Rightarrow> sg_goto i RestartFailed (s\<lparr>sg_left := sg_left s @ [n]\<rparr>))"
| "sg_step ans i RestartFailed s = Some (sg_goto i Finished (s\<lparr>sg_reconnecting := False\<rparr>))"
| "sg_step ans i SetReconnected s =
     Some (sg_goto i (FlushLock None) (s\<lparr>sg_reconnecting := False\<rparr>))"
| "sg_step ans i Finished s = None"
| "sg_step ans i Panicked s = None"

text \<open>
  A call starts a task; a task takes its next step; the read task of a stream ends, and sends the
  \<open>Close\<close> that ends its write task; or it panics, and sends nothing.
\<close>

datatype 'm sg_event =
    CallSend 'm | CallClose | CallRestart | CallSetReconnected | TaskStep nat sg_answer
  | ReadEnds nat | WriteEnds nat | ReadPanics nat

fun sg_apply :: "'a signal_request sg_event \<Rightarrow> 'a sg_state \<Rightarrow> 'a sg_state option" where
  "sg_apply (CallSend m) s = Some (s\<lparr>sg_tasks := sg_tasks s @ [SendStart m], sg_sent := sg_sent s @ [m]\<rparr>)"
| "sg_apply CallClose s = Some (s\<lparr>sg_tasks := sg_tasks s @ [CloseStream],
     sg_waiters := sg_waiters s @ [length (sg_tasks s)]\<rparr>)"
| "sg_apply CallRestart s = Some (s\<lparr>sg_tasks := sg_tasks s @ [RestartClose],
     sg_waiters := sg_waiters s @ [length (sg_tasks s)]\<rparr>)"
| "sg_apply CallSetReconnected s = Some (s\<lparr>sg_tasks := sg_tasks s @ [SetReconnected]\<rparr>)"
| "sg_apply (TaskStep i ans) s =
     (if i < length (sg_tasks s) then sg_step ans i (sg_tasks s ! i) s else None)"
| "sg_apply (ReadEnds n) s =
     (if n < length (sg_reading s) then Some (s\<lparr>sg_reading := (sg_reading s)[n := False]\<rparr>) else None)"
| "sg_apply (WriteEnds n) s =
     (if n < length (sg_alive s) \<and> \<not> sg_reading s ! n \<and> n \<notin> set (sg_broken s)
      then Some (s\<lparr>sg_alive := (sg_alive s)[n := False]\<rparr>) else None)"
| "sg_apply (ReadPanics n) s =
     (if n < length (sg_reading s) \<and> sg_reading s ! n
      then Some (s\<lparr>sg_reading := (sg_reading s)[n := False], sg_broken := sg_broken s @ [n]\<rparr>) else None)"

abbreviation sg_reachable :: "'a sg_state \<Rightarrow> bool" where
  "sg_reachable \<equiv> reachable sg_apply signal_client_new"

section \<open>The locks are respected\<close>

definition waits :: "'m sg_pc \<Rightarrow> bool" where
  "waits pc \<longleftrightarrow> wants_read pc \<or> wants_write pc"

fun stream_used :: "'m sg_pc \<Rightarrow> nat option" where
  "stream_used (Flushing _ n _) = Some n"
| "stream_used (SendWriting _ n) = Some n"
| "stream_used _ = None"

lemmas sg_update_defs = sg_goto_def await_stream_def stream_taken_def stream_send_def give_up_def
  push_queue_def after_flush_def close_slot_def

lemma after_close_simps [simp]:
  "\<not> holds_queue (after_close cl)" "\<not> holds_read (after_close cl)" "\<not> wants_read (after_close cl)"
  "\<not> wants_write (after_close cl)" "holds_write (after_close cl) \<longleftrightarrow> cl = ByReconnect"
  "stream_used (after_close cl) = None"
  by (cases cl; simp)+

lemma waits_simps [simp]:
  "waits (SendStart m) = False" "waits (SendQueue m) = False" "waits (FlushLock mo)  = False"
  "waits (FlushStream mo)" "waits (Flushing mo n ms) = False" "waits (SendStream m)" "waits (SendWriting m n) = False"
  "waits (Requeue m) = False" "waits CloseStream" "waits RestartClose" "waits RestartStart = False"
  "waits RestartStream" "waits (Closing cl n) = False" "waits RestartConnecting = False"
  "waits RestartFailed = False" "waits SetReconnected = False" "waits Finished = False"
  "waits (after_close cl) = False" "waits (RestartAwaiting n) = False" "waits Panicked = False"
  by (simp_all add: waits_def)

text \<open>What a step does to the program counter of its task, to the locks and to the waiters.\<close>

lemma sg_step_locks:
  assumes "sg_step ans i pc s = Some s'" "i < length (sg_tasks s)"
  defines "pc' \<equiv> sg_tasks s' ! i"
  shows "sg_tasks s' = (sg_tasks s)[i := pc']"
    "sg_waiters s' = (if waits pc then tl (sg_waiters s) else sg_waiters s) @ (if waits pc' then [i] else [])"
    "waits pc \<Longrightarrow> stream_granted i s"
    "holds_queue pc' \<Longrightarrow> holds_queue pc \<or> queue_free s"
    "holds_read pc' \<Longrightarrow> holds_read pc \<or> wants_read pc"
    "holds_write pc' \<Longrightarrow> wants_write pc \<or> holds_write pc"
  using assms(1,2) unfolding pc'_def
  by (cases "(ans, i, pc, s)" rule: sg_step.cases;
      auto simp: sg_update_defs Let_def split: if_splits option.splits sg_answer.splits)+

text \<open>
  The waiters are the tasks that want the stream, each once; one task at most holds the queue;
  a task that holds the stream for writing is alone.
\<close>

definition sg_locks_ok :: "'m signal_client \<Rightarrow> bool" where
  "sg_locks_ok s \<longleftrightarrow>
     distinct (sg_waiters s)
     \<and> (\<forall>i. i \<in> set (sg_waiters s) \<longleftrightarrow> i < length (sg_tasks s) \<and> waits (sg_tasks s ! i))
     \<and> (\<forall>i<length (sg_tasks s). \<forall>j<length (sg_tasks s).
          holds_queue (sg_tasks s ! i) \<and> holds_queue (sg_tasks s ! j) \<longrightarrow> i = j)
     \<and> (\<forall>i<length (sg_tasks s). \<forall>j<length (sg_tasks s).
          holds_write (sg_tasks s ! i) \<and> (holds_write (sg_tasks s ! j) \<or> holds_read (sg_tasks s ! j))
            \<longrightarrow> i = j)"

lemma holds_exclusive:
  "holds_queue pc \<Longrightarrow> \<not> holds_write pc" "holds_read pc \<Longrightarrow> \<not> holds_write pc"
  "wants_read pc \<Longrightarrow> \<not> wants_write pc" "waits pc \<Longrightarrow> \<not> holds_read pc \<and> \<not> holds_write pc"
  by (cases pc; simp add: waits_def)+

lemma sg_locks_step:
  assumes inv: "sg_locks_ok s" and i: "i < length (sg_tasks s)"
    and step: "sg_step ans i (sg_tasks s ! i) s = Some s'"
  shows "sg_locks_ok s'"
proof -
  define pc pc' where "pc = sg_tasks s ! i" and "pc' = sg_tasks s' ! i"
  note L = sg_step_locks[OF step i, folded pc_def pc'_def]
  have len: "length (sg_tasks s') = length (sg_tasks s)"
    by (subst L(1)) simp
  have nth: "sg_tasks s' ! j = (if j = i then pc' else sg_tasks s ! j)" if "j < length (sg_tasks s)" for j
    using that by (subst L(1)) (simp add: nth_list_update)
  have w: "distinct (sg_waiters s)"
    "\<And>j. j \<in> set (sg_waiters s) \<longleftrightarrow> j < length (sg_tasks s) \<and> waits (sg_tasks s ! j)"
    using inv by (auto simp: sg_locks_ok_def)
  have granted: "sg_waiters s = i # tl (sg_waiters s)" if "waits pc"
    using L(3)[OF that] by (cases "sg_waiters s") (auto simp: stream_granted_def)
  have notin: "i \<notin> set (sg_waiters s)" if "\<not> waits pc"
    using that w(2)[of i] by (simp add: pc_def)
  define ws where "ws = (if waits pc then tl (sg_waiters s) else sg_waiters s)"
  have ws: "distinct ws" "\<And>j. j \<in> set ws \<longleftrightarrow> j \<noteq> i \<and> j \<in> set (sg_waiters s)"
  proof -
    have "distinct ws \<and> (\<forall>j. j \<in> set ws \<longleftrightarrow> j \<noteq> i \<and> j \<in> set (sg_waiters s))"
    proof (cases "waits pc")
      case True
      then obtain us where "sg_waiters s = i # us"
        using granted by blast
      then show ?thesis
        using w(1) True by (auto simp: ws_def)
    next
      case False
      then show ?thesis
        using w(1) notin by (auto simp: ws_def)
    qed
    then show "distinct ws" "\<And>j. j \<in> set ws \<longleftrightarrow> j \<noteq> i \<and> j \<in> set (sg_waiters s)"
      by blast+
  qed
  have waiters: "sg_waiters s' = ws @ (if waits pc' then [i] else [])"
    using L(2) by (simp add: ws_def)
  have "distinct (sg_waiters s')"
    unfolding waiters using ws by simp
  moreover have "\<forall>j. j \<in> set (sg_waiters s') \<longleftrightarrow> j < length (sg_tasks s') \<and> waits (sg_tasks s' ! j)"
  proof
    fix j
    show "j \<in> set (sg_waiters s') \<longleftrightarrow> j < length (sg_tasks s') \<and> waits (sg_tasks s' ! j)"
      using i by (cases "j < length (sg_tasks s)") (simp_all add: waiters ws(2) w(2) len nth)
  qed
  moreover have "\<forall>j<length (sg_tasks s'). \<forall>k<length (sg_tasks s').
      holds_queue (sg_tasks s' ! j) \<and> holds_queue (sg_tasks s' ! k) \<longrightarrow> j = k"
  proof (intro allI impI)
    fix j k
    assume jk: "j < length (sg_tasks s')" "k < length (sg_tasks s')"
      "holds_queue (sg_tasks s' ! j) \<and> holds_queue (sg_tasks s' ! k)"
    have old: "a = b" if "a < length (sg_tasks s)" "b < length (sg_tasks s)"
      "holds_queue (sg_tasks s ! a)" "holds_queue (sg_tasks s ! b)" for a b
      using inv that unfolding sg_locks_ok_def by blast
    have other: "a = i" if "a < length (sg_tasks s)" "holds_queue (sg_tasks s ! a)" "holds_queue pc'" for a
      using L(4) old[of a i] that i by (auto simp: queue_free_def list_ex_length pc_def)
    show "j = k"
      using old[of j k] other[of j] other[of k] jk nth len by (auto split: if_splits)
  qed
  moreover have "\<forall>j<length (sg_tasks s'). \<forall>k<length (sg_tasks s').
      holds_write (sg_tasks s' ! j) \<and> (holds_write (sg_tasks s' ! k) \<or> holds_read (sg_tasks s' ! k))
        \<longrightarrow> j = k"
  proof (intro allI impI)
    fix j k
    assume jk: "j < length (sg_tasks s')" "k < length (sg_tasks s')"
      "holds_write (sg_tasks s' ! j) \<and> (holds_write (sg_tasks s' ! k) \<or> holds_read (sg_tasks s' ! k))"
    have alone: "\<not> list_ex holds_write (sg_tasks s) \<and> \<not> list_ex holds_read (sg_tasks s)" if "wants_write pc"
      using L(3) that by (simp add: stream_granted_def waits_def pc_def)
    have no_writer: "\<not> list_ex holds_write (sg_tasks s)" if "wants_read pc"
      using L(3) that by (simp add: stream_granted_def waits_def pc_def)
    have old: "a = b" if "a < length (sg_tasks s)" "b < length (sg_tasks s)"
      "holds_write (sg_tasks s ! a)" "holds_write (sg_tasks s ! b) \<or> holds_read (sg_tasks s ! b)" for a b
      using inv that unfolding sg_locks_ok_def by blast
    show "j = k"
    proof (rule ccontr)
      assume "j \<noteq> k"
      then consider "j = i" "k \<noteq> i" | "j \<noteq> i" "k = i" | "j \<noteq> i" "k \<noteq> i"
        by blast
      then show False
      proof cases
        case 1
        then have "wants_write pc \<or> holds_write (sg_tasks s ! i)"
            "holds_write (sg_tasks s ! k) \<or> holds_read (sg_tasks s ! k)"
          using L(6) jk nth len by (auto simp: pc_def)
        then show False
          using alone old[of i k] jk len 1 i by (auto simp: list_ex_length)
      next
        case 2
        then have "holds_write (sg_tasks s ! j)" "holds_write pc' \<or> holds_read pc'"
          using jk nth len by auto
        then show False
          using L(5,6) alone no_writer old[of j i] jk len 2 i by (auto simp: list_ex_length pc_def)
      next
        case 3
        then show False
          using old[of j k] jk nth len \<open>j \<noteq> k\<close> by auto
      qed
    qed
  qed
  ultimately show ?thesis
    by (simp add: sg_locks_ok_def)
qed

section \<open>Where the messages are\<close>

text \<open>The messages a task holds.\<close>

fun sg_held :: "'m sg_pc \<Rightarrow> 'm list" where
  "sg_held (SendStart m) = [m]"
| "sg_held (SendQueue m) = [m]"
| "sg_held (FlushLock mo) = (case mo of None \<Rightarrow> [] | Some m \<Rightarrow> [m])"
| "sg_held (FlushStream mo) = (case mo of None \<Rightarrow> [] | Some m \<Rightarrow> [m])"
| "sg_held (Flushing mo _ ms) = ms @ (case mo of None \<Rightarrow> [] | Some m \<Rightarrow> [m])"
| "sg_held (SendStream m) = [m]"
| "sg_held (SendWriting m _) = [m]"
| "sg_held (Requeue m) = [m]"
| "sg_held _ = []"

definition sg_in_tasks :: "'m signal_client \<Rightarrow> 'm multiset" where
  "sg_in_tasks s = mset (concat (map sg_held (sg_tasks s)))"

text \<open>All messages that are somewhere.\<close>

definition sg_ledger :: "'m signal_client \<Rightarrow> 'm multiset" where
  "sg_ledger s =
     mset (map snd (sg_wire s)) + mset (sg_queue s) + sg_in_tasks s + mset (map fst (sg_lost s))"

lemma sg_held_after_close [simp]: "sg_held (after_close cl) = []"
  by (cases cl) simp_all

text \<open>A message that is flushed or queued may wait.\<close>

fun sg_waiting_msgs :: "'m sg_pc \<Rightarrow> 'm list" where
  "sg_waiting_msgs (SendQueue m) = [m]"
| "sg_waiting_msgs (Flushing _ _ ms) = ms"
| "sg_waiting_msgs (Requeue m) = [m]"
| "sg_waiting_msgs _ = []"

lemma sg_waiting_after_close [simp]: "sg_waiting_msgs (after_close cl) = []"
  by (cases cl) simp_all

fun lost_as_meant :: "'a signal_request \<times> lost_reason \<Rightarrow> bool" where
  "lost_as_meant (m, NoStream) = is_pass_through m"
| "lost_as_meant (m, SendFailed) = is_pass_through m"
| "lost_as_meant (m, FlushFailed) = (\<not> is_pass_through m)"
| "lost_as_meant (m, WriteFailed) = True"

definition sg_kinds_ok :: "'a sg_state \<Rightarrow> bool" where
  "sg_kinds_ok s \<longleftrightarrow>
     (\<forall>m\<in>set (sg_queue s). \<not> is_pass_through m)
     \<and> (\<forall>pc\<in>set (sg_tasks s). \<forall>m\<in>set (sg_waiting_msgs pc). \<not> is_pass_through m)
     \<and> (\<forall>x\<in>set (sg_lost s). lost_as_meant x)"

lemma mset_concat_update:
  "i < length xs \<Longrightarrow>
     mset (concat (map f (xs[i := y]))) + mset (f (xs ! i)) = mset (concat (map f xs)) + mset (f y)"
proof (induction xs arbitrary: i)
  case (Cons x xs)
  then show ?case
    by (cases i) (auto simp: add_ac)
qed simp

lemma sg_in_tasks_goto [simp]:
  "i < length (sg_tasks s) \<Longrightarrow>
     sg_in_tasks (sg_goto i pc s) + mset (sg_held (sg_tasks s ! i)) = sg_in_tasks s + mset (sg_held pc)"
  unfolding sg_in_tasks_def sg_goto_def by (simp add: mset_concat_update)

text \<open>What a step does to the messages outside the tasks and to those of its own task.\<close>

lemma sg_step_messages:
  assumes "sg_step ans i pc s = Some s'" "i < length (sg_tasks s)"
  shows "mset (map snd (sg_wire s')) + mset (sg_queue s') + mset (map fst (sg_lost s')) + mset (sg_held (sg_tasks s' ! i))
       = mset (map snd (sg_wire s)) + mset (sg_queue s) + mset (map fst (sg_lost s)) + mset (sg_held pc)"
  using assms
  by (cases "(ans, i, pc, s)" rule: sg_step.cases;
      auto simp: sg_update_defs Let_def split: if_splits option.splits sg_answer.splits)

lemma sg_step_kinds:
  assumes "sg_step ans i pc s = Some s'" "i < length (sg_tasks s)"
    "\<forall>m\<in>set (sg_queue s). \<not> is_pass_through m" "\<forall>m\<in>set (sg_waiting_msgs pc). \<not> is_pass_through m"
    "\<forall>x\<in>set (sg_lost s). lost_as_meant x"
  shows "(\<forall>m\<in>set (sg_queue s'). \<not> is_pass_through m)
       \<and> (\<forall>m\<in>set (sg_waiting_msgs (sg_tasks s' ! i)). \<not> is_pass_through m)
       \<and> (\<forall>x\<in>set (sg_lost s'). lost_as_meant x)"
  using assms
  by (cases "(ans, i, pc, s)" rule: sg_step.cases;
      auto simp: sg_update_defs Let_def split: if_splits option.splits sg_answer.splits)

lemma sg_step_sent:
  "sg_step ans i pc s = Some s' \<Longrightarrow> sg_sent s' = sg_sent s"
  by (cases "(ans, i, pc, s)" rule: sg_step.cases;
      auto simp: sg_update_defs Let_def split: if_splits option.splits sg_answer.splits)
section \<open>One stream at a time\<close>

text \<open>
  The stream in the slot is the last one opened, and no other is open but one that is being
  closed, one that waits for the answer of the server, or one that was left; what the tasks write goes to it, and while a
  stream is closed or a restart connects there is none.
\<close>

definition sg_open :: "'m signal_client \<Rightarrow> nat \<Rightarrow> bool" where
  "sg_open s n \<longleftrightarrow> sg_alive s ! n \<or> sg_reading s ! n"

definition sg_accounted :: "'m signal_client \<Rightarrow> nat \<Rightarrow> bool" where
  "sg_accounted s n \<longleftrightarrow> sg_stream s = Some n \<or> (\<exists>cl. Closing cl n \<in> set (sg_tasks s)) \<or> RestartAwaiting n \<in> set (sg_tasks s) \<or>
     n \<in> set (sg_left s)"

definition sg_stream_ok :: "'m signal_client \<Rightarrow> bool" where
  "sg_stream_ok s \<longleftrightarrow>
     (\<forall>n. sg_stream s = Some n \<longrightarrow> Suc n = length (sg_alive s))
     \<and> length (sg_reading s) = length (sg_alive s)
     \<and> (\<forall>n<length (sg_alive s). sg_open s n \<longrightarrow> sg_accounted s n)
     \<and> (\<forall>pc\<in>set (sg_tasks s). \<forall>n. stream_used pc = Some n \<longrightarrow> sg_stream s = Some n)
     \<and> (\<forall>pc\<in>set (sg_tasks s). holds_write pc \<longrightarrow> sg_stream s = None)
     \<and> sorted (map fst (sg_wire s)) \<and> (\<forall>x\<in>set (sg_wire s). fst x < length (sg_alive s))"

text \<open>Nothing is ever written to a stream that was left, and it never gets into the slot.\<close>

definition sg_left_ok :: "'m signal_client \<Rightarrow> bool" where
  "sg_left_ok s \<longleftrightarrow>
     (\<forall>n\<in>set (sg_left s). n < length (sg_alive s) \<and> sg_stream s \<noteq> Some n \<and> n \<notin> fst ` set (sg_wire s))
     \<and> (\<forall>n. RestartAwaiting n \<in> set (sg_tasks s) \<longrightarrow>
          Suc n = length (sg_alive s) \<and> n \<notin> set (sg_left s) \<and> (\<forall>x\<in>set (sg_wire s). fst x < n))"

lemma stream_used_holds: "stream_used pc = Some n \<Longrightarrow> holds_read pc"
  by (cases pc) auto

lemma stream_granted_reader:
  "stream_granted i s \<Longrightarrow> j < length (sg_tasks s) \<Longrightarrow> \<not> holds_write (sg_tasks s ! j)"
  by (auto simp: stream_granted_def list_ex_length)

lemma stream_granted_writer:
  "stream_granted i s \<Longrightarrow> wants_write (sg_tasks s ! i) \<Longrightarrow> j < length (sg_tasks s) \<Longrightarrow>
     \<not> holds_read (sg_tasks s ! j)"
  by (auto simp: stream_granted_def list_ex_length)

lemma after_close_cases: "after_close cl = RestartAwaiting n \<Longrightarrow> P"
  by (cases cl) simp_all

text \<open>What a step does to the slot, to the write tasks and to the wire.\<close>

definition sg_open_le :: "'m signal_client \<Rightarrow> 'm signal_client \<Rightarrow> bool" where
  "sg_open_le s' s \<longleftrightarrow> length (sg_alive s') = length (sg_alive s) \<and> sg_reading s' = sg_reading s
     \<and> (\<forall>n<length (sg_alive s). sg_open s' n \<longrightarrow> sg_open s n)"

lemma closed_nth [simp]: "n < length bs \<Longrightarrow> bs[m := False] ! n \<longleftrightarrow> n \<noteq> m \<and> bs ! n"
  by (cases "n = m") auto

lemma sg_step_slot:
  assumes "sg_step ans i pc s = Some s'" "i < length (sg_tasks s)"
  shows "\<not> wants_write pc \<and> sg_stream s' = sg_stream s \<and> sg_open_le s' s \<and> sg_left s' = sg_left s
      \<and> (\<forall>cl n. pc = Closing cl n \<longrightarrow> \<not> sg_open s n) \<and> (\<forall>n. pc \<noteq> RestartAwaiting n) \<and> (\<forall>n. sg_tasks s' ! i \<noteq> RestartAwaiting n)
    \<or> wants_write pc \<and> sg_stream s' = None \<and> sg_open_le s' s \<and> sg_left s' = sg_left s
      \<and> (\<forall>n. sg_stream s = Some n \<longrightarrow> (\<exists>cl. sg_tasks s' ! i = Closing cl n)) \<and> (\<forall>n. sg_tasks s' ! i \<noteq> RestartAwaiting n)
    \<or> pc = RestartConnecting \<and> sg_stream s' = sg_stream s \<and> sg_left s' = sg_left s
      \<and> sg_alive s' = sg_alive s @ [True] \<and> sg_reading s' = sg_reading s @ [True]
      \<and> sg_tasks s' ! i = RestartAwaiting (length (sg_alive s))
    \<or> (\<exists>n. pc = RestartAwaiting n \<and> sg_alive s' = sg_alive s \<and> sg_reading s' = sg_reading s
      \<and> (sg_stream s' = Some n \<and> sg_left s' = sg_left s \<and> sg_tasks s' ! i = Finished
         \<or> sg_stream s' = sg_stream s \<and> sg_left s' = sg_left s @ [n] \<and> sg_tasks s' ! i = RestartFailed))"
  using assms
  by (cases "(ans, i, pc, s)" rule: sg_step.cases;
      auto simp: sg_update_defs sg_open_le_def sg_open_def Let_def elim: after_close_cases
        split: if_splits option.splits sg_answer.splits)

lemma sg_step_uses:
  assumes "sg_step ans i pc s = Some s'" "i < length (sg_tasks s)" "stream_used (sg_tasks s' ! i) = Some n"
  shows "\<not> wants_write pc \<and> (stream_used pc = Some n \<or> sg_stream s = Some n)"
  using assms
  by (cases "(ans, i, pc, s)" rule: sg_step.cases;
      auto simp: sg_update_defs Let_def split: if_splits option.splits sg_answer.splits)

lemma sg_step_wire:
  assumes "sg_step ans i pc s = Some s'"
  shows "sg_wire s' = sg_wire s \<or> (\<exists>n m. stream_used pc = Some n \<and> sg_wire s' = sg_wire s @ [(n, m)])"
  using assms
  by (cases "(ans, i, pc, s)" rule: sg_step.cases;
      auto simp: sg_update_defs Let_def split: if_splits option.splits sg_answer.splits)

lemma accounted_step:
  assumes acc: "sg_accounted s n" and stays: "\<And>q. q \<in> set (sg_tasks s) \<Longrightarrow> pc \<noteq> q \<Longrightarrow> q \<in> set (sg_tasks s')"
    and left_le: "set (sg_left s) \<subseteq> set (sg_left s')" and slot: "sg_stream s = Some n \<Longrightarrow> sg_accounted s' n"
    and closing: "\<And>cl. pc = Closing cl n \<Longrightarrow> sg_accounted s' n" and awaiting: "pc = RestartAwaiting n \<Longrightarrow> sg_accounted s' n"
  shows "sg_accounted s' n"
proof -
  consider "sg_stream s = Some n" | cl where "Closing cl n \<in> set (sg_tasks s)" | "RestartAwaiting n \<in> set (sg_tasks s)" | "n \<in> set (sg_left s)"
    using acc unfolding sg_accounted_def by blast
  then show ?thesis
  proof cases
    case (2 cl)
    then show ?thesis
      using stays [of "Closing cl n"] closing [of cl] by (cases "pc = Closing cl n") (auto simp: sg_accounted_def)
  next
    case 3
    then show ?thesis
      using stays [of "RestartAwaiting n"] awaiting by (cases "pc = RestartAwaiting n") (auto simp: sg_accounted_def)
  qed (use slot left_le in \<open>auto simp: sg_accounted_def\<close>)
qed

lemma sg_stream_step:
  assumes locks: "sg_locks_ok s" and ok: "sg_stream_ok s" and left_ok: "sg_left_ok s" and i: "i < length (sg_tasks s)"
    and step: "sg_step ans i (sg_tasks s ! i) s = Some s'"
  shows "sg_stream_ok s' \<and> sg_left_ok s'"
proof -
  define pc pc' where "pc = sg_tasks s ! i" and "pc' = sg_tasks s' ! i"
  note L = sg_step_locks[OF step i, folded pc_def pc'_def]
  note slot = sg_step_slot[OF step i, folded pc_def pc'_def]
  note uses = sg_step_uses[OF step i, folded pc_def pc'_def]
  have pc: "pc \<in> set (sg_tasks s)"
    using i by (simp add: pc_def)
  have old: "Suc n = length (sg_alive s)" if "sg_stream s = Some n" for n
    using ok that by (auto simp: sg_stream_ok_def)
  have lens: "length (sg_reading s) = length (sg_alive s)"
    using ok by (simp add: sg_stream_ok_def)
  have old_open: "sg_accounted s n"
    if "n < length (sg_alive s)" "sg_open s n" for n
    using ok that by (auto simp: sg_stream_ok_def)
  have old_used: "sg_stream s = Some n" if "q \<in> set (sg_tasks s)" "stream_used q = Some n" for q n
    using ok that by (auto simp: sg_stream_ok_def)
  have old_write: "sg_stream s = None" if "q \<in> set (sg_tasks s)" "holds_write q" for q
    using ok that by (auto simp: sg_stream_ok_def)
  have tasks: "q = pc' \<or> (\<exists>j<length (sg_tasks s). j \<noteq> i \<and> q = sg_tasks s ! j)" if q: "q \<in> set (sg_tasks s')" for q
  proof -
    obtain j where j: "j < length (sg_tasks s')" "q = sg_tasks s' ! j"
      using q by (auto simp: in_set_conv_nth)
    have "length (sg_tasks s') = length (sg_tasks s)" "sg_tasks s' ! j = (if j = i then pc' else sg_tasks s ! j)"
      using i by (subst L(1), simp)+
    then show ?thesis
      using j by (cases "j = i") auto
  qed
  have len: "length (sg_tasks s') = length (sg_tasks s)"
    by (subst L(1)) simp
  have mutex: False
    if "wants_write pc \<or> holds_write pc" "j < length (sg_tasks s)" "j \<noteq> i"
      "holds_read (sg_tasks s ! j) \<or> holds_write (sg_tasks s ! j)" for j
  proof (cases "wants_write pc")
    case True
    then have "stream_granted i s"
      using L(3) by (simp add: waits_def)
    then show False
      using True that(2,4) stream_granted_reader stream_granted_writer pc_def by blast
  next
    case False
    then have "holds_write (sg_tasks s ! i)"
      using that(1) by (simp add: pc_def)
    then show False
      using that(2-4) i locks unfolding sg_locks_ok_def by blast
  qed
  have awaited: "Suc n = length (sg_alive s) \<and> n \<notin> set (sg_left s) \<and> (\<forall>x\<in>set (sg_wire s). fst x < n)"
    if "RestartAwaiting n \<in> set (sg_tasks s)" for n
    using left_ok that by (simp add: sg_left_ok_def)
  have slot_last: "Suc n = length (sg_alive s')" if "sg_stream s' = Some n" for n
    using slot old[of n] awaited[of n] pc old_write[OF pc] that by (auto simp: sg_open_le_def)
  have slot_lens: "length (sg_reading s') = length (sg_alive s')"
    using slot lens by (auto simp: sg_open_le_def)
  have stays: "q \<in> set (sg_tasks s')" if "q \<in> set (sg_tasks s)" "pc \<noteq> q" for q
    using that i by (subst L(1)) (metis in_set_conv_nth length_list_update nth_list_update_neq pc_def)
  have pc': "pc' \<in> set (sg_tasks s')"
    using i by (simp add: pc'_def len)
  have slot_open: "sg_accounted s' n"
    if n: "n < length (sg_alive s')" "sg_open s' n" for n
    using slot
  proof (elim disjE exE conjE)
    assume a: "\<not> wants_write pc" "sg_stream s' = sg_stream s" "sg_open_le s' s" "sg_left s' = sg_left s"
      "\<forall>cl n. pc = Closing cl n \<longrightarrow> \<not> sg_open s n" "\<forall>n. pc \<noteq> RestartAwaiting n"
    then have o: "n < length (sg_alive s)" "sg_open s n"
      using n by (auto simp: sg_open_le_def)
    show ?thesis
      by (rule accounted_step [OF old_open [OF o], of pc]) (use stays a o in \<open>auto simp: sg_accounted_def\<close>)
  next
    assume a: "wants_write pc" "sg_open_le s' s" "sg_left s' = sg_left s"
      "\<forall>n. sg_stream s = Some n \<longrightarrow> (\<exists>cl. pc' = Closing cl n)"
    have o: "n < length (sg_alive s)" "sg_open s n"
      using n a(2) by (auto simp: sg_open_le_def)
    have new: "sg_accounted s' n" if "sg_stream s = Some n"
      using a(4) that pc' unfolding sg_accounted_def by metis
    show ?thesis
      by (rule accounted_step [OF old_open [OF o], of pc]) (use stays a(1,3) new in \<open>auto simp: sg_accounted_def\<close>)
  next
    assume a: "pc = RestartConnecting" "sg_stream s' = sg_stream s" "sg_left s' = sg_left s"
      "sg_alive s' = sg_alive s @ [True]" "sg_reading s' = sg_reading s @ [True]" "pc' = RestartAwaiting (length (sg_alive s))"
    show ?thesis
    proof (cases "n = length (sg_alive s)")
      case True
      then show ?thesis
        using pc' a(6) by (simp add: sg_accounted_def)
    next
      case False
      then have o: "n < length (sg_alive s)" "sg_open s n"
        using n a lens by (auto simp: sg_open_def nth_append)
      show ?thesis
        by (rule accounted_step [OF old_open [OF o], of pc]) (use stays a(1-3) in \<open>auto simp: sg_accounted_def\<close>)
    qed
  next
    fix k
    assume a: "pc = RestartAwaiting k" "sg_alive s' = sg_alive s" "sg_reading s' = sg_reading s"
      "sg_stream s' = Some k" "sg_left s' = sg_left s"
    have o: "n < length (sg_alive s)" "sg_open s n"
      using n a(2,3) by (simp_all add: sg_open_def)
    have none: "sg_stream s = None"
      using old_write[OF pc] a(1) by simp
    show ?thesis
      by (rule accounted_step [OF old_open [OF o], of pc]) (use stays a(1,4,5) none in \<open>auto simp: sg_accounted_def\<close>)
  next
    fix k
    assume a: "pc = RestartAwaiting k" "sg_alive s' = sg_alive s" "sg_reading s' = sg_reading s"
      "sg_stream s' = sg_stream s" "sg_left s' = sg_left s @ [k]"
    have o: "n < length (sg_alive s)" "sg_open s n"
      using n a(2,3) by (simp_all add: sg_open_def)
    show ?thesis
      by (rule accounted_step [OF old_open [OF o], of pc]) (use stays a(1,4,5) in \<open>auto simp: sg_accounted_def\<close>)
  qed
  have longer: "length (sg_alive s) \<le> length (sg_alive s')"
    using slot by (auto simp: sg_open_le_def)
  have used: "sg_stream s' = Some n" if "q \<in> set (sg_tasks s')" "stream_used q = Some n" for q n
    using tasks[OF that(1)]
  proof
    assume "q = pc'"
    then have "\<not> wants_write pc" "sg_stream s = Some n" "stream_used pc' = Some n"
      using uses[of n] old_used[OF pc] that(2) by auto
    then show ?thesis
      using slot by auto
  next
    assume "\<exists>j<length (sg_tasks s). j \<noteq> i \<and> q = sg_tasks s ! j"
    then obtain j where j: "j < length (sg_tasks s)" "j \<noteq> i" "q = sg_tasks s ! j"
      by blast
    then have "\<not> wants_write pc" "\<not> holds_write pc"
      using mutex[of j] stream_used_holds that(2) by auto
    then show ?thesis
      using slot old_used[of q n] j that(2) by auto
  qed
  have writing: "sg_stream s' = None" if "q \<in> set (sg_tasks s')" "holds_write q" for q
    using tasks[OF that(1)]
  proof
    assume "q = pc'"
    then have "wants_write pc \<or> holds_write pc" "holds_write pc'"
      using L(6) that(2) by auto
    then show ?thesis
      using slot old_write[OF pc] by auto
  next
    assume "\<exists>j<length (sg_tasks s). j \<noteq> i \<and> q = sg_tasks s ! j"
    then obtain j where j: "j < length (sg_tasks s)" "j \<noteq> i" "q = sg_tasks s ! j"
      by blast
    then have "\<not> wants_write pc" "\<not> holds_write pc"
      using mutex[of j] that(2) by auto
    then show ?thesis
      using slot old_write[of q] j that(2) by auto
  qed
  have wire_old: "sorted (map fst (sg_wire s))" "\<forall>x\<in>set (sg_wire s). fst x < length (sg_alive s)"
    using ok by (simp_all add: sg_stream_ok_def)
  have "sorted (map fst (sg_wire s')) \<and> (\<forall>x\<in>set (sg_wire s'). fst x < length (sg_alive s'))"
    using sg_step_wire[OF step]
  proof
    assume "sg_wire s' = sg_wire s"
    then show ?thesis
      using wire_old longer by fastforce
  next
    assume "\<exists>n m. stream_used (sg_tasks s ! i) = Some n \<and> sg_wire s' = sg_wire s @ [(n, m)]"
    then obtain n m where n: "stream_used pc = Some n" "sg_wire s' = sg_wire s @ [(n, m)]"
      by (auto simp: pc_def)
    then have "Suc n = length (sg_alive s)"
      using old old_used[OF pc] by blast
    then show ?thesis
      using wire_old longer n(2) by (fastforce simp: sorted_append)
  qed
  then have stream: "sg_stream_ok s'"
    using slot_last slot_lens slot_open used writing unfolding sg_stream_ok_def by blast
  have left_old: "n < length (sg_alive s) \<and> sg_stream s \<noteq> Some n \<and> n \<notin> fst ` set (sg_wire s)" if "n \<in> set (sg_left s)" for n
    using left_ok that by (simp add: sg_left_ok_def)
  have wire_new: "sg_stream s = Some (fst x)" if "x \<in> set (sg_wire s')" "x \<notin> set (sg_wire s)" for x
    using sg_step_wire[OF step, folded pc_def] old_used[OF pc] that by auto
  have left_new: "n < length (sg_alive s') \<and> sg_stream s' \<noteq> Some n \<and> n \<notin> fst ` set (sg_wire s')" if n: "n \<in> set (sg_left s')" for n
  proof (cases "n \<in> set (sg_left s)")
    case True
    then have "sg_stream s' \<noteq> Some n"
      using slot left_old[OF True] awaited pc by auto
    moreover have "n \<notin> fst ` set (sg_wire s')"
      using left_old[OF True] wire_new by force
    ultimately show ?thesis
      using left_old[OF True] longer by simp
  next
    case False
    then have a: "pc = RestartAwaiting n" "sg_stream s' = sg_stream s" "sg_alive s' = sg_alive s"
      using slot n by auto
    then have none: "sg_stream s = None" and before: "Suc n = length (sg_alive s) \<and> (\<forall>x\<in>set (sg_wire s). fst x < n)"
      using old_write[OF pc] awaited pc by auto
    moreover have "x \<in> set (sg_wire s)" if "x \<in> set (sg_wire s')" for x
      using wire_new that none by fastforce
    ultimately show ?thesis
      using a by force
  qed
  have await_new: "Suc n = length (sg_alive s') \<and> n \<notin> set (sg_left s') \<and> (\<forall>x\<in>set (sg_wire s'). fst x < n)"
    if q: "RestartAwaiting n \<in> set (sg_tasks s')" for n
    using tasks[OF q]
  proof
    assume "RestartAwaiting n = pc'"
    then have a: "pc = RestartConnecting" "n = length (sg_alive s)" "sg_left s' = sg_left s" "sg_alive s' = sg_alive s @ [True]"
      using slot by auto
    then have "sg_wire s' = sg_wire s"
      using sg_step_wire[OF step, folded pc_def] by auto
    then show ?thesis
      using a wire_old left_old by auto
  next
    assume "\<exists>j<length (sg_tasks s). j \<noteq> i \<and> RestartAwaiting n = sg_tasks s ! j"
    then obtain j where j: "j < length (sg_tasks s)" "j \<noteq> i" "sg_tasks s ! j = RestartAwaiting n"
      by metis
    then have "\<not> wants_write pc" "\<not> holds_write pc"
      using mutex[of j] by auto
    then have a: "length (sg_alive s') = length (sg_alive s)" "sg_left s' = sg_left s"
      using slot by (auto simp: sg_open_le_def)
    have q': "RestartAwaiting n \<in> set (sg_tasks s)"
      using j by (metis nth_mem)
    have "sg_stream s = None"
      using old_write[OF q'] by simp
    then have "x \<in> set (sg_wire s)" if "x \<in> set (sg_wire s')" for x
      using wire_new that by fastforce
    then show ?thesis
      using awaited[OF q'] a by auto
  qed
  have "sg_left_ok s'"
    using left_new await_new by (simp add: sg_left_ok_def)
  with stream show ?thesis ..
qed
section \<open>The invariant\<close>

definition sg_inv :: "'a sg_state \<Rightarrow> bool" where
  "sg_inv s \<longleftrightarrow> sg_locks_ok s \<and> sg_stream_ok s \<and> sg_left_ok s \<and> sg_kinds_ok s \<and> sg_ledger s = mset (sg_sent s)"

lemma moved_between:
  fixes t :: "'a multiset"
  assumes "t' + h = t + h'" "w' + q' + l' + h' = w + q + l + h"
  shows "w' + q' + t' + l' = w + q + t + l"
proof (rule multiset_eqI)
  fix x
  have "count t' x + count h x = count t x + count h' x"
    by (metis assms(1) count_union)
  moreover have "count w' x + count q' x + count l' x + count h' x = count w x + count q x + count l x + count h x"
    by (metis assms(2) count_union)
  ultimately show "count (w' + q' + t' + l') x = count (w + q + t + l) x"
    by simp
qed

lemma sg_ledger_step:
  assumes step: "sg_step ans i (sg_tasks s ! i) s = Some s'" and i: "i < length (sg_tasks s)"
  shows "sg_ledger s' = sg_ledger s"
proof -
  have tasks: "sg_tasks s' = (sg_tasks s)[i := sg_tasks s' ! i]"
    by (rule sg_step_locks(1)[OF step i])
  have "sg_in_tasks s' + mset (sg_held (sg_tasks s ! i)) = sg_in_tasks s + mset (sg_held (sg_tasks s' ! i))"
    unfolding sg_in_tasks_def by (subst tasks) (rule mset_concat_update[OF i])
  then show ?thesis
    unfolding sg_ledger_def using sg_step_messages[OF step i] by (rule moved_between)
qed

lemma sg_kinds_step:
  assumes ok: "sg_kinds_ok s" and i: "i < length (sg_tasks s)"
    and step: "sg_step ans i (sg_tasks s ! i) s = Some s'"
  shows "sg_kinds_ok s'"
proof -
  have "set (sg_tasks s') \<subseteq> insert (sg_tasks s' ! i) (set (sg_tasks s))"
    by (subst sg_step_locks(1)[OF step i]) (rule set_update_subset_insert)
  moreover have "\<forall>m\<in>set (sg_waiting_msgs (sg_tasks s ! i)). \<not> is_pass_through m"
    using ok nth_mem[OF i] unfolding sg_kinds_ok_def by blast
  ultimately show ?thesis
    using sg_step_kinds[OF step i] ok unfolding sg_kinds_ok_def by blast
qed

lemma sg_inv_step:
  assumes "sg_inv s" "i < length (sg_tasks s)" "sg_step ans i (sg_tasks s ! i) s = Some s'"
  shows "sg_inv s'"
  using assms sg_locks_step[OF _ assms(2,3)] sg_stream_step[OF _ _ _ assms(2,3)] sg_kinds_step[OF _ assms(2,3)]
    sg_ledger_step[OF assms(3,2)] sg_step_sent[OF assms(3)]
  unfolding sg_inv_def by simp

text \<open>A call adds a task that holds nothing.\<close>

lemma sg_locks_call:
  assumes ok: "sg_locks_ok s" and pc: "\<not> holds_queue pc" "\<not> holds_read pc" "\<not> holds_write pc"
    and s': "sg_tasks s' = sg_tasks s @ [pc]"
      "sg_waiters s' = sg_waiters s @ (if waits pc then [length (sg_tasks s)] else [])"
  shows "sg_locks_ok s'"
proof -
  have nth: "sg_tasks s' ! j = (if j = length (sg_tasks s) then pc else sg_tasks s ! j)"
    if "j < Suc (length (sg_tasks s))" for j
    using that by (simp add: s' nth_append)
  have len: "length (sg_tasks s') = Suc (length (sg_tasks s))"
    by (simp add: s')
  have w: "distinct (sg_waiters s)"
    "\<And>j. j \<in> set (sg_waiters s) \<longleftrightarrow> j < length (sg_tasks s) \<and> waits (sg_tasks s ! j)"
    using ok by (auto simp: sg_locks_ok_def)
  have old: "a = b" if "a < length (sg_tasks s)" "b < length (sg_tasks s)"
      "holds_queue (sg_tasks s ! a) \<and> holds_queue (sg_tasks s ! b)
       \<or> holds_write (sg_tasks s ! a) \<and> (holds_write (sg_tasks s ! b) \<or> holds_read (sg_tasks s ! b))" for a b
    using ok that unfolding sg_locks_ok_def by blast
  have "distinct (sg_waiters s')"
    using w by (auto simp: s'(2))
  moreover have "\<forall>j. j \<in> set (sg_waiters s') \<longleftrightarrow> j < length (sg_tasks s') \<and> waits (sg_tasks s' ! j)"
  proof
    fix j
    show "j \<in> set (sg_waiters s') \<longleftrightarrow> j < length (sg_tasks s') \<and> waits (sg_tasks s' ! j)"
      by (cases "j < length (sg_tasks s)"; cases "j = length (sg_tasks s)")
        (simp_all add: s'(2) w(2) len nth)
  qed
  moreover have "j = k" if "j < length (sg_tasks s')" "k < length (sg_tasks s')"
    "holds_queue (sg_tasks s' ! j) \<and> holds_queue (sg_tasks s' ! k)
     \<or> holds_write (sg_tasks s' ! j) \<and> (holds_write (sg_tasks s' ! k) \<or> holds_read (sg_tasks s' ! k))" for j k
    using that pc old[of j k]
    by (cases "j = length (sg_tasks s)"; cases "k = length (sg_tasks s)") (simp_all add: nth len)
  ultimately show ?thesis
    unfolding sg_locks_ok_def by blast
qed

lemma sg_inv_call:
  assumes "sg_inv s" "\<not> holds_queue pc" "\<not> holds_read pc" "\<not> holds_write pc"
    and "\<And>n. pc \<noteq> RestartAwaiting n" and "sg_waiting_msgs pc = []" "mset (sg_held pc) = mset ms" "ws = (if waits pc then [length (sg_tasks s)] else [])"
  shows "sg_inv (s\<lparr>sg_tasks := sg_tasks s @ [pc], sg_waiters := sg_waiters s @ ws, sg_sent := sg_sent s @ ms\<rparr>)"
proof -
  have "stream_used pc = None"
    using assms(3) stream_used_holds[of pc] by (cases "stream_used pc") auto
  then show ?thesis
    using assms sg_locks_call[of s pc "s\<lparr>sg_tasks := sg_tasks s @ [pc], sg_waiters := sg_waiters s @ ws, sg_sent := sg_sent s @ ms\<rparr>"]
    by (auto simp: sg_inv_def sg_stream_ok_def sg_left_ok_def sg_accounted_def sg_kinds_ok_def sg_ledger_def sg_in_tasks_def sg_open_def add_ac)
qed

lemma sg_inv_ends:
  assumes "sg_inv s"
  shows "sg_inv (s\<lparr>sg_alive := (sg_alive s)[n := False]\<rparr>)" "sg_inv (s\<lparr>sg_reading := (sg_reading s)[n := False]\<rparr>)"
    "sg_inv (s\<lparr>sg_reading := (sg_reading s)[n := False], sg_broken := sg_broken s @ [n]\<rparr>)"
  using assms
  by (auto simp: sg_inv_def sg_locks_ok_def sg_stream_ok_def sg_left_ok_def sg_accounted_def sg_kinds_ok_def sg_ledger_def sg_in_tasks_def
      sg_open_def)

lemma sg_inv_app:
  assumes inv: "sg_inv s" and step: "sg_apply e s = Some s'"
  shows "sg_inv s'"
proof (cases e)
  case (CallSend m)
  then show ?thesis
    using sg_inv_call[OF inv, of "SendStart m" "[m]" "[]"] step by (simp add: waits_def)
next
  case CallClose
  then show ?thesis
    using sg_inv_call[OF inv, of CloseStream "[]" "[length (sg_tasks s)]"] step by (simp add: waits_def)
next
  case CallRestart
  then show ?thesis
    using sg_inv_call[OF inv, of RestartClose "[]" "[length (sg_tasks s)]"] step by (simp add: waits_def)
next
  case CallSetReconnected
  then show ?thesis
    using sg_inv_call[OF inv, of SetReconnected "[]" "[]"] step by (simp add: waits_def)
next
  case (TaskStep i ans)
  then show ?thesis
    using sg_inv_step[OF inv] step by (auto split: if_splits)
next
  case (ReadEnds n)
  then show ?thesis
    using sg_inv_ends[OF inv, of n] step by (auto split: if_splits)
next
  case (WriteEnds n)
  then show ?thesis
    using sg_inv_ends[OF inv, of n] step by (auto split: if_splits)
next
  case (ReadPanics n)
  then show ?thesis
    using sg_inv_ends[OF inv, of n] step by (auto split: if_splits)
qed

lemma sg_inv_new: "sg_inv (signal_client_new :: 'a sg_state)"
  by (auto simp: sg_inv_def signal_client_new_def sg_locks_ok_def sg_stream_ok_def sg_left_ok_def sg_accounted_def sg_kinds_ok_def
      sg_ledger_def sg_in_tasks_def)

interpretation sgm: enabled_machine sg_apply signal_client_new sg_inv
  by unfold_locales (rule sg_inv_new, rule sg_inv_app)
section \<open>A deadlock\<close>

text \<open>
  Task \<open>i\<close> holds a read guard of the stream and wants the queue; task \<open>j\<close> holds the queue and
  waits for the stream behind task \<open>k\<close>, which waits to write.
\<close>

definition sg_deadlock :: "nat \<Rightarrow> nat \<Rightarrow> nat \<Rightarrow> 'm sg_pc \<Rightarrow> 'm sg_pc \<Rightarrow> 'm sg_pc \<Rightarrow> 'm signal_client \<Rightarrow> bool" where
  "sg_deadlock i j k pi pj pk s \<longleftrightarrow>
     i < length (sg_tasks s) \<and> j < length (sg_tasks s) \<and> k < length (sg_tasks s) \<and> j \<noteq> k
     \<and> sg_tasks s ! i = pi \<and> sg_tasks s ! j = pj \<and> sg_tasks s ! k = pk
     \<and> (\<exists>m. pi = Requeue m) \<and> (\<exists>mo. pj = FlushStream mo) \<and> wants_write pk
     \<and> (\<exists>ws. sg_waiters s = k # ws)"

lemma wants_write_blocked:
  "wants_write pc \<Longrightarrow> \<not> stream_granted k s \<Longrightarrow> sg_step ans k pc s = None"
  by (cases pc) auto

lemma sg_deadlock_blocked:
  assumes "sg_deadlock i j k pi pj pk s" "sg_apply (TaskStep l ans) s = Some s'"
  shows "l \<notin> {i, j, k}" "\<not> stream_granted l s"
proof -
  obtain m mo ws where d: "i < length (sg_tasks s)" "j < length (sg_tasks s)" "k < length (sg_tasks s)"
      "j \<noteq> k" "sg_tasks s ! i = Requeue m" "sg_tasks s ! j = FlushStream mo" "wants_write (sg_tasks s ! k)"
      "sg_waiters s = k # ws"
    using assms(1) by (auto simp: sg_deadlock_def)
  have read: "list_ex holds_read (sg_tasks s)" and queue: "\<not> queue_free s"
    using d by (auto simp: list_ex_length queue_free_def)
  have not_granted: "\<not> stream_granted a s" for a
    using d read by (auto simp: stream_granted_def)
  then show "\<not> stream_granted l s" .
  have "sg_step ans i (sg_tasks s ! i) s = None" "sg_step ans j (sg_tasks s ! j) s = None"
    using d(5,6) queue not_granted by simp_all
  moreover have "sg_step ans k (sg_tasks s ! k) s = None"
    using d(7) not_granted by (rule wants_write_blocked)
  ultimately show "l \<notin> {i, j, k}"
    using assms(2) by (auto split: if_splits)
qed

lemma sg_deadlock_app:
  assumes "sg_deadlock i j k pi pj pk s" "sg_apply e s = Some s'"
  shows "sg_deadlock i j k pi pj pk s'"
proof (cases e)
  case (TaskStep l ans)
  note blocked = sg_deadlock_blocked[OF assms(1) assms(2)[unfolded TaskStep]]
  have step: "sg_step ans l (sg_tasks s ! l) s = Some s'" "l < length (sg_tasks s)"
    using assms(2) TaskStep by (auto split: if_splits)
  have "\<not> waits (sg_tasks s ! l)"
    using sg_step_locks(3)[OF step] blocked by blast
  moreover obtain pc where "sg_tasks s' = (sg_tasks s)[l := pc]"
    using sg_step_locks(1)[OF step] by blast
  ultimately show ?thesis
    using sg_step_locks(2)[OF step] assms(1) blocked by (auto simp: sg_deadlock_def)
qed (use assms in \<open>auto simp: sg_deadlock_def nth_append split: if_splits\<close>)

lemmas sg_run_reachable = run_enabled_reachable [of sg_apply signal_client_new]
lemmas sg_initial = reachable_start [of sg_apply signal_client_new]

text \<open>
  Two sends find the stream dead; the first has put its message back when the second asks for
  the queue, and in between the client is closed and a third message sent.
\<close>

definition deadlock_trace :: "'a \<Rightarrow> 'a signal_request sg_event list" where
  "deadlock_trace a =
     [ReadEnds 0, WriteEnds 0, CallSend (Mute a), CallSend (Mute a), TaskStep 0 Succeeds, TaskStep 0 Succeeds,
      TaskStep 1 Succeeds, TaskStep 1 Succeeds, TaskStep 0 Succeeds, TaskStep 1 Succeeds,
      TaskStep 0 Succeeds, TaskStep 0 Succeeds, TaskStep 1 Succeeds, CallClose, CallSend (Mute a),
      TaskStep 3 Succeeds, TaskStep 3 Succeeds]"

lemma deadlock_trace_run:
  obtains s where "run_enabled sg_apply (deadlock_trace a) signal_client_new = Some s"
    "sg_deadlock 1 3 2 (Requeue (Mute a)) (FlushStream (Some (Mute a))) CloseStream s"
    "sg_tasks s = [Finished, Requeue (Mute a), CloseStream, FlushStream (Some (Mute a))]"
proof -
  obtain s where s: "run_enabled sg_apply (deadlock_trace a) signal_client_new = Some s"
    "sg_tasks s = [Finished, Requeue (Mute a), CloseStream, FlushStream (Some (Mute a))]"
    "sg_waiters s = [2, 3]"
    by (simp add: deadlock_trace_def signal_client_new_def sg_update_defs queue_free_def
        stream_granted_def numeral_eq_Suc)
  then show ?thesis
    by (intro that) (auto simp: sg_deadlock_def numeral_eq_Suc)
qed
section \<open>An undisturbed client\<close>

text \<open>No task is left, and the stream is there.\<close>

definition sg_quiet :: "nat \<Rightarrow> 'm signal_client \<Rightarrow> bool" where
  "sg_quiet n s \<longleftrightarrow>
     list_all (\<lambda>pc. pc = Finished) (sg_tasks s) \<and> sg_waiters s = [] \<and> sg_stream s = Some n
     \<and> n < length (sg_alive s) \<and> sg_alive s ! n"

definition own_steps :: "nat \<Rightarrow> nat \<Rightarrow> 'm sg_event list" where
  "own_steps i k = replicate k (TaskStep i Succeeds)"

lemma own_steps_Suc [simp]: "own_steps i (Suc k) = TaskStep i Succeeds # own_steps i k"
  by (simp add: own_steps_def)

lemma own_steps_0 [simp]: "own_steps i 0 = []"
  by (simp add: own_steps_def)

lemma quiet_locks:
  "list_all (\<lambda>pc. pc = Finished) ts \<Longrightarrow>
     \<not> list_ex holds_queue ts \<and> \<not> list_ex holds_read ts \<and> \<not> list_ex holds_write ts"
  by (auto simp: list_all_iff list_ex_iff)

text \<open>The writes of a flush.\<close>

lemma flushing_run:
  assumes "i < length (sg_tasks s)" "sg_tasks s ! i = Flushing mo n ms" "n < length (sg_alive s)"
    "sg_alive s ! n"
  shows "run_enabled sg_apply (own_steps i (length ms)) s =
    Some (s\<lparr>sg_tasks := (sg_tasks s)[i := Flushing mo n []], sg_wire := sg_wire s @ map (Pair n) ms\<rparr>)"
  using assms
proof (induction ms arbitrary: s)
  case Nil
  then have "(sg_tasks s)[i := Flushing mo n []] = sg_tasks s"
    by (metis list_update_id)
  then show ?case
    by simp
next
  case (Cons m ms)
  let ?s1 = "s\<lparr>sg_wire := sg_wire s @ [(n, m)], sg_tasks := (sg_tasks s)[i := Flushing mo n ms]\<rparr>"
  have "sg_apply (TaskStep i Succeeds) s = Some ?s1"
    using Cons.prems by (simp add: stream_send_def sg_goto_def)
  moreover have "run_enabled sg_apply (own_steps i (length ms)) ?s1 =
    Some (?s1\<lparr>sg_tasks := (sg_tasks ?s1)[i := Flushing mo n []], sg_wire := sg_wire ?s1 @ map (Pair n) ms\<rparr>)"
    by (rule Cons.IH) (use Cons.prems in simp_all)
  ultimately show ?case
    by simp
qed

text \<open>A whole flush by the newest task, up to its last step.\<close>

lemma flush_run:
  assumes q: "list_all (\<lambda>pc. pc = Finished) ts" "n < length (sg_alive s)" "sg_alive s ! n"
      "sg_stream s = Some n" "sg_waiters s = []" "sg_tasks s = ts @ [FlushLock mo]"
  shows "\<exists>k. run_enabled sg_apply (own_steps (length ts) k) s =
    Some (after_flush (length ts) mo
      (s\<lparr>sg_tasks := ts @ [if sg_queue s = [] then FlushLock mo else Flushing mo n []],
         sg_queue := [], sg_wire := sg_wire s @ map (Pair n) (sg_queue s)\<rparr>))"
proof (cases "sg_queue s")
  case Nil
  have "run_enabled sg_apply (own_steps (length ts) 1) s = Some (after_flush (length ts) mo s)"
    using q quiet_locks[of ts] Nil by (simp add: queue_free_def)
  moreover have "s = s\<lparr>sg_tasks := ts @ [FlushLock mo], sg_queue := [], sg_wire := sg_wire s\<rparr>"
    using q Nil by simp
  ultimately show ?thesis
    using Nil by (metis append_Nil2 list.map_disc_iff)
next
  case (Cons m ms)
  let ?i = "length ts"
  let ?s1 = "s\<lparr>sg_tasks := ts @ [FlushStream mo], sg_waiters := [?i]\<rparr>"
  let ?s2 = "s\<lparr>sg_tasks := ts @ [Flushing mo n (sg_queue s)], sg_waiters := [], sg_queue := []\<rparr>"
  let ?s3 = "?s2\<lparr>sg_tasks := (sg_tasks ?s2)[?i := Flushing mo n []], sg_wire := sg_wire ?s2 @ map (Pair n) (sg_queue s)\<rparr>"
  have "run_enabled sg_apply (own_steps ?i 2) s = Some ?s2"
    using q quiet_locks[of ts] Cons
    by (simp add: queue_free_def await_stream_def sg_goto_def stream_granted_def stream_taken_def numeral_2_eq_2)
  moreover have "run_enabled sg_apply (own_steps ?i (length (sg_queue s))) ?s2 = Some ?s3"
    by (rule flushing_run) (use q in simp_all)
  moreover have "run_enabled sg_apply (own_steps ?i 1) ?s3 = Some (after_flush ?i mo ?s3)"
    by simp
  ultimately have "run_enabled sg_apply (own_steps ?i 2 @ own_steps ?i (length (sg_queue s)) @ own_steps ?i 1) s
      = Some (after_flush ?i mo ?s3)"
    by (simp only: run_enabled_append option.case)
  moreover have "own_steps ?i 2 @ own_steps ?i (length (sg_queue s)) @ own_steps ?i 1
      = (own_steps ?i (2 + length (sg_queue s) + 1) :: 'a signal_request sg_event list)"
    by (simp only: own_steps_def replicate_add[symmetric] add.assoc)
  moreover have "?s3 = s\<lparr>sg_tasks := ts @ [if sg_queue s = [] then FlushLock mo else Flushing mo n []],
         sg_queue := [], sg_wire := sg_wire s @ map (Pair n) (sg_queue s)\<rparr>"
    using q Cons by simp
  ultimately show ?thesis
    by (metis (no_types, lifting))
qed
lemma own_steps_more: "own_steps i k @ own_steps i l = own_steps i (k + l)"
  by (simp add: own_steps_def replicate_add)

section \<open>Properties\<close>

text \<open>
  C3: No message disappears.  In every reachable state each message that was handed to \<open>send\<close> has been written once, is in the
  queue, is held by one task, or was given up; the queue only holds messages that may wait, a message that may not wait is
  given up when there is no stream or when its write task has ended, a message of the queue only when the flush of it
  failed.
\<close>

theorem signal_messages_conserved:
  assumes "sg_reachable s"
  shows "mset (sg_sent s) =
      mset (map snd (sg_wire s)) + mset (sg_queue s) + sg_in_tasks s + mset (map fst (sg_lost s))
    \<and> (\<forall>m\<in>set (sg_queue s). \<not> is_pass_through m)
    \<and> (\<forall>x\<in>set (sg_lost s). lost_as_meant x)"
  using sgm.reachable_inv [OF assms] by (auto simp: sg_inv_def sg_kinds_ok_def sg_ledger_def)

text \<open>A message written, one given up and one in the queue.\<close>

definition busy_trace :: "nat signal_request sg_event list" where
  "busy_trace = CallSend (Mute 1) # own_steps 0 4 @ [ReadEnds 0, WriteEnds 0, CallSend (Trickle 2)] @ own_steps 1 4
     @ CallSend (Mute 3) # own_steps 2 5"

theorem signal_messages_conserved_witness:
  "\<exists>s. run_enabled sg_apply busy_trace signal_client_new = Some s
     \<and> sg_wire s = [(0, Mute 1)] \<and> sg_lost s = [(Trickle 2, SendFailed)] \<and> sg_queue s = [Mute 3]
     \<and> mset (sg_sent s) = {#Mute 1, Trickle 2, Mute 3#}"
proof -
  obtain s where s: "run_enabled sg_apply busy_trace signal_client_new = Some s"
    "sg_wire s = [(0, Mute 1)]" "sg_lost s = [(Trickle 2, SendFailed)]" "sg_queue s = [Mute 3]" "sg_in_tasks s = {#}"
    by (simp add: busy_trace_def signal_client_new_def sg_update_defs queue_free_def stream_granted_def
        own_steps_def sg_in_tasks_def numeral_eq_Suc)
  then show ?thesis
    using signal_messages_conserved [OF sg_run_reachable [OF sg_initial s(1)]] by (auto simp: add_mset_commute)
qed

text \<open>
  C4: One stream at a time.  In every reachable state the only streams that can be open are the one in the slot, one that a
  task is closing, one that a restart has connected and waits for the server's answer on, and those that were left because that answer
  failed: nobody closes those, but they never get into the slot and nothing is ever written to them.  Every task that writes
  writes to the stream in the slot, a task that closes or reconnects is alone with the
  stream lock while the slot is empty, at most one task holds the queue, and what has been written is ordered by the
  connection: nothing goes to an old connection once a newer one has been used.
\<close>

theorem signal_stream_exclusive:
  assumes "sg_reachable s" and "i < length (sg_tasks s)"
  shows "(\<forall>n<length (sg_alive s). sg_open s n \<longrightarrow>
        sg_stream s = Some n \<or> (\<exists>cl. Closing cl n \<in> set (sg_tasks s)) \<or> RestartAwaiting n \<in> set (sg_tasks s) \<or> n \<in> set (sg_left s))
    \<and> (\<forall>n\<in>set (sg_left s). sg_stream s \<noteq> Some n \<and> n \<notin> fst ` set (sg_wire s))
    \<and> (\<forall>n. stream_used (sg_tasks s ! i) = Some n \<longrightarrow> sg_stream s = Some n)
    \<and> (holds_write (sg_tasks s ! i) \<longrightarrow> sg_stream s = None
        \<and> (\<forall>j<length (sg_tasks s). j \<noteq> i \<longrightarrow> \<not> holds_read (sg_tasks s ! j) \<and> \<not> holds_write (sg_tasks s ! j)))
    \<and> (holds_queue (sg_tasks s ! i) \<longrightarrow> (\<forall>j<length (sg_tasks s). j \<noteq> i \<longrightarrow> \<not> holds_queue (sg_tasks s ! j)))
    \<and> sorted (map fst (sg_wire s))"
proof -
  have inv: "sg_locks_ok s" "sg_stream_ok s" "sg_left_ok s"
    using sgm.reachable_inv [OF assms(1)] by (simp_all add: sg_inv_def)
  have i: "sg_tasks s ! i \<in> set (sg_tasks s)"
    using assms(2) by simp
  have one: "j = i" if "j < length (sg_tasks s)" "holds_queue (sg_tasks s ! i) \<and> holds_queue (sg_tasks s ! j)
      \<or> holds_write (sg_tasks s ! i) \<and> (holds_write (sg_tasks s ! j) \<or> holds_read (sg_tasks s ! j))" for j
    using inv(1) assms(2) that unfolding sg_locks_ok_def by blast
  have "\<forall>n<length (sg_alive s). sg_open s n \<longrightarrow> sg_accounted s n"
    "sorted (map fst (sg_wire s))" "\<forall>n. stream_used (sg_tasks s ! i) = Some n \<longrightarrow> sg_stream s = Some n"
    "holds_write (sg_tasks s ! i) \<longrightarrow> sg_stream s = None"
    using inv(2) i unfolding sg_stream_ok_def by blast+
  moreover have "\<forall>n\<in>set (sg_left s). sg_stream s \<noteq> Some n \<and> n \<notin> fst ` set (sg_wire s)"
    using inv(3) unfolding sg_left_ok_def by blast
  ultimately show ?thesis
    using one unfolding sg_accounted_def by simp blast
qed

text \<open>
  A restart whose answer from the server fails, and a second one that succeeds: the first stream stays open beside the one in the slot.
\<close>

definition leak_trace :: "nat signal_request sg_event list" where
  "leak_trace = ReadEnds 0 # CallRestart # own_steps 0 5 @ [TaskStep 0 Fails, TaskStep 0 Succeeds] @
     CallRestart # own_steps 1 5 @ CallSend (Offer 7) # own_steps 2 3"

theorem signal_stream_exclusive_witness:
  "\<exists>s. run_enabled sg_apply leak_trace signal_client_new = Some s
     \<and> sg_stream s = Some 2 \<and> sg_open s 1 \<and> sg_left s = [1] \<and> sg_wire s = [(2, Offer 7)] \<and> 1 \<notin> fst ` set (sg_wire s)"
proof -
  obtain s where s: "run_enabled sg_apply leak_trace signal_client_new = Some s"
    "sg_stream s = Some 2" "sg_open s 1" "sg_left s = [1]" "sg_wire s = [(2, Offer 7)]" "0 < length (sg_tasks s)"
    by (simp add: leak_trace_def signal_client_new_def sg_update_defs queue_free_def stream_granted_def
        own_steps_def sg_open_def numeral_eq_Suc)
  have "\<forall>n\<in>set (sg_left s). sg_stream s \<noteq> Some n \<and> n \<notin> fst ` set (sg_wire s)"
    using signal_stream_exclusive [OF sg_run_reachable [OF sg_initial s(1)] s(6)] by blast
  then show ?thesis
    using s by simp
qed

text \<open>
  C5: The client can deadlock.  There is a reachable state in which a send holds a read guard of the stream and waits for the
  queue, another send holds the queue and waits for a read guard, and a \<open>close\<close> waits for the write lock before it; in
  whatever way the client runs on, and whatever is called, these three tasks never take a step again.
\<close>

theorem signal_client_can_deadlock:
  "\<exists>s. sg_reachable s
     \<and> sg_tasks s = [Finished, Requeue (Mute a), CloseStream, FlushStream (Some (Mute a))]
     \<and> (\<forall>es s'. run_enabled sg_apply es s = Some s' \<longrightarrow>
          (\<forall>i\<in>{1, 2, 3}. sg_tasks s' ! i = sg_tasks s ! i))"
proof -
  let ?dead = "sg_deadlock 1 3 2 (Requeue (Mute a)) (FlushStream (Some (Mute a))) CloseStream"
  obtain s where s: "run_enabled sg_apply (deadlock_trace a) signal_client_new = Some s" "?dead s"
    "sg_tasks s = [Finished, Requeue (Mute a), CloseStream, FlushStream (Some (Mute a))]"
    by (rule deadlock_trace_run)
  have same: "sg_tasks s' ! i = sg_tasks s ! i" if "i \<in> {1, 2, 3}" "?dead s'" for s' i
    using that s(2) unfolding sg_deadlock_def by (elim insertE) simp_all
  have "?dead s'" if "run_enabled sg_apply es s = Some s'" for es s'
    using run_enabled_inv [OF that, of ?dead] s(2) sg_deadlock_app by blast
  then have "\<forall>es s'. run_enabled sg_apply es s = Some s' \<longrightarrow> (\<forall>i\<in>{1, 2, 3}. sg_tasks s' ! i = sg_tasks s ! i)"
    using same by blast
  then show ?thesis
    using s(3) sg_run_reachable [OF sg_initial s(1)] by blast
qed

text \<open>A restart that is called afterwards waits too.\<close>

theorem signal_client_can_deadlock_witness:
  "\<exists>s s'. sg_reachable s \<and> run_enabled sg_apply [CallRestart] s = Some s'
     \<and> sg_tasks s' ! 2 = CloseStream \<and> (sg_tasks s' ! 3 :: nat signal_request sg_pc) = FlushStream (Some (Mute 0))"
proof -
  obtain s :: "nat sg_state" where s: "sg_reachable s"
    "sg_tasks s = [Finished, Requeue (Mute 0), CloseStream, FlushStream (Some (Mute 0))]"
    "\<forall>es s'. run_enabled sg_apply es s = Some s' \<longrightarrow> (\<forall>i\<in>{1, 2, 3}. sg_tasks s' ! i = sg_tasks s ! i)"
    using signal_client_can_deadlock [of 0] by blast
  obtain s' where "run_enabled sg_apply [CallRestart] s = Some s'"
    by simp
  then show ?thesis
    using s by fastforce
qed

lemma send_stream_run:
  assumes "i < length (sg_tasks s)" "sg_tasks s ! i = SendStream m" "sg_waiters s = [i]"
    "sg_stream s = Some n" "n < length (sg_alive s)" "sg_alive s ! n" "\<not> list_ex holds_write (sg_tasks s)"
  shows "run_enabled sg_apply (own_steps i 2) s =
    Some (s\<lparr>sg_tasks := (sg_tasks s)[i := Finished], sg_waiters := [], sg_wire := sg_wire s @ [(n, m)]\<rparr>)"
  using assms by (simp add: numeral_2_eq_2 stream_granted_def stream_taken_def sg_goto_def stream_send_def)

definition sg_flushed :: "nat \<Rightarrow> 'm signal_client \<Rightarrow> 'm signal_client" where
  "sg_flushed n s = s\<lparr>sg_queue := [], sg_wire := sg_wire s @ map (Pair n) (sg_queue s)\<rparr>"

text \<open>A call as a task of its own, up to its end.\<close>

definition sg_call_result ::
  "'a signal_request sg_event \<Rightarrow> 'a sg_state \<Rightarrow> 'a sg_state \<Rightarrow> bool" where
  "sg_call_result call s s' \<longleftrightarrow>
     (\<exists>k. run_enabled sg_apply (call # own_steps (length (sg_tasks s)) k) s
          = Some (s'\<lparr>sg_tasks := sg_tasks s @ [Finished]\<rparr>))"

lemma quiet_set_reconnected:
  assumes q: "sg_quiet n s"
  shows "sg_call_result CallSetReconnected s ((sg_flushed n s)\<lparr>sg_reconnecting := False\<rparr>)"
proof -
  let ?i = "length (sg_tasks s)"
  let ?s1 = "s\<lparr>sg_tasks := sg_tasks s @ [FlushLock None], sg_reconnecting := False\<rparr>"
  have "run_enabled sg_apply (CallSetReconnected # own_steps ?i 1) s = Some ?s1"
    by (simp add: sg_goto_def)
  moreover obtain k where k: "run_enabled sg_apply (own_steps ?i k) ?s1 = Some (after_flush ?i None
      (?s1\<lparr>sg_tasks := sg_tasks s @ [if sg_queue ?s1 = [] then FlushLock None else Flushing None n []],
        sg_queue := [], sg_wire := sg_wire ?s1 @ map (Pair n) (sg_queue ?s1)\<rparr>))"
    using q flush_run [of "sg_tasks s" n ?s1 None] by (auto simp: sg_quiet_def)
  ultimately have "run_enabled sg_apply ((CallSetReconnected # own_steps ?i 1) @ own_steps ?i k) s =
      Some ((sg_flushed n s)\<lparr>sg_tasks := sg_tasks s @ [Finished], sg_reconnecting := False\<rparr>)"
    by (simp add: run_enabled_append after_flush_def sg_goto_def sg_flushed_def del: own_steps_Suc)
  then show ?thesis
    unfolding sg_call_result_def by (auto simp: own_steps_more intro!: exI [of _ "Suc k"])
qed

lemma quiet_send:
  assumes q: "sg_quiet n s" and r: "\<not> sg_reconnecting s"
  shows "sg_call_result (CallSend m) s
    ((sg_flushed n s)\<lparr>sg_sent := sg_sent s @ [m], sg_wire := sg_wire (sg_flushed n s) @ [(n, m)]\<rparr>)"
proof -
  let ?i = "length (sg_tasks s)"
  let ?s1 = "s\<lparr>sg_tasks := sg_tasks s @ [FlushLock (Some m)], sg_sent := sg_sent s @ [m]\<rparr>"
  let ?s2 = "(sg_flushed n s)\<lparr>sg_tasks := sg_tasks s @ [SendStream m], sg_sent := sg_sent s @ [m], sg_waiters := [?i]\<rparr>"
  have first: "run_enabled sg_apply (CallSend m # own_steps ?i 1) s = Some ?s1"
    using r by (simp add: sg_goto_def)
  obtain k where "run_enabled sg_apply (own_steps ?i k) ?s1 = Some (after_flush ?i (Some m)
      (?s1\<lparr>sg_tasks := sg_tasks s @ [if sg_queue ?s1 = [] then FlushLock (Some m) else Flushing (Some m) n []],
        sg_queue := [], sg_wire := sg_wire ?s1 @ map (Pair n) (sg_queue ?s1)\<rparr>))"
    using q flush_run [of "sg_tasks s" n ?s1 "Some m"] by (auto simp: sg_quiet_def)
  then have flush: "run_enabled sg_apply (own_steps ?i k) ?s1 = Some ?s2"
    using q by (simp add: after_flush_def await_stream_def sg_goto_def sg_flushed_def sg_quiet_def)
  have "run_enabled sg_apply (own_steps ?i 2) ?s2 =
    Some (?s2\<lparr>sg_tasks := (sg_tasks ?s2)[?i := Finished], sg_waiters := [], sg_wire := sg_wire ?s2 @ [(n, m)]\<rparr>)"
    by (rule send_stream_run)
      (use q quiet_locks [of "sg_tasks s"] in \<open>simp_all add: sg_quiet_def sg_flushed_def\<close>)
  with first flush have "run_enabled sg_apply ((CallSend m # own_steps ?i 1) @ own_steps ?i k @ own_steps ?i 2) s =
      Some (?s2\<lparr>sg_tasks := (sg_tasks ?s2)[?i := Finished], sg_waiters := [], sg_wire := sg_wire ?s2 @ [(n, m)]\<rparr>)"
    by (simp only: run_enabled_append option.case)
  moreover have "?s2\<lparr>sg_tasks := (sg_tasks ?s2)[?i := Finished], sg_waiters := [], sg_wire := sg_wire ?s2 @ [(n, m)]\<rparr>
      = ((sg_flushed n s)\<lparr>sg_sent := sg_sent s @ [m], sg_wire := sg_wire (sg_flushed n s) @ [(n, m)]\<rparr>)
          \<lparr>sg_tasks := sg_tasks s @ [Finished]\<rparr>"
    using q by (simp add: sg_flushed_def sg_quiet_def)
  moreover have "(CallSend m # own_steps ?i 1) @ own_steps ?i k @ own_steps ?i 2 = CallSend m # own_steps ?i (1 + (k + 2))"
    by (simp only: own_steps_more append_Cons)
  ultimately show ?thesis
    unfolding sg_call_result_def by metis
qed

lemma quiet_send_reconnecting:
  assumes q: "sg_quiet n s" and r: "sg_reconnecting s"
  shows "sg_call_result (CallSend m) s (s\<lparr>sg_sent := sg_sent s @ [m],
      sg_queue := sg_queue s @ (if is_pass_through m then [] else [m]),
      sg_wire := sg_wire s @ (if is_pass_through m then [(n, m)] else [])\<rparr>)"
proof (cases "is_pass_through m")
  case True
  let ?i = "length (sg_tasks s)"
  let ?s1 = "s\<lparr>sg_tasks := sg_tasks s @ [SendStream m], sg_sent := sg_sent s @ [m], sg_waiters := [?i]\<rparr>"
  have first: "run_enabled sg_apply (CallSend m # own_steps ?i 1) s = Some ?s1"
    using q r True by (simp add: await_stream_def sg_goto_def sg_quiet_def)
  have "run_enabled sg_apply (own_steps ?i 2) ?s1 =
    Some (?s1\<lparr>sg_tasks := (sg_tasks ?s1)[?i := Finished], sg_waiters := [], sg_wire := sg_wire ?s1 @ [(n, m)]\<rparr>)"
    by (rule send_stream_run) (use q quiet_locks [of "sg_tasks s"] in \<open>simp_all add: sg_quiet_def\<close>)
  with first have "run_enabled sg_apply ((CallSend m # own_steps ?i 1) @ own_steps ?i 2) s =
    Some (?s1\<lparr>sg_tasks := (sg_tasks ?s1)[?i := Finished], sg_waiters := [], sg_wire := sg_wire ?s1 @ [(n, m)]\<rparr>)"
    by (simp only: run_enabled_append option.case)
  then have "run_enabled sg_apply (CallSend m # own_steps ?i (1 + 2)) s =
    Some (?s1\<lparr>sg_tasks := (sg_tasks ?s1)[?i := Finished], sg_waiters := [], sg_wire := sg_wire ?s1 @ [(n, m)]\<rparr>)"
    by (simp only: own_steps_more append_Cons)
  moreover have "?s1\<lparr>sg_tasks := (sg_tasks ?s1)[?i := Finished], sg_waiters := [], sg_wire := sg_wire ?s1 @ [(n, m)]\<rparr>
      = (s\<lparr>sg_sent := sg_sent s @ [m], sg_queue := sg_queue s @ (if is_pass_through m then [] else [m]),
      sg_wire := sg_wire s @ (if is_pass_through m then [(n, m)] else [])\<rparr>)\<lparr>sg_tasks := sg_tasks s @ [Finished]\<rparr>"
    using q True by (simp add: sg_quiet_def)
  ultimately show ?thesis
    unfolding sg_call_result_def by metis
next
  case False
  have "run_enabled sg_apply (CallSend m # own_steps (length (sg_tasks s)) 2) s =
    Some ((s\<lparr>sg_sent := sg_sent s @ [m], sg_queue := sg_queue s @ (if is_pass_through m then [] else [m]),
      sg_wire := sg_wire s @ (if is_pass_through m then [(n, m)] else [])\<rparr>)\<lparr>sg_tasks := sg_tasks s @ [Finished]\<rparr>)"
    using q r False quiet_locks [of "sg_tasks s"]
    by (simp add: numeral_2_eq_2 sg_goto_def sg_quiet_def queue_free_def push_queue_def)
  then show ?thesis
    unfolding sg_call_result_def by blast
qed

text \<open>
  What an undisturbed client does.  When no other task runs and the connection works, \<open>set_reconnected\<close> clears the flag and
  writes the queue in its order; a send outside a reconnect writes the queue in its order and then its message; during a
  reconnect a message that may wait joins the end of the queue, and one that may not wait is written while the queue
  stays.  Each of these calls returns.
\<close>

theorem undisturbed_signal_calls:
  assumes "sg_quiet n s"
  shows "sg_call_result CallSetReconnected s (s\<lparr>sg_queue := [],
        sg_wire := sg_wire s @ map (Pair n) (sg_queue s), sg_reconnecting := False\<rparr>)
    \<and> (\<not> sg_reconnecting s \<longrightarrow> sg_call_result (CallSend m) s (s\<lparr>sg_queue := [], sg_sent := sg_sent s @ [m],
        sg_wire := sg_wire s @ map (Pair n) (sg_queue s) @ [(n, m)]\<rparr>))
    \<and> (sg_reconnecting s \<longrightarrow> sg_call_result (CallSend m) s (s\<lparr>sg_sent := sg_sent s @ [m],
        sg_queue := sg_queue s @ (if is_pass_through m then [] else [m]),
        sg_wire := sg_wire s @ (if is_pass_through m then [(n, m)] else [])\<rparr>))"
  using quiet_set_reconnected [OF assms] quiet_send [OF assms, of m] quiet_send_reconnecting [OF assms, of m]
  by (simp add: sg_flushed_def)

text \<open>Two queued messages and a new one.\<close>

definition quiet_client :: "bool \<Rightarrow> nat sg_state" where
  "quiet_client r = signal_client_new\<lparr>sg_reconnecting := r, sg_queue := [Mute 1, AddTrack 2]\<rparr>"

theorem undisturbed_signal_calls_witness:
  "sg_call_result (CallSend (Mute 3)) (quiet_client False)
     ((quiet_client False)\<lparr>sg_queue := [], sg_sent := [Mute 3], sg_wire := [(0, Mute 1), (0, AddTrack 2), (0, Mute 3)]\<rparr>)
   \<and> sg_call_result (CallSend (Mute 3)) (quiet_client True)
     ((quiet_client True)\<lparr>sg_sent := [Mute 3], sg_queue := [Mute 1, AddTrack 2, Mute 3]\<rparr>)"
proof -
  have q: "sg_quiet 0 (quiet_client r)" for r
    by (simp add: quiet_client_def signal_client_new_def sg_quiet_def)
  show ?thesis
    using undisturbed_signal_calls [OF q [of False], of "Mute 3"] undisturbed_signal_calls [OF q [of True], of "Mute 3"]
    by (simp add: quiet_client_def signal_client_new_def)
qed
section \<open>A connection that the peer does not end\<close>

lemma sg_step_reading:
  assumes "sg_step ans i pc s = Some s'"
  shows "sg_reading s' = sg_reading s \<or> sg_reading s' = sg_reading s @ [True]"
  using assms
  by (cases "(ans, i, pc, s)" rule: sg_step.cases;
      auto simp: sg_update_defs Let_def split: if_splits option.splits sg_answer.splits)

definition sg_closing :: "nat \<Rightarrow> closer \<Rightarrow> nat \<Rightarrow> (nat \<times> 'a signal_request) list \<Rightarrow> 'a sg_state \<Rightarrow> bool" where
  "sg_closing i cl n w s \<longleftrightarrow> sg_inv s \<and> i < length (sg_tasks s) \<and> sg_tasks s ! i = Closing cl n
     \<and> n < length (sg_reading s) \<and> sg_reading s ! n \<and> sg_wire s = w"

lemma sg_closing_app:
  assumes c: "sg_closing i cl n w s" and step: "sg_apply e s = Some s'" and e: "e \<notin> {ReadEnds n, ReadPanics n}"
  shows "sg_closing i cl n w s'"
proof (cases e)
  case (TaskStep l ans)
  have l: "sg_step ans l (sg_tasks s ! l) s = Some s'" "l < length (sg_tasks s)"
    using step TaskStep by (auto split: if_splits)
  have i: "i < length (sg_tasks s)" "sg_tasks s ! i = Closing cl n" "sg_locks_ok s"
    using c by (auto simp: sg_closing_def sg_inv_def)
  have "l \<noteq> i"
    using l(1) c by (auto simp: sg_closing_def split: if_splits)
  then have "\<not> holds_read (sg_tasks s ! l)"
    using i l(2) unfolding sg_locks_ok_def by (metis holds_write.simps(1))
  then have "sg_wire s' = sg_wire s"
    using sg_step_wire [OF l(1)] stream_used_holds by blast
  moreover obtain pc where "sg_tasks s' = (sg_tasks s)[l := pc]"
    using sg_step_locks(1) [OF l] by blast
  moreover have "sg_inv s'"
    using c step sg_inv_app by (auto simp: sg_closing_def)
  ultimately show ?thesis
    using c \<open>l \<noteq> i\<close> sg_step_reading [OF l(1)] by (auto simp: sg_closing_def nth_append)
qed (use c step e sg_inv_app [OF _ step] in \<open>auto simp: sg_closing_def nth_append split: if_splits\<close>)

lemma sg_closing_run:
  "run_enabled sg_apply es s = Some s' \<Longrightarrow> sg_closing i cl n w s \<Longrightarrow> ReadEnds n \<notin> set es \<Longrightarrow> ReadPanics n \<notin> set es \<Longrightarrow> sg_closing i cl n w s'"
proof (induction es arbitrary: s)
  case (Cons e es)
  obtain s1 where s1: "sg_apply e s = Some s1" "run_enabled sg_apply es s1 = Some s'"
    using Cons.prems(1) by (rule run_enabled_ConsE)
  have "sg_closing i cl n w s1"
    by (rule sg_closing_app [OF Cons.prems(2) s1(1)]) (use Cons.prems(3,4) in auto)
  moreover have "ReadEnds n \<notin> set es" "ReadPanics n \<notin> set es"
    using Cons.prems(3,4) by simp_all
  ultimately show ?case
    by (rule Cons.IH [OF s1(2)])
qed simp

text \<open>
  Closing waits for the peer.  While a task closes a stream whose read task runs on, the task stays where it is, the slot
  stays empty and nothing is written by any other task, whatever steps the client takes and whatever is called, until the
  read task ends, which only the peer or a failure of the transport brings about.
\<close>

theorem close_waits_for_the_peer:
  assumes "sg_reachable s" and "i < length (sg_tasks s)" and "sg_tasks s ! i = Closing cl n"
    and "n < length (sg_reading s)" and "sg_reading s ! n"
    and "run_enabled sg_apply es s = Some s'" and "ReadEnds n \<notin> set es" and "ReadPanics n \<notin> set es"
  shows "sg_tasks s' ! i = Closing cl n \<and> sg_stream s' = None \<and> sg_wire s' = sg_wire s"
proof -
  have "sg_closing i cl n (sg_wire s) s"
    using assms(2-5) sgm.reachable_inv [OF assms(1)] by (simp add: sg_closing_def)
  then have c: "sg_closing i cl n (sg_wire s) s'"
    using sg_closing_run assms(6-8) by blast
  then have "Closing cl n \<in> set (sg_tasks s')" "sg_stream_ok s'"
    using nth_mem [of i "sg_tasks s'"] by (auto simp: sg_closing_def sg_inv_def)
  then have "sg_stream s' = None"
    unfolding sg_stream_ok_def by fastforce
  then show ?thesis
    using c by (simp add: sg_closing_def)
qed

text \<open>A ping times out on a dead connection; the restart and the offer that follow wait.\<close>

theorem close_waits_for_the_peer_witness:
  "\<exists>s s'. run_enabled sg_apply [CallClose, TaskStep 0 Succeeds] signal_client_new = Some s
     \<and> run_enabled sg_apply [CallRestart, CallSend (Offer (7 :: nat)), TaskStep 2 Succeeds, TaskStep 2 Succeeds, TaskStep 2 Succeeds] s = None
     \<and> run_enabled sg_apply [CallRestart, CallSend (Offer 7), TaskStep 2 Succeeds, TaskStep 2 Succeeds] s = Some s'
     \<and> sg_tasks s' ! 0 = Closing ByClose 0 \<and> sg_stream s' = None \<and> sg_wire s' = []"
proof -
  obtain s :: "nat sg_state" where s: "run_enabled sg_apply [CallClose, TaskStep 0 Succeeds] signal_client_new = Some s"
    "s = signal_client_new\<lparr>sg_stream := None, sg_alive := [False], sg_tasks := [Closing ByClose 0]\<rparr>"
    by (simp add: signal_client_new_def sg_update_defs stream_granted_def)
  obtain s' where s': "run_enabled sg_apply [CallRestart, CallSend (Offer 7), TaskStep 2 Succeeds, TaskStep 2 Succeeds] s = Some s'"
    by (simp add: s(2) signal_client_new_def sg_update_defs queue_free_def numeral_eq_Suc)
  have "run_enabled sg_apply [CallRestart, CallSend (Offer 7), TaskStep 2 Succeeds, TaskStep 2 Succeeds, TaskStep 2 Succeeds] s = None"
    by (simp add: s(2) signal_client_new_def sg_update_defs queue_free_def stream_granted_def numeral_eq_Suc)
  moreover have "sg_tasks s' ! 0 = Closing ByClose 0 \<and> sg_stream s' = None \<and> sg_wire s' = sg_wire s"
    by (rule close_waits_for_the_peer [OF sg_run_reachable [OF sg_initial s(1)] _ _ _ _ s'])
      (simp_all add: s(2) signal_client_new_def)
  ultimately show ?thesis
    using s s' by (auto simp: signal_client_new_def)
qed
end
