(* ===== verification/LkConnect.thy ===== *)
theory LkConnect
  imports LKPrelude LKInterfaces
begin

text \<open>
  How the signal client connects (\<open>livekit-api/src/signal_client/mod.rs\<close>, \<open>region.rs\<close>): the URL
  that is dialled, the fall back from the first path to the second and to the regions, the
  request that explains a failure, the first messages, and the task that receives afterwards.
  The network, the \<open>url\<close> and \<open>http\<close> libraries and the encoding of the join request are
  parameters, collected in a record.
\<close>

section \<open>Errors and options\<close>

datatype ws_error = WsHttp nat | WsConnectionClosed | WsOther string

datatype ('reason, 'action) signal_error =
    WsError ws_error | UrlParse string | TokenFormat | ClientStatus nat string | ServerStatus nat string
  | ProtoParse | SignalTimeout | SignalSendError | RegionError string | LeaveRequest 'reason 'action

record signal_sdk_options =
  sdk_name :: string
  sdk_version :: "string option"

record signal_options =
  so_auto_subscribe :: bool
  so_adaptive_stream :: bool
  so_sdk_options :: signal_sdk_options
  so_single_peer_connection :: bool

definition signal_options_default :: signal_options where
  "signal_options_default =
     \<lparr>so_auto_subscribe = True, so_adaptive_stream = False,
      so_sdk_options = \<lparr>sdk_name = ''rust'', sdk_version = None\<rparr>, so_single_peer_connection = False\<rparr>"

datatype sdk = SdkUnknown | Js | Swift | Android | Flutter | Go | Unity | ReactNative | Rust | Python
  | Cpp | UnityWeb | Node | Unreal | Esp32

definition client_info_sdk_for_name :: "string \<Rightarrow> sdk" where
  "client_info_sdk_for_name name =
     (if name = ''js'' then Js
      else if name = ''ios'' \<or> name = ''swift'' then Swift
      else if name = ''android'' then Android
      else if name = ''flutter'' then Flutter
      else if name = ''go'' then Go
      else if name = ''unity'' then Unity
      else if name = ''reactnative'' then ReactNative
      else if name = ''rust'' then Rust
      else if name = ''python'' then Python
      else if name = ''cpp'' then Cpp
      else if name = ''unityweb'' then UnityWeb
      else if name = ''node'' then Node
      else if name = ''esp32'' then Esp32
      else SdkUnknown)"

section \<open>The network and the libraries\<close>

text \<open>A URL by its parts; \<open>url_rest\<close> is the port, the user and the fragment.\<close>

record url =
  url_scheme :: string
  url_host :: "string option"
  url_rest :: string
  url_path :: "string list"
  url_query :: "(string \<times> string) list"

text \<open>The join request, by the fields the client sets.\<close>

record join_request =
  jr_sdk :: sdk
  jr_version :: string
  jr_protocol :: i32
  jr_os :: string
  jr_os_version :: string
  jr_device_model :: string
  jr_capabilities :: "nat list"
  jr_auto_subscribe :: bool
  jr_adaptive_stream :: bool
  jr_reconnect :: bool
  jr_reconnect_reason :: i32
  jr_participant_sid :: string

text \<open>The messages of the server that the client looks into.\<close>

datatype ('join, 'rec, 'reason, 'action, 'm) signal_response =
    Join 'join | Reconnect 'rec | LeaveMsg 'reason 'action | RefreshToken string | PongResp u64
  | OtherResponse 'm

text \<open>What arrives within the time for the first message, and how it ends there.\<close>

datatype first_end = MoreToCome | StreamClosed

datatype 'resp dial_answer = Dialled "'resp list" first_end | DialFailed ws_error | DialTimeout

datatype validate_answer = ValidateStatus nat string | ValidateFailed | ValidateTimeout

datatype region_answer = RegionSendFailed string | RegionStatus nat string | RegionJsonFailed string
  | RegionUrls "string list" | RegionTimeout

text \<open>
  \<open>push\<close> is that of the path segments, \<open>header_ok\<close> says which texts a header may have; the
  answers of the network may depend on how often it has been asked.
\<close>

record 'resp signal_net =
  net_parse :: "string \<Rightarrow> (string, url) outcome"
  net_push :: "string list \<Rightarrow> string \<Rightarrow> string list"
  net_url_string :: "url \<Rightarrow> string"
  net_header_ok :: "string \<Rightarrow> bool"
  net_os :: string
  net_os_version :: string
  net_device_model :: "string option"
  net_encode :: "join_request \<Rightarrow> string"
  net_request_error :: "url \<Rightarrow> ws_error option"
  net_dial :: "nat \<Rightarrow> url \<Rightarrow> 'resp dial_answer"
  net_validate :: "nat \<Rightarrow> url \<Rightarrow> validate_answer"
  net_regions :: "nat \<Rightarrow> string \<Rightarrow> region_answer"

text \<open>The requests made, in order.\<close>

datatype signal_call = DialCall url | ValidateCall url | RegionCall string

section \<open>The URLs\<close>

definition protocol_version :: i32 where
  "protocol_version = 17"

text \<open>The capabilities by number and name.\<close>

definition client_capabilities :: "(nat \<times> string) list" where
  "client_capabilities = [(1, ''CAP_PACKET_TRAILER'')]"

fun join_names :: "string list \<Rightarrow> string" where
  "join_names [] = ''''"
| "join_names [n] = n"
| "join_names (n # ns) = n @ '','' @ join_names ns"

definition create_join_request_param ::
  "'resp signal_net \<Rightarrow> signal_options \<Rightarrow> bool \<Rightarrow> i32 option \<Rightarrow> string \<Rightarrow> string \<Rightarrow> string \<Rightarrow> string \<Rightarrow> string" where
  "create_join_request_param net options rec reason sid os os_version device_model =
     net_encode net
       \<lparr>jr_sdk = client_info_sdk_for_name (sdk_name (so_sdk_options options)),
        jr_version = (case sdk_version (so_sdk_options options) of None \<Rightarrow> '''' | Some v \<Rightarrow> v),
        jr_protocol = protocol_version, jr_os = os, jr_os_version = os_version,
        jr_device_model = device_model, jr_capabilities = map fst client_capabilities,
        jr_auto_subscribe = so_auto_subscribe options, jr_adaptive_stream = so_adaptive_stream options,
        jr_reconnect = rec, jr_reconnect_reason = (case reason of None \<Rightarrow> 0 | Some r \<Rightarrow> r),
        jr_participant_sid = (if sid \<noteq> '''' then sid else '''')\<rparr>"

definition append_pair :: "string \<Rightarrow> string \<Rightarrow> url \<Rightarrow> url" where
  "append_pair k v u = u\<lparr>url_query := url_query u @ [(k, v)]\<rparr>"

definition push_segment :: "'resp signal_net \<Rightarrow> string \<Rightarrow> url \<Rightarrow> url" where
  "push_segment net seg u = u\<lparr>url_path := net_push net (url_path u) seg\<rparr>"

text \<open>The scheme is made that of a websocket.\<close>

definition websocket_scheme :: "url \<Rightarrow> (('r, 'a) signal_error, url) outcome" where
  "websocket_scheme u =
     (if url_scheme u = ''https'' then Ok (u\<lparr>url_scheme := ''wss''\<rparr>)
      else if url_scheme u = ''http'' then Ok (u\<lparr>url_scheme := ''ws''\<rparr>)
      else if url_scheme u \<noteq> ''wss'' \<and> url_scheme u \<noteq> ''ws''
      then Err (UrlParse (''unsupported scheme: '' @ url_scheme u))
      else Ok u)"

definition bit_text :: "bool \<Rightarrow> string" where
  "bit_text b = (if b then ''1'' else ''0'')"

definition get_livekit_url ::
  "'resp signal_net \<Rightarrow> string \<Rightarrow> signal_options \<Rightarrow> bool \<Rightarrow> bool \<Rightarrow> i32 option \<Rightarrow> string
    \<Rightarrow> (('r, 'a) signal_error, url) outcome" where
  "get_livekit_url net url options use_v1 rec reason sid =
     (case net_parse net url of
        Panic \<Rightarrow> Panic
      | Err e \<Rightarrow> Err (UrlParse e)
      | Ok u \<Rightarrow>
          if url_host u = None then Err (UrlParse ''missing host or scheme'')
          else and_then (websocket_scheme u) (\<lambda>u.
            let u = push_segment net ''rtc'' u;
                u = (if use_v1 then push_segment net ''v1'' u else u);
                model = (case net_device_model net of None \<Rightarrow> '''' | Some m \<Rightarrow> m)
            in if use_v1 then
                 Ok (append_pair ''join_request''
                      (create_join_request_param net options rec reason sid (net_os net) (net_os_version net) model) u)
               else
                 let u = append_pair ''adaptive_stream'' (bit_text (so_adaptive_stream options))
                       (append_pair ''auto_subscribe'' (bit_text (so_auto_subscribe options))
                       (append_pair ''protocol'' ''17''
                       (append_pair ''device_model'' model
                       (append_pair ''os_version'' (net_os_version net)
                       (append_pair ''os'' (net_os net)
                       (append_pair ''sdk'' (sdk_name (so_sdk_options options)) u))))));
                     u = (case sdk_version (so_sdk_options options) of
                            None \<Rightarrow> u | Some v \<Rightarrow> append_pair ''version'' v u);
                     u = (if client_capabilities \<noteq> []
                          then append_pair ''capabilities'' (join_names (map snd client_capabilities)) u else u)
                 in Ok (if rec then append_pair ''sid'' sid (append_pair ''reconnect'' ''1'' u) else u)))"

definition get_validate_url :: "'resp signal_net \<Rightarrow> url \<Rightarrow> url" where
  "get_validate_url net u =
     push_segment net ''validate''
       (u\<lparr>url_scheme := (if url_scheme u = ''wss'' then ''https'' else ''http'')\<rparr>)"

definition host_ends_with :: "string \<Rightarrow> string \<Rightarrow> bool" where
  "host_ends_with suffix host \<longleftrightarrow>
     length suffix \<le> length host \<and> drop (length host - length suffix) host = suffix"

definition is_cloud_url :: "'resp signal_net \<Rightarrow> string \<Rightarrow> (('r, 'a) signal_error, bool) outcome" where
  "is_cloud_url net url =
     (case net_parse net url of
        Panic \<Rightarrow> Panic
      | Err e \<Rightarrow> Err (UrlParse e)
      | Ok u \<Rightarrow>
          (case url_host u of
             None \<Rightarrow> Err (UrlParse ''invalid hostname'')
           | Some host \<Rightarrow> Ok (host_ends_with ''.livekit.cloud'' host \<or> host_ends_with ''.livekit.run'' host)))"

definition region_endpoint :: "'resp signal_net \<Rightarrow> string \<Rightarrow> (('r, 'a) signal_error, string) outcome" where
  "region_endpoint net url =
     (case net_parse net url of
        Panic \<Rightarrow> Panic
      | Err e \<Rightarrow> Err (UrlParse e)
      | Ok u \<Rightarrow> Ok (net_url_string net
          (u\<lparr>url_scheme := (if url_scheme u = ''wss'' then ''https''
                           else if url_scheme u = ''ws'' then ''http'' else url_scheme u),
             url_path := [''settings'', ''regions'']\<rparr>)))"

section \<open>One connection\<close>

type_synonym ('j, 'c, 'r, 'a, 'm) signal_resp = "('j, 'c, 'r, 'a, 'm) signal_response"

text \<open>\<open>SignalStream::connect\<close>, the \<open>n\<close>-th request to the network.\<close>

definition stream_connect ::
  "'resp signal_net \<Rightarrow> string \<Rightarrow> nat \<Rightarrow> url \<Rightarrow> (('r, 'a) signal_error, 'resp list \<times> first_end) outcome" where
  "stream_connect net token n u =
     (case net_request_error net u of
        Some e \<Rightarrow> Err (WsError e)
      | None \<Rightarrow>
          if \<not> net_header_ok net (''Bearer '' @ token) then Err TokenFormat
          else case net_dial net n u of
                 Dialled ms end \<Rightarrow> Ok (ms, end)
               | DialFailed e \<Rightarrow> Err (WsError e)
               | DialTimeout \<Rightarrow> Err SignalTimeout)"

text \<open>The first message that counts, and the messages after it.\<close>

fun get_join_response ::
  "('j, 'c, 'r, 'a, 'm) signal_resp list \<Rightarrow> first_end
    \<Rightarrow> (('r, 'a) signal_error, 'j \<times> ('j, 'c, 'r, 'a, 'm) signal_resp list) outcome" where
  "get_join_response [] MoreToCome = Err SignalTimeout"
| "get_join_response [] StreamClosed = Err (WsError WsConnectionClosed)"
| "get_join_response (Join j # ms) end = Ok (j, ms)"
| "get_join_response (_ # ms) end = get_join_response ms end"

fun get_reconnect_response ::
  "('j, 'c, 'r, 'a, 'm) signal_resp list \<Rightarrow> first_end
    \<Rightarrow> (('r, 'a) signal_error, 'c \<times> ('j, 'c, 'r, 'a, 'm) signal_resp list) outcome" where
  "get_reconnect_response [] MoreToCome = Err SignalTimeout"
| "get_reconnect_response [] StreamClosed = Err (WsError WsConnectionClosed)"
| "get_reconnect_response (Reconnect c # ms) end = Ok (c, ms)"
| "get_reconnect_response (LeaveMsg reason action # ms) end = Err (LeaveRequest reason action)"
| "get_reconnect_response (_ # ms) end = get_reconnect_response ms end"

text \<open>\<open>SignalInner::validate\<close>.\<close>

definition validate_token :: "'resp signal_net \<Rightarrow> nat \<Rightarrow> url \<Rightarrow> (('r, 'a) signal_error, unit) outcome" where
  "validate_token net n u =
     (case net_validate net n (get_validate_url net u) of
        ValidateStatus status body \<Rightarrow>
          if 400 \<le> status \<and> status < 500 then Err (ClientStatus status body)
          else if 500 \<le> status \<and> status < 600 then Err (ServerStatus status body)
          else Ok ()
      | ValidateFailed \<Rightarrow> Ok ()
      | ValidateTimeout \<Rightarrow> Err SignalTimeout)"

section \<open>Connecting and restarting\<close>

text \<open>What a connected client keeps; \<open>si_events\<close> are the messages for the task that receives.\<close>

record ('j, 'resp) signal_inner =
  si_url :: string
  si_token :: string
  si_options :: signal_options
  si_join_response :: 'j
  si_single_pc_mode_active :: bool
  si_events :: "'resp list"

definition joined ::
  "string \<Rightarrow> string \<Rightarrow> signal_options \<Rightarrow> bool \<Rightarrow> ('j, 'c, 'r, 'a, 'm) signal_resp list \<times> first_end
    \<Rightarrow> (('r, 'a) signal_error, ('j, ('j, 'c, 'r, 'a, 'm) signal_resp) signal_inner) outcome" where
  "joined url token options single events =
     and_then (get_join_response (fst events) (snd events)) (\<lambda>(j, ms).
       Ok \<lparr>si_url = url, si_token = token, si_options = options, si_join_response = j,
           si_single_pc_mode_active = single, si_events = ms\<rparr>)"

text \<open>What follows a failure: \<open>validate\<close> may know more, else the failure is returned.\<close>

definition explained ::
  "'resp signal_net \<Rightarrow> nat \<Rightarrow> url \<Rightarrow> ('r, 'a) signal_error \<Rightarrow> (('r, 'a) signal_error, 'b) outcome" where
  "explained net n u err = and_then (validate_token net n u) (\<lambda>_. Err err)"

text \<open>\<open>SignalInner::connect\<close>, with the requests it makes; \<open>n\<close> were made before.\<close>

definition inner_connect ::
  "('j, 'c, 'r, 'a, 'm) signal_resp signal_net \<Rightarrow> string \<Rightarrow> string \<Rightarrow> signal_options \<Rightarrow> nat
    \<Rightarrow> (('r, 'a) signal_error, ('j, ('j, 'c, 'r, 'a, 'm) signal_resp) signal_inner) outcome \<times> signal_call list" where
  "inner_connect net url token options n =
     (let use_v1 = so_single_peer_connection options in
      case get_livekit_url net url options use_v1 False None '''' of
        Panic \<Rightarrow> (Panic, [])
      | Err e \<Rightarrow> (Err e, [])
      | Ok u \<Rightarrow>
        (case stream_connect net token n u of
           Panic \<Rightarrow> (Panic, [DialCall u])
         | Ok events \<Rightarrow> (joined url token options use_v1 events, [DialCall u])
         | Err err \<Rightarrow>
             if err = TokenFormat then (Err err, [DialCall u])
             else if use_v1 \<and> err = WsError (WsHttp 404) then
               (case get_livekit_url net url options False False None '''' of
                  Panic \<Rightarrow> (Panic, [DialCall u])
                | Err e \<Rightarrow> (Err e, [DialCall u])
                | Ok u0 \<Rightarrow>
                  (case stream_connect net token (n + 1) u0 of
                     Panic \<Rightarrow> (Panic, [DialCall u, DialCall u0])
                   | Ok events \<Rightarrow> (joined url token options False events, [DialCall u, DialCall u0])
                   | Err err0 \<Rightarrow>
                       if err0 = TokenFormat then (Err err0, [DialCall u, DialCall u0])
                       else (explained net (n + 2) u0 err0,
                         [DialCall u, DialCall u0, ValidateCall (get_validate_url net u0)])))
             else (explained net (n + 1) u err, [DialCall u, ValidateCall (get_validate_url net u)])))"

text \<open>
  \<open>SignalInner::restart\<close> after the old stream is gone; \<open>sid_of\<close> is the id of the participant in
  the answer to the join, if there is one.
\<close>

definition inner_restart ::
  "('j \<Rightarrow> string option) \<Rightarrow> ('j, 'c, 'r, 'a, 'm) signal_resp signal_net \<Rightarrow> nat
    \<Rightarrow> ('j, ('j, 'c, 'r, 'a, 'm) signal_resp) signal_inner
    \<Rightarrow> (('r, 'a) signal_error, 'c \<times> ('j, 'c, 'r, 'a, 'm) signal_resp list) outcome" where
  "inner_restart sid_of net n inner =
     (case sid_of (si_join_response inner) of
        None \<Rightarrow> Panic
      | Some sid \<Rightarrow>
          (case (get_livekit_url net (si_url inner) (si_options inner) (si_single_pc_mode_active inner) True None sid
                 :: (('r, 'a) signal_error, url) outcome) of
             Ok u \<Rightarrow>
               and_then (stream_connect net (si_token inner) n u) (\<lambda>(ms, end). get_reconnect_response ms end)
           | _ \<Rightarrow> Panic))"

section \<open>Regions\<close>

definition fetch_from_endpoint ::
  "'resp signal_net \<Rightarrow> string \<Rightarrow> nat \<Rightarrow> string \<Rightarrow> (('r, 'a) signal_error, string list) outcome" where
  "fetch_from_endpoint net token n endpoint =
     (if \<not> net_header_ok net (''Bearer '' @ token) then Panic
      else case net_regions net n endpoint of
             RegionSendFailed e \<Rightarrow> Err (RegionError e)
           | RegionStatus status body \<Rightarrow> Err (ClientStatus status body)
           | RegionJsonFailed e \<Rightarrow> Err (RegionError e)
           | RegionUrls urls \<Rightarrow> Ok urls
           | RegionTimeout \<Rightarrow> Err (RegionError ''region fetch timed out''))"

definition fetch_region_urls ::
  "'resp signal_net \<Rightarrow> string \<Rightarrow> string \<Rightarrow> nat \<Rightarrow> (('r, 'a) signal_error, string list) outcome \<times> signal_call list" where
  "fetch_region_urls net url token n =
     (case is_cloud_url net url of
        Ok True \<Rightarrow>
          (case region_endpoint net url of
             Ok endpoint \<Rightarrow> (fetch_from_endpoint net token n endpoint, [RegionCall endpoint])
           | Err e \<Rightarrow> (Err e, [])
           | Panic \<Rightarrow> (Panic, []))
      | Ok False \<Rightarrow> (Ok [], [])
      | Err e \<Rightarrow> (Err e, [])
      | Panic \<Rightarrow> (Panic, []))"

text \<open>The loop over the regions in \<open>SignalClient::connect\<close>.\<close>

fun try_regions ::
  "('j, 'c, 'r, 'a, 'm) signal_resp signal_net \<Rightarrow> string \<Rightarrow> signal_options \<Rightarrow> nat \<Rightarrow> ('r, 'a) signal_error \<Rightarrow> string list
    \<Rightarrow> (('r, 'a) signal_error, ('j, ('j, 'c, 'r, 'a, 'm) signal_resp) signal_inner) outcome \<times> signal_call list" where
  "try_regions net token options n last_err [] = (Err last_err, [])"
| "try_regions net token options n last_err (url # urls) =
     (case inner_connect net url token options n of
        (Ok inner, calls) \<Rightarrow> (Ok inner, calls)
      | (Panic, calls) \<Rightarrow> (Panic, calls)
      | (Err err, calls) \<Rightarrow>
          (let (r, more) = try_regions net token options (n + length calls) err urls in (r, calls @ more)))"

definition client_connect ::
  "('j, 'c, 'r, 'a, 'm) signal_resp signal_net \<Rightarrow> string \<Rightarrow> string \<Rightarrow> signal_options
    \<Rightarrow> (('r, 'a) signal_error, ('j, ('j, 'c, 'r, 'a, 'm) signal_resp) signal_inner) outcome \<times> signal_call list" where
  "client_connect net url token options =
     (case inner_connect net url token options 0 of
        (Ok inner, calls) \<Rightarrow> (Ok inner, calls)
      | (Panic, calls) \<Rightarrow> (Panic, calls)
      | (Err err, calls) \<Rightarrow>
          (case fetch_region_urls net url token (length calls) of
             (Ok urls, fetched) \<Rightarrow>
               (let (r, more) = try_regions net token options (length (calls @ fetched)) err urls
                in (r, calls @ fetched @ more))
           | (Err e, fetched) \<Rightarrow> (Err e, calls @ fetched)
           | (Panic, fetched) \<Rightarrow> (Panic, calls @ fetched)))"

section \<open>The task that receives\<close>

text \<open>Times in milliseconds; the deadline is that of the ping timeout.\<close>

record signal_task_state =
  st_token :: string
  st_rtt :: u64
  st_deadline :: nat
  st_running :: bool

datatype 'resp signal_event = MessageEvent 'resp | CloseEvent string

datatype 'resp task_output = Emit "'resp signal_event" | SendPing u64 u64 | CloseStreamCall

datatype 'resp task_input = Receive nat 'resp | ReceiveClosed nat | PingTick nat | PingTimeout nat

text \<open>
  The ping interval and timeout come in seconds, as signed integers that are cast to unsigned; the runtime's
  \<open>interval\<close> panics on a period of zero.  \<open>now\<close> is the time the task starts.
\<close>

definition secs_of :: "i32 \<Rightarrow> nat" where
  "secs_of i = unat (signed i :: u64)"

definition signal_task_start :: "nat \<Rightarrow> string \<Rightarrow> i32 \<Rightarrow> i32 \<Rightarrow> ('e, signal_task_state) outcome" where
  "signal_task_start now token ping_interval ping_timeout =
     (if secs_of ping_interval = 0 then Panic
      else Ok \<lparr>st_token = token, st_rtt = 0, st_deadline = now + 1000 * secs_of ping_timeout, st_running = True\<rparr>)"

text \<open>
  One turn of the loop; \<open>None\<close> when the branch is not ready.  The timeout is \<open>timeout\<close>
  milliseconds.
\<close>

fun signal_task_step ::
  "nat \<Rightarrow> signal_task_state \<Rightarrow> ('j, 'c, 'r, 'a, 'm) signal_resp task_input
    \<Rightarrow> (signal_task_state \<times> ('j, 'c, 'r, 'a, 'm) signal_resp task_output list) option" where
  "signal_task_step timeout s (Receive now m) =
     (if st_running s then
        (let s = (case m of
                    RefreshToken token \<Rightarrow> s\<lparr>st_token := token\<rparr>
                  | PongResp last_ping_timestamp \<Rightarrow> s\<lparr>st_rtt := of_nat now - last_ping_timestamp\<rparr>
                  | _ \<Rightarrow> s)
         in Some (s\<lparr>st_deadline := now + timeout\<rparr>, [Emit (MessageEvent m)]))
      else None)"
| "signal_task_step timeout s (ReceiveClosed now) =
     (if st_running s then Some (s\<lparr>st_running := False\<rparr>, [Emit (CloseEvent ''stream closed''), CloseStreamCall])
      else None)"
| "signal_task_step timeout s (PingTick now) =
     (if st_running s then Some (s, [SendPing (of_nat now) (st_rtt s)]) else None)"
| "signal_task_step timeout s (PingTimeout now) =
     (if st_running s \<and> st_deadline s \<le> now
      then Some (s\<lparr>st_running := False\<rparr>, [Emit (CloseEvent ''ping timeout''), CloseStreamCall]) else None)"
section \<open>Lemmas\<close>

lemma get_join_response_Ok:
  "get_join_response ms end = Ok (j, rest) \<longleftrightarrow>
     (\<exists>before. ms = before @ Join j # rest \<and> (\<forall>m\<in>set before. \<nexists>k. m = Join k))"
proof (induction ms "end" rule: get_join_response.induct)
  case (3 k ms e)
  show ?case
    by (auto simp: Cons_eq_append_conv)
qed (auto simp: Cons_eq_append_conv)

lemma joined_Ok:
  "joined url token options single events = Ok inner \<longleftrightarrow>
     (\<exists>j ms. get_join_response (fst events) (snd events) = Ok (j, ms)
        \<and> inner = \<lparr>si_url = url, si_token = token, si_options = options, si_join_response = j,
           si_single_pc_mode_active = single, si_events = ms\<rparr>)"
  by (auto simp: joined_def and_then_Ok_iff)

lemma get_join_response_no_panic [simp]: "get_join_response ms end \<noteq> Panic"
  by (induction ms "end" rule: get_join_response.induct) auto

lemma joined_no_panic [simp]: "joined url token options single events \<noteq> Panic"
  by (auto simp: joined_def and_then_Panic_iff)

lemma explained_cases:
  "explained net n u err = Err err \<or> (\<exists>e. explained net n u err = Err e \<and> validate_token net n u = Err e)"
  by (cases "validate_token net n u") (auto simp: explained_def validate_token_def split: validate_answer.splits if_splits)

lemma explained_not [simp]: "explained net n u err \<noteq> Ok x" "explained net n u err \<noteq> Panic"
  by (auto simp: explained_def validate_token_def and_then_Ok_iff and_then_Panic_iff
      split: validate_answer.splits if_splits)

lemma stream_connect_no_panic [simp]: "stream_connect net token n u \<noteq> Panic"
  by (auto simp: stream_connect_def split: option.splits dial_answer.splits)

lemma websocket_scheme_no_panic [simp]: "websocket_scheme u \<noteq> Panic"
  by (auto simp: websocket_scheme_def)

lemma websocket_scheme_Ok:
  "websocket_scheme u = Ok v \<Longrightarrow> url_scheme v \<in> {''ws'', ''wss''} \<and> v = u\<lparr>url_scheme := url_scheme v\<rparr>"
  by (auto simp: websocket_scheme_def split: if_splits)

lemma append_pair_simps [simp]:
  "url_query (append_pair k v u) = url_query u @ [(k, v)]" "url_scheme (append_pair k v u) = url_scheme u"
  "url_host (append_pair k v u) = url_host u" "url_path (append_pair k v u) = url_path u"
  "url_rest (append_pair k v u) = url_rest u"
  by (simp_all add: append_pair_def)

lemma push_segment_simps [simp]:
  "url_query (push_segment net seg u) = url_query u" "url_scheme (push_segment net seg u) = url_scheme u"
  "url_host (push_segment net seg u) = url_host u" "url_path (push_segment net seg u) = net_push net (url_path u) seg"
  "url_rest (push_segment net seg u) = url_rest u"
  by (simp_all add: push_segment_def)

lemma get_livekit_url_no_panic:
  "net_parse net url \<noteq> Panic \<Longrightarrow> get_livekit_url net url options v1 rec reason sid \<noteq> Panic"
  by (auto simp: get_livekit_url_def Let_def and_then_Panic_iff split: outcome.splits if_splits)

text \<open>The keys of a query in the two forms.\<close>

definition v0_query :: "'resp signal_net \<Rightarrow> signal_options \<Rightarrow> bool \<Rightarrow> string \<Rightarrow> (string \<times> string) list" where
  "v0_query net options rec sid =
     [(''sdk'', sdk_name (so_sdk_options options)), (''os'', net_os net), (''os_version'', net_os_version net),
      (''device_model'', case net_device_model net of None \<Rightarrow> '''' | Some m \<Rightarrow> m), (''protocol'', ''17''),
      (''auto_subscribe'', bit_text (so_auto_subscribe options)),
      (''adaptive_stream'', bit_text (so_adaptive_stream options))]
     @ (case sdk_version (so_sdk_options options) of None \<Rightarrow> [] | Some v \<Rightarrow> [(''version'', v)])
     @ [(''capabilities'', ''CAP_PACKET_TRAILER'')]
     @ (if rec then [(''reconnect'', ''1''), (''sid'', sid)] else [])"

lemma get_livekit_url_Ok:
  assumes "(get_livekit_url net url options v1 rec reason sid :: (('r, 'a) signal_error, url) outcome) = Ok u"
  obtains u0 where "net_parse net url = Ok u0" "url_host u = url_host u0" "url_host u0 \<noteq> None"
    "url_rest u = url_rest u0" "url_scheme u \<in> {''ws'', ''wss''}"
    "url_path u = (if v1 then net_push net (net_push net (url_path u0) ''rtc'') ''v1'' else net_push net (url_path u0) ''rtc'')"
    "url_query u = url_query u0 @ (if v1 then [(''join_request'', create_join_request_param net options rec reason sid
       (net_os net) (net_os_version net) (case net_device_model net of None \<Rightarrow> '''' | Some m \<Rightarrow> m))]
       else v0_query net options rec sid)"
proof -
  obtain u0 where u0: "net_parse net url = Ok u0" "url_host u0 \<noteq> None"
    using assms by (auto simp: get_livekit_url_def split: outcome.splits if_splits)
  obtain v where v: "(websocket_scheme u0 :: (('r, 'a) signal_error, url) outcome) = Ok v"
    using assms u0 by (auto simp: get_livekit_url_def and_then_Ok_iff split: if_splits)
  have v': "url_scheme v \<in> {''ws'', ''wss''}" "url_host v = url_host u0" "url_rest v = url_rest u0"
    "url_path v = url_path u0" "url_query v = url_query u0"
    using websocket_scheme_Ok [OF v] by (auto; metis url.select_convs url.update_convs(1) url.surjective)+
  show ?thesis
    by (rule that [OF u0(1) _ u0(2)])
      (use assms u0 v v' in \<open>auto simp: get_livekit_url_def Let_def v0_query_def client_capabilities_def
         split: if_splits option.splits\<close>)
qed
section \<open>Properties of connecting\<close>

lemma inner_connect_cases:
  fixes r :: "(('r, 'a) signal_error, ('j, ('j, 'c, 'r, 'a, 'm) signal_resp) signal_inner) outcome"
  assumes "inner_connect net url token options n = (r, calls)" and "net_parse net url \<noteq> Panic"
  defines "v1 \<equiv> so_single_peer_connection options"
  obtains (bad_url) e where "r = Err e" "calls = []"
      "(get_livekit_url net url options v1 False None '''' :: (('r, 'a) signal_error, url) outcome) = Err e"
  | (first) u events where "get_livekit_url net url options v1 False None '''' = (Ok u :: (('r, 'a) signal_error, url) outcome)"
      "calls = [DialCall u]" "stream_connect net token n u = (Ok events :: (('r, 'a) signal_error, _) outcome)"
      "r = joined url token options v1 events"
  | (bad_token) u where "get_livekit_url net url options v1 False None '''' = (Ok u :: (('r, 'a) signal_error, url) outcome)"
      "calls = [DialCall u]" "stream_connect net token n u = (Err TokenFormat :: (('r, 'a) signal_error, _) outcome)"
      "r = Err TokenFormat"
  | (failed) u err where "get_livekit_url net url options v1 False None '''' = (Ok u :: (('r, 'a) signal_error, url) outcome)"
      "calls = [DialCall u, ValidateCall (get_validate_url net u)]"
      "stream_connect net token n u = (Err err :: (('r, 'a) signal_error, _) outcome)" "err \<noteq> TokenFormat"
      "\<not> (v1 \<and> err = WsError (WsHttp 404))" "r = explained net (n + 1) u err"
  | (second) u u0 where "v1" "get_livekit_url net url options True False None '''' = (Ok u :: (('r, 'a) signal_error, url) outcome)"
      "get_livekit_url net url options False False None '''' = (Ok u0 :: (('r, 'a) signal_error, url) outcome)"
      "stream_connect net token n u = (Err (WsError (WsHttp 404)) :: (('r, 'a) signal_error, _) outcome)"
      "(\<exists>events. stream_connect net token (n + 1) u0 = (Ok events :: (('r, 'a) signal_error, _) outcome)
          \<and> r = joined url token options False events \<and> calls = [DialCall u, DialCall u0])
       \<or> (stream_connect net token (n + 1) u0 = (Err TokenFormat :: (('r, 'a) signal_error, _) outcome)
          \<and> r = Err TokenFormat \<and> calls = [DialCall u, DialCall u0])
       \<or> (\<exists>err. stream_connect net token (n + 1) u0 = (Err err :: (('r, 'a) signal_error, _) outcome) \<and> err \<noteq> TokenFormat
          \<and> r = explained net (n + 2) u0 err
          \<and> calls = [DialCall u, DialCall u0, ValidateCall (get_validate_url net u0)])"
proof -
  have no_panic: "get_livekit_url net url options v False None '''' \<noteq> (Panic :: (('r, 'a) signal_error, url) outcome)" for v
    by (rule get_livekit_url_no_panic [OF assms(2)])
  have second_url: "\<exists>u0. get_livekit_url net url options False False None '''' = (Ok u0 :: (('r, 'a) signal_error, url) outcome)"
    if "get_livekit_url net url options v False None '''' = (Ok u :: (('r, 'a) signal_error, url) outcome)" for v u
    using that by (auto simp: get_livekit_url_def Let_def and_then_Ok_iff split: outcome.splits if_splits)
  show ?thesis
  proof (cases "get_livekit_url net url options v1 False None '''' :: (('r, 'a) signal_error, url) outcome")
    case (Err e)
    then show ?thesis
      using assms(1) bad_url [of e] by (auto simp: inner_connect_def v1_def)
  next
    case Panic
    then show ?thesis
      using no_panic by simp
  next
    case (Ok u)
    show ?thesis
    proof (cases "stream_connect net token n u :: (('r, 'a) signal_error, (('j, 'c, 'r, 'a, 'm) signal_resp list \<times> first_end)) outcome")
      case (Ok events)
      then show ?thesis
        using assms(1) \<open>get_livekit_url net url options v1 False None '''' = Ok u\<close> first [of u events]
        by (auto simp: inner_connect_def v1_def)
    next
      case Panic
      then show ?thesis by simp
    next
      case (Err err)
      consider "err = TokenFormat" | "err \<noteq> TokenFormat" "\<not> (v1 \<and> err = WsError (WsHttp 404))"
        | "v1" "err = WsError (WsHttp 404)"
        by blast
      then show ?thesis
      proof cases
        case 1
        then show ?thesis
          using assms(1) Err Ok bad_token [of u] by (auto simp: inner_connect_def v1_def)
      next
        case 2
        then show ?thesis
          using assms(1) Err Ok failed [of u err] by (auto simp: inner_connect_def v1_def)
      next
        case 3
        obtain u0 where u0: "get_livekit_url net url options False False None '''' = (Ok u0 :: (('r, 'a) signal_error, url) outcome)"
          using second_url Ok by blast
        show ?thesis
          by (rule second [OF 3(1) _ u0])
            (use assms(1) Ok Err u0 3 in \<open>auto simp: inner_connect_def v1_def split: outcome.splits if_splits\<close>)
      qed
    qed
  qed
qed

lemma dial_url_ok:
  assumes "get_livekit_url net url options v False None '''' = (Ok u :: (('r, 'a) signal_error, url) outcome)"
  shows "url_scheme u \<in> {''ws'', ''wss''} \<and> url_host u \<noteq> None"
  by (rule get_livekit_url_Ok [OF assms]) simp

lemma validate_url_scheme: "url_scheme (get_validate_url net u) \<in> {''http'', ''https''}"
  by (auto simp: get_validate_url_def)

text \<open>How a connection is tried, by the URLs that \<open>get_livekit_url\<close> makes.\<close>

lemma connect_attempts:
  fixes r :: "(('r, 'a) signal_error, ('j, ('j, 'c, 'r, 'a, 'm) signal_resp) signal_inner) outcome"
  assumes "inner_connect net url token options n = (r, calls)" and "net_parse net url \<noteq> Panic"
  shows "r \<noteq> Panic
    \<and> (\<forall>u. DialCall u \<in> set calls \<longrightarrow> url_scheme u \<in> {''ws'', ''wss''} \<and> url_host u \<noteq> None)
    \<and> (\<forall>u u' rest. calls = DialCall u # DialCall u' # rest \<longrightarrow> so_single_peer_connection options
         \<and> stream_connect net token n u = (Err (WsError (WsHttp 404)) :: (('r, 'a) signal_error, ('j, 'c, 'r, 'a, 'm) signal_resp list \<times> first_end) outcome))
    \<and> (\<forall>inner. r = Ok inner \<longrightarrow> si_url inner = url \<and> si_token inner = token \<and> si_options inner = options
         \<and> ((\<exists>u. calls = [DialCall u] \<and> si_single_pc_mode_active inner = so_single_peer_connection options)
          \<or> (\<exists>u u'. calls = [DialCall u, DialCall u'] \<and> \<not> si_single_pc_mode_active inner)))
    \<and> (\<forall>before u after. calls = before @ ValidateCall u # after \<longrightarrow> after = [] \<and> url_scheme u \<in> {''http'', ''https''}
         \<and> (\<exists>before' d err. before = before' @ [DialCall d] \<and> u = get_validate_url net d
              \<and> stream_connect net token (n + length before') d = (Err err :: (('r, 'a) signal_error, ('j, 'c, 'r, 'a, 'm) signal_resp list \<times> first_end) outcome)
              \<and> err \<noteq> TokenFormat \<and> (r = Err err \<or> (\<exists>e. r = Err e \<and> validate_token net (n + length before) d = Err e))))"
  using assms
proof (cases rule: inner_connect_cases)
  case (first u events)
  then show ?thesis
    using dial_url_ok [OF first(1)] by (auto simp: joined_Ok Cons_eq_append_conv)
next
  case (bad_token u)
  then show ?thesis
    using dial_url_ok [OF bad_token(1)] by (auto simp: Cons_eq_append_conv)
next
  case (failed u err)
  then show ?thesis
    using dial_url_ok [OF failed(1)] validate_url_scheme [of net u] explained_cases [of net "n + 1" u err]
    by (auto simp: Cons_eq_append_conv)
next
  case (second u u0)
  have dials: "url_scheme u \<in> {''ws'', ''wss''} \<and> url_host u \<noteq> None" "url_scheme u0 \<in> {''ws'', ''wss''} \<and> url_host u0 \<noteq> None"
    using dial_url_ok [OF second(2)] dial_url_ok [OF second(3)] by simp_all
  from second(5) show ?thesis
  proof (elim disjE exE conjE)
    fix events
    assume "r = joined url token options False events" "calls = [DialCall u, DialCall u0]"
    then show ?thesis
      using second(1,4) dials by (auto simp: joined_Ok Cons_eq_append_conv)
  next
    assume "r = Err TokenFormat" "calls = [DialCall u, DialCall u0]"
    then show ?thesis
      using second(1,4) dials by (auto simp: Cons_eq_append_conv)
  next
    fix err
    assume "stream_connect net token (n + 1) u0 = (Err err :: (('r, 'a) signal_error, ('j, 'c, 'r, 'a, 'm) signal_resp list \<times> first_end) outcome)"
      "err \<noteq> TokenFormat" "r = explained net (n + 2) u0 err"
      "calls = [DialCall u, DialCall u0, ValidateCall (get_validate_url net u0)]"
    then show ?thesis
      using second(1,4) dials validate_url_scheme [of net u0] explained_cases [of net "n + 2" u0 err]
      by (auto simp: Cons_eq_append_conv)
  qed
qed simp
text \<open>
  The URLs themselves, written out: the scheme, the path and the query that a dial and a validation have, from the URL that the
  client was given.
\<close>

definition sent_join_request :: "'resp signal_net \<Rightarrow> signal_options \<Rightarrow> join_request" where
  "sent_join_request net options =
     \<lparr>jr_sdk = client_info_sdk_for_name (sdk_name (so_sdk_options options)),
      jr_version = (case sdk_version (so_sdk_options options) of None \<Rightarrow> '''' | Some v \<Rightarrow> v),
      jr_protocol = 17, jr_os = net_os net, jr_os_version = net_os_version net,
      jr_device_model = (case net_device_model net of None \<Rightarrow> '''' | Some m \<Rightarrow> m), jr_capabilities = [1],
      jr_auto_subscribe = so_auto_subscribe options, jr_adaptive_stream = so_adaptive_stream options,
      jr_reconnect = False, jr_reconnect_reason = 0, jr_participant_sid = ''''\<rparr>"

definition dialled_url :: "'resp signal_net \<Rightarrow> signal_options \<Rightarrow> bool \<Rightarrow> url \<Rightarrow> url" where
  "dialled_url net options v1 base =
     base\<lparr>url_scheme := (if url_scheme base = ''https'' then ''wss'' else if url_scheme base = ''http'' then ''ws'' else url_scheme base),
          url_path := (if v1 then net_push net (net_push net (url_path base) ''rtc'') ''v1'' else net_push net (url_path base) ''rtc''),
          url_query := url_query base @
            (if v1 then [(''join_request'', net_encode net (sent_join_request net options))] else v0_query net options False '''')\<rparr>"

definition validated_url :: "'resp signal_net \<Rightarrow> url \<Rightarrow> url" where
  "validated_url net d =
     d\<lparr>url_scheme := (if url_scheme d = ''wss'' then ''https'' else ''http''), url_path := net_push net (url_path d) ''validate''\<rparr>"

lemma get_livekit_url_is:
  "(get_livekit_url net url options v1 False None '''' :: (('r, 'a) signal_error, url) outcome) =
     (case net_parse net url of
        Panic \<Rightarrow> Panic
      | Err e \<Rightarrow> Err (UrlParse e)
      | Ok base \<Rightarrow>
          if url_host base = None then Err (UrlParse ''missing host or scheme'')
          else if url_scheme base \<notin> {''https'', ''http'', ''wss'', ''ws''} then Err (UrlParse (''unsupported scheme: '' @ url_scheme base))
          else Ok (dialled_url net options v1 base))"
proof (cases "net_parse net url")
  case (Ok base)
  obtain sch host rest path query where base: "base = \<lparr>url_scheme = sch, url_host = host, url_rest = rest, url_path = path, url_query = query\<rparr>"
    by (cases base)
  show ?thesis
    by (cases "sdk_version (so_sdk_options options)"; cases v1)
      (auto simp: Ok base get_livekit_url_def Let_def websocket_scheme_def dialled_url_def push_segment_def append_pair_def v0_query_def
        client_capabilities_def create_join_request_param_def sent_join_request_def protocol_version_def)
qed (simp_all add: get_livekit_url_def)

lemma validated_url_is: "get_validate_url net d = validated_url net d"
  by (simp add: get_validate_url_def validated_url_def push_segment_def)

text \<open>
  C6: How a connection is tried.  It never panics.  A URL that cannot be parsed, has no host or another scheme is an error, without
  any request.  Else the first dial is at \<open>rtc/v1\<close> below the path of the URL with the join request as the only added query parameter if the
  single connection mode was asked for, and at \<open>rtc\<close> with the options as query parameters if not, in both cases with the scheme of a
  websocket; and the second dial, which is made only when the mode was asked for and the first path answered 404, is at
  \<open>rtc\<close>.  A connected client has the mode exactly when it was asked for and the first dial succeeded; \<open>validate\<close> is asked once at
  most, after the last dial, when that failed for another reason than the token, over http at the path below the dialled one, and then
  either its error or that of the dial is returned.
\<close>

theorem signal_connect_paths:
  fixes r :: "(('r, 'a) signal_error, ('j, ('j, 'c, 'r, 'a, 'm) signal_resp) signal_inner) outcome"
  assumes "inner_connect net url token options n = (r, calls)" and "net_parse net url \<noteq> Panic"
  shows "r \<noteq> Panic
    \<and> (case net_parse net url of
         Ok base \<Rightarrow>
           if url_host base = None then r = Err (UrlParse ''missing host or scheme'') \<and> calls = []
           else if url_scheme base \<notin> {''https'', ''http'', ''wss'', ''ws''}
           then r = Err (UrlParse (''unsupported scheme: '' @ url_scheme base)) \<and> calls = []
           else calls \<noteq> [] \<and> hd calls = DialCall (dialled_url net options (so_single_peer_connection options) base)
             \<and> (\<forall>u u' rest. calls = DialCall u # DialCall u' # rest \<longrightarrow> u' = dialled_url net options False base)
       | Err e \<Rightarrow> r = Err (UrlParse e) \<and> calls = []
       | Panic \<Rightarrow> False)
    \<and> (\<forall>u. DialCall u \<in> set calls \<longrightarrow> url_scheme u \<in> {''ws'', ''wss''} \<and> url_host u \<noteq> None)
    \<and> (\<forall>u u' rest. calls = DialCall u # DialCall u' # rest \<longrightarrow> so_single_peer_connection options
         \<and> stream_connect net token n u = (Err (WsError (WsHttp 404)) :: (('r, 'a) signal_error, ('j, 'c, 'r, 'a, 'm) signal_resp list \<times> first_end) outcome))
    \<and> (\<forall>inner. r = Ok inner \<longrightarrow> si_url inner = url \<and> si_token inner = token \<and> si_options inner = options
         \<and> ((\<exists>u. calls = [DialCall u] \<and> si_single_pc_mode_active inner = so_single_peer_connection options)
          \<or> (\<exists>u u'. calls = [DialCall u, DialCall u'] \<and> \<not> si_single_pc_mode_active inner)))
    \<and> (\<forall>before u after. calls = before @ ValidateCall u # after \<longrightarrow> after = [] \<and> url_scheme u \<in> {''http'', ''https''}
         \<and> (\<exists>before' d err. before = before' @ [DialCall d] \<and> u = validated_url net d
              \<and> stream_connect net token (n + length before') d = (Err err :: (('r, 'a) signal_error, ('j, 'c, 'r, 'a, 'm) signal_resp list \<times> first_end) outcome)
              \<and> err \<noteq> TokenFormat \<and> (r = Err err \<or> (\<exists>e. r = Err e \<and> validate_token net (n + length before) d = Err e))))"
proof -
  note base = connect_attempts [OF assms]
  have "(case net_parse net url of
         Ok base \<Rightarrow>
           if url_host base = None then r = Err (UrlParse ''missing host or scheme'') \<and> calls = []
           else if url_scheme base \<notin> {''https'', ''http'', ''wss'', ''ws''}
           then r = Err (UrlParse (''unsupported scheme: '' @ url_scheme base)) \<and> calls = []
           else calls \<noteq> [] \<and> hd calls = DialCall (dialled_url net options (so_single_peer_connection options) base)
             \<and> (\<forall>u u' rest. calls = DialCall u # DialCall u' # rest \<longrightarrow> u' = dialled_url net options False base)
       | Err e \<Rightarrow> r = Err (UrlParse e) \<and> calls = []
       | Panic \<Rightarrow> False)"
    using assms
  proof (cases rule: inner_connect_cases)
    case (second u u0)
    then show ?thesis
      using assms(2) by (auto simp: get_livekit_url_is split: outcome.splits if_splits)
  qed (use assms(2) in \<open>auto simp: get_livekit_url_is split: outcome.splits if_splits\<close>)
  with base show ?thesis unfolding validated_url_is by (intro conjI) (elim conjE, assumption)+
qed

text \<open>A server that knows only the second path.\<close>

definition sample_net :: "(unit, unit, unit, unit, unit) signal_resp signal_net" where
  "sample_net =
     \<lparr>net_parse = (\<lambda>s. Ok \<lparr>url_scheme = ''https'', url_host = Some s, url_rest = '''', url_path = [], url_query = []\<rparr>),
      net_push = (\<lambda>p seg. p @ [seg]), net_url_string = (\<lambda>u. ''''),
      net_header_ok = (\<lambda>t. True), net_os = ''Linux'', net_os_version = ''6'', net_device_model = None,
      net_encode = (\<lambda>r. ''r''), net_request_error = (\<lambda>u. None),
      net_dial = (\<lambda>n u. if url_path u = [''rtc''] then Dialled [OtherResponse (), Join (), PongResp 3] MoreToCome
                       else DialFailed (WsHttp 404)),
      net_validate = (\<lambda>n u. ValidateFailed), net_regions = (\<lambda>n s. RegionUrls [])\<rparr>"

theorem signal_connect_paths_witness:
  "\<exists>inner calls. inner_connect sample_net ''host'' ''t'' (signal_options_default\<lparr>so_single_peer_connection := True\<rparr>) 0
       = (Ok inner, calls) \<and> length calls = 2 \<and> \<not> si_single_pc_mode_active inner \<and> si_events inner = [PongResp 3]"
proof -
  obtain inner calls where c: "inner_connect sample_net ''host'' ''t'' (signal_options_default\<lparr>so_single_peer_connection := True\<rparr>) 0
       = (Ok inner, calls)" "length calls = 2" "si_events inner = [PongResp 3]"
    by (simp add: inner_connect_def get_livekit_url_def Let_def sample_net_def signal_options_default_def
        websocket_scheme_def client_capabilities_def push_segment_def append_pair_def stream_connect_def joined_def)
  then show ?thesis
    using signal_connect_paths [OF c(1)] by (auto simp: sample_net_def length_Suc_conv numeral_2_eq_2)
qed

text \<open>How many requests were made before each region is tried.\<close>

fun region_starts ::
  "('j, 'c, 'r, 'a, 'm) signal_resp signal_net \<Rightarrow> string \<Rightarrow> signal_options \<Rightarrow> nat \<Rightarrow> string list \<Rightarrow> nat list" where
  "region_starts net token options n [] = []"
| "region_starts net token options n (url # urls) =
     n # region_starts net token options (n + length (snd (inner_connect net url token options n))) urls"

lemma length_region_starts [simp]: "length (region_starts net token options n urls) = length urls"
  by (induction urls arbitrary: n) simp_all

text \<open>The result of the attempt at one region, and the first attempt that does not fail.\<close>

definition region_result ::
  "('j, 'c, 'r, 'a, 'm) signal_resp signal_net \<Rightarrow> string \<Rightarrow> signal_options \<Rightarrow> nat \<Rightarrow> string list \<Rightarrow> nat
    \<Rightarrow> (('r, 'a) signal_error, ('j, ('j, 'c, 'r, 'a, 'm) signal_resp) signal_inner) outcome" where
  "region_result net token options n urls k =
     fst (inner_connect net (urls ! k) token options (region_starts net token options n urls ! k))"

lemma region_result_Cons [simp]:
  "region_result net token options n (url # urls) 0 = fst (inner_connect net url token options n)"
  "region_result net token options n (url # urls) (Suc k) =
     region_result net token options (n + length (snd (inner_connect net url token options n))) urls k"
  by (simp_all add: region_result_def)

lemma try_regions_result:
  "\<exists>k\<le>length urls. (\<forall>j<k. \<exists>e. region_result net token options n urls j = Err e)
     \<and> (k < length urls \<longrightarrow> fst (try_regions net token options n err urls) = region_result net token options n urls k
          \<and> (\<nexists>e. region_result net token options n urls k = Err e))
     \<and> (k = length urls \<longrightarrow> fst (try_regions net token options n err urls) =
          (if urls = [] then Err err else region_result net token options n urls (length urls - 1)))"
proof (induction urls arbitrary: n err)
  case (Cons url urls)
  obtain r calls where first: "inner_connect net url token options n = (r, calls)"
    by (cases "inner_connect net url token options n")
  show ?case
  proof (cases r)
    case (Err e)
    obtain k where k: "k \<le> length urls"
      "\<forall>j<k. \<exists>e. region_result net token options (n + length calls) urls j = Err e"
      "k < length urls \<longrightarrow> fst (try_regions net token options (n + length calls) e urls) = region_result net token options (n + length calls) urls k
          \<and> (\<nexists>e. region_result net token options (n + length calls) urls k = Err e)"
      "k = length urls \<longrightarrow> fst (try_regions net token options (n + length calls) e urls) =
          (if urls = [] then Err e else region_result net token options (n + length calls) urls (length urls - 1))"
      using Cons.IH by blast
    have "\<forall>j<Suc k. \<exists>e. region_result net token options n (url # urls) j = Err e"
      using k(2) first Err by (auto simp: less_Suc_eq_0_disj)
    then show ?thesis
      using k(1,3,4) first Err
      by (intro exI [of _ "Suc k"]) (cases urls; auto simp: split_beta)
  qed (use first in \<open>auto intro!: exI [of _ 0]\<close>)
qed simp
lemma not_Err_eq: "(\<nexists>e. r = Err e) \<Longrightarrow> (\<exists>x. r = Ok x) \<or> r = Panic"
  by (cases r) auto

text \<open>
  C7: The regions.  A first attempt that succeeds is the result and no region is asked for.  When it fails, and the list of
  regions is there, the regions are tried in order until an attempt does not fail, whose result is returned, and when all
  fail the failure of the last attempt is; when the list cannot be fetched, that failure is returned instead.  Outside
  the cloud hosts the list is empty and the first failure is returned.  On a cloud host a token with characters that a
  header cannot have makes the client panic.
\<close>

theorem region_fallback:
  fixes net :: "('j, 'c, 'r, 'a, 'm) signal_resp signal_net"
  assumes "client_connect net url token options = (r, calls)"
    and "inner_connect net url token options 0 = (r0, calls0)"
  shows "(\<forall>inner. r0 = Ok inner \<longrightarrow> r = Ok inner \<and> calls = calls0)
    \<and> (\<forall>err urls fetched. r0 = Err err \<and> fetch_region_urls net url token (length calls0) = ((Ok urls, fetched) :: (('r, 'a) signal_error, _) outcome \<times> _) \<longrightarrow>
         (\<exists>k\<le>length urls. (\<forall>j<k. \<exists>e. region_result net token options (length (calls0 @ fetched)) urls j = Err e)
            \<and> (k < length urls \<longrightarrow> r = region_result net token options (length (calls0 @ fetched)) urls k \<and> (\<nexists>e. r = Err e))
            \<and> (k = length urls \<longrightarrow> r = (if urls = [] then Err err
                 else region_result net token options (length (calls0 @ fetched)) urls (length urls - 1)))))
    \<and> (\<forall>err e fetched. r0 = Err err \<and> fetch_region_urls net url token (length calls0) = (Err e, fetched) \<longrightarrow> r = Err e)
    \<and> (\<forall>err. r0 = Err err \<and> is_cloud_url net url = (Ok False :: (('r, 'a) signal_error, _) outcome) \<longrightarrow> r = Err err)
    \<and> (\<forall>err. r0 = Err err \<and> is_cloud_url net url = (Ok True :: (('r, 'a) signal_error, _) outcome)
         \<and> \<not> net_header_ok net (''Bearer '' @ token) \<longrightarrow> r = Panic)"
proof (intro conjI allI impI; (elim conjE)?)
  fix err urls fetched
  assume a: "r0 = Err err" "fetch_region_urls net url token (length calls0) = ((Ok urls, fetched) :: (('r, 'a) signal_error, _) outcome \<times> _)"
  then have "r = fst (try_regions net token options (length (calls0 @ fetched)) err urls)"
    using assms by (simp add: client_connect_def split_beta)
  then show "\<exists>k\<le>length urls. (\<forall>j<k. \<exists>e. region_result net token options (length (calls0 @ fetched)) urls j = Err e)
            \<and> (k < length urls \<longrightarrow> r = region_result net token options (length (calls0 @ fetched)) urls k \<and> (\<nexists>e. r = Err e))
            \<and> (k = length urls \<longrightarrow> r = (if urls = [] then Err err
                 else region_result net token options (length (calls0 @ fetched)) urls (length urls - 1)))"
    using try_regions_result [where net = net and token = token and options = options and n = "length (calls0 @ fetched)"
        and err = err and urls = urls] by auto
next
  fix err
  assume "r0 = Err err" "is_cloud_url net url = (Ok False :: (('r, 'a) signal_error, _) outcome)"
  then show "r = Err err"
    using assms by (simp add: client_connect_def fetch_region_urls_def)
next
  fix err
  assume a: "r0 = Err err" "is_cloud_url net url = (Ok True :: (('r, 'a) signal_error, _) outcome)"
    "\<not> net_header_ok net (''Bearer '' @ token)"
  then have "\<exists>endpoint. region_endpoint net url = (Ok endpoint :: (('r, 'a) signal_error, _) outcome)"
    by (auto simp: is_cloud_url_def region_endpoint_def split: outcome.splits)
  then show "r = Panic"
    using assms a by (auto simp: client_connect_def fetch_region_urls_def fetch_from_endpoint_def)
qed (use assms in \<open>simp_all add: client_connect_def\<close>)

text \<open>A cloud host that refuses, with two regions of which the second answers.\<close>

definition cloud_net :: "(unit, unit, unit, unit, unit) signal_resp signal_net" where
  "cloud_net = sample_net
     \<lparr>net_dial := (\<lambda>n u. if url_host u = Some ''b'' then Dialled [Join ()] MoreToCome else DialFailed (WsHttp 503)),
      net_regions := (\<lambda>n s. RegionUrls [''a'', ''b''])\<rparr>"

lemma cloud_attempts:
  "\<exists>calls. inner_connect cloud_net ''x.livekit.cloud'' ''t'' signal_options_default n = (Err (WsError (WsHttp 503)), calls) \<and> length calls = 2"
  "\<exists>calls. inner_connect cloud_net ''a'' ''t'' signal_options_default n = (Err (WsError (WsHttp 503)), calls) \<and> length calls = 2"
  "\<exists>inner calls. inner_connect cloud_net ''b'' ''t'' signal_options_default n = (Ok inner, calls) \<and> si_url inner = ''b''"
  by (simp_all add: inner_connect_def get_livekit_url_def Let_def cloud_net_def sample_net_def signal_options_default_def
      websocket_scheme_def client_capabilities_def push_segment_def append_pair_def stream_connect_def joined_def
      explained_def validate_token_def)

theorem region_fallback_witness:
  "\<exists>inner calls. client_connect cloud_net ''x.livekit.cloud'' ''t'' signal_options_default = (Ok inner, calls) \<and> si_url inner = ''b''"
proof -
  obtain r calls where c: "client_connect cloud_net ''x.livekit.cloud'' ''t'' signal_options_default = (r, calls)"
    by (cases "client_connect cloud_net ''x.livekit.cloud'' ''t'' signal_options_default")
  obtain calls0 where c0: "inner_connect cloud_net ''x.livekit.cloud'' ''t'' signal_options_default 0 = (Err (WsError (WsHttp 503)), calls0)"
    using cloud_attempts(1) by blast
  have f: "fetch_region_urls cloud_net ''x.livekit.cloud'' ''t'' (length calls0) = (Ok [''a'', ''b''], [RegionCall ''''])"
    by (simp add: fetch_region_urls_def is_cloud_url_def cloud_net_def sample_net_def region_endpoint_def
        fetch_from_endpoint_def host_ends_with_def)
  define N where "N = length (calls0 @ [RegionCall ''''])"
  let ?res = "region_result cloud_net ''t'' signal_options_default N [''a'', ''b'']"
  have "\<exists>k\<le>length [''a'', ''b'']. (\<forall>j<k. \<exists>e. ?res j = Err e)
      \<and> (k < length [''a'', ''b''] \<longrightarrow> r = ?res k \<and> (\<nexists>e. r = Err e))
      \<and> (k = length [''a'', ''b''] \<longrightarrow> r = (if [''a'', ''b''] = [] then Err (WsError (WsHttp 503)) else ?res (length [''a'', ''b''] - 1)))"
    unfolding N_def using region_fallback [OF c c0] f by blast
  then obtain k where k: "k \<le> length [''a'', ''b'']" "\<forall>j<k. \<exists>e. ?res j = Err e"
      "k < length [''a'', ''b''] \<longrightarrow> r = ?res k \<and> (\<nexists>e. r = Err e)"
    by blast
  obtain ca where "inner_connect cloud_net ''a'' ''t'' signal_options_default N = (Err (WsError (WsHttp 503)), ca)" "length ca = 2"
    using cloud_attempts(2) by blast
  moreover obtain inner cb where "inner_connect cloud_net ''b'' ''t'' signal_options_default (N + 2) = (Ok inner, cb)" "si_url inner = ''b''"
    using cloud_attempts(3) by blast
  ultimately have results: "?res 0 = Err (WsError (WsHttp 503))" "?res (Suc 0) = Ok inner" "si_url inner = ''b''"
    by (simp_all add: region_result_Cons)
  have "k \<noteq> 0"
    using k(3) results(1) by (cases k) auto
  moreover have "k \<noteq> 2"
    using k(2) results(2) by (auto dest: spec [of _ "Suc 0"])
  ultimately have "k = Suc 0"
    using k(1) by simp
  then show ?thesis
    using k(3) results(2,3) c by simp
qed

section \<open>Properties of the task that receives\<close>

fun run_task ::
  "nat \<Rightarrow> signal_task_state \<Rightarrow> ('j, 'c, 'r, 'a, 'm) signal_resp task_input list
    \<Rightarrow> (signal_task_state \<times> ('j, 'c, 'r, 'a, 'm) signal_resp task_output list) option" where
  "run_task timeout s [] = Some (s, [])"
| "run_task timeout s (i # is) =
     (case signal_task_step timeout s i of
        None \<Rightarrow> None
      | Some (s', out) \<Rightarrow>
          (case run_task timeout s' is of None \<Rightarrow> None | Some (s'', outs) \<Rightarrow> Some (s'', out @ outs)))"

fun emitted :: "'resp task_output list \<Rightarrow> 'resp signal_event list" where
  "emitted [] = []"
| "emitted (Emit e # os) = e # emitted os"
| "emitted (_ # os) = emitted os"

fun received :: "'resp task_input list \<Rightarrow> 'resp list" where
  "received [] = []"
| "received (Receive _ m # is) = m # received is"
| "received (_ # is) = received is"

text \<open>The last token and the time of the last message.\<close>

fun last_token :: "string \<Rightarrow> ('j, 'c, 'r, 'a, 'm) signal_resp list \<Rightarrow> string" where
  "last_token t [] = t"
| "last_token t (RefreshToken t' # ms) = last_token t' ms"
| "last_token t (_ # ms) = last_token t ms"

fun last_received :: "nat \<Rightarrow> 'resp task_input list \<Rightarrow> nat" where
  "last_received t [] = t"
| "last_received t (Receive now _ # is) = last_received now is"
| "last_received t (_ # is) = last_received t is"

fun final_input :: "'resp task_input \<Rightarrow> bool" where
  "final_input (ReceiveClosed _) = True"
| "final_input (PingTimeout _) = True"
| "final_input _ = False"

fun close_events :: "'resp task_input list \<Rightarrow> 'resp signal_event list" where
  "close_events [] = []"
| "close_events (ReceiveClosed _ # is) = CloseEvent ''stream closed'' # close_events is"
| "close_events (PingTimeout _ # is) = CloseEvent ''ping timeout'' # close_events is"
| "close_events (_ # is) = close_events is"

lemma emitted_append [simp]: "emitted (os @ os') = emitted os @ emitted os'"
  by (induction os rule: emitted.induct) simp_all

lemma stopped_task: "\<not> st_running s \<Longrightarrow> run_task timeout s is = Some (s', os) \<Longrightarrow> is = [] \<and> s' = s \<and> os = []"
  by (cases "is"; cases "hd is") auto

lemma signal_task_step_Receive:
  "signal_task_step timeout s (Receive now m) = Some (s', os) \<Longrightarrow>
     st_running s \<and> st_running s' \<and> st_deadline s' = now + timeout \<and> st_token s' = last_token (st_token s) [m]
     \<and> os = [Emit (MessageEvent m)]"
  by (cases m) (auto split: if_splits)

lemma last_token_Cons: "last_token t (m # ms) = last_token (last_token t [m]) ms"
  by (cases m) simp_all

lemma signal_task_step_out: "signal_task_step timeout s i = Some (s', os) \<Longrightarrow> os \<noteq> []"
  by (cases i) (auto split: if_splits)

lemma run_task_out:
  "run_task timeout s is = Some (s', os) \<Longrightarrow> st_running s \<Longrightarrow> \<not> st_running s' \<Longrightarrow> os \<noteq> []"
  by (cases "is") (auto dest: signal_task_step_out split: option.splits)

text \<open>
  C8: The task that receives.  It passes on the messages it receives in their order, and nothing else, until the stream
  ends or the ping times out; then it says so in one last event, asks for the stream to be closed, and stops; it keeps
  the last token it was given; and it only says that the ping has timed out when no message came for the whole timeout.
\<close>

theorem signal_task_events:
  assumes "run_task timeout s inputs = Some (s', outs)" and "st_running s" and "st_deadline s = start + timeout"
  shows "emitted outs = map MessageEvent (received inputs) @ close_events inputs
    \<and> st_token s' = last_token (st_token s) (received inputs)
    \<and> (\<forall>before i after. inputs = before @ i # after \<and> final_input i \<longrightarrow> after = [])
    \<and> (st_running s' \<longleftrightarrow> list_all (\<lambda>i. \<not> final_input i) inputs)
    \<and> (\<not> st_running s' \<longrightarrow> last outs = CloseStreamCall)
    \<and> (\<forall>before now. inputs = before @ [PingTimeout now] \<longrightarrow> last_received start before + timeout \<le> now)"
  using assms
proof (induction inputs arbitrary: s outs start)
  case (Cons i "is")
  obtain s1 o1 os where step: "signal_task_step timeout s i = Some (s1, o1)"
    and rest: "run_task timeout s1 is = Some (s', os)" and outs: "outs = o1 @ os"
    using Cons.prems(1) by (auto split: option.splits prod.splits)
  show ?case
  proof (cases i)
    case (Receive now m)
    note r = signal_task_step_Receive [OF step [unfolded Receive]]
    have ih: "emitted os = map MessageEvent (received is) @ close_events is
      \<and> st_token s' = last_token (st_token s1) (received is)
      \<and> (\<forall>before i after. is = before @ i # after \<and> final_input i \<longrightarrow> after = [])
      \<and> (st_running s' \<longleftrightarrow> list_all (\<lambda>i. \<not> final_input i) is)
      \<and> (\<not> st_running s' \<longrightarrow> last os = CloseStreamCall)
      \<and> (\<forall>before t. is = before @ [PingTimeout t] \<longrightarrow> last_received now before + timeout \<le> t)"
      using r by (intro Cons.IH [OF rest]) simp_all
    have "os \<noteq> []" if "\<not> st_running s'"
      using run_task_out [OF rest] that r by blast
    then show ?thesis
      using ih r outs Receive last_token_Cons [of "st_token s" m "received is"] by (auto simp: Cons_eq_append_conv)
  next
    case (ReceiveClosed now)
    then have "is = [] \<and> s' = s1 \<and> os = []"
      using step stopped_task [OF _ rest] by (auto split: if_splits)
    then show ?thesis
      using step outs ReceiveClosed by (auto simp: Cons_eq_append_conv split: if_splits)
  next
    case (PingTick now)
    have s1: "s1 = s" "o1 = [SendPing (of_nat now) (st_rtt s)]"
      using step PingTick by (auto split: if_splits)
    have ih: "emitted os = map MessageEvent (received is) @ close_events is
      \<and> st_token s' = last_token (st_token s1) (received is)
      \<and> (\<forall>before i after. is = before @ i # after \<and> final_input i \<longrightarrow> after = [])
      \<and> (st_running s' \<longleftrightarrow> list_all (\<lambda>i. \<not> final_input i) is)
      \<and> (\<not> st_running s' \<longrightarrow> last os = CloseStreamCall)
      \<and> (\<forall>before t. is = before @ [PingTimeout t] \<longrightarrow> last_received start before + timeout \<le> t)"
      using s1 Cons.prems(2,3) by (intro Cons.IH [OF rest]) simp_all
    have "os \<noteq> []" if "\<not> st_running s'"
      using run_task_out [OF rest] that s1 Cons.prems(2) by blast
    then show ?thesis
      using ih s1 outs PingTick by (auto simp: Cons_eq_append_conv)
  next
    case (PingTimeout now)
    then have "is = [] \<and> s' = s1 \<and> os = []"
      using step stopped_task [OF _ rest] by (auto split: if_splits)
    then show ?thesis
      using step outs PingTimeout Cons.prems(3) by (auto simp: Cons_eq_append_conv split: if_splits)
  qed
qed (auto simp: Cons_eq_append_conv)

text \<open>A token, a pong, a ping and the timeout.\<close>

definition task_inputs :: "(unit, unit, unit, unit, unit) signal_resp task_input list" where
  "task_inputs = [Receive 1000 (RefreshToken ''new''), PingTick 2000, Receive 2100 (PongResp 2000), PingTimeout 17100]"

theorem signal_task_events_witness:
  "\<exists>s0 s' outs. signal_task_start 0 ''old'' 5 15 = (Ok s0 :: (unit, _) outcome) \<and> run_task 15000 s0 task_inputs = Some (s', outs)
     \<and> emitted outs = [MessageEvent (RefreshToken ''new''), MessageEvent (PongResp 2000), CloseEvent ''ping timeout'']
     \<and> st_token s' = ''new'' \<and> st_rtt s' = 100 \<and> last outs = CloseStreamCall"
proof -
  let ?s0 = "\<lparr>st_token = ''old'', st_rtt = 0, st_deadline = 15000, st_running = True\<rparr>"
  have s0: "signal_task_start 0 ''old'' 5 15 = (Ok ?s0 :: (unit, _) outcome)"
    by (simp add: signal_task_start_def secs_of_def)
  obtain s' outs where r: "run_task 15000 ?s0 task_inputs = Some (s', outs)" "st_rtt s' = 100" "\<not> st_running s'"
    by (simp add: task_inputs_def)
  then show ?thesis
    using s0 signal_task_events [OF r(1), of 0] by (auto simp: task_inputs_def)
qed

section \<open>What the model shows\<close>

text \<open>A server that does not ask for pings makes the task panic.\<close>

lemma no_ping_interval_panics: "signal_task_start now token 0 ping_timeout = Panic"
  by (simp add: signal_task_start_def secs_of_def)

text \<open>A restart panics when the answer to the join named no participant.\<close>

lemma restart_without_participant_panics:
  "sid_of (si_join_response inner) = None \<Longrightarrow> inner_restart sid_of net n inner = Panic"
  by (simp add: inner_restart_def)
end
