(* ===== verification/LkSession.thy ===== *)
theory LkSession
  imports LkRpc LkParticipant DtProto
begin

text \<open>
  A session (\<open>livekit/src/rtc_engine/rtc_session.rs\<close>): the data packets it publishes and receives, with
  their encryption by the manager of \<open>room/e2ee/manager.rs\<close>, the events it raises, and the requests that
  wait for an answer of the server.  The cipher, the key provider and the encoding of messages are
  parameters.  Strings of the protocol are as in the theories of the components that read them.
\<close>

section \<open>Values of a data packet\<close>

record user_packet =
  up_participant_sid :: string
  up_participant_identity :: string
  up_payload :: bytes
  up_topic :: "string option"

record sip_dtmf =
  sd_code :: u32
  sd_digit :: string

record transcription_segment =
  ts_id :: string
  ts_text :: string
  ts_start_time :: u64
  ts_end_time :: u64
  ts_final :: bool
  ts_language :: string

record transcription =
  tr_transcribed_participant_identity :: string
  tr_track_id :: string
  tr_segments :: "transcription_segment list"

record chat_message =
  cm_id :: string
  cm_timestamp :: int
  cm_edit_timestamp :: "int option"
  cm_message :: string
  cm_deleted :: bool
  cm_generated :: bool

text \<open>The encryption type is the number of the protocol; an unknown one is read as none.\<close>

record encrypted_packet =
  ep_encryption_type :: i32
  ep_iv :: bytes
  ep_key_index :: u32
  ep_encrypted_value :: bytes

text \<open>Speaker updates and metrics are not looked into.\<close>

datatype data_value =
    DvUser user_packet | DvSpeaker | DvSipDtmf sip_dtmf | DvTranscription transcription | DvMetrics
  | DvChatMessage chat_message | DvRpcRequest rpc_request | DvRpcAck string
  | DvRpcResponse string "response_value option" | DvStreamHeader stream_header
  | DvStreamChunk stream_chunk | DvStreamTrailer stream_trailer | DvEncryptedPacket encrypted_packet

datatype encrypted_value =
    EvUser user_packet | EvChatMessage chat_message | EvRpcRequest rpc_request | EvRpcAck string
  | EvRpcResponse string "response_value option" | EvStreamHeader stream_header
  | EvStreamChunk stream_chunk | EvStreamTrailer stream_trailer

fun convert_encrypted_to_data_packet_value :: "encrypted_value \<Rightarrow> data_value" where
  "convert_encrypted_to_data_packet_value (EvUser u) = DvUser u"
| "convert_encrypted_to_data_packet_value (EvChatMessage m) = DvChatMessage m"
| "convert_encrypted_to_data_packet_value (EvRpcRequest r) = DvRpcRequest r"
| "convert_encrypted_to_data_packet_value (EvRpcResponse i r) = DvRpcResponse i r"
| "convert_encrypted_to_data_packet_value (EvRpcAck i) = DvRpcAck i"
| "convert_encrypted_to_data_packet_value (EvStreamHeader h) = DvStreamHeader h"
| "convert_encrypted_to_data_packet_value (EvStreamChunk c) = DvStreamChunk c"
| "convert_encrypted_to_data_packet_value (EvStreamTrailer t) = DvStreamTrailer t"

fun convert_data_packet_to_encrypted_value :: "data_value \<Rightarrow> encrypted_value option" where
  "convert_data_packet_to_encrypted_value (DvUser u) = Some (EvUser u)"
| "convert_data_packet_to_encrypted_value (DvChatMessage m) = Some (EvChatMessage m)"
| "convert_data_packet_to_encrypted_value (DvRpcRequest r) = Some (EvRpcRequest r)"
| "convert_data_packet_to_encrypted_value (DvRpcResponse i r) = Some (EvRpcResponse i r)"
| "convert_data_packet_to_encrypted_value (DvRpcAck i) = Some (EvRpcAck i)"
| "convert_data_packet_to_encrypted_value (DvStreamHeader h) = Some (EvStreamHeader h)"
| "convert_data_packet_to_encrypted_value (DvStreamChunk c) = Some (EvStreamChunk c)"
| "convert_data_packet_to_encrypted_value (DvStreamTrailer t) = Some (EvStreamTrailer t)"
| "convert_data_packet_to_encrypted_value _ = None"

section \<open>The encryption manager\<close>

text \<open>The cipher of a key provider: identity, key index and data; the result has the data, the nonce and the key index.\<close>

record data_cipher =
  cipher_encrypt :: "string \<Rightarrow> u32 \<Rightarrow> bytes \<Rightarrow> (string, bytes \<times> bytes \<times> u32) outcome"
  cipher_decrypt :: "string \<Rightarrow> bytes \<times> bytes \<times> u32 \<Rightarrow> bytes option"

record key_provider =
  kp_cipher :: data_cipher
  kp_latest_key_index :: u32

record e2ee_options =
  eo_encryption_type :: stream_encryption
  eo_key_provider :: key_provider

text \<open>The frame cryptors by identity and track, each with its flag.\<close>

record e2ee_manager =
  em_options :: "e2ee_options option"
  em_enabled :: bool
  em_dc_encryption_enabled :: bool
  em_frame_cryptors :: "(string \<times> string, bool) hashmap"
  em_data_packet_cryptor :: "data_cipher option"

definition e2ee_manager_new :: "e2ee_options option \<Rightarrow> bool \<Rightarrow> e2ee_manager" where
  "e2ee_manager_new options with_dc_encryption =
     \<lparr>em_options = options, em_enabled = (options \<noteq> None),
      em_dc_encryption_enabled = (options \<noteq> None \<and> with_dc_encryption), em_frame_cryptors = [],
      em_data_packet_cryptor = map_option (\<lambda>opts. kp_cipher (eo_key_provider opts)) options\<rparr>"

definition em_initialized :: "e2ee_manager \<Rightarrow> bool" where
  "em_initialized m \<longleftrightarrow> em_options m \<noteq> None"

definition em_is_enabled :: "e2ee_manager \<Rightarrow> bool" where
  "em_is_enabled m \<longleftrightarrow> em_enabled m \<and> em_initialized m"

definition em_encryption_type :: "e2ee_manager \<Rightarrow> stream_encryption" where
  "em_encryption_type m = (case em_options m of None \<Rightarrow> NoEncryption | Some opts \<Rightarrow> eo_encryption_type opts)"

definition encrypt_data :: "e2ee_manager \<Rightarrow> bytes \<Rightarrow> string \<Rightarrow> u32 \<Rightarrow> (string, bytes \<times> bytes \<times> u32) outcome" where
  "encrypt_data m data identity kidx =
     (case em_data_packet_cryptor m of
        None \<Rightarrow> Err ''DataPacketCryptor is not initialized''
      | Some c \<Rightarrow> cipher_encrypt c identity kidx data)"

definition decrypt_data :: "e2ee_manager \<Rightarrow> bytes \<Rightarrow> bytes \<Rightarrow> u32 \<Rightarrow> string \<Rightarrow> bytes option" where
  "decrypt_data m data nonce kidx identity =
     (case em_data_packet_cryptor m of
        None \<Rightarrow> None
      | Some c \<Rightarrow> cipher_decrypt c identity (data, nonce, kidx))"

fun encryption_number :: "stream_encryption \<Rightarrow> i32" where
  "encryption_number NoEncryption = 0"
| "encryption_number GcmEncryption = 1"
| "encryption_number CustomEncryption = 2"

definition encryption_of_number :: "i32 \<Rightarrow> stream_encryption" where
  "encryption_of_number i =
     (if i = 1 then GcmEncryption else if i = 2 then CustomEncryption else NoEncryption)"

section \<open>Publishing\<close>

text \<open>The packet, its identity and value as the session fills them in.\<close>

record session_packet =
  spk_participant_identity :: string
  spk_participant_sid :: string
  spk_value :: "data_value option"

text \<open>
  \<open>publish_data\<close> up to the queue of the data channel.  \<open>encode\<close> is that of the payload message; the
  first three arguments are the manager and the identity and sid of the local participant.
\<close>

definition publish_packet ::
  "(encrypted_value option \<Rightarrow> bytes) \<Rightarrow> e2ee_manager option \<Rightarrow> string \<Rightarrow> string \<Rightarrow> session_packet \<Rightarrow> bool
    \<Rightarrow> (string, session_packet) outcome" where
  "publish_packet encode manager identity sid packet is_raw_packet =
     (let packet = (if is_raw_packet then packet
                    else packet\<lparr>spk_participant_identity := identity, spk_participant_sid := sid\<rparr>)
      in case (manager, spk_value packet) of
           (Some m, Some v) \<Rightarrow>
             if em_dc_encryption_enabled m then
               (case convert_data_packet_to_encrypted_value v of
                  Some ev \<Rightarrow>
                    (let kidx = (case em_options m of None \<Rightarrow> 0
                                      | Some opts \<Rightarrow> kp_latest_key_index (eo_key_provider opts))
                     in case encrypt_data m (encode (Some ev)) identity kidx of
                          Ok (data, nonce, ki) \<Rightarrow>
                            Ok (packet\<lparr>spk_value := Some (DvEncryptedPacket
                              \<lparr>ep_encryption_type = encryption_number (em_encryption_type m),
                               ep_iv = nonce, ep_key_index = ki, ep_encrypted_value = data\<rparr>)\<rparr>)
                        | Err e \<Rightarrow> Err (''Failed to encrypt data packet: '' @ e)
                        | Panic \<Rightarrow> Panic)
                | None \<Rightarrow> Ok packet)
             else Ok packet
         | _ \<Rightarrow> Ok packet)"

section \<open>Receiving\<close>

record room_chat_message =
  rcm_id :: string
  rcm_message :: string
  rcm_timestamp :: int
  rcm_edit_timestamp :: "int option"
  rcm_deleted :: "bool option"
  rcm_generated :: "bool option"

definition chat_message_from :: "chat_message \<Rightarrow> room_chat_message" where
  "chat_message_from m =
     \<lparr>rcm_id = cm_id m, rcm_message = cm_message m, rcm_timestamp = cm_timestamp m,
      rcm_edit_timestamp = cm_edit_timestamp m, rcm_deleted = Some (cm_deleted m),
      rcm_generated = Some (cm_generated m)\<rparr>"

definition chat_message_to :: "room_chat_message \<Rightarrow> chat_message" where
  "chat_message_to m =
     \<lparr>cm_id = rcm_id m, cm_timestamp = rcm_timestamp m, cm_edit_timestamp = rcm_edit_timestamp m,
      cm_message = rcm_message m, cm_deleted = (case rcm_deleted m of None \<Rightarrow> False | Some b \<Rightarrow> b),
      cm_generated = (case rcm_generated m of None \<Rightarrow> False | Some b \<Rightarrow> b)\<rparr>"

text \<open>The events that data packets raise; \<open>reliable\<close> is the kind of the channel.\<close>

datatype session_data_event =
    SeData (se_reliable: bool) (se_sid: "string option") (se_identity: "string option") bytes "string option"
      stream_encryption
  | SeSipDtmf "string option" u32 "string option"
  | SeTranscription string string "transcription_segment list"
  | SeRpcRequest "string option" string string bytes nat u32
  | SeRpcResponse string "bytes option" "rpc_error_proto option"
  | SeRpcAck string
  | SeChatMessage string room_chat_message
  | SeStreamHeader stream_header string stream_encryption
  | SeStreamChunk stream_chunk string stream_encryption
  | SeStreamTrailer stream_trailer string

text \<open>The identity of a sender that is not known is the empty one.\<close>

definition identity_or_empty :: "string option \<Rightarrow> string" where
  "identity_or_empty identity = (case identity of None \<Rightarrow> '''' | Some i \<Rightarrow> i)"

text \<open>\<open>or_else\<close> of an option.\<close>

definition or_else :: "'a option \<Rightarrow> 'a option \<Rightarrow> 'a option" where
  "or_else a b = (case a of None \<Rightarrow> b | Some x \<Rightarrow> Some x)"

text \<open>Every value but the encrypted one; speaker updates and metrics raise nothing.\<close>

fun plain_event ::
  "bool \<Rightarrow> string option \<Rightarrow> string option \<Rightarrow> data_value \<Rightarrow> stream_encryption \<Rightarrow> session_data_event option" where
  "plain_event reliable sid identity (DvUser user) e =
     Some (SeData reliable (or_else sid (from_prefix PARTICIPANT_PREFIX (up_participant_sid user)))
       (or_else identity (Some (up_participant_identity user))) (up_payload user) (up_topic user) e)"
| "plain_event reliable sid identity (DvSipDtmf dtmf) e =
     Some (SeSipDtmf identity (sd_code dtmf) (if sd_digit dtmf \<noteq> '''' then Some (sd_digit dtmf) else None))"
| "plain_event reliable sid identity (DvTranscription t) e =
     Some (SeTranscription (tr_transcribed_participant_identity t) (tr_track_id t) (tr_segments t))"
| "plain_event reliable sid identity (DvRpcRequest r) e =
     Some (SeRpcRequest identity (rq_id r) (rq_method r) (rq_payload r) (unat (rq_response_timeout_ms r)) (rq_version r))"
| "plain_event reliable sid identity (DvRpcResponse i v) e =
     Some (SeRpcResponse i (fst (response_from_wire v)) (snd (response_from_wire v)))"
| "plain_event reliable sid identity (DvRpcAck i) e = Some (SeRpcAck i)"
| "plain_event reliable sid identity (DvChatMessage m) e =
     Some (SeChatMessage (identity_or_empty identity) (chat_message_from m))"
| "plain_event reliable sid identity (DvStreamHeader h) e =
     Some (SeStreamHeader h (identity_or_empty identity) e)"
| "plain_event reliable sid identity (DvStreamChunk c) e =
     Some (SeStreamChunk c (identity_or_empty identity) e)"
| "plain_event reliable sid identity (DvStreamTrailer t) e =
     Some (SeStreamTrailer t (identity_or_empty identity))"
| "plain_event reliable sid identity _ e = None"

text \<open>\<open>decode\<close> is that of the payload message; its value may be missing.\<close>

fun emit_incoming_packet ::
  "(bytes \<Rightarrow> encrypted_value option option) \<Rightarrow> e2ee_manager option \<Rightarrow> bool \<Rightarrow> string option \<Rightarrow> string option
    \<Rightarrow> data_value \<Rightarrow> stream_encryption \<Rightarrow> session_data_event option" where
  "emit_incoming_packet decode manager reliable sid identity (DvEncryptedPacket p) e =
     (case manager of
        None \<Rightarrow> None
      | Some m \<Rightarrow>
          (case decrypt_data m (ep_encrypted_value p) (ep_iv p) (ep_key_index p) (identity_or_empty identity) of
             None \<Rightarrow> None
           | Some contents \<Rightarrow>
               (case decode contents of
                  Some (Some value) \<Rightarrow>
                    plain_event reliable sid identity (convert_encrypted_to_data_packet_value value)
                      (encryption_of_number (ep_encryption_type p))
                | _ \<Rightarrow> None)))"
| "emit_incoming_packet decode manager reliable sid identity v e = plain_event reliable sid identity v e"

text \<open>
  The event of a packet that arrives, \<open>RtcEvent::Data\<close>.  Every text is an identity, also the
  empty one.
\<close>

definition receive_packet ::
  "(bytes \<Rightarrow> encrypted_value option option) \<Rightarrow> e2ee_manager option \<Rightarrow> bool \<Rightarrow> session_packet
    \<Rightarrow> session_data_event option" where
  "receive_packet decode manager reliable packet =
     (case spk_value packet of
        None \<Rightarrow> None
      | Some v \<Rightarrow> emit_incoming_packet decode manager reliable
          (from_prefix PARTICIPANT_PREFIX (spk_participant_sid packet))
          (Some (spk_participant_identity packet)) v NoEncryption)"

section \<open>Data packets\<close>

text \<open>Whether a manager encrypts a value.\<close>

definition dc_encrypts :: "e2ee_manager option \<Rightarrow> data_value \<Rightarrow> bool" where
  "dc_encrypts manager v \<longleftrightarrow>
     (case manager of None \<Rightarrow> False
      | Some m \<Rightarrow> em_dc_encryption_enabled m \<and> convert_data_packet_to_encrypted_value v \<noteq> None)"

text \<open>The cipher of the receiver opens what that of the sender closes for an identity.\<close>

definition ciphers_match :: "e2ee_manager option \<Rightarrow> e2ee_manager option \<Rightarrow> string \<Rightarrow> bool" where
  "ciphers_match sender receiver identity \<longleftrightarrow>
     (\<forall>m c kidx data closed. sender = Some m \<and> em_data_packet_cryptor m = Some c
        \<and> cipher_encrypt c identity kidx data = Ok closed \<longrightarrow>
          (\<exists>m' c'. receiver = Some m' \<and> em_data_packet_cryptor m' = Some c' \<and> cipher_decrypt c' identity closed = Some data))"

lemma convert_back:
  "convert_data_packet_to_encrypted_value v = Some ev \<Longrightarrow> convert_encrypted_to_data_packet_value ev = v"
  by (cases v) auto

lemma convert_not_encrypted:
  "convert_data_packet_to_encrypted_value v = Some ev \<Longrightarrow>
     emit_incoming_packet decode manager reliable sid identity v e = plain_event reliable sid identity v e"
  by (cases v) auto

lemma encryption_number_roundtrip [simp]: "encryption_of_number (encryption_number e) = e"
  by (cases e) (simp_all add: encryption_of_number_def)

lemma publish_packet_plain:
  assumes "\<not> (\<exists>v. spk_value packet = Some v \<and> dc_encrypts manager v)"
  shows "publish_packet encode manager identity sid packet raw =
    Ok (if raw then packet else packet\<lparr>spk_participant_identity := identity, spk_participant_sid := sid\<rparr>)"
  using assms by (auto simp: publish_packet_def dc_encrypts_def Let_def split: option.splits)

lemma publish_packet_encrypted:
  assumes "publish_packet encode manager identity sid packet raw = Ok sent"
    and "spk_value packet = Some v" and "dc_encrypts manager v"
  obtains m c kidx ev data nonce ki where "manager = Some m" "em_data_packet_cryptor m = Some c"
    "convert_data_packet_to_encrypted_value v = Some ev"
    "cipher_encrypt c identity kidx (encode (Some ev)) = Ok (data, nonce, ki)"
    "sent = (if raw then packet else packet\<lparr>spk_participant_identity := identity, spk_participant_sid := sid\<rparr>)
       \<lparr>spk_value := Some (DvEncryptedPacket \<lparr>ep_encryption_type = encryption_number (em_encryption_type m),
          ep_iv = nonce, ep_key_index = ki, ep_encrypted_value = data\<rparr>)\<rparr>"
proof -
  obtain m ev where m: "manager = Some m" "em_dc_encryption_enabled m" "convert_data_packet_to_encrypted_value v = Some ev"
    using assms(3) by (auto simp: dc_encrypts_def split: option.splits)
  then show ?thesis
    using assms(1,2) that
    by (auto simp: publish_packet_def Let_def encrypt_data_def split: option.splits outcome.splits if_splits)
qed

text \<open>
  C25: Data packets arrive as they were sent.  What the session hands to the data channel raises, at a receiver whose cipher
  opens what the sender closes, the event that the value itself would raise, with the encryption type of the sender when
  it was encrypted and none otherwise; and when the sender encrypts a value, the value never goes out readable: the
  packet carries the closed payload, or nothing is sent.
\<close>

theorem data_packets_cross:
  assumes "publish_packet encode sender identity sid packet raw = Ok sent"
    and "spk_value packet = Some v" and "\<not> (\<exists>p. v = DvEncryptedPacket p)"
    and "spk_participant_identity sent = identity" and "ciphers_match sender receiver identity"
    and "decode (encode (convert_data_packet_to_encrypted_value v)) = Some (convert_data_packet_to_encrypted_value v)"
  shows "receive_packet decode receiver reliable sent =
      plain_event reliable (from_prefix PARTICIPANT_PREFIX (spk_participant_sid sent)) (Some identity) v
        (case sender of Some m \<Rightarrow> if dc_encrypts sender v then em_encryption_type m else NoEncryption | None \<Rightarrow> NoEncryption)
    \<and> (dc_encrypts sender v \<longrightarrow> (\<exists>m c ev kidx p. sender = Some m \<and> em_data_packet_cryptor m = Some c
         \<and> spk_value sent = Some (DvEncryptedPacket p) \<and> convert_encrypted_to_data_packet_value ev = v
         \<and> cipher_encrypt c identity kidx (encode (Some ev)) = Ok (ep_encrypted_value p, ep_iv p, ep_key_index p)))"
proof (cases "dc_encrypts sender v")
  case False
  then have "sent = (if raw then packet else packet\<lparr>spk_participant_identity := identity, spk_participant_sid := sid\<rparr>)"
    using publish_packet_plain [of packet sender encode identity sid raw] assms(1,2) by auto
  then have "spk_value sent = Some v"
    using assms(2) by simp
  moreover have "emit_incoming_packet decode receiver reliable s i v e = plain_event reliable s i v e" for s i e
    using assms(3) by (cases v) auto
  ultimately show ?thesis
    using False assms(4) by (auto simp: receive_packet_def split: option.splits)
next
  case True
  obtain m c kidx ev data nonce ki where p: "sender = Some m" "em_data_packet_cryptor m = Some c"
    "convert_data_packet_to_encrypted_value v = Some ev"
    "cipher_encrypt c identity kidx (encode (Some ev)) = Ok (data, nonce, ki)"
    "spk_value sent = Some (DvEncryptedPacket \<lparr>ep_encryption_type = encryption_number (em_encryption_type m),
          ep_iv = nonce, ep_key_index = ki, ep_encrypted_value = data\<rparr>)"
    by (rule publish_packet_encrypted [OF assms(1,2) True]) auto
  obtain m' c' where "receiver = Some m'" "em_data_packet_cryptor m' = Some c'"
    "cipher_decrypt c' identity (data, nonce, ki) = Some (encode (Some ev))"
    using assms(5) p(1,2,4) unfolding ciphers_match_def by blast
  then have "receive_packet decode receiver reliable sent =
      plain_event reliable (from_prefix PARTICIPANT_PREFIX (spk_participant_sid sent)) (Some identity) v (em_encryption_type m)"
    using p(3,5) assms(4,6) convert_back [OF p(3)]
    by (simp add: receive_packet_def decrypt_data_def identity_or_empty_def)
  then show ?thesis
    using True p convert_back [OF p(3)] by auto
qed

text \<open>A cipher that shifts every byte by the length of the identity, and a payload that holds an acknowledgement.\<close>

definition shift_cipher :: data_cipher where
  "shift_cipher =
     \<lparr>cipher_encrypt = (\<lambda>identity ki data. Ok (map (\<lambda>b. b + of_nat (length identity)) data, [7], ki)),
      cipher_decrypt = (\<lambda>identity (data, nonce, ki). Some (map (\<lambda>b. b - of_nat (length identity)) data))\<rparr>"

definition shift_manager :: e2ee_manager where
  "shift_manager =
     e2ee_manager_new (Some \<lparr>eo_encryption_type = GcmEncryption, eo_key_provider = \<lparr>kp_cipher = shift_cipher, kp_latest_key_index = 4\<rparr>\<rparr>) True"

definition ack_packet :: session_packet where
  "ack_packet = \<lparr>spk_participant_identity = '''', spk_participant_sid = '''', spk_value = Some (DvRpcAck ''r'')\<rparr>"

theorem data_packets_cross_witness:
  "\<exists>sent. publish_packet (\<lambda>v. [1, 2]) (Some shift_manager) ''al'' ''PA_1'' ack_packet False = Ok sent
     \<and> receive_packet (\<lambda>bs. if bs = [1, 2] then Some (Some (EvRpcAck ''r'')) else None) (Some shift_manager) True sent
         = Some (SeRpcAck ''r'')
     \<and> spk_value sent = Some (DvEncryptedPacket
         \<lparr>ep_encryption_type = 1, ep_iv = [7], ep_key_index = 4, ep_encrypted_value = [3, 4]\<rparr>)"
proof -
  obtain sent where sent: "publish_packet (\<lambda>v. [1, 2]) (Some shift_manager) ''al'' ''PA_1'' ack_packet False = Ok sent"
    "spk_participant_identity sent = ''al''"
    "spk_value sent = Some (DvEncryptedPacket
         \<lparr>ep_encryption_type = 1, ep_iv = [7], ep_key_index = 4, ep_encrypted_value = [3, 4]\<rparr>)"
    by (simp add: publish_packet_def shift_manager_def e2ee_manager_new_def ack_packet_def encrypt_data_def
        shift_cipher_def em_encryption_type_def)
  have "ciphers_match (Some shift_manager) (Some shift_manager) ''al''"
    by (auto simp: ciphers_match_def shift_manager_def e2ee_manager_new_def shift_cipher_def comp_def)
  moreover have "spk_value ack_packet = Some (DvRpcAck ''r'')"
    by (simp add: ack_packet_def)
  ultimately show ?thesis
    using data_packets_cross [OF sent(1), of "DvRpcAck ''r''" "Some shift_manager"
        "\<lambda>bs. if bs = [1, 2] then Some (Some (EvRpcAck ''r'')) else None" True] sent by simp
qed

text \<open>
  The identity of a user packet, kept for old senders, is never used: the identity of the packet is
  always there, if only as the empty text.
\<close>

lemma user_identity_never_used:
  "receive_packet decode manager reliable \<lparr>spk_participant_identity = '''', spk_participant_sid = sid, spk_value = Some (DvUser user)\<rparr>
     = Some (SeData reliable (or_else (from_prefix PARTICIPANT_PREFIX sid) (from_prefix PARTICIPANT_PREFIX (up_participant_sid user)))
         (Some '''') (up_payload user) (up_topic user) NoEncryption)"
  by (simp add: receive_packet_def or_else_def)

text \<open>A receiver that encrypts takes readable values too.\<close>

lemma readable_values_accepted:
  "convert_data_packet_to_encrypted_value v = Some ev \<Longrightarrow>
     emit_incoming_packet decode (Some m) reliable sid identity v e = emit_incoming_packet decode None reliable sid identity v e"
  by (simp add: convert_not_encrypted)

text \<open>A chat message survives the way to the protocol and back, but for the missing marks.\<close>

lemma chat_message_roundtrip:
  "chat_message_from (chat_message_to m) = m \<longleftrightarrow> rcm_deleted m \<noteq> None \<and> rcm_generated m \<noteq> None"
  "chat_message_to (chat_message_from c) = c"
  by (cases m; auto simp: chat_message_to_def chat_message_from_def split: option.splits)+
section \<open>Waiting for published tracks\<close>

text \<open>
  The calls of \<open>add_track\<close> that wait for the server, and the map from the id of the client to the
  sending half of a channel: the number of the call it belongs to.
\<close>

datatype add_track_error = AlreadyPublished | PublicationTimedOut | PublicationCancelled

record 'i add_call =
  ac_cid :: string
  ac_rx :: "'i oneshot"
  ac_result :: "(add_track_error, 'i) outcome option"

record 'i pending_state =
  pn_pending :: "(string, nat) hashmap"
  pn_calls :: "'i add_call list"

definition pending_new :: "'i pending_state" where
  "pending_new = \<lparr>pn_pending = [], pn_calls = []\<rparr>"

definition set_rx :: "nat \<Rightarrow> 'i oneshot \<Rightarrow> 'i pending_state \<Rightarrow> 'i pending_state" where
  "set_rx i r s = s\<lparr>pn_calls := (pn_calls s)[i := (pn_calls s ! i)\<lparr>ac_rx := r\<rparr>]\<rparr>"

definition set_result :: "nat \<Rightarrow> (add_track_error, 'i) outcome \<Rightarrow> 'i pending_state \<Rightarrow> 'i pending_state" where
  "set_result i r s = s\<lparr>pn_calls := (pn_calls s)[i := (pn_calls s ! i)\<lparr>ac_result := Some r\<rparr>]\<rparr>"

text \<open>An entry that is removed drops its sending half.\<close>

definition drop_pending :: "string \<Rightarrow> 'i pending_state \<Rightarrow> 'i pending_state" where
  "drop_pending cid s =
     (case map_of (pn_pending s) cid of
        None \<Rightarrow> s
      | Some i \<Rightarrow> set_rx i SenderDropped (s\<lparr>pn_pending := hm_remove cid (pn_pending s)\<rparr>))"

definition add_track_begin :: "string \<Rightarrow> 'i pending_state \<Rightarrow> 'i pending_state" where
  "add_track_begin cid s =
     (if hm_contains (pn_pending s) cid
      then s\<lparr>pn_calls := pn_calls s @ [\<lparr>ac_cid = cid, ac_rx = SenderDropped, ac_result = Some (Err AlreadyPublished)\<rparr>]\<rparr>
      else s\<lparr>pn_pending := hm_insert cid (length (pn_calls s)) (pn_pending s),
             pn_calls := pn_calls s @ [\<lparr>ac_cid = cid, ac_rx = Unsent, ac_result = None\<rparr>]\<rparr>)"

text \<open>The answer of the server; \<open>publish_res.track.unwrap()\<close>.\<close>

definition on_track_published :: "string \<Rightarrow> 'i option \<Rightarrow> 'i pending_state \<Rightarrow> (unit, 'i pending_state) outcome" where
  "on_track_published cid track s =
     (case map_of (pn_pending s) cid of
        None \<Rightarrow> Ok s
      | Some i \<Rightarrow>
          (case track of
             None \<Rightarrow> Panic
           | Some info \<Rightarrow> Ok (set_rx i (Sent info) (s\<lparr>pn_pending := hm_remove cid (pn_pending s)\<rparr>))))"

text \<open>
  The \<open>select!\<close> of a call.  A channel whose sender is gone does not match the pattern of its
  branch, which is then disabled; the branch of the timer always matches, so the last branch,
  for a cancelled publication, is only taken when both are disabled, which does not happen.
\<close>

definition add_track_poll :: "nat \<Rightarrow> 'i pending_state \<Rightarrow> 'i pending_state option" where
  "add_track_poll i s =
     (if i < length (pn_calls s) \<and> ac_result (pn_calls s ! i) = None then
        (case ac_rx (pn_calls s ! i) of Sent info \<Rightarrow> Some (set_result i (Ok info) s) | _ \<Rightarrow> None)
      else None)"

definition add_track_timeout :: "nat \<Rightarrow> 'i pending_state \<Rightarrow> 'i pending_state option" where
  "add_track_timeout i s =
     (if i < length (pn_calls s) \<and> ac_result (pn_calls s ! i) = None
      then Some (set_result i (Err PublicationTimedOut) (drop_pending (ac_cid (pn_calls s ! i)) s)) else None)"

text \<open>\<open>remove_track\<close> for the track of a sender.\<close>

datatype 'i pending_event = AddTrackCall string | TrackPublished string 'i | AddTrackPoll nat | AddTrackTimeout nat
  | RemoveTrackCall string

fun pending_apply :: "'i pending_event \<Rightarrow> 'i pending_state \<Rightarrow> 'i pending_state option" where
  "pending_apply (AddTrackCall cid) s = Some (add_track_begin cid s)"
| "pending_apply (TrackPublished cid info) s =
     (case on_track_published cid (Some info) s of Ok s' \<Rightarrow> Some s' | _ \<Rightarrow> None)"
| "pending_apply (AddTrackPoll i) s = add_track_poll i s"
| "pending_apply (AddTrackTimeout i) s = add_track_timeout i s"
| "pending_apply (RemoveTrackCall track_id) s = Some (drop_pending track_id s)"

text \<open>
  Every entry belongs to a call of its id that waits; a call that has returned a track got it
  through its channel; no call was ever told that it was cancelled.
\<close>

definition pending_inv :: "'i pending_state \<Rightarrow> bool" where
  "pending_inv s \<longleftrightarrow> hm_inv (pn_pending s)
     \<and> (\<forall>cid i. map_of (pn_pending s) cid = Some i \<longrightarrow> i < length (pn_calls s)
          \<and> ac_cid (pn_calls s ! i) = cid \<and> ac_rx (pn_calls s ! i) = Unsent \<and> ac_result (pn_calls s ! i) = None)
     \<and> (\<forall>i<length (pn_calls s). ac_rx (pn_calls s ! i) = Unsent \<longrightarrow> map_of (pn_pending s) (ac_cid (pn_calls s ! i)) = Some i)
     \<and> (\<forall>c\<in>set (pn_calls s). \<forall>info. ac_result c = Some (Ok info) \<longrightarrow> ac_rx c = Sent info)
     \<and> (\<forall>c\<in>set (pn_calls s). ac_result c \<noteq> Some (Err PublicationCancelled) \<and> ac_result c \<noteq> Some Panic)"

lemma set_rx_simps [simp]:
  "pn_pending (set_rx i r s) = pn_pending s" "length (pn_calls (set_rx i r s)) = length (pn_calls s)"
  "j < length (pn_calls s) \<Longrightarrow> pn_calls (set_rx i r s) ! j = (if j = i then (pn_calls s ! i)\<lparr>ac_rx := r\<rparr> else pn_calls s ! j)"
  by (auto simp: set_rx_def nth_list_update)

lemma set_result_simps [simp]:
  "pn_pending (set_result i r s) = pn_pending s" "length (pn_calls (set_result i r s)) = length (pn_calls s)"
  "j < length (pn_calls s) \<Longrightarrow> pn_calls (set_result i r s) ! j = (if j = i then (pn_calls s ! i)\<lparr>ac_result := Some r\<rparr> else pn_calls s ! j)"
  by (auto simp: set_result_def nth_list_update)

text \<open>The invariant by the numbers of the calls.\<close>

definition call_ok :: "'i pending_state \<Rightarrow> nat \<Rightarrow> bool" where
  "call_ok s i \<longleftrightarrow> (let c = pn_calls s ! i in
     (ac_rx c = Unsent \<longrightarrow> map_of (pn_pending s) (ac_cid c) = Some i \<and> ac_result c = None)
     \<and> (\<forall>info. ac_result c = Some (Ok info) \<longrightarrow> ac_rx c = Sent info)
     \<and> ac_result c \<noteq> Some (Err PublicationCancelled) \<and> ac_result c \<noteq> Some Panic)"

lemma pending_inv_alt:
  "pending_inv s \<longleftrightarrow> hm_inv (pn_pending s)
     \<and> (\<forall>cid i. map_of (pn_pending s) cid = Some i \<longrightarrow> i < length (pn_calls s)
          \<and> ac_cid (pn_calls s ! i) = cid \<and> ac_rx (pn_calls s ! i) = Unsent)
     \<and> (\<forall>i<length (pn_calls s). call_ok s i)"
  unfolding pending_inv_def call_ok_def Let_def all_set_conv_all_nth by blast

lemma entry_unique:
  "pending_inv s \<Longrightarrow> map_of (pn_pending s) cid = Some i \<Longrightarrow> map_of (pn_pending s) cid' = Some i \<Longrightarrow> cid' = cid"
  unfolding pending_inv_def by metis

lemma entry_unsent:
  "pending_inv s \<Longrightarrow> map_of (pn_pending s) cid = Some i \<Longrightarrow>
     i < length (pn_calls s) \<and> ac_cid (pn_calls s ! i) = cid \<and> ac_rx (pn_calls s ! i) = Unsent
     \<and> ac_result (pn_calls s ! i) = None"
  unfolding pending_inv_def by blast

lemma pending_call_ok: "pending_inv s \<Longrightarrow> i < length (pn_calls s) \<Longrightarrow> call_ok s i"
  by (simp add: pending_inv_alt)

lemma pending_inv_set_rx:
  assumes inv: "pending_inv s" and cid: "map_of (pn_pending s) cid = Some i" and r: "r \<noteq> Unsent"
  shows "pending_inv (set_rx i r (s\<lparr>pn_pending := hm_remove cid (pn_pending s)\<rparr>))" (is "pending_inv ?t")
  unfolding pending_inv_alt
proof (intro conjI allI impI)
  show "hm_inv (pn_pending ?t)"
    using inv by (simp add: pending_inv_def)
next
  fix cid' j
  assume "map_of (pn_pending ?t) cid' = Some j"
  then have "cid' \<noteq> cid" "map_of (pn_pending s) cid' = Some j"
    by (auto split: if_splits)
  then show "j < length (pn_calls ?t)" "ac_cid (pn_calls ?t ! j) = cid'" "ac_rx (pn_calls ?t ! j) = Unsent"
    using entry_unsent [OF inv] entry_unique [OF inv cid] by auto
next
  fix j
  assume "j < length (pn_calls ?t)"
  then show "call_ok ?t j"
    using pending_call_ok [OF inv, of j] entry_unsent [OF inv cid] r cid by (auto simp: call_ok_def Let_def)
qed

lemma pending_inv_drop: "pending_inv s \<Longrightarrow> pending_inv (drop_pending cid s)"
  by (auto simp: drop_pending_def pending_inv_set_rx split: option.splits)

lemma pending_inv_set_result:
  assumes inv: "pending_inv s" and i: "i < length (pn_calls s)" "ac_rx (pn_calls s ! i) \<noteq> Unsent"
    and r: "\<And>info. r = Ok info \<Longrightarrow> ac_rx (pn_calls s ! i) = Sent info" "r \<noteq> Err PublicationCancelled" "r \<noteq> Panic"
  shows "pending_inv (set_result i r s)" (is "pending_inv ?t")
  unfolding pending_inv_alt
proof (intro conjI allI impI)
  show "hm_inv (pn_pending ?t)"
    using inv by (simp add: pending_inv_def)
next
  fix cid' j
  assume "map_of (pn_pending ?t) cid' = Some j"
  then have "map_of (pn_pending s) cid' = Some j"
    by simp
  then show "j < length (pn_calls ?t)" "ac_cid (pn_calls ?t ! j) = cid'" "ac_rx (pn_calls ?t ! j) = Unsent"
    using entry_unsent [OF inv] by auto
next
  fix j
  assume "j < length (pn_calls ?t)"
  then show "call_ok ?t j"
    using pending_call_ok [OF inv, of j] i r by (cases "j = i") (auto simp: call_ok_def Let_def)
qed

lemma drop_pending_calls:
  "length (pn_calls (drop_pending cid s)) = length (pn_calls s)"
  "i < length (pn_calls s) \<Longrightarrow> ac_rx (pn_calls (drop_pending cid s) ! i) =
     (if map_of (pn_pending s) cid = Some i then SenderDropped else ac_rx (pn_calls s ! i))"
  by (auto simp: drop_pending_def split: option.splits)

lemma drop_own:
  assumes inv: "pending_inv s" and i: "i < length (pn_calls s)"
  shows "ac_rx (pn_calls (drop_pending (ac_cid (pn_calls s ! i)) s) ! i) \<noteq> Unsent"
  using pending_call_ok [OF inv i] i by (auto simp: drop_pending_calls call_ok_def Let_def)

lemma pending_inv_begin: "pending_inv s \<Longrightarrow> pending_inv (add_track_begin cid s)"
  by (auto simp: add_track_begin_def pending_inv_alt call_ok_def Let_def nth_append less_Suc_eq)

lemma pending_inv_apply:
  assumes inv: "pending_inv s" and step: "pending_apply e s = Some s'"
  shows "pending_inv s'"
proof (cases e)
  case (AddTrackTimeout i)
  then have "i < length (pn_calls s)"
    "s' = set_result i (Err PublicationTimedOut) (drop_pending (ac_cid (pn_calls s ! i)) s)"
    using step by (auto simp: add_track_timeout_def split: if_splits)
  then show ?thesis
    using drop_own [OF inv] by (auto intro!: pending_inv_set_result pending_inv_drop inv simp: drop_pending_calls(1))
next
  case (AddTrackPoll i)
  then show ?thesis
    using step inv by (auto simp: add_track_poll_def intro!: pending_inv_set_result split: if_splits oneshot.splits)
next
  case (TrackPublished cid info)
  then show ?thesis
    using step inv by (auto simp: on_track_published_def intro: pending_inv_set_rx split: option.splits)
qed (use step inv in \<open>auto simp: pending_inv_begin pending_inv_drop\<close>)

interpretation pnm: enabled_machine pending_apply pending_new pending_inv
  by unfold_locales (simp add: pending_new_def pending_inv_def, rule pending_inv_apply)

text \<open>
  The tracks that wait for the server.  In every reachable state an entry of the map belongs to a call of its id that
  still waits, a call whose channel is open has its entry, a call that returned a track got it from the server through its
  channel, and no call ever returns that its publication was cancelled: a call whose entry was removed under it can only
  return by its timeout.
\<close>

theorem pending_tracks_exact:
  assumes "reachable pending_apply pending_new s" and "i < length (pn_calls s)"
  shows "(\<forall>cid j. map_of (pn_pending s) cid = Some j \<longrightarrow> j < length (pn_calls s) \<and> ac_cid (pn_calls s ! j) = cid
         \<and> ac_rx (pn_calls s ! j) = Unsent \<and> ac_result (pn_calls s ! j) = None)
    \<and> (ac_rx (pn_calls s ! i) = Unsent \<longrightarrow> map_of (pn_pending s) (ac_cid (pn_calls s ! i)) = Some i)
    \<and> (\<forall>info. ac_result (pn_calls s ! i) = Some (Ok info) \<longrightarrow> ac_rx (pn_calls s ! i) = Sent info)
    \<and> ac_result (pn_calls s ! i) \<noteq> Some (Err PublicationCancelled)
    \<and> (ac_rx (pn_calls s ! i) = SenderDropped \<and> ac_result (pn_calls s ! i) = None \<longrightarrow>
         add_track_poll i s = None \<and> (\<exists>s'. add_track_timeout i s = Some s' \<and> ac_result (pn_calls s' ! i) = Some (Err PublicationTimedOut)))"
proof -
  have inv: "pending_inv s"
    by (rule pnm.reachable_inv [OF assms(1)])
  have "add_track_timeout i s = Some (set_result i (Err PublicationTimedOut) (drop_pending (ac_cid (pn_calls s ! i)) s))"
    if "ac_result (pn_calls s ! i) = None"
    using that assms(2) by (simp add: add_track_timeout_def)
  then show ?thesis
    using inv assms(2) drop_pending_calls(1) [of _ s] unfolding pending_inv_def
    by (auto simp: add_track_poll_def)
qed

text \<open>A track that the server publishes, and one that is removed while it waits.\<close>

definition pending_trace :: "nat pending_event list" where
  "pending_trace = [AddTrackCall ''a'', AddTrackCall ''b'', TrackPublished ''a'' 7, AddTrackPoll 0, RemoveTrackCall ''b'']"

lemmas pending_reachable = run_enabled_reachable [OF reachable_start, of pending_apply]

theorem pending_tracks_exact_witness:
  "\<exists>s. run_enabled pending_apply pending_trace pending_new = Some s \<and> ac_result (pn_calls s ! 0) = Some (Ok 7)
     \<and> ac_rx (pn_calls s ! 1) = SenderDropped \<and> add_track_poll 1 s = None"
proof -
  obtain s where s: "run_enabled pending_apply pending_trace pending_new = Some s" "length (pn_calls s) = 2"
    "ac_result (pn_calls s ! 0) = Some (Ok 7)" "ac_rx (pn_calls s ! 1) = SenderDropped" "ac_result (pn_calls s ! 1) = None"
    by (simp add: pending_trace_def pending_new_def add_track_begin_def on_track_published_def add_track_poll_def
        drop_pending_def set_rx_def set_result_def hm_insert_def hm_remove_def)
  then show ?thesis
    using pending_tracks_exact [OF pending_reachable [OF s(1)], of 1] by simp
qed

text \<open>
  A call whose entry was removed takes, when it times out, the entry of a later call of the same
  id with it: the server publishes the track, and the later call times out.
\<close>

lemma timeout_takes_later_entry:
  "\<exists>s. run_enabled pending_apply [AddTrackCall c, RemoveTrackCall c, AddTrackCall c, AddTrackTimeout 0,
        TrackPublished c info, AddTrackTimeout 1] pending_new = Some s
     \<and> ac_result (pn_calls s ! 1) = Some (Err PublicationTimedOut)"
  by (simp add: pending_new_def add_track_begin_def on_track_published_def add_track_timeout_def
      drop_pending_def set_rx_def set_result_def hm_insert_def hm_remove_def)

lemma published_without_track_panics:
  "map_of (pn_pending s) cid = Some i \<Longrightarrow> on_track_published cid None s = Panic"
  by (simp add: on_track_published_def)

section \<open>Messages of the server\<close>

text \<open>
  What the session needs of the transports and of the libraries that read descriptions and
  candidates.  A call of a transport succeeds, fails, or never returns.
\<close>

datatype 'c transport_call = SetRemoteAnswer string | CreateAnswerFor string | PublisherCandidate 'c
  | SubscriberCandidate 'c | AddRecvOnly bool

datatype call_end = CallOk | CallErr engine_error | CallStuck

record 'c session_env =
  env_type_ok :: "string \<Rightarrow> bool"
  env_sdp_ok :: "string \<Rightarrow> bool"
  env_candidate :: "string \<Rightarrow> 'c option"
  env_answer :: "string \<Rightarrow> string"
  env_call :: "'c transport_call \<Rightarrow> call_end"

text \<open>The messages; what is only passed on is a payload.  The target of a candidate is the publisher or not.\<close>

datatype ('i, 'p) server_message =
    MAnswer string string "(string \<times> string) list" | MOffer string string | MTrickle bool string
  | MLeave disconnect_reason leave_action | MUpdate "proto_participant_info list" 'p | MSpeakersChanged 'p
  | MConnectionQuality 'p | MTrackPublished string "'i option" | MRoomUpdate "'p option" | MRoomMoved 'p
  | MTrackSubscribed string | MRequestResponse u32 proto_request_response
  | MPublishDataTrackResponse "proto_track_info option" | MUnpublishDataTrackResponse "proto_track_info option"
  | MDataTrackSubscriberHandles "(u32 \<times> string) list" | MRefreshToken string | MMute string bool
  | MMediaSectionsRequirement nat nat | MOther

datatype 'p session_emit =
    ECloseSession string disconnect_reason leave_action bool
  | ERemoteDataTracks "(string, data_track_info list) hashmap" | EParticipantUpdate 'p | ESpeakersChanged 'p
  | EConnectionQuality 'p | ERoomUpdate 'p | ERoomMoved 'p | ELocalTrackSubscribed string
  | ELocalDataTrackPublish "handle \<times> (publish_error, data_track_info) outcome" | ELocalDataTrackUnpublish handle
  | ESubscriberHandles "(handle, data_track_sid) hashmap" | ERefreshToken string | ETrackMuted string bool

text \<open>
  What a handler does, in order: calls of transports, the answer it sends, the answer it reports to
  the negotiation, the events it emits, the answer it gives to a waiting request, the
  renegotiation it asks for.
\<close>

datatype ('c, 'p) session_output =
    Called "'c transport_call" | SendAnswer string | AnswerToNegotiation | Emitted "'p session_emit"
  | AnswerRequest u32 proto_request_response | NegotiationWanted

datatype handler_end = Handled | HandlerFailed engine_error | HandlerPanicked | HandlerStuck

record 'i session_state =
  ss_single_pc_mode :: bool
  ss_has_subscriber :: bool
  ss_fast_publish :: bool
  ss_identity :: string
  ss_mid_to_track_id :: "(string, string) hashmap"
  ss_pending_tracks :: "'i pending_state"
  ss_pending_requests :: "u32 list"
  ss_closed :: bool

text \<open>A call of a transport followed by \<open>?\<close> and the rest of the handler.\<close>

definition with_transport ::
  "'c session_env \<Rightarrow> 'c transport_call \<Rightarrow> 's \<Rightarrow> ('s \<times> ('c, 'p) session_output list \<times> handler_end)
    \<Rightarrow> 's \<times> ('c, 'p) session_output list \<times> handler_end" where
  "with_transport env c s rest =
     (case env_call env c of
        CallOk \<Rightarrow> (case rest of (s', outs, end) \<Rightarrow> (s', Called c # outs, end))
      | CallErr e \<Rightarrow> (s, [Called c], HandlerFailed e)
      | CallStuck \<Rightarrow> (s, [Called c], HandlerStuck))"

definition emit :: "'p session_emit \<Rightarrow> 's \<Rightarrow> 's \<times> ('c, 'p) session_output list \<times> handler_end" where
  "emit e s = (s, [Emitted e], Handled)"

text \<open>The loops of \<open>handle_media_sections_requirement\<close>.\<close>

fun media_sections ::
  "'c session_env \<Rightarrow> bool list \<Rightarrow> 's \<Rightarrow> 's \<times> ('c, 'p) session_output list \<times> handler_end" where
  "media_sections env [] s = (s, [NegotiationWanted], Handled)"
| "media_sections env (audio # rest) s = with_transport env (AddRecvOnly audio) s (media_sections env rest s)"

fun on_signal_event ::
  "'c session_env \<Rightarrow> ('i, 'p) server_message \<Rightarrow> 'i session_state
    \<Rightarrow> 'i session_state \<times> ('c, 'p) session_output list \<times> handler_end" where
  "on_signal_event env (MAnswer ty sdp mids) s =
     (let s = (if ss_single_pc_mode s \<and> mids \<noteq> []
               then s\<lparr>ss_mid_to_track_id := fold (\<lambda>(mid, track_id). hm_insert mid track_id) mids (ss_mid_to_track_id s)\<rparr> else s)
      in if \<not> env_type_ok env ty \<or> \<not> env_sdp_ok env sdp then (s, [], HandlerPanicked)
         else with_transport env (SetRemoteAnswer sdp) s (s, if ss_fast_publish s then [AnswerToNegotiation] else [], Handled))"
| "on_signal_event env (MOffer ty sdp) s =
     (if ss_single_pc_mode s then (s, [], Handled)
      else if \<not> env_type_ok env ty \<or> \<not> env_sdp_ok env sdp \<or> \<not> ss_has_subscriber s then (s, [], HandlerPanicked)
      else with_transport env (CreateAnswerFor sdp) s (s, [SendAnswer (env_answer env sdp)], Handled))"
| "on_signal_event env (MTrickle publisher candidate_init) s =
     (case env_candidate env candidate_init of
        None \<Rightarrow> (s, [], HandlerPanicked)
      | Some c \<Rightarrow>
          if publisher \<or> ss_single_pc_mode s then with_transport env (PublisherCandidate c) s (s, [], Handled)
          else if \<not> ss_has_subscriber s then (s, [], HandlerPanicked)
          else with_transport env (SubscriberCandidate c) s (s, [], Handled))"
| "on_signal_event env (MLeave reason action) s =
     emit (ECloseSession ''server request to leave'' reason action True) s"
| "on_signal_event env (MUpdate infos update) s =
     (s, (case event_from_participant_update infos (ss_identity s) of
            Ok updates \<Rightarrow> [Emitted (ERemoteDataTracks updates)] | _ \<Rightarrow> []) @ [Emitted (EParticipantUpdate update)], Handled)"
| "on_signal_event env (MSpeakersChanged p) s = emit (ESpeakersChanged p) s"
| "on_signal_event env (MConnectionQuality p) s = emit (EConnectionQuality p) s"
| "on_signal_event env (MTrackPublished cid track) s =
     (case on_track_published cid track (ss_pending_tracks s) of
        Ok pending \<Rightarrow> (s\<lparr>ss_pending_tracks := pending\<rparr>, [], Handled)
      | _ \<Rightarrow> (s\<lparr>ss_pending_tracks := drop_pending cid (ss_pending_tracks s)\<rparr>, [], HandlerPanicked))"
| "on_signal_event env (MRoomUpdate None) s = (s, [], HandlerPanicked)"
| "on_signal_event env (MRoomUpdate (Some p)) s = emit (ERoomUpdate p) s"
| "on_signal_event env (MRoomMoved p) s = emit (ERoomMoved p) s"
| "on_signal_event env (MTrackSubscribed sid) s = emit (ELocalTrackSubscribed sid) s"
| "on_signal_event env (MRequestResponse request_id response) s =
     (case publish_result_from_request_response response of
        Some result \<Rightarrow> emit (ELocalDataTrackPublish result) s
      | None \<Rightarrow>
          if request_id \<in> set (ss_pending_requests s)
          then (s\<lparr>ss_pending_requests := filter (\<lambda>r. r \<noteq> request_id) (ss_pending_requests s)\<rparr>,
                [AnswerRequest request_id response], Handled)
          else (s, [], Handled))"
| "on_signal_event env (MPublishDataTrackResponse info) s =
     (case publish_response_try_from info of
        Ok result \<Rightarrow> emit (ELocalDataTrackPublish result) s
      | Err e \<Rightarrow> (s, [], HandlerFailed (InternalError ''data track''))
      | Panic \<Rightarrow> (s, [], HandlerPanicked))"
| "on_signal_event env (MUnpublishDataTrackResponse info) s =
     (case unpublish_response_try_from info of
        Ok h \<Rightarrow> emit (ELocalDataTrackUnpublish h) s
      | Err e \<Rightarrow> (s, [], HandlerFailed (InternalError ''data track''))
      | Panic \<Rightarrow> (s, [], HandlerPanicked))"
| "on_signal_event env (MDataTrackSubscriberHandles handles) s =
     (case subscriber_handles_try_from handles [] of
        Ok m \<Rightarrow> emit (ESubscriberHandles m) s
      | Err e \<Rightarrow> (s, [], HandlerFailed (InternalError ''data track''))
      | Panic \<Rightarrow> (s, [], HandlerPanicked))"
| "on_signal_event env (MRefreshToken token) s = emit (ERefreshToken token) s"
| "on_signal_event env (MMute sid muted) s = emit (ETrackMuted sid muted) s"
| "on_signal_event env (MMediaSectionsRequirement audios videos) s =
     (if ss_single_pc_mode s then media_sections env (replicate audios True @ replicate videos False) s
      else (s, [], Handled))"
| "on_signal_event env MOther s = (s, [], Handled)"

text \<open>
  The task of the session for these messages: it awaits the handler of one before it takes the next,
  and a panic of a handler is raised again in the task.  It ends when the session asks it to.
\<close>

datatype ('i, 'p) signal_input = SignalMessage "('i, 'p) server_message" | SignalClosed string | CloseAsked

datatype task_end = TaskWaiting | TaskEnded | TaskPanicked | TaskStuck

fun session_signal_task ::
  "'c session_env \<Rightarrow> ('i, 'p) signal_input list \<Rightarrow> 'i session_state
    \<Rightarrow> 'i session_state \<times> ('c, 'p) session_output list \<times> task_end" where
  "session_signal_task env [] s = (s, [], TaskWaiting)"
| "session_signal_task env (SignalMessage m # is) s =
     (case on_signal_event env m s of
        (s', outs, HandlerPanicked) \<Rightarrow> (s', outs, TaskPanicked)
      | (s', outs, HandlerStuck) \<Rightarrow> (s', outs, TaskStuck)
      | (s', outs, _) \<Rightarrow>
          (case session_signal_task env is s' of (s'', later, end) \<Rightarrow> (s'', outs @ later, end)))"
| "session_signal_task env (SignalClosed reason # is) s =
     (case session_signal_task env is s of
        (s', later, end) \<Rightarrow>
          (s', (if ss_closed s then []
                else [Emitted (ECloseSession (''signal client closed: '' @ reason) UnknownReason Resume False)]) @ later, end))"
| "session_signal_task env (CloseAsked # is) s = (s, [], TaskEnded)"

section \<open>When a message brings the session down\<close>

lemma handle_of_u32_no_panic [simp]: "handle_of_u32 n \<noteq> Panic"
  by (auto simp: handle_of_u32_def handle_try_from_u32_def handle_try_from_u16_def split: outcome.splits if_splits)

lemma sid_of_string_no_panic [simp]: "sid_of_string s \<noteq> Panic"
  by (auto simp: sid_of_string_def sid_try_from_def split: outcome.splits if_splits)

lemma track_info_no_panic [simp]: "track_info_try_from i \<noteq> Panic"
  by (auto simp: track_info_try_from_def and_then_Panic_iff split: encryption_type.splits)

lemma subscriber_handles_no_panic [simp]: "subscriber_handles_try_from hs m \<noteq> Panic"
  by (induction hs m rule: subscriber_handles_try_from.induct) (auto simp: and_then_Panic_iff)

lemma publish_response_no_panic [simp]: "publish_response_try_from i \<noteq> Panic" "unpublish_response_try_from i \<noteq> Panic"
  by (auto simp: publish_response_try_from_def unpublish_response_try_from_def and_then_Panic_iff split: option.splits)

lemma transport_end: "snd (snd (with_transport env c s (s', outs, Handled))) \<noteq> HandlerPanicked"
  by (auto simp: with_transport_def split: call_end.splits)

lemma media_sections_end: "snd (snd (media_sections env kinds s)) \<noteq> HandlerPanicked"
  by (induction env kinds s rule: media_sections.induct) (auto simp: with_transport_def split: call_end.splits prod.splits)

text \<open>The messages that the handler cannot take.\<close>

definition unreadable :: "'c session_env \<Rightarrow> string \<Rightarrow> string \<Rightarrow> bool" where
  "unreadable env ty sdp \<longleftrightarrow> \<not> env_type_ok env ty \<or> \<not> env_sdp_ok env sdp"

fun bad_message :: "'c session_env \<Rightarrow> 'i session_state \<Rightarrow> ('i, 'p) server_message \<Rightarrow> bool" where
  "bad_message env s (MAnswer ty sdp mids) = unreadable env ty sdp"
| "bad_message env s (MOffer ty sdp) = (\<not> ss_single_pc_mode s \<and> unreadable env ty sdp)"
| "bad_message env s (MTrickle publisher candidate_init) = (env_candidate env candidate_init = None)"
| "bad_message env s (MTrackPublished cid track) = (track = None \<and> map_of (pn_pending (ss_pending_tracks s)) cid \<noteq> None)"
| "bad_message env s (MRoomUpdate room) = (room = None)"
| "bad_message env s _ = False"

text \<open>
  C26: What a message of the server can do to a session.  With the subscriber transport in place, or not needed, the handler
  panics exactly on an answer or offer that cannot be read, a candidate that cannot be read, a published track without its
  information that someone waits for, and a room update without a room; and then, as when an answer leaves its handler
  waiting for ever, the task that receives is gone: whatever the server sends afterwards, nothing is handled.
\<close>

theorem bad_message_ends_the_session:
  fixes env :: "'c session_env" and m :: "('i, 'p) server_message"
  assumes "ss_single_pc_mode s \<or> ss_has_subscriber s"
    and "on_signal_event env m s = (s', outs, end)"
    and "session_signal_task env before s0 = (s, sent, TaskWaiting)"
  shows "(end = HandlerPanicked \<longleftrightarrow> bad_message env s m)
    \<and> (bad_message env s m \<longrightarrow> session_signal_task env (before @ SignalMessage m # rest) s0 = (s', sent @ outs, TaskPanicked))
    \<and> (end = HandlerStuck \<longrightarrow> session_signal_task env (before @ SignalMessage m # rest) s0 = (s', sent @ outs, TaskStuck))"
proof -
  have "snd (snd (on_signal_event env m s)) = HandlerPanicked \<longleftrightarrow> bad_message env s m"
    using assms(1)
    by (cases "(env, m, s)" rule: on_signal_event.cases;
        auto simp: Let_def unreadable_def emit_def transport_end media_sections_end on_track_published_def
          split: option.splits outcome.splits)
  then have panic: "end = HandlerPanicked \<longleftrightarrow> bad_message env s m"
    using assms(2) by simp
  have go: "session_signal_task env (before @ SignalMessage m # rest) s0 =
      (case session_signal_task env (SignalMessage m # rest) s of (s'', later, e) \<Rightarrow> (s'', sent @ later, e))"
    using assms(3)
  proof (induction before arbitrary: s0 sent)
    case Nil
    then show ?case by (simp split: prod.splits)
  next
    case (Cons b before)
    show ?case
    proof (cases b)
      case (SignalMessage m1)
      obtain s1 o1 e1 where m1: "on_signal_event env m1 s0 = (s1, o1, e1)"
        by (metis prod_cases3)
      then obtain s2 o2 e2 where rest: "session_signal_task env before s1 = (s2, o2, e2)"
        by (metis prod_cases3)
      have "e1 \<noteq> HandlerPanicked" "e1 \<noteq> HandlerStuck"
        using Cons.prems m1 SignalMessage by auto
      then show ?thesis
        using Cons.prems m1 rest SignalMessage Cons.IH [of s1 o2] by (cases e1) (auto split: prod.splits)
    next
      case (SignalClosed reason)
      then show ?thesis
        using Cons.prems Cons.IH [of s0] by (auto split: prod.splits)
    next
      case CloseAsked
      then show ?thesis
        using Cons.prems by simp
    qed
  qed
  then show ?thesis
    using panic assms(2) by auto
qed

text \<open>A speaker update, then a room update without a room.\<close>

definition sample_session_env :: "nat session_env" where
  "sample_session_env =
     \<lparr>env_type_ok = (\<lambda>t. t = ''answer''), env_sdp_ok = (\<lambda>s. s \<noteq> ''''), env_candidate = (\<lambda>c. if c = ''{}'' then None else Some 1),
      env_answer = (\<lambda>s. s), env_call = (\<lambda>c. CallOk)\<rparr>"

definition sample_session :: "nat session_state" where
  "sample_session =
     \<lparr>ss_single_pc_mode = False, ss_has_subscriber = True, ss_fast_publish = True, ss_identity = ''al'',
      ss_mid_to_track_id = [], ss_pending_tracks = pending_new, ss_pending_requests = [], ss_closed = False\<rparr>"

theorem bad_message_ends_the_session_witness:
  "session_signal_task sample_session_env [SignalMessage (MSpeakersChanged (3::nat)), SignalMessage (MRoomUpdate None), SignalMessage (MMute ''TR_1'' True)] sample_session
     = (sample_session, [Emitted (ESpeakersChanged 3)], TaskPanicked)"
proof -
  have "session_signal_task sample_session_env ([SignalMessage (MSpeakersChanged (3::nat))] @ SignalMessage (MRoomUpdate None) # [SignalMessage (MMute ''TR_1'' True)]) sample_session
     = (sample_session, [Emitted (ESpeakersChanged 3)] @ [], TaskPanicked)"
    using bad_message_ends_the_session [of sample_session sample_session_env "MRoomUpdate None" sample_session "[]" HandlerPanicked
        "[SignalMessage (MSpeakersChanged (3::nat))]" sample_session "[Emitted (ESpeakersChanged 3)]" "[SignalMessage (MMute ''TR_1'' True)]"]
    by (simp add: sample_session_def emit_def)
  then show ?thesis by simp
qed

section \<open>Frame cryptors\<close>

definition em_set_enabled :: "bool \<Rightarrow> e2ee_manager \<Rightarrow> e2ee_manager" where
  "em_set_enabled b m =
     (if em_enabled m = b then m
      else m\<lparr>em_enabled := b, em_frame_cryptors := map (\<lambda>(k, _). (k, b)) (em_frame_cryptors m)\<rparr>)"

definition em_cleanup :: "e2ee_manager \<Rightarrow> e2ee_manager" where
  "em_cleanup m = m\<lparr>em_frame_cryptors := []\<rparr>"

definition remove_frame_cryptor :: "string \<Rightarrow> string \<Rightarrow> e2ee_manager \<Rightarrow> e2ee_manager" where
  "remove_frame_cryptor identity sid m = m\<lparr>em_frame_cryptors := hm_remove (identity, sid) (em_frame_cryptors m)\<rparr>"

text \<open>
  A subscribed or published track gets its cryptor in two steps, each under the lock of its own:
  the cryptor is made with the flag of the manager, and later put into the map.  \<open>None\<close>: no cryptor
  is wanted.
\<close>

definition setup_frame_cryptor :: "stream_encryption \<Rightarrow> e2ee_manager \<Rightarrow> bool option" where
  "setup_frame_cryptor encryption m =
     (if \<not> em_initialized m \<or> encryption = NoEncryption then None else Some (em_enabled m))"

definition insert_frame_cryptor :: "string \<Rightarrow> string \<Rightarrow> bool \<Rightarrow> e2ee_manager \<Rightarrow> e2ee_manager" where
  "insert_frame_cryptor identity sid flag m =
     m\<lparr>em_frame_cryptors := hm_insert (identity, sid) flag (em_frame_cryptors m)\<rparr>"

definition on_track_with_cryptor :: "string \<Rightarrow> string \<Rightarrow> stream_encryption \<Rightarrow> e2ee_manager \<Rightarrow> e2ee_manager" where
  "on_track_with_cryptor identity sid encryption m =
     (case setup_frame_cryptor encryption m of None \<Rightarrow> m | Some flag \<Rightarrow> insert_frame_cryptor identity sid flag m)"

text \<open>The flags agree with the manager, while nobody switches it between the two steps.\<close>

definition cryptors_agree :: "e2ee_manager \<Rightarrow> bool" where
  "cryptors_agree m \<longleftrightarrow> (\<forall>k flag. map_of (em_frame_cryptors m) k = Some flag \<longrightarrow> flag = em_enabled m)"

lemma map_of_set_flags: "map_of (map (\<lambda>(k, _). (k, b)) kvs) k = map_option (\<lambda>_. b) (map_of kvs k)"
  by (induction kvs) auto

lemma cryptors_agree_steps:
  "cryptors_agree (e2ee_manager_new options dc)"
  "cryptors_agree m \<Longrightarrow> cryptors_agree (on_track_with_cryptor identity sid encryption m)"
  "cryptors_agree m \<Longrightarrow> cryptors_agree (em_set_enabled b m)"
  "cryptors_agree m \<Longrightarrow> cryptors_agree (remove_frame_cryptor identity sid m)"
  "cryptors_agree (em_cleanup m)"
  by (auto simp: cryptors_agree_def e2ee_manager_new_def on_track_with_cryptor_def setup_frame_cryptor_def
      insert_frame_cryptor_def em_set_enabled_def remove_frame_cryptor_def em_cleanup_def map_of_set_flags
      split: option.splits if_splits)

text \<open>A manager that is switched off between the two steps leaves an enabled cryptor behind.\<close>

lemma switched_off_between_steps:
  assumes "em_initialized m" "em_enabled m" "encryption \<noteq> NoEncryption" "setup_frame_cryptor encryption m = Some flag"
  shows "\<not> em_enabled (insert_frame_cryptor identity sid flag (em_set_enabled False m))"
    "map_of (em_frame_cryptors (insert_frame_cryptor identity sid flag (em_set_enabled False m))) (identity, sid) = Some True"
  using assms by (auto simp: setup_frame_cryptor_def insert_frame_cryptor_def em_set_enabled_def)

end
