(* ===== verification/LkToken.thy ===== *)
theory LkToken
  imports LKPrelude
begin

text \<open>
  Access tokens (\<open>livekit-api/src/access_token.rs\<close>) and the webhooks they protect (\<open>webhooks.rs\<close>).
  The library that signs and checks tokens, the hash and base64 are parameters; what is relied on
  of the first is the predicate \<open>signs_tokens\<close>.  Times are seconds.
\<close>

section \<open>Claims\<close>

record video_grants =
  vg_room_create :: bool
  vg_room_list :: bool
  vg_room_record :: bool
  vg_room_admin :: bool
  vg_room_join :: bool
  vg_room :: string
  vg_destination_room :: string
  vg_can_publish :: bool
  vg_can_subscribe :: bool
  vg_can_publish_data :: bool
  vg_can_publish_sources :: "string list"
  vg_can_update_own_metadata :: bool
  vg_ingress_admin :: bool
  vg_hidden :: bool
  vg_recorder :: bool

definition video_grants_default :: video_grants where
  "video_grants_default =
     \<lparr>vg_room_create = False, vg_room_list = False, vg_room_record = False, vg_room_admin = False,
      vg_room_join = False, vg_room = '''', vg_destination_room = '''', vg_can_publish = True,
      vg_can_subscribe = True, vg_can_publish_data = True, vg_can_publish_sources = [],
      vg_can_update_own_metadata = False, vg_ingress_admin = False, vg_hidden = False, vg_recorder = False\<rparr>"

record sip_grants =
  sg_admin :: bool
  sg_call :: bool

definition sip_grants_default :: sip_grants where
  "sip_grants_default = \<lparr>sg_admin = False, sg_call = False\<rparr>"

text \<open>\<open>'c\<close> is the configuration of a room, which is only passed on.\<close>

record 'c claims =
  cl_exp :: u64
  cl_iss :: string
  cl_nbf :: u64
  cl_sub :: string
  cl_name :: string
  cl_video :: video_grants
  cl_sip :: sip_grants
  cl_sha256 :: string
  cl_metadata :: string
  cl_attributes :: "string \<rightharpoonup> string"
  cl_room_config :: "'c option"

datatype token_error = InvalidKeys | InvalidEnv string | InvalidClaims string | Encoding string

record 'c access_token =
  at_api_key :: string
  at_api_secret :: string
  at_claims :: "'c claims"

section \<open>The library\<close>

record validation =
  validate_exp :: bool
  validate_nbf :: bool
  validation_issuers :: "string list"

text \<open>Encoding with a secret, and decoding at a time with a validation and a secret.\<close>

record ('c, 't) jwt_library =
  jwt_encode :: "string \<Rightarrow> 'c claims \<Rightarrow> (string, 't) outcome"
  jwt_insecure_decode :: "'t \<Rightarrow> (string, 'c claims) outcome"
  jwt_decode :: "nat \<Rightarrow> validation \<Rightarrow> string \<Rightarrow> 't \<Rightarrow> (string, 'c claims) outcome"

definition leeway :: nat where
  "leeway = 60"

text \<open>When the library accepts claims: not expired, valid already, from one of the issuers.\<close>

definition admissible :: "nat \<Rightarrow> validation \<Rightarrow> 'c claims \<Rightarrow> bool" where
  "admissible now v c \<longleftrightarrow>
     (validate_exp v \<longrightarrow> now \<le> unat (cl_exp c) + leeway) \<and> (validate_nbf v \<longrightarrow> unat (cl_nbf c) \<le> now + leeway)
     \<and> cl_iss c \<in> set (validation_issuers v)"

text \<open>
  The documented behaviour for a token that was made with a secret: with the same secret it decodes
  to its claims when they are admissible and fails else, and with another secret it fails.
\<close>

definition signs_tokens :: "('c, 't) jwt_library \<Rightarrow> bool" where
  "signs_tokens lib \<longleftrightarrow>
     (\<forall>secret c t now v. jwt_encode lib secret c = Ok t \<longrightarrow>
        (admissible now v c \<longrightarrow> jwt_decode lib now v secret t = Ok c)
        \<and> (\<not> admissible now v c \<longrightarrow> (\<exists>e. jwt_decode lib now v secret t = Err e))
        \<and> (\<forall>secret'. secret' \<noteq> secret \<longrightarrow> (\<exists>e. jwt_decode lib now v secret' t = Err e)))"

section \<open>Making and verifying tokens\<close>

definition DEFAULT_TTL :: nat where
  "DEFAULT_TTL = 3600 * 6"

definition token_with_api_key :: "nat \<Rightarrow> string \<Rightarrow> string \<Rightarrow> 'c access_token" where
  "token_with_api_key now api_key api_secret =
     \<lparr>at_api_key = api_key, at_api_secret = api_secret,
      at_claims = \<lparr>cl_exp = of_nat (now + DEFAULT_TTL), cl_iss = api_key, cl_nbf = of_nat now, cl_sub = '''',
        cl_name = '''', cl_video = video_grants_default, cl_sip = sip_grants_default, cl_sha256 = '''',
        cl_metadata = '''', cl_attributes = Map.empty, cl_room_config = None\<rparr>\<rparr>"

definition on_claims :: "('c claims \<Rightarrow> 'c claims) \<Rightarrow> 'c access_token \<Rightarrow> 'c access_token" where
  "on_claims f t = t\<lparr>at_claims := f (at_claims t)\<rparr>"

text \<open>A time to live of whole seconds; the addition of durations panics when it overflows.\<close>

definition with_ttl :: "nat \<Rightarrow> nat \<Rightarrow> 'c access_token \<Rightarrow> (token_error, 'c access_token) outcome" where
  "with_ttl now ttl t =
     (if now + ttl < 2 ^ 64 then Ok (on_claims (\<lambda>c. c\<lparr>cl_exp := of_nat (now + ttl)\<rparr>) t) else Panic)"

definition with_grants :: "video_grants \<Rightarrow> 'c access_token \<Rightarrow> 'c access_token" where
  "with_grants g = on_claims (\<lambda>c. c\<lparr>cl_video := g\<rparr>)"

definition with_sip_grants :: "sip_grants \<Rightarrow> 'c access_token \<Rightarrow> 'c access_token" where
  "with_sip_grants g = on_claims (\<lambda>c. c\<lparr>cl_sip := g\<rparr>)"

definition with_identity :: "string \<Rightarrow> 'c access_token \<Rightarrow> 'c access_token" where
  "with_identity i = on_claims (\<lambda>c. c\<lparr>cl_sub := i\<rparr>)"

definition with_name :: "string \<Rightarrow> 'c access_token \<Rightarrow> 'c access_token" where
  "with_name n = on_claims (\<lambda>c. c\<lparr>cl_name := n\<rparr>)"

definition with_metadata :: "string \<Rightarrow> 'c access_token \<Rightarrow> 'c access_token" where
  "with_metadata m = on_claims (\<lambda>c. c\<lparr>cl_metadata := m\<rparr>)"

definition with_attributes :: "(string \<times> string) list \<Rightarrow> 'c access_token \<Rightarrow> 'c access_token" where
  "with_attributes kvs = on_claims (\<lambda>c. c\<lparr>cl_attributes := map_of (rev kvs)\<rparr>)"

definition with_sha256 :: "string \<Rightarrow> 'c access_token \<Rightarrow> 'c access_token" where
  "with_sha256 h = on_claims (\<lambda>c. c\<lparr>cl_sha256 := h\<rparr>)"

definition with_room_config :: "'c \<Rightarrow> 'c access_token \<Rightarrow> 'c access_token" where
  "with_room_config config = on_claims (\<lambda>c. c\<lparr>cl_room_config := Some config\<rparr>)"

definition to_jwt :: "('c, 't) jwt_library \<Rightarrow> 'c access_token \<Rightarrow> (token_error, 't) outcome" where
  "to_jwt lib t =
     (if at_api_key t = '''' \<or> at_api_secret t = '''' then Err InvalidKeys
      else if vg_room_join (cl_video (at_claims t)) \<and> (cl_sub (at_claims t) = '''' \<or> vg_room (cl_video (at_claims t)) = '''')
      then Err (InvalidClaims ''token grants room_join but doesn't have an identity or room'')
      else case jwt_encode lib (at_api_secret t) (at_claims t) of
             Ok jwt \<Rightarrow> Ok jwt | Err e \<Rightarrow> Err (Encoding e) | Panic \<Rightarrow> Panic)"

record token_verifier =
  tv_api_key :: string
  tv_api_secret :: string

definition verify :: "('c, 't) jwt_library \<Rightarrow> nat \<Rightarrow> token_verifier \<Rightarrow> 't \<Rightarrow> (token_error, 'c claims) outcome" where
  "verify lib now v token =
     (case jwt_decode lib now \<lparr>validate_exp = True, validate_nbf = True, validation_issuers = [tv_api_key v]\<rparr>
             (tv_api_secret v) token of
        Ok c \<Rightarrow> Ok c | Err e \<Rightarrow> Err (Encoding e) | Panic \<Rightarrow> Panic)"

text \<open>Claims that nobody has verified.\<close>

definition claims_from_unverified :: "('c, 't) jwt_library \<Rightarrow> 't \<Rightarrow> (token_error, 'c claims) outcome" where
  "claims_from_unverified lib token =
     (case jwt_insecure_decode lib token of Ok c \<Rightarrow> Ok c | Err e \<Rightarrow> Err (Encoding e) | Panic \<Rightarrow> Panic)"

text \<open>The keys of the environment, and what is made with them.\<close>

definition get_env_keys :: "(string \<rightharpoonup> string) \<Rightarrow> (token_error, string \<times> string) outcome" where
  "get_env_keys env =
     (case env ''LIVEKIT_API_KEY'' of
        None \<Rightarrow> Err (InvalidEnv ''LIVEKIT_API_KEY'')
      | Some api_key \<Rightarrow>
          (case env ''LIVEKIT_API_SECRET'' of
             None \<Rightarrow> Err (InvalidEnv ''LIVEKIT_API_SECRET'')
           | Some api_secret \<Rightarrow> Ok (api_key, api_secret)))"

definition token_new :: "(string \<rightharpoonup> string) \<Rightarrow> nat \<Rightarrow> (token_error, 'c access_token) outcome" where
  "token_new env now = and_then (get_env_keys env) (\<lambda>(api_key, api_secret). Ok (token_with_api_key now api_key api_secret))"

definition verifier_new :: "(string \<rightharpoonup> string) \<Rightarrow> (token_error, token_verifier) outcome" where
  "verifier_new env =
     and_then (get_env_keys env) (\<lambda>(api_key, api_secret). Ok \<lparr>tv_api_key = api_key, tv_api_secret = api_secret\<rparr>)"

text \<open>What one side makes from the environment, the other side takes, for the six hours of a token.\<close>

lemma environment_tokens_verify:
  assumes "signs_tokens lib" "token_new env now = Ok t" "to_jwt lib t = Ok jwt" "verifier_new env = Ok v"
    "now + DEFAULT_TTL < 2 ^ 64" "now \<le> later" "later \<le> now + DEFAULT_TTL"
  shows "verify lib later v jwt = Ok (at_claims t)"
proof -
  obtain key secret where keys: "get_env_keys env = Ok (key, secret)"
    using assms(2) by (cases "get_env_keys env") (auto simp: token_new_def)
  have t: "t = token_with_api_key now key secret" and v: "v = \<lparr>tv_api_key = key, tv_api_secret = secret\<rparr>"
    using assms(2,4) keys by (auto simp: token_new_def verifier_new_def)
  have enc: "jwt_encode lib secret (at_claims t) = Ok jwt"
    using assms(3) by (auto simp: t to_jwt_def token_with_api_key_def split: if_splits outcome.splits)
  have "unat (of_nat (now + DEFAULT_TTL) :: u64) = now + DEFAULT_TTL" "unat (of_nat now :: u64) = now"
    using assms(5) by (simp_all del: of_nat_add add: unat_of_nat take_bit_nat_eq_self)
  then have "admissible later \<lparr>validate_exp = True, validate_nbf = True, validation_issuers = [key]\<rparr> (at_claims t)"
    using assms(6,7) by (simp add: admissible_def t token_with_api_key_def)
  then show ?thesis
    using assms(1) enc by (auto simp: signs_tokens_def verify_def v)
qed

section \<open>Webhooks\<close>

datatype webhook_error = InvalidSignature | InvalidBase64 | InvalidAuth token_error | InvalidData

text \<open>The hash, base64 and the reader of the body.\<close>

record 'event webhook_library =
  wh_sha256 :: "string \<Rightarrow> bytes"
  wh_base64_decode :: "string \<Rightarrow> bytes option"
  wh_parse :: "string \<Rightarrow> 'event option"

definition webhook_receive ::
  "('c, 't) jwt_library \<Rightarrow> 'event webhook_library \<Rightarrow> nat \<Rightarrow> token_verifier \<Rightarrow> string \<Rightarrow> 't \<Rightarrow> (webhook_error, 'event) outcome" where
  "webhook_receive lib wh now verifier body auth_token =
     (case verify lib now verifier auth_token of
        Panic \<Rightarrow> Panic
      | Err e \<Rightarrow> Err (InvalidAuth e)
      | Ok c \<Rightarrow>
          (case wh_base64_decode wh (cl_sha256 c) of
             None \<Rightarrow> Err InvalidBase64
           | Some claim_hash \<Rightarrow>
               if claim_hash \<noteq> wh_sha256 wh body then Err InvalidSignature
               else (case wh_parse wh body of None \<Rightarrow> Err InvalidData | Some event \<Rightarrow> Ok event)))"

section \<open>Properties\<close>

text \<open>
  C9: A token proves who made it and for what.  A token that is made from an access token verifies, for the key and secret
  it was made with, to exactly its claims while it is valid, give or take the leeway, and never outside that time, with
  another secret, or for a key that is not its issuer; and a webhook with such a token is accepted exactly when
  the token verifies, the hash in it is that of the body, and the body can be read.
\<close>

theorem token_verifies_exactly:
  assumes "signs_tokens lib" and "to_jwt lib t = Ok jwt"
  shows "(is_ok (verify lib now v jwt) \<longleftrightarrow>
        tv_api_secret v = at_api_secret t \<and> tv_api_key v = cl_iss (at_claims t)
        \<and> now \<le> unat (cl_exp (at_claims t)) + leeway \<and> unat (cl_nbf (at_claims t)) \<le> now + leeway)
    \<and> (\<forall>c. verify lib now v jwt = Ok c \<longrightarrow> c = at_claims t \<and> (vg_room_join (cl_video c) \<longrightarrow> cl_sub c \<noteq> '''' \<and> vg_room (cl_video c) \<noteq> ''''))
    \<and> (\<forall>event. webhook_receive lib wh now v body jwt = Ok event \<longleftrightarrow>
         is_ok (verify lib now v jwt) \<and> wh_base64_decode wh (cl_sha256 (at_claims t)) = Some (wh_sha256 wh body)
         \<and> wh_parse wh body = Some event)"
proof -
  have enc: "jwt_encode lib (at_api_secret t) (at_claims t) = Ok jwt"
    and join: "vg_room_join (cl_video (at_claims t)) \<longrightarrow> cl_sub (at_claims t) \<noteq> '''' \<and> vg_room (cl_video (at_claims t)) \<noteq> ''''"
    using assms(2) by (auto simp: to_jwt_def split: if_splits outcome.splits)
  let ?v = "\<lparr>validate_exp = True, validate_nbf = True, validation_issuers = [tv_api_key v]\<rparr>"
  have law: "admissible now ?v (at_claims t) \<Longrightarrow> jwt_decode lib now ?v (at_api_secret t) jwt = Ok (at_claims t)"
    "\<not> admissible now ?v (at_claims t) \<Longrightarrow> \<exists>e. jwt_decode lib now ?v (at_api_secret t) jwt = Err e"
    "secret' \<noteq> at_api_secret t \<Longrightarrow> \<exists>e. jwt_decode lib now ?v secret' jwt = Err e" for secret'
    using assms(1) enc unfolding signs_tokens_def by blast+
  have cases: "verify lib now v jwt = Ok (at_claims t) \<and> tv_api_secret v = at_api_secret t \<and> admissible now ?v (at_claims t)
      \<or> (\<exists>e. verify lib now v jwt = Err e) \<and> \<not> (tv_api_secret v = at_api_secret t \<and> admissible now ?v (at_claims t))"
    using law by (cases "tv_api_secret v = at_api_secret t"; cases "admissible now ?v (at_claims t)") (fastforce simp: verify_def)+
  moreover have "admissible now ?v (at_claims t) \<longleftrightarrow> tv_api_key v = cl_iss (at_claims t)
      \<and> now \<le> unat (cl_exp (at_claims t)) + leeway \<and> unat (cl_nbf (at_claims t)) \<le> now + leeway"
    by (auto simp: admissible_def)
  ultimately show ?thesis
    using join by (auto simp: webhook_receive_def split: option.splits if_splits)
qed

text \<open>A library whose tokens carry the secret with the claims.\<close>

definition plain_jwt :: "(unit, string \<times> unit claims) jwt_library" where
  "plain_jwt =
     \<lparr>jwt_encode = (\<lambda>secret c. Ok (secret, c)),
      jwt_insecure_decode = (\<lambda>(secret, c). Ok c),
      jwt_decode = (\<lambda>now v secret (secret', c). if secret = secret' \<and> admissible now v c then Ok c else Err ''invalid'')\<rparr>"

definition sample_token :: "unit access_token" where
  "sample_token = with_identity ''alice'' (with_grants (video_grants_default\<lparr>vg_room_join := True, vg_room := ''r''\<rparr>)
     (token_with_api_key 1000 ''key'' ''secret''))"

theorem token_verifies_exactly_witness:
  "\<exists>jwt. to_jwt plain_jwt sample_token = Ok jwt
     \<and> is_ok (verify plain_jwt 22000 \<lparr>tv_api_key = ''key'', tv_api_secret = ''secret''\<rparr> jwt)
     \<and> \<not> is_ok (verify plain_jwt 23000 \<lparr>tv_api_key = ''key'', tv_api_secret = ''secret''\<rparr> jwt)
     \<and> \<not> is_ok (verify plain_jwt 2000 \<lparr>tv_api_key = ''key'', tv_api_secret = ''guess''\<rparr> jwt)"
proof -
  have lib: "signs_tokens plain_jwt"
    by (auto simp: signs_tokens_def plain_jwt_def)
  obtain jwt where jwt: "to_jwt plain_jwt sample_token = Ok jwt"
    by (simp add: to_jwt_def plain_jwt_def sample_token_def with_identity_def with_grants_def on_claims_def token_with_api_key_def)
  have claims: "cl_iss (at_claims sample_token) = ''key''" "at_api_secret sample_token = ''secret''"
    "unat (cl_exp (at_claims sample_token)) = 22600" "unat (cl_nbf (at_claims sample_token)) = 1000"
    by (simp_all add: sample_token_def with_identity_def with_grants_def on_claims_def token_with_api_key_def DEFAULT_TTL_def)
  note exactly = token_verifies_exactly [OF lib jwt, THEN conjunct1, unfolded claims leeway_def]
  have "is_ok (verify plain_jwt 22000 \<lparr>tv_api_key = ''key'', tv_api_secret = ''secret''\<rparr> jwt)"
    by (subst exactly) simp
  moreover have "\<not> is_ok (verify plain_jwt 23000 \<lparr>tv_api_key = ''key'', tv_api_secret = ''secret''\<rparr> jwt)"
    by (subst exactly) simp
  moreover have "\<not> is_ok (verify plain_jwt 2000 \<lparr>tv_api_key = ''key'', tv_api_secret = ''guess''\<rparr> jwt)"
    by (subst exactly) simp
  ultimately show ?thesis
    using jwt by blast
qed

end
