(* ===== verification/LkLocal.thy ===== *)
theory LkLocal
  imports "HOL-Library.Multiset" LkSession LkOptions
begin

text \<open>
  The local participant (\<open>livekit/src/room/participant/local_participant.rs\<close>) with its tracks
  (\<open>room/track/\<close>) and their publications (\<open>room/publication/local.rs\<close>): publishing and unpublishing,
  muting, and the requests that wait for an answer.  Tracks and publications are shared objects, so
  they live in two stores and are named by their place there.  The transceivers of the WebRTC
  library are numbers; packet trailers are left out.
\<close>

section \<open>Tracks and publications\<close>

text \<open>What is only stored (source, audio features) is left out.  \<open>lt_enabled\<close>: the track of the library sends; \<open>lt_reports_to\<close>: the publication whose handlers a change of the mute flag calls.\<close>

record media_track =
  lt_sid :: string
  lt_name :: string
  lt_kind :: track_kind
  lt_rtc_id :: string
  lt_resolution :: "u32 \<times> u32"
  lt_muted :: bool
  lt_enabled :: bool
  lt_transceiver :: "nat option"
  lt_reports_to :: "nat option"

record local_publish_options = publish_options +
  lo_audio_max_bitrate :: "u64 option"
  lo_dtx :: bool
  lo_red :: bool
  lo_stream :: string
  lo_preconnect_buffer :: bool
  lo_user_timestamp :: bool
  lo_frame_id :: bool

text \<open>\<open>lp_inner\<close> is what all publications share; \<open>lp_reports\<close>: the participant listens.\<close>

record local_publication =
  lp_inner :: publication
  lp_options :: "local_publish_options option"
  lp_reports :: bool

text \<open>The request for a track.\<close>

record add_track_request =
  ar_cid :: string
  ar_name :: string
  ar_kind :: track_kind
  ar_muted :: bool
  ar_source :: track_source
  ar_disable_dtx :: bool
  ar_disable_red :: bool
  ar_encryption :: stream_encryption
  ar_stream :: string
  ar_preconnect_buffer :: bool
  ar_trailer_features :: "bool \<times> bool"
  ar_dimension :: "u32 \<times> u32"
  ar_layers :: "video_layer list"
  ar_simulcast_codecs :: "(video_codec \<times> string \<times> video_layer list) list"

text \<open>
  A call of \<open>publish_track\<close>, cut where it waits: for the answer to its request, and for the sender of
  the transport.
\<close>

datatype publishing =
    WaitsAnswer nat local_publish_options | WaitsSender nat nat local_publish_options | PublishedAs nat
  | PublishFailed engine_error | PublishPanicked

datatype media_output =
    AddTrackSent add_track_request | MuteRequest string bool | MutedEvent string | UnmutedEvent string
  | PublishedEvent string | UnpublishedEvent string | LocalNegotiation

text \<open>
  The participant; \<open>ls_listening\<close>: the room has registered its handlers.  \<open>ls_mute_tasks\<close>: the tasks that are to tell the server of
  a change, each by the number of its publication and the flag.
\<close>

record local_state =
  ls_tracks :: "media_track list"
  ls_pubs :: "local_publication list"
  ls_publications :: "(string, nat) hashmap"
  ls_encryption_type :: stream_encryption
  ls_is_encrypted :: bool
  ls_listening :: bool
  ls_calls :: "publishing list"
  ls_log :: "media_output list"
  ls_mute_tasks :: "(nat \<times> bool) list"

definition track_new :: "string \<Rightarrow> track_kind \<Rightarrow> string \<Rightarrow> u32 \<times> u32 \<Rightarrow> media_track" where
  "track_new nm kind rtc_id resolution =
     \<lparr>lt_sid = ''TR_unknown'', lt_name = nm, lt_kind = kind, lt_rtc_id = rtc_id,
      lt_resolution = resolution, lt_muted = False, lt_enabled = True, lt_transceiver = None, lt_reports_to = None\<rparr>"

definition on_track :: "nat \<Rightarrow> (media_track \<Rightarrow> media_track) \<Rightarrow> local_state \<Rightarrow> local_state" where
  "on_track t f s = s\<lparr>ls_tracks := (ls_tracks s)[t := f (ls_tracks s ! t)]\<rparr>"

definition on_pub :: "nat \<Rightarrow> (local_publication \<Rightarrow> local_publication) \<Rightarrow> local_state \<Rightarrow> local_state" where
  "on_pub p f s = s\<lparr>ls_pubs := (ls_pubs s)[p := f (ls_pubs s ! p)]\<rparr>"

definition pub_sid :: "nat \<Rightarrow> local_state \<Rightarrow> string" where
  "pub_sid p s = pb_sid (lp_inner (ls_pubs s ! p))"

definition pub_track :: "nat \<Rightarrow> local_state \<Rightarrow> nat option" where
  "pub_track p s = pb_track (lp_inner (ls_pubs s ! p))"

section \<open>Muting\<close>

text \<open>
  The handlers of a publication: \<open>add_publication\<close> installs them, and they do nothing before and after.  A handler raises its event and
  spawns a task that tells the server.
\<close>

definition mute_note :: "string \<Rightarrow> bool \<Rightarrow> media_output" where
  "mute_note sid muted = (if muted then MutedEvent sid else UnmutedEvent sid)"

definition mute_handler :: "nat \<Rightarrow> bool \<Rightarrow> local_state \<Rightarrow> local_state \<times> media_output list" where
  "mute_handler p muted s =
     (if lp_reports (ls_pubs s ! p) \<and> ls_listening s
      then (s\<lparr>ls_mute_tasks := ls_mute_tasks s @ [(p, muted)]\<rparr>, [mute_note (pub_sid p s) muted])
      else (s, []))"

definition track_set_muted :: "nat \<Rightarrow> bool \<Rightarrow> local_state \<Rightarrow> local_state \<times> media_output list" where
  "track_set_muted t muted s =
     (if lt_muted (ls_tracks s ! t) = muted then (s, [])
      else let s = on_track t (\<lambda>tr. tr\<lparr>lt_enabled := \<not> muted, lt_muted := muted\<rparr>) s
           in (case lt_reports_to (ls_tracks s ! t) of None \<Rightarrow> (s, []) | Some p \<Rightarrow> mute_handler p muted s))"

definition publication_set_muted :: "nat \<Rightarrow> bool \<Rightarrow> local_state \<Rightarrow> local_state \<times> media_output list" where
  "publication_set_muted p muted s =
     (let (s, outs) = (case pub_track p s of None \<Rightarrow> (s, []) | Some t \<Rightarrow> track_set_muted t muted s);
          (s, more_outs) = mute_handler p muted s
      in (s, outs @ more_outs))"

text \<open>One of the tasks sends its request or fails: the tasks are independent, and a failure is only logged.\<close>

definition mute_task_runs :: "nat \<Rightarrow> local_state \<Rightarrow> local_state \<times> media_output list" where
  "mute_task_runs i s =
     (case ls_mute_tasks s ! i of
        (p, muted) \<Rightarrow>
          (s\<lparr>ls_mute_tasks := take i (ls_mute_tasks s) @ drop (Suc i) (ls_mute_tasks s)\<rparr>, [MuteRequest (pub_sid p s) muted]))"

definition mute_task_fails :: "nat \<Rightarrow> local_state \<Rightarrow> local_state" where
  "mute_task_fails i s = s\<lparr>ls_mute_tasks := take i (ls_mute_tasks s) @ drop (Suc i) (ls_mute_tasks s)\<rparr>"

definition track_enable :: "nat \<Rightarrow> bool \<Rightarrow> local_state \<Rightarrow> local_state" where
  "track_enable t b = on_track t (\<lambda>tr. tr\<lparr>lt_enabled := b\<rparr>)"

definition publication_is_muted :: "nat \<Rightarrow> local_state \<Rightarrow> bool" where
  "publication_is_muted p s =
     (case pub_track p s of Some t \<Rightarrow> lt_muted (ls_tracks s ! t) | None \<Rightarrow> pb_muted (lp_inner (ls_pubs s ! p)))"

section \<open>Publishing\<close>

text \<open>
  \<open>set_track\<close> of a publication: the handlers of the track it had are replaced by empty ones, also
  when they belong to another publication by now.
\<close>

definition publication_set_track :: "nat \<Rightarrow> nat option \<Rightarrow> local_state \<Rightarrow> local_state" where
  "publication_set_track p track s =
     (let s = (case pub_track p s of None \<Rightarrow> s | Some t \<Rightarrow> on_track t (\<lambda>tr. tr\<lparr>lt_reports_to := None\<rparr>) s);
          s = on_pub p (\<lambda>lp. lp\<lparr>lp_inner := (lp_inner lp)\<lparr>pb_track := track\<rparr>\<rparr>) s
      in case track of
           None \<Rightarrow> s
         | Some t \<Rightarrow>
             on_track t (\<lambda>tr. tr\<lparr>lt_reports_to := Some p\<rparr>)
               (on_pub p (\<lambda>lp. lp\<lparr>lp_inner := (lp_inner lp)\<lparr>pb_sid := lt_sid (ls_tracks s ! t)\<rparr>\<rparr>) s))"

definition is_svc_multilayer :: "rtp_encoding list \<Rightarrow> bool" where
  "is_svc_multilayer encodings \<longleftrightarrow>
     (case encodings of
        [e] \<Rightarrow> (case re_scalability_mode e of None \<Rightarrow> False | Some mode \<Rightarrow> 1 < spatial_layers_from_scalability_mode mode)
      | _ \<Rightarrow> False)"

text \<open>\<open>options::audio::MUSIC\<close>.\<close>

definition MUSIC_BITRATE :: u64 where
  "MUSIC_BITRATE = 48000"

definition add_track_request_of ::
  "stream_encryption \<Rightarrow> media_track \<Rightarrow> local_publish_options \<Rightarrow> (add_track_request \<times> rtp_encoding list) may_panic" where
  "add_track_request_of encryption tr opts =
     (let req = \<lparr>ar_cid = lt_rtc_id tr, ar_name = lt_name tr, ar_kind = lt_kind tr, ar_muted = lt_muted tr,
            ar_source = po_source opts, ar_disable_dtx = (\<not> lo_dtx opts),
            ar_disable_red = (encryption \<noteq> NoEncryption \<or> \<not> lo_red opts), ar_encryption = encryption,
            ar_stream = lo_stream opts, ar_preconnect_buffer = lo_preconnect_buffer opts,
            ar_trailer_features = (lo_user_timestamp opts, lo_frame_id opts),
            ar_dimension = (0, 0), ar_layers = [], ar_simulcast_codecs = []\<rparr>
      in case lt_kind tr of
           Audio \<Rightarrow>
             Ok (req, [\<lparr>re_rid = [], re_scale_resolution_down_by = None,
                        re_max_bitrate = Some (case lo_audio_max_bitrate opts of Some b \<Rightarrow> b | None \<Rightarrow> MUSIC_BITRATE),
                        re_max_framerate = None, re_scalability_mode = None\<rparr>])
         | Video \<Rightarrow>
             (case lt_resolution tr of (w, h) \<Rightarrow>
                and_then (compute_video_encodings w h (publish_options.truncate opts)) (\<lambda>encodings.
                  let layers = video_layers_from_encodings w h encodings
                  in Ok (req\<lparr>ar_dimension := (w, h), ar_layers := layers,
                            ar_simulcast_codecs :=
                              (if (po_simulcast opts \<and> 1 < length encodings) \<or> is_svc_multilayer encodings
                               then [(po_video_codec opts, lt_rtc_id tr, layers)] else [])\<rparr>, encodings))))"

text \<open>The encryption status, as for every participant; no data of its own reaches the local one.\<close>

definition local_update_encryption :: "local_state \<Rightarrow> local_state" where
  "local_update_encryption s =
     s\<lparr>ls_is_encrypted := (ls_publications s \<noteq> []
        \<and> list_all (\<lambda>(_, p). pb_encryption (lp_inner (ls_pubs s ! p)) \<noteq> NoEncryption) (ls_publications s))\<rparr>"

definition local_add_publication :: "nat \<Rightarrow> local_state \<Rightarrow> local_state" where
  "local_add_publication p s =
     local_update_encryption
       (on_pub p (\<lambda>lp. lp\<lparr>lp_reports := True\<rparr>) (s\<lparr>ls_publications := hm_insert (pub_sid p s) p (ls_publications s)\<rparr>))"

definition local_remove_publication :: "string \<Rightarrow> local_state \<Rightarrow> local_state \<times> nat option" where
  "local_remove_publication sid s =
     (let found = hm_get (ls_publications s) sid;
          s = s\<lparr>ls_publications := hm_remove sid (ls_publications s)\<rparr>;
          s = (case found of None \<Rightarrow> s | Some p \<Rightarrow> on_pub p (\<lambda>lp. lp\<lparr>lp_reports := False\<rparr>) s)
      in (local_update_encryption s, found))"

text \<open>The server has answered: the publication is made and the track gets its identifier.\<close>

definition publish_answered :: "nat \<Rightarrow> track_info \<Rightarrow> local_state \<Rightarrow> (local_state \<times> nat) may_panic" where
  "publish_answered t info s =
     (case publication_new info False of
        None \<Rightarrow> Panic
      | Some pb \<Rightarrow>
          (let p = length (ls_pubs s);
               s = s\<lparr>ls_pubs := ls_pubs s @ [\<lparr>lp_inner = pb\<lparr>pb_track := Some t\<rparr>, lp_options = None, lp_reports = False\<rparr>]\<rparr>;
               s = on_track t (\<lambda>tr. tr\<lparr>lt_kind := pb_kind pb, lt_name := ti_name info, lt_sid := pb_sid pb\<rparr>) s
           in Ok (publication_set_track p (Some t) s, p)))"

text \<open>The sender is there.\<close>

definition publish_finished ::
  "nat \<Rightarrow> nat \<Rightarrow> local_publish_options \<Rightarrow> nat \<Rightarrow> local_state \<Rightarrow> local_state \<times> media_output list" where
  "publish_finished p t opts transceiver s =
     (let s = on_track t (\<lambda>tr. tr\<lparr>lt_transceiver := Some transceiver\<rparr>) s;
          s = on_pub p (\<lambda>lp. lp\<lparr>lp_options := Some opts\<rparr>) s;
          s = local_add_publication p s
      in (track_enable t True s, LocalNegotiation # (if ls_listening s then [PublishedEvent (pub_sid p s)] else [])))"

section \<open>Unpublishing\<close>

datatype local_error = EngineFailed engine_error | TrackNotFound

text \<open>\<open>removed\<close> is what the engine answers when the sender is removed.\<close>

definition local_unpublish_track ::
  "string \<Rightarrow> (engine_error, unit) outcome \<Rightarrow> local_state \<Rightarrow> (local_error, nat) outcome \<times> local_state \<times> media_output list" where
  "local_unpublish_track sid removed s =
     (case local_remove_publication sid s of
        (s, None) \<Rightarrow> (Err TrackNotFound, s, [])
      | (s, Some p) \<Rightarrow>
          (case pub_track p s of
             None \<Rightarrow> (Panic, s, [])
           | Some t \<Rightarrow>
               if lt_transceiver (ls_tracks s ! t) = None then (Panic, s, [])
               else (case removed of
                       Panic \<Rightarrow> (Panic, s, [])
                     | Err e \<Rightarrow> (Err (EngineFailed e), s, [])
                     | Ok _ \<Rightarrow>
                         (let s = on_track t (\<lambda>tr. tr\<lparr>lt_transceiver := None\<rparr>) s;
                              outs = (if ls_listening s then [UnpublishedEvent (pub_sid p s)] else [])
                          in (Ok p, publication_set_track p None s, outs @ [LocalNegotiation])))))"

section \<open>The participant as a machine\<close>

datatype media_event =
    NewTrack string track_kind string "u32 \<times> u32" | PublishCall nat local_publish_options
  | PublishAnswer nat "(engine_error, track_info) outcome" | SenderMade nat "(engine_error, nat) outcome"
  | UnpublishCall string "(engine_error, unit) outcome" | MuteTrack nat bool | MutePublication nat bool
  | EnableTrack nat bool | MuteTaskRuns nat | MuteTaskFails nat

definition logged :: "local_state \<times> media_output list \<Rightarrow> local_state" where
  "logged r = (fst r)\<lparr>ls_log := ls_log (fst r) @ snd r\<rparr>"

definition set_call :: "nat \<Rightarrow> publishing \<Rightarrow> local_state \<Rightarrow> local_state" where
  "set_call c ph s = s\<lparr>ls_calls := (ls_calls s)[c := ph]\<rparr>"

definition call_of :: "nat \<Rightarrow> local_state \<Rightarrow> publishing option" where
  "call_of c s = (if c < length (ls_calls s) then Some (ls_calls s ! c) else None)"

fun local_apply :: "media_event \<Rightarrow> local_state \<Rightarrow> local_state option" where
  "local_apply (NewTrack nm kind rtc_id resolution) s =
     Some (s\<lparr>ls_tracks := ls_tracks s @ [track_new nm kind rtc_id resolution]\<rparr>)"
| "local_apply (PublishCall t opts) s =
     (if t < length (ls_tracks s) then
        (case add_track_request_of (ls_encryption_type s) (ls_tracks s ! t) opts of
           Ok (req, encodings) \<Rightarrow>
             Some (logged (s\<lparr>ls_calls := ls_calls s @ [WaitsAnswer t opts]\<rparr>, [AddTrackSent req]))
         | _ \<Rightarrow> Some (s\<lparr>ls_calls := ls_calls s @ [PublishPanicked]\<rparr>))
      else None)"
| "local_apply (PublishAnswer c answer) s =
     (case call_of c s of
        Some (WaitsAnswer t opts) \<Rightarrow>
          (case answer of
             Err e \<Rightarrow> Some (set_call c (PublishFailed e) s)
           | Panic \<Rightarrow> Some (set_call c PublishPanicked s)
           | Ok info \<Rightarrow>
               (case publish_answered t info s of
                  Ok (s', p) \<Rightarrow> Some (set_call c (WaitsSender p t opts) s')
                | _ \<Rightarrow> Some (set_call c PublishPanicked s)))
      | _ \<Rightarrow> None)"
| "local_apply (SenderMade c made) s =
     (case call_of c s of
        Some (WaitsSender p t opts) \<Rightarrow>
          (case made of
             Err e \<Rightarrow> Some (set_call c (PublishFailed e) s)
           | Panic \<Rightarrow> Some (set_call c PublishPanicked s)
           | Ok transceiver \<Rightarrow> Some (logged (publish_finished p t opts transceiver (set_call c (PublishedAs p) s))))
      | _ \<Rightarrow> None)"
| "local_apply (UnpublishCall sid removed) s = Some (logged (snd (local_unpublish_track sid removed s)))"
| "local_apply (MuteTrack t muted) s =
     (if t < length (ls_tracks s) then Some (logged (track_set_muted t muted s)) else None)"
| "local_apply (MutePublication p muted) s =
     (if p < length (ls_pubs s) then Some (logged (publication_set_muted p muted s)) else None)"
| "local_apply (EnableTrack t b) s = (if t < length (ls_tracks s) then Some (track_enable t b s) else None)"
| "local_apply (MuteTaskRuns i) s = (if i < length (ls_mute_tasks s) then Some (logged (mute_task_runs i s)) else None)"
| "local_apply (MuteTaskFails i) s = (if i < length (ls_mute_tasks s) then Some (mute_task_fails i s) else None)"

definition local_new :: "stream_encryption \<Rightarrow> local_state" where
  "local_new encryption =
     \<lparr>ls_tracks = [], ls_pubs = [], ls_publications = [], ls_encryption_type = encryption, ls_is_encrypted = False,
      ls_listening = True, ls_calls = [], ls_log = [], ls_mute_tasks = []\<rparr>"

section \<open>Lemmas\<close>

lemma on_track_simps [simp]:
  "length (ls_tracks (on_track t f s)) = length (ls_tracks s)" "ls_pubs (on_track t f s) = ls_pubs s"
  "ls_publications (on_track t f s) = ls_publications s" "ls_listening (on_track t f s) = ls_listening s"
  "ls_calls (on_track t f s) = ls_calls s" "ls_log (on_track t f s) = ls_log s" "ls_mute_tasks (on_track t f s) = ls_mute_tasks s"
  "i < length (ls_tracks s) \<Longrightarrow> ls_tracks (on_track t f s) ! i = (if i = t then f (ls_tracks s ! t) else ls_tracks s ! i)"
  by (auto simp: on_track_def nth_list_update)

lemma on_pub_simps [simp]:
  "length (ls_pubs (on_pub p f s)) = length (ls_pubs s)" "ls_tracks (on_pub p f s) = ls_tracks s"
  "ls_publications (on_pub p f s) = ls_publications s" "ls_listening (on_pub p f s) = ls_listening s"
  "ls_calls (on_pub p f s) = ls_calls s" "ls_log (on_pub p f s) = ls_log s" "ls_mute_tasks (on_pub p f s) = ls_mute_tasks s"
  "i < length (ls_pubs s) \<Longrightarrow> ls_pubs (on_pub p f s) ! i = (if i = p then f (ls_pubs s ! p) else ls_pubs s ! i)"
  by (auto simp: on_pub_def nth_list_update)

lemma logged_simps [simp]:
  "ls_tracks (logged r) = ls_tracks (fst r)" "ls_pubs (logged r) = ls_pubs (fst r)"
  "ls_publications (logged r) = ls_publications (fst r)" "ls_listening (logged r) = ls_listening (fst r)"
  "ls_calls (logged r) = ls_calls (fst r)" "ls_log (logged r) = ls_log (fst r) @ snd r" "ls_mute_tasks (logged r) = ls_mute_tasks (fst r)"
  by (simp_all add: logged_def)

lemma set_call_simps [simp]:
  "ls_tracks (set_call c ph s) = ls_tracks s" "ls_pubs (set_call c ph s) = ls_pubs s"
  "ls_publications (set_call c ph s) = ls_publications s" "ls_listening (set_call c ph s) = ls_listening s"
  "ls_log (set_call c ph s) = ls_log s" "ls_mute_tasks (set_call c ph s) = ls_mute_tasks s"
  by (simp_all add: set_call_def)

lemma update_encryption_simps [simp]:
  "ls_tracks (local_update_encryption s) = ls_tracks s" "ls_pubs (local_update_encryption s) = ls_pubs s"
  "ls_publications (local_update_encryption s) = ls_publications s" "ls_listening (local_update_encryption s) = ls_listening s"
  "ls_calls (local_update_encryption s) = ls_calls s" "ls_log (local_update_encryption s) = ls_log s" "ls_mute_tasks (local_update_encryption s) = ls_mute_tasks s"
  by (simp_all add: local_update_encryption_def)

text \<open>What leaves the flags of all tracks alone.\<close>

definition same_flags :: "local_state \<Rightarrow> local_state \<Rightarrow> bool" where
  "same_flags s s' \<longleftrightarrow> length (ls_tracks s') = length (ls_tracks s)
     \<and> (\<forall>t<length (ls_tracks s). lt_muted (ls_tracks s' ! t) = lt_muted (ls_tracks s ! t)
          \<and> lt_enabled (ls_tracks s' ! t) = lt_enabled (ls_tracks s ! t))"

lemma publication_set_track_flags: "same_flags s (publication_set_track p track s)"
  by (auto simp: same_flags_def publication_set_track_def Let_def split: option.splits)

lemma same_flags_trans: "same_flags s1 s2 \<Longrightarrow> same_flags s2 s3 \<Longrightarrow> same_flags s1 s3"
  by (simp add: same_flags_def)

lemma publish_answered_eq:
  "publish_answered t info s = Ok (s', p) \<longleftrightarrow> p = length (ls_pubs s) \<and> (\<exists>pb. publication_new info False = Some pb
     \<and> s' = publication_set_track p (Some t)
         (on_track t (\<lambda>tr. tr\<lparr>lt_kind := pb_kind pb, lt_name := ti_name info, lt_sid := pb_sid pb\<rparr>)
           (s\<lparr>ls_pubs := ls_pubs s @ [\<lparr>lp_inner = pb\<lparr>pb_track := Some t\<rparr>, lp_options = None, lp_reports = False\<rparr>]\<rparr>)))"
  by (auto simp: publish_answered_def Let_def split: option.splits)

lemma publish_answered_flags:
  assumes "publish_answered t info s = Ok (s', p)"
  shows "same_flags s s'"
proof -
  obtain pb where s': "s' = publication_set_track p (Some t)
         (on_track t (\<lambda>tr. tr\<lparr>lt_kind := pb_kind pb, lt_name := ti_name info, lt_sid := pb_sid pb\<rparr>)
           (s\<lparr>ls_pubs := ls_pubs s @ [\<lparr>lp_inner = pb\<lparr>pb_track := Some t\<rparr>, lp_options = None, lp_reports = False\<rparr>]\<rparr>))"
    using assms by (auto simp: publish_answered_eq)
  show ?thesis
    unfolding s' by (rule same_flags_trans [OF _ publication_set_track_flags]) (auto simp: same_flags_def)
qed

lemma local_remove_publication_tracks [simp]: "ls_tracks (fst (local_remove_publication sid s)) = ls_tracks s"
  by (simp add: local_remove_publication_def Let_def split: option.splits)

lemma local_unpublish_flags: "same_flags s (fst (snd (local_unpublish_track sid removed s)))"
proof -
  obtain s1 found where r: "local_remove_publication sid s = (s1, found)" by (cases "local_remove_publication sid s")
  then have "same_flags s s1"
    using local_remove_publication_tracks [of sid s] by (simp add: same_flags_def)
  then show ?thesis
    using r publication_set_track_flags [of "on_track t (\<lambda>tr. tr\<lparr>lt_transceiver := None\<rparr>) s1" p None for t p]
    by (auto simp: local_unpublish_track_def same_flags_def Let_def split: option.splits outcome.splits)
qed

text \<open>What makes a muted track send: its owner enables it, or its publication completes.\<close>

definition enables :: "nat \<Rightarrow> media_event \<Rightarrow> local_state \<Rightarrow> bool" where
  "enables t e s \<longleftrightarrow> e = EnableTrack t True
     \<or> (\<exists>c transceiver p opts. e = SenderMade c (Ok transceiver) \<and> call_of c s = Some (WaitsSender p t opts))"

lemma mute_handler_frame [simp]:
  "ls_tracks (fst (mute_handler p muted s)) = ls_tracks s" "ls_pubs (fst (mute_handler p muted s)) = ls_pubs s"
  "ls_listening (fst (mute_handler p muted s)) = ls_listening s" "ls_log (fst (mute_handler p muted s)) = ls_log s"
  by (simp_all add: mute_handler_def)

lemma track_set_muted_flags:
  assumes "i < length (ls_tracks s)"
  shows "length (ls_tracks (fst (track_set_muted t muted s))) = length (ls_tracks s)"
    and "lt_muted (ls_tracks (fst (track_set_muted t muted s)) ! i) \<Longrightarrow>
      lt_enabled (ls_tracks (fst (track_set_muted t muted s)) ! i) \<Longrightarrow>
      lt_muted (ls_tracks s ! i) \<and> lt_enabled (ls_tracks s ! i)"
  using assms by (auto simp: track_set_muted_def Let_def split: if_splits option.splits)

lemma publication_set_muted_state:
  "publication_set_muted p muted s =
     (let s1 = (case pub_track p s of None \<Rightarrow> s | Some t \<Rightarrow> fst (track_set_muted t muted s));
          outs = (case pub_track p s of None \<Rightarrow> [] | Some t \<Rightarrow> snd (track_set_muted t muted s))
      in (fst (mute_handler p muted s1), outs @ snd (mute_handler p muted s1)))"
  by (simp add: publication_set_muted_def Let_def split: option.splits prod.splits)

lemma publication_set_muted_flags:
  assumes "i < length (ls_tracks s)"
  shows "length (ls_tracks (fst (publication_set_muted p muted s))) = length (ls_tracks s)"
    and "lt_muted (ls_tracks (fst (publication_set_muted p muted s)) ! i) \<Longrightarrow>
      lt_enabled (ls_tracks (fst (publication_set_muted p muted s)) ! i) \<Longrightarrow>
      lt_muted (ls_tracks s ! i) \<and> lt_enabled (ls_tracks s ! i)"
  using track_set_muted_flags [OF assms] by (simp_all add: publication_set_muted_state Let_def split: option.splits)

lemma length_tracks_mute [simp]:
  "length (ls_tracks (fst (track_set_muted t muted s))) = length (ls_tracks s)"
  "length (ls_tracks (fst (publication_set_muted p muted s))) = length (ls_tracks s)"
  by (simp_all add: publication_set_muted_state track_set_muted_def Let_def split: option.splits)

lemma publish_finished_length [simp]:
  "length (ls_tracks (fst (publish_finished p t opts transceiver s))) = length (ls_tracks s)"
  by (simp add: publish_finished_def Let_def track_enable_def local_add_publication_def)

lemma publish_finished_flags:
  assumes "i < length (ls_tracks s)"
  shows "lt_muted (ls_tracks (fst (publish_finished p t opts transceiver s)) ! i) = lt_muted (ls_tracks s ! i)"
    and "lt_enabled (ls_tracks (fst (publish_finished p t opts transceiver s)) ! i) \<longleftrightarrow> i = t \<or> lt_enabled (ls_tracks s ! i)"
  using assms by (auto simp: publish_finished_def Let_def track_enable_def local_add_publication_def)

lemma muted_and_sending_step:
  assumes "local_apply e s = Some s'" and "t < length (ls_tracks s')"
    and "lt_muted (ls_tracks s' ! t)" and "lt_enabled (ls_tracks s' ! t)"
  shows "t < length (ls_tracks s) \<and> lt_muted (ls_tracks s ! t) \<and> (lt_enabled (ls_tracks s ! t) \<or> enables t e s)"
proof (cases e)
  case (NewTrack nm kind rtc_id resolution)
  then show ?thesis
    using assms by (auto simp: nth_append track_new_def less_Suc_eq split: if_splits)
next
  case (PublishAnswer c answer)
  then have "same_flags s s'"
    using assms(1) publish_answered_flags
    by (auto simp: same_flags_def split: option.splits publishing.splits outcome.splits prod.splits)
  then show ?thesis
    using assms(2-4) by (auto simp: same_flags_def)
next
  case (SenderMade c made)
  then show ?thesis
    using assms publish_finished_flags [where s = "set_call c ph s" and i = t for ph]
    by (auto simp: enables_def split: option.splits publishing.splits outcome.splits)
next
  case (UnpublishCall sid removed)
  then show ?thesis
    using assms local_unpublish_flags [of s sid removed] by (auto simp: same_flags_def)
next
  case (MuteTrack t' muted)
  then show ?thesis
    using assms track_set_muted_flags(2) [of t s t' muted] by (auto split: if_splits)
next
  case (MutePublication p muted)
  then show ?thesis
    using assms publication_set_muted_flags(2) [of t s p muted] by (auto split: if_splits)
next
  case (EnableTrack t' b)
  then show ?thesis
    using assms by (auto simp: track_enable_def enables_def split: if_splits)
qed (use assms in \<open>auto simp: mute_task_runs_def mute_task_fails_def split: if_splits outcome.splits prod.splits\<close>)

section \<open>Properties\<close>

text \<open>
  C10: A muted track is silent, with exactly two exceptions.  When in some run a track is muted and yet sends, then at some earlier
  point of the run it was muted and either its owner enabled it or its publication completed: publishing a
  track that was muted before, or while it was being published, makes it send.
\<close>

theorem muted_track_is_silent:
  assumes "run_enabled local_apply es (local_new encryption) = Some s"
    and "t < length (ls_tracks s)" and "lt_muted (ls_tracks s ! t)"
  shows "lt_enabled (ls_tracks s ! t) \<longrightarrow>
    (\<exists>before e later s1. es = before @ e # later \<and> run_enabled local_apply before (local_new encryption) = Some s1
       \<and> t < length (ls_tracks s1) \<and> lt_muted (ls_tracks s1 ! t) \<and> enables t e s1)"
proof
  assume "lt_enabled (ls_tracks s ! t)"
  with assms show "\<exists>before e later s1. es = before @ e # later \<and> run_enabled local_apply before (local_new encryption) = Some s1
       \<and> t < length (ls_tracks s1) \<and> lt_muted (ls_tracks s1 ! t) \<and> enables t e s1"
  proof (induction es arbitrary: s rule: rev_induct)
    case Nil
    then show ?case by (auto simp: local_new_def)
  next
    case (snoc e es)
    obtain s1 where s1: "run_enabled local_apply es (local_new encryption) = Some s1" "local_apply e s1 = Some s"
      using snoc.prems(1) by (auto simp: run_enabled_append split: option.splits)
    have step: "t < length (ls_tracks s1)" "lt_muted (ls_tracks s1 ! t)" "lt_enabled (ls_tracks s1 ! t) \<or> enables t e s1"
      using muted_and_sending_step [OF s1(2) snoc.prems(2-4)] by auto
    show ?case
    proof (cases "enables t e s1")
      case True
      then show ?thesis using s1(1) step by blast
    next
      case False
      then show ?thesis
        using snoc.IH [OF s1(1) step(1,2)] step(3) by (metis append_Cons append_assoc)
    qed
  qed
qed

text \<open>A guitar track is muted and then published: it is muted, and sends.\<close>

definition sample_audio_options :: local_publish_options where
  "sample_audio_options =
     publish_options.extend publish_options_default
       (local_publish_options.fields None True True '''' False False False)"

definition guitar_info :: track_info where
  "guitar_info =
     \<lparr>ti_sid = ''TR_g'', ti_name = ''guitar'', ti_type = AudioTrack, ti_muted = True, ti_encryption = NoEncryption,
      ti_mime_type = ''audio/opus'', ti_dimension = (0, 0), ti_simulcast = False, ti_layers = 0, ti_codec_layers = []\<rparr>"

definition muted_then_published :: "media_event list" where
  "muted_then_published =
     [NewTrack ''guitar'' Audio ''rtc1'' (0, 0), MuteTrack 0 True, PublishCall 0 sample_audio_options,
      PublishAnswer 0 (Ok guitar_info), SenderMade 0 (Ok 5)]"

text \<open>A track that is published under one publication, whose handlers are in place.\<close>

definition settled :: "nat \<Rightarrow> nat \<Rightarrow> local_state \<Rightarrow> bool" where
  "settled p t s \<longleftrightarrow> p < length (ls_pubs s) \<and> t < length (ls_tracks s) \<and> pub_track p s = Some t
     \<and> lt_reports_to (ls_tracks s ! t) = Some p \<and> lp_reports (ls_pubs s ! p) \<and> ls_listening s"

text \<open>What the flag changes in \<open>s'\<close> compared to \<open>s\<close>: for each of \<open>ms\<close>, one event, and one task for publication \<open>p\<close>.\<close>

definition reported :: "nat \<Rightarrow> bool list \<Rightarrow> local_state \<Rightarrow> local_state \<times> media_output list \<Rightarrow> bool" where
  "reported p ms s r \<longleftrightarrow> snd r = map (mute_note (pub_sid p s)) ms \<and> ls_mute_tasks (fst r) = ls_mute_tasks s @ map (Pair p) ms
     \<and> ls_log (fst r) = ls_log s"

lemma mute_handler_settled:
  "settled p t s \<Longrightarrow> settled p t (fst (mute_handler p muted s)) \<and> pub_sid p (fst (mute_handler p muted s)) = pub_sid p s
    \<and> reported p [muted] s (mute_handler p muted s)"
  by (simp add: settled_def mute_handler_def reported_def pub_track_def pub_sid_def)

lemma track_set_muted_settled:
  assumes "settled p t s"
  shows "settled p t (fst (track_set_muted t muted s))"
    and "pub_sid p (fst (track_set_muted t muted s)) = pub_sid p s"
    and "lt_muted (ls_tracks (fst (track_set_muted t muted s)) ! t) = muted"
    and "reported p (if lt_muted (ls_tracks s ! t) = muted then [] else [muted]) s (track_set_muted t muted s)"
  using assms
  by (auto simp: track_set_muted_def settled_def Let_def pub_track_def pub_sid_def mute_handler_def reported_def)

lemma publication_set_muted_settled:
  assumes "settled p t s"
  shows "settled p t (fst (publication_set_muted p muted s))"
    and "pub_sid p (fst (publication_set_muted p muted s)) = pub_sid p s"
    and "lt_muted (ls_tracks (fst (publication_set_muted p muted s)) ! t) = muted"
    and "reported p ((if lt_muted (ls_tracks s ! t) = muted then [] else [muted]) @ [muted]) s (publication_set_muted p muted s)"
proof -
  let ?r = "track_set_muted t muted s"
  have "pub_track p s = Some t" using assms by (simp add: settled_def)
  then have eq: "publication_set_muted p muted s =
      (fst (mute_handler p muted (fst ?r)), snd ?r @ snd (mute_handler p muted (fst ?r)))"
    by (simp add: publication_set_muted_state Let_def)
  note t = track_set_muted_settled [OF assms, of muted]
  note h = mute_handler_settled [OF t(1), of muted]
  show "settled p t (fst (publication_set_muted p muted s))"
    "pub_sid p (fst (publication_set_muted p muted s)) = pub_sid p s"
    "lt_muted (ls_tracks (fst (publication_set_muted p muted s)) ! t) = muted"
    using t h by (simp_all add: eq)
  show "reported p ((if lt_muted (ls_tracks s ! t) = muted then [] else [muted]) @ [muted]) s (publication_set_muted p muted s)"
    using t(2,4) h by (auto simp: eq reported_def)
qed

text \<open>Muting through the publication or through the track, and the tasks that report it.\<close>

fun mutes_or_reports :: "nat \<Rightarrow> nat \<Rightarrow> media_event \<Rightarrow> bool" where
  "mutes_or_reports p t (MuteTrack t' muted) \<longleftrightarrow> t' = t"
| "mutes_or_reports p t (MutePublication p' muted) \<longleftrightarrow> p' = p"
| "mutes_or_reports p t (MuteTaskRuns i) \<longleftrightarrow> True"
| "mutes_or_reports p t (MuteTaskFails i) \<longleftrightarrow> True"
| "mutes_or_reports p t _ \<longleftrightarrow> False"

fun mute_calls :: "media_event list \<Rightarrow> (bool \<times> bool) list" where
  "mute_calls [] = []"
| "mute_calls (MuteTrack t muted # es) = (False, muted) # mute_calls es"
| "mute_calls (MutePublication p muted # es) = (True, muted) # mute_calls es"
| "mute_calls (_ # es) = mute_calls es"

lemma mute_calls_append [simp]: "mute_calls (es @ fs) = mute_calls es @ mute_calls fs"
  by (induction es rule: mute_calls.induct) simp_all

text \<open>A change is reported once, and the publication reports once more, whether or not anything has changed.\<close>

fun mute_reports :: "bool \<Rightarrow> (bool \<times> bool) list \<Rightarrow> bool list" where
  "mute_reports now [] = []"
| "mute_reports now ((via_publication, muted) # ms) =
     (if now = muted then [] else [muted]) @ (if via_publication then [muted] else []) @ mute_reports muted ms"

definition muted_after :: "bool \<Rightarrow> (bool \<times> bool) list \<Rightarrow> bool" where
  "muted_after now ms = (if ms = [] then now else snd (last ms))"

lemma muted_after_simps [simp]: "muted_after now [] = now" "muted_after now (ms @ [m]) = snd m"
  by (simp_all add: muted_after_def)

lemma mute_reports_append: "mute_reports now (ms @ ms') = mute_reports now ms @ mute_reports (muted_after now ms) ms'"
proof (induction now ms rule: mute_reports.induct)
  case (2 now via_publication muted ms)
  then show ?case by (cases ms) (simp_all add: muted_after_def)
qed simp

lemma mute_reports_last: "mute_reports now ms \<noteq> [] \<Longrightarrow> last (mute_reports now ms) = muted_after now ms"
  and mute_reports_none: "mute_reports now ms = [] \<Longrightarrow> muted_after now ms = now"
proof (induction now ms rule: mute_reports.induct)
  case (2 now via_publication muted ms)
  {
    case 1
    then show ?case using 2 by (cases ms) (auto simp: muted_after_def split: if_splits)
  next
    case 2
    then show ?case using "2.IH" by (cases ms) (auto simp: muted_after_def split: if_splits)
  }
qed simp_all

text \<open>The requests in a log.\<close>

fun is_mute_request :: "media_output \<Rightarrow> bool" where
  "is_mute_request (MuteRequest sid muted) \<longleftrightarrow> True"
| "is_mute_request _ \<longleftrightarrow> False"

lemma mute_note_no_request [simp]: "\<not> is_mute_request (mute_note sid muted)"
  by (simp add: mute_note_def)

definition mute_fails :: "media_event list \<Rightarrow> bool" where
  "mute_fails es \<longleftrightarrow> (\<exists>i. MuteTaskFails i \<in> set es)"

text \<open>No task is overtaken by a later one.\<close>

definition in_order :: "media_event list \<Rightarrow> bool" where
  "in_order es \<longleftrightarrow> \<not> mute_fails es \<and> (\<forall>i. MuteTaskRuns i \<in> set es \<longrightarrow> i = 0)"

text \<open>The run so far: the log since \<open>L\<close>, the flags \<open>sent\<close> to the server and \<open>lost\<close> by tasks that failed.\<close>

definition mute_history ::
  "nat \<Rightarrow> nat \<Rightarrow> string \<Rightarrow> bool \<Rightarrow> media_output list \<Rightarrow> media_event list \<Rightarrow> local_state \<Rightarrow> media_output list \<Rightarrow> bool list \<Rightarrow> bool list \<Rightarrow> bool"
where
  "mute_history p t sid now L es s news sent lost \<longleftrightarrow>
     ls_log s = L @ news \<and> filter (\<lambda>out. \<not> is_mute_request out) news = map (mute_note sid) (mute_reports now (mute_calls es))
     \<and> filter is_mute_request news = map (MuteRequest sid) sent
     \<and> mset sent + mset (map snd (ls_mute_tasks s)) + mset lost = mset (mute_reports now (mute_calls es))
     \<and> (\<not> mute_fails es \<longrightarrow> lost = []) \<and> (in_order es \<longrightarrow> sent @ map snd (ls_mute_tasks s) = mute_reports now (mute_calls es))"

definition mute_inv :: "nat \<Rightarrow> nat \<Rightarrow> string \<Rightarrow> bool \<Rightarrow> media_output list \<Rightarrow> media_event list \<Rightarrow> local_state \<Rightarrow> bool" where
  "mute_inv p t sid now L es s \<longleftrightarrow>
     settled p t s \<and> pub_sid p s = sid \<and> (\<forall>x\<in>set (ls_mute_tasks s). fst x = p)
     \<and> lt_muted (ls_tracks s ! t) = muted_after now (mute_calls es)
     \<and> (\<exists>news sent lost. mute_history p t sid now L es s news sent lost)"

lemma settled_logged [simp]: "settled p t (logged r) = settled p t (fst r)" "pub_sid p (logged r) = pub_sid p (fst r)"
  by (simp_all add: settled_def pub_track_def pub_sid_def)

lemma mute_inv_reported:
  assumes inv: "mute_inv p t sid now L es s" and calls: "mute_calls [e] = [m]"
    and r: "reported p (mute_reports (lt_muted (ls_tracks s ! t)) [m]) s r" "settled p t (fst r)" "pub_sid p (fst r) = pub_sid p s"
      "lt_muted (ls_tracks (fst r) ! t) = snd m"
    and e: "\<And>i. e \<noteq> MuteTaskRuns i" "\<And>i. e \<noteq> MuteTaskFails i"
  shows "mute_inv p t sid now L (es @ [e]) (logged r)"
proof -
  obtain news sent lost where h: "mute_history p t sid now L es s news sent lost" using inv by (auto simp: mute_inv_def)
  let ?new = "mute_reports (lt_muted (ls_tracks s ! t)) [m]"
  have flags: "mute_fails (es @ [e]) = mute_fails es" "in_order (es @ [e]) = in_order es"
    using e by (auto simp: mute_fails_def in_order_def)
  have reports: "mute_reports now (mute_calls (es @ [e])) = mute_reports now (mute_calls es) @ ?new"
    using inv calls by (simp add: mute_reports_append mute_inv_def)
  have "mute_history p t sid now L (es @ [e]) (logged r) (news @ map (mute_note sid) ?new) sent lost"
    using h r(1) inv unfolding mute_history_def reports flags
    by (simp add: reported_def mute_inv_def filter_map comp_def add_ac del: mute_reports.simps)
  then show ?thesis
    using inv r calls unfolding mute_inv_def by (auto simp: reported_def simp del: mute_reports.simps)
qed

lemma mset_taken: "i < length xs \<Longrightarrow> mset xs = add_mset (xs ! i) (mset (take i xs @ drop (Suc i) xs))"
  using arg_cong [OF id_take_nth_drop, of i xs mset] by simp

lemma mute_inv_task:
  assumes inv: "mute_inv p t sid now L es s" and i: "i < length (ls_mute_tasks s)"
  shows "mute_inv p t sid now L (es @ [MuteTaskRuns i]) (logged (mute_task_runs i s))"
    and "mute_inv p t sid now L (es @ [MuteTaskFails i]) (mute_task_fails i s)"
proof -
  obtain news sent lost where h: "mute_history p t sid now L es s news sent lost" using inv by (auto simp: mute_inv_def)
  let ?rest = "take i (ls_mute_tasks s) @ drop (Suc i) (ls_mute_tasks s)"
  obtain muted where m: "ls_mute_tasks s ! i = (p, muted)" using inv i by (metis mute_inv_def nth_mem prod.collapse)
  have tasks: "mset (map snd (ls_mute_tasks s)) = add_mset muted (mset (map snd ?rest))"
    using mset_taken [OF i] m by (metis image_mset_add_mset mset_map snd_conv)
  have set: "settled p t s" "pub_sid p s = sid" "\<forall>x\<in>set (ls_mute_tasks s). fst x = p"
    "lt_muted (ls_tracks s ! t) = muted_after now (mute_calls es)" using inv by (simp_all add: mute_inv_def)
  have same: "settled p t (s\<lparr>ls_mute_tasks := ?rest\<rparr>)" "pub_sid p (s\<lparr>ls_mute_tasks := ?rest\<rparr>) = sid"
    using set(1,2) by (simp_all add: settled_def pub_track_def pub_sid_def)
  have rest: "\<forall>x\<in>set ?rest. fst x = p" using set(3) by (auto dest: in_set_takeD in_set_dropD)
  have first: "map snd (ls_mute_tasks s) = muted # map snd ?rest" if "i = 0"
    using that i m by (cases "ls_mute_tasks s") auto
  have calls: "mute_calls (es @ [MuteTaskRuns i]) = mute_calls es" "mute_calls (es @ [MuteTaskFails i]) = mute_calls es" by simp_all
  have flags: "mute_fails (es @ [MuteTaskRuns i]) = mute_fails es" "in_order (es @ [MuteTaskRuns i]) = (in_order es \<and> i = 0)"
    "mute_fails (es @ [MuteTaskFails i])" "\<not> in_order (es @ [MuteTaskFails i])"
    by (auto simp: mute_fails_def in_order_def)
  have run: "mute_task_runs i s = (s\<lparr>ls_mute_tasks := ?rest\<rparr>, [MuteRequest sid muted])"
    using set(2) m by (simp add: mute_task_runs_def)
  have balance: "mset sent + mset (map snd (ls_mute_tasks s)) + mset lost = mset (mute_reports now (mute_calls es))"
    using h by (simp only: mute_history_def)
  have "mute_history p t sid now L (es @ [MuteTaskRuns i]) (logged (mute_task_runs i s)) (news @ [MuteRequest sid muted]) (sent @ [muted]) lost"
    unfolding mute_history_def calls flags(1,2)
  proof (intro conjI impI)
    show "mset (sent @ [muted]) + mset (map snd (ls_mute_tasks (logged (mute_task_runs i s)))) + mset lost = mset (mute_reports now (mute_calls es))"
      using balance unfolding tasks by (simp add: run)
    show "(sent @ [muted]) @ map snd (ls_mute_tasks (logged (mute_task_runs i s))) = mute_reports now (mute_calls es)" if "in_order es \<and> i = 0"
      unfolding run using h first that by (simp add: mute_history_def)
  qed (use h in \<open>simp_all add: mute_history_def run\<close>)
  then show "mute_inv p t sid now L (es @ [MuteTaskRuns i]) (logged (mute_task_runs i s))"
    using same rest set(4) unfolding mute_inv_def calls by (auto simp: run logged_def settled_def pub_track_def pub_sid_def)
  have "mute_history p t sid now L (es @ [MuteTaskFails i]) (mute_task_fails i s) news sent (muted # lost)"
    unfolding mute_history_def calls
  proof (intro conjI impI)
    show "mset sent + mset (map snd (ls_mute_tasks (mute_task_fails i s))) + mset (muted # lost) = mset (mute_reports now (mute_calls es))"
      using balance unfolding tasks by (simp add: mute_task_fails_def)
  qed (use h flags(3,4) in \<open>simp_all add: mute_history_def mute_task_fails_def\<close>)
  then show "mute_inv p t sid now L (es @ [MuteTaskFails i]) (mute_task_fails i s)"
    using same rest set(4) unfolding mute_inv_def calls by (auto simp: mute_task_fails_def)
qed

lemma mute_inv_step:
  assumes inv: "mute_inv p t sid now L es s" and e: "mutes_or_reports p t e" and step: "local_apply e s = Some s'"
  shows "mute_inv p t sid now L (es @ [e]) s'"
proof (cases e)
  case (MuteTrack t' muted)
  have set: "settled p t s" using inv by (simp add: mute_inv_def)
  then show ?thesis
    using MuteTrack e step mute_inv_reported [OF inv, of "MuteTrack t muted" "(False, muted)" "track_set_muted t muted s"]
      track_set_muted_settled [OF set, of muted] by (auto simp: settled_def)
next
  case (MutePublication p' muted)
  have set: "settled p t s" using inv by (simp add: mute_inv_def)
  then show ?thesis
    using MutePublication e step mute_inv_reported [OF inv, of "MutePublication p muted" "(True, muted)" "publication_set_muted p muted s"]
      publication_set_muted_settled [OF set, of muted] by (auto simp: settled_def)
next
  case (MuteTaskRuns i)
  then show ?thesis using mute_inv_task(1) [OF inv, of i] step by (auto split: if_splits)
next
  case (MuteTaskFails i)
  then show ?thesis using mute_inv_task(2) [OF inv, of i] step by (auto split: if_splits)
qed (use e in simp_all)

lemma mute_run:
  assumes "settled p t s" and "ls_mute_tasks s = []" and "run_enabled local_apply es s = Some s'" and "list_all (mutes_or_reports p t) es"
  shows "mute_inv p t (pub_sid p s) (lt_muted (ls_tracks s ! t)) (ls_log s) es s'"
  using assms(3,4)
proof (induction es arbitrary: s' rule: rev_induct)
  case Nil
  have "mute_history p t (pub_sid p s) (lt_muted (ls_tracks s ! t)) (ls_log s) [] s [] [] []"
    using assms(2) by (simp add: mute_history_def)
  then show ?case using Nil assms(1,2) by (auto simp: mute_inv_def)
next
  case (snoc e es)
  obtain s1 where s1: "run_enabled local_apply es s = Some s1" "local_apply e s1 = Some s'"
    using snoc.prems(1) by (auto simp: run_enabled_append split: option.splits)
  show ?case using mute_inv_step [OF snoc.IH [OF s1(1)] _ s1(2)] snoc.prems(2) by simp
qed

text \<open>What the server was told last.\<close>

fun told_muted :: "string \<Rightarrow> bool \<Rightarrow> media_output list \<Rightarrow> bool" where
  "told_muted sid now [] = now"
| "told_muted sid now (MuteRequest sid' muted # outs) = told_muted sid (if sid' = sid then muted else now) outs"
| "told_muted sid now (out # outs) = told_muted sid now outs"

lemma told_requests: "told_muted sid now outs = told_muted sid now (filter is_mute_request outs)"
  by (induction sid now outs rule: told_muted.induct) simp_all

lemma told_sent: "told_muted sid now (map (MuteRequest sid) ms) = (if ms = [] then now else last ms)"
  by (induction ms arbitrary: now) simp_all

lemma publish_answered_effect:
  assumes "publish_answered t info s = Ok (s', p)" and "t < length (ls_tracks s)"
  shows "p = length (ls_pubs s)" "length (ls_pubs s') = Suc p" "pub_track p s' = Some t" "pub_sid p s' = ti_sid info"
    "lt_reports_to (ls_tracks s' ! t) = Some p" "length (ls_tracks s') = length (ls_tracks s)"
    "ls_listening s' = ls_listening s" "ls_log s' = ls_log s" "ls_calls s' = ls_calls s" "ls_mute_tasks s' = ls_mute_tasks s"
proof -
  obtain pb where pb: "publication_new info False = Some pb" and p: "p = length (ls_pubs s)" and s': "s' = publication_set_track p (Some t)
         (on_track t (\<lambda>tr. tr\<lparr>lt_kind := pb_kind pb, lt_name := ti_name info, lt_sid := pb_sid pb\<rparr>)
           (s\<lparr>ls_pubs := ls_pubs s @ [\<lparr>lp_inner = pb\<lparr>pb_track := Some t\<rparr>, lp_options = None, lp_reports = False\<rparr>]\<rparr>))"
    using assms(1) by (auto simp: publish_answered_eq)
  have sid: "pb_sid pb = ti_sid info"
    using pb by (auto simp: publication_new_def from_prefix_def split: option.splits if_splits)
  show "p = length (ls_pubs s)" by (rule p)
  show "length (ls_pubs s') = Suc p" "pub_track p s' = Some t" "pub_sid p s' = ti_sid info"
    "lt_reports_to (ls_tracks s' ! t) = Some p" "length (ls_tracks s') = length (ls_tracks s)"
    "ls_listening s' = ls_listening s" "ls_log s' = ls_log s" "ls_calls s' = ls_calls s" "ls_mute_tasks s' = ls_mute_tasks s"
    using assms(2) sid by (simp_all add: s' p publication_set_track_def Let_def pub_track_def pub_sid_def split: option.splits)
qed

lemma publish_finished_effect:
  assumes "p < length (ls_pubs s)" and "t < length (ls_tracks s)" and "pub_track p s = Some t"
    and "lt_reports_to (ls_tracks s ! t) = Some p" and "ls_listening s"
    and "publish_finished p t opts transceiver s = (s', outs)"
  shows "settled p t s'" "pub_sid p s' = pub_sid p s" "lt_muted (ls_tracks s' ! t) = lt_muted (ls_tracks s ! t)"
    "lt_enabled (ls_tracks s' ! t)" "ls_log s' = ls_log s" "outs = [LocalNegotiation, PublishedEvent (pub_sid p s)]" "ls_mute_tasks s' = ls_mute_tasks s"
  using assms
  by (auto simp: publish_finished_def Let_def track_enable_def local_add_publication_def settled_def pub_track_def pub_sid_def)

lemma call_of_set_call [simp]: "c < length (ls_calls s) \<Longrightarrow> call_of c (set_call c ph s) = Some ph"
  by (simp add: call_of_def set_call_def)

lemma publish_settles:
  assumes "run_enabled local_apply [PublishCall t opts, PublishAnswer (length (ls_calls s)) (Ok info),
      SenderMade (length (ls_calls s)) (Ok transceiver)] s = Some s'" and "ls_listening s"
  shows "settled (length (ls_pubs s)) t s' \<and> lt_muted (ls_tracks s' ! t) = lt_muted (ls_tracks s ! t)
    \<and> pub_sid (length (ls_pubs s)) s' = ti_sid info \<and> lt_enabled (ls_tracks s' ! t)
    \<and> ls_mute_tasks s' = ls_mute_tasks s
    \<and> (\<exists>req. ls_log s' = ls_log s @ [AddTrackSent req, LocalNegotiation, PublishedEvent (ti_sid info)]
         \<and> ar_muted req = lt_muted (ls_tracks s ! t))"
proof -
  let ?c = "length (ls_calls s)" and ?p = "length (ls_pubs s)"
  obtain s1 s2 where s1: "local_apply (PublishCall t opts) s = Some s1"
    and s2: "local_apply (PublishAnswer ?c (Ok info)) s1 = Some s2"
    and s3: "local_apply (SenderMade ?c (Ok transceiver)) s2 = Some s'"
    using assms(1) by (auto elim!: run_enabled_ConsE simp del: run_enabled.simps(2) local_apply.simps)
  have t: "t < length (ls_tracks s)" using s1 by (simp split: if_splits)
  show ?thesis
  proof (cases "add_track_request_of (ls_encryption_type s) (ls_tracks s ! t) opts")
    case (Ok r)
    obtain req encodings where req: "add_track_request_of (ls_encryption_type s) (ls_tracks s ! t) opts = Ok (req, encodings)"
      using Ok by (cases r) auto
    have s1': "s1 = logged (s\<lparr>ls_calls := ls_calls s @ [WaitsAnswer t opts]\<rparr>, [AddTrackSent req])"
      using s1 t req by simp
    then have c: "call_of ?c s1 = Some (WaitsAnswer t opts)" "?c < length (ls_calls s1)"
      by (simp_all add: call_of_def)
    obtain s2' p where ans: "publish_answered t info s1 = Ok (s2', p)" and s2': "s2 = set_call ?c (WaitsSender p t opts) s2'"
      using s2 s3 c by (cases "publish_answered t info s1") auto
    have t1: "t < length (ls_tracks s1)" using t s1' by simp
    note eff = publish_answered_effect [OF ans t1]
    have s': "s' = logged (publish_finished p t opts transceiver (set_call ?c (PublishedAs p) s2))"
      using s3 s2' c(2) eff(9) by simp
    obtain s3' outs where fin: "publish_finished p t opts transceiver (set_call ?c (PublishedAs p) s2) = (s3', outs)"
      by (cases "publish_finished p t opts transceiver (set_call ?c (PublishedAs p) s2)")
    have "settled p t s3'" "pub_sid p s3' = ti_sid info" "lt_muted (ls_tracks s3' ! t) = lt_muted (ls_tracks s2' ! t)"
      "lt_enabled (ls_tracks s3' ! t)" "ls_log s3' = ls_log s2'" "outs = [LocalNegotiation, PublishedEvent (ti_sid info)]"
      "ls_mute_tasks s3' = ls_mute_tasks s"
      using publish_finished_effect [OF _ _ _ _ _ fin] eff t1 s1' s2' assms(2)
      by (simp_all add: pub_track_def pub_sid_def)
    moreover have "lt_muted (ls_tracks s2' ! t) = lt_muted (ls_tracks s ! t)"
      using publish_answered_flags [OF ans] t1 s1' by (simp add: same_flags_def)
    moreover have "ar_muted req = lt_muted (ls_tracks s ! t)"
      using req by (auto simp: add_track_request_of_def Let_def and_then_Ok_iff split: track_kind.splits prod.splits)
    moreover have "p = length (ls_pubs s)" "ls_log s2' = ls_log s @ [AddTrackSent req]"
      using eff s1' by simp_all
    ultimately show ?thesis
      using s' fin by (auto simp: settled_def pub_sid_def pub_track_def)
  qed (use s1 s2 t in \<open>auto simp: call_of_def\<close>)
qed

text \<open>
  C11: How muting is reported.  After a track was published undisturbed, muting and unmuting it, through its publication or
  by itself, in any order, raises exactly the following events, in order: a change of the flag is reported once,
  and the publication reports once more whether or not anything changed, so that muting through the publication is
  reported twice.  Each report also spawns a task that is to tell the server, and these tasks run or fail in any order: the
  requests that were sent, the flags of the tasks that are left and those of the tasks that failed are together exactly the
  reports.  When no task failed or was overtaken and none is left, the server was last told the flag that the
  track has (\<open>requests_swap\<close>: otherwise it may have been told the other one last).
\<close>

theorem mute_reports_exact:
  assumes "run_enabled local_apply [PublishCall t opts, PublishAnswer (length (ls_calls s)) (Ok info),
      SenderMade (length (ls_calls s)) (Ok transceiver)] s = Some s1"
    and "ls_listening s" and "ls_mute_tasks s = []"
    and "run_enabled local_apply es s1 = Some s2" and "list_all (mutes_or_reports (length (ls_pubs s)) t) es"
  shows "\<exists>req news sent lost. ls_log s2 = ls_log s @ [AddTrackSent req, LocalNegotiation, PublishedEvent (ti_sid info)] @ news
    \<and> filter (\<lambda>out. \<not> is_mute_request out) news
        = map (mute_note (ti_sid info)) (mute_reports (lt_muted (ls_tracks s ! t)) (mute_calls es))
    \<and> filter is_mute_request news = map (MuteRequest (ti_sid info)) sent
    \<and> mset sent + mset (map snd (ls_mute_tasks s2)) + mset lost = mset (mute_reports (lt_muted (ls_tracks s ! t)) (mute_calls es))
    \<and> (\<not> mute_fails es \<longrightarrow> lost = [])
    \<and> (in_order es \<and> ls_mute_tasks s2 = [] \<longrightarrow> told_muted (ti_sid info) (ar_muted req) news = lt_muted (ls_tracks s2 ! t))
    \<and> lt_muted (ls_tracks s2 ! t) = muted_after (lt_muted (ls_tracks s ! t)) (mute_calls es)
    \<and> publication_is_muted (length (ls_pubs s)) s2 = lt_muted (ls_tracks s2 ! t)"
proof -
  let ?p = "length (ls_pubs s)" and ?sid = "ti_sid info" and ?now = "lt_muted (ls_tracks s ! t)"
  note p = publish_settles [OF assms(1,2)]
  obtain req where req: "ls_log s1 = ls_log s @ [AddTrackSent req, LocalNegotiation, PublishedEvent ?sid]" "ar_muted req = ?now"
    using p by blast
  have inv: "mute_inv ?p t ?sid ?now (ls_log s1) es s2"
    using mute_run [of ?p t s1 es s2] p assms(3-5) by simp
  then obtain news sent lost where h: "mute_history ?p t ?sid ?now (ls_log s1) es s2 news sent lost" by (auto simp: mute_inv_def)
  let ?reports = "mute_reports ?now (mute_calls es)"
  have "told_muted ?sid (ar_muted req) news = lt_muted (ls_tracks s2 ! t)" if "in_order es" "ls_mute_tasks s2 = []"
  proof -
    have sent: "sent = ?reports" using h that by (simp add: mute_history_def)
    have "told_muted ?sid ?now news = (if sent = [] then ?now else last sent)"
      using h told_requests [of ?sid ?now news] told_sent [of ?sid ?now sent] by (simp add: mute_history_def)
    then show ?thesis
      using inv mute_reports_last [of ?now "mute_calls es"] mute_reports_none [of ?now "mute_calls es"]
      by (auto simp: sent req(2) mute_inv_def)
  qed
  moreover have "publication_is_muted ?p s2 = lt_muted (ls_tracks s2 ! t)" "lt_muted (ls_tracks s2 ! t) = muted_after ?now (mute_calls es)"
    using inv by (auto simp: mute_inv_def publication_is_muted_def settled_def)
  ultimately show ?thesis
    using h req(1) unfolding mute_history_def
    by (intro exI [of _ req] exI [of _ news] exI [of _ sent] exI [of _ lost]) simp
qed

lemmas local_run_simps = local_new_def track_new_def logged_def set_call_def call_of_def on_track_def on_pub_def pub_sid_def pub_track_def
  track_set_muted_def publication_set_muted_def mute_handler_def add_track_request_of_def publish_answered_def publication_new_def
  from_prefix_def TRACK_PREFIX_def is_simulcasted_def publication_set_track_def publish_finished_def local_add_publication_def
  local_update_encryption_def track_enable_def hm_insert_def Let_def mute_note_def mute_task_runs_def mute_task_fails_def

definition muted_guitar :: local_state where
  "muted_guitar = (case run_enabled local_apply muted_then_published (local_new NoEncryption) of Some s \<Rightarrow> s | None \<Rightarrow> local_new NoEncryption)"

lemma muted_guitar_run:
  "run_enabled local_apply muted_then_published (local_new NoEncryption) = Some muted_guitar
   \<and> length (ls_tracks muted_guitar) = 1 \<and> lt_muted (ls_tracks muted_guitar ! 0) \<and> lt_enabled (ls_tracks muted_guitar ! 0)"
  by (simp add: muted_guitar_def muted_then_published_def sample_audio_options_def guitar_info_def local_run_simps
      publish_options_default_def publish_options.defs local_publish_options.defs)

theorem muted_track_is_silent_witness:
  "\<exists>before e later s1. muted_then_published = before @ e # later
     \<and> run_enabled local_apply before (local_new NoEncryption) = Some s1
     \<and> 0 < length (ls_tracks s1) \<and> lt_muted (ls_tracks s1 ! 0) \<and> enables 0 e s1"
  using muted_track_is_silent [of muted_then_published NoEncryption muted_guitar 0] muted_guitar_run by simp

text \<open>
  The guitar again, published unmuted; then it is muted through its publication, which is told to the server, and
  unmuted by itself: told to the server in order, with one request lost, or before the second report of the muting.
\<close>

definition guitar :: local_state where
  "guitar = (local_new NoEncryption)\<lparr>ls_tracks := [track_new ''guitar'' Audio ''rtc1'' (0, 0)]\<rparr>"

definition guitar_published :: local_state where
  "guitar_published = (case run_enabled local_apply [PublishCall 0 sample_audio_options, PublishAnswer 0 (Ok guitar_info), SenderMade 0 (Ok 5)] guitar
     of Some s \<Rightarrow> s | None \<Rightarrow> guitar)"

lemma guitar_published_run:
  "run_enabled local_apply [PublishCall 0 sample_audio_options, PublishAnswer (length (ls_calls guitar)) (Ok guitar_info),
     SenderMade (length (ls_calls guitar)) (Ok 5)] guitar = Some guitar_published"
  by (simp add: guitar_published_def guitar_def sample_audio_options_def guitar_info_def local_run_simps
    publish_options_default_def publish_options.defs local_publish_options.defs)

definition mute_and_unmute :: "media_event list" where
  "mute_and_unmute = [MutePublication 0 True, MuteTaskRuns 0, MuteTrack 0 False]"

definition guitar_muted :: "media_event list \<Rightarrow> local_state" where
  "guitar_muted es = (case run_enabled local_apply (mute_and_unmute @ es) guitar_published of Some s \<Rightarrow> s | None \<Rightarrow> guitar)"

lemma guitar_muted_run:
  "es \<in> {[MuteTaskRuns 0, MuteTaskRuns 0], [MuteTaskFails 0, MuteTaskRuns 0], [MuteTaskRuns 1, MuteTaskRuns 0]} \<Longrightarrow>
     run_enabled local_apply (mute_and_unmute @ es) guitar_published = Some (guitar_muted es)"
  by (auto simp: guitar_muted_def mute_and_unmute_def guitar_published_def guitar_def sample_audio_options_def guitar_info_def
    local_run_simps publish_options_default_def publish_options.defs local_publish_options.defs)

lemma guitar_start:
  "ls_listening guitar" "ls_mute_tasks guitar = []" "ls_log guitar = []" "ls_pubs guitar = []" "\<not> lt_muted (ls_tracks guitar ! 0)"
  "ti_sid guitar_info = ''TR_g''"
  by (simp_all add: guitar_def local_new_def track_new_def guitar_info_def)

theorem mute_reports_exact_witness:
  "\<exists>req news. ls_log (guitar_muted [MuteTaskRuns 0, MuteTaskRuns 0])
       = [AddTrackSent req, LocalNegotiation, PublishedEvent ''TR_g''] @ news
     \<and> filter (\<lambda>out. \<not> is_mute_request out) news = [MutedEvent ''TR_g'', MutedEvent ''TR_g'', UnmutedEvent ''TR_g'']
     \<and> \<not> lt_muted (ls_tracks (guitar_muted [MuteTaskRuns 0, MuteTaskRuns 0]) ! 0)"
  using mute_reports_exact [OF guitar_published_run guitar_start(1,2) guitar_muted_run [of "[MuteTaskRuns 0, MuteTaskRuns 0]"]]
  by (auto simp: guitar_start mute_and_unmute_def mute_note_def muted_after_def)

text \<open>
  The same with the last two tasks swapped: nothing fails, the track is not muted, and the server was told last that it is.
\<close>

lemma requests_swap:
  "let s = guitar_muted [MuteTaskRuns 1, MuteTaskRuns 0]
   in ls_mute_tasks s = [] \<and> \<not> lt_muted (ls_tracks s ! 0) \<and> told_muted ''TR_g'' False (ls_log s)"
  by (simp add: guitar_muted_def mute_and_unmute_def guitar_published_def guitar_def sample_audio_options_def guitar_info_def
    local_run_simps publish_options_default_def publish_options.defs local_publish_options.defs)

text \<open>
  A mute while the publication is under way is not reported, and the server, who was asked for an unmuted
  track, never hears of it.
\<close>

lemma mute_while_publishing_unreported:
  assumes "call_of c s = Some ph" and "ph = WaitsAnswer t opts \<and> lt_reports_to (ls_tracks s ! t) = None
      \<or> (\<exists>p. ph = WaitsSender p t opts \<and> lt_reports_to (ls_tracks s ! t) = Some p \<and> \<not> lp_reports (ls_pubs s ! p))"
    and "t < length (ls_tracks s)" and "local_apply (MuteTrack t muted) s = Some s'"
  shows "lt_muted (ls_tracks s' ! t) = muted \<and> ls_log s' = ls_log s"
  using assms(2-4) by (auto simp: track_set_muted_def Let_def mute_handler_def split: if_splits)

text \<open>
  A track that is published twice: when the first publication is taken back, the handlers of the track go
  with it, and muting the track is no longer reported for the second.
\<close>

lemma second_publication_silenced:
  assumes "t < length (ls_tracks s)" and "pub_track p1 s = Some t" and "settled p2 t s" and "p1 \<noteq> p2"
  shows "\<not> settled p2 t (publication_set_track p1 None s)"
    and "snd (track_set_muted t muted (publication_set_track p1 None s)) = []"
  using assms by (auto simp: settled_def publication_set_track_def Let_def track_set_muted_def)

text \<open>
  What taking a publication back leaves behind, whatever the engine says: the publication is gone from the
  participant in any case; when the engine cannot remove the sender, nobody is told and the sender stays.
\<close>

lemma unpublish_outcomes:
  assumes "hm_get (ls_publications s) sid = Some p" and "p < length (ls_pubs s)" and "pub_track p s = Some t"
    and "t < length (ls_tracks s)" and "lt_transceiver (ls_tracks s ! t) = Some sender" and "hm_inv (ls_publications s)"
    and "local_unpublish_track sid removed s = (result, s', outs)"
  shows "map_of (ls_publications s') sid = None \<and> \<not> lp_reports (ls_pubs s' ! p)
    \<and> (case removed of
         Ok _ \<Rightarrow> result = Ok p \<and> lt_transceiver (ls_tracks s' ! t) = None \<and> pub_track p s' = None
           \<and> outs = (if ls_listening s then [UnpublishedEvent (pub_sid p s)] else []) @ [LocalNegotiation]
       | Err e \<Rightarrow> result = Err (EngineFailed e) \<and> lt_transceiver (ls_tracks s' ! t) = Some sender
           \<and> pub_track p s' = Some t \<and> outs = []
       | Panic \<Rightarrow> result = Panic \<and> outs = [])"
  using assms
  by (auto simp: local_unpublish_track_def local_remove_publication_def Let_def pub_track_def pub_sid_def publication_set_track_def
      split: outcome.splits)
end
