(* ===== verification/LkMessages.thy ===== *)
theory LkMessages
  imports LkSession
begin

text \<open>
  What the local participant says (\<open>livekit/src/room/participant/local_participant.rs\<close>): chat messages,
  data, transcriptions and tones as data packets, the permissions to subscribe, and the requests to
  change its own name, metadata and attributes, which wait for an answer of the server
  (\<open>get_response\<close> of \<open>rtc_session.rs\<close>).  Random identifiers and the clock are arguments.
\<close>

section \<open>Data packets\<close>

definition packet_of :: "string option \<Rightarrow> data_value \<Rightarrow> session_packet" where
  "packet_of sender_identity v =
     \<lparr>spk_participant_identity = identity_or_empty sender_identity, spk_participant_sid = '''', spk_value = Some v\<rparr>"

text \<open>A chat message: the packet and what the call returns.\<close>

definition send_chat_message ::
  "string \<Rightarrow> int \<Rightarrow> string \<Rightarrow> string option \<Rightarrow> session_packet \<times> room_chat_message" where
  "send_chat_message uuid now body sender_identity =
     (let m = \<lparr>cm_id = uuid, cm_timestamp = now, cm_edit_timestamp = None, cm_message = body,
               cm_deleted = False, cm_generated = False\<rparr>
      in (packet_of sender_identity (DvChatMessage m), chat_message_from m))"

definition edit_chat_message ::
  "int \<Rightarrow> string \<Rightarrow> room_chat_message \<Rightarrow> string option \<Rightarrow> session_packet \<times> room_chat_message" where
  "edit_chat_message now body original sender_identity =
     (let m = chat_message_to (original\<lparr>rcm_message := body, rcm_edit_timestamp := Some now\<rparr>)
      in (packet_of sender_identity (DvChatMessage m), chat_message_from m))"

definition local_publish_data :: "bytes \<Rightarrow> string option \<Rightarrow> session_packet" where
  "local_publish_data data topic =
     packet_of None (DvUser \<lparr>up_participant_sid = '''', up_participant_identity = '''', up_payload = data, up_topic = topic\<rparr>)"

definition publish_transcription :: "string \<Rightarrow> string \<Rightarrow> transcription_segment list \<Rightarrow> session_packet" where
  "publish_transcription identity track_id segments =
     packet_of None (DvTranscription
       \<lparr>tr_transcribed_participant_identity = identity, tr_track_id = track_id, tr_segments = segments\<rparr>)"

definition publish_dtmf :: "u32 \<Rightarrow> string \<Rightarrow> session_packet" where
  "publish_dtmf code digit = packet_of None (DvSipDtmf \<lparr>sd_code = code, sd_digit = digit\<rparr>)"

text \<open>The session overwrites the sender of every packet that is not raw, also the one a chat message was given.\<close>

lemma sender_identity_ignored:
  "publish_packet encode manager identity sid (packet_of sender v) False
   = publish_packet encode manager identity sid (packet_of None v) False"
  by (simp add: publish_packet_def packet_of_def Let_def)

text \<open>What leaves in the open arrives as the event of its value, from the identity of the session.\<close>

lemma open_packet_crosses:
  assumes "\<not> dc_encrypts manager v" and "\<not> (\<exists>p. v = DvEncryptedPacket p)"
  shows "\<exists>sent. publish_packet encode manager identity sid (packet_of sender v) False = Ok sent
    \<and> receive_packet decode receiver reliable sent
      = plain_event reliable (from_prefix PARTICIPANT_PREFIX sid) (Some identity) v NoEncryption"
proof -
  have "publish_packet encode manager identity sid (packet_of sender v) False =
      Ok ((packet_of sender v)\<lparr>spk_participant_identity := identity, spk_participant_sid := sid\<rparr>)"
    using publish_packet_plain [of "packet_of sender v" manager encode identity sid False] assms(1)
    by (simp add: packet_of_def)
  moreover have "emit_incoming_packet decode receiver reliable s i v e = plain_event reliable s i v e" for s i e
    using assms(2) by (cases v) auto
  ultimately show ?thesis
    by (simp add: receive_packet_def packet_of_def)
qed

text \<open>A chat message and its edit arrive as what the calls returned, whoever the sender was said to be.\<close>

lemma chat_messages_arrive:
  assumes "\<not> em_dc_encryption_enabled m \<or> manager \<noteq> Some m" and "\<And>m'. manager = Some m' \<Longrightarrow> m' = m"
    and "(packet, returned) = send_chat_message uuid now body sender
      \<or> (packet, returned) = edit_chat_message now body original sender"
  shows "\<exists>sent. publish_packet encode manager identity sid packet False = Ok sent
    \<and> receive_packet decode receiver True sent = Some (SeChatMessage identity returned)"
proof -
  obtain msg where packet: "packet = packet_of sender (DvChatMessage msg)" and returned: "returned = chat_message_from msg"
    using assms(3) by (auto simp: send_chat_message_def edit_chat_message_def Let_def)
  have "\<not> dc_encrypts manager (DvChatMessage msg)"
    using assms(1,2) by (auto simp: dc_encrypts_def split: option.splits)
  from open_packet_crosses [OF this] show ?thesis
    by (auto simp: packet returned identity_or_empty_def)
qed

text \<open>An edit keeps the identifier and the time of the message and says when it was edited.\<close>

lemma edited_message:
  "rcm_id (snd (edit_chat_message now body original sender)) = rcm_id original"
  "rcm_timestamp (snd (edit_chat_message now body original sender)) = rcm_timestamp original"
  "rcm_edit_timestamp (snd (edit_chat_message now body original sender)) = Some now"
  "rcm_message (snd (edit_chat_message now body original sender)) = body"
  by (simp_all add: edit_chat_message_def chat_message_from_def chat_message_to_def Let_def)

section \<open>Permissions\<close>

record track_permission =
  tp_identity :: string
  tp_allow_all :: bool
  tp_allowed_track_sids :: "string list"

record proto_track_permission =
  ptp_participant_sid :: string
  ptp_all_tracks :: bool
  ptp_track_sids :: "string list"
  ptp_participant_identity :: string

definition permission_to_proto :: "track_permission \<Rightarrow> proto_track_permission" where
  "permission_to_proto p =
     \<lparr>ptp_participant_sid = '''', ptp_all_tracks = tp_allow_all p, ptp_track_sids = tp_allowed_track_sids p,
      ptp_participant_identity = tp_identity p\<rparr>"

text \<open>The identifiers of tracks are checked; a wrong one panics.\<close>

fun sids_from :: "string list \<Rightarrow> string list option" where
  "sids_from [] = Some []"
| "sids_from (s # ss) =
     (case (from_prefix TRACK_PREFIX s, sids_from ss) of (Some s', Some ss') \<Rightarrow> Some (s' # ss') | _ \<Rightarrow> None)"

definition permission_from_proto :: "proto_track_permission \<Rightarrow> track_permission option" where
  "permission_from_proto p =
     (case sids_from (ptp_track_sids p) of
        None \<Rightarrow> None
      | Some sids \<Rightarrow> Some \<lparr>tp_identity = ptp_participant_identity p, tp_allow_all = ptp_all_tracks p, tp_allowed_track_sids = sids\<rparr>)"

record permission_state =
  ps_all_participants_allowed :: bool
  ps_track_permissions :: "track_permission list"

text \<open>The message for the server: sent when the permissions are set, and again after a reconnect.\<close>

definition update_track_subscription_permissions :: "permission_state \<Rightarrow> bool \<times> proto_track_permission list" where
  "update_track_subscription_permissions s =
     (ps_all_participants_allowed s, map permission_to_proto (ps_track_permissions s))"

definition set_track_subscription_permissions ::
  "bool \<Rightarrow> track_permission list \<Rightarrow> permission_state \<Rightarrow> permission_state \<times> (bool \<times> proto_track_permission list)" where
  "set_track_subscription_permissions allowed permissions s =
     (let s = s\<lparr>ps_track_permissions := permissions, ps_all_participants_allowed := allowed\<rparr>
      in (s, update_track_subscription_permissions s))"

lemma sids_from_eq: "(\<forall>s\<in>set ss. take 3 s = ''TR_'') \<Longrightarrow> sids_from ss = Some ss"
  by (induction ss) (auto simp: from_prefix_def TRACK_PREFIX_def numeral_3_eq_3)

lemma permission_roundtrip:
  "\<forall>s\<in>set (tp_allowed_track_sids p). take 3 s = ''TR_'' \<Longrightarrow> permission_from_proto (permission_to_proto p) = Some p"
  by (simp add: permission_from_proto_def permission_to_proto_def sids_from_eq)

section \<open>Requests that wait for an answer\<close>

text \<open>
  A call of \<open>set_metadata\<close>, \<open>set_name\<close> or \<open>set_attributes\<close>: it sends its request and only then, in the
  future that the timeout starts, enters its identifier into \<open>pending_requests\<close>.  \<open>qc_rx\<close> is its end of
  the channel once that has happened.
\<close>

datatype request_outcome = RequestOk | RequestRefused response_reason string | RequestTimedOut | RequestPanicked

record request_call =
  qc_id :: u32
  qc_rx :: "proto_request_response oneshot option"
  qc_result :: "request_outcome option"

record request_state =
  rs_next :: u32
  rs_pending :: "(u32, nat) hashmap"
  rs_calls :: "request_call list"

definition requests_new :: request_state where
  "requests_new = \<lparr>rs_next = 1, rs_pending = [], rs_calls = []\<rparr>"

definition on_call :: "nat \<Rightarrow> (request_call \<Rightarrow> request_call) \<Rightarrow> request_state \<Rightarrow> request_state" where
  "on_call i f s = s\<lparr>rs_calls := (rs_calls s)[i := f (rs_calls s ! i)]\<rparr>"

definition request_sent :: "request_state \<Rightarrow> request_state" where
  "request_sent s =
     s\<lparr>rs_next := rs_next s + 1, rs_calls := rs_calls s @ [\<lparr>qc_id = rs_next s, qc_rx = None, qc_result = None\<rparr>]\<rparr>"

text \<open>\<open>get_response\<close>: an entry of the same identifier is replaced, which drops its sending half.\<close>

definition request_registered :: "nat \<Rightarrow> request_state \<Rightarrow> request_state option" where
  "request_registered i s =
     (if i < length (rs_calls s) \<and> qc_rx (rs_calls s ! i) = None \<and> qc_result (rs_calls s ! i) = None then
        let rid = qc_id (rs_calls s ! i);
            s = (case hm_get (rs_pending s) rid of
                   None \<Rightarrow> s | Some j \<Rightarrow> on_call j (\<lambda>c. c\<lparr>qc_rx := Some SenderDropped\<rparr>) s)
        in Some (on_call i (\<lambda>c. c\<lparr>qc_rx := Some Unsent\<rparr>) (s\<lparr>rs_pending := hm_insert rid i (rs_pending s)\<rparr>))
      else None)"

text \<open>The arm for a response, of the handler of server messages.\<close>

definition response_arrives :: "u32 \<Rightarrow> proto_request_response \<Rightarrow> request_state \<Rightarrow> request_state" where
  "response_arrives rid response s =
     (if publish_result_from_request_response response \<noteq> None then s
      else (case hm_get (rs_pending s) rid of
              None \<Rightarrow> s
            | Some i \<Rightarrow> on_call i (\<lambda>c. c\<lparr>qc_rx := Some (Sent response)\<rparr>) (s\<lparr>rs_pending := hm_remove rid (rs_pending s)\<rparr>)))"

definition request_poll :: "nat \<Rightarrow> request_state \<Rightarrow> request_state option" where
  "request_poll i s =
     (if i < length (rs_calls s) \<and> qc_result (rs_calls s ! i) = None then
        (case qc_rx (rs_calls s ! i) of
           Some (Sent response) \<Rightarrow>
             Some (on_call i (\<lambda>c. c\<lparr>qc_result := Some (if reason_of_i32 (prr_reason response) = ReasonOk then RequestOk
               else RequestRefused (reason_of_i32 (prr_reason response)) (prr_message response))\<rparr>) s)
         | Some SenderDropped \<Rightarrow> Some (on_call i (\<lambda>c. c\<lparr>qc_result := Some RequestPanicked\<rparr>) s)
         | _ \<Rightarrow> None)
      else None)"

text \<open>The timeout leaves the entry behind.\<close>

definition request_timeout :: "nat \<Rightarrow> request_state \<Rightarrow> request_state option" where
  "request_timeout i s =
     (if i < length (rs_calls s) \<and> qc_rx (rs_calls s ! i) \<noteq> None \<and> qc_result (rs_calls s ! i) = None
      then Some (on_call i (\<lambda>c. c\<lparr>qc_result := Some RequestTimedOut\<rparr>) s) else None)"

datatype request_event =
    RequestSent | RequestRegistered nat | ResponseArrives u32 proto_request_response | RequestPoll nat | RequestTimeout nat

fun request_apply :: "request_event \<Rightarrow> request_state \<Rightarrow> request_state option" where
  "request_apply RequestSent s = Some (request_sent s)"
| "request_apply (RequestRegistered i) s = request_registered i s"
| "request_apply (ResponseArrives rid response) s = Some (response_arrives rid response s)"
| "request_apply (RequestPoll i) s = request_poll i s"
| "request_apply (RequestTimeout i) s = request_timeout i s"

text \<open>Entries lead to calls of their identifier that have nothing yet; a returned answer came through the channel.\<close>

definition request_result_ok :: "request_call \<Rightarrow> bool" where
  "request_result_ok c \<longleftrightarrow>
     (case qc_result c of
        Some RequestOk \<Rightarrow> (\<exists>r. qc_rx c = Some (Sent r) \<and> reason_of_i32 (prr_reason r) = ReasonOk)
      | Some (RequestRefused reason msg) \<Rightarrow>
          (\<exists>r. qc_rx c = Some (Sent r) \<and> reason_of_i32 (prr_reason r) = reason \<and> reason \<noteq> ReasonOk \<and> prr_message r = msg)
      | Some RequestPanicked \<Rightarrow> qc_rx c = Some SenderDropped
      | _ \<Rightarrow> True)"

definition requests_inv :: "request_state \<Rightarrow> bool" where
  "requests_inv s \<longleftrightarrow> hm_inv (rs_pending s)
     \<and> (\<forall>rid i. hm_get (rs_pending s) rid = Some i \<longrightarrow> i < length (rs_calls s) \<and> qc_id (rs_calls s ! i) = rid
          \<and> qc_rx (rs_calls s ! i) = Some Unsent)
     \<and> (\<forall>i<length (rs_calls s). request_result_ok (rs_calls s ! i))"

lemma on_call_simps [simp]:
  "length (rs_calls (on_call i f s)) = length (rs_calls s)" "rs_pending (on_call i f s) = rs_pending s"
  "rs_next (on_call i f s) = rs_next s"
  "j < length (rs_calls s) \<Longrightarrow> rs_calls (on_call i f s) ! j = (if j = i then f (rs_calls s ! i) else rs_calls s ! j)"
  by (auto simp: on_call_def nth_list_update)

lemma request_result_ok_rx:
  "request_result_ok c \<Longrightarrow> qc_rx c = Some Unsent \<or> qc_rx c = None \<Longrightarrow> request_result_ok (c\<lparr>qc_rx := rx\<rparr>)"
  by (auto simp: request_result_ok_def split: option.splits request_outcome.splits)

lemma requests_inv_sent: "requests_inv s \<Longrightarrow> requests_inv (request_sent s)"
  by (fastforce simp: requests_inv_def request_sent_def nth_append request_result_ok_def less_Suc_eq)

lemma requests_inv_response:
  assumes "requests_inv s"
  shows "requests_inv (response_arrives rid response s)"
proof (cases "publish_result_from_request_response response \<noteq> None \<or> hm_get (rs_pending s) rid = None")
  case True
  then show ?thesis using assms by (auto simp: response_arrives_def)
next
  case False
  then obtain i where i: "hm_get (rs_pending s) rid = Some i" "publish_result_from_request_response response = None"
    by (metis option.exhaust)
  let ?s = "on_call i (\<lambda>c. c\<lparr>qc_rx := Some (Sent response)\<rparr>) (s\<lparr>rs_pending := hm_remove rid (rs_pending s)\<rparr>)"
  have s': "response_arrives rid response s = ?s" using i by (simp add: response_arrives_def)
  have ok: "i < length (rs_calls s)" "qc_id (rs_calls s ! i) = rid" "qc_rx (rs_calls s ! i) = Some Unsent"
    using assms i(1) unfolding requests_inv_def by blast+
  have "hm_inv (rs_pending ?s)" "\<forall>j<length (rs_calls ?s). request_result_ok (rs_calls ?s ! j)"
    using assms ok by (auto simp: requests_inv_def request_result_ok_rx)
  moreover have "j < length (rs_calls ?s) \<and> qc_id (rs_calls ?s ! j) = rid' \<and> qc_rx (rs_calls ?s ! j) = Some Unsent"
    if "hm_get (rs_pending ?s) rid' = Some j" for rid' j
  proof -
    have "rid' \<noteq> rid" "hm_get (rs_pending s) rid' = Some j"
      using that assms by (auto simp: requests_inv_def split: if_splits)
    moreover from this(2) have "j < length (rs_calls s)" "qc_id (rs_calls s ! j) = rid'" "qc_rx (rs_calls s ! j) = Some Unsent"
      using assms unfolding requests_inv_def by blast+
    ultimately show ?thesis using ok by auto
  qed
  ultimately show ?thesis
    unfolding s' requests_inv_def by blast
qed

lemma requests_inv_result:
  assumes "requests_inv s" and "request_result_ok ((rs_calls s ! i)\<lparr>qc_result := Some r\<rparr>)"
  shows "requests_inv (on_call i (\<lambda>c. c\<lparr>qc_result := Some r\<rparr>) s)"
  using assms by (auto simp: requests_inv_def)

lemma requests_inv_poll:
  assumes "requests_inv s" and "request_poll i s = Some s'"
  shows "requests_inv s'"
  using assms
  by (auto simp: request_poll_def split: if_splits option.splits oneshot.splits
      intro!: requests_inv_result) (auto simp: request_result_ok_def)

lemma requests_inv_timeout:
  assumes "requests_inv s" and "request_timeout i s = Some s'"
  shows "requests_inv s'"
  using assms
  by (auto simp: request_timeout_def split: if_splits intro!: requests_inv_result) (auto simp: request_result_ok_def)

lemma requests_inv_rx:
  assumes "requests_inv s" and "qc_rx (rs_calls s ! i) = Some Unsent \<or> qc_rx (rs_calls s ! i) = None"
  shows "\<forall>j<length (rs_calls s). request_result_ok (rs_calls (on_call i (\<lambda>c. c\<lparr>qc_rx := rx\<rparr>) s) ! j)"
  using assms by (auto simp: requests_inv_def request_result_ok_rx)

lemma requests_inv_registered:
  assumes "requests_inv s" and "request_registered i s = Some s'"
  shows "requests_inv s'"
proof -
  let ?rid = "qc_id (rs_calls s ! i)"
  define s1 where "s1 = (case hm_get (rs_pending s) ?rid of
      None \<Rightarrow> s | Some j \<Rightarrow> on_call j (\<lambda>c. c\<lparr>qc_rx := Some SenderDropped\<rparr>) s)"
  have i: "i < length (rs_calls s)" "qc_rx (rs_calls s ! i) = None"
    and s': "s' = on_call i (\<lambda>c. c\<lparr>qc_rx := Some Unsent\<rparr>) (s1\<lparr>rs_pending := hm_insert ?rid i (rs_pending s1)\<rparr>)"
    using assms(2) by (auto simp: request_registered_def s1_def Let_def split: if_splits)
  have entry: "j < length (rs_calls s) \<and> qc_id (rs_calls s ! j) = rid \<and> qc_rx (rs_calls s ! j) = Some Unsent"
    if "hm_get (rs_pending s) rid = Some j" for rid j
    using assms(1) that unfolding requests_inv_def by blast
  have other: "j \<noteq> i" if "hm_get (rs_pending s) rid = Some j" for rid j
    using entry [OF that] i by auto
  have s1: "length (rs_calls s1) = length (rs_calls s)" "rs_pending s1 = rs_pending s"
    by (simp_all add: s1_def split: option.splits)
  have s1_i: "rs_calls s1 ! i = rs_calls s ! i"
    using i other [of ?rid] by (auto simp: s1_def split: option.splits)
  have s1_ok: "\<forall>j<length (rs_calls s1). request_result_ok (rs_calls s1 ! j)"
    using assms(1) entry [of ?rid] requests_inv_rx [OF assms(1)]
    by (cases "hm_get (rs_pending s) ?rid") (simp_all add: s1_def requests_inv_def)
  have s1_other: "rs_calls s1 ! j = rs_calls s ! j" if "hm_get (rs_pending s) rid = Some j" "rid \<noteq> ?rid" for rid j
    using entry [OF that(1)] entry [of ?rid] that(2) by (auto simp: s1_def split: option.splits)
  have rx: "request_result_ok (rs_calls s' ! j)" if "j < length (rs_calls s')" for j
    using that s1_ok s1_i i by (auto simp: s' request_result_ok_rx s1)
  have "j < length (rs_calls s') \<and> qc_id (rs_calls s' ! j) = rid \<and> qc_rx (rs_calls s' ! j) = Some Unsent"
    if "hm_get (rs_pending s') rid = Some j" for rid j
  proof (cases "rid = ?rid")
    case True
    then show ?thesis using that i s1 s1_i by (simp add: s')
  next
    case False
    then have j: "hm_get (rs_pending s) rid = Some j" using that by (simp add: s' s1)
    show ?thesis
      using entry [OF j] other [OF j] s1_other [OF j False] by (simp add: s' s1)
  qed
  moreover have "hm_inv (rs_pending s')" using assms(1) by (simp add: s' s1 requests_inv_def)
  ultimately show ?thesis
    using rx unfolding requests_inv_def by blast
qed

lemma requests_inv_apply: "requests_inv s \<Longrightarrow> request_apply e s = Some s' \<Longrightarrow> requests_inv s'"
  by (cases e) (auto simp: requests_inv_sent requests_inv_response
      intro: requests_inv_registered requests_inv_poll requests_inv_timeout)

interpretation rqm: enabled_machine request_apply requests_new requests_inv
  by unfold_locales (simp add: requests_inv_def requests_new_def, rule requests_inv_apply)

text \<open>What a call returns is what the server said about its request.\<close>

lemma request_result_true:
  assumes "reachable request_apply requests_new s" and "i < length (rs_calls s)"
  shows "request_result_ok (rs_calls s ! i)"
  using rqm.reachable_inv [OF assms(1)] assms(2) by (simp add: requests_inv_def)

text \<open>
  A response that comes before its call has entered its identifier is dropped; and then the call cannot
  learn of it: unless the server answers the same identifier again, it times out although the
  server has accepted the request.
\<close>

definition no_response_for :: "u32 \<Rightarrow> request_event \<Rightarrow> bool" where
  "no_response_for rid e \<longleftrightarrow> (\<forall>response. e \<noteq> ResponseArrives rid response)"

definition unanswered :: "u32 \<Rightarrow> nat \<Rightarrow> request_state \<Rightarrow> bool" where
  "unanswered rid i s \<longleftrightarrow> i < length (rs_calls s) \<and> qc_id (rs_calls s ! i) = rid
     \<and> qc_rx (rs_calls s ! i) \<in> {None, Some Unsent, Some SenderDropped}
     \<and> qc_result (rs_calls s ! i) \<in> {None, Some RequestTimedOut, Some RequestPanicked}"

lemma unanswered_apply:
  assumes "requests_inv s" and "unanswered rid i s" and "request_apply e s = Some s'" and "no_response_for rid e"
  shows "unanswered rid i s'"
proof (cases e)
  case RequestSent
  then show ?thesis using assms(2,3) by (auto simp: unanswered_def request_sent_def nth_append)
next
  case (RequestRegistered j)
  then show ?thesis
    using assms(2,3) by (auto simp: unanswered_def request_registered_def Let_def split: if_splits option.splits)
next
  case (ResponseArrives rid' response)
  then have "rid' \<noteq> rid" using assms(4) by (auto simp: no_response_for_def)
  then have "hm_get (rs_pending s) rid' \<noteq> Some i"
    using assms(1,2) by (auto simp: unanswered_def requests_inv_def)
  then show ?thesis
    using ResponseArrives assms(2,3) by (auto simp: unanswered_def response_arrives_def split: if_splits option.splits)
next
  case (RequestPoll j)
  then show ?thesis
    using assms(2,3) by (auto simp: unanswered_def request_poll_def split: if_splits option.splits oneshot.splits)
next
  case (RequestTimeout j)
  then show ?thesis using assms(2,3) by (auto simp: unanswered_def request_timeout_def split: if_splits)
qed

lemma early_response_is_lost:
  assumes "reachable request_apply requests_new s" and "i < length (rs_calls s)" and "rid = qc_id (rs_calls s ! i)"
    and "hm_get (rs_pending s) rid = None" and "unanswered rid i s"
    and "run_enabled request_apply (ResponseArrives rid response # es) s = Some s'" and "list_all (no_response_for rid) es"
  shows "qc_result (rs_calls s' ! i) \<in> {None, Some RequestTimedOut, Some RequestPanicked}"
proof -
  have run: "run_enabled request_apply es s = Some s'"
    using assms(4,6) by (auto simp: response_arrives_def split: if_splits)
  have "requests_inv s' \<and> unanswered rid i s'"
    using run assms(7) rqm.reachable_inv [OF assms(1)] assms(5)
  proof (induction es arbitrary: s)
    case (Cons e es)
    then obtain s1 where "request_apply e s = Some s1" "run_enabled request_apply es s1 = Some s'"
      by (auto elim!: run_enabled_ConsE simp del: run_enabled.simps(2) request_apply.simps)
    then show ?case
      using Cons requests_inv_apply unanswered_apply by fastforce
  qed simp
  then show ?thesis by (simp add: unanswered_def)
qed
end
