(* ===== verification/LkLifecycle.thy ===== *)
theory LkLifecycle
  imports LkSession LkReliable DtProto
begin

text \<open>
  The life of a session (\<open>livekit/src/rtc_engine/rtc_session.rs\<close>): its configuration and connection, the
  events of the transports, the loops that wait for a connection, resuming, and closing with the
  four tasks of the session.  Times are milliseconds; what a transport or the signal client answers
  is an argument.
\<close>

section \<open>Configuration\<close>

record ice_server =
  is_urls :: "string list"
  is_username :: string
  is_password :: string

datatype ice_transports = IceRelay | IceNoHost | IceAll

record rtc_configuration =
  rc_ice_servers :: "ice_server list"
  rc_gather_continually :: bool
  rc_ice_transport_type :: ice_transports

datatype client_setting = SettingUnset | SettingDisabled | SettingEnabled

text \<open>For a join response and for a reconnect response: its servers and its client configuration.\<close>

definition make_rtc_config :: "ice_server list \<Rightarrow> client_setting option \<Rightarrow> rtc_configuration \<Rightarrow> rtc_configuration" where
  "make_rtc_config servers force_relay config =
     (let config = (if rc_ice_servers config = [] then config\<lparr>rc_ice_servers := servers\<rparr> else config)
      in if force_relay = Some SettingEnabled then config\<lparr>rc_ice_transport_type := IceRelay\<rparr> else config)"

section \<open>Connecting\<close>

record join_facts =
  jf_participant :: "(string \<times> string) option"
  jf_subscriber_primary :: bool
  jf_fast_publish :: bool
  jf_ice_servers :: "ice_server list"
  jf_force_relay :: "client_setting option"
  jf_others :: "proto_participant_info list"

text \<open>The sid and identity of the local participant.\<close>

definition from_join :: "join_facts \<Rightarrow> (string \<times> string) option" where
  "from_join join =
     (case jf_participant join of
        None \<Rightarrow> None
      | Some (sid, identity) \<Rightarrow>
          (case from_prefix PARTICIPANT_PREFIX sid of None \<Rightarrow> None | Some sid \<Rightarrow> Some (sid, identity)))"

text \<open>What connecting asks of the library, in order; each step may fail.\<close>

datatype connect_step = CreatePublisher | CreateSubscriber | CreateChannel string

definition RELIABLE_DC_LABEL :: string where "RELIABLE_DC_LABEL = ''_reliable''"
definition LOSSY_DC_LABEL :: string where "LOSSY_DC_LABEL = ''_lossy''"
definition DATA_TRACK_DC_LABEL :: string where "DATA_TRACK_DC_LABEL = ''_data_track''"

fun do_steps :: "('a \<Rightarrow> bool) \<Rightarrow> 'a list \<Rightarrow> 'a list \<times> bool" where
  "do_steps ok [] = ([], True)"
| "do_steps ok (a # as) = (if ok a then (case do_steps ok as of (made, r) \<Rightarrow> (a # made, r)) else ([a], False))"

record connected_session =
  cs_single_pc_mode :: bool
  cs_participant :: "string \<times> string"
  cs_config :: rtc_configuration
  cs_has_subscriber :: bool
  cs_fast_publish :: bool
  cs_subscriber_primary :: bool
  cs_negotiates :: bool
  cs_first_event :: "(string, data_track_info list) hashmap option"

text \<open>
  \<open>single_pc_mode\<close> is what the signal client found out; \<open>ok\<close> says which step succeeds.  \<open>cs_first_event\<close>: the data
  tracks of the others, told before anything else.
\<close>

definition session_connect ::
  "(engine_error, join_facts \<times> bool) outcome \<Rightarrow> rtc_configuration \<Rightarrow> (connect_step \<Rightarrow> bool)
     \<Rightarrow> (engine_error, connected_session) outcome" where
  "session_connect signal config ok =
     and_then signal (\<lambda>(join, single_pc_mode).
       case from_join join of
         None \<Rightarrow> Err (InternalError ''Join response missing participant info'')
       | Some participant \<Rightarrow>
           if snd (do_steps ok ([CreatePublisher] @ (if single_pc_mode then [] else [CreateSubscriber])
                @ [CreateChannel RELIABLE_DC_LABEL, CreateChannel LOSSY_DC_LABEL, CreateChannel DATA_TRACK_DC_LABEL]))
           then Ok \<lparr>cs_single_pc_mode = single_pc_mode, cs_participant = participant,
                    cs_config = make_rtc_config (jf_ice_servers join) (jf_force_relay join) config,
                    cs_has_subscriber = (\<not> single_pc_mode), cs_fast_publish = jf_fast_publish join,
                    cs_subscriber_primary = jf_subscriber_primary join,
                    cs_negotiates = (single_pc_mode \<or> jf_fast_publish join \<or> \<not> jf_subscriber_primary join),
                    cs_first_event = (case event_from_join (jf_others join) of Ok tracks \<Rightarrow> Some tracks | _ \<Rightarrow> None)\<rparr>
           else Err RtcFailure)"

text \<open>A connected session has the subscriber that the handler of server messages unwraps.\<close>

lemma connected_session_ok:
  "session_connect signal config ok = Ok s \<Longrightarrow> cs_single_pc_mode s \<or> cs_has_subscriber s"
  by (auto simp: session_connect_def and_then_Ok_iff split: option.splits if_splits)

lemma configured_servers_win:
  "rc_ice_servers config \<noteq> [] \<Longrightarrow> rc_ice_servers (make_rtc_config servers relay config) = rc_ice_servers config"
  "rc_ice_servers config = [] \<Longrightarrow> rc_ice_servers (make_rtc_config servers relay config) = servers"
  by (simp_all add: make_rtc_config_def Let_def)

section \<open>Events of the transports\<close>

text \<open>\<open>publisher\<close> is the target; channels and tracks are numbers.\<close>

datatype 'c rtc_event =
    RtcIceCandidate 'c bool | RtcConnectionFailed bool | RtcConnectionOther bool | RtcDataChannel string nat bool
  | RtcOffer string | RtcTrack "string list" nat | RtcData bytes bool dp_kind | RtcBufferedAmount nat dp_kind

datatype 'c rtc_output =
    SendTrickle 'c bool | SendOffer string | SessionClosed string disconnect_reason leave_action bool
  | ListenForTracks nat | MediaTrackEvent string nat | DataEvent session_data_event | BufferedChange dp_kind nat

record rtc_state =
  rt_single_pc_mode :: bool
  rt_sub_lossy :: "nat option"
  rt_sub_reliable :: "nat option"
  rt_sub_data_track :: "nat option"
  rt_rx_state :: "(string, u32) ttl_map"

text \<open>\<open>decode\<close> reads a data packet: what the receive state needs of it, and the packet.\<close>

definition on_rtc_event ::
  "nat \<Rightarrow> (bytes \<Rightarrow> (received_packet \<times> session_packet) option) \<Rightarrow> (bytes \<Rightarrow> encrypted_value option option) \<Rightarrow> e2ee_manager option
    \<Rightarrow> 'c rtc_event \<Rightarrow> rtc_state \<Rightarrow> (engine_error, rtc_state \<times> 'c rtc_output list) outcome" where
  "on_rtc_event now decode decode_payload manager e s =
     (case e of
        RtcIceCandidate c publisher \<Rightarrow> Ok (s, [SendTrickle c publisher])
      | RtcConnectionFailed publisher \<Rightarrow> Ok (s, [SessionClosed ''pc_state failed'' UnknownReason Resume False])
      | RtcConnectionOther publisher \<Rightarrow> Ok (s, [])
      | RtcDataChannel label channel publisher \<Rightarrow>
          if publisher \<noteq> rt_single_pc_mode s then Ok (s, [])
          else if label = LOSSY_DC_LABEL then Ok (s\<lparr>rt_sub_lossy := Some channel\<rparr>, [])
          else if label = RELIABLE_DC_LABEL then Ok (s\<lparr>rt_sub_reliable := Some channel\<rparr>, [])
          else if label = DATA_TRACK_DC_LABEL then Ok (s\<lparr>rt_sub_data_track := Some channel\<rparr>, [ListenForTracks channel])
          else Ok (s, [])
      | RtcOffer sdp \<Rightarrow> Ok (s, [SendOffer sdp])
      | RtcTrack streams track \<Rightarrow> Ok (s, case streams of [] \<Rightarrow> [] | stream # _ \<Rightarrow> [MediaTrackEvent stream track])
      | RtcData data binary kind \<Rightarrow>
          if \<not> binary then Err (InternalError ''text messages aren't supported'')
          else (case decode data of
                  None \<Rightarrow> Err (InternalError ''failed to decode data packet'')
                | Some (received, packet) \<Rightarrow>
                    Ok (if kind = Reliable then s\<lparr>rt_rx_state := update_packet_rx_state now received (rt_rx_state s)\<rparr> else s,
                        case receive_packet decode_payload manager (kind = Reliable) packet of
                          None \<Rightarrow> [] | Some ev \<Rightarrow> [DataEvent ev]))
      | RtcBufferedAmount sent kind \<Rightarrow> Ok (s, [BufferedChange kind sent]))"

text \<open>\<open>data_channel\<close>; the channels of the publisher are always there.\<close>

definition data_channel :: "nat \<times> nat \<Rightarrow> bool \<Rightarrow> dp_kind \<Rightarrow> rtc_state \<Rightarrow> nat option" where
  "data_channel publisher_channels publisher kind s =
     (if publisher then Some (if kind = Reliable then snd publisher_channels else fst publisher_channels)
      else if kind = Reliable then rt_sub_reliable s else rt_sub_lossy s)"

text \<open>Packets of data tracks that arrive on a channel: only binary ones count.\<close>

definition handle_remote_dt_packets :: "bool \<Rightarrow> bytes \<Rightarrow> bytes option" where
  "handle_remote_dt_packets binary data = (if binary then Some data else None)"

lemma rtc_event_no_panic: "on_rtc_event now decode decode_payload manager e s \<noteq> Panic"
  by (auto simp: on_rtc_event_def split: rtc_event.splits option.splits)

section \<open>Waiting for a connection\<close>

definition ICE_CONNECT_TIMEOUT :: nat where
  "ICE_CONNECT_TIMEOUT = 15000"

datatype wait_end = WaitOk | WaitClosed | WaitTimedOut

text \<open>A loop that looks every 50 milliseconds, against the timeout.\<close>

function poll_until :: "(nat \<Rightarrow> wait_end option) \<Rightarrow> nat \<Rightarrow> wait_end" where
  "poll_until look t =
     (if ICE_CONNECT_TIMEOUT \<le> t then WaitTimedOut
      else (case look t of Some r \<Rightarrow> r | None \<Rightarrow> poll_until look (t + 50)))"
  by pat_completeness auto
termination
  by (relation "measure (\<lambda>(look, t). ICE_CONNECT_TIMEOUT - t)") auto

declare poll_until.simps [simp del]

record pc_snapshot =
  sn_closed :: bool
  sn_has_published :: bool
  sn_publisher_connected :: bool
  sn_subscriber_connected :: "bool option"
  sn_channel_open :: bool

definition pcs_connected :: "bool \<Rightarrow> bool \<Rightarrow> pc_snapshot \<Rightarrow> bool" where
  "pcs_connected single_pc_mode subscriber_primary sn \<longleftrightarrow>
     (let subscriber_connected = (if single_pc_mode \<or> \<not> subscriber_primary then True
            else (case sn_subscriber_connected sn of Some b \<Rightarrow> b | None \<Rightarrow> True));
          need_publisher = (single_pc_mode \<or> sn_has_published sn)
      in subscriber_connected \<and> (\<not> need_publisher \<or> sn_publisher_connected sn))"

definition wait_pc_connection_with_delay :: "bool \<Rightarrow> bool \<Rightarrow> (nat \<Rightarrow> pc_snapshot) \<Rightarrow> nat \<Rightarrow> wait_end" where
  "wait_pc_connection_with_delay single_pc_mode subscriber_primary at settle_delay =
     poll_until (\<lambda>t. if sn_closed (at t) then Some WaitClosed
                     else if pcs_connected single_pc_mode subscriber_primary (at t) then Some WaitOk else None) settle_delay"

text \<open>The first is whether it asks for a negotiation.\<close>

definition ensure_publisher_connected :: "(nat \<Rightarrow> pc_snapshot) \<Rightarrow> bool \<times> wait_end" where
  "ensure_publisher_connected at =
     (\<not> sn_has_published (at 0),
      if sn_channel_open (at 0) then WaitOk
      else poll_until (\<lambda>t. if sn_publisher_connected (at t) \<and> sn_channel_open (at t) then Some WaitOk
                           else if sn_closed (at t) then Some WaitClosed else None) 0)"

lemma poll_until_result:
  assumes "r \<noteq> WaitTimedOut"
  shows "poll_until look t = r \<longleftrightarrow>
    (\<exists>k. t + 50 * k < ICE_CONNECT_TIMEOUT \<and> look (t + 50 * k) = Some r \<and> (\<forall>j<k. look (t + 50 * j) = None))"
proof (induction look t rule: poll_until.induct)
  case (1 look t)
  show ?case
  proof (cases "ICE_CONNECT_TIMEOUT \<le> t")
    case True
    then show ?thesis using assms by (simp add: poll_until.simps [of look t])
  next
    case in_time: False
    show ?thesis
    proof (cases "look t")
      case (Some r')
      have "(\<exists>k. t + 50 * k < ICE_CONNECT_TIMEOUT \<and> look (t + 50 * k) = Some r \<and> (\<forall>j<k. look (t + 50 * j) = None)) \<longleftrightarrow> r' = r"
      proof
        assume "\<exists>k. t + 50 * k < ICE_CONNECT_TIMEOUT \<and> look (t + 50 * k) = Some r \<and> (\<forall>j<k. look (t + 50 * j) = None)"
        then obtain k where k: "look (t + 50 * k) = Some r" "\<forall>j<k. look (t + 50 * j) = None" by blast
        then have "k = 0" using Some by (metis gr0I mult_0_right add_0_right option.distinct(1))
        then show "r' = r" using k Some by simp
      next
        assume "r' = r"
        then show "\<exists>k. t + 50 * k < ICE_CONNECT_TIMEOUT \<and> look (t + 50 * k) = Some r \<and> (\<forall>j<k. look (t + 50 * j) = None)"
          using in_time Some by (intro exI [of _ 0]) simp
      qed
      then show ?thesis using in_time Some by (simp add: poll_until.simps [of look t])
    next
      case None
      have IH: "poll_until look (t + 50) = r \<longleftrightarrow>
          (\<exists>k. t + 50 * Suc k < ICE_CONNECT_TIMEOUT \<and> look (t + 50 * Suc k) = Some r \<and> (\<forall>j<k. look (t + 50 * Suc j) = None))"
        using 1 [OF in_time None] by (simp add: algebra_simps)
      have "(\<exists>k. t + 50 * k < ICE_CONNECT_TIMEOUT \<and> look (t + 50 * k) = Some r \<and> (\<forall>j<k. look (t + 50 * j) = None)) \<longleftrightarrow>
          (\<exists>k. t + 50 * Suc k < ICE_CONNECT_TIMEOUT \<and> look (t + 50 * Suc k) = Some r \<and> (\<forall>j<k. look (t + 50 * Suc j) = None))"
        (is "?L \<longleftrightarrow> ?R")
      proof
        assume ?L
        then obtain k where k: "t + 50 * k < ICE_CONNECT_TIMEOUT" "look (t + 50 * k) = Some r" "\<forall>j<k. look (t + 50 * j) = None" by blast
        then obtain k' where "k = Suc k'" using None by (cases k) auto
        then show ?R using k by (intro exI [of _ k']) auto
      next
        assume ?R
        then obtain k where k: "t + 50 * Suc k < ICE_CONNECT_TIMEOUT" "look (t + 50 * Suc k) = Some r" "\<forall>j<k. look (t + 50 * Suc j) = None"
          by blast
        have "\<forall>j<Suc k. look (t + 50 * j) = None"
          using k(3) None by (simp add: All_less_Suc2)
        then show ?L using k(1,2) by blast
      qed
      then show ?thesis using in_time None IH by (simp add: poll_until.simps [of look t])
    qed
  qed
qed

text \<open>
  Waiting succeeds exactly when at some look before the timeout the transports are connected and at no look up to then
  the session was closed or they were connected already.  With a subscriber that is not primary and nothing
  published, it succeeds at once, whatever the transports do.
\<close>

lemma wait_pc_connection_succeeds:
  "wait_pc_connection_with_delay single_pc_mode primary at settle = WaitOk \<longleftrightarrow>
    (\<exists>k. settle + 50 * k < ICE_CONNECT_TIMEOUT \<and> pcs_connected single_pc_mode primary (at (settle + 50 * k))
       \<and> (\<forall>j\<le>k. \<not> sn_closed (at (settle + 50 * j))) \<and> (\<forall>j<k. \<not> pcs_connected single_pc_mode primary (at (settle + 50 * j))))"
  unfolding wait_pc_connection_with_delay_def
  by (subst poll_until_result) (auto simp: le_less split: if_splits)

lemma nothing_to_wait_for:
  "\<not> sn_closed (at 0) \<Longrightarrow> \<not> sn_has_published (at 0) \<Longrightarrow> wait_pc_connection_with_delay False False at 0 = WaitOk"
  by (simp add: wait_pc_connection_with_delay_def poll_until.simps pcs_connected_def ICE_CONNECT_TIMEOUT_def)

text \<open>An open channel is enough for the publisher, without a look at its connection.\<close>

lemma open_channel_is_enough: "sn_channel_open (at 0) \<Longrightarrow> snd (ensure_publisher_connected at) = WaitOk"
  by (simp add: ensure_publisher_connected_def)

section \<open>Resuming\<close>

datatype restart_output = ConfigurePublisher rtc_configuration | ConfigureSubscriber rtc_configuration | AskRetryFrom u32 | IceRestartOffer

record reconnect_facts =
  rf_ice_servers :: "ice_server list"
  rf_force_relay :: "client_setting option"
  rf_last_message_seq :: u32

definition session_restart ::
  "(engine_error, reconnect_facts) outcome \<Rightarrow> rtc_configuration \<Rightarrow> bool \<Rightarrow> (restart_output \<Rightarrow> bool)
     \<Rightarrow> restart_output list \<times> (engine_error, reconnect_facts) outcome" where
  "session_restart signal config has_subscriber ok =
     (case signal of
        Err e \<Rightarrow> ([], Err e)
      | Panic \<Rightarrow> ([], Panic)
      | Ok response \<Rightarrow>
          (let config = make_rtc_config (rf_ice_servers response) (rf_force_relay response) config;
               steps = ConfigurePublisher config # (if has_subscriber then [ConfigureSubscriber config] else [])
           in case do_steps ok steps of
                (made, True) \<Rightarrow> (made @ [AskRetryFrom (rf_last_message_seq response)], Ok response)
              | (made, False) \<Rightarrow> (made, Err RtcFailure)))"

definition restart_publisher :: "bool \<Rightarrow> bool \<Rightarrow> (engine_error, unit) outcome \<Rightarrow> restart_output list \<times> (engine_error, unit) outcome" where
  "restart_publisher single_pc_mode has_published offered =
     (if single_pc_mode \<or> has_published then ([IceRestartOffer], offered) else ([], Ok ()))"

lemma do_steps_done: "snd (do_steps ok as) \<Longrightarrow> fst (do_steps ok as) = as"
  by (induction as) (auto split: if_splits prod.splits)

text \<open>The retry of reliable packets is asked for exactly when the resume succeeds, from where the server is, and last.\<close>

lemma restart_asks_for_retry:
  assumes "session_restart signal config has_subscriber ok = (outs, result)"
  shows "AskRetryFrom n \<in> set outs \<longleftrightarrow> (\<exists>response. result = Ok response \<and> n = rf_last_message_seq response)"
proof (cases signal)
  case (Ok response)
  let ?config = "make_rtc_config (rf_ice_servers response) (rf_force_relay response) config"
  let ?steps = "ConfigurePublisher ?config # (if has_subscriber then [ConfigureSubscriber ?config] else [])"
  obtain made r where steps: "do_steps ok ?steps = (made, r)" by (cases "do_steps ok ?steps")
  have sub: "set (fst (do_steps ok as)) \<subseteq> set as" for as
    by (induction as) (auto split: if_splits prod.splits)
  have "AskRetryFrom n \<notin> set made" using sub [of ?steps] steps by (auto split: if_splits)
  then show ?thesis
    using assms Ok steps by (cases r) (auto simp: session_restart_def Let_def)
qed (use assms in \<open>auto simp: session_restart_def\<close>)

section \<open>Senders\<close>

record rtp_codec =
  rcc_mime_type :: string
  rcc_fmtp :: "string option"

definition contains_text :: "string \<Rightarrow> string \<Rightarrow> bool" where
  "contains_text p s \<longleftrightarrow> list_ex (\<lambda>k. take (length p) (drop k s) = p) [0..<Suc (length s)]"

definition to_lowercase :: "string \<Rightarrow> string" where
  "to_lowercase s = map (\<lambda>c. if of_char c \<in> {65..90::nat} then char_of (of_char c + 32 :: nat) else c) s"

text \<open>The codecs a video sender prefers; those of another type are collected and not used.\<close>

fun codec_preferences :: "string \<Rightarrow> rtp_codec list \<Rightarrow> rtp_codec list \<times> rtp_codec list \<times> rtp_codec list" where
  "codec_preferences wanted [] = ([], [], [])"
| "codec_preferences wanted (c # cs) =
     (case codec_preferences wanted cs of (matched, partial_matched, unmatched) \<Rightarrow>
        if to_lowercase (rcc_mime_type c) = ''video/'' @ wanted then
          (if (case rcc_fmtp c of Some line \<Rightarrow> contains_text ''profile-level-id=42e01f'' line | None \<Rightarrow> False)
           then (c # matched, partial_matched, unmatched)
           else (matched, c # partial_matched, unmatched))
        else (matched, partial_matched, c # unmatched))"

definition preferred_codecs :: "string \<Rightarrow> rtp_codec list \<Rightarrow> rtp_codec list" where
  "preferred_codecs wanted codecs =
     (case codec_preferences wanted codecs of (matched, partial_matched, unmatched) \<Rightarrow> matched @ partial_matched)"

text \<open>The bitrate noted for the offers: the sum of the encodings that have one, unless it is zero.\<close>

definition ultimate_bitrate :: "u64 option list \<Rightarrow> u64 option" where
  "ultimate_bitrate max_bitrates =
     (let total = sum_list (map (\<lambda>b. case b of Some b \<Rightarrow> b | None \<Rightarrow> 0) max_bitrates) in if total > 0 then Some total else None)"

text \<open>
  Only codecs of the wanted type are preferred, all of them, those with the compatible profile first: what
  repairs and protects a stream (retransmission, redundancy) is of another type and left out.
\<close>

lemma preferred_codecs_exact:
  "set (preferred_codecs wanted codecs) = {c \<in> set codecs. to_lowercase (rcc_mime_type c) = ''video/'' @ wanted}"
  by (induction wanted codecs rule: codec_preferences.induct)
    (auto simp: preferred_codecs_def split: prod.splits if_splits)

section \<open>Requests of the data track managers and of the tests\<close>

datatype simulate_scenario =
    SimSignalReconnect | SimSpeaker | SimNodeFailure | SimServerLeave | SimMigration | SimForceTcp | SimForceTls | SimFullReconnect

datatype sim_request = SimSpeakerUpdate nat | SimNode | SimLeave | SimMigrate | SimTcp | SimTls | SimFull

datatype simulate_output = CloseSignal | SendSimulate sim_request | HandleLeave disconnect_reason leave_action

fun simulate :: "simulate_scenario \<Rightarrow> simulate_output list" where
  "simulate SimSignalReconnect = [CloseSignal]"
| "simulate SimSpeaker = [SendSimulate (SimSpeakerUpdate 3)]"
| "simulate SimNodeFailure = [SendSimulate SimNode]"
| "simulate SimServerLeave = [SendSimulate SimLeave]"
| "simulate SimMigration = [SendSimulate SimMigrate]"
| "simulate SimForceTcp = [SendSimulate SimTcp, HandleLeave ClientInitiated Reconnect]"
| "simulate SimForceTls = [SendSimulate SimTls, HandleLeave ClientInitiated Reconnect]"
| "simulate SimFullReconnect = [SendSimulate SimFull]"

text \<open>
  What the local manager of data tracks asks the session to do: a publication waits for the publisher, and
  is requested also when that fails.
\<close>

datatype ('q, 'u) local_dt_output = DtPublish 'q | DtUnpublish 'u | DtPackets "bytes list"

datatype ('q, 'u) dt_call = EnsurePublisher | RequestPublish 'q | RequestUnpublish 'u | SendFrame "bytes list"

definition handle_local_data_track_output :: "('q, 'u) local_dt_output \<Rightarrow> ('q, 'u) dt_call list" where
  "handle_local_data_track_output e =
     (case e of
        DtPublish q \<Rightarrow> [EnsurePublisher, RequestPublish q]
      | DtUnpublish u \<Rightarrow> [RequestUnpublish u]
      | DtPackets packets \<Rightarrow> if packets = [] then [] else [SendFrame packets])"

section \<open>Closing\<close>

text \<open>
  The four tasks (transports, signal messages, data channels, data track packets), each waiting, handling
  something, ended, or ended by a panic of what it handles.
\<close>

datatype task_run = TkIdle | TkBusy | TkEnded | TkPanicked

text \<open>
  A call of \<open>close\<close>: taking the handle, waiting for task \<open>k\<close>, marking the session, waiting until the signal client has sent the
  leave message, waiting until it is closed, closing the transports.  Waiting for a task that has panicked panics.  The
  signal client may take for ever, and may panic, as its own tasks are awaited when it is closed.
\<close>

datatype session_closer = CTake | CAwait nat | CLeave | CSend | CSignal | CTransports | CDone | CPanicked | CSignalPanicked

text \<open>A closer has the handle when it found it.  \<open>sl_signal_open\<close>: no call has come back from closing the signal client.\<close>

record session_life =
  sl_handle :: bool
  sl_stop :: bool
  sl_tasks :: "task_run list"
  sl_closed :: bool
  sl_signal_open :: bool
  sl_transports_open :: bool
  sl_closers :: "(bool \<times> session_closer) list"

definition life_new :: session_life where
  "life_new =
     \<lparr>sl_handle = True, sl_stop = False, sl_tasks = replicate 4 TkIdle, sl_closed = False, sl_signal_open = True,
      sl_transports_open = True, sl_closers = []\<rparr>"

definition goto_closer :: "nat \<Rightarrow> bool \<Rightarrow> session_closer \<Rightarrow> session_life \<Rightarrow> session_life" where
  "goto_closer i has pc s = s\<lparr>sl_closers := (sl_closers s)[i := (has, pc)]\<rparr>"

fun closer_step :: "nat \<Rightarrow> bool \<Rightarrow> session_closer \<Rightarrow> session_life \<Rightarrow> session_life option" where
  "closer_step i has CTake s =
     (if sl_handle s then Some (goto_closer i True (CAwait 0) (s\<lparr>sl_handle := False, sl_stop := True\<rparr>))
      else Some (goto_closer i False CLeave s))"
| "closer_step i has (CAwait k) s =
     (case sl_tasks s ! k of
        TkEnded \<Rightarrow> Some (goto_closer i has (if k < 3 then CAwait (Suc k) else CLeave) s)
      | TkPanicked \<Rightarrow> Some (goto_closer i has CPanicked s)
      | _ \<Rightarrow> None)"
| "closer_step i has CLeave s = Some (goto_closer i has CSend (s\<lparr>sl_closed := True\<rparr>))"
| "closer_step i has CSend s = None"
| "closer_step i has CSignal s = None"
| "closer_step i has CTransports s = Some (goto_closer i has CDone (s\<lparr>sl_transports_open := False\<rparr>))"
| "closer_step i has CDone s = None"
| "closer_step i has CPanicked s = None"
| "closer_step i has CSignalPanicked s = None"

text \<open>The signal client returns from what the call awaits, or panics.\<close>

fun await_returns :: "nat \<Rightarrow> bool \<Rightarrow> session_closer \<Rightarrow> session_life \<Rightarrow> session_life option" where
  "await_returns i has CSend s = Some (goto_closer i has CSignal s)"
| "await_returns i has CSignal s = Some (goto_closer i has CTransports (s\<lparr>sl_signal_open := False\<rparr>))"
| "await_returns i has _ s = None"

fun await_panics :: "nat \<Rightarrow> bool \<Rightarrow> session_closer \<Rightarrow> session_life \<Rightarrow> session_life option" where
  "await_panics i has CSend s = Some (goto_closer i has CSignalPanicked s)"
| "await_panics i has CSignal s = Some (goto_closer i has CSignalPanicked s)"
| "await_panics i has _ s = None"

definition set_task :: "nat \<Rightarrow> task_run \<Rightarrow> session_life \<Rightarrow> session_life" where
  "set_task k r s = s\<lparr>sl_tasks := (sl_tasks s)[k := r]\<rparr>"

text \<open>A task that waits may take what has arrived even when it was told to stop.\<close>

datatype life_event = CloseCalled | CloserStep nat | TaskTakes nat | TaskHandled nat | TaskPanics nat | TaskStops nat
  | AwaitReturns nat | AwaitPanics nat

fun life_apply :: "life_event \<Rightarrow> session_life \<Rightarrow> session_life option" where
  "life_apply CloseCalled s = Some (s\<lparr>sl_closers := sl_closers s @ [(False, CTake)]\<rparr>)"
| "life_apply (CloserStep i) s =
     (if i < length (sl_closers s) then closer_step i (fst (sl_closers s ! i)) (snd (sl_closers s ! i)) s else None)"
| "life_apply (TaskTakes k) s = (if k < 4 \<and> sl_tasks s ! k = TkIdle then Some (set_task k TkBusy s) else None)"
| "life_apply (TaskHandled k) s = (if k < 4 \<and> sl_tasks s ! k = TkBusy then Some (set_task k TkIdle s) else None)"
| "life_apply (TaskPanics k) s = (if k < 4 \<and> sl_tasks s ! k = TkBusy then Some (set_task k TkPanicked s) else None)"
| "life_apply (TaskStops k) s = (if k < 4 \<and> sl_tasks s ! k = TkIdle \<and> sl_stop s then Some (set_task k TkEnded s) else None)"
| "life_apply (AwaitReturns i) s =
     (if i < length (sl_closers s) then await_returns i (fst (sl_closers s ! i)) (snd (sl_closers s ! i)) s else None)"
| "life_apply (AwaitPanics i) s =
     (if i < length (sl_closers s) then await_panics i (fst (sl_closers s ! i)) (snd (sl_closers s ! i)) s else None)"

section \<open>How a session ends\<close>

definition all_ended :: "session_life \<Rightarrow> bool" where
  "all_ended s \<longleftrightarrow> (\<forall>k<4. sl_tasks s ! k = TkEnded)"

fun closer_ok :: "session_life \<Rightarrow> bool \<times> session_closer \<Rightarrow> bool" where
  "closer_ok s (has, CTake) = (\<not> has)"
| "closer_ok s (has, CAwait k) = (has \<and> k < 4 \<and> (\<forall>j<k. sl_tasks s ! j = TkEnded))"
| "closer_ok s (has, CLeave) = (\<not> sl_handle s \<and> (has \<longrightarrow> all_ended s))"
| "closer_ok s (has, CSend) = (\<not> sl_handle s \<and> sl_closed s \<and> (has \<longrightarrow> all_ended s))"
| "closer_ok s (has, CSignal) = (\<not> sl_handle s \<and> sl_closed s \<and> (has \<longrightarrow> all_ended s))"
| "closer_ok s (has, CTransports) = (\<not> sl_handle s \<and> sl_closed s \<and> \<not> sl_signal_open s \<and> (has \<longrightarrow> all_ended s))"
| "closer_ok s (has, CDone) =
     (\<not> sl_handle s \<and> sl_closed s \<and> \<not> sl_signal_open s \<and> \<not> sl_transports_open s \<and> (has \<longrightarrow> all_ended s))"
| "closer_ok s (has, CPanicked) = (has \<and> (\<exists>k<4. sl_tasks s ! k = TkPanicked))"
| "closer_ok s (has, CSignalPanicked) = (\<not> sl_handle s \<and> sl_closed s \<and> (has \<longrightarrow> all_ended s))"

text \<open>Who has marked the session, closed the signal client, closed the transports.\<close>

fun closer_reached :: "nat \<Rightarrow> session_closer \<Rightarrow> bool" where
  "closer_reached n CSend = (n \<le> 1)"
| "closer_reached n CSignal = (n \<le> 1)"
| "closer_reached n CSignalPanicked = (n \<le> 1)"
| "closer_reached n CTransports = (n \<le> 2)"
| "closer_reached n CDone = (n \<le> 3)"
| "closer_reached n _ = False"

definition some_closer :: "(bool \<times> session_closer \<Rightarrow> bool) \<Rightarrow> session_life \<Rightarrow> bool" where
  "some_closer P s \<longleftrightarrow> (\<exists>i<length (sl_closers s). P (sl_closers s ! i))"

definition life_inv :: "session_life \<Rightarrow> bool" where
  "life_inv s \<longleftrightarrow> length (sl_tasks s) = 4 \<and> (\<forall>i<length (sl_closers s). closer_ok s (sl_closers s ! i))
     \<and> (sl_handle s \<longleftrightarrow> \<not> some_closer fst s)
     \<and> (sl_closed s \<longrightarrow> some_closer (\<lambda>c. closer_reached 1 (snd c)) s)
     \<and> (\<not> sl_signal_open s \<longrightarrow> some_closer (\<lambda>c. closer_reached 2 (snd c)) s)
     \<and> (\<not> sl_transports_open s \<longrightarrow> some_closer (\<lambda>c. closer_reached 3 (snd c)) s)"

lemma goto_closer_simps [simp]:
  "sl_tasks (goto_closer i has pc s) = sl_tasks s" "sl_handle (goto_closer i has pc s) = sl_handle s"
  "sl_closed (goto_closer i has pc s) = sl_closed s" "sl_signal_open (goto_closer i has pc s) = sl_signal_open s"
  "sl_transports_open (goto_closer i has pc s) = sl_transports_open s" "sl_stop (goto_closer i has pc s) = sl_stop s"
  "length (sl_closers (goto_closer i has pc s)) = length (sl_closers s)"
  "i < length (sl_closers s) \<Longrightarrow> sl_closers (goto_closer i has pc s) ! i = (has, pc)"
  "j \<noteq> i \<Longrightarrow> sl_closers (goto_closer i has pc s) ! j = sl_closers s ! j"
  by (simp_all add: goto_closer_def)

lemma some_closer_goto:
  assumes "i < length (sl_closers s)"
  shows "some_closer P (goto_closer i has pc s) \<longleftrightarrow> P (has, pc) \<or> (\<exists>j<length (sl_closers s). j \<noteq> i \<and> P (sl_closers s ! j))"
  unfolding some_closer_def using assms by (metis goto_closer_simps(7-9))

lemma some_closer_at:
  assumes "i < length (sl_closers s)"
  shows "some_closer P s \<longleftrightarrow> P (sl_closers s ! i) \<or> (\<exists>j<length (sl_closers s). j \<noteq> i \<and> P (sl_closers s ! j))"
  unfolding some_closer_def using assms by metis

lemma some_closer_fields [simp]:
  "some_closer P (s\<lparr>sl_handle := h, sl_stop := b\<rparr>) = some_closer P s" "some_closer P (s\<lparr>sl_closed := b\<rparr>) = some_closer P s"
  "some_closer P (s\<lparr>sl_signal_open := b\<rparr>) = some_closer P s" "some_closer P (s\<lparr>sl_transports_open := b\<rparr>) = some_closer P s"
  "some_closer P (set_task k r s) = some_closer P s"
  by (simp_all add: some_closer_def set_task_def)

text \<open>What a step leaves to the other closers.\<close>

definition life_grows :: "session_life \<Rightarrow> session_life \<Rightarrow> bool" where
  "life_grows s s' \<longleftrightarrow> length (sl_tasks s') = length (sl_tasks s) \<and> (\<not> sl_handle s \<longrightarrow> \<not> sl_handle s')
     \<and> (\<forall>k<4. sl_tasks s ! k \<in> {TkEnded, TkPanicked} \<longrightarrow> sl_tasks s' ! k = sl_tasks s ! k)
     \<and> (sl_closed s \<longrightarrow> sl_closed s') \<and> (\<not> sl_signal_open s \<longrightarrow> \<not> sl_signal_open s')
     \<and> (\<not> sl_transports_open s \<longrightarrow> \<not> sl_transports_open s')"

lemma closer_ok_grows: "life_grows s s' \<Longrightarrow> closer_ok s c \<Longrightarrow> closer_ok s' c"
  by (cases "(s, c)" rule: closer_ok.cases) (auto simp: life_grows_def all_ended_def)

lemma life_apply_grows:
  assumes "length (sl_tasks s) = 4" and "life_apply e s = Some s'"
  shows "life_grows s s'"
proof (cases e)
  case (CloserStep i)
  then show ?thesis
    using assms(2)
    by (cases "snd (sl_closers s ! i)")
      (auto simp: life_grows_def goto_closer_def split: if_splits task_run.splits)
next
  case (AwaitReturns i)
  then show ?thesis
    using assms(2) by (cases "snd (sl_closers s ! i)") (auto simp: life_grows_def goto_closer_def split: if_splits)
next
  case (AwaitPanics i)
  then show ?thesis
    using assms(2) by (cases "snd (sl_closers s ! i)") (auto simp: life_grows_def goto_closer_def split: if_splits)
qed (use assms in \<open>auto simp: life_grows_def set_task_def nth_list_update split: if_splits\<close>)

text \<open>The steps of a closer, and what it awaits.\<close>

lemma closer_stepE:
  assumes "closer_step i has pc s = Some s' \<or> await_returns i has pc s = Some s' \<or> await_panics i has pc s = Some s'"
  obtains (take) "pc = CTake" "sl_handle s" "s' = goto_closer i True (CAwait 0) (s\<lparr>sl_handle := False, sl_stop := True\<rparr>)"
  | (untaken) "pc = CTake" "\<not> sl_handle s" "s' = goto_closer i False CLeave s"
  | (await) k where "pc = CAwait k" "sl_tasks s ! k = TkEnded" "k < 3" "s' = goto_closer i has (CAwait (Suc k)) s"
  | (awaited) k where "pc = CAwait k" "sl_tasks s ! k = TkEnded" "\<not> k < 3" "s' = goto_closer i has CLeave s"
  | (panicked) k where "pc = CAwait k" "sl_tasks s ! k = TkPanicked" "s' = goto_closer i has CPanicked s"
  | (leave) "pc = CLeave" "s' = goto_closer i has CSend (s\<lparr>sl_closed := True\<rparr>)"
  | (sent) "pc = CSend" "s' = goto_closer i has CSignal s"
  | (unsent) "pc = CSend" "s' = goto_closer i has CSignalPanicked s"
  | (unclosed) "pc = CSignal" "s' = goto_closer i has CSignalPanicked s"
  | (signal) "pc = CSignal" "s' = goto_closer i has CTransports (s\<lparr>sl_signal_open := False\<rparr>)"
  | (transports) "pc = CTransports" "s' = goto_closer i has CDone (s\<lparr>sl_transports_open := False\<rparr>)"
proof (cases "pc = CSend \<or> pc = CSignal")
  case True
  then show ?thesis
  proof
    assume pc: "pc = CSend"
    then have "s' = goto_closer i has CSignal s \<or> s' = goto_closer i has CSignalPanicked s" using assms by auto
    then show ?thesis using pc sent unsent by blast
  next
    assume pc: "pc = CSignal"
    then have "s' = goto_closer i has CTransports (s\<lparr>sl_signal_open := False\<rparr>) \<or> s' = goto_closer i has CSignalPanicked s" using assms by auto
    then show ?thesis using pc signal unclosed by blast
  qed
next
  case False
  then have "await_returns i has pc s = None" "await_panics i has pc s = None" by (cases pc; simp)+
  then have step: "closer_step i has pc s = Some s'" using assms by simp
  show ?thesis
  proof (cases pc)
    case CTake
    show ?thesis using step take untaken by (cases "sl_handle s") (simp_all add: CTake)
  next
    case (CAwait k)
    show ?thesis
    proof (cases "sl_tasks s ! k")
      case TkEnded
      then show ?thesis using step await [of k] awaited [of k] CAwait by (cases "k < 3") simp_all
    next
      case TkPanicked
      then show ?thesis using step panicked [of k] CAwait by simp
    qed (use step CAwait in simp_all)
  next
    case CLeave
    then show ?thesis using step leave by simp
  next
    case CTransports
    then show ?thesis using step transports by simp
  qed (use step in simp_all)
qed

text \<open>The invariant of all closers, given that of the one that steps.\<close>

lemma closers_ok_goto:
  assumes "life_inv s" and "life_grows s (goto_closer i has pc s1)" and "sl_closers s1 = sl_closers s"
    and "i < length (sl_closers s)" and "closer_ok (goto_closer i has pc s1) (has, pc)"
    and "j < length (sl_closers (goto_closer i has pc s1))"
  shows "closer_ok (goto_closer i has pc s1) (sl_closers (goto_closer i has pc s1) ! j)"
proof (cases "j = i")
  case True
  then show ?thesis using assms by simp
next
  case False
  then have "closer_ok s (sl_closers s ! j)" using assms(1,3,6) by (simp add: life_inv_def)
  then show ?thesis using closer_ok_grows [OF assms(2)] False assms(3) by simp
qed

lemma life_inv_closer:
  assumes inv: "life_inv s" and i: "i < length (sl_closers s)"
    and step: "closer_step i has pc s = Some s' \<or> await_returns i has pc s = Some s' \<or> await_panics i has pc s = Some s'"
    and at_i: "sl_closers s ! i = (has, pc)" and grows: "life_grows s s'"
  shows "life_inv s'"
  using step
proof (cases rule: closer_stepE)
  case take
  show ?thesis
    using inv i at_i grows closers_ok_goto [of s i True "CAwait 0" "s\<lparr>sl_handle := False, sl_stop := True\<rparr>"]
    by (auto simp: take life_inv_def some_closer_goto some_closer_at [OF i])
next
  case untaken
  show ?thesis
    using inv i at_i grows closers_ok_goto [of s i False CLeave s]
    by (auto simp: untaken life_inv_def some_closer_goto some_closer_at [OF i])
next
  case (await k)
  have "closer_ok s (has, CAwait k)" using inv i at_i await(1) by (metis life_inv_def)
  then have "closer_ok s' (has, CAwait (Suc k))" using await by (simp add: less_Suc_eq)
  then show ?thesis
    using inv i at_i grows closers_ok_goto [of s i has "CAwait (Suc k)" s]
    by (auto simp: await life_inv_def some_closer_goto some_closer_at [OF i])
next
  case (awaited k)
  have k: "closer_ok s (has, CAwait k)" using inv i at_i awaited(1) by (metis life_inv_def)
  then have "k = 3" "has" using awaited(3) by auto
  then have "all_ended s" using k awaited(2) by (auto simp: all_ended_def less_Suc_eq numeral_eq_Suc)
  moreover have "\<not> sl_handle s"
    using inv i at_i \<open>has\<close> by (auto simp: life_inv_def some_closer_at [OF i])
  ultimately show ?thesis
    using inv i at_i grows closers_ok_goto [of s i has CLeave s]
    by (auto simp: awaited life_inv_def some_closer_goto some_closer_at [OF i] all_ended_def)
next
  case (panicked k)
  have k: "closer_ok s (has, CAwait k)" using inv i at_i panicked(1) by (metis life_inv_def)
  then show ?thesis
    using inv i at_i grows panicked(2) closers_ok_goto [of s i has CPanicked s]
    by (auto simp: panicked(1,3) life_inv_def some_closer_goto some_closer_at [OF i])
next
  case leave
  have "closer_ok s (has, CLeave)" using inv i at_i leave(1) by (metis life_inv_def)
  then show ?thesis
    using inv i at_i grows closers_ok_goto [of s i has CSend "s\<lparr>sl_closed := True\<rparr>"]
    by (auto simp: leave life_inv_def some_closer_goto some_closer_at [OF i] all_ended_def)
next
  case sent
  have "closer_ok s (has, CSend)" using inv i at_i sent(1) by (metis life_inv_def)
  then show ?thesis
    using inv i at_i grows closers_ok_goto [of s i has CSignal s]
    by (auto simp: sent life_inv_def some_closer_goto some_closer_at [OF i] all_ended_def)
next
  case unsent
  have "closer_ok s (has, CSend)" using inv i at_i unsent(1) by (metis life_inv_def)
  then show ?thesis
    using inv i at_i grows closers_ok_goto [of s i has CSignalPanicked s]
    by (auto simp: unsent life_inv_def some_closer_goto some_closer_at [OF i] all_ended_def)
next
  case unclosed
  have "closer_ok s (has, CSignal)" using inv i at_i unclosed(1) by (metis life_inv_def)
  then show ?thesis
    using inv i at_i grows closers_ok_goto [of s i has CSignalPanicked s]
    by (auto simp: unclosed life_inv_def some_closer_goto some_closer_at [OF i] all_ended_def)
next
  case signal
  have "closer_ok s (has, CSignal)" using inv i at_i signal(1) by (metis life_inv_def)
  then show ?thesis
    using inv i at_i grows closers_ok_goto [of s i has CTransports "s\<lparr>sl_signal_open := False\<rparr>"]
    by (auto simp: signal life_inv_def some_closer_goto some_closer_at [OF i] all_ended_def)
next
  case transports
  have "closer_ok s (has, CTransports)" using inv i at_i transports(1) by (metis life_inv_def)
  then show ?thesis
    using inv i at_i grows closers_ok_goto [of s i has CDone "s\<lparr>sl_transports_open := False\<rparr>"]
    by (auto simp: transports life_inv_def some_closer_goto some_closer_at [OF i] all_ended_def)
qed

lemma life_inv_task:
  assumes "life_inv s" and "life_grows s (set_task k r s)"
  shows "life_inv (set_task k r s)"
proof -
  have "closer_ok (set_task k r s) (sl_closers s ! i)" if "i < length (sl_closers s)" for i
    using closer_ok_grows [OF assms(2)] assms(1) that by (simp add: life_inv_def)
  then show ?thesis
    using assms(1) by (simp add: life_inv_def) (simp add: set_task_def)
qed

lemma some_closer_set: "some_closer P s \<longleftrightarrow> (\<exists>c\<in>set (sl_closers s). P c)"
  unfolding some_closer_def by (metis in_set_conv_nth)

lemma some_closer_new: "some_closer P (s\<lparr>sl_closers := sl_closers s @ [c]\<rparr>) \<longleftrightarrow> some_closer P s \<or> P c"
  by (simp add: some_closer_set) blast

lemma life_inv_apply:
  assumes "life_inv s" and "life_apply e s = Some s'"
  shows "life_inv s'"
proof (cases "\<exists>i. e = CloserStep i \<or> e = AwaitReturns i \<or> e = AwaitPanics i")
  case True
  then obtain i where e: "e = CloserStep i \<or> e = AwaitReturns i \<or> e = AwaitPanics i" by blast
  let ?has = "fst (sl_closers s ! i)" and ?pc = "snd (sl_closers s ! i)"
  have i: "i < length (sl_closers s)" using assms(2) e by (auto split: if_splits)
  have step: "closer_step i ?has ?pc s = Some s' \<or> await_returns i ?has ?pc s = Some s' \<or> await_panics i ?has ?pc s = Some s'"
    using assms(2) e i by auto
  have "length (sl_tasks s) = 4" using assms(1) by (simp add: life_inv_def)
  from life_inv_closer [OF assms(1) i step _ life_apply_grows [OF this assms(2)]] show ?thesis by simp
next
  case False
  show ?thesis
  proof (cases "e = CloseCalled")
    case True
    then have s': "s' = s\<lparr>sl_closers := sl_closers s @ [(False, CTake)]\<rparr>" using assms(2) by simp
    have "closer_ok s' c" if "closer_ok s c" for c
      using closer_ok_grows [of s s'] life_apply_grows [OF _ assms(2)] assms(1) that by (simp add: life_inv_def)
    then show ?thesis
      using assms(1) by (auto simp: s' life_inv_def some_closer_new nth_append less_Suc_eq)
  next
    case other: False
    then obtain k r where "s' = set_task k r s"
      using False assms(2) by (cases e) (auto split: if_splits)
    then show ?thesis
      using life_inv_task [OF assms(1)] life_apply_grows [OF _ assms(2)] assms(1) by (simp add: life_inv_def)
  qed
qed

interpretation lfm: enabled_machine life_apply life_new life_inv
  by unfold_locales (simp add: life_inv_def life_new_def some_closer_def, rule life_inv_apply)

lemma single_closer:
  assumes "life_inv s" and "length (sl_closers s) \<le> 1" and "some_closer P s"
  shows "some_closer (\<lambda>c. P c \<and> closer_ok s c \<and> (fst c \<or> snd c = CTake)) s"
proof -
  obtain i where i: "i < length (sl_closers s)" "P (sl_closers s ! i)" using assms(3) by (auto simp: some_closer_def)
  have only: "j = i" if "j < length (sl_closers s)" for j using assms(2) i that by simp
  have ok: "closer_ok s (sl_closers s ! i)" using assms(1) i by (simp add: life_inv_def)
  obtain has pc where c: "sl_closers s ! i = (has, pc)" by force
  have "has \<or> pc = CTake"
  proof (rule ccontr)
    assume no: "\<not> (has \<or> pc = CTake)"
    then have "\<not> sl_handle s" using ok c by (cases pc) auto
    then obtain j where "j < length (sl_closers s)" "fst (sl_closers s ! j)"
      using assms(1) by (auto simp: life_inv_def some_closer_def)
    then show False using only no c by auto
  qed
  then show ?thesis using i ok c unfolding some_closer_def by (intro exI [of _ i]) simp
qed

lemma reached_all_ended: "closer_reached n pc \<Longrightarrow> closer_ok s (has, pc) \<Longrightarrow> has \<Longrightarrow> all_ended s"
  by (cases "(n, pc)" rule: closer_reached.cases) auto

section \<open>Properties\<close>

text \<open>
  C12: How a session ends.  With one call of close, nothing of the session is closed, and the session is not even marked as
  closed, before all four of its tasks have ended, and when the call is done the session is marked and the signal client and the
  transports are closed.  The call waits exactly while the task it waits for is there, also when that task handles something that never
  ends, and while the signal client sends the leave message or closes, which may never end.
  When a task has panicked the call panics with it, leaves everything open and does not mark the session; when the signal client panics,
  the session is marked and the transports stay open.
\<close>

theorem session_close_order:
  assumes "reachable life_apply life_new s" and "length (sl_closers s) \<le> 1"
  shows "(sl_closed s \<or> \<not> sl_signal_open s \<or> \<not> sl_transports_open s \<longrightarrow> all_ended s)
    \<and> (\<forall>pc. sl_closers s = [(has, pc)] \<longrightarrow>
         (pc = CDone \<longrightarrow> sl_closed s \<and> \<not> sl_signal_open s \<and> \<not> sl_transports_open s)
         \<and> (life_apply (CloserStep 0) s = None \<longleftrightarrow>
              pc \<in> {CSend, CSignal, CDone, CPanicked, CSignalPanicked} \<or> (\<exists>k. pc = CAwait k \<and> sl_tasks s ! k \<in> {TkIdle, TkBusy}))
         \<and> (life_apply (AwaitReturns 0) s \<noteq> None \<longleftrightarrow> pc \<in> {CSend, CSignal})
         \<and> (\<forall>k. pc = CAwait k \<and> sl_tasks s ! k = TkPanicked \<longrightarrow>
              life_apply (CloserStep 0) s = Some (s\<lparr>sl_closers := [(has, CPanicked)]\<rparr>))
         \<and> (pc = CPanicked \<longrightarrow> sl_transports_open s \<and> sl_signal_open s \<and> \<not> sl_closed s)
         \<and> (pc = CSignalPanicked \<longrightarrow> sl_transports_open s \<and> sl_closed s))"
proof -
  have inv: "life_inv s" by (rule lfm.reachable_inv [OF assms(1)])
  have reached: "all_ended s" if some: "some_closer (\<lambda>c. closer_reached n (snd c)) s" for n
  proof -
    obtain i has pc where "closer_reached n pc" "closer_ok s (has, pc)" "has \<or> pc = CTake"
      using single_closer [OF inv assms(2) some] unfolding some_closer_def by (metis prod.collapse)
    then show ?thesis using reached_all_ended by (cases "pc = CTake") auto
  qed
  have first: "sl_closed s \<or> \<not> sl_signal_open s \<or> \<not> sl_transports_open s \<longrightarrow> all_ended s"
    using inv reached unfolding life_inv_def by blast
  have "(pc = CDone \<longrightarrow> sl_closed s \<and> \<not> sl_signal_open s \<and> \<not> sl_transports_open s)
      \<and> (life_apply (CloserStep 0) s = None \<longleftrightarrow>
            pc \<in> {CSend, CSignal, CDone, CPanicked, CSignalPanicked} \<or> (\<exists>k. pc = CAwait k \<and> sl_tasks s ! k \<in> {TkIdle, TkBusy}))
      \<and> (life_apply (AwaitReturns 0) s \<noteq> None \<longleftrightarrow> pc \<in> {CSend, CSignal})
      \<and> (\<forall>k. pc = CAwait k \<and> sl_tasks s ! k = TkPanicked \<longrightarrow>
              life_apply (CloserStep 0) s = Some (s\<lparr>sl_closers := [(has, CPanicked)]\<rparr>))
      \<and> (pc = CPanicked \<longrightarrow> sl_transports_open s \<and> sl_signal_open s \<and> \<not> sl_closed s)
      \<and> (pc = CSignalPanicked \<longrightarrow> sl_transports_open s \<and> sl_closed s)"
    if c: "sl_closers s = [(has, pc)]" for pc
  proof -
    have ok: "closer_ok s (has, pc)" using inv c by (simp add: life_inv_def)
    have finished: "pc = CDone \<longrightarrow> sl_closed s \<and> \<not> sl_signal_open s \<and> \<not> sl_transports_open s" using ok by auto
    have blocked: "life_apply (CloserStep 0) s = None \<longleftrightarrow>
        pc \<in> {CSend, CSignal, CDone, CPanicked, CSignalPanicked} \<or> (\<exists>k. pc = CAwait k \<and> sl_tasks s ! k \<in> {TkIdle, TkBusy})"
      using c by (cases pc) (auto split: task_run.splits)
    have signal: "life_apply (AwaitReturns 0) s \<noteq> None \<longleftrightarrow> pc \<in> {CSend, CSignal}" using c by (cases pc) auto
    have panics: "pc = CAwait k \<and> sl_tasks s ! k = TkPanicked \<longrightarrow>
        life_apply (CloserStep 0) s = Some (s\<lparr>sl_closers := [(has, CPanicked)]\<rparr>)" for k
      using c by (auto simp: goto_closer_def)
    have "pc = CPanicked \<longrightarrow> \<not> some_closer (\<lambda>c. closer_reached n (snd c)) s" for n
      using c by (auto simp: some_closer_def)
    then have left: "pc = CPanicked \<longrightarrow> sl_transports_open s \<and> sl_signal_open s \<and> \<not> sl_closed s"
      using inv unfolding life_inv_def by blast
    have "pc = CSignalPanicked \<longrightarrow> \<not> some_closer (\<lambda>c. closer_reached 3 (snd c)) s" using c by (auto simp: some_closer_def)
    then have "pc = CSignalPanicked \<longrightarrow> sl_transports_open s \<and> sl_closed s" using inv ok by (auto simp: life_inv_def)
    then show ?thesis using finished blocked signal panics left by blast
  qed
  then show ?thesis using first by blast
qed

text \<open>The task that receives signal messages panics on one; then the session is closed.\<close>

definition close_after_panic :: "life_event list" where
  "close_after_panic = [TaskTakes 1, TaskPanics 1, CloseCalled, CloserStep 0, TaskStops 0, CloserStep 0, CloserStep 0]"

theorem session_close_order_witness:
  "\<exists>s. run_enabled life_apply close_after_panic life_new = Some s \<and> sl_closers s = [(True, CPanicked)]
     \<and> sl_transports_open s \<and> \<not> sl_closed s"
proof -
  let ?s = "life_new\<lparr>sl_handle := False, sl_stop := True, sl_tasks := [TkEnded, TkPanicked, TkIdle, TkIdle], sl_closers := [(True, CPanicked)]\<rparr>"
  have run: "run_enabled life_apply close_after_panic life_new = Some ?s"
    by (simp add: close_after_panic_def life_new_def set_task_def goto_closer_def numeral_eq_Suc)
  have "reachable life_apply life_new ?s"
    by (rule run_enabled_reachable [OF reachable_start run])
  then show ?thesis
    using run session_close_order [of ?s True] by simp
qed

text \<open>A session whose tasks are idle closes; and the unexpected end of the signal connection is reported meanwhile too.\<close>

lemma idle_session_closes:
  "\<exists>s. run_enabled life_apply ([CloseCalled, CloserStep 0] @ map TaskStops [0, 1, 2, 3] @ replicate 5 (CloserStep 0) @ replicate 2 (AwaitReturns 0) @ [CloserStep 0]) life_new = Some s
     \<and> sl_closers s = [(True, CDone)]"
  by (simp add: life_new_def set_task_def goto_closer_def numeral_eq_Suc)

lemma closed_is_not_seen_by_tasks:
  assumes "reachable life_apply life_new s" and "length (sl_closers s) \<le> 1" and "k < 4" and "sl_tasks s ! k \<noteq> TkEnded"
  shows "\<not> sl_closed s"
  using lfm.reachable_inv [OF assms(1)] assms(2-4) single_closer [of s "\<lambda>c. closer_reached 1 (snd c)"] reached_all_ended
  unfolding life_inv_def some_closer_def all_ended_def by (metis closer_reached.simps(6) prod.collapse)

text \<open>A second call of close does not wait: it closes the transports while a task is still handling something.\<close>

lemma second_close_does_not_wait:
  "\<exists>s. run_enabled life_apply ([TaskTakes 0, CloseCalled, CloserStep 0, CloseCalled] @ replicate 2 (CloserStep 1) @ replicate 2 (AwaitReturns 1) @ [CloserStep 1]) life_new = Some s
     \<and> \<not> sl_transports_open s \<and> sl_tasks s ! 0 = TkBusy"
  by (simp add: life_new_def set_task_def goto_closer_def numeral_eq_Suc)
end
