(* ===== verification/LkRoomLife.thy ===== *)
theory LkRoomLife
  imports LkRoom LkReliable LkSession LkDataStream DtRemote DtProto
begin

text \<open>
  The life of a room (\<open>livekit/src/room/mod.rs\<close>): joining, the media tracks and messages that reach
  it, the state sent to the server when the signal connection resumes, being moved, publishing again
  after a full reconnect, and closing.  The participants themselves are in \<open>LkRoom\<close>.
\<close>

section \<open>Media tracks\<close>

text \<open>A stream is named by a participant and a stream or track, with a bar between them.\<close>

fun split_char :: "char \<Rightarrow> string \<Rightarrow> string list" where
  "split_char c [] = [[]]"
| "split_char c (x # xs) =
     (if x = c then [] # split_char c xs
      else (case split_char c xs of [] \<Rightarrow> [[x]] | w # ws \<Rightarrow> (x # w) # ws))"

definition unpack_stream_id :: "string \<Rightarrow> (string \<times> string) option" where
  "unpack_stream_id s = (case split_char (CHR ''|'') s of [p, t] \<Rightarrow> Some (p, t) | _ \<Rightarrow> None)"

text \<open>\<open>by_mid\<close> is what the session knows of the sections of its description.\<close>

definition resolve_track_id :: "bool \<Rightarrow> (string \<Rightarrow> string option) \<Rightarrow> string option \<Rightarrow> string \<Rightarrow> string \<Rightarrow> string" where
  "resolve_track_id single_pc by_mid mid stream_id track_id =
     (if single_pc then (case Option.bind mid by_mid of Some t \<Rightarrow> t | None \<Rightarrow> track_id)
      else if from_prefix ''TR'' stream_id \<noteq> None then stream_id
      else track_id)"

definition on_media_track ::
  "bool \<Rightarrow> (string \<Rightarrow> string option) \<Rightarrow> string \<Rightarrow> string \<Rightarrow> string option \<Rightarrow> nat \<Rightarrow> room \<Rightarrow> (room \<times> room_event list) option" where
  "on_media_track single_pc by_mid stream track_id mid track r =
     (case unpack_stream_id stream of
        None \<Rightarrow> Some (r, [])
      | Some (psid, stream_id) \<Rightarrow> handle_media_track psid (resolve_track_id single_pc by_mid mid stream_id track_id) track r)"

section \<open>Messages\<close>

text \<open>
  What the application is told: the events about participants and tracks, those about the room's
  information, and the others.  Participants are named by their identity.
\<close>

datatype room_note =
    NoteConnected "(string \<times> string list) list" | NoteChat string room_chat_message | NoteDtmf u32 "string option" "string option"
  | NoteTranscription "participant_ref option" "string option" "transcription_segment list"
  | NoteLocalSubscribed nat | NoteToken string | NoteMoved room_info | NoteThreshold dp_kind u64
  | NoteStreamHeader stream_header string | NoteStreamChunk stream_chunk string | NoteStreamTrailer stream_trailer string
  | NoteStreamOpened any_stream_info string | NoteDataTrack data_track_info nat | NoteDataTrackGone data_track_sid
  | NoteRepublished string string

datatype told = ToldEvent room_event | ToldInfo info_event | ToldNote room_note

definition handle_chat_message :: "string \<Rightarrow> room_chat_message \<Rightarrow> room \<Rightarrow> room_note list" where
  "handle_chat_message identity message r =
     (if get_participant_by_identity identity r = None then [] else [NoteChat identity message])"

definition handle_dtmf :: "u32 \<Rightarrow> string option \<Rightarrow> string option \<Rightarrow> room \<Rightarrow> room_note list" where
  "handle_dtmf code digit identity r =
     (case identity of
        None \<Rightarrow> [NoteDtmf code digit None]
      | Some i \<Rightarrow> if get_participant_by_identity i r = None then [] else [NoteDtmf code digit (Some i)])"

definition get_local_or_remote_participant :: "string \<Rightarrow> room \<Rightarrow> participant_ref option" where
  "get_local_or_remote_participant i r =
     (if i = pt_identity (rm_local r) then Some LocalRef
      else if get_participant_by_identity i r = None then None else Some (RemoteRef i))"

text \<open>The identifier of the track is unwrapped: without its prefix the handler panics.\<close>

definition handle_transcription :: "string \<Rightarrow> string \<Rightarrow> transcription_segment list \<Rightarrow> room \<Rightarrow> room_note list option" where
  "handle_transcription identity track_sid segments r =
     (let participant = get_local_or_remote_participant identity r
      in (case from_prefix TRACK_PREFIX track_sid of
            None \<Rightarrow> None
          | Some sid \<Rightarrow>
              let publication = Option.bind (Option.bind participant (\<lambda>ref. deref ref r)) (\<lambda>p. hm_get (pt_publications p) sid)
              in Some [NoteTranscription participant (map_option (\<lambda>_. sid) publication) segments]))"

definition handle_track_subscribed :: "string \<Rightarrow> room \<Rightarrow> room_note list option" where
  "handle_track_subscribed track_sid r =
     (case from_prefix TRACK_PREFIX track_sid of
        None \<Rightarrow> None
      | Some sid \<Rightarrow>
         (case hm_get (pt_publications (rm_local r)) sid of
            None \<Rightarrow> Some []
          | Some p \<Rightarrow> map_option (\<lambda>t. [NoteLocalSubscribed t]) (pb_track p)))"

record channel_options =
  co_lossy :: u64
  co_reliable :: u64

fun data_channel_options :: "dp_kind \<Rightarrow> channel_options \<Rightarrow> u64" where
  "data_channel_options Lossy o' = co_lossy o'"
| "data_channel_options Reliable o' = co_reliable o'"

fun handle_buffered_low_threshold_change :: "dp_kind \<Rightarrow> u64 \<Rightarrow> channel_options \<Rightarrow> channel_options \<times> room_note list" where
  "handle_buffered_low_threshold_change Lossy t o' = (o'\<lparr>co_lossy := t\<rparr>, [NoteThreshold Lossy t])"
| "handle_buffered_low_threshold_change Reliable t o' = (o'\<lparr>co_reliable := t\<rparr>, [NoteThreshold Reliable t])"

definition handle_refresh_token :: "string \<Rightarrow> room_note list" where
  "handle_refresh_token token = [NoteToken token]"

section \<open>Being moved\<close>

definition moved_local :: "participant_info option \<Rightarrow> room \<Rightarrow> (room \<times> room_event list) option" where
  "moved_local participant r =
     (case participant of
        None \<Rightarrow> Some (r, [])
      | Some info \<Rightarrow>
         (case pt_update_info info (rm_local r) of
            None \<Rightarrow> None
          | Some (l, out) \<Rightarrow> Some (r\<lparr>rm_local := l\<rparr>, out @ [ParticipantsUpdated [pt_identity l]])))"

definition handle_room_moved ::
  "string \<Rightarrow> participant_info option \<Rightarrow> participant_info list \<Rightarrow> proto_room option \<Rightarrow> room \<Rightarrow> (room \<times> told list) option" where
  "handle_room_moved token participant others pr r =
     (case moved_local participant r of
        None \<Rightarrow> None
      | Some (r, out1) \<Rightarrow>
         (case handle_participant_update others r of
            None \<Rightarrow> None
          | Some (r, out2) \<Rightarrow>
              let (r, infos) = (case pr of None \<Rightarrow> (r, []) | Some p \<Rightarrow> handle_room_update p r)
              in Some (r, map ToldNote (handle_refresh_token token) @ map ToldEvent (out1 @ out2) @ map ToldInfo infos
                   @ [ToldNote (NoteMoved (rm_info r))])))"

section \<open>The state sent when the connection resumes\<close>

record description =
  de_sdp :: string
  de_type :: string

text \<open>What the session offers to read: the descriptions of its transports and its data channels.\<close>

record session_view =
  sv_single_pc :: bool
  sv_publisher_local :: "description option"
  sv_publisher_remote :: "description option"
  sv_subscriber :: "(description option \<times> description option) option"
  sv_has_published :: bool
  sv_lossy :: "string \<times> i32"
  sv_reliable :: "string \<times> i32"
  sv_sub_lossy :: "(string \<times> i32) option"
  sv_sub_reliable :: "(string \<times> i32) option"
  sv_receive_states :: "(string \<times> u32) list"

datatype channel_target = PublisherTarget | SubscriberTarget

record data_channel_info =
  di_label :: string
  di_id :: u32
  di_target :: channel_target

record sync_state =
  ss_answer :: "description option"
  ss_offer :: description
  ss_track_sids :: "string list"
  ss_subscribe :: bool
  ss_publish_tracks :: "(nat \<times> publication) list"
  ss_data_channels :: "data_channel_info list"
  ss_receive_states :: "(string \<times> u32) list"
  ss_data_tracks :: "proto_track_info list"

definition channel_info :: "channel_target \<Rightarrow> string \<times> i32 \<Rightarrow> data_channel_info" where
  "channel_info target c = \<lparr>di_label = fst c, di_id = ucast (snd c), di_target = target\<rparr>"

text \<open>The offer and the answer; \<open>None\<close>: nothing is sent.\<close>

definition sync_descriptions :: "session_view \<Rightarrow> (description \<times> description option) option" where
  "sync_descriptions v =
     (if sv_single_pc v then map_option (\<lambda>l. (l, sv_publisher_remote v)) (sv_publisher_local v)
      else (case sv_subscriber v of
              Some (Some l, Some rem) \<Rightarrow> Some (rem, Some l)
            | _ \<Rightarrow> None))"

definition undesired_tracks :: "room \<Rightarrow> string list" where
  "undesired_tracks r =
     concat (map (\<lambda>(_, p). map fst (filter (\<lambda>(_, pb). pb_subscribed pb \<noteq> rm_auto_subscribe r) (pt_publications p)))
       (rm_participants r))"

definition sync_channels :: "session_view \<Rightarrow> data_channel_info list" where
  "sync_channels v =
     (if sv_has_published v then [channel_info PublisherTarget (sv_lossy v), channel_info PublisherTarget (sv_reliable v)] else [])
     @ (case sv_sub_lossy v of Some c \<Rightarrow> [channel_info SubscriberTarget c] | None \<Rightarrow> [])
     @ (case sv_sub_reliable v of Some c \<Rightarrow> [channel_info SubscriberTarget c] | None \<Rightarrow> [])"

text \<open>A track of the library, which names the publication to the server, is a number.\<close>

definition published_tracks_info :: "participant \<Rightarrow> (nat \<times> publication) list" where
  "published_tracks_info p =
     concat (map (\<lambda>(_, pb). case pb_track pb of Some t \<Rightarrow> [(t, pb)] | None \<Rightarrow> []) (pt_publications p))"

definition send_sync_state :: "session_view \<Rightarrow> data_track_info list \<Rightarrow> room \<Rightarrow> sync_state option" where
  "send_sync_state v tracks r =
     map_option (\<lambda>(offer, answer).
        \<lparr>ss_answer = answer, ss_offer = offer, ss_track_sids = undesired_tracks r, ss_subscribe = (\<not> rm_auto_subscribe r),
         ss_publish_tracks = published_tracks_info (rm_local r), ss_data_channels = sync_channels v,
         ss_receive_states = sv_receive_states v, ss_data_tracks = publish_responses_for_sync_state tracks\<rparr>)
       (sync_descriptions v)"

text \<open>The state is sent, when there is one, before the engine may go on; it goes on in any case.\<close>

datatype resume_step = SendSyncState sync_state | LetEngineContinue

definition handle_signal_resumed :: "session_view \<Rightarrow> data_track_info list \<Rightarrow> room \<Rightarrow> resume_step list" where
  "handle_signal_resumed v tracks r =
     (case send_sync_state v tracks r of Some s \<Rightarrow> [SendSyncState s] | None \<Rightarrow> []) @ [LetEngineContinue]"

section \<open>Joining\<close>

record join_response =
  jr_participant :: "participant_info option"
  jr_others :: "participant_info list"
  jr_room :: "proto_room option"

definition room_info_of :: "proto_room \<Rightarrow> room_info" where
  "room_info_of pr =
     \<lparr>ri_sid = from_prefix ROOM_PREFIX (pr_sid pr), ri_metadata = pr_metadata pr, ri_name = pr_name pr,
      ri_empty_timeout = pr_empty_timeout pr, ri_departure_timeout = pr_departure_timeout pr,
      ri_max_participants = pr_max_participants pr, ri_num_participants = pr_num_participants pr,
      ri_num_publishers = pr_num_publishers pr, ri_active_recording = pr_active_recording pr,
      ri_creation_time = pr_creation_time_ms pr\<rparr>"

text \<open>
  The other participants are entered one by one.  Their events go to a dispatcher at which nobody has
  registered yet.
\<close>

definition add_initial :: "participant_info \<Rightarrow> room \<Rightarrow> room option" where
  "add_initial info r =
     (case from_prefix PARTICIPANT_PREFIX (pi_sid info) of
        None \<Rightarrow> None
      | Some _ \<Rightarrow>
         (case remote_update_info (rm_auto_subscribe r) info (new_participant info) of
            None \<Rightarrow> None
          | Some (p, _) \<Rightarrow> Some (set_participant (pi_identity info) p r)))"

fun add_initial_all :: "participant_info list \<Rightarrow> room \<Rightarrow> room option" where
  "add_initial_all [] r = Some r"
| "add_initial_all (info # infos) r = Option.bind (add_initial info r) (add_initial_all infos)"

text \<open>What the first event lists: the remote participants, with their tracks.\<close>

definition participants_with_tracks :: "room \<Rightarrow> (string \<times> string list) list" where
  "participants_with_tracks r = map (\<lambda>(_, p). (pt_identity p, hm_keys (pt_publications p))) (rm_participants r)"

definition room_new :: "bool \<Rightarrow> participant_info \<Rightarrow> proto_room \<Rightarrow> room" where
  "room_new auto_subscribe info pr =
     \<lparr>rm_local = new_participant info, rm_participants = [], rm_state = StDisconnected, rm_info = room_info_of pr,
      rm_sid_promise = None, rm_active_speakers = [], rm_auto_subscribe = auto_subscribe, rm_restarts = 0\<rparr>"

definition room_connect :: "bool \<Rightarrow> join_response \<Rightarrow> (room \<times> told list) option" where
  "room_connect auto_subscribe join =
     Option.bind (jr_participant join) (\<lambda>info.
     Option.bind (from_prefix PARTICIPANT_PREFIX (pi_sid info)) (\<lambda>_.
     Option.bind (jr_room join) (\<lambda>pr.
     Option.bind (add_initial_all (jr_others join) (room_new auto_subscribe info pr)) (\<lambda>r.
       let (r', out) = update_connection_state StConnected r
       in Some (r', ToldNote (NoteConnected (participants_with_tracks r)) # map ToldEvent out)))))"

text \<open>The identifier of the room: at once, or when the server has told it.  \<open>None\<close>: the caller waits.\<close>

definition room_sid :: "room \<Rightarrow> string option" where
  "room_sid r = (case ri_sid (rm_info r) of Some sid \<Rightarrow> Some sid | None \<Rightarrow> rm_sid_promise r)"

section \<open>Publishing again after a full reconnect\<close>

text \<open>
  Every publication is withdrawn and its track published again, all at the same time: the list gives
  the previous identifiers with the answers of the server in the order in which they come, and the track is
  missing (\<open>None\<close>) where the publication was withdrawn meanwhile, which panics and ends the task.
\<close>

fun republish_all :: "(string \<times> string option option) list \<Rightarrow> room_note list" where
  "republish_all [] = []"
| "republish_all ((previous, Some (Some sid)) # rs) = NoteRepublished previous sid # republish_all rs"
| "republish_all ((previous, _) # rs) = republish_all rs"

definition restart_task :: "(string \<times> string option option) list \<Rightarrow> room \<Rightarrow> (room \<times> told list) option" where
  "restart_task rs r =
     (if list_ex (\<lambda>(_, a). a = None) rs then None
      else let (r, out) = restart_completed r in Some (r, map ToldNote (republish_all rs) @ map ToldEvent out))"

section \<open>Streams and data tracks\<close>

text \<open>The packets of a data stream go to the manager of the incoming streams, and as events to the application.\<close>

definition handle_data_stream_header ::
  "stream_env \<Rightarrow> stream_header \<Rightarrow> string \<Rightarrow> stream_encryption \<Rightarrow> incoming_manager \<times> room \<Rightarrow> (incoming_manager \<times> room) \<times> told list" where
  "handle_data_stream_header env header identity encryption = (\<lambda>(m, r).
     case mark_data identity encryption r of
       (r', out) \<Rightarrow> ((handle_header env header identity encryption m, r'), map ToldEvent out @ [ToldNote (NoteStreamHeader header identity)]))"

definition handle_data_stream_chunk ::
  "stream_chunk \<Rightarrow> string \<Rightarrow> stream_encryption \<Rightarrow> incoming_manager \<Rightarrow> incoming_manager \<times> room_note list" where
  "handle_data_stream_chunk chunk identity encryption m = (handle_chunk chunk encryption m, [NoteStreamChunk chunk identity])"

definition handle_data_stream_trailer :: "stream_trailer \<Rightarrow> string \<Rightarrow> incoming_manager \<Rightarrow> incoming_manager \<times> room_note list" where
  "handle_data_stream_trailer trailer identity m = (handle_trailer trailer m, [NoteStreamTrailer trailer identity])"

text \<open>The task that announces new streams: one event for every channel that the manager has opened since, if it listens.\<close>

definition incoming_data_stream_task :: "nat \<Rightarrow> incoming_manager \<Rightarrow> room_note list" where
  "incoming_data_stream_task n m =
     map (\<lambda>ch. NoteStreamOpened (ch_info ch) (ch_identity ch)) (if im_listening m then drop n (im_channels m) else [])"

text \<open>What the manager of the remote data tracks says: events for the application, and subscriptions for the server.\<close>

fun remote_dt_forward :: "remote_output \<Rightarrow> room_note list \<times> (data_track_sid \<times> bool) list" where
  "remote_dt_forward (remote_output.TrackPublished info identity track) = ([NoteDataTrack info track], [])"
| "remote_dt_forward (TrackUnpublishedOut sid) = ([NoteDataTrackGone sid], [])"
| "remote_dt_forward (SfuUpdateSubscription sid subscribe) = ([], [(sid, subscribe)])"
| "remote_dt_forward _ = ([], [])"

section \<open>Facts\<close>

lemma split_char_not_Nil [simp]: "split_char c s \<noteq> []"
  by (induction s) (auto split: list.splits)

lemma split_char_free: "c \<notin> set s \<Longrightarrow> split_char c s = [s]"
  by (induction s) auto

lemma split_char_append: "c \<notin> set p \<Longrightarrow> split_char c (p @ c # s) = p # split_char c s"
  by (induction p) auto

lemma split_char_ConsD: "split_char c s = w # ws \<Longrightarrow> c \<notin> set w \<and> (if ws = [] then s = w else \<exists>s'. s = w @ c # s' \<and> split_char c s' = ws)"
proof (induction s arbitrary: w ws)
  case Nil
  then show ?case by simp
next
  case (Cons x xs)
  obtain v vs where v: "split_char c xs = v # vs" by (cases "split_char c xs") simp_all
  show ?case
  proof (cases "x = c")
    case True
    then show ?thesis using Cons.prems v by auto
  next
    case False
    then have "w = x # v" "ws = vs" using Cons.prems v by simp_all
    then show ?thesis using Cons.IH [OF v] False by auto
  qed
qed

lemma unpack_stream_id_iff:
  "unpack_stream_id s = Some (p, t) \<longleftrightarrow> s = p @ CHR ''|'' # t \<and> CHR ''|'' \<notin> set p \<and> CHR ''|'' \<notin> set t"
proof
  assume "unpack_stream_id s = Some (p, t)"
  then have s: "split_char (CHR ''|'') s = [p, t]" by (auto simp: unpack_stream_id_def split: list.splits)
  from split_char_ConsD [OF s] obtain s' where s': "CHR ''|'' \<notin> set p" "s = p @ CHR ''|'' # s'" "split_char (CHR ''|'') s' = [t]"
    by auto
  from split_char_ConsD [OF s'(3)] s'(1,2) show "s = p @ CHR ''|'' # t \<and> CHR ''|'' \<notin> set p \<and> CHR ''|'' \<notin> set t" by simp
next
  assume "s = p @ CHR ''|'' # t \<and> CHR ''|'' \<notin> set p \<and> CHR ''|'' \<notin> set t"
  then show "unpack_stream_id s = Some (p, t)" by (simp add: unpack_stream_id_def split_char_append split_char_free)
qed

text \<open>A track finds its publication when the session has only the stream's name to go by.\<close>

lemma track_found_by_stream:
  assumes "CHR ''|'' \<notin> set psid" and "CHR ''|'' \<notin> set tsid" and "from_prefix TRACK_PREFIX tsid \<noteq> None"
  shows "on_media_track False by_mid (psid @ CHR ''|'' # tsid) track_id mid track r = handle_media_track psid tsid track r"
proof -
  have "unpack_stream_id (psid @ CHR ''|'' # tsid) = Some (psid, tsid)" using assms by (simp add: unpack_stream_id_iff)
  moreover have "from_prefix ''TR'' tsid \<noteq> None"
    using assms(3) by (cases tsid; cases "tl tsid") (auto simp: from_prefix_def TRACK_PREFIX_def split: if_splits)
  ultimately show ?thesis by (simp add: on_media_track_def resolve_track_id_def)
qed

lemma follows_on_media_track:
  assumes "room_inv idof r" and "on_media_track single_pc by_mid stream track_id mid track r = Some (r', out)"
  shows "follows idof r r' out"
  using assms follows_media_track by (auto simp: on_media_track_def follows_same split: option.splits)

section \<open>What the server is told\<close>

lemma in_concat_values: "x \<in> set (concat (map (\<lambda>(_, p). g p) m)) \<longleftrightarrow> (\<exists>k p. (k, p) \<in> set m \<and> x \<in> set (g p))"
  by (induction m) auto

lemma in_filtered_keys: "x \<in> set (map fst (filter (\<lambda>(_, v). Q v) m)) \<longleftrightarrow> (\<exists>v. (x, v) \<in> set m \<and> Q v)"
  by (induction m) auto

lemma undesired_iff:
  "sid \<in> set (undesired_tracks r) \<longleftrightarrow>
    (\<exists>k p pb. (k, p) \<in> set (rm_participants r) \<and> (sid, pb) \<in> set (pt_publications p) \<and> pb_subscribed pb \<noteq> rm_auto_subscribe r)"
  unfolding undesired_tracks_def in_concat_values in_filtered_keys by blast

lemma sync_state_needs:
  "send_sync_state v tracks r = None \<longleftrightarrow>
    (if sv_single_pc v then sv_publisher_local v = None
     else sv_subscriber v = None \<or> (\<exists>rem. sv_subscriber v = Some (None, rem)) \<or> (\<exists>l. sv_subscriber v = Some (l, None)))"
  by (auto simp: send_sync_state_def sync_descriptions_def split: option.splits)

lemma engine_always_continues: "last (handle_signal_resumed v tracks r) = LetEngineContinue"
  by (simp add: handle_signal_resumed_def)

text \<open>The encryption status of a stream's sender is followed like that of its other data.\<close>

lemma follows_stream_header:
  assumes "room_inv idof r" and "handle_data_stream_header env header identity encryption (m, r) = ((m', r'), out)"
  shows "\<exists>evs. out = map ToldEvent evs @ [ToldNote (NoteStreamHeader header identity)] \<and> follows idof r r' evs"
  using assms follows_mark_data [OF assms(1)] by (auto simp: handle_data_stream_header_def split: prod.splits)

text \<open>A stream is announced once, when its header opens it: not when the header repeats or cannot be read.\<close>

lemma stream_announced_once:
  assumes "im_listening m"
  shows "incoming_data_stream_task (length (im_channels m)) (handle_header env header identity encryption m) =
    (case any_info_try_from env header encryption of
       Ok info \<Rightarrow> if hm_contains (im_open_streams m) (info_id info) then [] else [NoteStreamOpened info identity]
     | _ \<Rightarrow> [])"
  using assms by (auto simp: incoming_data_stream_task_def handle_header_def split: outcome.split)

section \<open>Closing\<close>

text \<open>
  The steps of a call of \<open>close\<close>.  It takes the handle, withdraws the tracks it finds, closes the engine, turns the
  encryption off, tells the tasks, waits for each in turn and forgets the listeners.  A call that
  finds no handle returns an error.  Withdrawing a track panics when it has no transceiver any more, closing the engine when a task of the
  session has panicked, waiting for a task of the room when that one has.  The call drops the handle then, which tells the
  tasks as well.
\<close>

datatype panic_cause = OfTrack string | OfEngine | OfTask nat

datatype close_pc =
    KTake | KUnpublish "string list" | KEngine | KEngineCloses | KCleanup | KTell | KAwait nat | KDone | KAlreadyClosed | KPanicked panic_cause

text \<open>
  The tasks in the order in which they are awaited: incoming and outgoing streams, the forwarding tasks of the local
  and remote data tracks each with the manager it serves, and the room task.  \<open>rc_shutdown\<close>: which
  manager has been sent its last event.  The engine's queue may grow until the end and beyond, and other calls publish and
  withdraw tracks meanwhile; \<open>rc_late\<close> is for the statements only: what was published after a call had taken the handle.
\<close>

datatype room_task = RtRunning | RtEnded | RtPanicked

record room_closing =
  rc_handle :: bool
  rc_publications :: "string list"
  rc_late :: "string list"
  rc_engine_open :: bool
  rc_e2ee_on :: bool
  rc_told :: bool
  rc_tasks :: "room_task list"
  rc_shutdown :: "bool \<times> bool"
  rc_events :: "room_input list"
  rc_room :: room
  rc_log :: "room_event list"
  rc_listeners :: bool
  rc_closers :: "(disconnect_reason \<times> close_pc) list"

datatype closing_event =
    RoomCloseCalled disconnect_reason | RoomCloserStep nat | EngineSends room_input
  | RoomTaskTakes room "room_event list" | RoomTaskStops nat | RepublishEnds
  | RoomTaskPanics nat | ForwardEnds nat | EngineCloseReturns nat | EngineClosePanics nat | UnpublishPanics nat
  | PublicationAdded string | PublicationGone string | RepublishPanics

definition goto_close :: "nat \<Rightarrow> disconnect_reason \<Rightarrow> close_pc \<Rightarrow> room_closing \<Rightarrow> room_closing" where
  "goto_close i reason pc s = s\<lparr>rc_closers := (rc_closers s)[i := (reason, pc)]\<rparr>"

fun close_step :: "nat \<Rightarrow> disconnect_reason \<Rightarrow> close_pc \<Rightarrow> room_closing \<Rightarrow> room_closing option" where
  "close_step i reason KTake s =
     Some (if rc_handle s then goto_close i reason (KUnpublish (rc_publications s)) (s\<lparr>rc_handle := False\<rparr>)
           else goto_close i reason KAlreadyClosed s)"
| "close_step i reason (KUnpublish []) s = Some (goto_close i reason KEngine s)"
| "close_step i reason (KUnpublish (sid # sids)) s =
     Some (goto_close i reason (KUnpublish sids) (s\<lparr>rc_publications := filter (\<lambda>x. x \<noteq> sid) (rc_publications s)\<rparr>))"
| "close_step i reason KEngine s =
     Some (goto_close i reason KEngineCloses (s\<lparr>rc_engine_open := False\<rparr>))"
| "close_step i reason KEngineCloses s = None"
| "close_step i reason KCleanup s = Some (goto_close i reason KTell (s\<lparr>rc_e2ee_on := False\<rparr>))"
| "close_step i reason KTell s = Some (goto_close i reason (KAwait 0) (s\<lparr>rc_told := True\<rparr>))"
| "close_step i reason (KAwait k) s =
     (if k < length (rc_tasks s)
      then (case rc_tasks s ! k of
              RtRunning \<Rightarrow> None
            | RtEnded \<Rightarrow> Some (goto_close i reason (KAwait (Suc k)) s)
            | RtPanicked \<Rightarrow> Some (goto_close i reason (KPanicked (OfTask k)) s))
      else Some (goto_close i reason KDone (s\<lparr>rc_listeners := False\<rparr>)))"
| "close_step i reason KDone s = None"
| "close_step i reason KAlreadyClosed s = None"
| "close_step i reason (KPanicked cause) s = None"

text \<open>
  The engine is closed when its session is, and announces it then.  When that panics, or when withdrawing a track does, nothing that follows is
  done: the encryption stays on and nothing is announced.
\<close>

definition engine_close_returns :: "nat \<Rightarrow> room_closing \<Rightarrow> room_closing option" where
  "engine_close_returns i s =
     (if i < length (rc_closers s) then
        (case rc_closers s ! i of
           (reason, KEngineCloses) \<Rightarrow>
             Some (goto_close i reason KCleanup (s\<lparr>rc_events := rc_events s @ [RiEngine (engine_event.Disconnected reason)]\<rparr>))
         | _ \<Rightarrow> None)
      else None)"

definition engine_close_panics :: "nat \<Rightarrow> room_closing \<Rightarrow> room_closing option" where
  "engine_close_panics i s =
     (if i < length (rc_closers s) then
        (case rc_closers s ! i of
           (reason, KEngineCloses) \<Rightarrow> Some (goto_close i reason (KPanicked OfEngine) (s\<lparr>rc_told := True\<rparr>))
         | _ \<Rightarrow> None)
      else None)"

definition unpublish_panics :: "nat \<Rightarrow> room_closing \<Rightarrow> room_closing option" where
  "unpublish_panics i s =
     (if i < length (rc_closers s) then
        (case rc_closers s ! i of
           (reason, KUnpublish (sid # sids)) \<Rightarrow>
             if sid \<in> set (rc_publications s)
             then Some (goto_close i reason (KPanicked (OfTrack sid))
               (s\<lparr>rc_publications := filter (\<lambda>x. x \<noteq> sid) (rc_publications s), rc_told := True\<rparr>))
             else None
         | _ \<Rightarrow> None)
      else None)"

text \<open>
  The room task has a task handle each event and waits for it; \<open>r\<close> and \<open>out\<close> are what a handler that panics has
  done by then, and the room task panics with it.  Being disconnected by anything but the client calls \<open>close\<close>.
\<close>

definition close_calls :: "room_input \<Rightarrow> (disconnect_reason \<times> close_pc) list" where
  "close_calls x =
     (case x of RiEngine (engine_event.Disconnected reason) \<Rightarrow> if reason = ClientInitiated then [] else [(reason, KTake)] | _ \<Rightarrow> [])"

definition say :: "room_event list \<Rightarrow> room_closing \<Rightarrow> room_closing" where
  "say out s = (if rc_listeners s then s\<lparr>rc_log := rc_log s @ out\<rparr> else s)"

definition room_task_takes :: "room \<Rightarrow> room_event list \<Rightarrow> room_closing \<Rightarrow> room_closing option" where
  "room_task_takes r out s =
     (case rc_events s of
        [] \<Rightarrow> None
      | x # xs \<Rightarrow>
          if rc_tasks s ! 6 \<noteq> RtRunning then None
          else Some
           (case room_apply x (rc_room s) of
              Some (r', out') \<Rightarrow> say out' (s\<lparr>rc_events := xs, rc_room := r', rc_closers := rc_closers s @ close_calls x\<rparr>)
            | None \<Rightarrow> say out (s\<lparr>rc_events := xs, rc_room := r, rc_tasks := (rc_tasks s)[6 := RtPanicked]\<rparr>)))"

text \<open>The task that publishes the tracks again is nobody's to wait for.\<close>

definition republish_ends :: "room_closing \<Rightarrow> room_closing option" where
  "republish_ends s =
     (if 0 < rm_restarts (rc_room s)
      then (case restart_completed (rc_room s) of (r, out) \<Rightarrow> Some (say out (s\<lparr>rc_room := r\<rparr>)))
      else None)"

definition republish_panics :: "room_closing \<Rightarrow> room_closing option" where
  "republish_panics s = (if 0 < rm_restarts (rc_room s) then Some (s\<lparr>rc_room := restart_panicked (rc_room s)\<rparr>) else None)"

text \<open>Other calls publish a track or withdraw one.\<close>

definition publication_added :: "string \<Rightarrow> room_closing \<Rightarrow> room_closing" where
  "publication_added sid s =
     s\<lparr>rc_publications := rc_publications s @ [sid], rc_late := (if rc_handle s then rc_late s else rc_late s @ [sid])\<rparr>"

definition publication_gone :: "string \<Rightarrow> room_closing \<Rightarrow> room_closing" where
  "publication_gone sid s = s\<lparr>rc_publications := filter (\<lambda>x. x \<noteq> sid) (rc_publications s)\<rparr>"

text \<open>A manager stops when its last event has come, any other task when it is told to.\<close>

definition may_stop :: "nat \<Rightarrow> room_closing \<Rightarrow> bool" where
  "may_stop k s \<longleftrightarrow> (if k = 3 then fst (rc_shutdown s) else if k = 5 then snd (rc_shutdown s) else rc_told s)"

definition room_task_stops :: "nat \<Rightarrow> room_closing \<Rightarrow> room_closing option" where
  "room_task_stops k s =
     (if k < length (rc_tasks s) \<and> rc_tasks s ! k = RtRunning \<and> may_stop k s
      then Some (s\<lparr>rc_tasks := (rc_tasks s)[k := RtEnded],
                   rc_shutdown := (fst (rc_shutdown s) \<or> k = 2, snd (rc_shutdown s) \<or> k = 4)\<rparr>)
      else None)"

text \<open>The tasks but the last panic by themselves; a forwarding task ends with its manager, and then sends it nothing.\<close>

definition room_task_panics :: "nat \<Rightarrow> room_closing \<Rightarrow> room_closing option" where
  "room_task_panics k s =
     (if k < 6 \<and> rc_tasks s ! k = RtRunning then Some (s\<lparr>rc_tasks := (rc_tasks s)[k := RtPanicked]\<rparr>) else None)"

definition forward_ends :: "nat \<Rightarrow> room_closing \<Rightarrow> room_closing option" where
  "forward_ends k s =
     (if (k = 2 \<or> k = 4) \<and> rc_tasks s ! k = RtRunning \<and> rc_tasks s ! Suc k \<noteq> RtRunning
      then Some (s\<lparr>rc_tasks := (rc_tasks s)[k := RtEnded]\<rparr>)
      else None)"

fun closing_apply :: "closing_event \<Rightarrow> room_closing \<Rightarrow> room_closing option" where
  "closing_apply (RoomCloseCalled reason) s = Some (s\<lparr>rc_closers := rc_closers s @ [(reason, KTake)]\<rparr>)"
| "closing_apply (RoomCloserStep i) s =
     (if i < length (rc_closers s) then (case rc_closers s ! i of (reason, pc) \<Rightarrow> close_step i reason pc s) else None)"
| "closing_apply (EngineSends x) s = (if x = RiRestartCompleted \<or> x = RiRestartPanicked then None else Some (s\<lparr>rc_events := rc_events s @ [x]\<rparr>))"
| "closing_apply (RoomTaskTakes r out) s = room_task_takes r out s"
| "closing_apply (RoomTaskStops k) s = room_task_stops k s"
| "closing_apply RepublishEnds s = republish_ends s"
| "closing_apply (RoomTaskPanics k) s = room_task_panics k s"
| "closing_apply (ForwardEnds k) s = forward_ends k s"
| "closing_apply (EngineCloseReturns i) s = engine_close_returns i s"
| "closing_apply (EngineClosePanics i) s = engine_close_panics i s"
| "closing_apply (UnpublishPanics i) s = unpublish_panics i s"
| "closing_apply (PublicationAdded sid) s = Some (publication_added sid s)"
| "closing_apply (PublicationGone sid) s = Some (publication_gone sid s)"
| "closing_apply RepublishPanics s = republish_panics s"

definition closing_new :: "string list \<Rightarrow> room \<Rightarrow> room_closing" where
  "closing_new sids r =
     \<lparr>rc_handle = True, rc_publications = sids, rc_late = [], rc_engine_open = True, rc_e2ee_on = True, rc_told = False,
      rc_tasks = replicate 7 RtRunning, rc_shutdown = (False, False), rc_events = [], rc_room = r, rc_log = [], rc_listeners = True,
      rc_closers = []\<rparr>"

section \<open>What holds while closing\<close>




































lemma say_fields [simp]:
  "rc_publications (say out s) = rc_publications s" "rc_late (say out s) = rc_late s" "rc_engine_open (say out s) = rc_engine_open s" "rc_e2ee_on (say out s) = rc_e2ee_on s"
  "rc_told (say out s) = rc_told s" "rc_listeners (say out s) = rc_listeners s" "rc_tasks (say out s) = rc_tasks s"
  "rc_shutdown (say out s) = rc_shutdown s" "rc_handle (say out s) = rc_handle s" "rc_closers (say out s) = rc_closers s"
  by (simp_all add: say_def)








section \<open>A close call finishes\<close>










text \<open>Once the events are forwarded no more, what the engine said last stays in its queue: the application may never hear of it.\<close>

definition silent_close :: "closing_event list" where
  "silent_close =
     [RoomCloseCalled ClientInitiated] @ replicate 3 (RoomCloserStep 0) @ [EngineCloseReturns 0] @ replicate 2 (RoomCloserStep 0) @
       map RoomTaskStops [0..<7] @ replicate 8 (RoomCloserStep 0)"

definition announced_close :: "room \<Rightarrow> closing_event list" where
  "announced_close r =
     [RoomCloseCalled ClientInitiated] @ replicate 3 (RoomCloserStep 0) @ [EngineCloseReturns 0, RoomTaskTakes r []] @ replicate 2 (RoomCloserStep 0) @
       map RoomTaskStops [0..<7] @ replicate 8 (RoomCloserStep 0)"


text \<open>A task of the session has panicked: closing the engine panics, nothing is announced, and every further call finds no handle.\<close>

definition engine_panicked_close :: "closing_event list" where
  "engine_panicked_close =
     [RoomCloseCalled ClientInitiated] @ replicate 3 (RoomCloserStep 0) @ [EngineClosePanics 0] @ map RoomTaskStops [0..<7] @
       [RoomCloseCalled ClientInitiated, RoomCloserStep 1]"

lemma close_events:
  "run_enabled closing_apply silent_close (closing_new [] r) =
    Some ((closing_new [] r)\<lparr>rc_handle := False, rc_engine_open := False, rc_e2ee_on := False, rc_told := True, rc_tasks := replicate 7 RtEnded,
      rc_shutdown := (True, True), rc_events := [RiEngine (engine_event.Disconnected ClientInitiated)], rc_listeners := False,
      rc_closers := [(ClientInitiated, KDone)]\<rparr>)"
  "run_enabled closing_apply (announced_close r) (closing_new [] r) =
    Some ((closing_new [] r)\<lparr>rc_handle := False, rc_engine_open := False, rc_e2ee_on := False, rc_told := True, rc_tasks := replicate 7 RtEnded,
      rc_shutdown := (True, True), rc_room := fst (handle_disconnected ClientInitiated r),
      rc_log := snd (handle_disconnected ClientInitiated r), rc_listeners := False, rc_closers := [(ClientInitiated, KDone)]\<rparr>)"
  by (simp_all add: silent_close_def announced_close_def closing_new_def goto_close_def engine_close_returns_def room_task_stops_def may_stop_def room_task_takes_def
      say_def close_calls_def upt_rec numeral_eq_Suc split: prod.split)

lemma closing_may_be_silent:
  assumes "rm_state r = StConnected"
  shows "\<exists>s. reachable closing_apply (closing_new [] r) s \<and> rc_closers s = [(ClientInitiated, KDone)] \<and> rc_log s = [] \<and>
      rm_state (rc_room s) = StConnected"
    and "\<exists>s. reachable closing_apply (closing_new [] r) s \<and> rc_closers s = [(ClientInitiated, KDone)] \<and>
      rc_log s = [ConnectionStateChanged StDisconnected, RoomDisconnected ClientInitiated] \<and> rm_state (rc_room s) = StDisconnected"
  using assms run_enabled_reachable [OF reachable_start close_events(1) [of r]] run_enabled_reachable [OF reachable_start close_events(2) [of r]]
  by (auto simp: handle_disconnected_def update_connection_state_def closing_new_def)


lemma engine_panicked_events:
  "run_enabled closing_apply engine_panicked_close (closing_new [] r) =
    Some ((closing_new [] r)\<lparr>rc_handle := False, rc_engine_open := False, rc_told := True, rc_tasks := replicate 7 RtEnded,
      rc_shutdown := (True, True), rc_closers := [(ClientInitiated, KPanicked OfEngine), (ClientInitiated, KAlreadyClosed)]\<rparr>)"
  by (simp add: engine_panicked_close_def closing_new_def goto_close_def engine_close_panics_def room_task_stops_def may_stop_def upt_rec
      numeral_eq_Suc)

text \<open>A late republishing task makes a closed room connected again.\<close>

lemma connected_after_close:
  assumes "rm_state r = StConnected"
  shows "\<exists>s. run_enabled closing_apply ([EngineSends (RiEngine Restarted), RoomTaskTakes r []] @ announced_close r @ [RepublishEnds]) (closing_new [] r) = Some s \<and>
    rc_closers s = [(ClientInitiated, KDone)] \<and> rm_state (rc_room s) = StConnected \<and> RoomReconnected \<notin> set (rc_log s)"
  using assms
  by (simp add: announced_close_def closing_new_def goto_close_def engine_close_returns_def room_task_stops_def may_stop_def room_task_takes_def
      say_def close_calls_def upt_rec numeral_eq_Suc handle_restarted_def handle_disconnected_def update_connection_state_def
      republish_ends_def restart_completed_def)

section \<open>Joining tells everything\<close>

definition snapshot_view :: "(string \<times> string list) list \<Rightarrow> room_view" where
  "snapshot_view snap = map_of (map (\<lambda>(i, sids). (i, set sids)) snap)"

lemma snapshot_of_room:
  assumes "room_inv idof r"
  shows "snapshot_view (participants_with_tracks r) = room_view r"
proof
  fix i
  have ids: "pt_identity p = k" if "(k, p) \<in> set (rm_participants r)" for k p
    using that assms by (auto simp: room_inv_def hm_in_set)
  have "map_of (map ((\<lambda>(i, sids). (i, set sids)) \<circ> (\<lambda>(_, p). (pt_identity p, hm_keys (pt_publications p)))) m) i
      = map_option tracks_of (map_of m i)" if "\<And>k p. (k, p) \<in> set m \<Longrightarrow> pt_identity p = k" for m :: "(string, participant) hashmap"
    using that by (induction m) (force simp: tracks_of_def hm_keys_def dom_map_of_conv_image_fst)+
  from this [OF ids] show "snapshot_view (participants_with_tracks r) i = room_view r i"
    by (simp add: snapshot_view_def participants_with_tracks_def room_view_def)
qed

definition listed :: "participant_info \<Rightarrow> room_view \<Rightarrow> room_view" where
  "listed info v = v(pi_identity info := Some (set (map ti_sid (pi_tracks info))))"

lemma add_initial_inv:
  assumes "room_inv idof r" and "pi_identity info = idof (pi_sid info)" and "add_initial info r = Some r'"
  shows "room_inv idof r' \<and> rm_state r' = rm_state r \<and> rm_local r' = rm_local r \<and> rm_restarts r' = rm_restarts r \<and>
    room_view r' = listed info (room_view r)"
proof -
  from assms(3) obtain p out where u: "remote_update_info (rm_auto_subscribe r) info (new_participant info) = Some (p, out)"
    "r' = set_participant (pi_identity info) p r"
    by (auto simp: add_initial_def split: option.splits)
  have new: "pt_identity (new_participant info) = pi_identity info" "pt_inv (new_participant info)"
    by (simp_all add: new_participant_def participant_new_def pt_inv_def)
  note e = remote_update_info_step [OF u(1) new(1) [symmetric]]
  show ?thesis using e new u(2) assms(1,2) by (auto simp: listed_def intro: room_inv_set_participant)
qed

lemma add_initial_all_inv:
  "room_inv idof r \<Longrightarrow> infos_ok idof infos \<Longrightarrow> add_initial_all infos r = Some r' \<Longrightarrow>
    room_inv idof r' \<and> rm_state r' = rm_state r \<and> rm_local r' = rm_local r \<and> rm_restarts r' = rm_restarts r \<and>
    room_view r' = fold listed infos (room_view r)"
proof (induction infos arbitrary: r)
  case Nil
  then show ?case by simp
next
  case (Cons info infos)
  then obtain r1 where r1: "add_initial info r = Some r1" "add_initial_all infos r1 = Some r'" by (auto simp: bind_eq_Some_conv)
  have e: "room_inv idof r1 \<and> rm_state r1 = rm_state r \<and> rm_local r1 = rm_local r \<and> rm_restarts r1 = rm_restarts r \<and>
    room_view r1 = listed info (room_view r)"
    using Cons.prems by (intro add_initial_inv [OF _ _ r1(1)]) (simp_all add: infos_ok_def)
  have "room_inv idof r' \<and> rm_state r' = rm_state r1 \<and> rm_local r' = rm_local r1 \<and> rm_restarts r' = rm_restarts r1 \<and>
    room_view r' = fold listed infos (room_view r1)"
    using Cons.IH [OF _ _ r1(2)] e Cons.prems(2) by (simp add: infos_ok_def)
  then show ?case using e by simp
qed

lemma add_initial_all_total: "list_all valid_info infos \<Longrightarrow> add_initial_all infos r \<noteq> None"
proof (induction infos arbitrary: r)
  case Nil
  then show ?case by simp
next
  case (Cons info infos)
  then have "remote_update_info (rm_auto_subscribe r) info (new_participant info) \<noteq> None"
    by (intro remote_update_info_total) simp
  then show ?case using Cons by (auto simp: add_initial_def valid_info_def split: option.splits)
qed

lemma connected_room:
  assumes "infos_ok idof (jr_others join)" and "room_connect auto_subscribe join = Some (r, told)"
  shows "room_inv idof r \<and> rm_state r = StConnected \<and>
    told = [ToldNote (NoteConnected (participants_with_tracks r)), ToldEvent (ConnectionStateChanged StConnected)] \<and>
    room_view r = fold listed (jr_others join) Map.empty"
proof -
  from assms(2) obtain info pr r1 where s: "add_initial_all (jr_others join) (room_new auto_subscribe info pr) = Some r1"
    and r: "(case update_connection_state StConnected r1 of
       (r', out) \<Rightarrow> Some (r', ToldNote (NoteConnected (participants_with_tracks r1)) # map ToldEvent out)) = Some (r, told)"
    unfolding room_connect_def Let_def bind_eq_Some_conv by blast
  have new: "room_inv idof (room_new auto_subscribe info pr)" "room_view (room_new auto_subscribe info pr) = Map.empty"
    by (simp_all add: room_inv_def room_view_def room_new_def fun_eq_iff)
  note e = add_initial_all_inv [OF new(1) assms(1) s]
  have "rm_state r1 = StDisconnected" using e by (simp add: room_new_def)
  then have "r = r1\<lparr>rm_state := StConnected\<rparr>"
    "told = [ToldNote (NoteConnected (participants_with_tracks r1)), ToldEvent (ConnectionStateChanged StConnected)]"
    using r by (simp_all add: update_connection_state_def)
  then show ?thesis using e new(2) by (simp add: room_inv_def room_view_def participants_with_tracks_def)
qed

lemma room_connect_total:
  assumes "jr_participant join = Some info" and "valid_info info" and "jr_room join = Some pr" and "list_all valid_info (jr_others join)"
  shows "room_connect auto_subscribe join \<noteq> None"
proof -
  obtain r where "add_initial_all (jr_others join) (room_new auto_subscribe info pr) = Some r"
    using add_initial_all_total [OF assms(4)] by blast
  then show ?thesis using assms(1-3) by (auto simp: room_connect_def valid_info_def split: prod.split)
qed

text \<open>Being moved is an update as any other: the listener stays right, and nobody leaves who is not said to.\<close>

fun told_events :: "told list \<Rightarrow> room_event list" where
  "told_events [] = []"
| "told_events (ToldEvent e # ts) = e # told_events ts"
| "told_events (_ # ts) = told_events ts"

lemma told_events_simps [simp]:
  "told_events (xs @ ys) = told_events xs @ told_events ys" "told_events (map ToldEvent es) = es"
  "told_events (map ToldInfo is) = []" "told_events (map ToldNote ns) = []"
proof -
  show "told_events (xs @ ys) = told_events xs @ told_events ys" by (induction xs rule: told_events.induct) simp_all
  show "told_events (map ToldEvent es) = es" by (induction es) simp_all
  show "told_events (map ToldInfo is) = []" by (induction "is") simp_all
  show "told_events (map ToldNote ns) = []" by (induction ns) simp_all
qed

lemma room_update_keeps: "handle_room_update p r = (r', infos) \<Longrightarrow> rm_participants r' = rm_participants r"
  using handle_room_update_fields(1) [of p r] by simp

lemma follows_moved:
  assumes inv: "room_inv idof r" and ok: "infos_ok idof others" and res: "handle_room_moved token participant others pr r = Some (r', out)"
  shows "follows idof r r' (told_events out)"
proof -
  from res obtain r1 out1 r2 out2 where u: "moved_local participant r = Some (r1, out1)" "handle_participant_update others r1 = Some (r2, out2)"
    "rm_participants r' = rm_participants r2" "told_events out = out1 @ out2"
    by (cases pr) (auto simp: handle_room_moved_def Let_def handle_refresh_token_def split: option.splits prod.splits
        dest!: room_update_keeps)
  have "list_all silent out1 \<and> rm_participants r1 = rm_participants r"
    using u(1) by (auto simp: moved_local_def split: option.splits dest: pt_update_info_fields)
  then have f1: "follows idof r r1 out1" using inv by (intro follows_same) auto
  then have "room_inv idof r1" by (simp add: follows_def)
  note e = handle_participant_update_effect [OF this ok [unfolded infos_ok_def] u(2)]
  have "follows idof r1 r' out2" using e u(3) by (simp add: follows_def update_effect_def room_inv_def room_view_def)
  then show ?thesis using follows_trans [OF f1] u(4) by simp
qed

section \<open>Properties\<close>

text \<open>
  C17: From joining on, the application can know who is there.  As long as the server gives no identifier to two
  identities, a room that has been joined says first which participants it has, with their tracks, then that it is connected; and a
  listener that starts from that list and follows the events of any later run has exactly
  the participants of the room and their published tracks, which at the beginning are those of the join response.
\<close>

theorem application_knows_the_room:
  assumes "infos_ok idof (jr_others join)" and "room_connect auto_subscribe join = Some (r0, told)"
    and "list_all (input_ok idof) xs" and "room_run xs r0 = Some (r, out)"
  shows "\<exists>snap. told = [ToldNote (NoteConnected snap), ToldEvent (ConnectionStateChanged StConnected)] \<and>
    snapshot_view snap = fold listed (jr_others join) Map.empty \<and>
    room_view r = view_events out (snapshot_view snap)"
proof -
  note c = connected_room [OF assms(1,2)]
  have inv: "room_inv idof r0" using c by simp
  have "room_view r = view_events out (room_view r0)" using follows_run [OF inv assms(3,4)] by (simp add: follows_def)
  then show ?thesis using c snapshot_of_room [OF inv] by (intro exI [of _ "participants_with_tracks r0"]) simp
qed

definition joined_bob :: join_response where
  "joined_bob = \<lparr>jr_participant = Some (info_named ''PA_a'' ''ann'' PsActive []), jr_others = [bob_info],
     jr_room = Some \<lparr>pr_sid = ''RM_r'', pr_metadata = [], pr_name = ''r'', pr_empty_timeout = 0, pr_departure_timeout = 0,
       pr_max_participants = 0, pr_num_participants = 2, pr_num_publishers = 1, pr_active_recording = False, pr_creation_time_ms = 0\<rparr>\<rparr>"

theorem application_knows_the_room_witness:
  "\<exists>r0 snap r out. room_connect True joined_bob = Some (r0, [ToldNote (NoteConnected snap), ToldEvent (ConnectionStateChanged StConnected)]) \<and>
    snapshot_view snap ''bob'' = Some {''TR_c''} \<and> room_run [RiEngine Restarting] r0 = Some (r, out) \<and>
    room_view r = view_events out (snapshot_view snap)"
proof -
  have ok: "infos_ok identity_of (jr_others joined_bob)" using bob_ok by (simp add: joined_bob_def)
  have "valid_info (info_named ''PA_a'' ''ann'' PsActive [])"
    by (simp add: info_named_def valid_info_def from_prefix_def PARTICIPANT_PREFIX_def)
  then obtain r0 told where c: "room_connect True joined_bob = Some (r0, told)"
    using room_connect_total [of joined_bob "info_named ''PA_a'' ''ann'' PsActive []" "the (jr_room joined_bob)" True] bob_ok
    by (auto simp: joined_bob_def)
  obtain r out where run: "room_run [RiEngine Restarting] r0 = Some (r, out)"
    by (cases "handle_restarting r0") simp
  obtain snap where s: "told = [ToldNote (NoteConnected snap), ToldEvent (ConnectionStateChanged StConnected)]"
    "snapshot_view snap = fold listed (jr_others joined_bob) Map.empty" "room_view r = view_events out (snapshot_view snap)"
    using application_knows_the_room [OF ok c _ run] by auto
  have "snapshot_view snap ''bob'' = Some {''TR_c''}"
    using s(2) by (simp add: joined_bob_def listed_def bob_info_def info_named_def camera_def)
  then show ?thesis using c run s(1,3) by blast
qed

text \<open>
  C21: What the server is told after a resume restores the subscriptions.  A track is wanted as the application last said exactly if
  the server, which otherwise subscribes or not by the default of the room, applies the list of tracks that it is sent:
  for every track of every participant, as long as no two participants have a track of the same identifier.  The sync state
  goes before the engine continues.
\<close>

theorem sync_state_restores_subscriptions:
  assumes "send_sync_state v tracks r = Some s" and "distinct (concat (map (\<lambda>(_, p). hm_keys (pt_publications p)) (rm_participants r)))"
    and "(k, p) \<in> set (rm_participants r)" and "(sid, pb) \<in> set (pt_publications p)"
  shows "(if sid \<in> set (ss_track_sids s) then ss_subscribe s else \<not> ss_subscribe s) = pb_subscribed pb \<and>
    handle_signal_resumed v tracks r = [SendSyncState s, LetEngineContinue]"
proof -
  let ?all = "concat (map (\<lambda>(_, p). pt_publications p) (rm_participants r))"
  have "map fst ?all = concat (map (\<lambda>(_, p). hm_keys (pt_publications p)) (rm_participants r))"
    by (simp add: map_concat hm_keys_def comp_def case_prod_unfold)
  then have d: "distinct (map fst ?all)" using assms(2) by simp
  have mem: "(sid, pb') \<in> set ?all" if "(k', p') \<in> set (rm_participants r)" "(sid, pb') \<in> set (pt_publications p')" for k' p' pb'
    using that by force
  have same: "pb' = pb" if "(k', p') \<in> set (rm_participants r)" "(sid, pb') \<in> set (pt_publications p')" for k' p' pb'
    using eq_key_imp_eq_value [OF d mem [OF that] mem [OF assms(3,4)]] .
  have fields: "ss_track_sids s = undesired_tracks r" "ss_subscribe s = (\<not> rm_auto_subscribe r)"
    using assms(1) by (auto simp: send_sync_state_def)
  have "sid \<in> set (undesired_tracks r) \<longleftrightarrow> pb_subscribed pb \<noteq> rm_auto_subscribe r"
    unfolding undesired_iff using same assms(3,4) by blast
  then show ?thesis using fields assms(1) by (auto simp: handle_signal_resumed_def)
qed

definition muted_camera :: publication where
  "muted_camera = \<lparr>pb_sid = ''TR_c'', pb_name = ''camera'', pb_kind = Video, pb_muted = True, pb_encryption = NoEncryption,
     pb_mime_type = ''video/vp8'', pb_dimension = (0, 0), pb_simulcasted = False, pb_track = None, pb_subscribed = False, pb_allowed = True\<rparr>"

definition unwatched_room :: room where
  "unwatched_room = empty_room\<lparr>rm_participants := [(''bob'', (new_participant bob_info)\<lparr>pt_publications := [(''TR_c'', muted_camera)]\<rparr>)]\<rparr>"

definition resumed_view :: session_view where
  "resumed_view = \<lparr>sv_single_pc = True, sv_publisher_local = Some \<lparr>de_sdp = ''v=0'', de_type = ''offer''\<rparr>, sv_publisher_remote = None,
     sv_subscriber = None, sv_has_published = False, sv_lossy = (''_lossy'', 1), sv_reliable = (''_reliable'', 0),
     sv_sub_lossy = None, sv_sub_reliable = None, sv_receive_states = []\<rparr>"

theorem sync_state_restores_subscriptions_witness:
  "\<exists>s. send_sync_state resumed_view [] unwatched_room = Some s \<and> ''TR_c'' \<in> set (ss_track_sids s) \<and> \<not> ss_subscribe s"
proof -
  obtain s where s: "send_sync_state resumed_view [] unwatched_room = Some s"
    by (simp add: send_sync_state_def sync_descriptions_def resumed_view_def)
  have "distinct (concat (map (\<lambda>(_, p). hm_keys (pt_publications p)) (rm_participants unwatched_room)))"
    by (simp add: unwatched_room_def hm_keys_def)
  from sync_state_restores_subscriptions [OF s this, of "''bob''" _ "''TR_c''" muted_camera]
  have "(if ''TR_c'' \<in> set (ss_track_sids s) then ss_subscribe s else \<not> ss_subscribe s) = pb_subscribed muted_camera"
    by (simp add: unwatched_room_def)
  moreover have "ss_subscribe s = False" using s by (auto simp: send_sync_state_def unwatched_room_def empty_room_def)
  ultimately show ?thesis using s by (auto simp: muted_camera_def split: if_splits)
qed


end
