(* ===== verification/LkSettings.thy ===== *)
theory LkSettings
  imports LkParticipant LkOptions
begin

text \<open>
  What a subscriber asks of a remote track (\<open>livekit/src/room/publication/remote.rs\<close>, and the handlers of
  \<open>room/participant/remote_participant.rs\<close> that tell the server): subscribing, switching the track on and
  off, its size and its quality.  Every call hands its message to a task of its own, and the tasks run in any order.
\<close>

section \<open>Messages\<close>

datatype wanted_quality = WantLow | WantMedium | WantHigh

fun proto_quality :: "wanted_quality \<Rightarrow> video_quality" where
  "proto_quality WantLow = Low"
| "proto_quality WantMedium = Medium"
| "proto_quality WantHigh = High"

record track_settings =
  ts_sid :: string
  ts_disabled :: bool
  ts_quality :: video_quality
  ts_dimension :: "u32 \<times> u32"

text \<open>Fields that a message does not set have the value zero.\<close>

definition track_settings_default :: track_settings where
  "track_settings_default = \<lparr>ts_sid = [], ts_disabled = False, ts_quality = Low, ts_dimension = (0, 0)\<rparr>"

datatype settings_message = TrackSetting track_settings | SubscriptionUpdate string string bool

datatype settings_task = SubscribeTask bool | EnabledTask bool | DimensionsTask "u32 \<times> u32" | QualityTask wanted_quality

text \<open>\<open>rs_on\<close>: the track of the library is enabled; \<open>rs_participant\<close>: the identifier of the participant when the track was published.\<close>

record remote_settings =
  rs_publication :: publication
  rs_participant :: string
  rs_on :: bool
  rs_tasks :: "settings_task list"
  rs_sent :: "settings_message list"

section \<open>Operations\<close>

definition is_subscribed :: "remote_settings \<Rightarrow> bool" where
  "is_subscribed s \<longleftrightarrow> pb_track (rs_publication s) \<noteq> None"

definition is_enabled :: "remote_settings \<Rightarrow> bool" where
  "is_enabled s \<longleftrightarrow> is_subscribed s \<and> rs_on s"

definition spawn :: "settings_task list \<Rightarrow> remote_settings \<Rightarrow> remote_settings" where
  "spawn ts s = s\<lparr>rs_tasks := rs_tasks s @ ts\<rparr>"

definition set_enabled :: "bool \<Rightarrow> remote_settings \<Rightarrow> remote_settings" where
  "set_enabled b s = (if is_subscribed s \<and> b \<noteq> is_enabled s then spawn [EnabledTask b] (s\<lparr>rs_on := \<not> is_enabled s\<rparr>) else s)"

text \<open>The wanted size becomes the size of the publication.\<close>

definition update_video_dimensions :: "u32 \<times> u32 \<Rightarrow> remote_settings \<Rightarrow> remote_settings" where
  "update_video_dimensions d s =
     (if is_subscribed s then spawn [DimensionsTask d] (s\<lparr>rs_publication := (rs_publication s)\<lparr>pb_dimension := d\<rparr>\<rparr>) else s)"

definition set_video_quality :: "wanted_quality \<Rightarrow> remote_settings \<Rightarrow> remote_settings" where
  "set_video_quality q s = (if pb_simulcasted (rs_publication s) then spawn [QualityTask q] s else s)"

fun needed_updates :: "publication_event list \<Rightarrow> settings_task list" where
  "needed_updates [] = []"
| "needed_updates (PubUpdateNeeded b # es) = SubscribeTask b # needed_updates es"
| "needed_updates (_ # es) = needed_updates es"

definition subscribe :: "bool \<Rightarrow> remote_settings \<Rightarrow> remote_settings" where
  "subscribe b s =
     (case set_subscribed b (rs_publication s) of (pb, es) \<Rightarrow> spawn (needed_updates es) (s\<lparr>rs_publication := pb\<rparr>))"

text \<open>A media track that arrives is enabled.\<close>

definition track_arrives :: "nat \<Rightarrow> remote_settings \<Rightarrow> remote_settings" where
  "track_arrives t s = s\<lparr>rs_publication := fst (set_track (Some t) (rs_publication s)), rs_on := True\<rparr>"

text \<open>A task reads what it was not given only when it runs.\<close>

definition task_message :: "remote_settings \<Rightarrow> settings_task \<Rightarrow> settings_message" where
  "task_message s t =
     (let sid = pb_sid (rs_publication s)
      in case t of
           SubscribeTask b \<Rightarrow> SubscriptionUpdate (rs_participant s) sid b
         | EnabledTask b \<Rightarrow>
             TrackSetting (track_settings_default\<lparr>ts_sid := sid, ts_disabled := \<not> b, ts_dimension := pb_dimension (rs_publication s)\<rparr>)
         | DimensionsTask d \<Rightarrow>
             TrackSetting (track_settings_default\<lparr>ts_sid := sid, ts_disabled := \<not> is_enabled s, ts_dimension := d\<rparr>)
         | QualityTask q \<Rightarrow> TrackSetting (track_settings_default\<lparr>ts_sid := sid, ts_quality := proto_quality q\<rparr>))"

definition task_runs :: "nat \<Rightarrow> remote_settings \<Rightarrow> remote_settings option" where
  "task_runs i s =
     (if i < length (rs_tasks s)
      then Some (s\<lparr>rs_tasks := take i (rs_tasks s) @ drop (Suc i) (rs_tasks s), rs_sent := rs_sent s @ [task_message s (rs_tasks s ! i)]\<rparr>)
      else None)"

text \<open>Whether the application may subscribe; a change would be an event.\<close>

definition emit_permission_update :: "bool \<Rightarrow> publication \<Rightarrow> (bool \<times> bool) list" where
  "emit_permission_update old pb = (if old \<noteq> pb_allowed pb then [(old, pb_allowed pb)] else [])"

datatype settings_event =
    SetEnabled bool | UpdateDimensions "u32 \<times> u32" | SetQuality wanted_quality | SetSubscribed bool | TrackArrives nat
  | SettingsTaskRuns nat

fun settings_apply :: "settings_event \<Rightarrow> remote_settings \<Rightarrow> remote_settings option" where
  "settings_apply (SetEnabled b) s = Some (set_enabled b s)"
| "settings_apply (UpdateDimensions d) s = Some (update_video_dimensions d s)"
| "settings_apply (SetQuality q) s = Some (set_video_quality q s)"
| "settings_apply (SetSubscribed b) s = Some (subscribe b s)"
| "settings_apply (TrackArrives t) s = Some (track_arrives t s)"
| "settings_apply (SettingsTaskRuns i) s = task_runs i s"

definition settings_new :: "string \<Rightarrow> publication \<Rightarrow> remote_settings" where
  "settings_new psid pb = \<lparr>rs_publication = pb, rs_participant = psid, rs_on = False, rs_tasks = [], rs_sent = []\<rparr>"

section \<open>The server follows, if the order is kept\<close>

text \<open>What the server should have been told last about a track that the subscriber has.\<close>

definition current_settings :: "remote_settings \<Rightarrow> settings_message" where
  "current_settings s =
     TrackSetting \<lparr>ts_sid = pb_sid (rs_publication s), ts_disabled = (\<not> rs_on s), ts_quality = Low,
       ts_dimension = pb_dimension (rs_publication s)\<rparr>"

text \<open>Calls that keep the track and do not ask for a quality; tasks that run in the order in which they were spawned.\<close>

fun steady :: "settings_event \<Rightarrow> bool" where
  "steady (SetEnabled b) \<longleftrightarrow> True"
| "steady (UpdateDimensions d) \<longleftrightarrow> True"
| "steady (SettingsTaskRuns i) \<longleftrightarrow> i = 0"
| "steady _ \<longleftrightarrow> False"

fun up_to_date :: "remote_settings \<Rightarrow> settings_task \<Rightarrow> bool" where
  "up_to_date s (EnabledTask b) \<longleftrightarrow> b = rs_on s"
| "up_to_date s (DimensionsTask d) \<longleftrightarrow> d = pb_dimension (rs_publication s)"
| "up_to_date s _ \<longleftrightarrow> False"

definition steady_inv :: "settings_message list \<Rightarrow> remote_settings \<Rightarrow> bool" where
  "steady_inv sent s \<longleftrightarrow> is_subscribed s \<and>
     (if rs_tasks s = [] then rs_sent s = sent \<or> last (rs_sent s) = current_settings s else up_to_date s (last (rs_tasks s)))"

lemma up_to_date_message: "is_subscribed s \<Longrightarrow> up_to_date s t \<Longrightarrow> task_message s t = current_settings s"
  by (cases t) (simp_all add: task_message_def current_settings_def track_settings_default_def is_enabled_def)

lemma steady_inv_step:
  assumes inv: "steady_inv sent s" and e: "steady e" and step: "settings_apply e s = Some s'"
  shows "steady_inv sent s'"
proof (cases e)
  case (SetEnabled b)
  then show ?thesis using inv step
    by (auto simp: set_enabled_def spawn_def steady_inv_def is_subscribed_def is_enabled_def)
next
  case (UpdateDimensions d)
  then show ?thesis using inv step
    by (auto simp: update_video_dimensions_def spawn_def steady_inv_def is_subscribed_def)
next
  case (SettingsTaskRuns i)
  then obtain t ts where ts: "rs_tasks s = t # ts" "i = 0" using step e by (cases "rs_tasks s") (simp_all add: task_runs_def)
  then have s': "s' = s\<lparr>rs_tasks := ts, rs_sent := rs_sent s @ [task_message s t]\<rparr>"
    using SettingsTaskRuns step by (simp add: task_runs_def)
  have same: "is_subscribed s' = is_subscribed s" "current_settings s' = current_settings s" "up_to_date s' x = up_to_date s x" for x
    by (simp_all add: s' is_subscribed_def current_settings_def) (cases x; simp add: s')
  show ?thesis
  proof (cases "ts = []")
    case True
    then have "task_message s t = current_settings s"
      using inv ts by (intro up_to_date_message) (simp_all add: steady_inv_def)
    then show ?thesis using inv True same by (simp add: steady_inv_def s')
  next
    case False
    then show ?thesis using inv ts same by (simp add: steady_inv_def s')
  qed
qed (use e in simp_all)

lemma steady_run:
  "run_enabled settings_apply es s = Some s' \<Longrightarrow> list_all steady es \<Longrightarrow> steady_inv sent s \<Longrightarrow> steady_inv sent s'"
proof (induction es arbitrary: s)
  case (Cons e es)
  from Cons.prems(1) obtain s1 where s1: "settings_apply e s = Some s1" "run_enabled settings_apply es s1 = Some s'"
    by (rule run_enabled_ConsE)
  have e: "steady e" and es: "list_all steady es" using Cons.prems(2) by simp_all
  show ?case by (rule Cons.IH [OF s1(2) es steady_inv_step [OF Cons.prems(3) e s1(1)]])
qed simp

lemma settings_reach_the_server:
  assumes "list_all steady es" and "run_enabled settings_apply es s = Some s'"
    and "is_subscribed s" and "rs_tasks s = []" and "rs_tasks s' = []"
  shows "rs_sent s' = rs_sent s \<or> last (rs_sent s') = current_settings s'"
proof -
  have "steady_inv (rs_sent s) s" using assms(3,4) by (simp add: steady_inv_def)
  then show ?thesis using steady_run [OF assms(2,1)] assms(5) by (simp add: steady_inv_def)
qed

section \<open>When it does not\<close>

definition camera_on :: remote_settings where
  "camera_on = (settings_new ''PA_b'' \<lparr>pb_sid = ''TR_c'', pb_name = [], pb_kind = Video, pb_muted = False, pb_encryption = NoEncryption,
     pb_mime_type = ''video/vp8'', pb_dimension = (640, 480), pb_simulcasted = True, pb_track = Some 0, pb_subscribed = True, pb_allowed = True\<rparr>)
     \<lparr>rs_on := True\<rparr>"

text \<open>
  A message about the quality leaves out whether the track is on, and so switches a disabled track on at the server; switching
  off and on again may arrive in the other order; and a new subscription starts with the track enabled, while the
  last word to the server was that it is not, and enabling it then says nothing.
\<close>

definition settled :: "remote_settings \<Rightarrow> settings_task list \<times> bool \<times> settings_message" where
  "settled s = (rs_tasks s, is_enabled s, last (rs_sent s))"

lemma quality_switches_on:
  "map_option settled (run_enabled settings_apply [SetEnabled False, SettingsTaskRuns 0, SetQuality WantHigh, SettingsTaskRuns 0] camera_on) =
    Some ([], False, TrackSetting \<lparr>ts_sid = ''TR_c'', ts_disabled = False, ts_quality = High, ts_dimension = (0, 0)\<rparr>)"
  by code_simp

lemma settings_may_swap:
  "map_option settled (run_enabled settings_apply [SetEnabled False, SetEnabled True, SettingsTaskRuns 1, SettingsTaskRuns 0] camera_on) =
    Some ([], True, TrackSetting \<lparr>ts_sid = ''TR_c'', ts_disabled = True, ts_quality = Low, ts_dimension = (640, 480)\<rparr>)"
  by code_simp

lemma resubscribed_stays_off:
  "map_option (\<lambda>s. (rs_tasks s, rs_tasks (set_enabled True s), is_enabled s, rs_sent s))
     (run_enabled settings_apply [SetEnabled False, SettingsTaskRuns 0, SetSubscribed False, SettingsTaskRuns 0, SetSubscribed True,
       SettingsTaskRuns 0, TrackArrives 1] camera_on) =
    Some ([], [], True, [TrackSetting \<lparr>ts_sid = ''TR_c'', ts_disabled = True, ts_quality = Low, ts_dimension = (640, 480)\<rparr>,
      SubscriptionUpdate ''PA_b'' ''TR_c'' False, SubscriptionUpdate ''PA_b'' ''TR_c'' True])"
  by code_simp

section \<open>Permission\<close>

text \<open>A publication starts as allowed and no operation takes that back: the permission never changes.\<close>

definition allowed_inv :: "remote_settings \<Rightarrow> bool" where
  "allowed_inv s \<longleftrightarrow> pb_allowed (rs_publication s)"

lemma set_track_fst: "fst (set_track t pb) = pb\<lparr>pb_track := t\<rparr>"
  by (simp only: set_track_def Let_def fst_conv)

lemma set_track_allowed: "set_track t pb = (pb', es) \<Longrightarrow> pb_allowed pb' = pb_allowed pb"
  using set_track_fst [of t pb] by simp

lemma set_subscribed_allowed:
  assumes "set_subscribed b pb = (pb', es)" and "pb_allowed pb"
  shows "pb_allowed pb'"
proof -
  let ?pb1 = "pb\<lparr>pb_subscribed := b, pb_allowed := pb_allowed pb \<or> b\<rparr>"
  obtain pb2 out where p: "(if b then (?pb1, []) else set_track None ?pb1) = (pb2, out)" by fastforce
  have "pb' = pb2" using assms(1) unfolding set_subscribed_def Let_def p by simp
  moreover have "pb_allowed pb2" using p assms(2) by (cases b) (auto dest: set_track_allowed)
  ultimately show ?thesis by simp
qed

lemma allowed_inv_apply:
  assumes "allowed_inv s" and "settings_apply e s = Some s'"
  shows "allowed_inv s'"
proof (cases e)
  case (SetSubscribed b)
  then show ?thesis using assms
    by (auto simp: allowed_inv_def subscribe_def spawn_def split: prod.splits dest: set_subscribed_allowed)
next
  case (TrackArrives t)
  obtain pb es where "set_track (Some t) (rs_publication s) = (pb, es)" by fastforce
  then show ?thesis using assms TrackArrives set_track_allowed by (auto simp: allowed_inv_def track_arrives_def)
qed (use assms in \<open>auto simp: allowed_inv_def set_enabled_def set_video_quality_def update_video_dimensions_def spawn_def task_runs_def
    split: if_splits\<close>)

interpretation rsm: enabled_machine settings_apply "settings_new psid pb" "\<lambda>s. pb_allowed pb \<longrightarrow> allowed_inv s"
  by unfold_locales (simp add: allowed_inv_def settings_new_def, use allowed_inv_apply in blast)

lemma permission_never_changes:
  assumes "publication_new ti auto_subscribe = Some pb" and "run_enabled settings_apply es (settings_new psid pb) = Some s"
  shows "emit_permission_update (pb_allowed pb) (rs_publication s) = []"
proof -
  have new: "pb_allowed pb" using assms(1) by (auto simp: publication_new_def split: option.splits)
  then have "allowed_inv s" using rsm.reachable_inv [OF run_enabled_reachable [OF reachable_start assms(2)]] by simp
  then show ?thesis using new by (simp add: emit_permission_update_def allowed_inv_def)
qed

end
