(* ===== verification/LkImage.thy ===== *)
theory LkImage
  imports LKPrelude
begin

text \<open>
  The conversions of images (\<open>imgproc/src/colorcvt\<close>).  Every function checks its buffers and then calls a C function of the
  image library with raw pointers.  A buffer is its length in elements and its stride; the pixels are the library's, so what
  matters is that no call reads or writes outside a buffer.  Arithmetic on 32-bit words wraps, as in a release build.
\<close>

section \<open>Calls of the library\<close>

type_synonym plane = "nat \<times> u32"

text \<open>
  The strides and the size are passed as signed numbers, with the same bits, and a negative height asks for the rows in the
  other order.
\<close>

record yuv_call =
  yc_name :: string
  yc_planes :: "(nat \<times> i32) list"
  yc_width :: i32
  yc_height :: i32

text \<open>The calls that are made, and whether the function returns: \<open>False\<close> is a failed assertion.\<close>

type_synonym conversion_result = "yuv_call list \<times> bool"

definition yuv_call_of :: "string \<Rightarrow> plane list \<Rightarrow> u32 \<Rightarrow> u32 \<Rightarrow> bool \<Rightarrow> yuv_call" where
  "yuv_call_of name planes width height flip =
     \<lparr>yc_name = name, yc_planes = planes, yc_width = width, yc_height = height * (if flip then - 1 else 1)\<rparr>"

text \<open>\<open>lib\<close> is the result of the library; zero is success.\<close>

definition converted ::
  "(yuv_call \<Rightarrow> i32) \<Rightarrow> bool \<Rightarrow> string \<Rightarrow> plane list \<Rightarrow> u32 \<Rightarrow> u32 \<Rightarrow> bool \<Rightarrow> conversion_result" where
  "converted lib valid name planes width height flip =
     (if valid then let c = yuv_call_of name planes width height flip in ([c], lib c = 0) else ([], False))"

section \<open>The checks\<close>

text \<open>The lists have the planes of the format, in the order of the parameters.\<close>

fun valid_420 :: "plane list \<Rightarrow> u32 \<Rightarrow> u32 \<Rightarrow> bool" where
  "valid_420 [(y, sy), (u, su), (v, sv)] width height \<longleftrightarrow>
     (let chroma_width = (width + 1) div 2; chroma_height = (height + 1) div 2
      in 0 < width \<and> 0 < height \<and>
        width \<le> sy \<and> chroma_width \<le> su \<and> chroma_width \<le> sv \<and>
        unat (sy * height) \<le> y \<and> unat (su * chroma_height) \<le> u \<and> unat (sv * chroma_height) \<le> v)"
| "valid_420 _ width height \<longleftrightarrow> False"

fun valid_420a :: "plane list \<Rightarrow> u32 \<Rightarrow> u32 \<Rightarrow> bool" where
  "valid_420a [(y, sy), (u, su), (v, sv), (a, sa)] width height \<longleftrightarrow>
     (let chroma_width = (width + 1) div 2; chroma_height = (height + 1) div 2
      in 0 < width \<and> 0 < height \<and>
        width \<le> sy \<and> chroma_width \<le> su \<and> chroma_width \<le> sv \<and> width \<le> sa \<and>
        unat (sy * height) \<le> y \<and> unat (su * chroma_height) \<le> u \<and> unat (sv * chroma_height) \<le> v \<and> unat (sa * height) \<le> a)"
| "valid_420a _ width height \<longleftrightarrow> False"

fun valid_422 :: "plane list \<Rightarrow> u32 \<Rightarrow> u32 \<Rightarrow> bool" where
  "valid_422 [(y, sy), (u, su), (v, sv)] width height \<longleftrightarrow>
     (let chroma_width = (width + 1) div 2; chroma_height = height
      in 0 < width \<and> 0 < height \<and>
        width \<le> sy \<and> chroma_width \<le> su \<and> chroma_width \<le> sv \<and>
        unat (sy * height) \<le> y \<and> unat (su * chroma_height) \<le> u \<and> unat (sv * chroma_height) \<le> v)"
| "valid_422 _ width height \<longleftrightarrow> False"

fun valid_444 :: "plane list \<Rightarrow> u32 \<Rightarrow> u32 \<Rightarrow> bool" where
  "valid_444 [(y, sy), (u, su), (v, sv)] width height \<longleftrightarrow>
     (let chroma_width = width; chroma_height = height
      in 0 < width \<and> 0 < height \<and>
        width \<le> sy \<and> chroma_width \<le> su \<and> chroma_width \<le> sv \<and>
        unat (sy * height) \<le> y \<and> unat (su * chroma_height) \<le> u \<and> unat (sv * chroma_height) \<le> v)"
| "valid_444 _ width height \<longleftrightarrow> False"

fun valid_010 :: "plane list \<Rightarrow> u32 \<Rightarrow> u32 \<Rightarrow> bool" where
  "valid_010 [(y, sy), (u, su), (v, sv)] width height \<longleftrightarrow>
     (let chroma_width = (width + 1) div 2; chroma_height = (height + 1) div 2
      in 0 < width \<and> 0 < height \<and>
        width \<le> sy \<and> chroma_width \<le> su \<and> chroma_width \<le> sv \<and>
        unat (sy * height) \<le> y \<and> unat (su * chroma_height) \<le> u \<and> unat (sv * chroma_height) \<le> v)"
| "valid_010 _ width height \<longleftrightarrow> False"

fun valid_nv12 :: "plane list \<Rightarrow> u32 \<Rightarrow> u32 \<Rightarrow> bool" where
  "valid_nv12 [(y, sy), (uv, suv)] width height \<longleftrightarrow>
     (let chroma_height = (height + 1) div 2
      in 0 < width \<and> 0 < height \<and>
        width \<le> sy \<and> width + width mod 2 \<le> suv \<and>
        unat (sy * height) \<le> y \<and> unat (suv * chroma_height) \<le> uv)"
| "valid_nv12 _ width height \<longleftrightarrow> False"

fun valid_rgba :: "plane list \<Rightarrow> u32 \<Rightarrow> u32 \<Rightarrow> bool" where
  "valid_rgba [(p, sp)] width height \<longleftrightarrow>
     (0 < width \<and> 0 < height \<and>
        width * 4 \<le> sp \<and>
        unat (sp * height) \<le> p)"
| "valid_rgba _ width height \<longleftrightarrow> False"

fun valid_rgb :: "plane list \<Rightarrow> u32 \<Rightarrow> u32 \<Rightarrow> bool" where
  "valid_rgb [(p, sp)] width height \<longleftrightarrow>
     (0 < width \<and> 0 < height \<and>
        width * 3 \<le> sp \<and>
        unat (sp * height) \<le> p)"
| "valid_rgb _ width height \<longleftrightarrow> False"

section \<open>The conversions\<close>

text \<open>Source and destination planes; the functions that a macro makes for several names take the name.\<close>

definition x420_to_rgba :: "string \<Rightarrow> (yuv_call \<Rightarrow> i32) \<Rightarrow> plane list \<Rightarrow> plane list \<Rightarrow> u32 \<Rightarrow> u32 \<Rightarrow> bool \<Rightarrow> conversion_result" where
  "x420_to_rgba name lib src dst width height flip =
     converted lib (valid_420 src width height \<and> valid_rgba dst width height) name (src @ dst) width height flip"

definition rgba_to_rgba :: "string \<Rightarrow> (yuv_call \<Rightarrow> i32) \<Rightarrow> plane list \<Rightarrow> plane list \<Rightarrow> u32 \<Rightarrow> u32 \<Rightarrow> bool \<Rightarrow> conversion_result" where
  "rgba_to_rgba name lib src dst width height flip =
     converted lib (valid_rgba src width height \<and> valid_rgba dst width height) name (src @ dst) width height flip"

definition rgba_to_420 :: "string \<Rightarrow> (yuv_call \<Rightarrow> i32) \<Rightarrow> plane list \<Rightarrow> plane list \<Rightarrow> u32 \<Rightarrow> u32 \<Rightarrow> bool \<Rightarrow> conversion_result" where
  "rgba_to_420 name lib src dst width height flip =
     converted lib (valid_rgba src width height \<and> valid_420 dst width height) name (src @ dst) width height flip"

definition x422_to_rgba :: "string \<Rightarrow> (yuv_call \<Rightarrow> i32) \<Rightarrow> plane list \<Rightarrow> plane list \<Rightarrow> u32 \<Rightarrow> u32 \<Rightarrow> bool \<Rightarrow> conversion_result" where
  "x422_to_rgba name lib src dst width height flip =
     converted lib (valid_422 src width height \<and> valid_rgba dst width height) name (src @ dst) width height flip"

definition x444_to_rgba :: "string \<Rightarrow> (yuv_call \<Rightarrow> i32) \<Rightarrow> plane list \<Rightarrow> plane list \<Rightarrow> u32 \<Rightarrow> u32 \<Rightarrow> bool \<Rightarrow> conversion_result" where
  "x444_to_rgba name lib src dst width height flip =
     converted lib (valid_444 src width height \<and> valid_rgba dst width height) name (src @ dst) width height flip"

definition x010_to_rgba :: "string \<Rightarrow> (yuv_call \<Rightarrow> i32) \<Rightarrow> plane list \<Rightarrow> plane list \<Rightarrow> u32 \<Rightarrow> u32 \<Rightarrow> bool \<Rightarrow> conversion_result" where
  "x010_to_rgba name lib src dst width height flip =
     converted lib (valid_010 src width height \<and> valid_rgba dst width height) name (src @ dst) width height flip"

definition nv12_to_rgba :: "string \<Rightarrow> (yuv_call \<Rightarrow> i32) \<Rightarrow> plane list \<Rightarrow> plane list \<Rightarrow> u32 \<Rightarrow> u32 \<Rightarrow> bool \<Rightarrow> conversion_result" where
  "nv12_to_rgba name lib src dst width height flip =
     converted lib (valid_nv12 src width height \<and> valid_rgba dst width height) name (src @ dst) width height flip"

definition i420_to_rgb24 :: "(yuv_call \<Rightarrow> i32) \<Rightarrow> plane list \<Rightarrow> plane list \<Rightarrow> u32 \<Rightarrow> u32 \<Rightarrow> bool \<Rightarrow> conversion_result" where
  "i420_to_rgb24 lib src dst width height flip =
     converted lib (valid_420 src width height \<and> valid_rgb dst width height) ''rs_I420ToRGB24'' (src @ dst) width height flip"

definition i420_to_raw :: "(yuv_call \<Rightarrow> i32) \<Rightarrow> plane list \<Rightarrow> plane list \<Rightarrow> u32 \<Rightarrow> u32 \<Rightarrow> bool \<Rightarrow> conversion_result" where
  "i420_to_raw lib src dst width height flip =
     converted lib (valid_420 src width height \<and> valid_rgb dst width height) ''rs_I420ToRAW'' (src @ dst) width height flip"

definition i422_to_i420 :: "(yuv_call \<Rightarrow> i32) \<Rightarrow> plane list \<Rightarrow> plane list \<Rightarrow> u32 \<Rightarrow> u32 \<Rightarrow> bool \<Rightarrow> conversion_result" where
  "i422_to_i420 lib src dst width height flip =
     converted lib (valid_422 src width height \<and> valid_420 dst width height) ''rs_I422ToI420'' (src @ dst) width height flip"

definition i444_to_i420 :: "(yuv_call \<Rightarrow> i32) \<Rightarrow> plane list \<Rightarrow> plane list \<Rightarrow> u32 \<Rightarrow> u32 \<Rightarrow> bool \<Rightarrow> conversion_result" where
  "i444_to_i420 lib src dst width height flip =
     converted lib (valid_444 src width height \<and> valid_420 dst width height) ''rs_I444ToI420'' (src @ dst) width height flip"

definition i010_to_i420 :: "(yuv_call \<Rightarrow> i32) \<Rightarrow> plane list \<Rightarrow> plane list \<Rightarrow> u32 \<Rightarrow> u32 \<Rightarrow> bool \<Rightarrow> conversion_result" where
  "i010_to_i420 lib src dst width height flip =
     converted lib (valid_010 src width height \<and> valid_420 dst width height) ''rs_I010ToI420'' (src @ dst) width height flip"

definition nv12_to_i420 :: "(yuv_call \<Rightarrow> i32) \<Rightarrow> plane list \<Rightarrow> plane list \<Rightarrow> u32 \<Rightarrow> u32 \<Rightarrow> bool \<Rightarrow> conversion_result" where
  "nv12_to_i420 lib src dst width height flip =
     converted lib (valid_nv12 src width height \<and> valid_420 dst width height) ''rs_NV12ToI420'' (src @ dst) width height flip"

definition i422_to_raw :: "(yuv_call \<Rightarrow> i32) \<Rightarrow> plane list \<Rightarrow> plane list \<Rightarrow> u32 \<Rightarrow> u32 \<Rightarrow> bool \<Rightarrow> conversion_result" where
  "i422_to_raw lib src dst width height flip =
     converted lib (valid_422 src width height \<and> valid_rgb dst width height) ''rs_I422ToRAW'' (src @ dst) width height flip"

definition i422_to_rgb24 :: "(yuv_call \<Rightarrow> i32) \<Rightarrow> plane list \<Rightarrow> plane list \<Rightarrow> u32 \<Rightarrow> u32 \<Rightarrow> bool \<Rightarrow> conversion_result" where
  "i422_to_rgb24 lib src dst width height flip =
     converted lib (valid_422 src width height \<and> valid_rgb dst width height) ''rs_I422ToRGB24'' (src @ dst) width height flip"

definition i444_to_raw :: "(yuv_call \<Rightarrow> i32) \<Rightarrow> plane list \<Rightarrow> plane list \<Rightarrow> u32 \<Rightarrow> u32 \<Rightarrow> bool \<Rightarrow> conversion_result" where
  "i444_to_raw lib src dst width height flip =
     converted lib (valid_444 src width height \<and> valid_rgb dst width height) ''rs_I444ToRAW'' (src @ dst) width height flip"

definition i444_to_rgb24 :: "(yuv_call \<Rightarrow> i32) \<Rightarrow> plane list \<Rightarrow> plane list \<Rightarrow> u32 \<Rightarrow> u32 \<Rightarrow> bool \<Rightarrow> conversion_result" where
  "i444_to_rgb24 lib src dst width height flip =
     converted lib (valid_444 src width height \<and> valid_rgb dst width height) ''rs_I444ToRGB24'' (src @ dst) width height flip"

definition nv12_to_raw :: "(yuv_call \<Rightarrow> i32) \<Rightarrow> plane list \<Rightarrow> plane list \<Rightarrow> u32 \<Rightarrow> u32 \<Rightarrow> bool \<Rightarrow> conversion_result" where
  "nv12_to_raw lib src dst width height flip =
     converted lib (valid_nv12 src width height \<and> valid_rgb dst width height) ''rs_NV12ToRAW'' (src @ dst) width height flip"

definition nv12_to_rgb24 :: "(yuv_call \<Rightarrow> i32) \<Rightarrow> plane list \<Rightarrow> plane list \<Rightarrow> u32 \<Rightarrow> u32 \<Rightarrow> bool \<Rightarrow> conversion_result" where
  "nv12_to_rgb24 lib src dst width height flip =
     converted lib (valid_nv12 src width height \<and> valid_rgb dst width height) ''rs_NV12ToRGB24'' (src @ dst) width height flip"

definition i420_copy :: "(yuv_call \<Rightarrow> i32) \<Rightarrow> plane list \<Rightarrow> plane list \<Rightarrow> u32 \<Rightarrow> u32 \<Rightarrow> bool \<Rightarrow> conversion_result" where
  "i420_copy lib src dst width height flip =
     converted lib (valid_420 src width height \<and> valid_420 dst width height) ''rs_I420Copy'' (src @ dst) width height flip"

definition i422_copy :: "(yuv_call \<Rightarrow> i32) \<Rightarrow> plane list \<Rightarrow> plane list \<Rightarrow> u32 \<Rightarrow> u32 \<Rightarrow> bool \<Rightarrow> conversion_result" where
  "i422_copy lib src dst width height flip =
     converted lib (valid_422 src width height \<and> valid_422 dst width height) ''rs_I422Copy'' (src @ dst) width height flip"

definition i444_copy :: "(yuv_call \<Rightarrow> i32) \<Rightarrow> plane list \<Rightarrow> plane list \<Rightarrow> u32 \<Rightarrow> u32 \<Rightarrow> bool \<Rightarrow> conversion_result" where
  "i444_copy lib src dst width height flip =
     converted lib (valid_444 src width height \<and> valid_444 dst width height) ''rs_I444Copy'' (src @ dst) width height flip"

definition i010_copy :: "(yuv_call \<Rightarrow> i32) \<Rightarrow> plane list \<Rightarrow> plane list \<Rightarrow> u32 \<Rightarrow> u32 \<Rightarrow> bool \<Rightarrow> conversion_result" where
  "i010_copy lib src dst width height flip =
     converted lib (valid_010 src width height \<and> valid_010 dst width height) ''rs_I010Copy'' (src @ dst) width height flip"

definition nv12_copy :: "(yuv_call \<Rightarrow> i32) \<Rightarrow> plane list \<Rightarrow> plane list \<Rightarrow> u32 \<Rightarrow> u32 \<Rightarrow> bool \<Rightarrow> conversion_result" where
  "nv12_copy lib src dst width height flip =
     converted lib (valid_nv12 src width height \<and> valid_nv12 dst width height) ''rs_NV12Copy'' (src @ dst) width height flip"

text \<open>Two functions are different: one drops the result of the library, the other copies the alpha plane after the rest.\<close>

definition raw_to_i420 :: "(yuv_call \<Rightarrow> i32) \<Rightarrow> plane list \<Rightarrow> plane list \<Rightarrow> u32 \<Rightarrow> u32 \<Rightarrow> bool \<Rightarrow> conversion_result" where
  "raw_to_i420 lib src dst width height flip =
     (if valid_rgb src width height \<and> valid_420 dst width height
      then ([yuv_call_of ''rs_RAWToI420'' (src @ dst) width height flip], True) else ([], False))"

definition i420a_copy :: "(yuv_call \<Rightarrow> i32) \<Rightarrow> plane list \<Rightarrow> plane list \<Rightarrow> u32 \<Rightarrow> u32 \<Rightarrow> bool \<Rightarrow> conversion_result" where
  "i420a_copy lib src dst width height flip =
     (if valid_420a src width height \<and> valid_420a dst width height
      then (case i420_copy lib (take 3 src) (take 3 dst) width height flip of
              (calls, True) \<Rightarrow> (calls @ [yuv_call_of ''rs_CopyPlane'' (drop 3 src @ drop 3 dst) width height flip], True)
            | (calls, False) \<Rightarrow> (calls, False))
      else ([], False))"

text \<open>The library's functions for each macro.\<close>

definition x420_to_rgba_names :: "string list" where
  "x420_to_rgba_names = [''rs_I420ToRGBA'', ''rs_I420ToABGR'', ''rs_I420ToBGRA'', ''rs_I420ToARGB'', ''rs_J420ToARGB'', ''rs_J420ToABGR'', ''rs_H420ToARGB'', ''rs_H420ToABGR'', ''rs_U420ToARGB'', ''rs_U420ToABGR'']"

definition rgba_to_rgba_names :: "string list" where
  "rgba_to_rgba_names = [''rs_ABGRToARGB'', ''rs_ARGBToABGR'', ''rs_RGBAToARGB'', ''rs_BGRAToARGB'']"

definition rgba_to_420_names :: "string list" where
  "rgba_to_420_names = [''rs_RGBAToI420'', ''rs_BGRAToI420'', ''rs_ARGBToI420'', ''rs_ABGRToI420'']"

definition x422_to_rgba_names :: "string list" where
  "x422_to_rgba_names = [''rs_I422ToABGR'', ''rs_J422ToARGB'', ''rs_I422ToBGRA'', ''rs_I422ToRGBA'']"

definition x444_to_rgba_names :: "string list" where
  "x444_to_rgba_names = [''rs_I444ToABGR'', ''rs_I444ToARGB'']"

definition x010_to_rgba_names :: "string list" where
  "x010_to_rgba_names = [''rs_I010ToABGR'', ''rs_I010ToARGB'']"

definition nv12_to_rgba_names :: "string list" where
  "nv12_to_rgba_names = [''rs_NV12ToABGR'', ''rs_NV12ToARGB'']"

text \<open>All of them.\<close>

definition conversions :: "(yuv_call \<Rightarrow> i32) \<Rightarrow> (plane list \<Rightarrow> plane list \<Rightarrow> u32 \<Rightarrow> u32 \<Rightarrow> bool \<Rightarrow> conversion_result) list" where
  "conversions lib =
     map (\<lambda>name. x420_to_rgba name lib) x420_to_rgba_names @
     map (\<lambda>name. rgba_to_rgba name lib) rgba_to_rgba_names @
     map (\<lambda>name. rgba_to_420 name lib) rgba_to_420_names @
     map (\<lambda>name. x422_to_rgba name lib) x422_to_rgba_names @
     map (\<lambda>name. x444_to_rgba name lib) x444_to_rgba_names @
     map (\<lambda>name. x010_to_rgba name lib) x010_to_rgba_names @
     map (\<lambda>name. nv12_to_rgba name lib) nv12_to_rgba_names @
     [i420_to_rgb24 lib, i420_to_raw lib, i422_to_i420 lib, i444_to_i420 lib, i010_to_i420 lib, nv12_to_i420 lib, i422_to_raw lib, i422_to_rgb24 lib, i444_to_raw lib, i444_to_rgb24 lib, nv12_to_raw lib, nv12_to_rgb24 lib, i420_copy lib, i422_copy lib, i444_copy lib, i010_copy lib, nv12_copy lib,
      raw_to_i420 lib, i420a_copy lib]"

section \<open>What the library touches\<close>

text \<open>
  The formats as the library documents them: for every plane the elements of a row and the number of rows.  An image without
  width is refused by the library.
\<close>

datatype pixel_format = P420 | P422 | P444 | P010 | PNv12 | PRgba | PRgb | PPlane

fun format_planes :: "pixel_format \<Rightarrow> nat \<Rightarrow> nat \<Rightarrow> (nat \<times> nat) list" where
  "format_planes P420 w h = [(w, h), ((w + 1) div 2, (h + 1) div 2), ((w + 1) div 2, (h + 1) div 2)]"
| "format_planes P422 w h = [(w, h), ((w + 1) div 2, h), ((w + 1) div 2, h)]"
| "format_planes P444 w h = [(w, h), (w, h), (w, h)]"
| "format_planes P010 w h = [(w, h), ((w + 1) div 2, (h + 1) div 2), ((w + 1) div 2, (h + 1) div 2)]"
| "format_planes PNv12 w h = [(w, h), (2 * ((w + 1) div 2), (h + 1) div 2)]"
| "format_planes PRgba w h = [(4 * w, h)]"
| "format_planes PRgb w h = [(3 * w, h)]"
| "format_planes PPlane w h = [(w, h)]"

definition library_formats :: "string \<Rightarrow> (pixel_format \<times> pixel_format) option" where
  "library_formats = map_of [
     (''rs_I420ToRGBA'', P420, PRgba), (''rs_I420ToABGR'', P420, PRgba), (''rs_I420ToBGRA'', P420, PRgba), (''rs_I420ToARGB'', P420, PRgba),
     (''rs_J420ToARGB'', P420, PRgba), (''rs_J420ToABGR'', P420, PRgba), (''rs_H420ToARGB'', P420, PRgba), (''rs_H420ToABGR'', P420, PRgba),
     (''rs_U420ToARGB'', P420, PRgba), (''rs_U420ToABGR'', P420, PRgba), (''rs_ABGRToARGB'', PRgba, PRgba), (''rs_ARGBToABGR'', PRgba, PRgba),
     (''rs_RGBAToARGB'', PRgba, PRgba), (''rs_BGRAToARGB'', PRgba, PRgba), (''rs_RGBAToI420'', PRgba, P420), (''rs_BGRAToI420'', PRgba, P420),
     (''rs_ARGBToI420'', PRgba, P420), (''rs_ABGRToI420'', PRgba, P420), (''rs_I422ToABGR'', P422, PRgba), (''rs_J422ToARGB'', P422, PRgba),
     (''rs_I422ToBGRA'', P422, PRgba), (''rs_I422ToRGBA'', P422, PRgba), (''rs_I444ToABGR'', P444, PRgba), (''rs_I444ToARGB'', P444, PRgba),
     (''rs_I010ToABGR'', P010, PRgba), (''rs_I010ToARGB'', P010, PRgba), (''rs_NV12ToABGR'', PNv12, PRgba), (''rs_NV12ToARGB'', PNv12, PRgba),
     (''rs_I420ToRGB24'', P420, PRgb), (''rs_I420ToRAW'', P420, PRgb), (''rs_I422ToI420'', P422, P420), (''rs_I444ToI420'', P444, P420),
     (''rs_I010ToI420'', P010, P420), (''rs_NV12ToI420'', PNv12, P420), (''rs_I422ToRAW'', P422, PRgb), (''rs_I422ToRGB24'', P422, PRgb),
     (''rs_I444ToRAW'', P444, PRgb), (''rs_I444ToRGB24'', P444, PRgb), (''rs_NV12ToRAW'', PNv12, PRgb), (''rs_NV12ToRGB24'', PNv12, PRgb),
     (''rs_I420Copy'', P420, P420), (''rs_I422Copy'', P422, P422), (''rs_I444Copy'', P444, P444), (''rs_I010Copy'', P010, P010),
     (''rs_NV12Copy'', PNv12, PNv12), (''rs_RAWToI420'', PRgb, P420), (''rs_CopyPlane'', PPlane, PPlane)]"

fun in_plane :: "nat \<times> i32 \<Rightarrow> nat \<times> nat \<Rightarrow> bool" where
  "in_plane (len, stride) (row, rows) \<longleftrightarrow>
     (\<forall>i<rows. \<forall>j<row. 0 \<le> int i * sint stride + int j \<and> int i * sint stride + int j < int len)"

definition call_in_bounds :: "yuv_call \<Rightarrow> bool" where
  "call_in_bounds c \<longleftrightarrow>
     (case library_formats (yc_name c) of
        None \<Rightarrow> False
      | Some (F, G) \<Rightarrow>
          let w = nat (sint (yc_width c)); h = nat \<bar>sint (yc_height c)\<bar>
          in list_all2 in_plane (yc_planes c) (format_planes F w h @ format_planes G w h))"

section \<open>No call leaves its buffers\<close>

text \<open>Where no product wraps: the image is not wider than the library can take, and every plane is smaller than the words.\<close>

definition no_wrap :: "plane list \<Rightarrow> u32 \<Rightarrow> u32 \<Rightarrow> bool" where
  "no_wrap planes width height \<longleftrightarrow> unat width < 2 ^ 30 \<and> unat height < 2 ^ 31 \<and>
     list_all (\<lambda>(len, stride). unat stride * unat height < 2 ^ 32) planes"

lemma sint_small:
  assumes "unat (x :: 32 word) < 2 ^ 31"
  shows "sint x = int (unat x)"
proof -
  have "int (unat x) < int (2 ^ 31)" using assms by (simp only: of_nat_less_iff)
  then have "uint x < 2 ^ 31" by simp
  moreover have "0 \<le> uint x" by simp
  ultimately have "- (2 ^ 31) \<le> uint x \<and> uint x < 2 ^ 31" by linarith
  then have "signed_take_bit 31 (uint x) = uint x" by (intro signed_take_bit_int_eq_self) simp_all
  then show ?thesis by (simp add: sint_uint)
qed

lemma unat_mult_small: "unat (x :: u32) * unat y < 2 ^ 32 \<Longrightarrow> unat (x * y) = unat x * unat y"
  by (simp add: unat_word_ariths)

lemma in_plane_fits:
  assumes row: "row \<le> unat s" and size: "unat (s * h) \<le> len" and rows: "rows \<le> unat h" and wrap: "unat s * unat h < 2 ^ 32"
  shows "in_plane (len, s) (row, rows)"
proof -
  have "0 \<le> int i * sint s + int j \<and> int i * sint s + int j < int len" if "i < rows" "j < row" for i j
  proof -
    have "(i + 1) * unat s \<le> unat h * unat s" using that rows by (intro mult_le_mono1) simp
    then have "i * unat s + j < len" using that row size unat_mult_small [OF wrap] by (simp add: mult.commute)
    moreover have "int i * sint s = int (i * unat s)"
    proof (cases "i = 0")
      case False
      then have "2 \<le> unat h" using that rows by simp
      then have "unat s * 2 \<le> unat s * unat h" by (rule mult_le_mono2)
      then have "unat s * 2 < 2 ^ 32" using wrap by (rule le_less_trans)
      then have "unat s < 2 ^ 31" by simp
      then show ?thesis by (simp add: sint_small)
    qed simp
    then have "int i * sint s + int j = int (i * unat s + j)" by (simp only: of_nat_add)
    ultimately show ?thesis by (simp only: of_nat_less_iff of_nat_0_le_iff simp_thms)
  qed
  then show ?thesis by simp
qed

lemma unat_half: "unat (x :: u32) < 2 ^ 31 \<Longrightarrow> unat ((x + 1) div 2) = (unat x + 1) div 2"
  by (simp add: unat_div unat_word_ariths)

lemma product_le: "(a :: nat) * b < c \<Longrightarrow> b' \<le> b \<Longrightarrow> a * b' < c"
  by (meson le_less_trans mult_le_mono2)

lemma unat_le: "(x :: u32) \<le> y \<Longrightarrow> unat x \<le> unat y"
  by (simp add: word_le_nat_alt)

lemma unat_times: "unat (x :: u32) < 2 ^ 30 \<Longrightarrow> unat (x * 4) = 4 * unat x" "unat (x :: u32) < 2 ^ 30 \<Longrightarrow> unat (x * 3) = 3 * unat x"
  by (simp_all add: unat_word_ariths)

lemma unat_even: 
  assumes small: "unat (x :: u32) < 2 ^ 30"
  shows "unat (x + x mod 2) = 2 * ((unat x + 1) div 2)"
proof -
  have "unat (x mod 2) = unat x mod 2" by (simp add: unat_mod)
  moreover have "unat x mod 2 < 2" by simp
  ultimately have "unat (x + x mod 2) = unat x + unat x mod 2" using small by (subst unat_add_lem [THEN iffD1]) simp_all
  also have "n + n mod 2 = 2 * ((n + 1) div 2)" for n :: nat by presburger
  finally show ?thesis .
qed

definition planes_fit :: "plane list \<Rightarrow> (nat \<times> nat) list \<Rightarrow> bool" where
  "planes_fit planes needs \<longleftrightarrow> list_all2 in_plane planes needs"

text \<open>What a check guarantees: its planes have room for the image.\<close>

definition checks :: "(plane list \<Rightarrow> u32 \<Rightarrow> u32 \<Rightarrow> bool) \<Rightarrow> pixel_format \<Rightarrow> bool" where
  "checks valid F \<longleftrightarrow>
     (\<forall>planes width height. valid planes width height \<longrightarrow> no_wrap planes width height \<longrightarrow>
        planes_fit planes (format_planes F (unat width) (unat height)))"

lemma checksI:
  "(\<And>planes width height. valid planes width height \<Longrightarrow> no_wrap planes width height \<Longrightarrow>
      planes_fit planes (format_planes F (unat width) (unat height))) \<Longrightarrow> checks valid F"
  by (simp add: checks_def)

lemma no_wrap_bounds:
  assumes "no_wrap planes width height"
  shows "unat width < 2 ^ 30" and "unat height < 2 ^ 31" and "(len, s) \<in> set planes \<Longrightarrow> unat s * unat height < 2 ^ 32"
  using assms by (auto simp: no_wrap_def list_all_iff)

lemma half_bounds:
  assumes "no_wrap planes width height"
  shows "unat ((width + 1) div 2) = (unat width + 1) div 2" and "unat ((height + 1) div 2) = (unat height + 1) div 2"
    and "(len, s) \<in> set planes \<Longrightarrow> unat s * unat ((height + 1) div 2) < 2 ^ 32"
proof -
  note b = no_wrap_bounds [OF assms]
  show "unat ((width + 1) div 2) = (unat width + 1) div 2" using b(1) by (intro unat_half) simp
  show h: "unat ((height + 1) div 2) = (unat height + 1) div 2" using b(2) by (rule unat_half)
  show "unat s * unat ((height + 1) div 2) < 2 ^ 32" if "(len, s) \<in> set planes"
  proof (cases "unat height = 0")
    case False
    then show ?thesis using product_le [OF b(3) [OF that], of "(unat height + 1) div 2"] unfolding h by simp
  qed (simp add: h)
qed

lemma full_plane:
  "no_wrap planes width height \<Longrightarrow> (len, s) \<in> set planes \<Longrightarrow> width \<le> s \<Longrightarrow> unat (s * height) \<le> len \<Longrightarrow>
    in_plane (len, s) (unat width, unat height)"
  by (rule in_plane_fits) (auto dest: unat_le no_wrap_bounds)

lemma half_plane:
  "no_wrap planes width height \<Longrightarrow> (len, s) \<in> set planes \<Longrightarrow> (width + 1) div 2 \<le> s \<Longrightarrow> unat (s * ((height + 1) div 2)) \<le> len \<Longrightarrow>
    in_plane (len, s) (Suc (unat width) div 2, Suc (unat height) div 2)"
  using half_bounds [of planes width height] by (intro in_plane_fits [where h = "(height + 1) div 2"]) (auto dest: unat_le)

lemma half_width_plane:
  "no_wrap planes width height \<Longrightarrow> (len, s) \<in> set planes \<Longrightarrow> (width + 1) div 2 \<le> s \<Longrightarrow> unat (s * height) \<le> len \<Longrightarrow>
    in_plane (len, s) (Suc (unat width) div 2, unat height)"
  using half_bounds(1) [of planes width height]
  by (intro in_plane_fits [where h = height]) (auto dest: unat_le no_wrap_bounds)

lemma pair_plane:
  assumes "no_wrap planes width height" and "(len, s) \<in> set planes" and "width + width mod 2 \<le> s" and "unat (s * ((height + 1) div 2)) \<le> len"
  shows "in_plane (len, s) (2 * (Suc (unat width) div 2), Suc (unat height) div 2)"
  using half_bounds [OF assms(1)] assms(2-4) unat_le [OF assms(3)] unat_even [OF no_wrap_bounds(1) [OF assms(1)]]
  by (intro in_plane_fits [where h = "(height + 1) div 2"]) auto

lemma packed_plane:
  assumes "no_wrap planes width height" and "(len, s) \<in> set planes" and "unat (s * height) \<le> len"
  shows "width * 4 \<le> s \<Longrightarrow> in_plane (len, s) (4 * unat width, unat height)"
    and "width * 3 \<le> s \<Longrightarrow> in_plane (len, s) (3 * unat width, unat height)"
  using assms no_wrap_bounds [OF assms(1)] unat_times [OF no_wrap_bounds(1) [OF assms(1)]]
  by (auto simp del: in_plane.simps intro!: in_plane_fits [where h = height] dest: unat_le)

lemmas plane_rules = full_plane half_plane half_width_plane pair_plane packed_plane

lemma checks_420: "checks valid_420 P420"
  by (rule checksI, erule valid_420.elims)
    (auto simp: planes_fit_def Let_def simp del: in_plane.simps intro!: full_plane half_plane)

lemma checks_422: "checks valid_422 P422"
  by (rule checksI, erule valid_422.elims)
    (auto simp: planes_fit_def Let_def simp del: in_plane.simps intro!: full_plane half_width_plane)

lemma checks_444: "checks valid_444 P444"
  by (rule checksI, erule valid_444.elims)
    (auto simp: planes_fit_def Let_def simp del: in_plane.simps intro!: full_plane)

lemma checks_010: "checks valid_010 P010"
  by (rule checksI, erule valid_010.elims)
    (auto simp: planes_fit_def Let_def simp del: in_plane.simps intro!: full_plane half_plane)

lemma checks_nv12: "checks valid_nv12 PNv12"
  by (rule checksI, erule valid_nv12.elims)
    (auto simp: planes_fit_def Let_def simp del: in_plane.simps intro!: full_plane pair_plane)

lemma checks_rgba: "checks valid_rgba PRgba"
  by (rule checksI, erule valid_rgba.elims)
    (auto simp: planes_fit_def simp del: in_plane.simps intro!: packed_plane)

lemma checks_rgb: "checks valid_rgb PRgb"
  by (rule checksI, erule valid_rgb.elims)
    (auto simp: planes_fit_def simp del: in_plane.simps intro!: packed_plane)

text \<open>A height of less than half the range of the words is the same as a signed number, and minus itself when the rows are turned.\<close>

lemma call_height:
  assumes "unat (height :: u32) < 2 ^ 31"
  shows "nat \<bar>sint (height * (if flip then - 1 else 1))\<bar> = unat height"
proof -
  have s: "sint height = int (unat height)" using assms by (rule sint_small)
  have "int (unat height) < int (2 ^ 31)" using assms by (simp only: of_nat_less_iff)
  then have low: "- (2 ^ 31) \<le> - int (unat height)" by simp
  have "- int (unat height) < 2 ^ 31" by (rule le_less_trans [of _ 0]) simp_all
  with low have "signed_take_bit 31 (- sint height) = - sint height" unfolding s by (rule signed_take_bit_int_eq_self)
  then have "sint (- height) = - int (unat height)" by (simp add: sint_word_ariths s)
  then show ?thesis using s by (cases flip) simp_all
qed

lemma call_fits:
  assumes "library_formats name = Some (F, G)" and "planes_fit src (format_planes F (unat width) (unat height))"
    and "planes_fit dst (format_planes G (unat width) (unat height))" and "no_wrap planes width height"
  shows "call_in_bounds (yuv_call_of name (src @ dst) width height flip)"
proof -
  have "nat (sint width) = unat width" using sint_small [of width] no_wrap_bounds(1) [OF assms(4)] by simp
  moreover have "nat \<bar>sint (height * (if flip then - 1 else 1))\<bar> = unat height"
    using no_wrap_bounds(2) [OF assms(4)] by (rule call_height)
  ultimately show ?thesis using assms(1-3)
    unfolding call_in_bounds_def yuv_call_of_def planes_fit_def by (simp add: list_all2_appendI Let_def)
qed

lemma converted_in_bounds:
  assumes "library_formats name = Some (F, G)" and "checks valid F" and "checks valid' G"
    and "no_wrap src width height" and "no_wrap dst width height"
  shows "list_all call_in_bounds (fst (converted lib (valid src width height \<and> valid' dst width height) name (src @ dst) width height flip))"
  using assms call_fits [OF assms(1) _ _ assms(4)] by (auto simp: converted_def Let_def checks_def)

lemmas check_rules = checks_420 checks_422 checks_444 checks_010 checks_nv12 checks_rgba checks_rgb

lemma macro_tables:
  "list_all (\<lambda>name. library_formats name = Some (P420, PRgba)) x420_to_rgba_names"
  "list_all (\<lambda>name. library_formats name = Some (PRgba, PRgba)) rgba_to_rgba_names"
  "list_all (\<lambda>name. library_formats name = Some (PRgba, P420)) rgba_to_420_names"
  "list_all (\<lambda>name. library_formats name = Some (P422, PRgba)) x422_to_rgba_names"
  "list_all (\<lambda>name. library_formats name = Some (P444, PRgba)) x444_to_rgba_names"
  "list_all (\<lambda>name. library_formats name = Some (P010, PRgba)) x010_to_rgba_names"
  "list_all (\<lambda>name. library_formats name = Some (PNv12, PRgba)) nv12_to_rgba_names"
  by code_simp+

lemma macro_formats:
  "name \<in> set x420_to_rgba_names \<Longrightarrow> library_formats name = Some (P420, PRgba)"
  "name \<in> set rgba_to_rgba_names \<Longrightarrow> library_formats name = Some (PRgba, PRgba)"
  "name \<in> set rgba_to_420_names \<Longrightarrow> library_formats name = Some (PRgba, P420)"
  "name \<in> set x422_to_rgba_names \<Longrightarrow> library_formats name = Some (P422, PRgba)"
  "name \<in> set x444_to_rgba_names \<Longrightarrow> library_formats name = Some (P444, PRgba)"
  "name \<in> set x010_to_rgba_names \<Longrightarrow> library_formats name = Some (P010, PRgba)"
  "name \<in> set nv12_to_rgba_names \<Longrightarrow> library_formats name = Some (PNv12, PRgba)"
  using macro_tables by (simp_all add: list_all_iff)

lemma single_formats:
  "library_formats ''rs_I420ToRGB24'' = Some (P420, PRgb)" "library_formats ''rs_I420ToRAW'' = Some (P420, PRgb)"
  "library_formats ''rs_I422ToI420'' = Some (P422, P420)" "library_formats ''rs_I444ToI420'' = Some (P444, P420)"
  "library_formats ''rs_I010ToI420'' = Some (P010, P420)" "library_formats ''rs_NV12ToI420'' = Some (PNv12, P420)"
  "library_formats ''rs_I422ToRAW'' = Some (P422, PRgb)" "library_formats ''rs_I422ToRGB24'' = Some (P422, PRgb)"
  "library_formats ''rs_I444ToRAW'' = Some (P444, PRgb)" "library_formats ''rs_I444ToRGB24'' = Some (P444, PRgb)"
  "library_formats ''rs_NV12ToRAW'' = Some (PNv12, PRgb)" "library_formats ''rs_NV12ToRGB24'' = Some (PNv12, PRgb)"
  "library_formats ''rs_I420Copy'' = Some (P420, P420)" "library_formats ''rs_I422Copy'' = Some (P422, P422)"
  "library_formats ''rs_I444Copy'' = Some (P444, P444)" "library_formats ''rs_I010Copy'' = Some (P010, P010)"
  "library_formats ''rs_NV12Copy'' = Some (PNv12, PNv12)" "library_formats ''rs_RAWToI420'' = Some (PRgb, P420)"
  "library_formats ''rs_CopyPlane'' = Some (PPlane, PPlane)"
  by code_simp+

definition stays_in :: "(plane list \<Rightarrow> plane list \<Rightarrow> u32 \<Rightarrow> u32 \<Rightarrow> bool \<Rightarrow> conversion_result) \<Rightarrow> bool" where
  "stays_in f \<longleftrightarrow>
     (\<forall>src dst width height flip. no_wrap src width height \<longrightarrow> no_wrap dst width height \<longrightarrow>
        list_all call_in_bounds (fst (f src dst width height flip)))"

lemma converted_stays_in:
  "library_formats name = Some (F, G) \<Longrightarrow> checks valid F \<Longrightarrow> checks valid' G \<Longrightarrow>
    stays_in (\<lambda>src dst width height. converted lib (valid src width height \<and> valid' dst width height) name (src @ dst) width height)"
  unfolding stays_in_def using converted_in_bounds by blast

lemma raw_to_i420_stays_in: "stays_in (raw_to_i420 lib)"
  using call_fits [OF single_formats(18)] checks_rgb checks_420
  by (auto simp: stays_in_def raw_to_i420_def checks_def)

lemma no_wrap_part: "no_wrap planes width height \<Longrightarrow> set part \<subseteq> set planes \<Longrightarrow> no_wrap part width height"
  by (auto simp: no_wrap_def list_all_iff)

lemma alpha_fits:
  assumes "valid_420a planes width height" and "no_wrap planes width height"
  shows "planes_fit (drop 3 planes) (format_planes PPlane (unat width) (unat height))"
  using assms
  by (elim valid_420a.elims) (auto simp: planes_fit_def Let_def numeral_3_eq_3 simp del: in_plane.simps intro!: full_plane)

lemma i420_copy_stays_in: "stays_in (i420_copy lib)"
  using converted_stays_in [OF single_formats(13) checks_420 checks_420] unfolding i420_copy_def [abs_def] .

lemma i420a_copy_stays_in: "stays_in (i420a_copy lib)"
  unfolding stays_in_def
proof (intro allI impI)
  fix src dst :: "plane list" and width height flip
  assume w: "no_wrap src width height" "no_wrap dst width height"
  have part: "no_wrap (take 3 src) width height" "no_wrap (take 3 dst) width height"
    by (rule no_wrap_part [OF w(1) set_take_subset], rule no_wrap_part [OF w(2) set_take_subset])
  then have copy: "list_all call_in_bounds (fst (i420_copy lib (take 3 src) (take 3 dst) width height flip))"
    using i420_copy_stays_in by (simp add: stays_in_def)
  have alpha: "call_in_bounds (yuv_call_of ''rs_CopyPlane'' (drop 3 src @ drop 3 dst) width height flip)"
    if "valid_420a src width height" "valid_420a dst width height"
    by (rule call_fits [OF single_formats(19) alpha_fits [OF that(1) w(1)] alpha_fits [OF that(2) w(2)] w(1)])
  show "list_all call_in_bounds (fst (i420a_copy lib src dst width height flip))"
    using copy alpha by (auto simp: i420a_copy_def split: prod.split bool.split)
qed

lemmas conversion_defs = x420_to_rgba_def rgba_to_rgba_def rgba_to_420_def x422_to_rgba_def x444_to_rgba_def x010_to_rgba_def
  nv12_to_rgba_def i420_to_rgb24_def i420_to_raw_def i422_to_i420_def i444_to_i420_def i010_to_i420_def nv12_to_i420_def
  i422_to_raw_def i422_to_rgb24_def i444_to_raw_def i444_to_rgb24_def nv12_to_raw_def nv12_to_rgb24_def
  i420_copy_def i422_copy_def i444_copy_def i010_copy_def nv12_copy_def

lemma macros_stay_in:
  "\<forall>name \<in> set x420_to_rgba_names. stays_in (x420_to_rgba name lib)"
  "\<forall>name \<in> set rgba_to_rgba_names. stays_in (rgba_to_rgba name lib)"
  "\<forall>name \<in> set rgba_to_420_names. stays_in (rgba_to_420 name lib)"
  "\<forall>name \<in> set x422_to_rgba_names. stays_in (x422_to_rgba name lib)"
  "\<forall>name \<in> set x444_to_rgba_names. stays_in (x444_to_rgba name lib)"
  "\<forall>name \<in> set x010_to_rgba_names. stays_in (x010_to_rgba name lib)"
  "\<forall>name \<in> set nv12_to_rgba_names. stays_in (nv12_to_rgba name lib)"
  unfolding conversion_defs [abs_def] by (rule ballI, rule converted_stays_in, erule macro_formats, rule check_rules, rule check_rules)+

lemma singles_stay_in:
  "stays_in (i420_to_rgb24 lib)" "stays_in (i420_to_raw lib)" "stays_in (i422_to_i420 lib)" "stays_in (i444_to_i420 lib)"
  "stays_in (i010_to_i420 lib)" "stays_in (nv12_to_i420 lib)" "stays_in (i422_to_raw lib)" "stays_in (i422_to_rgb24 lib)"
  "stays_in (i444_to_raw lib)" "stays_in (i444_to_rgb24 lib)" "stays_in (nv12_to_raw lib)" "stays_in (nv12_to_rgb24 lib)"
  "stays_in (i422_copy lib)" "stays_in (i444_copy lib)" "stays_in (i010_copy lib)" "stays_in (nv12_copy lib)"
  unfolding conversion_defs [abs_def] by (rule converted_stays_in, rule single_formats, rule check_rules, rule check_rules)+

section \<open>Properties\<close>

text \<open>
  C30: Converting images stays in memory.  Whatever buffers, strides and sizes are passed to any of the conversions, and whatever the library
  answers: as long as the image is narrower than two to the thirty and no stride times the height exceeds the words, every element that the
  library touches, for the format of its function, is inside the buffer that it was given.
\<close>

theorem conversions_stay_in_bounds:
  assumes "f \<in> set (conversions lib)" and "no_wrap src width height" and "no_wrap dst width height"
  shows "list_all call_in_bounds (fst (f src dst width height flip))"
proof -
  have "\<forall>f \<in> set (conversions lib). stays_in f"
    using macros_stay_in [of lib] singles_stay_in [of lib] i420_copy_stays_in raw_to_i420_stays_in i420a_copy_stays_in
    unfolding conversions_def set_append set_map ball_Un ball_simps by simp
  then show ?thesis using assms by (simp add: stays_in_def)
qed

theorem conversions_stay_in_bounds_witness:
  "\<exists>c. fst (i420_to_rgb24 (\<lambda>_. 0) [(4, 2), (1, 1), (1, 1)] [(12, 6)] 2 2 True) = [c] \<and> call_in_bounds c"
proof -
  have f: "i420_to_rgb24 (\<lambda>_. 0) \<in> set (conversions (\<lambda>_. 0))" by (simp add: conversions_def)
  have "no_wrap [(4, 2), (1, 1), (1, 1)] 2 2" "no_wrap [(12, 6)] 2 2" by (simp_all add: no_wrap_def)
  from conversions_stay_in_bounds [OF f this, of True] show ?thesis
    by (simp add: i420_to_rgb24_def converted_def Let_def)
qed

text \<open>
  Without that condition the products wrap in a release build: an image of 65536 times 65536 pixels is accepted with empty buffers.
\<close>

lemma wrapped_size_accepted:
  "valid_420 [(0, 65536), (0, 131072), (0, 131072)] 65536 65536" "valid_rgba [(0, 262144)] 65536 65536"
  by (simp_all add: Let_def)

lemma x420_format: "library_formats ''rs_I420ToRGBA'' = Some (P420, PRgba)"
  by code_simp

lemma wrapped_call_leaves_buffers:
  "\<exists>c. fst (x420_to_rgba ''rs_I420ToRGBA'' lib [(0, 65536), (0, 131072), (0, 131072)] [(0, 262144)] 65536 65536 False) = [c] \<and>
    \<not> call_in_bounds c"
proof -
  let ?c = "yuv_call_of ''rs_I420ToRGBA'' ([(0, 65536), (0, 131072), (0, 131072)] @ [(0, 262144)]) 65536 65536 False"
  have "\<not> call_in_bounds ?c"
    by (simp add: call_in_bounds_def yuv_call_of_def x420_format sint_small Let_def, rule disjI1, rule exI [of _ 0], simp)
  then show ?thesis using wrapped_size_accepted by (simp add: x420_to_rgba_def converted_def Let_def)
qed

text \<open>One conversion does not look at the library's answer: it returns as if it had converted.\<close>

lemma failed_raw_conversion_unnoticed:
  "raw_to_i420 (\<lambda>_. - 1) [(12, 6)] [(4, 2), (1, 1), (1, 1)] 2 2 flip = ([yuv_call_of ''rs_RAWToI420'' [(12, 6), (4, 2), (1, 1), (1, 1)] 2 2 flip], True)"
  "snd (i420_to_raw (\<lambda>_. - 1) [(4, 2), (1, 1), (1, 1)] [(12, 6)] 2 2 flip) = False"
  by (simp_all add: raw_to_i420_def i420_to_raw_def converted_def Let_def)
end
