(* ===== verification/LkConvert.thy ===== *)
theory LkConvert
  imports LkImage
begin

text \<open>
  Images that cross to another language (\<open>livekit-ffi/src/server/colorcvt\<close>).  A buffer is described by its type, size,
  strides and addresses; \<open>cvt\<close> converts it into a new buffer, \<open>to_video_buffer_info\<close> gives out a frame of the WebRTC
  library and \<open>to_libwebrtc_buffer\<close> takes one in.  Pixels are the library's; what the descriptions say, which calls are made and
  when the functions panic is modelled.  The address of a new buffer is an argument.
\<close>

section \<open>Descriptions\<close>

datatype buffer_type = Rgba | Abgr | Argb | Bgra | Rgb24 | I420 | I420a | I422 | I444 | I010 | Nv12

record component_info =
  ci_ptr :: u64
  ci_stride :: u32
  ci_size :: u32

record video_buffer_info =
  vb_type :: buffer_type
  vb_width :: u32
  vb_height :: u32
  vb_ptr :: u64
  vb_stride :: "u32 option"
  vb_components :: "component_info list"

definition i420_info :: "u64 \<Rightarrow> u64 \<Rightarrow> u64 \<Rightarrow> u64 \<Rightarrow> u32 \<Rightarrow> u32 \<Rightarrow> u32 \<Rightarrow> u32 \<Rightarrow> u32 \<Rightarrow> video_buffer_info" where
  "i420_info ptr y u v width height sy su sv =
     (let chroma_height = (height + 1) div 2
      in \<lparr>vb_type = I420, vb_width = width, vb_height = height, vb_ptr = ptr, vb_stride = None,
          vb_components = [\<lparr>ci_ptr = y, ci_stride = sy, ci_size = sy * height\<rparr>, \<lparr>ci_ptr = u, ci_stride = su, ci_size = su * chroma_height\<rparr>,
            \<lparr>ci_ptr = v, ci_stride = sv, ci_size = sv * chroma_height\<rparr>]\<rparr>)"

definition i420a_info :: "u64 \<Rightarrow> u64 \<Rightarrow> u64 \<Rightarrow> u64 \<Rightarrow> u64 \<Rightarrow> u32 \<Rightarrow> u32 \<Rightarrow> u32 \<Rightarrow> u32 \<Rightarrow> u32 \<Rightarrow> u32 \<Rightarrow> video_buffer_info" where
  "i420a_info ptr y u v a width height sy su sv sa =
     (let chroma_height = (height + 1) div 2
      in \<lparr>vb_type = I420a, vb_width = width, vb_height = height, vb_ptr = ptr, vb_stride = None,
          vb_components = [\<lparr>ci_ptr = y, ci_stride = sy, ci_size = sy * height\<rparr>, \<lparr>ci_ptr = u, ci_stride = su, ci_size = su * chroma_height\<rparr>,
            \<lparr>ci_ptr = v, ci_stride = sv, ci_size = sv * chroma_height\<rparr>, \<lparr>ci_ptr = a, ci_stride = sa, ci_size = sa * height\<rparr>]\<rparr>)"

definition i422_info :: "u64 \<Rightarrow> u64 \<Rightarrow> u64 \<Rightarrow> u64 \<Rightarrow> u32 \<Rightarrow> u32 \<Rightarrow> u32 \<Rightarrow> u32 \<Rightarrow> u32 \<Rightarrow> video_buffer_info" where
  "i422_info ptr y u v width height sy su sv =
     \<lparr>vb_type = I422, vb_width = width, vb_height = height, vb_ptr = ptr, vb_stride = None,
      vb_components = [\<lparr>ci_ptr = y, ci_stride = sy, ci_size = sy * height\<rparr>, \<lparr>ci_ptr = u, ci_stride = su, ci_size = su * height\<rparr>,
        \<lparr>ci_ptr = v, ci_stride = sv, ci_size = sv * height\<rparr>]\<rparr>"

definition i444_info :: "u64 \<Rightarrow> u64 \<Rightarrow> u64 \<Rightarrow> u64 \<Rightarrow> u32 \<Rightarrow> u32 \<Rightarrow> u32 \<Rightarrow> u32 \<Rightarrow> u32 \<Rightarrow> video_buffer_info" where
  "i444_info ptr y u v width height sy su sv =
     \<lparr>vb_type = I444, vb_width = width, vb_height = height, vb_ptr = ptr, vb_stride = None,
      vb_components = [\<lparr>ci_ptr = y, ci_stride = sy, ci_size = sy * height\<rparr>, \<lparr>ci_ptr = u, ci_stride = su, ci_size = su * height\<rparr>,
        \<lparr>ci_ptr = v, ci_stride = sv, ci_size = sv * height\<rparr>]\<rparr>"

definition i010_info :: "u64 \<Rightarrow> u64 \<Rightarrow> u64 \<Rightarrow> u64 \<Rightarrow> u32 \<Rightarrow> u32 \<Rightarrow> u32 \<Rightarrow> u32 \<Rightarrow> u32 \<Rightarrow> video_buffer_info" where
  "i010_info ptr y u v width height sy su sv =
     (let chroma_height = (height + 1) div 2
      in \<lparr>vb_type = I010, vb_width = width, vb_height = height, vb_ptr = ptr, vb_stride = None,
          vb_components = [\<lparr>ci_ptr = y, ci_stride = sy, ci_size = sy * height\<rparr>, \<lparr>ci_ptr = u, ci_stride = su, ci_size = su * chroma_height\<rparr>,
            \<lparr>ci_ptr = v, ci_stride = sv, ci_size = sv * chroma_height\<rparr>]\<rparr>)"

definition nv12_info :: "u64 \<Rightarrow> u64 \<Rightarrow> u64 \<Rightarrow> u32 \<Rightarrow> u32 \<Rightarrow> u32 \<Rightarrow> u32 \<Rightarrow> video_buffer_info" where
  "nv12_info ptr y uv width height sy suv =
     (let chroma_height = (height + 1) div 2
      in \<lparr>vb_type = Nv12, vb_width = width, vb_height = height, vb_ptr = ptr, vb_stride = None,
          vb_components = [\<lparr>ci_ptr = y, ci_stride = sy, ci_size = sy * height\<rparr>,
            \<lparr>ci_ptr = uv, ci_stride = suv, ci_size = suv * chroma_height * 2\<rparr>]\<rparr>)"

definition rgba_info :: "u64 \<Rightarrow> buffer_type \<Rightarrow> u32 \<Rightarrow> u32 \<Rightarrow> video_buffer_info" where
  "rgba_info ptr t width height =
     \<lparr>vb_type = t, vb_width = width, vb_height = height, vb_ptr = ptr, vb_stride = Some (width * 4), vb_components = []\<rparr>"

definition rgb_info :: "u64 \<Rightarrow> buffer_type \<Rightarrow> u32 \<Rightarrow> u32 \<Rightarrow> video_buffer_info" where
  "rgb_info ptr t width height =
     \<lparr>vb_type = t, vb_width = width, vb_height = height, vb_ptr = ptr, vb_stride = Some (width * 3), vb_components = []\<rparr>"

section \<open>Destinations\<close>

text \<open>A slice of the new buffer is its offset and its length; splitting beyond the end panics.\<close>

type_synonym dst_slice = "nat \<times> nat"

fun split_at_mut :: "nat \<Rightarrow> dst_slice \<Rightarrow> (dst_slice \<times> dst_slice) option" where
  "split_at_mut n (k, len) = (if n \<le> len then Some ((k, n), (k + n, len - n)) else None)"

definition slice_ptr :: "u64 \<Rightarrow> dst_slice \<Rightarrow> u64" where
  "slice_ptr d s = d + of_nat (fst s)"

text \<open>The buffer is as long as the sum, computed in 32 bits, says.\<close>

definition dst_planes :: "u32 \<Rightarrow> u32 \<Rightarrow> (nat \<times> dst_slice \<times> dst_slice \<times> dst_slice) option" where
  "dst_planes luma_size chroma_size =
     (let n = unat (luma_size + chroma_size * 2)
      in case split_at_mut (unat luma_size) (0, n) of
           None \<Rightarrow> None
         | Some (luma, chroma) \<Rightarrow>
             (case split_at_mut (unat chroma_size) chroma of None \<Rightarrow> None | Some (u, v) \<Rightarrow> Some (n, luma, u, v)))"

datatype conversion_answer = Delivered nat video_buffer_info | NotSupported buffer_type buffer_type | Panics

type_synonym conversion = "yuv_call list \<times> conversion_answer"

definition delivered :: "conversion_result \<Rightarrow> nat \<Rightarrow> video_buffer_info \<Rightarrow> conversion" where
  "delivered r n info = (fst r, if snd r then Delivered n info else Panics)"

text \<open>The three kinds of destination that the functions share: \<open>conv\<close> converts the source into the planes.\<close>

definition into_420 :: "(plane list \<Rightarrow> conversion_result) \<Rightarrow> u64 \<Rightarrow> u32 \<Rightarrow> u32 \<Rightarrow> conversion" where
  "into_420 conv d width height =
     (let chroma_w = (width + 1) div 2; chroma_h = (height + 1) div 2
      in case dst_planes (width * height) (chroma_w * chroma_h) of
           None \<Rightarrow> ([], Panics)
         | Some (n, y, u, v) \<Rightarrow>
             delivered (conv [(snd y, width), (snd u, chroma_w), (snd v, chroma_w)]) n
               (i420_info (slice_ptr d y) (slice_ptr d y) (slice_ptr d u) (slice_ptr d v) width height width chroma_w chroma_w))"

definition into_rgba :: "(plane list \<Rightarrow> conversion_result) \<Rightarrow> u64 \<Rightarrow> buffer_type \<Rightarrow> u32 \<Rightarrow> u32 \<Rightarrow> conversion" where
  "into_rgba conv d t width height =
     (let n = unat (width * height * 4); stride = width * 4
      in delivered (conv [(n, stride)]) n (rgba_info d t width height))"

definition into_rgb :: "(plane list \<Rightarrow> conversion_result) \<Rightarrow> u64 \<Rightarrow> buffer_type \<Rightarrow> u32 \<Rightarrow> u32 \<Rightarrow> conversion" where
  "into_rgb conv d t width height =
     (let n = unat (width * height * 3); stride = width * 3
      in delivered (conv [(n, stride)]) n (rgb_info d t width height))"

section \<open>Packed sources\<close>

definition packed_plane_of :: "u32 \<Rightarrow> video_buffer_info \<Rightarrow> plane" where
  "packed_plane_of bytes b =
     (let stride = (case vb_stride b of None \<Rightarrow> vb_width b * bytes | Some s \<Rightarrow> s) in (unat (stride * vb_height b), stride))"

text \<open>Between the two byte orders the stride of the source is taken for that of the destination.\<close>

definition cvt_rgba :: "(yuv_call \<Rightarrow> i32) \<Rightarrow> u64 \<Rightarrow> video_buffer_info \<Rightarrow> buffer_type \<Rightarrow> bool \<Rightarrow> conversion" where
  "cvt_rgba lib d b t flip_y =
     (if vb_type b \<noteq> Rgba then ([], Panics)
      else let width = vb_width b; height = vb_height b; p = packed_plane_of 4 b
      in case t of
           I420 \<Rightarrow> into_420 (\<lambda>dst. rgba_to_420 ''rs_ABGRToI420'' lib [p] dst width height flip_y) d width height
         | Bgra \<Rightarrow> into_rgba (\<lambda>dst. rgba_to_rgba ''rs_ABGRToARGB'' lib [(fst p, width * 4)] dst width height flip_y) d t width height
         | _ \<Rightarrow> ([], NotSupported Rgba t))"

definition cvt_abgr :: "(yuv_call \<Rightarrow> i32) \<Rightarrow> u64 \<Rightarrow> video_buffer_info \<Rightarrow> buffer_type \<Rightarrow> bool \<Rightarrow> conversion" where
  "cvt_abgr lib d b t flip_y =
     (if vb_type b \<noteq> Rgba then ([], Panics)
      else let width = vb_width b; height = vb_height b; p = packed_plane_of 4 b
      in case t of
           I420 \<Rightarrow> into_420 (\<lambda>dst. rgba_to_420 ''rs_RGBAToI420'' lib [p] dst width height flip_y) d width height
         | _ \<Rightarrow> ([], NotSupported Abgr t))"

definition cvt_argb :: "(yuv_call \<Rightarrow> i32) \<Rightarrow> u64 \<Rightarrow> video_buffer_info \<Rightarrow> buffer_type \<Rightarrow> bool \<Rightarrow> conversion" where
  "cvt_argb lib d b t flip_y =
     (if vb_type b \<noteq> Argb then ([], Panics)
      else let width = vb_width b; height = vb_height b; p = packed_plane_of 4 b
      in case t of
           I420 \<Rightarrow> into_420 (\<lambda>dst. rgba_to_420 ''rs_BGRAToI420'' lib [p] dst width height flip_y) d width height
         | _ \<Rightarrow> ([], NotSupported Argb t))"

definition cvt_bgra :: "(yuv_call \<Rightarrow> i32) \<Rightarrow> u64 \<Rightarrow> video_buffer_info \<Rightarrow> buffer_type \<Rightarrow> bool \<Rightarrow> conversion" where
  "cvt_bgra lib d b t flip_y =
     (if vb_type b \<noteq> Bgra then ([], Panics)
      else let width = vb_width b; height = vb_height b; p = packed_plane_of 4 b
      in case t of
           I420 \<Rightarrow> into_420 (\<lambda>dst. rgba_to_420 ''rs_ARGBToI420'' lib [p] dst width height flip_y) d width height
         | Rgba \<Rightarrow> into_rgba (\<lambda>dst. rgba_to_rgba ''rs_ARGBToABGR'' lib [(fst p, width * 4)] dst width height flip_y) d t width height
         | _ \<Rightarrow> ([], NotSupported Bgra t))"

definition cvt_rgb24 :: "(yuv_call \<Rightarrow> i32) \<Rightarrow> u64 \<Rightarrow> video_buffer_info \<Rightarrow> buffer_type \<Rightarrow> bool \<Rightarrow> conversion" where
  "cvt_rgb24 lib d b t flip_y =
     (if vb_type b \<noteq> Rgb24 then ([], Panics)
      else let width = vb_width b; height = vb_height b; p = packed_plane_of 3 b
      in case t of
           I420 \<Rightarrow> into_420 (\<lambda>dst. raw_to_i420 lib [p] dst width height flip_y) d width height
         | _ \<Rightarrow> ([], NotSupported Rgb24 t))"

section \<open>Planar sources\<close>

text \<open>The slices that the components describe; an index out of range panics.\<close>

definition component_planes :: "nat \<Rightarrow> video_buffer_info \<Rightarrow> plane list option" where
  "component_planes n b =
     (if n \<le> length (vb_components b) then Some (map (\<lambda>c. (unat (ci_size c), ci_stride c)) (take n (vb_components b))) else None)"

text \<open>Elements of two bytes.\<close>

definition component_planes16 :: "nat \<Rightarrow> video_buffer_info \<Rightarrow> plane list option" where
  "component_planes16 n b =
     (if n \<le> length (vb_components b) then Some (map (\<lambda>c. (unat (ci_size c) div 2, ci_stride c)) (take n (vb_components b))) else None)"

definition cvt_i420 :: "(yuv_call \<Rightarrow> i32) \<Rightarrow> u64 \<Rightarrow> video_buffer_info \<Rightarrow> buffer_type \<Rightarrow> bool \<Rightarrow> conversion" where
  "cvt_i420 lib d b t flip_y =
     (if vb_type b \<noteq> I420 then ([], Panics)
      else let width = vb_width b; height = vb_height b
      in case component_planes 3 b of
           None \<Rightarrow> ([], Panics)
         | Some src \<Rightarrow>
             (let cvt = (\<lambda>name. into_rgba (\<lambda>dst. x420_to_rgba name lib src dst width height flip_y) d t width height)
              in case t of
                   Rgba \<Rightarrow> cvt ''rs_I420ToABGR''
                 | Abgr \<Rightarrow> cvt ''rs_I420ToRGBA''
                 | Argb \<Rightarrow> cvt ''rs_I420ToBGRA''
                 | Bgra \<Rightarrow> cvt ''rs_I420ToARGB''
                 | Rgb24 \<Rightarrow> into_rgb (\<lambda>dst. i420_to_raw lib src dst width height flip_y) d t width height
                 | I420 \<Rightarrow> into_420 (\<lambda>dst. i420_copy lib src dst width height flip_y) d width height
                 | _ \<Rightarrow> ([], NotSupported I420 t)))"

text \<open>With an alpha plane: the buffer is longer, and the chroma part is split twice.\<close>

definition dst_planes_alpha :: "u32 \<Rightarrow> u32 \<Rightarrow> (nat \<times> dst_slice \<times> dst_slice \<times> dst_slice \<times> dst_slice) option" where
  "dst_planes_alpha luma_size chroma_size =
     (let n = unat (luma_size + chroma_size * 2 + luma_size)
      in case split_at_mut (unat luma_size) (0, n) of
           None \<Rightarrow> None
         | Some (luma, chroma) \<Rightarrow>
             (case split_at_mut (unat chroma_size) chroma of
                None \<Rightarrow> None
              | Some (u, va) \<Rightarrow>
                  (case split_at_mut (unat chroma_size) va of None \<Rightarrow> None | Some (v, a) \<Rightarrow> Some (n, luma, u, v, a))))"

definition cvt_i420a :: "(yuv_call \<Rightarrow> i32) \<Rightarrow> u64 \<Rightarrow> video_buffer_info \<Rightarrow> buffer_type \<Rightarrow> bool \<Rightarrow> conversion" where
  "cvt_i420a lib d b t flip_y =
     (if vb_type b \<noteq> I420a then ([], Panics)
      else let width = vb_width b; height = vb_height b
      in case component_planes 4 b of
           None \<Rightarrow> ([], Panics)
         | Some src \<Rightarrow>
             (case t of
                I420 \<Rightarrow> into_420 (\<lambda>dst. i420_copy lib (take 3 src) dst width height flip_y) d width height
              | I420a \<Rightarrow>
                  (let chroma_w = (width + 1) div 2; chroma_h = (height + 1) div 2
                   in case dst_planes_alpha (width * height) (chroma_w * chroma_h) of
                        None \<Rightarrow> ([], Panics)
                      | Some (n, y, u, v, a) \<Rightarrow>
                          delivered (i420a_copy lib src [(snd y, width), (snd u, chroma_w), (snd v, chroma_w), (snd a, width)] width height flip_y) n
                            (i420a_info (slice_ptr d y) (slice_ptr d y) (slice_ptr d u) (slice_ptr d v) (slice_ptr d a)
                              width height width chroma_w chroma_w width))
              | _ \<Rightarrow> ([], NotSupported I420a t)))"

definition cvt_i422 :: "(yuv_call \<Rightarrow> i32) \<Rightarrow> u64 \<Rightarrow> video_buffer_info \<Rightarrow> buffer_type \<Rightarrow> bool \<Rightarrow> conversion" where
  "cvt_i422 lib d b t flip_y =
     (if vb_type b \<noteq> I422 then ([], Panics)
      else let width = vb_width b; height = vb_height b
      in case component_planes 3 b of
           None \<Rightarrow> ([], Panics)
         | Some src \<Rightarrow>
             (let cvt = (\<lambda>name. into_rgba (\<lambda>dst. x422_to_rgba name lib src dst width height flip_y) d t width height)
              in case t of
                   Rgba \<Rightarrow> cvt ''rs_I422ToABGR''
                 | Abgr \<Rightarrow> cvt ''rs_I422ToRGBA''
                 | Argb \<Rightarrow> cvt ''rs_I422ToBGRA''
                 | I420 \<Rightarrow> into_420 (\<lambda>dst. i422_to_i420 lib src dst width height flip_y) d width height
                 | I422 \<Rightarrow>
                     (let chroma_w = (width + 1) div 2; chroma_h = height
                      in case dst_planes (width * height) (chroma_w * chroma_h) of
                           None \<Rightarrow> ([], Panics)
                         | Some (n, y, u, v) \<Rightarrow>
                             delivered (i422_copy lib src [(snd y, width), (snd u, chroma_w), (snd v, chroma_w)] width height flip_y) n
                               (i422_info (slice_ptr d y) (slice_ptr d y) (slice_ptr d u) (slice_ptr d v) width height width chroma_w chroma_w))
                 | _ \<Rightarrow> ([], NotSupported I422 t)))"

text \<open>The third component of a copied I444 image keeps the address of the source.\<close>

definition cvt_i444 :: "(yuv_call \<Rightarrow> i32) \<Rightarrow> u64 \<Rightarrow> video_buffer_info \<Rightarrow> buffer_type \<Rightarrow> bool \<Rightarrow> conversion" where
  "cvt_i444 lib d b t flip_y =
     (if vb_type b \<noteq> I444 then ([], Panics)
      else let width = vb_width b; height = vb_height b
      in case component_planes 3 b of
           None \<Rightarrow> ([], Panics)
         | Some src \<Rightarrow>
             (let cvt = (\<lambda>name. into_rgba (\<lambda>dst. x444_to_rgba name lib src dst width height flip_y) d t width height)
              in case t of
                   Rgba \<Rightarrow> cvt ''rs_I444ToABGR''
                 | Bgra \<Rightarrow> cvt ''rs_I444ToARGB''
                 | I420 \<Rightarrow> into_420 (\<lambda>dst. i444_to_i420 lib src dst width height flip_y) d width height
                 | I444 \<Rightarrow>
                     (let chroma_w = width; chroma_h = height
                      in case dst_planes (width * height) (chroma_w * chroma_h) of
                           None \<Rightarrow> ([], Panics)
                         | Some (n, y, u, v) \<Rightarrow>
                             delivered (i444_copy lib src [(snd y, width), (snd u, chroma_w), (snd v, chroma_w)] width height flip_y) n
                               (i444_info (slice_ptr d y) (slice_ptr d y) (slice_ptr d u) (ci_ptr (vb_components b ! 2))
                                 width height width chroma_w chroma_w))
                 | _ \<Rightarrow> ([], NotSupported I444 t)))"

definition cvt_i010 :: "(yuv_call \<Rightarrow> i32) \<Rightarrow> u64 \<Rightarrow> video_buffer_info \<Rightarrow> buffer_type \<Rightarrow> bool \<Rightarrow> conversion" where
  "cvt_i010 lib d b t flip_y =
     (if vb_type b \<noteq> I010 then ([], Panics)
      else let width = vb_width b; height = vb_height b
      in case component_planes16 3 b of
           None \<Rightarrow> ([], Panics)
         | Some src \<Rightarrow>
             (let cvt = (\<lambda>name. into_rgba (\<lambda>dst. x010_to_rgba name lib src dst width height flip_y) d t width height)
              in case t of
                   Rgba \<Rightarrow> cvt ''rs_I010ToABGR''
                 | Bgra \<Rightarrow> cvt ''rs_I010ToARGB''
                 | I420 \<Rightarrow> into_420 (\<lambda>dst. i010_to_i420 lib src dst width height flip_y) d width height
                 | _ \<Rightarrow> ([], NotSupported I010 t)))"

definition cvt_nv12 :: "(yuv_call \<Rightarrow> i32) \<Rightarrow> u64 \<Rightarrow> video_buffer_info \<Rightarrow> buffer_type \<Rightarrow> bool \<Rightarrow> conversion" where
  "cvt_nv12 lib d b t flip_y =
     (if vb_type b \<noteq> Nv12 then ([], Panics)
      else let width = vb_width b; height = vb_height b
      in case component_planes 2 b of
           None \<Rightarrow> ([], Panics)
         | Some src \<Rightarrow>
             (let cvt = (\<lambda>name. into_rgba (\<lambda>dst. nv12_to_rgba name lib src dst width height flip_y) d t width height)
              in case t of
                   Rgba \<Rightarrow> cvt ''rs_NV12ToABGR''
                 | Bgra \<Rightarrow> cvt ''rs_NV12ToARGB''
                 | I420 \<Rightarrow> into_420 (\<lambda>dst. nv12_to_i420 lib src dst width height flip_y) d width height
                 | Nv12 \<Rightarrow>
                     (let chroma_w = (width + 1) div 2; chroma_h = (height + 1) div 2;
                          n = unat (width * height + chroma_w * chroma_h * 2)
                      in case split_at_mut (unat (width * height)) (0, n) of
                           None \<Rightarrow> ([], Panics)
                         | Some (y, uv) \<Rightarrow>
                             delivered (nv12_copy lib src [(snd y, width), (snd uv, chroma_w)] width height flip_y) n
                               (nv12_info (slice_ptr d y) (slice_ptr d y) (slice_ptr d uv) width height width chroma_w))
                 | _ \<Rightarrow> ([], NotSupported Nv12 t)))"

definition cvt :: "(yuv_call \<Rightarrow> i32) \<Rightarrow> u64 \<Rightarrow> video_buffer_info \<Rightarrow> buffer_type \<Rightarrow> bool \<Rightarrow> conversion" where
  "cvt lib d b t flip_y =
     (case vb_type b of
        Rgba \<Rightarrow> cvt_rgba lib d b t flip_y
      | Abgr \<Rightarrow> cvt_abgr lib d b t flip_y
      | Argb \<Rightarrow> cvt_argb lib d b t flip_y
      | Bgra \<Rightarrow> cvt_bgra lib d b t flip_y
      | Rgb24 \<Rightarrow> cvt_rgb24 lib d b t flip_y
      | I420 \<Rightarrow> cvt_i420 lib d b t flip_y
      | I420a \<Rightarrow> cvt_i420a lib d b t flip_y
      | I422 \<Rightarrow> cvt_i422 lib d b t flip_y
      | I444 \<Rightarrow> cvt_i444 lib d b t flip_y
      | I010 \<Rightarrow> cvt_i010 lib d b t flip_y
      | Nv12 \<Rightarrow> cvt_nv12 lib d b t flip_y)"

section \<open>Frames of the WebRTC library\<close>

datatype native_type = NativeType | NativeI420 | NativeI420A | NativeI422 | NativeI444 | NativeI010 | NativeNV12

text \<open>\<open>nb_ptrs\<close>, \<open>nb_strides\<close>: one for each plane; the alpha plane may be missing.\<close>

record native_buffer =
  nb_type :: native_type
  nb_width :: u32
  nb_height :: u32
  nb_ptrs :: "u64 list"
  nb_strides :: "u32 list"

text \<open>Sizes and strides become signed numbers; the library chooses the addresses \<open>ptrs\<close>.\<close>

definition with_strides :: "native_type \<Rightarrow> u64 list \<Rightarrow> u32 \<Rightarrow> u32 \<Rightarrow> u32 list \<Rightarrow> native_buffer option" where
  "with_strides t ptrs width height strides =
     (if list_all (\<lambda>x. unat x < 2 ^ 31) (width # height # strides)
      then Some \<lparr>nb_type = t, nb_width = width, nb_height = height, nb_ptrs = ptrs, nb_strides = strides\<rparr> else None)"

text \<open>How long the slices of the planes are; I010 has elements of two bytes.\<close>

definition native_lengths :: "native_buffer \<Rightarrow> nat list" where
  "native_lengths nb =
     (let height = nb_height nb; chroma_height = (height + 1) div 2
      in case (nb_type nb, nb_strides nb) of
           (NativeI420, [sy, su, sv]) \<Rightarrow> [unat (sy * height), unat (su * chroma_height), unat (sv * chroma_height)]
         | (NativeI422, [sy, su, sv]) \<Rightarrow> [unat (sy * height), unat (su * height), unat (sv * height)]
         | (NativeI444, [sy, su, sv]) \<Rightarrow> [unat (sy * height), unat (su * height), unat (sv * height)]
         | (NativeI010, [sy, su, sv]) \<Rightarrow> [unat (sy * height) div 2, unat (su * chroma_height) div 2, unat (sv * chroma_height) div 2]
         | (NativeNV12, [sy, suv]) \<Rightarrow> [unat (sy * height), unat (suv * chroma_height)]
         | _ \<Rightarrow> [])"

text \<open>Copying a slice panics unless the lengths agree.\<close>

definition copied_into :: "plane list \<Rightarrow> native_buffer option \<Rightarrow> yuv_call list \<times> native_buffer option" where
  "copied_into src nb =
     ([], case nb of None \<Rightarrow> None | Some b \<Rightarrow> if map fst src = native_lengths b then Some b else None)"

definition copy_components ::
  "native_type \<Rightarrow> u64 list \<Rightarrow> plane list option \<Rightarrow> video_buffer_info \<Rightarrow> yuv_call list \<times> native_buffer option" where
  "copy_components t ptrs planes b =
     (case planes of
        None \<Rightarrow> ([], None)
      | Some src \<Rightarrow> copied_into src (with_strides t ptrs (vb_width b) (vb_height b) (map snd src)))"

text \<open>A packed image is converted into the new frame.\<close>

definition convert_to_i420_buffer ::
  "(plane list \<Rightarrow> conversion_result) \<Rightarrow> u64 list \<Rightarrow> u32 \<Rightarrow> u32 \<Rightarrow> yuv_call list \<times> native_buffer option" where
  "convert_to_i420_buffer conv ptrs width height =
     (let chroma_w = (width + 1) div 2; strides = [width, chroma_w, chroma_w]
      in case with_strides NativeI420 ptrs width height strides of
           None \<Rightarrow> ([], None)
         | Some nb \<Rightarrow> (let r = conv (zip (native_lengths nb) strides) in (fst r, if snd r then Some nb else None)))"

definition cvt_rgba_to_i420_buffer :: "(yuv_call \<Rightarrow> i32) \<Rightarrow> u64 list \<Rightarrow> video_buffer_info \<Rightarrow> bool \<Rightarrow> yuv_call list \<times> native_buffer option" where
  "cvt_rgba_to_i420_buffer lib ptrs b flip_y =
     (if vb_type b \<noteq> Rgba then ([], None)
      else let width = vb_width b; height = vb_height b
      in convert_to_i420_buffer (\<lambda>dst. rgba_to_420 ''rs_ABGRToI420'' lib [packed_plane_of 4 b] dst width height flip_y) ptrs width height)"

definition cvt_abgr_to_i420_buffer :: "(yuv_call \<Rightarrow> i32) \<Rightarrow> u64 list \<Rightarrow> video_buffer_info \<Rightarrow> bool \<Rightarrow> yuv_call list \<times> native_buffer option" where
  "cvt_abgr_to_i420_buffer lib ptrs b flip_y =
     (if vb_type b \<noteq> Abgr then ([], None)
      else let width = vb_width b; height = vb_height b
      in convert_to_i420_buffer (\<lambda>dst. rgba_to_420 ''rs_RGBAToI420'' lib [packed_plane_of 4 b] dst width height flip_y) ptrs width height)"

definition cvt_argb_to_i420_buffer :: "(yuv_call \<Rightarrow> i32) \<Rightarrow> u64 list \<Rightarrow> video_buffer_info \<Rightarrow> bool \<Rightarrow> yuv_call list \<times> native_buffer option" where
  "cvt_argb_to_i420_buffer lib ptrs b flip_y =
     (if vb_type b \<noteq> Argb then ([], None)
      else let width = vb_width b; height = vb_height b
      in convert_to_i420_buffer (\<lambda>dst. rgba_to_420 ''rs_BGRAToI420'' lib [packed_plane_of 4 b] dst width height flip_y) ptrs width height)"

definition cvt_bgra_to_i420_buffer :: "(yuv_call \<Rightarrow> i32) \<Rightarrow> u64 list \<Rightarrow> video_buffer_info \<Rightarrow> bool \<Rightarrow> yuv_call list \<times> native_buffer option" where
  "cvt_bgra_to_i420_buffer lib ptrs b flip_y =
     (if vb_type b \<noteq> Bgra then ([], None)
      else let width = vb_width b; height = vb_height b
      in convert_to_i420_buffer (\<lambda>dst. rgba_to_420 ''rs_ARGBToI420'' lib [packed_plane_of 4 b] dst width height flip_y) ptrs width height)"

definition cvt_rgb24_to_i420_buffer :: "(yuv_call \<Rightarrow> i32) \<Rightarrow> u64 list \<Rightarrow> video_buffer_info \<Rightarrow> bool \<Rightarrow> yuv_call list \<times> native_buffer option" where
  "cvt_rgb24_to_i420_buffer lib ptrs b flip_y =
     (if vb_type b \<noteq> Rgb24 then ([], None)
      else let width = vb_width b; height = vb_height b
      in convert_to_i420_buffer (\<lambda>dst. raw_to_i420 lib [packed_plane_of 3 b] dst width height flip_y) ptrs width height)"

definition to_libwebrtc_buffer :: "(yuv_call \<Rightarrow> i32) \<Rightarrow> u64 list \<Rightarrow> video_buffer_info \<Rightarrow> yuv_call list \<times> native_buffer option" where
  "to_libwebrtc_buffer lib ptrs b =
     (case vb_type b of
        Rgba \<Rightarrow> cvt_rgba_to_i420_buffer lib ptrs b False
      | Abgr \<Rightarrow> cvt_abgr_to_i420_buffer lib ptrs b False
      | Argb \<Rightarrow> cvt_argb_to_i420_buffer lib ptrs b False
      | Bgra \<Rightarrow> cvt_bgra_to_i420_buffer lib ptrs b False
      | Rgb24 \<Rightarrow> cvt_rgb24_to_i420_buffer lib ptrs b False
      | I420 \<Rightarrow> copy_components NativeI420 ptrs (component_planes 3 b) b
      | I420a \<Rightarrow> copy_components NativeI420 ptrs (component_planes 3 b) b
      | I422 \<Rightarrow> copy_components NativeI422 ptrs (component_planes 3 b) b
      | I444 \<Rightarrow> copy_components NativeI444 ptrs (component_planes 3 b) b
      | I010 \<Rightarrow> copy_components NativeI010 ptrs (component_planes16 3 b) b
      | Nv12 \<Rightarrow> copy_components NativeNV12 ptrs (component_planes 2 b) b)"

text \<open>The description of a frame; \<open>None\<close> where a plane is missing.\<close>

definition native_info :: "native_buffer \<Rightarrow> video_buffer_info option" where
  "native_info nb =
     (let width = nb_width nb; height = nb_height nb
      in case (nb_type nb, nb_ptrs nb, nb_strides nb) of
           (NativeI420, [y, u, v], [sy, su, sv]) \<Rightarrow> Some (i420_info y y u v width height sy su sv)
         | (NativeI420A, [y, u, v, a], [sy, su, sv, sa]) \<Rightarrow> Some (i420a_info y y u v a width height sy su sv sa)
         | (NativeI422, [y, u, v], [sy, su, sv]) \<Rightarrow> Some (i422_info y y u v width height sy su sv)
         | (NativeI444, [y, u, v], [sy, su, sv]) \<Rightarrow> Some (i444_info y y u v width height sy su sv)
         | (NativeI010, [y, u, v], [sy, su, sv]) \<Rightarrow> Some (i010_info y y u v width height sy su sv)
         | (NativeNV12, [y, uv], [sy, suv]) \<Rightarrow> Some (nv12_info y y uv width height sy suv)
         | _ \<Rightarrow> None)"

fun default_type :: "native_type \<Rightarrow> buffer_type" where
  "default_type NativeType = I420"
| "default_type NativeI420 = I420"
| "default_type NativeI420A = I420a"
| "default_type NativeI422 = I422"
| "default_type NativeI444 = I444"
| "default_type NativeI010 = I010"
| "default_type NativeNV12 = Nv12"

text \<open>\<open>to_i420\<close> is the library's conversion of a frame of its own kind.\<close>

definition to_video_buffer_info ::
  "(yuv_call \<Rightarrow> i32) \<Rightarrow> (native_buffer \<Rightarrow> native_buffer) \<Rightarrow> u64 \<Rightarrow> native_buffer \<Rightarrow> buffer_type option \<Rightarrow> conversion" where
  "to_video_buffer_info lib to_i420 d nb t =
     (let frame = (if nb_type nb = NativeType then to_i420 nb else nb)
      in case native_info frame of
           None \<Rightarrow> ([], Panics)
         | Some info \<Rightarrow> cvt lib d info (case t of None \<Rightarrow> default_type (nb_type nb) | Some t' \<Rightarrow> t') False)"

section \<open>What the conversions are meant to do\<close>

text \<open>The pairs that have code, and the buffer of each type: its length and its description from its address.\<close>

fun conversion_targets :: "buffer_type \<Rightarrow> buffer_type list" where
  "conversion_targets Rgba = [I420, Bgra]"
| "conversion_targets Abgr = [I420]"
| "conversion_targets Argb = [I420]"
| "conversion_targets Bgra = [I420, Rgba]"
| "conversion_targets Rgb24 = [I420]"
| "conversion_targets I420 = [Rgba, Abgr, Argb, Bgra, Rgb24, I420]"
| "conversion_targets I420a = [I420, I420a]"
| "conversion_targets I422 = [Rgba, Abgr, Argb, I420, I422]"
| "conversion_targets I444 = [Rgba, Bgra, I420, I444]"
| "conversion_targets I010 = [Rgba, Bgra, I420]"
| "conversion_targets Nv12 = [Rgba, Bgra, I420, Nv12]"

text \<open>Every plane of a tight image: its row and its rows.\<close>

fun tight_planes :: "buffer_type \<Rightarrow> nat \<Rightarrow> nat \<Rightarrow> (nat \<times> nat) list" where
  "tight_planes Rgb24 w h = [(3 * w, h)]"
| "tight_planes I420 w h = [(w, h), ((w + 1) div 2, (h + 1) div 2), ((w + 1) div 2, (h + 1) div 2)]"
| "tight_planes I420a w h = [(w, h), ((w + 1) div 2, (h + 1) div 2), ((w + 1) div 2, (h + 1) div 2), (w, h)]"
| "tight_planes I422 w h = [(w, h), ((w + 1) div 2, h), ((w + 1) div 2, h)]"
| "tight_planes I444 w h = [(w, h), (w, h), (w, h)]"
| "tight_planes _ w h = [(4 * w, h)]"

fun packed :: "buffer_type \<Rightarrow> bool" where
  "packed t \<longleftrightarrow> t \<in> {Rgba, Abgr, Argb, Bgra, Rgb24}"

fun tight_components :: "u64 \<Rightarrow> nat \<Rightarrow> (nat \<times> nat) list \<Rightarrow> component_info list" where
  "tight_components d k [] = []"
| "tight_components d k ((row, rows) # ps) =
     \<lparr>ci_ptr = d + of_nat k, ci_stride = of_nat row, ci_size = of_nat (row * rows)\<rparr> # tight_components d (k + row * rows) ps"

text \<open>A buffer of the type that holds exactly the image, its planes one after the other.\<close>

definition tight_info :: "u64 \<Rightarrow> buffer_type \<Rightarrow> u32 \<Rightarrow> u32 \<Rightarrow> video_buffer_info" where
  "tight_info d t width height =
     (let ps = tight_planes t (unat width) (unat height)
      in \<lparr>vb_type = t, vb_width = width, vb_height = height, vb_ptr = d,
          vb_stride = (if packed t then Some (of_nat (fst (hd ps))) else None),
          vb_components = (if packed t then [] else tight_components d 0 ps)\<rparr>)"

definition tight_length :: "buffer_type \<Rightarrow> u32 \<Rightarrow> u32 \<Rightarrow> nat" where
  "tight_length t width height = sum_list (map (\<lambda>(row, rows). row * rows) (tight_planes t (unat width) (unat height)))"

text \<open>
  A source that a caller describes as the functions expect it: the planes of its type with room for the rows.  The size of an I010
  plane is in bytes, its stride in elements.  The image is small enough for the products.
\<close>

definition small_image :: "u32 \<Rightarrow> u32 \<Rightarrow> bool" where
  "small_image width height \<longleftrightarrow> 0 < unat width \<and> 0 < unat height \<and> 4 * (unat width * unat height) < 2 ^ 32"

definition plane_ok :: "nat \<Rightarrow> nat \<times> nat \<Rightarrow> u32 \<Rightarrow> component_info \<Rightarrow> bool" where
  "plane_ok bytes rr height c \<longleftrightarrow>
     fst rr \<le> unat (ci_stride c) \<and> bytes * (unat (ci_stride c) * snd rr) \<le> unat (ci_size c) \<and> unat (ci_stride c) * unat height < 2 ^ 32"

fun source_planes :: "buffer_type \<Rightarrow> nat \<Rightarrow> nat \<Rightarrow> (nat \<times> nat) list" where
  "source_planes I010 w h = tight_planes I420 w h"
| "source_planes Nv12 w h = [(w, h), (2 * ((w + 1) div 2), (h + 1) div 2)]"
| "source_planes t w h = tight_planes t w h"

definition well_described :: "video_buffer_info \<Rightarrow> bool" where
  "well_described b \<longleftrightarrow>
     (let ps = source_planes (vb_type b) (unat (vb_width b)) (unat (vb_height b))
      in small_image (vb_width b) (vb_height b) \<and>
        (if packed (vb_type b)
         then (case vb_stride b of None \<Rightarrow> True
               | Some s \<Rightarrow> fst (hd ps) \<le> unat s \<and> unat s * unat (vb_height b) < 2 ^ 32)
         else list_all2 (\<lambda>rr c. plane_ok (if vb_type b = I010 then 2 else 1) rr (vb_height b) c) ps (vb_components b)))"

section \<open>What they do\<close>

lemma quarter_less: "4 * (p :: nat) < 2 ^ 32 \<Longrightarrow> p < 2 ^ 30" "(p :: nat) < 2 ^ 30 \<Longrightarrow> q \<le> p \<Longrightarrow> q < 2 ^ 30" "(p :: nat) < 2 ^ 30 \<Longrightarrow> q \<le> p \<Longrightarrow> q < 2 ^ 32"
  by simp_all

lemma small_image_bounds:
  assumes "small_image w h"
  shows "unat w < 2 ^ 30" and "unat h < 2 ^ 30" and "unat w * unat h < 2 ^ 30"
proof -
  show p: "unat w * unat h < 2 ^ 30" using assms unfolding small_image_def by (blast intro: quarter_less(1))
  have "unat w \<le> unat w * unat h" "unat h \<le> unat w * unat h" using assms by (simp_all add: small_image_def)
  then show "unat w < 2 ^ 30" "unat h < 2 ^ 30" using quarter_less(2) [OF p] by blast+
qed

lemma small_product: "small_image w h \<Longrightarrow> n \<le> unat w * unat h \<Longrightarrow> n < 2 ^ 32"
  by (rule quarter_less(3) [OF small_image_bounds(3)])

lemma unat_product: "small_image w h \<Longrightarrow> unat (w * h) = unat w * unat h"
  using small_product by (intro unat_mult_small) blast

lemma unat_chroma:
  assumes "small_image w h"
  shows "unat ((w + 1) div 2) = (unat w + 1) div 2" and "unat ((h + 1) div 2) = (unat h + 1) div 2"
  by (rule unat_half, rule less_trans [OF small_image_bounds(1) [OF assms]], simp,
      rule unat_half, rule less_trans [OF small_image_bounds(2) [OF assms]], simp)

lemma chroma_le: "0 < (n :: nat) \<Longrightarrow> (n + 1) div 2 \<le> n"
  by linarith

lemma chroma_product_le:
  assumes "small_image w h"
  shows "(unat w + 1) div 2 * ((unat h + 1) div 2) \<le> unat w * unat h" and "(unat w + 1) div 2 * unat h \<le> unat w * unat h"
  using assms by (auto simp: small_image_def intro!: mult_le_mono chroma_le)

lemma unat_chroma_product:
  assumes "small_image w h"
  shows "unat ((w + 1) div 2 * ((h + 1) div 2)) = (unat w + 1) div 2 * ((unat h + 1) div 2)"
    and "unat ((w + 1) div 2 * h) = (unat w + 1) div 2 * unat h"
  using small_product [OF assms chroma_product_le(1) [OF assms]] small_product [OF assms chroma_product_le(2) [OF assms]]
  unfolding unat_chroma [OF assms, symmetric] by (simp_all only: unat_mult_small)

text \<open>The destination of a small image: no split panics, and the parts follow each other.\<close>

lemma dst_planes_small:
  assumes "unat l < 2 ^ 30" and "unat c \<le> unat l"
  shows "dst_planes l c = Some (unat l + 2 * unat c, (0, unat l), (unat l, unat c), (unat l + unat c, unat c))"
    and "dst_planes_alpha l c =
      Some (2 * unat l + 2 * unat c, (0, unat l), (unat l, unat c), (unat l + unat c, unat c), (unat l + 2 * unat c, unat l))"
proof -
  have "unat (l + c * 2) = unat l + 2 * unat c" "unat (l + c * 2 + l) = 2 * unat l + 2 * unat c"
    using assms by (simp_all add: unat_word_ariths)
  then show "dst_planes l c = Some (unat l + 2 * unat c, (0, unat l), (unat l, unat c), (unat l + unat c, unat c))"
    "dst_planes_alpha l c =
      Some (2 * unat l + 2 * unat c, (0, unat l), (unat l, unat c), (unat l + unat c, unat c), (unat l + 2 * unat c, unat l))"
    by (simp_all add: dst_planes_def dst_planes_alpha_def Let_def)
qed




lemma no_wrap_small:
  assumes "small_image w h" and "list_all (\<lambda>(len, s). unat s * unat h < 2 ^ 32) planes"
  shows "no_wrap planes w h"
  using small_image_bounds [OF assms(1)] assms(2) by (simp add: no_wrap_def)

lemmas small_rules = unat_product unat_chroma unat_chroma_product


lemma small_product4:
  assumes "small_image w h"
  shows "unat (w * 4) * unat h = 4 * (unat w * unat h)" and "4 * (unat w * unat h) < 2 ^ 32"
    and "unat (w * 3) * unat h = 3 * (unat w * unat h)" and "3 * (unat w * unat h) < 2 ^ 32"
proof -
  show p: "4 * (unat w * unat h) < 2 ^ 32" using assms by (simp add: small_image_def)
  have "3 * (unat w * unat h) \<le> 4 * (unat w * unat h)" by simp
  then show "3 * (unat w * unat h) < 2 ^ 32" using p by (rule le_less_trans)
  show "unat (w * 4) * unat h = 4 * (unat w * unat h)" "unat (w * 3) * unat h = 3 * (unat w * unat h)"
    unfolding unat_times [OF small_image_bounds(1) [OF assms]] by (simp_all only: mult.assoc)
qed

lemma unat_packed:
  assumes "small_image w h"
  shows "unat (w * 4 * h) = 4 * (unat w * unat h)" and "unat (w * 3 * h) = 3 * (unat w * unat h)"
    and "w * h * 4 = w * 4 * h" and "w * h * 3 = w * 3 * h"
proof -
  note p = small_product4 [OF assms]
  show "unat (w * 4 * h) = 4 * (unat w * unat h)" using unat_mult_small [of "w * 4" h] p(2) unfolding p(1) .
  show "unat (w * 3 * h) = 3 * (unat w * unat h)" using unat_mult_small [of "w * 3" h] p(4) unfolding p(3) .
qed (simp_all only: ac_simps)






lemma dst_sizes:
  assumes "small_image w h"
  shows "unat (w * h) < 2 ^ 30" and "unat ((w + 1) div 2 * ((h + 1) div 2)) \<le> unat (w * h)" and "unat ((w + 1) div 2 * h) \<le> unat (w * h)"
  using small_image_bounds(3) [OF assms] chroma_product_le [OF assms] by (simp_all only: small_rules [OF assms])

text \<open>The tight descriptions, over words.\<close>

lemma tight_words:
  assumes "small_image w h"
  shows "tight_planes I420 (unat w) (unat h) = [(unat w, unat h), (unat ((w + 1) div 2), unat ((h + 1) div 2)), (unat ((w + 1) div 2), unat ((h + 1) div 2))]"
    and "tight_planes I420a (unat w) (unat h) =
      [(unat w, unat h), (unat ((w + 1) div 2), unat ((h + 1) div 2)), (unat ((w + 1) div 2), unat ((h + 1) div 2)), (unat w, unat h)]"
    and "tight_planes I422 (unat w) (unat h) = [(unat w, unat h), (unat ((w + 1) div 2), unat h), (unat ((w + 1) div 2), unat h)]"
  by (simp_all only: tight_planes.simps unat_chroma [OF assms])

lemma tight_products:
  assumes "small_image w h"
  shows "unat w * unat h = unat (w * h)"
    and "unat ((w + 1) div 2) * unat ((h + 1) div 2) = unat ((w + 1) div 2 * ((h + 1) div 2))"
    and "unat ((w + 1) div 2) * unat h = unat ((w + 1) div 2 * h)"
  by (simp_all only: small_rules [OF assms])


text \<open>What the source descriptions give: planes that pass the checks.\<close>

lemma component_planes_all:
  "length (vb_components b) = n \<Longrightarrow> component_planes n b = Some (map (\<lambda>c. (unat (ci_size c), ci_stride c)) (vb_components b))"
  "length (vb_components b) = n \<Longrightarrow> component_planes16 n b = Some (map (\<lambda>c. (unat (ci_size c) div 2, ci_stride c)) (vb_components b))"
  by (simp_all add: component_planes_def component_planes16_def)



definition source_of :: "nat \<Rightarrow> video_buffer_info \<Rightarrow> plane list" where
  "source_of bytes b = map (\<lambda>c. (unat (ci_size c) div bytes, ci_stride c)) (vb_components b)"

lemma source_planar:
  assumes "well_described b" and "\<not> packed (vb_type b)"
  shows "length (vb_components b) = length (source_planes (vb_type b) (unat (vb_width b)) (unat (vb_height b)))"
    and "no_wrap (source_of n b) (vb_width b) (vb_height b)"
proof -
  have l: "list_all2 (\<lambda>rr c. plane_ok (if vb_type b = I010 then 2 else 1) rr (vb_height b) c)
      (source_planes (vb_type b) (unat (vb_width b)) (unat (vb_height b))) (vb_components b)"
    and s: "small_image (vb_width b) (vb_height b)"
    using assms by (simp_all add: well_described_def Let_def)
  show "length (vb_components b) = length (source_planes (vb_type b) (unat (vb_width b)) (unat (vb_height b)))"
    using l by (rule list_all2_lengthD [symmetric])
  have "list_all2 (\<lambda>rr c. unat (ci_stride c) * unat (vb_height b) < 2 ^ 32)
      (source_planes (vb_type b) (unat (vb_width b)) (unat (vb_height b))) (vb_components b)"
    using l by (rule list_all2_mono) (simp add: plane_ok_def)
  then have "\<forall>c \<in> set (vb_components b). unat (ci_stride c) * unat (vb_height b) < 2 ^ 32"
    by (auto simp: list_all2_conv_all_nth in_set_conv_nth)
  then show "no_wrap (source_of n b) (vb_width b) (vb_height b)"
    using s by (intro no_wrap_small) (auto simp: source_of_def list_all_iff)
qed











text \<open>A copied I444 image is described with a component of its source.\<close>

definition stale_plane :: "u64 \<Rightarrow> video_buffer_info \<Rightarrow> video_buffer_info" where
  "stale_plane v info =
     (case vb_components info of [y, u, c] \<Rightarrow> info\<lparr>vb_components := [y, u, c\<lparr>ci_ptr := v\<rparr>]\<rparr> | _ \<Rightarrow> info)"



text \<open>An interleaved chroma plane needs rows of even length, and the copy gives it rows of half the width.\<close>

lemma nv12_never_copied:
  assumes "small_image w h"
  shows "nv12_copy lib src [y, (k, (w + 1) div 2)] w h flip = ([], False)"
proof -
  have "(unat w + 1) div 2 < 2 * ((unat w + 1) div 2)" using assms by (simp add: small_image_def)
  then have "\<not> w + w mod 2 \<le> (w + 1) div 2"
    unfolding word_le_nat_alt unat_even [OF small_image_bounds(1) [OF assms]] unat_chroma [OF assms] by simp
  then show ?thesis by (cases y) (simp add: nv12_copy_def converted_def Let_def)
qed

text \<open>The answer for a well-described source.\<close>

definition cvt_answer :: "u64 \<Rightarrow> video_buffer_info \<Rightarrow> buffer_type \<Rightarrow> conversion_answer" where
  "cvt_answer d b t =
     (let width = vb_width b; height = vb_height b
      in if vb_type b = Abgr \<or> (vb_type b = Nv12 \<and> t = Nv12) then Panics
         else if t \<notin> set (conversion_targets (vb_type b)) then NotSupported (vb_type b) t
         else Delivered (tight_length t width height)
           (if vb_type b = I444 \<and> t = I444 then stale_plane (ci_ptr (vb_components b ! 2)) (tight_info d t width height)
            else tight_info d t width height))"


lemma well_described_small: "well_described b \<Longrightarrow> small_image (vb_width b) (vb_height b)"
  by (simp add: well_described_def Let_def)

lemma source_components:
  assumes "well_described b" and "\<not> packed (vb_type b)"
  shows "vb_type b \<in> {I420, I422, I444} \<Longrightarrow> component_planes 3 b = Some (source_of 1 b)"
    and "vb_type b = I420a \<Longrightarrow> component_planes 4 b = Some (source_of 1 b)"
    and "vb_type b = I010 \<Longrightarrow> component_planes16 3 b = Some (source_of 2 b)"
    and "vb_type b = Nv12 \<Longrightarrow> component_planes 2 b = Some (source_of 1 b)"
  using source_planar(1) [OF assms] by (auto simp: source_of_def component_planes_all numeral_eq_Suc)







section \<open>The calls they make\<close>

text \<open>
  The library names the byte orders of a packed image from its last byte.  Images of the same planes are copied; the
  alpha plane is copied by a second call.  The height is negative when the rows are wanted in the other order.
\<close>

fun yuv_name :: "buffer_type \<Rightarrow> string" where
  "yuv_name Rgba = ''ABGR''"
| "yuv_name Abgr = ''RGBA''"
| "yuv_name Argb = ''BGRA''"
| "yuv_name Bgra = ''ARGB''"
| "yuv_name Rgb24 = ''RAW''"
| "yuv_name I420 = ''I420''"
| "yuv_name I420a = ''I420''"
| "yuv_name I422 = ''I422''"
| "yuv_name I444 = ''I444''"
| "yuv_name I010 = ''I010''"
| "yuv_name Nv12 = ''NV12''"

definition library_function :: "buffer_type \<Rightarrow> buffer_type \<Rightarrow> string" where
  "library_function s t = ''rs_'' @ yuv_name s @ (if yuv_name s = yuv_name t then ''Copy'' else ''To'' @ yuv_name t)"

definition library_call :: "string \<Rightarrow> plane list \<Rightarrow> video_buffer_info \<Rightarrow> bool \<Rightarrow> yuv_call" where
  "library_call name planes b flip =
     \<lparr>yc_name = name, yc_planes = planes, yc_width = vb_width b, yc_height = (if flip then - vb_height b else vb_height b)\<rparr>"

text \<open>
  The planes of the source: as the caller describes them, except that between packed images the stride is the tight one, whatever
  the caller says; and those of the new buffer.
\<close>

definition given_planes :: "video_buffer_info \<Rightarrow> buffer_type \<Rightarrow> plane list" where
  "given_planes b t =
     (if packed (vb_type b)
      then let tight = of_nat (fst (hd (tight_planes (vb_type b) (unat (vb_width b)) (unat (vb_height b)))));
               stride = (case vb_stride b of None \<Rightarrow> tight | Some s \<Rightarrow> s)
           in [(unat stride * unat (vb_height b), if packed t then tight else stride)]
      else map (\<lambda>c. (unat (ci_size c) div (if vb_type b = I010 then 2 else 1), ci_stride c)) (vb_components b))"

definition made_planes :: "buffer_type \<Rightarrow> u32 \<Rightarrow> u32 \<Rightarrow> plane list" where
  "made_planes t width height = map (\<lambda>(row, rows). (row * rows, of_nat row)) (tight_planes t (unat width) (unat height))"

definition cvt_calls :: "video_buffer_info \<Rightarrow> buffer_type \<Rightarrow> bool \<Rightarrow> yuv_call list" where
  "cvt_calls b t flip =
     (if vb_type b = Abgr \<or> (vb_type b = Nv12 \<and> t = Nv12) \<or> t \<notin> set (conversion_targets (vb_type b)) then []
      else let src = given_planes b t; dst = made_planes t (vb_width b) (vb_height b)
      in library_call (library_function (vb_type b) t) (take 3 src @ take 3 dst) b flip
           # (if t = I420a then [library_call ''rs_CopyPlane'' (drop 3 src @ drop 3 dst) b flip] else []))"

lemma made_planes_words:
  assumes "small_image w h"
  shows "made_planes I420 w h = [(unat (w * h), w), (unat ((w + 1) div 2 * ((h + 1) div 2)), (w + 1) div 2),
      (unat ((w + 1) div 2 * ((h + 1) div 2)), (w + 1) div 2)]"
    and "made_planes I420a w h = [(unat (w * h), w), (unat ((w + 1) div 2 * ((h + 1) div 2)), (w + 1) div 2),
      (unat ((w + 1) div 2 * ((h + 1) div 2)), (w + 1) div 2), (unat (w * h), w)]"
    and "made_planes I422 w h = [(unat (w * h), w), (unat ((w + 1) div 2 * h), (w + 1) div 2), (unat ((w + 1) div 2 * h), (w + 1) div 2)]"
    and "made_planes I444 w h = [(unat (w * h), w), (unat (w * h), w), (unat (w * h), w)]"
    and "t \<in> {Rgba, Abgr, Argb, Bgra} \<Longrightarrow> made_planes t w h = [(unat (w * h * 4), w * 4)]"
    and "made_planes Rgb24 w h = [(unat (w * h * 3), w * 3)]"
proof -
  have "4 * unat w * unat h = unat (w * h * 4)" "3 * unat w * unat h = unat (w * h * 3)"
    unfolding unat_packed(3,4) [OF assms] unat_packed(1,2) [OF assms] by simp_all
  then show "made_planes Rgb24 w h = [(unat (w * h * 3), w * 3)]"
    "t \<in> {Rgba, Abgr, Argb, Bgra} \<Longrightarrow> made_planes t w h = [(unat (w * h * 4), w * 4)]"
    by (auto simp: made_planes_def)
qed (auto simp: made_planes_def tight_words [OF assms] tight_products [OF assms] simp del: tight_planes.simps(2-4))

text \<open>A conversion that makes one call when it returns, and what it is called with.\<close>

definition one_call :: "string \<Rightarrow> plane list \<Rightarrow> u32 \<Rightarrow> u32 \<Rightarrow> bool \<Rightarrow> (plane list \<Rightarrow> conversion_result) \<Rightarrow> bool" where
  "one_call name src w h flip conv \<longleftrightarrow> (\<forall>dst. snd (conv dst) \<longrightarrow> fst (conv dst) = [yuv_call_of name (src @ dst) w h flip])"

lemma one_call_converted: "one_call name src w h flip (\<lambda>dst. converted lib (ok dst) name (src @ dst) w h flip)"
  by (simp add: one_call_def converted_def Let_def)

lemma one_calls:
  "one_call name src w h flip (\<lambda>dst. x420_to_rgba name lib src dst w h flip)"
  "one_call name src w h flip (\<lambda>dst. x422_to_rgba name lib src dst w h flip)"
  "one_call name src w h flip (\<lambda>dst. x444_to_rgba name lib src dst w h flip)"
  "one_call name src w h flip (\<lambda>dst. x010_to_rgba name lib src dst w h flip)"
  "one_call name src w h flip (\<lambda>dst. nv12_to_rgba name lib src dst w h flip)"
  "one_call name src w h flip (\<lambda>dst. rgba_to_rgba name lib src dst w h flip)"
  "one_call name src w h flip (\<lambda>dst. rgba_to_420 name lib src dst w h flip)"
  "one_call ''rs_I420ToRAW'' src w h flip (\<lambda>dst. i420_to_raw lib src dst w h flip)"
  "one_call ''rs_RAWToI420'' src w h flip (\<lambda>dst. raw_to_i420 lib src dst w h flip)"
  "one_call ''rs_I420Copy'' src w h flip (\<lambda>dst. i420_copy lib src dst w h flip)"
  "one_call ''rs_I422Copy'' src w h flip (\<lambda>dst. i422_copy lib src dst w h flip)"
  "one_call ''rs_I444Copy'' src w h flip (\<lambda>dst. i444_copy lib src dst w h flip)"
  "one_call ''rs_I422ToI420'' src w h flip (\<lambda>dst. i422_to_i420 lib src dst w h flip)"
  "one_call ''rs_I444ToI420'' src w h flip (\<lambda>dst. i444_to_i420 lib src dst w h flip)"
  "one_call ''rs_I010ToI420'' src w h flip (\<lambda>dst. i010_to_i420 lib src dst w h flip)"
  "one_call ''rs_NV12ToI420'' src w h flip (\<lambda>dst. nv12_to_i420 lib src dst w h flip)"
  unfolding conversion_defs by (rule one_call_converted | simp add: one_call_def raw_to_i420_def)+

lemma i420a_copy_calls:
  "snd (i420a_copy lib src dst w h flip) \<Longrightarrow> fst (i420a_copy lib src dst w h flip) =
     [yuv_call_of ''rs_I420Copy'' (take 3 src @ take 3 dst) w h flip, yuv_call_of ''rs_CopyPlane'' (drop 3 src @ drop 3 dst) w h flip]"
  using one_calls(10) [of "take 3 src" w h flip lib, unfolded one_call_def, rule_format, of "take 3 dst"]
  by (auto simp: i420a_copy_def split: if_splits prod.splits bool.splits)

text \<open>A conversion that does not panic has handed the planes of the new buffer to \<open>conv\<close>.\<close>

lemma into_calls:
  assumes "small_image w h" and "one_call name src w h flip conv"
  shows "snd (into_420 conv d w h) \<noteq> Panics \<Longrightarrow> fst (into_420 conv d w h) = [yuv_call_of name (src @ made_planes I420 w h) w h flip]"
    and "t \<in> {Rgba, Abgr, Argb, Bgra} \<Longrightarrow> snd (into_rgba conv d t w h) \<noteq> Panics \<Longrightarrow>
      fst (into_rgba conv d t w h) = [yuv_call_of name (src @ made_planes t w h) w h flip]"
    and "snd (into_rgb conv d Rgb24 w h) \<noteq> Panics \<Longrightarrow>
      fst (into_rgb conv d Rgb24 w h) = [yuv_call_of name (src @ made_planes Rgb24 w h) w h flip]"
  using dst_planes_small(1) [OF dst_sizes(1,2) [OF assms(1)]] assms(2)
  by (auto simp: into_420_def into_rgba_def into_rgb_def delivered_def made_planes_words [OF assms(1)] one_call_def Let_def split: if_splits)

lemmas into_420_calls = one_calls(7,9,10,13-16) [THEN into_calls(1) [rotated]]
lemmas into_rgba_calls = one_calls(1-6) [THEN into_calls(2) [rotated]]
lemmas into_rgb_calls = one_calls(8) [THEN into_calls(3) [rotated]]

text \<open>The copies with planes of their own.\<close>

lemma copied_calls:
  assumes "small_image w h" and "one_call name src w h flip conv"
  shows "snd (case dst_planes (w * h) (w * h) of
            None \<Rightarrow> ([], Panics)
          | Some (n, y, u, v) \<Rightarrow> delivered (conv [(snd y, w), (snd u, w), (snd v, w)]) n (info n y u v)) \<noteq> Panics \<Longrightarrow>
      fst (case dst_planes (w * h) (w * h) of
            None \<Rightarrow> ([], Panics)
          | Some (n, y, u, v) \<Rightarrow> delivered (conv [(snd y, w), (snd u, w), (snd v, w)]) n (info n y u v))
        = [yuv_call_of name (src @ made_planes I444 w h) w h flip]"
    and "snd (case dst_planes (w * h) ((w + 1) div 2 * h) of
            None \<Rightarrow> ([], Panics)
          | Some (n, y, u, v) \<Rightarrow> delivered (conv [(snd y, w), (snd u, (w + 1) div 2), (snd v, (w + 1) div 2)]) n (info n y u v)) \<noteq> Panics \<Longrightarrow>
      fst (case dst_planes (w * h) ((w + 1) div 2 * h) of
            None \<Rightarrow> ([], Panics)
          | Some (n, y, u, v) \<Rightarrow> delivered (conv [(snd y, w), (snd u, (w + 1) div 2), (snd v, (w + 1) div 2)]) n (info n y u v))
        = [yuv_call_of name (src @ made_planes I422 w h) w h flip]"
  using dst_planes_small(1) [OF dst_sizes(1) [OF assms(1)] order_refl] dst_planes_small(1) [OF dst_sizes(1,3) [OF assms(1)]] assms(2)
  by (auto simp: delivered_def made_planes_words [OF assms(1)] one_call_def split: if_splits)

lemma copied_alpha_calls:
  assumes "small_image w h"
  shows "snd (case dst_planes_alpha (w * h) ((w + 1) div 2 * ((h + 1) div 2)) of
            None \<Rightarrow> ([], Panics)
          | Some (n, y, u, v, a) \<Rightarrow>
              delivered (i420a_copy lib src [(snd y, w), (snd u, (w + 1) div 2), (snd v, (w + 1) div 2), (snd a, w)] w h flip) n (info n y u v a))
        \<noteq> Panics \<Longrightarrow>
      fst (case dst_planes_alpha (w * h) ((w + 1) div 2 * ((h + 1) div 2)) of
            None \<Rightarrow> ([], Panics)
          | Some (n, y, u, v, a) \<Rightarrow>
              delivered (i420a_copy lib src [(snd y, w), (snd u, (w + 1) div 2), (snd v, (w + 1) div 2), (snd a, w)] w h flip) n (info n y u v a))
        = [yuv_call_of ''rs_I420Copy'' (take 3 src @ take 3 (made_planes I420a w h)) w h flip,
           yuv_call_of ''rs_CopyPlane'' (drop 3 src @ drop 3 (made_planes I420a w h)) w h flip]"
  using dst_planes_small(2) [OF dst_sizes(1,2) [OF assms]] i420a_copy_calls [of lib src "made_planes I420a w h" w h flip]
  by (auto simp: delivered_def made_planes_words [OF assms] split: if_splits)

lemma take_made: "t \<noteq> I420a \<Longrightarrow> take 3 (made_planes t w h) = made_planes t w h"
  by (cases t) (simp_all add: made_planes_def)

lemma call_of_library: "yuv_call_of name planes (vb_width b) (vb_height b) flip = library_call name planes b flip"
  by (simp add: yuv_call_of_def library_call_def)

text \<open>The planes of the source.\<close>

lemma given_packed:
  assumes "well_described b" and "vb_type b \<in> {Rgba, Abgr, Argb, Bgra}"
  shows "given_planes b t = [(fst (packed_plane_of 4 b), if packed t then vb_width b * 4 else snd (packed_plane_of 4 b))]"
proof -
  let ?w = "vb_width b" and ?h = "vb_height b"
  note s = well_described_small [OF assms(1)]
  have row: "fst (hd (tight_planes (vb_type b) (unat ?w) (unat ?h))) = 4 * unat ?w" using assms(2) by auto
  have tight: "of_nat (4 * unat ?w) = ?w * 4" "unat (?w * 4) * unat ?h < 2 ^ 32"
    by (simp, simp only: small_product4(1,2) [OF s])
  show ?thesis
  proof (cases "vb_stride b")
    case None
    then show ?thesis using assms(2) unat_mult_small [OF tight(2)]
      unfolding given_planes_def row tight(1) packed_plane_of_def Let_def by auto
  next
    case (Some k)
    then have "unat k * unat ?h < 2 ^ 32" using assms unfolding well_described_def by (auto simp: Let_def)
    from unat_mult_small [OF this] Some show ?thesis using assms(2)
      unfolding given_planes_def row tight(1) packed_plane_of_def Let_def by auto
  qed
qed

lemma given_raw:
  assumes "well_described b" and "vb_type b = Rgb24" and "\<not> packed t"
  shows "given_planes b t = [packed_plane_of 3 b]"
proof -
  let ?w = "vb_width b" and ?h = "vb_height b"
  note s = well_described_small [OF assms(1)]
  have row: "fst (hd (tight_planes (vb_type b) (unat ?w) (unat ?h))) = 3 * unat ?w" using assms(2) by auto
  have tight: "of_nat (3 * unat ?w) = ?w * 3" "unat (?w * 3) * unat ?h < 2 ^ 32"
    by (simp, simp only: small_product4(3,4) [OF s])
  show ?thesis
  proof (cases "vb_stride b")
    case None
    then show ?thesis using assms(2,3) unat_mult_small [OF tight(2)]
      unfolding given_planes_def row tight(1) packed_plane_of_def Let_def by auto
  next
    case (Some k)
    then have "unat k * unat ?h < 2 ^ 32" using assms unfolding well_described_def by (auto simp: Let_def)
    from unat_mult_small [OF this] Some show ?thesis using assms(2,3)
      unfolding given_planes_def row tight(1) packed_plane_of_def Let_def by auto
  qed
qed

lemma given_planar: "\<not> packed (vb_type b) \<Longrightarrow> given_planes b t = source_of (if vb_type b = I010 then 2 else 1) b"
  by (simp add: given_planes_def source_of_def)


lemmas call_rules = into_420_calls into_rgba_calls into_rgb_calls copied_calls [OF _ one_calls(12)] copied_calls(2) [OF _ one_calls(11)]
  copied_alpha_calls call_of_library library_function_def take_made well_described_small

lemma cvt_packed_calls:
  assumes "well_described b" and "packed (vb_type b)" and "snd (cvt lib d b t flip) = cvt_answer d b t"
  shows "fst (cvt lib d b t flip) = cvt_calls b t flip"
proof (cases "vb_type b")
  case Rgba
  then show ?thesis using assms
    by (cases t; simp add: cvt_def cvt_rgba_def cvt_answer_def cvt_calls_def given_packed call_rules Let_def)
next
  case Abgr
  then show ?thesis by (simp add: cvt_def cvt_abgr_def cvt_calls_def Let_def)
next
  case Argb
  then show ?thesis using assms
    by (cases t; simp add: cvt_def cvt_argb_def cvt_answer_def cvt_calls_def given_packed call_rules Let_def)
next
  case Bgra
  then show ?thesis using assms
    by (cases t; simp add: cvt_def cvt_bgra_def cvt_answer_def cvt_calls_def given_packed call_rules Let_def)
next
  case Rgb24
  then show ?thesis using assms
    by (cases t; simp add: cvt_def cvt_rgb24_def cvt_answer_def cvt_calls_def given_raw call_rules Let_def)
qed (use assms(2) in simp_all)

lemma take_source:
  assumes "well_described b" and "\<not> packed (vb_type b)" and "vb_type b \<noteq> I420a"
  shows "take 3 (source_of n b) = source_of n b"
proof -
  have "length (vb_components b) \<le> 3"
    using source_planar(1) [OF assms(1,2)] assms(2,3) by (cases "vb_type b") simp_all
  then show ?thesis by (simp add: source_of_def)
qed

lemma cvt_planar_calls:
  assumes b: "well_described b" and p: "\<not> packed (vb_type b)" and a: "snd (cvt lib d b t flip) = cvt_answer d b t"
  shows "fst (cvt lib d b t flip) = cvt_calls b t flip"
proof -
  note src = b source_components [OF b p] given_planar [OF p] take_source [OF b p] a
  show ?thesis
  proof (cases "vb_type b")
    case I420
    then show ?thesis using src
      by (cases t; simp add: cvt_def cvt_i420_def cvt_answer_def cvt_calls_def call_rules Let_def)
  next
    case I420a
    then show ?thesis using src
      by (cases t; simp add: cvt_def cvt_i420a_def cvt_answer_def cvt_calls_def call_rules Let_def)
  next
    case I422
    then show ?thesis using src
      by (cases t; simp add: cvt_def cvt_i422_def cvt_answer_def cvt_calls_def call_rules Let_def)
  next
    case I444
    then show ?thesis using src
      by (cases t; simp add: cvt_def cvt_i444_def cvt_answer_def cvt_calls_def call_rules Let_def)
  next
    case I010
    then show ?thesis using src
      by (cases t; simp add: cvt_def cvt_i010_def cvt_answer_def cvt_calls_def call_rules Let_def)
  next
    case Nv12
    show ?thesis
    proof (cases "t = Nv12")
      case True
      then show ?thesis using Nv12 src well_described_small [OF b]
        by (simp add: cvt_def cvt_nv12_def cvt_calls_def delivered_def nv12_never_copied Let_def split: option.splits prod.splits)
    next
      case False
      then show ?thesis using Nv12 src
        by (cases t; simp add: cvt_def cvt_nv12_def cvt_answer_def cvt_calls_def call_rules Let_def)
    qed
  qed (use p in simp_all)
qed

section \<open>Properties\<close>




section \<open>Frames in and out\<close>

text \<open>
  What the description of a frame's own planes does: an I010 frame is described with half the size that \<open>cvt\<close> expects, and so every
  conversion of it panics or is refused; by default, so does an Nv12 frame.
\<close>

lemma i010_frames_never_delivered:
  assumes "small_image w h" and "nb = \<lparr>nb_type = NativeI010, nb_width = w, nb_height = h, nb_ptrs = [y, u, v], nb_strides = [sy, su, sv]\<rparr>"
    and "unat sy * unat h < 2 ^ 32" and "w \<le> sy"
  shows "snd (to_video_buffer_info lib to_i420 d nb t) \<in> {Panics, NotSupported I010 (case t of None \<Rightarrow> I010 | Some t' \<Rightarrow> t')}"
proof -
  have "0 < unat sy * unat h" using assms(1,4) by (auto simp: small_image_def word_le_nat_alt)
  moreover have "0 < n \<Longrightarrow> \<not> n \<le> n div 2" for n :: nat by linarith
  ultimately have "\<not> unat (sy * h) \<le> unat (sy * h) div 2" unfolding unat_mult_small [OF assms(3)] by blast
  then have "\<not> valid_010 [(unat (sy * h) div 2, sy), p, q] w h" for p q by (cases p, cases q) (simp add: Let_def)
  then show ?thesis
    unfolding assms(2) to_video_buffer_info_def
    by (cases t; simp add: native_info_def i010_info_def cvt_def cvt_i010_def component_planes16_def Let_def del: valid_010.simps)
      (cases "case t of None \<Rightarrow> I010 | Some t' \<Rightarrow> t'"; simp add: into_rgba_def into_420_def delivered_def conversion_defs converted_def Let_def
        del: valid_010.simps split: option.splits prod.splits)
qed

lemma nv12_frames_panic:
  assumes "small_image w h" and "nb = \<lparr>nb_type = NativeNV12, nb_width = w, nb_height = h, nb_ptrs = [y, uv], nb_strides = [sy, suv]\<rparr>"
  shows "snd (to_video_buffer_info lib to_i420 d nb None) = Panics"
  using nv12_never_copied [OF assms(1)] unfolding assms(2) to_video_buffer_info_def
  by (simp add: native_info_def nv12_info_def cvt_def cvt_nv12_def component_planes_def numeral_eq_Suc delivered_def Let_def)

text \<open>
  The other direction takes an I010 image whose sizes are half of what they should be, and so copies half of every plane; with
  the true sizes in bytes it panics.
\<close>

definition i010_sized :: "u32 \<Rightarrow> u32 \<Rightarrow> video_buffer_info" where
  "i010_sized y c = \<lparr>vb_type = I010, vb_width = 4, vb_height = 2, vb_ptr = 64, vb_stride = None,
     vb_components = [\<lparr>ci_ptr = 64, ci_stride = 4, ci_size = y\<rparr>, \<lparr>ci_ptr = 96, ci_stride = 2, ci_size = c\<rparr>, \<lparr>ci_ptr = 128, ci_stride = 2, ci_size = c\<rparr>]\<rparr>"

lemma i010_frames_halved:
  "well_described (i010_sized 16 4)" "snd (to_libwebrtc_buffer lib ptrs (i010_sized 16 4)) = None"
  "snd (to_libwebrtc_buffer lib ptrs (i010_sized 8 2)) =
    Some \<lparr>nb_type = NativeI010, nb_width = 4, nb_height = 2, nb_ptrs = ptrs, nb_strides = [4, 2, 2]\<rparr>"
  "component_planes16 3 (i010_sized 8 2) = Some [(4, 4), (1, 2), (1, 2)]"
  by (simp_all add: i010_sized_def well_described_def small_image_def plane_ok_def to_libwebrtc_buffer_def copy_components_def
      component_planes16_def copied_into_def with_strides_def native_lengths_def Let_def)

text \<open>Two bytes more in every row of a packed image, and the rows of the conversion are taken from the wrong places.\<close>

lemma packed_stride_ignored:
  "map yc_planes (fst (cvt lib d \<lparr>vb_type = Rgba, vb_width = 2, vb_height = 2, vb_ptr = 64, vb_stride = Some 10, vb_components = []\<rparr> Bgra flip)) =
    [[(20, 8), (16, 8)]]"
  by (simp add: cvt_def cvt_rgba_def into_rgba_def packed_plane_of_def delivered_def rgba_to_rgba_def converted_def yuv_call_of_def Let_def)
end
