(* ===== verification/LkFfi.thy ===== *)
theory LkFfi
  imports LKInterfaces LKMaps
begin

text \<open>
  The server behind the interface for other languages (\<open>livekit-ffi/src/server/mod.rs\<close>, \<open>cabi.rs\<close>): objects are stored under handles,
  tasks may watch a handle, and events go to the client's callback.  And the stream of a data track
  (\<open>server/data_track.rs\<close>), whose frames the client asks for one by one.  The objects, the events and the conversion of requests are arguments.
\<close>

section \<open>Handles\<close>

type_synonym ffi_handle_id = u64

definition INVALID_HANDLE :: ffi_handle_id where
  "INVALID_HANDLE = 0"

datatype ffi_error = NotConfigured | AlreadyInitialized | InvalidRequest string

text \<open>
  \<open>fs_watching\<close>: for a handle, the receivers whose senders are kept for it; \<open>fs_resolved\<close>: of every receiver, whether its sender is
  gone, which is what its task waits for.
\<close>

record ('o, 'e) ffi_server =
  fs_handles :: "(ffi_handle_id, 'o) hashmap"
  fs_next :: ffi_handle_id
  fs_setup :: bool
  fs_capture_logs :: bool
  fs_watching :: "(ffi_handle_id, nat list) hashmap"
  fs_resolved :: "bool list"
  fs_events :: "'e list"

definition ffi_server_default :: "('o, 'e) ffi_server" where
  "ffi_server_default =
     \<lparr>fs_handles = [], fs_next = 1, fs_setup = False, fs_capture_logs = False, fs_watching = [], fs_resolved = [], fs_events = []\<rparr>"

definition ffi_setup :: "bool \<Rightarrow> ('o, 'e) ffi_server \<Rightarrow> ('o, 'e) ffi_server" where
  "ffi_setup capture_logs s = s\<lparr>fs_setup := True, fs_capture_logs := capture_logs\<rparr>"

definition send_event :: "'e \<Rightarrow> ('o, 'e) ffi_server \<Rightarrow> (ffi_error, unit) outcome \<times> ('o, 'e) ffi_server" where
  "send_event e s = (if fs_setup s then (Ok (), s\<lparr>fs_events := fs_events s @ [e]\<rparr>) else (Err NotConfigured, s))"

text \<open>What almost every caller does: the result is dropped.\<close>

definition emit_event :: "'e \<Rightarrow> ('o, 'e) ffi_server \<Rightarrow> ('o, 'e) ffi_server" where
  "emit_event e s = snd (send_event e s)"

definition next_id :: "('o, 'e) ffi_server \<Rightarrow> ffi_handle_id \<times> ('o, 'e) ffi_server" where
  "next_id s = (fs_next s, s\<lparr>fs_next := fs_next s + 1\<rparr>)"

definition resolve_async_id :: "u64 option \<Rightarrow> ('o, 'e) ffi_server \<Rightarrow> u64 \<times> ('o, 'e) ffi_server" where
  "resolve_async_id request_async_id s = (case request_async_id of Some i \<Rightarrow> (i, s) | None \<Rightarrow> next_id s)"

definition store_handle :: "ffi_handle_id \<Rightarrow> 'o \<Rightarrow> ('o, 'e) ffi_server \<Rightarrow> ('o, 'e) ffi_server" where
  "store_handle i x s = s\<lparr>fs_handles := hm_insert i x (fs_handles s)\<rparr>"

text \<open>\<open>want\<close> is the wanted type.\<close>

definition retrieve_handle :: "('o \<Rightarrow> bool) \<Rightarrow> ffi_handle_id \<Rightarrow> ('o, 'e) ffi_server \<Rightarrow> (ffi_error, 'o) outcome" where
  "retrieve_handle want i s =
     (if i = INVALID_HANDLE then Err (InvalidRequest ''handle is invalid'')
      else case hm_get (fs_handles s) i of
             None \<Rightarrow> Err (InvalidRequest ''handle not found'')
           | Some x \<Rightarrow> if want x then Ok x else Err (InvalidRequest ''handle is not a''))"

definition take_handle :: "('o \<Rightarrow> bool) \<Rightarrow> ffi_handle_id \<Rightarrow> ('o, 'e) ffi_server \<Rightarrow> (ffi_error, 'o) outcome \<times> ('o, 'e) ffi_server" where
  "take_handle want i s =
     (if i = INVALID_HANDLE then (Err (InvalidRequest ''handle is invalid''), s)
      else case hm_get (fs_handles s) i of
             None \<Rightarrow> (Err (InvalidRequest ''handle not found''), s)
           | Some x \<Rightarrow>
               (if want x then Ok x else Err (InvalidRequest ''handle is not a''),
                s\<lparr>fs_handles := hm_remove i (fs_handles s)\<rparr>))"

text \<open>Dropping senders resolves their receivers.\<close>

definition resolve_all :: "nat list \<Rightarrow> ('o, 'e) ffi_server \<Rightarrow> ('o, 'e) ffi_server" where
  "resolve_all rs s = s\<lparr>fs_resolved := fold (\<lambda>r xs. xs[r := True]) rs (fs_resolved s)\<rparr>"

definition drop_handle :: "ffi_handle_id \<Rightarrow> ('o, 'e) ffi_server \<Rightarrow> bool \<times> ('o, 'e) ffi_server" where
  "drop_handle i s =
     (hm_contains (fs_handles s) i,
      resolve_all (case hm_get (fs_watching s) i of Some rs \<Rightarrow> rs | None \<Rightarrow> [])
        (s\<lparr>fs_handles := hm_remove i (fs_handles s), fs_watching := hm_remove i (fs_watching s)\<rparr>))"

text \<open>The three accesses of \<open>watch_handle_dropped\<close> to the shared map; the last one panics when the entry is gone.\<close>

definition watch_check :: "ffi_handle_id \<Rightarrow> ('o, 'e) ffi_server \<Rightarrow> bool" where
  "watch_check i s \<longleftrightarrow> hm_get (fs_watching s) i = None"

definition watch_insert :: "ffi_handle_id \<Rightarrow> ('o, 'e) ffi_server \<Rightarrow> ('o, 'e) ffi_server" where
  "watch_insert i s =
     resolve_all (case hm_get (fs_watching s) i of Some rs \<Rightarrow> rs | None \<Rightarrow> []) (s\<lparr>fs_watching := hm_insert i [] (fs_watching s)\<rparr>)"

definition watch_push :: "ffi_handle_id \<Rightarrow> ('o, 'e) ffi_server \<Rightarrow> (nat \<times> ('o, 'e) ffi_server) option" where
  "watch_push i s =
     (case hm_get (fs_watching s) i of
        None \<Rightarrow> None
      | Some rs \<Rightarrow>
          (let r = length (fs_resolved s)
           in Some (r, s\<lparr>fs_watching := hm_insert i (rs @ [r]) (fs_watching s), fs_resolved := fs_resolved s @ [False]\<rparr>)))"

definition watch_handle_dropped :: "ffi_handle_id \<Rightarrow> ('o, 'e) ffi_server \<Rightarrow> (nat \<times> ('o, 'e) ffi_server) option" where
  "watch_handle_dropped i s = watch_push i (if watch_check i s then watch_insert i s else s)"

text \<open>Closing the rooms is the client's; the handles stay.\<close>

definition dispose :: "('o \<Rightarrow> bool) \<Rightarrow> ('o \<Rightarrow> ('o, 'e) ffi_server \<Rightarrow> ('o, 'e) ffi_server) \<Rightarrow> ('o, 'e) ffi_server \<Rightarrow> ('o, 'e) ffi_server" where
  "dispose is_room close s =
     (let s1 = fold close (filter is_room (map snd (fs_handles s))) s in s1\<lparr>fs_capture_logs := False, fs_setup := False\<rparr>)"

text \<open>
  A request: its answer is stored as a buffer under a new handle.  \<open>Panic\<close> is caught.
\<close>

definition livekit_ffi_request ::
  "('d \<Rightarrow> 'q option) \<Rightarrow> ('q \<Rightarrow> ('o, 'e) ffi_server \<Rightarrow> (ffi_error, 'r) outcome \<times> ('o, 'e) ffi_server) \<Rightarrow> ('r \<Rightarrow> 'o) \<Rightarrow> 'e \<Rightarrow>
     'd \<Rightarrow> ('o, 'e) ffi_server \<Rightarrow> ffi_handle_id \<times> ('o, 'e) ffi_server" where
  "livekit_ffi_request decode handle_request buffer panicked data s =
     (case decode data of
        None \<Rightarrow> (INVALID_HANDLE, s)
      | Some req \<Rightarrow>
          (case handle_request req s of
             (Err e, s1) \<Rightarrow> (INVALID_HANDLE, s1)
           | (Panic, s1) \<Rightarrow> (INVALID_HANDLE, emit_event panicked s1)
           | (Ok res, s1) \<Rightarrow> (case next_id s1 of (i, s2) \<Rightarrow> (i, store_handle i (buffer res) s2))))"

section \<open>What handles promise\<close>

text \<open>The operations as they are used: an object is stored under a new identifier, at once or after other operations, or stored again.\<close>

datatype 'o ffi_operation =
    NewHandle 'o | TakeHandle "'o \<Rightarrow> bool" ffi_handle_id | DropHandle ffi_handle_id | WatchHandle ffi_handle_id
  | ResolveId "u64 option" | StoreUnder ffi_handle_id 'o

text \<open>A panic of \<open>watch_handle_dropped\<close> is not possible without another thread.\<close>

fun ffi_apply :: "'o ffi_operation \<Rightarrow> ('o, 'e) ffi_server \<Rightarrow> ('o, 'e) ffi_server option" where
  "ffi_apply (NewHandle x) s = (case next_id s of (i, s1) \<Rightarrow> Some (store_handle i x s1))"
| "ffi_apply (TakeHandle want i) s = Some (snd (take_handle want i s))"
| "ffi_apply (DropHandle i) s = Some (snd (drop_handle i s))"
| "ffi_apply (WatchHandle i) s = map_option snd (watch_handle_dropped i s)"
| "ffi_apply (ResolveId req) s = Some (snd (resolve_async_id req s))"
| "ffi_apply (StoreUnder i x) s = (if i \<noteq> INVALID_HANDLE \<and> i < fs_next s then Some (store_handle i x s) else None)"

fun ids_of :: "'o ffi_operation \<Rightarrow> nat" where
  "ids_of (NewHandle x) = 1"
| "ids_of (ResolveId None) = 1"
| "ids_of _ = 0"

definition watchers :: "ffi_handle_id \<Rightarrow> ('o, 'e) ffi_server \<Rightarrow> nat list" where
  "watchers i s = (case hm_get (fs_watching s) i of Some rs \<Rightarrow> rs | None \<Rightarrow> [])"

text \<open>A receiver waits exactly while it is among the watchers of one handle.\<close>

definition watch_inv :: "('o, 'e) ffi_server \<Rightarrow> bool" where
  "watch_inv s \<longleftrightarrow>
     (\<forall>r. (\<exists>i. r \<in> set (watchers i s)) \<longleftrightarrow> r < length (fs_resolved s) \<and> \<not> fs_resolved s ! r) \<and>
     (\<forall>i j. i \<noteq> j \<longrightarrow> set (watchers i s) \<inter> set (watchers j s) = {})"

definition ids_inv :: "nat \<Rightarrow> ('o, 'e) ffi_server \<Rightarrow> bool" where
  "ids_inv n s \<longleftrightarrow> unat (fs_next s) = n \<and> 0 < n \<and> (\<forall>i. hm_contains (fs_handles s) i \<longrightarrow> 0 < unat i \<and> unat i < n)"

lemma fold_resolve:
  "length (fold (\<lambda>r xs. xs[r := True]) rs xs) = length xs"
  "r < length xs \<Longrightarrow> fold (\<lambda>r xs. xs[r := True]) rs xs ! r \<longleftrightarrow> r \<in> set rs \<or> xs ! r"
proof -
  show "length (fold (\<lambda>r xs. xs[r := True]) rs xs) = length xs" by (induction rs arbitrary: xs) simp_all
  have set: "r < length ys \<Longrightarrow> ys[a := True] ! r \<longleftrightarrow> r = a \<or> ys ! r" for ys a by (cases "r = a") simp_all
  show "r < length xs \<Longrightarrow> fold (\<lambda>r xs. xs[r := True]) rs xs ! r \<longleftrightarrow> r \<in> set rs \<or> xs ! r"
    by (induction rs arbitrary: xs) (auto simp: set)
qed

lemma resolve_all_simps [simp]:
  "fs_handles (resolve_all rs s) = fs_handles s" "fs_next (resolve_all rs s) = fs_next s" "fs_watching (resolve_all rs s) = fs_watching s"
  "watchers i (resolve_all rs s) = watchers i s" "length (fs_resolved (resolve_all rs s)) = length (fs_resolved s)"
  "r < length (fs_resolved s) \<Longrightarrow> fs_resolved (resolve_all rs s) ! r \<longleftrightarrow> r \<in> set rs \<or> fs_resolved s ! r"
  by (simp_all add: resolve_all_def watchers_def fold_resolve)

lemma server_watch_frame [simp]:
  "watchers i (s\<lparr>fs_handles := h\<rparr>) = watchers i s" "watchers i (s\<lparr>fs_next := n\<rparr>) = watchers i s"
  by (simp_all add: watchers_def)

lemma watch_inv_frame: "watch_inv s \<Longrightarrow> fs_watching s' = fs_watching s \<Longrightarrow> fs_resolved s' = fs_resolved s \<Longrightarrow> watch_inv s'"
  by (simp add: watch_inv_def watchers_def)

lemma drop_handle_watchers:
  "watchers j (snd (drop_handle i s)) = (if j = i then [] else watchers j s)"
  "fs_resolved (snd (drop_handle i s)) = fold (\<lambda>r xs. xs[r := True]) (watchers i s) (fs_resolved s)"
  by (simp_all add: drop_handle_def resolve_all_def watchers_def)

lemma watch_inv_drop:
  assumes "watch_inv s"
  shows "watch_inv (snd (drop_handle i s))"
  unfolding watch_inv_def drop_handle_watchers
proof (intro conjI allI impI)
  fix r
  have waiting: "(\<exists>j. r \<in> set (watchers j s)) \<longleftrightarrow> r < length (fs_resolved s) \<and> \<not> fs_resolved s ! r"
    and apart: "j \<noteq> i \<Longrightarrow> r \<in> set (watchers j s) \<Longrightarrow> r \<notin> set (watchers i s)" for j
    using assms by (auto simp: watch_inv_def)
  have "(\<exists>j. r \<in> set (if j = i then [] else watchers j s)) \<longleftrightarrow> (\<exists>j. r \<in> set (watchers j s)) \<and> r \<notin> set (watchers i s)"
    using apart by auto
  then show "(\<exists>j. r \<in> set (if j = i then [] else watchers j s)) \<longleftrightarrow>
      r < length (fold (\<lambda>r xs. xs[r := True]) (watchers i s) (fs_resolved s)) \<and>
      \<not> fold (\<lambda>r xs. xs[r := True]) (watchers i s) (fs_resolved s) ! r"
    unfolding waiting by (auto simp: fold_resolve)
next
  show "set (if j = i then [] else watchers j s) \<inter> set (if k = i then [] else watchers k s) = {}" if "j \<noteq> k" for j k
    using assms that by (simp add: watch_inv_def)
qed

text \<open>Watching, when no other thread is in between: a new receiver is added.\<close>

lemma watch_handle_dropped_effect:
  "\<exists>s'. watch_handle_dropped i s = Some (length (fs_resolved s), s') \<and> fs_handles s' = fs_handles s \<and> fs_next s' = fs_next s \<and>
     fs_resolved s' = fs_resolved s @ [False] \<and> watchers j s' = (if j = i then watchers i s @ [length (fs_resolved s)] else watchers j s)"
  by (auto simp: watch_handle_dropped_def watch_check_def watch_insert_def watch_push_def watchers_def resolve_all_def Let_def
      split: option.splits)

lemma watch_inv_watch:
  assumes inv: "watch_inv s" and w: "watch_handle_dropped i s = Some (r, s')"
  shows "watch_inv s'"
proof -
  have r: "fs_resolved s' = fs_resolved s @ [False]"
    and ws: "watchers j s' = (if j = i then watchers i s @ [length (fs_resolved s)] else watchers j s)" for j
    using watch_handle_dropped_effect [of i s j] w by auto
  have fresh: "length (fs_resolved s) \<notin> set (watchers j s)" for j using inv by (auto simp: watch_inv_def)
  show ?thesis
    unfolding watch_inv_def r ws
  proof (intro conjI allI impI)
    fix x
    have "(\<exists>j. x \<in> set (if j = i then watchers i s @ [length (fs_resolved s)] else watchers j s)) \<longleftrightarrow>
        (\<exists>j. x \<in> set (watchers j s)) \<or> x = length (fs_resolved s)" by auto
    then show "(\<exists>j. x \<in> set (if j = i then watchers i s @ [length (fs_resolved s)] else watchers j s)) \<longleftrightarrow>
        x < length (fs_resolved s @ [False]) \<and> \<not> (fs_resolved s @ [False]) ! x"
      using inv by (auto simp: watch_inv_def nth_append less_Suc_eq)
  next
    show "set (if j = i then watchers i s @ [length (fs_resolved s)] else watchers j s) \<inter>
        set (if k = i then watchers i s @ [length (fs_resolved s)] else watchers k s) = {}" if "j \<noteq> k" for j k
      using inv fresh that by (auto simp: watch_inv_def)
  qed
qed

lemma drop_keeps:
  "fs_next (snd (drop_handle i s)) = fs_next s" "fs_handles (snd (drop_handle i s)) = hm_remove i (fs_handles s)"
  by (simp_all add: drop_handle_def)

lemma take_keeps:
  "fs_next (snd (take_handle want i s)) = fs_next s" "fs_watching (snd (take_handle want i s)) = fs_watching s"
  "fs_resolved (snd (take_handle want i s)) = fs_resolved s"
  "hm_get (fs_handles (snd (take_handle want i s))) j = (if j = i \<and> i \<noteq> INVALID_HANDLE then None else hm_get (fs_handles s) j)"
  by (simp_all add: take_handle_def split: option.splits)

text \<open>Each operation keeps the watchers apart.\<close>

lemma watch_inv_apply:
  assumes "watch_inv s" and "ffi_apply q s = Some s'"
  shows "watch_inv s'"
proof (cases q)
  case (NewHandle x)
  then show ?thesis using assms by (auto simp: next_id_def store_handle_def intro: watch_inv_frame)
next
  case (TakeHandle want i)
  then show ?thesis using assms take_keeps(2,3) [of want i s] by (auto intro: watch_inv_frame)
next
  case (ResolveId req)
  then show ?thesis using assms by (auto simp: resolve_async_id_def next_id_def split: option.splits intro: watch_inv_frame)
next
  case (StoreUnder i x)
  then show ?thesis using assms by (auto simp: store_handle_def split: if_splits intro: watch_inv_frame)
qed (use assms watch_inv_drop watch_inv_watch in auto)

text \<open>As long as there are numbers, identifiers are new and valid.\<close>

lemma unat_next: "unat (i :: u64) = n \<Longrightarrow> Suc n < 2 ^ 64 \<Longrightarrow> unat (i + 1) = Suc n"
  by (simp add: unat_word_ariths)

lemma ids_inv_apply:
  assumes inv: "ids_inv n s" and step: "ffi_apply q s = Some s'" and room: "n + ids_of q < 2 ^ 64"
  shows "ids_inv (n + ids_of q) s'"
proof (cases q)
  case (NewHandle x)
  then have "s' = store_handle (fs_next s) x (s\<lparr>fs_next := fs_next s + 1\<rparr>)" using step by (simp add: next_id_def)
  then show ?thesis using inv room NewHandle unat_next [of "fs_next s" n] by (auto simp: ids_inv_def store_handle_def)
next
  case (TakeHandle want i)
  then show ?thesis using inv step take_keeps [of want i s] by (auto simp: ids_inv_def split: if_splits)
next
  case (DropHandle i)
  then show ?thesis using inv step by (auto simp: ids_inv_def drop_keeps split: if_splits)
next
  case (WatchHandle i)
  then show ?thesis using inv step watch_handle_dropped_effect [of i s] by (auto simp: ids_inv_def)
next
  case (ResolveId req)
  then show ?thesis using inv step room unat_next [of "fs_next s" n]
    by (cases req) (auto simp: ids_inv_def resolve_async_id_def next_id_def less_Suc_eq)
next
  case (StoreUnder i x)
  then show ?thesis using inv step
    by (auto simp: ids_inv_def store_handle_def INVALID_HANDLE_def word_less_nat_alt unat_gt_0 split: if_splits) blast
qed

definition ids_used :: "'o ffi_operation list \<Rightarrow> nat" where
  "ids_used qs = sum_list (map ids_of qs)"

lemma ids_inv_run:
  "run_enabled ffi_apply qs s = Some s' \<Longrightarrow> ids_inv n s \<Longrightarrow> n + ids_used qs < 2 ^ 64 \<Longrightarrow> ids_inv (n + ids_used qs) s'"
proof (induction qs arbitrary: n s)
  case (Cons q qs)
  from Cons.prems(1) obtain s1 where s1: "ffi_apply q s = Some s1" "run_enabled ffi_apply qs s1 = Some s'"
    by (rule run_enabled_ConsE)
  have n: "n + ids_used (q # qs) = n + ids_of q + ids_used qs" by (simp add: ids_used_def)
  show ?case
    unfolding n by (rule Cons.IH [OF s1(2) ids_inv_apply [OF Cons.prems(2) s1(1)]]) (use Cons.prems(3) n in simp_all)
qed (simp add: ids_used_def)

interpretation fsm: enabled_machine ffi_apply ffi_server_default watch_inv
  by unfold_locales (simp add: watch_inv_def ffi_server_default_def watchers_def, rule watch_inv_apply)

text \<open>What touches a handle.\<close>

fun leaves :: "ffi_handle_id \<Rightarrow> 'o ffi_operation \<Rightarrow> bool" where
  "leaves i (TakeHandle want j) \<longleftrightarrow> j \<noteq> i"
| "leaves i (DropHandle j) \<longleftrightarrow> j \<noteq> i"
| "leaves i (StoreUnder j x) \<longleftrightarrow> j \<noteq> i"
| "leaves i _ \<longleftrightarrow> True"

lemma handle_stays:
  assumes inv: "ids_inv n s" and step: "ffi_apply q s = Some s'" and room: "n + ids_of q < 2 ^ 64"
    and x: "hm_get (fs_handles s) i = Some x" and q: "leaves i q"
  shows "hm_get (fs_handles s') i = Some x"
proof -
  have i: "unat i < n" using inv x by (auto simp: ids_inv_def)
  show ?thesis
  proof (cases q)
    case (NewHandle y)
    then have "fs_next s \<noteq> i" using inv i by (auto simp: ids_inv_def)
    then show ?thesis using NewHandle step x by (auto simp: next_id_def store_handle_def)
  next
    case (TakeHandle want j)
    then show ?thesis using step x q take_keeps(4) [of want j s i] by auto
  next
    case (DropHandle j)
    then show ?thesis using step x q by (auto simp: drop_keeps)
  next
    case (WatchHandle j)
    then show ?thesis using step x watch_handle_dropped_effect [of j s] by auto
  next
    case (ResolveId req)
    then show ?thesis using step x by (auto simp: resolve_async_id_def next_id_def split: option.splits)
  next
    case (StoreUnder j y)
    then show ?thesis using step x q by (auto simp: store_handle_def split: if_splits)
  qed
qed

lemma handle_stays_run:
  "run_enabled ffi_apply qs s = Some s' \<Longrightarrow> ids_inv n s \<Longrightarrow> n + ids_used qs < 2 ^ 64 \<Longrightarrow> hm_get (fs_handles s) i = Some x \<Longrightarrow>
    list_all (leaves i) qs \<Longrightarrow> hm_get (fs_handles s') i = Some x"
proof (induction qs arbitrary: n s)
  case (Cons q qs)
  from Cons.prems(1) obtain s1 where s1: "ffi_apply q s = Some s1" "run_enabled ffi_apply qs s1 = Some s'"
    by (rule run_enabled_ConsE)
  have n: "n + ids_used (q # qs) = n + ids_of q + ids_used qs" by (simp add: ids_used_def)
  then have room: "n + ids_of q < 2 ^ 64" "n + ids_of q + ids_used qs < 2 ^ 64" using Cons.prems(3) by simp_all
  have q: "leaves i q" "list_all (leaves i) qs" using Cons.prems(5) by simp_all
  show ?case
    by (rule Cons.IH [OF s1(2) ids_inv_apply [OF Cons.prems(2) s1(1) room(1)] room(2)
        handle_stays [OF Cons.prems(2) s1(1) room(1) Cons.prems(4) q(1)] q(2)])
qed simp

text \<open>A receiver waits until its handle is dropped, and no other operation ends the wait.\<close>

lemma receiver_waits:
  assumes step: "ffi_apply q s = Some s'" and inv: "watch_inv s" and r: "r \<in> set (watchers i s)" and q: "q \<noteq> DropHandle i"
  shows "r \<in> set (watchers i s')"
proof (cases q)
  case (NewHandle x)
  then show ?thesis using step r by (auto simp: next_id_def store_handle_def)
next
  case (TakeHandle want j)
  then show ?thesis using step r take_keeps(2) [of want j s] by (auto simp: watchers_def)
next
  case (DropHandle j)
  then show ?thesis using step r q drop_handle_watchers(1) [of i j s] by auto
next
  case (WatchHandle j)
  then show ?thesis using step r watch_handle_dropped_effect [of j s i] by (auto split: if_splits)
next
  case (ResolveId req)
  then show ?thesis using step r by (auto simp: resolve_async_id_def next_id_def split: option.splits)
next
  case (StoreUnder j x)
  then show ?thesis using step r by (auto simp: store_handle_def split: if_splits)
qed

lemma receiver_run:
  "run_enabled ffi_apply qs s = Some s' \<Longrightarrow> watch_inv s \<Longrightarrow> r \<in> set (watchers i s) \<Longrightarrow> DropHandle i \<notin> set qs \<Longrightarrow> r \<in> set (watchers i s')"
proof (induction qs arbitrary: s)
  case (Cons q qs)
  from Cons.prems(1) obtain s1 where s1: "ffi_apply q s = Some s1" "run_enabled ffi_apply qs s1 = Some s'"
    by (rule run_enabled_ConsE)
  have q: "q \<noteq> DropHandle i" "DropHandle i \<notin> set qs" using Cons.prems(4) by auto
  show ?case
    by (rule Cons.IH [OF s1(2) watch_inv_apply [OF Cons.prems(2) s1(1)] receiver_waits [OF s1(1) Cons.prems(2,3) q(1)] q(2)])
qed simp

text \<open>
  Two threads that watch the same handle for the first time: the second one to insert drops the sender of the first, whose
  receiver is resolved at once; and a handle that is dropped in between makes the call panic.
\<close>

lemma watch_races:
  "case watch_push i (watch_insert i ffi_server_default) of
     None \<Rightarrow> False
   | Some (r, s) \<Rightarrow> watch_check i ffi_server_default \<and> fs_resolved (watch_insert i s) ! r \<and> watchers i (watch_insert i s) = []"
  "watch_push i (snd (drop_handle i (watch_insert i s))) = None"
  by (simp_all add: watch_push_def watch_insert_def watch_check_def drop_handle_def resolve_all_def ffi_server_default_def watchers_def)

text \<open>A request for an object of the wrong type refuses and destroys it.\<close>

lemma wrong_type_is_destroyed:
  "hm_get (fs_handles s) i = Some x \<Longrightarrow> \<not> want x \<Longrightarrow> i \<noteq> INVALID_HANDLE \<Longrightarrow>
    fst (take_handle want i s) = Err (InvalidRequest ''handle is not a'') \<and> hm_get (fs_handles (snd (take_handle want i s))) i = None"
  by (simp add: take_handle_def)

text \<open>Disposing leaves the handles where they are.\<close>

lemma dispose_keeps_handles:
  assumes "\<And>x s. fs_handles (close x s) = fs_handles s"
  shows "fs_handles (dispose is_room close s) = fs_handles s"
proof -
  have "fs_handles (fold close xs s) = fs_handles s" for xs using assms by (induction xs arbitrary: s) simp_all
  then show ?thesis by (simp add: dispose_def Let_def)
qed

section \<open>The frames of a data track\<close>

text \<open>
  The task of a subscription.  A read leaves one permit; the task takes it and waits for the next frame, and while it
  waits it does not see that the stream was dropped.
\<close>

datatype stream_phase = Subscribing | BetweenFrames | NextFrame | StreamEnded

datatype ('f, 'x) stream_note = FrameReceived 'f | StreamEos "'x option"

record ('f, 'x) data_stream =
  ds_phase :: stream_phase
  ds_permit :: bool
  ds_dropped :: bool
  ds_eos :: "'x option option"
  ds_notes :: "('f, 'x) stream_note list"

definition data_stream_subscribe :: "('f, 'x) data_stream" where
  "data_stream_subscribe = \<lparr>ds_phase = Subscribing, ds_permit = False, ds_dropped = False, ds_eos = None, ds_notes = []\<rparr>"

text \<open>\<open>read\<close> answers with the end of the stream, if that is known.\<close>

definition stream_read :: "('f, 'x) data_stream \<Rightarrow> 'x option option \<times> ('f, 'x) data_stream" where
  "stream_read s = (ds_eos s, if ds_eos s = None then s\<lparr>ds_permit := True\<rparr> else s)"

definition send_frame :: "'f \<Rightarrow> ('f, 'x) data_stream \<Rightarrow> ('f, 'x) data_stream" where
  "send_frame f s = s\<lparr>ds_notes := ds_notes s @ [FrameReceived f]\<rparr>"

definition send_eos :: "'x option \<Rightarrow> ('f, 'x) data_stream \<Rightarrow> ('f, 'x) data_stream" where
  "send_eos err s = s\<lparr>ds_eos := (if ds_eos s = None then Some err else ds_eos s), ds_notes := ds_notes s @ [StreamEos err]\<rparr>"

datatype ('f, 'x) stream_step =
    StreamRead | StreamDropped | SubscribeEnds "'x option" | TakePermit | SeeDrop | YieldFrame 'f | YieldEnd

text \<open>\<open>SubscribeEnds None\<close>: the subscription succeeded.\<close>

fun stream_apply :: "('f, 'x) stream_step \<Rightarrow> ('f, 'x) data_stream \<Rightarrow> ('f, 'x) data_stream option" where
  "stream_apply StreamRead s = (if ds_dropped s then None else Some (snd (stream_read s)))"
| "stream_apply StreamDropped s = (if ds_dropped s then None else Some (s\<lparr>ds_dropped := True\<rparr>))"
| "stream_apply (SubscribeEnds r) s =
     (if ds_phase s = Subscribing
      then Some (case r of None \<Rightarrow> s\<lparr>ds_phase := BetweenFrames\<rparr> | Some err \<Rightarrow> send_eos (Some err) (s\<lparr>ds_phase := StreamEnded\<rparr>))
      else None)"
| "stream_apply TakePermit s =
     (if ds_phase s = BetweenFrames \<and> ds_permit s then Some (s\<lparr>ds_phase := NextFrame, ds_permit := False\<rparr>) else None)"
| "stream_apply SeeDrop s =
     (if \<not> ds_dropped s then None
      else if ds_phase s = Subscribing then Some (s\<lparr>ds_phase := StreamEnded\<rparr>)
      else if ds_phase s = BetweenFrames then Some (send_eos None (s\<lparr>ds_phase := StreamEnded\<rparr>))
      else None)"
| "stream_apply (YieldFrame f) s = (if ds_phase s = NextFrame then Some (send_frame f (s\<lparr>ds_phase := BetweenFrames\<rparr>)) else None)"
| "stream_apply YieldEnd s = (if ds_phase s = NextFrame then Some (send_eos None (s\<lparr>ds_phase := StreamEnded\<rparr>)) else None)"

fun frames_of :: "('f, 'x) stream_note list \<Rightarrow> 'f list" where
  "frames_of [] = []"
| "frames_of (FrameReceived f # ns) = f # frames_of ns"
| "frames_of (StreamEos x # ns) = frames_of ns"

fun yielded :: "('f, 'x) stream_step list \<Rightarrow> 'f list" where
  "yielded [] = []"
| "yielded (YieldFrame f # es) = f # yielded es"
| "yielded (_ # es) = yielded es"

definition reads :: "('f, 'x) stream_step list \<Rightarrow> nat" where
  "reads es = length (filter (\<lambda>e. e = StreamRead) es)"

text \<open>What is owed: a permit or a frame under way for a read that has no frame yet; one end at most, and nothing after it.\<close>

definition stream_inv :: "('f, 'x) stream_step list \<Rightarrow> ('f, 'x) data_stream \<Rightarrow> bool" where
  "stream_inv es s \<longleftrightarrow>
     frames_of (ds_notes s) = yielded es \<and>
     length (yielded es) + (if ds_permit s then 1 else 0) + (if ds_phase s = NextFrame then 1 else 0) \<le> reads es \<and>
     (case ds_eos s of
        None \<Rightarrow> ds_notes s = map FrameReceived (yielded es)
      | Some x \<Rightarrow> ds_notes s = map FrameReceived (yielded es) @ [StreamEos x] \<and> ds_phase s = StreamEnded) \<and>
     (ds_phase s = Subscribing \<longrightarrow> yielded es = [])"

lemma frames_of_simps [simp]:
  "frames_of (xs @ ys) = frames_of xs @ frames_of ys" "frames_of (map FrameReceived fs) = fs"
  by (induction xs rule: frames_of.induct) (simp_all, induction fs, simp_all)

lemma yielded_append [simp]: "yielded (es @ fs) = yielded es @ yielded fs"
  by (induction es rule: yielded.induct) simp_all

lemma reads_snoc [simp]: "reads (es @ [e]) = reads es + (if e = StreamRead then 1 else 0)"
  by (simp add: reads_def)

lemma stream_inv_step:
  assumes "stream_inv es s" and "stream_apply e s = Some s'"
  shows "stream_inv (es @ [e]) s'"
  using assms by (cases e; auto simp: stream_inv_def stream_read_def send_eos_def send_frame_def split: if_splits option.splits)

lemma stream_inv_run:
  "run_enabled stream_apply es s = Some s' \<Longrightarrow> stream_inv es0 s \<Longrightarrow> stream_inv (es0 @ es) s'"
proof (induction es arbitrary: s es0)
  case (Cons e es)
  from Cons.prems(1) obtain s1 where s1: "stream_apply e s = Some s1" "run_enabled stream_apply es s1 = Some s'"
    by (rule run_enabled_ConsE)
  show ?case using Cons.IH [OF s1(2) stream_inv_step [OF Cons.prems(2) s1(1)]] by simp
qed simp

text \<open>Two reads before the next frame are one, and a stream that was dropped goes on telling.\<close>

lemma reads_collapse:
  "run_enabled stream_apply [SubscribeEnds None, StreamRead, StreamRead, TakePermit, YieldFrame f] data_stream_subscribe =
    Some \<lparr>ds_phase = BetweenFrames, ds_permit = False, ds_dropped = False, ds_eos = None, ds_notes = [FrameReceived f]\<rparr>"
  by (simp add: data_stream_subscribe_def stream_read_def send_frame_def)

lemma dropped_stream_tells:
  "map_option ds_notes (run_enabled stream_apply [SubscribeEnds None, StreamRead, TakePermit, StreamDropped, YieldFrame f, SeeDrop] data_stream_subscribe) =
    Some [FrameReceived f, StreamEos None]"
  by (simp add: data_stream_subscribe_def stream_read_def send_frame_def send_eos_def)

section \<open>Properties\<close>

text \<open>
  C31: Handles and their watchers.  On every sequence of operations that uses fewer identifiers than there are: an object that is stored
  under a new handle gets an identifier that is valid and that nothing is stored under; the handle names that object until it is
  taken, dropped or stored again; and a receiver that watches a handle waits exactly until the handle is dropped.
\<close>

theorem handles_and_watchers:
  assumes "run_enabled ffi_apply qs ffi_server_default = Some s"
    and "1 + ids_used qs + ids_of q + ids_used qs' < 2 ^ 64"
    and "ffi_apply q s = Some s1" and "run_enabled ffi_apply qs' s1 = Some s2"
  shows "(q = NewHandle x \<longrightarrow>
      fs_next s \<noteq> INVALID_HANDLE \<and> \<not> hm_contains (fs_handles s) (fs_next s) \<and>
      (list_all (leaves (fs_next s)) qs' \<longrightarrow> hm_get (fs_handles s2) (fs_next s) = Some x))
    \<and> (q = WatchHandle i \<longrightarrow>
      (DropHandle i \<notin> set qs' \<longrightarrow> \<not> fs_resolved s2 ! length (fs_resolved s)) \<and>
      (DropHandle i \<notin> set qs' \<longrightarrow> fs_resolved (snd (drop_handle i s2)) ! length (fs_resolved s)))"
proof (intro conjI impI)
  have start: "ids_inv 1 ffi_server_default" by (simp add: ids_inv_def ffi_server_default_def)
  have ids: "ids_inv (1 + ids_used qs) s" by (rule ids_inv_run [OF assms(1) start]) (use assms(2) in simp)
  have ids1: "ids_inv (1 + ids_used qs + ids_of q) s1" by (rule ids_inv_apply [OF ids assms(3)]) (use assms(2) in simp)
  show "fs_next s \<noteq> INVALID_HANDLE" using ids by (auto simp: ids_inv_def INVALID_HANDLE_def)
  show "\<not> hm_contains (fs_handles s) (fs_next s)" using ids by (auto simp: ids_inv_def)
  show "hm_get (fs_handles s2) (fs_next s) = Some x" if "q = NewHandle x" "list_all (leaves (fs_next s)) qs'"
    using handle_stays_run [OF assms(4) ids1 assms(2) _ that(2), of x] assms(3) that(1) by (auto simp: next_id_def store_handle_def)
next
  assume q: "q = WatchHandle i"
  have inv: "watch_inv s" using fsm.reachable_inv [OF run_enabled_reachable [OF reachable_start assms(1)]] .
  have w: "length (fs_resolved s) \<in> set (watchers i s1)" using assms(3) q watch_handle_dropped_effect [of i s i] by auto
  note inv1 = watch_inv_apply [OF inv assms(3)]
  have inv2: "watch_inv s2" using run_enabled_inv [OF assms(4), of watch_inv] inv1 watch_inv_apply by blast
  have waits: "length (fs_resolved s) \<in> set (watchers i s2)" if "DropHandle i \<notin> set qs'"
    by (rule receiver_run [OF assms(4) inv1 w that])
  show "\<not> fs_resolved s2 ! length (fs_resolved s)" if "DropHandle i \<notin> set qs'"
    using waits [OF that] inv2 by (auto simp: watch_inv_def)
  show "fs_resolved (snd (drop_handle i s2)) ! length (fs_resolved s)" if "DropHandle i \<notin> set qs'"
  proof -
    have "length (fs_resolved s) < length (fs_resolved s2)" using waits [OF that] inv2 unfolding watch_inv_def by blast
    then show ?thesis using waits [OF that] by (simp add: drop_handle_watchers(2) fold_resolve)
  qed
qed

theorem handles_and_watchers_witness:
  "\<exists>s. run_enabled ffi_apply [WatchHandle 1, DropHandle 3, NewHandle ''track'', ResolveId None] (ffi_server_default :: (string, nat) ffi_server) = Some s \<and>
    fs_resolved (snd (drop_handle 1 s)) ! 0"
proof -
  let ?s = "ffi_server_default :: (string, nat) ffi_server" and ?qs = "[DropHandle 3, NewHandle ''track'', ResolveId None]"
  obtain s1 where s1: "ffi_apply (WatchHandle 1) ?s = Some s1" using watch_handle_dropped_effect [of 1 ?s 1] by auto
  then obtain s2 where s2: "run_enabled ffi_apply ?qs s1 = Some s2" by (simp add: next_id_def)
  have "fs_resolved (snd (drop_handle 1 s2)) ! length (fs_resolved ?s)"
    using handles_and_watchers [of "[]" ?s "WatchHandle 1" ?qs s1 s2 "''room''" 1] s1 s2 by (simp add: ids_used_def)
  then have "fs_resolved (snd (drop_handle 1 s2)) ! 0" by (simp add: ffi_server_default_def)
  moreover have "run_enabled ffi_apply (WatchHandle 1 # ?qs) ?s = Some s2"
    using s2 by (simp only: run_enabled.simps(2) s1 option.case)
  ultimately show ?thesis by blast
qed

text \<open>
  C32: The frames of a data track reach the client one by one.  However reads, frames, the subscription, its end and the drop of the
  stream are interleaved: the frames that are sent are those of the track, in order, one at most for every read; the stream ends at most
  once and after all frames; and a read answers with the end exactly when it has been announced.
\<close>

theorem data_track_stream_frames:
  assumes "run_enabled stream_apply es data_stream_subscribe = Some s"
  shows "frames_of (ds_notes s) = yielded es \<and> length (yielded es) \<le> reads es
    \<and> (case fst (stream_read s) of
         None \<Rightarrow> ds_notes s = map FrameReceived (yielded es)
       | Some x \<Rightarrow> ds_notes s = map FrameReceived (yielded es) @ [StreamEos x])"
proof -
  have "stream_inv [] data_stream_subscribe" by (simp add: stream_inv_def data_stream_subscribe_def reads_def)
  from stream_inv_run [OF assms this] have "stream_inv es s" by simp
  then show ?thesis by (auto simp: stream_inv_def stream_read_def split: option.splits)
qed

theorem data_track_stream_frames_witness:
  "\<exists>s. run_enabled stream_apply [SubscribeEnds None, StreamRead, TakePermit, YieldFrame (7 :: nat), StreamRead, TakePermit, YieldEnd]
      (data_stream_subscribe :: (nat, string) data_stream) = Some s \<and> frames_of (ds_notes s) = [7]"
proof -
  let ?es = "[SubscribeEnds None, StreamRead, TakePermit, YieldFrame (7 :: nat), StreamRead, TakePermit, YieldEnd]"
  obtain s where s: "run_enabled stream_apply ?es (data_stream_subscribe :: (nat, string) data_stream) = Some s"
    by (simp add: data_stream_subscribe_def stream_read_def send_frame_def)
  then show ?thesis using data_track_stream_frames [OF s] by simp
qed
end
