(* ===== verification/LkFfiRoom.thy ===== *)
theory LkFfiRoom
  imports LkRoomLife LkFfi
begin

text \<open>
  A room behind the interface for other languages (\<open>livekit-ffi/src/server/room.rs\<close>).  A task turns the events of the room into
  messages and gives out handles for what they mention; other tasks publish data; and the calls that publish and unpublish tracks
  wait for the events, or let the events wait for them, so that the client sees both in a fixed order.  The tasks, the calls
  and the room run as interleaved steps.
\<close>

section \<open>State\<close>

datatype room_object =
    ObjRoom | ObjParticipant string | ObjPublication string | ObjTrack string | ObjBuffer bytes
  | ObjByteReader byte_stream_info | ObjTextReader text_stream_info | ObjDataTrack nat | ObjEmpty

text \<open>
  The events of the room: those of its model, and the ones about local publications and data.  \<open>StreamTaken\<close>: a stream whose reader somebody else
  has taken.
\<close>

datatype bridge_event =
    Told told | LocalPublished string | LocalUnpublished string | UserData bytes dp_kind "string option" "string option"
  | StreamTaken any_stream_info string

datatype publish_lane = DataLane | TranscriptionLane | DtmfLane

text \<open>The messages to the client.  A message about a room event carries the handle that was made for it.\<close>

datatype ffi_note =
    PlainNote told | OwnedNote ffi_handle_id told | DataNote ffi_handle_id nat dp_kind string "string option"
  | LocalTrackPublishedNote string | LocalTrackUnpublishedNote string | LocalTrackRepublishedNote ffi_handle_id string string
  | PublishDone u64 ffi_handle_id string | PublishFailed u64 string | UnpublishDone u64 | UnpublishFailed u64 string
  | LaneDone publish_lane u64 "string option" | RoomEos | DisconnectDone u64 | FfiPanic

text \<open>The tasks that calls spawn.\<close>

datatype ffi_call =
    PublishWaits u64 | PublishReturned u64 string | PublishLists string
  | UnpublishWaits u64 string | UnpublishPolls u64 string
  | CloseStarts u64 | CloseRoom u64 | CloseJoins u64 | FfiCallEnded

record ffi_lane =
  fl_queue :: "u64 list"
  fl_busy :: "u64 option"
  fl_ended :: bool

text \<open>
  \<open>fr_waiting\<close>: the track whose publication the room task waits for; \<open>fr_telling\<close>: the track that is noted as unpublished and not yet
  told; \<open>fr_joinable\<close>: the handles of the tasks are there to be taken.
\<close>

record ffi_room =
  fr_server :: "(room_object, ffi_note) ffi_server"
  fr_id :: ffi_handle_id
  fr_reconnecting :: bool
  fr_pending_published :: "string list"
  fr_pending_unpublished :: "string list"
  fr_tracks :: "(string, ffi_handle_id) hashmap"
  fr_publications :: "(string, ffi_handle_id) hashmap"
  fr_events :: "bridge_event list"
  fr_waiting :: "string option"
  fr_telling :: "string option"
  fr_ended :: bool
  fr_calls :: "ffi_call list"
  fr_lanes :: "publish_lane \<Rightarrow> ffi_lane"
  fr_joinable :: bool
  fr_closing :: bool

definition heard :: "ffi_room \<Rightarrow> ffi_note list" where
  "heard r = fs_events (fr_server r)"

definition tell :: "ffi_note \<Rightarrow> ffi_room \<Rightarrow> ffi_room" where
  "tell n r = r\<lparr>fr_server := emit_event n (fr_server r)\<rparr>"

text \<open>A new object and the message that names it.\<close>

definition tell_owned :: "room_object \<Rightarrow> (ffi_handle_id \<Rightarrow> ffi_note) \<Rightarrow> ffi_room \<Rightarrow> ffi_room" where
  "tell_owned x n r =
     (case next_id (fr_server r) of (i, s) \<Rightarrow> tell (n i) (r\<lparr>fr_server := store_handle i x s\<rparr>))"

section \<open>Forwarding the events of the room\<close>

text \<open>A track keeps its handle over a publication again, if the handle is known by the old identifier.\<close>

definition forward_republished :: "string \<Rightarrow> string \<Rightarrow> ffi_room \<Rightarrow> ffi_room" where
  "forward_republished previous sid r =
     (case hm_get (fr_publications r) previous of
        None \<Rightarrow>
          (case next_id (fr_server r) of
             (i, s) \<Rightarrow>
               tell (LocalTrackRepublishedNote i previous sid)
                 (r\<lparr>fr_server := store_handle i (ObjPublication sid) s, fr_publications := hm_insert sid i (fr_publications r)\<rparr>))
      | Some i \<Rightarrow>
          tell (LocalTrackRepublishedNote i previous sid)
            (r\<lparr>fr_server := store_handle i (ObjPublication sid) (fr_server r),
               fr_publications := hm_insert sid i (hm_remove previous (fr_publications r))\<rparr>))"

definition forward_subscribed :: "string \<Rightarrow> string \<Rightarrow> nat \<Rightarrow> ffi_room \<Rightarrow> ffi_room" where
  "forward_subscribed identity sid t r =
     (let i = fs_next (fr_server r)
      in tell_owned (ObjTrack sid) (\<lambda>i. OwnedNote i (ToldEvent (TrackSubscribed identity sid t)))
           (r\<lparr>fr_tracks := hm_insert sid i (fr_tracks r)\<rparr>))"

fun forward_told :: "told \<Rightarrow> ffi_room \<Rightarrow> ffi_room" where
  "forward_told (ToldEvent (ParticipantConnected identity)) r =
     tell_owned (ObjParticipant identity) (\<lambda>i. OwnedNote i (ToldEvent (ParticipantConnected identity))) r"
| "forward_told (ToldEvent (LkParticipant.TrackPublished identity sid)) r =
     tell_owned (ObjPublication sid) (\<lambda>i. OwnedNote i (ToldEvent (LkParticipant.TrackPublished identity sid))) r"
| "forward_told (ToldEvent (TrackSubscribed identity sid t)) r = forward_subscribed identity sid t r"
| "forward_told (ToldEvent RoomReconnecting) r = tell (PlainNote (ToldEvent RoomReconnecting)) (r\<lparr>fr_reconnecting := True\<rparr>)"
| "forward_told (ToldEvent RoomReconnected) r = tell (PlainNote (ToldEvent RoomReconnected)) (r\<lparr>fr_reconnecting := False\<rparr>)"
| "forward_told (ToldNote (NoteConnected ps)) r = r"
| "forward_told (ToldNote (NoteLocalSubscribed t)) r = (if fr_reconnecting r then r else tell (PlainNote (ToldNote (NoteLocalSubscribed t))) r)"
| "forward_told (ToldNote (NoteStreamOpened info identity)) r =
     tell_owned (case info of ByteInfo b \<Rightarrow> ObjByteReader b | TextInfo t \<Rightarrow> ObjTextReader t)
       (\<lambda>i. OwnedNote i (ToldNote (NoteStreamOpened info identity))) r"
| "forward_told (ToldNote (NoteDataTrack info t)) r = tell_owned (ObjDataTrack t) (\<lambda>i. OwnedNote i (ToldNote (NoteDataTrack info t))) r"
| "forward_told (ToldNote (NoteRepublished previous sid)) r = forward_republished previous sid r"
| "forward_told e r = tell (PlainNote e) r"

text \<open>
  A local publication is announced after the call that made it: the announcement waits.  That one has ended is first noted for the
  call that waits, and then told.
\<close>

fun forward_event :: "bridge_event \<Rightarrow> ffi_room \<Rightarrow> ffi_room" where
  "forward_event (Told e) r = forward_told e r"
| "forward_event (LocalPublished sid) r = (if fr_reconnecting r then r else r\<lparr>fr_waiting := Some sid\<rparr>)"
| "forward_event (LocalUnpublished sid) r =
     (if fr_reconnecting r then r
      else r\<lparr>fr_publications := hm_remove sid (fr_publications r), fr_pending_unpublished := List.insert sid (fr_pending_unpublished r),
        fr_telling := Some sid\<rparr>)"
| "forward_event (UserData data kind identity topic) r =
     tell_owned (ObjBuffer data) (\<lambda>i. DataNote i (length data) kind (case identity of Some p \<Rightarrow> p | None \<Rightarrow> []) topic) r"
| "forward_event (StreamTaken info identity) r = r"

text \<open>\<open>room_task\<close>: it takes the next event when it is done with the last one.\<close>

definition ffi_room_task :: "ffi_room \<Rightarrow> ffi_room option" where
  "ffi_room_task r =
     (if fr_ended r then None
      else case (fr_waiting r, fr_telling r) of
             (Some sid, _) \<Rightarrow>
               (if sid \<in> set (fr_pending_published r)
                then Some (tell (LocalTrackPublishedNote sid)
                  (r\<lparr>fr_waiting := None, fr_pending_published := removeAll sid (fr_pending_published r)\<rparr>))
                else None)
           | (None, Some sid) \<Rightarrow> Some (tell (LocalTrackUnpublishedNote sid) (r\<lparr>fr_telling := None\<rparr>))
           | (None, None) \<Rightarrow> (case fr_events r of [] \<Rightarrow> None | e # es \<Rightarrow> Some (forward_event e (r\<lparr>fr_events := es\<rparr>))))"

definition ffi_room_stops :: "ffi_room \<Rightarrow> ffi_room option" where
  "ffi_room_stops r =
     (if \<not> fr_ended r \<and> fr_closing r \<and> fr_waiting r = None \<and> fr_telling r = None then Some (tell RoomEos (r\<lparr>fr_ended := True\<rparr>)) else None)"

section \<open>Calls\<close>

definition set_ffi_call :: "nat \<Rightarrow> ffi_call \<Rightarrow> ffi_room \<Rightarrow> ffi_room" where
  "set_ffi_call c x r = r\<lparr>fr_calls := (fr_calls r)[c := x]\<rparr>"

definition new_call :: "ffi_call \<Rightarrow> ffi_room \<Rightarrow> ffi_room" where
  "new_call x r = r\<lparr>fr_calls := fr_calls r @ [x]\<rparr>"

text \<open>An identifier of a track is read from a string of the client; one that is none makes the task panic.\<close>

definition unpublish_request :: "u64 \<Rightarrow> string \<Rightarrow> ffi_room \<Rightarrow> ffi_room" where
  "unpublish_request a track_sid r =
     (case from_prefix TRACK_PREFIX track_sid of None \<Rightarrow> tell FfiPanic (new_call FfiCallEnded r) | Some sid \<Rightarrow> new_call (UnpublishWaits a sid) r)"

text \<open>The steps of \<open>publish_track\<close>: the room's answer, the callback with the handle of the publication, and the note for the event.\<close>

definition publish_track_answered :: "nat \<Rightarrow> (string, string) outcome \<Rightarrow> ffi_room \<Rightarrow> ffi_room option" where
  "publish_track_answered c res r =
     (if c < length (fr_calls r)
      then (case fr_calls r ! c of
              PublishWaits a \<Rightarrow>
                (case res of
                   Ok sid \<Rightarrow> Some (set_ffi_call c (PublishReturned a sid) r)
                 | Err e \<Rightarrow> Some (set_ffi_call c FfiCallEnded (tell (PublishFailed a e) r))
                 | Panic \<Rightarrow> Some (set_ffi_call c FfiCallEnded r))
            | _ \<Rightarrow> None)
      else None)"

definition unpublish_track_answered :: "nat \<Rightarrow> (string, unit) outcome \<Rightarrow> ffi_room \<Rightarrow> ffi_room option" where
  "unpublish_track_answered c res r =
     (if c < length (fr_calls r)
      then (case fr_calls r ! c of
              UnpublishWaits a sid \<Rightarrow>
                (case res of
                   Ok _ \<Rightarrow> Some (set_ffi_call c (UnpublishPolls a sid) r)
                 | Err e \<Rightarrow> Some (set_ffi_call c FfiCallEnded (tell (UnpublishFailed a e) r))
                 | Panic \<Rightarrow> Some (set_ffi_call c FfiCallEnded (tell FfiPanic r)))
            | _ \<Rightarrow> None)
      else None)"

text \<open>Closing: the handles of tracks stay valid, but for an empty object.\<close>

fun drop_tracks :: "(string \<times> ffi_handle_id) list \<Rightarrow> (room_object, ffi_note) ffi_server \<Rightarrow> (room_object, ffi_note) ffi_server" where
  "drop_tracks [] s = s"
| "drop_tracks ((sid, i) # ts) s =
     drop_tracks ts (case drop_handle i s of (existed, s1) \<Rightarrow> if existed then store_handle i ObjEmpty s1 else s1)"

definition tasks_ended :: "ffi_room \<Rightarrow> bool" where
  "tasks_ended r \<longleftrightarrow> fr_ended r \<and> fl_ended (fr_lanes r DataLane) \<and> fl_ended (fr_lanes r TranscriptionLane) \<and> fl_ended (fr_lanes r DtmfLane)"

text \<open>\<open>CloseRoom\<close> is left when the room has closed.\<close>

definition ffi_call_step :: "nat \<Rightarrow> ffi_room \<Rightarrow> ffi_room option" where
  "ffi_call_step c r =
     (if c < length (fr_calls r)
      then (case fr_calls r ! c of
              PublishReturned a sid \<Rightarrow>
                Some (set_ffi_call c (PublishLists sid) (tell_owned (ObjPublication sid) (\<lambda>i. PublishDone a i sid) r))
            | PublishLists sid \<Rightarrow>
                Some (set_ffi_call c FfiCallEnded (r\<lparr>fr_pending_published := List.insert sid (fr_pending_published r)\<rparr>))
            | UnpublishPolls a sid \<Rightarrow>
                (if sid \<in> set (fr_pending_unpublished r)
                 then Some (set_ffi_call c FfiCallEnded (tell (UnpublishDone a) (r\<lparr>fr_pending_unpublished := removeAll sid (fr_pending_unpublished r)\<rparr>)))
                 else None)
            | CloseStarts a \<Rightarrow> Some (set_ffi_call c (CloseRoom a) (r\<lparr>fr_server := drop_tracks (fr_tracks r) (fr_server r)\<rparr>))
            | CloseRoom a \<Rightarrow>
                (if fr_joinable r then Some (set_ffi_call c (CloseJoins a) (r\<lparr>fr_joinable := False, fr_closing := True\<rparr>))
                 else Some (set_ffi_call c FfiCallEnded (tell (DisconnectDone a) r)))
            | CloseJoins a \<Rightarrow> (if tasks_ended r then Some (set_ffi_call c FfiCallEnded (tell (DisconnectDone a) r)) else None)
            | _ \<Rightarrow> None)
      else None)"

section \<open>Publishing data\<close>

definition set_lane :: "publish_lane \<Rightarrow> ffi_lane \<Rightarrow> ffi_room \<Rightarrow> ffi_room" where
  "set_lane l x r = r\<lparr>fr_lanes := (fr_lanes r)(l := x)\<rparr>"

definition closed_error :: "publish_lane \<Rightarrow> string" where
  "closed_error l =
     (case l of
        DataLane \<Rightarrow> ''failed to send data, room closed''
      | TranscriptionLane \<Rightarrow> ''failed to send transcription, room closed''
      | DtmfLane \<Rightarrow> ''failed to send SIP DTMF message, room closed'')"

text \<open>A request joins the queue; after the task has ended it is answered with an error.\<close>

definition publish_request :: "publish_lane \<Rightarrow> u64 \<Rightarrow> ffi_room \<Rightarrow> ffi_room" where
  "publish_request l a r =
     (let x = fr_lanes r l
      in if fl_ended x then tell (LaneDone l a (Some (closed_error l))) r else set_lane l (x\<lparr>fl_queue := fl_queue x @ [a]\<rparr>) r)"

definition lane_takes :: "publish_lane \<Rightarrow> ffi_room \<Rightarrow> ffi_room option" where
  "lane_takes l r =
     (let x = fr_lanes r l
      in case fl_queue x of
           [] \<Rightarrow> None
         | a # q \<Rightarrow> if fl_ended x \<or> fl_busy x \<noteq> None then None else Some (set_lane l (x\<lparr>fl_queue := q, fl_busy := Some a\<rparr>) r))"

definition lane_published :: "publish_lane \<Rightarrow> string option \<Rightarrow> ffi_room \<Rightarrow> ffi_room option" where
  "lane_published l err r =
     (let x = fr_lanes r l
      in case fl_busy x of None \<Rightarrow> None | Some a \<Rightarrow> Some (tell (LaneDone l a err) (set_lane l (x\<lparr>fl_busy := None\<rparr>) r)))"

text \<open>A task that ends drops its queue.\<close>

definition lane_stops :: "publish_lane \<Rightarrow> ffi_room \<Rightarrow> ffi_room option" where
  "lane_stops l r =
     (let x = fr_lanes r l
      in if fr_closing r \<and> \<not> fl_ended x \<and> fl_busy x = None then Some (set_lane l (x\<lparr>fl_queue := [], fl_ended := True\<rparr>) r) else None)"

section \<open>Steps\<close>

datatype ffi_step =
    RoomTells bridge_event | RoomTaskRuns | RoomTaskStops
  | PublishTrackCall u64 | PublishAnswer nat "(string, string) outcome" | UnpublishTrackCall u64 string | UnpublishAnswer nat "(string, unit) outcome"
  | DisconnectCall u64 | CallRuns nat
  | ClientDrops ffi_handle_id | PublishDataCall publish_lane u64 | LaneTakes publish_lane | LanePublished publish_lane "string option" | LaneStops publish_lane

fun ffi_room_apply :: "ffi_step \<Rightarrow> ffi_room \<Rightarrow> ffi_room option" where
  "ffi_room_apply (RoomTells e) r = Some (r\<lparr>fr_events := fr_events r @ [e]\<rparr>)"
| "ffi_room_apply RoomTaskRuns r = ffi_room_task r"
| "ffi_room_apply RoomTaskStops r = ffi_room_stops r"
| "ffi_room_apply (PublishTrackCall a) r = Some (new_call (PublishWaits a) r)"
| "ffi_room_apply (PublishAnswer c res) r = publish_track_answered c res r"
| "ffi_room_apply (UnpublishTrackCall a sid) r = Some (unpublish_request a sid r)"
| "ffi_room_apply (UnpublishAnswer c res) r = unpublish_track_answered c res r"
| "ffi_room_apply (DisconnectCall a) r = Some (new_call (CloseStarts a) r)"
| "ffi_room_apply (CallRuns c) r = ffi_call_step c r"
| "ffi_room_apply (ClientDrops i) r = Some (r\<lparr>fr_server := snd (drop_handle i (fr_server r))\<rparr>)"
| "ffi_room_apply (PublishDataCall l a) r = Some (publish_request l a r)"
| "ffi_room_apply (LaneTakes l) r = lane_takes l r"
| "ffi_room_apply (LanePublished l err) r = lane_published l err r"
| "ffi_room_apply (LaneStops l) r = lane_stops l r"

text \<open>After the callback of the connection: the tasks start, and nothing has been told.\<close>

definition ffi_room_new :: "(room_object, ffi_note) ffi_server \<Rightarrow> ffi_handle_id \<Rightarrow> ffi_room" where
  "ffi_room_new s i =
     \<lparr>fr_server = s, fr_id = i, fr_reconnecting = False, fr_pending_published = [], fr_pending_unpublished = [], fr_tracks = [],
      fr_publications = [], fr_events = [], fr_waiting = None, fr_telling = None, fr_ended = False, fr_calls = [],
      fr_lanes = (\<lambda>_. \<lparr>fl_queue = [], fl_busy = None, fl_ended = False\<rparr>), fr_joinable = True, fr_closing = False\<rparr>"

section \<open>The order in which the client hears\<close>

text \<open>A publication is announced after its call was answered, and the end of the room is the last that is told of it.\<close>

fun about_the_room :: "ffi_note \<Rightarrow> bool" where
  "about_the_room (PlainNote e) \<longleftrightarrow> True"
| "about_the_room (OwnedNote i e) \<longleftrightarrow> True"
| "about_the_room (DataNote i n kind identity topic) \<longleftrightarrow> True"
| "about_the_room (LocalTrackPublishedNote sid) \<longleftrightarrow> True"
| "about_the_room (LocalTrackUnpublishedNote sid) \<longleftrightarrow> True"
| "about_the_room (LocalTrackRepublishedNote i previous sid) \<longleftrightarrow> True"
| "about_the_room RoomEos \<longleftrightarrow> True"
| "about_the_room _ \<longleftrightarrow> False"

definition note_ok :: "ffi_note list \<Rightarrow> ffi_note \<Rightarrow> bool" where
  "note_ok before n \<longleftrightarrow>
     (about_the_room n \<longrightarrow> RoomEos \<notin> set before) \<and>
     (case n of LocalTrackPublishedNote sid \<Rightarrow> \<exists>a i. PublishDone a i sid \<in> set before | _ \<Rightarrow> True)"






lemma tell_simps [simp]:
  "fr_pending_published (tell n r) = fr_pending_published r" "fr_pending_unpublished (tell n r) = fr_pending_unpublished r"
  "fr_calls (tell n r) = fr_calls r" "fr_waiting (tell n r) = fr_waiting r" "fr_events (tell n r) = fr_events r"
  "fr_reconnecting (tell n r) = fr_reconnecting r" "fr_ended (tell n r) = fr_ended r" "fr_lanes (tell n r) = fr_lanes r"
  "fs_setup (fr_server (tell n r)) = fs_setup (fr_server r)" "fs_handles (fr_server (tell n r)) = fs_handles (fr_server r)"
  "fs_setup (fr_server r) \<Longrightarrow> heard (tell n r) = heard r @ [n]"
  by (simp_all add: tell_def emit_event_def send_event_def heard_def)

lemma heard_frame [simp]:
  "heard (r\<lparr>fr_reconnecting := b\<rparr>) = heard r" "heard (r\<lparr>fr_pending_published := l\<rparr>) = heard r" "heard (r\<lparr>fr_pending_unpublished := l\<rparr>) = heard r"
  "heard (r\<lparr>fr_tracks := m\<rparr>) = heard r" "heard (r\<lparr>fr_publications := m\<rparr>) = heard r" "heard (r\<lparr>fr_events := q\<rparr>) = heard r"
  "heard (r\<lparr>fr_waiting := w\<rparr>) = heard r" "heard (r\<lparr>fr_telling := w\<rparr>) = heard r" "heard (r\<lparr>fr_ended := b\<rparr>) = heard r" "heard (r\<lparr>fr_calls := cs\<rparr>) = heard r"
  "heard (r\<lparr>fr_lanes := ls\<rparr>) = heard r" "heard (r\<lparr>fr_joinable := b\<rparr>) = heard r" "heard (r\<lparr>fr_closing := b\<rparr>) = heard r"
  by (simp_all add: heard_def)

lemma store_handle_simps [simp]:
  "fs_setup (store_handle i x s) = fs_setup s" "fs_events (store_handle i x s) = fs_events s" "fs_next (store_handle i x s) = fs_next s"
  "hm_contains (fs_handles (store_handle i x s)) j \<longleftrightarrow> j = i \<or> hm_contains (fs_handles s) j"
  by (simp_all add: store_handle_def)

lemma tell_owned_simps [simp]:
  "fr_pending_published (tell_owned x n r) = fr_pending_published r" "fr_pending_unpublished (tell_owned x n r) = fr_pending_unpublished r"
  "fr_calls (tell_owned x n r) = fr_calls r" "fr_waiting (tell_owned x n r) = fr_waiting r" "fr_events (tell_owned x n r) = fr_events r"
  "fr_reconnecting (tell_owned x n r) = fr_reconnecting r" "fr_ended (tell_owned x n r) = fr_ended r" "fr_lanes (tell_owned x n r) = fr_lanes r"
  "fs_setup (fr_server (tell_owned x n r)) = fs_setup (fr_server r)"
  "hm_contains (fs_handles (fr_server (tell_owned x n r))) j \<longleftrightarrow> j = fs_next (fr_server r) \<or> hm_contains (fs_handles (fr_server r)) j"
  "fs_setup (fr_server r) \<Longrightarrow> heard (tell_owned x n r) = heard r @ [n (fs_next (fr_server r))]"
  by (simp_all add: tell_owned_def next_id_def heard_def tell_def emit_event_def send_event_def del: hm_contains_iff)








lemma note_ok_calls [simp]:
  "note_ok before (PublishDone a i sid)" "note_ok before (PublishFailed a e)" "note_ok before (UnpublishDone a)"
  "note_ok before (UnpublishFailed a e)" "note_ok before (LaneDone l a err)" "note_ok before (DisconnectDone a)" "note_ok before FfiPanic"
  by (simp_all add: note_ok_def)









lemma set_ffi_call_simps [simp]:
  "fr_server (set_ffi_call c x r) = fr_server r" "heard (set_ffi_call c x r) = heard r" "fr_pending_published (set_ffi_call c x r) = fr_pending_published r"
  "fr_pending_unpublished (set_ffi_call c x r) = fr_pending_unpublished r" "fr_ended (set_ffi_call c x r) = fr_ended r" "fr_calls (set_ffi_call c x r) = (fr_calls r)[c := x]"
  "fr_lanes (set_ffi_call c x r) = fr_lanes r"
  by (simp_all add: set_ffi_call_def heard_def)

lemma set_lane_simps [simp]:
  "fr_server (set_lane l x r) = fr_server r" "heard (set_lane l x r) = heard r" "fr_pending_published (set_lane l x r) = fr_pending_published r"
  "fr_ended (set_lane l x r) = fr_ended r" "fr_calls (set_lane l x r) = fr_calls r" "fr_lanes (set_lane l x r) = (fr_lanes r)(l := x)"
  by (simp_all add: set_lane_def heard_def)















section \<open>Publishing data in order\<close>

fun answered :: "publish_lane \<Rightarrow> ffi_note list \<Rightarrow> u64 list" where
  "answered l [] = []"
| "answered l (LaneDone k a err # ns) = (if k = l then a # answered l ns else answered l ns)"
| "answered l (_ # ns) = answered l ns"

fun requested :: "publish_lane \<Rightarrow> ffi_step list \<Rightarrow> u64 list" where
  "requested l [] = []"
| "requested l (PublishDataCall k a # es) = (if k = l then a # requested l es else requested l es)"
| "requested l (_ # es) = requested l es"



lemma answered_append [simp]: "answered l (ns @ ms) = answered l ns @ answered l ms"
  by (induction l ns rule: answered.induct) simp_all

lemma requested_append [simp]: "requested l (es @ fs) = requested l es @ requested l fs"
  by (induction l es rule: requested.induct) simp_all









section \<open>What goes wrong\<close>

text \<open>
  A call that unpublishes waits for the event of its track; outside of reconnections the event comes, but a reconnecting room ignores it, and
  then nothing ends the wait.
\<close>

definition waits_for :: "nat \<Rightarrow> u64 \<Rightarrow> string \<Rightarrow> ffi_room \<Rightarrow> bool" where
  "waits_for c a sid r \<longleftrightarrow>
     c < length (fr_calls r) \<and> fr_calls r ! c = UnpublishPolls a sid \<and> sid \<notin> set (fr_pending_unpublished r) \<and>
     LocalUnpublished sid \<notin> set (fr_events r)"

lemma forward_told_frame:
  "fr_calls (forward_told e r) = fr_calls r \<and> fr_pending_unpublished (forward_told e r) = fr_pending_unpublished r \<and>
   fr_events (forward_told e r) = fr_events r"
  by (cases "(e, r)" rule: forward_told.cases)
    (auto simp: forward_subscribed_def forward_republished_def next_id_def Let_def split: option.splits)

lemma waits_for_task:
  assumes w: "waits_for c a sid r" and step: "ffi_room_task r = Some r'"
  shows "waits_for c a sid r'"
proof -
  have events: "waits_for c a sid (forward_event e (r\<lparr>fr_events := es\<rparr>))" if "fr_events r = e # es" for e es
    using w that forward_told_frame [of _ "r\<lparr>fr_events := es\<rparr>"] by (cases e) (auto simp: waits_for_def)
  show ?thesis
    using step w events
    by (auto simp: ffi_room_task_def waits_for_def split: if_splits option.splits list.splits)
qed

lemma waits_for_call:
  assumes w: "waits_for c a sid r" and step: "ffi_call_step d r = Some r'"
  shows "waits_for c a sid r'"
proof (cases "d = c")
  case True
  then show ?thesis using w step by (simp add: waits_for_def ffi_call_step_def)
next
  case False
  then show ?thesis using w step
    by (auto simp: waits_for_def ffi_call_step_def set_ffi_call_def tell_owned_def next_id_def tell_def split: if_splits ffi_call.splits)
qed

lemma waits_for_step:
  assumes w: "waits_for c a sid r" and step: "ffi_room_apply e r = Some r'" and e: "e \<noteq> RoomTells (LocalUnpublished sid)"
  shows "waits_for c a sid r'"
proof (cases e)
  case (UnpublishTrackCall b s)
  then show ?thesis using w step
    by (auto simp: waits_for_def unpublish_request_def new_call_def nth_append split: option.splits)
next
  case (PublishAnswer d res)
  then show ?thesis using w step
    by (cases "d = c") (auto simp: waits_for_def publish_track_answered_def set_ffi_call_def split: if_splits ffi_call.splits outcome.splits)
next
  case (UnpublishAnswer d res)
  then show ?thesis using w step
    by (cases "d = c") (auto simp: waits_for_def unpublish_track_answered_def set_ffi_call_def split: if_splits ffi_call.splits outcome.splits)
next
  case (PublishDataCall l b)
  then show ?thesis using w step by (auto simp: waits_for_def publish_request_def set_lane_def Let_def split: if_splits)
next
  case (LaneTakes l)
  then show ?thesis using w step by (auto simp: waits_for_def lane_takes_def set_lane_def Let_def split: if_splits list.splits)
next
  case (LanePublished l err)
  then show ?thesis using w step by (auto simp: waits_for_def lane_published_def set_lane_def Let_def split: option.splits)
next
  case (LaneStops l)
  then show ?thesis using w step by (auto simp: waits_for_def lane_stops_def set_lane_def Let_def split: if_splits)
qed (use w step e waits_for_task [OF w] waits_for_call [OF w] in
     \<open>auto simp: waits_for_def ffi_room_stops_def new_call_def nth_append split: if_splits\<close>)

lemma unpublish_waits_for_its_event:
  "run_enabled ffi_room_apply es r = Some r' \<Longrightarrow> waits_for c a sid r \<Longrightarrow> RoomTells (LocalUnpublished sid) \<notin> set es \<Longrightarrow>
    fr_calls r' ! c = UnpublishPolls a sid"
proof (induction es arbitrary: r)
  case (Cons e es)
  from Cons.prems(1) obtain r1 where r1: "ffi_room_apply e r = Some r1" "run_enabled ffi_room_apply es r1 = Some r'"
    by (rule run_enabled_ConsE)
  have "e \<noteq> RoomTells (LocalUnpublished sid)" using Cons.prems(3) by auto
  then show ?case using Cons.IH [OF r1(2) waits_for_step [OF Cons.prems(2) r1(1)]] Cons.prems(3) by simp
qed (simp add: waits_for_def)

lemma reconnecting_ignores: "fr_reconnecting r \<Longrightarrow> forward_event (LocalUnpublished sid) r = r \<and> forward_event (LocalPublished sid) r = r"
  by simp

text \<open>
  The runs below: a call is told that its track is unpublished before the event is; a track that is published in a reconnection is never
  announced; the first republication of a track gives it a new handle, although its call gave it one; a request for data that is queued when the
  room closes is never answered; and a second disconnection is answered while the first one still waits.
\<close>

definition a_bridge :: ffi_room where
  "a_bridge = ffi_room_new (ffi_setup True ffi_server_default) 0"

lemma bridge_runs:
  "map_option heard (run_enabled ffi_room_apply
      [UnpublishTrackCall 5 ''TR_a'', UnpublishAnswer 0 (Ok ()), RoomTells (LocalUnpublished ''TR_a''), RoomTaskRuns, CallRuns 0, RoomTaskRuns] a_bridge)
    = Some [UnpublishDone 5, LocalTrackUnpublishedNote ''TR_a'']"
  "map_option (\<lambda>r. (heard r, fr_events r, fr_waiting r)) (run_enabled ffi_room_apply
      [RoomTells (Told (ToldEvent RoomReconnecting)), RoomTaskRuns, PublishTrackCall 5, RoomTells (LocalPublished ''TR_a''), PublishAnswer 0 (Ok ''TR_a''),
       CallRuns 0, CallRuns 0, RoomTaskRuns] a_bridge)
    = Some ([PlainNote (ToldEvent RoomReconnecting), PublishDone 5 1 ''TR_a''], [], None)"
  "map_option heard (run_enabled ffi_room_apply
      [PublishTrackCall 5, PublishAnswer 0 (Ok ''TR_a''), RoomTells (LocalPublished ''TR_a''), CallRuns 0, CallRuns 0, RoomTaskRuns, RoomTaskRuns,
       RoomTells (Told (ToldNote (NoteRepublished ''TR_a'' ''TR_b''))), RoomTaskRuns] a_bridge)
    = Some [PublishDone 5 1 ''TR_a'', LocalTrackPublishedNote ''TR_a'', LocalTrackRepublishedNote 2 ''TR_a'' ''TR_b'']"
  "map_option heard (run_enabled ffi_room_apply
      [PublishDataCall DataLane 5, DisconnectCall 6, CallRuns 0, CallRuns 0, LaneStops DataLane, LaneStops TranscriptionLane, LaneStops DtmfLane,
       RoomTaskStops, CallRuns 0] a_bridge)
    = Some [RoomEos, DisconnectDone 6]"
  "map_option heard (run_enabled ffi_room_apply
      [DisconnectCall 6, DisconnectCall 7, CallRuns 0, CallRuns 0, CallRuns 1, CallRuns 1] a_bridge)
    = Some [DisconnectDone 7]"
  by code_simp+

section \<open>Properties\<close>


end
