(* ===== verification/Spec2Isabelle.thy ===== *)
theory Spec2Isabelle
  imports DtProto LkDataStream LkRpc LkDcSender LkReliable LkNegotiation LkRoom LkTransport LkOptions LkSignal LkConnect LkSession LkToken LkLocal LkMessages LkLifecycle LkRoomLife LkSettings LkImage LkConvert LkFfiRoom
begin

text \<open>
  A model of the LiveKit client SDK in Rust, with the theorems that make its parts correct.

  \<^bold>\<open>The program.\<close>  A client joins a room through a signal connection and exchanges media and
  data with a server over WebRTC.  The crate \<open>livekit-datatrack\<close> carries frames of data tracks
  in its own packet format; the crate \<open>livekit\<close> holds the engine, which keeps one session with
  the server alive, and the room, which turns what the engine reports into participants,
  publications and events for the application, together with data streams, remote procedure
  calls and small utilities; \<open>livekit-api\<close> holds the signal client.  The parts run as tasks that
  exchange messages; each is modelled as functions on its state, and where several tasks
  share a state as a machine whose steps the tasks take in any order.

  \<^bold>\<open>Shared theories.\<close>
  \<^item> \<open>LKPrelude\<close>: machine integers as words, bytes, the outcome of a function (value, error
    or panic), big-endian integers.
  \<^item> \<open>LKInterfaces\<close>: the interfaces as locales: a codec, an event machine with an invariant, a
    machine whose steps are not always enabled, a first-in first-out queue.  Each is
    interpreted on the model in the theory that provides it.
  \<^item> \<open>LKMaps\<close>: \<open>HashMap\<close> and \<open>BTreeMap\<close> as association lists with distinct keys.
  \<^item> \<open>LKText\<close>: \<open>str\<close> as a list of Unicode scalar values; splitting and joining.
  \<^item> \<open>LKFloat\<close>: \<open>f32\<close> and \<open>f64\<close> as rationals with exact rounding, ties to even.

  \<^bold>\<open>Data tracks\<close> (\<open>livekit-datatrack/src\<close>).
  \<^item> \<open>DtPacket\<close>: \<open>packet/*.rs\<close>, the header with its extensions, writer and reader, the handle
    allocator and the media clock.  A written packet reads back; the reader is total on every
    input and accepts only well-formed packets.
  \<^item> \<open>DtPacketizer\<close>, \<open>DtDepacketizer\<close>: \<open>local/packetizer.rs\<close> and \<open>remote/depacketizer.rs\<close>.  The
    layout of the packets of a frame; where a delivered frame comes from; at most 128
    packets are buffered and a longer frame is never delivered.
  \<^item> \<open>DtPipeline\<close>: both pipelines, the frame and the interface of the encryption providers.
    A frame pushed at one end comes out at the other, over bytes on the wire.
  \<^item> \<open>DtTrack\<close>, \<open>DtLocal\<close>, \<open>DtRemote\<close>, \<open>DtProto\<close>: the track identifiers, the two managers
    (\<open>local/manager.rs\<close>, \<open>remote/manager.rs\<close>) with every handler, and the protocol conversions.
    Invariants of both managers under any events; what a publication, a republication and a
    subscription do; the shutdown returns exactly when no task is stuck.

  \<^bold>\<open>The client\<close> (\<open>livekit/src\<close>).
  \<^item> \<open>LkUtils\<close>: \<open>utils/*.rs\<close>.
  \<^item> \<open>LkDataStream\<close>: \<open>room/data_stream\<close>.  What is sent as a stream of bytes or text is what the
    reader gets, while the streams of others interleave; a reader that finishes without an
    error has all announced bytes.
  \<^item> \<open>LkRpc\<close>: \<open>rpc\<close>, the caller with its two pending maps and timers, the responder.  A call
    returns what the table of outcomes of its handler says.
  \<^item> \<open>LkDcSender\<close>, \<open>LkReliable\<close>: \<open>rtc_engine/dc_sender.rs\<close> and the data channel task of
    \<open>rtc_engine/rtc_session.rs\<close>.  Whole frames in order; reliable packets are numbered
    consecutively and reach the channel once each, in order.
  \<^item> \<open>LkNegotiation\<close>: the negotiation queue of \<open>rtc_session.rs\<close> as interleaved tasks.
  \<^item> \<open>LkTransport\<close>: \<open>rtc_engine/peer_transport.rs\<close>.  The rewriting of offers, line by line; the
    start bitrate; the pending candidates; when a call waits for its own lock.
  \<^item> \<open>LkEngine\<close>: \<open>rtc_engine/mod.rs\<close>, joining, waiting, reconnecting and closing as
    interleaved steps.  A reconnect ends within 59 of its steps (ten attempts of at most five
    steps, and the closing ones) and announces exactly one outcome; an operation that waits
    gets a live session.
  \<^item> \<open>LkParticipant\<close>, \<open>LkRoom\<close>: \<open>room/participant\<close>, \<open>room/publication\<close> and \<open>room/mod.rs\<close>.  The
    room follows the roster of the server (a refinement); a listener that follows the events
    has exactly the participants and tracks of the room; the connection state settles when
    the engine of \<open>LkEngine\<close> does, over the events that engine emits.
  \<^item> \<open>LkOptions\<close>: \<open>room/options.rs\<close>.  The encodings and layers of a published video track,
    over exact floating-point arithmetic; when the computation panics.
  \<^item> \<open>LkSignal\<close>, \<open>LkConnect\<close>: \<open>livekit-api/src/signal_client\<close>.  The stream slot with its lock, the
    queue and the tasks that use them, as interleaved steps: no message disappears unseen,
    one connection at a time, and two ways in which the client can wait for ever.  Connecting
    over the two paths and the regions, and the task that receives.
  \<^item> \<open>LkSession\<close>: the data packets of \<open>rtc_engine/rtc_session.rs\<close> with the encryption manager of
    \<open>room/e2ee/manager.rs\<close>, the publications that wait for the server, and the handler of every
    message of the server: what crosses between two sessions, and which message ends the task
    that receives.
  \<^item> \<open>LkToken\<close>: \<open>livekit-api/src/access_token.rs\<close>, \<open>webhooks.rs\<close>.  For whom and how long a token
    verifies, and when a webhook is accepted.
  \<^item> \<open>LkLocal\<close>: the tracks and publications of the local participant
    (\<open>room/participant/local_participant.rs\<close>, \<open>room/publication/local.rs\<close>, \<open>room/track\<close>) as objects in
    two stores, with publications that are under way while tracks are muted: when a muted track
    sends, and what exactly muting reports.
  \<^item> \<open>LkMessages\<close>: the packets, permissions and requests of \<open>local_participant.rs\<close>; chat messages arrive
    as the calls returned them; a response that comes too early is lost.
  \<^item> \<open>LkLifecycle\<close>: the rest of \<open>rtc_engine/rtc_session.rs\<close>, connecting, waiting, resuming, the events of the
    transports, and closing with the tasks of the session as interleaved steps.
  \<^item> \<open>LkRoomLife\<close>: the rest of \<open>room/mod.rs\<close>.  From joining on, the events tell the whole room; the state sent after a
    resume restores the subscriptions; media tracks and messages; closing, with the tasks of the
    room as interleaved steps: what has ended when, and what a panicking handler does to it.
  \<^item> \<open>LkSettings\<close>: what a subscriber asks of a remote track (\<open>room/publication/remote.rs\<close>): the server
    follows when the tasks that send run in order, and what happens when they do not.
  \<^item> \<open>LkImage\<close>: \<open>imgproc/src/colorcvt\<close>.  The checks of the image formats and every conversion: no
    call of the image library leaves its buffers, unless a product wraps.
  \<^item> \<open>LkConvert\<close>: \<open>livekit-ffi/src/server/colorcvt\<close>.  For every pair of image types and every well-described
    image: refused, panicking, or the exact buffer that is returned; frames of the library in both directions.
  \<^item> \<open>LkFfi\<close>: \<open>livekit-ffi/src/server/mod.rs\<close>, \<open>cabi.rs\<close>, \<open>server/data_track.rs\<close>.  Handles with those who watch
    them, and the stream of a data track: what a handle names, what waits for it, which frames are sent.
  \<^item> \<open>LkFfiRoom\<close>: \<open>livekit-ffi/src/server/room.rs\<close>.  The task that tells the client what happens in a room, its
    calls and its closing, as interleaved steps: what comes after what, and which calls are never answered.

  \<^bold>\<open>Conventions.\<close>  A definition is named after the Rust item it translates, with a suffix or a
  prefix where the name is taken; a panic (\<open>unwrap\<close>, \<open>expect\<close>, an index out of range) is a value
  of the model; an \<open>async\<close> function is cut at its \<open>await\<close> points when other tasks can
  interfere there; time, randomness, the server, the WebRTC library and the encryption
  providers are inputs or parameters, and what is relied on of them is a named hypothesis.
  Log lines, metrics and debug assertions are left out.  Loops are structural or have a
  termination proof; no fuel is used.

  \<^bold>\<open>Not modelled.\<close>  The bindings to the WebRTC library (\<open>libwebrtc\<close>, \<open>webrtc-sys\<close>,
  \<open>yuv-sys\<close>, \<open>soxr-sys\<close>): calls into C++ code that is not in the repository.  The generated
  protocol (\<open>livekit-protocol\<close>): messages appear with the fields the code uses.  The foreign
  function interface (\<open>livekit-ffi\<close>, \<open>livekit-uniffi\<close>): it forwards requests to the client; of it, the
  image conversions, the store of handles, the tasks of a room and the streams of data tracks are modelled.
  The wake word model (\<open>livekit-wakeword\<close>): numeric kernels on media.  The service clients of \<open>livekit-api/src/services\<close>: one remote request each.
  Of local and remote media tracks, the calls into the WebRTC library, and packet trailers.
  In the room, the set-up of encryption and of the callbacks that make room events of participant events.
  Examples and tests.
\<close>

end
